(* ===== verification/Prelude.thy ===== *)
theory Prelude
  imports Main "HOL-Library.Word" "HOL-Library.Char_ord" "HOL-Library.List_Lexorder"
begin

text \<open>
  The prelude of the development: results and error values, the parts of Rust's
  \<open>str\<close> and integer parsing the daemon uses, and the interfaces (locales) that
  several components share.

  A Rust \<open>String\<close> is modelled as an Isabelle \<open>string\<close> whose characters are the
  Unicode scalar values U+0000 to U+00FF, one \<open>char\<close> each: \<open>chars().count()\<close> is
  \<open>length\<close>, \<open>len()\<close> (bytes of the UTF-8 encoding) is \<open>byte_len\<close>, and \<open>Ord\<close>
  on strings, which is the order of the code points, is the lexicographic order.
\<close>

named_theorems result_simps
named_theorems str_simps

section \<open>Results\<close>

type_synonym ('e, 'a) result = "'e + 'a"

text \<open>The classes of \<open>exec::ModuleError\<close>; \<open>Other\<close> is any other \<open>anyhow\<close> error.\<close>

datatype 'e module_error = Invalid 'e | Precondition 'e | NotFound 'e | Other 'e

definition map_err :: "('e \<Rightarrow> 'f) \<Rightarrow> 'e + 'a \<Rightarrow> 'f + 'a" where
  "map_err f r = (case r of Inl e \<Rightarrow> Inl (f e) | Inr x \<Rightarrow> Inr x)"

definition map_ok :: "('a \<Rightarrow> 'b) \<Rightarrow> 'e + 'a \<Rightarrow> 'e + 'b" where
  "map_ok f r = (case r of Inl e \<Rightarrow> Inl e | Inr x \<Rightarrow> Inr (f x))"

definition and_then :: "'e + 'a \<Rightarrow> ('a \<Rightarrow> 'e + 'b) \<Rightarrow> 'e + 'b" where
  "and_then r f = (case r of Inl e \<Rightarrow> Inl e | Inr x \<Rightarrow> f x)"

definition ok_of :: "'e + 'a \<Rightarrow> 'a option" where
  "ok_of r = (case r of Inl e \<Rightarrow> None | Inr x \<Rightarrow> Some x)"

definition ok_or :: "'e \<Rightarrow> 'a option \<Rightarrow> 'e + 'a" where
  "ok_or e r = (case r of None \<Rightarrow> Inl e | Some x \<Rightarrow> Inr x)"

definition guard :: "bool \<Rightarrow> 'e \<Rightarrow> 'e + unit" where
  "guard c e = (if c then Inr () else Inl e)"

lemma map_err_simps [simp, result_simps]:
  "map_err f (Inl e) = Inl (f e)" "map_err f (Inr x) = Inr x"
  by (simp_all add: map_err_def)

lemma map_ok_simps [simp, result_simps]:
  "map_ok f (Inl e) = Inl e" "map_ok f (Inr x) = Inr (f x)"
  by (simp_all add: map_ok_def)

lemma and_then_simps [simp, result_simps]:
  "and_then (Inl e) f = Inl e" "and_then (Inr x) f = f x"
  by (simp_all add: and_then_def)

lemma ok_of_simps [simp, result_simps]:
  "ok_of (Inl e) = None" "ok_of (Inr x) = Some x"
  by (simp_all add: ok_of_def)

lemma map_err_Inr_iff [simp]: "map_err f r = Inr x \<longleftrightarrow> r = Inr x"
  by (cases r) auto

lemma map_ok_Inr_iff [simp]: "map_ok f r = Inr y \<longleftrightarrow> (\<exists>x. r = Inr x \<and> y = f x)"
  by (cases r) auto

lemma and_then_Inr_iff [simp]: "and_then r f = Inr y \<longleftrightarrow> (\<exists>x. r = Inr x \<and> f x = Inr y)"
  by (cases r) auto

lemma guard_Inr_iff [simp]: "guard c e = Inr u \<longleftrightarrow> c"
  by (simp add: guard_def)

lemma ok_of_Some_iff [simp]: "ok_of r = Some x \<longleftrightarrow> r = Inr x"
  by (cases r) auto

lemma ok_or_Inr_iff [simp]: "ok_or e r = Inr x \<longleftrightarrow> r = Some x"
  by (cases r) (auto simp: ok_or_def)

text \<open>\<open>for x in xs { out.push(f(x)?) }\<close>: the first error wins.\<close>

fun traverse :: "('a \<Rightarrow> 'e + 'b) \<Rightarrow> 'a list \<Rightarrow> 'e + 'b list" where
  "traverse f [] = Inr []"
| "traverse f (x # xs) = and_then (f x) (\<lambda>y. map_ok (\<lambda>ys. y # ys) (traverse f xs))"

lemma traverse_Inr_iff:
  "traverse f xs = Inr ys \<longleftrightarrow> list_all2 (\<lambda>x y. f x = Inr y) xs ys"
proof (induction xs arbitrary: ys)
  case Nil
  then show ?case by auto
next
  case (Cons x xs)
  then show ?case by (auto simp: list_all2_Cons1)
qed

lemma traverse_append:
  "traverse f (xs @ ys) = and_then (traverse f xs) (\<lambda>us. map_ok (\<lambda>vs. us @ vs) (traverse f ys))"
proof (induction xs)
  case Nil
  then show ?case by (cases "traverse f ys") auto
next
  case (Cons x xs)
  then show ?case
    by (cases "f x"; cases "traverse f xs"; cases "traverse f ys") auto
qed

lemma traverse_same: "(\<And>x. x \<in> set xs \<Longrightarrow> f x = Inr (g x)) \<Longrightarrow> traverse f xs = Inr (map g xs)"
  by (induction xs) auto

lemma traverse_set: "traverse f xs = Inr ys \<Longrightarrow> y \<in> set ys \<Longrightarrow> \<exists>x \<in> set xs. f x = Inr y"
  by (induction xs arbitrary: ys) auto

lemma traverse_all:
  "traverse f xs = Inr ys \<Longrightarrow> (\<And>x y. f x = Inr y \<Longrightarrow> P y) \<Longrightarrow> y \<in> set ys \<Longrightarrow> P y"
  using traverse_set by metis

lemma traverse_set1: "traverse f xs = Inr ys \<Longrightarrow> x \<in> set xs \<Longrightarrow> \<exists>y \<in> set ys. f x = Inr y"
  by (induction xs arbitrary: ys) auto

lemma traverse_length: "traverse f xs = Inr ys \<Longrightarrow> length ys = length xs"
  by (induction xs arbitrary: ys) auto

section \<open>Characters and strings\<close>

abbreviation code :: "char \<Rightarrow> nat" where
  "code c \<equiv> of_char c"

text \<open>\<open>char::is_whitespace\<close>, \<open>is_control\<close> and the ASCII classes, on U+0000..U+00FF.\<close>

definition is_white :: "char \<Rightarrow> bool" where
  "is_white c = (9 \<le> code c \<and> code c \<le> 13 \<or> code c = 32 \<or> code c = 133 \<or> code c = 160)"

definition is_control :: "char \<Rightarrow> bool" where
  "is_control c = (code c < 32 \<or> 127 \<le> code c \<and> code c \<le> 159)"

definition is_digit :: "char \<Rightarrow> bool" where
  "is_digit c = (48 \<le> code c \<and> code c \<le> 57)"

definition is_upper :: "char \<Rightarrow> bool" where
  "is_upper c = (65 \<le> code c \<and> code c \<le> 90)"

definition is_lower :: "char \<Rightarrow> bool" where
  "is_lower c = (97 \<le> code c \<and> code c \<le> 122)"

definition is_alnum :: "char \<Rightarrow> bool" where
  "is_alnum c = (is_digit c \<or> is_upper c \<or> is_lower c)"

definition lower_char :: "char \<Rightarrow> char" where
  "lower_char c = (if is_upper c then char_of (code c + 32) else c)"

text \<open>\<open>to_ascii_lowercase\<close>, \<open>eq_ignore_ascii_case\<close>, \<open>len\<close>.\<close>

definition to_lower :: "string \<Rightarrow> string" where
  "to_lower s = map lower_char s"

definition eq_nocase :: "string \<Rightarrow> string \<Rightarrow> bool" where
  "eq_nocase s t = (to_lower s = to_lower t)"

definition byte_len :: "string \<Rightarrow> nat" where
  "byte_len s = sum_list (map (\<lambda>c. if code c < 128 then 1 else 2) s)"

text \<open>\<open>trim_start\<close>, \<open>trim_end\<close>, \<open>trim\<close>.\<close>

definition trim_start :: "string \<Rightarrow> string" where
  "trim_start s = dropWhile is_white s"

definition trim_end :: "string \<Rightarrow> string" where
  "trim_end s = rev (dropWhile is_white (rev s))"

definition trim :: "string \<Rightarrow> string" where
  "trim s = trim_end (trim_start s)"

text \<open>A string \<open>trim\<close> leaves alone.\<close>

definition trimmed :: "string \<Rightarrow> bool" where
  "trimmed s = (s = [] \<or> \<not> is_white (hd s) \<and> \<not> is_white (last s))"

lemma trim_end_trimmed: "trim_end s = [] \<or> \<not> is_white (last (trim_end s))"
proof (cases "dropWhile is_white (rev s)")
  case Nil
  then show ?thesis by (simp add: trim_end_def)
next
  case (Cons c cs)
  then have "\<not> is_white c" by (metis hd_dropWhile list.distinct(1) list.sel(1))
  with Cons show ?thesis by (simp add: trim_end_def)
qed

lemma hd_trim_end: "trim_end s \<noteq> [] \<Longrightarrow> hd (trim_end s) = hd s"
proof -
  assume ne: "trim_end s \<noteq> []"
  have "rev s = takeWhile is_white (rev s) @ dropWhile is_white (rev s)" by simp
  then have "s = trim_end s @ rev (takeWhile is_white (rev s))"
    unfolding trim_end_def by (metis rev_append rev_rev_ident)
  with ne show ?thesis by (metis hd_append2)
qed

lemma trimmed_trim [simp]: "trimmed (trim s)"
proof (cases "trim s = []")
  case False
  then have "hd (trim s) = hd (trim_start s)" by (simp add: trim_def hd_trim_end)
  moreover have "trim_start s \<noteq> []" using False by (auto simp: trim_def trim_end_def)
  then have "\<not> is_white (hd (trim_start s))"
    unfolding trim_start_def by (rule hd_dropWhile)
  ultimately show ?thesis
    using trim_end_trimmed[of "trim_start s"] False by (auto simp: trimmed_def trim_def)
qed (simp add: trimmed_def)

lemma trim_trimmed: "trimmed s \<Longrightarrow> trim s = s"
proof (cases s)
  case (Cons c cs)
  assume t: "trimmed s"
  from t Cons have "trim_start s = s" by (simp add: trimmed_def trim_start_def)
  moreover have "trim_end s = s"
  proof (cases s rule: rev_cases)
    case (snoc ys y)
    with t have "\<not> is_white y" by (auto simp: trimmed_def)
    with snoc show ?thesis by (simp add: trim_end_def)
  qed (simp add: trim_end_def)
  ultimately show ?thesis by (simp add: trim_def)
qed (simp add: trim_def trim_start_def trim_end_def)

lemma trim_idem [simp]: "trim (trim s) = trim s"
  by (rule trim_trimmed) simp

lemma set_trim: "set (trim s) \<subseteq> set s"
  unfolding trim_def trim_end_def trim_start_def
  by (auto dest!: set_dropWhileD)

lemma no_white_trimmed: "(\<And>c. c \<in> set s \<Longrightarrow> \<not> is_white c) \<Longrightarrow> trimmed s"
  by (cases s) (auto simp: trimmed_def)

lemma lower_char_idem [simp]: "lower_char (lower_char c) = lower_char c"
  by (auto simp: lower_char_def is_upper_def)

lemma to_lower_idem [simp]: "to_lower (to_lower s) = to_lower s"
  by (simp add: to_lower_def)

lemma byte_len_simps [simp]:
  "byte_len [] = 0"
  "byte_len (c # s) = (if code c < 128 then 1 else 2) + byte_len s"
  "byte_len (s @ t) = byte_len s + byte_len t"
  by (simp_all add: byte_len_def)

lemma byte_len_ascii: "(\<And>c. c \<in> set s \<Longrightarrow> code c < 128) \<Longrightarrow> byte_len s = length s"
  by (induction s) auto

lemma alnum_ascii: "is_alnum c \<Longrightarrow> code c < 128"
  by (auto simp: is_alnum_def is_digit_def is_upper_def is_lower_def)

lemma alnum_not_white: "is_alnum c \<Longrightarrow> \<not> is_white c"
  by (auto simp: is_alnum_def is_digit_def is_upper_def is_lower_def is_white_def)

lemma alnum_not_control: "is_alnum c \<Longrightarrow> \<not> is_control c"
  by (auto simp: is_alnum_def is_digit_def is_upper_def is_lower_def is_control_def)

section \<open>Splitting and joining\<close>

text \<open>\<open>str::split(c)\<close>: always at least one piece.\<close>

fun split_char :: "char \<Rightarrow> string \<Rightarrow> string list" where
  "split_char d [] = [[]]"
| "split_char d (c # cs) =
     (if c = d then [] # split_char d cs
      else (case split_char d cs of [] \<Rightarrow> [[c]] | p # ps \<Rightarrow> (c # p) # ps))"

text \<open>\<open>split_once\<close> and \<open>rsplit_once\<close>.\<close>

fun split_once :: "char \<Rightarrow> string \<Rightarrow> (string \<times> string) option" where
  "split_once d [] = None"
| "split_once d (c # cs) =
     (if c = d then Some ([], cs)
      else map_option (\<lambda>(a, b). (c # a, b)) (split_once d cs))"

definition rsplit_once :: "char \<Rightarrow> string \<Rightarrow> (string \<times> string) option" where
  "rsplit_once d s = map_option (\<lambda>(a, b). (rev b, rev a)) (split_once d (rev s))"

fun strip_prefix :: "string \<Rightarrow> string \<Rightarrow> string option" where
  "strip_prefix [] s = Some s"
| "strip_prefix (p # ps) [] = None"
| "strip_prefix (p # ps) (c # cs) = (if p = c then strip_prefix ps cs else None)"

definition starts_with :: "string \<Rightarrow> string \<Rightarrow> bool" where
  "starts_with p s = (strip_prefix p s \<noteq> None)"

definition strip_suffix :: "string \<Rightarrow> string \<Rightarrow> string option" where
  "strip_suffix p s = map_option rev (strip_prefix (rev p) (rev s))"

definition ends_with :: "string \<Rightarrow> string \<Rightarrow> bool" where
  "ends_with p s = (strip_suffix p s \<noteq> None)"

text \<open>\<open>[..].join(sep)\<close>.\<close>

fun join :: "string \<Rightarrow> string list \<Rightarrow> string" where
  "join sep [] = []"
| "join sep [x] = x"
| "join sep (x # y # xs) = x @ sep @ join sep (y # xs)"

text \<open>
  \<open>str::lines\<close>: pieces between line feeds, a final empty piece dropped, one carriage
  return before each line feed dropped.
\<close>

definition strip_cr :: "string \<Rightarrow> string" where
  "strip_cr l = (case rev l of [] \<Rightarrow> [] | c # cs \<Rightarrow> if code c = 13 then rev cs else l)"

definition lines :: "string \<Rightarrow> string list" where
  "lines s = (let ps = split_char (CHR 0x0A) s in
     map strip_cr (butlast ps) @ (if last ps = [] then [] else [last ps]))"

text \<open>\<open>split_whitespace\<close>.\<close>

fun words_acc :: "string \<Rightarrow> string \<Rightarrow> string list" where
  "words_acc acc [] = (if acc = [] then [] else [rev acc])"
| "words_acc acc (c # cs) =
     (if is_white c then (if acc = [] then words_acc [] cs else rev acc # words_acc [] cs)
      else words_acc (c # acc) cs)"

definition split_whitespace :: "string \<Rightarrow> string list" where
  "split_whitespace s = words_acc [] s"

lemma split_char_nonempty [simp]: "split_char d s \<noteq> []"
  by (cases s) (auto split: list.splits)

lemma split_char_none: "d \<notin> set s \<Longrightarrow> split_char d s = [s]"
  by (induction s) auto

lemma split_char_append: "d \<notin> set a \<Longrightarrow> split_char d (a @ d # b) = a # split_char d b"
  by (induction a) auto

lemma split_once_none [simp]: "split_once d s = None \<longleftrightarrow> d \<notin> set s"
  by (induction s) auto

lemma split_once_append: "d \<notin> set a \<Longrightarrow> split_once d (a @ d # b) = Some (a, b)"
  by (induction a) auto

lemma split_once_Some: "split_once d s = Some (a, b) \<Longrightarrow> s = a @ d # b \<and> d \<notin> set a"
  by (induction s arbitrary: a) (auto split: if_splits)

lemma rsplit_once_append: "d \<notin> set b \<Longrightarrow> rsplit_once d (a @ d # b) = Some (a, b)"
  by (simp add: rsplit_once_def split_once_append)

lemma strip_prefix_append [simp]: "strip_prefix p (p @ s) = Some s"
  by (induction p) auto

lemma strip_prefix_Some: "strip_prefix p s = Some t \<longleftrightarrow> s = p @ t"
  by (induction p s rule: strip_prefix.induct) auto

lemma starts_with_iff: "starts_with p s \<longleftrightarrow> (\<exists>t. s = p @ t)"
  by (cases "strip_prefix p s") (auto simp: starts_with_def strip_prefix_Some)

lemma join_Cons: "xs \<noteq> [] \<Longrightarrow> join sep (x # xs) = x @ sep @ join sep xs"
  by (cases xs) auto

lemma split_join:
  assumes "xs \<noteq> []" and "\<And>x. x \<in> set xs \<Longrightarrow> d \<notin> set x"
  shows "split_char d (join [d] xs) = xs"
  using assms
proof (induction xs)
  case (Cons x xs)
  then show ?case
    by (cases xs) (auto simp: split_char_append split_char_none)
qed simp

lemma set_join: "set (join sep xs) \<subseteq> set sep \<union> \<Union> (set (map set xs))"
  by (induction sep xs rule: join.induct) auto

end
