(* ===== verification/Numerals.thy ===== *)
theory Numerals
  imports Prelude
begin

text \<open>
  Numbers as text, the way Rust's standard library prints and reads them: positional
  digits, \<open>{}\<close> and \<open>{:x}\<close>, \<open>u8/u16/u32::from_str\<close>, and the digit scanner of the
  address parser. The lemmas say that a printed number reads back as itself.
\<close>

section \<open>Positional digits\<close>

fun from_base :: "nat \<Rightarrow> nat list \<Rightarrow> nat" where
  "from_base B ds = foldl (\<lambda>a d. a * B + d) 0 ds"

declare from_base.simps [simp del]

text \<open>Exactly \<open>k\<close> digits, most significant first.\<close>

fun to_base :: "nat \<Rightarrow> nat \<Rightarrow> nat \<Rightarrow> nat list" where
  "to_base B 0 n = []"
| "to_base B (Suc k) n = to_base B k (n div B) @ [n mod B]"

lemma from_base_Nil [simp]: "from_base B [] = 0"
  by (simp add: from_base.simps)

lemma from_base_snoc [simp]: "from_base B (ds @ [d]) = from_base B ds * B + d"
  by (simp add: from_base.simps)

lemma length_to_base [simp]: "length (to_base B k n) = k"
  by (induction B k n rule: to_base.induct) auto

lemma to_base_digits: "0 < B \<Longrightarrow> d \<in> set (to_base B k n) \<Longrightarrow> d < B"
  by (induction B k n rule: to_base.induct) auto

lemma from_to_base: "n < B ^ k \<Longrightarrow> from_base B (to_base B k n) = n"
proof (induction B k n rule: to_base.induct)
  case (2 B k n)
  then have "n div B < B ^ k"
    by (metis less_mult_imp_div_less mult.commute power_Suc)
  with 2 show ?case by simp
qed simp

lemma from_base_bound: "(\<And>d. d \<in> set ds \<Longrightarrow> d < B) \<Longrightarrow> from_base B ds < B ^ length ds"
proof (induction ds rule: rev_induct)
  case (snoc d ds)
  then have "from_base B ds + 1 \<le> B ^ length ds" and "d < B" by (simp_all add: Suc_leI)
  then have "(from_base B ds + 1) * B \<le> B ^ length ds * B" by (intro mult_right_mono) auto
  with \<open>d < B\<close> have "from_base B ds * B + d < B ^ length ds * B" by (simp add: algebra_simps)
  then show ?case by (simp add: mult.commute)
qed simp

lemma to_from_base:
  "(\<And>d. d \<in> set ds \<Longrightarrow> d < B) \<Longrightarrow> to_base B (length ds) (from_base B ds) = ds"
proof (induction ds rule: rev_induct)
  case (snoc d ds)
  then have "d < B" by simp
  then have "(from_base B ds * B + d) div B = from_base B ds" by (simp add: div_add1_eq)
  with snoc \<open>d < B\<close> show ?case by auto
qed simp

section \<open>Printing\<close>

definition digit_char :: "nat \<Rightarrow> char" where
  "digit_char d = (if d < 10 then char_of (48 + d) else char_of (87 + d))"

text \<open>\<open>char::to_digit(radix)\<close>\<close>

definition to_digit :: "nat \<Rightarrow> char \<Rightarrow> nat option" where
  "to_digit r c =
     (let d = (if is_digit c then Some (code c - 48)
               else if 97 \<le> code c \<and> code c \<le> 122 then Some (code c - 87)
               else if 65 \<le> code c \<and> code c \<le> 90 then Some (code c - 55)
               else None)
      in case d of None \<Rightarrow> None | Some v \<Rightarrow> if v < r then Some v else None)"

lemma to_digit_digit_char [simp]: "d < r \<Longrightarrow> r \<le> 36 \<Longrightarrow> to_digit r (digit_char d) = Some d"
  by (auto simp: to_digit_def digit_char_def is_digit_def Let_def)

lemma to_digit_bound: "to_digit r c = Some d \<Longrightarrow> d < r"
  by (auto simp: to_digit_def Let_def split: if_splits option.splits)

lemma to_digit_alnum: "to_digit r c = Some d \<Longrightarrow> is_alnum c"
  by (auto simp: to_digit_def Let_def is_alnum_def is_digit_def is_upper_def is_lower_def
      split: if_splits option.splits)

lemma digit_char_alnum: "d < 36 \<Longrightarrow> is_alnum (digit_char d)"
  by (rule to_digit_alnum[of 36 _ d]) simp

text \<open>\<open>{b:02x}\<close>.\<close>

definition hex2 :: "8 word \<Rightarrow> string" where
  "hex2 b = map digit_char (to_base 16 2 (unat b))"

text \<open>\<open>{}\<close> and \<open>{:x}\<close> on an unsigned integer: no leading zeros.\<close>

fun show_digits :: "nat \<Rightarrow> nat \<Rightarrow> nat list" where
  "show_digits r n = (if r < 2 \<or> n < r then [n] else show_digits r (n div r) @ [n mod r])"

declare show_digits.simps [simp del]

definition show_base :: "nat \<Rightarrow> nat \<Rightarrow> string" where
  "show_base r n = map digit_char (show_digits r n)"

abbreviation show_nat :: "nat \<Rightarrow> string" where
  "show_nat \<equiv> show_base 10"

abbreviation show_hex :: "nat \<Rightarrow> string" where
  "show_hex \<equiv> show_base 16"

lemma show_digits_nonempty [simp]: "show_digits r n \<noteq> []"
  by (subst show_digits.simps) simp

lemma from_show_digits: "from_base r (show_digits r n) = n"
proof (induction r n rule: show_digits.induct)
  case (1 r n)
  show ?case
  proof (cases "r < 2 \<or> n < r")
    case True
    then show ?thesis by (subst show_digits.simps) (simp add: from_base.simps)
  next
    case False
    with 1 show ?thesis by (simp add: show_digits.simps[of r n])
  qed
qed

lemma show_digits_bound: "2 \<le> r \<Longrightarrow> d \<in> set (show_digits r n) \<Longrightarrow> d < r"
proof (induction r n rule: show_digits.induct)
  case (1 r n)
  then show ?case
    by (cases "n < r") (auto simp: show_digits.simps[of r n])
qed

lemma length_show_digits: "n < r ^ k \<Longrightarrow> 0 < k \<Longrightarrow> length (show_digits r n) \<le> k"
proof (induction r n arbitrary: k rule: show_digits.induct)
  case (1 r n)
  show ?case
  proof (cases "r < 2 \<or> n < r")
    case True
    with 1 show ?thesis by (simp add: show_digits.simps[of r n])
  next
    case False
    obtain j where k: "k = Suc j" using \<open>0 < k\<close> by (cases k) auto
    have "0 < j" using False 1(2) k by (cases j) auto
    moreover have "n div r < r ^ j" using 1(2) k
      by (metis less_mult_imp_div_less mult.commute power_Suc)
    ultimately show ?thesis using 1(1) False k by (simp add: show_digits.simps[of r n])
  qed
qed

lemma hd_show_digits: "hd (show_digits r n) = 0 \<Longrightarrow> 2 \<le> r \<Longrightarrow> show_digits r n = [0]"
proof (induction r n rule: show_digits.induct)
  case (1 r n)
  show ?case
  proof (cases "n < r")
    case True
    then have "show_digits r n = [n]" by (simp add: show_digits.simps[of r n])
    with 1 show ?thesis by simp
  next
    case False
    with 1 have "show_digits r (n div r) = [0]" by (simp add: show_digits.simps[of r n])
    then have "n div r = 0" using from_show_digits[of r "n div r"] by (simp add: from_base.simps)
    with False 1(3) have "n = 0" by (simp add: div_eq_0_iff)
    moreover have "0 < r" using 1(3) by simp
    ultimately show ?thesis by (simp add: show_digits.simps[of r 0])
  qed
qed

lemma show_base_nonempty [simp]: "show_base r n \<noteq> []"
  by (simp add: show_base_def)

lemma show_base_alnum: "2 \<le> r \<Longrightarrow> r \<le> 36 \<Longrightarrow> c \<in> set (show_base r n) \<Longrightarrow> is_alnum c"
  unfolding show_base_def
  by (auto intro!: digit_char_alnum dest!: show_digits_bound)

lemma show_nat_digit: "c \<in> set (show_nat n) \<Longrightarrow> is_digit c"
  unfolding show_base_def
  by (auto simp: digit_char_def is_digit_def dest!: show_digits_bound[rotated])

lemma show_base_no_sep: "2 \<le> r \<Longrightarrow> r \<le> 36 \<Longrightarrow> \<not> is_alnum c \<Longrightarrow> c \<notin> set (show_base r n)"
  using show_base_alnum by blast

lemma hd_digit_char: "d < 36 \<Longrightarrow> digit_char d = CHR ''0'' \<longleftrightarrow> d = 0"
proof -
  have z: "to_digit 36 CHR ''0'' = Some 0" by (simp add: to_digit_def is_digit_def)
  assume "d < 36"
  then have "to_digit 36 (digit_char d) = Some d" by simp
  moreover have "digit_char 0 = CHR ''0''" by code_simp
  ultimately show ?thesis using z by auto
qed

section \<open>Parsing unsigned integers\<close>

fun digits_of :: "nat \<Rightarrow> string \<Rightarrow> nat list option" where
  "digits_of r [] = Some []"
| "digits_of r (c # cs) =
     (case to_digit r c of None \<Rightarrow> None
      | Some d \<Rightarrow> map_option (\<lambda>ds. d # ds) (digits_of r cs))"

text \<open>
  \<open>uN::from_str_radix\<close>: an optional plus sign, at least one digit, no overflow of the
  type's largest value.
\<close>

definition parse_radix :: "nat \<Rightarrow> nat \<Rightarrow> string \<Rightarrow> nat option" where
  "parse_radix r maxv s =
     (let body = (case s of [] \<Rightarrow> [] | c # cs \<Rightarrow> if c = CHR ''+'' then cs else s)
      in if body = [] then None
         else (case digits_of r body of None \<Rightarrow> None
               | Some ds \<Rightarrow> if from_base r ds \<le> maxv then Some (from_base r ds) else None))"

abbreviation parse_u8 :: "string \<Rightarrow> nat option" where
  "parse_u8 \<equiv> parse_radix 10 255"

abbreviation parse_u16 :: "string \<Rightarrow> nat option" where
  "parse_u16 \<equiv> parse_radix 10 65535"

abbreviation parse_u32 :: "string \<Rightarrow> nat option" where
  "parse_u32 \<equiv> parse_radix 10 4294967295"

lemma digits_of_map [simp]:
  "(\<And>d. d \<in> set ds \<Longrightarrow> d < r) \<Longrightarrow> r \<le> 36 \<Longrightarrow> digits_of r (map digit_char ds) = Some ds"
  by (induction ds) auto

lemma digits_of_alnum: "digits_of r s = Some ds \<Longrightarrow> c \<in> set s \<Longrightarrow> is_alnum c"
  by (induction s arbitrary: ds) (auto split: option.splits dest: to_digit_alnum)

lemma parse_radix_show:
  assumes "2 \<le> r" "r \<le> 36" "n \<le> maxv"
  shows "parse_radix r maxv (show_base r n) = Some n"
proof -
  obtain c cs where s: "show_base r n = c # cs" by (cases "show_base r n") auto
  with assms have "is_alnum c" using show_base_alnum[of r c n] by simp
  then have "c \<noteq> CHR ''+''" by (auto simp: is_alnum_def is_digit_def is_upper_def is_lower_def)
  moreover have "digits_of r (show_base r n) = Some (show_digits r n)"
    unfolding show_base_def using assms show_digits_bound by (intro digits_of_map) auto
  ultimately show ?thesis
    using assms s by (simp add: parse_radix_def from_show_digits)
qed

lemma show_base_inj: "2 \<le> r \<Longrightarrow> r \<le> 36 \<Longrightarrow> show_base r m = show_base r n \<longleftrightarrow> m = n"
  by (metis max.cobounded1 max.cobounded2 option.inject parse_radix_show)

lemma parse_radix_bound: "parse_radix r maxv s = Some n \<Longrightarrow> n \<le> maxv"
  by (auto simp: parse_radix_def Let_def split: option.splits if_splits list.splits)

lemma parse_radix_chars:
  "parse_radix r maxv s = Some n \<Longrightarrow> c \<in> set s \<Longrightarrow> is_alnum c \<or> c = CHR ''+''"
  by (auto simp: parse_radix_def Let_def split: option.splits if_splits list.splits
      dest: digits_of_alnum to_digit_alnum)

section \<open>The digit scanner of the address parser\<close>

fun take_digits :: "nat \<Rightarrow> string \<Rightarrow> nat list \<times> string" where
  "take_digits r [] = ([], [])"
| "take_digits r (c # cs) =
     (case to_digit r c of None \<Rightarrow> ([], c # cs)
      | Some d \<Rightarrow> (let (ds, rest) = take_digits r cs in (d # ds, rest)))"

text \<open>
  \<open>Parser::read_number(radix, Some(max_digits), allow_zero_prefix)\<close> of the standard
  library; \<open>None\<close> leaves the input where it was.
\<close>

definition read_number :: "nat \<Rightarrow> nat \<Rightarrow> bool \<Rightarrow> nat \<Rightarrow> string \<Rightarrow> (nat \<times> string) option" where
  "read_number r maxd zeros maxv s =
     (let (ds, rest) = take_digits r s in
      if length ds > maxd \<or> ds = [] \<or> (\<not> zeros \<and> hd s = CHR ''0'' \<and> length ds > 1)
         \<or> from_base r ds > maxv
      then None else Some (from_base r ds, rest))"

definition no_digit_head :: "nat \<Rightarrow> string \<Rightarrow> bool" where
  "no_digit_head r s = (case s of [] \<Rightarrow> True | c # _ \<Rightarrow> to_digit r c = None)"

lemma take_digits_append:
  "(\<And>d. d \<in> set ds \<Longrightarrow> d < r) \<Longrightarrow> r \<le> 36 \<Longrightarrow> no_digit_head r rest \<Longrightarrow>
   take_digits r (map digit_char ds @ rest) = (ds, rest)"
  by (induction ds) (auto simp: no_digit_head_def split: list.splits)

lemma read_number_show:
  assumes "2 \<le> r" "r \<le> 36" "n \<le> maxv" "n < r ^ maxd" "0 < maxd" "no_digit_head r rest"
  shows "read_number r maxd zeros maxv (show_base r n @ rest) = Some (n, rest)"
proof -
  have t: "take_digits r (show_base r n @ rest) = (show_digits r n, rest)"
    unfolding show_base_def using assms show_digits_bound by (intro take_digits_append) auto
  have l: "length (show_digits r n) \<le> maxd" by (rule length_show_digits) (use assms in auto)
  have z: "\<not> (hd (show_base r n @ rest) = CHR ''0'' \<and> 1 < length (show_digits r n))"
  proof
    assume a: "hd (show_base r n @ rest) = CHR ''0'' \<and> 1 < length (show_digits r n)"
    then have "digit_char (hd (show_digits r n)) = CHR ''0''"
      by (simp add: show_base_def hd_map)
    moreover have "hd (show_digits r n) < 36"
      using show_digits_bound[of r "hd (show_digits r n)" n] assms by simp
    ultimately have "hd (show_digits r n) = 0" by (simp add: hd_digit_char)
    with assms have "show_digits r n = [0]" by (intro hd_show_digits) auto
    with a show False by simp
  qed
  show ?thesis
    unfolding read_number_def t using l z assms by (auto simp: from_show_digits)
qed

lemma take_digits_split: "take_digits r s = (ds, rest) \<Longrightarrow> \<exists>p. s = p @ rest \<and> length p = length ds"
proof (induction s arbitrary: ds)
  case (Cons c cs)
  then show ?case
    by (fastforce split: option.splits prod.splits intro: exI[of _ "c # _"])
qed simp

lemma read_number_suffix:
  "read_number r maxd zeros maxv s = Some (n, rest) \<Longrightarrow> \<exists>p. s = p @ rest"
  unfolding read_number_def Let_def
  by (auto split: prod.splits if_splits dest!: take_digits_split)

lemma read_number_bound: "read_number r maxd zeros maxv s = Some (n, rest) \<Longrightarrow> n \<le> maxv"
  by (auto simp: read_number_def Let_def split: prod.splits if_splits)

end
