(* ===== verification/Interfaces.thy ===== *)
theory Interfaces
  imports Prelude
begin

text \<open>
  The contracts several components share, as locales: a printed form that a parser reads
  back (\<open>codec\<close>), a collection addressed by a key (\<open>keyed_store\<close>, with its vector
  implementation \<open>upsert\<close> / \<open>remove_key\<close> / \<open>lookup_key\<close>), and a step function that
  keeps an invariant (\<open>invariant_steps\<close>). Each is interpreted in the theory of the
  component that provides it.
\<close>

section \<open>Printed forms that parse back\<close>

text \<open>What \<open>normalize\<close> functions do with a text field: parse it and print the result.\<close>

definition canonicalise :: "(string \<Rightarrow> 'e + 'a) \<Rightarrow> ('a \<Rightarrow> string) \<Rightarrow> string \<Rightarrow> 'e + string" where
  "canonicalise parse print s = map_ok print (parse s)"

locale codec =
  fixes print :: "'a \<Rightarrow> string"
    and parse :: "string \<Rightarrow> 'e + 'a"
    and wf :: "'a \<Rightarrow> bool"
  assumes parse_print: "wf x \<Longrightarrow> parse (print x) = Inr x"
    and parse_wf: "parse s = Inr x \<Longrightarrow> wf x"
begin

lemma print_inj: "wf x \<Longrightarrow> wf y \<Longrightarrow> print x = print y \<Longrightarrow> x = y"
  by (metis parse_print sum.inject(2))

lemma canonical_idem:
  "canonicalise parse print s = Inr t \<Longrightarrow> canonicalise parse print t = Inr t"
  by (auto simp: canonicalise_def parse_print[OF parse_wf])

lemma canonical_parse:
  "canonicalise parse print s = Inr t \<Longrightarrow> parse t = parse s"
  by (auto simp: canonicalise_def parse_print[OF parse_wf])

lemma canonical_same:
  assumes "canonicalise parse print s = Inr t" "canonicalise parse print s' = Inr t"
  shows "parse s = parse s'"
  using assms by (metis canonical_parse)

lemma traverse_print: "(\<And>x. x \<in> set xs \<Longrightarrow> wf x) \<Longrightarrow> traverse parse (map print xs) = Inr xs"
  by (induction xs) (auto simp: parse_print)

end

section \<open>Collections addressed by a key\<close>

locale keyed_store =
  fixes key :: "'v \<Rightarrow> 'k"
    and lookup :: "'s \<Rightarrow> 'k \<Rightarrow> 'v option"
    and put :: "'s \<Rightarrow> 'v \<Rightarrow> 's"
    and del :: "'s \<Rightarrow> 'k \<Rightarrow> 's"
    and ok :: "'s \<Rightarrow> bool"
  assumes lookup_put: "ok s \<Longrightarrow> lookup (put s v) k = (if k = key v then Some v else lookup s k)"
    and lookup_del: "ok s \<Longrightarrow> lookup (del s k) k' = (if k' = k then None else lookup s k')"
    and ok_put: "ok s \<Longrightarrow> ok (put s v)"
    and ok_del: "ok s \<Longrightarrow> ok (del s k)"
begin

lemma lookup_put_same: "ok s \<Longrightarrow> lookup (put s v) (key v) = Some v"
  by (simp add: lookup_put)

lemma lookup_put_other: "ok s \<Longrightarrow> k \<noteq> key v \<Longrightarrow> lookup (put s v) k = lookup s k"
  by (simp add: lookup_put)

lemma put_overwrites:
  "ok s \<Longrightarrow> key v = key w \<Longrightarrow> lookup (put (put s v) w) = lookup (put s w)"
  by (rule ext) (simp add: lookup_put ok_put)

lemma put_commute:
  "ok s \<Longrightarrow> key v \<noteq> key w \<Longrightarrow> lookup (put (put s v) w) = lookup (put (put s w) v)"
  by (rule ext) (simp add: lookup_put ok_put)

lemma del_put: "ok s \<Longrightarrow> lookup (del (put s v) (key v)) = lookup (del s (key v))"
  by (rule ext) (simp add: lookup_put lookup_del ok_put)

lemma del_fresh: "ok s \<Longrightarrow> lookup s k = None \<Longrightarrow> lookup (del s k) = lookup s"
  by (rule ext) (simp add: lookup_del)

lemma ok_put_all: "ok s \<Longrightarrow> ok (foldl put s vs)"
  by (induction vs arbitrary: s) (auto simp: ok_put)

text \<open>After storing a list in order, the last value of each key is the one found.\<close>

lemma lookup_put_all:
  "ok s \<Longrightarrow> lookup (foldl put s vs) k =
     (case find (\<lambda>v. key v = k) (rev vs) of Some v \<Rightarrow> Some v | None \<Rightarrow> lookup s k)"
proof (induction vs rule: rev_induct)
  case (snoc v vs)
  then show ?case using ok_put_all[OF snoc.prems, of vs] by (auto simp: lookup_put)
qed simp

end

text \<open>
  The vector idiom of the daemon: \<open>match v.iter_mut().find(|e| e.key == x.key) {
  Some(e) => *e = x, None => v.push(x) }\<close> and \<open>v.retain(|e| e.key != k)\<close>.
\<close>

fun upsert :: "('v \<Rightarrow> 'k) \<Rightarrow> 'v list \<Rightarrow> 'v \<Rightarrow> 'v list" where
  "upsert key [] v = [v]"
| "upsert key (x # xs) v = (if key x = key v then v # xs else x # upsert key xs v)"

definition remove_key :: "('v \<Rightarrow> 'k) \<Rightarrow> 'v list \<Rightarrow> 'k \<Rightarrow> 'v list" where
  "remove_key key xs k = filter (\<lambda>x. key x \<noteq> k) xs"

definition lookup_key :: "('v \<Rightarrow> 'k) \<Rightarrow> 'v list \<Rightarrow> 'k \<Rightarrow> 'v option" where
  "lookup_key key xs k = find (\<lambda>x. key x = k) xs"

definition has_key :: "('v \<Rightarrow> 'k) \<Rightarrow> 'v list \<Rightarrow> 'k \<Rightarrow> bool" where
  "has_key key xs k = (\<exists>x \<in> set xs. key x = k)"

definition distinct_keys :: "('v \<Rightarrow> 'k) \<Rightarrow> 'v list \<Rightarrow> bool" where
  "distinct_keys key xs = distinct (map key xs)"

lemma lookup_key_simps [simp]:
  "lookup_key key [] k = None"
  "lookup_key key (x # xs) k = (if key x = k then Some x else lookup_key key xs k)"
  by (simp_all add: lookup_key_def)

lemma lookup_key_None: "lookup_key key xs k = None \<longleftrightarrow> k \<notin> key ` set xs"
  by (induction xs) auto

lemma lookup_key_Some: "lookup_key key xs k = Some v \<Longrightarrow> v \<in> set xs \<and> key v = k"
  by (induction xs) (auto split: if_splits)

lemma lookup_key_mem:
  "distinct_keys key xs \<Longrightarrow> v \<in> set xs \<Longrightarrow> lookup_key key xs (key v) = Some v"
  by (induction xs) (auto simp: distinct_keys_def image_iff)

lemma lookup_upsert [simp]:
  "lookup_key key (upsert key xs v) k = (if k = key v then Some v else lookup_key key xs k)"
  by (induction xs) auto

lemma keys_upsert: "key ` set (upsert key xs v) = insert (key v) (key ` set xs)"
  by (induction xs) auto

lemma set_upsert: "set (upsert key xs v) \<subseteq> insert v (set xs)"
  by (induction xs) auto

lemma distinct_upsert: "distinct_keys key xs \<Longrightarrow> distinct_keys key (upsert key xs v)"
  by (induction xs) (auto simp: distinct_keys_def keys_upsert)

lemma length_upsert:
  "length (upsert key xs v) = (if has_key key xs (key v) then length xs else Suc (length xs))"
  by (induction xs) (auto simp: has_key_def)

lemma upsert_in_place: "has_key key xs (key v) \<Longrightarrow> map key (upsert key xs v) = map key xs"
  by (induction xs) (auto simp: has_key_def)

lemma upsert_pushes: "\<not> has_key key xs (key v) \<Longrightarrow> upsert key xs v = xs @ [v]"
  by (induction xs) (auto simp: has_key_def)

lemma lookup_remove [simp]:
  "lookup_key key (remove_key key xs k) k' = (if k' = k then None else lookup_key key xs k')"
  by (induction xs) (auto simp: remove_key_def)

lemma distinct_remove: "distinct_keys key xs \<Longrightarrow> distinct_keys key (remove_key key xs k)"
  by (induction xs) (auto simp: distinct_keys_def remove_key_def)

lemma remove_key_length: "length (remove_key key xs k) \<noteq> length xs \<longleftrightarrow> has_key key xs k"
proof -
  have "length (remove_key key xs k) = length xs \<longleftrightarrow> (\<forall>x \<in> set xs. key x \<noteq> k)"
    unfolding remove_key_def
    by (metis (mono_tags, lifting) filter_True length_filter_less less_irrefl)
  then show ?thesis by (auto simp: has_key_def)
qed

interpretation vec: keyed_store key "lookup_key key" "upsert key" "remove_key key" "distinct_keys key"
  for key :: "'v \<Rightarrow> 'k"
  by unfold_locales (auto simp: distinct_upsert distinct_remove)

section \<open>Steps that keep an invariant\<close>

text \<open>
  A component as a machine: \<open>exec s e\<close> is the state after the operation \<open>e\<close>. The
  runs are the lists of operations, and whatever every operation keeps holds after any run.
\<close>

fun run_ops :: "('s \<Rightarrow> 'o \<Rightarrow> 's) \<Rightarrow> 's \<Rightarrow> 'o list \<Rightarrow> 's" where
  "run_ops exec s [] = s"
| "run_ops exec s (e # es) = run_ops exec (exec s e) es"

lemma run_ops_append: "run_ops exec s (xs @ ys) = run_ops exec (run_ops exec s xs) ys"
  by (induction xs arbitrary: s) auto

text \<open>Some operations keep it only when they satisfy a condition.\<close>

locale guarded_steps =
  fixes exec :: "'s \<Rightarrow> 'o \<Rightarrow> 's"
    and guard_op :: "'o \<Rightarrow> bool"
    and inv :: "'s \<Rightarrow> bool"
  assumes exec_guarded: "guard_op e \<Longrightarrow> inv s \<Longrightarrow> inv (exec s e)"
begin

lemma guarded_run: "list_all guard_op es \<Longrightarrow> inv s \<Longrightarrow> inv (run_ops exec s es)"
  by (induction es arbitrary: s) (auto simp: exec_guarded)

end

locale invariant_steps =
  fixes exec :: "'s \<Rightarrow> 'o \<Rightarrow> 's"
    and inv :: "'s \<Rightarrow> bool"
  assumes exec_inv: "inv s \<Longrightarrow> inv (exec s e)"

sublocale invariant_steps \<subseteq> guarded_steps exec "\<lambda>_. True" inv
  by unfold_locales (rule exec_inv)

context invariant_steps begin

lemma run_inv: "inv s \<Longrightarrow> inv (run_ops exec s es)"
  by (rule guarded_run) (simp_all add: list_all_iff)

end

end
