(* ===== verification/NetAddr.thy ===== *)
theory NetAddr
  imports Numerals Interfaces
begin

text \<open>
  Addresses and networks. The first part is what the daemon uses of \<open>std::net\<close>:
  \<open>IpAddr\<close> with its order, \<open>Display\<close> (RFC 5952, IPv4-mapped addresses in dotted form)
  and \<open>FromStr\<close>. The second part is \<open>Net\<close> and \<open>parse_net\<close> of
  \<open>firewall/model.rs\<close>, which the firewall and WireGuard share. The main result is that
  the printed form of every address and network parses back to it.
\<close>

section \<open>IpAddr\<close>

datatype ip_addr = V4 "32 word" | V6 "128 word"

fun is_ipv6 :: "ip_addr \<Rightarrow> bool" where
  "is_ipv6 (V4 _) = False"
| "is_ipv6 (V6 _) = True"

text \<open>The derived order: every IPv4 address before every IPv6 address.\<close>

fun ip_key :: "ip_addr \<Rightarrow> nat" where
  "ip_key (V4 w) = unat w"
| "ip_key (V6 w) = 2 ^ 32 + unat w"

lemma unat_bound: "unat (w :: 'a::len word) < 2 ^ LENGTH('a)"
  by (metis of_nat_unat unsigned_less)

lemma ip_key_inj: "ip_key a = ip_key b \<Longrightarrow> a = b"
proof (cases a; cases b)
  fix v w assume "ip_key a = ip_key b" "a = V4 v" "b = V6 w"
  with unat_bound[of v] show "a = b" by simp
next
  fix v w assume "ip_key a = ip_key b" "a = V6 v" "b = V4 w"
  with unat_bound[of w] show "a = b" by simp
qed (auto simp: word_unat_eq_iff)

instantiation ip_addr :: linorder
begin

definition less_eq_ip_addr :: "ip_addr \<Rightarrow> ip_addr \<Rightarrow> bool" where
  "less_eq_ip_addr a b = (ip_key a \<le> ip_key b)"

definition less_ip_addr :: "ip_addr \<Rightarrow> ip_addr \<Rightarrow> bool" where
  "less_ip_addr a b = (ip_key a < ip_key b)"

instance
  by intro_classes (auto simp: less_eq_ip_addr_def less_ip_addr_def dest: ip_key_inj)

end

definition octets :: "32 word \<Rightarrow> nat list" where
  "octets w = to_base 256 4 (unat w)"

definition segments :: "128 word \<Rightarrow> nat list" where
  "segments w = to_base 65536 8 (unat w)"

definition v4_of :: "nat list \<Rightarrow> 32 word" where
  "v4_of os = word_of_nat (from_base 256 os)"

definition v6_of :: "nat list \<Rightarrow> 128 word" where
  "v6_of gs = word_of_nat (from_base 65536 gs)"

lemma length_octets [simp]: "length (octets w) = 4"
  by (simp add: octets_def)

lemma length_segments [simp]: "length (segments w) = 8"
  by (simp add: segments_def)

lemma octets_bound: "d \<in> set (octets w) \<Longrightarrow> d < 256"
  unfolding octets_def by (rule to_base_digits) auto

lemma segments_bound: "d \<in> set (segments w) \<Longrightarrow> d < 65536"
  unfolding segments_def by (rule to_base_digits) auto

lemma v4_of_octets [simp]: "v4_of (octets w) = w"
  using unat_bound[of w]
  by (simp add: v4_of_def octets_def from_to_base)

lemma v6_of_segments [simp]: "v6_of (segments w) = w"
  using unat_bound[of w]
  by (simp add: v6_of_def segments_def from_to_base)

section \<open>Display\<close>

definition show_v4 :: "nat list \<Rightarrow> string" where
  "show_v4 os = join ''.'' (map show_nat os)"

text \<open>The longest run of zero groups, the first one of that length.\<close>

fun zero_scan :: "nat \<Rightarrow> nat list \<Rightarrow> nat \<times> nat \<Rightarrow> nat \<times> nat \<Rightarrow> nat \<times> nat" where
  "zero_scan i [] longest cur = longest"
| "zero_scan i (g # gs) longest (cs, cl) =
     (if g = 0 then
        (let cur = (if cl = 0 then i else cs, Suc cl)
         in zero_scan (Suc i) gs (if snd cur > snd longest then cur else longest) cur)
      else zero_scan (Suc i) gs longest (0, 0))"

definition zero_span :: "nat list \<Rightarrow> nat \<times> nat" where
  "zero_span gs = zero_scan 0 gs (0, 0) (0, 0)"

definition colon_groups :: "nat list \<Rightarrow> string" where
  "colon_groups gs = concat (map (\<lambda>g. CHR '':'' # show_hex g) gs)"

definition fmt_subslice :: "nat list \<Rightarrow> string" where
  "fmt_subslice gs = (case gs of [] \<Rightarrow> [] | g # t \<Rightarrow> show_hex g @ colon_groups t)"

definition v4_mapped :: "nat list \<Rightarrow> bool" where
  "v4_mapped gs = (take 6 gs = [0, 0, 0, 0, 0, 65535])"

definition show_v6 :: "nat list \<Rightarrow> string" where
  "show_v6 gs =
     (if v4_mapped gs
      then ''::ffff:'' @ show_v4 (to_base 256 2 (gs ! 6) @ to_base 256 2 (gs ! 7))
      else (let (st, len) = zero_span gs in
        if len > 1
        then fmt_subslice (take st gs) @ ''::'' @ fmt_subslice (drop (st + len) gs)
        else fmt_subslice gs))"

fun show_ip :: "ip_addr \<Rightarrow> string" where
  "show_ip (V4 w) = show_v4 (octets w)"
| "show_ip (V6 w) = show_v6 (segments w)"

section \<open>FromStr\<close>

text \<open>\<open>read_separator(sep, i, ..)\<close>: nothing before the first item.\<close>

definition read_sep :: "char \<Rightarrow> bool \<Rightarrow> string \<Rightarrow> string option" where
  "read_sep d first s = (if first then Some s else
     (case s of [] \<Rightarrow> None | c # cs \<Rightarrow> if c = d then Some cs else None))"

fun read_octets :: "nat \<Rightarrow> bool \<Rightarrow> string \<Rightarrow> (nat list \<times> string) option" where
  "read_octets 0 first s = Some ([], s)"
| "read_octets (Suc k) first s =
     (case read_sep CHR ''.'' first s of None \<Rightarrow> None
      | Some s1 \<Rightarrow> (case read_number 10 3 False 255 s1 of None \<Rightarrow> None
        | Some (g, s2) \<Rightarrow> map_option (\<lambda>(gs, r). (g # gs, r)) (read_octets k False s2)))"

definition read_v4 :: "string \<Rightarrow> (nat list \<times> string) option" where
  "read_v4 s = read_octets 4 True s"

definition pair_octets :: "nat list \<Rightarrow> nat list" where
  "pair_octets os = [from_base 256 (take 2 os), from_base 256 (drop 2 os)]"

text \<open>
  \<open>read_groups\<close>: the groups read into the slots left, whether an IPv4 tail ended them,
  and the rest of the input.
\<close>

fun read_groups :: "nat \<Rightarrow> bool \<Rightarrow> string \<Rightarrow> nat list \<times> bool \<times> string" where
  "read_groups 0 first s = ([], False, s)"
| "read_groups (Suc k) first s =
     (case (if 0 < k then Option.bind (read_sep CHR '':'' first s) read_v4 else None) of
        Some (os, r) \<Rightarrow> (pair_octets os, True, r)
      | None \<Rightarrow>
        (case Option.bind (read_sep CHR '':'' first s) (read_number 16 4 True 65535) of
           None \<Rightarrow> ([], False, s)
         | Some (g, s1) \<Rightarrow> (let (gs, b, r) = read_groups k False s1 in (g # gs, b, r))))"

definition read_v6 :: "string \<Rightarrow> (nat list \<times> string) option" where
  "read_v6 s =
     (let (head, head_v4, r) = read_groups 8 True s in
      if length head = 8 then Some (head, r)
      else if head_v4 then None
      else (case strip_prefix ''::'' r of None \<Rightarrow> None
        | Some r1 \<Rightarrow>
          (let (tail, _, r2) = read_groups (8 - (length head + 1)) True r1
           in Some (head @ replicate (8 - length head - length tail) 0 @ tail, r2))))"

definition parse_v6 :: "string \<Rightarrow> 128 word option" where
  "parse_v6 s = (case read_v6 s of Some (gs, []) \<Rightarrow> Some (v6_of gs) | _ \<Rightarrow> None)"

definition parse_ip :: "string \<Rightarrow> ip_addr option" where
  "parse_ip s = (case read_v4 s of
       Some (os, r) \<Rightarrow> if r = [] then Some (V4 (v4_of os)) else None
     | None \<Rightarrow> map_option V6 (parse_v6 s))"

section \<open>The printed form parses back\<close>

lemma no_digit_head_simps [simp]:
  "no_digit_head r []" "no_digit_head r (c # s) = (to_digit r c = None)"
  by (simp_all add: no_digit_head_def)

lemma to_digit_seps [simp]:
  "to_digit r CHR '':'' = None" "to_digit r CHR ''.'' = None" "to_digit r CHR ''/'' = None"
  by (simp_all add: to_digit_def is_digit_def)

lemma read_number_nondigit: "no_digit_head r s \<Longrightarrow> read_number r m z v s = None"
  by (cases s) (auto simp: read_number_def)

lemma read_octets_show:
  assumes "\<And>d. d \<in> set os \<Longrightarrow> d < 256" and "no_digit_head 10 rest" and "os \<noteq> []"
  shows "read_octets (length os) first
           ((if first then [] else ''.'') @ show_v4 os @ rest) = Some (os, rest)"
  using assms
proof (induction os arbitrary: first)
  case (Cons d os)
  define tl where "tl = (if os = [] then [] else ''.'' @ show_v4 os) @ rest"
  have body: "show_v4 (d # os) @ rest = show_nat d @ tl"
    by (cases os) (auto simp: show_v4_def tl_def)
  have nd: "no_digit_head 10 tl" using Cons.prems by (auto simp: tl_def)
  have num: "read_number 10 3 False 255 (show_nat d @ tl) = Some (d, tl)"
    using Cons.prems nd by (intro read_number_show) force+
  have rest: "read_octets (length os) False tl = Some (os, rest)"
  proof (cases os)
    case Nil
    then show ?thesis by (simp add: tl_def)
  next
    case (Cons e es)
    with Cons.IH[of False] Cons.prems show ?thesis by (simp add: tl_def)
  qed
  show ?case
    by (cases first) (simp_all add: read_sep_def body num rest)
qed simp

lemma read_v4_show:
  "(\<And>d. d \<in> set os \<Longrightarrow> d < 256) \<Longrightarrow> length os = 4 \<Longrightarrow> no_digit_head 10 rest \<Longrightarrow>
   read_v4 (show_v4 os @ rest) = Some (os, rest)"
  using read_octets_show[of os rest True] by (cases os) (auto simp: read_v4_def)

lemma read_sep_set: "read_sep d first s = Some t \<Longrightarrow> set t \<subseteq> set s"
  by (auto simp: read_sep_def split: if_splits list.splits)

lemma read_octets_no_dot:
  assumes "CHR ''.'' \<notin> set s" shows "read_octets (Suc (Suc k)) first s = None"
proof -
  have "read_sep CHR ''.'' False r = None" if "set r \<subseteq> set s" for r
    using assms that by (cases r) (auto simp: read_sep_def)
  moreover have "set r \<subseteq> set s"
    if "read_sep CHR ''.'' first s = Some t" "read_number 10 3 False 255 t = Some (g, r)" for t g r
    using read_sep_set[OF that(1)] read_number_suffix[OF that(2)] by auto
  ultimately show ?thesis
    by (fastforce split: option.splits)
qed

lemma read_v4_no_dot: "CHR ''.'' \<notin> set s \<Longrightarrow> read_v4 s = None"
  using read_octets_no_dot[of s 2 True] by (simp add: read_v4_def numeral_eq_Suc)

lemma show_hex_chars: "c \<in> set (show_hex n) \<Longrightarrow> is_alnum c"
  by (rule show_base_alnum[of 16]) auto

lemma no_dot_hex [simp]: "CHR ''.'' \<notin> set (show_hex n)"
  using show_hex_chars by (force simp: is_alnum_def is_digit_def is_upper_def is_lower_def)

lemma no_dot_colon_groups [simp]: "CHR ''.'' \<notin> set (colon_groups gs)"
  by (auto simp: colon_groups_def)

lemma no_dot_fmt [simp]: "CHR ''.'' \<notin> set (fmt_subslice gs)"
  by (cases gs) (auto simp: fmt_subslice_def)

text \<open>What stops the group reader: the end, or a double colon.\<close>

definition group_stop :: "string \<Rightarrow> bool" where
  "group_stop r = (r = [] \<or> (\<exists>t. r = ''::'' @ t))"

lemma group_stop_no_digit: "group_stop r \<Longrightarrow> no_digit_head 16 r"
  by (auto simp: group_stop_def)

lemma read_v4_nondigit: "no_digit_head 10 s \<Longrightarrow> read_v4 s = None"
  using read_octets.simps(2)[of 3 True s]
  by (simp add: read_v4_def read_sep_def read_number_nondigit)

lemma group_stop_read: "group_stop r \<Longrightarrow> read_groups n f r = ([], False, r)"
  by (cases n; cases f)
    (auto simp: group_stop_def read_sep_def read_v4_nondigit read_number_nondigit)

lemma colon_groups_Cons: "colon_groups (g # gs) = CHR '':'' # show_hex g @ colon_groups gs"
  by (simp add: colon_groups_def)

lemma read_hex_group:
  assumes "g < 65536" "no_digit_head 16 r"
  shows "read_number 16 4 True 65535 (show_hex g @ r) = Some (g, r)"
  using assms by (intro read_number_show) auto

lemma colon_groups_head: "no_digit_head 16 r \<Longrightarrow> no_digit_head 16 (colon_groups gs @ r)"
  by (cases gs) (auto simp: colon_groups_def)

lemma read_group_step:
  assumes "read_sep CHR '':'' f s = Some s1" and "read_v4 s1 = None"
    and "read_number 16 4 True 65535 s1 = Some (g, s2)"
    and "read_groups k False s2 = (gs, b, r)"
  shows "read_groups (Suc k) f s = (g # gs, b, r)"
  using assms by (cases k) simp_all

lemma read_colon_groups:
  assumes "\<And>g. g \<in> set gs \<Longrightarrow> g < 65536" and "length gs \<le> n"
    and "group_stop r" and "CHR ''.'' \<notin> set r"
  shows "read_groups n False (colon_groups gs @ r) = (gs, False, r)"
  using assms
proof (induction gs arbitrary: n)
  case Nil
  then show ?case by (simp add: colon_groups_def group_stop_read)
next
  case (Cons g gs)
  then obtain k where n: "n = Suc k" by (cases n) auto
  have v4: "read_v4 (show_hex g @ colon_groups gs @ r) = None"
    using Cons.prems by (intro read_v4_no_dot) auto
  have hex: "read_number 16 4 True 65535 (show_hex g @ colon_groups gs @ r) = Some (g, colon_groups gs @ r)"
    using Cons.prems by (intro read_hex_group colon_groups_head group_stop_no_digit) auto
  have "read_groups k False (colon_groups gs @ r) = (gs, False, r)"
    using Cons n by simp
  with v4 hex show ?case
    unfolding n by (intro read_group_step) (auto simp: colon_groups_Cons read_sep_def)
qed

lemma read_fmt_subslice:
  assumes "\<And>g. g \<in> set gs \<Longrightarrow> g < 65536" and "length gs \<le> n"
    and "group_stop r" and "CHR ''.'' \<notin> set r"
  shows "read_groups n True (fmt_subslice gs @ r) = (gs, False, r)"
proof (cases gs)
  case Nil
  with assms show ?thesis by (simp add: fmt_subslice_def group_stop_read)
next
  case (Cons g t)
  with assms obtain k where n: "n = Suc k" by (cases n) auto
  have v4: "read_v4 (show_hex g @ colon_groups t @ r) = None"
    using assms by (intro read_v4_no_dot) auto
  have hex: "read_number 16 4 True 65535 (show_hex g @ colon_groups t @ r) = Some (g, colon_groups t @ r)"
    using assms Cons by (intro read_hex_group colon_groups_head group_stop_no_digit) auto
  have "read_groups k False (colon_groups t @ r) = (t, False, r)"
    using assms Cons n by (intro read_colon_groups) auto
  with v4 hex show ?thesis
    unfolding n Cons by (intro read_group_step) (auto simp: fmt_subslice_def read_sep_def)
qed

text \<open>The span the printer leaves out holds zeros only and lies inside the address.\<close>

definition zeros_at :: "nat list \<Rightarrow> nat \<times> nat \<Rightarrow> bool" where
  "zeros_at gs sp = (fst sp + snd sp \<le> length gs \<and> (\<forall>j < snd sp. gs ! (fst sp + j) = 0))"

lemma zero_scan_zeros:
  assumes "zeros_at (pre @ gs) longest" and "zeros_at (pre @ gs) cur"
    and "snd cur = 0 \<or> fst cur + snd cur = length pre"
  shows "zeros_at (pre @ gs) (zero_scan (length pre) gs longest cur)"
  using assms
proof (induction gs arbitrary: pre longest cur)
  case (Cons g gs)
  obtain cs cl where cur: "cur = (cs, cl)" by (cases cur)
  have step: "length (pre @ [g]) = Suc (length pre)" "pre @ g # gs = (pre @ [g]) @ gs" by simp_all
  show ?case
  proof (cases "g = 0")
    case False
    have "zeros_at (pre @ g # gs) (0, 0)" by (simp add: zeros_at_def)
    then show ?thesis
      using Cons.IH[of "pre @ [g]" longest "(0, 0)"] Cons.prems False
      by (simp add: cur)
  next
    case True
    define cur' where "cur' = (if cl = 0 then length pre else cs, Suc cl)"
    have "(pre @ g # gs) ! (fst cur' + j) = 0" if "j < snd cur'" for j
    proof (cases "j < cl")
      case True
      with Cons.prems(2,3) show ?thesis by (simp add: cur cur'_def zeros_at_def)
    next
      case False
      with that have "j = cl" by (simp add: cur'_def)
      with Cons.prems(3) True show ?thesis by (auto simp: cur cur'_def nth_append)
    qed
    then have z: "zeros_at (pre @ g # gs) cur'"
      using Cons.prems(3) by (auto simp: zeros_at_def cur cur'_def)
    have "snd cur' = 0 \<or> fst cur' + snd cur' = length (pre @ [g])"
      using Cons.prems(3) by (auto simp: cur cur'_def)
    moreover have "zero_scan (length pre) (g # gs) longest cur =
      zero_scan (Suc (length pre)) gs (if snd cur' > snd longest then cur' else longest) cur'"
      using True by (simp add: cur cur'_def Let_def)
    ultimately show ?thesis
      using Cons.IH[of "pre @ [g]" "if snd cur' > snd longest then cur' else longest" cur']
        Cons.prems(1) z by (simp del: zero_scan.simps)
  qed
qed simp

lemma zero_span_zeros: "zeros_at gs (zero_span gs)"
  using zero_scan_zeros[of "[]" gs "(0, 0)" "(0, 0)"] by (simp add: zero_span_def zeros_at_def)

lemma zero_span_split:
  assumes "zero_span gs = (st, len)"
  shows "gs = take st gs @ replicate len 0 @ drop (st + len) gs" and "st + len \<le> length gs"
proof -
  have z: "st + len \<le> length gs" "\<And>j. j < len \<Longrightarrow> gs ! (st + j) = 0"
    using zero_span_zeros[of gs] assms by (auto simp: zeros_at_def)
  then have "take len (drop st gs) = replicate len 0"
    by (intro nth_equalityI) auto
  then show "gs = take st gs @ replicate len 0 @ drop (st + len) gs"
    by (metis add.commute append_take_drop_id drop_drop)
  show "st + len \<le> length gs" by (rule z(1))
qed

lemma read_v6_plain:
  assumes "length gs = 8" and "\<And>g. g \<in> set gs \<Longrightarrow> g < 65536"
  shows "read_v6 (fmt_subslice gs) = Some (gs, [])"
  using read_fmt_subslice[of gs 8 "[]"] assms by (simp add: read_v6_def group_stop_def)

lemma read_v6_compressed:
  assumes "length hd_gs + length tl_gs < 8"
    and "\<And>g. g \<in> set hd_gs \<union> set tl_gs \<Longrightarrow> g < 65536"
  shows "read_v6 (fmt_subslice hd_gs @ ''::'' @ fmt_subslice tl_gs) =
    Some (hd_gs @ replicate (8 - length hd_gs - length tl_gs) 0 @ tl_gs, [])"
proof -
  have "read_groups 8 True (fmt_subslice hd_gs @ ''::'' @ fmt_subslice tl_gs)
      = (hd_gs, False, ''::'' @ fmt_subslice tl_gs)"
    using assms by (intro read_fmt_subslice) (auto simp: group_stop_def)
  moreover have "read_groups (8 - (length hd_gs + 1)) True (fmt_subslice tl_gs @ []) = (tl_gs, False, [])"
    using assms by (intro read_fmt_subslice) (auto simp: group_stop_def)
  ultimately show ?thesis using assms(1) by (simp add: read_v6_def)
qed

lemma pair_octets_to_base:
  assumes "x < 65536" "y < 65536"
  shows "pair_octets (to_base 256 2 x @ to_base 256 2 y) = [x, y]"
  using assms by (simp add: pair_octets_def from_to_base)

lemma read_v6_mapped:
  assumes "length os = 4" and "\<And>d. d \<in> set os \<Longrightarrow> d < 256"
  shows "read_v6 (''::ffff:'' @ show_v4 os) = Some ([0, 0, 0, 0, 0, 65535] @ pair_octets os, [])"
proof -
  have v4: "read_v4 (show_v4 os) = Some (os, [])"
    using read_v4_show[of os "[]"] assms by simp
  have stop: "read_groups 8 True (''::ffff:'' @ show_v4 os) = ([], False, ''::ffff:'' @ show_v4 os)"
    by (rule group_stop_read) (simp add: group_stop_def)
  have "show_digits 16 65535 = [15, 15, 15, 15]" by (simp add: show_digits.simps)
  moreover have "digit_char 15 = CHR ''f''" by code_simp
  ultimately have ffff: "show_hex 65535 = ''ffff''" by (simp add: show_base_def)
  have hex: "read_number 16 4 True 65535 (''ffff:'' @ show_v4 os) = Some (65535, CHR '':'' # show_v4 os)"
    using read_hex_group[of 65535 "CHR '':'' # show_v4 os"] by (simp add: ffff)
  have no: "read_v4 (''ffff:'' @ show_v4 os) = None"
    by (rule read_v4_nondigit) (simp add: to_digit_def is_digit_def)
  have "read_groups (Suc 5) False (CHR '':'' # show_v4 os) = (pair_octets os, True, [])"
    by (subst read_groups.simps) (simp add: read_sep_def v4)
  then have "read_groups (Suc 6) True (''ffff:'' @ show_v4 os) = (65535 # pair_octets os, True, [])"
    using no hex by (intro read_group_step) (auto simp: read_sep_def)
  then have tail: "read_groups 7 True (''ffff:'' @ show_v4 os) = (65535 # pair_octets os, True, [])"
    by simp
  have "replicate 5 (0::nat) = [0, 0, 0, 0, 0]" by code_simp
  then show ?thesis using stop tail by (simp add: read_v6_def pair_octets_def)
qed

lemma read_v6_show:
  assumes "length gs = 8" and b: "\<And>g. g \<in> set gs \<Longrightarrow> g < 65536"
  shows "read_v6 (show_v6 gs) = Some (gs, [])"
proof (cases "v4_mapped gs")
  case True
  have b67: "gs ! 6 < 65536" "gs ! 7 < 65536" using assms by auto
  have "gs = take 6 gs @ [gs ! 6, gs ! 7]"
    using assms(1) by (intro nth_equalityI) (auto simp: nth_append nth_Cons' less_Suc_eq numeral_eq_Suc)
  then have gs: "gs = [0, 0, 0, 0, 0, 65535] @ [gs ! 6, gs ! 7]"
    using True by (simp add: v4_mapped_def)
  have "d < 256" if "d \<in> set (to_base 256 2 (gs ! 6) @ to_base 256 2 (gs ! 7))" for d
    using that to_base_digits[of 256] by auto
  then have "read_v6 (show_v6 gs) = Some ([0, 0, 0, 0, 0, 65535] @ [gs ! 6, gs ! 7], [])"
    using read_v6_mapped[of "to_base 256 2 (gs ! 6) @ to_base 256 2 (gs ! 7)"] b67 True
    by (simp add: show_v6_def pair_octets_to_base)
  with gs show ?thesis by simp
next
  case False
  obtain st len where sp: "zero_span gs = (st, len)" by (cases "zero_span gs")
  show ?thesis
  proof (cases "len > 1")
    case True
    note split = zero_span_split[OF sp]
    have "8 - length (take st gs) - length (drop (st + len) gs) = len"
      using split(2) assms(1) by simp
    moreover have "read_v6 (fmt_subslice (take st gs) @ ''::'' @ fmt_subslice (drop (st + len) gs)) =
      Some (take st gs @ replicate (8 - length (take st gs) - length (drop (st + len) gs)) 0
        @ drop (st + len) gs, [])"
      using b split(2) assms(1) True
      by (intro read_v6_compressed) (auto dest: in_set_takeD in_set_dropD)
    ultimately show ?thesis using False True sp split(1) by (simp add: show_v6_def)
  next
    case len: False
    with False sp show ?thesis using read_v6_plain[OF assms] by (simp add: show_v6_def)
  qed
qed

lemma read_v4_show_v6: "read_v4 (show_v6 gs) = None"
proof (cases "v4_mapped gs")
  case True
  then show ?thesis
    by (simp add: show_v6_def read_v4_nondigit)
next
  case False
  then show ?thesis by (auto simp: show_v6_def split: prod.split intro!: read_v4_no_dot)
qed

theorem parse_ip_show_ip: "parse_ip (show_ip a) = Some a"
proof (cases a)
  case (V4 w)
  then show ?thesis
    using read_v4_show[of "octets w" "[]"] octets_bound by (auto simp: parse_ip_def)
next
  case (V6 w)
  then show ?thesis
    using read_v6_show[of "segments w"] segments_bound
    by (auto simp: parse_ip_def parse_v6_def read_v4_show_v6)
qed

section \<open>Net\<close>

text \<open>A parsed address or network; \<open>prefix\<close> is \<open>None\<close> for a single host.\<close>

record net =
  addr :: ip_addr
  prefix :: "8 word option"

datatype net_error = NotAnAddress string | BadPrefix string

definition is_v6 :: "net \<Rightarrow> bool" where
  "is_v6 n = is_ipv6 (addr n)"

definition show_net :: "net \<Rightarrow> string" where
  "show_net n = (case prefix n of
       Some p \<Rightarrow> show_ip (addr n) @ ''/'' @ show_nat (unat p)
     | None \<Rightarrow> show_ip (addr n))"

definition parse_net :: "string \<Rightarrow> net_error + net" where
  "parse_net t =
     (let text = trim t;
          (a, p) = (case split_once CHR ''/'' text of Some (a, p) \<Rightarrow> (a, Some p) | None \<Rightarrow> (text, None))
      in case parse_ip a of
           None \<Rightarrow> Inl (NotAnAddress text)
         | Some ip \<Rightarrow>
           (case p of
              None \<Rightarrow> Inr \<lparr>addr = ip, prefix = None\<rparr>
            | Some p' \<Rightarrow>
              (case parse_u8 p' of
                 None \<Rightarrow> Inl (BadPrefix text)
               | Some v \<Rightarrow> if v \<le> (if is_ipv6 ip then 128 else 32)
                   then Inr \<lparr>addr = ip, prefix = Some (word_of_nat v)\<rparr>
                   else Inl (BadPrefix text))))"

text \<open>A prefix no longer than its family has bits.\<close>

definition wf_net :: "net \<Rightarrow> bool" where
  "wf_net n = (case prefix n of None \<Rightarrow> True
     | Some p \<Rightarrow> unat p \<le> (if is_v6 n then 128 else 32))"

text \<open>The characters an address or network can print.\<close>

definition net_char :: "char \<Rightarrow> bool" where
  "net_char c = (is_alnum c \<or> c = CHR ''.'' \<or> c = CHR '':'' \<or> c = CHR ''/'')"

definition ip_char :: "char \<Rightarrow> bool" where
  "ip_char c = (is_alnum c \<or> c = CHR ''.'' \<or> c = CHR '':'')"

lemma join_chars:
  "c \<in> set (join sep xs) \<Longrightarrow> c \<in> set sep \<or> (\<exists>x \<in> set xs. c \<in> set x)"
  using set_join by fastforce

lemma show_nat_chars: "c \<in> set (show_nat n) \<Longrightarrow> is_alnum c"
  by (rule show_base_alnum[of 10]) auto

lemma show_v4_chars: "c \<in> set (show_v4 os) \<Longrightarrow> ip_char c"
  unfolding show_v4_def
  by (auto dest!: join_chars show_nat_chars simp: ip_char_def)

lemma fmt_subslice_chars: "c \<in> set (fmt_subslice gs) \<Longrightarrow> ip_char c"
  by (cases gs) (auto simp: fmt_subslice_def colon_groups_def ip_char_def
      dest: show_hex_chars split: if_splits)

lemma show_v6_chars: "c \<in> set (show_v6 gs) \<Longrightarrow> ip_char c"
proof (cases "v4_mapped gs")
  case True
  assume "c \<in> set (show_v6 gs)"
  with True show ?thesis
    by (auto simp: show_v6_def dest: show_v4_chars) (simp_all add: ip_char_def is_alnum_def is_lower_def)
next
  case False
  assume "c \<in> set (show_v6 gs)"
  with False show ?thesis
    by (auto simp: show_v6_def split: prod.splits if_splits dest: fmt_subslice_chars)
      (simp_all add: ip_char_def)
qed

lemma show_ip_chars: "c \<in> set (show_ip a) \<Longrightarrow> ip_char c"
  by (cases a) (auto dest: show_v4_chars show_v6_chars)

lemma show_net_chars: "c \<in> set (show_net n) \<Longrightarrow> net_char c"
  by (auto simp: show_net_def net_char_def ip_char_def split: option.splits
      dest!: show_ip_chars show_nat_chars)

lemma net_char_safe: "net_char c \<Longrightarrow> \<not> is_white c \<and> \<not> is_control c \<and> code c < 128"
  by (auto simp: net_char_def is_white_def is_control_def
      dest: alnum_not_white alnum_not_control alnum_ascii
      simp: is_alnum_def is_digit_def is_upper_def is_lower_def)

lemma show_net_trimmed [simp]: "trim (show_net n) = show_net n"
  by (intro trim_trimmed no_white_trimmed) (auto dest!: show_net_chars net_char_safe)

lemma no_slash_show_ip [simp]: "CHR ''/'' \<notin> set (show_ip a)"
  by (auto dest!: show_ip_chars
      simp: ip_char_def is_alnum_def is_digit_def is_upper_def is_lower_def)

lemma parse_net_show_net: "wf_net n \<Longrightarrow> parse_net (show_net n) = Inr n"
proof (cases "prefix n")
  case None
  then have "show_net n = show_ip (addr n)" "trim (show_ip (addr n)) = show_ip (addr n)"
    using show_net_trimmed[of n] by (simp_all add: show_net_def)
  moreover have "split_once CHR ''/'' (show_ip (addr n)) = None" by simp
  ultimately show ?thesis using None
    by (simp add: parse_net_def parse_ip_show_ip del: split_once_none)
next
  case (Some p)
  assume wf: "wf_net n"
  have "unat p < 256" using unat_bound[of p] by simp
  then have "parse_u8 (show_nat (unat p)) = Some (unat p)" by (intro parse_radix_show) auto
  moreover have "split_once CHR ''/'' (show_net n) = Some (show_ip (addr n), show_nat (unat p))"
    using Some by (simp add: show_net_def split_once_append)
  moreover have "unat p \<le> (if is_ipv6 (addr n) then 128 else 32)"
    using wf Some by (simp add: wf_net_def is_v6_def)
  ultimately show ?thesis using Some
    by (simp add: parse_net_def parse_ip_show_ip)
qed

lemma parse_net_wf: "parse_net s = Inr n \<Longrightarrow> wf_net n"
  by (auto simp: parse_net_def Let_def wf_net_def is_v6_def unat_of_nat
      split: option.splits prod.splits if_splits)

interpretation net_text: codec show_net parse_net wf_net
  by unfold_locales (auto simp: parse_net_show_net dest: parse_net_wf)

end
