(* ===== verification/Texts.thy ===== *)
theory Texts
  imports Prelude
begin

text \<open>
  Lines and quotes of the files the daemon writes, substrings, and sorted lists without
  repetitions (\<open>sort\<close> and \<open>dedup\<close>, or a \<open>BTreeSet\<close>), shared by the components that write
  configuration files.
\<close>

section \<open>Lines\<close>

definition LF :: string where "LF = [CHR 0x0A]"

definition unlines :: "string list \<Rightarrow> string" where
  "unlines ls = concat (map (\<lambda>l. l @ LF) ls)"

definition has_infix :: "string \<Rightarrow> string \<Rightarrow> bool" where
  "has_infix p s = list_ex (\<lambda>k. starts_with p (drop k s)) [0..<Suc (length s)]"

definition DQUOTE :: string where "DQUOTE = [CHR 0x22]"
definition SQUOTE :: string where "SQUOTE = [CHR 0x27]"


section \<open>Sorted lists without repetitions\<close>

text \<open>What \<open>sort\<close> followed by \<open>dedup\<close> returns, and that it is a fixed point.\<close>

lemma sort_key_id: "sorted (map f xs) \<Longrightarrow> sort_key f xs = xs"
  by (induction xs) (auto simp: insort_is_Cons)

lemma sort_Nil_iff: "sort_key f xs = [] \<longleftrightarrow> xs = []"
  by (metis length_0_conv length_sort)

lemma sorted_remdups_adj_map: "sorted (map f xs) \<Longrightarrow> sorted (map f (remdups_adj xs))"
  by (induction xs rule: remdups_adj.induct) auto

lemma distinct_remdups_adj:
  assumes "inj f" and "sorted (map f xs)"
  shows "distinct (remdups_adj xs)"
  using assms(2)
proof (induction xs rule: remdups_adj.induct)
  case (3 x y xs)
  show ?case
  proof (cases "x = y")
    case False
    with 3 assms(1) have "f x < f y" by (auto simp: less_le dest: injD)
    with 3 have "x \<notin> set (y # xs)" by force
    with 3 False show ?thesis by (simp del: set_simps)
  qed (use 3 in simp)
qed auto

definition sort_dedup :: "('a \<Rightarrow> 'b::linorder) \<Rightarrow> 'a list \<Rightarrow> 'a list" where
  "sort_dedup f xs = remdups_adj (sort_key f xs)"

lemma sort_dedup_set [simp]: "set (sort_dedup f xs) = set xs"
  by (simp add: sort_dedup_def)

lemma sort_dedup_sorted: "sorted (map f (sort_dedup f xs))"
  by (simp add: sort_dedup_def sorted_remdups_adj_map)

lemma sort_dedup_distinct: "inj f \<Longrightarrow> distinct (sort_dedup f xs)"
  by (simp add: sort_dedup_def distinct_remdups_adj)

lemma sort_dedup_id: "sorted (map f xs) \<Longrightarrow> distinct xs \<Longrightarrow> sort_dedup f xs = xs"
  by (simp add: sort_dedup_def sort_key_id remdups_adj_distinct)

section \<open>The bytes of a text\<close>

unbundle bit_operations_syntax

definition utf8_char :: "char \<Rightarrow> 8 word list" where
  "utf8_char c = (if code c < 128 then [word_of_nat (code c)]
     else [192 OR word_of_nat (code c div 64), 128 OR word_of_nat (code c mod 64)])"

definition utf8 :: "string \<Rightarrow> 8 word list" where
  "utf8 s = concat (map utf8_char s)"

lemma utf8_Cons: "utf8 (c # s) = utf8_char c @ utf8 s"
  by (simp add: utf8_def)

lemma code_lt: "code c < 256"
  by simp

lemma low_bytes: "list_all (\<lambda>k. unat (128 OR word_of_nat k :: 8 word) = 128 + k) [0..<64]"
  by code_simp

lemma high_bytes: "list_all (\<lambda>k. unat (192 OR word_of_nat k :: 8 word) = 192 + k) [2, 3]"
  by code_simp

lemma div_64: "128 \<le> n \<Longrightarrow> n < 256 \<Longrightarrow> n div 64 = 2 \<or> n div 64 = (3 :: nat)"
  by (cases "n < 192") (auto intro: div_nat_eqI)

lemma utf8_char_codes: "map unat (utf8_char c) =
    (if code c < 128 then [code c] else [192 + code c div 64, 128 + code c mod 64])"
proof (cases "code c < 128")
  case True
  then show ?thesis by (simp add: utf8_char_def unsigned_of_nat take_bit_eq_mod)
next
  case False
  have "code c < 256" by (rule code_lt)
  with False have "code c div 64 = 2 \<or> code c div 64 = 3" by (intro div_64) simp_all
  then have "unat (192 OR word_of_nat (code c div 64) :: 8 word) = 192 + code c div 64"
    using high_bytes by (auto simp del: of_nat_numeral)
  moreover have "unat (128 OR word_of_nat (code c mod 64) :: 8 word) = 128 + code c mod 64"
    using low_bytes by (simp add: list_all_iff)
  ultimately show ?thesis using False by (simp add: utf8_char_def)
qed

lemma utf8_char_prefix: "utf8_char c @ x = utf8_char d @ y \<Longrightarrow> c = d \<and> x = y"
proof -
  assume "utf8_char c @ x = utf8_char d @ y"
  then have m: "map unat (utf8_char c) @ map unat x = map unat (utf8_char d) @ map unat y"
    by (metis map_append)
  have b: "code c < 256" "code d < 256" by (rule code_lt)+
  from m b have "c = d"
    by (auto simp: utf8_char_codes split: if_splits) (metis div_mult_mod_eq of_char_eq_iff)
  with \<open>utf8_char c @ x = utf8_char d @ y\<close> show ?thesis by simp
qed

lemma utf8_inj: "utf8 a = utf8 b \<longleftrightarrow> a = b"
proof (induction a arbitrary: b)
  case Nil
  show ?case by (cases b) (auto simp: utf8_Cons utf8_def[of "[]"] utf8_char_def)
next
  case (Cons c a)
  show ?case
  proof (cases b)
    case Nil
    then show ?thesis by (simp add: utf8_Cons) (simp add: utf8_def utf8_char_def)
  next
    case (Cons d s)
    then show ?thesis using Cons.IH by (auto simp: utf8_Cons dest!: utf8_char_prefix)
  qed
qed

end
