(* ===== verification/WebModel.thy ===== *)
theory WebModel
  imports NetAddr Texts
begin

text \<open>
  \<open>webserver/model.rs\<close>: the settings of the web server, sites with their upstream servers, TLS,
  proxy options and snippets, and the validation every write goes through. The errors are
  constructors. The check that a certificate and a key belong together (\<open>cert.rs\<close>, X.509) is the
  argument \<open>pair_ok\<close>.
\<close>

datatype web_error =
    UnknownMode string | BadWorkers string | BadConnections | BadKeepalive | BadSize string string | BadGzipLevel
  | NoTlsProtocol | UnknownTlsProtocol string | BadEmail string | BadAcmeUrl | BadImage | UnknownDefaultMode string
  | NotAbsolute string | BadDirChar string | NotNormalized string | PrivateDir string string | BadRedirect | PageTooLarge
  | UnknownStatus string | StatusPageTooLarge string | HealthRange | HealthPath | HealthStatus
  | BadSiteId string | BadServerName string | BadWebAddress string | BadHeaderName string | BadHeaderValue string
  | SnippetTooLarge string | SnippetNul string | NoServerNames string | TooManyNames string | BadMarker string
  | NoServers string | BadAppTarget | BadWeight | NoHashKey | BadUpstreamKeepalive | NoCertificate | BadPair
  | WildcardAcme | BadProxyTimeout | EmptyRaw

section \<open>Settings\<close>

datatype web_mode = ModeNone | ModeSystem | ModeDocker

fun web_mode_label :: "web_mode \<Rightarrow> string" where
  "web_mode_label ModeNone = ''none''"
| "web_mode_label ModeSystem = ''system''"
| "web_mode_label ModeDocker = ''docker''"

definition web_mode_parse :: "string \<Rightarrow> web_error + web_mode" where
  "web_mode_parse v = (let l = to_lower (trim v) in
     if l = ''system'' then Inr ModeSystem else if l = ''docker'' then Inr ModeDocker else Inl (UnknownMode l))"

record host_profile =
  hp_user :: string
  hp_pid :: string
  include_modules :: bool
  include_conf_d :: bool
  include_sites_enabled :: bool
  foreign_default_http :: bool
  foreign_default_https :: bool
  adopted :: bool
  nginx_org_repo :: bool

datatype default_site_mode = DropIt | PageIt | RootIt | RedirectIt

fun default_mode_label :: "default_site_mode \<Rightarrow> string" where
  "default_mode_label DropIt = ''drop''"
| "default_mode_label PageIt = ''page''"
| "default_mode_label RootIt = ''root''"
| "default_mode_label RedirectIt = ''redirect''"

definition default_mode_parse :: "string \<Rightarrow> web_error + default_site_mode" where
  "default_mode_parse v = (let l = to_lower (trim v) in
     if l \<in> {[], ''drop''} then Inr DropIt else if l = ''page'' then Inr PageIt
     else if l = ''root'' then Inr RootIt else if l = ''redirect'' then Inr RedirectIt
     else Inl (UnknownDefaultMode l))"

record default_site =
  ds_mode :: default_site_mode
  ds_root :: string
  redirect_url :: string
  page_html :: string

text \<open>\<open>custom\<close>: status code to HTML, in the order of the keys.\<close>

record error_pages =
  ep_enabled :: bool
  intercept_upstream :: bool
  custom :: "(string \<times> string) list"

record web_settings =
  ws_mode :: web_mode
  image :: string
  worker_processes :: string
  worker_connections :: "32 word"
  keepalive_timeout :: nat
  client_max_body_size :: string
  gzip :: bool
  gzip_level :: nat
  server_tokens :: bool
  ws_http2 :: bool
  tls_protocols :: "string list"
  ws_hsts :: bool
  cloudflare_real_ip :: bool
  access_log :: bool
  acme_email :: string
  acme_directory :: string
  custom_main :: string
  custom_http :: string
  default_site :: default_site
  error_pages :: error_pages
  host :: host_profile

definition DEFAULT_IMAGE :: string where "DEFAULT_IMAGE = ''nginx:stable-alpine''"

definition default_host :: host_profile where
  "default_host = \<lparr>hp_user = [], hp_pid = [], include_modules = False, include_conf_d = False,
     include_sites_enabled = False, foreign_default_http = False, foreign_default_https = False, adopted = False,
     nginx_org_repo = False\<rparr>"

definition default_web_settings :: web_settings where
  "default_web_settings = \<lparr>ws_mode = ModeNone, image = DEFAULT_IMAGE, worker_processes = ''auto'',
     worker_connections = 4096, keepalive_timeout = 65, client_max_body_size = ''64m'', gzip = True, gzip_level = 5,
     server_tokens = False, ws_http2 = True, tls_protocols = [''TLSv1.2'', ''TLSv1.3''], ws_hsts = False,
     cloudflare_real_ip = False, access_log = True, acme_email = [], acme_directory = [], custom_main = [],
     custom_http = [], default_site = \<lparr>ds_mode = DropIt, ds_root = [], redirect_url = [], page_html = []\<rparr>,
     error_pages = \<lparr>ep_enabled = True, intercept_upstream = False, custom = []\<rparr>, host = default_host\<rparr>"

definition docker_image :: "web_settings \<Rightarrow> string" where
  "docker_image s = (if trim (image s) = [] then DEFAULT_IMAGE else trim (image s))"

definition MAX_PAGE_HTML :: nat where "MAX_PAGE_HTML = 64 * 1024"

definition blank_or_control :: "char \<Rightarrow> bool" where
  "blank_or_control c = (is_white c \<or> is_control c)"

definition PRIVATE_DIRS :: "string list" where
  "PRIVATE_DIRS = [''/etc'', ''/var/lib/asc'', ''/root'', ''/proc'', ''/sys'', ''/dev'', ''/boot'', ''/run'']"

definition bad_dir_char :: "char \<Rightarrow> bool" where
  "bad_dir_char c = (blank_or_control c \<or> c \<in> set (DQUOTE @ SQUOTE @ [CHR 0x5C] @ '';{}$:''))"

definition validate_host_dir :: "string \<Rightarrow> string \<Rightarrow> web_error + unit" where
  "validate_host_dir field v0 = (let v = trim v0 in
     if \<not> starts_with ''/'' v \<or> v = ''/'' then Inl (NotAbsolute field)
     else if 1024 < byte_len v \<or> list_ex bad_dir_char v then Inl (BadDirChar field)
     else if list_ex (\<lambda>p. p = ''..'' \<or> p = ''.'') (split_char CHR ''/'' v) \<or> has_infix ''//'' v then Inl (NotNormalized field)
     else (case find (\<lambda>d. v = d \<or> starts_with (d @ ''/'') v) PRIVATE_DIRS of
         Some d \<Rightarrow> Inl (PrivateDir field d) | None \<Rightarrow> Inr ()))"

definition bad_url_char :: "char \<Rightarrow> bool" where
  "bad_url_char c = (blank_or_control c \<or> c \<in> set (DQUOTE @ [CHR 0x5C] @ '';{}'' @ SQUOTE))"

definition default_site_validate :: "default_site \<Rightarrow> web_error + unit" where
  "default_site_validate d = and_then
     (case ds_mode d of
        RootIt \<Rightarrow> validate_host_dir ''default_site.root'' (ds_root d)
      | RedirectIt \<Rightarrow> (let u = trim (redirect_url d) in
          guard ((starts_with ''https://'' u \<or> starts_with ''http://'' u) \<and> byte_len u \<le> 2048 \<and> \<not> list_ex bad_url_char u)
            BadRedirect)
      | DropIt \<Rightarrow> Inr () | PageIt \<Rightarrow> Inr ())
     (\<lambda>_. guard (byte_len (page_html d) \<le> MAX_PAGE_HTML) PageTooLarge)"

definition host_dir :: "default_site \<Rightarrow> string option" where
  "host_dir d = (if ds_mode d = RootIt then Some (trim (ds_root d)) else None)"

definition ERROR_CODES :: "(nat \<times> string) list" where
  "ERROR_CODES = [(400, ''Bad Request''), (401, ''Unauthorized''), (403, ''Forbidden''), (404, ''Not Found''),
     (405, ''Method Not Allowed''), (408, ''Request Timeout''), (413, ''Content Too Large''), (429, ''Too Many Requests''),
     (500, ''Internal Server Error''), (502, ''Bad Gateway''), (503, ''Service Unavailable''), (504, ''Gateway Timeout'')]"

definition error_pages_validate :: "error_pages \<Rightarrow> web_error + unit" where
  "error_pages_validate e = map_ok (\<lambda>_. ()) (traverse (\<lambda>(c, html).
     if \<not> list_ex (\<lambda>(k, r). show_nat k = c) ERROR_CODES then Inl (UnknownStatus c)
     else guard (byte_len html \<le> MAX_PAGE_HTML) (StatusPageTooLarge c)) (custom e))"

text \<open>\<open>trim_end_matches\<close> of a set of characters.\<close>

definition trim_end_set :: "char set \<Rightarrow> string \<Rightarrow> string" where
  "trim_end_set cs s = rev (dropWhile (\<lambda>c. c \<in> cs) (rev s))"

definition validate_size :: "string \<Rightarrow> string \<Rightarrow> web_error + unit" where
  "validate_size field v0 = (let v = trim v0; digits = trim_end_set (set ''kKmMgG'') v in
     if v = [] \<or> digits = [] \<or> 1 < byte_len v - byte_len digits \<or> \<not> list_all is_digit digits \<or> 12 < byte_len digits
     then Inl (BadSize field v) else Inr ())"

definition graphic :: "char \<Rightarrow> bool" where
  "graphic c = (33 \<le> code c \<and> code c \<le> 126)"

definition plausible_email :: "string \<Rightarrow> bool" where
  "plausible_email v = (case split_once CHR ''@'' v of None \<Rightarrow> False
     | Some (loc, domain) \<Rightarrow> loc \<noteq> [] \<and> CHR ''.'' \<in> set domain \<and>
         list_all (\<lambda>c. graphic c \<and> c \<notin> set (DQUOTE @ '';'' @ [CHR 0x5C] @ ''<>'')) v)"

definition settings_ok :: "web_settings \<Rightarrow> web_error + unit" where
  "settings_ok s = (let wp = trim (worker_processes s) in
     if wp \<noteq> ''auto'' \<and> \<not> (case parse_u32 wp of Some n \<Rightarrow> 1 \<le> n \<and> n \<le> 1024 | None \<Rightarrow> False) then Inl (BadWorkers wp)
     else if \<not> (64 \<le> worker_connections s \<and> worker_connections s \<le> 1048576) then Inl BadConnections
     else if 3600 < keepalive_timeout s then Inl BadKeepalive
     else and_then (validate_size ''client_max_body_size'' (client_max_body_size s)) (\<lambda>_.
       if \<not> (1 \<le> gzip_level s \<and> gzip_level s \<le> 9) then Inl BadGzipLevel
       else if tls_protocols s = [] then Inl NoTlsProtocol
       else (case find (\<lambda>p. p \<notin> {''TLSv1'', ''TLSv1.1'', ''TLSv1.2'', ''TLSv1.3''}) (tls_protocols s) of
           Some p \<Rightarrow> Inl (UnknownTlsProtocol p)
         | None \<Rightarrow> if acme_email s \<noteq> [] \<and> \<not> plausible_email (acme_email s) then Inl (BadEmail (acme_email s))
             else if acme_directory s \<noteq> [] \<and> \<not> starts_with ''https://'' (acme_directory s) then Inl BadAcmeUrl
             else if list_ex blank_or_control (image s) then Inl BadImage
             else and_then (default_site_validate (default_site s)) (\<lambda>_. error_pages_validate (error_pages s)))))"

section \<open>Health checks\<close>

datatype health_kind = HealthOff | HealthTcp | HealthHttp

record health_check =
  hc_kind :: health_kind
  hc_path :: string
  expected_status :: nat
  interval_secs :: nat
  timeout_secs :: nat
  hc_fails :: nat
  hc_passes :: nat

definition default_health :: health_check where
  "default_health = \<lparr>hc_kind = HealthOff, hc_path = [], expected_status = 0, interval_secs = 0, timeout_secs = 0,
     hc_fails = 0, hc_passes = 0\<rparr>"

definition health_enabled :: "health_check \<Rightarrow> bool" where
  "health_enabled h = (hc_kind h \<noteq> HealthOff)"

definition or_default :: "nat \<Rightarrow> nat \<Rightarrow> nat" where
  "or_default d n = (if n = 0 then d else n)"

definition health_interval :: "health_check \<Rightarrow> nat" where "health_interval h = or_default 5 (interval_secs h)"
definition health_timeout :: "health_check \<Rightarrow> nat" where "health_timeout h = or_default 2 (timeout_secs h)"
definition health_fails :: "health_check \<Rightarrow> nat" where "health_fails h = or_default 3 (hc_fails h)"
definition health_passes :: "health_check \<Rightarrow> nat" where "health_passes h = or_default 2 (hc_passes h)"

definition health_validate :: "health_check \<Rightarrow> web_error + health_check" where
  "health_validate h =
     (if \<not> health_enabled h then Inr default_health
      else if 3600 < interval_secs h \<or> 60 < timeout_secs h \<or> 20 < hc_fails h \<or> 20 < hc_passes h then Inl HealthRange
      else if hc_kind h = HealthHttp then
        (let h = (if hc_path h = [] then h\<lparr>hc_path := ''/''\<rparr> else h) in
         if \<not> starts_with ''/'' (hc_path h) \<or> 1024 < byte_len (hc_path h) \<or> list_ex blank_or_control (hc_path h) then Inl HealthPath
         else if expected_status h \<noteq> 0 \<and> \<not> (100 \<le> expected_status h \<and> expected_status h \<le> 599) then Inl HealthStatus
         else Inr h)
      else Inr (h\<lparr>hc_path := [], expected_status := 0\<rparr>))"

section \<open>Sites\<close>

datatype balance = RoundRobin | LeastConn | IpHash | HashKey

datatype web_target = AppTarget string nat | AddressTarget string

record upstream_server =
  target :: web_target
  weight :: nat
  backup :: bool
  max_fails :: nat
  fail_timeout_secs :: nat
  us_down :: bool

record upstream =
  servers :: "upstream_server list"
  balance :: balance
  hash_key :: string
  keepalive :: nat
  up_tls :: bool
  health_of :: health_check

datatype tls_mode = TlsNone | TlsAcme | TlsProvided

record site_tls =
  tls_mode :: tls_mode
  certificate_pem :: string
  private_key_pem :: string
  redirect_http :: bool
  tls_hsts :: bool
  tls_http2 :: bool

record header =
  hname :: string
  hvalue :: string

record proxy =
  websocket :: bool
  max_body :: string
  connect_timeout :: nat
  read_timeout :: nat
  send_timeout :: nat
  request_headers :: "header list"
  response_headers :: "header list"
  upstream_host :: bool
  no_buffering :: bool

datatype real_ip = RealIpOff | RealIpCloudflare

record site_logs =
  log_access :: bool
  log_error :: bool

record site =
  sid :: string
  server_names :: "string list"
  owner :: "string option"
  disabled :: bool
  upstream :: upstream
  tls :: site_tls
  proxy :: proxy
  real_ip :: real_ip
  extra_server :: string
  extra_location :: string
  raw_config :: "string option"
  logs :: site_logs

definition API_SITE_OWNER :: string where "API_SITE_OWNER = ''daemon-api''"
definition API_SITE_ID :: string where "API_SITE_ID = ''asc-api''"
definition MAX_SITE_ID :: nat where "MAX_SITE_ID = 64"
definition MAX_SNIPPET :: nat where "MAX_SNIPPET = 64 * 1024"
definition MAX_NAMES :: nat where "MAX_NAMES = 100"
definition LOG_DIR :: string where "LOG_DIR = ''/var/log/asc/webserver''"

datatype log_kind = AccessLog | ErrorLog

fun log_suffix :: "log_kind \<Rightarrow> string" where
  "log_suffix AccessLog = ''access''"
| "log_suffix ErrorLog = ''error''"

text \<open>\<open>Path::join\<close> of a relative path.\<close>

definition path_join :: "string \<Rightarrow> string \<Rightarrow> string" where
  "path_join base rel = (if base = [] \<or> last base = CHR ''/'' then base @ rel else base @ ''/'' @ rel)"

definition site_log_file :: "string \<Rightarrow> string \<Rightarrow> log_kind \<Rightarrow> string" where
  "site_log_file dir s k = path_join dir (s @ ''.'' @ log_suffix k @ ''.log'')"

definition lower_alnum :: "char \<Rightarrow> bool" where
  "lower_alnum c = (is_lower c \<or> is_digit c)"

definition validate_site_id :: "string \<Rightarrow> web_error + unit" where
  "validate_site_id i = guard (i \<noteq> [] \<and> byte_len i \<le> MAX_SITE_ID \<and> lower_alnum (hd i) \<and>
     list_all (\<lambda>c. lower_alnum c \<or> c \<in> set ''-_.'') i \<and> \<not> has_infix ''..'' i) (BadSiteId i)"

definition name_label_ok :: "string \<Rightarrow> bool" where
  "name_label_ok l = (l \<noteq> [] \<and> byte_len l \<le> 63 \<and> hd l \<noteq> CHR ''-'' \<and> last l \<noteq> CHR ''-'' \<and>
     list_all (\<lambda>c. lower_alnum c \<or> c = CHR ''-'') l)"

definition validate_server_name :: "string \<Rightarrow> web_error + unit" where
  "validate_server_name name =
     (let h = (case strip_prefix ''*.'' name of Some r \<Rightarrow> r | None \<Rightarrow> name); labels = split_char CHR ''.'' h in
      guard (h \<noteq> [] \<and> byte_len name \<le> 253 \<and> 2 \<le> length labels \<and> list_all name_label_ok labels) (BadServerName name))"

definition bracketed :: "string \<Rightarrow> string option" where
  "bracketed h = (case strip_prefix ''['' h of None \<Rightarrow> None | Some r \<Rightarrow> strip_suffix '']'' r)"

definition validate_address :: "string \<Rightarrow> web_error + unit" where
  "validate_address a = (case rsplit_once CHR '':'' a of None \<Rightarrow> Inl (BadWebAddress a)
   | Some (h, p) \<Rightarrow> (case parse_u16 p of None \<Rightarrow> Inl (BadWebAddress a)
     | Some n \<Rightarrow> if n = 0 then Inl (BadWebAddress a) else
         guard (case bracketed h of Some inner \<Rightarrow> parse_v6 inner \<noteq> None
           | None \<Rightarrow> h \<noteq> [] \<and> byte_len h \<le> 253 \<and> list_all (\<lambda>c. is_alnum c \<or> c \<in> set ''.-'') h) (BadWebAddress a)))"

definition bad_header_char :: "char \<Rightarrow> bool" where
  "bad_header_char c = (is_control c \<or> c \<in> set (DQUOTE @ [CHR 0x5C] @ '';{}''))"

definition validate_header :: "header \<Rightarrow> web_error + unit" where
  "validate_header h =
     (if hname h = [] \<or> \<not> list_all (\<lambda>c. is_alnum c \<or> c = CHR ''-'') (hname h) then Inl (BadHeaderName (hname h))
      else guard (\<not> list_ex bad_header_char (hvalue h)) (BadHeaderValue (hname h)))"

definition validate_snippet :: "string \<Rightarrow> string \<Rightarrow> web_error + unit" where
  "validate_snippet field text =
     (if MAX_SNIPPET < byte_len text then Inl (SnippetTooLarge field)
      else guard (CHR 0x00 \<notin> set text) (SnippetNul field))"

definition is_local :: "site \<Rightarrow> bool" where
  "is_local s = (owner s = None)"

section \<open>Normalisation\<close>

definition clean_name :: "string \<Rightarrow> string" where
  "clean_name n = to_lower (trim_end_set {CHR ''.''} (trim n))"

definition normal_names :: "string list \<Rightarrow> string list" where
  "normal_names ns = sort_dedup (\<lambda>n. n) (filter (\<lambda>n. n \<noteq> []) (map clean_name ns))"

definition names_of :: "site \<Rightarrow> web_error + string list" where
  "names_of s = (let ns = normal_names (server_names s) in
     if ns = [] then Inl (NoServerNames (sid s))
     else if MAX_NAMES < length ns then Inl (TooManyNames (sid s))
     else map_ok (\<lambda>_. ns) (traverse validate_server_name ns))"

definition marker_ok :: "string option \<Rightarrow> web_error + unit" where
  "marker_ok m = (case m of None \<Rightarrow> Inr ()
   | Some x \<Rightarrow> guard (x \<noteq> [] \<and> byte_len x \<le> 64 \<and> \<not> list_ex is_white x) (BadMarker x))"

definition server_ok :: "upstream_server \<Rightarrow> web_error + unit" where
  "server_ok s = and_then
     (case target s of AppTarget app p \<Rightarrow> guard (trim app \<noteq> [] \<and> p \<noteq> 0) BadAppTarget | AddressTarget a \<Rightarrow> validate_address a)
     (\<lambda>_. guard (weight s \<noteq> 0 \<and> weight s \<le> 1000) BadWeight)"

definition hash_key_ok :: "upstream \<Rightarrow> bool" where
  "hash_key_ok u = (balance u = HashKey \<longrightarrow> trim (hash_key u) \<noteq> [] \<and>
     \<not> list_ex (\<lambda>c. is_white c \<or> c \<in> set ('';{}'' @ DQUOTE @ SQUOTE)) (trim (hash_key u)))"

definition upstream_normalize :: "site \<Rightarrow> web_error + upstream" where
  "upstream_normalize s = (let u = upstream s in
     if raw_config s = None \<and> servers u = [] then Inl (NoServers (sid s))
     else and_then (traverse server_ok (servers u)) (\<lambda>_.
       if \<not> hash_key_ok u then Inl NoHashKey
       else if 1024 < keepalive u then Inl BadUpstreamKeepalive
       else map_ok (\<lambda>h. u\<lparr>health_of := h\<rparr>) (health_validate (health_of u))))"

definition clear_pem :: "site_tls \<Rightarrow> site_tls" where
  "clear_pem t = t\<lparr>certificate_pem := [], private_key_pem := []\<rparr>"

definition tls_normalize :: "(string \<Rightarrow> string \<Rightarrow> bool) \<Rightarrow> string list \<Rightarrow> site_tls \<Rightarrow> web_error + site_tls" where
  "tls_normalize pair_ok names t = (case tls_mode t of
     TlsProvided \<Rightarrow> if trim (certificate_pem t) = [] \<or> trim (private_key_pem t) = [] then Inl NoCertificate
       else if pair_ok (certificate_pem t) (private_key_pem t) then Inr t else Inl BadPair
   | TlsAcme \<Rightarrow> if list_ex (starts_with ''*.'') names then Inl WildcardAcme else Inr (clear_pem t)
   | TlsNone \<Rightarrow> Inr (clear_pem t))"

definition proxy_ok :: "proxy \<Rightarrow> web_error + unit" where
  "proxy_ok p = and_then (if max_body p \<noteq> [] then validate_size ''client_max_body_size'' (max_body p) else Inr ()) (\<lambda>_.
     if 86400 < connect_timeout p \<or> 86400 < read_timeout p \<or> 86400 < send_timeout p then Inl BadProxyTimeout
     else map_ok (\<lambda>_. ()) (traverse validate_header (request_headers p @ response_headers p)))"

definition snippets_ok :: "site \<Rightarrow> web_error + unit" where
  "snippets_ok s = and_then (validate_snippet ''extra_server'' (extra_server s)) (\<lambda>_.
     and_then (validate_snippet ''extra_location'' (extra_location s)) (\<lambda>_.
       case raw_config s of None \<Rightarrow> Inr ()
       | Some raw \<Rightarrow> if trim raw = [] then Inl EmptyRaw else validate_snippet ''raw_config'' raw))"

definition site_normalize :: "(string \<Rightarrow> string \<Rightarrow> bool) \<Rightarrow> site \<Rightarrow> web_error + site" where
  "site_normalize pair_ok s =
     and_then (validate_site_id (sid s)) (\<lambda>_.
     and_then (names_of s) (\<lambda>ns.
     and_then (marker_ok (owner s)) (\<lambda>_.
     and_then (upstream_normalize s) (\<lambda>u.
     and_then (tls_normalize pair_ok ns (tls s)) (\<lambda>t.
     and_then (proxy_ok (proxy s)) (\<lambda>_.
     and_then (snippets_ok s) (\<lambda>_.
     Inr (s\<lparr>server_names := ns, upstream := u, tls := t\<rparr>))))))))"

text \<open>The site as the API shows it.\<close>

definition redacted :: "site \<Rightarrow> site" where
  "redacted s = s\<lparr>tls := clear_pem (tls s)\<rparr>"

section \<open>Statuses\<close>

datatype site_state = SitePending | SiteApplied | SiteError | SiteDisabled

datatype tls_state = TlsIdle | PendingDns | Issuing | TlsActive | Expiring | TlsError

record tls_status =
  ts_state :: tls_state
  not_after :: int
  issuer :: string
  ts_error :: string
  next_attempt :: int
  failures :: nat
  ts_names :: "string list"

record upstream_health =
  uh_address :: string
  healthy :: bool
  checked :: bool
  last_error :: string
  checked_at :: int
  latency_ms :: nat

record site_status =
  ss_state :: site_state
  message :: string
  applied_at :: int
  ss_tls :: tls_status
  upstream_addresses :: "string list"
  upstream_health :: "upstream_health list"

definition default_tls_status :: tls_status where
  "default_tls_status = \<lparr>ts_state = TlsIdle, not_after = 0, issuer = [], ts_error = [], next_attempt = 0, failures = 0,
     ts_names = []\<rparr>"

definition default_site_status :: site_status where
  "default_site_status = \<lparr>ss_state = SitePending, message = [], applied_at = 0, ss_tls = default_tls_status,
     upstream_addresses = [], upstream_health = []\<rparr>"

end
