(* ===== verification/WebRender.thy ===== *)
theory WebRender
  imports WebModel
begin

text \<open>
  \<open>webserver/render.rs\<close> and the ranges of \<open>webserver/cloudflare.rs\<close>: the nginx configuration,
  line by line. Upstream addresses, certificate paths and the servers that are down are resolved by
  the caller. A file is the text of its lines; the long dash of its header is written as the bytes of
  its UTF-8 form.
\<close>

section \<open>Cloudflare ranges\<close>

record ranges =
  cidrs :: "string list"
  updated_at :: int

definition EMBEDDED_V4 :: "string list" where
  "EMBEDDED_V4 = [''173.245.48.0/20'', ''103.21.244.0/22'', ''103.22.200.0/22'', ''103.31.4.0/22'', ''141.101.64.0/18'',
     ''108.162.192.0/18'', ''190.93.240.0/20'', ''188.114.96.0/20'', ''197.234.240.0/22'', ''198.41.128.0/17'',
     ''162.158.0.0/15'', ''104.16.0.0/13'', ''104.24.0.0/14'', ''172.64.0.0/13'', ''131.0.72.0/22'']"

definition EMBEDDED_V6 :: "string list" where
  "EMBEDDED_V6 = [''2400:cb00::/32'', ''2606:4700::/32'', ''2803:f800::/32'', ''2405:b500::/32'', ''2405:8100::/32'',
     ''2a06:98c0::/29'', ''2c0f:f248::/32'']"

definition embedded_ranges :: ranges where
  "embedded_ranges = \<lparr>cidrs = EMBEDDED_V4 @ EMBEDDED_V6, updated_at = 0\<rparr>"

definition valid_cidr :: "string \<Rightarrow> bool" where
  "valid_cidr v = (case split_once CHR ''/'' v of None \<Rightarrow> False
   | Some (a, p) \<Rightarrow> (case parse_ip a of None \<Rightarrow> False
     | Some ip \<Rightarrow> (case parse_u8 p of None \<Rightarrow> False | Some n \<Rightarrow> n \<le> (if is_ipv6 ip then 128 else 32))))"

text \<open>\<open>Ranges::load\<close>, of the document that was read.\<close>

definition load_ranges :: "ranges option \<Rightarrow> ranges" where
  "load_ranges d = (case d of Some r \<Rightarrow> if cidrs r \<noteq> [] \<and> list_all valid_cidr (cidrs r) then r else embedded_ranges
     | None \<Rightarrow> embedded_ranges)"

datatype list_error = EmptyRangeList | NotACidr string

definition parse_list :: "string \<Rightarrow> list_error + string list" where
  "parse_list body = (let cs = filter (\<lambda>l. l \<noteq> []) (map trim (lines body)) in
     if cs = [] then Inl EmptyRangeList
     else (case find (\<lambda>c. \<not> valid_cidr c) cs of Some bad \<Rightarrow> Inl (NotACidr bad) | None \<Rightarrow> Inr cs))"

definition EM_DASH :: string where "EM_DASH = [CHR 0xE2, CHR 0x80, CHR 0x94]"

definition directives :: "ranges \<Rightarrow> string list" where
  "directives r = [''# Cloudflare edge ranges '' @ EM_DASH @ '' managed by asc-daemon.'']
     @ map (\<lambda>c. ''set_real_ip_from '' @ c @ '';'') (cidrs r)
     @ [''real_ip_header CF-Connecting-IP;'', ''real_ip_recursive on;'']"

section \<open>Paths and versions\<close>

record web_paths =
  root_dir :: string
  state_dir :: string
  webroot :: string
  logs_dir :: string

definition system_paths :: web_paths where
  "system_paths = \<lparr>root_dir = ''/etc/asc/webserver'', state_dir = ''/var/lib/asc/webserver'',
     webroot = ''/var/www/asc-acme'', logs_dir = LOG_DIR\<rparr>"

definition staging :: "web_paths \<Rightarrow> string" where
  "staging p = path_join (root_dir p) ''.staging''"

definition acme_cert_dir :: "web_paths \<Rightarrow> string \<Rightarrow> string" where
  "acme_cert_dir p s = path_join (path_join (path_join (state_dir p) ''acme'') ''certs'') s"

record features =
  http2_directive :: bool
  reject_handshake :: bool
  ipv6 :: bool

definition parse_version :: "string \<Rightarrow> (nat \<times> nat \<times> nat) option" where
  "parse_version v = (case map parse_u32 (split_char CHR ''.'' (trim v)) of
     Some a # Some b # rest \<Rightarrow> Some (a, b, case rest of Some c # _ \<Rightarrow> c | _ \<Rightarrow> 0)
   | _ \<Rightarrow> None)"

definition version_at_least :: "nat \<times> nat \<times> nat \<Rightarrow> nat \<times> nat \<times> nat \<Rightarrow> bool" where
  "version_at_least v w = (case (v, w) of ((a, b, c), (x, y, z)) \<Rightarrow> x < a \<or> x = a \<and> (y < b \<or> y = b \<and> z \<le> c))"

definition for_version :: "string option \<Rightarrow> bool \<Rightarrow> features" where
  "for_version version v6 =
     (let at_least = (\<lambda>want. case Option.bind version parse_version of None \<Rightarrow> True | Some v \<Rightarrow> version_at_least v want) in
      \<lparr>http2_directive = at_least (1, 25, 1), reject_handshake = at_least (1, 19, 4), ipv6 = v6\<rparr>)"

definition NGINX_CONF :: string where "NGINX_CONF = ''nginx.conf''"
definition CUSTOM_HTTP :: string where "CUSTOM_HTTP = ''http.d/custom.conf''"
definition CLOUDFLARE :: string where "CLOUDFLARE = ''snippets/cloudflare-realip.conf''"
definition ACME_SNIPPET :: string where "ACME_SNIPPET = ''snippets/acme.conf''"
definition PROXY_SNIPPET :: string where "PROXY_SNIPPET = ''snippets/proxy.conf''"
definition ERRORS_SNIPPET :: string where "ERRORS_SNIPPET = ''snippets/errors.conf''"
definition ERRORS_DIR :: string where "ERRORS_DIR = ''errors''"
definition DEFAULT_PAGE_DIR :: string where "DEFAULT_PAGE_DIR = ''default''"
definition ERRORS_LOCATION :: string where "ERRORS_LOCATION = ''/__asc_errors/''"

definition site_file :: "string \<Rightarrow> string" where
  "site_file i = path_join ''sites'' (i @ ''.conf'')"

definition provided_cert_files :: "string \<Rightarrow> string \<times> string" where
  "provided_cert_files i = (let dir = path_join ''certs'' i in (path_join dir ''fullchain.pem'', path_join dir ''privkey.pem''))"

definition header_lines :: "string list" where
  "header_lines = [''# Generated by asc-daemon. Change it with `asc web` or in the AdminService.Cloud'',
     ''# panel '' @ EM_DASH @ '' manual edits are overwritten on the next apply.'']"

definition indent_line :: "string \<Rightarrow> string \<Rightarrow> string" where
  "indent_line by l = (if trim l = [] then [] else by @ l)"

definition indent :: "string \<Rightarrow> string \<Rightarrow> string" where
  "indent text by = join LF (map (indent_line by) (lines text))"

abbreviation quoted :: "string \<Rightarrow> string" where "quoted s \<equiv> DQUOTE @ s @ DQUOTE"

abbreviation line_if :: "bool \<Rightarrow> string \<Rightarrow> string list" where "line_if b l \<equiv> if b then [l] else []"

section \<open>One site\<close>

record resolved_site =
  rs_site :: site
  rs_addresses :: "string list"
  rs_cert :: "(string \<times> string) option"
  rs_down :: "bool list"

definition fnv :: "string \<Rightarrow> 32 word" where
  "fnv s = foldl (\<lambda>h b. (h XOR ucast b) * 0x01000193) 0x811c9dc5 (utf8 s)"

definition upstream_name :: "string \<Rightarrow> string" where
  "upstream_name i = ''asc_'' @ map (\<lambda>c. if is_alnum c then c else CHR ''_'') i @ ''_''
     @ map digit_char (to_base 16 8 (unat (fnv i)))"

definition is_api_site :: "site \<Rightarrow> bool" where
  "is_api_site s = (owner s = Some API_SITE_OWNER)"

definition log_directives :: "site \<Rightarrow> string \<Rightarrow> string list" where
  "log_directives s dir =
     [if log_access (logs s) then ''    access_log '' @ site_log_file dir (sid s) AccessLog @ '' asc;'' else ''    access_log off;'',
      if log_error (logs s) then ''    error_log '' @ site_log_file dir (sid s) ErrorLog @ '' warn;'' else ''    error_log /dev/null crit;'']"

definition server_line :: "balance \<Rightarrow> upstream_server \<times> string \<Rightarrow> bool \<Rightarrow> string" where
  "server_line b sa out = (case sa of (s, address) \<Rightarrow>
     ''    server '' @ address
     @ (if 1 < weight s then '' weight='' @ show_nat (weight s) else [])
     @ (if 0 < max_fails s then '' max_fails='' @ show_nat (max_fails s) else [])
     @ (if 0 < fail_timeout_secs s then '' fail_timeout='' @ show_nat (fail_timeout_secs s) @ ''s'' else [])
     @ (if backup s \<and> b \<in> {RoundRobin, LeastConn} then '' backup'' else [])
     @ (if us_down s \<or> out then '' down'' else []) @ '';'')"

definition down_at :: "bool list \<Rightarrow> nat \<Rightarrow> bool" where
  "down_at ds k = (if k < length ds then ds ! k else False)"

definition upstream_block :: "resolved_site \<Rightarrow> string list" where
  "upstream_block r = (let s = rs_site r; u = upstream s in
     [''upstream '' @ upstream_name (sid s) @ '' {'']
     @ (case balance u of RoundRobin \<Rightarrow> [] | LeastConn \<Rightarrow> [''    least_conn;''] | IpHash \<Rightarrow> [''    ip_hash;'']
        | HashKey \<Rightarrow> [''    hash '' @ trim (hash_key u) @ '' consistent;''])
     @ map (\<lambda>(k, sa). server_line (balance u) sa (down_at (rs_down r) k)) (enumerate 0 (zip (servers u) (rs_addresses r)))
     @ line_if (0 < keepalive u \<and> \<not> is_api_site s) (''    keepalive '' @ show_nat (keepalive u) @ '';'')
     @ [''}'', []])"

definition timeout_lines :: "proxy \<Rightarrow> string list" where
  "timeout_lines p = concat (map (\<lambda>(d, v). line_if (0 < v) (''        '' @ d @ '' '' @ show_nat v @ ''s;''))
     [(''proxy_connect_timeout'', connect_timeout p), (''proxy_read_timeout'', read_timeout p), (''proxy_send_timeout'', send_timeout p)])"

definition snippet_lines :: "string \<Rightarrow> string \<Rightarrow> string \<Rightarrow> string list" where
  "snippet_lines by title text = (if trim text = [] then [] else [[], by @ title] @ map (indent_line by) (lines (trim_end text)))"

definition scheme_of :: "site \<Rightarrow> string" where
  "scheme_of s = (if up_tls (upstream s) then ''https'' else ''http'')"

definition proxy_location :: "site \<Rightarrow> web_settings \<Rightarrow> string \<Rightarrow> bool \<Rightarrow> string \<Rightarrow> string list" where
  "proxy_location s ws up https base = (let p = proxy s in
     [''        proxy_pass '' @ scheme_of s @ ''://'' @ up @ '';'',
        ''        include '' @ path_join base PROXY_SNIPPET @ '';'',
        if upstream_host p then ''        proxy_set_header Host $proxy_host;'' else ''        proxy_set_header Host $host;'']
     @ line_if (up_tls (upstream s)) ''        proxy_ssl_server_name on;''
     @ (if websocket p then [''        proxy_set_header Upgrade $http_upgrade;'', ''        proxy_set_header Connection $connection_upgrade;'']
        else [''        proxy_set_header Connection '' @ quoted [] @ '';''])
     @ timeout_lines p
     @ (if no_buffering p then [''        proxy_buffering off;'', ''        proxy_request_buffering off;''] else [])
     @ line_if (ep_enabled (error_pages ws) \<and> intercept_upstream (error_pages ws)) ''        proxy_intercept_errors on;''
     @ map (\<lambda>h. ''        proxy_set_header '' @ hname h @ '' '' @ quoted (hvalue h) @ '';'') (request_headers p)
     @ line_if (https \<and> (tls_hsts (tls s) \<or> ws_hsts ws))
         (''        add_header Strict-Transport-Security '' @ quoted ''max-age=63072000'' @ '' always;'')
     @ map (\<lambda>h. ''        add_header '' @ hname h @ '' '' @ quoted (hvalue h) @ '' always;'') (response_headers p)
     @ snippet_lines ''        '' ''# extra_location'' (extra_location s))"

definition proxy_body :: "site \<Rightarrow> web_settings \<Rightarrow> string \<Rightarrow> bool \<Rightarrow> string \<Rightarrow> string list" where
  "proxy_body s ws up https base =
     line_if (ep_enabled (error_pages ws)) (''    include '' @ path_join base ERRORS_SNIPPET @ '';'')
     @ line_if (real_ip s = RealIpCloudflare \<and> \<not> cloudflare_real_ip ws) (''    include '' @ path_join base CLOUDFLARE @ '';'')
     @ line_if (max_body (proxy s) \<noteq> []) (''    client_max_body_size '' @ trim (max_body (proxy s)) @ '';'')
     @ snippet_lines ''    '' ''# extra_server'' (extra_server s)
     @ [[]] @ (''    location / {'' # proxy_location s ws up https base @ [''    }''])"

definition api_body :: "site \<Rightarrow> string \<Rightarrow> string \<Rightarrow> string list" where
  "api_body s up base =
     [''    client_max_body_size 0;'', [], ''    location / {'', ''        error_page 418 = @asc_grpc;'',
      ''        if ($content_type ~* '' @ quoted ''^application/grpc'' @ '') {'', ''            return 418;'', ''        }'',
      ''        proxy_pass '' @ scheme_of s @ ''://'' @ up @ '';'', ''        include '' @ path_join base PROXY_SNIPPET @ '';'',
      ''        proxy_set_header Host $host;'', ''        proxy_set_header Upgrade $http_upgrade;'',
      ''        proxy_set_header Connection $connection_upgrade;'', ''        proxy_read_timeout 3600s;'',
      ''        proxy_send_timeout 3600s;'', ''        proxy_buffering off;'', ''        proxy_request_buffering off;'', ''    }'',
      [], ''    location @asc_grpc {'', ''        grpc_pass '' @ (if up_tls (upstream s) then ''grpcs'' else ''grpc'') @ ''://'' @ up @ '';'',
      ''        grpc_set_header X-Real-IP $remote_addr;'']
     @ line_if (up_tls (upstream s)) ''        grpc_ssl_verify off;''
     @ [''        grpc_read_timeout 3600s;'', ''        grpc_send_timeout 3600s;'', ''    }'']"

definition http_server :: "resolved_site \<Rightarrow> web_settings \<Rightarrow> features \<Rightarrow> string \<Rightarrow> string \<Rightarrow> string list" where
  "http_server r ws f base dir = (let s = rs_site r in
     [''server {'', ''    listen 80;''] @ line_if (ipv6 f) ''    listen [::]:80;''
     @ [''    server_name '' @ join '' '' (server_names s) @ '';'', ''    include '' @ path_join base ACME_SNIPPET @ '';'']
     @ log_directives s dir
     @ (if is_api_site s \<or> rs_cert r \<noteq> None \<and> redirect_http (tls s)
        then [[], ''    location / {'', ''        return 301 https://$host$request_uri;'', ''    }'']
        else proxy_body s ws (upstream_name (sid s)) False base)
     @ [''}''])"

definition https_server :: "resolved_site \<Rightarrow> web_settings \<Rightarrow> features \<Rightarrow> string \<Rightarrow> string \<Rightarrow> string \<times> string \<Rightarrow> string list" where
  "https_server r ws f base dir ck =
     (let s = rs_site r; http2 = is_api_site s \<or> tls_http2 (tls s) \<and> ws_http2 ws;
          h2 = (if http2 \<and> \<not> http2_directive f then '' http2'' else []) in
     [[], ''server {'', ''    listen 443 ssl'' @ h2 @ '';''] @ line_if (ipv6 f) (''    listen [::]:443 ssl'' @ h2 @ '';'')
     @ line_if (http2 \<and> http2_directive f) ''    http2 on;''
     @ [''    server_name '' @ join '' '' (server_names s) @ '';'', ''    ssl_certificate '' @ fst ck @ '';'',
        ''    ssl_certificate_key '' @ snd ck @ '';'']
     @ log_directives s dir
     @ (if is_api_site s then api_body s (upstream_name (sid s)) base else proxy_body s ws (upstream_name (sid s)) True base)
     @ [''}''])"

definition site_lines :: "resolved_site \<Rightarrow> web_settings \<Rightarrow> features \<Rightarrow> string \<Rightarrow> string \<Rightarrow> string list" where
  "site_lines r ws f base dir = (let s = rs_site r in
     [''# asc-daemon site '' @ sid s @ '' ('' @ (case owner s of Some m \<Rightarrow> m | None \<Rightarrow> ''local'') @ '').''] @ header_lines
     @ (case raw_config s of Some raw \<Rightarrow> [''# Raw configuration supplied by the operator.'', trim_end raw]
        | None \<Rightarrow> upstream_block r @ http_server r ws f base dir
            @ (case rs_cert r of Some ck \<Rightarrow> https_server r ws f base dir ck | None \<Rightarrow> [])))"

definition render_site :: "resolved_site \<Rightarrow> web_settings \<Rightarrow> features \<Rightarrow> string \<Rightarrow> string \<Rightarrow> string" where
  "render_site r ws f base dir = unlines (site_lines r ws f base dir)"

section \<open>The node-wide files\<close>

definition default_server :: "web_settings \<Rightarrow> bool \<Rightarrow> string \<Rightarrow> string list" where
  "default_server ws v6 base =
     (let d = default_site ws; errors = line_if (ep_enabled (error_pages ws)) (''    include '' @ path_join base ERRORS_SNIPPET @ '';'') in
     [''# Unknown names: the default site ('' @ default_mode_label (ds_mode d) @ '').'', ''server {'', ''    listen 80 default_server;'']
     @ line_if v6 ''    listen [::]:80 default_server;''
     @ [''    server_name _;'', ''    include '' @ path_join base ACME_SNIPPET @ '';'']
     @ (case ds_mode d of
          DropIt \<Rightarrow> [''    location / {'', ''        return 444;'', ''    }'']
        | PageIt \<Rightarrow> errors @ [''    root '' @ path_join base DEFAULT_PAGE_DIR @ '';'', ''    location / {'',
            ''        try_files /index.html =404;'', ''        add_header Cache-Control '' @ quoted ''no-store'' @ '' always;'', ''    }'']
        | RootIt \<Rightarrow> errors @ [''    root '' @ trim (ds_root d) @ '';'', ''    index index.html index.htm;'', ''    location / {'',
            ''        try_files $uri $uri/ =404;'', ''    }'']
        | RedirectIt \<Rightarrow> [''    location / {'', ''        return 302 '' @ trim (redirect_url d) @ '';'', ''    }''])
     @ [''}'', []])"

definition errors_snippet :: "web_settings \<Rightarrow> string \<Rightarrow> string list" where
  "errors_snippet ws base = [''# Error pages (asc web settings: error_pages).'']
     @ (if \<not> ep_enabled (error_pages ws) then [] else
          map (\<lambda>(c, r). ''error_page '' @ show_nat c @ '' '' @ ERRORS_LOCATION @ show_nat c @ ''.html;'') ERROR_CODES
          @ [''location ^~ '' @ ERRORS_LOCATION @ '' {'', ''    internal;'', ''    alias '' @ path_join base ERRORS_DIR @ ''/;'',
             ''    add_header Cache-Control '' @ quoted ''no-store'' @ '' always;'', ''}''])"

definition gzip_lines :: "web_settings \<Rightarrow> string list" where
  "gzip_lines ws = (if gzip ws then [''gzip on;'', ''gzip_vary on;'', ''gzip_proxied any;'',
     ''gzip_comp_level '' @ show_nat (gzip_level ws) @ '';'', ''gzip_min_length 256;'',
     ''gzip_types text/plain text/css text/xml text/javascript application/javascript ''
       @ ''application/json application/xml application/rss+xml application/wasm image/svg+xml;'', []] else [])"

definition http_lines :: "web_settings \<Rightarrow> features \<Rightarrow> string \<Rightarrow> bool \<Rightarrow> string list" where
  "http_lines ws f base docker = (let h = host ws in
     [''include /etc/nginx/mime.types;'', ''default_type application/octet-stream;'', [],
      ''log_format asc '' @ SQUOTE @ ''$remote_addr - $remote_user [$time_local] '' @ quoted ''$request'' @ '' $status '' @ SQUOTE,
      ''           '' @ SQUOTE @ ''$body_bytes_sent '' @ quoted ''$http_referer'' @ '' '' @ quoted ''$http_user_agent'' @ '' host=$host '' @ SQUOTE,
      ''           '' @ SQUOTE @ ''rt=$request_time urt=$upstream_response_time'' @ SQUOTE @ '';'',
      if access_log ws then ''access_log /var/log/nginx/access.log asc;'' else ''access_log off;'', [],
      ''sendfile on;'', ''tcp_nopush on;'', ''keepalive_timeout '' @ show_nat (keepalive_timeout ws) @ '';'',
      ''types_hash_max_size 2048;'', ''server_names_hash_bucket_size 128;'', ''server_names_hash_max_size 4096;'',
      ''client_max_body_size '' @ trim (client_max_body_size ws) @ '';'',
      ''server_tokens '' @ (if server_tokens ws then ''on'' else ''off'') @ '';'', []]
     @ gzip_lines ws
     @ [''ssl_protocols '' @ join '' '' (tls_protocols ws) @ '';'', ''ssl_prefer_server_ciphers off;'',
        ''ssl_session_cache shared:ASC_SSL:10m;'', ''ssl_session_timeout 1d;'', ''ssl_session_tickets off;'', [],
        ''# WebSocket upgrade; an empty Connection keeps upstream keepalive working.'',
        ''map $http_upgrade $connection_upgrade {'', ''    default upgrade;'', ''    '' @ SQUOTE @ SQUOTE @ '' '' @ SQUOTE @ SQUOTE @ '';'', ''}'', []]
     @ line_if (cloudflare_real_ip ws) (''include '' @ path_join base CLOUDFLARE @ '';'')
     @ [''include '' @ path_join base CUSTOM_HTTP @ '';'']
     @ line_if (\<not> docker \<and> include_conf_d h) ''include /etc/nginx/conf.d/*.conf;''
     @ line_if (\<not> docker \<and> include_sites_enabled h) ''include /etc/nginx/sites-enabled/*;''
     @ [[]]
     @ (if docker \<or> \<not> foreign_default_http h then default_server ws (ipv6 f) base else [])
     @ (if reject_handshake f \<and> (docker \<or> \<not> foreign_default_https h) then
          [''server {'', ''    listen 443 ssl default_server;''] @ line_if (ipv6 f) ''    listen [::]:443 ssl default_server;''
          @ [''    server_name _;'', ''    ssl_reject_handshake on;'', ''}'', []] else [])
     @ [''include '' @ path_join (path_join base ''sites'') ''*.conf'' @ '';''])"

text \<open>The product is computed on 32 bits; the code of a release build wraps.\<close>

definition nofile :: "32 word \<Rightarrow> nat" where
  "nofile c = max (unat (c * 2)) 8192"

definition nginx_conf :: "web_settings \<Rightarrow> features \<Rightarrow> string \<Rightarrow> bool \<Rightarrow> string" where
  "nginx_conf ws f base docker = (let h = host ws in
     unlines (header_lines
       @ [''user '' @ (if docker \<or> hp_user h = [] then ''nginx'' else hp_user h) @ '';'',
          ''worker_processes '' @ trim (worker_processes ws) @ '';'',
          ''pid '' @ (if docker \<or> hp_pid h = [] then ''/run/nginx.pid'' else hp_pid h) @ '';'',
          ''error_log /var/log/nginx/error.log warn;'', ''worker_rlimit_nofile '' @ show_nat (nofile (worker_connections ws)) @ '';'']
       @ line_if (\<not> docker \<and> include_modules h) ''include /etc/nginx/modules-enabled/*.conf;''
       @ (if trim (custom_main ws) = [] then [] else [[], ''# custom main context'', trim_end (custom_main ws)])
       @ [[], ''events {'', ''    worker_connections '' @ show_nat (unat (worker_connections ws)) @ '';'', ''    multi_accept on;'', ''}'', [], ''http {''])
     @ indent (unlines (http_lines ws f base docker)) ''    '' @ LF @ ''}'' @ LF)"

definition PAGE_STYLE :: string where
  "PAGE_STYLE = ''*{box-sizing:border-box}body{margin:0;min-height:100vh;display:flex;''
     @ ''align-items:center;justify-content:center;padding:24px;font-family:system-ui,-apple-system,''
     @ SQUOTE @ ''Segoe UI'' @ SQUOTE @ '',Roboto,sans-serif;background:#f6f7f9;color:#1f2328}main{max-width:32rem;text-align:center}''
     @ ''.code{font-size:72px;font-weight:700;letter-spacing:-.04em;line-height:1;color:#8c959f}''
     @ ''h1{margin:16px 0 8px;font-size:22px}p{margin:0;color:#57606a;line-height:1.5}''
     @ ''@media (prefers-color-scheme:dark){body{background:#0d1117;color:#e6edf3}.code{color:#6e7681}''
     @ ''p{color:#9198a1}}''"

definition page :: "string \<Rightarrow> string \<Rightarrow> string \<Rightarrow> string \<Rightarrow> string" where
  "page title big heading text = unlines [''<!doctype html>'', ''<html lang='' @ quoted ''en'' @ ''>'', ''<head>'',
     ''<meta charset='' @ quoted ''utf-8'' @ ''>'',
     ''<meta name='' @ quoted ''viewport'' @ '' content='' @ quoted ''width=device-width,initial-scale=1'' @ ''>'',
     ''<meta name='' @ quoted ''robots'' @ '' content='' @ quoted ''noindex'' @ ''>'', ''<title>'' @ title @ ''</title>'',
     ''<style>'' @ PAGE_STYLE @ ''</style>'', ''</head>'', ''<body>'', ''<main>'',
     ''<div class='' @ quoted ''code'' @ ''>'' @ big @ ''</div>'', ''<h1>'' @ heading @ ''</h1>'', ''<p>'' @ text @ ''</p>'',
     ''</main>'', ''</body>'', ''</html>'']"

definition error_text :: "nat \<Rightarrow> string" where
  "error_text c =
     (if c = 400 then ''The server could not understand the request.''
      else if c = 401 then ''This page requires authentication.''
      else if c = 403 then ''You do not have permission to access this page.''
      else if c = 404 then ''The page you are looking for does not exist or has been moved.''
      else if c = 405 then ''This method is not allowed for the requested page.''
      else if c = 408 then ''The server timed out waiting for the request.''
      else if c = 413 then ''The request is larger than the server is willing to accept.''
      else if c = 429 then ''Too many requests. Please slow down and try again later.''
      else if c = 502 then ''The application behind this address is not responding. Please try again in a moment.''
      else if c = 503 then ''The service is temporarily unavailable. Please try again later.''
      else if c = 504 then ''The application took too long to respond. Please try again in a moment.''
      else ''Something went wrong on our side. Please try again later.'')"

definition builtin_error_page :: "nat \<Rightarrow> string \<Rightarrow> string" where
  "builtin_error_page c reason = page (show_nat c @ '' '' @ reason) (show_nat c) reason (error_text c)"

definition builtin_default_page :: string where
  "builtin_default_page = page ''Nothing here yet'' ''&#9679;'' ''Nothing is published at this address''
     ''The server is up, but no site is configured for this name.''"

text \<open>Relative path to content, in the order the files are made; later ones replace earlier ones.\<close>

definition render_global :: "web_settings \<Rightarrow> features \<Rightarrow> ranges \<Rightarrow> web_paths \<Rightarrow> string \<Rightarrow> bool \<Rightarrow> (string \<times> string) list" where
  "render_global ws f cf ps base docker =
     [(NGINX_CONF, nginx_conf ws f base docker),
      (CUSTOM_HTTP, unlines [''# Custom http-context directives (asc web settings: custom_http).'', trim_end (custom_http ws)]),
      (CLOUDFLARE, unlines (directives cf)), (ERRORS_SNIPPET, unlines (errors_snippet ws base))]
     @ (if ep_enabled (error_pages ws) then
          map (\<lambda>(c, reason). (path_join ERRORS_DIR (show_nat c @ ''.html''),
            case map_of (custom (error_pages ws)) (show_nat c) of
              Some html \<Rightarrow> if trim html = [] then builtin_error_page c reason else html
            | None \<Rightarrow> builtin_error_page c reason)) ERROR_CODES
        else [])
     @ (if ds_mode (default_site ws) = PageIt then
          (let html = trim (page_html (default_site ws)) in
           [(path_join DEFAULT_PAGE_DIR ''index.html'', if html = [] then builtin_default_page else html @ LF)])
        else [])
     @ [(ACME_SNIPPET, unlines [''# ACME HTTP-01 challenges, answered from the daemon'' @ SQUOTE @ ''s webroot.'',
          ''location ^~ /.well-known/acme-challenge/ {'', ''    root '' @ webroot ps @ '';'', ''    default_type text/plain;'',
          ''    try_files $uri =404;'', ''}'']),
        (PROXY_SNIPPET, unlines [''proxy_http_version 1.1;'', ''proxy_set_header X-Real-IP $remote_addr;'',
          ''proxy_set_header X-Forwarded-For $proxy_add_x_forwarded_for;'', ''proxy_set_header X-Forwarded-Proto $scheme;'',
          ''proxy_set_header X-Forwarded-Host $host;'', ''proxy_set_header X-Forwarded-Port $server_port;''])]"

end
