(* ===== verification/WebHealth.thy ===== *)
theory WebHealth
  imports WebRender "HOL-Library.Sublist"
begin

text \<open>
  \<open>webserver/health.rs\<close>: the registry of upstream servers and their health, and which of them an
  upstream takes out of rotation. Times of the monotonic clock are seconds, \<open>unix\<close> is the wall clock.
  A probe itself (a TCP connect or an HTTP request) is its result: the latency or an error.
\<close>

type_synonym health_key = "string \<times> string"

record health_entry =
  he_health :: upstream_health
  fails_in_row :: nat
  passes_in_row :: nat
  next_due :: nat
  he_check :: health_check

record probe_target =
  pt_site :: string
  pt_address :: string
  pt_check :: health_check
  pt_tls :: bool

type_synonym registry = "health_key \<rightharpoonup> health_entry"

definition U32_MAX :: nat where "U32_MAX = 2 ^ 32 - 1"

definition saturating_suc :: "nat \<Rightarrow> nat" where
  "saturating_suc n = min U32_MAX (Suc n)"

definition target_key :: "probe_target \<Rightarrow> health_key" where
  "target_key t = (pt_site t, pt_address t)"

definition fresh_health :: "string \<Rightarrow> upstream_health" where
  "fresh_health a = \<lparr>uh_address = a, healthy = True, checked = False, last_error = [], checked_at = 0, latency_ms = 0\<rparr>"

definition out_of_rotation :: "upstream_health \<Rightarrow> bool" where
  "out_of_rotation h = (checked h \<and> \<not> healthy h)"

definition is_down :: "registry \<Rightarrow> string \<Rightarrow> string \<Rightarrow> bool" where
  "is_down reg s a = (case reg (s, a) of Some e \<Rightarrow> out_of_rotation (he_health e) | None \<Rightarrow> False)"

definition snapshot :: "registry \<Rightarrow> string \<Rightarrow> string list \<Rightarrow> upstream_health list" where
  "snapshot reg s = map (\<lambda>a. case reg (s, a) of Some e \<Rightarrow> he_health e | None \<Rightarrow> fresh_health a)"

definition retain :: "health_key set \<Rightarrow> registry \<Rightarrow> registry" where
  "retain ks reg = reg |` ks"

definition fresh_entry :: "probe_target \<Rightarrow> nat \<Rightarrow> health_entry" where
  "fresh_entry t now = \<lparr>he_health = fresh_health (pt_address t), fails_in_row = 0, passes_in_row = 0, next_due = now,
     he_check = pt_check t\<rparr>"

definition with_check :: "probe_target \<Rightarrow> nat \<Rightarrow> health_entry \<Rightarrow> health_entry" where
  "with_check t now e = (if he_check e = pt_check t then e
     else e\<lparr>he_check := pt_check t, fails_in_row := 0, passes_in_row := 0, next_due := now\<rparr>)"

fun due_targets :: "probe_target list \<Rightarrow> nat \<Rightarrow> registry \<Rightarrow> probe_target list \<times> registry" where
  "due_targets [] now reg = ([], reg)"
| "due_targets (t # ts) now reg =
     (let e = with_check t now (case reg (target_key t) of Some e \<Rightarrow> e | None \<Rightarrow> fresh_entry t now);
          d = next_due e \<le> now;
          (ds, reg1) = due_targets ts now (reg(target_key t \<mapsto> (if d then e\<lparr>next_due := now + 3600\<rparr> else e)))
      in (if d then t # ds else ds, reg1))"

definition pass_entry :: "health_check \<Rightarrow> nat \<Rightarrow> health_entry \<Rightarrow> health_entry" where
  "pass_entry c latency e = (let n = saturating_suc (passes_in_row e); h = he_health e in
     e\<lparr>fails_in_row := 0, passes_in_row := n,
       he_health := h\<lparr>latency_ms := latency, last_error := [],
         healthy := (if \<not> checked h \<or> health_passes c \<le> n then True else healthy h)\<rparr>\<rparr>)"

definition fail_entry :: "health_check \<Rightarrow> string \<Rightarrow> health_entry \<Rightarrow> health_entry" where
  "fail_entry c err e = (let n = saturating_suc (fails_in_row e); h = he_health e in
     e\<lparr>passes_in_row := 0, fails_in_row := n,
       he_health := h\<lparr>last_error := err, healthy := (if health_fails c \<le> n then False else healthy h)\<rparr>\<rparr>)"

definition record_entry :: "health_check \<Rightarrow> string + nat \<Rightarrow> nat \<Rightarrow> int \<Rightarrow> health_entry \<Rightarrow> health_entry" where
  "record_entry c r now unix e0 =
     (let e1 = e0\<lparr>next_due := now + health_interval c, he_health := (he_health e0)\<lparr>checked_at := unix\<rparr>\<rparr>;
          e2 = (case r of Inr latency \<Rightarrow> pass_entry c latency e1 | Inl err \<Rightarrow> fail_entry c err e1)
      in e2\<lparr>he_health := (he_health e2)\<lparr>checked := True\<rparr>\<rparr>)"

definition record_result :: "probe_target \<Rightarrow> string + nat \<Rightarrow> nat \<Rightarrow> int \<Rightarrow> registry \<Rightarrow> bool \<times> registry" where
  "record_result t r now unix reg = (case reg (target_key t) of None \<Rightarrow> (False, reg)
     | Some e \<Rightarrow> let e1 = record_entry (pt_check t) r now unix e in
         (out_of_rotation (he_health e) \<noteq> (\<not> healthy (he_health e1)), reg(target_key t \<mapsto> e1)))"

definition down_mask :: "registry \<Rightarrow> string \<Rightarrow> string list \<Rightarrow> bool list" where
  "down_mask reg s as = (let m = map (is_down reg s) as in
     if m \<noteq> [] \<and> list_all (\<lambda>d. d) m then replicate (length m) False else m)"

section \<open>The health of a server, from the results of its probes\<close>

text \<open>
  \<open>down_after f p rs\<close>: the results \<open>rs\<close> (oldest first, \<open>True\<close> is a pass) hold \<open>f\<close> failures in a row that
  are not followed by \<open>p\<close> passes in a row.
\<close>

definition down_after :: "nat \<Rightarrow> nat \<Rightarrow> bool list \<Rightarrow> bool" where
  "down_after f p rs = (\<exists>ys zs. rs = ys @ replicate f False @ zs \<and> \<not> sublist (replicate p True) zs)"

text \<open>How often the last result was seen at the end.\<close>

definition run_of :: "bool \<Rightarrow> bool list \<Rightarrow> nat" where
  "run_of b rs = length (takeWhile (\<lambda>r. r = b) (rev rs))"

lemma run_of_simps:
  "run_of b [] = 0" "run_of b (rs @ [r]) = (if r = b then Suc (run_of b rs) else 0)"
  by (simp_all add: run_of_def)

lemma run_of_ends: "n \<le> run_of b rs \<Longrightarrow> \<exists>ys. rs = ys @ replicate n b"
proof (induction rs arbitrary: n rule: rev_induct)
  case (snoc r rs)
  show ?case
  proof (cases n)
    case (Suc m)
    with snoc.prems have "r = b" "m \<le> run_of b rs" by (auto simp: run_of_simps split: if_splits)
    with snoc.IH[of m] Suc show ?thesis by (auto simp: replicate_append_same[symmetric])
  qed simp
qed (simp add: run_of_simps)

lemma ends_run_of: "n \<le> run_of b (ys @ replicate n b)"
proof (induction n)
  case (Suc n)
  have "ys @ replicate (Suc n) b = (ys @ replicate n b) @ [b]" by (simp add: replicate_append_same)
  with Suc show ?case by (simp only: run_of_simps) simp
qed simp

lemma sublist_snoc:
  assumes "0 < p" shows "sublist (replicate p b) (zs @ [r]) \<longleftrightarrow> sublist (replicate p b) zs \<or> p \<le> run_of b (zs @ [r])"
proof
  assume "sublist (replicate p b) (zs @ [r])"
  then obtain ps ss where s: "zs @ [r] = ps @ replicate p b @ ss" by (auto simp: sublist_def)
  show "sublist (replicate p b) zs \<or> p \<le> run_of b (zs @ [r])"
  proof (cases ss rule: rev_cases)
    case Nil
    with s ends_run_of[of p b ps] show ?thesis by simp
  next
    case (snoc us u)
    with s have "zs = ps @ replicate p b @ us" by simp
    then show ?thesis by (auto simp: sublist_def)
  qed
next
  assume "sublist (replicate p b) zs \<or> p \<le> run_of b (zs @ [r])"
  then show "sublist (replicate p b) (zs @ [r])"
  proof
    assume "p \<le> run_of b (zs @ [r])"
    from run_of_ends[OF this] obtain ys where "zs @ [r] = ys @ replicate p b @ []" by auto
    then show ?thesis unfolding sublist_def by blast
  next
    assume "sublist (replicate p b) zs"
    then show ?thesis by (rule sublist_order.order_trans) simp
  qed
qed

lemma down_fail:
  assumes "0 < p" "0 < f"
  shows "down_after f p (rs @ [False]) \<longleftrightarrow> down_after f p rs \<or> f \<le> run_of False (rs @ [False])"
proof
  assume "down_after f p (rs @ [False])"
  then obtain ys zs where s: "rs @ [False] = ys @ replicate f False @ zs" "\<not> sublist (replicate p True) zs"
    by (auto simp: down_after_def)
  show "down_after f p rs \<or> f \<le> run_of False (rs @ [False])"
  proof (cases zs rule: rev_cases)
    case Nil
    with s(1) ends_run_of[of f False ys] show ?thesis by simp
  next
    case (snoc us u)
    with s(1) have "rs = ys @ replicate f False @ us" by simp
    moreover have "\<not> sublist (replicate p True) us" using s(2) snoc assms(1) by (simp add: sublist_snoc)
    ultimately show ?thesis by (auto simp: down_after_def)
  qed
next
  assume "down_after f p rs \<or> f \<le> run_of False (rs @ [False])"
  then show "down_after f p (rs @ [False])"
  proof
    assume "down_after f p rs"
    then obtain ys zs where s: "rs = ys @ replicate f False @ zs" "\<not> sublist (replicate p True) zs"
      by (auto simp: down_after_def)
    then have "\<not> sublist (replicate p True) (zs @ [False])"
      using assms(1) by (simp add: sublist_snoc run_of_simps)
    with s(1) show ?thesis unfolding down_after_def by (metis append.assoc)
  next
    assume "f \<le> run_of False (rs @ [False])"
    from run_of_ends[OF this] obtain ys where "rs @ [False] = ys @ replicate f False @ []" by auto
    moreover have "\<not> sublist (replicate p True) ([] :: bool list)" using assms(1) by simp
    ultimately show ?thesis unfolding down_after_def by blast
  qed
qed

lemma run_of_append: "run_of b (xs @ ys) = (if list_all (\<lambda>r. r = b) ys then length ys + run_of b xs else run_of b ys)"
proof (induction ys rule: rev_induct)
  case (snoc y ys)
  have "run_of b (xs @ ys @ [y]) = (if y = b then Suc (run_of b (xs @ ys)) else 0)"
    by (metis append.assoc run_of_simps(2))
  with snoc show ?case by (simp add: run_of_simps)
qed simp

lemma run_of_all: "list_all (\<lambda>r. r = b) ys \<Longrightarrow> run_of b ys = length ys"
  using run_of_append[of b "[]" ys] by (simp add: run_of_simps(1))

lemma run_of_suffix: "run_of b ys \<le> run_of b (xs @ ys)"
  by (simp add: run_of_append run_of_all)

lemma run_of_after: "run_of b xs = 0 \<Longrightarrow> run_of b (xs @ ys) = run_of b ys"
  by (simp add: run_of_append run_of_all)

lemma down_pass:
  assumes "0 < p" "0 < f"
  shows "down_after f p (rs @ [True]) \<longleftrightarrow> down_after f p rs \<and> run_of True (rs @ [True]) < p"
proof
  assume "down_after f p (rs @ [True])"
  then obtain ys zs where s: "rs @ [True] = ys @ replicate f False @ zs" "\<not> sublist (replicate p True) zs"
    by (auto simp: down_after_def)
  obtain us u where z: "zs = us @ [u]"
  proof (cases zs rule: rev_cases)
    case Nil
    with s(1) ends_run_of[of f False ys] have "f \<le> run_of False (rs @ [True])" by simp
    with assms(2) show ?thesis by (simp add: run_of_simps)
  qed
  with s(1) have u: "u = True" "rs = ys @ replicate f False @ us" by simp_all
  with s(2) z assms(1) have "\<not> sublist (replicate p True) us" "run_of True (us @ [True]) < p"
    by (simp_all add: sublist_snoc)
  moreover have "run_of True (ys @ replicate f False @ us @ [True]) = run_of True (us @ [True])"
  proof -
    have "run_of True (ys @ replicate f False) = 0" using assms(2) by (auto simp: run_of_def takeWhile_eq_Nil_iff)
    from run_of_after[OF this, of "us @ [True]"] show ?thesis by simp
  qed
  ultimately show "down_after f p rs \<and> run_of True (rs @ [True]) < p"
    unfolding u(2) down_after_def by auto
next
  assume d: "down_after f p rs \<and> run_of True (rs @ [True]) < p"
  then obtain ys zs where s: "rs = ys @ replicate f False @ zs" "\<not> sublist (replicate p True) zs"
    by (auto simp: down_after_def)
  have "run_of True (zs @ [True]) \<le> run_of True (rs @ [True])"
    unfolding s(1) using run_of_suffix[of True "zs @ [True]" "ys @ replicate f False"] by simp
  with d s(2) assms(1) have "\<not> sublist (replicate p True) (zs @ [True])" by (simp add: sublist_snoc)
  with s(1) show "down_after f p (rs @ [True])" unfolding down_after_def by (metis append.assoc)
qed

section \<open>The moves of the health loop\<close>

datatype health_move = Due "probe_target list" nat | Rec probe_target "string + nat" nat int | Retain "health_key list"

fun health_step :: "health_move \<Rightarrow> registry \<Rightarrow> registry" where
  "health_step (Due ts now) reg = snd (due_targets ts now reg)"
| "health_step (Rec t r now unix) reg = snd (record_result t r now unix reg)"
| "health_step (Retain ks) reg = retain (set ks) reg"

definition health_run :: "health_move list \<Rightarrow> registry" where
  "health_run ms = fold health_step ms Map.empty"

text \<open>The results heard of a server since it was registered, \<open>None\<close> when it is not.\<close>

fun hear :: "health_key \<Rightarrow> health_move \<Rightarrow> bool list option \<Rightarrow> bool list option" where
  "hear k (Due ts now) h = (if h = None \<and> k \<in> set (map target_key ts) then Some [] else h)"
| "hear k (Rec t r now unix) h = (if target_key t = k then map_option (\<lambda>rs. rs @ [\<not> isl r]) h else h)"
| "hear k (Retain ks) h = (if k \<in> set ks then h else None)"

definition heard :: "health_key \<Rightarrow> health_move list \<Rightarrow> bool list option" where
  "heard k ms = fold (hear k) ms None"

fun probes_with :: "health_key \<Rightarrow> health_check \<Rightarrow> health_move \<Rightarrow> bool" where
  "probes_with k c (Due ts now) = list_all (\<lambda>t. target_key t = k \<longrightarrow> pt_check t = c) ts"
| "probes_with k c (Rec t r now unix) = (target_key t = k \<longrightarrow> pt_check t = c)"
| "probes_with k c (Retain ks) = True"

definition down_by :: "health_check \<Rightarrow> bool list \<Rightarrow> bool" where
  "down_by c rs = down_after (health_fails c) (health_passes c) rs"

definition counts :: "health_check \<Rightarrow> bool list \<Rightarrow> health_entry \<Rightarrow> bool" where
  "counts c rs e \<longleftrightarrow> he_check e = c \<and> fails_in_row e = min U32_MAX (run_of False rs) \<and>
     passes_in_row e = min U32_MAX (run_of True rs) \<and> checked (he_health e) = (rs \<noteq> []) \<and>
     healthy (he_health e) = (\<not> down_by c rs)"

definition tracked :: "health_key \<Rightarrow> health_check \<Rightarrow> bool list option \<Rightarrow> registry \<Rightarrow> bool" where
  "tracked k c h reg = rel_option (counts c) h (reg k)"

lemma tracked_simps:
  "tracked k c None reg \<longleftrightarrow> reg k = None"
  "tracked k c (Some rs) reg \<longleftrightarrow> (\<exists>e. reg k = Some e \<and> counts c rs e)"
  by (auto simp: tracked_def option_rel_Some1)

lemma thresholds_positive: "0 < health_fails c" "0 < health_passes c"
  by (simp_all add: health_fails_def health_passes_def or_default_def)

lemma down_by_Nil: "\<not> down_by c []"
  using thresholds_positive(1)[of c] by (simp add: down_by_def down_after_def)

lemma counts_fresh: "pt_check t = c \<Longrightarrow> counts c [] (fresh_entry t now)"
  by (simp add: counts_def fresh_entry_def fresh_health_def run_of_simps down_by_Nil)

lemma fresh_check: "he_check (fresh_entry t now) = pt_check t"
  by (simp add: fresh_entry_def)

lemma counts_next_due: "counts c rs (e\<lparr>next_due := n\<rparr>) = counts c rs e"
  by (simp add: counts_def)

lemma counts_record:
  assumes "counts c rs e" "health_fails c \<le> U32_MAX" "health_passes c \<le> U32_MAX"
  shows "counts c (rs @ [\<not> isl r]) (record_entry c r now unix e)"
proof (cases r)
  case (Inl err)
  have "down_by c (rs @ [False]) \<longleftrightarrow> down_by c rs \<or> health_fails c \<le> Suc (run_of False rs)"
    using down_fail[OF thresholds_positive(2,1), of c c rs] by (simp add: down_by_def run_of_simps)
  with assms Inl show ?thesis
    by (auto simp: counts_def record_entry_def fail_entry_def Let_def saturating_suc_def run_of_simps)
next
  case (Inr n)
  have "down_by c (rs @ [True]) \<longleftrightarrow> down_by c rs \<and> Suc (run_of True rs) < health_passes c"
    using down_pass[OF thresholds_positive(2,1), of c c rs] by (simp add: down_by_def run_of_simps)
  with assms Inr down_by_Nil[of c] show ?thesis
    by (auto simp: counts_def record_entry_def pass_entry_def Let_def saturating_suc_def run_of_simps)
qed

lemma tracked_due:
  assumes "tracked k c h reg" "\<And>t. t \<in> set ts \<Longrightarrow> target_key t = k \<Longrightarrow> pt_check t = c"
  shows "tracked k c (if h = None \<and> k \<in> target_key ` set ts then Some [] else h) (snd (due_targets ts now reg))"
  using assms
proof (induction ts arbitrary: h reg)
  case (Cons t ts)
  let ?e = "with_check t now (case reg (target_key t) of Some e \<Rightarrow> e | None \<Rightarrow> fresh_entry t now)"
  let ?e1 = "if next_due ?e \<le> now then ?e\<lparr>next_due := now + 3600\<rparr> else ?e"
  let ?h = "if target_key t = k \<and> h = None then Some [] else h"
  have "tracked k c ?h (reg(target_key t \<mapsto> ?e1))"
  proof (cases "target_key t = k")
    case True
    with Cons.prems(2)[of t] have c: "pt_check t = c" by simp
    show ?thesis
    proof (cases h)
      case None
      with True Cons.prems(1) c show ?thesis
        by (simp add: tracked_simps with_check_def fresh_check counts_next_due counts_fresh)
    next
      case (Some rs)
      with True Cons.prems(1) c show ?thesis
        by (auto simp: tracked_simps with_check_def counts_next_due) (simp add: counts_def)
    qed
  qed (use Cons.prems(1) in \<open>simp add: tracked_def\<close>)
  then have i: "tracked k c (if ?h = None \<and> k \<in> target_key ` set ts then Some [] else ?h)
     (snd (due_targets ts now (reg(target_key t \<mapsto> ?e1))))"
    by (rule Cons.IH) (rule Cons.prems(2), simp_all)
  have h: "(if h = None \<and> k \<in> target_key ` set (t # ts) then Some [] else h)
     = (if ?h = None \<and> k \<in> target_key ` set ts then Some [] else ?h)" by auto
  have d: "snd (due_targets (t # ts) now reg) = snd (due_targets ts now (reg(target_key t \<mapsto> ?e1)))"
    by (simp add: Let_def split_beta)
  show ?case unfolding h d by (rule i)
qed simp

lemma tracked_step:
  assumes "tracked k c h reg" "probes_with k c m" "health_fails c \<le> U32_MAX" "health_passes c \<le> U32_MAX"
  shows "tracked k c (hear k m h) (health_step m reg)"
proof (cases m)
  case (Due ts now)
  with assms(1,2) tracked_due[OF assms(1), of ts now] show ?thesis by (simp add: list_all_iff)
next
  case (Rec t r now unix)
  show ?thesis
  proof (cases "target_key t = k")
    case True
    with Rec assms show ?thesis
      by (cases h) (auto simp: tracked_simps record_result_def Let_def counts_record)
  next
    case False
    with Rec assms(1) show ?thesis by (simp add: tracked_def record_result_def Let_def split: option.split)
  qed
next
  case (Retain ks)
  with assms(1) show ?thesis by (simp add: tracked_def retain_def restrict_map_def)
qed

lemma tracked_run:
  assumes "\<And>m. m \<in> set ms \<Longrightarrow> probes_with k c m" "health_fails c \<le> U32_MAX" "health_passes c \<le> U32_MAX"
  shows "tracked k c (heard k ms) (health_run ms)"
  using assms(1)
proof (induction ms rule: rev_induct)
  case Nil
  show ?case by (simp add: heard_def health_run_def tracked_simps)
next
  case (snoc m ms)
  then have "tracked k c (heard k ms) (health_run ms)" "probes_with k c m" by simp_all
  from tracked_step[OF this assms(2,3)] show ?case by (simp add: heard_def health_run_def)
qed

lemma tracked_down:
  assumes "tracked (s, a) c h reg" shows "is_down reg s a \<longleftrightarrow> (case h of None \<Rightarrow> False | Some rs \<Rightarrow> down_by c rs)"
  using assms down_by_Nil[of c] by (cases h) (auto simp: tracked_simps is_down_def out_of_rotation_def counts_def)

lemma down_mask_nth:
  assumes "i < length as"
  shows "down_mask reg s as ! i \<longleftrightarrow> is_down reg s (as ! i) \<and> (\<exists>a\<in>set as. \<not> is_down reg s a)"
  using assms by (auto simp: down_mask_def Let_def list_all_iff)

lemma down_mask_length: "length (down_mask reg s as) = length as"
  by (simp add: down_mask_def Let_def)

end
