(* ===== verification/HostIO.thy ===== *)
theory HostIO
  imports Interfaces
begin

text \<open>
  Effects on the host. A computation takes the world and returns a result and the new
  world; the world type is the component's, with a field of \<^emph>\<open>outcomes\<close> for its
  effects: each write, rename, removal or command of the code takes the next outcome.
  \<open>Fine\<close> does it, \<open>Fail\<close> is an I/O error that changes nothing (\<open>write_atomic\<close> of
  \<open>webserver/mod.rs\<close> writes a temporary file and renames it, so a failed write leaves the
  old file), and \<open>Crash\<close> is the daemon being killed: it stays at the head of the list, so
  this effect and all later ones do nothing, which leaves on disk and in the kernel
  exactly what had been done before. An empty list means that everything works.
\<close>

datatype outcome = Fine | Fail | Crash

fun next_outcome :: "outcome list \<Rightarrow> bool \<times> outcome list" where
  "next_outcome [] = (True, [])"
| "next_outcome (Fine # os) = (True, os)"
| "next_outcome (Fail # os) = (False, os)"
| "next_outcome (Crash # os) = (False, Crash # os)"

text \<open>A JSON document on disk: missing, unreadable, or what was saved.\<close>

datatype 'a doc = Absent | Corrupt | Doc 'a

type_synonym ('w, 'e, 'a) io = "'w \<Rightarrow> ('e + 'a) \<times> 'w"

definition ret :: "'a \<Rightarrow> ('w, 'e, 'a) io" where
  "ret x = (\<lambda>w. (Inr x, w))"

definition throw :: "'e \<Rightarrow> ('w, 'e, 'a) io" where
  "throw e = (\<lambda>w. (Inl e, w))"

text \<open>The question mark: an error ends the computation.\<close>

definition bind :: "('w, 'e, 'a) io \<Rightarrow> ('a \<Rightarrow> ('w, 'e, 'b) io) \<Rightarrow> ('w, 'e, 'b) io" where
  "bind m f = (\<lambda>w. case m w of (Inl e, w1) \<Rightarrow> (Inl e, w1) | (Inr x, w1) \<Rightarrow> f x w1)"

definition seq :: "('w, 'e, unit) io \<Rightarrow> ('w, 'e, 'b) io \<Rightarrow> ('w, 'e, 'b) io" where
  "seq m k = bind m (\<lambda>_. k)"

text \<open>\<open>let _ = m\<close>, and a \<open>match\<close> on the result.\<close>

definition catch :: "('w, 'e, 'a) io \<Rightarrow> ('w, 'e, 'e + 'a) io" where
  "catch m = (\<lambda>w. case m w of (r, w1) \<Rightarrow> (Inr r, w1))"

definition ignore :: "('w, 'e, 'a) io \<Rightarrow> ('w, 'e, unit) io" where
  "ignore m = (\<lambda>w. (Inr (), snd (m w)))"

definition asks :: "('w \<Rightarrow> 'a) \<Rightarrow> ('w, 'e, 'a) io" where
  "asks g = (\<lambda>w. (Inr (g w), w))"

definition lift_result :: "'e + 'a \<Rightarrow> ('w, 'e, 'a) io" where
  "lift_result r = (\<lambda>w. (r, w))"

text \<open>An effect that takes the next outcome, kept in the field \<open>get\<close>, \<open>put\<close> of the world.\<close>

definition step_io ::
  "('w \<Rightarrow> outcome list) \<Rightarrow> (outcome list \<Rightarrow> 'w \<Rightarrow> 'w) \<Rightarrow> 'e \<Rightarrow> ('w \<Rightarrow> 'w) \<Rightarrow> ('w, 'e, unit) io" where
  "step_io get put e f = (\<lambda>w. let (ok, os) = next_outcome (get w) in
     if ok then (Inr (), put os (f w)) else (Inl e, put os w))"

definition modify :: "('w \<Rightarrow> 'w) \<Rightarrow> ('w, 'e, unit) io" where
  "modify f = (\<lambda>w. (Inr (), f w))"

definition fail_if :: "bool \<Rightarrow> 'e \<Rightarrow> ('w, 'e, unit) io" where
  "fail_if c e = (if c then throw e else ret ())"

definition do_if :: "bool \<Rightarrow> ('w, 'e, unit) io \<Rightarrow> ('w, 'e, unit) io" where
  "do_if c m = (if c then m else ret ())"

named_theorems io_defs

lemmas [io_defs] = ret_def throw_def bind_def seq_def catch_def ignore_def asks_def
  lift_result_def fail_if_def do_if_def

section \<open>What an operation leaves alone, and what it keeps\<close>

text \<open>\<open>frames g m\<close>: the part \<open>g\<close> of the world is the same after \<open>m\<close>, whatever its result.\<close>

definition frames :: "('w \<Rightarrow> 'x) \<Rightarrow> ('w, 'e, 'a) io \<Rightarrow> bool" where
  "frames g m = (\<forall>w. g (snd (m w)) = g w)"

named_theorems frame_rules

lemma framesD: "frames g m \<Longrightarrow> g (snd (m w)) = g w"
  by (simp add: frames_def)

lemma frames_pure [frame_rules]:
  "frames g (ret x)" "frames g (throw e)" "frames g (asks h)" "frames g (lift_result r)"
  "frames g (fail_if c e)"
  by (simp_all add: frames_def io_defs)

lemma frames_bind [frame_rules]:
  "frames g m \<Longrightarrow> (\<And>x. frames g (f x)) \<Longrightarrow> frames g (bind m f)"
  by (auto simp: frames_def bind_def split: prod.splits sum.splits) (metis snd_conv)+

lemma frames_seq [frame_rules]: "frames g m \<Longrightarrow> frames g k \<Longrightarrow> frames g (seq m k)"
  unfolding seq_def by (rule frames_bind)

lemma frames_catch [frame_rules]: "frames g m \<Longrightarrow> frames g (catch m)"
  by (simp add: frames_def catch_def split: prod.splits) (metis snd_conv)

lemma frames_ignore [frame_rules]: "frames g m \<Longrightarrow> frames g (ignore m)"
  by (simp add: frames_def ignore_def)

lemma frames_do_if [frame_rules]: "(c \<Longrightarrow> frames g m) \<Longrightarrow> frames g (do_if c m)"
  by (simp add: do_if_def frames_pure)

lemma frames_if [frame_rules]:
  "(c \<Longrightarrow> frames g m) \<Longrightarrow> (\<not> c \<Longrightarrow> frames g n) \<Longrightarrow> frames g (if c then m else n)"
  by simp

lemma frames_option [frame_rules]:
  "(z = None \<Longrightarrow> frames g m) \<Longrightarrow> (\<And>x. z = Some x \<Longrightarrow> frames g (f x)) \<Longrightarrow>
   frames g (case z of None \<Rightarrow> m | Some x \<Rightarrow> f x)"
  by (cases z) auto

lemma frames_sum [frame_rules]:
  "(\<And>e. z = Inl e \<Longrightarrow> frames g (m e)) \<Longrightarrow> (\<And>x. z = Inr x \<Longrightarrow> frames g (f x)) \<Longrightarrow>
   frames g (case z of Inl e \<Rightarrow> m e | Inr x \<Rightarrow> f x)"
  by (cases z) auto

text \<open>
  \<open>keeps P m Q\<close>: \<open>m\<close> keeps the invariant \<open>P\<close> of the world, whether it succeeds or not,
  and a result it returns satisfies \<open>Q\<close>.
\<close>

definition keeps :: "('w \<Rightarrow> bool) \<Rightarrow> ('w, 'e, 'a) io \<Rightarrow> ('a \<Rightarrow> bool) \<Rightarrow> bool" where
  "keeps P m Q = (\<forall>w. P w \<longrightarrow> (case m w of (Inl _, w1) \<Rightarrow> P w1 | (Inr x, w1) \<Rightarrow> P w1 \<and> Q x))"

named_theorems keep_rules

lemma keepsI:
  assumes err: "\<And>w e w1. P w \<Longrightarrow> m w = (Inl e, w1) \<Longrightarrow> P w1"
    and ok: "\<And>w x w1. P w \<Longrightarrow> m w = (Inr x, w1) \<Longrightarrow> P w1 \<and> Q x"
  shows "keeps P m Q"
  unfolding keeps_def
proof (intro allI impI)
  fix w assume "P w"
  obtain r w1 where m: "m w = (r, w1)" by (cases "m w")
  show "case m w of (Inl x, w1) \<Rightarrow> P w1 | (Inr x, w1) \<Rightarrow> P w1 \<and> Q x"
  proof (cases r)
    case (Inl e)
    with m err[OF \<open>P w\<close>] show ?thesis by simp
  next
    case (Inr x)
    with m ok[OF \<open>P w\<close>] show ?thesis by simp
  qed
qed

lemma keeps_err: "keeps P m Q \<Longrightarrow> P w \<Longrightarrow> m w = (Inl e, w1) \<Longrightarrow> P w1"
  unfolding keeps_def by (drule spec[of _ w]) simp

lemma keeps_ok: "keeps P m Q \<Longrightarrow> P w \<Longrightarrow> m w = (Inr x, w1) \<Longrightarrow> P w1 \<and> Q x"
  unfolding keeps_def by (drule spec[of _ w]) simp

lemma keeps_value: "keeps P m Q \<Longrightarrow> P w \<Longrightarrow> m w = (Inr x, w1) \<Longrightarrow> Q x"
  by (blast dest: keeps_ok)

lemma keeps_world:
  assumes "keeps P m Q" "P w" shows "P (snd (m w))"
proof (cases "m w")
  case (Pair r w1)
  with assms show ?thesis by (cases r) (auto dest: keeps_err keeps_ok)
qed

lemma keeps_weaken: "keeps P m Q \<Longrightarrow> (\<And>x. Q x \<Longrightarrow> R x) \<Longrightarrow> keeps P m R"
  by (rule keepsI) (blast dest: keeps_err keeps_ok)+

lemma keeps_pure [keep_rules]:
  "Q x \<Longrightarrow> keeps P (ret x) Q" "keeps P (throw e) Q" "keeps P (fail_if c e) (\<lambda>_. \<not> c)"
  "keeps P (lift_result r) (\<lambda>x. r = Inr x)"
  by (simp_all add: keeps_def io_defs split: sum.split)

lemma keeps_bind [keep_rules]:
  assumes m: "keeps P m Q" and f: "\<And>x. Q x \<Longrightarrow> keeps P (f x) R"
  shows "keeps P (bind m f) R"
proof (rule keepsI)
  fix w e w1 assume P: "P w" and r: "bind m f w = (Inl e, w1)"
  obtain r1 u where mw: "m w = (r1, u)" by (cases "m w")
  show "P w1"
  proof (cases r1)
    case (Inl e1)
    with r mw have "m w = (Inl e, w1)" by (simp add: bind_def)
    with m P show ?thesis by (rule keeps_err)
  next
    case (Inr x)
    with m P mw have "P u" "Q x" by (blast dest: keeps_ok)+
    moreover have "f x u = (Inl e, w1)" using r mw Inr by (simp add: bind_def)
    ultimately show ?thesis using f by (blast dest: keeps_err)
  qed
next
  fix w y w1 assume P: "P w" and r: "bind m f w = (Inr y, w1)"
  obtain r1 u where mw: "m w = (r1, u)" by (cases "m w")
  with r obtain x where x: "r1 = Inr x" "f x u = (Inr y, w1)"
    by (cases r1) (auto simp: bind_def)
  with m P mw have "P u" "Q x" by (blast dest: keeps_ok)+
  with x f show "P w1 \<and> R y" by (blast dest: keeps_ok)
qed

lemma keeps_seq [keep_rules]:
  assumes "keeps P m Q" and "Q () \<Longrightarrow> keeps P k R"
  shows "keeps P (seq m k) R"
  unfolding seq_def by (rule keeps_bind[OF assms(1)]) (simp add: assms(2))

lemma keeps_if: "(c \<Longrightarrow> keeps P m Q) \<Longrightarrow> (\<not> c \<Longrightarrow> keeps P n Q) \<Longrightarrow> keeps P (if c then m else n) Q"
  by simp

lemma keeps_option:
  "(z = None \<Longrightarrow> keeps P m Q) \<Longrightarrow> (\<And>x. z = Some x \<Longrightarrow> keeps P (f x) Q) \<Longrightarrow>
   keeps P (case z of None \<Rightarrow> m | Some x \<Rightarrow> f x) Q"
  by (cases z) auto

lemma keeps_sum:
  "(\<And>e. z = Inl e \<Longrightarrow> keeps P (m e) Q) \<Longrightarrow> (\<And>x. z = Inr x \<Longrightarrow> keeps P (f x) Q) \<Longrightarrow>
   keeps P (case z of Inl e \<Rightarrow> m e | Inr x \<Rightarrow> f x) Q"
  by (cases z) auto

lemmas keeps_branch = keeps_if keeps_option keeps_sum

lemma keeps_do_if: "(c \<Longrightarrow> keeps P m (\<lambda>_. True)) \<Longrightarrow> keeps P (do_if c m) (\<lambda>_. True)"
  by (simp add: do_if_def keeps_pure)

lemma keeps_catch: "keeps P m Q \<Longrightarrow> keeps P (catch m) (\<lambda>r. case r of Inl e \<Rightarrow> True | Inr x \<Rightarrow> Q x)"
  by (fastforce simp: keeps_def catch_def split: prod.splits sum.splits)

lemma keeps_ignore: "keeps P m Q \<Longrightarrow> keeps P (ignore m) (\<lambda>_. True)"
  using keeps_world[of P m Q] by (simp add: keeps_def ignore_def)

lemma keeps_frame:
  assumes "frames g m" shows "keeps (\<lambda>w. P (g w)) m (\<lambda>_. True)"
proof (rule keepsI)
  fix w r w1 assume "P (g w)" "m w = (Inl r, w1)"
  with framesD[OF assms, of w] show "P (g w1)" by simp
next
  fix w x w1 assume "P (g w)" "m w = (Inr x, w1)"
  with framesD[OF assms, of w] show "P (g w1) \<and> True" by simp
qed

text \<open>
  \<open>triple P m Q E\<close>: from a world in \<open>P\<close>, \<open>m\<close> ends in \<open>Q\<close> of its result, or fails in \<open>E\<close>.
\<close>

definition triple ::
  "('w \<Rightarrow> bool) \<Rightarrow> ('w, 'e, 'a) io \<Rightarrow> ('a \<Rightarrow> 'w \<Rightarrow> bool) \<Rightarrow> ('w \<Rightarrow> bool) \<Rightarrow> bool" where
  "triple P m Q E = (\<forall>w. P w \<longrightarrow> (case fst (m w) of Inl _ \<Rightarrow> E (snd (m w)) | Inr x \<Rightarrow> Q x (snd (m w))))"

lemma triple_bind:
  assumes "triple P m Q E" and "\<And>x. triple (Q x) (f x) R E"
  shows "triple P (bind m f) R E"
  unfolding triple_def
proof (intro allI impI)
  fix w assume "P w"
  with assms(1) have m: "case fst (m w) of Inl _ \<Rightarrow> E (snd (m w)) | Inr x \<Rightarrow> Q x (snd (m w))"
    by (simp add: triple_def)
  obtain r w1 where r: "m w = (r, w1)" by (cases "m w")
  show "case fst (bind m f w) of Inl _ \<Rightarrow> E (snd (bind m f w)) | Inr y \<Rightarrow> R y (snd (bind m f w))"
  proof (cases r)
    case (Inl e)
    with m r show ?thesis by (simp add: bind_def)
  next
    case (Inr x)
    with m r have "Q x w1" by simp
    with assms(2)[of x] have "case fst (f x w1) of Inl _ \<Rightarrow> E (snd (f x w1)) | Inr y \<Rightarrow> R y (snd (f x w1))"
      by (simp add: triple_def)
    moreover have b: "bind m f w = f x w1" using r Inr by (simp add: bind_def)
    ultimately show ?thesis unfolding b by blast
  qed
qed

lemma triple_seq: "triple P m (\<lambda>_. Q) E \<Longrightarrow> triple Q k R E \<Longrightarrow> triple P (seq m k) R E"
  unfolding seq_def by (rule triple_bind)

lemma triple_conseq:
  "triple P m Q E \<Longrightarrow> (\<And>w. P1 w \<Longrightarrow> P w) \<Longrightarrow> (\<And>x w. Q x w \<Longrightarrow> Q1 x w) \<Longrightarrow> (\<And>w. E w \<Longrightarrow> E1 w) \<Longrightarrow>
   triple P1 m Q1 E1"
  unfolding triple_def
proof (intro allI impI)
  fix w assume t: "\<forall>w. P w \<longrightarrow> (case fst (m w) of Inl _ \<Rightarrow> E (snd (m w)) | Inr x \<Rightarrow> Q x (snd (m w)))"
    and P: "\<And>w. P1 w \<Longrightarrow> P w" and Q: "\<And>x w. Q x w \<Longrightarrow> Q1 x w" and E: "\<And>w. E w \<Longrightarrow> E1 w" and w: "P1 w"
  from t P[OF w] have "case fst (m w) of Inl _ \<Rightarrow> E (snd (m w)) | Inr x \<Rightarrow> Q x (snd (m w))" by blast
  then show "case fst (m w) of Inl _ \<Rightarrow> E1 (snd (m w)) | Inr x \<Rightarrow> Q1 x (snd (m w))"
    by (cases "fst (m w)") (simp_all add: Q E)
qed

lemma triple_frame:
  assumes "frames g m" "\<And>w. P w \<Longrightarrow> E w"
    and "\<And>w w1. g w1 = g w \<Longrightarrow> P w \<Longrightarrow> P w1"
  shows "triple P m (\<lambda>_. P) E"
proof -
  have "P (snd (m w))" if "P w" for w using framesD[OF assms(1), of w] assms(3) that by blast
  then show ?thesis using assms(2) by (auto simp: triple_def split: sum.split)
qed

lemma triple_pure:
  "triple (Q x) (ret x) Q E"
  "triple E (throw e) Q E"
  "(\<And>w. P w \<Longrightarrow> E w) \<Longrightarrow> triple P (fail_if c e) (\<lambda>_ w. P w \<and> \<not> c) E"
  "(\<And>w. P w \<Longrightarrow> E w) \<Longrightarrow> triple P (lift_result r) (\<lambda>x w. P w \<and> r = Inr x) E"
  "triple P (asks g) (\<lambda>x w. P w \<and> x = g w) E"
  by (auto simp: triple_def io_defs split: sum.split)

lemma triple_ret: "(\<And>w. P w \<Longrightarrow> Q x w) \<Longrightarrow> triple P (ret x) Q E"
  by (simp add: triple_def io_defs)

lemma triple_world:
  assumes "triple P m (\<lambda>_. Q) Q" "P w" shows "Q (snd (m w))"
proof -
  from assms have "case fst (m w) of Inl _ \<Rightarrow> Q (snd (m w)) | Inr x \<Rightarrow> Q (snd (m w))"
    by (simp add: triple_def)
  then show ?thesis by (simp split: sum.splits)
qed

lemma triple_catch: "triple P m Q E \<Longrightarrow> triple P (catch m) (\<lambda>r w. case r of Inl _ \<Rightarrow> E w | Inr x \<Rightarrow> Q x w) E2"
  by (auto simp: triple_def catch_def split_beta split: sum.splits)

lemma triple_ignore: "triple P m (\<lambda>_. Q) Q \<Longrightarrow> triple P (ignore m) (\<lambda>_. Q) E"
  unfolding triple_def[of P "ignore m"] by (simp add: ignore_def triple_world)

lemma triple_do_if:
  "(c \<Longrightarrow> triple P m (\<lambda>_. Q) E) \<Longrightarrow> (\<not> c \<Longrightarrow> (\<And>w. P w \<Longrightarrow> Q w)) \<Longrightarrow> triple P (do_if c m) (\<lambda>_. Q) E"
  by (auto simp: do_if_def triple_def io_defs split: sum.split)

section \<open>Running a computation\<close>

named_theorems io_simps

lemma bind_run [io_simps]:
  "bind (ret x) f w = f x w"
  "bind (asks g) f w = f (g w) w"
  "bind (throw e) f w = (Inl e, w)"
  "bind (lift_result (Inr x)) f w = f x w"
  "bind (lift_result (Inl e)) f w = (Inl e, w)"
  "bind (bind m h) f w = bind m (\<lambda>x. bind (h x) f) w"
  "bind (seq m2 m) f w = seq m2 (bind m f) w"
  by (auto simp: io_defs split: prod.splits sum.splits)

lemma seq_run [io_simps]:
  "seq (fail_if c e) k w = (if c then (Inl e, w) else k w)"
  "seq (ret ()) k w = k w"
  "seq (throw e) k w = (Inl e, w)"
  "seq (lift_result (Inr u)) k w = k w"
  "seq (lift_result (Inl e)) k w = (Inl e, w)"
  "seq (do_if c m) k w = (if c then seq m k w else k w)"
  "seq (ignore m4) k w = k (snd (m4 w))"
  "seq (bind m3 h) k w = bind m3 (\<lambda>x. seq (h x) k) w"
  "seq (seq m2 m) k w = seq m2 (seq m k) w"
  by (auto simp: io_defs split: prod.splits sum.splits)

lemma pure_run [io_simps]:
  "ret x w = (Inr x, w)" "throw e w = (Inl e, w)" "asks g w = (Inr (g w), w)"
  "lift_result r w = (r, w)" "ignore m4 w = (Inr (), snd (m4 w))"
  "do_if c m w = (if c then m w else (Inr (), w))"
  "fail_if c e w = (if c then (Inl e, w) else (Inr (), w))"
  by (simp_all add: io_defs)

lemma bind_Inr: "bind m f w = (Inr y, w2) \<longleftrightarrow> (\<exists>x w1. m w = (Inr x, w1) \<and> f x w1 = (Inr y, w2))"
  by (auto simp: bind_def split: prod.splits sum.splits)

lemma seq_Inr: "seq m k w = (Inr y, w2) \<longleftrightarrow> (\<exists>w1. m w = (Inr (), w1) \<and> k w1 = (Inr y, w2))"
  by (auto simp: seq_def bind_Inr)

lemma bind_Inl:
  "bind m f w = (Inl e, w2) \<longleftrightarrow> m w = (Inl e, w2) \<or> (\<exists>x w1. m w = (Inr x, w1) \<and> f x w1 = (Inl e, w2))"
  by (auto simp: bind_def split: prod.splits sum.splits)

lemma seq_Inl:
  "seq m k w = (Inl e, w2) \<longleftrightarrow> m w = (Inl e, w2) \<or> (\<exists>w1. m w = (Inr (), w1) \<and> k w1 = (Inl e, w2))"
  by (auto simp: seq_def bind_Inl)

lemma pure_Inr:
  "ret x w = (Inr y, w2) \<longleftrightarrow> y = x \<and> w2 = w"
  "throw e w = (Inr y, w2) \<longleftrightarrow> False"
  "asks g w = (Inr y, w2) \<longleftrightarrow> y = g w \<and> w2 = w"
  "lift_result r w = (Inr y, w2) \<longleftrightarrow> r = Inr y \<and> w2 = w"
  "fail_if c e w = (Inr u, w2) \<longleftrightarrow> \<not> c \<and> w2 = w"
  by (auto simp: io_defs)

lemma catch_run: "catch m w = (Inr (fst (m w)), snd (m w))"
  by (simp add: catch_def split: prod.split)

lemmas run_Inr = bind_Inr seq_Inr pure_Inr
lemmas run_Inl = bind_Inl seq_Inl

end
