(* ===== verification/WebApply.thy ===== *)
theory WebApply
  imports WebHealth HostIO
begin

text \<open>
  \<open>webserver/apply.rs\<close>: resolving the sites, writing a complete copy of the configuration into a
  staging directory, letting nginx judge it, setting the blamed site aside until it agrees, and
  swapping the live files; with the part of \<open>engine.rs\<close> that names the main file and keeps the
  directories bound into the container, which stops nginx and starts it on the live files. Files are a list of paths and texts, a directory is there
  when something is below it. What is not in the repository is an argument: the verdict of nginx on
  the files, the facts of a certificate, the \<open>{:?}\<close> form of a string. The ports an app publishes
  (\<open>apps/ports.rs\<close>) are an argument, too.
\<close>

section \<open>Files\<close>

type_synonym texts = "(string \<times> string) list"

definition put_text :: "string \<Rightarrow> string \<Rightarrow> texts \<Rightarrow> texts" where
  "put_text p c fs = (p, c) # filter (\<lambda>(q, _). q \<noteq> p) fs"

definition under_dir :: "string \<Rightarrow> string \<Rightarrow> bool" where
  "under_dir d p = starts_with (d @ ''/'') p"

definition drop_path :: "string \<Rightarrow> texts \<Rightarrow> texts" where
  "drop_path d fs = filter (\<lambda>(q, _). q \<noteq> d \<and> \<not> under_dir d q) fs"

definition child_names :: "string \<Rightarrow> texts \<Rightarrow> string list" where
  "child_names d fs = remdups (map (\<lambda>(q, _). takeWhile (\<lambda>c. c \<noteq> CHR ''/'') (drop (length d + 1) q))
     (filter (\<lambda>(q, _). under_dir d q) fs))"

section \<open>The world\<close>

datatype stage = TestOnly | WriteOnly | Full

record cert_info =
  ci_not_before :: int
  ci_not_after :: int
  ci_issuer :: string
  ci_names :: "string list"

record status_file =
  sf_last_error :: string
  sf_last_applied :: int
  sf_sites :: "string \<rightharpoonup> site_status"

datatype apply_error = NotInstalled | CannotWriteText string | CannotMakeDir string | NoEngine | ContainerError
  | NginxRejected string | ReloadFailed | NotRoot | CannotReadSites | SitesCorrupt | InvalidSite web_error | NoMarker
  | SiteTwice string | ForeignSite string | SiteNotFound string | NotAcme string | Unresolved string

datatype issue_error = IssueDns string | IssueAcme string

record issued =
  key_pem :: string
  chain_pem :: string

record web_env =
  env_paths :: web_paths
  engine_version :: "web_mode \<Rightarrow> string option"
  host_ipv6 :: bool
  dir_exists :: "string \<Rightarrow> bool"
  app_ports :: "string \<Rightarrow> string + (nat \<times> nat) list"
  inspect_cert :: "string \<Rightarrow> string + cert_info"
  nginx_test :: "texts \<Rightarrow> string \<Rightarrow> string + string"
  error_text :: "apply_error \<Rightarrow> string"
  debug_text :: "string \<Rightarrow> string"
  as_root :: bool
  key_pair_ok :: "string \<Rightarrow> string \<Rightarrow> bool"
  issue_cert :: "web_settings \<Rightarrow> string list \<Rightarrow> issue_error + issued"
  download_ranges :: "string + string list"

record web_world =
  wfiles :: texts
  wstat :: status_file
  wregistry :: registry
  wranges :: "ranges option"
  container :: "string list option"
  loaded :: "texts option"
  tests_run :: nat
  saved_settings :: "web_settings doc"
  saved_sites :: "site list doc"
  saved_status :: "status_file doc"
  wnow :: int
  wouts :: "outcome list"

type_synonym 'a wio = "(web_world, apply_error, 'a) io"

definition effect :: "apply_error \<Rightarrow> (web_world \<Rightarrow> web_world) \<Rightarrow> unit wio" where
  "effect e f = step_io wouts (\<lambda>os w. w\<lparr>wouts := os\<rparr>) e f"

definition write_text :: "string \<Rightarrow> string \<Rightarrow> unit wio" where
  "write_text p c = effect (CannotWriteText p) (\<lambda>w. w\<lparr>wfiles := put_text p c (wfiles w)\<rparr>)"

definition make_dir :: "string \<Rightarrow> unit wio" where
  "make_dir d = effect (CannotMakeDir d) (\<lambda>w. w)"

definition delete_path :: "string \<Rightarrow> unit wio" where
  "delete_path d = effect (CannotWriteText d) (\<lambda>w. w\<lparr>wfiles := drop_path d (wfiles w)\<rparr>)"

definition set_stat :: "(status_file \<Rightarrow> status_file) \<Rightarrow> unit wio" where
  "set_stat f = modify (\<lambda>w. w\<lparr>wstat := f (wstat w)\<rparr>)"

fun each :: "('a \<Rightarrow> unit wio) \<Rightarrow> 'a list \<Rightarrow> unit wio" where
  "each f [] = ret ()"
| "each f (x # xs) = seq (f x) (each f xs)"

section \<open>Texts of nginx\<close>

definition blames :: "string \<Rightarrow> string \<Rightarrow> string \<Rightarrow> bool" where
  "blames out base i = (has_infix (path_join base ''sites'' @ ''/'' @ i @ ''.conf'') out \<or>
     has_infix (path_join base ''certs'' @ ''/'' @ i @ ''/'') out)"

definition blamed_site :: "string \<Rightarrow> string \<Rightarrow> string list \<Rightarrow> string option" where
  "blamed_site out base candidates = find (blames out base) candidates"

text \<open>The longest prefix of at most \<open>n\<close> bytes.\<close>

fun take_prefix :: "nat \<Rightarrow> string \<Rightarrow> string" where
  "take_prefix n [] = []"
| "take_prefix n (c # cs) = (if byte_len [c] \<le> n then c # take_prefix (n - byte_len [c]) cs else [])"

definition ELLIPSIS :: string where "ELLIPSIS = [CHR 0xE2, CHR 0x80, CHR 0xA6]"

definition trim_output :: "string \<Rightarrow> string" where
  "trim_output out = (let text = join LF (filter (\<lambda>l. \<not> has_infix ''the configuration file'' l \<or> has_infix ''failed'' l) (lines out))
     in if 4000 < byte_len text then take_prefix 4000 text @ ELLIPSIS else text)"

section \<open>The engine\<close>

definition SYSTEM_CONF :: string where "SYSTEM_CONF = ''/etc/nginx/nginx.conf''"

definition main_conf_path :: "web_mode \<Rightarrow> web_paths \<Rightarrow> string" where
  "main_conf_path m ps = (if m = ModeDocker then path_join (root_dir ps) NGINX_CONF else SYSTEM_CONF)"

definition log_bind :: "web_paths \<Rightarrow> string" where
  "log_bind ps = logs_dir ps @ '':'' @ logs_dir ps"

definition content_binds :: "web_env \<Rightarrow> web_settings \<Rightarrow> string list" where
  "content_binds env ws = (case host_dir (default_site ws) of None \<Rightarrow> []
     | Some d \<Rightarrow> if dir_exists env d then [d @ '':'' @ d @ '':ro''] else [])"

definition container_binds :: "web_env \<Rightarrow> web_settings \<Rightarrow> string list" where
  "container_binds env ws = (let ps = env_paths env; b = (\<lambda>p. p @ '':'' @ p @ '':ro'') in
     [b (root_dir ps), b (webroot ps), b (path_join (path_join (state_dir ps) ''acme'') ''certs''), log_bind ps]
     @ content_binds env ws)"

text \<open>What nginx runs with when its container starts: the files as they are, or nothing when it refuses them and exits.\<close>

definition started :: "web_env \<Rightarrow> texts \<Rightarrow> texts option" where
  "started env fs = (case nginx_test env fs (main_conf_path ModeDocker (env_paths env)) of Inr _ \<Rightarrow> Some fs | Inl _ \<Rightarrow> None)"

definition create_container :: "web_env \<Rightarrow> web_settings \<Rightarrow> unit wio" where
  "create_container env ws =
     seq (make_dir (path_join (path_join (state_dir (env_paths env)) ''acme'') ''certs''))
    (seq (make_dir (logs_dir (env_paths env)))
    (seq (effect ContainerError (\<lambda>w. w\<lparr>container := Some (container_binds env ws)\<rparr>))
         (effect ContainerError (\<lambda>w. w\<lparr>loaded := started env (wfiles w)\<rparr>))))"

definition ensure_binds :: "web_env \<Rightarrow> web_settings \<Rightarrow> unit wio" where
  "ensure_binds env ws = (if ws_mode ws \<noteq> ModeDocker then ret () else
     seq (effect ContainerError (\<lambda>w. w)) (bind (asks container) (\<lambda>c. case c of None \<Rightarrow> ret ()
       | Some applied \<Rightarrow> if set (content_binds env ws @ [log_bind (env_paths env)]) \<subseteq> set applied then ret ()
           else seq (effect ContainerError (\<lambda>w. w\<lparr>container := None, loaded := None\<rparr>)) (create_container env ws))))"

definition run_test :: "web_env \<Rightarrow> string \<Rightarrow> (string + string) wio" where
  "run_test env conf = seq (effect NoEngine (\<lambda>w. w\<lparr>tests_run := Suc (tests_run w)\<rparr>))
     (asks (\<lambda>w. nginx_test env (wfiles w) conf))"

definition reload_engine :: "unit wio" where
  "reload_engine = effect ReloadFailed (\<lambda>w. w\<lparr>loaded := Some (wfiles w)\<rparr>)"

definition LOGROTATE :: string where "LOGROTATE = ''/etc/logrotate.d/asc-webserver''"

definition ensure_logrotate :: "web_env \<Rightarrow> unit wio" where
  "ensure_logrotate env = (if logs_dir (env_paths env) \<noteq> LOG_DIR \<or> \<not> dir_exists env ''/etc/logrotate.d'' then ret ()
     else bind (asks (\<lambda>w. map_of (wfiles w) LOGROTATE)) (\<lambda>f. do_if (f = None)
       (ignore (write_text LOGROTATE (unlines [''# asc-daemon: per-site nginx logs.'', LOG_DIR @ ''/*.log {'', ''    daily'',
          ''    rotate 14'', ''    missingok'', ''    notifempty'', ''    compress'', ''    delaycompress'', ''    copytruncate'', ''}''])))))"

section \<open>Resolving sites\<close>

definition web_features :: "web_env \<Rightarrow> web_settings \<Rightarrow> features" where
  "web_features env ws = for_version (engine_version env (ws_mode ws)) (host_ipv6 env)"

definition resolve_target :: "web_env \<Rightarrow> web_target \<Rightarrow> string + string" where
  "resolve_target env t = (case t of AddressTarget a \<Rightarrow> Inr a
   | AppTarget app p \<Rightarrow> and_then (app_ports env app) (\<lambda>ps.
       let found = (case find (\<lambda>(c, h). c = p) ps of Some x \<Rightarrow> Some x | None \<Rightarrow> find (\<lambda>(c, h). h = p) ps) in
       case found of Some (c, h) \<Rightarrow> Inr (''127.0.0.1:'' @ show_nat h)
       | None \<Rightarrow> Inl (''app '' @ debug_text env app @ '' does not publish port '' @ show_nat p)))"

definition acme_material :: "web_paths \<Rightarrow> texts \<Rightarrow> string \<Rightarrow> (string \<times> string) option" where
  "acme_material ps fs i = (let d = acme_cert_dir ps i; c = path_join d ''fullchain.pem''; k = path_join d ''privkey.pem'' in
     if map_of fs c \<noteq> None \<and> map_of fs k \<noteq> None then Some (c, k) else None)"

definition resolve_site :: "web_env \<Rightarrow> registry \<Rightarrow> texts \<Rightarrow> site \<Rightarrow> string + resolved_site" where
  "resolve_site env reg fs s =
     map_ok (\<lambda>as. \<lparr>rs_site = s, rs_addresses = as,
         rs_cert = (case tls_mode (tls s) of TlsNone \<Rightarrow> None | TlsProvided \<Rightarrow> Some (provided_cert_files (sid s))
                    | TlsAcme \<Rightarrow> acme_material (env_paths env) fs (sid s)),
         rs_down = down_mask reg (sid s) as\<rparr>)
       (if raw_config s = None then traverse (\<lambda>x. resolve_target env (target x)) (servers (upstream s)) else Inr [])"

text \<open>Local sites first, then the others, each by id; the sort is stable.\<close>

definition order_sites :: "site list \<Rightarrow> site list" where
  "order_sites ss = sort_key sid (filter is_local ss) @ sort_key sid (filter (\<lambda>s. \<not> is_local s) ss)"

definition site_entry :: "(string \<rightharpoonup> site_status) \<Rightarrow> string \<Rightarrow> site_status" where
  "site_entry st i = (case st i of Some e \<Rightarrow> e | None \<Rightarrow> default_site_status)"

definition claim_tls :: "web_env \<Rightarrow> int \<Rightarrow> resolved_site \<Rightarrow> tls_status \<Rightarrow> tls_status" where
  "claim_tls env now r t = (case tls_mode (tls (rs_site r)) of
     TlsNone \<Rightarrow> default_tls_status
   | TlsProvided \<Rightarrow> (case inspect_cert env (certificate_pem (tls (rs_site r))) of
       Inr info \<Rightarrow> (let old = ci_not_after info \<le> now in
         t\<lparr>ts_state := if old then TlsError else TlsActive,
           ts_error := if old then ''the provided certificate has expired'' else [],
           not_after := ci_not_after info, issuer := ci_issuer info, ts_names := ci_names info\<rparr>)
     | Inl e \<Rightarrow> t\<lparr>ts_state := TlsError, ts_error := e\<rparr>)
   | TlsAcme \<Rightarrow> if rs_cert r = None \<and> ts_state t = TlsIdle then t\<lparr>ts_state := PendingDns\<rparr> else t)"

definition failed_site :: "string \<Rightarrow> site_status \<Rightarrow> site_status" where
  "failed_site m e = e\<lparr>ss_state := SiteError, message := m\<rparr>"

fun claim_sites :: "web_env \<Rightarrow> registry \<Rightarrow> texts \<Rightarrow> int \<Rightarrow> site list \<Rightarrow> (string \<rightharpoonup> string) \<Rightarrow> (string \<rightharpoonup> site_status) \<Rightarrow>
    resolved_site list \<times> (string \<rightharpoonup> site_status)" where
  "claim_sites env reg fs now [] cl st = ([], st)"
| "claim_sites env reg fs now (s # ss) cl st = (let e = site_entry st (sid s) in
     if disabled s then claim_sites env reg fs now ss cl (st(sid s \<mapsto> e\<lparr>ss_state := SiteDisabled, message := []\<rparr>))
     else case find (\<lambda>n. cl n \<noteq> None) (server_names s) of
       Some n \<Rightarrow> claim_sites env reg fs now ss cl
         (st(sid s \<mapsto> failed_site (n @ '' is already served by site '' @ the (cl n)) e))
     | None \<Rightarrow> (case resolve_site env reg fs s of
         Inl err \<Rightarrow> claim_sites env reg fs now ss cl (st(sid s \<mapsto> failed_site err e))
       | Inr r \<Rightarrow> (let (rs, st1) = claim_sites env reg fs now ss
             (\<lambda>n. if n \<in> set (server_names s) then Some (sid s) else cl n)
             (st(sid s \<mapsto> e\<lparr>ss_tls := claim_tls env now r (ss_tls e)\<rparr>)) in (r # rs, st1))))"

section \<open>Rendering and staging\<close>

record rendered_site =
  rd_id :: string
  rd_file :: string
  rd_certs :: texts
  rd_addresses :: "string list"

record apply_plan =
  pl_env :: web_env
  pl_settings :: web_settings
  pl_features :: features
  pl_ranges :: ranges
  pl_stage :: stage
  pl_candidates :: "resolved_site list"
  pl_live :: texts

definition render_candidate :: "apply_plan \<Rightarrow> string \<Rightarrow> resolved_site \<Rightarrow> rendered_site" where
  "render_candidate pl base r = (let s = rs_site r; provided = tls_mode (tls s) = TlsProvided; (c, k) = provided_cert_files (sid s);
       r1 = (if provided then r\<lparr>rs_cert := Some (path_join base c, path_join base k)\<rparr> else r) in
     \<lparr>rd_id = sid s, rd_file = render_site r1 (pl_settings pl) (pl_features pl) base (logs_dir (env_paths (pl_env pl))),
      rd_certs = (if provided then [(c, certificate_pem (tls s)), (k, private_key_pem (tls s))] else []),
      rd_addresses = rs_addresses r\<rparr>)"

definition cand_id :: "resolved_site \<Rightarrow> string" where "cand_id r = sid (rs_site r)"

definition render_sites :: "apply_plan \<Rightarrow> string set \<Rightarrow> string \<Rightarrow> rendered_site list" where
  "render_sites pl rejected base = map (render_candidate pl base) (filter (\<lambda>r. cand_id r \<notin> rejected) (pl_candidates pl))"

text \<open>The global files, in the order of a map by path.\<close>

definition global_files :: "apply_plan \<Rightarrow> string \<Rightarrow> texts" where
  "global_files pl base = sort_key fst (render_global (pl_settings pl) (pl_features pl) (pl_ranges pl) (env_paths (pl_env pl)) base
     (ws_mode (pl_settings pl) = ModeDocker))"

definition write_below :: "string \<Rightarrow> string \<times> string \<Rightarrow> unit wio" where
  "write_below base f = write_text (path_join base (fst f)) (snd f)"

definition stage_site :: "apply_plan \<Rightarrow> string \<Rightarrow> string set \<Rightarrow> rendered_site \<Rightarrow> unit wio" where
  "stage_site pl base kept x = (if rd_id x \<in> kept
     then write_below base (site_file (rd_id x), case map_of (pl_live pl) (rd_id x) of Some t \<Rightarrow> t | None \<Rightarrow> [])
     else seq (each (write_below base) (rd_certs x)) (write_below base (site_file (rd_id x), rd_file x)))"

definition write_tree :: "apply_plan \<Rightarrow> string \<Rightarrow> string set \<Rightarrow> string set \<Rightarrow> unit wio" where
  "write_tree pl base rejected kept =
     seq (ignore (delete_path base)) (seq (make_dir (path_join base ''sites''))
    (seq (each (write_below base) (global_files pl base))
         (each (stage_site pl base kept) (render_sites pl rejected base))))"

definition live_texts :: "web_paths \<Rightarrow> texts \<Rightarrow> resolved_site list \<Rightarrow> texts" where
  "live_texts ps fs rs = List.map_filter (\<lambda>r. map_option (\<lambda>t. (cand_id r, t)) (map_of fs (path_join (root_dir ps) (site_file (cand_id r))))) rs"

section \<open>Testing until nginx agrees\<close>

definition plan_ids :: "apply_plan \<Rightarrow> string list" where
  "plan_ids pl = map cand_id (pl_candidates pl)"

definition plan_staging :: "apply_plan \<Rightarrow> string" where
  "plan_staging pl = staging (env_paths (pl_env pl))"

record test_verdict =
  vd_output :: string
  vd_rejected :: "string set"
  vd_kept :: "string set"
  vd_messages :: "string \<rightharpoonup> string"

definition set_aside :: "apply_plan \<Rightarrow> string \<Rightarrow> test_verdict \<Rightarrow> test_verdict" where
  "set_aside pl i v = (let out = trim_output (vd_output v);
       v1 = v\<lparr>vd_messages := (case vd_messages v i of None \<Rightarrow> (vd_messages v)(i \<mapsto> out) | Some _ \<Rightarrow> vd_messages v)\<rparr> in
     if map_of (pl_live pl) i \<noteq> None \<and> i \<notin> vd_kept v then v1\<lparr>vd_kept := insert i (vd_kept v)\<rparr>
     else v1\<lparr>vd_kept := vd_kept v - {i}, vd_rejected := insert i (vd_rejected v)\<rparr>)"

definition test_attempt :: "apply_plan \<Rightarrow> test_verdict \<Rightarrow> (string + string) wio" where
  "test_attempt pl v = seq (write_tree pl (plan_staging pl) (vd_rejected v) (vd_kept v))
     (if pl_stage pl = WriteOnly then ret (Inr []) else run_test (pl_env pl) (path_join (plan_staging pl) NGINX_CONF))"

definition pending_ids :: "apply_plan \<Rightarrow> test_verdict \<Rightarrow> string list" where
  "pending_ids pl v = filter (\<lambda>i. i \<notin> vd_rejected v) (plan_ids pl)"

definition give_up :: "apply_plan \<Rightarrow> string \<Rightarrow> 'a wio" where
  "give_up pl out = seq (ignore (delete_path (plan_staging pl)))
     (seq (set_stat (\<lambda>s. s\<lparr>sf_last_error := trim_output out\<rparr>)) (throw (NginxRejected (trim_output out))))"

definition work_left :: "apply_plan \<Rightarrow> test_verdict \<Rightarrow> nat" where
  "work_left pl v = sum_list (map (\<lambda>i. if i \<in> vd_rejected v then 0 else if i \<in> vd_kept v then 1 else 2) (plan_ids pl))"

lemma find_in: "find P xs = Some x \<Longrightarrow> x \<in> set xs \<and> P x"
  by (induction xs) (auto split: if_splits)

lemma sum_list_less:
  fixes f g :: "'a \<Rightarrow> nat"
  assumes "\<And>y. y \<in> set xs \<Longrightarrow> f y \<le> g y" "x \<in> set xs" "f x < g x"
  shows "sum_list (map f xs) < sum_list (map g xs)"
  using assms
proof (induction xs)
  case (Cons y ys)
  have "sum_list (map f ys) \<le> sum_list (map g ys)" by (rule sum_list_mono) (use Cons.prems(1) in auto)
  moreover have "x \<in> set ys \<Longrightarrow> sum_list (map f ys) < sum_list (map g ys)" using Cons by simp
  moreover have "f y \<le> g y" using Cons.prems(1) by simp
  ultimately show ?case using Cons.prems(2,3) by auto
qed simp

lemma set_aside_less:
  assumes "i \<in> set (pending_ids pl v)" shows "work_left pl (set_aside pl i v) < work_left pl v"
  unfolding work_left_def
  by (rule sum_list_less[of _ _ _ i]) (use assms in \<open>auto simp: set_aside_def Let_def pending_ids_def\<close>)

lemma work_left_output: "work_left pl (v\<lparr>vd_output := out\<rparr>) = work_left pl v"
  by (simp add: work_left_def cong: if_cong)

function test_loop :: "apply_plan \<Rightarrow> test_verdict \<Rightarrow> test_verdict wio" where
  "test_loop pl v w = (case test_attempt pl v w of (Inl e, w1) \<Rightarrow> (Inl e, w1)
   | (Inr (Inr out), w1) \<Rightarrow> (Inr (v\<lparr>vd_output := out\<rparr>), w1)
   | (Inr (Inl out), w1) \<Rightarrow> (case blamed_site out (plan_staging pl) (pending_ids pl v) of
       Some i \<Rightarrow> test_loop pl (set_aside pl i (v\<lparr>vd_output := out\<rparr>)) w1
     | None \<Rightarrow> give_up pl out w1))"
  by pat_completeness auto

termination
proof (relation "measure (\<lambda>(pl, v, w). work_left pl v)", goal_cases)
  case (2 pl v w r w1 x out i)
  then have "i \<in> set (pending_ids pl (v\<lparr>vd_output := out\<rparr>))"
    by (auto simp: blamed_site_def pending_ids_def dest: find_in)
  from set_aside_less[OF this] show ?case by (simp add: work_left_output)
qed simp

declare test_loop.simps [simp del]

section \<open>The swap\<close>

definition swap_site :: "string \<Rightarrow> string set \<Rightarrow> rendered_site \<Rightarrow> unit wio" where
  "swap_site root kept x = (if rd_id x \<in> kept then ret ()
     else seq (each (write_below root) (rd_certs x)) (write_below root (site_file (rd_id x), rd_file x)))"

definition prune_dir :: "string \<Rightarrow> (string \<Rightarrow> bool) \<Rightarrow> unit wio" where
  "prune_dir d keep = bind (asks (\<lambda>w. filter (\<lambda>n. \<not> keep n) (child_names d (wfiles w))))
     (each (\<lambda>n. ignore (delete_path (path_join d n))))"

definition write_global :: "apply_plan \<Rightarrow> string \<Rightarrow> string \<times> string \<Rightarrow> unit wio" where
  "write_global pl root f = write_text (if fst f = NGINX_CONF then main_conf_path (ws_mode (pl_settings pl)) (env_paths (pl_env pl))
     else path_join root (fst f)) (snd f)"

definition site_result :: "test_verdict \<Rightarrow> int \<Rightarrow> (string \<Rightarrow> string list) \<Rightarrow> string \<Rightarrow> site_status \<Rightarrow> site_status" where
  "site_result v now addresses i e = (let m = (case vd_messages v i of Some t \<Rightarrow> t | None \<Rightarrow> []) in
     if i \<in> vd_rejected v then failed_site m e
     else if i \<in> vd_kept v then
       failed_site (''nginx rejected the new configuration; the previous one keeps serving:'' @ LF @ m) e
     else e\<lparr>ss_state := SiteApplied, message := [], applied_at := now, upstream_addresses := addresses i\<rparr>)"

definition site_results :: "test_verdict \<Rightarrow> int \<Rightarrow> resolved_site list \<Rightarrow> (string \<rightharpoonup> site_status) \<Rightarrow> (string \<rightharpoonup> site_status)" where
  "site_results v now rs st = fold (\<lambda>r s. s(cand_id r \<mapsto>
     site_result v now (\<lambda>i. case find (\<lambda>x. cand_id x = i) (rev rs) of Some x \<Rightarrow> rs_addresses x | None \<Rightarrow> []) (cand_id r)
       (site_entry s (cand_id r)))) rs st"

definition swap_live :: "apply_plan \<Rightarrow> test_verdict \<Rightarrow> string wio" where
  "swap_live pl v = (let root = root_dir (env_paths (pl_env pl)); rendered = render_sites pl (vd_rejected v) root;
       files = map (\<lambda>x. path_join root (site_file (rd_id x))) rendered;
       dirs = map rd_id (filter (\<lambda>x. rd_id x \<in> vd_kept v \<or> rd_certs x \<noteq> []) rendered) in
     seq (each (write_global pl root) (global_files pl root))
    (seq (each (swap_site root (vd_kept v)) rendered)
    (seq (prune_dir (path_join root ''sites'') (\<lambda>n. path_join (path_join root ''sites'') n \<in> set files))
    (seq (prune_dir (path_join root ''certs'') (\<lambda>n. n \<in> set dirs))
    (seq (ignore (delete_path (plan_staging pl)))
    (seq (if pl_stage pl = Full then bind (catch reload_engine) (\<lambda>r. case r of Inr _ \<Rightarrow> ret ()
            | Inl e \<Rightarrow> seq (set_stat (\<lambda>s. s\<lparr>sf_last_error := error_text (pl_env pl) e\<rparr>)) (throw e)) else ret ())
    (seq (modify (\<lambda>w. w\<lparr>wstat := \<lparr>sf_last_error = [], sf_last_applied = wnow w,
            sf_sites = site_results v (wnow w) (pl_candidates pl) (sf_sites (wstat w))\<rparr>\<rparr>))
         (ret (vd_output v)))))))))"

definition make_plan :: "web_env \<Rightarrow> web_settings \<Rightarrow> stage \<Rightarrow> site list \<Rightarrow> web_world \<Rightarrow> apply_plan" where
  "make_plan env ws st ss w = (let rs = fst (claim_sites env (wregistry w) (wfiles w) (wnow w) (order_sites ss) Map.empty (sf_sites (wstat w))) in
     \<lparr>pl_env = env, pl_settings = ws, pl_features = web_features env ws, pl_ranges = load_ranges (wranges w), pl_stage = st,
      pl_candidates = rs, pl_live = live_texts (env_paths env) (wfiles w) rs\<rparr>)"

definition no_verdict :: test_verdict where
  "no_verdict = \<lparr>vd_output = [], vd_rejected = {}, vd_kept = {}, vd_messages = Map.empty\<rparr>"

definition claim_all :: "web_env \<Rightarrow> site list \<Rightarrow> unit wio" where
  "claim_all env ss = modify (\<lambda>w. w\<lparr>wstat := (wstat w)\<lparr>sf_sites :=
     snd (claim_sites env (wregistry w) (wfiles w) (wnow w) (order_sites ss) Map.empty (sf_sites (wstat w)))\<rparr>\<rparr>)"

definition judge :: "apply_plan \<Rightarrow> test_verdict wio" where
  "judge pl = seq (make_dir (logs_dir (env_paths (pl_env pl))))
    (seq (do_if (ws_mode (pl_settings pl) = ModeDocker \<and> pl_stage pl \<noteq> WriteOnly) (ensure_binds (pl_env pl) (pl_settings pl)))
    (seq (ensure_logrotate (pl_env pl)) (test_loop pl no_verdict)))"

definition apply_locked :: "web_env \<Rightarrow> web_settings \<Rightarrow> site list \<Rightarrow> stage \<Rightarrow> string wio" where
  "apply_locked env ws ss st = seq (fail_if (ws_mode ws = ModeNone) NotInstalled)
     (bind (asks (make_plan env ws st ss)) (\<lambda>pl.
      seq (claim_all env ss)
     (bind (judge pl) (\<lambda>v.
      if st = TestOnly then seq (ignore (delete_path (plan_staging pl))) (ret (vd_output v))
      else swap_live pl v))))"

end
