(* ===== verification/WebSites.thy ===== *)
theory WebSites
  imports WebApply
begin

text \<open>
  \<open>webserver/mod.rs\<close>: the stored settings, sites and statuses, and the operations on them. A
  document on disk is missing, damaged or what was saved. The locking of the manager makes an
  operation atomic; waking the background pass is not modelled.
\<close>

definition RENEW_BEFORE_SECS :: int where "RENEW_BEFORE_SECS = 30 * 24 * 3600"
definition CLOUDFLARE_REFRESH_SECS :: int where "CLOUDFLARE_REFRESH_SECS = 24 * 3600"
definition WEB_SETTINGS_FILE :: string where "WEB_SETTINGS_FILE = ''webserver.toml''"
definition SITES_FILE :: string where "SITES_FILE = ''sites.json''"
definition STATUS_FILE :: string where "STATUS_FILE = ''status.json''"
definition CLOUDFLARE_FILE :: string where "CLOUDFLARE_FILE = ''cloudflare.json''"

section \<open>Stores\<close>

definition require_web_root :: "web_env \<Rightarrow> unit wio" where
  "require_web_root env = fail_if (\<not> as_root env) NotRoot"

definition default_status :: status_file where
  "default_status = \<lparr>sf_last_error = [], sf_last_applied = 0, sf_sites = Map.empty\<rparr>"

text \<open>Settings and statuses that cannot be read are the default ones; sites that cannot are an error.\<close>

definition read_effect :: "unit wio" where "read_effect = effect CannotReadSites (\<lambda>w. w)"

definition load_web_settings :: "web_settings wio" where
  "load_web_settings = bind (catch read_effect) (\<lambda>r. case r of Inl _ \<Rightarrow> ret default_web_settings
     | Inr _ \<Rightarrow> asks (\<lambda>w. case saved_settings w of Doc s \<Rightarrow> s | _ \<Rightarrow> default_web_settings))"

definition save_web_settings :: "web_env \<Rightarrow> web_settings \<Rightarrow> unit wio" where
  "save_web_settings env s = effect (CannotWriteText (path_join (root_dir (env_paths env)) WEB_SETTINGS_FILE)) (\<lambda>w. w\<lparr>saved_settings := Doc s\<rparr>)"

definition load_sites :: "site list wio" where
  "load_sites = seq read_effect (bind (asks saved_sites) (\<lambda>d. case d of Doc ss \<Rightarrow> ret ss | Absent \<Rightarrow> ret [] | Corrupt \<Rightarrow> throw SitesCorrupt))"

definition save_sites :: "web_env \<Rightarrow> site list \<Rightarrow> unit wio" where
  "save_sites env ss = effect (CannotWriteText (path_join (state_dir (env_paths env)) SITES_FILE)) (\<lambda>w. w\<lparr>saved_sites := Doc ss\<rparr>)"

definition load_status :: "status_file wio" where
  "load_status = bind (catch read_effect) (\<lambda>r. case r of Inl _ \<Rightarrow> ret default_status
     | Inr _ \<Rightarrow> asks (\<lambda>w. case saved_status w of Doc s \<Rightarrow> s | _ \<Rightarrow> default_status))"

definition save_status :: "web_env \<Rightarrow> status_file \<Rightarrow> unit wio" where
  "save_status env s = effect (CannotWriteText (path_join (state_dir (env_paths env)) STATUS_FILE)) (\<lambda>w. w\<lparr>saved_status := Doc s\<rparr>)"

text \<open>\<open>let mut status = self.load_status()\<close>: the status an apply works on.\<close>

definition take_status :: "unit wio" where
  "take_status = bind load_status (\<lambda>s. set_stat (\<lambda>_. s))"

section \<open>Views\<close>

type_synonym site_view = "site \<times> site_status"

definition view_site :: "site \<Rightarrow> status_file \<Rightarrow> site_view wio" where
  "view_site s f = asks (\<lambda>w. let st = site_entry (sf_sites f) (sid s);
       st = st\<lparr>upstream_health := (if health_enabled (health_of (upstream s))
         then snapshot (wregistry w) (sid s) (upstream_addresses st) else [])\<rparr>;
       t = ss_tls st;
       t = (if ts_state t = TlsActive \<and> 0 < not_after t \<and> not_after t - wnow w < RENEW_BEFORE_SECS then t\<lparr>ts_state := Expiring\<rparr> else t)
     in (redacted s, st\<lparr>ss_tls := t\<rparr>))"

fun view_all :: "site list \<Rightarrow> status_file \<Rightarrow> site_view list wio" where
  "view_all [] f = ret []"
| "view_all (s # ss) f = bind (view_site s f) (\<lambda>v. bind (view_all ss f) (\<lambda>vs. ret (v # vs)))"

definition list_sites :: "string option \<Rightarrow> site_view list wio" where
  "list_sites m = bind load_status (\<lambda>f. bind load_sites (\<lambda>ss.
     view_all (filter (\<lambda>s. m = None \<or> owner s = m) ss) f))"

definition find_site :: "string \<Rightarrow> site list \<Rightarrow> site wio" where
  "find_site i ss = (case find (\<lambda>s. sid s = i) ss of Some s \<Rightarrow> ret s | None \<Rightarrow> throw (SiteNotFound i))"

definition get_site :: "string \<Rightarrow> site_view wio" where
  "get_site i = bind load_status (\<lambda>f. bind load_sites (\<lambda>ss. bind (find_site i ss) (\<lambda>s. view_site s f)))"

section \<open>Operations\<close>

text \<open>Apply with the status on disk, and save what became of it whether it worked or not.\<close>

definition apply_saved :: "web_env \<Rightarrow> web_settings \<Rightarrow> site list \<Rightarrow> string wio" where
  "apply_saved env ws ss = bind (catch (apply_locked env ws ss Full)) (\<lambda>r.
     bind (asks wstat) (\<lambda>f. seq (save_status env f) (lift_result r)))"

definition reapply_locked :: "web_env \<Rightarrow> unit wio" where
  "reapply_locked env = bind load_web_settings (\<lambda>ws. bind load_sites (\<lambda>ss. seq take_status
     (bind (apply_saved env ws ss) (\<lambda>_. ret ()))))"

definition reload_web :: "web_env \<Rightarrow> unit wio" where
  "reload_web env = seq (require_web_root env) (reapply_locked env)"

definition test_web :: "web_env \<Rightarrow> (bool \<times> string) wio" where
  "test_web env = seq (require_web_root env) (bind load_web_settings (\<lambda>ws.
     if ws_mode ws = ModeNone then throw NotInstalled
     else bind load_sites (\<lambda>ss. seq take_status (bind (catch (apply_locked env ws ss TestOnly)) (\<lambda>r.
       case r of Inr out \<Rightarrow> ret (True, out) | Inl e \<Rightarrow> ret (False, error_text env e))))))"

definition update_web_settings :: "web_env \<Rightarrow> web_settings \<Rightarrow> unit wio" where
  "update_web_settings env new0 = seq (require_web_root env) (seq (lift_result (map_err InvalidSite (settings_ok new0)))
     (bind load_web_settings (\<lambda>current. let new = new0\<lparr>ws_mode := ws_mode current, host := host current\<rparr> in
       if ws_mode current = ModeNone then save_web_settings env new
       else bind load_sites (\<lambda>ss. seq take_status (bind (apply_saved env new ss) (\<lambda>_. save_web_settings env new))))))"

definition commit_sites :: "web_env \<Rightarrow> site list \<Rightarrow> unit wio" where
  "commit_sites env ss = seq (save_sites env ss) (bind load_web_settings (\<lambda>ws. seq take_status
     (seq (set_stat (\<lambda>f. f\<lparr>sf_sites := sf_sites f |` (sid ` set ss)\<rparr>))
     (if ws_mode ws = ModeNone then
        seq (set_stat (\<lambda>f. f\<lparr>sf_sites := fold (\<lambda>s st. st(sid s \<mapsto> (site_entry st (sid s))\<lparr>ss_state := SitePending,
            message := ''the web server is not installed on this node''\<rparr>)) ss (sf_sites f)\<rparr>))
          (bind (asks wstat) (save_status env))
      else bind (apply_saved env ws ss) (\<lambda>_. ret ())))))"

text \<open>The incoming sites, normalised under their owner, with ids that differ.\<close>

fun prepare_sites :: "web_env \<Rightarrow> string \<Rightarrow> string set \<Rightarrow> site list \<Rightarrow> apply_error + site list" where
  "prepare_sites env m ids [] = Inr []"
| "prepare_sites env m ids (s # ss) =
     and_then (map_err InvalidSite (site_normalize (key_pair_ok env) (s\<lparr>owner := Some m\<rparr>))) (\<lambda>t.
       if sid t \<in> ids then Inl (SiteTwice (sid t))
       else map_ok (\<lambda>ts. t # ts) (prepare_sites env m (insert (sid t) ids) ss))"

definition replace_sites :: "web_env \<Rightarrow> string \<Rightarrow> site list \<Rightarrow> site_view list wio" where
  "replace_sites env m incoming = seq (require_web_root env) (seq (fail_if (trim m = []) NoMarker)
     (bind (lift_result (prepare_sites env m {} incoming)) (\<lambda>new. bind load_sites (\<lambda>current.
       case find (\<lambda>s. owner s \<noteq> Some m \<and> sid s \<in> sid ` set new) current of
         Some clash \<Rightarrow> throw (ForeignSite (sid clash))
       | None \<Rightarrow> seq (commit_sites env (filter (\<lambda>s. owner s \<noteq> Some m) current @ new)) (list_sites (Some m))))))"

fun put_site :: "site \<Rightarrow> site list \<Rightarrow> apply_error + site list" where
  "put_site s [] = Inr [s]"
| "put_site s (t # ts) = (if sid t = sid s then (if owner t = owner s then Inr (s # ts) else Inl (ForeignSite (sid s)))
     else map_ok (\<lambda>us. t # us) (put_site s ts))"

definition upsert_site :: "web_env \<Rightarrow> site \<Rightarrow> site_view wio" where
  "upsert_site env s0 = seq (require_web_root env) (bind (lift_result (map_err InvalidSite (site_normalize (key_pair_ok env) s0))) (\<lambda>s.
     bind load_sites (\<lambda>ss. bind (lift_result (put_site s ss)) (\<lambda>new. seq (commit_sites env new) (get_site (sid s))))))"

definition remove_site :: "web_env \<Rightarrow> string \<Rightarrow> bool wio" where
  "remove_site env i = seq (require_web_root env) (bind load_sites (\<lambda>ss. let new = filter (\<lambda>s. sid s \<noteq> i) ss in
     if length new = length ss then ret False else seq (commit_sites env new) (ret True)))"

definition api_site :: "string \<Rightarrow> string \<Rightarrow> bool \<Rightarrow> (string \<times> string) option \<Rightarrow> site" where
  "api_site domain up up_secure cert =
     \<lparr>sid = API_SITE_ID, server_names = [to_lower (trim domain)], owner = Some API_SITE_OWNER, disabled = False,
      upstream = \<lparr>servers = [\<lparr>target = AddressTarget up, weight = 1, backup = False, max_fails = 0, fail_timeout_secs = 0, us_down = False\<rparr>],
        balance = RoundRobin, hash_key = [], keepalive = 0, up_tls = up_secure, health_of = default_health\<rparr>,
      tls = \<lparr>tls_mode = (if cert = None then TlsAcme else TlsProvided), certificate_pem = (case cert of Some (c, k) \<Rightarrow> c | None \<Rightarrow> []),
        private_key_pem = (case cert of Some (c, k) \<Rightarrow> k | None \<Rightarrow> []), redirect_http = True, tls_hsts = False, tls_http2 = True\<rparr>,
      proxy = \<lparr>websocket = True, max_body = [], connect_timeout = 0, read_timeout = 3600, send_timeout = 3600, request_headers = [],
        response_headers = [], upstream_host = False, no_buffering = True\<rparr>,
      real_ip = RealIpOff, extra_server = [], extra_location = [], raw_config = None, logs = \<lparr>log_access = True, log_error = True\<rparr>\<rparr>"

definition set_api_proxy :: "web_env \<Rightarrow> string \<Rightarrow> string \<Rightarrow> bool \<Rightarrow> (string \<times> string) option \<Rightarrow> site_view wio" where
  "set_api_proxy env domain up up_secure cert = seq (require_web_root env) (bind load_web_settings (\<lambda>ws.
     if ws_mode ws = ModeNone then throw NotInstalled else upsert_site env (api_site domain up up_secure cert)))"

definition remove_api_proxy :: "web_env \<Rightarrow> bool wio" where
  "remove_api_proxy env = seq (require_web_root env) (bind load_sites (\<lambda>ss.
     if \<not> list_ex (\<lambda>s. sid s = API_SITE_ID \<and> owner s = Some API_SITE_OWNER) ss then ret False else remove_site env API_SITE_ID))"

definition preview_site :: "web_env \<Rightarrow> site \<Rightarrow> string wio" where
  "preview_site env s0 = bind (lift_result (map_err InvalidSite (site_normalize (key_pair_ok env) s0))) (\<lambda>s.
     bind load_web_settings (\<lambda>ws. bind load_status (\<lambda>_. bind (asks (\<lambda>w. resolve_site env (wregistry w) (wfiles w) s)) (\<lambda>r.
       case r of Inl e \<Rightarrow> throw (Unresolved e)
       | Inr x \<Rightarrow> ret (render_site x ws (web_features env ws) (root_dir (env_paths env)) (logs_dir (env_paths env)))))))"

section \<open>Certificates\<close>

definition fail_tls :: "int \<Rightarrow> tls_state \<Rightarrow> string \<Rightarrow> site_status \<Rightarrow> site_status" where
  "fail_tls now state m st = (let t = ss_tls st; n = saturating_suc (failures t) in
     st\<lparr>ss_tls := t\<lparr>ts_state := state, ts_error := m, failures := n,
       next_attempt := now + min (3600 * 2 ^ min (n - 1) 5) (24 * 3600)\<rparr>\<rparr>)"

definition issued_tls :: "string list \<Rightarrow> cert_info \<Rightarrow> site_status \<Rightarrow> site_status" where
  "issued_tls names info st = st\<lparr>ss_tls := \<lparr>ts_state = TlsActive, not_after = ci_not_after info, issuer = ci_issuer info,
     ts_error = [], next_attempt = 0, failures = 0, ts_names = names\<rparr>\<rparr>"

definition update_entry :: "string \<Rightarrow> (site_status \<Rightarrow> site_status) \<Rightarrow> status_file \<Rightarrow> status_file" where
  "update_entry i g f = f\<lparr>sf_sites := (sf_sites f)(i \<mapsto> g (site_entry (sf_sites f) i))\<rparr>"

definition store_cert :: "web_env \<Rightarrow> string \<Rightarrow> issued \<Rightarrow> unit wio" where
  "store_cert env i c = (let d = acme_cert_dir (env_paths env) i in
     seq (write_text (path_join d ''privkey.pem'') (key_pem c)) (write_text (path_join d ''fullchain.pem'') (chain_pem c)))"

definition issue_site :: "web_env \<Rightarrow> site \<Rightarrow> unit wio" where
  "issue_site env s = bind load_web_settings (\<lambda>ws. bind load_status (\<lambda>f0.
     seq (ignore (save_status env (update_entry (sid s) (\<lambda>st. st\<lparr>ss_tls := (ss_tls st)\<lparr>ts_state := Issuing, ts_error := []\<rparr>\<rparr>) f0)))
     (bind load_status (\<lambda>f. bind (asks wnow) (\<lambda>now.
       bind (case issue_cert env ws (server_names s) of
           Inr c \<Rightarrow> bind (catch (store_cert env (sid s) c)) (\<lambda>r. case r of
             Inl e \<Rightarrow> ret (fail_tls now TlsError (error_text env e))
           | Inr _ \<Rightarrow> (case inspect_cert env (chain_pem c) of
               Inr info \<Rightarrow> ret (issued_tls (server_names s) info)
             | Inl e \<Rightarrow> ret (fail_tls now TlsError e)))
         | Inl (IssueDns m) \<Rightarrow> ret (fail_tls now PendingDns m)
         | Inl (IssueAcme m) \<Rightarrow> ret (fail_tls now TlsError m)) (\<lambda>g.
       seq (ignore (save_status env (update_entry (sid s) g f))) (ignore (reapply_locked env))))))))"

definition renew_site :: "web_env \<Rightarrow> string \<Rightarrow> site_view wio" where
  "renew_site env i = seq (require_web_root env) (bind load_sites (\<lambda>ss. bind (find_site i ss) (\<lambda>s.
     if tls_mode (tls s) \<noteq> TlsAcme then throw (NotAcme i) else seq (issue_site env s) (get_site i))))"

section \<open>The background pass\<close>

definition refresh_cloudflare :: "web_env \<Rightarrow> bool wio" where
  "refresh_cloudflare env = bind (asks (\<lambda>w. (load_ranges (wranges w), wnow w))) (\<lambda>(current, now).
     if now - updated_at current < CLOUDFLARE_REFRESH_SECS then ret False
     else case download_ranges env of Inl _ \<Rightarrow> ret False
       | Inr cs \<Rightarrow> seq (ignore (effect (CannotWriteText CLOUDFLARE_FILE) (\<lambda>w. w\<lparr>wranges := Some \<lparr>cidrs = cs, updated_at = now\<rparr>\<rparr>)))
           (ret (cs \<noteq> cidrs current)))"

definition upstreams_moved :: "web_env \<Rightarrow> bool wio" where
  "upstreams_moved env = bind (catch load_sites) (\<lambda>r. case r of Inl _ \<Rightarrow> ret False
     | Inr ss \<Rightarrow> bind load_status (\<lambda>f. asks (\<lambda>w. list_ex (\<lambda>s. case resolve_site env (wregistry w) (wfiles w) s of
           Inr x \<Rightarrow> map_option upstream_addresses (sf_sites f (sid s)) \<noteq> Some (rs_addresses x) | Inl _ \<Rightarrow> False)
         (filter (\<lambda>s. \<not> disabled s \<and> raw_config s = None) ss))))"

definition renewal_due :: "web_env \<Rightarrow> site \<Rightarrow> site_status \<Rightarrow> web_world \<Rightarrow> bool" where
  "renewal_due env s st w = (ss_state st = SiteApplied \<and> next_attempt (ss_tls st) \<le> wnow w \<and>
     (acme_material (env_paths env) (wfiles w) (sid s) = None \<or> ts_names (ss_tls st) \<noteq> server_names s \<or>
      not_after (ss_tls st) - wnow w < RENEW_BEFORE_SECS))"

definition acme_pass :: "web_env \<Rightarrow> unit wio" where
  "acme_pass env = bind (catch load_sites) (\<lambda>r. case r of Inl _ \<Rightarrow> ret ()
     | Inr ss \<Rightarrow> each (\<lambda>s. bind load_status (\<lambda>f. bind (asks (renewal_due env s (site_entry (sf_sites f) (sid s)))) (\<lambda>due.
         do_if due (issue_site env s)))) (filter (\<lambda>s. \<not> disabled s \<and> tls_mode (tls s) = TlsAcme) ss))"

definition web_tick :: "web_env \<Rightarrow> unit wio" where
  "web_tick env = (if \<not> as_root env then ret () else bind load_web_settings (\<lambda>ws. if ws_mode ws = ModeNone then ret () else
     bind (refresh_cloudflare env) (\<lambda>a. bind (upstreams_moved env) (\<lambda>b.
       seq (do_if (a \<or> b) (ignore (reapply_locked env))) (acme_pass env)))))"

definition health_targets :: "probe_target list wio" where
  "health_targets = bind (catch load_sites) (\<lambda>r. case r of Inl _ \<Rightarrow> ret []
     | Inr ss \<Rightarrow> bind load_status (\<lambda>f. ret (concat (map (\<lambda>s. case sf_sites f (sid s) of None \<Rightarrow> []
         | Some st \<Rightarrow> if ss_state st \<noteq> SiteApplied then [] else
             map (\<lambda>a. \<lparr>pt_site = sid s, pt_address = a, pt_check = health_of (upstream s), pt_tls = up_tls (upstream s)\<rparr>) (upstream_addresses st))
       (filter (\<lambda>s. \<not> disabled s \<and> raw_config s = None \<and> health_enabled (health_of (upstream s))) ss)))))"

section \<open>The machine of the operations\<close>

datatype web_op = OpReplace string "site list" | OpUpsert site | OpRemove string | OpSettings web_settings | OpTest | OpReload
  | OpApi string string bool "(string \<times> string) option" | OpRemoveApi | OpRenew string | OpTick | OpRead "string option"

fun run_op :: "web_env \<Rightarrow> web_op \<Rightarrow> web_world \<Rightarrow> web_world" where
  "run_op env (OpReplace m ss) w = snd (replace_sites env m ss w)"
| "run_op env (OpUpsert s) w = snd (upsert_site env s w)"
| "run_op env (OpRemove i) w = snd (remove_site env i w)"
| "run_op env (OpSettings ws) w = snd (update_web_settings env ws w)"
| "run_op env OpTest w = snd (test_web env w)"
| "run_op env OpReload w = snd (reload_web env w)"
| "run_op env (OpApi d u b c) w = snd (set_api_proxy env d u b c w)"
| "run_op env OpRemoveApi w = snd (remove_api_proxy env w)"
| "run_op env (OpRenew i) w = snd (renew_site env i w)"
| "run_op env OpTick w = snd (web_tick env w)"
| "run_op env (OpRead m) w = snd (list_sites m w)"

text \<open>Between operations everything but the stored sites may change: clock, files, health, the outcomes to come.\<close>

inductive web_reach :: "web_env \<Rightarrow> web_world \<Rightarrow> bool" where
  start: "saved_sites w = Absent \<Longrightarrow> web_reach env w"
| operate: "web_reach env w \<Longrightarrow> web_reach env (run_op env op w)"
| meanwhile: "web_reach env w \<Longrightarrow> saved_sites u = saved_sites w \<Longrightarrow> web_reach env u"

end
