(* ===== verification/WebSwap.thy ===== *)
theory WebSwap
  imports WebApply
begin

text \<open>
  What an apply does to the files: everything before the swap stays in the staging directory; when
  calls work, the staged tree is exactly the one that is tested, and the swap makes the live sites
  those that nginx accepted.
\<close>

section \<open>Files as maps\<close>

lemma map_of_put [simp]: "map_of (put_text p c fs) = (map_of fs)(p \<mapsto> c)"
proof
  fix q
  have "map_of (filter (\<lambda>(q, _). q \<noteq> p) fs) q = (if q = p then None else map_of fs q)"
    by (induction fs) auto
  then show "map_of (put_text p c fs) q = ((map_of fs)(p \<mapsto> c)) q" by (simp add: put_text_def)
qed

lemma map_of_filter_fst: "map_of (filter (\<lambda>(q, _). P q) fs) q = (if P q then map_of fs q else None)"
  by (induction fs) auto

lemma map_of_drop: "map_of (drop_path d fs) q = (if q = d \<or> under_dir d q then None else map_of fs q)"
  using map_of_filter_fst[of "\<lambda>q. q \<noteq> d \<and> \<not> under_dir d q" fs q] by (auto simp: drop_path_def)

definition put_all :: "texts \<Rightarrow> texts \<Rightarrow> texts" where
  "put_all xs fs = fold (\<lambda>(p, c). put_text p c) xs fs"

lemma put_all_simps [simp]:
  "put_all [] fs = fs" "put_all (x # xs) fs = put_all xs (put_text (fst x) (snd x) fs)"
  by (simp_all add: put_all_def split_beta)

lemma map_of_put_all: "map_of (put_all xs fs) = map_of fs ++ map_of (rev xs)"
  by (induction xs arbitrary: fs) (simp_all add: map_add_def fun_eq_iff split: option.split)

lemma put_all_other: "p \<notin> fst ` set xs \<Longrightarrow> map_of (put_all xs fs) p = map_of fs p"
  by (induction xs arbitrary: fs) auto

lemma put_all_unique:
  assumes "(p, t) \<in> set xs" "\<And>t1. (p, t1) \<in> set xs \<Longrightarrow> t1 = t" shows "map_of (put_all xs fs) p = Some t"
proof -
  obtain t1 where "map_of (rev xs) p = Some t1" using assms(1)
    by (metis domD dom_map_of_conv_image_fst fst_conv image_eqI set_rev)
  with assms(2) show ?thesis by (auto simp: map_of_put_all dest: map_of_SomeD)
qed

lemma put_all_Some: "map_of (put_all xs fs) p = Some t \<Longrightarrow> (p, t) \<in> set xs \<or> p \<notin> fst ` set xs \<and> map_of fs p = Some t"
proof (cases "p \<in> fst ` set xs")
  case True
  then obtain t1 where "map_of (rev xs) p = Some t1" by (metis domD dom_map_of_conv_image_fst set_rev)
  moreover assume "map_of (put_all xs fs) p = Some t"
  ultimately show ?thesis by (auto simp: map_of_put_all dest: map_of_SomeD)
qed (simp add: put_all_other)

lemma put_all_append: "put_all (xs @ ys) fs = put_all ys (put_all xs fs)"
  by (simp add: put_all_def)

section \<open>The staging directory\<close>

lemma staging_path [simp]: "path_join (staging ps) x = staging ps @ ''/'' @ x"
  by (simp add: path_join_def staging_def split: if_split)

lemma under_staging [simp]: "under_dir d (d @ ''/'' @ x)"
  by (simp add: under_dir_def starts_with_iff)

lemma under_staging_char [simp]: "under_dir d (d @ CHR ''/'' # x)"
  using under_staging[of d x] by simp

text \<open>What is outside of a directory, the rotation rule of the logs aside.\<close>

definition outside :: "string \<Rightarrow> texts \<Rightarrow> texts" where
  "outside d fs = filter (\<lambda>(q, _). q \<noteq> d \<and> \<not> under_dir d q \<and> q \<noteq> LOGROTATE) fs"

lemma outside_put: "under_dir d p \<or> p = LOGROTATE \<Longrightarrow> outside d (put_text p c fs) = outside d fs"
  by (auto simp: outside_def put_text_def intro!: filter_cong)

lemma outside_drop: "outside d (drop_path d fs) = outside d fs"
  by (auto simp: outside_def drop_path_def intro!: filter_cong)

lemma outside_map: "outside d fs = outside d gs \<Longrightarrow> q \<noteq> d \<Longrightarrow> \<not> under_dir d q \<Longrightarrow> q \<noteq> LOGROTATE \<Longrightarrow> map_of fs q = map_of gs q"
  unfolding outside_def using map_of_filter_fst[of "\<lambda>q. q \<noteq> d \<and> \<not> under_dir d q \<and> q \<noteq> LOGROTATE" fs q]
    map_of_filter_fst[of "\<lambda>q. q \<noteq> d \<and> \<not> under_dir d q \<and> q \<noteq> LOGROTATE" gs q] by simp

lemma frames_outcome:
  assumes "\<And>w. g (f w) = g w" "\<And>w os. g (w\<lparr>wouts := os\<rparr>) = g w" shows "frames g (effect e f)"
  using assms by (auto simp: frames_def effect_def step_io_def Let_def split: prod.split)

lemma frames_each [frame_rules]: "(\<And>x. x \<in> set xs \<Longrightarrow> frames g (f x)) \<Longrightarrow> frames g (each f xs)"
  by (induction xs) (simp_all add: frame_rules)

lemma frames_modify: "(\<And>w. g (f w) = g w) \<Longrightarrow> frames g (modify f)"
  by (simp add: frames_def modify_def)

text \<open>The live side of the world: files outside of staging, what nginx runs with and in which container.\<close>

definition live_side :: "string \<Rightarrow> web_world \<Rightarrow> texts \<times> texts option \<times> string list option" where
  "live_side d w = (outside d (wfiles w), loaded w, container w)"

lemma frames_write_staged: "under_dir d p \<or> p = LOGROTATE \<Longrightarrow> frames (live_side d) (write_text p c)"
  unfolding write_text_def by (rule frames_outcome) (simp_all add: live_side_def outside_put)

lemma frames_write_below [frame_rules]: "frames (live_side (staging ps)) (write_below (staging ps) f)"
  unfolding write_below_def by (rule frames_write_staged) (simp add: under_dir_def starts_with_iff)

lemma frames_delete_staging [frame_rules]: "frames (live_side d) (delete_path d)"
  unfolding delete_path_def by (rule frames_outcome) (simp_all add: live_side_def outside_drop)

lemma frames_make_dir [frame_rules]: "frames (live_side d) (make_dir e)"
  unfolding make_dir_def by (rule frames_outcome) (simp_all add: live_side_def)

lemma frames_write_tree: "frames (live_side (plan_staging pl)) (write_tree pl (plan_staging pl) rej kept)"
  unfolding write_tree_def plan_staging_def stage_site_def by (intro frame_rules)

lemma frames_run_test: "frames (live_side d) (run_test env conf)"
  unfolding run_test_def by (intro frame_rules frames_outcome) (simp_all add: live_side_def)

lemma frames_try: "frames (live_side (plan_staging pl)) (test_attempt pl v)"
  unfolding test_attempt_def by (intro frame_rules frames_write_tree frames_run_test)

lemma frames_set_stat [frame_rules]: "frames (live_side d) (set_stat f)"
  unfolding set_stat_def by (rule frames_modify) (simp add: live_side_def)

lemma frames_give_up: "frames (live_side (plan_staging pl)) (give_up pl out)"
  unfolding give_up_def by (intro frame_rules)

lemma frames_loop:
  assumes "\<And>v. frames g (test_attempt pl v)" "\<And>out. frames g (give_up pl out :: test_verdict wio)"
  shows "frames g (test_loop pl v)"
  unfolding frames_def
proof
  fix w
  show "g (snd (test_loop pl v w)) = g w" using assms
  proof (induction pl v w rule: test_loop.induct)
    case (1 pl v w)
    obtain r w1 where r: "test_attempt pl v w = (r, w1)" by (cases "test_attempt pl v w")
    with framesD[OF 1(2), of v w] have w1: "g w1 = g w" by simp
    show ?case
    proof (cases r)
      case (Inl e)
      with r w1 show ?thesis by (simp add: test_loop.simps)
    next
      case (Inr x)
      show ?thesis
      proof (cases x)
        case (Inl out)
        with r Inr w1 1 show ?thesis
          by (subst test_loop.simps) (simp add: framesD[OF 1(3)] split: option.split)
      next
        case (Inr out)
        with r \<open>r = Inr x\<close> w1 show ?thesis by (simp add: test_loop.simps)
      qed
    qed
  qed
qed

lemma frames_test_loop: "frames (live_side (plan_staging pl)) (test_loop pl v)"
  by (rule frames_loop[OF frames_try frames_give_up])

text \<open>The directories that a running container would have to have and has not.\<close>

definition binds_missing :: "web_env \<Rightarrow> web_settings \<Rightarrow> web_world \<Rightarrow> bool" where
  "binds_missing env ws w = (ws_mode ws = ModeDocker \<and>
     (case container w of None \<Rightarrow> False | Some bs \<Rightarrow> \<not> set (content_binds env ws @ [log_bind (env_paths env)]) \<subseteq> set bs))"

text \<open>
  From \<open>w\<close> to \<open>u\<close> the live files are untouched, and nginx runs with what it ran with; or its container was
  replaced because directories are missing in it, and it runs with the live files, or not at all.
\<close>

definition spared :: "web_env \<Rightarrow> web_settings \<Rightarrow> web_world \<Rightarrow> web_world \<Rightarrow> bool" where
  "spared env ws w u \<longleftrightarrow> outside (staging (env_paths env)) (wfiles u) = outside (staging (env_paths env)) (wfiles w) \<and>
     (loaded u = loaded w \<or> binds_missing env ws w \<and> (\<forall>fs. loaded u = Some fs \<longrightarrow> outside (staging (env_paths env)) fs = outside (staging (env_paths env)) (wfiles w)))"

lemma spared_before: "live_side (staging (env_paths env)) w = live_side (staging (env_paths env)) v \<Longrightarrow> spared env ws v u \<Longrightarrow> spared env ws w u"
  by (auto simp: spared_def live_side_def binds_missing_def)

lemma spared_after: "spared env ws w v \<Longrightarrow> live_side (staging (env_paths env)) u = live_side (staging (env_paths env)) v \<Longrightarrow> spared env ws w u"
  by (auto simp: spared_def live_side_def)

lemma spared_same: "live_side (staging (env_paths env)) u = live_side (staging (env_paths env)) w \<Longrightarrow> spared env ws w u"
  by (auto simp: spared_def live_side_def)

lemma outcome_cases:
  obtains (worked) os where "effect e f w = (Inr (), (f w)\<lparr>wouts := os\<rparr>)" | (failed) os where "effect e f w = (Inl e, w\<lparr>wouts := os\<rparr>)"
proof -
  obtain ok os where o: "next_outcome (wouts w) = (ok, os)" by (cases "next_outcome (wouts w)")
  then have "effect e f w = (if ok then (Inr (), (f w)\<lparr>wouts := os\<rparr>) else (Inl e, w\<lparr>wouts := os\<rparr>))"
    by (simp add: effect_def step_io_def)
  then show thesis by (cases ok) (simp_all add: that)
qed

lemma create_spares:
  assumes "loaded w = None"
  shows "wfiles (snd (create_container env ws w)) = wfiles w \<and> (\<forall>fs. loaded (snd (create_container env ws w)) = Some fs \<longrightarrow> fs = wfiles w)"
proof -
  define k where "k = seq (effect ContainerError (\<lambda>w. w\<lparr>container := Some (container_binds env ws)\<rparr>))
         (effect ContainerError (\<lambda>w. w\<lparr>loaded := started env (wfiles w)\<rparr>))"
  have k: "wfiles (snd (k u)) = wfiles u \<and> (\<forall>fs. loaded (snd (k u)) = Some fs \<longrightarrow> fs = wfiles u)" if "loaded u = None" for u
    using that by (auto simp: k_def effect_def step_io_def seq_def bind_def Let_def started_def split: prod.splits sum.splits if_splits)
  have m: "wfiles (snd (seq (make_dir d) m u)) = wfiles u \<and> (\<forall>fs. loaded (snd (seq (make_dir d) m u)) = Some fs \<longrightarrow> fs = wfiles u)"
    if "loaded u = None" "\<And>u. loaded u = None \<Longrightarrow> wfiles (snd (m u)) = wfiles u \<and> (\<forall>fs. loaded (snd (m u)) = Some fs \<longrightarrow> fs = wfiles u)"
    for d u and m :: "unit wio"
  proof -
    obtain r v where r: "make_dir d u = (r, v)" by (cases "make_dir d u")
    then have "wfiles v = wfiles u" "loaded v = loaded u"
      by (auto simp: make_dir_def effect_def step_io_def Let_def split: prod.splits if_splits)
    with that(2)[of v] that(1) r show ?thesis by (cases r) (simp_all add: seq_def bind_def)
  qed
  show ?thesis unfolding create_container_def k_def[symmetric] by (intro m k assms)
qed

lemma binds_spare: "spared env ws w (snd (ensure_binds env ws w))"
proof (cases "ws_mode ws = ModeDocker")
  case True
  have s: "spared env ws w (w\<lparr>wouts := os\<rparr>)" for os by (rule spared_same) (simp add: live_side_def)
  show ?thesis
  proof (cases rule: outcome_cases[of ContainerError "\<lambda>w. w" w])
    case (failed os)
    with s show ?thesis by (simp add: ensure_binds_def True seq_def bind_def)
  next
    case (worked os)
    show ?thesis
    proof (cases "binds_missing env ws w")
      case False
      with worked s show ?thesis
        by (auto simp: ensure_binds_def True seq_def bind_def asks_def ret_def binds_missing_def split: option.split)
    next
      case missing: True
      let ?d = "effect ContainerError (\<lambda>w. w\<lparr>container := None, loaded := None\<rparr>)"
      from missing worked have e: "ensure_binds env ws w = seq ?d (create_container env ws) (w\<lparr>wouts := os\<rparr>)"
        by (auto simp: ensure_binds_def True seq_def bind_def asks_def ret_def binds_missing_def split: option.splits)
      show ?thesis
      proof (cases rule: outcome_cases[of ContainerError "\<lambda>w. w\<lparr>container := None, loaded := None\<rparr>" "w\<lparr>wouts := os\<rparr>"])
        case (failed os)
        with s e show ?thesis by (simp add: seq_def bind_def)
      next
        case (worked os)
        with e have "ensure_binds env ws w = create_container env ws (w\<lparr>container := None, loaded := None, wouts := os\<rparr>)"
          by (simp add: seq_def bind_def)
        with create_spares[of "w\<lparr>container := None, loaded := None, wouts := os\<rparr>" env ws] missing show ?thesis
          by (simp add: spared_def)
      qed
    qed
  qed
qed (simp add: ensure_binds_def ret_def spared_same)

lemma frames_logrotate: "frames (live_side d) (ensure_logrotate env)"
  unfolding ensure_logrotate_def by (intro frame_rules frames_write_staged) simp

lemma judge_spares: "spared (pl_env pl) (pl_settings pl) w (snd (judge pl w))"
proof -
  define rest where "rest = seq (ensure_logrotate (pl_env pl)) (test_loop pl no_verdict)"
  let ?d = "staging (env_paths (pl_env pl))" and ?m = "make_dir (logs_dir (env_paths (pl_env pl)))"
    and ?b = "do_if (ws_mode (pl_settings pl) = ModeDocker \<and> pl_stage pl \<noteq> WriteOnly) (ensure_binds (pl_env pl) (pl_settings pl))"
  have r: "live_side ?d (snd (rest u)) = live_side ?d u" for u
    unfolding rest_def by (rule framesD) (intro frame_rules frames_logrotate frames_test_loop[of pl, unfolded plan_staging_def])
  obtain x v where x: "?m w = (x, v)" by (cases "?m w")
  with framesD[OF frames_make_dir, of ?d _ w] have v: "live_side ?d w = live_side ?d v" by (metis snd_conv)
  have b: "spared (pl_env pl) (pl_settings pl) v (snd (?b v))"
    using binds_spare by (simp add: do_if_def ret_def spared_same)
  have "spared (pl_env pl) (pl_settings pl) v (snd (seq ?b rest v))"
  proof (cases "fst (?b v)")
    case (Inl e)
    with b show ?thesis by (simp add: seq_def bind_def split_beta)
  next
    case (Inr y)
    with spared_after[OF b r] show ?thesis by (simp add: seq_def bind_def split_beta)
  qed
  with x v show ?thesis
    unfolding judge_def rest_def[symmetric]
    by (cases x) (auto simp: seq_def bind_def intro: spared_same spared_before[OF v])
qed

text \<open>The errors of the swap are its own.\<close>

lemma effect_error: "effect e f w = (Inl x, w1) \<Longrightarrow> x = e"
  by (auto simp: effect_def step_io_def Let_def split: prod.splits if_splits)

lemma effect_fst: "fst (effect e f w) = Inl x \<Longrightarrow> x = e"
  by (auto simp: effect_def step_io_def Let_def split: prod.splits if_splits)

definition swap_error :: "apply_error \<Rightarrow> bool" where
  "swap_error e = (e = ReloadFailed \<or> (\<exists>p. e = CannotWriteText p))"

lemma each_error: "each f xs w = (Inl e, w1) \<Longrightarrow> (\<And>x u u1. f x u = (Inl e, u1) \<Longrightarrow> P e) \<Longrightarrow> P e"
  by (induction xs arbitrary: w) (auto simp: seq_Inl ret_def)

lemma write_error: "write_text p c w = (Inl e, w1) \<Longrightarrow> swap_error e"
  by (auto simp: write_text_def swap_error_def dest: effect_error)

lemma ignore_never: "ignore m w \<noteq> (Inl e, w1)"
  by (simp add: ignore_def)

lemma swap_live_error:
  assumes "swap_live pl v w = (Inl e, w1)" shows "swap_error e"
proof -
  have "each (write_below b) fs u = (Inl e, u1) \<Longrightarrow> swap_error e" for b fs u u1
    by (rule each_error[of "write_below b" fs u]) (auto simp: write_below_def dest: write_error)
  note b = this
  have s: "each (swap_site b k) rs u = (Inl e, u1) \<Longrightarrow> swap_error e" for b k rs u u1
    by (rule each_error[of "swap_site b k" rs u])
      (auto simp: swap_site_def ret_def seq_Inl write_below_def[of b "(_, _)"] dest: write_error b split: if_splits)
  have g: "each (write_global pl b) fs u = (Inl e, u1) \<Longrightarrow> swap_error e" for b fs u u1
    by (rule each_error[of "write_global pl b" fs u]) (auto simp: write_global_def dest: write_error)
  have p: "prune_dir d k u \<noteq> (Inl e, u1)" for d k u u1
  proof
    assume "prune_dir d k u = (Inl e, u1)"
    then have "each (\<lambda>n. ignore (delete_path (path_join d n))) (filter (\<lambda>n. \<not> k n) (child_names d (wfiles u))) u = (Inl e, u1)"
      by (simp add: prune_dir_def bind_run)
    then show False by (rule each_error) (simp add: ignore_never)
  qed
  have r: "bind (catch reload_engine) (\<lambda>r. case r of Inr _ \<Rightarrow> ret () | Inl e \<Rightarrow> seq (set_stat (f e)) (throw e)) u = (Inl e, u1) \<Longrightarrow> swap_error e"
    for f u u1
    by (auto simp: bind_Inl catch_run seq_Inl set_stat_def modify_def throw_def ret_def swap_error_def reload_engine_def
        split: sum.splits dest: effect_fst)
  show ?thesis using assms
    by (auto simp: swap_live_def Let_def seq_Inl ignore_never p modify_def ret_def dest: g s r[unfolded ret_def] split: if_splits)
qed

lemma apply_aborts:
  assumes "st = TestOnly \<or> fst (apply_locked env ws ss st w) = Inl (NginxRejected out)"
  shows "spared env ws w (snd (apply_locked env ws ss st w))"
proof -
  let ?pl = "make_plan env ws st ss w" and ?d = "staging (env_paths env)"
  have pl: "plan_staging ?pl = ?d" "pl_env ?pl = env" "pl_settings ?pl = ws" by (simp_all add: plan_staging_def make_plan_def Let_def)
  let ?j = "seq (claim_all env ss) (judge ?pl)"
  have j: "spared env ws w (snd (?j w))"
    using spared_before[OF _ judge_spares[of ?pl, unfolded pl], of w]
    by (simp add: claim_all_def modify_def live_side_def seq_def bind_def)
  have a: "apply_locked env ws ss st w = (if ws_mode ws = ModeNone then (Inl NotInstalled, w) else
     bind ?j (\<lambda>v. if st = TestOnly then seq (ignore (delete_path (plan_staging ?pl))) (ret (vd_output v)) else swap_live ?pl v) w)"
    by (simp add: apply_locked_def io_simps)
  show ?thesis
  proof (cases "ws_mode ws = ModeNone")
    case False
    obtain r w1 where r: "?j w = (r, w1)" by (cases "?j w")
    with j have w1: "spared env ws w w1" by simp
    show ?thesis
    proof (cases r)
      case (Inl e)
      with r w1 False a show ?thesis by (simp add: bind_def)
    next
      case (Inr v)
      show ?thesis
      proof (cases "st = TestOnly")
        case True
        have "spared env ws w (snd (delete_path ?d w1))" using framesD[OF frames_delete_staging] by (rule spared_after[OF w1])
        with r Inr False a True show ?thesis
          by (simp add: bind_def io_simps pl(1)[unfolded True])
      next
        case no: False
        with assms False a r Inr have "fst (swap_live ?pl v w1) = Inl (NginxRejected out)" by (simp add: bind_def)
        with swap_live_error[of ?pl v w1 "NginxRejected out"] have False by (cases "swap_live ?pl v w1") (simp add: swap_error_def)
        then show ?thesis ..
      qed
    qed
  qed (simp add: a spared_same)
qed

section \<open>When calls work\<close>

definition absolute :: "string \<Rightarrow> texts \<Rightarrow> texts" where
  "absolute b fs = map (\<lambda>(r, c). (path_join b r, c)) fs"

definition site_path :: "string \<Rightarrow> string \<Rightarrow> string" where
  "site_path b i = path_join b (site_file i)"

lemma effect_ok: "wouts w = [] \<Longrightarrow> effect e f w = (Inr (), (f w)\<lparr>wouts := []\<rparr>)"
  by (simp add: effect_def step_io_def)

lemma quiet [simp]: "wouts w = [] \<Longrightarrow> w\<lparr>wouts := []\<rparr> = w"
  by (cases w) simp

lemma quiet_files [simp]: "wouts w = [] \<Longrightarrow> w\<lparr>wfiles := fs, wouts := []\<rparr> = w\<lparr>wfiles := fs\<rparr>"
  by (cases w) simp

lemma write_ok: "wouts w = [] \<Longrightarrow> write_text p c w = (Inr (), w\<lparr>wfiles := put_text p c (wfiles w)\<rparr>)"
  by (simp add: write_text_def effect_ok)

lemma delete_ok: "wouts w = [] \<Longrightarrow> delete_path d w = (Inr (), w\<lparr>wfiles := drop_path d (wfiles w)\<rparr>)"
  by (simp add: delete_path_def effect_ok)

lemma make_dir_ok: "wouts w = [] \<Longrightarrow> make_dir d w = (Inr (), w)"
  by (simp add: make_dir_def effect_ok)

lemma seq_runs: "m w = (Inr (), w1) \<Longrightarrow> seq m k w = k w1"
  by (simp add: seq_def bind_def)

lemma seq_eq: "m w = (Inr (), w1) \<Longrightarrow> k w1 = r \<Longrightarrow> seq m k w = r"
  by (simp add: seq_runs)

lemma bind_runs: "m w = (Inr x, w1) \<Longrightarrow> bind m f w = f x w1"
  by (simp add: bind_def)

text \<open>An action that writes the texts \<open>h x\<close>.\<close>

definition writes :: "('a \<Rightarrow> unit wio) \<Rightarrow> ('a \<Rightarrow> texts) \<Rightarrow> bool" where
  "writes f h \<longleftrightarrow> (\<forall>x w. wouts w = [] \<longrightarrow> f x w = (Inr (), w\<lparr>wfiles := put_all (h x) (wfiles w)\<rparr>))"

lemma writesD: "writes f h \<Longrightarrow> wouts w = [] \<Longrightarrow> f x w = (Inr (), w\<lparr>wfiles := put_all (h x) (wfiles w)\<rparr>)"
  by (simp add: writes_def)

lemma each_writes:
  assumes "writes f h" "wouts w = []"
  shows "each f xs w = (Inr (), w\<lparr>wfiles := put_all (concat (map h xs)) (wfiles w)\<rparr>)"
  using assms(2)
proof (induction xs arbitrary: w)
  case (Cons x xs)
  then show ?case by (simp add: seq_runs[OF writesD[OF assms(1)]] put_all_append)
qed (simp add: ret_def)

lemma writes_below: "writes (write_below b) (\<lambda>f. absolute b [f])"
  by (simp add: writes_def write_below_def write_ok absolute_def split_beta)

lemma absolute_concat: "concat (map (\<lambda>f. absolute b [f]) fs) = absolute b fs"
  by (induction fs) (simp_all add: absolute_def)

lemmas each_below = each_writes[OF writes_below, unfolded absolute_concat]

definition site_texts :: "apply_plan \<Rightarrow> string set \<Rightarrow> rendered_site \<Rightarrow> texts" where
  "site_texts pl kept x = (if rd_id x \<in> kept
     then [(site_file (rd_id x), case map_of (pl_live pl) (rd_id x) of Some t \<Rightarrow> t | None \<Rightarrow> [])]
     else rd_certs x @ [(site_file (rd_id x), rd_file x)])"

lemma absolute_append: "absolute b (xs @ ys) = absolute b xs @ absolute b ys"
  by (simp add: absolute_def)

lemma writes_stage: "writes (stage_site pl b kept) (\<lambda>x. absolute b (site_texts pl kept x))"
  unfolding writes_def
proof (intro allI impI)
  fix x w assume w: "wouts (w :: web_world) = []"
  show "stage_site pl b kept x w = (Inr (), w\<lparr>wfiles := put_all (absolute b (site_texts pl kept x)) (wfiles w)\<rparr>)"
  proof (cases "rd_id x \<in> kept")
    case True
    with writesD[OF writes_below w, of b] show ?thesis by (simp add: stage_site_def site_texts_def)
  next
    case False
    with w show ?thesis
      by (simp add: stage_site_def site_texts_def seq_runs[OF each_below] writesD[OF writes_below] absolute_append put_all_append)
  qed
qed

definition staged_list :: "apply_plan \<Rightarrow> string \<Rightarrow> string set \<Rightarrow> string set \<Rightarrow> texts" where
  "staged_list pl b rejected kept = global_files pl b @ concat (map (site_texts pl kept) (render_sites pl rejected b))"

definition staged :: "apply_plan \<Rightarrow> test_verdict \<Rightarrow> texts \<Rightarrow> texts" where
  "staged pl v fs = put_all (absolute (plan_staging pl) (staged_list pl (plan_staging pl) (vd_rejected v) (vd_kept v)))
     (drop_path (plan_staging pl) fs)"

lemma absolute_concat_map: "concat (map (\<lambda>x. absolute b (h x)) xs) = absolute b (concat (map h xs))"
  by (induction xs) (simp_all add: absolute_def)

lemma write_tree_ok:
  assumes "wouts w = []"
  shows "write_tree pl (plan_staging pl) (vd_rejected v) (vd_kept v) w = (Inr (), w\<lparr>wfiles := staged pl v (wfiles w)\<rparr>)"
  using assms by (simp add: write_tree_def io_simps delete_ok seq_runs[OF make_dir_ok] seq_runs[OF each_below]
      each_writes[OF writes_stage] absolute_concat_map staged_def staged_list_def absolute_append put_all_append)

definition after_attempt :: "apply_plan \<Rightarrow> test_verdict \<Rightarrow> web_world \<Rightarrow> web_world" where
  "after_attempt pl v w = w\<lparr>wfiles := staged pl v (wfiles w), tests_run := Suc (tests_run w)\<rparr>"

lemma attempt_ok:
  assumes "wouts w = []" "pl_stage pl \<noteq> WriteOnly"
  shows "test_attempt pl v w = (Inr (nginx_test (pl_env pl) (staged pl v (wfiles w)) (path_join (plan_staging pl) NGINX_CONF)), after_attempt pl v w)"
proof -
  have "w\<lparr>wfiles := fs, tests_run := n, wouts := []\<rparr> = w\<lparr>wfiles := fs, tests_run := n\<rparr>" for fs n using assms(1) by (cases w) simp
  with assms show ?thesis
    by (simp add: test_attempt_def seq_runs[OF write_tree_ok] run_test_def seq_runs[OF effect_ok] asks_def after_attempt_def)
qed

section \<open>Which text stands in the file of a site\<close>

lemma site_file_text: "site_file i = ''sites/'' @ i @ ''.conf''"
  by (simp add: site_file_def path_join_def)

lemma site_file_inject [simp]: "site_file i = site_file j \<longleftrightarrow> i = j"
  by (simp add: site_file_text)

lemma path_join_inject [simp]: "path_join b x = path_join b y \<longleftrightarrow> x = y"
  by (simp add: path_join_def)

lemma hd_site_file: "hd (site_file i) = CHR ''s'' \<and> hd (tl (site_file i)) = CHR ''i''"
  by (simp add: site_file_text)

lemma render_global_names:
  assumes "(p, c) \<in> set (render_global ws f cf ps base docker)" shows "p \<noteq> site_file i"
proof
  assume p: "p = site_file i"
  have "hd p \<noteq> CHR ''s'' \<or> hd (tl p) \<noteq> CHR ''i''"
    using assms
    by (auto simp: render_global_def Let_def NGINX_CONF_def CUSTOM_HTTP_def CLOUDFLARE_def ERRORS_SNIPPET_def
        ERRORS_DIR_def DEFAULT_PAGE_DIR_def ACME_SNIPPET_def PROXY_SNIPPET_def path_join_def split: if_splits)
  with p hd_site_file[of i] show False by simp
qed

lemma global_names: "(p, c) \<in> set (global_files pl b) \<Longrightarrow> p \<noteq> site_file i"
  unfolding global_files_def set_sort by (rule render_global_names)

lemma render_candidate_simps [simp]:
  "rd_id (render_candidate pl b r) = cand_id r" "rd_addresses (render_candidate pl b r) = rs_addresses r"
  by (simp_all add: render_candidate_def Let_def cand_id_def split_beta)

lemma cert_names: "(p, c) \<in> set (rd_certs (render_candidate pl b r)) \<Longrightarrow> p \<noteq> site_file i"
  by (auto simp: render_candidate_def Let_def provided_cert_files_def path_join_def site_file_text split: if_splits)

definition new_text :: "apply_plan \<Rightarrow> string \<Rightarrow> resolved_site \<Rightarrow> string" where
  "new_text pl b r = rd_file (render_candidate pl b r)"

definition staged_text :: "apply_plan \<Rightarrow> test_verdict \<Rightarrow> resolved_site \<Rightarrow> string" where
  "staged_text pl v r = (if cand_id r \<in> vd_kept v then (case map_of (pl_live pl) (cand_id r) of Some t \<Rightarrow> t | None \<Rightarrow> [])
     else new_text pl (plan_staging pl) r)"

lemma site_texts_member:
  "(site_file i, t) \<in> set (site_texts pl kept (render_candidate pl b r)) \<longleftrightarrow>
   cand_id r = i \<and> t = (if i \<in> kept then (case map_of (pl_live pl) i of Some t \<Rightarrow> t | None \<Rightarrow> []) else new_text pl b r)"
  using cert_names[of "site_file i" t pl b r i] by (auto simp: site_texts_def new_text_def)

lemma staged_list_member:
  "(site_file i, t) \<in> set (staged_list pl (plan_staging pl) (vd_rejected v) (vd_kept v)) \<longleftrightarrow>
   (\<exists>r\<in>set (pl_candidates pl). cand_id r = i \<and> i \<notin> vd_rejected v \<and> t = staged_text pl v r)"
  using global_names[of "site_file i" t pl "plan_staging pl" i]
  by (auto simp: staged_list_def render_sites_def site_texts_member staged_text_def)

lemma absolute_member: "(path_join b p, t) \<in> set (absolute b fs) \<longleftrightarrow> (p, t) \<in> set fs"
  by (force simp: absolute_def)

definition distinct_ids :: "apply_plan \<Rightarrow> bool" where
  "distinct_ids pl = distinct (plan_ids pl)"

lemma same_candidate:
  "distinct_ids pl \<Longrightarrow> r \<in> set (pl_candidates pl) \<Longrightarrow> q \<in> set (pl_candidates pl) \<Longrightarrow> cand_id r = cand_id q \<Longrightarrow> r = q"
  by (auto simp: distinct_ids_def plan_ids_def distinct_map dest: inj_onD)

lemma staged_site:
  assumes "distinct_ids pl" "r \<in> set (pl_candidates pl)"
  shows "map_of (staged pl v fs) (site_path (plan_staging pl) (cand_id r))
     = (if cand_id r \<in> vd_rejected v then None else Some (staged_text pl v r))"
proof (cases "cand_id r \<in> vd_rejected v")
  case True
  let ?p = "site_path (plan_staging pl) (cand_id r)"
  have n: "(?p, t) \<notin> set (absolute (plan_staging pl) (staged_list pl (plan_staging pl) (vd_rejected v) (vd_kept v)))" for t
    using True by (auto simp: site_path_def absolute_member staged_list_member)
  then have "?p \<notin> fst ` set (absolute (plan_staging pl) (staged_list pl (plan_staging pl) (vd_rejected v) (vd_kept v)))"
    by force
  with True show ?thesis
    by (simp add: staged_def put_all_other map_of_drop site_path_def plan_staging_def)
next
  case False
  have "map_of (staged pl v fs) (site_path (plan_staging pl) (cand_id r)) = Some (staged_text pl v r)"
    unfolding staged_def
  proof (rule put_all_unique)
    show "(site_path (plan_staging pl) (cand_id r), staged_text pl v r)
      \<in> set (absolute (plan_staging pl) (staged_list pl (plan_staging pl) (vd_rejected v) (vd_kept v)))"
      using assms(2) False by (auto simp: site_path_def absolute_member staged_list_member)
    show "t = staged_text pl v r" if "(site_path (plan_staging pl) (cand_id r), t)
      \<in> set (absolute (plan_staging pl) (staged_list pl (plan_staging pl) (vd_rejected v) (vd_kept v)))" for t
    proof -
      from that obtain q where "q \<in> set (pl_candidates pl)" "cand_id q = cand_id r" "t = staged_text pl v q"
        by (auto simp: site_path_def absolute_member staged_list_member)
      with same_candidate[OF assms] show ?thesis by metis
    qed
  qed
  with False show ?thesis by simp
qed

section \<open>The loop when nginx judges file by file\<close>

text \<open>
  nginx refuses a tree exactly when the file of one of these sites is \<open>bad\<close>, and its words then
  name the file of one such site and of no other.
\<close>

definition judges_files :: "(string \<Rightarrow> bool) \<Rightarrow> apply_plan \<Rightarrow> bool" where
  "judges_files bad pl \<longleftrightarrow> (\<forall>fs. case nginx_test (pl_env pl) fs (path_join (plan_staging pl) NGINX_CONF) of
     Inr out \<Rightarrow> \<forall>i\<in>set (plan_ids pl). \<forall>t. map_of fs (site_path (plan_staging pl) i) = Some t \<longrightarrow> \<not> bad t
   | Inl out \<Rightarrow> \<exists>i\<in>set (plan_ids pl). (\<exists>t. map_of fs (site_path (plan_staging pl) i) = Some t \<and> bad t) \<and>
       (\<forall>j\<in>set (plan_ids pl). blames out (plan_staging pl) j \<longleftrightarrow> j = i))"

text \<open>
  That the words blame one site is a consequence of what nginx writes: each path below \<open>sites/\<close> in its words is
  the file of the bad site, and none is below \<open>certs/\<close>; and of the names of the sites: no file name is the
  beginning of another.
\<close>

definition names_only :: "string \<Rightarrow> string \<Rightarrow> string \<Rightarrow> bool" where
  "names_only out base i = (has_infix (site_path base i) out \<and> \<not> has_infix (path_join base ''certs'' @ ''/'') out \<and>
     list_all (\<lambda>k. starts_with (path_join base ''sites'' @ ''/'') (drop k out) \<longrightarrow> starts_with (site_path base i) (drop k out)) [0..<Suc (length out)])"

definition clear_ids :: "string list \<Rightarrow> bool" where
  "clear_ids is = list_all (\<lambda>i. list_all (\<lambda>j. starts_with (j @ ''.conf'') (i @ ''.conf'') \<longrightarrow> j = i) is) is"

definition judges_alone :: "(string \<Rightarrow> bool) \<Rightarrow> apply_plan \<Rightarrow> bool" where
  "judges_alone bad pl \<longleftrightarrow> (\<forall>fs. case nginx_test (pl_env pl) fs (path_join (plan_staging pl) NGINX_CONF) of
     Inr out \<Rightarrow> \<forall>i\<in>set (plan_ids pl). \<forall>t. map_of fs (site_path (plan_staging pl) i) = Some t \<longrightarrow> \<not> bad t
   | Inl out \<Rightarrow> \<exists>i\<in>set (plan_ids pl). (\<exists>t. map_of fs (site_path (plan_staging pl) i) = Some t \<and> bad t) \<and> names_only out (plan_staging pl) i)"

lemma has_infix_drop: "has_infix p s \<longleftrightarrow> (\<exists>k\<le>length s. starts_with p (drop k s))"
  by (simp add: has_infix_def list_ex_iff less_Suc_eq_le Bex_def del: upt_Suc)

lemma starts_same: "a @ x = b @ y \<Longrightarrow> starts_with a b \<or> starts_with b a"
  by (auto simp: starts_with_iff append_eq_append_conv2)

lemma names_only_blames:
  assumes n: "names_only out b i" and c: "clear_ids is" "i \<in> set is" "j \<in> set is" and b: "path_join b ''sites'' = b @ ''/sites''" "site_path b i = b @ ''/'' @ site_file i"
  shows "blames out b j \<longleftrightarrow> j = i"
proof
  have own: "site_path b i = path_join b ''sites'' @ ''/'' @ i @ ''.conf''" by (simp add: b site_file_text)
  assume "j = i"
  with n own show "blames out b j" by (simp add: blames_def names_only_def)
next
  have own: "site_path b i = path_join b ''sites'' @ ''/'' @ i @ ''.conf''" by (simp add: b site_file_text)
  assume "blames out b j"
  moreover have "\<not> has_infix (path_join b ''certs'' @ ''/'' @ j @ ''/'') out"
  proof
    assume "has_infix (path_join b ''certs'' @ ''/'' @ j @ ''/'') out"
    then have "has_infix (path_join b ''certs'' @ ''/'') out" unfolding has_infix_drop by (auto simp: starts_with_iff)
    with n show False by (simp add: names_only_def)
  qed
  ultimately obtain k where k: "k \<le> length out" "starts_with (path_join b ''sites'' @ ''/'' @ j @ ''.conf'') (drop k out)"
    by (auto simp: blames_def has_infix_drop)
  then have "starts_with (path_join b ''sites'' @ ''/'') (drop k out)" by (auto simp: starts_with_iff)
  with n k(1) have "starts_with (site_path b i) (drop k out)" by (auto simp: names_only_def list_all_iff less_Suc_eq_le simp del: upt_Suc)
  with k(2) own obtain x y where "drop k out = path_join b ''sites'' @ ''/'' @ (j @ ''.conf'') @ x" "drop k out = path_join b ''sites'' @ ''/'' @ (i @ ''.conf'') @ y"
    by (auto simp: starts_with_iff)
  then have "(j @ ''.conf'') @ x = (i @ ''.conf'') @ y" by simp
  then have "starts_with (j @ ''.conf'') (i @ ''.conf'') \<or> starts_with (i @ ''.conf'') (j @ ''.conf'')"
    by (rule starts_same)
  with c show "j = i" by (auto simp: clear_ids_def list_all_iff)
qed

lemma judges_alone_files:
  assumes "judges_alone bad pl" "clear_ids (plan_ids pl)" shows "judges_files bad pl"
  unfolding judges_files_def
proof
  fix fs
  let ?c = "path_join (plan_staging pl) NGINX_CONF"
  have b: "path_join (plan_staging pl) ''sites'' = plan_staging pl @ ''/sites''" "site_path (plan_staging pl) i = plan_staging pl @ ''/'' @ site_file i" for i
    by (simp_all add: plan_staging_def site_path_def)
  have j: "case nginx_test (pl_env pl) fs ?c of Inr out \<Rightarrow> \<forall>i\<in>set (plan_ids pl). \<forall>t. map_of fs (site_path (plan_staging pl) i) = Some t \<longrightarrow> \<not> bad t
   | Inl out \<Rightarrow> \<exists>i\<in>set (plan_ids pl). (\<exists>t. map_of fs (site_path (plan_staging pl) i) = Some t \<and> bad t) \<and> names_only out (plan_staging pl) i"
    using assms(1) unfolding judges_alone_def by blast
  show "case nginx_test (pl_env pl) fs ?c of Inr out \<Rightarrow> \<forall>i\<in>set (plan_ids pl). \<forall>t. map_of fs (site_path (plan_staging pl) i) = Some t \<longrightarrow> \<not> bad t
   | Inl out \<Rightarrow> \<exists>i\<in>set (plan_ids pl). (\<exists>t. map_of fs (site_path (plan_staging pl) i) = Some t \<and> bad t) \<and>
       (\<forall>j\<in>set (plan_ids pl). blames out (plan_staging pl) j \<longleftrightarrow> j = i)"
  proof (cases "nginx_test (pl_env pl) fs ?c")
    case (Inl out)
    with j obtain i where "i \<in> set (plan_ids pl)" "\<exists>t. map_of fs (site_path (plan_staging pl) i) = Some t \<and> bad t" "names_only out (plan_staging pl) i" by auto
    with names_only_blames[OF _ assms(2) _ _ b] Inl show ?thesis by auto
  next
    case (Inr out)
    with j show ?thesis by simp
  qed
qed

definition fair :: "(string \<Rightarrow> bool) \<Rightarrow> apply_plan \<Rightarrow> test_verdict \<Rightarrow> bool" where
  "fair bad pl v \<longleftrightarrow> (\<forall>r\<in>set (pl_candidates pl). let i = cand_id r in
     (i \<in> vd_kept v \<longrightarrow> bad (new_text pl (plan_staging pl) r) \<and> map_of (pl_live pl) i \<noteq> None \<and> i \<notin> vd_rejected v) \<and>
     (i \<in> vd_rejected v \<longrightarrow> bad (new_text pl (plan_staging pl) r) \<and> (\<forall>t. map_of (pl_live pl) i = Some t \<longrightarrow> bad t)))"

lemma find_only:
  assumes "i \<in> set xs" "\<And>j. j \<in> set xs \<Longrightarrow> P j \<longleftrightarrow> j = i" shows "find P xs = Some i"
  using assms by (induction xs) auto

lemma fair_set_aside:
  assumes f: "fair bad pl v" and d: "distinct_ids pl" and r: "r \<in> set (pl_candidates pl)" "cand_id r \<notin> vd_rejected v"
    and b: "bad (staged_text pl v r)"
  shows "fair bad pl (set_aside pl (cand_id r) (v\<lparr>vd_output := out\<rparr>))"
  unfolding fair_def
proof
  fix q assume q: "q \<in> set (pl_candidates pl)"
  from f q have fq: "let i = cand_id q in
     (i \<in> vd_kept v \<longrightarrow> bad (new_text pl (plan_staging pl) q) \<and> map_of (pl_live pl) i \<noteq> None \<and> i \<notin> vd_rejected v) \<and>
     (i \<in> vd_rejected v \<longrightarrow> bad (new_text pl (plan_staging pl) q) \<and> (\<forall>t. map_of (pl_live pl) i = Some t \<longrightarrow> bad t))"
    by (simp add: fair_def)
  let ?u = "set_aside pl (cand_id r) (v\<lparr>vd_output := out\<rparr>)"
  show "let i = cand_id q in
     (i \<in> vd_kept ?u \<longrightarrow> bad (new_text pl (plan_staging pl) q) \<and> map_of (pl_live pl) i \<noteq> None \<and> i \<notin> vd_rejected ?u) \<and>
     (i \<in> vd_rejected ?u \<longrightarrow> bad (new_text pl (plan_staging pl) q) \<and> (\<forall>t. map_of (pl_live pl) i = Some t \<longrightarrow> bad t))"
  proof (cases "q = r")
    case True
    with fq r(2) b show ?thesis
      by (auto simp: Let_def set_aside_def staged_text_def split: option.splits if_splits)
  next
    case False
    then have "cand_id q \<noteq> cand_id r" using same_candidate[OF d q r(1)] by auto
    with fq show ?thesis by (auto simp: Let_def set_aside_def)
  qed
qed

text \<open>The verdict of the loop: nobody is set aside for the sake of another, and what is staged is good.\<close>

definition settled :: "(string \<Rightarrow> bool) \<Rightarrow> apply_plan \<Rightarrow> test_verdict \<Rightarrow> bool" where
  "settled bad pl v \<longleftrightarrow> fair bad pl v \<and>
     (\<forall>r\<in>set (pl_candidates pl). cand_id r \<notin> vd_rejected v \<longrightarrow> \<not> bad (staged_text pl v r))"

lemma test_loop_settles:
  assumes "judges_files bad pl" "distinct_ids pl" "pl_stage pl \<noteq> WriteOnly" "fair bad pl v" "wouts w = []"
  shows "\<exists>u w1. test_loop pl v w = (Inr u, w1) \<and> settled bad pl u \<and> wouts w1 = [] \<and> wstat w1 = wstat w \<and> wnow w1 = wnow w"
  using assms
proof (induction pl v w rule: test_loop.induct)
  case (1 pl v w)
  let ?fs = "staged pl v (wfiles w)" and ?c = "path_join (plan_staging pl) NGINX_CONF" and ?w1 = "after_attempt pl v w"
  have w1: "wouts ?w1 = []" "wstat ?w1 = wstat w" "wnow ?w1 = wnow w" using 1(6) by (simp_all add: after_attempt_def)
  note a = attempt_ok[OF 1(6) 1(4), of v]
  note site = staged_site[OF 1(3), of _ v "wfiles w"]
  show ?case
  proof (cases "nginx_test (pl_env pl) ?fs ?c")
    case (Inr out)
    with 1(2) have g: "\<forall>i\<in>set (plan_ids pl). \<forall>t. map_of ?fs (site_path (plan_staging pl) i) = Some t \<longrightarrow> \<not> bad t"
      unfolding judges_files_def by (auto dest!: spec[of _ ?fs])
    have "\<not> bad (staged_text pl (v\<lparr>vd_output := out\<rparr>) r)" if r: "r \<in> set (pl_candidates pl)" "cand_id r \<notin> vd_rejected v" for r
    proof -
      have "staged_text pl (v\<lparr>vd_output := out\<rparr>) r = staged_text pl v r" by (simp add: staged_text_def)
      with site[OF r(1)] r g show ?thesis by (simp add: plan_ids_def)
    qed
    moreover have "fair bad pl (v\<lparr>vd_output := out\<rparr>)" using 1(5) by (simp add: fair_def)
    ultimately have "settled bad pl (v\<lparr>vd_output := out\<rparr>)" by (simp add: settled_def)
    with a Inr w1 show ?thesis by (simp add: test_loop.simps)
  next
    case (Inl out)
    with 1(2) obtain i t where i: "i \<in> set (plan_ids pl)" "map_of ?fs (site_path (plan_staging pl) i) = Some t" "bad t"
      "\<forall>j\<in>set (plan_ids pl). blames out (plan_staging pl) j \<longleftrightarrow> j = i"
      unfolding judges_files_def by (auto dest!: spec[of _ ?fs])
    then obtain r where r: "r \<in> set (pl_candidates pl)" "cand_id r = i" by (auto simp: plan_ids_def)
    with i site[OF r(1)] have n: "i \<notin> vd_rejected v" "bad (staged_text pl v r)" by (auto split: if_splits)
    have blame: "blamed_site out (plan_staging pl) (pending_ids pl v) = Some i"
      unfolding blamed_site_def by (rule find_only) (use i n in \<open>auto simp: pending_ids_def\<close>)
    have "fair bad pl (set_aside pl i (v\<lparr>vd_output := out\<rparr>))"
      using fair_set_aside[OF 1(5,3) r(1)] n r(2) by simp
    from 1(1)[OF a[unfolded Inl, symmetric] refl refl blame 1(2-4) this w1(1)]
    have ih: "\<exists>u w2. test_loop pl (set_aside pl i (v\<lparr>vd_output := out\<rparr>)) ?w1 = (Inr u, w2) \<and> settled bad pl u \<and> wouts w2 = []
       \<and> wstat w2 = wstat w \<and> wnow w2 = wnow w" unfolding w1(2,3) .
    have "test_loop pl v w = test_loop pl (set_aside pl i (v\<lparr>vd_output := out\<rparr>)) ?w1"
      by (subst test_loop.simps) (simp only: a Inl blame prod.case sum.case option.case)
    with ih show ?thesis by simp
  qed
qed

section \<open>The swap makes the live sites those that were accepted\<close>

lemma child_name: "map_of fs (d @ ''/'' @ n) \<noteq> None \<Longrightarrow> CHR ''/'' \<notin> set n \<Longrightarrow> n \<in> set (child_names d fs)"
proof -
  assume n: "CHR ''/'' \<notin> set n" and "map_of fs (d @ ''/'' @ n) \<noteq> None"
  then obtain t where t: "(d @ ''/'' @ n, t) \<in> set fs" by (auto dest: map_of_SomeD)
  have "\<forall>c\<in>set n. c \<noteq> CHR ''/''" using n by auto
  then have e: "takeWhile (\<lambda>c. c \<noteq> CHR ''/'') (drop (length d + 1) (d @ ''/'' @ n)) = n" by simp
  have "(d @ ''/'' @ n, t) \<in> set (filter (\<lambda>(q, _). under_dir d q) fs)" using t by simp
  then have "(\<lambda>(q, _). takeWhile (\<lambda>c. c \<noteq> CHR ''/'') (drop (length d + 1) q)) (d @ ''/'' @ n, t) \<in> set (child_names d fs)"
    unfolding child_names_def set_remdups set_map by (rule imageI)
  then show "n \<in> set (child_names d fs)" unfolding prod.case e .
qed

lemma deletes:
  assumes "wouts w = []"
  shows "each (\<lambda>n. ignore (delete_path (path_join d n))) ns w
     = (Inr (), w\<lparr>wfiles := fold (\<lambda>n. drop_path (path_join d n)) ns (wfiles w)\<rparr>)"
  using assms
proof (induction ns arbitrary: w)
  case (Cons n ns)
  have "ignore (delete_path (path_join d n)) w = (Inr (), w\<lparr>wfiles := drop_path (path_join d n) (wfiles w)\<rparr>)"
    using Cons.prems by (simp add: ignore_def delete_ok)
  then show ?case using Cons by (simp add: seq_runs)
qed (simp add: ret_def)

definition pruned :: "string \<Rightarrow> (string \<Rightarrow> bool) \<Rightarrow> texts \<Rightarrow> texts" where
  "pruned d keep fs = fold (\<lambda>n. drop_path (path_join d n)) (filter (\<lambda>n. \<not> keep n) (child_names d fs)) fs"

lemma prune_ok: "wouts w = [] \<Longrightarrow> prune_dir d keep w = (Inr (), w\<lparr>wfiles := pruned d keep (wfiles w)\<rparr>)"
  by (simp add: prune_dir_def bind_run deletes pruned_def)

lemma map_of_drops: "map_of (fold (\<lambda>n. drop_path (path_join d n)) ns fs) p
     = (if \<exists>n\<in>set ns. p = path_join d n \<or> under_dir (path_join d n) p then None else map_of fs p)"
  by (induction ns arbitrary: fs) (auto simp: map_of_drop)

lemma under_other: "CHR ''/'' \<notin> set n \<Longrightarrow> \<not> under_dir (d @ ''/'' @ m) (d @ ''/'' @ n)"
proof
  assume n: "CHR ''/'' \<notin> set n" and "under_dir (d @ ''/'' @ m) (d @ ''/'' @ n)"
  then obtain t where "d @ ''/'' @ n = (d @ ''/'' @ m @ ''/'') @ t" by (auto simp: under_dir_def starts_with_iff)
  then have "n = m @ ''/'' @ t" by simp
  with n show False by simp
qed

lemma pruned_own:
  assumes "last d \<noteq> CHR ''/''" "d \<noteq> []" "CHR ''/'' \<notin> set n"
  shows "map_of (pruned d keep fs) (d @ ''/'' @ n) = (if keep n then map_of fs (d @ ''/'' @ n) else None)"
proof -
  have j: "path_join d m = d @ ''/'' @ m" for m using assms(1,2) by (simp add: path_join_def)
  have "(\<exists>m\<in>set (filter (\<lambda>n. \<not> keep n) (child_names d fs)). d @ ''/'' @ n = path_join d m \<or> under_dir (path_join d m) (d @ ''/'' @ n))
     \<longleftrightarrow> \<not> keep n \<and> n \<in> set (child_names d fs)"
    unfolding j using under_other[OF assms(3)] by auto
  then show ?thesis using child_name[of fs d n] assms(3) by (auto simp: pruned_def map_of_drops)
qed

lemma pruned_other:
  assumes "\<And>n. p \<noteq> path_join d n \<and> \<not> under_dir (path_join d n) p"
  shows "map_of (pruned d keep fs) p = map_of fs p"
  using assms by (simp add: pruned_def map_of_drops)

lemma writes_swap: "writes (swap_site b kept) (\<lambda>x. absolute b (if rd_id x \<in> kept then [] else rd_certs x @ [(site_file (rd_id x), rd_file x)]))"
  unfolding writes_def
proof (intro allI impI)
  fix x w assume w: "wouts (w :: web_world) = []"
  show "swap_site b kept x w = (Inr (), w\<lparr>wfiles := put_all (absolute b (if rd_id x \<in> kept then []
      else rd_certs x @ [(site_file (rd_id x), rd_file x)])) (wfiles w)\<rparr>)"
    using w by (simp add: swap_site_def ret_def seq_runs[OF each_below] writesD[OF writes_below] absolute_append put_all_append
        absolute_def[of _ "[]"])
qed

definition global_path :: "apply_plan \<Rightarrow> string \<Rightarrow> string \<Rightarrow> string" where
  "global_path pl root p = (if p = NGINX_CONF then main_conf_path (ws_mode (pl_settings pl)) (env_paths (pl_env pl)) else path_join root p)"

lemma writes_global: "writes (write_global pl root) (\<lambda>f. [(global_path pl root (fst f), snd f)])"
  by (simp add: writes_def write_global_def global_path_def write_ok)

definition swap_list :: "apply_plan \<Rightarrow> test_verdict \<Rightarrow> string \<Rightarrow> texts" where
  "swap_list pl v b = concat (map (\<lambda>x. if rd_id x \<in> vd_kept v then [] else rd_certs x @ [(site_file (rd_id x), rd_file x)])
     (render_sites pl (vd_rejected v) b))"

lemma swap_list_member:
  "(site_file i, t) \<in> set (swap_list pl v b) \<longleftrightarrow>
   (\<exists>r\<in>set (pl_candidates pl). cand_id r = i \<and> i \<notin> vd_rejected v \<and> i \<notin> vd_kept v \<and> t = new_text pl b r)"
  using cert_names[of "site_file i" t pl b _ i] by (auto simp: swap_list_def render_sites_def new_text_def)

lemma reload_ok: "wouts w = [] \<Longrightarrow> reload_engine w = (Inr (), w\<lparr>loaded := Some (wfiles w)\<rparr>)"
proof -
  assume "wouts w = []"
  moreover have "w\<lparr>loaded := Some (wfiles w), wouts := []\<rparr> = w\<lparr>loaded := Some (wfiles w)\<rparr>" if "wouts w = []" using that by (cases w) simp
  ultimately show ?thesis by (simp add: reload_engine_def effect_ok)
qed

definition swapped :: "apply_plan \<Rightarrow> test_verdict \<Rightarrow> texts \<Rightarrow> texts" where
  "swapped pl v fs = (let root = root_dir (env_paths (pl_env pl)); rendered = render_sites pl (vd_rejected v) root;
       files = map (\<lambda>x. path_join root (site_file (rd_id x))) rendered;
       dirs = map rd_id (filter (\<lambda>x. rd_id x \<in> vd_kept v \<or> rd_certs x \<noteq> []) rendered) in
     drop_path (plan_staging pl) (pruned (path_join root ''certs'') (\<lambda>n. n \<in> set dirs)
       (pruned (path_join root ''sites'') (\<lambda>n. path_join (path_join root ''sites'') n \<in> set files)
         (put_all (absolute root (swap_list pl v root))
           (put_all (map (\<lambda>f. (global_path pl root (fst f), snd f)) (global_files pl root)) fs)))))"

lemma concat_single: "concat (map (\<lambda>x. [h x]) xs) = map h xs"
  by (induction xs) simp_all

lemma ignore_ok: "m w = (Inr (), w1) \<Longrightarrow> ignore m w = (Inr (), w1)"
  by (simp add: ignore_def)

lemma swap_live_ok:
  assumes "wouts w = []" "pl_stage pl = Full"
  shows "swap_live pl v w = (Inr (vd_output v), w\<lparr>wfiles := swapped pl v (wfiles w), loaded := Some (swapped pl v (wfiles w)),
     wstat := \<lparr>sf_last_error = [], sf_last_applied = wnow w,
       sf_sites = site_results v (wnow w) (pl_candidates pl) (sf_sites (wstat w))\<rparr>\<rparr>)"
proof -
  define W where "W fs = w\<lparr>wfiles := fs\<rparr>" for fs
  have W: "wouts (W fs) = []" "wfiles (W fs) = fs" "(W fs)\<lparr>wfiles := gs\<rparr> = W gs" for fs gs using assms(1) by (simp_all add: W_def)
  have w: "w = W (wfiles w)" by (simp add: W_def)
  have 1: "seq (each (write_global pl root) fs) k (W gs) = k (W (put_all (map (\<lambda>f. (global_path pl root (fst f), snd f)) fs) gs))" for root fs gs and k :: "string wio"
    by (rule seq_runs) (simp add: each_writes[OF writes_global] W concat_single)
  have 2: "seq (each (swap_site root (vd_kept v)) (render_sites pl (vd_rejected v) root)) k (W gs) = k (W (put_all (absolute root (swap_list pl v root)) gs))"
    for root gs and k :: "string wio" by (rule seq_runs) (simp add: each_writes[OF writes_swap] W swap_list_def flip: absolute_concat_map)
  have 3: "seq (prune_dir d keep) k (W gs) = k (W (pruned d keep gs))" for d keep gs and k :: "string wio"
    by (rule seq_runs) (simp add: prune_ok W)
  have 4: "seq (ignore (delete_path d)) k (W gs) = k (W (drop_path d gs))" for d gs and k :: "string wio"
    by (rule seq_runs) (simp add: ignore_ok[OF delete_ok] W)
  have 5: "bind (catch reload_engine) f (W gs) = f (Inr ()) ((W gs)\<lparr>loaded := Some gs\<rparr>)" for f gs
    by (simp add: bind_def catch_def reload_ok W)
  have 6: "seq (modify f) (ret x) u = (Inr x, f u)" for f x and u :: web_world
    by (simp add: seq_def bind_def modify_def ret_def)
  have r: "seq (ret ()) k = k" for k :: "string wio" by (rule ext) (simp add: seq_run)
  have bs: "seq (bind m f) k u = bind m (\<lambda>x. seq (f x) k) u" for m f u and k :: "string wio" by (rule seq_run(8))
  have "swap_live pl v (W (wfiles w)) = (Inr (vd_output v), (W (swapped pl v (wfiles w)))\<lparr>loaded := Some (swapped pl v (wfiles w)),
     wstat := \<lparr>sf_last_error = [], sf_last_applied = wnow w,
       sf_sites = site_results v (wnow w) (pl_candidates pl) (sf_sites (wstat w))\<rparr>\<rparr>)"
    using assms(2)
    by (simp only: swap_live_def Let_def if_True simp_thms 1 2 3 4 bs 5 sum.case r 6 swapped_def)
      (simp add: W_def)
  then show ?thesis unfolding w[symmetric] by (simp add: W_def)
qed

lemma site_results_state:
  assumes "i \<in> cand_id ` set rs"
  shows "ss_state (site_entry (site_results v now rs st) i) = (if i \<in> vd_rejected v \<or> i \<in> vd_kept v then SiteError else SiteApplied)"
proof -
  define a where "a = (\<lambda>i. case find (\<lambda>x. cand_id x = i) (rev rs) of Some x \<Rightarrow> rs_addresses x | None \<Rightarrow> [])"
  have v: "ss_state (site_result v now a j e) = (if j \<in> vd_rejected v \<or> j \<in> vd_kept v then SiteError else SiteApplied)" for j e
    by (simp add: site_result_def failed_site_def Let_def)
  have "ss_state (site_entry (fold (\<lambda>r s. s(cand_id r \<mapsto> site_result v now a (cand_id r) (site_entry s (cand_id r)))) qs st) i)
      = (if i \<in> vd_rejected v \<or> i \<in> vd_kept v then SiteError else SiteApplied)"
    if "i \<in> cand_id ` set qs \<or> ss_state (site_entry st i) = (if i \<in> vd_rejected v \<or> i \<in> vd_kept v then SiteError else SiteApplied)" for qs st
    using that
  proof (induction qs arbitrary: st)
    case (Cons q qs)
    show ?case unfolding fold.simps comp_def
      by (rule Cons.IH) (use Cons.prems v in \<open>auto simp: site_entry_def\<close>)
  qed simp
  with assms show ?thesis by (simp add: site_results_def a_def)
qed

lemma resolve_site_site: "resolve_site env reg fs s = Inr r \<Longrightarrow> rs_site r = s"
  by (auto simp: resolve_site_def)

lemma claim_ids:
  "set (map cand_id (fst (claim_sites env reg fs now ss cl st))) \<subseteq> sid ` set ss"
  "distinct (map sid ss) \<Longrightarrow> distinct (map cand_id (fst (claim_sites env reg fs now ss cl st)))"
proof -
  have s: "set (map cand_id (fst (claim_sites env reg fs now ss cl st))) \<subseteq> sid ` set ss" for ss cl st
  proof (induction ss arbitrary: cl st)
    case (Cons s ss)
    show ?case
    proof (cases "disabled s \<or> find (\<lambda>n. cl n \<noteq> None) (server_names s) \<noteq> None \<or> (\<exists>e. resolve_site env reg fs s = Inl e)")
      case True
      with Cons show ?thesis by (auto simp: Let_def split: option.split sum.split)
    next
      case False
      then obtain r where "find (\<lambda>n. cl n \<noteq> None) (server_names s) = None" "resolve_site env reg fs s = Inr r" "\<not> disabled s"
        by (cases "resolve_site env reg fs s") auto
      with Cons resolve_site_site[of env reg fs s r] show ?thesis by (auto simp: Let_def split_beta cand_id_def)
    qed
  qed simp
  then show "set (map cand_id (fst (claim_sites env reg fs now ss cl st))) \<subseteq> sid ` set ss" .
  show "distinct (map sid ss) \<Longrightarrow> distinct (map cand_id (fst (claim_sites env reg fs now ss cl st)))"
  proof (induction ss arbitrary: cl st)
    case (Cons s ss)
    have "sid s \<notin> set (map cand_id (fst (claim_sites env reg fs now ss cl1 st1)))" for cl1 st1
      using s[of ss cl1 st1] Cons.prems by auto
    note n = this
    show ?case
    proof (cases "disabled s \<or> find (\<lambda>n. cl n \<noteq> None) (server_names s) \<noteq> None \<or> (\<exists>e. resolve_site env reg fs s = Inl e)")
      case True
      with Cons show ?thesis by (auto simp: Let_def split: option.split sum.split)
    next
      case False
      then obtain r where r: "find (\<lambda>n. cl n \<noteq> None) (server_names s) = None" "resolve_site env reg fs s = Inr r" "\<not> disabled s"
        by (cases "resolve_site env reg fs s") auto
      then have "cand_id r = sid s" using resolve_site_site[of env reg fs s r] by (simp add: cand_id_def)
      with n Cons r show ?thesis by (simp add: Let_def split_beta)
    qed
  qed simp
qed

lemma live_text:
  assumes "r \<in> set rs"
  shows "map_of (live_texts ps fs rs) (cand_id r) = map_of fs (site_path (root_dir ps) (cand_id r))"
  using assms
proof (induction rs)
  case (Cons q qs)
  have n: "map_of (live_texts ps fs qs) i = None" if "map_of fs (site_path (root_dir ps) i) = None" for i
  proof -
    have "i \<notin> fst ` set (live_texts ps fs qs)" using that by (auto simp: live_texts_def List.map_filter_def site_path_def)
    then show ?thesis by (simp add: map_of_eq_None_iff)
  qed
  have e: "live_texts ps fs (q # qs) = (case map_of fs (site_path (root_dir ps) (cand_id q)) of
      None \<Rightarrow> live_texts ps fs qs | Some t \<Rightarrow> (cand_id q, t) # live_texts ps fs qs)"
    by (simp add: live_texts_def site_path_def map_filter_simps split: option.split)
  show ?case
  proof (cases "cand_id r = cand_id q")
    case True
    with n[of "cand_id q"] show ?thesis by (simp add: e split: option.split)
  next
    case False
    with Cons have "map_of (live_texts ps fs qs) (cand_id r) = map_of fs (site_path (root_dir ps) (cand_id r))" by auto
    with False show ?thesis by (simp add: e split: option.split)
  qed
qed simp

text \<open>The file a site ends up with: the new one when it is good, else the one it had when that is good.\<close>

definition best_text :: "(string \<Rightarrow> bool) \<Rightarrow> apply_plan \<Rightarrow> string \<Rightarrow> resolved_site \<Rightarrow> string option" where
  "best_text bad pl root r = (if \<not> bad (new_text pl (plan_staging pl) r) then Some (new_text pl root r)
     else case map_of (pl_live pl) (cand_id r) of Some t \<Rightarrow> if bad t then None else Some t | None \<Rightarrow> None)"

lemma settled_text:
  assumes "settled bad pl v" "r \<in> set (pl_candidates pl)"
  shows "best_text bad pl root r = (if cand_id r \<in> vd_rejected v then None
     else if cand_id r \<in> vd_kept v then map_of (pl_live pl) (cand_id r) else Some (new_text pl root r))"
    "cand_id r \<in> vd_rejected v \<or> cand_id r \<in> vd_kept v \<longleftrightarrow> bad (new_text pl (plan_staging pl) r)"
  using assms by (fastforce simp: settled_def fair_def best_text_def staged_text_def Let_def split: option.splits if_splits)+

definition ASC_ROOT :: string where "ASC_ROOT = ''/etc/asc/webserver''"

lemma system_dirs [simp]:
  "root_dir system_paths = ASC_ROOT" "staging system_paths = ASC_ROOT @ ''/.staging''" "path_join ASC_ROOT x = ASC_ROOT @ ''/'' @ x"
  by (simp_all add: system_paths_def ASC_ROOT_def staging_def path_join_def)

lemma system_site: "site_path ASC_ROOT i = (ASC_ROOT @ ''/sites'') @ ''/'' @ (i @ ''.conf'')"
  by (simp add: site_path_def site_file_text)

lemma swapped_site:
  assumes "env_paths (pl_env pl) = system_paths" "distinct_ids pl" "r \<in> set (pl_candidates pl)" "CHR ''/'' \<notin> set (cand_id r)"
  shows "map_of (swapped pl v fs) (site_path ASC_ROOT (cand_id r)) = (if cand_id r \<in> vd_rejected v then None
     else if cand_id r \<in> vd_kept v then map_of fs (site_path ASC_ROOT (cand_id r)) else Some (new_text pl ASC_ROOT r))"
proof -
  let ?i = "cand_id r" and ?p = "site_path ASC_ROOT (cand_id r)"
  define g where "g = put_all (map (\<lambda>f. (global_path pl ASC_ROOT (fst f), snd f)) (global_files pl ASC_ROOT)) fs"
  define x where "x = put_all (absolute ASC_ROOT (swap_list pl v ASC_ROOT)) g"
  let ?keep = "\<lambda>n. (ASC_ROOT @ ''/sites'') @ ''/'' @ n
     \<in> set (map (\<lambda>x. ASC_ROOT @ ''/'' @ site_file (rd_id x)) (render_sites pl (vd_rejected v) ASC_ROOT))"
  have j: "path_join (ASC_ROOT @ ''/sites'') n = (ASC_ROOT @ ''/sites'') @ ''/'' @ n"
    "path_join (ASC_ROOT @ ''/certs'') n = (ASC_ROOT @ ''/certs'') @ ''/'' @ n" for n
    by (simp_all add: path_join_def)
  have st: "plan_staging pl = ASC_ROOT @ ''/.staging''" using assms(1) by (simp add: plan_staging_def)
  have "map_of (swapped pl v fs) ?p = map_of (pruned (ASC_ROOT @ ''/sites'') ?keep x) ?p"
    using assms(1) by (simp add: swapped_def Let_def st map_of_drop under_dir_def starts_with_iff system_site pruned_other j x_def g_def)
  also have "\<dots> = (if ?keep (?i @ ''.conf'') then map_of x ?p else None)"
    unfolding system_site by (rule pruned_own) (use assms(4) in \<open>simp_all add: ASC_ROOT_def\<close>)
  also have "?keep (?i @ ''.conf'') \<longleftrightarrow> ?i \<notin> vd_rejected v"
    using assms(3) by (auto simp: render_sites_def site_file_text)
  also have "map_of x ?p = (if ?i \<in> vd_kept v then map_of fs ?p else Some (new_text pl ASC_ROOT r))" if n: "?i \<notin> vd_rejected v"
  proof (cases "?i \<in> vd_kept v")
    case True
    have "?p \<notin> fst ` set (absolute ASC_ROOT (swap_list pl v ASC_ROOT))"
    proof
      assume "?p \<in> fst ` set (absolute ASC_ROOT (swap_list pl v ASC_ROOT))"
      then obtain t where "(?p, t) \<in> set (absolute ASC_ROOT (swap_list pl v ASC_ROOT))" by auto
      with True show False by (auto simp: site_path_def absolute_member swap_list_member simp del: system_dirs)
    qed
    moreover have "?p \<notin> fst ` set (map (\<lambda>f. (global_path pl ASC_ROOT (fst f), snd f)) (global_files pl ASC_ROOT))"
    proof
      assume "?p \<in> fst ` set (map (\<lambda>f. (global_path pl ASC_ROOT (fst f), snd f)) (global_files pl ASC_ROOT))"
      then obtain q c where q: "(q, c) \<in> set (global_files pl ASC_ROOT)" "?p = global_path pl ASC_ROOT q" by auto
      with global_names[OF q(1), of ?i] assms(1) show False
        by (auto simp: global_path_def main_conf_path_def SYSTEM_CONF_def site_path_def ASC_ROOT_def NGINX_CONF_def
            site_file_text path_join_def system_paths_def split: if_splits)
    qed
    ultimately show ?thesis using True by (simp add: x_def g_def put_all_other)
  next
    case False
    have "map_of x ?p = Some (new_text pl ASC_ROOT r)"
      unfolding x_def
    proof (rule put_all_unique)
      show "(?p, new_text pl ASC_ROOT r) \<in> set (absolute ASC_ROOT (swap_list pl v ASC_ROOT))"
        using assms(3) n False by (auto simp: site_path_def absolute_member swap_list_member simp del: system_dirs)
      show "t = new_text pl ASC_ROOT r" if "(?p, t) \<in> set (absolute ASC_ROOT (swap_list pl v ASC_ROOT))" for t
      proof -
        from that obtain q where "q \<in> set (pl_candidates pl)" "cand_id q = ?i" "t = new_text pl ASC_ROOT q"
          by (auto simp: site_path_def absolute_member swap_list_member simp del: system_dirs)
        with same_candidate[OF assms(2,3)] show ?thesis by metis
      qed
    qed
    with False show ?thesis by simp
  qed
  ultimately show ?thesis by simp
qed

lemma site_outside:
  "site_path ASC_ROOT i \<noteq> ASC_ROOT @ ''/.staging''" "\<not> under_dir (ASC_ROOT @ ''/.staging'') (site_path ASC_ROOT i)"
  "site_path ASC_ROOT i \<noteq> LOGROTATE"
  by (simp_all only: system_site) (simp_all add: under_dir_def starts_with_iff LOGROTATE_def ASC_ROOT_def)

text \<open>A world from which everything works, as far as the apply is concerned the same as another.\<close>

definition quiet_as :: "web_world \<Rightarrow> web_world \<Rightarrow> bool" where
  "quiet_as w u \<longleftrightarrow> wouts u = [] \<and> wstat u = wstat w \<and> wnow u = wnow w"

lemma ensure_binds_ok: "wouts w = [] \<Longrightarrow> \<exists>u. ensure_binds env ws w = (Inr (), u) \<and> quiet_as w u"
  by (simp add: ensure_binds_def create_container_def quiet_as_def seq_def bind_def effect_ok make_dir_def asks_def ret_def
      split: option.split)

lemma ensure_logrotate_ok: "wouts w = [] \<Longrightarrow> \<exists>u. ensure_logrotate env w = (Inr (), u) \<and> quiet_as w u"
  by (simp add: ensure_logrotate_def quiet_as_def bind_def asks_def ret_def do_if_def ignore_def write_ok)

lemma judge_ok:
  assumes "judges_files bad pl" "distinct_ids pl" "pl_stage pl \<noteq> WriteOnly" "wouts w = []"
  shows "\<exists>v u. judge pl w = (Inr v, u) \<and> settled bad pl v \<and> quiet_as w u"
proof -
  have "\<exists>u. do_if (ws_mode (pl_settings pl) = ModeDocker \<and> pl_stage pl \<noteq> WriteOnly) (ensure_binds (pl_env pl) (pl_settings pl)) w
      = (Inr (), u) \<and> quiet_as w u"
    using ensure_binds_ok[OF assms(4), of "pl_env pl" "pl_settings pl"] assms(4) by (simp add: do_if_def ret_def quiet_as_def)
  then obtain w1 where w1: "do_if (ws_mode (pl_settings pl) = ModeDocker \<and> pl_stage pl \<noteq> WriteOnly) (ensure_binds (pl_env pl) (pl_settings pl)) w
      = (Inr (), w1)" "quiet_as w w1" by blast
  then have "wouts w1 = []" by (simp add: quiet_as_def)
  from ensure_logrotate_ok[OF this, of "pl_env pl"]
  obtain w2 where w2: "ensure_logrotate (pl_env pl) w1 = (Inr (), w2)" "quiet_as w1 w2" by blast
  have f: "fair bad pl no_verdict" by (simp add: fair_def no_verdict_def)
  have "wouts w2 = []" using w2(2) by (simp add: quiet_as_def)
  from test_loop_settles[OF assms(1-3) f this] obtain v u where
    v: "test_loop pl no_verdict w2 = (Inr v, u)" "settled bad pl v" "quiet_as w2 u" by (auto simp: quiet_as_def)
  have "judge pl w = (Inr v, u)"
    unfolding judge_def
    by (rule seq_eq, rule make_dir_ok[OF assms(4)], rule seq_eq, rule w1(1), rule seq_eq, rule w2(1), rule v(1))
  with v w1 w2 show ?thesis by (auto simp: quiet_as_def)
qed

text \<open>\<open>isolated\<close>: nginx runs with the best text of the site, and its status says whether the new one is in force.\<close>

definition isolated :: "(string \<Rightarrow> bool) \<Rightarrow> apply_plan \<Rightarrow> resolved_site \<Rightarrow> web_world \<Rightarrow> bool" where
  "isolated bad pl r u \<longleftrightarrow> (\<exists>fs. loaded u = Some fs \<and> map_of fs (site_path ASC_ROOT (cand_id r)) = best_text bad pl ASC_ROOT r) \<and>
     ss_state (site_entry (sf_sites (wstat u)) (cand_id r)) = (if bad (new_text pl (plan_staging pl) r) then SiteError else SiteApplied)"

lemma make_plan_simps [simp]:
  "pl_env (make_plan env ws st ss w) = env" "pl_stage (make_plan env ws st ss w) = st" "pl_settings (make_plan env ws st ss w) = ws"
  "plan_staging (make_plan env ws st ss w) = staging (env_paths env)"
  by (simp_all add: make_plan_def Let_def plan_staging_def)

lemma make_plan_ids:
  "distinct (map sid ss) \<Longrightarrow> distinct_ids (make_plan env ws st ss w)"
  "set (plan_ids (make_plan env ws st ss w)) \<subseteq> sid ` set ss"
proof -
  have "set (order_sites ss) = set ss" by (auto simp: order_sites_def)
  then show "set (plan_ids (make_plan env ws st ss w)) \<subseteq> sid ` set ss"
    using claim_ids(1)[of env "wregistry w" "wfiles w" "wnow w" "order_sites ss"] by (auto simp: plan_ids_def make_plan_def Let_def)
  assume "distinct (map sid ss)"
  then have "distinct (map sid (order_sites ss))" by (auto simp: order_sites_def distinct_map inj_on_def)
  then show "distinct_ids (make_plan env ws st ss w)"
    using claim_ids(2)[of "order_sites ss"] by (simp add: distinct_ids_def plan_ids_def make_plan_def Let_def)
qed

lemma valid_id_slash: "validate_site_id i = Inr () \<Longrightarrow> CHR ''/'' \<notin> set i"
proof
  assume "validate_site_id i = Inr ()" "CHR ''/'' \<in> set i"
  then have "lower_alnum CHR ''/'' \<or> CHR ''/'' \<in> set ''-_.''"
    unfolding validate_site_id_def guard_Inr_iff list_all_iff by blast
  then show False by (simp add: lower_alnum_def is_lower_def is_digit_def)
qed

lemma apply_isolates:
  assumes "env_paths env = system_paths" "ws_mode ws \<noteq> ModeNone" "wouts w = []" "distinct (map sid ss)"
    and "\<And>s. s \<in> set ss \<Longrightarrow> validate_site_id (sid s) = Inr ()"
    and "judges_files bad (make_plan env ws Full ss w)" "r \<in> set (pl_candidates (make_plan env ws Full ss w))"
  shows "\<exists>out u. apply_locked env ws ss Full w = (Inr out, u) \<and> isolated bad (make_plan env ws Full ss w) r u"
proof -
  let ?pl = "make_plan env ws Full ss w"
  obtain w1 where w1: "claim_all env ss w = (Inr (), w1)" "wouts w1 = []" "wfiles w1 = wfiles w"
    using assms(3) by (simp add: claim_all_def modify_def)
  note d = make_plan_ids(1)[OF assms(4), of env ws Full w]
  obtain v u where v: "judge ?pl w1 = (Inr v, u)" "settled bad ?pl v" "quiet_as w1 u"
    using judge_ok[OF assms(6) d _ w1(2)] by auto
  have "cand_id r \<in> sid ` set ss" using make_plan_ids(2)[of env ws Full ss w] assms(7) by (auto simp: plan_ids_def)
  then have slash: "CHR ''/'' \<notin> set (cand_id r)"
    using assms(5) valid_id_slash by auto
  have "outside (ASC_ROOT @ ''/.staging'') (wfiles u) = outside (ASC_ROOT @ ''/.staging'') (wfiles w)"
    using judge_spares[of ?pl w1] v(1) by (simp add: spared_def w1(3) assms(1))
  then have "map_of (wfiles u) (site_path ASC_ROOT (cand_id r)) = map_of (wfiles w) (site_path ASC_ROOT (cand_id r))"
    by (rule outside_map[OF _ site_outside])
  also have "\<dots> = map_of (pl_live ?pl) (cand_id r)"
    using live_text[of r "pl_candidates ?pl" "env_paths env" "wfiles w"] assms(1,7) by (simp add: make_plan_def Let_def)
  finally have live: "map_of (wfiles u) (site_path ASC_ROOT (cand_id r)) = map_of (pl_live ?pl) (cand_id r)" .
  have s: "swap_live ?pl v u = (Inr (vd_output v), u\<lparr>wfiles := swapped ?pl v (wfiles u), loaded := Some (swapped ?pl v (wfiles u)),
     wstat := \<lparr>sf_last_error = [], sf_last_applied = wnow u,
       sf_sites = site_results v (wnow u) (pl_candidates ?pl) (sf_sites (wstat u))\<rparr>\<rparr>)" (is "_ = (_, ?u)")
    by (rule swap_live_ok) (use v(3) in \<open>simp_all add: quiet_as_def\<close>)
  have "apply_locked env ws ss Full w = swap_live ?pl v u"
    using assms(2) w1(1) v(1) by (simp add: apply_locked_def io_simps) (simp add: seq_def bind_def)
  moreover have "isolated bad ?pl r ?u"
    unfolding isolated_def using swapped_site[of ?pl r v "wfiles u"] assms(1,7) d slash live settled_text(1)[OF v(2) assms(7), of ASC_ROOT] settled_text(2)[OF v(2) assms(7)]
      site_results_state[of "cand_id r" "pl_candidates ?pl" v "wnow u" "sf_sites (wstat u)"]
    by simp
  ultimately show ?thesis using s by metis
qed

section \<open>How often nginx is asked\<close>

lemma frames_files:
  assumes "\<And>w fs. g (w\<lparr>wfiles := fs\<rparr>) = g w" "\<And>w os. g (w\<lparr>wouts := os\<rparr>) = g w"
  shows "frames g (write_text p c)" "frames g (delete_path p)" "frames g (make_dir p)"
  using assms by (auto simp: write_text_def delete_path_def make_dir_def intro!: frames_outcome)

lemma frames_tree:
  assumes "\<And>w fs. g (w\<lparr>wfiles := fs\<rparr>) = g w" "\<And>w os. g (w\<lparr>wouts := os\<rparr>) = g w"
  shows "frames g (write_tree pl b rej kept)"
  unfolding write_tree_def stage_site_def write_below_def by (intro frame_rules frames_files assms)

definition asked :: "'a wio \<Rightarrow> nat \<Rightarrow> bool" where
  "asked m n = (\<forall>w. tests_run (snd (m w)) \<le> tests_run w + n)"

lemma asked_frames: "frames tests_run m \<Longrightarrow> asked m 0"
  by (simp add: asked_def frames_def)

lemma asked_bind: "asked m a \<Longrightarrow> (\<And>x. asked (f x) b) \<Longrightarrow> asked (bind m f) (a + b)"
  unfolding asked_def
proof
  fix w assume m: "\<forall>w. tests_run (snd (m w)) \<le> tests_run w + a" and f: "\<And>x. \<forall>w. tests_run (snd (f x w)) \<le> tests_run w + b"
  obtain r w1 where r: "m w = (r, w1)" by (cases "m w")
  with m have w1: "tests_run w1 \<le> tests_run w + a" by (metis snd_conv)
  show "tests_run (snd (bind m f w)) \<le> tests_run w + (a + b)"
  proof (cases r)
    case (Inr x)
    have "tests_run (snd (f x w1)) \<le> tests_run w1 + b" using f by blast
    with r Inr w1 show ?thesis by (simp add: bind_def)
  qed (use r w1 in \<open>simp add: bind_def\<close>)
qed

lemma asked_seq: "asked m a \<Longrightarrow> asked k b \<Longrightarrow> asked (seq m k) (a + b)"
  unfolding seq_def by (rule asked_bind)

lemma asked_run_test: "asked (run_test env c) 1"
  by (auto simp: asked_def run_test_def effect_def step_io_def seq_def bind_def asks_def Let_def split: prod.split)

lemma asked_attempt: "asked (test_attempt pl v) 1"
proof -
  have t: "frames tests_run (write_tree pl b rej kept)" for b rej kept by (rule frames_tree) simp_all
  have "asked (if c then ret (Inr []) else run_test (pl_env pl) conf) 1" for c conf
    using asked_run_test by (simp add: asked_def ret_def)
  from asked_seq[OF asked_frames[OF t] this] show ?thesis by (simp add: test_attempt_def)
qed

lemma frames_give_up_tests: "frames tests_run (give_up pl out)"
  unfolding give_up_def set_stat_def by (intro frame_rules frames_files frames_modify) simp_all

lemma asked_loop: "tests_run (snd (test_loop pl v w)) \<le> tests_run w + (work_left pl v + 1)"
proof (induction pl v w rule: test_loop.induct)
  case (1 pl v w)
  obtain r w1 where r: "test_attempt pl v w = (r, w1)" by (cases "test_attempt pl v w")
  with asked_attempt have w1: "tests_run w1 \<le> Suc (tests_run w)" unfolding asked_def by (metis Suc_eq_plus1 snd_conv)
  show ?case
  proof (cases r)
    case (Inl e)
    with r w1 show ?thesis by (simp add: test_loop.simps)
  next
    case (Inr x)
    show ?thesis
    proof (cases x)
      case (Inl out)
      show ?thesis
      proof (cases "blamed_site out (plan_staging pl) (pending_ids pl v)")
        case None
        with r Inr Inl w1 show ?thesis
          by (subst test_loop.simps) (simp add: framesD[OF frames_give_up_tests])
      next
        case (Some i)
        then have "i \<in> set (pending_ids pl (v\<lparr>vd_output := out\<rparr>))" by (auto simp: blamed_site_def pending_ids_def dest: find_in)
        from set_aside_less[OF this] have "work_left pl (set_aside pl i (v\<lparr>vd_output := out\<rparr>)) < work_left pl v"
          by (simp add: work_left_output)
        moreover have "tests_run (snd (test_loop pl (set_aside pl i (v\<lparr>vd_output := out\<rparr>)) w1))
          \<le> tests_run w1 + (work_left pl (set_aside pl i (v\<lparr>vd_output := out\<rparr>)) + 1)"
          by (rule 1(1)[OF r[unfolded Inr Inl, symmetric] refl refl Some])
        moreover have "test_loop pl v w = test_loop pl (set_aside pl i (v\<lparr>vd_output := out\<rparr>)) w1"
          by (subst test_loop.simps) (simp only: r Inr Inl Some prod.case sum.case option.case)
        ultimately show ?thesis using w1 by simp
      qed
    next
      case (Inr out)
      with r \<open>r = Inr x\<close> w1 show ?thesis by (simp add: test_loop.simps)
    qed
  qed
qed

lemma work_left_start: "work_left pl no_verdict = 2 * length (pl_candidates pl)"
  by (simp add: work_left_def no_verdict_def sum_list_triv) (simp add: plan_ids_def)

lemma frames_binds_tests: "frames tests_run (ensure_binds env ws)" "frames tests_run (ensure_logrotate env)"
  unfolding ensure_binds_def create_container_def ensure_logrotate_def
  by (intro frame_rules frames_files frames_outcome; simp)+

lemma asked_judge: "asked (judge pl) (2 * length (pl_candidates pl) + 1)"
proof -
  have "asked (test_loop pl no_verdict) (2 * length (pl_candidates pl) + 1)"
    using asked_loop[of pl no_verdict] by (simp add: asked_def work_left_start)
  from asked_seq[OF asked_frames[OF frames_binds_tests(2)] this]
  have l: "asked (seq (ensure_logrotate (pl_env pl)) (test_loop pl no_verdict)) (2 * length (pl_candidates pl) + 1)" by simp
  have "frames tests_run (do_if c (ensure_binds (pl_env pl) (pl_settings pl)))" for c
    by (intro frame_rules frames_binds_tests)
  from asked_seq[OF asked_frames[OF this] l]
  have "asked (seq (do_if c (ensure_binds (pl_env pl) (pl_settings pl))) (seq (ensure_logrotate (pl_env pl)) (test_loop pl no_verdict)))
    (2 * length (pl_candidates pl) + 1)" for c by simp
  from asked_seq[OF asked_frames[OF frames_files(3)] this] show ?thesis unfolding judge_def by simp
qed

lemma frames_swap_tests: "frames tests_run (swap_live pl v)"
  unfolding swap_live_def Let_def write_global_def swap_site_def write_below_def prune_dir_def reload_engine_def set_stat_def
  by (intro frame_rules frames_files frames_modify frames_outcome; simp)

lemma claim_length: "length (fst (claim_sites env reg fs now ss cl st)) \<le> length ss"
proof (induction ss arbitrary: cl st)
  case (Cons s ss)
  then show ?case by (auto simp: Let_def split_beta le_SucI split: option.split sum.split)
qed simp

lemma apply_asks: "tests_run (snd (apply_locked env ws ss st w)) \<le> tests_run w + (2 * length ss + 1)"
proof -
  let ?pl = "make_plan env ws st ss w"
  have "length (pl_candidates ?pl) \<le> length ss"
    using claim_length[of env "wregistry w" "wfiles w" "wnow w" "order_sites ss"] by (simp add: make_plan_def Let_def order_sites_def sum_length_filter_compl)
  moreover have c: "frames tests_run (claim_all env ss)" by (auto simp: claim_all_def intro: frames_modify)
  have "frames tests_run (seq (ignore (delete_path d)) (ret x) :: string wio)" for d x by (intro frame_rules frames_files) simp_all
  then have "asked (if st = TestOnly then seq (ignore (delete_path (plan_staging ?pl))) (ret (vd_output v)) else swap_live ?pl v) 0" for v
    by (cases "st = TestOnly") (simp_all add: asked_frames frames_swap_tests)
  from asked_seq[OF asked_frames[OF c] asked_bind[OF asked_judge[of ?pl] this]]
  have "tests_run (snd (seq (claim_all env ss) (bind (judge ?pl) (\<lambda>v. if st = TestOnly then seq (ignore (delete_path (plan_staging ?pl))) (ret (vd_output v))
     else swap_live ?pl v)) w)) \<le> tests_run w + (2 * length (pl_candidates ?pl) + 1)" by (simp add: asked_def)
  ultimately show ?thesis by (simp add: apply_locked_def io_simps)
qed

end
