(* ===== verification/WebConf.thy ===== *)
theory WebConf
  imports WebRender
begin

text \<open>
  What nginx reads in a configuration file: words, semicolons and braces, with comments, quotes,
  escapes and variables, and the tree of directives. The file of a site reads as the tree of
  directives that its fields name, so no field can add, end or change a directive.
\<close>

section \<open>The words of a configuration file\<close>

datatype token = Word string | Semi | Open | Close

datatype lex_state = Gap | Comment | InWord string | Dollar string | Escape string | Quote char string
  | QuoteEscape char string | NeedSpace

definition conf_white :: "char \<Rightarrow> bool" where
  "conf_white c = (c \<in> set [CHR '' '', CHR 0x09, CHR 0x0A, CHR 0x0D])"

definition is_quote :: "char \<Rightarrow> bool" where
  "is_quote c = (c \<in> set (DQUOTE @ SQUOTE))"

definition lex_gap :: "char \<Rightarrow> token list \<times> lex_state" where
  "lex_gap c = (if conf_white c then ([], Gap) else if c = CHR '';'' then ([Semi], Gap)
     else if c = CHR ''{'' then ([Open], Gap) else if c = CHR ''}'' then ([Close], Gap)
     else if c = CHR ''#'' then ([], Comment) else if is_quote c then ([], Quote c [])
     else if c = CHR 0x5C then ([], Escape [c]) else if c = CHR ''$'' then ([], Dollar [c]) else ([], InWord [c]))"

definition lex_in_word :: "string \<Rightarrow> char \<Rightarrow> token list \<times> lex_state" where
  "lex_in_word w c = (if conf_white c then ([Word w], Gap) else if c = CHR '';'' then ([Word w, Semi], Gap)
     else if c = CHR ''{'' then ([Word w, Open], Gap) else if c = CHR 0x5C then ([], Escape (w @ [c]))
     else if c = CHR ''$'' then ([], Dollar (w @ [c])) else ([], InWord (w @ [c])))"

fun lex_char :: "lex_state \<Rightarrow> char \<Rightarrow> (token list \<times> lex_state) option" where
  "lex_char Gap c = Some (lex_gap c)"
| "lex_char Comment c = Some ([], if c = CHR 0x0A then Gap else Comment)"
| "lex_char (InWord w) c = Some (lex_in_word w c)"
| "lex_char (Dollar w) c = Some (if c = CHR ''{'' then ([], InWord (w @ [c])) else lex_in_word w c)"
| "lex_char (Escape w) c = Some ([], InWord (w @ [c]))"
| "lex_char (Quote q w) c = Some (if c = q then ([Word w], NeedSpace) else if c = CHR 0x5C then ([], QuoteEscape q (w @ [c]))
     else ([], Quote q (w @ [c])))"
| "lex_char (QuoteEscape q w) c = Some ([], Quote q (w @ [c]))"
| "lex_char NeedSpace c = (if conf_white c then Some ([], Gap) else if c = CHR '';'' then Some ([Semi], Gap)
     else if c = CHR ''{'' then Some ([Open], Gap) else if c = CHR '')'' then Some ([], InWord [c]) else None)"

fun lex_run :: "lex_state \<Rightarrow> string \<Rightarrow> (token list \<times> lex_state) option" where
  "lex_run st [] = Some ([], st)"
| "lex_run st (c # cs) = (case lex_char st c of None \<Rightarrow> None
     | Some (ts, st1) \<Rightarrow> (case lex_run st1 cs of None \<Rightarrow> None | Some (us, st2) \<Rightarrow> Some (ts @ us, st2)))"

definition conf_tokens :: "string \<Rightarrow> token list option" where
  "conf_tokens text = (case lex_run Gap text of Some (ts, Gap) \<Rightarrow> Some ts | Some (ts, Comment) \<Rightarrow> Some ts | _ \<Rightarrow> None)"

datatype directive = Simple "string list" | Block "string list" "directive list"

fun flatten :: "directive \<Rightarrow> token list" where
  "flatten (Simple ws) = map Word ws @ [Semi]"
| "flatten (Block ws ds) = map Word ws @ [Open] @ concat (map flatten ds) @ [Close]"

section \<open>Reading a file line by line\<close>

lemma lex_run_append:
  "lex_run st (a @ b) = (case lex_run st a of None \<Rightarrow> None
     | Some (ts, st1) \<Rightarrow> (case lex_run st1 b of None \<Rightarrow> None | Some (us, st2) \<Rightarrow> Some (ts @ us, st2)))"
  by (induction st a rule: lex_run.induct) (auto split: option.splits prod.splits)

text \<open>A line read from a gap to a gap.\<close>

definition reads :: "string \<Rightarrow> token list \<Rightarrow> bool" where
  "reads l ts = (lex_run Gap (l @ LF) = Some (ts, Gap))"

definition file_reads :: "string list \<Rightarrow> directive list \<Rightarrow> bool" where
  "file_reads ls ds = (lex_run Gap (unlines ls) = Some (concat (map flatten ds), Gap))"

lemma file_reads_tokens: "file_reads ls ds \<Longrightarrow> conf_tokens (unlines ls) = Some (concat (map flatten ds))"
  by (simp add: file_reads_def conf_tokens_def)

lemma file_reads_Nil: "file_reads [] []"
  by (simp add: file_reads_def unlines_def)

lemma file_reads_append: "file_reads a x \<Longrightarrow> file_reads b y \<Longrightarrow> file_reads (a @ b) (x @ y)"
  by (simp add: file_reads_def unlines_def lex_run_append)

lemma file_reads_line: "reads l (flatten d) \<Longrightarrow> file_reads [l] [d]"
  by (simp add: file_reads_def reads_def unlines_def)

lemma file_reads_none: "reads l [] \<Longrightarrow> file_reads [l] []"
  by (simp add: file_reads_def reads_def unlines_def)

lemma file_reads_Cons: "reads l (flatten d) \<Longrightarrow> file_reads ls ds \<Longrightarrow> file_reads (l # ls) (d # ds)"
  using file_reads_append[OF file_reads_line] by fastforce

lemma file_reads_skip: "reads l [] \<Longrightarrow> file_reads ls ds \<Longrightarrow> file_reads (l # ls) ds"
  using file_reads_append[OF file_reads_none] by fastforce

lemma file_reads_if: "(b \<Longrightarrow> file_reads ls ds) \<Longrightarrow> (\<not> b \<Longrightarrow> file_reads ms es) \<Longrightarrow>
    file_reads (if b then ls else ms) (if b then ds else es)"
  by simp

lemma file_reads_map: "(\<And>x. x \<in> set xs \<Longrightarrow> reads (f x) (flatten (g x))) \<Longrightarrow> file_reads (map f xs) (map g xs)"
  by (induction xs) (auto intro: file_reads_Nil file_reads_Cons)

lemma file_reads_block:
  assumes "reads l (map Word ws @ [Open])" "file_reads ls ds" "reads m [Close]"
  shows "file_reads (l # ls @ [m]) [Block ws ds]"
proof -
  have u: "unlines (l # ls @ [m]) = (l @ LF) @ unlines ls @ (m @ LF)" by (simp add: unlines_def)
  show ?thesis
    using assms unfolding file_reads_def reads_def u lex_run_append[of _ "l @ LF"] lex_run_append[of _ "unlines ls"]
    by simp
qed

section \<open>Words and quoted values\<close>

definition plain_char :: "char \<Rightarrow> bool" where
  "plain_char c = (\<not> conf_white c \<and> c \<notin> set ('';{}'' @ [CHR 0x5C] @ DQUOTE @ SQUOTE))"

definition plain_word :: "string \<Rightarrow> bool" where
  "plain_word w = (w \<noteq> [] \<and> list_all plain_char w \<and> hd w \<noteq> CHR ''#'')"

lemma lex_word_tail:
  assumes "list_all plain_char w" "st = InWord v \<or> st = Dollar v" "c = CHR '' '' \<or> c = CHR '';''"
  shows "lex_run st (w @ c # rest) = lex_run (InWord (v @ w)) (c # rest)"
  using assms(1,2)
proof (induction w arbitrary: st v)
  case Nil
  with assms(3) show ?case by (auto simp: conf_white_def)
next
  case (Cons d w)
  then have d: "plain_char d" "list_all plain_char w" by auto
  from d(1) have step: "lex_in_word v d = ([], InWord (v @ [d])) \<or> lex_in_word v d = ([], Dollar (v @ [d]))" "d \<noteq> CHR ''{''"
    by (auto simp: plain_char_def lex_in_word_def)
  show ?case
    using Cons.IH[OF d(2), of _ "v @ [d]"] Cons.prems(2) step by (auto split: option.splits)
qed

lemma lex_word:
  assumes "plain_word w" "c = CHR '' '' \<or> c = CHR '';''"
  shows "lex_run Gap (w @ c # rest) = lex_run (InWord w) (c # rest)"
proof -
  from assms(1) obtain d v where w: "w = d # v" "plain_char d" "list_all plain_char v" "d \<noteq> CHR ''#''"
    by (cases w) (auto simp: plain_word_def)
  then have "lex_gap d = ([], InWord [d]) \<or> lex_gap d = ([], Dollar [d])"
    by (auto simp: plain_char_def lex_gap_def is_quote_def)
  with w lex_word_tail[OF w(3) _ assms(2), of _ "[d]"] show ?thesis by (auto split: option.splits)
qed

lemma lex_words:
  "list_all plain_word ws \<Longrightarrow> ws \<noteq> [] \<Longrightarrow> lex_run Gap (join '' '' ws @ '';'' @ LF) = Some (map Word ws @ [Semi], Gap)"
proof (induction ws rule: induct_list012)
  case (2 w)
  then have "lex_run Gap (w @ CHR '';'' # LF) = lex_run (InWord w) (CHR '';'' # LF)" by (intro lex_word) auto
  then show ?case by (simp add: lex_in_word_def conf_white_def LF_def lex_gap_def)
next
  case (3 w v ws)
  then have "lex_run Gap (w @ CHR '' '' # join '' '' (v # ws) @ '';'' @ LF) = lex_run (InWord w) (CHR '' '' # join '' '' (v # ws) @ '';'' @ LF)"
    by (intro lex_word) auto
  with 3 show ?case by (simp add: lex_in_word_def conf_white_def)
qed simp

text \<open>A line of words, indented by blanks.\<close>

lemma lex_blanks: "list_all (\<lambda>c. c = CHR '' '') ind \<Longrightarrow> lex_run Gap (ind @ cs) = lex_run Gap cs"
  by (induction ind) (auto simp: lex_gap_def conf_white_def split: option.splits prod.splits)

definition blanks :: "string \<Rightarrow> bool" where
  "blanks ind = list_all (\<lambda>c. c = CHR '' '') ind"

lemma reads_words:
  assumes "l = ind @ join '' '' ws @ '';''" "blanks ind" "list_all plain_word ws" "ws \<noteq> []"
  shows "reads l (flatten (Simple ws))"
  using lex_words[OF assms(3,4)] assms(1,2) by (simp add: reads_def lex_blanks blanks_def)

lemma lex_quoted:
  "list_all (\<lambda>c. c \<noteq> CHR 0x22 \<and> c \<noteq> CHR 0x5C) v \<Longrightarrow>
   lex_run (Quote (CHR 0x22) w) (v @ DQUOTE @ rest) = (case lex_run NeedSpace rest of None \<Rightarrow> None
     | Some (ts, st) \<Rightarrow> Some (Word (w @ v) # ts, st))"
  by (induction v arbitrary: w) (auto simp: DQUOTE_def split: option.splits prod.splits)

lemma lex_words_gap:
  "list_all plain_word ws \<Longrightarrow> ws \<noteq> [] \<Longrightarrow> lex_run Gap (join '' '' ws @ '' '' @ rest) = (case lex_run Gap rest of None \<Rightarrow> None
     | Some (ts, st) \<Rightarrow> Some (map Word ws @ ts, st))"
proof (induction ws rule: induct_list012)
  case (2 w)
  then have "lex_run Gap (w @ CHR '' '' # rest) = lex_run (InWord w) (CHR '' '' # rest)" by (intro lex_word) auto
  then show ?case by (simp add: lex_in_word_def conf_white_def split: option.splits)
next
  case (3 w v ws)
  then have "lex_run Gap (w @ CHR '' '' # join '' '' (v # ws) @ '' '' @ rest) = lex_run (InWord w) (CHR '' '' # join '' '' (v # ws) @ '' '' @ rest)"
    by (intro lex_word) auto
  with 3 show ?case by (simp add: lex_in_word_def conf_white_def split: option.splits prod.splits)
qed simp

text \<open>Words, a quoted value, and the rest of the line.\<close>

lemma reads_quoted:
  assumes "l = ind @ join '' '' ws @ '' '' @ quoted v @ rest" "blanks ind" "list_all plain_word ws" "ws \<noteq> []"
    and "list_all (\<lambda>c. c \<noteq> CHR 0x22 \<and> c \<noteq> CHR 0x5C) v" "lex_run NeedSpace (rest @ LF) = Some (ts, Gap)"
  shows "reads l (map Word ws @ Word v # ts)"
proof -
  have "lex_run Gap (DQUOTE @ v @ DQUOTE @ rest @ LF) = lex_run (Quote (CHR 0x22) []) (v @ DQUOTE @ rest @ LF)"
    by (simp add: DQUOTE_def lex_gap_def conf_white_def is_quote_def split: option.splits)
  also have "\<dots> = Some (Word v # ts, Gap)"
    using assms(6) by (simp add: lex_quoted[OF assms(5)])
  finally show ?thesis
    using lex_words_gap[OF assms(3,4), of "quoted v @ rest @ LF"] assms(1,2) by (simp add: reads_def lex_blanks blanks_def)
qed

lemma reads_blank: "reads [] []"
  by (simp add: reads_def LF_def lex_gap_def conf_white_def)

lemma lex_comment: "CHR 0x0A \<notin> set c \<Longrightarrow> lex_run Comment (c @ LF) = Some ([], Gap)"
  by (induction c) (auto simp: LF_def)

lemma reads_comment: "CHR 0x0A \<notin> set c \<Longrightarrow> reads (CHR ''#'' # c) []"
  using lex_comment by (simp add: reads_def lex_gap_def conf_white_def)

end
