(* ===== verification/WebTree.thy ===== *)
theory WebTree
  imports WebConf
begin

text \<open>
  The directives a site asks for, from its fields, and the proof that the rendered file reads as
  exactly these.
\<close>

section \<open>The directives of a site\<close>

definition include_tree :: "string \<Rightarrow> string \<Rightarrow> directive" where
  "include_tree base f = Simple [''include'', path_join base f]"

definition server_words :: "balance \<Rightarrow> upstream_server \<Rightarrow> string \<Rightarrow> bool \<Rightarrow> string list" where
  "server_words b s address out = [''server'', address]
     @ (if 1 < weight s then [''weight='' @ show_nat (weight s)] else [])
     @ (if 0 < max_fails s then [''max_fails='' @ show_nat (max_fails s)] else [])
     @ (if 0 < fail_timeout_secs s then [''fail_timeout='' @ show_nat (fail_timeout_secs s) @ ''s''] else [])
     @ (if backup s \<and> b \<in> {RoundRobin, LeastConn} then [''backup''] else [])
     @ (if us_down s \<or> out then [''down''] else [])"

definition upstream_tree :: "resolved_site \<Rightarrow> directive list" where
  "upstream_tree r = (let s = rs_site r; u = upstream s in
     [Block [''upstream'', upstream_name (sid s)]
      ((case balance u of RoundRobin \<Rightarrow> [] | LeastConn \<Rightarrow> [Simple [''least_conn'']] | IpHash \<Rightarrow> [Simple [''ip_hash'']]
         | HashKey \<Rightarrow> [Simple [''hash'', trim (hash_key u), ''consistent'']])
       @ map (\<lambda>(k, v, a). Simple (server_words (balance u) v a (down_at (rs_down r) k))) (enumerate 0 (zip (servers u) (rs_addresses r)))
       @ (if 0 < keepalive u \<and> \<not> is_api_site s then [Simple [''keepalive'', show_nat (keepalive u)]] else []))])"

definition log_tree :: "site \<Rightarrow> string \<Rightarrow> directive list" where
  "log_tree s dir =
     [Simple (if log_access (logs s) then [''access_log'', site_log_file dir (sid s) AccessLog, ''asc''] else [''access_log'', ''off'']),
      Simple (if log_error (logs s) then [''error_log'', site_log_file dir (sid s) ErrorLog, ''warn''] else [''error_log'', ''/dev/null'', ''crit''])]"

definition location_tree :: "site \<Rightarrow> web_settings \<Rightarrow> bool \<Rightarrow> string \<Rightarrow> directive list" where
  "location_tree s ws https base = (let p = proxy s in
     [Simple [''proxy_pass'', scheme_of s @ ''://'' @ upstream_name (sid s)], include_tree base PROXY_SNIPPET,
      Simple (if upstream_host p then [''proxy_set_header'', ''Host'', ''$proxy_host''] else [''proxy_set_header'', ''Host'', ''$host''])]
     @ (if up_tls (upstream s) then [Simple [''proxy_ssl_server_name'', ''on'']] else [])
     @ (if websocket p then [Simple [''proxy_set_header'', ''Upgrade'', ''$http_upgrade''], Simple [''proxy_set_header'', ''Connection'', ''$connection_upgrade'']]
        else [Simple [''proxy_set_header'', ''Connection'', []]])
     @ concat (map (\<lambda>(d, v). if 0 < v then [Simple [d, show_nat v @ ''s'']] else [])
         [(''proxy_connect_timeout'', connect_timeout p), (''proxy_read_timeout'', read_timeout p), (''proxy_send_timeout'', send_timeout p)])
     @ (if no_buffering p then [Simple [''proxy_buffering'', ''off''], Simple [''proxy_request_buffering'', ''off'']] else [])
     @ (if ep_enabled (error_pages ws) \<and> intercept_upstream (error_pages ws) then [Simple [''proxy_intercept_errors'', ''on'']] else [])
     @ map (\<lambda>h. Simple [''proxy_set_header'', hname h, hvalue h]) (request_headers p)
     @ (if https \<and> (tls_hsts (tls s) \<or> ws_hsts ws)
        then [Simple [''add_header'', ''Strict-Transport-Security'', ''max-age=63072000'', ''always'']] else [])
     @ map (\<lambda>h. Simple [''add_header'', hname h, hvalue h, ''always'']) (response_headers p))"

definition proxy_tree :: "site \<Rightarrow> web_settings \<Rightarrow> bool \<Rightarrow> string \<Rightarrow> directive list" where
  "proxy_tree s ws https base =
     (if ep_enabled (error_pages ws) then [include_tree base ERRORS_SNIPPET] else [])
     @ (if real_ip s = RealIpCloudflare \<and> \<not> cloudflare_real_ip ws then [include_tree base CLOUDFLARE] else [])
     @ (if max_body (proxy s) \<noteq> [] then [Simple [''client_max_body_size'', trim (max_body (proxy s))]] else [])
     @ [Block [''location'', ''/''] (location_tree s ws https base)]"

definition api_tree :: "site \<Rightarrow> string \<Rightarrow> directive list" where
  "api_tree s base = (let up = upstream_name (sid s); set = (\<lambda>n v. Simple [''proxy_set_header'', n, v]) in
     [Simple [''client_max_body_size'', ''0''],
      Block [''location'', ''/'']
       [Simple [''error_page'', ''418'', ''='', ''@asc_grpc''],
        Block [''if'', ''($content_type'', ''~*'', ''^application/grpc'', '')''] [Simple [''return'', ''418'']],
        Simple [''proxy_pass'', scheme_of s @ ''://'' @ up], include_tree base PROXY_SNIPPET,
        set ''Host'' ''$host'', set ''Upgrade'' ''$http_upgrade'', set ''Connection'' ''$connection_upgrade'',
        Simple [''proxy_read_timeout'', ''3600s''], Simple [''proxy_send_timeout'', ''3600s''],
        Simple [''proxy_buffering'', ''off''], Simple [''proxy_request_buffering'', ''off'']],
      Block [''location'', ''@asc_grpc'']
       ([Simple [''grpc_pass'', (if up_tls (upstream s) then ''grpcs'' else ''grpc'') @ ''://'' @ up],
         Simple [''grpc_set_header'', ''X-Real-IP'', ''$remote_addr'']]
        @ (if up_tls (upstream s) then [Simple [''grpc_ssl_verify'', ''off'']] else [])
        @ [Simple [''grpc_read_timeout'', ''3600s''], Simple [''grpc_send_timeout'', ''3600s'']])])"

definition http_tree :: "resolved_site \<Rightarrow> web_settings \<Rightarrow> features \<Rightarrow> string \<Rightarrow> string \<Rightarrow> directive list" where
  "http_tree r ws f base dir = (let s = rs_site r in
     [Block [''server'']
      ([Simple [''listen'', ''80'']] @ (if ipv6 f then [Simple [''listen'', ''[::]:80'']] else [])
       @ [Simple (''server_name'' # server_names s), include_tree base ACME_SNIPPET] @ log_tree s dir
       @ (if is_api_site s \<or> rs_cert r \<noteq> None \<and> redirect_http (tls s)
          then [Block [''location'', ''/''] [Simple [''return'', ''301'', ''https://$host$request_uri'']]]
          else proxy_tree s ws False base))])"

definition https_tree :: "resolved_site \<Rightarrow> web_settings \<Rightarrow> features \<Rightarrow> string \<Rightarrow> string \<Rightarrow> string \<times> string \<Rightarrow> directive list" where
  "https_tree r ws f base dir ck =
     (let s = rs_site r; http2 = is_api_site s \<or> tls_http2 (tls s) \<and> ws_http2 ws;
          h2 = (if http2 \<and> \<not> http2_directive f then [''http2''] else []) in
     [Block [''server'']
      ([Simple ([''listen'', ''443'', ''ssl''] @ h2)] @ (if ipv6 f then [Simple ([''listen'', ''[::]:443'', ''ssl''] @ h2)] else [])
       @ (if http2 \<and> http2_directive f then [Simple [''http2'', ''on'']] else [])
       @ [Simple (''server_name'' # server_names s), Simple [''ssl_certificate'', fst ck], Simple [''ssl_certificate_key'', snd ck]]
       @ log_tree s dir @ (if is_api_site s then api_tree s base else proxy_tree s ws True base))])"

definition site_tree :: "resolved_site \<Rightarrow> web_settings \<Rightarrow> features \<Rightarrow> string \<Rightarrow> string \<Rightarrow> directive list" where
  "site_tree r ws f base dir = upstream_tree r @ http_tree r ws f base dir
     @ (case rs_cert r of Some ck \<Rightarrow> https_tree r ws f base dir ck | None \<Rightarrow> [])"

section \<open>What makes the fields safe\<close>

definition quotable :: "string \<Rightarrow> bool" where
  "quotable v = list_all (\<lambda>c. c \<noteq> CHR 0x22 \<and> c \<noteq> CHR 0x5C) v"

definition header_safe :: "header \<Rightarrow> bool" where
  "header_safe h = (plain_word (hname h) \<and> quotable (hvalue h))"

definition site_safe :: "site \<Rightarrow> bool" where
  "site_safe s = (list_all (\<lambda>c. lower_alnum c \<or> c \<in> set ''-_.'') (sid s) \<and> server_names s \<noteq> [] \<and> list_all plain_word (server_names s) \<and>
     (case owner s of None \<Rightarrow> True | Some m \<Rightarrow> CHR 0x0A \<notin> set m) \<and>
     (balance (upstream s) = HashKey \<longrightarrow> plain_word (trim (hash_key (upstream s)))) \<and>
     (max_body (proxy s) \<noteq> [] \<longrightarrow> plain_word (trim (max_body (proxy s)))) \<and>
     list_all header_safe (request_headers (proxy s)) \<and> list_all header_safe (response_headers (proxy s)))"

lemma plain_word_append: "plain_word a \<Longrightarrow> list_all plain_char b \<Longrightarrow> plain_word (a @ b)"
  by (simp add: plain_word_def)

lemma plain_chars: "plain_word w \<Longrightarrow> list_all plain_char w"
  by (simp add: plain_word_def)

lemma plain_join: "plain_word base \<Longrightarrow> list_all plain_char rel \<Longrightarrow> plain_word (path_join base rel)"
  by (auto simp: path_join_def plain_word_def plain_char_def conf_white_def DQUOTE_def SQUOTE_def)

lemma alnum_plain: "is_alnum c \<Longrightarrow> plain_char c"
  by (auto simp: is_alnum_def is_digit_def is_upper_def is_lower_def plain_char_def conf_white_def DQUOTE_def SQUOTE_def)

lemma alnums_plain: "list_all is_alnum w \<Longrightarrow> list_all plain_char w"
  by (auto simp: list_all_iff alnum_plain)

lemma digits_plain: "list_all plain_char (show_nat n)"
  by (auto simp: show_base_def list_all_iff intro!: alnum_plain digit_char_alnum dest!: show_digits_bound[rotated])


section \<open>The lines that do not depend on the site\<close>

named_theorems conf_lines

lemma open_lines [conf_lines]:
  "reads ''server {'' (map Word [''server''] @ [Open])"
  "reads ''    location / {'' (map Word [''location'', ''/''] @ [Open])"
  "reads ''    location @asc_grpc {'' (map Word [''location'', ''@asc_grpc''] @ [Open])"
  "reads (''        if ($content_type ~* '' @ quoted ''^application/grpc'' @ '') {'')
     (map Word [''if'', ''($content_type'', ''~*'', ''^application/grpc'', '')''] @ [Open])"
  "reads ''}'' [Close]" "reads ''    }'' [Close]" "reads ''        }'' [Close]"
  by code_simp+

lemma plain_lines [conf_lines]:
  "reads ''    least_conn;'' (flatten (Simple [''least_conn'']))"
  "reads ''    ip_hash;'' (flatten (Simple [''ip_hash'']))"
  "reads ''    access_log off;'' (flatten (Simple [''access_log'', ''off'']))"
  "reads ''    error_log /dev/null crit;'' (flatten (Simple [''error_log'', ''/dev/null'', ''crit'']))"
  "reads ''    listen 80;'' (flatten (Simple [''listen'', ''80'']))"
  "reads ''    listen [::]:80;'' (flatten (Simple [''listen'', ''[::]:80'']))"
  "reads (''    listen 443 ssl'' @ [] @ '';'') (flatten (Simple ([''listen'', ''443'', ''ssl''] @ [])))"
  "reads (''    listen 443 ssl'' @ '' http2'' @ '';'') (flatten (Simple ([''listen'', ''443'', ''ssl''] @ [''http2''])))"
  "reads (''    listen [::]:443 ssl'' @ [] @ '';'') (flatten (Simple ([''listen'', ''[::]:443'', ''ssl''] @ [])))"
  "reads (''    listen [::]:443 ssl'' @ '' http2'' @ '';'') (flatten (Simple ([''listen'', ''[::]:443'', ''ssl''] @ [''http2''])))"
  "reads ''    http2 on;'' (flatten (Simple [''http2'', ''on'']))"
  "reads ''        return 301 https://$host$request_uri;'' (flatten (Simple [''return'', ''301'', ''https://$host$request_uri'']))"
  by code_simp+

lemma proxy_lines [conf_lines]:
  "reads ''        proxy_set_header Host $proxy_host;'' (flatten (Simple [''proxy_set_header'', ''Host'', ''$proxy_host'']))"
  "reads ''        proxy_set_header Host $host;'' (flatten (Simple [''proxy_set_header'', ''Host'', ''$host'']))"
  "reads ''        proxy_ssl_server_name on;'' (flatten (Simple [''proxy_ssl_server_name'', ''on'']))"
  "reads ''        proxy_set_header Upgrade $http_upgrade;'' (flatten (Simple [''proxy_set_header'', ''Upgrade'', ''$http_upgrade'']))"
  "reads ''        proxy_set_header Connection $connection_upgrade;'' (flatten (Simple [''proxy_set_header'', ''Connection'', ''$connection_upgrade'']))"
  "reads (''        proxy_set_header Connection '' @ quoted [] @ '';'') (flatten (Simple [''proxy_set_header'', ''Connection'', []]))"
  "reads ''        proxy_buffering off;'' (flatten (Simple [''proxy_buffering'', ''off'']))"
  "reads ''        proxy_request_buffering off;'' (flatten (Simple [''proxy_request_buffering'', ''off'']))"
  "reads ''        proxy_intercept_errors on;'' (flatten (Simple [''proxy_intercept_errors'', ''on'']))"
  "reads (''        add_header Strict-Transport-Security '' @ quoted ''max-age=63072000'' @ '' always;'')
     (flatten (Simple [''add_header'', ''Strict-Transport-Security'', ''max-age=63072000'', ''always'']))"
  by code_simp+

lemma api_lines [conf_lines]:
  "reads ''    client_max_body_size 0;'' (flatten (Simple [''client_max_body_size'', ''0'']))"
  "reads ''        error_page 418 = @asc_grpc;'' (flatten (Simple [''error_page'', ''418'', ''='', ''@asc_grpc'']))"
  "reads ''            return 418;'' (flatten (Simple [''return'', ''418'']))"
  "reads ''        proxy_read_timeout 3600s;'' (flatten (Simple [''proxy_read_timeout'', ''3600s'']))"
  "reads ''        proxy_send_timeout 3600s;'' (flatten (Simple [''proxy_send_timeout'', ''3600s'']))"
  "reads ''        grpc_set_header X-Real-IP $remote_addr;'' (flatten (Simple [''grpc_set_header'', ''X-Real-IP'', ''$remote_addr'']))"
  "reads ''        grpc_ssl_verify off;'' (flatten (Simple [''grpc_ssl_verify'', ''off'']))"
  "reads ''        grpc_read_timeout 3600s;'' (flatten (Simple [''grpc_read_timeout'', ''3600s'']))"
  "reads ''        grpc_send_timeout 3600s;'' (flatten (Simple [''grpc_send_timeout'', ''3600s'']))"
  by code_simp+

lemmas file_rules = file_reads_Nil file_reads_Cons file_reads_append

section \<open>The lines with a value\<close>

lemmas plain_defs = plain_word_def plain_char_def conf_white_def DQUOTE_def SQUOTE_def

text \<open>The words of the lines are plain.\<close>

lemma plain_literals [simp]:
  "plain_word ''include''" "plain_word ''server''" "plain_word ''hash''" "plain_word ''consistent''" "plain_word ''keepalive''"
  "plain_word ''server_name''" "plain_word ''access_log''" "plain_word ''error_log''" "plain_word ''asc''" "plain_word ''warn''"
  "plain_word ''ssl_certificate''" "plain_word ''ssl_certificate_key''" "plain_word ''client_max_body_size''"
  "plain_word ''proxy_pass''" "plain_word ''grpc_pass''" "plain_word ''proxy_connect_timeout''" "plain_word ''proxy_read_timeout''"
  "plain_word ''proxy_send_timeout''" "plain_word ''proxy_set_header''" "plain_word ''add_header''" "plain_word ''backup''"
  "plain_word ''down''" "plain_word ''upstream''"
  by code_simp+

lemma blanks_simps [simp]: "blanks ''    ''" "blanks ''        ''" "blanks []"
  by (simp_all add: blanks_def)

lemma reads_include:
  assumes "plain_word (path_join base f)"
  shows "reads (''    include '' @ path_join base f @ '';'') (flatten (include_tree base f))"
    "reads (''        include '' @ path_join base f @ '';'') (flatten (include_tree base f))"
  unfolding include_tree_def
  by (rule reads_words[where ind = "''    ''"]; simp add: assms)
    (rule reads_words[where ind = "''        ''"]; simp add: assms)

lemma reads_logs:
  assumes "plain_word x"
  shows "reads (''    access_log '' @ x @ '' asc;'') (flatten (Simple [''access_log'', x, ''asc'']))"
    "reads (''    error_log '' @ x @ '' warn;'') (flatten (Simple [''error_log'', x, ''warn'']))"
  by (rule reads_words[where ind = "''    ''"]; simp add: assms)+

lemma reads_upstream_values:
  assumes "plain_word x"
  shows "reads (''    hash '' @ x @ '' consistent;'') (flatten (Simple [''hash'', x, ''consistent'']))"
    "reads (''    keepalive '' @ x @ '';'') (flatten (Simple [''keepalive'', x]))"
    "reads (''    client_max_body_size '' @ x @ '';'') (flatten (Simple [''client_max_body_size'', x]))"
    "reads (''    ssl_certificate '' @ x @ '';'') (flatten (Simple [''ssl_certificate'', x]))"
    "reads (''    ssl_certificate_key '' @ x @ '';'') (flatten (Simple [''ssl_certificate_key'', x]))"
  by (rule reads_words[where ind = "''    ''"]; simp add: assms)+

lemma reads_pass:
  assumes "plain_word (x @ ''://'' @ y)"
  shows "reads (''        proxy_pass '' @ x @ ''://'' @ y @ '';'') (flatten (Simple [''proxy_pass'', x @ ''://'' @ y]))"
    "reads (''        grpc_pass '' @ x @ ''://'' @ y @ '';'') (flatten (Simple [''grpc_pass'', x @ ''://'' @ y]))"
  by (rule reads_words[where ind = "''        ''"]; use assms in simp)+

lemma reads_timeout:
  assumes "plain_word d" "plain_word (v @ ''s'')"
  shows "reads (''        '' @ d @ '' '' @ v @ ''s;'') (flatten (Simple [d, v @ ''s'']))"
  by (rule reads_words[where ind = "''        ''"]; simp add: assms)+

lemma reads_names:
  assumes "list_all plain_word ns" "ns \<noteq> []"
  shows "reads (''    server_name '' @ join '' '' ns @ '';'') (flatten (Simple (''server_name'' # ns)))"
  using assms by (intro reads_words[where ind = "''    ''"]) (auto simp: join_Cons)

lemma reads_upstream_open:
  assumes "plain_word n"
  shows "reads (''upstream '' @ n @ '' {'') (map Word [''upstream'', n] @ [Open])"
  using lex_words_gap[of "[''upstream'', n]" "''{'' @ LF"] assms
  by (simp add: reads_def LF_def lex_gap_def conf_white_def)

lemma reads_header:
  assumes "header_safe h"
  shows "reads (''        proxy_set_header '' @ hname h @ '' '' @ quoted (hvalue h) @ '';'')
      (flatten (Simple [''proxy_set_header'', hname h, hvalue h]))"
    "reads (''        add_header '' @ hname h @ '' '' @ quoted (hvalue h) @ '' always;'')
      (flatten (Simple [''add_header'', hname h, hvalue h, ''always'']))"
proof -
  have w: "plain_word (hname h)" and v: "list_all (\<lambda>c. c \<noteq> CHR 0x22 \<and> c \<noteq> CHR 0x5C) (hvalue h)"
    using assms by (auto simp: header_safe_def quotable_def)
  have e: "lex_run NeedSpace ('';'' @ LF) = Some ([Semi], Gap)" "lex_run NeedSpace ('' always;'' @ LF) = Some ([Word ''always'', Semi], Gap)"
    by code_simp+
  show "reads (''        proxy_set_header '' @ hname h @ '' '' @ quoted (hvalue h) @ '';'') (flatten (Simple [''proxy_set_header'', hname h, hvalue h]))"
    using reads_quoted[OF refl _ _ _ v e(1), of "''        ''" "[''proxy_set_header'', hname h]"] w by simp
  show "reads (''        add_header '' @ hname h @ '' '' @ quoted (hvalue h) @ '' always;'') (flatten (Simple [''add_header'', hname h, hvalue h, ''always'']))"
    using reads_quoted[OF refl _ _ _ v e(2), of "''        ''" "[''add_header'', hname h]"] w by simp
qed

lemma reads_server_line:
  assumes "plain_word a"
  shows "reads (server_line b (s, a) out) (flatten (Simple (server_words b s a out)))"
proof (rule reads_words[where ind = "''    ''"])
  have n: "plain_word (''weight='' @ show_nat n)" "plain_word (''max_fails='' @ show_nat n)" "plain_word (''fail_timeout='' @ show_nat n @ ''s'')" for n
    using digits_plain[of n] by (simp_all add: plain_defs)
  show "list_all plain_word (server_words b s a out)" using assms n by (simp add: server_words_def)
  show "server_line b (s, a) out = ''    '' @ join '' '' (server_words b s a out) @ '';''"
    by (auto simp: server_line_def server_words_def)
qed (simp_all add: server_words_def)

section \<open>The blocks of a site\<close>

lemma file_reads_block_then:
  assumes "reads l (map Word ws @ [Open])" "file_reads ls ds" "reads m [Close]" "file_reads ms es"
  shows "file_reads (l # ls @ m # ms) (Block ws ds # es)"
  using file_reads_append[OF file_reads_block[OF assms(1-3)] assms(4)] by simp

lemma file_reads_blank: "file_reads ls ds \<Longrightarrow> file_reads ([] # ls) ds"
  by (rule file_reads_skip[OF reads_blank])

lemma file_reads_line_if: "(b \<Longrightarrow> reads l (flatten d)) \<Longrightarrow> file_reads (line_if b l) (if b then [d] else [])"
  by (simp add: file_reads_line file_reads_Nil)

lemma safe_upstream_name: "plain_word (upstream_name i)"
proof -
  have "list_all is_alnum (map digit_char (to_base 16 8 n))" for n
    by (auto simp: list_all_iff intro!: digit_char_alnum dest!: to_base_digits[rotated])
  then have h: "list_all plain_char (map digit_char (to_base 16 8 n))" for n by (rule alnums_plain)
  have m: "list_all plain_char (map (\<lambda>c. if is_alnum c then c else CHR ''_'') i)"
    by (auto simp: list_all_iff alnum_plain) (code_simp)
  have "plain_word ''asc_''" "list_all plain_char ''_''" by code_simp+
  with h m show ?thesis unfolding upstream_name_def by (intro plain_word_append) (simp_all only: list_all_append)
qed

lemma safe_log_file:
  assumes "list_all (\<lambda>c. lower_alnum c \<or> c \<in> set ''-_.'') i" "plain_word dir"
  shows "plain_word (site_log_file dir i k)"
proof -
  have "list_all plain_char i"
    using assms(1) by (auto simp: list_all_iff lower_alnum_def is_lower_def is_digit_def plain_char_def conf_white_def DQUOTE_def SQUOTE_def)
  moreover have "list_all plain_char (''.'' @ log_suffix k @ ''.log'')" by (cases k; simp only: log_suffix.simps; code_simp)
  ultimately show ?thesis unfolding site_log_file_def by (intro plain_join assms(2)) simp
qed

lemma reads_choice:
  "(b \<Longrightarrow> reads l (flatten (Simple x))) \<Longrightarrow> (\<not> b \<Longrightarrow> reads m (flatten (Simple y))) \<Longrightarrow>
   reads (if b then l else m) (flatten (Simple (if b then x else y)))"
  by simp

lemma show_nat_word: "plain_word (show_nat n)"
proof -
  have "list_all is_alnum (show_nat n)"
    by (auto simp: show_base_def list_all_iff intro!: digit_char_alnum dest!: show_digits_bound[rotated])
  moreover from this have "hd (show_nat n) \<noteq> CHR ''#''"
    by (cases "show_nat n") (auto simp: show_base_def is_alnum_def is_digit_def is_upper_def is_lower_def)
  ultimately show ?thesis by (simp add: plain_word_def alnums_plain show_base_def)
qed

lemma log_reads:
  assumes "site_safe s" "plain_word dir"
  shows "file_reads (log_directives s dir) (log_tree s dir)"
proof -
  have w: "plain_word (site_log_file dir (sid s) k)" for k
    using assms by (intro safe_log_file) (simp_all add: site_safe_def)
  show ?thesis
    unfolding log_directives_def log_tree_def by (intro file_rules reads_choice reads_logs w conf_lines)
qed

lemma upstream_reads:
  assumes "site_safe (rs_site r)" "list_all plain_word (rs_addresses r)"
  shows "file_reads (upstream_block r) (upstream_tree r)"
proof -
  let ?s = "rs_site r" and ?u = "upstream (rs_site r)"
  have b: "file_reads
      (case balance ?u of RoundRobin \<Rightarrow> [] | LeastConn \<Rightarrow> [''    least_conn;''] | IpHash \<Rightarrow> [''    ip_hash;'']
        | HashKey \<Rightarrow> [''    hash '' @ trim (hash_key ?u) @ '' consistent;''])
      (case balance ?u of RoundRobin \<Rightarrow> [] | LeastConn \<Rightarrow> [Simple [''least_conn'']] | IpHash \<Rightarrow> [Simple [''ip_hash'']]
        | HashKey \<Rightarrow> [Simple [''hash'', trim (hash_key ?u), ''consistent'']])"
  proof (cases "balance ?u")
    case HashKey
    then have "plain_word (trim (hash_key ?u))" using assms(1) by (simp add: site_safe_def)
    with HashKey show ?thesis by (simp only: balance.case) (intro file_rules reads_upstream_values)
  qed (simp_all only: balance.case, (intro file_rules conf_lines)+)
  have m: "file_reads (map (\<lambda>(k, sa). server_line (balance ?u) sa (down_at (rs_down r) k)) (enumerate 0 (zip (servers ?u) (rs_addresses r))))
      (map (\<lambda>(k, v, a). Simple (server_words (balance ?u) v a (down_at (rs_down r) k))) (enumerate 0 (zip (servers ?u) (rs_addresses r))))"
  proof (rule file_reads_map, clarify)
    fix k v a assume "(k, v, a) \<in> set (enumerate 0 (zip (servers ?u) (rs_addresses r)))"
    then have "zip (servers ?u) (rs_addresses r) ! k = (v, a)" "k < length (zip (servers ?u) (rs_addresses r))"
      by (auto simp: in_set_enumerate_eq)
    then have "(v, a) \<in> set (zip (servers ?u) (rs_addresses r))" by (metis nth_mem)
    then have "a \<in> set (rs_addresses r)" by (rule set_zip_rightD)
    then have "plain_word a" using assms(2) by (simp add: list_all_iff)
    then show "reads (server_line (balance ?u) (v, a) (down_at (rs_down r) k))
        (flatten (Simple (server_words (balance ?u) v a (down_at (rs_down r) k))))" by (rule reads_server_line)
  qed
  have k: "file_reads (line_if (0 < keepalive ?u \<and> \<not> is_api_site ?s) (''    keepalive '' @ show_nat (keepalive ?u) @ '';''))
      (if 0 < keepalive ?u \<and> \<not> is_api_site ?s then [Simple [''keepalive'', show_nat (keepalive ?u)]] else [])"
    by (intro file_reads_line_if reads_upstream_values show_nat_word)
  note file_reads_block_then[OF reads_upstream_open[OF safe_upstream_name] file_reads_append[OF b file_reads_append[OF m k]]
      conf_lines(5) file_reads_blank[OF file_reads_Nil], of "sid ?s"]
  then show ?thesis by (simp only: upstream_block_def upstream_tree_def Let_def append_assoc append_Cons append_Nil)
qed

definition scheme_word :: "site \<Rightarrow> bool" where
  "scheme_word s = (plain_word (scheme_of s @ ''://'' @ upstream_name (sid s)) \<and>
     plain_word ((if up_tls (upstream s) then ''grpcs'' else ''grpc'') @ ''://'' @ upstream_name (sid s)))"

lemma scheme_words: "scheme_word s"
proof -
  have "plain_word ''http''" "plain_word ''https''" "plain_word ''grpc''" "plain_word ''grpcs''" "list_all plain_char ''://''"
    by code_simp+
  moreover have "list_all plain_char (upstream_name (sid s))" by (rule plain_chars[OF safe_upstream_name])
  ultimately show ?thesis
    unfolding scheme_word_def scheme_of_def by (auto intro!: plain_word_append simp del: append_Cons append_Nil)
qed

lemma snippets_plain [simp]:
  "list_all plain_char ERRORS_SNIPPET" "list_all plain_char CLOUDFLARE" "list_all plain_char PROXY_SNIPPET"
  "list_all plain_char ACME_SNIPPET"
  by code_simp+

lemma timeouts_read:
  "file_reads (timeout_lines p) (concat (map (\<lambda>(d, v). if 0 < v then [Simple [d, show_nat v @ ''s'']] else [])
     [(''proxy_connect_timeout'', connect_timeout p), (''proxy_read_timeout'', read_timeout p), (''proxy_send_timeout'', send_timeout p)]))"
proof -
  have w: "plain_word (show_nat n @ ''s'')" for n
    by (rule plain_word_append[OF show_nat_word]) code_simp
  show ?thesis
    unfolding timeout_lines_def list.map prod.case concat.simps
    by (intro file_reads_append file_reads_line_if reads_timeout plain_literals w file_reads_Nil)
qed

lemma headers_read:
  assumes "list_all header_safe hs"
  shows "file_reads (map (\<lambda>h. ''        proxy_set_header '' @ hname h @ '' '' @ quoted (hvalue h) @ '';'') hs)
      (map (\<lambda>h. Simple [''proxy_set_header'', hname h, hvalue h]) hs)"
    "file_reads (map (\<lambda>h. ''        add_header '' @ hname h @ '' '' @ quoted (hvalue h) @ '' always;'') hs)
      (map (\<lambda>h. Simple [''add_header'', hname h, hvalue h, ''always'']) hs)"
  by (rule file_reads_map, rule reads_header, use assms in \<open>simp add: list_all_iff\<close>)+

lemma location_reads:
  assumes safe: "site_safe s" and base: "plain_word base" and extra: "trim (extra_location s) = []"
  shows "file_reads (proxy_location s ws (upstream_name (sid s)) https base) (location_tree s ws https base)"
proof -
  have inc: "plain_word (path_join base f)" if "list_all plain_char f" for f using base that by (rule plain_join)
  have hs: "list_all header_safe (request_headers (proxy s))" "list_all header_safe (response_headers (proxy s))"
    using safe by (simp_all add: site_safe_def)
  have up: "plain_word (scheme_of s @ ''://'' @ upstream_name (sid s))" using scheme_words by (simp add: scheme_word_def)
  have none: "snippet_lines ''        '' ''# extra_location'' (extra_location s) = []" by (simp add: snippet_lines_def extra)
  show ?thesis
    unfolding proxy_location_def location_tree_def Let_def none append_Nil2
    by (intro file_reads_append file_reads_Cons file_reads_Nil file_reads_if file_reads_line_if reads_choice reads_pass up reads_include inc
        snippets_plain headers_read hs timeouts_read conf_lines)
qed

lemma proxy_reads:
  assumes safe: "site_safe s" and base: "plain_word base" and extra: "trim (extra_server s) = []" "trim (extra_location s) = []"
  shows "file_reads (proxy_body s ws (upstream_name (sid s)) https base) (proxy_tree s ws https base)"
proof -
  have inc: "plain_word (path_join base f)" if "list_all plain_char f" for f using base that by (rule plain_join)
  have size: "plain_word (trim (max_body (proxy s)))" if "max_body (proxy s) \<noteq> []" using safe that by (simp add: site_safe_def)
  have none: "snippet_lines ''    '' ''# extra_server'' (extra_server s) = []" by (simp add: snippet_lines_def extra)
  have loc: "file_reads ([[]] @ ''    location / {'' # proxy_location s ws (upstream_name (sid s)) https base @ [''    }''])
      [Block [''location'', ''/''] (location_tree s ws https base)]"
    unfolding append_Cons append_Nil
    by (intro file_reads_blank file_reads_block location_reads assms conf_lines)
  show ?thesis
    unfolding proxy_body_def proxy_tree_def none append_Nil
    by (rule file_reads_append[OF _ file_reads_append[OF _ file_reads_append[OF _ loc]]])
      (intro file_reads_line_if reads_upstream_values size reads_include inc snippets_plain)+
qed

lemma api_reads:
  assumes base: "plain_word base"
  shows "file_reads (api_body s (upstream_name (sid s)) base) (api_tree s base)"
proof -
  have inc: "plain_word (path_join base f)" if "list_all plain_char f" for f using base that by (rule plain_join)
  have up: "plain_word (scheme_of s @ ''://'' @ upstream_name (sid s))"
    "plain_word ((if up_tls (upstream s) then ''grpcs'' else ''grpc'') @ ''://'' @ upstream_name (sid s))"
    using scheme_words by (simp_all add: scheme_word_def)
  have "file_reads
     (''    client_max_body_size 0;'' # [] # ''    location / {'' # (''        error_page 418 = @asc_grpc;'' #
      (''        if ($content_type ~* '' @ quoted ''^application/grpc'' @ '') {'') # [''            return 418;''] @ ''        }'' #
      [''        proxy_pass '' @ scheme_of s @ ''://'' @ upstream_name (sid s) @ '';'', ''        include '' @ path_join base PROXY_SNIPPET @ '';'',
       ''        proxy_set_header Host $host;'', ''        proxy_set_header Upgrade $http_upgrade;'',
       ''        proxy_set_header Connection $connection_upgrade;'', ''        proxy_read_timeout 3600s;'',
       ''        proxy_send_timeout 3600s;'', ''        proxy_buffering off;'', ''        proxy_request_buffering off;'']) @ ''    }'' #
      [] # ''    location @asc_grpc {'' #
      ([''        grpc_pass '' @ (if up_tls (upstream s) then ''grpcs'' else ''grpc'') @ ''://'' @ upstream_name (sid s) @ '';'',
        ''        grpc_set_header X-Real-IP $remote_addr;'']
       @ line_if (up_tls (upstream s)) ''        grpc_ssl_verify off;''
       @ [''        grpc_read_timeout 3600s;'', ''        grpc_send_timeout 3600s;'']) @ [''    }''])
     (api_tree s base)"
    unfolding api_tree_def Let_def
    by (rule file_reads_Cons, rule conf_lines, rule file_reads_blank, rule file_reads_block_then, rule conf_lines,
        rule file_reads_Cons, rule conf_lines, rule file_reads_block_then, rule conf_lines)
      (intro file_reads_append file_reads_Cons file_reads_Nil file_reads_blank file_reads_block file_reads_line_if reads_pass up
        reads_include inc snippets_plain conf_lines)+
  then show ?thesis by (simp only: api_body_def append_Cons append_Nil append_assoc)
qed

lemma redirect_reads:
  "file_reads ([[], ''    location / {'', ''        return 301 https://$host$request_uri;'', ''    }''])
     [Block [''location'', ''/''] [Simple [''return'', ''301'', ''https://$host$request_uri'']]]"
  using file_reads_blank[OF file_reads_block[OF conf_lines(2) file_reads_line[OF conf_lines(19)] conf_lines(6)]] by simp

lemma server_reads:
  assumes "file_reads ls ds"
  shows "file_reads (''server {'' # ls @ [''}'']) [Block [''server''] ds]"
  by (rule file_reads_block[OF conf_lines(1) assms conf_lines(5)])

text \<open>What the caller provides: paths of the configuration, of the logs and of the certificate, and addresses.\<close>

definition places_safe :: "resolved_site \<Rightarrow> string \<Rightarrow> string \<Rightarrow> bool" where
  "places_safe r base dir = (plain_word base \<and> plain_word dir \<and> list_all plain_word (rs_addresses r) \<and>
     (case rs_cert r of None \<Rightarrow> True | Some (c, k) \<Rightarrow> plain_word c \<and> plain_word k))"

definition no_snippets :: "site \<Rightarrow> bool" where
  "no_snippets s = (raw_config s = None \<and> trim (extra_server s) = [] \<and> trim (extra_location s) = [])"

lemma http_reads:
  assumes "site_safe (rs_site r)" "places_safe r base dir" "no_snippets (rs_site r)"
  shows "file_reads (http_server r ws f base dir) (http_tree r ws f base dir)"
proof -
  let ?s = "rs_site r"
  have base: "plain_word base" "plain_word dir" using assms(2) by (simp_all add: places_safe_def)
  have inc: "plain_word (path_join base f)" if "list_all plain_char f" for f using base(1) that by (rule plain_join)
  have names: "list_all plain_word (server_names ?s)" "server_names ?s \<noteq> []" using assms(1) by (simp_all add: site_safe_def)
  have extra: "trim (extra_server ?s) = []" "trim (extra_location ?s) = []" using assms(3) by (simp_all add: no_snippets_def)
  have "file_reads
     ([''    listen 80;''] @ line_if (ipv6 f) ''    listen [::]:80;''
     @ [''    server_name '' @ join '' '' (server_names ?s) @ '';'', ''    include '' @ path_join base ACME_SNIPPET @ '';'']
     @ log_directives ?s dir
     @ (if is_api_site ?s \<or> rs_cert r \<noteq> None \<and> redirect_http (tls ?s)
        then [[], ''    location / {'', ''        return 301 https://$host$request_uri;'', ''    }'']
        else proxy_body ?s ws (upstream_name (sid ?s)) False base))
     ([Simple [''listen'', ''80'']] @ (if ipv6 f then [Simple [''listen'', ''[::]:80'']] else [])
       @ [Simple (''server_name'' # server_names ?s), include_tree base ACME_SNIPPET] @ log_tree ?s dir
       @ (if is_api_site ?s \<or> rs_cert r \<noteq> None \<and> redirect_http (tls ?s)
          then [Block [''location'', ''/''] [Simple [''return'', ''301'', ''https://$host$request_uri'']]]
          else proxy_tree ?s ws False base))"
    by (rule file_reads_append[OF _ file_reads_append[OF _ file_reads_append[OF _ file_reads_append[OF _ file_reads_if]]]])
      (rule redirect_reads | intro file_reads_Cons file_reads_Nil file_reads_line_if reads_names names reads_include inc snippets_plain
        log_reads base assms proxy_reads extra conf_lines)+
  from server_reads[OF this] show ?thesis
    by (simp only: http_server_def http_tree_def Let_def append_Cons append_Nil append_assoc)
qed

lemma https_reads:
  assumes "site_safe (rs_site r)" "places_safe r base dir" "no_snippets (rs_site r)" "rs_cert r = Some ck"
  shows "file_reads (https_server r ws f base dir ck) (https_tree r ws f base dir ck)"
proof -
  let ?s = "rs_site r"
  define http2 where "http2 = (is_api_site ?s \<or> tls_http2 (tls ?s) \<and> ws_http2 ws)"
  let ?c = "http2 \<and> \<not> http2_directive f"
  have base: "plain_word base" "plain_word dir" using assms(2) by (simp_all add: places_safe_def)
  have ck: "plain_word (fst ck)" "plain_word (snd ck)" using assms(2,4) by (simp_all add: places_safe_def split: prod.splits)
  have inc: "plain_word (path_join base f)" if "list_all plain_char f" for f using base(1) that by (rule plain_join)
  have names: "list_all plain_word (server_names ?s)" "server_names ?s \<noteq> []" using assms(1) by (simp_all add: site_safe_def)
  have extra: "trim (extra_server ?s) = []" "trim (extra_location ?s) = []" using assms(3) by (simp_all add: no_snippets_def)
  have listen: "reads (''    listen 443 ssl'' @ (if ?c then '' http2'' else []) @ '';'')
        (flatten (Simple ([''listen'', ''443'', ''ssl''] @ (if ?c then [''http2''] else []))))"
      "reads (''    listen [::]:443 ssl'' @ (if ?c then '' http2'' else []) @ '';'')
        (flatten (Simple ([''listen'', ''[::]:443'', ''ssl''] @ (if ?c then [''http2''] else []))))"
    by (cases ?c; simp only: if_True if_False simp_thms; rule conf_lines)+
  have "file_reads
     ([''    listen 443 ssl'' @ (if ?c then '' http2'' else []) @ '';'']
     @ line_if (ipv6 f) (''    listen [::]:443 ssl'' @ (if ?c then '' http2'' else []) @ '';'')
     @ line_if (http2 \<and> http2_directive f) ''    http2 on;''
     @ [''    server_name '' @ join '' '' (server_names ?s) @ '';'', ''    ssl_certificate '' @ fst ck @ '';'',
        ''    ssl_certificate_key '' @ snd ck @ '';'']
     @ log_directives ?s dir
     @ (if is_api_site ?s then api_body ?s (upstream_name (sid ?s)) base else proxy_body ?s ws (upstream_name (sid ?s)) True base))
     ([Simple ([''listen'', ''443'', ''ssl''] @ (if ?c then [''http2''] else []))]
      @ (if ipv6 f then [Simple ([''listen'', ''[::]:443'', ''ssl''] @ (if ?c then [''http2''] else []))] else [])
      @ (if http2 \<and> http2_directive f then [Simple [''http2'', ''on'']] else [])
      @ [Simple (''server_name'' # server_names ?s), Simple [''ssl_certificate'', fst ck], Simple [''ssl_certificate_key'', snd ck]]
      @ log_tree ?s dir @ (if is_api_site ?s then api_tree ?s base else proxy_tree ?s ws True base))"
    by (rule file_reads_append[OF _ file_reads_append[OF _ file_reads_append[OF _ file_reads_append[OF _ file_reads_append[OF _ file_reads_if]]]]])
      (intro file_reads_Cons file_reads_Nil file_reads_line_if reads_names names listen reads_upstream_values ck
        log_reads base assms proxy_reads api_reads extra conf_lines)+
  from file_reads_blank[OF server_reads[OF this]] show ?thesis
    by (simp only: https_server_def https_tree_def http2_def Let_def append_Cons append_Nil append_assoc)
qed

lemma site_reads:
  assumes "site_safe (rs_site r)" "places_safe r base dir" "no_snippets (rs_site r)"
  shows "conf_tokens (render_site r ws f base dir) = Some (concat (map flatten (site_tree r ws f base dir)))"
proof -
  let ?s = "rs_site r"
  let ?m = "case owner ?s of Some m \<Rightarrow> m | None \<Rightarrow> ''local''"
  have raw: "raw_config ?s = None" using assms(3) by (simp add: no_snippets_def)
  have "CHR 0x0A \<notin> set (sid ?s)"
    using assms(1) by (auto simp: site_safe_def list_all_iff lower_alnum_def is_lower_def is_digit_def)
  moreover have "CHR 0x0A \<notin> set ?m" using assms(1) by (auto simp: site_safe_def split: option.splits)
  ultimately have h: "reads (CHR ''#'' # '' asc-daemon site '' @ sid ?s @ '' ('' @ ?m @ '').'') []"
    by (intro reads_comment) auto
  have g: "reads ''# Generated by asc-daemon. Change it with `asc web` or in the AdminService.Cloud'' []"
    "reads (''# panel '' @ EM_DASH @ '' manual edits are overwritten on the next apply.'') []"
    by code_simp+
  have "file_reads (upstream_block r @ http_server r ws f base dir @ (case rs_cert r of Some ck \<Rightarrow> https_server r ws f base dir ck | None \<Rightarrow> []))
      (site_tree r ws f base dir)"
    unfolding site_tree_def
    by (intro file_reads_append upstream_reads http_reads assms)
      (use assms in \<open>auto simp: places_safe_def file_reads_Nil intro!: https_reads split: option.split\<close>)
  then have "file_reads (site_lines r ws f base dir) (site_tree r ws f base dir)"
    using file_reads_skip[OF h file_reads_skip[OF g(1) file_reads_skip[OF g(2)]]]
    by (simp only: site_lines_def header_lines_def raw Let_def option.case append_Cons append_Nil append_assoc)
  then show ?thesis unfolding render_site_def by (rule file_reads_tokens)
qed

end
