(* ===== verification/WebNorm.thy ===== *)
theory WebNorm
  imports WebTree
begin

text \<open>
  Normalised sites: what \<open>Site::normalize\<close> guarantees of its result, that it is a fixed point, and
  that its result is safe to render.
\<close>

section \<open>Server names\<close>

lemma split_char_set: "c \<in> set s \<Longrightarrow> c = d \<or> (\<exists>p \<in> set (split_char d s). c \<in> set p)"
  by (induction s) (auto split: list.splits if_splits)

lemma split_char_empty: "split_char d s = [[]] \<longleftrightarrow> s = []"
  by (cases s) (auto split: list.splits)

lemma split_char_last: "s \<noteq> [] \<Longrightarrow> last s = d \<Longrightarrow> last (split_char d s) = []"
  by (induction s) (auto split: list.splits if_splits simp: split_char_empty)

definition server_char :: "char \<Rightarrow> bool" where
  "server_char c = (lower_alnum c \<or> c \<in> set ''-.*'')"

lemma server_name_chars:
  assumes "validate_server_name n = Inr u"
  shows "n \<noteq> [] \<and> list_all server_char n \<and> last n \<noteq> CHR ''.''"
proof -
  obtain h where h: "n = h \<or> n = ''*.'' @ h" "h \<noteq> []" "list_all name_label_ok (split_char CHR ''.'' h)"
    using assms by (auto simp: validate_server_name_def Let_def strip_prefix_Some split: option.splits)
  have "server_char c" if "c \<in> set h" for c
    using split_char_set[OF that, of "CHR ''.''"] h(3) by (auto simp: list_all_iff name_label_ok_def server_char_def)
  moreover have "last h \<noteq> CHR ''.''"
    using split_char_last[OF h(2)] h(3) last_in_set[OF split_char_nonempty, of "CHR ''.''" h]
    by (fastforce simp: list_all_iff name_label_ok_def)
  ultimately have "list_all server_char h" "last h \<noteq> CHR ''.''" by (simp_all add: list_all_iff)
  moreover have "list_all server_char ''*.''" by code_simp
  ultimately show ?thesis using h(1,2) by auto
qed

lemma name_char_plain: "server_char c \<Longrightarrow> plain_char c \<and> \<not> is_white c \<and> lower_char c = c \<and> c \<noteq> CHR ''#''"
  by (auto simp: server_char_def lower_alnum_def is_lower_def is_digit_def plain_char_def conf_white_def DQUOTE_def SQUOTE_def
      is_white_def lower_char_def is_upper_def)

lemma clean_name_id:
  assumes "validate_server_name n = Inr u" shows "clean_name n = n"
proof -
  from server_name_chars[OF assms] have n: "n \<noteq> []" "list_all server_char n" "last n \<noteq> CHR ''.''" by auto
  then have c: "\<not> is_white c" "lower_char c = c" if "c \<in> set n" for c using that by (auto simp: list_all_iff name_char_plain)
  have "trim n = n" using c(1) n(1) by (intro trim_trimmed) (simp add: trimmed_def)
  moreover have "trim_end_set {CHR ''.''} n = n" using n by (cases n rule: rev_cases) (auto simp: trim_end_set_def)
  moreover have "to_lower n = n" using c(2) by (simp add: to_lower_def map_idI)
  ultimately show ?thesis by (simp add: clean_name_def)
qed

lemma names_of_facts:
  assumes "names_of s = Inr ns"
  shows "ns \<noteq> [] \<and> length ns \<le> MAX_NAMES \<and> (\<forall>n \<in> set ns. \<exists>u. validate_server_name n = Inr u) \<and>
    sorted ns \<and> distinct ns \<and> ns = normal_names (server_names s)"
proof -
  have ns: "ns = normal_names (server_names s)" "ns \<noteq> []" "length ns \<le> MAX_NAMES" "\<exists>us. traverse validate_server_name ns = Inr us"
    using assms by (auto simp: names_of_def Let_def split: if_splits)
  moreover have "sorted ns" "distinct ns"
    using sort_dedup_sorted[of "\<lambda>n. n"] sort_dedup_distinct[of "\<lambda>n. n"] ns(1) by (auto simp: normal_names_def inj_on_def)
  moreover have "\<forall>n \<in> set ns. \<exists>u. validate_server_name n = Inr u"
    using ns(4) traverse_set1 by metis
  ultimately show ?thesis by blast
qed

lemma names_of_fixed:
  assumes "names_of s = Inr ns" "server_names t = ns" "sid t = sid s"
  shows "names_of t = Inr ns"
proof -
  from names_of_facts[OF assms(1)] have ns: "ns \<noteq> []" "length ns \<le> MAX_NAMES" "\<forall>n \<in> set ns. \<exists>u. validate_server_name n = Inr u"
    "sorted ns" "distinct ns" by auto
  have "map clean_name ns = ns" using ns(3) by (auto intro!: map_idI clean_name_id)
  moreover have "filter (\<lambda>n. n \<noteq> []) ns = ns" using ns(3) server_name_chars by (fastforce intro!: filter_True)
  ultimately have n: "normal_names ns = ns" using sort_dedup_id[of "\<lambda>n. n" ns] ns(4,5) by (simp add: normal_names_def)
  obtain us where "traverse validate_server_name ns = Inr us"
    using assms(1) names_of_facts[OF assms(1)] by (auto simp: names_of_def Let_def split: if_splits)
  with ns n assms(2) show ?thesis by (simp add: names_of_def Let_def)
qed

section \<open>Addresses\<close>

text \<open>The scanner of addresses consumes characters of addresses.\<close>

definition eats :: "string \<Rightarrow> string \<Rightarrow> bool" where
  "eats s r = (\<exists>a. s = a @ r \<and> list_all ip_char a)"

lemma eats_refl: "eats s s"
  by (simp add: eats_def)

lemma eats_trans: "eats s r \<Longrightarrow> eats r q \<Longrightarrow> eats s q"
  unfolding eats_def by (metis append.assoc list_all_append)

lemma eats_Cons: "ip_char c \<Longrightarrow> eats s q \<Longrightarrow> eats (c # s) q"
  unfolding eats_def by (elim exE, rename_tac a, rule_tac x = "c # a" in exI) simp

lemma take_digits_eats: "take_digits r s = (ds, q) \<Longrightarrow> eats s q"
proof (induction r s arbitrary: ds q rule: take_digits.induct)
  case (2 r c cs)
  show ?case
  proof (cases "to_digit r c")
    case (Some d)
    with 2 obtain ds1 where "take_digits r cs = (ds1, q)" by (auto split: prod.splits)
    with 2 Some have "eats cs q" by blast
    moreover have "ip_char c" using to_digit_alnum[OF Some] by (simp add: ip_char_def)
    ultimately show ?thesis by (simp add: eats_Cons)
  qed (use 2 eats_refl in auto)
qed (simp add: eats_def)

lemma read_number_eats: "read_number r m z v s = Some (n, q) \<Longrightarrow> eats s q"
  by (auto simp: read_number_def take_digits_eats split: prod.splits if_splits)

lemma read_sep_eats: "read_sep d f s = Some q \<Longrightarrow> ip_char d \<Longrightarrow> eats s q"
  by (auto simp: read_sep_def eats_def split: if_splits list.splits intro: exI[of _ "[]"] exI[of _ "[d]"])

lemma ip_seps: "ip_char CHR '':''" "ip_char CHR ''.''"
  by (simp_all add: ip_char_def)

lemma read_octets_eats: "read_octets k f s = Some (os, q) \<Longrightarrow> eats s q"
proof (induction k arbitrary: f s os q)
  case 0
  then show ?case by (simp add: eats_refl)
next
  case (Suc k)
  then obtain s1 g s2 gs where r: "read_sep CHR ''.'' f s = Some s1" "read_number 10 3 False 255 s1 = Some (g, s2)"
    "read_octets k False s2 = Some (gs, q)"
    by (auto split: option.splits)
  from eats_trans[OF read_sep_eats[OF r(1) ip_seps(2)] eats_trans[OF read_number_eats[OF r(2)] Suc.IH[OF r(3)]]]
  show ?case .
qed

lemma read_groups_eats: "read_groups k f s = (gs, b, q) \<Longrightarrow> eats s q"
proof (induction k f s arbitrary: gs b q rule: read_groups.induct)
  case (1 f s)
  then show ?case by (simp add: eats_refl)
next
  case (2 k f s)
  show ?case
  proof (cases "if 0 < k then Option.bind (read_sep CHR '':'' f s) read_v4 else None")
    case (Some p)
    then obtain s1 where "read_sep CHR '':'' f s = Some s1" "read_v4 s1 = Some (fst p, snd p)"
      by (auto split: if_splits bind_splits)
    with Some 2(2) show ?thesis
      by (auto split: prod.splits simp: read_v4_def intro: eats_trans read_sep_eats read_octets_eats ip_seps)
  next
    case N: None
    show ?thesis
    proof (cases "Option.bind (read_sep CHR '':'' f s) (read_number 16 4 True 65535)")
      case None
      with N 2(2) show ?thesis by (auto intro: eats_refl)
    next
      case (Some p)
      then obtain s1 where s1: "read_sep CHR '':'' f s = Some s1" "read_number 16 4 True 65535 s1 = Some (fst p, snd p)"
        by (auto split: bind_splits)
      from N Some 2(2) obtain hs c where "read_groups k False (snd p) = (hs, c, q)" by (auto simp: Let_def split: prod.splits)
      with 2(1)[OF N Some _ _] have "eats (snd p) q" by (metis prod.collapse)
      with s1 show ?thesis by (blast intro: eats_trans read_sep_eats read_number_eats ip_seps)
    qed
  qed
qed

lemma v6_text_chars: "parse_v6 s = Some a \<Longrightarrow> list_all ip_char s"
proof -
  assume "parse_v6 s = Some a"
  then obtain gs where r: "read_v6 s = Some (gs, [])" by (auto simp: parse_v6_def split: option.splits prod.splits list.splits)
  obtain h b q where g: "read_groups 8 True s = (h, b, q)" by (cases "read_groups 8 True s") auto
  have "eats s []"
  proof (cases "length h = 8")
    case True
    with r g read_groups_eats[OF g] show ?thesis by (simp add: read_v6_def)
  next
    case False
    with r g obtain q1 where p: "strip_prefix ''::'' q = Some q1" by (auto simp: read_v6_def split: if_splits option.splits)
    obtain t c q2 where g2: "read_groups (8 - (length h + 1)) True q1 = (t, c, q2)" by (metis prod_cases3)
    from r g False p g2 have "q2 = []" by (auto simp: read_v6_def split: if_splits)
    moreover have "q = ''::'' @ q1" using p by (simp add: strip_prefix_Some)
    then have "eats q q1" using ip_seps by (simp add: eats_Cons eats_refl)
    ultimately show ?thesis using read_groups_eats[OF g] read_groups_eats[OF g2] eats_trans by blast
  qed
  then show ?thesis by (simp add: eats_def)
qed

lemma rsplit_once_Some: "rsplit_once d s = Some (a, b) \<Longrightarrow> s = a @ d # b"
proof -
  assume "rsplit_once d s = Some (a, b)"
  then obtain x y where "split_once d (rev s) = Some (x, y)" "a = rev y" "b = rev x" by (auto simp: rsplit_once_def)
  then have "rev s = x @ d # y" "a = rev y" "b = rev x" using split_once_Some by auto
  then have "rev (rev s) = a @ d # b" by simp
  then show ?thesis by simp
qed

lemma bracketed_Some: "bracketed h = Some inner \<Longrightarrow> h = ''['' @ inner @ '']''"
proof -
  assume "bracketed h = Some inner"
  then obtain r where r: "h = CHR ''['' # r" "strip_suffix '']'' r = Some inner"
    by (auto simp: bracketed_def strip_prefix_Some split: option.splits)
  then have "rev r = CHR '']'' # rev inner" by (auto simp: strip_suffix_def strip_prefix_Some)
  then have "rev (rev r) = inner @ '']''" by simp
  with r show ?thesis by simp
qed

lemma address_plain:
  assumes "validate_address a = Inr u" shows "plain_word a"
proof -
  obtain h p n where hp: "rsplit_once CHR '':'' a = Some (h, p)" "parse_u16 p = Some n"
    and h: "(\<exists>inner. bracketed h = Some inner \<and> parse_v6 inner \<noteq> None) \<or> h \<noteq> [] \<and> list_all (\<lambda>c. is_alnum c \<or> c \<in> set ''.-'') h"
    using assms by (auto simp: validate_address_def split: option.splits if_splits)
  have a: "a = h @ CHR '':'' # p"
    using rsplit_once_Some[OF hp(1)] .
  have lit: "plain_char CHR '':''" "plain_char CHR ''['' \<and> plain_char CHR '']''" "plain_char CHR ''+''" "plain_char CHR ''.''" "plain_char CHR ''-''"
    by code_simp+
  have p: "list_all plain_char p"
    using parse_radix_chars[OF hp(2)] lit alnum_plain by (auto simp: list_all_iff)
  have hc: "h \<noteq> [] \<and> list_all plain_char h \<and> hd h \<noteq> CHR ''#''"
    using h
  proof
    assume "\<exists>inner. bracketed h = Some inner \<and> parse_v6 inner \<noteq> None"
    then obtain inner b where i: "bracketed h = Some inner" "parse_v6 inner = Some b" by auto
    from bracketed_Some[OF i(1)] have "h = ''['' @ inner @ '']''" .
    moreover have "list_all plain_char inner"
      using v6_text_chars[OF i(2)] lit alnum_plain by (auto simp: list_all_iff ip_char_def)
    ultimately show ?thesis using lit by simp
  next
    assume h: "h \<noteq> [] \<and> list_all (\<lambda>c. is_alnum c \<or> c \<in> set ''.-'') h"
    then have "hd h \<in> set h" by simp
    with h have "is_alnum (hd h) \<or> hd h \<in> set ''.-''" by (auto simp: list_all_iff)
    then have "hd h \<noteq> CHR ''#''" by (auto simp: is_alnum_def is_digit_def is_upper_def is_lower_def)
    moreover have "plain_char c" if "c \<in> set h" for c
    proof -
      from h that have "is_alnum c \<or> c = CHR ''.'' \<or> c = CHR ''-''" by (auto simp: list_all_iff)
      then show ?thesis by (elim disjE) (simp_all add: alnum_plain lit)
    qed
    ultimately show ?thesis using h by (simp add: list_all_iff)
  qed
  with p lit a show ?thesis by (auto simp: plain_word_def)
qed

section \<open>The parts of a normalised site\<close>

lemma health_validate_fixed: "health_validate h = Inr g \<Longrightarrow> health_validate g = Inr g"
proof (cases "hc_kind h")
  case HealthHttp
  assume v: "health_validate h = Inr g"
  define k where "k = (if hc_path h = [] then h\<lparr>hc_path := ''/''\<rparr> else h)"
  have k: "hc_kind k = HealthHttp" "hc_path k \<noteq> []" "interval_secs k = interval_secs h" "timeout_secs k = timeout_secs h"
    "hc_fails k = hc_fails h" "hc_passes k = hc_passes h"
    using HealthHttp by (simp_all add: k_def)
  from v HealthHttp have c: "g = k" "\<not> (3600 < interval_secs h \<or> 60 < timeout_secs h \<or> 20 < hc_fails h \<or> 20 < hc_passes h)"
    "\<not> (\<not> starts_with ''/'' (hc_path k) \<or> 1024 < byte_len (hc_path k) \<or> list_ex blank_or_control (hc_path k))"
    "\<not> (expected_status k \<noteq> 0 \<and> \<not> (100 \<le> expected_status k \<and> expected_status k \<le> 599))"
    unfolding health_validate_def health_enabled_def Let_def k_def[symmetric] by (auto split: if_splits)
  then show ?thesis unfolding c(1) health_validate_def health_enabled_def Let_def using k by simp
next
  case HealthTcp
  moreover assume "health_validate h = Inr g"
  ultimately have g: "g = h\<lparr>hc_path := [], expected_status := 0\<rparr>" "\<not> (3600 < interval_secs h \<or> 60 < timeout_secs h \<or> 20 < hc_fails h \<or> 20 < hc_passes h)"
    by (auto simp: health_validate_def health_enabled_def split: if_splits)
  then show ?thesis unfolding g(1) by (simp add: health_validate_def health_enabled_def HealthTcp)
next
  case HealthOff
  moreover assume "health_validate h = Inr g"
  ultimately have "g = default_health" by (simp add: health_validate_def health_enabled_def)
  then show ?thesis by (simp add: health_validate_def health_enabled_def default_health_def)
qed

lemma tls_normalize_fixed: "tls_normalize ok ns t = Inr u \<Longrightarrow> tls_normalize ok ns u = Inr u"
  by (auto simp: tls_normalize_def clear_pem_def split: tls_mode.splits if_splits)

lemma upstream_normalize_fixed:
  assumes "upstream_normalize s = Inr u" "upstream t = u" "raw_config t = raw_config s" "sid t = sid s"
  shows "upstream_normalize t = Inr u"
proof -
  from assms(1) obtain g vs where g: "health_validate (health_of (upstream s)) = Inr g" "u = (upstream s)\<lparr>health_of := g\<rparr>"
    and c: "\<not> (raw_config s = None \<and> servers (upstream s) = [])" "traverse server_ok (servers (upstream s)) = Inr vs"
      "hash_key_ok (upstream s)" "\<not> 1024 < keepalive (upstream s)"
    by (auto simp: upstream_normalize_def Let_def split: if_splits)
  have k: "hash_key_ok u" using c(3) g(2) by (simp add: hash_key_ok_def)
  show ?thesis
    unfolding upstream_normalize_def Let_def assms(2-4) using c(1,2,4) k g(2) health_validate_fixed[OF g(1)]
    by (simp del: not_less)
qed

lemma size_plain:
  assumes "validate_size f v = Inr u" shows "plain_word (trim v)"
proof -
  let ?v = "trim v"
  let ?K = "set ''kKmMgG''"
  have d: "?v \<noteq> []" "trim_end_set ?K ?v \<noteq> []" "list_all is_digit (trim_end_set ?K ?v)"
    using assms by (auto simp: validate_size_def Let_def split: if_splits)
  have v: "?v = trim_end_set ?K ?v @ rev (takeWhile (\<lambda>c. c \<in> ?K) (rev ?v))"
    unfolding trim_end_set_def by (metis rev_append rev_rev_ident takeWhile_dropWhile_id)
  have "list_all plain_char (trim_end_set ?K ?v)"
    using d(3) by (auto simp: list_all_iff is_alnum_def intro: alnum_plain)
  moreover have "list_all plain_char ''kKmMgG''" by code_simp
  then have "list_all plain_char (rev (takeWhile (\<lambda>c. c \<in> ?K) (rev ?v)))"
    by (auto simp: list_all_iff dest: set_takeWhileD)
  ultimately have "list_all plain_char ?v" using v by (metis list_all_append)
  moreover have "hd ?v = hd (trim_end_set ?K ?v)" using v d(2) by (metis hd_append2)
  then have "is_digit (hd ?v)" using d(2,3) by (metis hd_in_set list_all_iff)
  then have "hd ?v \<noteq> CHR ''#''" by (auto simp: is_digit_def)
  ultimately show ?thesis using d(1) by (simp add: plain_word_def)
qed

lemma header_safe:
  assumes "validate_header h = Inr u" shows "header_safe h"
proof -
  have n: "hname h \<noteq> []" "list_all (\<lambda>c. is_alnum c \<or> c = CHR ''-'') (hname h)" "\<not> list_ex bad_header_char (hvalue h)"
    using assms by (auto simp: validate_header_def split: if_splits)
  then have "hd (hname h) \<noteq> CHR ''#''"
    by (cases "hname h") (auto simp: is_alnum_def is_digit_def is_upper_def is_lower_def)
  moreover have "plain_char CHR ''-''" by code_simp
  then have "list_all plain_char (hname h)" using n(2) alnum_plain by (auto simp: list_all_iff)
  moreover have "quotable (hvalue h)" using n(3) by (auto simp: quotable_def list_ex_iff list_all_iff bad_header_char_def DQUOTE_def)
  ultimately show ?thesis using n(1) by (simp add: header_safe_def plain_word_def)
qed

section \<open>Normalised sites\<close>

text \<open>The validation of a hash key admits a comment sign and a backslash.\<close>

definition hash_key_plain :: "site \<Rightarrow> bool" where
  "hash_key_plain s = (balance (upstream s) = HashKey \<longrightarrow>
     hd (trim (hash_key (upstream s))) \<noteq> CHR ''#'' \<and> CHR 0x5C \<notin> set (trim (hash_key (upstream s))))"

lemma conf_white_white: "conf_white c \<Longrightarrow> is_white c"
  by (auto simp: conf_white_def is_white_def)

lemma site_normalize_parts:
  assumes "site_normalize ok s = Inr t"
  obtains ns u c where "validate_site_id (sid s) = Inr ()" "names_of s = Inr ns" "marker_ok (owner s) = Inr ()"
    "upstream_normalize s = Inr u" "tls_normalize ok ns (tls s) = Inr c" "proxy_ok (proxy s) = Inr ()" "snippets_ok s = Inr ()"
    "t = s\<lparr>server_names := ns, upstream := u, tls := c\<rparr>"
  using assms by (auto simp: site_normalize_def)

lemma site_normalize_fixed: "site_normalize ok s = Inr t \<Longrightarrow> site_normalize ok t = Inr t"
proof -
  assume "site_normalize ok s = Inr t"
  then obtain ns u c where p: "validate_site_id (sid s) = Inr ()" "names_of s = Inr ns" "marker_ok (owner s) = Inr ()"
    "upstream_normalize s = Inr u" "tls_normalize ok ns (tls s) = Inr c" "proxy_ok (proxy s) = Inr ()" "snippets_ok s = Inr ()"
    "t = s\<lparr>server_names := ns, upstream := u, tls := c\<rparr>" by (rule site_normalize_parts)
  have "names_of t = Inr ns" using p(2,8) by (intro names_of_fixed[OF p(2)]) simp_all
  moreover have "upstream_normalize t = Inr u" using p(8) by (intro upstream_normalize_fixed[OF p(4)]) simp_all
  moreover have "tls_normalize ok ns (tls t) = Inr c" using tls_normalize_fixed[OF p(5)] p(8) by simp
  moreover have "snippets_ok t = Inr ()" using p(7,8) by (simp add: snippets_ok_def)
  ultimately show ?thesis using p by (simp add: site_normalize_def)
qed

lemma normalized_safe:
  assumes "site_normalize ok s = Inr t" "hash_key_plain t" shows "site_safe t"
proof -
  from assms(1) obtain ns u c where p: "validate_site_id (sid s) = Inr ()" "names_of s = Inr ns" "marker_ok (owner s) = Inr ()"
    "upstream_normalize s = Inr u" "tls_normalize ok ns (tls s) = Inr c" "proxy_ok (proxy s) = Inr ()" "snippets_ok s = Inr ()"
    "t = s\<lparr>server_names := ns, upstream := u, tls := c\<rparr>" by (rule site_normalize_parts)
  have i: "list_all (\<lambda>c. lower_alnum c \<or> c \<in> set ''-_.'') (sid t)" using p(1,8) by (simp add: validate_site_id_def)
  have "plain_word n" if "n \<in> set ns" for n
  proof -
    from names_of_facts[OF p(2)] that have "\<exists>v. validate_server_name n = Inr v" by simp
    then obtain v where "validate_server_name n = Inr v" ..
    from server_name_chars[OF this] have v: "n \<noteq> []" "\<And>c. c \<in> set n \<Longrightarrow> server_char c" by (auto simp: list_all_iff)
    have "plain_char c" if "c \<in> set n" for c using v(2)[OF that] name_char_plain by blast
    moreover have "hd n \<noteq> CHR ''#''" using name_char_plain[OF v(2)[of "hd n"]] v(1) by simp
    ultimately show ?thesis using v(1) by (simp add: plain_word_def list_all_iff)
  qed
  then have n: "server_names t \<noteq> []" "list_all plain_word (server_names t)"
    using names_of_facts[OF p(2)] p(8) by (auto simp: list_all_iff)
  have o: "CHR 0x0A \<notin> set m" if "owner t = Some m" for m
    using that p(3,8) by (auto simp: marker_ok_def list_ex_iff is_white_def)
  have k: "plain_word (trim (hash_key (upstream t)))" if b: "balance (upstream t) = HashKey"
  proof -
    from p(4) have "hash_key_ok (upstream s)" "hash_key u = hash_key (upstream s)" "balance u = balance (upstream s)"
      by (auto simp: upstream_normalize_def Let_def split: if_splits)
    with b p(8) assms(2) have h: "trim (hash_key u) \<noteq> []" "hd (trim (hash_key u)) \<noteq> CHR ''#''"
      "\<And>c. c \<in> set (trim (hash_key u)) \<Longrightarrow> \<not> is_white c \<and> c \<notin> set ('';{}'' @ DQUOTE @ SQUOTE) \<and> c \<noteq> CHR 0x5C"
      by (auto simp: hash_key_ok_def hash_key_plain_def list_ex_iff)
    have "plain_char c" if "c \<in> set (trim (hash_key u))" for c
      using h(3)[OF that] conf_white_white by (auto simp: plain_char_def)
    with h(1,2) p(8) show ?thesis by (simp add: plain_word_def list_all_iff)
  qed
  have z: "plain_word (trim (max_body (proxy t)))" if "max_body (proxy t) \<noteq> []"
    using that p(6,8) by (auto simp: proxy_ok_def size_plain)
  from p(6) obtain us where "traverse validate_header (request_headers (proxy s) @ response_headers (proxy s)) = Inr us"
    by (auto simp: proxy_ok_def split: if_splits)
  then have "header_safe x" if "x \<in> set (request_headers (proxy s) @ response_headers (proxy s))" for x
    using traverse_set1[OF _ that] header_safe by blast
  then have h: "list_all header_safe (request_headers (proxy t))" "list_all header_safe (response_headers (proxy t))"
    using p(8) by (simp_all add: list_all_iff)
  show ?thesis unfolding site_safe_def using i n o k z h by (simp split: option.split)
qed

end
