(* ===== verification/WebStore.thy ===== *)
theory WebStore
  imports WebSites WebSwap WebNorm
begin

text \<open>
  What the operations do to the stored sites: they stay well formed, and a push of one owner leaves
  the sites of the others alone.
\<close>

section \<open>What applying leaves alone\<close>

text \<open>A part \<open>g\<close> of the world that applying does not touch.\<close>

definition apart :: "(web_world \<Rightarrow> 'x) \<Rightarrow> bool" where
  "apart g \<longleftrightarrow> (\<forall>w x. g (w\<lparr>wfiles := x\<rparr>) = g w) \<and> (\<forall>w x. g (w\<lparr>wouts := x\<rparr>) = g w) \<and> (\<forall>w x. g (w\<lparr>tests_run := x\<rparr>) = g w) \<and>
     (\<forall>w x. g (w\<lparr>loaded := x\<rparr>) = g w) \<and> (\<forall>w x. g (w\<lparr>container := x\<rparr>) = g w) \<and> (\<forall>w x. g (w\<lparr>wstat := x\<rparr>) = g w)"

lemma apart_effect:
  assumes "apart g" "\<And>w. g (f w) = g w" shows "frames g (effect e f)"
  using assms by (intro frames_outcome) (simp_all add: apart_def)

lemma apart_files: "apart g \<Longrightarrow> frames g (write_text p c)" "apart g \<Longrightarrow> frames g (delete_path p)" "apart g \<Longrightarrow> frames g (make_dir p)"
  by (intro frames_files; simp add: apart_def)+

lemma apart_stat: "apart g \<Longrightarrow> frames g (set_stat f)"
  unfolding set_stat_def by (intro frames_modify) (simp add: apart_def)

lemma apart_binds: "apart g \<Longrightarrow> frames g (ensure_binds env ws)" "apart g \<Longrightarrow> frames g (ensure_logrotate env)"
  unfolding ensure_binds_def create_container_def ensure_logrotate_def
  by (intro frame_rules apart_files apart_effect; simp add: apart_def)+

lemma apart_loop:
  assumes "apart g" shows "frames g (test_loop pl v)"
proof (rule frames_loop)
  show "frames g (test_attempt pl v)" for v
    unfolding test_attempt_def run_test_def using assms
    by (intro frame_rules frames_tree apart_effect) (simp_all add: apart_def)
  show "frames g (give_up pl out :: test_verdict wio)" for out
    unfolding give_up_def using assms by (intro frame_rules apart_files apart_stat)
qed

lemma apart_apply:
  assumes g: "apart g" shows "frames g (apply_locked env ws ss st)"
proof -
  have "frames g (swap_live pl v)" for pl v
    unfolding swap_live_def Let_def write_global_def swap_site_def write_below_def prune_dir_def reload_engine_def
    by (intro frame_rules apart_files[OF g] apart_stat[OF g] apart_effect[OF g] frames_modify; use g in \<open>simp add: apart_def\<close>)
  moreover have "frames g (judge pl)" for pl
    unfolding judge_def by (intro frame_rules apart_binds[OF g] apart_loop[OF g] apart_files[OF g])
  moreover have "frames g (claim_all env ss)"
    unfolding claim_all_def by (intro frames_modify) (use g in \<open>simp add: apart_def\<close>)
  ultimately show ?thesis unfolding apply_locked_def by (intro frame_rules apart_files[OF g])
qed

lemma apart_sites: "apart saved_sites" "apart saved_settings"
  by (simp_all add: apart_def)

lemma frames_save_status: "frames saved_sites (save_status env f)" "frames saved_settings (save_status env f)"
  unfolding save_status_def by (intro frames_outcome; simp)+

lemma frames_loads:
  "apart g \<Longrightarrow> frames g load_web_settings" "apart g \<Longrightarrow> frames g load_sites" "apart g \<Longrightarrow> frames g load_status" "apart g \<Longrightarrow> frames g take_status"
  unfolding load_web_settings_def load_sites_def load_status_def take_status_def read_effect_def
  by (intro frame_rules apart_effect apart_stat; (assumption | simp | auto split: doc.split intro: frame_rules))+

lemma frames_apply_saved: "frames saved_sites (apply_saved env ws ss)" "frames saved_settings (apply_saved env ws ss)"
  unfolding apply_saved_def
  by (intro frame_rules apart_apply apart_sites frames_save_status)+

lemma frames_reapply: "frames saved_sites (reapply_locked env)"
  unfolding reapply_locked_def by (intro frame_rules frames_loads apart_sites frames_apply_saved)

lemma frames_root [frame_rules]: "frames g (require_web_root env)"
  unfolding require_web_root_def by (intro frame_rules)

lemma frames_view: "frames g (view_site s f)" "frames g (view_all ss f)" "frames g (find_site i ss)"
proof -
  show v: "frames g (view_site s f)" for s f unfolding view_site_def by (intro frame_rules)
  show "frames g (view_all ss f)"
  proof (induction ss)
    case (Cons s ss)
    then show ?case unfolding view_all.simps by (intro frame_rules v)
  qed (simp add: frame_rules)
  show "frames g (find_site i ss)" unfolding find_site_def by (intro frame_rules)
qed

lemma frames_reads: "apart g \<Longrightarrow> frames g (list_sites m)" "apart g \<Longrightarrow> frames g (get_site i)"
  unfolding list_sites_def get_site_def by (intro frame_rules frames_loads frames_view; assumption)+

lemma frames_issue: "frames saved_sites (issue_site env s)"
  unfolding issue_site_def store_cert_def Let_def
  by (intro frame_rules frames_loads frames_reapply frames_save_status apart_sites apart_files)
    (auto intro!: frame_rules apart_files apart_sites split: issue_error.split sum.split)

lemma frames_reload: "frames saved_sites (reload_web env)"
  unfolding reload_web_def by (intro frame_rules frames_reapply)

lemma frames_test: "frames saved_sites (test_web env)"
  unfolding test_web_def by (intro frame_rules frames_loads apart_sites apart_apply)

lemma frames_settings: "frames saved_sites (update_web_settings env ws)"
proof -
  have "frames saved_sites (save_web_settings env s)" for s
    unfolding save_web_settings_def by (intro frames_outcome) simp_all
  then show ?thesis
    unfolding update_web_settings_def Let_def by (intro frame_rules frames_loads apart_sites frames_apply_saved)
qed

lemma frames_renew: "frames saved_sites (renew_site env i)"
  unfolding renew_site_def by (intro frame_rules frames_loads apart_sites frames_view frames_issue frames_reads)

lemma frames_tick: "frames saved_sites (web_tick env)"
proof -
  have "frames saved_sites (refresh_cloudflare env)"
    unfolding refresh_cloudflare_def by (auto simp: split_beta intro!: frame_rules frames_outcome split: sum.split)
  moreover have "frames saved_sites (upstreams_moved env)"
    unfolding upstreams_moved_def by (intro frame_rules frames_loads apart_sites)
  moreover have "frames saved_sites (acme_pass env)"
    unfolding acme_pass_def by (intro frame_rules frames_loads apart_sites frames_issue)
  ultimately show ?thesis
    unfolding web_tick_def by (intro frame_rules frames_loads apart_sites frames_reapply)
qed

section \<open>Well formed stores\<close>

definition wf_sites :: "web_env \<Rightarrow> site list \<Rightarrow> bool" where
  "wf_sites env ss \<longleftrightarrow> distinct (map sid ss) \<and> (\<forall>s\<in>set ss. site_normalize (key_pair_ok env) s = Inr s)"

definition stored_sites :: "web_world \<Rightarrow> site list" where
  "stored_sites w = (case saved_sites w of Doc ss \<Rightarrow> ss | _ \<Rightarrow> [])"

definition wf_stored :: "web_env \<Rightarrow> web_world \<Rightarrow> bool" where
  "wf_stored env w = wf_sites env (stored_sites w)"

lemma wf_Nil: "wf_sites env []"
  by (simp add: wf_sites_def)

lemma keeps_frames_sites: "frames saved_sites m \<Longrightarrow> keeps (wf_stored env) m (\<lambda>_. True)"
  using keeps_frame[of saved_sites m "\<lambda>d. wf_sites env (case d of Doc ss \<Rightarrow> ss | _ \<Rightarrow> [])"]
  by (simp add: wf_stored_def[abs_def] stored_sites_def)

lemma load_sites_result: "load_sites w = (Inr ss, u) \<Longrightarrow> ss = stored_sites w \<and> saved_sites u = saved_sites w"
  by (auto simp: load_sites_def read_effect_def effect_def step_io_def stored_sites_def seq_def bind_def asks_def ret_def throw_def Let_def
      split: prod.splits if_splits doc.splits)

lemma keeps_load_sites: "keeps (wf_stored env) load_sites (wf_sites env)"
proof (rule keepsI)
  fix w e u assume "wf_stored env w" "load_sites w = (Inl e, u)"
  then show "wf_stored env u"
    using framesD[OF frames_loads(2)[OF apart_sites(1)], of w] by (simp add: wf_stored_def stored_sites_def)
next
  fix w ss u assume "wf_stored env w" "load_sites w = (Inr ss, u)"
  with load_sites_result[of w ss u] show "wf_stored env u \<and> wf_sites env ss" by (simp add: wf_stored_def stored_sites_def)
qed

lemma keeps_save_sites: "wf_sites env ss \<Longrightarrow> keeps (wf_stored env) (save_sites env ss) (\<lambda>_. True)"
  by (rule keepsI) (auto simp: save_sites_def effect_def step_io_def wf_stored_def stored_sites_def Let_def split: prod.splits if_splits)

lemma keeps_commit: "wf_sites env ss \<Longrightarrow> keeps (wf_stored env) (commit_sites env ss) (\<lambda>_. True)"
  unfolding commit_sites_def
  by (rule keeps_seq[OF keeps_save_sites], assumption, rule keeps_frames_sites)
    (intro frame_rules frames_loads apart_sites apart_stat frames_save_status frames_apply_saved)

lemma normalized_keeps: "site_normalize ok s = Inr t \<Longrightarrow> sid t = sid s \<and> owner t = owner s"
  by (auto simp: site_normalize_def)

lemma prepared:
  assumes "prepare_sites env m ids ss = Inr ts"
  shows "wf_sites env ts \<and> (\<forall>t\<in>set ts. owner t = Some m \<and> sid t \<notin> ids)"
  using assms
proof (induction ss arbitrary: ids ts)
  case (Cons s ss)
  from Cons.prems obtain t us where t: "site_normalize (key_pair_ok env) (s\<lparr>owner := Some m\<rparr>) = Inr t" "sid t \<notin> ids"
    "prepare_sites env m (insert (sid t) ids) ss = Inr us" "ts = t # us"
    by (auto simp: and_then_Inr_iff map_err_Inr_iff map_ok_Inr_iff split: if_splits)
  from Cons.IH[OF t(3)] t normalized_keeps[OF t(1)] site_normalize_fixed[OF t(1)] show ?case
    by (auto simp: wf_sites_def)
qed (simp add: wf_sites_def)

lemma put_site_ids: "put_site s ss = Inr ts \<Longrightarrow> set (map sid ts) = insert (sid s) (set (map sid ss)) \<and> (distinct (map sid ss) \<longrightarrow> distinct (map sid ts))
    \<and> set ts \<subseteq> insert s (set ss)"
proof (induction ss arbitrary: ts)
  case (Cons t ss)
  then show ?case by (fastforce simp: map_ok_Inr_iff split: if_splits)
qed simp

lemma put_site_wf: "put_site s ss = Inr ts \<Longrightarrow> wf_sites env ss \<Longrightarrow> site_normalize (key_pair_ok env) s = Inr s \<Longrightarrow> wf_sites env ts"
  using put_site_ids[of s ss ts] by (auto simp: wf_sites_def)

lemma replaced_wf:
  assumes "wf_sites env cur" "prepare_sites env m {} inc = Inr new" "find (\<lambda>s. owner s \<noteq> Some m \<and> sid s \<in> sid ` set new) cur = None"
  shows "wf_sites env (filter (\<lambda>s. owner s \<noteq> Some m) cur @ new)"
  using assms(1,3) prepared[OF assms(2)] by (auto simp: wf_sites_def find_None_iff distinct_map_filter)

lemma keeps_true: "keeps P m Q \<Longrightarrow> keeps P m (\<lambda>_. True)"
  by (rule keeps_weaken) auto

lemma keeps_then: "keeps P m (\<lambda>_. True) \<Longrightarrow> keeps P k R \<Longrightarrow> keeps P (seq m k) R"
  by (rule keeps_seq)

lemma keeps_root: "keeps P (require_web_root env) (\<lambda>_. True)"
  unfolding require_web_root_def by (rule keeps_true[OF keeps_pure(3)])

lemma keeps_check: "keeps P (fail_if c e) (\<lambda>_. True)"
  by (rule keeps_true[OF keeps_pure(3)])

lemma keeps_push: "keeps (wf_stored env) (replace_sites env m inc) (\<lambda>_. True)"
  unfolding replace_sites_def
proof (rule keeps_then[OF keeps_root], rule keeps_then[OF keeps_check], rule keeps_bind[OF keeps_pure(4)],
    rule keeps_bind[OF keeps_load_sites], rule keeps_option)
  fix new cur assume p: "prepare_sites env m {} inc = Inr new" and wf: "wf_sites env cur"
    and none: "find (\<lambda>s. owner s \<noteq> Some m \<and> sid s \<in> sid ` set new) cur = None"
  show "keeps (wf_stored env) (seq (commit_sites env (filter (\<lambda>s. owner s \<noteq> Some m) cur @ new)) (list_sites (Some m))) (\<lambda>_. True)"
    by (rule keeps_then[OF keeps_commit[OF replaced_wf[OF wf p none]] keeps_frames_sites[OF frames_reads(1)[OF apart_sites(1)]]])
next
  fix new cur clash
  show "keeps (wf_stored env) (throw (ForeignSite (sid clash))) (\<lambda>_. True)" by (rule keeps_pure(2))
qed

lemma keeps_site_upsert: "keeps (wf_stored env) (upsert_site env s) (\<lambda>_. True)"
  unfolding upsert_site_def
proof (rule keeps_then[OF keeps_root], rule keeps_bind[OF keeps_pure(4)], rule keeps_bind[OF keeps_load_sites], rule keeps_bind[OF keeps_pure(4)])
  fix t ss new assume "map_err InvalidSite (site_normalize (key_pair_ok env) s) = Inr t" "wf_sites env ss" "put_site t ss = Inr new"
  then have "wf_sites env new" using put_site_wf[of t ss new env] site_normalize_fixed by (auto simp: map_err_Inr_iff)
  from keeps_then[OF keeps_commit[OF this] keeps_frames_sites[OF frames_reads(2)[OF apart_sites(1)]]]
  show "keeps (wf_stored env) (seq (commit_sites env new) (get_site (sid t))) (\<lambda>_. True)" .
qed

lemma keeps_site_removal: "keeps (wf_stored env) (remove_site env i) (\<lambda>_. True)"
  unfolding remove_site_def Let_def
proof (rule keeps_then[OF keeps_root], rule keeps_bind[OF keeps_load_sites], rule keeps_if)
  fix ss assume "wf_sites env ss"
  then have "wf_sites env (filter (\<lambda>s. sid s \<noteq> i) ss)" by (auto simp: wf_sites_def distinct_map_filter)
  from keeps_then[OF keeps_commit[OF this] keeps_pure(1)[of "\<lambda>_. True", OF TrueI]]
  show "keeps (wf_stored env) (seq (commit_sites env (filter (\<lambda>s. sid s \<noteq> i) ss)) (ret True)) (\<lambda>_. True)" .
qed (rule keeps_pure(1), simp)

lemma keeps_api: "keeps (wf_stored env) (set_api_proxy env d u b c) (\<lambda>_. True)" "keeps (wf_stored env) (remove_api_proxy env) (\<lambda>_. True)"
  unfolding set_api_proxy_def remove_api_proxy_def
  by (rule keeps_then[OF keeps_root], rule keeps_bind[OF keeps_frames_sites[OF frames_loads(1)[OF apart_sites(1)]]],
      rule keeps_if[OF keeps_pure(2) keeps_site_upsert])
    (rule keeps_then[OF keeps_root], rule keeps_bind[OF keeps_load_sites], rule keeps_if[OF keeps_pure(1) keeps_site_removal], simp)

lemma frames_wf: "frames saved_sites m \<Longrightarrow> wf_stored env w \<Longrightarrow> wf_stored env (snd (m w))"
  by (rule keeps_world[OF keeps_frames_sites])

lemma op_keeps: "wf_stored env w \<Longrightarrow> wf_stored env (run_op env op w)"
  by (cases op) (simp_all add: keeps_world[OF keeps_push] keeps_world[OF keeps_site_upsert] keeps_world[OF keeps_site_removal]
    keeps_world[OF keeps_api(1)] keeps_world[OF keeps_api(2)] frames_wf frames_settings frames_test frames_reload frames_renew
    frames_tick frames_reads(1)[OF apart_sites(1)])

lemma reach_wf: "web_reach env w \<Longrightarrow> wf_stored env w"
proof (induction rule: web_reach.induct)
  case (start w env)
  then show ?case by (simp add: wf_stored_def stored_sites_def wf_Nil)
next
  case (operate env w op)
  from operate.IH show ?case by (rule op_keeps)
next
  case (meanwhile env w u)
  then show ?case by (simp add: wf_stored_def stored_sites_def)
qed

section \<open>A push of one owner\<close>

lemma commit_stored: "stored_sites (snd (commit_sites env ss w)) \<in> {stored_sites w, ss}"
proof -
  obtain r u where r: "save_sites env ss w = (r, u)" by (cases "save_sites env ss w")
  then have u: "r = Inr () \<and> stored_sites u = ss \<or> (\<exists>e. r = Inl e) \<and> stored_sites u = stored_sites w"
    by (auto simp: save_sites_def effect_def step_io_def stored_sites_def Let_def split: prod.splits if_splits)
  let ?k = "bind load_web_settings (\<lambda>ws. seq take_status
     (seq (set_stat (\<lambda>f. f\<lparr>sf_sites := sf_sites f |` (sid ` set ss)\<rparr>))
     (if ws_mode ws = ModeNone then
        seq (set_stat (\<lambda>f. f\<lparr>sf_sites := fold (\<lambda>s st. st(sid s \<mapsto> (site_entry st (sid s))\<lparr>ss_state := SitePending,
            message := ''the web server is not installed on this node''\<rparr>)) ss (sf_sites f)\<rparr>))
          (bind (asks wstat) (save_status env))
      else bind (apply_saved env ws ss) (\<lambda>_. ret ()))))"
  have "frames saved_sites ?k"
    by (intro frame_rules frames_loads apart_sites apart_stat frames_save_status frames_apply_saved)
  then have "stored_sites (snd (?k u)) = stored_sites u" by (simp add: frames_def stored_sites_def)
  moreover have "snd (commit_sites env ss w) = (case r of Inl e \<Rightarrow> u | Inr _ \<Rightarrow> snd (?k u))"
    using r by (simp add: commit_sites_def seq_def bind_def split: sum.split)
  ultimately show ?thesis using u by auto
qed

definition replaced_by :: "web_env \<Rightarrow> string \<Rightarrow> site list \<Rightarrow> site list \<Rightarrow> site list \<Rightarrow> bool" where
  "replaced_by env m inc old new \<longleftrightarrow> (\<exists>ts. prepare_sites env m {} inc = Inr ts \<and> new = filter (\<lambda>s. owner s \<noteq> Some m) old @ ts)"

lemma replace_stored:
  "stored_sites (snd (replace_sites env m inc w)) = stored_sites w \<or> replaced_by env m inc (stored_sites w) (stored_sites (snd (replace_sites env m inc w)))"
proof (cases "\<not> as_root env \<or> trim m = []")
  case True
  then show ?thesis by (auto simp: replace_sites_def require_web_root_def io_simps)
next
  case ok: False
  show ?thesis
  proof (cases "prepare_sites env m {} inc")
    case (Inl e)
    with ok show ?thesis by (simp add: replace_sites_def require_web_root_def io_simps)
  next
    case (Inr ts)
    obtain r u where r: "load_sites w = (r, u)" by (cases "load_sites w")
    then have u: "stored_sites u = stored_sites w"
      using framesD[OF frames_loads(2)[OF apart_sites(1)], of w] by (simp add: stored_sites_def)
    show ?thesis
    proof (cases r)
      case (Inl e)
      with ok Inr r u show ?thesis by (simp add: replace_sites_def require_web_root_def io_simps) (simp add: bind_def)
    next
      case (Inr cur)
      with r load_sites_result have cur: "cur = stored_sites w" by blast
      let ?new = "filter (\<lambda>s. owner s \<noteq> Some m) cur @ ts"
      show ?thesis
      proof (cases "find (\<lambda>s. owner s \<noteq> Some m \<and> sid s \<in> sid ` set ts) cur")
        case (Some clash)
        with ok \<open>prepare_sites env m {} inc = Inr ts\<close> Inr r u show ?thesis
          by (simp add: replace_sites_def require_web_root_def io_simps) (simp add: bind_def throw_def)
      next
        case None
        obtain r2 u2 where r2: "commit_sites env ?new u = (r2, u2)" by (cases "commit_sites env ?new u")
        have "snd (replace_sites env m inc w) = (case r2 of Inl e \<Rightarrow> u2 | Inr _ \<Rightarrow> snd (list_sites (Some m) u2))"
          using None ok \<open>prepare_sites env m {} inc = Inr ts\<close> Inr r r2
          by (simp add: replace_sites_def require_web_root_def io_simps) (simp add: bind_def seq_def split: sum.split)
        moreover have "stored_sites (snd (list_sites (Some m) u2)) = stored_sites u2"
          using framesD[OF frames_reads(1)[OF apart_sites(1)], of "Some m" u2] by (simp add: stored_sites_def)
        ultimately have "stored_sites (snd (replace_sites env m inc w)) = stored_sites u2" by (cases r2) simp_all
        moreover have "stored_sites u2 \<in> {stored_sites w, ?new}" using commit_stored[of env ?new u] r2 u by simp
        ultimately show ?thesis
          using \<open>prepare_sites env m {} inc = Inr ts\<close> cur by (auto simp: replaced_by_def)
      qed
    qed
  qed
qed

section \<open>Settings that nginx refuses\<close>

lemma live_side_apart: "frames (live_side d) load_web_settings" "frames (live_side d) load_sites" "frames (live_side d) take_status"
  "frames (live_side d) (save_status env f)" "frames (live_side d) (save_web_settings env s)"
  unfolding load_web_settings_def load_sites_def take_status_def load_status_def read_effect_def save_status_def save_web_settings_def
  by (intro frame_rules frames_outcome; (simp add: live_side_def | auto simp: live_side_def split: doc.split intro: frame_rules))+

text \<open>What a refused change of the settings may not touch.\<close>

definition settings_side :: "string \<Rightarrow> web_world \<Rightarrow> web_settings doc \<times> site list doc \<times> texts" where
  "settings_side d w = (saved_settings w, saved_sites w, outside d (wfiles w))"

lemma frames_pair: "frames saved_settings m \<Longrightarrow> frames saved_sites m \<Longrightarrow> frames (live_side d) m \<Longrightarrow> frames (settings_side d) m"
  by (simp add: frames_def settings_side_def live_side_def)

lemma settings_side_loads: "frames (settings_side d) load_web_settings" "frames (settings_side d) load_sites" "frames (settings_side d) take_status"
  "frames (settings_side d) (save_status env f)"
  by (intro frames_pair frames_loads apart_sites live_side_apart frames_save_status)+

lemma rejected_apply:
  assumes "apply_locked env ws ss st w = (Inl (NginxRejected out), u)" shows "settings_side (staging (env_paths env)) u = settings_side (staging (env_paths env)) w"
  using apply_aborts[of st env ws ss w out] assms framesD[OF apart_apply[OF apart_sites(1)], of env ws ss st w]
    framesD[OF apart_apply[OF apart_sites(2)], of env ws ss st w] by (simp add: settings_side_def spared_def)

lemma save_status_error: "save_status env f w = (Inl e, u) \<Longrightarrow> e \<noteq> NginxRejected out"
  by (auto simp: save_status_def dest: effect_error)

lemma rejected_saved:
  assumes "apply_saved env ws ss w = (Inl (NginxRejected out), u)"
  shows "settings_side (staging (env_paths env)) u = settings_side (staging (env_paths env)) w"
proof -
  obtain r w1 where r: "apply_locked env ws ss Full w = (r, w1)" by (cases "apply_locked env ws ss Full w")
  obtain r2 w2 where s: "save_status env (wstat w1) w1 = (r2, w2)" by (cases "save_status env (wstat w1) w1")
  have "r = Inl (NginxRejected out) \<and> u = w2"
    using assms r s save_status_error[of env "wstat w1" w1]
    by (cases r2) (auto simp: apply_saved_def catch_run bind_def asks_def seq_def lift_result_def)
  with r s rejected_apply[of env ws ss Full w out w1] framesD[OF settings_side_loads(4), of "staging (env_paths env)" env "wstat w1" w1]
  show ?thesis by simp
qed

lemma load_error: "load_sites w = (Inl e, u) \<Longrightarrow> e \<noteq> NginxRejected out"
  by (auto simp: load_sites_def read_effect_def seq_Inl bind_Inl asks_def throw_def ret_def split: doc.splits dest: effect_error) (metis doc.exhaust)

lemma save_settings_error: "save_web_settings env s w = (Inl e, u) \<Longrightarrow> e \<noteq> NginxRejected out"
  by (auto simp: save_web_settings_def dest: effect_error)

lemma load_settings_ok: "\<exists>ws u. load_web_settings w = (Inr ws, u)"
  by (auto simp: load_web_settings_def catch_run bind_def asks_def ret_def split: sum.split)

lemma take_status_ok: "\<exists>u. take_status w = (Inr (), u)"
  by (auto simp: take_status_def load_status_def catch_run bind_def asks_def ret_def set_stat_def modify_def split: sum.split)

lemma refused_settings:
  assumes "fst (update_web_settings env new w) = Inl (NginxRejected out)"
  shows "settings_side (staging (env_paths env)) (snd (update_web_settings env new w)) = settings_side (staging (env_paths env)) w"
proof -
  let ?d = "settings_side (staging (env_paths env))"
  obtain x where ok: "as_root env" "settings_ok new = Inr x"
    using assms by (cases "settings_ok new") (auto simp: update_web_settings_def require_web_root_def io_simps split: if_splits)
  obtain cur w1 where c: "load_web_settings w = (Inr cur, w1)" using load_settings_ok by blast
  let ?new = "new\<lparr>ws_mode := ws_mode cur, host := host cur\<rparr>"
  have u: "update_web_settings env new w = (if ws_mode cur = ModeNone then save_web_settings env ?new w1
     else bind load_sites (\<lambda>ss. seq take_status (bind (apply_saved env ?new ss) (\<lambda>_. save_web_settings env ?new))) w1)"
    using ok c by (simp add: update_web_settings_def require_web_root_def io_simps Let_def) (simp add: bind_def)
  show ?thesis
  proof (cases "ws_mode cur = ModeNone")
    case True
    with assms u save_settings_error[of env ?new w1] show ?thesis by (cases "save_web_settings env ?new w1") auto
  next
    case False
    obtain r w2 where l: "load_sites w1 = (r, w2)" by (cases "load_sites w1")
    show ?thesis
    proof (cases r)
      case (Inl e)
      with False assms u l load_error[of w1 e w2] show ?thesis by (simp add: bind_def)
    next
      case (Inr ss)
      obtain w3 where t: "take_status w2 = (Inr (), w3)" using take_status_ok by blast
      obtain r4 w4 where a: "apply_saved env ?new ss w3 = (r4, w4)" by (cases "apply_saved env ?new ss w3")
      have w3: "?d w3 = ?d w"
        using framesD[OF settings_side_loads(1), of "staging (env_paths env)" w] framesD[OF settings_side_loads(2), of "staging (env_paths env)" w1]
          framesD[OF settings_side_loads(3), of "staging (env_paths env)" w2] c l t by simp
      have e: "update_web_settings env new w = bind (apply_saved env ?new ss) (\<lambda>_. save_web_settings env ?new) w3"
        using False u l Inr t by (simp add: bind_def seq_def)
      show ?thesis
      proof (cases r4)
        case (Inl e4)
        with e a assms have "e4 = NginxRejected out" "snd (update_web_settings env new w) = w4" by (simp_all add: bind_def)
        with rejected_saved[of env ?new ss w3 out w4] a Inl w3 show ?thesis by simp
      next
        case (Inr y)
        with e a assms save_settings_error[of env ?new w4] show ?thesis
          by (cases "save_web_settings env ?new w4") (auto simp: bind_def)
      qed
    qed
  qed
qed

end
