(* ===== verification/WebProps.thy ===== *)
theory WebProps
  imports WebNorm
begin

text \<open>
  The properties of the sites of the web server and of their rendered files.
\<close>

section \<open>Rendered sites\<close>

text \<open>
  The file of a site that passed validation and has no snippet of its own reads, in the syntax of nginx, as
  exactly the directives its fields ask for, every value as one word, where the addresses and the paths it is
  rendered with are plain words.
\<close>

theorem validated_site_reads:
  assumes "site_normalize pair_ok s = Inr (rs_site r)" and "hash_key_plain (rs_site r)"
    and "no_snippets (rs_site r)" and "places_safe r base dir"
  shows "conf_tokens (render_site r ws f base dir) = Some (concat (map flatten (site_tree r ws f base dir)))"
  using normalized_safe[OF assms(1,2)] assms(3,4) by (intro site_reads)

definition ex_server :: "string \<Rightarrow> upstream_server" where
  "ex_server a = \<lparr>target = AddressTarget a, weight = 2, backup = False, max_fails = 0, fail_timeout_secs = 0, us_down = False\<rparr>"

definition ex_tls :: site_tls where
  "ex_tls = \<lparr>tls_mode = TlsNone, certificate_pem = [], private_key_pem = [], redirect_http = False, tls_hsts = False, tls_http2 = True\<rparr>"

definition ex_proxy :: proxy where
  "ex_proxy = \<lparr>websocket = True, max_body = ''10m'', connect_timeout = 0, read_timeout = 60, send_timeout = 0,
     request_headers = [\<lparr>hname = ''X-Via'', hvalue = ''a b # c''\<rparr>], response_headers = [], upstream_host = False, no_buffering = False\<rparr>"

definition ex_site :: "string \<Rightarrow> balance \<Rightarrow> string \<Rightarrow> site" where
  "ex_site i b k = \<lparr>sid = i, server_names = [''shop.example.org''], owner = None, disabled = False,
     upstream = \<lparr>servers = [ex_server ''10.0.0.1:80''], balance = b, hash_key = k, keepalive = 8, up_tls = False, health_of = default_health\<rparr>,
     tls = ex_tls, proxy = ex_proxy, real_ip = RealIpOff, extra_server = [], extra_location = [], raw_config = None,
     logs = \<lparr>log_access = True, log_error = False\<rparr>\<rparr>"

definition ex_resolved :: "site \<Rightarrow> resolved_site" where
  "ex_resolved s = \<lparr>rs_site = s, rs_addresses = [''10.0.0.1:80''], rs_cert = None, rs_down = [False]\<rparr>"

definition ex_features :: features where
  "ex_features = \<lparr>http2_directive = True, reject_handshake = True, ipv6 = False\<rparr>"

lemma ex_parts:
  "validate_address ''10.0.0.1:80'' = Inr ()"
  "validate_size f ''10m'' = Inr ()"
  "names_of (t\<lparr>server_names := [''shop.example.org'']\<rparr>) = Inr [''shop.example.org'']"
  "names_of (t\<lparr>server_names := ['' Shop.Example.org. '']\<rparr>) = Inr [''shop.example.org'']"
proof -
  show "validate_address ''10.0.0.1:80'' = Inr ()"
    by (simp add: validate_address_def rsplit_once_def parse_radix_def to_digit_def is_digit_def bracketed_def byte_len_def
        is_alnum_def from_base.simps)
  show "validate_size f ''10m'' = Inr ()"
    by (simp add: validate_size_def Let_def trim_def trim_start_def trim_end_def is_white_def trim_end_set_def is_digit_def byte_len_def)
  have "normal_names [''shop.example.org''] = [''shop.example.org'']" "normal_names ['' Shop.Example.org. ''] = [''shop.example.org'']"
    by code_simp+
  moreover have "validate_server_name ''shop.example.org'' = Inr ()" by code_simp
  ultimately show "names_of (t\<lparr>server_names := [''shop.example.org'']\<rparr>) = Inr [''shop.example.org'']"
    "names_of (t\<lparr>server_names := ['' Shop.Example.org. '']\<rparr>) = Inr [''shop.example.org'']"
    by (simp_all add: names_of_def Let_def MAX_NAMES_def)
qed

lemma ex_site_fold: "ex_site i b k = (ex_site i b k)\<lparr>server_names := [''shop.example.org'']\<rparr>"
  by (simp add: ex_site_def)

lemma ex_site_parts:
  "upstream_normalize (ex_site i b k) = (if hash_key_ok (upstream (ex_site i b k)) then Inr (upstream (ex_site i b k)) else Inl NoHashKey)"
  "proxy_ok ex_proxy = Inr ()" "snippets_ok (ex_site i b k) = Inr ()"
  by (simp_all add: upstream_normalize_def ex_site_def ex_server_def ex_proxy_def server_ok_def ex_parts guard_def health_validate_def
      health_enabled_def default_health_def proxy_ok_def validate_header_def list_ex_iff bad_header_char_def is_control_def is_alnum_def
      is_digit_def is_upper_def is_lower_def DQUOTE_def snippets_ok_def validate_snippet_def byte_len_def MAX_SNIPPET_def Let_def)

lemma ex_normalize:
  assumes "validate_site_id i = Inr ()" "hash_key_ok (upstream (ex_site i b k))"
  shows "site_normalize ok (ex_site i b k) = Inr (ex_site i b k)"
    "site_normalize ok ((ex_site i b k)\<lparr>server_names := ['' Shop.Example.org. '']\<rparr>) = Inr (ex_site i b k)"
proof -
  have n: "names_of (ex_site i b k) = Inr [''shop.example.org'']" by (subst ex_site_fold) (rule ex_parts)
  have t: "tls_normalize ok ns ex_tls = Inr ex_tls" for ns by (simp add: tls_normalize_def ex_tls_def clear_pem_def)
  have u: "upstream_normalize ((ex_site i b k)\<lparr>server_names := ns\<rparr>) = upstream_normalize (ex_site i b k)"
    "snippets_ok ((ex_site i b k)\<lparr>server_names := ns\<rparr>) = snippets_ok (ex_site i b k)" for ns
    by (simp_all add: upstream_normalize_def snippets_ok_def ex_site_def)
  have f: "sid (ex_site i b k) = i" "owner (ex_site i b k) = None" "tls (ex_site i b k) = ex_tls" "proxy (ex_site i b k) = ex_proxy"
    by (simp_all add: ex_site_def)
  have e: "(ex_site i b k)\<lparr>server_names := [''shop.example.org''], upstream := upstream (ex_site i b k), tls := ex_tls\<rparr> = ex_site i b k"
    "(ex_site i b k)\<lparr>server_names := [''shop.example.org''], tls := ex_tls\<rparr> = ex_site i b k"
    by (simp_all add: ex_site_def)
  show "site_normalize ok (ex_site i b k) = Inr (ex_site i b k)"
    using assms by (simp add: site_normalize_def n t f ex_site_parts marker_ok_def e)
  show "site_normalize ok ((ex_site i b k)\<lparr>server_names := ['' Shop.Example.org. '']\<rparr>) = Inr (ex_site i b k)"
    using assms by (simp add: site_normalize_def ex_parts t f u ex_site_parts marker_ok_def e)
qed

lemma ex_ids: "validate_site_id ''shop'' = Inr ()" "hash_key_ok (upstream (ex_site i LeastConn k))"
    "hash_key_ok (upstream (ex_site i RoundRobin k))" "hash_key_ok (upstream (ex_site i HashKey ''#user''))"
proof -
  show "validate_site_id ''shop'' = Inr ()" by code_simp
  have "trim ''#user'' = ''#user''" by code_simp
  then show "hash_key_ok (upstream (ex_site i HashKey ''#user''))"
    by (simp add: hash_key_ok_def ex_site_def list_ex_iff is_white_def DQUOTE_def SQUOTE_def)
qed (simp_all add: hash_key_ok_def ex_site_def)

text \<open>A hash key that validation accepts and nginx reads as a comment: the directive goes on in the next line.\<close>

theorem hash_key_comment_accepted:
  "site_normalize (\<lambda>_ _. True) (ex_site ''shop'' HashKey ''#user'') = Inr (ex_site ''shop'' HashKey ''#user'') \<and>
   ''    hash #user consistent;'' \<in> set (upstream_block (ex_resolved (ex_site ''shop'' HashKey ''#user''))) \<and>
   conf_tokens ''    hash #user consistent;'' = Some [Word ''hash'']"
proof (intro conjI)
  show "conf_tokens ''    hash #user consistent;'' = Some [Word ''hash'']" by code_simp
  have "trim ''#user'' = ''#user''" by code_simp
  then show "''    hash #user consistent;'' \<in> set (upstream_block (ex_resolved (ex_site ''shop'' HashKey ''#user'')))"
    by (simp add: upstream_block_def ex_resolved_def ex_site_def Let_def)
qed (rule ex_normalize(1)[OF ex_ids(1,4)])

text \<open>
  Validation is a normal form: what \<open>normalize\<close> returns is a fixed point of it.
\<close>

theorem site_normalize_idempotent:
  assumes "site_normalize pair_ok s = Inr t" shows "site_normalize pair_ok t = Inr t"
  using assms by (rule site_normalize_fixed)

theorem site_normalize_idempotent_witness:
  "site_normalize (\<lambda>_ _. True) (ex_site ''shop'' LeastConn []) = Inr (ex_site ''shop'' LeastConn [])"
proof -
  have "site_normalize (\<lambda>_ _. True) ((ex_site ''shop'' LeastConn [])\<lparr>server_names := ['' Shop.Example.org. '']\<rparr>) = Inr (ex_site ''shop'' LeastConn [])"
    by (rule ex_normalize(2)[OF ex_ids(1,2)])
  from site_normalize_idempotent[OF this] show ?thesis .
qed

text \<open>The private directories are refused, their parents are not.\<close>

theorem parent_of_private_accepted:
  "validate_host_dir f ''/var/lib'' = Inr () \<and> validate_host_dir f ''/var/lib/asc/webserver'' = Inl (PrivateDir f ''/var/lib/asc'')"
proof -
  have "trim ''/var/lib'' = ''/var/lib''" "trim ''/var/lib/asc/webserver'' = ''/var/lib/asc/webserver''" by code_simp+
  moreover have "list_ex bad_dir_char ''/var/lib'' = False" "list_ex bad_dir_char ''/var/lib/asc/webserver'' = False" by code_simp+
  moreover have "split_char CHR ''/'' ''/var/lib'' = [[], ''var'', ''lib'']"
    "split_char CHR ''/'' ''/var/lib/asc/webserver'' = [[], ''var'', ''lib'', ''asc'', ''webserver'']" by code_simp+
  moreover have "has_infix ''//'' ''/var/lib'' = False" "has_infix ''//'' ''/var/lib/asc/webserver'' = False" by code_simp+
  moreover have "find (\<lambda>d. ''/var/lib'' = d \<or> starts_with (d @ ''/'') ''/var/lib'') PRIVATE_DIRS = None"
    "find (\<lambda>d. ''/var/lib/asc/webserver'' = d \<or> starts_with (d @ ''/'') ''/var/lib/asc/webserver'') PRIVATE_DIRS = Some ''/var/lib/asc''"
    by code_simp+
  moreover have "starts_with ''/'' ''/var/lib''" "starts_with ''/'' ''/var/lib/asc/webserver''" by code_simp+
  moreover have "byte_len ''/var/lib'' \<le> 1024" "byte_len ''/var/lib/asc/webserver'' \<le> 1024" by (simp_all add: byte_len_def)
  ultimately show ?thesis by (simp add: validate_host_dir_def Let_def)
qed

text \<open>Two valid site ids whose upstream blocks get the same name: the hash does not keep ids apart in general.\<close>

theorem upstream_names_collide:
  "validate_site_id ''a._-._.-.-_-_a'' = Inr () \<and> validate_site_id ''a_--_.-._.-_.a'' = Inr () \<and>
   upstream_name ''a._-._.-.-_-_a'' = upstream_name ''a_--_.-._.-_.a''"
proof (intro conjI)
  have "fnv ''a._-._.-.-_-_a'' = 0x3a06f219" "fnv ''a_--_.-._.-_.a'' = 0x3a06f219"
    by (simp_all add: fnv_def utf8_def utf8_char_def of_char_def unsigned_numeral)
  moreover have "map (\<lambda>c. if is_alnum c then c else CHR ''_'') ''a._-._.-.-_-_a'' = map (\<lambda>c. if is_alnum c then c else CHR ''_'') ''a_--_.-._.-_.a''"
    by code_simp
  ultimately show "upstream_name ''a._-._.-.-_-_a'' = upstream_name ''a_--_.-._.-_.a''" by (simp only: upstream_name_def)
qed (code_simp, code_simp)

end
