(* ===== verification/WebLive.thy ===== *)
theory WebLive
  imports WebStore WebProps
begin

text \<open>
  The properties of the running web server: the apply, the stored sites, health checks and retries.
\<close>

section \<open>A host to try things on\<close>

definition raw_site :: "string \<Rightarrow> string \<Rightarrow> site" where
  "raw_site i text = (ex_site i RoundRobin [])\<lparr>server_names := [i @ ''.example.org''], raw_config := Some text\<rparr>"

definition is_bad :: "string \<Rightarrow> bool" where
  "is_bad t = has_infix ''oops'' t"

text \<open>An nginx that dislikes one word, and says in which file it is.\<close>

definition picky :: "string list \<Rightarrow> texts \<Rightarrow> string \<Rightarrow> string + string" where
  "picky is fs conf = (case find (\<lambda>i. case map_of fs (site_path (ASC_ROOT @ ''/.staging'') i) of Some t \<Rightarrow> is_bad t | None \<Rightarrow> False) is of
     Some i \<Rightarrow> Inl (''[emerg] in '' @ site_path (ASC_ROOT @ ''/.staging'') i @ '':3'') | None \<Rightarrow> Inr [])"

definition ex_env :: "(texts \<Rightarrow> string \<Rightarrow> string + string) \<Rightarrow> web_env" where
  "ex_env test = \<lparr>env_paths = system_paths, engine_version = \<lambda>_. Some ''1.26.0'', host_ipv6 = True, dir_exists = \<lambda>_. True,
     app_ports = \<lambda>_. Inr [], inspect_cert = \<lambda>_. Inl ''no certificate'', nginx_test = test, error_text = \<lambda>_. ''error'',
     debug_text = \<lambda>s. s, as_root = True, key_pair_ok = \<lambda>_ _. True, issue_cert = \<lambda>_ _. Inl (IssueAcme ''no''), download_ranges = Inl ''no''\<rparr>"

definition ex_world :: "web_mode \<Rightarrow> web_world" where
  "ex_world m = \<lparr>wfiles = [], wstat = default_status, wregistry = Map.empty, wranges = None, container = None, loaded = None, tests_run = 0,
     saved_settings = Doc (default_web_settings\<lparr>ws_mode := m\<rparr>), saved_sites = Absent, saved_status = Absent, wnow = 1000, wouts = []\<rparr>"

abbreviation ex_settings :: web_settings where "ex_settings \<equiv> default_web_settings\<lparr>ws_mode := ModeSystem\<rparr>"

section \<open>Rendering a resolved site\<close>

text \<open>A site with a provided certificate, which is written below the directory the file is rendered for.\<close>

definition placed :: "string \<Rightarrow> resolved_site \<Rightarrow> resolved_site" where
  "placed base r = (if tls_mode (tls (rs_site r)) = TlsProvided then (let (c, k) = provided_cert_files (sid (rs_site r)) in
     r\<lparr>rs_cert := Some (path_join base c, path_join base k)\<rparr>) else r)"

lemma rd_file_placed:
  "rd_file (render_candidate pl base r) = render_site (placed base r) (pl_settings pl) (pl_features pl) base (logs_dir (env_paths (pl_env pl)))"
  by (simp add: render_candidate_def placed_def Let_def split_beta)

lemma resolved_plain:
  assumes "site_normalize ok s = Inr t" "resolve_site env reg fs t = Inr r" shows "list_all plain_word (rs_addresses r)"
proof -
  obtain u where "upstream_normalize t = Inr u" using site_normalize_parts[OF site_normalize_fixed[OF assms(1)]] by metis
  then obtain vs where v: "traverse server_ok (servers (upstream t)) = Inr vs" by (auto simp: upstream_normalize_def Let_def split: if_splits)
  have p: "plain_word a" if x: "x \<in> set (servers (upstream t))" and a: "resolve_target env (target x) = Inr a" for x a
  proof (cases "target x")
    case (AddressTarget b)
    from traverse_set1[OF v x] obtain y where "server_ok x = Inr y" by blast
    with AddressTarget have "validate_address b = Inr ()" by (cases "validate_address b") (auto simp: server_ok_def)
    with AddressTarget a show ?thesis by (auto simp: resolve_target_def intro: address_plain)
  next
    case (AppTarget app q)
    with a obtain h where "a = ''127.0.0.1:'' @ show_nat h" by (auto simp: resolve_target_def Let_def split: option.splits)
    moreover have "plain_word ''127.0.0.1:''" by code_simp
    moreover have "list_all plain_char (show_nat h)" using show_nat_chars[of _ h] by (auto simp: list_all_iff intro: alnum_plain)
    ultimately show ?thesis using plain_word_append[of "''127.0.0.1:''" "show_nat h"] by simp
  qed
  show ?thesis
  proof (cases "raw_config t = None")
    case True
    with assms(2) obtain as where as: "traverse (\<lambda>x. resolve_target env (target x)) (servers (upstream t)) = Inr as" "rs_addresses r = as"
      by (auto simp: resolve_site_def)
    with p show ?thesis by (auto simp: list_all_iff dest: traverse_set)
  next
    case False
    with assms(2) show ?thesis by (auto simp: resolve_site_def)
  qed
qed

lemma resolved_places:
  assumes s: "site_normalize ok s = Inr t" "resolve_site env reg fs t = Inr r" "env_paths env = system_paths"
    and b: "base \<in> {root_dir system_paths, staging system_paths}"
  shows "places_safe (placed base r) base LOG_DIR"
proof -
  have "plain_word (root_dir system_paths)" "plain_word (staging system_paths)" by code_simp+
  then have base: "plain_word base" using b by auto
  have log: "plain_word LOG_DIR" by code_simp
  have acme: "plain_word (path_join (path_join ''/var/lib/asc/webserver'' ''acme'') ''certs'')" by code_simp
  have rs: "rs_site r = t" and rc: "rs_cert r = (case tls_mode (tls t) of TlsNone \<Rightarrow> None | TlsProvided \<Rightarrow> Some (provided_cert_files (sid t))
      | TlsAcme \<Rightarrow> acme_material system_paths fs (sid t))"
    using s(2) unfolding s(3)[symmetric] by (auto simp: resolve_site_def)
  have "validate_site_id (sid t) = Inr ()" using site_normalize_parts[OF site_normalize_fixed[OF s(1)]] by metis
  then have i: "list_all plain_char (sid t)"
    by (auto simp: validate_site_id_def list_all_iff lower_alnum_def is_alnum_def plain_char_def conf_white_def DQUOTE_def SQUOTE_def is_digit_def is_lower_def)
  have f: "list_all plain_char (path_join (path_join ''certs'' (sid t)) x)" "list_all plain_char (path_join (sid t) x)" if "list_all plain_char x" for x
    using i that by (auto simp: path_join_def plain_char_def conf_white_def DQUOTE_def SQUOTE_def)
  have l: "list_all plain_char ''fullchain.pem''" "list_all plain_char ''privkey.pem''" by code_simp+
  have c: "case rs_cert (placed base r) of None \<Rightarrow> True | Some (c, k) \<Rightarrow> plain_word c \<and> plain_word k"
  proof (cases "tls_mode (tls t)")
    case TlsNone
    with rs rc show ?thesis by (simp add: placed_def)
  next
    case TlsProvided
    with rs f(1)[OF l(1)] f(1)[OF l(2)] plain_join[OF base] show ?thesis
      by (simp add: placed_def provided_cert_files_def Let_def)
  next
    case TlsAcme
    with rs rc have "rs_cert (placed base r) = acme_material system_paths fs (sid t)" by (simp add: placed_def)
    moreover have "plain_word (path_join (acme_cert_dir system_paths (sid t)) x)" if "list_all plain_char x" for x
      using plain_join[OF plain_join[OF acme i] that] by (simp add: acme_cert_dir_def system_paths_def)
    ultimately show ?thesis using l by (simp add: acme_material_def Let_def)
  qed
  have "rs_addresses (placed base r) = rs_addresses r" by (simp add: placed_def split_beta)
  with base log c resolved_plain[OF s(1,2)] show ?thesis by (simp add: places_safe_def)
qed

text \<open>
  C14. A field cannot inject configuration: where a site passed validation, has no snippets of its own and no
  hash key that begins with a comment sign or contains a backslash (validation admits those), and could be resolved,
  the file written for it - into staging or the live directory of a system installation - reads, in the syntax of
  nginx, as exactly the directives its fields ask for, every value as one word.
\<close>

theorem site_file_reads_as_asked:
  assumes "site_normalize pair_ok s = Inr t" and "hash_key_plain t" and "no_snippets t"
    and "resolve_site (pl_env pl) reg fs t = Inr r" and "env_paths (pl_env pl) = system_paths"
    and "base \<in> {root_dir system_paths, staging system_paths}"
  shows "conf_tokens (rd_file (render_candidate pl base r))
     = Some (concat (map flatten (site_tree (placed base r) (pl_settings pl) (pl_features pl) base LOG_DIR)))"
proof -
  have "rs_site (placed base r) = t" using assms(4) by (auto simp: placed_def resolve_site_def split_beta)
  moreover have "logs_dir (env_paths (pl_env pl)) = LOG_DIR" by (simp add: assms(5) system_paths_def)
  ultimately show ?thesis
    using assms validated_site_reads[of pair_ok s "placed base r" base LOG_DIR] resolved_places[OF assms(1,4,5,6)]
    by (simp add: rd_file_placed)
qed

definition shop_plan :: apply_plan where
  "shop_plan = make_plan (ex_env (\<lambda>_ _. Inr [])) ex_settings Full [ex_site ''shop'' RoundRobin []] (ex_world ModeSystem)"

theorem site_file_reads_as_asked_witness:
  "\<exists>r. resolve_site (pl_env shop_plan) Map.empty [] (ex_site ''shop'' RoundRobin []) = Inr r \<and> rs_addresses r = [''10.0.0.1:80''] \<and>
     conf_tokens (rd_file (render_candidate shop_plan ASC_ROOT r))
       = Some (concat (map flatten (site_tree (placed ASC_ROOT r) (pl_settings shop_plan) (pl_features shop_plan) ASC_ROOT LOG_DIR)))"
proof -
  have e: "env_paths (pl_env shop_plan) = system_paths" by (simp add: shop_plan_def ex_env_def)
  obtain r where r: "resolve_site (pl_env shop_plan) Map.empty [] (ex_site ''shop'' RoundRobin []) = Inr r" "rs_addresses r = [''10.0.0.1:80'']"
    by (auto simp: resolve_site_def ex_site_def ex_tls_def resolve_target_def ex_server_def)
  have "conf_tokens (rd_file (render_candidate shop_plan ASC_ROOT r))
       = Some (concat (map flatten (site_tree (placed ASC_ROOT r) (pl_settings shop_plan) (pl_features shop_plan) ASC_ROOT LOG_DIR)))"
  proof (rule site_file_reads_as_asked[OF ex_normalize(1)[OF ex_ids(1,3)] _ _ r(1) e])
    show "hash_key_plain (ex_site ''shop'' RoundRobin [])" "no_snippets (ex_site ''shop'' RoundRobin [])" by code_simp+
    show "ASC_ROOT \<in> {root_dir system_paths, staging system_paths}" by (simp add: system_paths_def ASC_ROOT_def)
  qed
  with r show ?thesis by blast
qed

section \<open>Applying\<close>


definition two_sites :: "site list" where
  "two_sites = [raw_site ''good'' ''server {}'', raw_site ''bad'' ''oops'']"

definition two_env :: web_env where "two_env = ex_env (picky [''bad'', ''good''])"

definition raw_resolved :: "string \<Rightarrow> string \<Rightarrow> resolved_site" where
  "raw_resolved i t = \<lparr>rs_site = raw_site i t, rs_addresses = [], rs_cert = None, rs_down = []\<rparr>"

lemma raw_simps [simp]:
  "sid (raw_site i t) = i" "server_names (raw_site i t) = [i @ ''.example.org'']" "disabled (raw_site i t) = False"
  "raw_config (raw_site i t) = Some t" "tls_mode (tls (raw_site i t)) = TlsNone" "is_local (raw_site i t)"
  by (simp_all add: raw_site_def ex_site_def ex_tls_def is_local_def)

lemma two_plan: "pl_candidates (make_plan two_env ex_settings Full two_sites (ex_world ModeSystem))
    = [raw_resolved ''bad'' ''oops'', raw_resolved ''good'' ''server {}'']"
proof -
  have "resolve_site two_env Map.empty [] (raw_site i t) = Inr (raw_resolved i t)" for i t
    by (simp add: resolve_site_def raw_resolved_def down_mask_def)
  moreover have "order_sites two_sites = [raw_site ''bad'' ''oops'', raw_site ''good'' ''server {}'']"
    by (simp add: order_sites_def two_sites_def sort_key_def insort_key.simps)
  ultimately show ?thesis
    by (simp add: make_plan_def Let_def ex_world_def default_status_def)
qed

lemma two_named: "i \<in> {''bad'', ''good''} \<Longrightarrow> names_only (''[emerg] in '' @ site_path (ASC_ROOT @ ''/.staging'') i @ '':3'') (ASC_ROOT @ ''/.staging'') i"
proof -
  have "names_only (''[emerg] in '' @ site_path (ASC_ROOT @ ''/.staging'') ''bad'' @ '':3'') (ASC_ROOT @ ''/.staging'') ''bad''"
    "names_only (''[emerg] in '' @ site_path (ASC_ROOT @ ''/.staging'') ''good'' @ '':3'') (ASC_ROOT @ ''/.staging'') ''good''"
    by code_simp+
  then show "i \<in> {''bad'', ''good''} \<Longrightarrow> names_only (''[emerg] in '' @ site_path (ASC_ROOT @ ''/.staging'') i @ '':3'') (ASC_ROOT @ ''/.staging'') i" by auto
qed

lemma two_judged: "judges_alone is_bad (make_plan two_env ex_settings Full two_sites (ex_world ModeSystem))"
proof -
  have ids: "plan_ids (make_plan two_env ex_settings Full two_sites (ex_world ModeSystem)) = [''bad'', ''good'']"
    by (simp add: plan_ids_def two_plan cand_id_def raw_resolved_def)
  have env: "env_paths two_env = system_paths" "nginx_test two_env = picky [''bad'', ''good'']"
    by (simp_all add: two_env_def ex_env_def)
  show ?thesis
    unfolding judges_alone_def ids make_plan_simps env system_dirs
  proof
    fix fs
    let ?s = "ASC_ROOT @ ''/.staging''" and ?P = "\<lambda>i. case map_of fs (site_path (ASC_ROOT @ ''/.staging'') i) of Some t \<Rightarrow> is_bad t | None \<Rightarrow> False"
    show "case picky [''bad'', ''good''] fs (path_join ?s NGINX_CONF) of
       Inl out \<Rightarrow> \<exists>i\<in>set [''bad'', ''good'']. (\<exists>t. map_of fs (site_path ?s i) = Some t \<and> is_bad t) \<and> names_only out ?s i
     | Inr out \<Rightarrow> \<forall>i\<in>set [''bad'', ''good'']. \<forall>t. map_of fs (site_path ?s i) = Some t \<longrightarrow> \<not> is_bad t"
    proof (cases "find ?P [''bad'', ''good'']")
      case None
      then have "\<forall>i\<in>set [''bad'', ''good'']. \<not> ?P i" unfolding find_None_iff by blast
      then show ?thesis using None by (fastforce simp: picky_def split: option.splits)
    next
      case (Some i)
      from find_in[OF Some] have i: "i \<in> {''bad'', ''good''}" "?P i" by simp_all
      then obtain t where "map_of fs (site_path (ASC_ROOT @ ''/.staging'') i) = Some t" "is_bad t" by (auto split: option.splits)
      with two_named[OF i(1)] i(1) show ?thesis by (simp only: picky_def Some option.case sum.case list.set) blast
    qed
  qed
qed




text \<open>
  The loop that sets sites aside ends: an apply asks nginx at most twice for every stored site
  and once more, whatever nginx answers and whatever fails.
\<close>

theorem nginx_asked_boundedly: "tests_run (snd (apply_locked env ws ss st w)) \<le> tests_run w + (2 * length ss + 1)"
  by (rule apply_asks)

lemma claims_apart:
  "sorted_wrt (\<lambda>r q. set (server_names (rs_site r)) \<inter> set (server_names (rs_site q)) = {}) (fst (claim_sites env reg fs now ss cl st)) \<and>
   (\<forall>r\<in>set (fst (claim_sites env reg fs now ss cl st)). \<forall>n\<in>set (server_names (rs_site r)). cl n = None)"
proof (induction ss arbitrary: cl st)
  case (Cons s ss)
  show ?case
  proof (cases "disabled s \<or> find (\<lambda>n. cl n \<noteq> None) (server_names s) \<noteq> None \<or> (\<exists>e. resolve_site env reg fs s = Inl e)")
    case True
    with Cons show ?thesis by (auto simp: Let_def split: option.split sum.split)
  next
    case False
    then obtain r where r: "find (\<lambda>n. cl n \<noteq> None) (server_names s) = None" "resolve_site env reg fs s = Inr r" "\<not> disabled s"
      by (cases "resolve_site env reg fs s") auto
    then have s: "rs_site r = s" by (blast dest: resolve_site_site)
    let ?cl = "\<lambda>n. if n \<in> set (server_names s) then Some (sid s) else cl n"
    let ?st = "st(sid s \<mapsto> (site_entry st (sid s))\<lparr>ss_tls := claim_tls env now r (ss_tls (site_entry st (sid s)))\<rparr>)"
    define L where "L = fst (claim_sites env reg fs now ss ?cl ?st)"
    have f: "fst (claim_sites env reg fs now (s # ss) cl st) = r # L"
      using r by (simp add: Let_def split_beta L_def)
    have cl: "n \<notin> set (server_names s) \<and> cl n = None" if "?cl n = None" for n
      using that by (cases "n \<in> set (server_names s)") simp_all
    have "\<forall>q\<in>set L. \<forall>n\<in>set (server_names (rs_site q)). ?cl n = None"
      using Cons.IH[of ?cl ?st] unfolding L_def[symmetric] by (rule conjunct2)
    then have "\<forall>q\<in>set L. \<forall>n\<in>set (server_names (rs_site q)). n \<notin> set (server_names s) \<and> cl n = None"
      using cl by blast
    moreover have "\<forall>n\<in>set (server_names s). cl n = None" using r(1) by (auto simp: find_None_iff)
    moreover have "sorted_wrt (\<lambda>r q. set (server_names (rs_site r)) \<inter> set (server_names (rs_site q)) = {}) L"
      using Cons.IH[of ?cl ?st] unfolding L_def[symmetric] by (rule conjunct1)
    ultimately show ?thesis unfolding f sorted_wrt.simps list.set by (auto simp: s disjoint_iff)
  qed
qed simp

text \<open>
  No two of the sites an apply renders share a server name, whatever is stored.
\<close>

theorem names_served_once:
  "sorted_wrt (\<lambda>r q. set (server_names (rs_site r)) \<inter> set (server_names (rs_site q)) = {}) (pl_candidates (make_plan env ws st ss w))"
  using claims_apart by (simp add: make_plan_def Let_def)

text \<open>
  The words of nginx about the file of \<open>shop.conf\<close> contain the path of the file of \<open>shop\<close>: the
  innocent site is set aside first.
\<close>

theorem blame_confuses_ids:
  "validate_site_id ''shop'' = Inr () \<and> validate_site_id ''shop.conf'' = Inr () \<and>
   blamed_site (''[emerg] unknown directive in '' @ site_path (ASC_ROOT @ ''/.staging'') ''shop.conf'' @ '':3'')
     (ASC_ROOT @ ''/.staging'') [''shop'', ''shop.conf''] = Some ''shop''"
  by (intro conjI) (code_simp, code_simp, code_simp)

text \<open>A broken certificate from ACME lies outside the staging directory: nobody is blamed, and the apply aborts.\<close>

theorem acme_certificate_blames_nobody:
  "blamed_site (''[emerg] cannot load certificate '' @ path_join (acme_cert_dir system_paths ''shop'') ''fullchain.pem'')
     (staging system_paths) [''shop''] = None"
  by code_simp


end
