(* ===== verification/WebCare.thy ===== *)
theory WebCare
  imports WebLive
begin

text \<open>
  The properties of the stored sites, of the settings, of health checks and of retries.
\<close>

section \<open>Stored sites and settings\<close>

text \<open>
  C39. The stored sites stay well formed: in every run of the operations from an empty store, with
  calls that fail, crashes and a world that changes in between, their ids are distinct and each
  site is a fixed point of the validation.
\<close>

theorem web_sites_invariant: "web_reach env w \<Longrightarrow> wf_stored env w"
  by (rule reach_wf)

theorem web_sites_invariant_witness:
  "wf_stored two_env (run_op two_env (OpUpsert (raw_site ''good'' ''server {}'')) (ex_world ModeNone))"
  by (rule web_sites_invariant) (intro web_reach.intros, simp add: ex_world_def)

text \<open>
  C40. A push of one owner is all or nothing and touches no one else: whatever fails, the stored sites
  are the old ones, or the old ones of the other owners in their order followed by what was pushed.
\<close>

theorem replace_sites_all_or_nothing:
  "stored_sites (snd (replace_sites env m inc w)) = stored_sites w \<or>
   replaced_by env m inc (stored_sites w) (stored_sites (snd (replace_sites env m inc w)))"
  by (rule replace_stored)

text \<open>
  Settings that nginx refuses are not saved: the stored settings and sites, the live files and what
  nginx runs with are as before, whatever else fails.
\<close>

theorem refused_settings_not_saved:
  assumes "fst (update_web_settings env new w) = Inl (NginxRejected out)"
  shows "settings_side (staging (env_paths env)) (snd (update_web_settings env new w)) = settings_side (staging (env_paths env)) w"
  using assms by (rule refused_settings)

definition grumpy_env :: web_env where "grumpy_env = ex_env (\<lambda>_ _. Inl ''[emerg] no'')"

lemma trim_output_short: "trim_output ''[emerg] no'' = ''[emerg] no''"
proof -
  have "join LF (filter (\<lambda>l. \<not> has_infix ''the configuration file'' l \<or> has_infix ''failed'' l) (lines ''[emerg] no'')) = ''[emerg] no''"
    by code_simp
  then show ?thesis by (simp add: trim_output_def byte_len_def)
qed

lemma grumpy_rejects:
  assumes "wouts w = []" "ws_mode ws = ModeSystem"
  shows "\<exists>u. apply_locked grumpy_env ws [] Full w = (Inl (NginxRejected ''[emerg] no''), u) \<and> wouts u = []"
proof -
  let ?pl = "make_plan grumpy_env ws Full [] w"
  have c: "pl_candidates ?pl = []" by (simp add: make_plan_def order_sites_def)
  obtain w1 where w1: "claim_all grumpy_env [] w = (Inr (), w1)" "wouts w1 = []" using assms(1) by (simp add: claim_all_def modify_def)
  obtain w2 where w2: "ensure_logrotate grumpy_env w1 = (Inr (), w2)" "quiet_as w1 w2" using ensure_logrotate_ok[OF w1(2)] by blast
  then have q: "wouts w2 = []" by (simp add: quiet_as_def)
  have a: "test_attempt ?pl no_verdict w2 = (Inr (Inl ''[emerg] no''), after_attempt ?pl no_verdict w2)"
    using attempt_ok[OF q, of ?pl no_verdict] by (simp add: grumpy_env_def ex_env_def)
  have g: "\<exists>u. give_up ?pl ''[emerg] no'' v = (Inl (NginxRejected ''[emerg] no'') :: apply_error + test_verdict, u) \<and> wouts u = []"
    if "wouts v = []" for v
    using that by (simp add: give_up_def io_simps delete_ok trim_output_short set_stat_def modify_def seq_def bind_def throw_def)
  have "wouts (after_attempt ?pl no_verdict w2) = []" using q by (simp add: after_attempt_def)
  from g[OF this] obtain u where u: "give_up ?pl ''[emerg] no'' (after_attempt ?pl no_verdict w2) = (Inl (NginxRejected ''[emerg] no'') :: apply_error + test_verdict, u)" "wouts u = []"
    by blast
  have "test_loop ?pl no_verdict w2 = (Inl (NginxRejected ''[emerg] no''), u)"
    by (subst test_loop.simps) (simp add: a u pending_ids_def plan_ids_def c blamed_site_def)
  moreover have "do_if (ws_mode ws = ModeDocker \<and> pl_stage ?pl \<noteq> WriteOnly) (ensure_binds grumpy_env ws) w1 = (Inr (), w1)"
    using assms(2) by (simp add: do_if_def ret_def)
  ultimately have "judge ?pl w1 = (Inl (NginxRejected ''[emerg] no''), u)"
    using w2(1) unfolding judge_def make_plan_simps
    by - (rule seq_eq, rule make_dir_ok[OF w1(2)], rule seq_eq, assumption, rule seq_eq, assumption, assumption)
  with w1(1) assms(2) u(2) show ?thesis
    by (simp add: apply_locked_def io_simps) (simp add: seq_def bind_def)
qed

theorem refused_settings_not_saved_witness:
  "settings_side (staging (env_paths grumpy_env)) (snd (update_web_settings grumpy_env (default_web_settings\<lparr>gzip := False\<rparr>) (ex_world ModeSystem)))
   = settings_side (staging (env_paths grumpy_env)) (ex_world ModeSystem)"
proof (rule refused_settings_not_saved)
  let ?new = "default_web_settings\<lparr>gzip := False, ws_mode := ModeSystem\<rparr>"
  have ok: "settings_ok (default_web_settings\<lparr>gzip := False\<rparr>) = Inr ()"
  proof -
    have "trim ''auto'' = ''auto''" "validate_size ''client_max_body_size'' ''64m'' = Inr ()" "list_ex blank_or_control DEFAULT_IMAGE = False"
      by code_simp+
    then show ?thesis
      by (simp add: settings_ok_def default_web_settings_def Let_def default_site_validate_def guard_def MAX_PAGE_HTML_def byte_len_def error_pages_validate_def)
  qed
  let ?w = "(ex_world ModeSystem)\<lparr>wstat := default_status\<rparr>"
  obtain u where u: "apply_locked grumpy_env ?new [] Full ?w = (Inl (NginxRejected ''[emerg] no''), u)" "wouts u = []"
    using grumpy_rejects[of ?w ?new] by (auto simp: ex_world_def)
  have s: "save_status grumpy_env f u = (Inr (), u\<lparr>saved_status := Doc f, wouts := []\<rparr>)" for f
    using u(2) by (simp add: save_status_def effect_ok)
  have l: "load_web_settings (ex_world ModeSystem) = (Inr (default_web_settings\<lparr>ws_mode := ModeSystem\<rparr>), ex_world ModeSystem)"
    "load_sites (ex_world ModeSystem) = (Inr [], ex_world ModeSystem)" "take_status (ex_world ModeSystem) = (Inr (), ?w)"
    by (simp_all add: load_web_settings_def load_sites_def take_status_def load_status_def read_effect_def effect_def step_io_def ex_world_def
        io_defs set_stat_def modify_def)
  have a: "apply_saved grumpy_env ?new [] ?w = (Inl (NginxRejected ''[emerg] no''), u\<lparr>saved_status := Doc (wstat u), wouts := []\<rparr>)"
    using u(1) s by (simp add: apply_saved_def catch_run bind_def asks_def seq_def lift_result_def)
  have n: "(default_web_settings\<lparr>gzip := False\<rparr>)\<lparr>ws_mode := ModeSystem, host := host (default_web_settings\<lparr>ws_mode := ModeSystem\<rparr>)\<rparr> = ?new"
    by (simp add: default_web_settings_def)
  show "fst (update_web_settings grumpy_env (default_web_settings\<lparr>gzip := False\<rparr>) (ex_world ModeSystem)) = Inl (NginxRejected ''[emerg] no'')"
    using a l ok by (simp add: update_web_settings_def require_web_root_def grumpy_env_def[THEN arg_cong[of _ _ as_root]] ex_env_def io_simps Let_def n)
      (simp add: bind_def seq_def)
qed

section \<open>Retries\<close>

lemma failures_count: "n \<le> U32_MAX \<Longrightarrow> failures (ss_tls st) = 0 \<Longrightarrow> failures (ss_tls ((fail_tls now s m ^^ n) st)) = n"
  by (induction n) (simp_all add: fail_tls_def Let_def saturating_suc_def)

text \<open>
  After n failures in a row the next attempt to get a certificate is an hour, doubled with every
  further failure, but at most a day, after the last one.
\<close>

theorem retry_backoff:
  assumes "failures (ss_tls st) = 0" "n < U32_MAX"
  shows "next_attempt (ss_tls ((fail_tls now s m ^^ Suc n) st)) = now + min (3600 * 2 ^ n) (24 * 3600)"
proof -
  have f: "failures (ss_tls ((fail_tls now s m ^^ n) st)) = n" using failures_count[of n st now s m] assms by simp
  have "min (3600 * 2 ^ min n 5) (24 * 3600) = min (3600 * 2 ^ n) (24 * 3600 :: int)"
  proof (cases "n \<le> 5")
    case False
    then obtain k where k: "n = 5 + k" using le_Suc_ex[of 5 n] by auto
    have "(1 :: int) \<le> 2 ^ k" by simp
    then have "86400 \<le> 115200 * (2 :: int) ^ k" by linarith
    then show ?thesis using False by (simp add: k power_add min_def)
  qed simp
  with f assms(2) show ?thesis by (simp add: fail_tls_def Let_def saturating_suc_def)
qed

theorem retry_backoff_witness: "next_attempt (ss_tls ((fail_tls 0 TlsError [] ^^ Suc 2) default_site_status)) = 0 + min (3600 * 2 ^ 2) (24 * 3600)"
  by (rule retry_backoff) (simp_all add: default_site_status_def default_tls_status_def U32_MAX_def)

section \<open>Health\<close>

text \<open>
  C17. A server is out of rotation exactly when, since it is probed, some run of as many failures in a
  row as its check asks for was not followed by as many passes in a row as it asks for - in every
  interleaving of probes of other servers, of their results and of dropped entries.
\<close>

theorem rotation_follows_probes:
  assumes "\<And>mv. mv \<in> set ms \<Longrightarrow> probes_with (s, a) c mv" "health_fails c \<le> U32_MAX" "health_passes c \<le> U32_MAX"
  shows "is_down (health_run ms) s a \<longleftrightarrow> (case heard (s, a) ms of None \<Rightarrow> False | Some rs \<Rightarrow> down_after (health_fails c) (health_passes c) rs)"
  using tracked_down[OF tracked_run[OF assms]] unfolding down_by_def .

definition tcp_check :: health_check where "tcp_check = default_health\<lparr>hc_kind := HealthTcp\<rparr>"

definition ex_target :: "string \<Rightarrow> probe_target" where
  "ex_target a = \<lparr>pt_site = ''shop'', pt_address = a, pt_check = tcp_check, pt_tls = False\<rparr>"

definition ex_moves :: "health_move list" where
  "ex_moves = [Due [ex_target ''a:1'', ex_target ''b:1''] 0, Rec (ex_target ''a:1'') (Inl ''refused'') 0 0, Rec (ex_target ''b:1'') (Inr 3) 0 0,
     Rec (ex_target ''a:1'') (Inl ''refused'') 5 5, Rec (ex_target ''a:1'') (Inl ''refused'') 10 10, Rec (ex_target ''a:1'') (Inr 4) 15 15]"

theorem rotation_follows_probes_witness:
  "is_down (health_run ex_moves) ''shop'' ''a:1'' \<longleftrightarrow> (case heard (''shop'', ''a:1'') ex_moves of None \<Rightarrow> False
     | Some rs \<Rightarrow> down_after (health_fails tcp_check) (health_passes tcp_check) rs)"
  by (rule rotation_follows_probes)
    (auto simp: ex_moves_def ex_target_def tcp_check_def default_health_def health_fails_def health_passes_def or_default_def U32_MAX_def)

text \<open>Servers of a site are never all taken out by their health.\<close>

theorem rotation_spares_one: "as \<noteq> [] \<Longrightarrow> \<exists>i<length as. \<not> down_mask reg s as ! i"
proof -
  assume "as \<noteq> []"
  then have z: "0 < length as" by simp
  show ?thesis
  proof (cases "\<exists>a\<in>set as. \<not> is_down reg s a")
    case True
    then obtain i where "i < length as" "\<not> is_down reg s (as ! i)" by (auto simp: in_set_conv_nth)
    then show ?thesis by (auto simp: down_mask_nth)
  next
    case False
    with z show ?thesis by (auto simp: down_mask_nth)
  qed
qed

text \<open>
  But a server that the operator took out is not counted: with the other one failing, none is left.
\<close>

definition half_site :: site where
  "half_site = (ex_site ''shop'' RoundRobin [])\<lparr>upstream := (upstream (ex_site ''shop'' RoundRobin []))\<lparr>servers :=
     [(ex_server ''a:1''), (ex_server ''b:1'')\<lparr>us_down := True\<rparr>]\<rparr>\<rparr>"

theorem health_leaves_nothing:
  "let reg = health_run ex_moves; r = \<lparr>rs_site = half_site, rs_addresses = [''a:1'', ''b:1''], rs_cert = None, rs_down = down_mask reg ''shop'' [''a:1'', ''b:1'']\<rparr>
   in take 2 (drop 1 (upstream_block r)) = [''    server a:1 weight=2 down;'', ''    server b:1 weight=2 down;'']"
proof -
  have "down_mask (health_run ex_moves) ''shop'' [''a:1'', ''b:1''] = [True, False]"
    by (simp add: down_mask_def health_run_def ex_moves_def ex_target_def tcp_check_def default_health_def record_result_def
        record_entry_def fail_entry_def pass_entry_def Let_def with_check_def fresh_entry_def fresh_health_def target_key_def is_down_def
        out_of_rotation_def saturating_suc_def U32_MAX_def health_fails_def health_passes_def or_default_def)
  moreover have "show_nat 2 = ''2''" by code_simp
  ultimately show ?thesis
    by (simp add: Let_def upstream_block_def half_site_def ex_site_def ex_server_def server_line_def down_at_def)
qed

text \<open>After a start a dead server stays in rotation for three probes with the default check, not for one.\<close>

theorem first_probe_settles_nothing:
  "let ms = [Due [ex_target ''a:1''] 0, Rec (ex_target ''a:1'') (Inl ''refused'') 0 0, Rec (ex_target ''a:1'') (Inl ''refused'') 5 5]
   in \<not> is_down (health_run ms) ''shop'' ''a:1'' \<and> is_down (health_run (ms @ [Rec (ex_target ''a:1'') (Inl ''refused'') 10 10])) ''shop'' ''a:1''"
  by (simp add: health_run_def ex_target_def tcp_check_def default_health_def record_result_def record_entry_def fail_entry_def Let_def
      with_check_def fresh_entry_def fresh_health_def target_key_def is_down_def out_of_rotation_def saturating_suc_def U32_MAX_def
      health_fails_def or_default_def)

text \<open>
  Testing without applying recreates the container when a directory it serves is not bound yet, which
  starts nginx on the live files; and leaves no web server at all when the new container cannot be created.
\<close>

theorem testing_recreates_container:
  assumes "wouts w = []" "container w = Some []" "ws_mode ws = ModeDocker"
  shows "container (snd (ensure_binds env ws w)) = Some (container_binds env ws) \<and> loaded (snd (ensure_binds env ws w)) = started env (wfiles w)"
  using assms by (simp add: ensure_binds_def create_container_def seq_def bind_def effect_ok make_dir_def asks_def ret_def)

theorem failed_recreate_stops_server:
  assumes "wouts w = [Fine, Fine, Fine, Fine, Fail]" "container w = Some []" "ws_mode ws = ModeDocker"
  shows "container (snd (ensure_binds env ws w)) = None \<and> loaded (snd (ensure_binds env ws w)) = None"
  using assms by (simp add: ensure_binds_def create_container_def seq_def bind_def effect_def step_io_def make_dir_def asks_def ret_def)

end
