(* ===== verification/Tokens.thy ===== *)
theory Tokens
  imports HostIO Numerals Texts
begin

text \<open>
  \<open>api/tokens.rs\<close> and \<open>api/console.rs\<close>: the primary token and its rotation, access tokens,
  one-time console tokens, with the authentication and the token handlers of the API
  (\<open>api/mod.rs\<close>, \<open>api/uds.rs\<close>, \<open>api/rest.rs\<close>). SHA-256 and the random bytes of \<open>/dev/urandom\<close> are
  arguments: \<open>sha\<close>, and \<open>rnd i\<close> for the bytes of the i-th draw. Times are in nanoseconds; the clock
  stands still within an operation.
\<close>

unbundle bit_operations_syntax

definition SECOND :: nat where "SECOND = 1000000000"
definition ACCESS_TTL :: nat where "ACCESS_TTL = 600 * SECOND"
definition ACCESS_TTL_MAX :: nat where "ACCESS_TTL_MAX = 3600 * SECOND"
definition MAX_LIVE_ACCESS :: nat where "MAX_LIVE_ACCESS = 64"
definition ROTATION_GRACE :: nat where "ROTATION_GRACE = 300 * SECOND"
definition ROTATION_GRACE_MAX :: nat where "ROTATION_GRACE_MAX = 3600 * SECOND"
definition TOKEN_TTL :: nat where "TOKEN_TTL = 30 * SECOND"

definition unix_seconds :: "nat \<Rightarrow> nat" where
  "unix_seconds t = t div SECOND"

section \<open>Random texts, and comparing secrets\<close>

definition random_hex :: "8 word list \<Rightarrow> string" where
  "random_hex buf = concat (map hex2 buf)"

definition constant_time_eq :: "string \<Rightarrow> string \<Rightarrow> bool" where
  "constant_time_eq a b = (if length (utf8 a) \<noteq> length (utf8 b) then False
     else foldl (\<lambda>acc (x, y). acc OR (x XOR y)) 0 (zip (utf8 a) (utf8 b)) = 0)"

section \<open>The store\<close>

datatype token_kind = Primary | Access | LocalPeer

record resolved =
  rkind :: token_kind
  grace :: bool
  expiry :: "nat option"

definition of_kind :: "token_kind \<Rightarrow> resolved" where
  "of_kind k = \<lparr>rkind = k, grace = False, expiry = None\<rparr>"

definition local_peer :: resolved where
  "local_peer = of_kind LocalPeer"

datatype token_denied = SocketNeedsRoot | AccessCannotManage | NoToken | ConfirmWithNew

definition require_primary :: "resolved option \<Rightarrow> bool \<Rightarrow> token_denied + unit" where
  "require_primary r is_root = (case map_option rkind r of
     Some Primary \<Rightarrow> Inr ()
   | Some LocalPeer \<Rightarrow> guard is_root SocketNeedsRoot
   | Some Access \<Rightarrow> Inl AccessCannotManage
   | None \<Rightarrow> Inl NoToken)"

definition reject_grace :: "resolved option \<Rightarrow> token_denied + unit" where
  "reject_grace r = guard (\<not> (case r of Some x \<Rightarrow> grace x | None \<Rightarrow> False)) ConfirmWithNew"

record access_entry =
  expires :: nat
  expires_at :: nat
  label_of :: string

record 'd token_world =
  current :: string
  previous :: "(string \<times> nat) option"
  access :: "('d \<times> access_entry) list"
  token_file :: "string option"
  token_temp :: "string option"
  conf_token :: "string option"
  clock :: nat
  wall :: nat
  drawn :: nat
  touts :: "outcome list"

datatype token_error = NoTokenDir | CannotCreate | CannotWriteToken | CannotFlush | CannotInstall | CannotSaveConfig | CannotRead

datatype refusal = Unauthenticated | Denied token_denied | Failed token_error

type_synonym ('d, 'a) tio = "('d token_world, refusal, 'a) io"

definition draw :: "(nat \<Rightarrow> 8 word list) \<Rightarrow> ('d, string) tio" where
  "draw rnd = bind (asks drawn) (\<lambda>i. seq (modify (\<lambda>w. w\<lparr>drawn := Suc i\<rparr>)) (ret (random_hex (rnd i))))"

definition sweep :: "nat \<Rightarrow> ('d \<times> access_entry) list \<Rightarrow> ('d \<times> access_entry) list" where
  "sweep t m = filter (\<lambda>(k, e). t < expires e) m"

definition swept :: "('d, unit) tio" where
  "swept = modify (\<lambda>w. w\<lparr>access := sweep (clock w) (access w)\<rparr>)"

definition resolve_token :: "(string \<Rightarrow> 'd) \<Rightarrow> string \<Rightarrow> ('d, resolved option) tio" where
  "resolve_token sha p = bind (asks (\<lambda>w. w)) (\<lambda>w.
     if constant_time_eq p (current w) then ret (Some (of_kind Primary))
     else if (case previous w of Some (old, deadline) \<Rightarrow> clock w < deadline \<and> constant_time_eq p old | None \<Rightarrow> False)
     then ret (Some \<lparr>rkind = Primary, grace = True, expiry = None\<rparr>)
     else seq swept (asks (\<lambda>w. map_option (\<lambda>e. \<lparr>rkind = Access, grace = False, expiry = Some (expires_at e)\<rparr>)
       (map_of (access w) (sha p)))))"

text \<open>The entry that expires soonest; the list stands for the order in which the map is iterated.\<close>

fun soonest :: "('d \<times> access_entry) list \<Rightarrow> ('d \<times> access_entry) option" where
  "soonest [] = None"
| "soonest (x # xs) = (case soonest xs of None \<Rightarrow> Some x
     | Some y \<Rightarrow> if expires (snd x) \<le> expires (snd y) then Some x else Some y)"

lemma soonest_in: "soonest m = Some x \<Longrightarrow> x \<in> set m"
  by (induction m arbitrary: x) (auto split: option.splits if_splits)

function make_room :: "('d \<times> access_entry) list \<Rightarrow> ('d \<times> access_entry) list" where
  "make_room m = (if MAX_LIVE_ACCESS \<le> length m then
     (case soonest m of None \<Rightarrow> m | Some (k, e) \<Rightarrow> make_room (filter (\<lambda>(j, x). j \<noteq> k) m)) else m)"
  by pat_completeness auto

termination
  by (relation "measure length") (auto dest!: soonest_in intro!: length_filter_less)

declare make_room.simps [simp del]

definition clamp :: "nat \<Rightarrow> nat \<Rightarrow> nat \<Rightarrow> nat" where
  "clamp lo hi x = max lo (min hi x)"

definition issue_access :: "(string \<Rightarrow> 'd) \<Rightarrow> (nat \<Rightarrow> 8 word list) \<Rightarrow> nat option \<Rightarrow> string \<Rightarrow> ('d, string \<times> nat) tio" where
  "issue_access sha rnd ttl lab =
     (let d = clamp SECOND ACCESS_TTL_MAX (case ttl of Some t \<Rightarrow> t | None \<Rightarrow> ACCESS_TTL) in
      bind (draw rnd) (\<lambda>tok.
      bind (asks (\<lambda>w. \<lparr>expires = clock w + d, expires_at = unix_seconds (wall w + d), label_of = lab\<rparr>)) (\<lambda>e.
      seq swept
      (seq (modify (\<lambda>w. w\<lparr>access := (sha tok, e) # filter (\<lambda>(j, x). j \<noteq> sha tok) (make_room (access w))\<rparr>))
      (ret (tok, expires_at e))))))"

definition revoke_all_access :: "('d, nat) tio" where
  "revoke_all_access = seq swept (bind (asks (\<lambda>w. length (access w))) (\<lambda>n.
     seq (modify (\<lambda>w. w\<lparr>access := []\<rparr>)) (ret n)))"

record rotation =
  ro_token :: string
  ro_at :: nat
  ro_until :: "nat option"
  ro_revoked :: nat

text \<open>
  No lock is held over a rotation: it revokes the access tokens and draws the new token, then saves
  it, then replaces the primary. Other requests can be answered between these parts, another
  rotation among them (\<open>TokenRaces\<close>).
\<close>

definition begin_rotation :: "(nat \<Rightarrow> 8 word list) \<Rightarrow> nat \<Rightarrow> ('d, nat \<times> nat \<times> string) tio" where
  "begin_rotation rnd gr =
     bind revoke_all_access (\<lambda>n.
     let g = min gr ROTATION_GRACE_MAX in
     bind (draw rnd) (\<lambda>tok. ret (n, g, tok)))"

definition swap_primary :: "nat \<Rightarrow> nat \<Rightarrow> string \<Rightarrow> ('d, rotation) tio" where
  "swap_primary n g tok =
     bind (asks wall) (\<lambda>t.
     seq (modify (\<lambda>w. w\<lparr>current := tok, previous := (if g = 0 then None else Some (current w, clock w + g))\<rparr>))
     (ret \<lparr>ro_token = tok, ro_at = unix_seconds t, ro_until = (if g = 0 then None else Some (unix_seconds (t + g))),
       ro_revoked = n\<rparr>))"

definition rotate :: "(nat \<Rightarrow> 8 word list) \<Rightarrow> nat \<Rightarrow> (string \<Rightarrow> ('d, unit) tio) \<Rightarrow> ('d, rotation) tio" where
  "rotate rnd gr persist = bind (begin_rotation rnd gr) (\<lambda>(n, g, tok). seq (persist tok) (swap_primary n g tok))"

definition commit_rotation :: "('d, unit) tio" where
  "commit_rotation = modify (\<lambda>w. w\<lparr>previous := None\<rparr>)"

record 'd token_status =
  st_kind :: token_kind
  st_expires :: "nat option"
  st_live :: nat
  st_digest :: 'd
  st_pending :: bool
  st_until :: "nat option"

definition status :: "(string \<Rightarrow> 'd) \<Rightarrow> resolved \<Rightarrow> ('d, 'd token_status) tio" where
  "status sha r = bind (asks (\<lambda>w. w)) (\<lambda>w.
     let gr = map_option (\<lambda>(old, deadline). unix_seconds (wall w + (deadline - clock w))) (previous w) in
     seq swept (bind (asks (\<lambda>w. length (access w))) (\<lambda>n.
     ret \<lparr>st_kind = rkind r, st_expires = expiry r, st_live = n, st_digest = sha (current w), st_pending = (gr \<noteq> None),
       st_until = gr\<rparr>)))"

section \<open>The token file\<close>

definition tstep :: "token_error \<Rightarrow> ('d token_world \<Rightarrow> 'd token_world) \<Rightarrow> ('d, unit) tio" where
  "tstep e = step_io touts (\<lambda>os w. w\<lparr>touts := os\<rparr>) (Failed e)"

definition crashed :: "'d token_world \<Rightarrow> bool" where
  "crashed w = (case touts w of Crash # os \<Rightarrow> True | _ \<Rightarrow> False)"

text \<open>
  The result of an effect is ignored, but a daemon that was killed does not go on: nothing follows
  the effect that kills it.
\<close>

definition best_effort :: "('d, unit) tio \<Rightarrow> ('d, unit) tio" where
  "best_effort m = seq (ignore m) (bind (asks crashed) (\<lambda>k. fail_if k (Failed CannotFlush)))"

definition write_token :: "string \<Rightarrow> ('d, unit) tio" where
  "write_token tok =
     seq (tstep NoTokenDir (\<lambda>w. w))
     (seq (tstep CannotCreate (\<lambda>w. w\<lparr>token_temp := Some []\<rparr>))
     (seq (tstep CannotWriteToken (\<lambda>w. w\<lparr>token_temp := Some tok\<rparr>))
     (seq (tstep CannotFlush (\<lambda>w. w))
     (seq (tstep CannotInstall (\<lambda>w. w\<lparr>token_file := token_temp w, token_temp := None\<rparr>))
     (best_effort (tstep CannotFlush (\<lambda>w. w)))))))"

definition ensure_api_token :: "(nat \<Rightarrow> 8 word list) \<Rightarrow> ('d, string) tio" where
  "ensure_api_token rnd = bind (asks conf_token) (\<lambda>c. case c of
     Some tok \<Rightarrow> seq (write_token tok) (seq (tstep CannotSaveConfig (\<lambda>w. w\<lparr>conf_token := None\<rparr>)) (ret tok))
   | None \<Rightarrow> seq (tstep CannotRead (\<lambda>w. w)) (bind (asks token_file) (\<lambda>f. case f of
       Some raw \<Rightarrow> ret (trim raw)
     | None \<Rightarrow> bind (draw rnd) (\<lambda>tok. seq (write_token tok) (ret tok)))))"

section \<open>Authentication and the handlers\<close>

text \<open>
  A request comes over TCP with a bearer token, or without one, or over the unix socket from a
  process the kernel identifies.
\<close>

datatype caller = Bearer string | NoBearer | Peer bool

definition authenticate :: "(string \<Rightarrow> 'd) \<Rightarrow> caller \<Rightarrow> ('d, resolved option \<times> bool) tio" where
  "authenticate sha c = (case c of
     Bearer p \<Rightarrow> bind (resolve_token sha p) (\<lambda>r. case r of None \<Rightarrow> throw Unauthenticated | Some x \<Rightarrow> ret (Some x, True))
   | NoBearer \<Rightarrow> throw Unauthenticated
   | Peer is_root \<Rightarrow> ret (Some local_peer, is_root))"

datatype token_request = IssueAccess "nat option" string | RevokeAccess | RotatePrimary "nat option" | CommitRotation | GetStatus

datatype 'd reply = Minted string nat nat | Revoked nat | Rotated rotation | Committed | StatusReply "'d token_status"

abbreviation as_primary :: "resolved option \<Rightarrow> bool \<Rightarrow> ('d, unit) tio" where
  "as_primary r is_root \<equiv> lift_result (map_err Denied (require_primary r is_root))"

definition issue_access_token ::
  "(string \<Rightarrow> 'd) \<Rightarrow> (nat \<Rightarrow> 8 word list) \<Rightarrow> resolved option \<Rightarrow> bool \<Rightarrow> nat option \<Rightarrow> string \<Rightarrow> ('d, 'd reply) tio" where
  "issue_access_token sha rnd r is_root ttl_secs lab = seq (as_primary r is_root)
     (bind (issue_access sha rnd (map_option (\<lambda>s. s * SECOND) ttl_secs) lab) (\<lambda>(tok, ex).
       ret (Minted tok ex (ACCESS_TTL div SECOND))))"

definition revoke_access_tokens :: "resolved option \<Rightarrow> bool \<Rightarrow> ('d, 'd reply) tio" where
  "revoke_access_tokens r is_root = seq (as_primary r is_root) (bind revoke_all_access (\<lambda>n. ret (Revoked n)))"

definition rotate_primary_token ::
  "(nat \<Rightarrow> 8 word list) \<Rightarrow> resolved option \<Rightarrow> bool \<Rightarrow> nat option \<Rightarrow> ('d, 'd reply) tio" where
  "rotate_primary_token rnd r is_root grace_secs = seq (as_primary r is_root)
     (bind (rotate rnd (case grace_secs of None \<Rightarrow> ROTATION_GRACE | Some s \<Rightarrow> s * SECOND) write_token)
       (\<lambda>ro. ret (Rotated ro)))"

definition commit_token_rotation :: "resolved option \<Rightarrow> bool \<Rightarrow> ('d, 'd reply) tio" where
  "commit_token_rotation r is_root = seq (as_primary r is_root)
     (seq (lift_result (map_err Denied (reject_grace r))) (seq commit_rotation (ret Committed)))"

definition token_status_of :: "(string \<Rightarrow> 'd) \<Rightarrow> resolved option \<Rightarrow> ('d, 'd reply) tio" where
  "token_status_of sha r = bind (status sha (case r of Some x \<Rightarrow> x | None \<Rightarrow> local_peer)) (\<lambda>s. ret (StatusReply s))"

definition handle :: "(string \<Rightarrow> 'd) \<Rightarrow> (nat \<Rightarrow> 8 word list) \<Rightarrow> caller \<Rightarrow> token_request \<Rightarrow> ('d, 'd reply) tio" where
  "handle sha rnd c q = bind (authenticate sha c) (\<lambda>(r, is_root). case q of
     IssueAccess ttl lab \<Rightarrow> issue_access_token sha rnd r is_root ttl lab
   | RevokeAccess \<Rightarrow> revoke_access_tokens r is_root
   | RotatePrimary g \<Rightarrow> rotate_primary_token rnd r is_root g
   | CommitRotation \<Rightarrow> commit_token_rotation r is_root
   | GetStatus \<Rightarrow> token_status_of sha r)"

section \<open>Runs\<close>

text \<open>
  Requests with the outcomes of their effects, time, and starts of the daemon. A daemon that was
  killed answers nothing until it starts again; memory is lost then.
\<close>

datatype token_event = Ask caller token_request "outcome list" | Pass nat | Boot "outcome list"

definition boot_tokens :: "(nat \<Rightarrow> 8 word list) \<Rightarrow> 'd token_world \<Rightarrow> 'd token_world" where
  "boot_tokens rnd w = (case ensure_api_token rnd w of
     (Inl e, w1) \<Rightarrow> w1\<lparr>touts := [Crash]\<rparr>
   | (Inr tok, w1) \<Rightarrow> w1\<lparr>current := tok, previous := None, access := []\<rparr>)"

fun token_step :: "(string \<Rightarrow> 'd) \<Rightarrow> (nat \<Rightarrow> 8 word list) \<Rightarrow> token_event \<Rightarrow> 'd token_world \<Rightarrow> 'd token_world" where
  "token_step sha rnd (Ask c q os) w = (if crashed w then w else snd (handle sha rnd c q (w\<lparr>touts := os\<rparr>)))"
| "token_step sha rnd (Pass d) w = w\<lparr>clock := clock w + d, wall := wall w + d\<rparr>"
| "token_step sha rnd (Boot os) w = boot_tokens rnd (w\<lparr>touts := os\<rparr>)"

definition token_run :: "(string \<Rightarrow> 'd) \<Rightarrow> (nat \<Rightarrow> 8 word list) \<Rightarrow> token_event list \<Rightarrow> 'd token_world \<Rightarrow> 'd token_world" where
  "token_run sha rnd es w = foldl (\<lambda>w e. token_step sha rnd e w) w es"

section \<open>Console tokens\<close>

datatype session_type = Logs | Attach | Exec

record console_grant =
  app_id :: string
  session :: session_type
  command :: "string list"
  service :: "string option"

type_synonym console_tokens = "(string \<times> console_grant \<times> nat) list"

definition console_live :: "nat \<Rightarrow> console_tokens \<Rightarrow> console_tokens" where
  "console_live t m = filter (\<lambda>(k, g, ex). t < ex) m"

definition console_issue :: "string \<Rightarrow> nat \<Rightarrow> nat \<Rightarrow> console_grant \<Rightarrow> console_tokens \<Rightarrow> (string \<times> nat) \<times> console_tokens" where
  "console_issue tok t wl g m = ((tok, unix_seconds (wl + TOKEN_TTL)),
     (tok, g, t + TOKEN_TTL) # filter (\<lambda>(k, x). k \<noteq> tok) (console_live t m))"

definition console_consume :: "string \<Rightarrow> nat \<Rightarrow> console_tokens \<Rightarrow> console_grant option \<times> console_tokens" where
  "console_consume tok t m = (let live = console_live t m in
     (map_option fst (map_of live tok), filter (\<lambda>(k, x). k \<noteq> tok) live))"

text \<open>
  A run of the store: tokens issued and presented over time. The result is what was redeemed.
\<close>

datatype console_op = IssueToken string console_grant | PresentToken string | WaitNanos nat

fun console_redeemed :: "nat \<Rightarrow> console_op list \<Rightarrow> console_tokens \<Rightarrow> (string \<times> console_grant) list" where
  "console_redeemed t [] m = []"
| "console_redeemed t (IssueToken tok g # ops) m = console_redeemed t ops (snd (console_issue tok t 0 g m))"
| "console_redeemed t (PresentToken tok # ops) m =
     (case console_consume tok t m of
       (None, m1) \<Rightarrow> console_redeemed t ops m1
     | (Some g, m1) \<Rightarrow> (tok, g) # console_redeemed t ops m1)"
| "console_redeemed t (WaitNanos n # ops) m = console_redeemed (t + n) ops m"

fun console_issued :: "console_op list \<Rightarrow> (string \<times> console_grant) list" where
  "console_issued [] = []"
| "console_issued (IssueToken tok g # ops) = (tok, g) # console_issued ops"
| "console_issued (PresentToken tok # ops) = console_issued ops"
| "console_issued (WaitNanos n # ops) = console_issued ops"

end
