(* ===== verification/TokenInv.thy ===== *)
theory TokenInv
  imports Tokens
begin

text \<open>
  What the requests and starts of the daemon do to its tokens, as a step relation: every run of
  the model is a sequence of its moves. The invariants of \<open>TokenProps\<close> are inductions over moves.
\<close>

section \<open>Texts\<close>

lemma xor_zero: "a XOR b = (0 :: 8 word) \<longleftrightarrow> a = b"
  by (metis xor.assoc xor.left_neutral xor.right_neutral xor_self_eq)

lemma foldl_or_zero: "foldl (\<lambda>acc (x, y). acc OR (x XOR y)) a ps = (0 :: 8 word) \<longleftrightarrow> a = 0 \<and> (\<forall>(x, y) \<in> set ps. x = y)"
  by (induction ps arbitrary: a) (auto simp: or_eq_0_iff xor_zero)

lemma zip_equal: "length xs = length ys \<Longrightarrow> (\<forall>(x, y) \<in> set (zip xs ys). x = y) \<longleftrightarrow> xs = ys"
  by (induction xs ys rule: list_induct2) auto

lemma constant_time_eq_bytes: "constant_time_eq a b \<longleftrightarrow> utf8 a = utf8 b"
  by (auto simp: constant_time_eq_def foldl_or_zero zip_equal)

lemma random_hex_trim [simp]: "trim (random_hex bs) = random_hex bs"
proof (rule trim_trimmed)
  have "list_all is_alnum (random_hex bs)"
    by (auto simp: random_hex_def list_all_iff hex2_def intro!: digit_char_alnum dest!: to_base_digits[rotated])
  then have "\<not> is_white c" if "c \<in> set (random_hex bs)" for c
    using that by (auto simp: list_all_iff dest: alnum_not_white)
  then show "trimmed (random_hex bs)" by (cases "random_hex bs = []") (simp_all add: trimmed_def)
qed

section \<open>Moves\<close>

inductive token_move :: "(string \<Rightarrow> 'd) \<Rightarrow> (nat \<Rightarrow> 8 word list) \<Rightarrow> 'd token_world \<Rightarrow> 'd token_world \<Rightarrow> bool"
  for sha rnd where
  outcomes: "\<not> crashed w \<Longrightarrow> token_move sha rnd w (w\<lparr>touts := os\<rparr>)"
| time: "token_move sha rnd w (w\<lparr>clock := clock w + t, wall := wall w + t\<rparr>)"
| sweeping: "token_move sha rnd w (w\<lparr>access := sweep (clock w) (access w)\<rparr>)"
| mint: "tok = random_hex (rnd (drawn w)) \<Longrightarrow> expires e \<le> clock w + ACCESS_TTL_MAX \<Longrightarrow>
    token_move sha rnd w (w\<lparr>drawn := Suc (drawn w),
      access := (sha tok, e) # filter (\<lambda>(j, x). j \<noteq> sha tok) (make_room (sweep (clock w) (access w)))\<rparr>)"
| clear: "token_move sha rnd w (w\<lparr>access := []\<rparr>)"
| unsaved: "(crashed w \<Longrightarrow> crashed (w\<lparr>touts := os\<rparr>)) \<Longrightarrow>
    token_move sha rnd w (w\<lparr>drawn := Suc (drawn w), token_temp := tmp, touts := os\<rparr>)"
| installed: "tok = random_hex (rnd (drawn w)) \<Longrightarrow> access w = [] \<Longrightarrow>
    token_move sha rnd w (w\<lparr>drawn := Suc (drawn w), token_file := Some tok, token_temp := None, touts := Crash # os\<rparr>)"
| rotating: "tok = random_hex (rnd (drawn w)) \<Longrightarrow> access w = [] \<Longrightarrow>
    pr = None \<or> pr = Some (current w, clock w + g) \<and> g \<le> ROTATION_GRACE_MAX \<Longrightarrow>
    token_move sha rnd w (w\<lparr>drawn := Suc (drawn w), token_file := Some tok, token_temp := None, current := tok,
      previous := pr, touts := os\<rparr>)"
| committing: "token_move sha rnd w (w\<lparr>previous := None\<rparr>)"
| starting: "token_file w = Some raw \<Longrightarrow>
    token_move sha rnd w (w\<lparr>touts := os, current := trim raw, previous := None, access := []\<rparr>)"
| down: "token_move sha rnd w (w\<lparr>touts := [Crash]\<rparr>)"

abbreviation token_moves where "token_moves sha rnd \<equiv> (token_move sha rnd)\<^sup>*\<^sup>*"

section \<open>The operations as moves\<close>

lemma next_outcome_crash: "next_outcome os = (b, os1) \<Longrightarrow> (case os of Crash # r \<Rightarrow> True | _ \<Rightarrow> False) \<Longrightarrow> \<not> b \<and> os1 = os"
  by (cases os rule: next_outcome.cases) auto

lemma triple_tstep:
  assumes "\<And>u os. P u \<Longrightarrow> \<not> crashed u \<Longrightarrow> Q ((f u)\<lparr>touts := os\<rparr>)"
    and "\<And>u os. P u \<Longrightarrow> (crashed u \<Longrightarrow> crashed (u\<lparr>touts := os\<rparr>)) \<Longrightarrow> E (u\<lparr>touts := os\<rparr>)"
  shows "triple P (tstep e f) (\<lambda>_. Q) E"
  unfolding triple_def
proof (intro allI impI)
  fix u assume u: "P u"
  obtain b os where n: "next_outcome (touts u) = (b, os)" by (cases "next_outcome (touts u)")
  note k = next_outcome_crash[OF n]
  show "case fst (tstep e f u) of Inl _ \<Rightarrow> E (snd (tstep e f u)) | Inr _ \<Rightarrow> Q (snd (tstep e f u))"
    using u n k assms(1)[OF u, of os] assms(2)[OF u, of os] by (cases b) (auto simp: tstep_def step_io_def crashed_def)
qed

text \<open>Only the temporary file has changed, and who was killed stays so.\<close>

definition temp_only :: "'d token_world \<Rightarrow> 'd token_world \<Rightarrow> bool" where
  "temp_only w u = ((\<exists>tmp os. u = w\<lparr>token_temp := tmp, touts := os\<rparr>) \<and> (crashed w \<longrightarrow> crashed u))"

lemma crashed_more [simp]:
  "crashed (w\<lparr>token_temp := x\<rparr>) = crashed w" "crashed (w\<lparr>token_file := y\<rparr>) = crashed w" "crashed (w\<lparr>conf_token := y\<rparr>) = crashed w"
  "crashed (w\<lparr>current := c\<rparr>) = crashed w" "crashed (w\<lparr>previous := p\<rparr>) = crashed w" "crashed (w\<lparr>access := a\<rparr>) = crashed w"
  "crashed (w\<lparr>drawn := n\<rparr>) = crashed w" "crashed (w\<lparr>clock := n\<rparr>) = crashed w" "crashed (w\<lparr>wall := n\<rparr>) = crashed w"
  "crashed (w\<lparr>touts := Crash # os\<rparr>)" "\<not> crashed (w\<lparr>touts := []\<rparr>)"
  by (simp_all add: crashed_def)

lemma temp_only_step [intro]:
  "temp_only w u \<Longrightarrow> (crashed u \<Longrightarrow> crashed (u\<lparr>touts := os\<rparr>)) \<Longrightarrow> temp_only w (u\<lparr>touts := os\<rparr>)"
  "temp_only w u \<Longrightarrow> \<not> crashed u \<Longrightarrow> temp_only w (u\<lparr>token_temp := x, touts := os\<rparr>)"
  "temp_only w u \<Longrightarrow> \<not> crashed u \<Longrightarrow> temp_only w (u\<lparr>touts := os\<rparr>)"
  by (clarsimp simp: temp_only_def, (blast | rule exI)?, simp?)+

lemma temp_only_refl [intro, simp]: "temp_only w w"
  by (auto simp: temp_only_def intro!: exI[of _ "token_temp w"] exI[of _ "touts w"])

text \<open>The token is in its file, and nothing else has changed.\<close>

definition in_place :: "string \<Rightarrow> 'd token_world \<Rightarrow> 'd token_world \<Rightarrow> bool" where
  "in_place tok w u = (\<exists>os. u = w\<lparr>token_file := Some tok, token_temp := None, touts := os\<rparr>)"

lemma temp_only_installed:
  "temp_only w u \<Longrightarrow> token_temp u = Some tok \<Longrightarrow> in_place tok w (u\<lparr>token_file := token_temp u, token_temp := None, touts := x\<rparr>)"
  by (auto simp: temp_only_def in_place_def)

lemma triple_best_effort:
  assumes "triple P m (\<lambda>_. Q) Q"
  shows "triple P (best_effort m) (\<lambda>_ u. Q u \<and> \<not> crashed u) (\<lambda>u. Q u \<and> crashed u)"
  unfolding best_effort_def
  by (rule triple_seq[OF triple_ignore[OF assms]]) (simp add: triple_def bind_def asks_def fail_if_def ret_def throw_def)

lemma write_token_triple:
  "triple (temp_only w) (write_token tok) (\<lambda>_ u. in_place tok w u \<and> \<not> crashed u)
     (\<lambda>u. temp_only w u \<or> in_place tok w u \<and> crashed u)"
  unfolding write_token_def
  apply (rule triple_seq[where Q = "temp_only w"], rule triple_tstep, blast, blast)
  apply (rule triple_seq[where Q = "temp_only w"], rule triple_tstep, blast, blast)
  apply (rule triple_seq[where Q = "\<lambda>u. temp_only w u \<and> token_temp u = Some tok"], rule triple_tstep, force, blast)
  apply (rule triple_seq[where Q = "\<lambda>u. temp_only w u \<and> token_temp u = Some tok"], rule triple_tstep, force, blast)
  apply (rule triple_seq[where Q = "in_place tok w"], rule triple_tstep, use temp_only_installed in blast, blast)
  apply (rule triple_conseq[OF triple_best_effort[where P = "in_place tok w" and Q = "in_place tok w"]], rule triple_tstep)
      apply (auto simp: in_place_def)
  done

lemma write_token_world:
  obtains (saved) os where "write_token tok w = (Inr (), w\<lparr>token_file := Some tok, token_temp := None, touts := os\<rparr>)"
      "\<not> crashed (w\<lparr>touts := os\<rparr>)"
    | (failed) e tmp os where "write_token tok w = (Inl e, w\<lparr>token_temp := tmp, touts := os\<rparr>)"
      "crashed w \<Longrightarrow> crashed (w\<lparr>touts := os\<rparr>)"
    | (killed) e os where "write_token tok w = (Inl e, w\<lparr>token_file := Some tok, token_temp := None, touts := Crash # os\<rparr>)"
proof (cases "write_token tok w")
  case (Pair r u)
  with write_token_triple[of w tok] have "case r of
      Inl _ \<Rightarrow> temp_only w u \<or> in_place tok w u \<and> crashed u
    | Inr _ \<Rightarrow> in_place tok w u \<and> \<not> crashed u"
    unfolding triple_def by (metis fst_conv snd_conv temp_only_refl)
  with Pair that show ?thesis
    by (cases r) (auto simp: temp_only_def in_place_def crashed_def split: list.splits outcome.splits)
qed

lemma issue_access_run:
  "issue_access sha rnd ttl lab w =
     (let d = clamp SECOND ACCESS_TTL_MAX (case ttl of Some t \<Rightarrow> t | None \<Rightarrow> ACCESS_TTL);
          tok = random_hex (rnd (drawn w)); ex = unix_seconds (wall w + d) in
      (Inr (tok, ex), w\<lparr>drawn := Suc (drawn w), access := (sha tok, \<lparr>expires = clock w + d, expires_at = ex, label_of = lab\<rparr>) #
        filter (\<lambda>(j, x). j \<noteq> sha tok) (make_room (sweep (clock w) (access w)))\<rparr>))"
  by (simp add: issue_access_def draw_def swept_def modify_def io_defs Let_def)

lemma revoke_all_access_run: "revoke_all_access w = (Inr (length (sweep (clock w) (access w))), w\<lparr>access := []\<rparr>)"
  by (simp add: revoke_all_access_def swept_def modify_def io_defs)

lemma resolve_token_run:
  "resolve_token sha p w =
     (if utf8 p = utf8 (current w) then (Inr (Some (of_kind Primary)), w)
      else if \<exists>old deadline. previous w = Some (old, deadline) \<and> clock w < deadline \<and> utf8 p = utf8 old
      then (Inr (Some \<lparr>rkind = Primary, grace = True, expiry = None\<rparr>), w)
      else (Inr (map_option (\<lambda>e. \<lparr>rkind = Access, grace = False, expiry = Some (expires_at e)\<rparr>)
          (map_of (sweep (clock w) (access w)) (sha p))), w\<lparr>access := sweep (clock w) (access w)\<rparr>))"
  by (auto simp: resolve_token_def constant_time_eq_bytes swept_def modify_def io_defs split: option.splits)

lemma status_run: "\<exists>s. status sha r w = (Inr s, w\<lparr>access := sweep (clock w) (access w)\<rparr>)"
  by (simp add: status_def swept_def modify_def io_defs Let_def)

definition walks :: "(string \<Rightarrow> 'd) \<Rightarrow> (nat \<Rightarrow> 8 word list) \<Rightarrow> ('d, 'a) tio \<Rightarrow> bool" where
  "walks sha rnd m = (\<forall>w. token_moves sha rnd w (snd (m w)))"

lemma walks_pure: "walks sha rnd (ret x)" "walks sha rnd (throw e)" "walks sha rnd (lift_result r)"
  by (simp_all add: walks_def io_defs)

lemma walks_bind: "walks sha rnd m \<Longrightarrow> (\<And>x. walks sha rnd (f x)) \<Longrightarrow> walks sha rnd (bind m f)"
  unfolding walks_def
proof
  fix w assume m: "\<forall>w. token_moves sha rnd w (snd (m w))" and f: "\<And>x. \<forall>w. token_moves sha rnd w (snd (f x w))"
  obtain r w1 where r: "m w = (r, w1)" by (cases "m w")
  with m have w1: "token_moves sha rnd w w1" by (metis snd_conv)
  show "token_moves sha rnd w (snd (bind m f w))"
  proof (cases r)
    case (Inl e)
    with r w1 show ?thesis by (simp add: bind_def)
  next
    case (Inr x)
    with f have "token_moves sha rnd w1 (snd (f x w1))" by blast
    with r w1 Inr show ?thesis by (simp add: bind_def)
  qed
qed

lemma walks_seq: "walks sha rnd m \<Longrightarrow> walks sha rnd k \<Longrightarrow> walks sha rnd (seq m k)"
  unfolding seq_def by (rule walks_bind)

lemma walks_resolve_token: "walks sha rnd (resolve_token sha p)"
  by (auto simp: walks_def resolve_token_run intro: token_move.sweeping)

lemma walks_issue_access: "walks sha rnd (issue_access sha rnd ttl lab)"
  by (auto simp: walks_def issue_access_run Let_def clamp_def ACCESS_TTL_MAX_def SECOND_def intro!: r_into_rtranclp token_move.mint)

lemma walks_revoke_all_access: "walks sha rnd revoke_all_access"
  by (auto simp: walks_def revoke_all_access_run intro: token_move.clear)

lemma walks_status: "walks sha rnd (status sha r)"
  unfolding walks_def
proof
  fix w
  obtain s where "status sha r w = (Inr s, w\<lparr>access := sweep (clock w) (access w)\<rparr>)" using status_run by blast
  then show "token_moves sha rnd w (snd (status sha r w))" by (auto intro: token_move.sweeping)
qed

lemma walks_commit: "walks sha rnd commit_rotation"
  by (auto simp: walks_def commit_rotation_def modify_def intro: token_move.committing)

lemma begin_rotation_run:
  "begin_rotation rnd gr w = (Inr (length (sweep (clock w) (access w)), min gr ROTATION_GRACE_MAX, random_hex (rnd (drawn w))),
     w\<lparr>access := [], drawn := Suc (drawn w)\<rparr>)"
  by (simp add: begin_rotation_def revoke_all_access_run draw_def modify_def io_defs Let_def)

lemma swap_primary_run:
  "swap_primary n g tok w =
     (Inr \<lparr>ro_token = tok, ro_at = unix_seconds (wall w), ro_until = (if g = 0 then None else Some (unix_seconds (wall w + g))),
        ro_revoked = n\<rparr>,
      w\<lparr>current := tok, previous := (if g = 0 then None else Some (current w, clock w + g))\<rparr>)"
  by (simp add: swap_primary_def modify_def io_defs)

text \<open>
  A rotation saves the new token and then installs it, or it does neither, or it is killed in
  between, with the new token on file and the old one in the memory that is lost.
\<close>

lemma rotate_run:
  fixes rnd :: "nat \<Rightarrow> 8 word list" and gr :: nat and w :: "'d token_world"
  defines "tok \<equiv> random_hex (rnd (drawn w))" and "g \<equiv> min gr ROTATION_GRACE_MAX"
  obtains (saved) os where "rotate rnd gr write_token w =
      (Inr \<lparr>ro_token = tok, ro_at = unix_seconds (wall w), ro_until = (if g = 0 then None else Some (unix_seconds (wall w + g))),
          ro_revoked = length (sweep (clock w) (access w))\<rparr>,
       w\<lparr>access := [], drawn := Suc (drawn w), token_file := Some tok, token_temp := None, current := tok,
         previous := (if g = 0 then None else Some (current w, clock w + g)), touts := os\<rparr>)"
    | (failed) e tmp os where "rotate rnd gr write_token w =
      (Inl e, w\<lparr>access := [], drawn := Suc (drawn w), token_temp := tmp, touts := os\<rparr>)"
      "crashed w \<Longrightarrow> crashed (w\<lparr>touts := os\<rparr>)"
    | (killed) e os where "rotate rnd gr write_token w =
      (Inl e, w\<lparr>access := [], drawn := Suc (drawn w), token_file := Some tok, token_temp := None, touts := Crash # os\<rparr>)"
proof -
  let ?u = "w\<lparr>access := [], drawn := Suc (drawn w)\<rparr>"
  have r: "rotate rnd gr write_token w = bind (write_token tok) (\<lambda>_. swap_primary (length (sweep (clock w) (access w))) g tok) ?u"
    by (simp add: rotate_def begin_rotation_run bind_def seq_def g_def tok_def)
  show ?thesis
  proof (cases tok ?u rule: write_token_world)
    case (saved os)
    then show ?thesis by (intro that(1)[of os]) (simp add: r bind_def swap_primary_run)
  next
    case (failed e tmp os)
    then show ?thesis by (intro that(2)[where e = e and tmp = tmp and os = os]) (simp_all add: r bind_def crashed_def)
  next
    case (killed e os)
    then show ?thesis by (intro that(3)[of e os]) (simp add: r bind_def)
  qed
qed

lemma walks_rotate: "walks sha rnd (rotate rnd gr write_token)"
  unfolding walks_def
proof
  fix w :: "'a token_world"
  let ?tok = "random_hex (rnd (drawn w))" and ?u = "w\<lparr>access := []\<rparr>" and ?g = "min gr ROTATION_GRACE_MAX"
  have c: "token_move sha rnd w ?u" by (rule token_move.clear)
  have sel: "current ?u = current w" "clock ?u = clock w" "drawn ?u = drawn w" by simp_all
  show "token_moves sha rnd w (snd (rotate rnd gr write_token w))"
  proof (cases rule: rotate_run[where rnd = rnd and gr = gr and w = w])
    case (saved os)
    have "token_move sha rnd ?u (?u\<lparr>drawn := Suc (drawn ?u), token_file := Some ?tok, token_temp := None, current := ?tok,
        previous := (if ?g = 0 then None else Some (current ?u, clock ?u + ?g)), touts := os\<rparr>)"
      by (rule token_move.rotating) auto
    with c have "token_moves sha rnd w (?u\<lparr>drawn := Suc (drawn ?u), token_file := Some ?tok, token_temp := None, current := ?tok,
        previous := (if ?g = 0 then None else Some (current ?u, clock ?u + ?g)), touts := os\<rparr>)"
      by (meson converse_rtranclp_into_rtranclp r_into_rtranclp)
    then show ?thesis unfolding saved snd_conv by (simp only: sel)
  next
    case (failed e tmp os)
    have "token_move sha rnd ?u (?u\<lparr>drawn := Suc (drawn ?u), token_temp := tmp, touts := os\<rparr>)"
      by (rule token_move.unsaved) (use failed(2) in \<open>auto simp: crashed_def\<close>)
    with c failed show ?thesis by (simp add: converse_rtranclp_into_rtranclp)
  next
    case (killed e os)
    have "token_move sha rnd ?u (?u\<lparr>drawn := Suc (drawn ?u), token_file := Some ?tok, token_temp := None, touts := Crash # os\<rparr>)"
      by (rule token_move.installed) auto
    with c killed show ?thesis by (simp add: converse_rtranclp_into_rtranclp)
  qed
qed

lemmas walks_rules = walks_pure walks_bind walks_seq walks_resolve_token walks_issue_access walks_revoke_all_access
  walks_status walks_commit walks_rotate

text \<open>Every answer of the daemon is a sequence of moves.\<close>

lemma walks_handle: "walks sha rnd (handle sha rnd c q)"
  unfolding handle_def authenticate_def issue_access_token_def revoke_access_tokens_def rotate_primary_token_def
    commit_token_rotation_def token_status_of_def
  by (auto intro!: walks_rules split: caller.split token_request.split option.split)

definition booted :: "'d token_world \<Rightarrow> bool" where
  "booted w = (conf_token w = None \<and> token_file w \<noteq> None)"

lemma token_move_booted: "token_move sha rnd w w1 \<Longrightarrow> booted w \<Longrightarrow> booted w1"
  by (induction rule: token_move.induct) (auto simp: booted_def)

lemma boot_tokens_run:
  assumes "conf_token w = None" "token_file w = Some raw"
  shows "boot_tokens rnd w = w\<lparr>touts := [Crash]\<rparr> \<or>
    (\<exists>os. boot_tokens rnd w = w\<lparr>touts := os, current := trim raw, previous := None, access := []\<rparr>)"
proof -
  obtain ok os where n: "next_outcome (touts w) = (ok, os)" by (cases "next_outcome (touts w)")
  with assms show ?thesis by (cases ok) (auto simp: boot_tokens_def ensure_api_token_def tstep_def step_io_def io_defs)
qed

lemma boot_tokens_moves:
  assumes "booted w" shows "token_move sha rnd w (boot_tokens rnd (w\<lparr>touts := os\<rparr>))"
proof -
  from assms obtain raw where raw: "conf_token w = None" "token_file w = Some raw" by (auto simp: booted_def)
  have "token_move sha rnd w (w\<lparr>touts := x, current := trim raw, previous := None, access := []\<rparr>)" for x
    by (rule token_move.starting) (rule raw)
  moreover have "token_move sha rnd w (w\<lparr>touts := [Crash]\<rparr>)" by (rule token_move.down)
  ultimately show ?thesis using boot_tokens_run[of "w\<lparr>touts := os\<rparr>" raw rnd] raw by auto
qed

lemma token_step_moves: "booted w \<Longrightarrow> token_moves sha rnd w (token_step sha rnd e w)"
proof (induction sha rnd e w rule: token_step.induct)
  case (1 sha rnd c q os w)
  show ?case
  proof (cases "crashed w")
    case False
    then have "token_move sha rnd w (w\<lparr>touts := os\<rparr>)" by (rule token_move.outcomes)
    moreover have "token_moves sha rnd (w\<lparr>touts := os\<rparr>) (snd (handle sha rnd c q (w\<lparr>touts := os\<rparr>)))"
      using walks_handle[of sha rnd c q] unfolding walks_def by blast
    ultimately show ?thesis using False by (simp add: converse_rtranclp_into_rtranclp)
  qed simp
next
  case (2 sha rnd t w)
  show ?case by (auto intro: token_move.time)
next
  case (3 sha rnd os w)
  then show ?case using boot_tokens_moves[of w sha rnd os] by auto
qed

lemma token_moves_booted: "token_moves sha rnd w w1 \<Longrightarrow> booted w \<Longrightarrow> booted w1"
  by (induction rule: rtranclp_induct) (auto dest: token_move_booted)

lemma token_run_moves: "booted w \<Longrightarrow> token_moves sha rnd w (token_run sha rnd es w)"
proof (induction es arbitrary: w)
  case Nil
  then show ?case by (simp add: token_run_def)
next
  case (Cons e es)
  have m: "token_moves sha rnd w (token_step sha rnd e w)" by (rule token_step_moves) (rule Cons.prems)
  then have "booted (token_step sha rnd e w)" using Cons.prems token_moves_booted by blast
  from Cons.IH[OF this] m show ?case by (simp add: token_run_def)
qed

text \<open>An invariant of every move is one of every run.\<close>

lemma token_run_invariant:
  assumes "booted w" "P w" "\<And>w w1. token_move sha rnd w w1 \<Longrightarrow> booted w \<Longrightarrow> P w \<Longrightarrow> P w1"
  shows "P (token_run sha rnd es w)"
proof -
  have "booted w1 \<and> P w1" if "token_moves sha rnd w w1" for w1
    using that assms by (induction rule: rtranclp_induct) (auto dest: token_move_booted)
  then show ?thesis using token_run_moves[OF assms(1)] by blast
qed

end
