(* ===== verification/TokenProps.thy ===== *)
theory TokenProps
  imports TokenInv
begin

text \<open>
  The properties of the API tokens and of the console tokens.
\<close>

section \<open>Comparing secrets\<close>

text \<open>
  The comparison of secrets that looks at every byte decides equality.
\<close>

theorem constant_time_eq_exact: "constant_time_eq a b \<longleftrightarrow> a = b"
  by (simp add: constant_time_eq_bytes utf8_inj)

section \<open>Who a token is\<close>

text \<open>How the store recognises a presented token.\<close>

definition recognised :: "(string \<Rightarrow> 'd) \<Rightarrow> string \<Rightarrow> 'd token_world \<Rightarrow> token_kind option" where
  "recognised sha p w = (case fst (resolve_token sha p w) of Inr r \<Rightarrow> map_option rkind r | Inl _ \<Rightarrow> None)"

lemma recognised_run:
  "recognised sha p w =
     (if p = current w \<or> (\<exists>deadline. previous w = Some (p, deadline) \<and> clock w < deadline) then Some Primary
      else if map_of (sweep (clock w) (access w)) (sha p) = None then None else Some Access)"
  by (auto simp: recognised_def resolve_token_run utf8_inj of_kind_def split: option.splits)

lemma map_of_sweep: "k \<notin> fst ` set m \<Longrightarrow> map_of (sweep t m) k = None"
  by (auto simp: sweep_def map_of_eq_None_iff)

lemma make_room_subset: "set (make_room m) \<subseteq> set m"
proof (induction m rule: make_room.induct)
  case (1 m)
  then show ?case by (subst make_room.simps) (auto split: option.splits prod.splits dest!: subsetD)
qed

lemma soonest_None: "soonest m = None \<longleftrightarrow> m = []"
  by (cases m) (auto split: option.splits)

lemma make_room_length: "length (make_room m) < MAX_LIVE_ACCESS"
proof (induction m rule: make_room.induct)
  case (1 m)
  show ?case
  proof (cases "MAX_LIVE_ACCESS \<le> length m")
    case True
    then have "soonest m \<noteq> None" by (auto simp: soonest_None MAX_LIVE_ACCESS_def)
    then obtain k e where "soonest m = Some (k, e)" by fastforce
    with 1 True show ?thesis by (subst make_room.simps) simp
  next
    case False
    then show ?thesis by (subst make_room.simps) simp
  qed
qed

lemma make_room_distinct: "distinct (map fst m) \<Longrightarrow> distinct (map fst (make_room m))"
proof (induction m rule: make_room.induct)
  case (1 m)
  then show ?case by (subst make_room.simps) (auto split: option.splits prod.splits simp: distinct_map_filter)
qed

text \<open>\<open>p\<close> is not an access token and is none of the texts still to be drawn.\<close>

definition unlisted :: "(string \<Rightarrow> 'd) \<Rightarrow> (nat \<Rightarrow> 8 word list) \<Rightarrow> string \<Rightarrow> 'd token_world \<Rightarrow> bool" where
  "unlisted sha rnd p w = (sha p \<notin> fst ` set (access w) \<and> (\<forall>i \<ge> drawn w. random_hex (rnd i) \<noteq> p))"

lemma token_move_unlisted: "token_move sha rnd w w1 \<Longrightarrow> inj sha \<Longrightarrow> unlisted sha rnd p w \<Longrightarrow> unlisted sha rnd p w1"
proof (induction rule: token_move.induct)
  case (mint tok w e)
  have "set (make_room (sweep (clock w) (access w))) \<subseteq> set (access w)"
    using make_room_subset by (force simp: sweep_def)
  moreover have "sha p \<noteq> sha tok" using mint by (auto simp: unlisted_def dest: injD)
  ultimately show ?case using mint by (auto simp: unlisted_def)
qed (auto simp: unlisted_def sweep_def)

lemma unlisted_not_access: "unlisted sha rnd p w \<Longrightarrow> recognised sha p w \<noteq> Some Access"
  by (simp add: recognised_run unlisted_def map_of_sweep)

section \<open>What the answers leave behind\<close>

lemma authenticate_world:
  "authenticate sha c w = (Inr x, w1) \<Longrightarrow> w1 = w \<or> w1 = w\<lparr>access := sweep (clock w) (access w)\<rparr>"
  by (auto simp: authenticate_def run_Inr resolve_token_run split: caller.splits option.splits if_splits)

text \<open>The world after a rotation with a window of \<open>g\<close> nanoseconds.\<close>

definition rotated :: "(nat \<Rightarrow> 8 word list) \<Rightarrow> nat \<Rightarrow> outcome list \<Rightarrow> 'd token_world \<Rightarrow> 'd token_world" where
  "rotated rnd g os w = (let tok = random_hex (rnd (drawn w)) in
     w\<lparr>access := [], drawn := Suc (drawn w), token_file := Some tok, token_temp := None, current := tok,
       previous := (if g = 0 then None else Some (current w, clock w + g)), touts := os\<rparr>)"

definition grace_of :: "nat option \<Rightarrow> nat" where
  "grace_of g = min (case g of None \<Rightarrow> ROTATION_GRACE | Some s \<Rightarrow> s * SECOND) ROTATION_GRACE_MAX"

lemma rotate_Inr: "rotate rnd gr write_token w = (Inr ro, w1) \<Longrightarrow> \<exists>os. w1 = rotated rnd (min gr ROTATION_GRACE_MAX) os w"
  by (cases rule: rotate_run[where rnd = rnd and gr = gr and w = w]) (auto simp: rotated_def Let_def)

lemma handle_rotate:
  assumes "handle sha rnd c (RotatePrimary g) w = (Inr a, w1)"
  obtains os where "w1 = rotated rnd (grace_of g) os w"
proof -
  from assms obtain r u ro where auth: "authenticate sha c w = (Inr r, u)"
    and rot: "rotate rnd (case g of None \<Rightarrow> ROTATION_GRACE | Some s \<Rightarrow> s * SECOND) write_token u = (Inr ro, w1)"
    by (auto simp: handle_def run_Inr rotate_primary_token_def)
  have "rotated rnd n os u = rotated rnd n os w" for n os
    using authenticate_world[OF auth] by (auto simp: rotated_def Let_def)
  with rotate_Inr[OF rot] that show ?thesis by (auto simp: grace_of_def)
qed

lemma handle_revoke: "handle sha rnd c RevokeAccess w = (Inr a, w1) \<Longrightarrow> w1 = w\<lparr>access := []\<rparr>"
  by (auto simp: handle_def run_Inr revoke_access_tokens_def revoke_all_access_run dest!: authenticate_world)

text \<open>
  C19. Revoking is final: after the access tokens were revoked, by request or by a rotation, nothing
  that existed before is ever recognised as an access token again, whatever requests, failures,
  crashes and starts follow.
\<close>

theorem revoked_token_stays_dead:
  assumes "inj sha" and "booted w" and "\<forall>i \<ge> drawn w. random_hex (rnd i) \<noteq> p"
    and "q = RevokeAccess \<or> q = RotatePrimary g" and "handle sha rnd c q w = (Inr a, w1)"
  shows "recognised sha p (token_run sha rnd es w1) \<noteq> Some Access"
proof -
  have "unlisted sha rnd p w1 \<and> booted w1"
    using assms(2-5) by (auto dest!: handle_revoke elim!: handle_rotate simp: unlisted_def booted_def rotated_def Let_def)
      (metis Suc_leD)
  then have "unlisted sha rnd p (token_run sha rnd es w1)"
    using assms(1) token_move_unlisted by (blast intro: token_run_invariant)
  then show ?thesis by (rule unlisted_not_access)
qed


text \<open>A daemon for the examples: the i-th draw is the byte i, and a digest is the text.\<close>

definition ex_rnd :: "nat \<Rightarrow> 8 word list" where
  "ex_rnd i = [word_of_nat (i mod 256)]"

definition ex_world :: "string token_world" where
  "ex_world = \<lparr>current = ''key'', previous = None, access = [], token_file = Some (''key'' @ [CHR 10]), token_temp = None,
     conf_token = None, clock = 0, wall = 0, drawn = 0, touts = []\<rparr>"

lemma ex_world_booted: "booted ex_world"
  by (simp add: booted_def ex_world_def)

lemma ex_rnd_key: "random_hex (ex_rnd i) \<noteq> ''key''"
proof
  assume "random_hex (ex_rnd i) = ''key''"
  then have "length (random_hex (ex_rnd i)) = 3" by simp
  then show False by (simp add: random_hex_def ex_rnd_def hex2_def)
qed

theorem revoked_token_stays_dead_witness:
  "recognised id ''key'' (token_run id ex_rnd [Ask (Bearer ''key'') (IssueAccess None ''app'') [], Boot []]
     (ex_world\<lparr>access := []\<rparr>)) \<noteq> Some Access"
proof -
  have "handle id ex_rnd (Bearer ''key'') RevokeAccess ex_world = (Inr (Revoked 0), ex_world\<lparr>access := []\<rparr>)"
    by code_simp
  from revoked_token_stays_dead[OF inj_on_id ex_world_booted _ disjI1[OF refl] this] show ?thesis
    using ex_rnd_key by blast
qed

text \<open>\<open>p\<close> is not the primary and stops being the previous one at \<open>t\<close>.\<close>

definition retired :: "(string \<Rightarrow> 'd) \<Rightarrow> (nat \<Rightarrow> 8 word list) \<Rightarrow> string \<Rightarrow> nat \<Rightarrow> 'd token_world \<Rightarrow> bool" where
  "retired sha rnd p t w = (unlisted sha rnd p w \<and> current w \<noteq> p \<and> (\<forall>d. previous w = Some (p, d) \<longrightarrow> d \<le> t) \<and>
     (\<forall>raw. token_file w = Some raw \<longrightarrow> trim raw \<noteq> p))"

lemma token_move_retired:
  assumes "token_move sha rnd w w1" "inj sha" "retired sha rnd p t w"
  shows "retired sha rnd p t w1"
proof -
  have "unlisted sha rnd p w1" using assms token_move_unlisted by (auto simp: retired_def)
  with assms(1,3) show ?thesis
    by (cases rule: token_move.cases) (auto simp: retired_def unlisted_def)
qed


lemma hex2_small: "hex2 0 = ''00''" "hex2 1 = ''01''" "hex2 2 = ''02''"
  by code_simp+

lemma trim_small: "trim ''00'' = ''00''" "trim (''key'' @ [CHR 10]) = ''key''"
  by code_simp+

lemmas token_eval = trim_small handle_def authenticate_def resolve_token_run utf8_inj of_kind_def local_peer_def rotate_primary_token_def
  issue_access_token_def revoke_access_tokens_def commit_token_rotation_def token_status_of_def require_primary_def
  reject_grace_def guard_def issue_access_run revoke_all_access_run rotate_def begin_rotation_run swap_primary_run commit_rotation_def draw_def
  write_token_def best_effort_def crashed_def tstep_def step_io_def modify_def io_defs random_hex_def ex_rnd_def hex2_small sweep_def
  unix_seconds_def SECOND_def ROTATION_GRACE_MAX_def ROTATION_GRACE_def ACCESS_TTL_def ACCESS_TTL_MAX_def clamp_def
  token_run_def boot_tokens_def ensure_api_token_def ex_world_def



section \<open>What access tokens may do\<close>

text \<open>
  An access token manages nothing: asking with one to mint, revoke, rotate or confirm is refused
  and changes nothing but dropping expired tokens.
\<close>

theorem access_token_manages_nothing:
  assumes "recognised sha p w = Some Access" and "q \<noteq> GetStatus"
  shows "handle sha rnd (Bearer p) q w = (Inl (Denied AccessCannotManage), w\<lparr>access := sweep (clock w) (access w)\<rparr>)"
proof -
  obtain r where "resolve_token sha p w = (Inr (Some r), w\<lparr>access := sweep (clock w) (access w)\<rparr>)" "rkind r = Access"
    using assms(1) by (auto simp: recognised_def resolve_token_run of_kind_def split: if_splits option.splits)
  with assms(2) show ?thesis
    by (cases q) (simp_all add: handle_def authenticate_def issue_access_token_def revoke_access_tokens_def
        rotate_primary_token_def commit_token_rotation_def require_primary_def io_defs)
qed

theorem access_token_manages_nothing_witness:
  "let w = snd (handle id ex_rnd (Bearer ''key'') (IssueAccess None ''app'') ex_world) in
   handle id ex_rnd (Bearer ''00'') (RotatePrimary (Some 0)) w
     = (Inl (Denied AccessCannotManage), w\<lparr>access := sweep (clock w) (access w)\<rparr>)"
proof -
  let ?w = "snd (handle id ex_rnd (Bearer ''key'') (IssueAccess None ''app'') ex_world)"
  have "recognised id ''00'' ?w = Some Access"
    by (simp add: recognised_run token_eval Let_def make_room.simps MAX_LIVE_ACCESS_def)
  from access_token_manages_nothing[OF this, of "RotatePrimary (Some 0)" ex_rnd] show ?thesis by (simp add: Let_def)
qed


section \<open>How many, and how long\<close>

definition access_bounded :: "'d token_world \<Rightarrow> bool" where
  "access_bounded w = (length (access w) \<le> MAX_LIVE_ACCESS \<and> distinct (map fst (access w)) \<and>
     (\<forall>(k, e) \<in> set (access w). expires e \<le> clock w + ACCESS_TTL_MAX))"

lemma access_bounded_filter:
  "access_bounded w \<Longrightarrow> access_bounded (w\<lparr>access := filter P (access w)\<rparr>)"
  by (auto simp: access_bounded_def distinct_map_filter intro: le_trans[OF length_filter_le])

lemma access_bounded_insert:
  assumes "access_bounded w" "expires e \<le> clock w + ACCESS_TTL_MAX"
  shows "access_bounded (w\<lparr>access := (k, e) # filter (\<lambda>(j, x). j \<noteq> k) (make_room (access w))\<rparr>)"
proof -
  let ?m = "make_room (access w)"
  have "Suc (length (filter (\<lambda>(j, x). j \<noteq> k) ?m)) \<le> MAX_LIVE_ACCESS"
    using make_room_length[of "access w"] length_filter_le[of "\<lambda>(j, x). j \<noteq> k" ?m] by linarith
  moreover have "distinct (map fst ?m)" using assms(1) by (auto simp: access_bounded_def intro: make_room_distinct)
  moreover have "\<forall>(k, e) \<in> set ?m. expires e \<le> clock w + ACCESS_TTL_MAX"
    using assms(1) make_room_subset[of "access w"] by (auto simp: access_bounded_def)
  ultimately show ?thesis using assms(2) by (auto simp: access_bounded_def distinct_map_filter)
qed

lemma token_move_bounded: "token_move sha rnd w w1 \<Longrightarrow> access_bounded w \<Longrightarrow> access_bounded w1"
proof (induction rule: token_move.induct)
  case (sweeping w)
  then show ?case unfolding sweep_def by (rule access_bounded_filter)
next
  case (mint tok w e)
  let ?u = "w\<lparr>access := sweep (clock w) (access w)\<rparr>"
  have "access_bounded ?u" using mint(3) unfolding sweep_def by (rule access_bounded_filter)
  from access_bounded_insert[OF this, of e "sha tok"] mint(2) show ?case by (simp add: access_bounded_def)
qed (auto simp: access_bounded_def)

text \<open>
  The map of access tokens cannot grow or linger: in every run there are at most 64, one for each
  digest, and none expires more than an hour from now.
\<close>

theorem live_tokens_bounded:
  assumes "booted w" and "access_bounded w"
  shows "access_bounded (token_run sha rnd es w)"
  using assms by (rule token_run_invariant) (rule token_move_bounded)

theorem live_tokens_bounded_witness:
  "access_bounded (token_run id ex_rnd [Ask (Bearer ''key'') (IssueAccess (Some 9999999) ''app'') [], Pass 5] ex_world)"
  by (rule live_tokens_bounded[OF ex_world_booted]) (simp add: access_bounded_def ex_world_def)

lemma handle_issue:
  assumes "handle sha rnd c (IssueAccess ttl lab) w = (Inr (Minted tok ex s), w1)"
  shows "clock w1 = clock w \<and> current w1 = current w \<and> previous w1 = previous w \<and> s = 600 \<and> (\<exists>e m. access w1 = (sha tok, e) # m \<and> sha tok \<notin> fst ` set m \<and>
    expires e = clock w + clamp SECOND ACCESS_TTL_MAX (case ttl of None \<Rightarrow> ACCESS_TTL | Some t \<Rightarrow> t * SECOND))"
proof -
  from assms obtain r u where auth: "authenticate sha c w = (Inr r, u)"
    and i: "issue_access sha rnd (map_option (\<lambda>s. s * SECOND) ttl) lab u = (Inr (tok, ex), w1)" and "s = ACCESS_TTL div SECOND"
    by (auto simp: handle_def run_Inr issue_access_token_def)
  with authenticate_world[OF auth] show ?thesis
    by (cases ttl) (auto simp: issue_access_run Let_def ACCESS_TTL_def SECOND_def)
qed

text \<open>
  C21. A minted access token works at once and for exactly the lifetime asked for, between a second
  and an hour, ten minutes when nothing was asked for.
\<close>

theorem minted_token_lifetime:
  assumes "handle sha rnd c (IssueAccess ttl lab) w = (Inr (Minted tok ex s), w1)"
    and "tok \<noteq> current w" and "\<forall>d. previous w \<noteq> Some (tok, d)"
  shows "recognised sha tok (token_step sha rnd (Pass t) w1) =
    (if t < clamp SECOND ACCESS_TTL_MAX (case ttl of None \<Rightarrow> ACCESS_TTL | Some s \<Rightarrow> s * SECOND)
     then Some Access else None)"
proof -
  from handle_issue[OF assms(1)] obtain e m where a: "access w1 = (sha tok, e) # m" "sha tok \<notin> fst ` set m"
    "expires e = clock w1 + clamp SECOND ACCESS_TTL_MAX (case ttl of None \<Rightarrow> ACCESS_TTL | Some t \<Rightarrow> t * SECOND)"
    "current w1 = current w" "previous w1 = previous w" by auto
  have "map_of (sweep n m) (sha tok) = None" for n using a(2) by (rule map_of_sweep)
  with a assms(2,3) show ?thesis by (auto simp: recognised_run sweep_def)
qed

theorem minted_token_lifetime_witness:
  "recognised id ''00'' (token_step id ex_rnd (Pass 59000000000)
     (snd (handle id ex_rnd (Bearer ''key'') (IssueAccess (Some 60) ''app'') ex_world))) = Some Access"
proof -
  let ?r = "handle id ex_rnd (Bearer ''key'') (IssueAccess (Some 60) ''app'') ex_world"
  have "fst ?r = Inr (Minted ''00'' 60 600)"
    by (simp add: token_eval Let_def make_room.simps MAX_LIVE_ACCESS_def)
  then have r: "?r = (Inr (Minted ''00'' 60 600), snd ?r)" by (metis prod.collapse)
  have "''00'' \<noteq> current ex_world" "\<forall>d. previous ex_world \<noteq> Some (''00'', d)" by (simp_all add: ex_world_def)
  from minted_token_lifetime[OF r this, of 59000000000] show ?thesis
    by (simp add: clamp_def SECOND_def ACCESS_TTL_MAX_def)
qed

section \<open>What the code does and its comments do not say\<close>

text \<open>
  An access token minted with the old primary in the grace window works after the old primary does
  not: 299 of 300 seconds into the window it is asked to live an hour.
\<close>

theorem grace_minted_outlives_old_primary:
  "let w = token_run id ex_rnd [Ask (Bearer ''key'') (RotatePrimary None) [], Pass 299000000000,
       Ask (Bearer ''key'') (IssueAccess (Some 3600) []) [], Pass 2000000000] ex_world in
   recognised id ''key'' w = None \<and> recognised id ''01'' w = Some Access"
  by (simp add: recognised_run token_eval crashed_def Let_def make_room.simps MAX_LIVE_ACCESS_def)

text \<open>The answer to a request for a minute says ten minutes, next to the right time of expiry.\<close>

theorem issue_reports_default_ttl:
  "fst (handle id ex_rnd (Bearer ''key'') (IssueAccess (Some 60) []) ex_world) = Inr (Minted ''00'' 60 600)"
  by (simp add: token_eval Let_def make_room.simps MAX_LIVE_ACCESS_def)

text \<open>An unconfirmed rotation is reported as pending after its window, with an end that moves along.\<close>

theorem pending_after_window:
  "fst (handle id ex_rnd (Bearer ''00'') GetStatus (token_run id ex_rnd [Ask (Bearer ''key'') (RotatePrimary (Some 10)) [],
       Pass 500000000000] ex_world))
   = Inr (StatusReply \<lparr>st_kind = Primary, st_expires = None, st_live = 0, st_digest = ''00'', st_pending = True,
       st_until = Some 500\<rparr>)"
  by (simp add: token_eval crashed_def Let_def status_def swept_def)

text \<open>A token file that holds only white space makes the empty token the primary.\<close>

theorem blank_token_file_opens:
  "fst (handle id ex_rnd (Bearer []) (RotatePrimary (Some 0)) (boot_tokens ex_rnd (ex_world\<lparr>token_file := Some []\<rparr>)))
   = Inr (Rotated \<lparr>ro_token = ''00'', ro_at = 0, ro_until = None, ro_revoked = 0\<rparr>)"
  by (simp add: token_eval Let_def trim_def trim_start_def trim_end_def)

section \<open>Console tokens\<close>

definition stored :: "console_tokens \<Rightarrow> string \<times> console_grant \<Rightarrow> nat" where
  "stored m x = count_list (map (\<lambda>(k, g, ex). (k, g)) m) x"

lemma count_filter_le: "count_list (map f (filter P m)) x \<le> count_list (map f m) x"
  by (induction m) auto

lemma stored_issue: "stored (snd (console_issue tok t wl g m)) x \<le> stored m x + (if x = (tok, g) then 1 else 0)"
proof -
  have "stored (filter (\<lambda>(k, x). k \<noteq> tok) (console_live t m)) x \<le> stored m x"
    unfolding stored_def console_live_def by (rule le_trans[OF count_filter_le count_filter_le])
  then show ?thesis by (auto simp: console_issue_def stored_def)
qed

lemma stored_consume:
  assumes "console_consume tok t m = (r, m1)"
  shows "stored m1 x + (if \<exists>g. r = Some g \<and> x = (tok, g) then 1 else 0) \<le> stored m x"
proof -
  let ?l = "console_live t m"
  have l: "stored ?l x \<le> stored m x" unfolding stored_def console_live_def by (rule count_filter_le)
  have m1: "m1 = filter (\<lambda>(k, x). k \<noteq> tok) ?l" and r: "r = map_option fst (map_of ?l tok)"
    using assms by (auto simp: console_consume_def Let_def)
  show ?thesis
  proof (cases "\<exists>g. r = Some g \<and> x = (tok, g)")
    case True
    then obtain g ex where "map_of ?l tok = Some (g, ex)" "x = (tok, g)" using r by auto
    then have "(tok, g, ex) \<in> set ?l" by (simp add: map_of_SomeD)
    then have "0 < stored ?l x" using \<open>x = (tok, g)\<close> by (force simp: stored_def count_list_0_iff intro!: gr0I)
    moreover have "stored m1 x = 0" using \<open>x = (tok, g)\<close> by (auto simp: m1 stored_def count_list_0_iff)
    ultimately show ?thesis using l True by simp
  next
    case False
    have "stored m1 x \<le> stored ?l x" unfolding m1 stored_def by (rule count_filter_le)
    with l False show ?thesis by auto
  qed
qed

lemma console_redeemed_bound: "count_list (console_redeemed t ops m) x \<le> stored m x + count_list (console_issued ops) x"
proof (induction t ops m rule: console_redeemed.induct)
  case (2 t tok g ops m)
  then show ?case using stored_issue[of tok t 0 g m x] by (auto split: if_splits)
next
  case (3 t tok ops m)
  obtain r m1 where c: "console_consume tok t m = (r, m1)" by (cases "console_consume tok t m")
  with 3 stored_consume[OF c, of x] show ?case by (cases r) (auto split: if_splits)
qed simp_all

text \<open>
  C22. A console token opens one session: however tokens are issued and presented over time, a grant is
  redeemed at most as often as it was issued, with the token it was issued for.
\<close>

theorem console_token_single_use:
  "count_list (console_redeemed t ops []) x \<le> count_list (console_issued ops) x"
  using console_redeemed_bound[of t ops "[]" x] by (simp add: stored_def)

end
