(* ===== verification/TokenRaces.thy ===== *)
theory TokenRaces
  imports TokenProps
begin

text \<open>
  Rotations as the daemon runs them, in three parts with no lock held over them
  (\<open>TokenStore::rotate\<close>, \<open>api/tokens.rs\<close>): other requests are answered between the parts. What a
  start of the daemon finds, when at most one rotation is under way; two lemmas say what
  overlapping requests do.
\<close>

section \<open>Rotations under way\<close>

text \<open>
  A rotation under way: the tokens it revoked, its window, its token, and whether that is saved.
  \<open>Whole e\<close> is an event of the sequential model; a rotation begins, saves its token and replaces the
  primary in events of its own, which name it.
\<close>

type_synonym flight = "nat \<times> nat \<times> nat \<times> string \<times> bool"

datatype slice = Whole token_event | Begin nat caller "nat option" | Persist nat "outcome list" | Swap nat

definition begin_rotate :: "(string \<Rightarrow> 'd) \<Rightarrow> (nat \<Rightarrow> 8 word list) \<Rightarrow> caller \<Rightarrow> nat option \<Rightarrow> ('d, nat \<times> nat \<times> string) tio" where
  "begin_rotate sha rnd c g = bind (authenticate sha c) (\<lambda>(r, is_root). seq (as_primary r is_root)
     (begin_rotation rnd (case g of None \<Rightarrow> ROTATION_GRACE | Some s \<Rightarrow> s * SECOND)))"

definition landed :: "nat \<Rightarrow> flight list \<Rightarrow> flight list" where
  "landed i fl = filter (\<lambda>(j, x). j \<noteq> i) fl"

fun race_step :: "(string \<Rightarrow> 'd) \<Rightarrow> (nat \<Rightarrow> 8 word list) \<Rightarrow> slice \<Rightarrow> 'd token_world \<times> flight list \<Rightarrow> 'd token_world \<times> flight list" where
  "race_step sha rnd (Whole e) (w, fl) = (let w1 = token_step sha rnd e w in
     (w1, case e of Boot os \<Rightarrow> if crashed w1 then fl else [] | _ \<Rightarrow> fl))"
| "race_step sha rnd (Begin i c g) (w, fl) =
     (if crashed w \<or> i \<in> fst ` set fl then (w, fl)
      else case begin_rotate sha rnd c g w of
        (Inr (n, gr, tok), w1) \<Rightarrow> (w1, (i, n, gr, tok, False) # fl)
      | (Inl e, w1) \<Rightarrow> (w1, fl))"
| "race_step sha rnd (Persist i os) (w, fl) =
     (if crashed w then (w, fl)
      else case map_of fl i of
        Some (n, gr, tok, False) \<Rightarrow> (case write_token tok (w\<lparr>touts := os\<rparr>) of
            (Inr x, w1) \<Rightarrow> (w1, (i, n, gr, tok, True) # landed i fl)
          | (Inl e, w1) \<Rightarrow> (w1, if crashed w1 then fl else landed i fl))
      | _ \<Rightarrow> (w, fl))"
| "race_step sha rnd (Swap i) (w, fl) =
     (if crashed w then (w, fl)
      else case map_of fl i of
        Some (n, gr, tok, True) \<Rightarrow> (snd (swap_primary n gr tok w), landed i fl)
      | _ \<Rightarrow> (w, fl))"

definition race_run where
  "race_run sha rnd es s = foldl (\<lambda>s e. race_step sha rnd e s) s es"

text \<open>The parts of a rotation, one after the other, are the rotation of the sequential model.\<close>

lemma rotation_in_parts:
  assumes "handle sha rnd c (RotatePrimary g) w = (Inr a, w1)" "\<not> crashed w" "touts w = os"
  shows "race_run sha rnd [Begin i c g, Persist i os, Swap i] (w, []) = (w1, [])"
proof -
  from assms(1) obtain r is_root u n gr tok v w2 ro where
    auth: "authenticate sha c w = (Inr (r, is_root), u)" and prim: "require_primary r is_root = Inr ()"
    and beg: "begin_rotation rnd (case g of None \<Rightarrow> ROTATION_GRACE | Some s \<Rightarrow> s * SECOND) u = (Inr (n, gr, tok), v)"
    and wr: "write_token tok v = (Inr (), w2)" and sw: "swap_primary n gr tok w2 = (Inr ro, w1)"
    by (auto simp: handle_def run_Inr rotate_primary_token_def rotate_def)
  have b: "begin_rotate sha rnd c g w = (Inr (n, gr, tok), v)"
    by (simp add: begin_rotate_def bind_def seq_def auth prim lift_result_def beg)
  have v: "v\<lparr>touts := os\<rparr> = v"
    using beg authenticate_world[OF auth] assms(3) by (auto simp: begin_rotation_run)
  have "\<not> crashed v" using beg authenticate_world[OF auth] assms(2) by (auto simp: begin_rotation_run)
  moreover have "\<not> crashed w2" using wr by (cases rule: write_token_world[of tok v]) (auto simp: crashed_def)
  ultimately show ?thesis using assms(2) b v wr sw
    by (simp add: race_run_def landed_def)
qed

section \<open>One rotation at a time\<close>

fun its_turn :: "slice \<Rightarrow> flight list \<Rightarrow> bool" where
  "its_turn (Begin i c g) fl = (fl = [])"
| "its_turn (Whole (Ask c (RotatePrimary g) os)) fl = False"
| "its_turn e fl = True"

fun one_by_one :: "(string \<Rightarrow> 'd) \<Rightarrow> (nat \<Rightarrow> 8 word list) \<Rightarrow> slice list \<Rightarrow> 'd token_world \<times> flight list \<Rightarrow> bool" where
  "one_by_one sha rnd [] s = True"
| "one_by_one sha rnd (e # es) s = (its_turn e (snd s) \<and> one_by_one sha rnd es (race_step sha rnd e s))"

lemma race_invariant:
  assumes "one_by_one sha rnd es s" "P s"
    and "\<And>e s. P s \<Longrightarrow> its_turn e (snd s) \<Longrightarrow> P (race_step sha rnd e s)"
  shows "P (race_run sha rnd es s)"
  using assms(1,2) by (induction es arbitrary: s) (simp_all add: race_run_def assms(3))

section \<open>What is on file\<close>

definition on_file :: "string \<Rightarrow> 'd token_world \<Rightarrow> bool" where
  "on_file tok w = (\<exists>raw. token_file w = Some raw \<and> trim raw = tok)"

text \<open>
  The file holds the primary, or the token of the rotation under way: once that is saved, and perhaps
  when the daemon was killed over saving it.
\<close>

definition filed :: "'d token_world \<times> flight list \<Rightarrow> bool" where
  "filed s = (case s of (w, fl) \<Rightarrow> booted w \<and> length fl \<le> 1 \<and> (fl = [] \<longrightarrow> on_file (trim (current w)) w) \<and>
     (\<forall>(i, n, g, tok, saved) \<in> set fl. trim tok = tok \<and>
       (if saved then on_file tok w else on_file (trim (current w)) w \<or> crashed w \<and> on_file tok w)))"

lemma filed_cases:
  assumes "filed (w, fl)"
  obtains (rest) "fl = []" "on_file (trim (current w)) w"
    | (saved) i n g tok where "fl = [(i, n, g, tok, True)]" "trim tok = tok" "on_file tok w"
    | (unsaved) i n g tok where "fl = [(i, n, g, tok, False)]" "trim tok = tok"
        "on_file (trim (current w)) w \<or> crashed w \<and> on_file tok w"
proof (cases fl)
  case Nil
  with assms that(1) show ?thesis by (simp add: filed_def)
next
  case (Cons f fs)
  obtain i n g tok b where f: "f = (i, n, g, tok, b)" by (cases f)
  from assms Cons have "fs = []" by (simp add: filed_def)
  with assms Cons f that(2,3) show ?thesis by (cases b) (simp_all add: filed_def)
qed

lemma filed_same:
  assumes "filed (w, fl)" "token_file w1 = token_file w" "current w1 = current w" "conf_token w1 = conf_token w"
    "crashed w \<Longrightarrow> crashed w1"
  shows "filed (w1, fl)"
  using assms by (auto simp: filed_def on_file_def booted_def)

definition kept_files :: "'d token_world \<Rightarrow> string option \<times> string \<times> string option" where
  "kept_files w = (token_file w, current w, conf_token w)"

lemma frames_answers:
  "frames kept_files (authenticate sha c)" "frames kept_files (issue_access sha rnd t l)"
  "frames kept_files revoke_all_access" "frames kept_files commit_rotation" "frames kept_files (status sha r)"
proof -
  show "frames kept_files (status sha r)"
    unfolding frames_def using status_run by (metis (no_types, lifting) kept_files_def snd_conv token_world.ext_inject token_world.surjective token_world.update_convs(3))
  show "frames kept_files (authenticate sha c)"
    by (auto simp: authenticate_def frames_def resolve_token_run io_defs kept_files_def split: caller.split option.split)
qed (auto simp: frames_def issue_access_run revoke_all_access_run commit_rotation_def modify_def kept_files_def Let_def)

lemma frames_handle: "(\<And>g. q \<noteq> RotatePrimary g) \<Longrightarrow> frames kept_files (handle sha rnd c q)"
  unfolding handle_def
  by (cases q) (auto simp: issue_access_token_def revoke_access_tokens_def commit_token_rotation_def token_status_of_def
      intro!: frame_rules frames_answers)

lemma boot_filed:
  assumes "filed (w, fl)" shows "filed (race_step sha rnd (Whole (Boot os)) (w, fl))"
proof -
  from assms obtain raw where raw: "conf_token w = None" "token_file w = Some raw" by (auto simp: filed_def booted_def)
  from boot_tokens_run[of "w\<lparr>touts := os\<rparr>" raw rnd] raw
  consider "boot_tokens rnd (w\<lparr>touts := os\<rparr>) = w\<lparr>touts := [Crash]\<rparr>"
    | os1 where "boot_tokens rnd (w\<lparr>touts := os\<rparr>) = w\<lparr>touts := os1, current := trim raw, previous := None, access := []\<rparr>"
    by auto
  then show ?thesis
  proof cases
    case 1
    moreover have "filed (w\<lparr>touts := [Crash]\<rparr>, fl)" by (rule filed_same[OF assms]) simp_all
    ultimately show ?thesis by simp
  next
    case (2 os1)
    moreover have "filed (w\<lparr>touts := os1, current := trim raw, previous := None, access := []\<rparr>, f)" if "f = [] \<or> f = fl" for f
      using assms raw that by (auto simp: filed_def on_file_def booted_def split: if_splits)
    ultimately show ?thesis by simp
  qed
qed

lemma ask_filed:
  assumes "filed (w, fl)" "its_turn (Whole (Ask c q os)) fl" shows "filed (token_step sha rnd (Ask c q os) w, fl)"
proof (cases "crashed w")
  case False
  have "q \<noteq> RotatePrimary g" for g using assms(2) by auto
  from framesD[OF frames_handle[OF this], of sha rnd c "w\<lparr>touts := os\<rparr>"] False show ?thesis
    by (intro filed_same[OF assms(1)]) (simp_all add: kept_files_def)
qed (use assms in simp)

lemma begin_filed:
  assumes "filed (w, [])" shows "filed (race_step sha rnd (Begin i c g) (w, []))"
proof (cases "crashed w")
  case False
  obtain r u where auth: "authenticate sha c w = (r, u)" by (cases "authenticate sha c w")
  with framesD[OF frames_answers(1), of sha c w] have u: "kept_files u = kept_files w" by simp
  show ?thesis
  proof (cases "begin_rotate sha rnd c g w")
    case (Pair b v)
    have "kept_files v = kept_files w \<and> (\<forall>n gr tok. b = Inr (n, gr, tok) \<longrightarrow> trim tok = tok)"
      using Pair auth u
      by (cases r) (auto simp: begin_rotate_def begin_rotation_run io_defs kept_files_def split: sum.splits prod.splits if_splits)
    with False Pair assms show ?thesis
      by (auto simp: filed_def on_file_def booted_def kept_files_def split: sum.split)
  qed
qed (use assms in simp)

lemma persist_filed:
  assumes "filed (w, fl)" shows "filed (race_step sha rnd (Persist i os) (w, fl))"
proof (cases "crashed w \<or> (\<forall>n g tok. fl \<noteq> [(i, n, g, tok, False)])")
  case True
  then have "race_step sha rnd (Persist i os) (w, fl) = (w, fl)"
    by (cases rule: filed_cases[OF assms]) auto
  with assms show ?thesis by simp
next
  case False
  then obtain n g tok where fl: "fl = [(i, n, g, tok, False)]" and c: "\<not> crashed w" by auto
  with assms have f: "trim tok = tok" "on_file (trim (current w)) w" "booted w" by (auto simp: filed_def)
  show ?thesis
  proof (cases tok "w\<lparr>touts := os\<rparr>" rule: write_token_world)
    case (saved os1)
    with f c show ?thesis by (simp add: fl filed_def on_file_def booted_def landed_def)
  next
    case (failed e tmp os1)
    with f c show ?thesis by (simp add: fl filed_def on_file_def booted_def landed_def)
  next
    case (killed e os1)
    with f c show ?thesis by (simp add: fl filed_def on_file_def booted_def landed_def)
  qed
qed

lemma swap_filed:
  assumes "filed (w, fl)" shows "filed (race_step sha rnd (Swap i) (w, fl))"
proof (cases "crashed w \<or> (\<forall>n g tok. fl \<noteq> [(i, n, g, tok, True)])")
  case True
  then have "race_step sha rnd (Swap i) (w, fl) = (w, fl)"
    by (cases rule: filed_cases[OF assms]) auto
  with assms show ?thesis by simp
next
  case False
  then obtain n g tok where fl: "fl = [(i, n, g, tok, True)]" and c: "\<not> crashed w" by auto
  with assms show ?thesis by (auto simp: swap_primary_run filed_def on_file_def booted_def landed_def)
qed

lemma race_step_filed: "filed s \<Longrightarrow> its_turn e (snd s) \<Longrightarrow> filed (race_step sha rnd e s)"
proof (cases s, cases e)
  fix w fl x
  assume s: "filed s" "its_turn e (snd s)" "s = (w, fl)" and e: "e = Whole x"
  show "filed (race_step sha rnd e s)"
  proof (cases x)
    case (Ask c q os)
    with s e ask_filed[of w fl c q os sha rnd] show ?thesis by simp
  next
    case (Pass d)
    have "filed (w\<lparr>clock := clock w + d, wall := wall w + d\<rparr>, fl)" by (rule filed_same) (use s in simp_all)
    with s e Pass show ?thesis by simp
  next
    case (Boot os)
    with s e boot_filed show ?thesis by blast
  qed
qed (auto intro: begin_filed persist_filed swap_filed simp del: race_step.simps)

lemma first_boot_filed:
  assumes "ensure_api_token rnd w = (Inr tok, u)" shows "filed (boot_tokens rnd w, [])" "current (boot_tokens rnd w) = tok"
    "conf_token w = None \<Longrightarrow> trim tok = tok"
proof -
  show "current (boot_tokens rnd w) = tok" using assms by (simp add: boot_tokens_def)
  obtain ok os where n: "next_outcome (touts w) = (ok, os)" by (cases "next_outcome (touts w)")
  have "token_file u \<noteq> None \<and> trim (the (token_file u)) = trim tok \<and> conf_token u = None \<and> (conf_token w = None \<longrightarrow> trim tok = tok)"
  proof (cases "conf_token w")
    case None
    show ?thesis
    proof (cases "token_file w")
      case (Some raw)
      with None n assms show ?thesis
        by (auto simp: ensure_api_token_def tstep_def step_io_def io_defs split: if_splits)
    next
      case N: None
      let ?tok = "random_hex (rnd (drawn w))" and ?v = "w\<lparr>touts := os, drawn := Suc (drawn w)\<rparr>"
      from None N n assms have "tok = ?tok" "write_token ?tok ?v = (Inr (), u)"
        by (auto simp: ensure_api_token_def tstep_def step_io_def draw_def modify_def io_defs split: if_splits prod.splits sum.splits)
      with None show ?thesis by (cases rule: write_token_world[of ?tok ?v]) auto
    qed
  next
    case (Some t)
    from assms Some obtain v where v: "write_token t w = (Inr (), v)" and "tok = t"
      and u: "tstep CannotSaveConfig (\<lambda>w. w\<lparr>conf_token := None\<rparr>) v = (Inr (), u)"
      by (auto simp: ensure_api_token_def run_Inr)
    from v have "token_file v = Some t" by (cases rule: write_token_world[of t w]) auto
    with u \<open>tok = t\<close> Some show ?thesis by (auto simp: tstep_def step_io_def split: prod.splits if_splits)
  qed
  with assms show "filed (boot_tokens rnd w, [])" "conf_token w = None \<Longrightarrow> trim tok = tok"
    by (auto simp: boot_tokens_def filed_def on_file_def booted_def)
qed

text \<open>The primary is one of the daemon's own texts, or what the configuration file said.\<close>

definition clean_texts :: "string \<Rightarrow> 'd token_world \<times> flight list \<Rightarrow> bool" where
  "clean_texts t0 s = ((trim (current (fst s)) = current (fst s) \<or> current (fst s) = t0) \<and>
     (\<forall>(i, n, g, tok, b) \<in> set (snd s). trim tok = tok))"

lemma race_step_clean:
  assumes "clean_texts t0 s" "filed s" "its_turn e (snd s)" shows "clean_texts t0 (race_step sha rnd e s)"
proof -
  obtain w fl where s: "s = (w, fl)" by (cases s)
  show ?thesis
  proof (cases e)
    case (Whole x)
    show ?thesis
    proof (cases x)
      case (Ask c q os)
      have "q \<noteq> RotatePrimary g" for g using assms(3) Whole Ask by auto
      from framesD[OF frames_handle[OF this], of sha rnd c "w\<lparr>touts := os\<rparr>"]
      show ?thesis using assms(1) s Whole Ask by (simp add: clean_texts_def kept_files_def)
    next
      case (Pass d)
      with assms(1) s Whole show ?thesis by (simp add: clean_texts_def)
    next
      case (Boot os)
      from assms(2) s obtain raw where raw: "conf_token w = None" "token_file w = Some raw"
        by (auto simp: filed_def booted_def)
      with boot_tokens_run[of "w\<lparr>touts := os\<rparr>" raw rnd] assms(1) s Whole Boot show ?thesis
        by (auto simp: clean_texts_def)
    qed
  next
    case (Begin i c g)
    obtain b v where b: "begin_rotate sha rnd c g w = (b, v)" by (cases "begin_rotate sha rnd c g w")
    obtain r u where auth: "authenticate sha c w = (r, u)" by (cases "authenticate sha c w")
    with framesD[OF frames_answers(1), of sha c w] have u: "kept_files u = kept_files w" by simp
    have "kept_files v = kept_files w \<and> (\<forall>n gr tok. b = Inr (n, gr, tok) \<longrightarrow> trim tok = tok)"
      using b auth u
      by (cases r) (auto simp: begin_rotate_def begin_rotation_run io_defs kept_files_def split: sum.splits prod.splits if_splits)
    with assms(1) s Begin b show ?thesis by (auto simp: clean_texts_def kept_files_def split: sum.split)
  next
    case (Persist i os)
    have "current (snd (write_token tok v)) = current v" for tok v
      by (cases rule: write_token_world[of tok v]) auto
    then have "write_token tok v = (r, v1) \<Longrightarrow> current v1 = current v" for tok v r v1 by (metis snd_conv)
    with assms(1) s Persist show ?thesis
      by (fastforce simp: clean_texts_def landed_def dest: map_of_SomeD split: option.split bool.split prod.split sum.split)
  next
    case (Swap i)
    with assms(1) s show ?thesis
      by (auto simp: clean_texts_def landed_def swap_primary_run dest!: map_of_SomeD split: option.split bool.split)
  qed
qed

text \<open>
  C20. The primary survives restarts. After a first start that worked and any history of requests,
  failures, kills and starts, with requests answered between the parts of a rotation but one
  rotation at a time, starting again loses the grace window and the access tokens and nothing else:
  the daemon knows the same primary, or that of the rotation that was under way when it had saved
  its token, or was killed over saving it. The primary is the same up to white space around a
  token that came from the configuration file; every other one is the same to the letter.
\<close>

theorem restart_knows_primary:
  assumes "ensure_api_token rnd w0 = (Inr tok, u)" and "one_by_one sha rnd es (boot_tokens rnd w0, [])"
    and "race_run sha rnd es (boot_tokens rnd w0, []) = (w, fl)"
  shows "\<exists>p. boot_tokens rnd (w\<lparr>touts := []\<rparr>) = w\<lparr>touts := [], current := p, previous := None, access := []\<rparr>
    \<and> (p = trim (current w) \<or> (\<exists>i n g b. fl = [(i, n, g, p, b)] \<and> (b \<or> crashed w)))
    \<and> (trim (current w) = current w \<or> current w = tok \<and> conf_token w0 = Some tok)"
proof -
  let ?t0 = "case conf_token w0 of Some t \<Rightarrow> t | None \<Rightarrow> trim []"
  have tok: "conf_token w0 = Some t \<Longrightarrow> tok = t" for t using assms(1) by (auto simp: ensure_api_token_def run_Inr)
  have "filed (boot_tokens rnd w0, []) \<and> clean_texts ?t0 (boot_tokens rnd w0, [])"
    using first_boot_filed[OF assms(1)] tok by (auto simp: clean_texts_def split: option.split)
  then have "filed (race_run sha rnd es (boot_tokens rnd w0, [])) \<and> clean_texts ?t0 (race_run sha rnd es (boot_tokens rnd w0, []))"
    by (rule race_invariant[OF assms(2)]) (simp add: race_step_filed race_step_clean)
  then have f: "filed (w, fl)" and c: "clean_texts ?t0 (w, fl)" by (simp_all add: assms(3))
  from f obtain raw where raw: "conf_token w = None" "token_file w = Some raw" by (auto simp: filed_def booted_def)
  have "boot_tokens rnd (w\<lparr>touts := []\<rparr>) = w\<lparr>touts := [], current := trim raw, previous := None, access := []\<rparr>"
    using raw by (simp add: boot_tokens_def ensure_api_token_def tstep_def step_io_def io_defs)
  moreover have "trim raw = trim (current w) \<or> (\<exists>i n g b. fl = [(i, n, g, trim raw, b)] \<and> (b \<or> crashed w))"
    using raw by (cases rule: filed_cases[OF f]) (auto simp: on_file_def)
  moreover have "trim (current w) = current w \<or> current w = tok \<and> conf_token w0 = Some tok"
    using c tok by (auto simp: clean_texts_def split: option.splits)
  ultimately show ?thesis by blast
qed

text \<open>
  A rotation is killed while it writes the temporary file; after a start a second one works, and the
  daemon is asked for its state between saving the token and replacing the primary.
\<close>

definition ex_slices :: "slice list" where
  "ex_slices = [Begin 1 (Bearer ''00'') None, Persist 1 [Fine, Fine, Crash], Whole (Boot []),
     Begin 2 (Bearer ''00'') None, Persist 2 [], Whole (Ask (Bearer ''00'') GetStatus []), Swap 2]"

lemmas race_eval = race_run_def begin_rotate_def landed_def token_eval begin_rotation_run swap_primary_run status_def swept_def

theorem restart_knows_primary_witness:
  "let w = fst (race_run id ex_rnd ex_slices (boot_tokens ex_rnd (ex_world\<lparr>token_file := None\<rparr>), [])) in
   boot_tokens ex_rnd (w\<lparr>touts := []\<rparr>) = w\<lparr>touts := [], previous := None, access := []\<rparr> \<and> current w = ''02''"
proof -
  let ?w0 = "ex_world\<lparr>token_file := None\<rparr>" let ?s0 = "(boot_tokens ex_rnd ?w0, [])"
  have "fst (ensure_api_token ex_rnd ?w0) = Inr ''00''"
    by (simp add: token_eval)
  then obtain u where u: "ensure_api_token ex_rnd ?w0 = (Inr ''00'', u)"
    by (metis prod.collapse)
  have o: "one_by_one id ex_rnd ex_slices ?s0" by (simp add: ex_slices_def race_eval Let_def)
  have r: "race_run id ex_rnd ex_slices ?s0 = (fst (race_run id ex_rnd ex_slices ?s0), [])"
    "current (fst (race_run id ex_rnd ex_slices ?s0)) = ''02''"
    by (simp_all add: ex_slices_def race_eval Let_def)
  have t: "trim ''02'' = ''02''" by code_simp
  from restart_knows_primary[OF u o r(1)] r(2) t show ?thesis
    by (auto simp: Let_def)
qed

section \<open>What the code does and its comments do not say\<close>

text \<open>
  Two rotations overlap: both save their tokens, and the one that saved last replaces the primary
  first. The platform holds the token of the other one, which the daemon knows until its next start.
\<close>

theorem overlapping_rotations_part:
  "let s = race_run id ex_rnd [Begin 1 (Bearer ''key'') None, Begin 2 (Bearer ''key'') None, Persist 1 [], Persist 2 [],
       Swap 2, Swap 1] (ex_world, []) in
   snd s = [] \<and> current (fst s) = ''00'' \<and> token_file (fst s) = Some ''01''
   \<and> recognised id ''00'' (fst (race_step id ex_rnd (Whole (Boot [])) s)) = None"
proof -
  have "trim ''01'' = ''01''" by code_simp
  then show ?thesis by (simp add: race_eval recognised_run Let_def)
qed

text \<open>
  An access token that the old primary mints between the revocation and the swap outlives the rotation.
\<close>

theorem token_minted_while_rotating:
  "let s = race_run id ex_rnd [Begin 1 (Bearer ''key'') (Some 0), Whole (Ask (Bearer ''key'') (IssueAccess None []) []),
       Persist 1 [], Swap 1] (ex_world, []) in
   recognised id ''key'' (fst s) = None \<and> recognised id ''01'' (fst s) = Some Access"
  by (simp add: race_eval recognised_run Let_def make_room.simps MAX_LIVE_ACCESS_def)

text \<open>A token with a blank around it, taken over from the configuration file, changes at the second start.\<close>

theorem migrated_token_changes:
  "let w = boot_tokens ex_rnd (ex_world\<lparr>conf_token := Some ''key ''\<rparr>) in
   current w = ''key '' \<and> current (boot_tokens ex_rnd w) = ''key''"
proof -
  have "trim ''key '' = ''key''" by code_simp
  then show ?thesis by (simp add: token_eval Let_def)
qed

end
