(* ===== verification/FwModel.thy ===== *)
theory FwModel
  imports NetAddr Texts "HOL-Library.Product_Lexorder"
begin

text \<open>
  \<open>src/daemon/firewall/model.rs\<close>: the firewall's settings, rules and IP sets, and the
  validation between what an operator types and the nft text. The results: a port range
  and a source print back to themselves, \<open>normalize\<close> accepts exactly the well-formed
  rules and leaves them alone (so it is idempotent), and what it accepts holds no
  character that could end an nft statement or string.
\<close>

definition MAX_RULES :: nat where "MAX_RULES = 500"
definition MAX_SET_ENTRIES :: nat where "MAX_SET_ENTRIES = 10000"
definition MAX_COMMENT :: nat where "MAX_COMMENT = 120"
definition MAX_ID :: nat where "MAX_ID = 40"

definition PRESET_SSH :: string where "PRESET_SSH = ''ssh''"
definition PRESET_API :: string where "PRESET_API = ''api''"
definition PRESET_WEB :: string where "PRESET_WEB = ''web''"

definition CRITICAL_PRESETS :: "string list" where
  "CRITICAL_PRESETS = [PRESET_SSH, PRESET_API]"

definition ALL_PRESETS :: "string list" where
  "ALL_PRESETS = [PRESET_SSH, PRESET_API, PRESET_WEB]"

text \<open>One constructor per message of \<open>model.rs\<close> (and of the manager, below).\<close>

datatype fw_error =
    BadPolicy string | BadAction string | BadProtocol string | BadScope string
  | UnknownPreset string | BadRuleId | PortsNeedTcpUdp
  | BadPort string | ReversedRange string
  | EmptySource | UnknownSetRef string | BadNet net_error
  | CommentTooLong | CommentChars | BadSetName string

section \<open>Enumerations\<close>

datatype mode = Disabled | Managed | Raw

fun mode_label :: "mode \<Rightarrow> string" where
  "mode_label Disabled = ''disabled''"
| "mode_label Managed = ''managed''"
| "mode_label Raw = ''raw''"

datatype policy = PAccept | PDrop

definition policy_parse :: "string \<Rightarrow> fw_error + policy" where
  "policy_parse value =
     (let v = to_lower (trim value) in
      if v = ''accept'' then Inr PAccept
      else if v = ''drop'' then Inr PDrop
      else Inl (BadPolicy v))"

datatype action = Accept | Drop | Reject

definition action_parse :: "string \<Rightarrow> fw_error + action" where
  "action_parse value =
     (let v = to_lower (trim value) in
      if v = ''accept'' \<or> v = ''allow'' then Inr Accept
      else if v = ''drop'' \<or> v = ''deny'' then Inr Drop
      else if v = ''reject'' then Inr Reject
      else Inl (BadAction v))"

datatype protocol = Tcp | Udp | AnyProto | Icmp

definition protocol_parse :: "string \<Rightarrow> fw_error + protocol" where
  "protocol_parse value =
     (let v = to_lower (trim value) in
      if v = ''tcp'' then Inr Tcp
      else if v = ''udp'' then Inr Udp
      else if v = ''any'' \<or> v = '''' then Inr AnyProto
      else if v = ''icmp'' then Inr Icmp
      else Inl (BadProtocol v))"

definition takes_ports :: "protocol \<Rightarrow> bool" where
  "takes_ports p = (p = Tcp \<or> p = Udp)"

datatype scope = Host | Docker | Both

definition scope_parse :: "string \<Rightarrow> fw_error + scope" where
  "scope_parse value =
     (let v = to_lower (trim value) in
      if v = ''host'' \<or> v = '''' then Inr Host
      else if v = ''docker'' then Inr Docker
      else if v = ''both'' then Inr Both
      else Inl (BadScope v))"

definition scope_host :: "scope \<Rightarrow> bool" where
  "scope_host s = (s = Host \<or> s = Both)"

definition scope_docker :: "scope \<Rightarrow> bool" where
  "scope_docker s = (s = Docker \<or> s = Both)"

section \<open>Settings\<close>

record settings =
  input_policy :: policy
  allow_icmp :: bool
  ipv6 :: bool
  protect_docker :: bool
  disabled_presets :: "string list"

definition default_settings :: settings where
  "default_settings = \<lparr>input_policy = PDrop, allow_icmp = True, ipv6 = True,
     protect_docker = False, disabled_presets = []\<rparr>"

definition settings_validate :: "settings \<Rightarrow> fw_error + unit" where
  "settings_validate s =
     (case find (\<lambda>p. p \<notin> set ALL_PRESETS) (disabled_presets s) of
        Some p \<Rightarrow> Inl (UnknownPreset p)
      | None \<Rightarrow> Inr ())"

definition preset_enabled :: "settings \<Rightarrow> string \<Rightarrow> bool" where
  "preset_enabled s name = (name \<notin> set (disabled_presets s))"

section \<open>Port ranges\<close>

record port_range =
  pfrom :: "16 word"
  pto :: "16 word"

definition show_port_range :: "port_range \<Rightarrow> string" where
  "show_port_range r =
     (if pfrom r = pto r then show_nat (unat (pfrom r))
      else show_nat (unat (pfrom r)) @ ''-'' @ show_nat (unat (pto r)))"

text \<open>The closure \<open>port\<close>: zero and anything that is no \<open>u16\<close> is refused.\<close>

definition parse_port :: "string \<Rightarrow> string \<Rightarrow> fw_error + 16 word" where
  "parse_port text s =
     (case parse_u16 (trim s) of
        None \<Rightarrow> Inl (BadPort text)
      | Some p \<Rightarrow> if p = 0 then Inl (BadPort text) else Inr (word_of_nat p))"

definition parse_port_range :: "string \<Rightarrow> fw_error + port_range" where
  "parse_port_range t =
     (let text = trim t in
      case split_once CHR ''-'' text of
        Some (a, b) \<Rightarrow>
          and_then (parse_port text a) (\<lambda>from.
          and_then (parse_port text b) (\<lambda>to.
            if to < from then Inl (ReversedRange text) else Inr \<lparr>pfrom = from, pto = to\<rparr>))
      | None \<Rightarrow> map_ok (\<lambda>p. \<lparr>pfrom = p, pto = p\<rparr>) (parse_port text text))"

text \<open>The comma-separated items of all entries, blank ones skipped.\<close>

definition port_items :: "string list \<Rightarrow> string list" where
  "port_items ports =
     concat (map (\<lambda>entry. filter (\<lambda>i. trim i \<noteq> []) (split_char CHR '','' entry)) ports)"

definition range_key :: "port_range \<Rightarrow> 16 word \<times> 16 word" where
  "range_key r = (pfrom r, pto r)"

definition parse_ports :: "string list \<Rightarrow> fw_error + port_range list" where
  "parse_ports ports =
     map_ok (\<lambda>out. remdups_adj (sort_key range_key out)) (traverse parse_port_range (port_items ports))"

section \<open>Sources and comments\<close>

definition SET_REF_PREFIX :: char where "SET_REF_PREFIX = CHR 0x40"

definition normalize_source :: "string \<Rightarrow> fw_error + string" where
  "normalize_source src =
     (let source = trim src in
      if source = [] then Inl EmptySource
      else (case strip_prefix [SET_REF_PREFIX] source of
          Some name \<Rightarrow>
            if name = ''allowlist'' \<or> name = ''blocklist'' then Inr source
            else Inl (UnknownSetRef name)
        | None \<Rightarrow> map_ok show_net (map_err BadNet (parse_net source))))"

definition clean_comment :: "string \<Rightarrow> fw_error + string" where
  "clean_comment c =
     (let comment = trim c in
      if length comment > MAX_COMMENT then Inl CommentTooLong
      else if list_ex (\<lambda>c. is_control c \<or> c = CHR 0x22 \<or> c = CHR 0x5C \<or> c = CHR 0x27) comment
      then Inl CommentChars
      else Inr comment)"

section \<open>Rules\<close>

record rule =
  rid :: string
  enabled :: bool
  raction :: action
  rprotocol :: protocol
  ports :: "string list"
  sources :: "string list"
  rscope :: scope
  rcomment :: string
  managed_by :: string

definition default_rule :: rule where
  "default_rule = \<lparr>rid = [], enabled = True, raction = Accept, rprotocol = AnyProto,
     ports = [], sources = [], rscope = Host, rcomment = [], managed_by = ''user''\<rparr>"

definition rule_char :: "char \<Rightarrow> bool" where
  "rule_char c = (is_alnum c \<or> c = CHR ''-'' \<or> c = CHR ''_'')"

definition rule_normalize :: "rule \<Rightarrow> fw_error + rule" where
  "rule_normalize r =
     (if byte_len (rid r) > MAX_ID \<or> \<not> list_all rule_char (rid r) then Inl BadRuleId
      else and_then (clean_comment (rcomment r)) (\<lambda>comment.
        if \<not> takes_ports (rprotocol r) \<and> ports r \<noteq> [] then Inl PortsNeedTcpUdp
        else and_then (parse_ports (ports r)) (\<lambda>ranges.
          and_then (traverse normalize_source (sources r)) (\<lambda>srcs.
            Inr (r\<lparr>rcomment := comment,
                   ports := map show_port_range ranges,
                   sources := remdups_adj (sort srcs),
                   managed_by := (if managed_by r = [] then ''user'' else managed_by r)\<rparr>)))))"

definition is_preset :: "rule \<Rightarrow> bool" where
  "is_preset r = starts_with ''preset:'' (managed_by r)"

section \<open>IP sets\<close>

record set_entry =
  evalue :: string
  expires_unix :: "int option"
  ecomment :: string

definition entry_normalize :: "set_entry \<Rightarrow> fw_error + set_entry" where
  "entry_normalize e =
     and_then (map_err BadNet (parse_net (evalue e))) (\<lambda>n.
       and_then (clean_comment (ecomment e)) (\<lambda>c.
         Inr (e\<lparr>evalue := show_net n, ecomment := c\<rparr>)))"

definition expired :: "int \<Rightarrow> set_entry \<Rightarrow> bool" where
  "expired now e = (case expires_unix e of None \<Rightarrow> False | Some at \<Rightarrow> at \<le> now)"

datatype set_name = Allowlist | Blocklist

definition set_name_parse :: "string \<Rightarrow> fw_error + set_name" where
  "set_name_parse value =
     (let v = to_lower (trim value) in
      if v = ''allowlist'' \<or> v = ''allow'' then Inr Allowlist
      else if v = ''blocklist'' \<or> v = ''block'' then Inr Blocklist
      else Inl (BadSetName v))"

record ip_sets =
  allowlist :: "set_entry list"
  blocklist :: "set_entry list"

fun get_set :: "ip_sets \<Rightarrow> set_name \<Rightarrow> set_entry list" where
  "get_set s Allowlist = allowlist s"
| "get_set s Blocklist = blocklist s"

fun put_set :: "ip_sets \<Rightarrow> set_name \<Rightarrow> set_entry list \<Rightarrow> ip_sets" where
  "put_set s Allowlist xs = s\<lparr>allowlist := xs\<rparr>"
| "put_set s Blocklist xs = s\<lparr>blocklist := xs\<rparr>"

record model =
  msettings :: settings
  mrules :: "rule list"
  msets :: ip_sets

definition default_model :: model where
  "default_model = \<lparr>msettings = default_settings, mrules = [],
     msets = \<lparr>allowlist = [], blocklist = []\<rparr>\<rparr>"

section \<open>The order of port ranges\<close>

lemma inj_range_key [simp]: "inj range_key"
  by (auto simp: inj_def range_key_def)

lemmas sort_dedup_folds = sort_dedup_def[symmetric] sort_dedup_def[of "\<lambda>x. x", symmetric]

section \<open>Port ranges print and parse\<close>

definition wf_range :: "port_range \<Rightarrow> bool" where
  "wf_range r = (0 < pfrom r \<and> pfrom r \<le> pto r)"

lemma show_nat_seps [simp]:
  "CHR ''-'' \<notin> set (show_nat n)" "CHR '','' \<notin> set (show_nat n)"
  by (auto dest!: show_nat_digit simp: is_digit_def)

lemma show_nat_trim [simp]: "trim (show_nat n) = show_nat n"
  by (intro trim_trimmed no_white_trimmed) (auto dest: show_nat_chars alnum_not_white)

lemma show_port_range_chars:
  "c \<in> set (show_port_range r) \<Longrightarrow> is_digit c \<or> c = CHR ''-''"
  by (auto simp: show_port_range_def split: if_splits dest: show_nat_digit)

lemma show_port_range_trim [simp]: "trim (show_port_range r) = show_port_range r"
  by (intro trim_trimmed no_white_trimmed)
    (auto dest!: show_port_range_chars simp: is_white_def is_digit_def)

lemma show_port_range_nonempty [simp]: "show_port_range r \<noteq> []"
  by (simp add: show_port_range_def)

lemma parse_port_show: "p \<noteq> 0 \<Longrightarrow> parse_port t (show_nat (unat p)) = Inr p"
  using unat_bound[of p] by (auto simp: parse_port_def parse_radix_show unat_gt_0)

lemma parse_port_nonzero: "parse_port t s = Inr p \<Longrightarrow> p \<noteq> 0"
proof -
  have "\<not> 65536 dvd x" if "0 < x" "x \<le> 65535" for x :: nat
    using that by (intro nat_dvd_not_less) auto
  then show "parse_port t s = Inr p \<Longrightarrow> p \<noteq> 0"
    by (auto simp: parse_port_def word_of_nat_eq_0_iff
        split: option.splits if_splits dest!: parse_radix_bound)
qed

lemma parse_show_port_range:
  assumes "wf_range r" shows "parse_port_range (show_port_range r) = Inr r"
proof (cases "pfrom r = pto r")
  case True
  with assms have "pfrom r \<noteq> 0" by (auto simp: wf_range_def)
  moreover have "show_port_range r = show_nat (unat (pfrom r))"
    using True by (simp add: show_port_range_def)
  moreover have "split_once CHR ''-'' (show_nat (unat (pfrom r))) = None" by simp
  ultimately show ?thesis
    using True by (simp add: parse_port_range_def parse_port_show del: split_once_none)
next
  case False
  from assms have "pfrom r \<noteq> 0" "pto r \<noteq> 0" "\<not> pto r < pfrom r"
    by (auto simp: wf_range_def not_less)
  moreover have "split_once CHR ''-'' (show_port_range r)
      = Some (show_nat (unat (pfrom r)), show_nat (unat (pto r)))"
    using False by (simp add: show_port_range_def split_once_append)
  ultimately show ?thesis
    by (simp add: parse_port_range_def parse_port_show)
qed

lemma parse_port_range_wf: "parse_port_range s = Inr r \<Longrightarrow> wf_range r"
  by (auto simp: parse_port_range_def Let_def wf_range_def word_neq_0_conv
      split: option.splits if_splits prod.splits dest: parse_port_nonzero)

interpretation port_text: codec show_port_range parse_port_range wf_range
  by unfold_locales (auto simp: parse_show_port_range dest: parse_port_range_wf)

lemma port_items_show [simp]: "port_items (map show_port_range rs) = map show_port_range rs"
proof (induction rs)
  case (Cons r rs)
  have "CHR '','' \<notin> set (show_port_range r)"
    by (auto dest!: show_port_range_chars simp: is_digit_def)
  then show ?case using Cons by (simp add: port_items_def split_char_none)
qed (simp add: port_items_def)

text \<open>A canonical port list: valid ranges, strictly sorted.\<close>

definition canonical_ranges :: "port_range list \<Rightarrow> bool" where
  "canonical_ranges rs = (list_all wf_range rs \<and> sorted (map range_key rs) \<and> distinct rs)"

lemma parse_ports_sort_dedup:
  "parse_ports ps = map_ok (sort_dedup range_key) (traverse parse_port_range (port_items ps))"
  by (cases "traverse parse_port_range (port_items ps)") (simp_all add: parse_ports_def sort_dedup_def)

lemma parse_ports_canonical: "parse_ports ps = Inr rs \<Longrightarrow> canonical_ranges rs"
  by (auto simp: parse_ports_sort_dedup canonical_ranges_def list_all_iff sort_dedup_sorted
      sort_dedup_distinct dest: traverse_all[OF _ parse_port_range_wf])

lemma parse_ports_show: "canonical_ranges rs \<Longrightarrow> parse_ports (map show_port_range rs) = Inr rs"
  by (simp add: parse_ports_sort_dedup canonical_ranges_def sort_dedup_id list_all_iff
      port_text.traverse_print)

section \<open>Sources and comments in canonical form\<close>

lemma net_char_no_at [simp]: "\<not> net_char CHR 0x40"
  by (simp add: net_char_def is_alnum_def is_digit_def is_upper_def is_lower_def)

lemma show_ip_nonempty [simp]: "show_ip a \<noteq> []"
proof
  assume "show_ip a = []"
  then have "parse_ip [] = Some a" using parse_ip_show_ip[of a] by simp
  then show False
    by (simp add: parse_ip_def parse_v6_def read_v6_def read_v4_nondigit group_stop_read
        group_stop_def)
qed

lemma show_net_nonempty [simp]: "show_net n \<noteq> []"
  by (simp add: show_net_def split: option.split)

lemma normalize_source_net:
  assumes "wf_net n" shows "normalize_source (show_net n) = Inr (show_net n)"
proof -
  have "strip_prefix [SET_REF_PREFIX] (show_net n) = None"
    using show_net_chars[of SET_REF_PREFIX n]
    by (cases "show_net n") (auto simp: SET_REF_PREFIX_def)
  then show ?thesis using assms by (simp add: normalize_source_def parse_net_show_net)
qed

lemma normalize_source_fixed:
  assumes "normalize_source s = Inr t" shows "normalize_source t = Inr t"
proof (cases "strip_prefix [SET_REF_PREFIX] (trim s)")
  case None
  with assms obtain n where "parse_net (trim s) = Inr n" "t = show_net n"
    by (auto simp: normalize_source_def Let_def split: if_splits)
  then show ?thesis by (auto intro: normalize_source_net parse_net_wf)
next
  case (Some nm)
  with assms have "t = trim s" "nm = ''allowlist'' \<or> nm = ''blocklist''"
    by (auto simp: normalize_source_def Let_def split: if_splits)
  with assms Some show ?thesis by (auto simp: normalize_source_def Let_def split: if_splits)
qed

text \<open>The characters of an accepted source: nothing that nft would read as more than one word.\<close>

lemma normalize_source_chars:
  assumes "normalize_source s = Inr t" and "c \<in> set t"
  shows "net_char c \<or> c = SET_REF_PREFIX"
proof (cases "strip_prefix [SET_REF_PREFIX] (trim s)")
  case None
  with assms show ?thesis
    by (auto simp: normalize_source_def Let_def split: if_splits dest: show_net_chars)
next
  case (Some nm)
  with assms(1) have t: "t = trim s" "nm = ''allowlist'' \<or> nm = ''blocklist''"
    by (auto simp: normalize_source_def Let_def split: if_splits)
  from Some have "trim s = SET_REF_PREFIX # nm" by (simp add: strip_prefix_Some)
  with t assms(2) have "c = SET_REF_PREFIX \<or> c \<in> set ''allowlist'' \<or> c \<in> set ''blocklist''" by auto
  moreover have "list_all net_char ''allowlist''" "list_all net_char ''blocklist''" by code_simp+
  ultimately show ?thesis unfolding list_all_iff by blast
qed

definition comment_ok :: "string \<Rightarrow> bool" where
  "comment_ok c = (clean_comment c = Inr c)"

definition quote_free :: "char \<Rightarrow> bool" where
  "quote_free c = (\<not> is_control c \<and> c \<noteq> CHR 0x22 \<and> c \<noteq> CHR 0x5C \<and> c \<noteq> CHR 0x27)"

lemma clean_comment_ok: "clean_comment c = Inr d \<Longrightarrow> comment_ok d"
  by (auto simp: comment_ok_def clean_comment_def Let_def split: if_splits)

lemma comment_ok_chars: "comment_ok c \<Longrightarrow> x \<in> set c \<Longrightarrow> quote_free x"
  by (auto simp: comment_ok_def clean_comment_def Let_def quote_free_def list_ex_iff
      split: if_splits)

lemma comment_ok_length: "comment_ok c \<Longrightarrow> length c \<le> MAX_COMMENT"
  by (auto simp: comment_ok_def clean_comment_def Let_def split: if_splits)

section \<open>Well-formed rules are the fixed points of normalize\<close>

definition rid_ok :: "string \<Rightarrow> bool" where
  "rid_ok s = (byte_len s \<le> MAX_ID \<and> list_all rule_char s)"

definition wf_rule :: "rule \<Rightarrow> bool" where
  "wf_rule r =
     (rid_ok (rid r) \<and> comment_ok (rcomment r)
      \<and> (takes_ports (rprotocol r) \<or> ports r = [])
      \<and> (case parse_ports (ports r) of Inl _ \<Rightarrow> False | Inr rs \<Rightarrow> ports r = map show_port_range rs)
      \<and> list_all (\<lambda>s. normalize_source s = Inr s) (sources r)
      \<and> sorted (sources r) \<and> distinct (sources r) \<and> managed_by r \<noteq> [])"

lemma remdups_sort_id: "sorted xs \<Longrightarrow> distinct xs \<Longrightarrow> remdups_adj (sort xs) = (xs :: string list)"
  using sort_dedup_id[of "\<lambda>x. x" xs] by (simp add: sort_dedup_def)

lemma sorted_remdups_sort: "sorted (remdups_adj (sort xs))" "distinct (remdups_adj (sort xs))"
  using sort_dedup_sorted[of "\<lambda>x. x" xs] sort_dedup_distinct[of "\<lambda>x. x" xs]
  by (simp_all add: sort_dedup_def inj_def)

lemma parse_ports_Nil [simp]: "parse_ports [] = Inr []"
  by (simp add: parse_ports_def port_items_def)

lemma rule_normalize_wf: "rule_normalize r = Inr r' \<Longrightarrow> wf_rule r'"
  by (auto simp: rule_normalize_def wf_rule_def rid_ok_def sorted_remdups_sort list_all_iff
      parse_ports_show[OF parse_ports_canonical] not_less
      split: if_splits intro: clean_comment_ok dest: traverse_all[OF _ normalize_source_fixed])

lemma wf_rule_normalize:
  assumes "wf_rule r" shows "rule_normalize r = Inr r"
proof -
  from assms obtain rs where rs: "parse_ports (ports r) = Inr rs" "map show_port_range rs = ports r"
    by (auto simp: wf_rule_def split: sum.splits)
  have "traverse normalize_source (sources r) = Inr (map (\<lambda>s. s) (sources r))"
    using assms by (intro traverse_same) (auto simp: wf_rule_def list_all_iff)
  moreover have "remdups_adj (sort (sources r)) = sources r"
    using assms by (simp add: wf_rule_def remdups_sort_id)
  moreover have "clean_comment (rcomment r) = Inr (rcomment r)" "rid_ok (rid r)"
      "managed_by r \<noteq> []" "takes_ports (rprotocol r) \<or> ports r = []"
    using assms by (auto simp: wf_rule_def comment_ok_def)
  ultimately show ?thesis
    using rs by (auto simp: rule_normalize_def rid_ok_def)
qed

lemma default_rule_wf: "wf_rule default_rule"
  by (simp add: wf_rule_def default_rule_def rid_ok_def comment_ok_def clean_comment_def
      trim_trimmed trimmed_def parse_ports_def port_items_def)

lemma entry_normalize_fixed:
  "entry_normalize e = Inr e' \<Longrightarrow> entry_normalize e' = Inr e'"
  by (auto simp: entry_normalize_def parse_net_show_net[OF parse_net_wf]
      dest!: clean_comment_ok simp: comment_ok_def)

lemma get_put_set [simp]:
  "get_set (put_set s n xs) m = (if m = n then xs else get_set s m)"
  by (cases n; cases m) auto

lemma put_get_set [simp]: "put_set s n (get_set s n) = s"
  by (cases n) auto

end
