(* ===== verification/FwHost.thy ===== *)
theory FwHost
  imports FwModel
begin

text \<open>
  \<open>src/daemon/firewall/host.rs\<close>: the host facts that keep the operator from being
  locked out, and the preset rules derived from them. Running \<open>sshd -T\<close> and reading
  \<open>sshd_config\<close> stay outside; their text is an argument of \<open>parse_sshd_ports\<close>.
\<close>

record facts =
  ssh_ports :: "16 word list"
  api_port :: "16 word option"
  web_installed :: bool

text \<open>The port texts of a preset: printed, then sorted and deduplicated as strings.\<close>

definition preset_ports :: "16 word list \<Rightarrow> string list" where
  "preset_ports ps = remdups_adj (sort (map (\<lambda>p. show_nat (unat p)) ps))"

definition preset_rule :: "string \<Rightarrow> protocol \<Rightarrow> 16 word list \<Rightarrow> string \<Rightarrow> rule" where
  "preset_rule name proto ps comment =
     \<lparr>rid = ''preset-'' @ name, enabled = True, raction = Accept, rprotocol = proto,
      ports = preset_ports ps, sources = [], rscope = Host, rcomment = comment,
      managed_by = ''preset:'' @ name\<rparr>"

text \<open>The closure \<open>add\<close>: nothing for an empty port list or a preset switched off.\<close>

definition add_preset :: "settings \<Rightarrow> string \<Rightarrow> protocol \<Rightarrow> 16 word list \<Rightarrow> string \<Rightarrow> rule list" where
  "add_preset s name proto ps comment =
     (if ps = [] \<or> \<not> preset_enabled s name then [] else [preset_rule name proto ps comment])"

definition presets :: "facts \<Rightarrow> settings \<Rightarrow> rule list" where
  "presets f s =
     add_preset s PRESET_SSH Tcp (ssh_ports f) ''SSH (preset)''
     @ add_preset s PRESET_API Tcp (case api_port f of None \<Rightarrow> [] | Some p \<Rightarrow> [p])
         ''asc daemon API (preset)''
     @ (if web_installed f
        then add_preset s PRESET_WEB Tcp [80, 443] ''HTTP/HTTPS (preset)'' else [])"

text \<open>The value of a \<open><key> <port>\<close> line.\<close>

definition port_value :: "string \<Rightarrow> string \<Rightarrow> 16 word option" where
  "port_value line key =
     (case split_whitespace line of
        w # rest \<Rightarrow>
          if \<not> eq_nocase w key then None
          else (case rest of [] \<Rightarrow> None
            | v # _ \<Rightarrow> map_option word_of_nat (parse_u16 v))
      | [] \<Rightarrow> None)"

definition parse_sshd_ports :: "string \<Rightarrow> string \<Rightarrow> 16 word list" where
  "parse_sshd_ports sshd_t config =
     (let ports = List.map_filter (\<lambda>l. port_value l ''port'') (lines sshd_t);
          ports = (if ports = []
                   then List.map_filter (\<lambda>l. port_value (hd (split_char CHR 0x23 l)) ''port'') (lines config)
                   else ports);
          ports = (if ports = [] then [22] else ports)
      in remdups_adj (sort ports))"

definition listen_port_of :: "string \<Rightarrow> 16 word option" where
  "listen_port_of listen =
     (let last = (case rsplit_once CHR '':'' listen of None \<Rightarrow> listen | Some (_, p) \<Rightarrow> p)
      in map_option word_of_nat (parse_u16 last))"

section \<open>Facts\<close>

lemma presets_managed: "r \<in> set (presets f s) \<Longrightarrow> is_preset r \<and> enabled r \<and> raction r = Accept"
  by (auto simp: presets_def add_preset_def preset_rule_def is_preset_def starts_with_iff
      split: option.splits if_splits)

lemma presets_host: "r \<in> set (presets f s) \<Longrightarrow> rscope r = Host \<and> sources r = [] \<and> rprotocol r = Tcp"
  by (auto simp: presets_def add_preset_def preset_rule_def split: option.splits if_splits)

lemma ssh_preset_present:
  "ssh_ports f \<noteq> [] \<Longrightarrow> preset_enabled s PRESET_SSH \<Longrightarrow>
   preset_rule PRESET_SSH Tcp (ssh_ports f) ''SSH (preset)'' \<in> set (presets f s)"
  by (simp add: presets_def add_preset_def)

lemma api_preset_present:
  "api_port f = Some p \<Longrightarrow> preset_enabled s PRESET_API \<Longrightarrow>
   preset_rule PRESET_API Tcp [p] ''asc daemon API (preset)'' \<in> set (presets f s)"
  by (simp add: presets_def add_preset_def)

lemma parse_sshd_ports_nonempty: "parse_sshd_ports a b \<noteq> []"
  by (simp add: parse_sshd_ports_def Let_def sort_Nil_iff)

lemma parse_sshd_ports_sorted: "sorted (parse_sshd_ports a b) \<and> distinct (parse_sshd_ports a b)"
  by (simp add: parse_sshd_ports_def Let_def sorted_remdups_sort)

text \<open>The port texts of a preset denote exactly the ports of the facts.\<close>

lemma show_port_single: "show_nat (unat p) = show_port_range \<lparr>pfrom = p, pto = p\<rparr>"
  by (simp add: show_port_range_def)

lemma preset_ports_set: "set (preset_ports ps) = (\<lambda>p. show_nat (unat p)) ` set ps"
  by (simp add: preset_ports_def)

lemma preset_ports_parse:
  assumes "0 \<notin> set ps"
  shows "\<exists>rs. parse_ports (preset_ports ps) = Inr rs \<and> set rs = (\<lambda>p. \<lparr>pfrom = p, pto = p\<rparr>) ` set ps"
proof -
  obtain qs where qs: "preset_ports ps = map (\<lambda>p. show_nat (unat p)) qs" and "set qs = set ps"
  proof -
    have "\<forall>s \<in> set (preset_ports ps). \<exists>p \<in> set ps. s = show_nat (unat p)"
      by (auto simp: preset_ports_set)
    then obtain g where g: "\<forall>s \<in> set (preset_ports ps). g s \<in> set ps \<and> s = show_nat (unat (g s))"
      by metis
    have inj: "p = q" if "show_nat (unat p) = show_nat (unat q)" for p q :: "16 word"
      using that by (simp add: show_base_inj word_unat_eq_iff)
    have "set (map g (preset_ports ps)) = set ps"
      using g by (force simp: preset_ports_set image_iff dest: inj)
    moreover have "preset_ports ps = map (\<lambda>p. show_nat (unat p)) (map g (preset_ports ps))"
      using g by (simp add: map_idI)
    ultimately show thesis using that by blast
  qed
  define rs where "rs = map (\<lambda>p. \<lparr>pfrom = p, pto = p\<rparr>) qs"
  have "preset_ports ps = map show_port_range rs"
    by (simp add: qs rs_def show_port_single)
  moreover have "traverse parse_port_range (map show_port_range rs) = Inr rs"
    using assms \<open>set qs = set ps\<close>
    by (intro port_text.traverse_print) (auto simp: rs_def wf_range_def word_gt_0)
  ultimately have "parse_ports (preset_ports ps) = Inr (sort_dedup range_key rs)"
    by (simp add: parse_ports_sort_dedup)
  moreover have "set rs = (\<lambda>p. \<lparr>pfrom = p, pto = p\<rparr>) ` set ps"
    using \<open>set qs = set ps\<close> by (auto simp: rs_def)
  ultimately show ?thesis by auto
qed

end
