(* ===== verification/FwRender.thy ===== *)
theory FwRender
  imports FwHost "HOL-Library.Option_ord"
begin

text \<open>
  \<open>src/daemon/firewall/render.rs\<close>: the managed model as the text of \<open>table inet asc\<close>.
  The code writes into one \<open>String\<close> with \<open>writeln!\<close>; the model returns the list of
  lines, and \<open>render_table\<close> ends each with a line feed. Proved here: deny lines come before
  allow lines and the packets let through do not depend on the order of the rules;
  a rule restricted to sources never renders an unrestricted line; the lines of an
  accepted rule cannot break out of their line or their comment; the presets are in
  every rendered input chain.
\<close>

definition NL :: string where "NL = [CHR 0x0A]"
definition TAB :: string where "TAB = [CHR 0x09]"
definition QUOTE :: string where "QUOTE = [CHR 0x22]"

definition TABLE_FAMILY :: string where "TABLE_FAMILY = ''inet''"
definition TABLE_NAME :: string where "TABLE_NAME = ''asc''"

definition replace_script :: "string \<Rightarrow> string" where
  "replace_script table =
     ''table '' @ TABLE_FAMILY @ '' '' @ TABLE_NAME @ NL
     @ ''delete table '' @ TABLE_FAMILY @ '' '' @ TABLE_NAME @ NL @ table"

definition remove_script :: string where
  "remove_script =
     ''table '' @ TABLE_FAMILY @ '' '' @ TABLE_NAME @ NL
     @ ''delete table '' @ TABLE_FAMILY @ '' '' @ TABLE_NAME @ NL"

section \<open>Rules in effect\<close>

definition effective_rules :: "model \<Rightarrow> facts \<Rightarrow> rule list" where
  "effective_rules m f =
     presets f (msettings m) @ filter (\<lambda>r. enabled r \<and> \<not> is_preset r) (mrules m)"

datatype chain = Input | Forward

section \<open>Set elements\<close>

record element =
  enet :: net
  etimeout :: "int option"

text \<open>\<open>dedup_by_key\<close>: of neighbours with the same key the first stays.\<close>

fun dedup_by :: "('a \<Rightarrow> 'k) \<Rightarrow> 'a list \<Rightarrow> 'a list" where
  "dedup_by f [] = []"
| "dedup_by f [x] = [x]"
| "dedup_by f (x # y # xs) = (if f x = f y then dedup_by f (x # xs) else x # dedup_by f (y # xs))"

definition element_of :: "int \<Rightarrow> set_entry \<Rightarrow> element option" where
  "element_of now e =
     map_option (\<lambda>n. \<lparr>enet = n, etimeout = map_option (\<lambda>at. max (at - now) 1) (expires_unix e)\<rparr>)
       (ok_of (parse_net (evalue e)))"

definition element_key :: "element \<Rightarrow> bool \<times> ip_addr \<times> 8 word option" where
  "element_key e = (is_v6 (enet e), addr (enet e), prefix (enet e))"

definition elements :: "set_entry list \<Rightarrow> int \<Rightarrow> element list" where
  "elements entries now =
     dedup_by (\<lambda>e. show_net (enet e))
       (sort_key element_key
         (List.map_filter (element_of now) (filter (\<lambda>e. \<not> expired now e) entries)))"

definition show_int :: "int \<Rightarrow> string" where
  "show_int i = (if i < 0 then ''-'' @ show_nat (nat (- i)) else show_nat (nat i))"

definition show_element :: "element \<Rightarrow> string" where
  "show_element e = (case etimeout e of
       Some seconds \<Rightarrow> show_net (enet e) @ '' timeout '' @ show_int seconds @ ''s''
     | None \<Rightarrow> show_net (enet e))"

definition write_set :: "string \<Rightarrow> bool \<Rightarrow> element list \<Rightarrow> string list" where
  "write_set name v6 list =
     (let (suffix, kind) = (if v6 then (''6'', ''ipv6_addr'') else (''4'', ''ipv4_addr''));
          items = map show_element (filter (\<lambda>e. is_v6 (enet e) = v6) list)
      in [TAB @ ''set '' @ name @ suffix @ '' {'',
          TAB @ TAB @ ''type '' @ kind,
          TAB @ TAB @ ''flags interval,timeout'',
          TAB @ TAB @ ''auto-merge'']
         @ (if items = [] then [] else [TAB @ TAB @ ''elements = { '' @ join '', '' items @ '' }''])
         @ [TAB @ ''}''])"

definition write_set_rules :: "string \<Rightarrow> string \<Rightarrow> bool \<Rightarrow> string \<Rightarrow> string list" where
  "write_set_rules set_name verdict v6 extra =
     (let comment = (if set_name = ''allow'' then ''allowlist'' else ''blocklist'')
      in [TAB @ TAB @ ''ip saddr @'' @ set_name @ ''4 '' @ extra @ ''counter '' @ verdict
            @ '' comment '' @ QUOTE @ ''asc:'' @ comment @ QUOTE]
         @ (if v6 then [TAB @ TAB @ ''ip6 saddr @'' @ set_name @ ''6 '' @ extra @ ''counter '' @ verdict
            @ '' comment '' @ QUOTE @ ''asc:'' @ comment @ QUOTE] else []))"

section \<open>Rule lines\<close>

definition braces :: "string list \<Rightarrow> string" where
  "braces items = (case items of [x] \<Rightarrow> x | _ \<Rightarrow> ''{ '' @ join '', '' items @ '' }'')"

definition proto_match :: "rule \<Rightarrow> chain \<Rightarrow> string option" where
  "proto_match r ch =
     (case parse_ports (ports r) of
        Inl _ \<Rightarrow> None
      | Inr ranges \<Rightarrow>
        (let pts = (if ranges = [] then None else Some (braces (map show_port_range ranges)));
             name = (if rprotocol r = Tcp then ''tcp'' else ''udp'')
         in case (rprotocol r, ch) of
              (AnyProto, _) \<Rightarrow> Some []
            | (Icmp, Input) \<Rightarrow> Some ''meta l4proto { icmp, ipv6-icmp } ''
            | (Icmp, Forward) \<Rightarrow> None
            | (_, Input) \<Rightarrow> Some (case pts of
                  Some p \<Rightarrow> name @ '' dport '' @ p @ '' ''
                | None \<Rightarrow> ''meta l4proto '' @ name @ '' '')
            | (_, Forward) \<Rightarrow> Some (case pts of
                  Some p \<Rightarrow> ''ct original protocol '' @ name @ '' ct original proto-dst '' @ p @ '' ''
                | None \<Rightarrow> ''ct original protocol '' @ name @ '' '')))"

text \<open>The clause list of the loop over \<open>rule.sources\<close>: set references in place, addresses collected.\<close>

fun source_clauses :: "bool \<Rightarrow> string list \<Rightarrow> string list \<times> string list \<times> string list" where
  "source_clauses v6on [] = ([], [], [])"
| "source_clauses v6on (s # ss) =
     (let (cs, v4, v6) = source_clauses v6on ss in
      case strip_prefix [SET_REF_PREFIX] s of
        Some name \<Rightarrow>
          (let set_name = (if name = ''blocklist'' then ''block'' else ''allow'')
           in (([''ip saddr @'' @ set_name @ ''4 '']
                @ (if v6on then [''ip6 saddr @'' @ set_name @ ''6 ''] else [])) @ cs, v4, v6))
      | None \<Rightarrow>
          (case parse_net s of
             Inl _ \<Rightarrow> (cs, v4, v6)
           | Inr n \<Rightarrow> if is_v6 n then (cs, v4, show_net n # v6) else (cs, show_net n # v4, v6)))"

definition clauses_of :: "rule \<Rightarrow> bool \<Rightarrow> string list" where
  "clauses_of r v6on =
     (if sources r = [] then [[]]
      else (let (cs, v4, v6) = source_clauses v6on (sources r) in
        cs @ (if v4 = [] then [] else [''ip saddr '' @ braces v4 @ '' ''])
           @ (if v6on \<and> v6 \<noteq> [] then [''ip6 saddr '' @ braces v6 @ '' ''] else [])))"

fun verdict :: "action \<Rightarrow> string" where
  "verdict Accept = ''accept''"
| "verdict Drop = ''drop''"
| "verdict Reject = ''reject''"

definition rule_lines :: "rule \<Rightarrow> chain \<Rightarrow> bool \<Rightarrow> string list" where
  "rule_lines r ch v6on =
     (case proto_match r ch of
        None \<Rightarrow> []
      | Some proto \<Rightarrow>
        (let dnat = (if ch = Forward then ''ct status dnat '' else []);
             tail = ''counter '' @ verdict (raction r) @ '' comment '' @ QUOTE @ ''asc:'' @ rid r @ QUOTE
         in map (\<lambda>source. dnat @ source @ proto @ tail) (clauses_of r v6on)))"

text \<open>\<open>for deny in [true, false]\<close>: the rules in the order the chain has them.\<close>

definition chain_order :: "rule list \<Rightarrow> rule list" where
  "chain_order rules = concat (map (\<lambda>deny. filter (\<lambda>r. (raction r \<noteq> Accept) = deny) rules) [True, False])"

definition write_rules :: "rule list \<Rightarrow> chain \<Rightarrow> bool \<Rightarrow> string list" where
  "write_rules rules ch v6on =
     concat (map (\<lambda>r. map (\<lambda>line. TAB @ TAB @ line) (rule_lines r ch v6on)) (chain_order rules))"

section \<open>The table\<close>

definition host_rules :: "model \<Rightarrow> facts \<Rightarrow> rule list" where
  "host_rules m f = filter (\<lambda>r. scope_host (rscope r)) (effective_rules m f)"

definition docker_rules :: "model \<Rightarrow> facts \<Rightarrow> rule list" where
  "docker_rules m f = filter (\<lambda>r. scope_docker (rscope r)) (effective_rules m f)"

definition need_forward :: "model \<Rightarrow> facts \<Rightarrow> int \<Rightarrow> bool" where
  "need_forward m f now =
     (docker_rules m f \<noteq> [] \<or> protect_docker (msettings m)
      \<or> elements (blocklist (msets m)) now \<noteq> [])"

definition set_lines :: "model \<Rightarrow> int \<Rightarrow> string list" where
  "set_lines m now =
     concat (map (\<lambda>(name, list).
         write_set name False list
         @ (if ipv6 (msettings m) then write_set name True list else []))
       [(''allow'', elements (allowlist (msets m)) now),
        (''block'', elements (blocklist (msets m)) now)])"

definition input_prologue :: "settings \<Rightarrow> string list" where
  "input_prologue s =
     [TAB @ ''chain input {'',
      TAB @ TAB @ ''type filter hook input priority 0; policy ''
        @ (case input_policy s of PAccept \<Rightarrow> ''accept'' | PDrop \<Rightarrow> ''drop'') @ '';'']
     @ (if \<not> ipv6 s then [TAB @ TAB @ ''meta nfproto ipv6 accept''] else [])
     @ write_set_rules ''block'' ''drop'' (ipv6 s) []
     @ [TAB @ TAB @ ''ct state established,related accept'',
        TAB @ TAB @ ''ct state invalid drop'',
        TAB @ TAB @ ''iifname '' @ QUOTE @ ''lo'' @ QUOTE @ '' accept'']
     @ write_set_rules ''allow'' ''accept'' (ipv6 s) []
     @ (if ipv6 s then [TAB @ TAB @ ''icmpv6 type { destination-unreachable, packet-too-big, time-exceeded, parameter-problem, nd-router-solicit, nd-router-advert, nd-neighbor-solicit, nd-neighbor-advert } accept''] else [])
     @ [TAB @ TAB @ ''icmp type { destination-unreachable, time-exceeded, parameter-problem } accept'']
     @ (if allow_icmp s
        then [TAB @ TAB @ ''icmp type echo-request accept'']
          @ (if ipv6 s then [TAB @ TAB @ ''icmpv6 type echo-request accept''] else [])
        else [])
     @ (if input_policy s = PDrop
        then [TAB @ TAB @ ''udp sport 67 udp dport 68 accept'']
          @ (if ipv6 s then [TAB @ TAB @ ''udp sport 547 udp dport 546 accept''] else [])
        else [])"

definition input_chain :: "model \<Rightarrow> facts \<Rightarrow> string list" where
  "input_chain m f =
     input_prologue (msettings m)
     @ write_rules (host_rules m f) Input (ipv6 (msettings m))
     @ [TAB @ ''}'']"

definition forward_prologue :: "settings \<Rightarrow> string list" where
  "forward_prologue s =
     [TAB @ ''chain forward {'',
      TAB @ TAB @ ''type filter hook forward priority -1; policy accept;'']
     @ (if \<not> ipv6 s then [TAB @ TAB @ ''meta nfproto ipv6 accept''] else [])
     @ write_set_rules ''block'' ''drop'' (ipv6 s) ''ct status dnat ''
     @ [TAB @ TAB @ ''ct state established,related accept'']
     @ write_set_rules ''allow'' ''accept'' (ipv6 s) ''ct status dnat ''"

definition forward_chain :: "model \<Rightarrow> facts \<Rightarrow> string list" where
  "forward_chain m f =
     forward_prologue (msettings m)
     @ write_rules (docker_rules m f) Forward (ipv6 (msettings m))
     @ (if protect_docker (msettings m)
        then [TAB @ TAB @ ''ct status dnat counter drop comment '' @ QUOTE @ ''asc:protect-docker'' @ QUOTE]
        else [])
     @ [TAB @ ''}'']"

definition render_lines :: "model \<Rightarrow> facts \<Rightarrow> int \<Rightarrow> string list" where
  "render_lines m f now =
     [''table '' @ TABLE_FAMILY @ '' '' @ TABLE_NAME @ '' {'']
     @ set_lines m now
     @ input_chain m f
     @ (if need_forward m f now then forward_chain m f else [])
     @ [''}'']"

definition unlines :: "string list \<Rightarrow> string" where
  "unlines ls = concat (map (\<lambda>l. l @ NL) ls)"

definition render_table :: "model \<Rightarrow> facts \<Rightarrow> int \<Rightarrow> string" where
  "render_table m f now = unlines (render_lines m f now)"

section \<open>Deny before allow\<close>

lemma chain_order_split:
  "chain_order rules = filter (\<lambda>r. raction r \<noteq> Accept) rules @ filter (\<lambda>r. raction r = Accept) rules"
  by (simp add: chain_order_def)

text \<open>
  The meaning of a chain for a packet, given which rules match it: nft takes the verdict
  of the first rule that matches.
\<close>

definition first_match :: "(rule \<Rightarrow> bool) \<Rightarrow> rule list \<Rightarrow> action option" where
  "first_match matches rules = map_option raction (find matches (chain_order rules))"

text \<open>The abstract policy: any matching deny refuses, else any matching allow admits.\<close>

definition denied :: "(rule \<Rightarrow> bool) \<Rightarrow> rule list \<Rightarrow> bool" where
  "denied matches rules = list_ex (\<lambda>r. matches r \<and> raction r \<noteq> Accept) rules"

definition admitted :: "(rule \<Rightarrow> bool) \<Rightarrow> rule list \<Rightarrow> bool" where
  "admitted matches rules =
     (\<not> denied matches rules \<and> list_ex (\<lambda>r. matches r \<and> raction r = Accept) rules)"

lemma find_append: "find p (xs @ ys) = (case find p xs of Some x \<Rightarrow> Some x | None \<Rightarrow> find p ys)"
  by (induction xs) auto

lemma find_filter_None: "find p (filter q xs) = None \<longleftrightarrow> \<not> list_ex (\<lambda>x. p x \<and> q x) xs"
  by (auto simp: find_None_iff list_ex_iff)

lemma find_filter_Some: "find p (filter q xs) = Some x \<Longrightarrow> p x \<and> q x \<and> x \<in> set xs"
  by (auto simp: find_Some_iff) (metis nth_mem mem_Collect_eq set_filter)+

lemma first_match_denied: "denied m rules \<Longrightarrow> \<exists>a. first_match m rules = Some a \<and> a \<noteq> Accept"
  unfolding first_match_def chain_order_split find_append denied_def
  by (auto split: option.splits simp: find_filter_None dest!: find_filter_Some)

lemma first_match_permitted:
  assumes "\<not> denied m rules"
  shows "first_match m rules = (if admitted m rules then Some Accept else None)"
proof -
  have "find m (filter (\<lambda>r. raction r \<noteq> Accept) rules) = None"
    using assms by (simp add: find_filter_None denied_def)
  then have f: "first_match m rules = map_option raction (find m (filter (\<lambda>r. raction r = Accept) rules))"
    by (simp add: first_match_def chain_order_split find_append)
  show ?thesis
  proof (cases "find m (filter (\<lambda>r. raction r = Accept) rules)")
    case None
    with f assms show ?thesis by (simp add: admitted_def find_filter_None)
  next
    case (Some r)
    then have "m r \<and> raction r = Accept \<and> r \<in> set rules" by (rule find_filter_Some)
    with f Some assms show ?thesis by (auto simp: admitted_def list_ex_iff)
  qed
qed

lemma first_match_Accept_iff: "first_match m rules = Some Accept \<longleftrightarrow> admitted m rules"
  using first_match_permitted[of m rules] first_match_denied[of m rules]
  by (cases "denied m rules") (auto simp: admitted_def)

lemma first_match_None_iff:
  "first_match m rules = None \<longleftrightarrow> \<not> denied m rules \<and> \<not> admitted m rules"
  using first_match_permitted[of m rules] first_match_denied[of m rules]
  by (cases "denied m rules") auto

lemma denied_set: "set rules = set rules' \<Longrightarrow> denied m rules = denied m rules'"
  by (simp add: denied_def list_ex_iff)

lemma admitted_set: "set rules = set rules' \<Longrightarrow> admitted m rules = admitted m rules'"
  by (simp add: admitted_def denied_def list_ex_iff)

section \<open>Sources never widen\<close>

definition saddr_clause :: "string \<Rightarrow> bool" where
  "saddr_clause c = (starts_with ''ip saddr '' c \<or> starts_with ''ip6 saddr '' c)"

lemma saddr_clauseI [simp]:
  "saddr_clause (''ip saddr '' @ t)" "saddr_clause (''ip6 saddr '' @ t)"
  unfolding saddr_clause_def starts_with_iff by blast+

lemma saddr_clause_app: "saddr_clause c \<Longrightarrow> saddr_clause (c @ t)"
  unfolding saddr_clause_def starts_with_iff by (metis append.assoc)

lemma saddr_refs:
  "saddr_clause (''ip saddr @'' @ t)" "saddr_clause (''ip6 saddr @'' @ t)"
  using saddr_clauseI[of "CHR 0x40 # t"] by simp_all

lemma source_clauses_saddr:
  "list_all saddr_clause (fst (source_clauses v6on ss))"
proof (induction ss)
  case (Cons s ss)
  obtain cs v4 v6 where e: "source_clauses v6on ss = (cs, v4, v6)" by (cases "source_clauses v6on ss")
  with Cons show ?case
    by (simp add: e Let_def saddr_refs split: option.split sum.split
        del: append_Cons append_assoc)
qed simp

lemma clauses_restricted:
  assumes "sources r \<noteq> []" and "c \<in> set (clauses_of r v6on)"
  shows "saddr_clause c"
proof -
  obtain cs v4 v6 where e: "source_clauses v6on (sources r) = (cs, v4, v6)"
    by (cases "source_clauses v6on (sources r)")
  with source_clauses_saddr[of v6on "sources r"] have "list_all saddr_clause cs" by simp
  with assms show ?thesis
    by (auto simp: clauses_of_def e list_all_iff simp del: append_Cons split: if_splits)
qed

lemma rule_lines_restricted:
  assumes "sources r \<noteq> []" and "l \<in> set (rule_lines r ch v6on)"
  shows "\<exists>t. l = (if ch = Forward then ''ct status dnat '' else []) @ t \<and> saddr_clause t"
proof -
  from assms(2) obtain c t where "c \<in> set (clauses_of r v6on)"
    and "l = (if ch = Forward then ''ct status dnat '' else []) @ c @ t"
    by (auto simp: rule_lines_def Let_def simp del: append_Cons split: option.splits)
  with clauses_restricted[OF assms(1)] show ?thesis by (blast intro: saddr_clause_app)
qed

section \<open>Lines stay within their quotes\<close>

definition clean :: "string \<Rightarrow> bool" where
  "clean s = list_all quote_free s"

lemma clean_append [simp]: "clean (s @ t) \<longleftrightarrow> clean s \<and> clean t"
  by (simp add: clean_def)

lemma clean_simps [simp]: "clean []" "clean (c # s) \<longleftrightarrow> quote_free c \<and> clean s"
  by (simp_all add: clean_def)

lemma quote_free_net: "net_char c \<Longrightarrow> quote_free c"
  using net_char_safe[of c]
  by (auto simp: quote_free_def net_char_def is_alnum_def is_digit_def is_upper_def is_lower_def)

lemma clean_show_net [simp]: "clean (show_net n)"
  by (auto simp: clean_def list_all_iff intro: quote_free_net show_net_chars)

lemma quote_free_digit: "is_digit c \<Longrightarrow> quote_free c"
  by (auto simp: quote_free_def is_digit_def is_control_def)

lemma quote_free_literals:
  "quote_free CHR '' ''" "quote_free CHR ''-''" "quote_free CHR '',''"
  "quote_free CHR ''{''" "quote_free CHR ''}''"
  by (simp_all add: quote_free_def is_control_def)

lemma clean_show_range [simp]: "clean (show_port_range r)"
  by (auto simp: clean_def list_all_iff quote_free_literals
      dest!: show_port_range_chars intro: quote_free_digit)

lemma clean_join: "clean sep \<Longrightarrow> list_all clean xs \<Longrightarrow> clean (join sep xs)"
  by (induction sep xs rule: join.induct) auto

lemma clean_braces: "list_all clean xs \<Longrightarrow> clean (braces xs)"
  by (auto simp: braces_def quote_free_literals intro!: clean_join split: list.split)

lemma clean_words:
  "clean ''ip saddr ''" "clean ''ip6 saddr ''" "clean ''ip saddr @''" "clean ''ip6 saddr @''"
  "clean ''4 ''" "clean ''6 ''" "clean ''block''" "clean ''allow''" "clean ''ct status dnat ''"
  "clean ''tcp''" "clean ''udp''" "clean '' dport ''" "clean '' ''" "clean ''meta l4proto ''"
  "clean ''meta l4proto { icmp, ipv6-icmp } ''" "clean ''ct original protocol ''"
  "clean '' ct original proto-dst ''" "clean ''counter ''" "clean '' comment ''"
  "clean ''accept''" "clean ''drop''" "clean ''reject''"
  by (simp_all add: clean_def quote_free_def is_control_def)

lemma source_clauses_clean:
  "source_clauses v6on ss = (cs, v4, v6) \<Longrightarrow>
   list_all clean cs \<and> list_all clean v4 \<and> list_all clean v6"
proof (induction ss arbitrary: cs v4 v6)
  case (Cons s ss)
  obtain cs' v4' v6' where e: "source_clauses v6on ss = (cs', v4', v6')"
    by (cases "source_clauses v6on ss")
  from Cons.IH[OF e] Cons.prems show ?case
    by (auto simp: e Let_def clean_words simp del: append_Cons clean_simps(2)
        split: option.splits sum.splits if_splits)
qed simp

lemma clauses_clean: "list_all clean (clauses_of r v6on)"
proof -
  obtain cs v4 v6 where e: "source_clauses v6on (sources r) = (cs, v4, v6)"
    by (cases "source_clauses v6on (sources r)")
  from source_clauses_clean[OF e] show ?thesis
    by (auto simp: clauses_of_def e clean_words clean_braces simp del: append_Cons clean_simps(2))
qed

lemma proto_match_clean: "proto_match r ch = Some p \<Longrightarrow> clean p"
  by (auto simp: proto_match_def Let_def clean_words clean_braces list_all_iff
      simp del: append_Cons clean_simps(2)
      split: sum.splits protocol.splits chain.splits if_splits)

definition comment_tail :: "rule \<Rightarrow> string" where
  "comment_tail r = QUOTE @ ''asc:'' @ rid r @ QUOTE"

lemma rule_line_shape:
  assumes "l \<in> set (rule_lines r ch v6on)"
  shows "\<exists>body. l = body @ comment_tail r \<and> clean body"
proof -
  from assms obtain p where p: "proto_match r ch = Some p"
    by (cases "proto_match r ch") (auto simp: rule_lines_def)
  with assms obtain c where c: "c \<in> set (clauses_of r v6on)"
    and l: "l = ((if ch = Forward then ''ct status dnat '' else []) @ c @ p
      @ ''counter '' @ verdict (raction r) @ '' comment '') @ comment_tail r"
    unfolding rule_lines_def Let_def comment_tail_def by (auto simp del: append_Cons)
  have "clean c" using clauses_clean[of r v6on] c by (auto simp: list_all_iff)
  moreover have "clean (verdict (raction r))" by (cases "raction r") (simp_all only: verdict.simps clean_words)
  ultimately have "clean ((if ch = Forward then ''ct status dnat '' else []) @ c @ p
      @ ''counter '' @ verdict (raction r) @ '' comment '')"
    using proto_match_clean[OF p] by (simp add: clean_words del: clean_simps(2) append_Cons)
  with l show ?thesis by blast
qed

section \<open>Completeness of the table\<close>

lemma set_chain_order [simp]: "set (chain_order rules) = set rules"
  by (auto simp: chain_order_def)

lemma write_rules_set:
  "l \<in> set (write_rules rules ch v6on) \<longleftrightarrow>
   (\<exists>r \<in> set rules. \<exists>k \<in> set (rule_lines r ch v6on). l = TAB @ TAB @ k)"
  by (auto simp: write_rules_def)

lemma write_rules_order:
  "write_rules rules ch v6on =
     concat (map (\<lambda>r. map (\<lambda>l. TAB @ TAB @ l) (rule_lines r ch v6on)) (filter (\<lambda>r. raction r \<noteq> Accept) rules))
     @ concat (map (\<lambda>r. map (\<lambda>l. TAB @ TAB @ l) (rule_lines r ch v6on)) (filter (\<lambda>r. raction r = Accept) rules))"
  by (simp add: write_rules_def chain_order_split)

lemma host_rule_rendered:
  assumes "r \<in> set (effective_rules m f)" "scope_host (rscope r)"
    and "l \<in> set (rule_lines r Input (ipv6 (msettings m)))"
  shows "TAB @ TAB @ l \<in> set (input_chain m f)"
  using assms by (auto simp: input_chain_def host_rules_def write_rules_set)

lemma docker_rule_rendered:
  assumes "r \<in> set (effective_rules m f)" "scope_docker (rscope r)"
    and "l \<in> set (rule_lines r Forward (ipv6 (msettings m)))"
  shows "need_forward m f now \<and> TAB @ TAB @ l \<in> set (forward_chain m f)"
  using assms
  by (auto simp: forward_chain_def docker_rules_def write_rules_set need_forward_def filter_empty_conv)

lemma input_chain_rendered: "l \<in> set (input_chain m f) \<Longrightarrow> l \<in> set (render_lines m f now)"
  by (simp add: render_lines_def)

lemma forward_chain_rendered:
  "need_forward m f now \<Longrightarrow> l \<in> set (forward_chain m f) \<Longrightarrow> l \<in> set (render_lines m f now)"
  by (simp add: render_lines_def)

lemma presets_effective: "r \<in> set (presets f (msettings m)) \<Longrightarrow> r \<in> set (effective_rules m f)"
  by (simp add: effective_rules_def)

lemma preset_line:
  assumes "ps \<noteq> []" "0 \<notin> set ps"
  shows "\<exists>rs. parse_ports (preset_ports ps) = Inr rs
     \<and> set rs = (\<lambda>p. \<lparr>pfrom = p, pto = p\<rparr>) ` set ps
     \<and> rule_lines (preset_rule name Tcp ps c) Input v6on =
        [''tcp dport '' @ braces (map show_port_range rs) @ '' counter accept comment ''
          @ comment_tail (preset_rule name Tcp ps c)]"
proof -
  obtain rs where rs: "parse_ports (preset_ports ps) = Inr rs"
    "set rs = (\<lambda>p. \<lparr>pfrom = p, pto = p\<rparr>) ` set ps"
    using preset_ports_parse[OF assms(2)] by blast
  with assms(1) have "rs \<noteq> []" by auto
  with rs show ?thesis
    by (auto simp: rule_lines_def proto_match_def clauses_of_def preset_rule_def comment_tail_def)
qed

section \<open>Set elements are sorted, unexpired and unique\<close>

lemma dedup_by_subset: "set (dedup_by f xs) \<subseteq> set xs"
  by (induction f xs rule: dedup_by.induct) auto

lemma dedup_by_image [simp]: "f ` set (dedup_by f xs) = f ` set xs"
  by (induction f xs rule: dedup_by.induct) auto

lemma dedup_by_hd: "xs \<noteq> [] \<Longrightarrow> hd (dedup_by f xs) = hd xs"
  by (induction f xs rule: dedup_by.induct) auto

lemma dedup_by_sorted: "sorted (map k xs) \<Longrightarrow> sorted (map k (dedup_by f xs))"
proof (induction f xs rule: dedup_by.induct)
  case (3 f x y xs)
  then show ?case
    using dedup_by_subset[of f "y # xs"] by (fastforce simp: image_iff)
qed auto

lemma dedup_by_distinct:
  assumes "sorted (map k xs)"
    and "\<And>x y. x \<in> set xs \<Longrightarrow> y \<in> set xs \<Longrightarrow> f x = f y \<longleftrightarrow> k x = k y"
  shows "distinct (map f (dedup_by f xs))"
  using assms
proof (induction f xs rule: dedup_by.induct)
  case (3 f x y xs)
  show ?case
  proof (cases "f x = f y")
    case False
    with 3(4)[of x y] 3(3) have "k x < k y" by (auto simp: less_le)
    moreover have "k y \<le> k z" if "z \<in> set (y # xs)" for z using that 3(3) by auto
    ultimately have "f x \<noteq> f z" if "z \<in> set (y # xs)" for z
      using that 3(4)[of x z] by fastforce
    then have "f x \<notin> f ` set (dedup_by f (y # xs))" by auto
    with 3 False show ?thesis by simp
  next
    case True
    have "distinct (map f (dedup_by f (x # xs)))"
      using 3(3,4) by (intro 3(1)[OF True]) auto
    with True show ?thesis by simp
  qed
qed auto

definition live_elements :: "set_entry list \<Rightarrow> int \<Rightarrow> element list" where
  "live_elements entries now = List.map_filter (element_of now) (filter (\<lambda>e. \<not> expired now e) entries)"

lemma live_elements_wf: "x \<in> set (live_elements es now) \<Longrightarrow> wf_net (enet x)"
  by (auto simp: live_elements_def map_filter_def element_of_def dest: parse_net_wf)

lemma element_key_net: "element_key x = element_key y \<longleftrightarrow> enet x = enet y"
  by (auto simp: element_key_def)

lemma elements_dedup:
  "elements es now = dedup_by (\<lambda>e. show_net (enet e)) (sort_key element_key (live_elements es now))"
  by (simp add: elements_def live_elements_def)

lemma elements_sorted: "sorted (map element_key (elements es now))"
  by (simp add: elements_dedup dedup_by_sorted)

lemma elements_distinct: "distinct (map (\<lambda>e. show_net (enet e)) (elements es now))"
  unfolding elements_dedup
proof (rule dedup_by_distinct[where k = element_key])
  fix x y assume "x \<in> set (sort_key element_key (live_elements es now))"
    "y \<in> set (sort_key element_key (live_elements es now))"
  then have "wf_net (enet x)" "wf_net (enet y)" by (auto dest: live_elements_wf)
  then show "(show_net (enet x) = show_net (enet y)) = (element_key x = element_key y)"
    by (auto simp: element_key_net dest: net_text.print_inj)
qed simp

lemma elements_nets:
  "(\<lambda>e. show_net (enet e)) ` set (elements es now) =
   {show_net n |n e. e \<in> set es \<and> \<not> expired now e \<and> parse_net (evalue e) = Inr n}"
  unfolding elements_dedup dedup_by_image
  by (force simp: live_elements_def map_filter_def element_of_def image_iff)

lemma elements_timeout:
  assumes "x \<in> set (elements es now)" shows "case etimeout x of None \<Rightarrow> True | Some t \<Rightarrow> 1 \<le> t"
proof -
  from assms have "x \<in> set (live_elements es now)"
    using dedup_by_subset by (fastforce simp: elements_dedup)
  then show ?thesis
    by (auto simp: live_elements_def map_filter_def element_of_def split: option.splits)
qed

end
