(* ===== verification/FwProps.thy ===== *)
theory FwProps
  imports FwRender "HOL-Library.Multiset"
begin

text \<open>
  The properties of the firewall model and of the rendered table, each with a concrete
  instance.
\<close>

section \<open>Texts have one canonical form\<close>

text \<open>
  Every network whose prefix fits its family reads back from its printed form, for all IPv4
  and IPv6 addresses: the compressed, the IPv4-mapped and the plain form alike.
\<close>

theorem net_roundtrip:
  assumes "\<And>p. prefix n = Some p \<Longrightarrow> unat p \<le> (if is_v6 n then 128 else 32)"
  shows "parse_net (show_net n) = Inr n"
  by (rule parse_net_show_net) (use assms in \<open>auto simp: wf_net_def split: option.split\<close>)

theorem net_roundtrip_witness:
  "parse_net (show_net \<lparr>addr = V6 0xFFFF01020304, prefix = Some 128\<rparr>)
     = Inr \<lparr>addr = V6 0xFFFF01020304, prefix = Some 128\<rparr>"
  by (rule net_roundtrip) (simp add: is_v6_def)

text \<open>
  A network that was accepted prints to a text that is accepted as the same network, has a
  prefix within its family's bits, and consists of hexadecimal digits, dots, colons and a
  slash, so neither white space nor a control character can reach the ruleset through it.
\<close>

theorem net_canonical:
  assumes "parse_net s = Inr n"
  shows "parse_net (show_net n) = Inr n
    \<and> (\<forall>p. prefix n = Some p \<longrightarrow> unat p \<le> (if is_v6 n then 128 else 32))
    \<and> (\<forall>c \<in> set (show_net n). net_char c \<and> \<not> is_white c \<and> \<not> is_control c)"
proof -
  have wf: "wf_net n" by (rule parse_net_wf[OF assms])
  with parse_net_show_net[OF wf] show ?thesis
    by (auto simp: wf_net_def dest: show_net_chars net_char_safe)
qed

definition demo_net :: net where
  "demo_net = \<lparr>addr = V6 0x20010DB8000000000000000000000001, prefix = Some 64\<rparr>"

lemma demo_net_parses: "parse_net (show_net demo_net) = Inr demo_net"
  by (rule parse_net_show_net) (simp add: wf_net_def is_v6_def demo_net_def)

theorem net_canonical_witness:
  "parse_net (show_net demo_net) = Inr demo_net \<and> CHR 0x0A \<notin> set (show_net demo_net)"
  using net_canonical[OF demo_net_parses] by (auto simp: is_control_def)

text \<open>
  \<open>parse_ports\<close> returns ranges that are sorted, distinct and non-empty, none containing port
  0, and their printed form parses to the same ranges.
\<close>

theorem parse_ports_canonical_form:
  assumes "parse_ports ps = Inr rs"
  shows "sorted (map range_key rs) \<and> distinct rs \<and> (\<forall>r \<in> set rs. 0 < pfrom r \<and> pfrom r \<le> pto r)
    \<and> parse_ports (map show_port_range rs) = Inr rs"
  using parse_ports_canonical[OF assms] parse_ports_show[OF parse_ports_canonical[OF assms]]
  by (auto simp: canonical_ranges_def wf_range_def list_all_iff)

definition demo_ranges :: "port_range list" where
  "demo_ranges = [\<lparr>pfrom = 80, pto = 80\<rparr>, \<lparr>pfrom = 443, pto = 443\<rparr>, \<lparr>pfrom = 8000, pto = 8010\<rparr>]"

lemma demo_ranges_parse: "parse_ports (map show_port_range demo_ranges) = Inr demo_ranges"
  by (rule parse_ports_show) (simp add: canonical_ranges_def wf_range_def demo_ranges_def range_key_def)

theorem parse_ports_canonical_form_witness:
  "distinct demo_ranges \<and> parse_ports (map show_port_range demo_ranges) = Inr demo_ranges"
  using parse_ports_canonical_form[OF demo_ranges_parse] by blast

text \<open>
  \<open>Rule::normalize\<close> makes a rule its own normal form: normalising the result changes
  nothing. It only fills in an owner, and keeps the id, the action, the protocol, the scope
  and whether the rule is on; its comment is at most \<open>MAX_COMMENT\<close> characters with no quote,
  backslash or control character, its sources are sorted and distinct, and only TCP and UDP
  rules have ports.
\<close>

theorem rule_normalize_idempotent:
  assumes "rule_normalize r = Inr n"
  shows "rule_normalize n = Inr n
    \<and> rid n = rid r \<and> enabled n = enabled r \<and> raction n = raction r \<and> rprotocol n = rprotocol r
    \<and> rscope n = rscope r \<and> managed_by n = (if managed_by r = [] then ''user'' else managed_by r)
    \<and> length (rcomment n) \<le> MAX_COMMENT \<and> list_all quote_free (rcomment n)
    \<and> sorted (sources n) \<and> distinct (sources n) \<and> (takes_ports (rprotocol n) \<or> ports n = [])"
proof -
  have wf: "wf_rule n" by (rule rule_normalize_wf[OF assms])
  then have "rule_normalize n = Inr n" "comment_ok (rcomment n)"
    by (simp_all add: wf_rule_normalize wf_rule_def)
  moreover have "list_all quote_free (rcomment n)"
    using comment_ok_chars[OF calculation(2)] by (simp add: list_all_iff)
  moreover have "rid n = rid r" "enabled n = enabled r" "raction n = raction r" "rprotocol n = rprotocol r"
    "rscope n = rscope r" "managed_by n = (if managed_by r = [] then ''user'' else managed_by r)"
    using assms by (auto simp: rule_normalize_def split: if_splits)
  moreover have "sorted (sources n)" "distinct (sources n)" "takes_ports (rprotocol n) \<or> ports n = []"
    using wf by (simp_all add: wf_rule_def)
  ultimately show ?thesis using comment_ok_length[of "rcomment n"] by blast
qed

theorem rule_normalize_idempotent_witness:
  "rule_normalize default_rule = Inr default_rule \<and> managed_by default_rule = ''user''
   \<and> distinct (sources default_rule)"
  using rule_normalize_idempotent[OF wf_rule_normalize[OF default_rule_wf]]
  by (simp add: default_rule_def)

lemma sorted_wrt_all: "(\<And>x y. x \<in> set xs \<Longrightarrow> y \<in> set xs \<Longrightarrow> Q x y) \<Longrightarrow> sorted_wrt Q xs"
  by (induction xs) auto

section \<open>The order of the rules in a chain\<close>

text \<open>
  C6. Deny before allow: in each chain every line of a drop or reject rule stands before every
  line of an accept rule, and the accept verdict does not depend on the order in which the
  rules are stored: a packet is accepted by the rules exactly when some accept rule
  matches it and no deny rule does.
\<close>

theorem deny_before_allow:
  "write_rules rules ch v6on =
     concat (map (\<lambda>r. map (\<lambda>l. TAB @ TAB @ l) (rule_lines r ch v6on)) (chain_order rules))
   \<and> sorted_wrt (\<lambda>r1 r2. raction r2 \<noteq> Accept \<longrightarrow> raction r1 \<noteq> Accept) (chain_order rules)
   \<and> mset (chain_order rules) = mset rules
   \<and> (map_option raction (find matches (chain_order rules)) = Some Accept
        \<longleftrightarrow> (\<exists>r \<in> set rules. matches r \<and> raction r = Accept) \<and> (\<forall>r \<in> set rules. matches r \<longrightarrow> raction r = Accept))"
  (is "?lines \<and> ?sorted \<and> ?mset \<and> ?accept")
proof (intro conjI)
  show ?lines by (simp add: write_rules_def)
  show ?sorted unfolding chain_order_split sorted_wrt_append by (intro conjI sorted_wrt_all ballI) auto
  show ?mset unfolding chain_order_split by (simp flip: multiset_partition)
  show ?accept
    using first_match_Accept_iff[of matches rules]
    by (auto simp: first_match_def admitted_def denied_def list_ex_iff)
qed

theorem deny_before_allow_witness:
  "mset (chain_order [default_rule, default_rule\<lparr>raction := Drop\<rparr>])
     = mset [default_rule, default_rule\<lparr>raction := Drop\<rparr>]
   \<and> map_option raction (find (\<lambda>r. True) (chain_order [default_rule, default_rule\<lparr>raction := Drop\<rparr>])) \<noteq> Some Accept"
  using deny_before_allow[of "[default_rule, default_rule\<lparr>raction := Drop\<rparr>]" Input True "\<lambda>r. True"]
  by simp

section \<open>Every rule is rendered, and only as it says\<close>

text \<open>
  C7. A rule limited to sources never widens: each line rendered for it compares the source
  address, also when some of its sources are unreadable, of a family that is switched off,
  or all of them are; it then has fewer lines or none.
\<close>

theorem sources_never_widen:
  assumes "sources r \<noteq> []" and "l \<in> set (rule_lines r ch v6on)"
  shows "\<exists>t. (l = t \<or> l = ''ct status dnat '' @ t) \<and> (starts_with ''ip saddr '' t \<or> starts_with ''ip6 saddr '' t)"
  using rule_lines_restricted[OF assms] by (auto simp: saddr_clause_def split: if_splits)

definition demo_rule :: rule where
  "demo_rule = default_rule\<lparr>rid := ''r-1'', sources := [''@blocklist''], raction := Drop\<rparr>"

lemma demo_rule_lines:
  "rule_lines demo_rule Input False = [''ip saddr @block4 counter drop comment '' @ comment_tail demo_rule]"
  by (simp add: demo_rule_def default_rule_def rule_lines_def proto_match_def clauses_of_def SET_REF_PREFIX_def
      comment_tail_def)

theorem sources_never_widen_witness:
  "\<exists>l \<in> set (rule_lines demo_rule Input False). \<exists>t. l = t \<or> l = ''ct status dnat '' @ t"
proof -
  have "sources demo_rule \<noteq> []" by (simp add: demo_rule_def)
  moreover have "''ip saddr @block4 counter drop comment '' @ comment_tail demo_rule \<in> set (rule_lines demo_rule Input False)"
    unfolding demo_rule_lines by simp
  ultimately show ?thesis using sources_never_widen by blast
qed

text \<open>
  No text of a stored rule can break out of its line: a line rendered for a rule in normal form
  contains no control character, and its only quotes are the two around the comment
  \<open>asc:<id>\<close> at its end.
\<close>

theorem lines_cannot_be_injected:
  assumes "rule_normalize r = Inr n" and "l \<in> set (rule_lines n ch v6on)"
  shows "\<exists>body. l = body @ QUOTE @ ''asc:'' @ rid n @ QUOTE
    \<and> (\<forall>c \<in> set body. \<not> is_control c \<and> c \<noteq> CHR 0x22 \<and> c \<noteq> CHR 0x5C)
    \<and> (\<forall>c \<in> set (rid n). is_alnum c \<or> c = CHR ''-'' \<or> c = CHR ''_'')"
proof -
  have "wf_rule n" by (rule rule_normalize_wf[OF assms(1)])
  then have "list_all rule_char (rid n)" by (simp add: wf_rule_def rid_ok_def)
  moreover obtain body where "l = body @ comment_tail n" "clean body" using rule_line_shape[OF assms(2)] by blast
  ultimately show ?thesis
    by (auto simp: clean_def list_all_iff quote_free_def rule_char_def comment_tail_def)
qed

lemma demo_any_lines:
  "rule_lines (default_rule\<lparr>rid := ''r-1''\<rparr>) Input True = [''counter accept comment '' @ QUOTE @ ''asc:r-1'' @ QUOTE]"
  by (simp add: default_rule_def rule_lines_def proto_match_def clauses_of_def)

theorem lines_cannot_be_injected_witness:
  "\<exists>body. ''counter accept comment '' @ QUOTE @ ''asc:r-1'' @ QUOTE = body @ QUOTE @ ''asc:'' @ ''r-1'' @ QUOTE
     \<and> (\<forall>c \<in> set body. \<not> is_control c)"
proof -
  have "wf_rule (default_rule\<lparr>rid := ''r-1''\<rparr>)"
    using default_rule_wf by (auto simp: wf_rule_def rid_ok_def MAX_ID_def byte_len_def rule_char_def
        is_alnum_def is_digit_def is_lower_def is_upper_def default_rule_def split: sum.splits)
  from lines_cannot_be_injected[OF wf_rule_normalize[OF this], of _ Input True] show ?thesis
    unfolding demo_any_lines by (auto simp del: append_Cons)
qed

text \<open>
  The rule lines of the table are exactly those of the rules in force: the lines of the input
  chain come from the presets and from the stored rules that are on and claim no preset, with
  a scope that covers the host, and likewise the forward chain with Docker; and whenever a
  rule has a forward line, the forward chain is in the table.
\<close>

theorem rendered_rules_exact:
  "(l \<in> set (write_rules (host_rules m f) Input v6on) \<longleftrightarrow>
      (\<exists>r k. (r \<in> set (presets f (msettings m)) \<or> r \<in> set (mrules m) \<and> enabled r \<and> \<not> is_preset r)
         \<and> rscope r \<in> {Host, Both} \<and> k \<in> set (rule_lines r Input v6on) \<and> l = TAB @ TAB @ k))
   \<and> (l \<in> set (write_rules (docker_rules m f) Forward v6on) \<longleftrightarrow>
      (\<exists>r k. r \<in> set (mrules m) \<and> enabled r \<and> \<not> is_preset r
         \<and> rscope r \<in> {Docker, Both} \<and> k \<in> set (rule_lines r Forward v6on) \<and> l = TAB @ TAB @ k))
   \<and> (set (write_rules (host_rules m f) Input (ipv6 (msettings m)))
        \<union> set (write_rules (docker_rules m f) Forward (ipv6 (msettings m))) \<subseteq> set (render_lines m f now))"
proof (intro conjI)
  have scopes: "scope_host sc \<longleftrightarrow> sc \<in> {Host, Both}" "scope_docker sc \<longleftrightarrow> sc \<in> {Docker, Both}" for sc
    by (cases sc; simp add: scope_host_def scope_docker_def)+
  show "l \<in> set (write_rules (host_rules m f) Input v6on) \<longleftrightarrow>
      (\<exists>r k. (r \<in> set (presets f (msettings m)) \<or> r \<in> set (mrules m) \<and> enabled r \<and> \<not> is_preset r)
         \<and> rscope r \<in> {Host, Both} \<and> k \<in> set (rule_lines r Input v6on) \<and> l = TAB @ TAB @ k)"
    unfolding write_rules_set by (auto simp: host_rules_def effective_rules_def scopes)
  have "r \<notin> set (presets f (msettings m))" if "rscope r \<in> {Docker, Both}" for r
    using that presets_host[of r f "msettings m"] by auto
  then show "l \<in> set (write_rules (docker_rules m f) Forward v6on) \<longleftrightarrow>
      (\<exists>r k. r \<in> set (mrules m) \<and> enabled r \<and> \<not> is_preset r
         \<and> rscope r \<in> {Docker, Both} \<and> k \<in> set (rule_lines r Forward v6on) \<and> l = TAB @ TAB @ k)"
    unfolding write_rules_set by (fastforce simp: docker_rules_def effective_rules_def scopes)
  have "docker_rules m f = [] \<or> need_forward m f now" by (simp add: need_forward_def)
  then show "set (write_rules (host_rules m f) Input (ipv6 (msettings m)))
      \<union> set (write_rules (docker_rules m f) Forward (ipv6 (msettings m))) \<subseteq> set (render_lines m f now)"
    by (auto simp: render_lines_def input_chain_def forward_chain_def write_rules_def chain_order_def)
qed

text \<open>
  The SSH preset keeps the way in open: when it is on, the rendered input chain contains one
  accept line for TCP whose ports are exactly the ports the SSH server listens on, and no
  source condition.
\<close>

theorem ssh_stays_reachable:
  assumes "preset_enabled (msettings m) PRESET_SSH" and "ssh_ports f \<noteq> []" and "0 \<notin> set (ssh_ports f)"
  shows "\<exists>rs. set rs = (\<lambda>p. \<lparr>pfrom = p, pto = p\<rparr>) ` set (ssh_ports f)
    \<and> TAB @ TAB @ ''tcp dport '' @ braces (map show_port_range rs) @ '' counter accept comment ''
        @ QUOTE @ ''asc:preset-ssh'' @ QUOTE \<in> set (render_lines m f now)"
proof -
  let ?r = "preset_rule PRESET_SSH Tcp (ssh_ports f) ''SSH (preset)''"
  obtain rs where rs: "set rs = (\<lambda>p. \<lparr>pfrom = p, pto = p\<rparr>) ` set (ssh_ports f)"
    and l: "rule_lines ?r Input (ipv6 (msettings m)) =
        [''tcp dport '' @ braces (map show_port_range rs) @ '' counter accept comment '' @ comment_tail ?r]"
    using preset_line[OF assms(2,3), where name = PRESET_SSH and c = "''SSH (preset)''"
        and v6on = "ipv6 (msettings m)"] by auto
  have "?r \<in> set (effective_rules m f)"
    by (rule presets_effective[OF ssh_preset_present[OF assms(2,1)]])
  moreover have "scope_host (rscope ?r)" by (simp add: preset_rule_def scope_host_def)
  ultimately have "TAB @ TAB @ ''tcp dport '' @ braces (map show_port_range rs) @ '' counter accept comment ''
      @ comment_tail ?r \<in> set (input_chain m f)"
    by (rule host_rule_rendered) (simp add: l)
  then have "TAB @ TAB @ ''tcp dport '' @ braces (map show_port_range rs) @ '' counter accept comment ''
      @ comment_tail ?r \<in> set (render_lines m f now)"
    by (rule input_chain_rendered)
  moreover have "comment_tail ?r = QUOTE @ ''asc:preset-ssh'' @ QUOTE"
    by (simp add: comment_tail_def preset_rule_def PRESET_SSH_def)
  ultimately show ?thesis using rs by (intro exI[of _ rs] conjI) simp_all
qed

theorem ssh_stays_reachable_witness:
  "\<exists>rs. set rs = {\<lparr>pfrom = 22, pto = 22\<rparr>, \<lparr>pfrom = 2222, pto = 2222\<rparr>}
    \<and> TAB @ TAB @ ''tcp dport '' @ braces (map show_port_range rs) @ '' counter accept comment ''
        @ QUOTE @ ''asc:preset-ssh'' @ QUOTE
      \<in> set (render_lines default_model \<lparr>ssh_ports = [22, 2222], api_port = None, web_installed = False\<rparr> 0)"
  using ssh_stays_reachable[of default_model "\<lparr>ssh_ports = [22, 2222], api_port = None, web_installed = False\<rparr>" 0]
  by (simp add: default_model_def default_settings_def preset_enabled_def)

text \<open>
  The elements of an address set are sorted, name each network once, and are exactly the
  networks of the stored entries that have not expired; a timed entry has at least one
  second left.
\<close>

theorem set_elements_exact:
  "sorted (map element_key (elements es now)) \<and> distinct (map (\<lambda>e. show_net (enet e)) (elements es now))
   \<and> (\<lambda>e. show_net (enet e)) ` set (elements es now)
      = {show_net n |n e. e \<in> set es \<and> \<not> expired now e \<and> parse_net (evalue e) = Inr n}
   \<and> (\<forall>x \<in> set (elements es now). \<forall>t. etimeout x = Some t \<longrightarrow> 1 \<le> t)"
proof (intro conjI ballI allI impI)
  fix x t assume "x \<in> set (elements es now)" "etimeout x = Some t"
  with elements_timeout[of x es now] show "1 \<le> t" by simp
qed (rule elements_sorted elements_distinct elements_nets)+

theorem set_elements_exact_witness:
  "distinct (map (\<lambda>e. show_net (enet e))
     (elements [\<lparr>evalue = ''::1'', expires_unix = Some 5, ecomment = []\<rparr>, \<lparr>evalue = ''::1'', expires_unix = None, ecomment = []\<rparr>] 0))"
  using set_elements_exact[of "[\<lparr>evalue = ''::1'', expires_unix = Some 5, ecomment = []\<rparr>,
      \<lparr>evalue = ''::1'', expires_unix = None, ecomment = []\<rparr>]" 0] by blast

end
