(* ===== verification/Firewall.thy ===== *)
theory Firewall
  imports FwRender HostIO
begin

text \<open>
  \<open>src/daemon/firewall/mod.rs\<close> and \<open>persist.rs\<close>: the firewall manager. Its state is on
  disk (\<open>state.json\<close>, \<open>pending.json\<close>, the boot ruleset and its unit) and in the kernel;
  each public method is a computation over that world, and every write and command of it
  takes an outcome (\<open>HostIO\<close>), so the results cover failing writes and a power cut at any
  point. The mutex makes methods atomic towards each other. What the daemon calls but
  does not implement (\<open>nft\<close>, \<open>systemctl\<close>, ufw and firewalld, SHA-256, reading the JSON
  of counters) is the record \<open>host_ops\<close>; the clock does not advance within a method.
\<close>

definition MIN_TIMEOUT :: nat where "MIN_TIMEOUT = 15"
definition MAX_TIMEOUT :: nat where "MAX_TIMEOUT = 600"

section \<open>State\<close>

record state =
  smode :: mode
  smodel :: model
  sraw :: string
  applied_table :: string
  applied_fp :: string
  applied_unix :: int
  last_error :: string

definition default_state :: state where
  "default_state = \<lparr>smode = Disabled, smodel = default_model, sraw = [], applied_table = [],
     applied_fp = [], applied_unix = 0, last_error = []\<rparr>"

record pending =
  pid :: string
  started_unix :: int
  deadline_unix :: int
  target_mode :: mode
  pscript :: string
  ptable :: string
  pfingerprint :: string
  prollback :: string

record pending_view =
  pv_id :: string
  pv_deadline :: int
  seconds_left :: int
  pv_mode :: mode

record conflict =
  ckind :: string
  cdetail :: string

record overview =
  nft_is_installed :: bool
  nft_version_text :: string
  omode :: mode
  osettings :: settings
  orules :: "rule list"
  opresets :: "rule list"
  osets :: ip_sets
  opending :: "pending_view option"
  oconflicts :: "conflict list"
  changed :: bool
  counters :: "(string \<times> nat \<times> nat) list"
  olast_error :: string
  oapplied_unix :: int

record change =
  ch_mode :: mode
  ch_table :: string
  ch_script :: string
  ch_fingerprint :: string
  ch_rollback :: string

text \<open>
  The host: \<open>trait Nft\<close> of \<open>nft.rs\<close>, the hooks of \<open>Hooks\<close>, \<open>systemctl\<close> and the
  digest of \<open>new_id\<close>. Commands that change the host return its new state.
\<close>

record 'k host_ops =
  nft_installed :: "'k \<Rightarrow> bool"
  nft_path :: "'k \<Rightarrow> string"
  nft_version :: "'k \<Rightarrow> string"
  nft_check :: "'k \<Rightarrow> string \<Rightarrow> string + unit"
  nft_apply :: "'k \<Rightarrow> string \<Rightarrow> (string + unit) \<times> 'k"
  nft_list_ruleset :: "'k \<Rightarrow> string + string"
  nft_list_table :: "'k \<Rightarrow> string + string option"
  nft_counters :: "'k \<Rightarrow> (string \<times> nat \<times> nat) list"
  detect_conflicts :: "'k \<Rightarrow> conflict list"
  disable_conflicts :: "'k \<Rightarrow> conflict list \<Rightarrow> (string + unit) \<times> 'k"
  run_systemctl :: "'k \<Rightarrow> string list \<Rightarrow> (string + unit) \<times> 'k"
  id_digest :: "nat \<Rightarrow> 8 word list"

record 'k world =
  state_doc :: "state doc"
  pending_doc :: "pending doc"
  ruleset_file :: "string option"
  unit_file :: "string option"
  kernel :: 'k
  clock :: int
  id_counter :: nat
  timers :: "(string \<times> int \<times> nat) list"
  outcomes :: "outcome list"

record paths =
  etc_ruleset :: string
  unit_dir :: bool

datatype mgr_error =
    Model fw_error | PresetReadOnly | TooManyRules | TooManyEntries
  | NftMissing | LockoutRisk "string list" | ConflictActive "string list"
  | Rejected string | NftFailed string | CommandFailed string | IoFailed
  | ChangePending | NothingPending | StaleId | WindowPassed
  | RiskNotAcknowledged | EmptyRuleset | RulesetTooLarge | BadTimeout

type_synonym ('k, 'a) fw_io = "('k world, mgr_error module_error, 'a) io"

section \<open>Effects\<close>

definition effect :: "('k world \<Rightarrow> 'k world) \<Rightarrow> ('k, unit) fw_io" where
  "effect f = (\<lambda>w. let (ok, os) = next_outcome (outcomes w) in
     if ok then (Inr (), (f w)\<lparr>outcomes := os\<rparr>)
     else (Inl (Other IoFailed), w\<lparr>outcomes := os\<rparr>))"

text \<open>A command that changes the host.\<close>

definition command :: "('k \<Rightarrow> (string + unit) \<times> 'k) \<Rightarrow> (string \<Rightarrow> mgr_error) \<Rightarrow> ('k, unit) fw_io" where
  "command run err = (\<lambda>w. let (ok, os) = next_outcome (outcomes w) in
     if ok then (case run (kernel w) of
         (r, k) \<Rightarrow> (map_err (\<lambda>m. Other (err m)) r, w\<lparr>kernel := k, outcomes := os\<rparr>))
     else (Inl (Other IoFailed), w\<lparr>outcomes := os\<rparr>))"

text \<open>An unreadable \<open>state.json\<close> is moved aside and the defaults are used.\<close>

definition load_state :: "('k, state) fw_io" where
  "load_state = bind (asks state_doc) (\<lambda>d. case d of
       Absent \<Rightarrow> ret default_state
     | Doc s \<Rightarrow> ret s
     | Corrupt \<Rightarrow> seq (ignore (effect (\<lambda>w. w\<lparr>state_doc := Absent\<rparr>))) (ret default_state))"

definition save_state :: "state \<Rightarrow> ('k, unit) fw_io" where
  "save_state s = effect (\<lambda>w. w\<lparr>state_doc := Doc s\<rparr>)"

definition load_pending :: "('k, pending option) fw_io" where
  "load_pending = asks (\<lambda>w. case pending_doc w of Doc p \<Rightarrow> Some p | _ \<Rightarrow> None)"

definition save_pending :: "pending \<Rightarrow> ('k, unit) fw_io" where
  "save_pending p = effect (\<lambda>w. w\<lparr>pending_doc := Doc p\<rparr>)"

definition clear_pending :: "('k, unit) fw_io" where
  "clear_pending = ignore (effect (\<lambda>w. w\<lparr>pending_doc := Absent\<rparr>))"

definition apply_script :: "'k host_ops \<Rightarrow> string \<Rightarrow> ('k, unit) fw_io" where
  "apply_script H s = command (\<lambda>k. nft_apply H k s) NftFailed"

section \<open>persist.rs\<close>

definition UNIT_NAME :: string where "UNIT_NAME = ''asc-firewall.service''"

definition unit_text :: "string \<Rightarrow> string \<Rightarrow> string" where
  "unit_text nft ruleset = unlines
     [''# Added by asc-daemon (firewall): loads the confirmed ruleset at boot.'',
      ''[Unit]'',
      ''Description=ASC firewall (nftables table inet asc)'',
      ''Documentation=https://docs.adminservice.cloud/firewall'',
      ''DefaultDependencies=no'',
      ''After=local-fs.target nftables.service'',
      ''Before=network-pre.target'',
      ''Wants=network-pre.target'',
      ''ConditionPathExists='' @ ruleset,
      '''',
      ''[Service]'',
      ''Type=oneshot'',
      ''RemainAfterExit=yes'',
      ''ExecStart='' @ nft @ '' -f '' @ ruleset,
      '''',
      ''[Install]'',
      ''WantedBy=sysinit.target'']"

definition systemctl :: "'k host_ops \<Rightarrow> string list \<Rightarrow> ('k, unit) fw_io" where
  "systemctl H args = command (\<lambda>k. run_systemctl H k args) CommandFailed"

definition save_ruleset :: "'k host_ops \<Rightarrow> paths \<Rightarrow> string \<Rightarrow> ('k, unit) fw_io" where
  "save_ruleset H P script =
     seq (effect (\<lambda>w. w\<lparr>ruleset_file := Some script\<rparr>))
       (do_if (unit_dir P)
         (bind (asks (\<lambda>w. unit_text (nft_path H (kernel w)) (etc_ruleset P))) (\<lambda>text.
          bind (asks unit_file) (\<lambda>current.
            seq (do_if (case_option [] id current \<noteq> text)
                  (seq (effect (\<lambda>w. w\<lparr>unit_file := Some text\<rparr>))
                       (systemctl H [''daemon-reload''])))
                (systemctl H [''enable'', UNIT_NAME])))))"

definition clear_ruleset :: "'k host_ops \<Rightarrow> paths \<Rightarrow> ('k, unit) fw_io" where
  "clear_ruleset H P =
     seq (do_if (unit_dir P)
           (bind (asks unit_file) (\<lambda>u. do_if (u \<noteq> None)
             (seq (ignore (systemctl H [''disable'', UNIT_NAME]))
             (seq (effect (\<lambda>w. w\<lparr>unit_file := None\<rparr>))
                  (ignore (systemctl H [''daemon-reload''])))))))
         (bind (asks ruleset_file) (\<lambda>r. do_if (r \<noteq> None) (effect (\<lambda>w. w\<lparr>ruleset_file := None\<rparr>))))"

section \<open>Reading\<close>

definition state_changed :: "facts \<Rightarrow> state \<Rightarrow> bool" where
  "state_changed f s = (case smode s of
       Managed \<Rightarrow> render_table (smodel s) f 0 \<noteq> applied_fp s
     | Raw \<Rightarrow> sraw s \<noteq> applied_fp s
     | Disabled \<Rightarrow> False)"

definition view_pending :: "int \<Rightarrow> pending \<Rightarrow> pending_view" where
  "view_pending now p = \<lparr>pv_id = pid p, pv_deadline = deadline_unix p,
     seconds_left = max (deadline_unix p - now) 0, pv_mode = target_mode p\<rparr>"

definition overview_locked :: "'k host_ops \<Rightarrow> facts \<Rightarrow> ('k, overview) fw_io" where
  "overview_locked H f =
     bind load_state (\<lambda>s.
     bind load_pending (\<lambda>p.
     asks (\<lambda>w. let installed = nft_installed H (kernel w) in
       \<lparr>nft_is_installed = installed,
        nft_version_text = (if installed then nft_version H (kernel w) else []),
        omode = smode s,
        osettings = msettings (smodel s),
        orules = mrules (smodel s),
        opresets = presets f (msettings (smodel s)),
        osets = msets (smodel s),
        opending = map_option (view_pending (clock w)) p,
        oconflicts = detect_conflicts H (kernel w),
        changed = state_changed f s,
        counters = (if installed \<and> smode s = Managed then nft_counters H (kernel w) else []),
        olast_error = last_error s,
        oapplied_unix = applied_unix s\<rparr>)))"

definition require_nft :: "'k host_ops \<Rightarrow> ('k, unit) fw_io" where
  "require_nft H = bind (asks (\<lambda>w. nft_installed H (kernel w)))
     (\<lambda>i. fail_if (\<not> i) (Precondition NftMissing))"

record rendered =
  proposed :: string
  rapplied :: string
  rchanged :: bool

definition fw_render :: "facts \<Rightarrow> ('k, rendered) fw_io" where
  "fw_render f = bind load_state (\<lambda>s. asks (\<lambda>w.
     \<lparr>proposed = render_table (smodel s) f (clock w), rapplied = applied_table s,
      rchanged = (render_table (smodel s) f 0 \<noteq> applied_fp s)\<rparr>))"

definition fw_ruleset :: "'k host_ops \<Rightarrow> ('k, string \<times> string) fw_io" where
  "fw_ruleset H = seq (require_nft H)
     (bind (asks (\<lambda>w. nft_list_ruleset H (kernel w))) (\<lambda>live.
      bind (lift_result (map_err (\<lambda>m. Other (NftFailed m)) live)) (\<lambda>live.
      bind load_state (\<lambda>s. ret (live, sraw s)))))"

definition table_owner :: "string \<Rightarrow> string \<Rightarrow> string" where
  "table_owner family name =
     (if family = TABLE_FAMILY \<and> name = TABLE_NAME then ''asc''
      else if starts_with ''f2b'' name then ''fail2ban''
      else if family \<in> {''ip'', ''ip6'', ''arp'', ''bridge''}
        \<and> name \<in> {''filter'', ''nat'', ''mangle'', ''raw'', ''security''} then ''iptables''
      else ''other'')"

section \<open>Editing the model\<close>

text \<open>\<open>new_id\<close>: the prefix and the first four bytes of a digest in hexadecimal.\<close>

definition new_id :: "'k host_ops \<Rightarrow> string \<Rightarrow> ('k, string) fw_io" where
  "new_id H prefix_text = (\<lambda>w.
     (Inr (prefix_text @ ''-'' @ concat (map hex2 (take 4 (id_digest H (id_counter w))))),
      w\<lparr>id_counter := Suc (id_counter w)\<rparr>))"

definition update_settings :: "settings \<Rightarrow> bool \<Rightarrow> ('k, settings) fw_io" where
  "update_settings new force =
     seq (lift_result (map_err (\<lambda>e. Invalid (Model e)) (settings_validate new)))
     (bind load_state (\<lambda>s.
       let newly_off = filter (\<lambda>p. p \<in> set CRITICAL_PRESETS)
             (filter (\<lambda>p. p \<notin> set (disabled_presets (msettings (smodel s)))) (disabled_presets new))
       in seq (fail_if (newly_off \<noteq> [] \<and> \<not> force) (Precondition (LockoutRisk newly_off)))
         (seq (save_state (s\<lparr>smodel := (smodel s)\<lparr>msettings := new\<rparr>\<rparr>)) (ret new))))"

definition upsert_rule :: "'k host_ops \<Rightarrow> rule \<Rightarrow> ('k, rule) fw_io" where
  "upsert_rule H r =
     seq (fail_if (is_preset r) (Invalid PresetReadOnly))
     (bind (lift_result (map_err (\<lambda>e. Invalid (Model e)) (rule_normalize r))) (\<lambda>r.
      bind load_state (\<lambda>s.
      bind (if rid r = [] then bind (new_id H ''r'') (\<lambda>i. ret (r\<lparr>rid := i\<rparr>)) else ret r) (\<lambda>r.
        let rules = mrules (smodel s) in
        seq (fail_if (\<not> has_key rid rules (rid r) \<and> length rules \<ge> MAX_RULES) (Invalid TooManyRules))
         (seq (save_state (s\<lparr>smodel := (smodel s)\<lparr>mrules := upsert rid rules r\<rparr>\<rparr>)) (ret r))))))"

definition remove_rule :: "string \<Rightarrow> ('k, bool) fw_io" where
  "remove_rule i =
     bind load_state (\<lambda>s.
       let rules = remove_key rid (mrules (smodel s)) i;
           removed = (length rules \<noteq> length (mrules (smodel s)))
       in seq (do_if removed (save_state (s\<lparr>smodel := (smodel s)\<lparr>mrules := rules\<rparr>\<rparr>))) (ret removed))"

definition with_set :: "state \<Rightarrow> set_name \<Rightarrow> set_entry list \<Rightarrow> state" where
  "with_set s n es = s\<lparr>smodel := (smodel s)\<lparr>msets := put_set (msets (smodel s)) n es\<rparr>\<rparr>"

definition normalize_entries :: "set_entry list \<Rightarrow> mgr_error module_error + set_entry list" where
  "normalize_entries entries =
     (if length entries > MAX_SET_ENTRIES then Inl (Invalid TooManyEntries)
      else map_ok (\<lambda>es. foldl (upsert evalue) [] es)
        (traverse (\<lambda>e. map_err (\<lambda>e. Invalid (Model e)) (entry_normalize e)) entries))"

definition set_entries :: "set_name \<Rightarrow> set_entry list \<Rightarrow> ('k, set_entry list) fw_io" where
  "set_entries n entries =
     bind (lift_result (normalize_entries entries)) (\<lambda>es.
     bind load_state (\<lambda>s. seq (save_state (with_set s n es)) (ret es)))"

definition add_entry :: "set_name \<Rightarrow> set_entry \<Rightarrow> ('k, set_entry list) fw_io" where
  "add_entry n e =
     bind (lift_result (map_err (\<lambda>e. Invalid (Model e)) (entry_normalize e))) (\<lambda>e.
     bind load_state (\<lambda>s.
       let es = upsert evalue (get_set (msets (smodel s)) n) e
       in seq (fail_if (length es > MAX_SET_ENTRIES) (Invalid TooManyEntries))
         (seq (save_state (with_set s n es)) (ret es))))"

definition remove_entry :: "set_name \<Rightarrow> string \<Rightarrow> ('k, bool) fw_io" where
  "remove_entry n v =
     bind (lift_result (map_err (\<lambda>e. Invalid (Model (BadNet e))) (parse_net v))) (\<lambda>net.
     bind load_state (\<lambda>s.
       let old = get_set (msets (smodel s)) n;
           es = remove_key evalue old (show_net net);
           removed = (length es \<noteq> length old)
       in seq (do_if removed (save_state (with_set s n es))) (ret removed)))"

section \<open>Applying\<close>

definition check_timeout :: "nat \<Rightarrow> mgr_error module_error + unit" where
  "check_timeout seconds =
     (if seconds \<noteq> 0 \<and> \<not> (MIN_TIMEOUT \<le> seconds \<and> seconds \<le> MAX_TIMEOUT)
      then Inl (Invalid BadTimeout) else Inr ())"

definition require_no_pending :: "('k, unit) fw_io" where
  "require_no_pending = bind load_pending (\<lambda>p. fail_if (p \<noteq> None) (Precondition ChangePending))"

definition rollback_for :: "'k host_ops \<Rightarrow> state \<Rightarrow> mode \<Rightarrow> ('k, string) fw_io" where
  "rollback_for H s target =
     (if target = Raw \<or> smode s = Raw
      then bind (asks (\<lambda>w. nft_list_ruleset H (kernel w)))
        (\<lambda>r. lift_result (case r of Inl m \<Rightarrow> Inl (Other (NftFailed m))
           | Inr dump \<Rightarrow> Inr (''flush ruleset'' @ NL @ dump @ NL)))
      else bind (asks (\<lambda>w. nft_list_table H (kernel w)))
        (\<lambda>r. lift_result (case r of Inl m \<Rightarrow> Inl (Other (NftFailed m))
           | Inr (Some table) \<Rightarrow> Inr (replace_script table)
           | Inr None \<Rightarrow> Inr remove_script)))"

definition check_script :: "'k host_ops \<Rightarrow> string \<Rightarrow> ('k, unit) fw_io" where
  "check_script H script = bind (asks (\<lambda>w. nft_check H (kernel w) script))
     (\<lambda>r. lift_result (map_err (\<lambda>m. Precondition (Rejected m)) r))"

text \<open>\<open>commit_parts\<close>: the state first, then the boot ruleset.\<close>

definition commit_parts ::
  "'k host_ops \<Rightarrow> paths \<Rightarrow> state \<Rightarrow> mode \<Rightarrow> string \<Rightarrow> string \<Rightarrow> string \<Rightarrow> ('k, unit) fw_io" where
  "commit_parts H P s m table fp script =
     bind (asks clock) (\<lambda>now.
       seq (save_state (s\<lparr>smode := m, applied_table := table, applied_fp := fp,
              applied_unix := now, last_error := []\<rparr>))
           (save_ruleset H P script))"

definition arm :: "string \<Rightarrow> int \<Rightarrow> ('k, unit) fw_io" where
  "arm i deadline = ignore (effect (\<lambda>w. w\<lparr>timers := (i, deadline, 0) # timers w\<rparr>))"

definition submit :: "'k host_ops \<Rightarrow> paths \<Rightarrow> state \<Rightarrow> change \<Rightarrow> nat \<Rightarrow> ('k, unit) fw_io" where
  "submit H P s ch timeout =
     seq (check_script H (ch_script ch))
      (if timeout = 0
       then seq (apply_script H (ch_script ch))
              (commit_parts H P s (ch_mode ch) (ch_table ch) (ch_fingerprint ch) (ch_script ch))
       else bind (asks clock) (\<lambda>now. bind (new_id H ''c'') (\<lambda>i.
         let p = \<lparr>pid = i, started_unix = now, deadline_unix = now + int timeout,
                  target_mode = ch_mode ch, pscript = ch_script ch, ptable = ch_table ch,
                  pfingerprint = ch_fingerprint ch, prollback = ch_rollback ch\<rparr>
         in seq (save_pending p)
             (bind (catch (apply_script H (ch_script ch))) (\<lambda>r. case r of
                Inl e \<Rightarrow> seq clear_pending (throw e)
              | Inr _ \<Rightarrow> arm i (deadline_unix p))))))"

definition drop_expired :: "int \<Rightarrow> state \<Rightarrow> state" where
  "drop_expired now s = foldl (\<lambda>s n. with_set s n
       (filter (\<lambda>e. \<not> expired now e) (get_set (msets (smodel s)) n))) s [Allowlist, Blocklist]"

definition apply_managed ::
  "'k host_ops \<Rightarrow> paths \<Rightarrow> facts \<Rightarrow> nat \<Rightarrow> bool \<Rightarrow> ('k, overview) fw_io" where
  "apply_managed H P f timeout force =
     seq (lift_result (check_timeout timeout))
     (seq (require_nft H)
     (seq require_no_pending
     (bind load_state (\<lambda>s.
      bind (asks (\<lambda>w. if smode s = Managed then [] else detect_conflicts H (kernel w))) (\<lambda>competing.
      seq (fail_if (competing \<noteq> [] \<and> \<not> force) (Precondition (ConflictActive (map ckind competing))))
     (bind (asks clock) (\<lambda>now.
       let s = drop_expired now s;
           table = render_table (smodel s) f now
       in bind (rollback_for H s Managed) (\<lambda>rollback.
         let ch = \<lparr>ch_mode = Managed, ch_table = table, ch_script = replace_script table,
                   ch_fingerprint = render_table (smodel s) f 0, ch_rollback = rollback\<rparr>
         in seq (check_script H (ch_script ch))
           (seq (do_if (competing \<noteq> []) (command (\<lambda>k. disable_conflicts H k competing) CommandFailed))
           (seq (save_state s)
           (seq (submit H P s ch timeout)
                (overview_locked H f))))))))))))"

text \<open>\<open>text.replace("\r\n", "\n")\<close>\<close>

fun strip_crlf :: "string \<Rightarrow> string" where
  "strip_crlf [] = []"
| "strip_crlf [c] = [c]"
| "strip_crlf (c # d # cs) =
     (if c = CHR 0x0D \<and> d = CHR 0x0A then CHR 0x0A # strip_crlf cs else c # strip_crlf (d # cs))"

definition apply_raw ::
  "'k host_ops \<Rightarrow> paths \<Rightarrow> facts \<Rightarrow> string \<Rightarrow> bool \<Rightarrow> nat \<Rightarrow> ('k, overview) fw_io" where
  "apply_raw H P f text ack_risk timeout =
     seq (fail_if (\<not> ack_risk) (Precondition RiskNotAcknowledged))
     (seq (fail_if (trim text = []) (Invalid EmptyRuleset))
     (seq (fail_if (byte_len text > 1024 * 1024) (Invalid RulesetTooLarge))
     (seq (lift_result (check_timeout timeout))
     (seq (require_nft H)
     (seq require_no_pending
     (bind load_state (\<lambda>s.
       let text = strip_crlf text
       in bind (rollback_for H s Raw) (\<lambda>rollback.
         let ch = \<lparr>ch_mode = Raw, ch_table = text, ch_script = ''flush ruleset'' @ NL @ text @ NL,
                   ch_fingerprint = text, ch_rollback = rollback\<rparr>;
             s = s\<lparr>sraw := text\<rparr>
         in seq (save_state s)
           (seq (submit H P s ch timeout)
                (overview_locked H f))))))))))"

section \<open>Confirming and rolling back\<close>

definition change_message :: "string \<Rightarrow> string \<Rightarrow> string" where
  "change_message i why = ''the firewall change '' @ i @ '' '' @ why"

definition rollback_locked :: "'k host_ops \<Rightarrow> pending \<Rightarrow> string \<Rightarrow> ('k, unit) fw_io" where
  "rollback_locked H p why =
     seq (apply_script H (prollback p))
     (seq clear_pending
     (bind load_state (\<lambda>s. ignore (save_state (s\<lparr>last_error := change_message (pid p) why\<rparr>)))))"

definition confirm :: "'k host_ops \<Rightarrow> paths \<Rightarrow> string \<Rightarrow> facts \<Rightarrow> ('k, overview) fw_io" where
  "confirm H P i f =
     bind load_pending (\<lambda>q. case q of
       None \<Rightarrow> throw (Precondition NothingPending)
     | Some p \<Rightarrow>
       if i \<noteq> [] \<and> i \<noteq> pid p then throw (Precondition StaleId)
       else bind (asks clock) (\<lambda>now.
         if now > deadline_unix p
         then seq (rollback_locked H p ''was not confirmed in time'') (throw (Precondition WindowPassed))
         else bind load_state (\<lambda>s.
           seq (commit_parts H P s (target_mode p) (ptable p) (pfingerprint p) (pscript p))
           (seq clear_pending (overview_locked H f)))))"

definition rollback :: "'k host_ops \<Rightarrow> facts \<Rightarrow> ('k, overview) fw_io" where
  "rollback H f =
     bind load_pending (\<lambda>q. case q of
       None \<Rightarrow> throw (Precondition NothingPending)
     | Some p \<Rightarrow> seq (rollback_locked H p ''was rolled back by request'') (overview_locked H f))"

definition expire :: "'k host_ops \<Rightarrow> string \<Rightarrow> int \<Rightarrow> ('k, bool) fw_io" where
  "expire H i now =
     bind load_pending (\<lambda>q. case q of
       None \<Rightarrow> ret False
     | Some p \<Rightarrow>
       if pid p \<noteq> i \<or> now < deadline_unix p then ret False
       else seq (rollback_locked H p ''was not confirmed in time'') (ret True))"

text \<open>
  The timer thread of \<open>arm\<close>, one turn of its loops per step, so that other operations may
  run in between: a timer is the id and deadline it was started with and the number of
  failed attempts. Before the deadline it ends when its change is no longer the pending
  one; from then on a turn is one \<open>expire\<close>, and it ends with the first that returns or
  after the twelfth failure.
\<close>

definition ATTEMPTS :: nat where "ATTEMPTS = 12"

definition end_timer :: "string \<times> int \<times> nat \<Rightarrow> ('k, unit) fw_io" where
  "end_timer t = (\<lambda>w. (Inr (), w\<lparr>timers := remove1 t (timers w)\<rparr>))"

definition retry_timer :: "string \<times> int \<times> nat \<Rightarrow> ('k, unit) fw_io" where
  "retry_timer t = (case t of (i, d, n) \<Rightarrow>
     if ATTEMPTS \<le> Suc n then end_timer t
     else (\<lambda>w. (Inr (), w\<lparr>timers := (i, d, Suc n) # remove1 t (timers w)\<rparr>)))"

definition timer_turn :: "'k host_ops \<Rightarrow> string \<times> int \<times> nat \<Rightarrow> ('k, unit) fw_io" where
  "timer_turn H t = (case t of (i, deadline, n) \<Rightarrow>
     bind (asks clock) (\<lambda>now.
       if n = 0 \<and> now < deadline
       then bind load_pending (\<lambda>q.
         do_if (case q of None \<Rightarrow> True | Some p \<Rightarrow> pid p \<noteq> i) (end_timer t))
       else bind (catch (expire H i now)) (\<lambda>r. case r of
           Inr _ \<Rightarrow> end_timer t
         | Inl _ \<Rightarrow> retry_timer t)))"

definition disable :: "'k host_ops \<Rightarrow> paths \<Rightarrow> facts \<Rightarrow> ('k, overview) fw_io" where
  "disable H P f =
     seq require_no_pending
     (bind load_state (\<lambda>s.
      bind (asks (\<lambda>w. nft_installed H (kernel w))) (\<lambda>installed.
      seq (do_if (smode s = Managed \<and> installed) (apply_script H remove_script))
     (seq (clear_ruleset H P)
     (seq (save_state (s\<lparr>smode := Disabled, applied_table := [], applied_fp := [], last_error := []\<rparr>))
          (overview_locked H f))))))"

definition recover :: "'k host_ops \<Rightarrow> ('k, unit) fw_io" where
  "recover H =
     bind load_pending (\<lambda>q. case q of
       Some p \<Rightarrow> bind (asks clock) (\<lambda>now.
         if now \<ge> deadline_unix p
         then ignore (rollback_locked H p ''was not confirmed before a restart'')
         else arm (pid p) (deadline_unix p))
     | None \<Rightarrow>
       bind load_state (\<lambda>s.
       bind (asks (\<lambda>w. nft_installed H (kernel w))) (\<lambda>installed.
         if smode s \<noteq> Managed \<or> \<not> installed then ret ()
         else bind (asks (\<lambda>w. nft_list_table H (kernel w))) (\<lambda>t.
           if (case t of Inr (Some _) \<Rightarrow> True | _ \<Rightarrow> False) then ret ()
           else bind (asks ruleset_file) (\<lambda>r. case r of
               Some script \<Rightarrow> ignore (apply_script H script)
             | None \<Rightarrow> ret ())))))"

end
