(* ===== verification/FirewallInv.thy ===== *)
theory FirewallInv
  imports Firewall
begin

text \<open>
  What the firewall manager guarantees, for any outcome of its effects: which parts of the
  world an operation may touch (frames), the invariant of the stored model, the pending
  change as a transaction (written before the kernel changes, undone or confirmed), and
  the machine of all operations with its runs.
\<close>

section \<open>Effects and frames\<close>

lemma effect_Inr:
  "effect f w = (Inr u, w1) \<longleftrightarrow>
   fst (next_outcome (outcomes w)) \<and> w1 = (f w)\<lparr>outcomes := snd (next_outcome (outcomes w))\<rparr>"
  by (auto simp: effect_def Let_def split: prod.splits)

lemma effect_Inl:
  "effect f w = (Inl e, w1) \<longleftrightarrow>
   \<not> fst (next_outcome (outcomes w)) \<and> e = Other IoFailed
   \<and> w1 = w\<lparr>outcomes := snd (next_outcome (outcomes w))\<rparr>"
  by (auto simp: effect_def Let_def split: prod.splits)

lemma effect_fine: "outcomes w = [] \<Longrightarrow> effect f w = (Inr (), (f w)\<lparr>outcomes := []\<rparr>)"
  by (simp add: effect_def)

lemma command_fine:
  "outcomes w = [] \<Longrightarrow> command run err w =
   (map_err (\<lambda>m. Other (err m)) (fst (run (kernel w))),
    w\<lparr>kernel := snd (run (kernel w)), outcomes := []\<rparr>)"
  by (simp add: command_def split: prod.split)

lemma command_Inr:
  "command run err w = (Inr u, w1) \<longleftrightarrow>
   fst (next_outcome (outcomes w)) \<and> fst (run (kernel w)) = Inr ()
   \<and> w1 = w\<lparr>kernel := snd (run (kernel w)), outcomes := snd (next_outcome (outcomes w))\<rparr>"
  by (auto simp: command_def Let_def split: prod.splits)

lemma frames_effect:
  assumes "\<And>w os. g ((f w)\<lparr>outcomes := os\<rparr>) = g w" and "\<And>w os. g (w\<lparr>outcomes := os\<rparr>) = g w"
  shows "frames g (effect f)"
  using assms by (simp add: frames_def effect_def Let_def split: prod.split)

lemma frames_command:
  assumes "\<And>w k os. g (w\<lparr>kernel := k, outcomes := os\<rparr>) = g w" and "\<And>w os. g (w\<lparr>outcomes := os\<rparr>) = g w"
  shows "frames g (command run err)"
  using assms by (simp add: frames_def command_def Let_def split: prod.split)

text \<open>The parts of the world a model edit must not touch, and those a rollback must not.\<close>

definition outside :: "'k world \<Rightarrow> 'k \<times> pending doc \<times> string option \<times> string option \<times> (string \<times> int \<times> nat) list \<times> int" where
  "outside w = (kernel w, pending_doc w, ruleset_file w, unit_file w, timers w, clock w)"

definition boot :: "'k world \<Rightarrow> string option \<times> string option" where
  "boot w = (ruleset_file w, unit_file w)"

lemma outside_simps [simp]:
  "outside (w\<lparr>outcomes := os\<rparr>) = outside w"
  "outside (w\<lparr>state_doc := d\<rparr>) = outside w"
  "outside (w\<lparr>id_counter := n\<rparr>) = outside w"
  by (simp_all add: outside_def)

lemma boot_simps [simp]:
  "boot (w\<lparr>outcomes := os\<rparr>) = boot w" "boot (w\<lparr>state_doc := d\<rparr>) = boot w"
  "boot (w\<lparr>id_counter := n\<rparr>) = boot w" "boot (w\<lparr>kernel := k\<rparr>) = boot w"
  "boot (w\<lparr>pending_doc := p\<rparr>) = boot w" "boot (w\<lparr>timers := ts\<rparr>) = boot w"
  "boot (w\<lparr>clock := t\<rparr>) = boot w"
  by (simp_all add: boot_def)

lemma frames_outside [frame_rules]:
  "frames outside load_state" "frames outside (save_state s)" "frames outside load_pending"
  "frames outside (new_id H t)"
  unfolding load_state_def save_state_def load_pending_def
  by (auto intro!: frame_rules frames_effect split: doc.split)
    (simp add: frames_def new_id_def)

lemma frames_outside_edit:
  "frames outside (update_settings new force)"
  "frames outside (upsert_rule H r)"
  "frames outside (remove_rule i)"
  "frames outside (set_entries n es)"
  "frames outside (add_entry n e)"
  "frames outside (remove_entry n v)"
  unfolding update_settings_def upsert_rule_def remove_rule_def set_entries_def add_entry_def
    remove_entry_def Let_def
  by (intro frame_rules)+

lemma frames_outside_read:
  "frames outside (overview_locked H f)" "frames outside (fw_render f)" "frames outside (fw_ruleset H)"
  "frames outside (require_nft H)" "frames outside require_no_pending" "frames outside (rollback_for H s m)"
  "frames outside (check_script H t)"
  unfolding overview_locked_def fw_render_def fw_ruleset_def require_nft_def require_no_pending_def
    rollback_for_def check_script_def Let_def
  by (intro frame_rules)+

lemma frames_boot [frame_rules]:
  "frames boot load_state" "frames boot (save_state s)" "frames boot load_pending"
  "frames boot (new_id H t)" "frames boot (save_pending p)" "frames boot clear_pending"
  "frames boot (apply_script H t)" "frames boot (arm i d)"
  unfolding load_state_def save_state_def load_pending_def save_pending_def clear_pending_def
    apply_script_def arm_def
  by (auto intro!: frame_rules frames_effect frames_command split: doc.split)
    (simp add: frames_def new_id_def)

lemma frames_boot_read [frame_rules]:
  "frames boot (overview_locked H f)" "frames boot (require_nft H)" "frames boot require_no_pending"
  "frames boot (rollback_for H s m)" "frames boot (check_script H t)"
  unfolding overview_locked_def require_nft_def require_no_pending_def
    rollback_for_def check_script_def Let_def
  by (intro frame_rules)+

lemma frames_boot_rollback [frame_rules]:
  "frames boot (rollback_locked H p why)"
  unfolding rollback_locked_def by (intro frame_rules)+

lemma frames_boot_expire [frame_rules]:
  "frames boot (rollback H f)" "frames boot (expire H i now)" "frames boot (recover H)"
  unfolding rollback_def expire_def recover_def by (intro frame_rules)+

lemma frames_boot_timer: "frames boot (timer_turn H t)"
proof -
  have "frames boot (end_timer t)" "frames boot (retry_timer t)"
    by (simp_all add: frames_def end_timer_def retry_timer_def split: prod.split)
  then show ?thesis
    unfolding timer_turn_def by (cases t) (simp, intro frame_rules, auto)
qed

lemma frames_boot_submit:
  "timeout \<noteq> 0 \<Longrightarrow> frames boot (submit H P s ch timeout)"
  unfolding submit_def Let_def by (simp, intro frame_rules)+

lemma frames_boot_apply:
  assumes "timeout \<noteq> 0"
  shows "frames boot (apply_managed H P f timeout force)" and "frames boot (apply_raw H P f t ack timeout)"
  unfolding apply_managed_def apply_raw_def Let_def
  by (intro frame_rules frames_boot_submit[OF assms] frames_command; simp)+

lemma frames_boot_edit:
  "frames boot (update_settings new force)"
  "frames boot (upsert_rule H r)"
  "frames boot (remove_rule i)"
  "frames boot (set_entries n es)"
  "frames boot (add_entry n e)"
  "frames boot (remove_entry n v)"
  unfolding update_settings_def upsert_rule_def remove_rule_def set_entries_def add_entry_def
    remove_entry_def Let_def
  by (intro frame_rules)+

section \<open>The stored model stays well formed\<close>

definition wf_entries :: "set_entry list \<Rightarrow> bool" where
  "wf_entries es =
     (length es \<le> MAX_SET_ENTRIES \<and> distinct_keys evalue es
      \<and> list_all (\<lambda>e. entry_normalize e = Inr e) es)"

definition user_rule :: "rule \<Rightarrow> bool" where
  "user_rule r = (wf_rule r \<and> \<not> is_preset r \<and> rid r \<noteq> [])"

definition wf_model :: "model \<Rightarrow> bool" where
  "wf_model m =
     (settings_validate (msettings m) = Inr ()
      \<and> length (mrules m) \<le> MAX_RULES \<and> distinct_keys rid (mrules m)
      \<and> list_all user_rule (mrules m)
      \<and> wf_entries (allowlist (msets m)) \<and> wf_entries (blocklist (msets m)))"

definition wf_state_doc :: "state doc \<Rightarrow> bool" where
  "wf_state_doc d = (case d of Doc s \<Rightarrow> wf_model (smodel s) | _ \<Rightarrow> True)"

abbreviation wf_world :: "'k world \<Rightarrow> bool" where
  "wf_world w \<equiv> wf_state_doc (state_doc w)"

lemma wf_default_model: "wf_model default_model"
  by (simp add: wf_model_def default_model_def default_settings_def settings_validate_def
      wf_entries_def distinct_keys_def)

lemma wf_entries_get: "wf_model m \<Longrightarrow> wf_entries (get_set (msets m) n)"
  by (cases n) (auto simp: wf_model_def)

lemma wf_put_set:
  "wf_model m \<Longrightarrow> wf_entries es \<Longrightarrow> wf_model (m\<lparr>msets := put_set (msets m) n es\<rparr>)"
  by (cases n) (auto simp: wf_model_def)

lemma wf_with_set: "wf_model (smodel s) \<Longrightarrow> wf_entries es \<Longrightarrow> wf_model (smodel (with_set s n es))"
  by (simp add: with_set_def wf_put_set)

lemma wf_entries_filter: "wf_entries es \<Longrightarrow> wf_entries (filter p es)"
  unfolding wf_entries_def distinct_keys_def
  by (auto simp: list_all_iff distinct_map_filter intro: order.trans[OF length_filter_le])

lemma wf_entries_upsert:
  "wf_entries es \<Longrightarrow> entry_normalize e = Inr e \<Longrightarrow> length (upsert evalue es e) \<le> MAX_SET_ENTRIES \<Longrightarrow>
   wf_entries (upsert evalue es e)"
  using set_upsert[of evalue es e] by (auto simp: wf_entries_def distinct_upsert list_all_iff)

lemma foldl_upsert_props:
  assumes "distinct_keys evalue acc" "list_all (\<lambda>e. entry_normalize e = Inr e) acc"
    and "list_all (\<lambda>e. entry_normalize e = Inr e) es"
  shows "distinct_keys evalue (foldl (upsert evalue) acc es)
    \<and> list_all (\<lambda>e. entry_normalize e = Inr e) (foldl (upsert evalue) acc es)
    \<and> length (foldl (upsert evalue) acc es) \<le> length acc + length es"
  using assms
proof (induction es arbitrary: acc)
  case (Cons e es)
  have "list_all (\<lambda>e. entry_normalize e = Inr e) (upsert evalue acc e)"
    using Cons.prems set_upsert[of evalue acc e] by (auto simp: list_all_iff)
  with Cons.IH[of "upsert evalue acc e"] Cons.prems show ?case
    by (simp add: distinct_upsert length_upsert split: if_splits)
qed simp

lemma normalize_entries_wf:
  assumes "normalize_entries es = Inr es'" shows "wf_entries es'"
proof -
  from assms obtain ns where ns: "traverse (\<lambda>e. map_err (\<lambda>e. Invalid (Model e)) (entry_normalize e)) es = Inr ns"
    and es': "es' = foldl (upsert evalue) [] ns" and len: "length es \<le> MAX_SET_ENTRIES"
    by (auto simp: normalize_entries_def split: if_splits)
  from ns have "list_all (\<lambda>e. entry_normalize e = Inr e) ns"
    unfolding list_all_iff by (auto dest: traverse_all[OF _ entry_normalize_fixed] )
  with foldl_upsert_props[of "[]" ns] traverse_length[OF ns] len es' show ?thesis
    by (simp add: wf_entries_def distinct_keys_def)
qed

text \<open>The ids \<open>new_id\<close> makes are ids \<open>normalize\<close> accepts.\<close>

lemma hex2_chars: "c \<in> set (hex2 b) \<Longrightarrow> is_alnum c"
  unfolding hex2_def using to_base_digits[of 16] by (force intro: digit_char_alnum)

lemma length_hex2 [simp]: "length (hex2 b) = 2"
  by (simp add: hex2_def)

lemma length_concat_hex2: "length (concat (map hex2 bs)) = 2 * length bs"
  by (induction bs) auto

definition generated_id :: "string \<Rightarrow> bool" where
  "generated_id i = (rid_ok i \<and> i \<noteq> [])"

lemma new_id_ok:
  assumes "list_all rule_char t" "byte_len t \<le> 16"
  shows "generated_id (t @ ''-'' @ concat (map hex2 (take 4 ds)))"
proof -
  have alnum: "is_alnum c" if "c \<in> set (concat (map hex2 (take 4 ds)))" for c
    using that by (auto dest: hex2_chars)
  then have "byte_len (concat (map hex2 (take 4 ds))) = length (concat (map hex2 (take 4 ds)))"
    by (intro byte_len_ascii) (blast dest: alnum_ascii)
  also have "\<dots> \<le> 8" by (simp add: length_concat_hex2 del: length_concat)
  finally show ?thesis
    using assms alnum by (auto simp: generated_id_def rid_ok_def MAX_ID_def list_all_iff rule_char_def)
qed

lemma wf_rule_rid: "wf_rule r \<Longrightarrow> rid_ok i \<Longrightarrow> wf_rule (r\<lparr>rid := i\<rparr>)"
  by (auto simp: wf_rule_def split: sum.splits)

lemma wf_model_upsert:
  assumes "wf_model m" "user_rule r" "has_key rid (mrules m) (rid r) \<or> length (mrules m) < MAX_RULES"
  shows "wf_model (m\<lparr>mrules := upsert rid (mrules m) r\<rparr>)"
  using assms set_upsert[of rid "mrules m" r]
  by (auto simp: wf_model_def distinct_upsert length_upsert list_all_iff)

lemma wf_model_remove: "wf_model m \<Longrightarrow> wf_model (m\<lparr>mrules := remove_key rid (mrules m) i\<rparr>)"
  unfolding wf_model_def
  by (auto simp: distinct_remove[unfolded remove_key_def] list_all_iff remove_key_def
      intro: order.trans[OF length_filter_le])

subsection \<open>Every operation keeps it\<close>

lemma keeps_load_state [keep_rules]: "keeps wf_world load_state (\<lambda>s. wf_model (smodel s))"
  by (auto simp: keeps_def load_state_def io_simps wf_state_doc_def default_state_def
      wf_default_model effect_def Let_def split: doc.splits prod.splits)

lemma keeps_save_state [keep_rules]: "wf_model (smodel s) \<Longrightarrow> keeps wf_world (save_state s) (\<lambda>_. True)"
  by (auto simp: keeps_def save_state_def effect_def Let_def wf_state_doc_def split: prod.splits)

lemma keeps_new_id [keep_rules]:
  "list_all rule_char t \<Longrightarrow> byte_len t \<le> 16 \<Longrightarrow> keeps wf_world (new_id H t) generated_id"
  using new_id_ok[of t] by (auto simp: keeps_def new_id_def)

lemma keeps_asks_True: "keeps P (asks g) (\<lambda>_. True)"
  by (simp add: keeps_def asks_def)

lemma frames_state_doc [frame_rules]:
  "frames state_doc load_pending" "frames state_doc (save_pending p)" "frames state_doc clear_pending"
  "frames state_doc (apply_script H t)" "frames state_doc (arm i d)" "frames state_doc (systemctl H args)"
  "frames state_doc (command run err)"
  unfolding load_pending_def save_pending_def clear_pending_def apply_script_def arm_def systemctl_def
  by (intro frame_rules frames_effect frames_command; simp)+

lemma frames_state_doc_pure [frame_rules]:
  "frames state_doc (new_id H t)" "frames state_doc (end_timer u)" "frames state_doc (retry_timer u)"
  by (simp_all add: frames_def new_id_def end_timer_def retry_timer_def split: prod.split)

lemma frames_state_doc_ruleset [frame_rules]:
  "frames state_doc (save_ruleset H P t)" "frames state_doc (clear_ruleset H P)"
  unfolding save_ruleset_def clear_ruleset_def
  by (intro frame_rules frames_effect; simp)+

lemma frames_state_doc2 [frame_rules]:
  "frames state_doc (require_nft H)" "frames state_doc require_no_pending"
  "frames state_doc (rollback_for H s m)" "frames state_doc (check_script H t)"
  unfolding require_nft_def require_no_pending_def rollback_for_def check_script_def
  by (intro frame_rules)+

lemmas keeps_state_frame = keeps_frame[where g = state_doc and P = wf_state_doc]

lemma keeps_update_settings: "keeps wf_world (update_settings new force) (\<lambda>_. True)"
  unfolding update_settings_def Let_def
  by (rule keeps_seq[OF keeps_pure(4)], rule keeps_bind[OF keeps_load_state],
      rule keeps_seq[OF keeps_pure(3)], rule keeps_seq[OF keeps_save_state])
    (auto simp: wf_model_def intro: keep_rules)

lemma keeps_upsert_rule: "keeps wf_world (upsert_rule H r) (\<lambda>_. True)"
  unfolding upsert_rule_def Let_def
proof (rule keeps_seq[OF keeps_pure(3)], rule keeps_bind[OF keeps_pure(4)], rule keeps_bind[OF keeps_load_state])
  fix n :: rule and s :: state
  assume p: "\<not> is_preset r" and "map_err (\<lambda>e. Invalid (Model e)) (rule_normalize r) = Inr n"
    and s: "wf_model (smodel s)"
  then have norm: "rule_normalize r = Inr n" by simp
  then have "wf_rule n" by (rule rule_normalize_wf)
  moreover have "\<not> is_preset n" using norm p
    by (auto simp: rule_normalize_def is_preset_def starts_with_iff split: if_splits)
  ultimately have k: "keeps wf_world (if rid n = [] then bind (new_id H ''r'') (\<lambda>i. ret (n\<lparr>rid := i\<rparr>)) else ret n) user_rule"
    by (auto intro!: keep_rules simp: user_rule_def generated_id_def wf_rule_rid is_preset_def
        rule_char_def is_alnum_def is_lower_def)
  show "keeps wf_world
     (bind (if rid n = [] then bind (new_id H ''r'') (\<lambda>i. ret (n\<lparr>rid := i\<rparr>)) else ret n)
       (\<lambda>r. seq (fail_if (\<not> has_key rid (mrules (smodel s)) (rid r) \<and> MAX_RULES \<le> length (mrules (smodel s)))
               (Invalid TooManyRules))
          (seq (save_state (s\<lparr>smodel := smodel s\<lparr>mrules := upsert rid (mrules (smodel s)) r\<rparr>\<rparr>)) (ret r))))
     (\<lambda>_. True)"
  proof (rule keeps_bind[OF k])
    fix u assume "user_rule u"
    with s show "keeps wf_world
      (seq (fail_if (\<not> has_key rid (mrules (smodel s)) (rid u) \<and> MAX_RULES \<le> length (mrules (smodel s)))
               (Invalid TooManyRules))
          (seq (save_state (s\<lparr>smodel := smodel s\<lparr>mrules := upsert rid (mrules (smodel s)) u\<rparr>\<rparr>)) (ret u)))
      (\<lambda>_. True)"
      by (intro keeps_seq[OF keeps_pure(3)] keeps_seq[OF keeps_save_state] keeps_pure)
        (auto intro: wf_model_upsert)
  qed
qed

lemma keeps_remove_rule: "keeps wf_world (remove_rule i) (\<lambda>_. True)"
  unfolding remove_rule_def Let_def do_if_def
  by (rule keeps_bind[OF keeps_load_state]) (auto intro!: keep_rules wf_model_remove)

lemma keeps_set_entries: "keeps wf_world (set_entries n es) (\<lambda>_. True)"
  unfolding set_entries_def
  by (rule keeps_bind[OF keeps_pure(4)], rule keeps_bind[OF keeps_load_state])
    (auto intro!: keep_rules wf_with_set intro: normalize_entries_wf)

lemma keeps_add_entry: "keeps wf_world (add_entry n e) (\<lambda>_. True)"
  unfolding add_entry_def Let_def
  by (rule keeps_bind[OF keeps_pure(4)], rule keeps_bind[OF keeps_load_state], rule keeps_seq[OF keeps_pure(3)])
    (auto intro!: keep_rules wf_with_set wf_entries_upsert wf_entries_get dest: entry_normalize_fixed)

lemma keeps_remove_entry: "keeps wf_world (remove_entry n v) (\<lambda>_. True)"
  unfolding remove_entry_def Let_def remove_key_def do_if_def
  by (rule keeps_bind[OF keeps_pure(4)], rule keeps_bind[OF keeps_load_state])
    (auto intro!: keep_rules wf_with_set wf_entries_filter wf_entries_get)

lemma wf_drop_expired: "wf_model (smodel s) \<Longrightarrow> wf_model (smodel (drop_expired now s))"
  by (simp add: drop_expired_def with_set_def wf_model_def wf_entries_filter)

lemma keeps_commit_parts [keep_rules]:
  "wf_model (smodel s) \<Longrightarrow> keeps wf_world (commit_parts H P s m table fp script) (\<lambda>_. True)"
  unfolding commit_parts_def
  by (rule keeps_bind[OF keeps_asks_True], rule keeps_seq[OF keeps_save_state])
    (auto intro: keeps_state_frame frame_rules)

lemma keeps_submit [keep_rules]:
  assumes s: "wf_model (smodel s)" shows "keeps wf_world (submit H P s ch timeout) (\<lambda>_. True)"
proof (cases "timeout = 0")
  case True
  then show ?thesis
    unfolding submit_def
    by (auto intro!: keeps_seq[OF keeps_state_frame] frame_rules keeps_commit_parts s)
next
  case False
  then have "frames state_doc (submit H P s ch timeout)"
    unfolding submit_def Let_def by (simp, intro frame_rules)+
  then show ?thesis by (rule keeps_state_frame)
qed

lemma keeps_overview [keep_rules]: "keeps wf_world (overview_locked H f) (\<lambda>_. True)"
  unfolding overview_locked_def
  by (rule keeps_bind[OF keeps_load_state], rule keeps_bind[OF keeps_state_frame], rule frames_state_doc,
      rule keeps_asks_True)

lemma keeps_fw_render: "keeps wf_world (fw_render f) (\<lambda>_. True)"
  unfolding fw_render_def by (rule keeps_bind[OF keeps_load_state], rule keeps_asks_True)

lemma keeps_rollback_locked [keep_rules]: "keeps wf_world (rollback_locked H p why) (\<lambda>_. True)"
proof -
  have ig: "keeps wf_world (ignore m) (\<lambda>_. True)" if "keeps wf_world m (\<lambda>_. True)" for m :: "('k, unit) fw_io"
    using keeps_world[OF that] by (simp add: keeps_def ignore_def)
  show ?thesis
    unfolding rollback_locked_def
    by (intro keeps_seq[OF keeps_state_frame[OF frames_state_doc(4)]]
        keeps_seq[OF keeps_state_frame[OF frames_state_doc(3)]]
        keeps_bind[OF keeps_load_state] ig keeps_save_state) simp
qed

lemma keeps_apply_managed: "keeps wf_world (apply_managed H P f timeout force) (\<lambda>_. True)"
  unfolding apply_managed_def Let_def
  by (intro keeps_seq[OF keeps_pure(4)] keeps_seq[OF keeps_state_frame[OF frames_state_doc2(1)]]
      keeps_seq[OF keeps_state_frame[OF frames_state_doc2(2)]] keeps_bind[OF keeps_load_state]
      keeps_bind[OF keeps_asks_True] keeps_seq[OF keeps_pure(3)]
      keeps_bind[OF keeps_state_frame[OF frames_state_doc2(3)]]
      keeps_seq[OF keeps_state_frame[OF frames_state_doc2(4)]]
      keeps_seq[OF keeps_state_frame[OF frames_do_if[OF frames_state_doc(7)]]]
      keeps_seq[OF keeps_save_state] keeps_seq[OF keeps_submit] keeps_overview wf_drop_expired)

lemma keeps_apply_raw: "keeps wf_world (apply_raw H P f t ack timeout) (\<lambda>_. True)"
  unfolding apply_raw_def Let_def
  by (intro keeps_seq[OF keeps_pure(4)] keeps_seq[OF keeps_state_frame[OF frames_state_doc2(1)]]
      keeps_seq[OF keeps_state_frame[OF frames_state_doc2(2)]] keeps_bind[OF keeps_load_state]
      keeps_seq[OF keeps_pure(3)]
      keeps_bind[OF keeps_state_frame[OF frames_state_doc2(3)]]
      keeps_seq[OF keeps_save_state] keeps_seq[OF keeps_submit] keeps_overview) simp_all

lemmas keeps_pending = keeps_bind[OF keeps_state_frame[OF frames_state_doc(1)]]

lemma keeps_confirm: "keeps wf_world (confirm H P i f) (\<lambda>_. True)"
  unfolding confirm_def
  by (intro keeps_pending keeps_option keeps_if keeps_pure(2) keeps_bind[OF keeps_asks_True]
      keeps_seq[OF keeps_rollback_locked] keeps_bind[OF keeps_load_state]
      keeps_seq[OF keeps_commit_parts] keeps_seq[OF keeps_state_frame[OF frames_state_doc(3)]]
      keeps_overview) simp_all

lemma keeps_rollback: "keeps wf_world (rollback H f) (\<lambda>_. True)"
  unfolding rollback_def
  by (intro keeps_pending keeps_option keeps_pure(2) keeps_seq[OF keeps_rollback_locked] keeps_overview)

lemma keeps_expire: "keeps wf_world (expire H i now) (\<lambda>_. True)"
  unfolding expire_def
  by (intro keeps_pending keeps_option keeps_if keeps_pure(1) keeps_seq[OF keeps_rollback_locked]) simp_all

lemma keeps_caught: "keeps P m Q \<Longrightarrow> keeps P (catch m) (\<lambda>_. True)"
  using keeps_world[of P m Q] by (simp add: keeps_def catch_run)

lemma keeps_timer_turn: "keeps wf_world (timer_turn H t) (\<lambda>_. True)"
  unfolding timer_turn_def do_if_def
  by (cases t) (auto intro!: keeps_bind[OF keeps_asks_True] keeps_pending keeps_if keeps_sum keeps_pure
      keeps_bind[OF keeps_caught[OF keeps_expire]] keeps_state_frame[OF frames_state_doc_pure(2)]
      keeps_state_frame[OF frames_state_doc_pure(3)] split: sum.split)

lemma keeps_disable: "keeps wf_world (disable H P f) (\<lambda>_. True)"
  unfolding disable_def
  by (intro keeps_seq[OF keeps_state_frame[OF frames_state_doc2(2)]] keeps_bind[OF keeps_load_state]
      keeps_bind[OF keeps_asks_True]
      keeps_seq[OF keeps_state_frame[OF frames_do_if[OF frames_state_doc(4)]]]
      keeps_seq[OF keeps_state_frame[OF frames_state_doc_ruleset(2)]]
      keeps_seq[OF keeps_save_state] keeps_overview) simp

lemma keeps_recover: "keeps wf_world (recover H) (\<lambda>_. True)"
  unfolding recover_def
  by (intro keeps_pending keeps_option keeps_if keeps_pure(1) keeps_bind[OF keeps_asks_True]
      keeps_bind[OF keeps_load_state] keeps_ignore[OF keeps_rollback_locked]
      keeps_state_frame[OF frames_state_doc(5)]
      keeps_state_frame[OF frames_ignore[OF frames_state_doc(4)]]) simp_all

end
