(* ===== verification/FirewallRuns.thy ===== *)
theory FirewallRuns
  imports FirewallInv
begin

text \<open>
  The firewall manager as a machine: its operations, the passing of time, faults and power
  cuts, and what the host does by itself. Its runs keep the stored model well formed; and
  a run in which nobody confirms keeps a way back to the table it started from.
\<close>

section \<open>The machine\<close>

text \<open>
  \<open>Restart os\<close> is a new daemon process (its timer threads are gone, its effects will have
  the outcomes \<open>os\<close>) that recovers; \<open>Host k\<close> is another program changing the host.
\<close>

datatype 'k fw_op =
    UpdateSettings settings bool
  | UpsertRule rule
  | RemoveRule string
  | SetEntries set_name "set_entry list"
  | AddEntry set_name set_entry
  | RemoveEntry set_name string
  | Apply facts nat bool
  | ApplyRaw facts string bool nat
  | Confirm string facts
  | Rollback facts
  | Disable facts
  | TimerTurn "string \<times> int \<times> nat"
  | Wait nat
  | Faults "outcome list"
  | Restart "outcome list"
  | Host 'k

fun exec_op :: "'k host_ops \<Rightarrow> paths \<Rightarrow> 'k world \<Rightarrow> 'k fw_op \<Rightarrow> 'k world" where
  "exec_op H P w (UpdateSettings new force) = snd (update_settings new force w)"
| "exec_op H P w (UpsertRule r) = snd (upsert_rule H r w)"
| "exec_op H P w (RemoveRule i) = snd (remove_rule i w)"
| "exec_op H P w (SetEntries n es) = snd (set_entries n es w)"
| "exec_op H P w (AddEntry n e) = snd (add_entry n e w)"
| "exec_op H P w (RemoveEntry n v) = snd (remove_entry n v w)"
| "exec_op H P w (Apply f timeout force) = snd (apply_managed H P f timeout force w)"
| "exec_op H P w (ApplyRaw f t ack timeout) = snd (apply_raw H P f t ack timeout w)"
| "exec_op H P w (Confirm i f) = snd (confirm H P i f w)"
| "exec_op H P w (Rollback f) = snd (rollback H f w)"
| "exec_op H P w (Disable f) = snd (disable H P f w)"
| "exec_op H P w (TimerTurn t) = (if t \<in> set (timers w) then snd (timer_turn H t w) else w)"
| "exec_op H P w (Wait n) = w\<lparr>clock := clock w + int n\<rparr>"
| "exec_op H P w (Faults os) = w\<lparr>outcomes := os\<rparr>"
| "exec_op H P w (Restart os) = snd (recover H (w\<lparr>timers := [], outcomes := os\<rparr>))"
| "exec_op H P w (Host k) = w\<lparr>kernel := k\<rparr>"

text \<open>The operations that neither make a change permanent nor act behind the manager's back.\<close>

fun unconfirmed :: "'k fw_op \<Rightarrow> bool" where
  "unconfirmed (Apply f timeout force) \<longleftrightarrow> timeout \<noteq> 0"
| "unconfirmed (ApplyRaw f t ack timeout) \<longleftrightarrow> timeout \<noteq> 0"
| "unconfirmed (Confirm i f) \<longleftrightarrow> False"
| "unconfirmed (Disable f) \<longleftrightarrow> False"
| "unconfirmed (Host k) \<longleftrightarrow> False"
| "unconfirmed _ \<longleftrightarrow> True"

section \<open>The stored model\<close>

lemma exec_wf: "wf_world w \<Longrightarrow> wf_world (exec_op H P w e)"
proof (cases e)
  case (Restart os)
  assume "wf_world w"
  then have "wf_world (w\<lparr>timers := [], outcomes := os\<rparr>)" by simp
  with Restart show ?thesis by (simp add: keeps_world[OF keeps_recover])
qed (simp_all add: keeps_world[OF keeps_update_settings] keeps_world[OF keeps_upsert_rule]
    keeps_world[OF keeps_remove_rule] keeps_world[OF keeps_set_entries]
    keeps_world[OF keeps_add_entry] keeps_world[OF keeps_remove_entry]
    keeps_world[OF keeps_apply_managed] keeps_world[OF keeps_apply_raw]
    keeps_world[OF keeps_confirm] keeps_world[OF keeps_rollback]
    keeps_world[OF keeps_disable] keeps_world[OF keeps_timer_turn])

interpretation fw: invariant_steps "exec_op H P" wf_world
  for H :: "'k host_ops" and P
  by unfold_locales (rule exec_wf)

section \<open>The boot files\<close>

lemma unconfirmed_boot: "unconfirmed e \<Longrightarrow> boot (exec_op H P w e) = boot w"
proof (cases e)
  case (Restart os)
  then show ?thesis using framesD[OF frames_boot_expire(3), of H "w\<lparr>timers := [], outcomes := os\<rparr>"]
    by simp
qed (simp_all add: frames_boot_apply(1)[THEN framesD] frames_boot_apply(2)[THEN framesD]
    frames_boot_expire(1)[THEN framesD] frames_boot_timer[THEN framesD] frames_boot_edit[THEN framesD])

interpretation fw_boot: guarded_steps "exec_op H P" unconfirmed "\<lambda>w. boot w = b"
  for H :: "'k host_ops" and P b
  by unfold_locales (simp add: unconfirmed_boot)

section \<open>The way back\<close>

text \<open>\<open>restores H script v\<close>: whenever the script loads, the managed table reads \<open>v\<close> afterwards.\<close>

definition restores :: "'k host_ops \<Rightarrow> string \<Rightarrow> string option \<Rightarrow> bool" where
  "restores H script v =
     (\<forall>k k'. nft_apply H k script = (Inr (), k') \<longrightarrow> nft_list_table H k' = Inr v)"

text \<open>
  What \<open>nft\<close> documents: \<open>nft -f\<close> is one transaction, a listing can be loaded again,
  deleting the table removes it; and switching ufw or firewalld off leaves it alone.
\<close>

definition nft_documented :: "'k host_ops \<Rightarrow> bool" where
  "nft_documented H =
     ((\<forall>k script. fst (nft_apply H k script) \<noteq> Inr () \<longrightarrow> snd (nft_apply H k script) = k)
      \<and> (\<forall>k t. nft_list_table H k = Inr (Some t) \<longrightarrow> restores H (replace_script t) (Some t))
      \<and> restores H remove_script None
      \<and> (\<forall>k d v. nft_list_ruleset H k = Inr d \<longrightarrow> nft_list_table H k = Inr v \<longrightarrow>
           restores H (''flush ruleset'' @ NL @ d @ NL) v)
      \<and> (\<forall>k cs. nft_list_table H (snd (disable_conflicts H k cs)) = nft_list_table H k))"

definition home :: "'k host_ops \<Rightarrow> string option \<Rightarrow> 'k world \<Rightarrow> bool" where
  "home H v w = (case pending_doc w of
       Doc p \<Rightarrow> restores H (prollback p) v
     | _ \<Rightarrow> nft_list_table H (kernel w) = Inr v)"

definition at_rest :: "'k host_ops \<Rightarrow> string option \<Rightarrow> 'k world \<Rightarrow> bool" where
  "at_rest H v w \<longleftrightarrow> (\<forall>p. pending_doc w \<noteq> Doc p) \<and> nft_list_table H (kernel w) = Inr v"

lemma at_rest_home: "at_rest H v w \<Longrightarrow> home H v w"
  by (auto simp: at_rest_def home_def split: doc.split)

definition live :: "'k world \<Rightarrow> 'k \<times> pending doc" where
  "live w = (kernel w, pending_doc w)"

lemma live_simps [simp]:
  "live (w\<lparr>outcomes := os\<rparr>) = live w" "live (w\<lparr>state_doc := d\<rparr>) = live w"
  "live (w\<lparr>id_counter := n\<rparr>) = live w" "live (w\<lparr>timers := ts\<rparr>) = live w"
  "live (w\<lparr>clock := t\<rparr>) = live w"
  by (simp_all add: live_def)

lemma home_live: "live w1 = live w \<Longrightarrow> home H v w1 = home H v w"
  by (auto simp: live_def home_def split: doc.splits)

lemma at_rest_live: "live w1 = live w \<Longrightarrow> at_rest H v w1 = at_rest H v w"
  by (simp add: live_def at_rest_def)

lemma frames_live [frame_rules]:
  "frames live load_state" "frames live (save_state s)" "frames live load_pending"
  "frames live (new_id H t)" "frames live (arm i d)"
  unfolding load_state_def save_state_def load_pending_def arm_def
  by (auto intro!: frame_rules frames_effect split: doc.split)
    (simp add: frames_def new_id_def)

lemma frames_live_read [frame_rules]:
  "frames live (overview_locked H f)" "frames live (require_nft H)" "frames live require_no_pending"
  "frames live (rollback_for H s m)" "frames live (check_script H t)"
  unfolding overview_locked_def require_nft_def require_no_pending_def
    rollback_for_def check_script_def Let_def
  by (intro frame_rules)+

lemma triple_live:
  assumes "frames live m" "\<And>w. P w \<Longrightarrow> E w" "\<And>w w1. live w1 = live w \<Longrightarrow> P w1 = P w"
  shows "triple P m (\<lambda>_. P) E"
  by (rule triple_frame[OF assms(1,2)]) (blast dest: assms(3))+

lemma rollback_for_restores:
  assumes "nft_documented H" "nft_list_table H (kernel w) = Inr v"
    and "rollback_for H s m w = (Inr script, w1)"
  shows "restores H script v"
  using assms
  by (auto simp: rollback_for_def nft_documented_def bind_Inr pure_Inr split: if_splits sum.splits option.splits)

lemma triple_rollback_for:
  assumes "nft_documented H"
  shows "triple (at_rest H v) (rollback_for H s m) (\<lambda>script w. at_rest H v w \<and> restores H script v) (home H v)"
  unfolding triple_def
proof (intro allI impI)
  fix w assume a: "at_rest H v w"
  have "live (snd (rollback_for H s m w)) = live w" by (rule framesD[OF frames_live_read(4)])
  from at_rest_live[OF this] a have rest: "at_rest H v (snd (rollback_for H s m w))" by blast
  show "case fst (rollback_for H s m w) of Inl _ \<Rightarrow> home H v (snd (rollback_for H s m w))
      | Inr script \<Rightarrow> at_rest H v (snd (rollback_for H s m w)) \<and> restores H script v"
  proof (cases "fst (rollback_for H s m w)")
    case (Inl e)
    then show ?thesis using rest by (simp add: at_rest_home)
  next
    case (Inr script)
    then have "restores H script v"
      using rollback_for_restores[OF assms, of w v s m script "snd (rollback_for H s m w)"] a
      by (metis at_rest_def prod.collapse)
    with Inr rest show ?thesis by simp
  qed
qed

lemma apply_script_fails:
  assumes "nft_documented H" "fst (apply_script H s w) = Inl e"
  shows "live (snd (apply_script H s w)) = live w"
proof -
  have atomic: "snd (nft_apply H (kernel w) s) = kernel w" if "fst (nft_apply H (kernel w) s) \<noteq> Inr ()"
    using assms(1) that by (simp add: nft_documented_def)
  show ?thesis using assms(2) atomic
    by (cases "fst (nft_apply H (kernel w) s)")
      (auto simp: apply_script_def command_def live_def Let_def split: prod.splits)
qed

lemma apply_script_works:
  assumes "fst (apply_script H s w) = Inr u"
  shows "pending_doc (snd (apply_script H s w)) = pending_doc w"
    and "restores H s v \<Longrightarrow> nft_list_table H (kernel (snd (apply_script H s w))) = Inr v"
  using assms by (auto simp: apply_script_def command_def restores_def Let_def split: prod.splits)

definition protected :: "'k host_ops \<Rightarrow> string option \<Rightarrow> 'k world \<Rightarrow> bool" where
  "protected H v w \<longleftrightarrow> (\<exists>p. pending_doc w = Doc p \<and> restores H (prollback p) v)"

lemma protected_home: "protected H v w \<Longrightarrow> home H v w"
  by (auto simp: protected_def home_def)

lemma protected_live: "live w1 = live w \<Longrightarrow> protected H v w1 = protected H v w"
  by (simp add: live_def protected_def)

lemma triple_save_pending:
  assumes "restores H (prollback p) v"
  shows "triple (at_rest H v) (save_pending p)
           (\<lambda>_ w. protected H v w \<and> nft_list_table H (kernel w) = Inr v) (home H v)"
  using assms
  by (auto simp: triple_def save_pending_def effect_def Let_def protected_def at_rest_def home_def
      split: prod.splits doc.splits)

text \<open>The change itself: whatever fails, the kernel is untouched or the way back is stored.\<close>

lemma triple_apply_protected:
  assumes "nft_documented H"
  shows "triple (\<lambda>w. protected H v w \<and> nft_list_table H (kernel w) = Inr v) (apply_script H s)
           (\<lambda>_. protected H v) (\<lambda>w. protected H v w \<and> nft_list_table H (kernel w) = Inr v)"
  unfolding triple_def
proof (intro allI impI)
  fix w assume w: "protected H v w \<and> nft_list_table H (kernel w) = Inr v"
  show "case fst (apply_script H s w) of
      Inl _ \<Rightarrow> protected H v (snd (apply_script H s w)) \<and> nft_list_table H (kernel (snd (apply_script H s w))) = Inr v
    | Inr x \<Rightarrow> protected H v (snd (apply_script H s w))"
  proof (cases "fst (apply_script H s w)")
    case (Inl e)
    from apply_script_fails[OF assms this] w Inl show ?thesis by (simp add: live_def protected_def)
  next
    case (Inr u)
    from apply_script_works(1)[OF this] w Inr show ?thesis by (simp add: protected_def)
  qed
qed

lemma triple_clear_pending:
  "triple (\<lambda>w. protected H v w \<and> nft_list_table H (kernel w) = Inr v) clear_pending (\<lambda>_. home H v) (home H v)"
  by (auto simp: triple_def clear_pending_def effect_def ignore_def Let_def protected_def home_def
      split: prod.splits)

lemma triple_arm: "triple (protected H v) (arm i d) (\<lambda>_. home H v) (home H v)"
proof -
  have "triple (protected H v) (arm i d) (\<lambda>_. protected H v) (protected H v)"
    by (rule triple_live[OF frames_live(5)]) (assumption, rule protected_live)
  then show ?thesis by (rule triple_conseq) (assumption, erule protected_home, erule protected_home)
qed

lemma triple_home:
  "frames live m \<Longrightarrow> triple (home H v) m (\<lambda>_. home H v) (home H v)"
  by (erule triple_live) (assumption, erule home_live)

lemma triple_rest:
  "frames live m \<Longrightarrow> triple (at_rest H v) m (\<lambda>_. at_rest H v) (home H v)"
  by (erule triple_live) (erule at_rest_home, erule at_rest_live)

lemma triple_submit:
  assumes H: "nft_documented H" and r: "restores H (ch_rollback ch) v" and t: "timeout \<noteq> 0"
  shows "triple (at_rest H v) (submit H P s ch timeout) (\<lambda>_. home H v) (home H v)"
proof -
  have after: "triple (\<lambda>w. case x of Inl _ \<Rightarrow> protected H v w \<and> nft_list_table H (kernel w) = Inr v | Inr _ \<Rightarrow> protected H v w)
      (case x of Inl e \<Rightarrow> seq clear_pending (throw e) | Inr _ \<Rightarrow> arm i d) (\<lambda>_. home H v) (home H v)"
    for x :: "mgr_error module_error + unit" and i d
    by (cases x) (auto intro: triple_seq[OF triple_clear_pending] triple_pure triple_arm)
  show ?thesis
    unfolding submit_def Let_def using t
    by (simp, intro triple_seq[OF triple_rest[OF frames_live_read(5)]] triple_bind[OF triple_rest[OF frames_pure(3)]]
        triple_bind[OF triple_rest[OF frames_live(4)]] triple_seq[OF triple_save_pending]
        triple_bind[OF triple_catch[OF triple_apply_protected[OF H]]] after) (simp add: r)
qed

lemma triple_no_pending: "triple (home H v) require_no_pending (\<lambda>_. at_rest H v) (home H v)"
  by (auto simp: triple_def require_no_pending_def load_pending_def io_simps at_rest_def home_def
      split: doc.splits)



lemma triple_rest_and:
  "frames live m \<Longrightarrow>
   triple (\<lambda>w. at_rest H v w \<and> r) m (\<lambda>_ w. at_rest H v w \<and> r) (home H v)"
  by (cases r) (simp_all add: triple_rest triple_def[of "\<lambda>_. False"])

lemma triple_submit_change:
  assumes "nft_documented H" "timeout \<noteq> 0"
  shows "triple (\<lambda>w. at_rest H v w \<and> restores H r v)
      (submit H P s \<lparr>ch_mode = m, ch_table = tb, ch_script = sc, ch_fingerprint = fp, ch_rollback = r\<rparr> timeout)
      (\<lambda>_. home H v) (home H v)"
  using triple_submit[OF assms(1) _ assms(2), of "\<lparr>ch_mode = m, ch_table = tb, ch_script = sc, ch_fingerprint = fp, ch_rollback = r\<rparr>" v P s]
  by (cases "restores H r v") (simp_all add: triple_def[of "\<lambda>_. False"])

lemma triple_disable_conflicts:
  assumes "nft_documented H"
  shows "triple (\<lambda>w. at_rest H v w \<and> r) (command (\<lambda>k. disable_conflicts H k cs) CommandFailed)
      (\<lambda>_ w. at_rest H v w \<and> r) (home H v)"
proof -
  have "nft_list_table H (snd (disable_conflicts H k cs)) = nft_list_table H k" for k
    using assms by (simp add: nft_documented_def)
  then show ?thesis
    by (auto simp: triple_def command_def at_rest_def home_def Let_def split: prod.splits sum.splits doc.splits)
      (metis snd_conv)+
qed

lemma triple_apply_managed:
  assumes H: "nft_documented H" and t: "timeout \<noteq> 0"
  shows "triple (home H v) (apply_managed H P f timeout force) (\<lambda>_. home H v) (home H v)"
  unfolding apply_managed_def Let_def
  by (intro triple_seq[OF triple_home[OF frames_pure(4)]] triple_seq[OF triple_home[OF frames_live_read(2)]]
      triple_seq[OF triple_no_pending] triple_bind[OF triple_rest[OF frames_live(1)]]
      triple_bind[OF triple_rest[OF frames_pure(3)]] triple_seq[OF triple_rest[OF frames_pure(5)]]
      triple_bind[OF triple_rollback_for[OF H]] triple_seq[OF triple_rest_and[OF frames_live_read(5)]]
      triple_seq[OF triple_do_if[OF triple_disable_conflicts[OF H]]] triple_seq[OF triple_rest_and[OF frames_live(2)]]
      triple_seq[OF triple_submit_change[OF H t]] triple_home[OF frames_live_read(1)])

lemma triple_apply_raw:
  assumes H: "nft_documented H" and t: "timeout \<noteq> 0"
  shows "triple (home H v) (apply_raw H P f text ack timeout) (\<lambda>_. home H v) (home H v)"
  unfolding apply_raw_def Let_def
  by (intro triple_seq[OF triple_home[OF frames_pure(4)]] triple_seq[OF triple_home[OF frames_pure(5)]]
      triple_seq[OF triple_home[OF frames_live_read(2)]]
      triple_seq[OF triple_no_pending] triple_bind[OF triple_rest[OF frames_live(1)]]
      triple_bind[OF triple_rollback_for[OF H]] triple_seq[OF triple_rest_and[OF frames_live(2)]]
      triple_seq[OF triple_submit_change[OF H t]] triple_home[OF frames_live_read(1)])

text \<open>Loading the way back.\<close>

lemma frames_note:
  "frames kernel (bind load_state (\<lambda>s. ignore (save_state (g s))))"
  "frames pending_doc (bind load_state (\<lambda>s. ignore (save_state (g s))))"
  unfolding load_state_def save_state_def
  by (intro frame_rules frames_effect; auto intro!: frame_rules frames_effect split: doc.split)+

lemma clear_pending_doc: "pending_doc (snd (clear_pending w)) \<in> {pending_doc w, Absent}"
  by (auto simp: clear_pending_def ignore_def effect_def Let_def split: prod.splits)

lemma frames_kernel_clear: "frames kernel clear_pending"
  unfolding clear_pending_def by (intro frame_rules frames_effect) simp_all

lemma rollback_locked_ok:
  assumes "apply_script H (prollback p) w = (Inr u, w1)"
  shows "pending_doc (snd (rollback_locked H p why w)) \<in> {pending_doc w1, Absent}"
    and "kernel (snd (rollback_locked H p why w)) = kernel w1"
proof -
  let ?note = "bind load_state (\<lambda>s. ignore (save_state (s\<lparr>last_error := change_message (pid p) why\<rparr>)))"
  have s: "snd (rollback_locked H p why w) = snd (?note (snd (clear_pending w1)))"
    using assms by (simp add: rollback_locked_def seq_def bind_def clear_pending_def ignore_def)
  show "pending_doc (snd (rollback_locked H p why w)) \<in> {pending_doc w1, Absent}"
    unfolding s framesD[OF frames_note(2)] by (rule clear_pending_doc)
  show "kernel (snd (rollback_locked H p why w)) = kernel w1"
    unfolding s framesD[OF frames_note(1)] by (rule framesD[OF frames_kernel_clear])
qed

lemma rollback_locked_fails:
  "apply_script H (prollback p) w = (Inl e, w1) \<Longrightarrow> rollback_locked H p why w = (Inl e, w1)"
  by (simp add: rollback_locked_def seq_def bind_def)

lemma rollback_locked_home:
  assumes "nft_documented H" "restores H (prollback p) v" "pending_doc w = Doc p"
  shows "home H v (snd (rollback_locked H p why w))"
proof -
  obtain r w1 where a: "apply_script H (prollback p) w = (r, w1)" by (cases "apply_script H (prollback p) w")
  show ?thesis
  proof (cases r)
    case (Inl e)
    then have "live w1 = live w" using apply_script_fails[OF assms(1), of "prollback p" w] a by simp
    with a Inl assms(2,3) show ?thesis by (simp add: rollback_locked_fails home_def live_def)
  next
    case (Inr x)
    have "nft_list_table H (kernel w1) = Inr v" "pending_doc w1 = Doc p"
      using apply_script_works[of H "prollback p" w] a Inr assms(2,3) by auto
    with rollback_locked_ok[of H p w x w1 why] a Inr assms(2) show ?thesis by (auto simp: home_def)
  qed
qed

lemma rollback_locked_restores:
  assumes "restores H (prollback p) v" "fst (rollback_locked H p why w) = Inr u"
  shows "nft_list_table H (kernel (snd (rollback_locked H p why w))) = Inr v"
proof -
  obtain r w1 where a: "apply_script H (prollback p) w = (r, w1)" by (cases "apply_script H (prollback p) w")
  with assms(2) obtain x where r: "r = Inr x" by (cases r) (simp_all add: rollback_locked_fails)
  with a apply_script_works(2)[of H "prollback p" w] assms(1) have "nft_list_table H (kernel w1) = Inr v" by simp
  with rollback_locked_ok(2)[of H p w x w1 why] a r show ?thesis by simp
qed

lemma triple_rollback_locked:
  "nft_documented H \<Longrightarrow>
   triple (\<lambda>w. pending_doc w = Doc p \<and> restores H (prollback p) v) (rollback_locked H p why)
     (\<lambda>_. home H v) (home H v)"
  using rollback_locked_home[of H p v] by (auto simp: triple_def split: sum.split)

lemma triple_pending:
  assumes "triple (at_rest H v) m (\<lambda>_. home H v) (home H v)"
    and "\<And>p. triple (\<lambda>w. pending_doc w = Doc p \<and> restores H (prollback p) v) (k p) (\<lambda>_. home H v) (home H v)"
  shows "triple (home H v) (bind load_pending (\<lambda>q. case q of None \<Rightarrow> m | Some p \<Rightarrow> k p)) (\<lambda>_. home H v) (home H v)"
  unfolding triple_def
proof (intro allI impI)
  fix w assume h: "home H v w"
  let ?op = "bind load_pending (\<lambda>q. case q of None \<Rightarrow> m | Some p \<Rightarrow> k p)"
  show "case fst (?op w) of Inl _ \<Rightarrow> home H v (snd (?op w)) | Inr x \<Rightarrow> home H v (snd (?op w))"
  proof (cases "\<exists>p. pending_doc w = Doc p")
    case True
    then obtain p where p: "pending_doc w = Doc p" by blast
    then have "?op w = k p w" by (simp add: load_pending_def io_simps)
    moreover have "pending_doc w = Doc p \<and> restores H (prollback p) v" using h p by (simp add: home_def)
    ultimately show ?thesis using assms(2)[of p] by (auto simp: triple_def)
  next
    case False
    then have "?op w = m w" by (simp add: load_pending_def io_simps split: doc.split)
    moreover have "at_rest H v w" using h False by (auto simp: home_def at_rest_def split: doc.splits)
    ultimately show ?thesis using assms(1) by (auto simp: triple_def)
  qed
qed

lemma triple_rest_home: "frames live m \<Longrightarrow> triple (at_rest H v) m (\<lambda>_. home H v) (home H v)"
  by (rule triple_conseq[OF triple_home]) (simp_all add: at_rest_home)

lemma triple_doc_home:
  "frames live m \<Longrightarrow>
   triple (\<lambda>w. pending_doc w = Doc p \<and> restores H (prollback p) v) m (\<lambda>_. home H v) (home H v)"
  by (rule triple_conseq[OF triple_home]) (simp_all add: home_def)

lemma triple_doc_asks:
  "triple (\<lambda>w. pending_doc w = Doc p \<and> r) (asks g) (\<lambda>_ w. pending_doc w = Doc p \<and> r) E"
  by (auto simp: triple_def io_defs)

lemma triple_throw: "triple (home H v) (throw e) Q (home H v)"
  by (simp add: triple_def io_defs)

lemma triple_if: "triple P m Q E \<Longrightarrow> triple P n Q E \<Longrightarrow> triple P (if c then m else n) Q E"
  by simp

lemma triple_rollback:
  assumes "nft_documented H"
  shows "triple (home H v) (rollback H f) (\<lambda>_. home H v) (home H v)"
  unfolding rollback_def
  by (intro triple_pending triple_rest_home[OF frames_pure(2)]
      triple_seq[OF triple_rollback_locked[OF assms]] triple_home[OF frames_live_read(1)])

lemma triple_expire:
  assumes "nft_documented H"
  shows "triple (home H v) (expire H i now) (\<lambda>_. home H v) (home H v)"
  unfolding expire_def
  by (intro triple_pending triple_rest_home[OF frames_pure(1)] triple_if triple_doc_home[OF frames_pure(1)]
      triple_seq[OF triple_rollback_locked[OF assms]] triple_home[OF frames_pure(1)])

lemma frames_live_timer: "frames live (end_timer t)" "frames live (retry_timer t)"
  by (simp_all add: frames_def end_timer_def retry_timer_def split: prod.split)

lemma triple_timer_turn:
  assumes "nft_documented H"
  shows "triple (home H v) (timer_turn H t) (\<lambda>_. home H v) (home H v)"
proof -
  obtain i d n where t: "t = (i, d, n)" by (cases t)
  have after: "triple (\<lambda>w. case r of Inl _ \<Rightarrow> home H v w | Inr _ \<Rightarrow> home H v w)
      (case r of Inl _ \<Rightarrow> retry_timer t | Inr _ \<Rightarrow> end_timer t) (\<lambda>_. home H v) (home H v)"
    for r :: "mgr_error module_error + bool"
    by (cases r) (simp_all add: triple_home frames_live_timer)
  show ?thesis
    unfolding t timer_turn_def split
    by (rule triple_bind[OF triple_home[OF frames_pure(3)]], unfold t[symmetric], rule triple_if,
        rule triple_home, intro frame_rules frames_live_timer,
        rule triple_bind[OF triple_catch[OF triple_expire[OF assms]] after])
qed

text \<open>
  \<open>recover\<close> only loads the boot ruleset when a managed firewall should be there and is
  not; \<open>steady\<close> excludes this case.
\<close>

definition steady :: "string option \<Rightarrow> 'k world \<Rightarrow> bool" where
  "steady v w \<longleftrightarrow> v \<noteq> None \<or> (case state_doc w of Doc s \<Rightarrow> smode s \<noteq> Managed | _ \<Rightarrow> True)"

lemma load_state_steady:
  "steady v w \<Longrightarrow> load_state w = (Inr s, w1) \<Longrightarrow> v \<noteq> None \<or> smode s \<noteq> Managed"
  by (auto simp: steady_def load_state_def io_simps default_state_def split: doc.splits)

lemma load_state_total: "\<exists>s. fst (load_state w) = Inr s"
  by (simp add: load_state_def io_simps split: doc.split)

lemma recover_home:
  assumes "nft_documented H" "home H v w" "steady v w"
  shows "home H v (snd (recover H w))"
proof (cases "\<exists>p. pending_doc w = Doc p")
  case True
  then obtain p where p: "pending_doc w = Doc p" by blast
  with assms(2) have r: "restores H (prollback p) v" by (simp add: home_def)
  have "live (snd (arm (pid p) (deadline_unix p) w)) = live w" by (rule framesD[OF frames_live(5)])
  then have "home H v (snd (arm (pid p) (deadline_unix p) w))" using home_live assms(2) by blast
  moreover have "snd (recover H w) \<in> {snd (rollback_locked H p ''was not confirmed before a restart'' w),
      snd (arm (pid p) (deadline_unix p) w)}"
    using p by (simp add: recover_def load_pending_def io_simps)
  ultimately show ?thesis using rollback_locked_home[OF assms(1) r p] by auto
next
  case False
  with assms(2) have at: "at_rest H v w" by (auto simp: home_def at_rest_def split: doc.splits)
  obtain s w1 where l: "load_state w = (Inr s, w1)"
    using load_state_total[of w] by (cases "load_state w") auto
  have "live w1 = live w" using framesD[OF frames_live(1), of w] l by simp
  then have at1: "at_rest H v w1" using at at_rest_live by blast
  have "v \<noteq> None \<or> smode s \<noteq> Managed" by (rule load_state_steady[OF assms(3) l])
  with at1 have "snd (recover H w) = w1"
    using False l by (auto simp: recover_def load_pending_def io_simps at_rest_def bind_def[of load_state]
        split: doc.splits)
  then show ?thesis using at1 by (simp add: at_rest_home)
qed

subsection \<open>The mode only changes by a commit or by disabling\<close>

definition mode_in :: "mode set \<Rightarrow> state doc \<Rightarrow> bool" where
  "mode_in M d = (case d of Doc s \<Rightarrow> smode s \<in> M | _ \<Rightarrow> True)"

abbreviation in_mode :: "mode set \<Rightarrow> 'k world \<Rightarrow> bool" where
  "in_mode M w \<equiv> mode_in M (state_doc w)"

lemma mode_load: "Disabled \<in> M \<Longrightarrow> keeps (in_mode M) load_state (\<lambda>s. smode s \<in> M)"
  by (auto simp: keeps_def load_state_def io_simps mode_in_def default_state_def effect_def Let_def
      split: doc.splits prod.splits)

lemma mode_save: "smode s \<in> M \<Longrightarrow> keeps (in_mode M) (save_state s) (\<lambda>_. True)"
  by (auto simp: keeps_def save_state_def effect_def Let_def mode_in_def split: prod.splits)

lemmas mode_frame = keeps_frame[where g = state_doc and P = "mode_in M" for M]

lemma mode_with_set [simp]: "smode (with_set s n es) = smode s"
  by (simp add: with_set_def)

lemma mode_drop_expired [simp]: "smode (drop_expired now s) = smode s"
  by (simp add: drop_expired_def)

lemma mode_do_if: "(c \<Longrightarrow> keeps P m Q) \<Longrightarrow> keeps P (do_if c m) (\<lambda>_. True)"
  by (cases c) (simp_all add: do_if_def keeps_pure keeps_weaken[of P m Q])

lemma mode_edits:
  assumes M: "Disabled \<in> M"
  shows "keeps (in_mode M) (update_settings new force) (\<lambda>_. True)"
    and "keeps (in_mode M) (upsert_rule H r) (\<lambda>_. True)"
    and "keeps (in_mode M) (remove_rule i) (\<lambda>_. True)"
    and "keeps (in_mode M) (set_entries n es) (\<lambda>_. True)"
    and "keeps (in_mode M) (add_entry n e) (\<lambda>_. True)"
    and "keeps (in_mode M) (remove_entry n v) (\<lambda>_. True)"
  unfolding update_settings_def upsert_rule_def remove_rule_def set_entries_def add_entry_def
    remove_entry_def Let_def
  by (intro keeps_seq[OF keeps_pure(4)] keeps_seq[OF keeps_pure(3)] keeps_bind[OF keeps_pure(4)]
      keeps_bind[OF mode_load[OF M]] keeps_bind[OF mode_frame[OF frames_if]] frame_rules
      keeps_seq[OF mode_save] keeps_seq[OF mode_do_if[OF mode_save]] keeps_pure(1); simp)+

lemma mode_submit:
  assumes "timeout \<noteq> 0" shows "keeps (in_mode M) (submit H P s ch timeout) (\<lambda>_. True)"
proof -
  have "frames state_doc (submit H P s ch timeout)"
    using assms unfolding submit_def Let_def by (simp, intro frame_rules)+
  then show ?thesis by (rule mode_frame)
qed

lemma mode_overview: "Disabled \<in> M \<Longrightarrow> keeps (in_mode M) (overview_locked H f) (\<lambda>_. True)"
  unfolding overview_locked_def
  by (rule keeps_bind[OF mode_load], assumption, rule keeps_bind[OF mode_frame], rule frames_state_doc,
      rule keeps_asks_True)

lemma mode_apply:
  assumes M: "Disabled \<in> M" and t: "timeout \<noteq> 0"
  shows "keeps (in_mode M) (apply_managed H P f timeout force) (\<lambda>_. True)"
    and "keeps (in_mode M) (apply_raw H P f text ack timeout) (\<lambda>_. True)"
  unfolding apply_managed_def apply_raw_def Let_def
  by (intro keeps_seq[OF keeps_pure(4)] keeps_seq[OF mode_frame[OF frames_state_doc2(1)]]
      keeps_seq[OF mode_frame[OF frames_state_doc2(2)]] keeps_bind[OF mode_load[OF M]]
      keeps_bind[OF keeps_asks_True] keeps_seq[OF keeps_pure(3)]
      keeps_bind[OF mode_frame[OF frames_state_doc2(3)]]
      keeps_seq[OF mode_frame[OF frames_state_doc2(4)]]
      keeps_seq[OF mode_frame[OF frames_do_if[OF frames_state_doc(7)]]]
      keeps_seq[OF mode_save] keeps_seq[OF mode_submit[OF t]] mode_overview[OF M]; simp)+

lemma mode_rollback_locked: "Disabled \<in> M \<Longrightarrow> keeps (in_mode M) (rollback_locked H p why) (\<lambda>_. True)"
  unfolding rollback_locked_def
  by (rule keeps_seq[OF mode_frame[OF frames_state_doc(4)]], rule keeps_seq[OF mode_frame[OF frames_state_doc(3)]],
      rule keeps_bind[OF mode_load], assumption, rule keeps_ignore[OF mode_save]) simp

lemmas mode_pending = keeps_bind[OF mode_frame[OF frames_state_doc(1)]]

lemma mode_expire: "Disabled \<in> M \<Longrightarrow> keeps (in_mode M) (expire H i now) (\<lambda>_. True)"
  unfolding expire_def
  by (intro mode_pending keeps_option keeps_if keeps_pure(1) keeps_seq[OF mode_rollback_locked]) simp_all

lemma mode_ends:
  assumes M: "Disabled \<in> M"
  shows "keeps (in_mode M) (rollback H f) (\<lambda>_. True)"
    and "keeps (in_mode M) (timer_turn H t) (\<lambda>_. True)"
    and "keeps (in_mode M) (recover H) (\<lambda>_. True)"
proof -
  show "keeps (in_mode M) (rollback H f) (\<lambda>_. True)"
    unfolding rollback_def
    by (intro mode_pending keeps_option keeps_pure(2) keeps_seq[OF mode_rollback_locked[OF M]]
        mode_overview[OF M])
  show "keeps (in_mode M) (timer_turn H t) (\<lambda>_. True)"
    unfolding timer_turn_def do_if_def
    by (cases t) (auto intro!: keeps_bind[OF keeps_asks_True] mode_pending keeps_if keeps_sum keeps_pure
      keeps_bind[OF keeps_caught[OF mode_expire[OF M]]] mode_frame[OF frames_state_doc_pure(2)]
      mode_frame[OF frames_state_doc_pure(3)] split: sum.split)
  show "keeps (in_mode M) (recover H) (\<lambda>_. True)"
    unfolding recover_def
    by (intro mode_pending keeps_option keeps_if keeps_pure(1) keeps_bind[OF keeps_asks_True]
      keeps_bind[OF mode_load[OF M]] keeps_ignore[OF mode_rollback_locked[OF M]]
      mode_frame[OF frames_state_doc(5)]
      mode_frame[OF frames_ignore[OF frames_state_doc(4)]]) simp_all
qed

lemma unconfirmed_mode:
  assumes "unconfirmed e" "Disabled \<in> M" "in_mode M w"
  shows "in_mode M (exec_op H P w e)"
  using assms
proof (cases e)
  case (Restart os)
  have "in_mode M (snd (recover H (w\<lparr>timers := [], outcomes := os\<rparr>)))"
    by (rule keeps_world[OF mode_ends(3)[OF assms(2)]]) (simp add: assms(3))
  with Restart show ?thesis by simp
qed (simp_all add: keeps_world[OF mode_edits(1)] keeps_world[OF mode_edits(2)] keeps_world[OF mode_edits(3)]
    keeps_world[OF mode_edits(4)] keeps_world[OF mode_edits(5)] keeps_world[OF mode_edits(6)]
    keeps_world[OF mode_apply(1)] keeps_world[OF mode_apply(2)] keeps_world[OF mode_ends(1)]
    keeps_world[OF mode_ends(2)])

lemma unconfirmed_steady: "unconfirmed e \<Longrightarrow> steady v w \<Longrightarrow> steady v (exec_op H P w e)"
  using unconfirmed_mode[of e "- {Managed}" w H P]
  by (auto simp: steady_def mode_in_def split: doc.splits)

section \<open>Nobody confirms: the way back stays\<close>

lemma frames_live_edit:
  "frames live (update_settings new force)"
  "frames live (upsert_rule H r)"
  "frames live (remove_rule i)"
  "frames live (set_entries n es)"
  "frames live (add_entry n e)"
  "frames live (remove_entry n v)"
  unfolding update_settings_def upsert_rule_def remove_rule_def set_entries_def add_entry_def
    remove_entry_def Let_def
  by (intro frame_rules)+

lemma unconfirmed_home:
  assumes H: "nft_documented H" and e: "unconfirmed e" and w: "home H v w" "steady v w"
  shows "home H v (exec_op H P w e)"
proof (cases e)
  case (Restart os)
  have "home H v (w\<lparr>timers := [], outcomes := os\<rparr>)"
    using home_live[of "w\<lparr>timers := [], outcomes := os\<rparr>" w H v] w by simp
  moreover have "steady v (w\<lparr>timers := [], outcomes := os\<rparr>)" using w by (simp add: steady_def)
  ultimately have "home H v (snd (recover H (w\<lparr>timers := [], outcomes := os\<rparr>)))"
    by (rule recover_home[OF H])
  with Restart show ?thesis by simp
next
  case (Wait n)
  then show ?thesis using home_live[of "w\<lparr>clock := clock w + int n\<rparr>" w H v] w by simp
next
  case (Faults os)
  then show ?thesis using home_live[of "w\<lparr>outcomes := os\<rparr>" w H v] w by simp
qed (use e w in \<open>simp_all add: home_live[OF framesD[OF frames_live_edit(1)]]
    home_live[OF framesD[OF frames_live_edit(2)]] home_live[OF framesD[OF frames_live_edit(3)]]
    home_live[OF framesD[OF frames_live_edit(4)]] home_live[OF framesD[OF frames_live_edit(5)]]
    home_live[OF framesD[OF frames_live_edit(6)]] triple_world[OF triple_apply_managed[OF H]]
    triple_world[OF triple_apply_raw[OF H]] triple_world[OF triple_rollback[OF H]]
    triple_world[OF triple_timer_turn[OF H]]\<close>)

definition recoverable :: "'k host_ops \<Rightarrow> string option \<Rightarrow> 'k world \<Rightarrow> bool" where
  "recoverable H v w \<longleftrightarrow> nft_documented H \<and> home H v w \<and> steady v w"

interpretation fw_back: guarded_steps "exec_op H P" unconfirmed "recoverable H v"
  for H :: "'k host_ops" and P v
  by unfold_locales (simp add: recoverable_def unconfirmed_home unconfirmed_steady)

end
