(* ===== verification/FirewallTxn.thy ===== *)
theory FirewallTxn
  imports FirewallRuns
begin

text \<open>
  What the operations of the firewall manager do when they succeed: the change an apply
  leaves pending, what a confirmation commits, what the timer and a rollback restore, and
  how refusals leave the world.
\<close>

definition state_of :: "'k world \<Rightarrow> state" where
  "state_of w = (case state_doc w of Doc s \<Rightarrow> s | _ \<Rightarrow> default_state)"

lemma load_state_run:
  "load_state w = (Inr (state_of w),
     case state_doc w of Corrupt \<Rightarrow> snd (effect (\<lambda>w. w\<lparr>state_doc := Absent\<rparr>) w) | _ \<Rightarrow> w)"
  by (simp add: load_state_def state_of_def io_simps split: doc.split)

lemma load_state_fine: "state_doc w \<noteq> Corrupt \<Longrightarrow> load_state w = (Inr (state_of w), w)"
  by (simp add: load_state_run split: doc.split)

lemma load_pending_run:
  "load_pending w = (Inr (case pending_doc w of Doc p \<Rightarrow> Some p | _ \<Rightarrow> None), w)"
  by (simp add: load_pending_def io_simps)

lemma overview_run:
  "state_doc w \<noteq> Corrupt \<Longrightarrow> \<exists>ov. overview_locked H f w = (Inr ov, w)
     \<and> omode ov = smode (state_of w) \<and> changed ov = state_changed f (state_of w)
     \<and> opending ov = map_option (view_pending (clock w)) (case pending_doc w of Doc p \<Rightarrow> Some p | _ \<Rightarrow> None)"
  by (simp add: overview_locked_def bind_def load_state_fine load_pending_run io_simps Let_def)

lemma require_nft_Inr: "require_nft H w = (Inr u, w1) \<longleftrightarrow> nft_installed H (kernel w) \<and> w1 = w"
  by (auto simp: require_nft_def run_Inr)

lemma require_no_pending_Inr:
  "require_no_pending w = (Inr u, w1) \<longleftrightarrow> (\<forall>p. pending_doc w \<noteq> Doc p) \<and> w1 = w"
  by (auto simp: require_no_pending_def load_pending_def run_Inr split: doc.splits)

lemma check_script_Inr:
  "check_script H t w = (Inr u, w1) \<longleftrightarrow> nft_check H (kernel w) t = Inr () \<and> w1 = w"
  by (auto simp: check_script_def run_Inr)

lemma rollback_for_Inr:
  "rollback_for H s m w = (Inr r, w1) \<Longrightarrow> fst (rollback_for H s m w) = Inr r \<and> w1 = w"
  by (auto simp: rollback_for_def io_simps split: if_splits)

lemma save_state_Inr:
  "outcomes w = [] \<Longrightarrow> save_state s w = (Inr u, w1) \<longleftrightarrow> w1 = w\<lparr>state_doc := Doc s, outcomes := []\<rparr>"
  by (auto simp: save_state_def effect_fine)

lemmas guard_Inr = require_nft_Inr require_no_pending_Inr check_script_Inr

text \<open>The pending change a windowed apply records, as its fields.\<close>

definition pending_for :: "state \<Rightarrow> facts \<Rightarrow> int \<Rightarrow> nat \<Rightarrow> pending \<Rightarrow> bool" where
  "pending_for s f now timeout p \<longleftrightarrow>
     started_unix p = now \<and> deadline_unix p = now + int timeout \<and> target_mode p = Managed
     \<and> ptable p = render_table (smodel s) f now \<and> pscript p = replace_script (ptable p)
     \<and> pfingerprint p = render_table (smodel s) f 0"

lemma submit_ok:
  assumes "submit H P s ch timeout w = (Inr u, w1)" "timeout \<noteq> 0" "outcomes w = []"
  shows "\<exists>i. pending_doc w1 = Doc \<lparr>pid = i, started_unix = clock w, deadline_unix = clock w + int timeout,
           target_mode = ch_mode ch, pscript = ch_script ch, ptable = ch_table ch,
           pfingerprint = ch_fingerprint ch, prollback = ch_rollback ch\<rparr>
         \<and> nft_apply H (kernel w) (ch_script ch) = (Inr (), kernel w1)
         \<and> timers w1 = (i, clock w + int timeout, 0) # timers w
         \<and> outcomes w1 = [] \<and> clock w1 = clock w \<and> state_doc w1 = state_doc w
         \<and> boot w1 = boot w"
  using assms
  by (auto simp: submit_def Let_def run_Inr check_script_def new_id_def save_pending_def effect_Inr
      apply_script_def arm_def ignore_def effect_def catch_def boot_def command_fine
      split: sum.splits prod.splits) (simp add: prod_eq_iff)

text \<open>A windowed apply that returns: the change is in the kernel and its way back on disk.\<close>

lemma apply_managed_ok:
  assumes ok: "apply_managed H P f timeout force w = (Inr ov, w1)" and t: "timeout \<noteq> 0"
    and fine: "outcomes w = []" "state_doc w \<noteq> Corrupt"
  shows "\<exists>p k. pending_doc w1 = Doc p \<and> pending_for (drop_expired (clock w) (state_of w)) f (clock w) timeout p
     \<and> nft_apply H k (pscript p) = (Inr (), kernel w1)
     \<and> fst (rollback_for H (drop_expired (clock w) (state_of w)) Managed w) = Inr (prollback p)
     \<and> timers w1 = (pid p, deadline_unix p, 0) # timers w
     \<and> outcomes w1 = [] \<and> clock w1 = clock w
     \<and> state_doc w1 = Doc (drop_expired (clock w) (state_of w)) \<and> boot w1 = boot w
     \<and> MIN_TIMEOUT \<le> timeout \<and> timeout \<le> MAX_TIMEOUT \<and> (\<forall>q. pending_doc w \<noteq> Doc q)"
proof -
  let ?s = "drop_expired (clock w) (state_of w)"
  let ?c = "if smode (state_of w) = Managed then [] else detect_conflicts H (kernel w)"
  let ?ch = "\<lambda>rb. \<lparr>ch_mode = Managed, ch_table = render_table (smodel ?s) f (clock w),
        ch_script = replace_script (render_table (smodel ?s) f (clock w)),
        ch_fingerprint = render_table (smodel ?s) f 0, ch_rollback = rb\<rparr>"
  from ok fine obtain rb wc wd we where
      other: "check_timeout timeout = Inr ()" "\<forall>q. pending_doc w \<noteq> Doc q"
    and rb: "fst (rollback_for H ?s Managed w) = Inr rb"
    and cf: "do_if (?c \<noteq> []) (command (\<lambda>k. disable_conflicts H k ?c) CommandFailed) w = (Inr (), wc)"
    and sv: "save_state ?s wc = (Inr (), we)" and sub: "submit H P ?s (?ch rb) timeout we = (Inr (), wd)"
    and ov: "overview_locked H f wd = (Inr ov, w1)"
    by (auto simp: apply_managed_def Let_def run_Inr guard_Inr load_state_fine dest!: rollback_for_Inr)
  have wc: "outcomes wc = []" "clock wc = clock w" "timers wc = timers w" "boot wc = boot w"
    using cf fine by (auto simp: do_if_def pure_Inr command_Inr boot_def split: if_splits)
  then have we: "we = wc\<lparr>state_doc := Doc ?s, outcomes := []\<rparr>" using sv save_state_Inr by blast
  have "boot we = boot w" "kernel we = kernel wc" using we wc by simp_all
  with submit_ok[OF sub t] wc we obtain i where
      p: "pending_doc wd = Doc \<lparr>pid = i, started_unix = clock w, deadline_unix = clock w + int timeout,
           target_mode = Managed, pscript = replace_script (render_table (smodel ?s) f (clock w)),
           ptable = render_table (smodel ?s) f (clock w), pfingerprint = render_table (smodel ?s) f 0, prollback = rb\<rparr>"
    and wd: "nft_apply H (kernel wc) (replace_script (render_table (smodel ?s) f (clock w))) = (Inr (), kernel wd)"
      "timers wd = (i, clock w + int timeout, 0) # timers w" "outcomes wd = []" "clock wd = clock w"
      "state_doc wd = Doc ?s" "boot wd = boot w"
    by auto
  have "w1 = wd" using overview_run[of wd H f] wd(5) ov by auto
  with p wd rb other t show ?thesis
    by (auto simp: pending_for_def check_timeout_def split: if_splits)
qed

text \<open>It returns when the host accepts the script and nobody else owns the firewall.\<close>

lemma apply_managed_accepted:
  fixes H w f
  defines "s \<equiv> drop_expired (clock w) (state_of w)"
  defines "script \<equiv> replace_script (render_table (smodel s) f (clock w))"
  assumes w: "outcomes w = []" "state_doc w \<noteq> Corrupt" "pending_doc w = Absent"
    and t: "MIN_TIMEOUT \<le> timeout" "timeout \<le> MAX_TIMEOUT"
    and H: "nft_installed H (kernel w)" "detect_conflicts H (kernel w) = []"
      "nft_list_table H (kernel w) = Inr v" "nft_check H (kernel w) script = Inr ()"
      "nft_apply H (kernel w) script = (Inr (), k)"
    and m: "smode (state_of w) \<noteq> Raw"
  shows "\<exists>ov w1. apply_managed H P f timeout force w = (Inr ov, w1)"
proof -
  obtain rb where rb: "rollback_for H s Managed w = (Inr rb, w)"
    using H(3) m by (cases v) (auto simp: rollback_for_def io_simps s_def)
  let ?ch = "\<lparr>ch_mode = Managed, ch_table = render_table (smodel s) f (clock w), ch_script = script,
        ch_fingerprint = render_table (smodel s) f 0, ch_rollback = rb\<rparr>"
  let ?w1 = "w\<lparr>state_doc := Doc s, outcomes := []\<rparr>"
  have sub: "\<exists>w2. submit H P s ?ch timeout ?w1 = (Inr (), w2) \<and> state_doc w2 = Doc s"
    using t H(4,5) by (auto simp: submit_def MIN_TIMEOUT_def Let_def check_script_def io_simps bind_def seq_def
        new_id_def save_pending_def effect_fine catch_def apply_script_def command_fine arm_def ignore_def asks_def ret_def)
  then obtain w2 where w2: "submit H P s ?ch timeout ?w1 = (Inr (), w2)" "state_doc w2 = Doc s" by blast
  obtain ov where "overview_locked H f w2 = (Inr ov, w2)" using overview_run[of w2 H f] w2(2) by auto
  with w2 rb t H w show ?thesis
    by (auto simp: apply_managed_def check_timeout_def require_nft_def require_no_pending_def load_pending_run
        load_state_fine io_simps bind_def seq_def asks_def ret_def check_script_def save_state_def effect_fine
        Let_def lift_result_def s_def[symmetric] script_def[symmetric] fail_if_def do_if_def)
qed

section \<open>Confirming\<close>

definition systemctl_works :: "'k host_ops \<Rightarrow> bool" where
  "systemctl_works H = (\<forall>k args. fst (run_systemctl H k args) = Inr ())"

definition rest_of :: "'k world \<Rightarrow> state doc \<times> pending doc \<times> int \<times> (string \<times> int \<times> nat) list" where
  "rest_of w = (state_doc w, pending_doc w, clock w, timers w)"

lemma systemctl_fine:
  assumes "systemctl_works H" "outcomes w = []"
  shows "systemctl H args w =
    (Inr (), w\<lparr>kernel := snd (run_systemctl H (kernel w) args), outcomes := []\<rparr>)"
  using assms by (simp add: systemctl_def command_fine systemctl_works_def)

lemma unit_text_not_empty: "unit_text nft ruleset \<noteq> []"
  by (simp add: unit_text_def unlines_def)

lemma save_ruleset_fine:
  assumes "systemctl_works H" "outcomes w = []"
  shows "\<exists>w1. save_ruleset H P text w = (Inr (), w1) \<and> rest_of w1 = rest_of w \<and> outcomes w1 = []
     \<and> ruleset_file w1 = Some text
     \<and> (unit_dir P \<longrightarrow> unit_file w1 = Some (unit_text (nft_path H (kernel w)) (etc_ruleset P)))
     \<and> (\<not> unit_dir P \<longrightarrow> kernel w1 = kernel w)"
  using assms unit_text_not_empty unit_text_not_empty[symmetric]
  by (auto simp: save_ruleset_def effect_fine io_simps do_if_def seq_def bind_def asks_def ret_def rest_of_def
      systemctl_fine split: option.splits)

text \<open>A confirmation in time: the change becomes the configured state and the boot ruleset.\<close>

definition committed :: "pending \<Rightarrow> int \<Rightarrow> state \<Rightarrow> state" where
  "committed p now s = s\<lparr>smode := target_mode p, applied_table := ptable p, applied_fp := pfingerprint p,
     applied_unix := now, last_error := []\<rparr>"

lemma confirm_fine:
  assumes H: "systemctl_works H" and w: "outcomes w = []" "state_doc w \<noteq> Corrupt"
    and p: "pending_doc w = Doc p" "i = [] \<or> i = pid p" "clock w \<le> deadline_unix p"
  shows "\<exists>ov w1. confirm H P i f w = (Inr ov, w1)
     \<and> state_doc w1 = Doc (committed p (clock w) (state_of w)) \<and> pending_doc w1 = Absent
     \<and> ruleset_file w1 = Some (pscript p) \<and> timers w1 = timers w \<and> clock w1 = clock w
     \<and> (\<not> unit_dir P \<longrightarrow> kernel w1 = kernel w)
     \<and> omode ov = target_mode p \<and> opending ov = None
     \<and> changed ov = state_changed f (committed p (clock w) (state_of w))"
proof -
  let ?s = "committed p (clock w) (state_of w)"
  let ?w = "w\<lparr>state_doc := Doc ?s, outcomes := []\<rparr>"
  obtain w1 where w1: "save_ruleset H P (pscript p) ?w = (Inr (), w1)" "rest_of w1 = rest_of ?w"
      "outcomes w1 = []" "ruleset_file w1 = Some (pscript p)" "\<not> unit_dir P \<longrightarrow> kernel w1 = kernel w"
    using save_ruleset_fine[OF H, of ?w P "pscript p"] by auto
  let ?w2 = "w1\<lparr>pending_doc := Absent, outcomes := []\<rparr>"
  have s: "state_doc ?w2 \<noteq> Corrupt" "state_of ?w2 = ?s" using w1(2) by (simp_all add: rest_of_def state_of_def)
  obtain ov where ov: "overview_locked H f ?w2 = (Inr ov, ?w2)" "omode ov = smode ?s"
      "changed ov = state_changed f ?s" "opending ov = None"
    using overview_run[OF s(1), of H f] s(2) by auto
  have "confirm H P i f w = (Inr ov, ?w2)"
    using p w w1(1,3) ov(1)
    by (auto simp: confirm_def load_pending_run bind_def seq_def load_state_fine asks_def commit_parts_def
        save_state_def effect_fine committed_def clear_pending_def ignore_def)
  with w1 ov s show ?thesis by (auto simp: rest_of_def committed_def)
qed

section \<open>Going back\<close>

definition noted :: "pending \<Rightarrow> string \<Rightarrow> state \<Rightarrow> state" where
  "noted p why s = s\<lparr>last_error := change_message (pid p) why\<rparr>"

lemma rollback_locked_fine:
  assumes w: "outcomes w = []" "state_doc w \<noteq> Corrupt"
    and a: "nft_apply H (kernel w) (prollback p) = (Inr (), k)"
  shows "rollback_locked H p why w = (Inr (), w\<lparr>kernel := k, pending_doc := Absent,
     state_doc := Doc (noted p why (state_of w)), outcomes := []\<rparr>)"
proof -
  let ?w1 = "w\<lparr>kernel := k, outcomes := []\<rparr>"
  let ?w2 = "?w1\<lparr>pending_doc := Absent, outcomes := []\<rparr>"
  have "apply_script H (prollback p) w = (Inr (), ?w1)"
    using w a by (simp add: apply_script_def command_fine)
  moreover have "load_state ?w2 = (Inr (state_of w), ?w2)"
    using load_state_fine[of ?w2] w by (simp add: state_of_def)
  ultimately show ?thesis
    by (simp add: rollback_locked_def seq_def bind_def clear_pending_def ignore_def effect_fine save_state_def noted_def)
qed

lemma timer_turn_fine:
  assumes w: "outcomes w = []" "state_doc w \<noteq> Corrupt" "pending_doc w = Doc p" "deadline_unix p \<le> clock w"
    and a: "nft_apply H (kernel w) (prollback p) = (Inr (), k)"
  shows "timer_turn H (pid p, deadline_unix p, n) w = (Inr (), w\<lparr>kernel := k, pending_doc := Absent,
     state_doc := Doc (noted p ''was not confirmed in time'' (state_of w)), outcomes := [],
     timers := remove1 (pid p, deadline_unix p, n) (timers w)\<rparr>)"
  using rollback_locked_fine[OF w(1,2) a] w(3,4)
  by (simp add: timer_turn_def expire_def bind_def seq_def asks_def catch_def load_pending_run
      end_timer_def ret_def)

text \<open>After the deadline a timer lasts at most \<open>ATTEMPTS\<close> turns.\<close>

definition attempts_left :: "string \<times> int \<times> nat \<Rightarrow> nat" where
  "attempts_left t = (case t of (_, _, n) \<Rightarrow> ATTEMPTS - n)"

lemma timers_of_expire: "timers (snd (expire H i now w)) = timers w"
proof -
  have "frames timers (expire H i now)"
    unfolding expire_def rollback_locked_def load_pending_def apply_script_def clear_pending_def
      load_state_def save_state_def
    by (intro frame_rules frames_effect frames_command; auto intro!: frame_rules frames_effect split: doc.split)
  then show ?thesis by (rule framesD)
qed

lemma timer_turn_steps:
  assumes "d \<le> clock w" "t = (i, d, n)"
  shows "timers (snd (timer_turn H t w)) = remove1 t (timers w)
    \<or> (Suc n < ATTEMPTS \<and> timers (snd (timer_turn H t w)) = (i, d, Suc n) # remove1 t (timers w))"
  using assms timers_of_expire[of H i "clock w" w]
  by (auto simp: timer_turn_def bind_def asks_def catch_def end_timer_def retry_timer_def split: prod.splits sum.splits)

lemma clock_of_timer_turn: "clock (snd (timer_turn H t w)) = clock w"
proof -
  have "frames clock (expire H i now)" for i now
    unfolding expire_def rollback_locked_def load_pending_def apply_script_def clear_pending_def
      load_state_def save_state_def
    by (intro frame_rules frames_effect frames_command; auto intro!: frame_rules frames_effect split: doc.split)
  moreover have "frames clock (end_timer t)" "frames clock (retry_timer t)" for t
    by (simp_all add: frames_def end_timer_def retry_timer_def split: prod.split)
  ultimately have "frames clock (timer_turn H t)"
    unfolding timer_turn_def load_pending_def by (cases t) (simp, intro frame_rules, auto)
  then show ?thesis by (rule framesD)
qed

text \<open>\<open>only i d n w\<close>: the one timer of this change, if there still is one, has had \<open>n\<close> attempts.\<close>

definition only :: "string \<Rightarrow> int \<Rightarrow> nat \<Rightarrow> 'k world \<Rightarrow> bool" where
  "only i d n w \<longleftrightarrow> distinct (timers w) \<and> (\<forall>m. (i, d, m) \<in> set (timers w) \<longrightarrow> m = n) \<and> d \<le> clock w"

lemma only_turn:
  assumes "only i d n w"
  shows "only i d (Suc n) (exec_op H P w (TimerTurn (i, d, n)))
    \<and> (ATTEMPTS \<le> Suc n \<longrightarrow> (\<forall>m. (i, d, m) \<notin> set (timers (exec_op H P w (TimerTurn (i, d, n))))))"
proof (cases "(i, d, n) \<in> set (timers w)")
  case False
  with assms show ?thesis by (auto simp: only_def)
next
  case True
  let ?w1 = "snd (timer_turn H (i, d, n) w)"
  have d: "d \<le> clock w" "distinct (timers w)" and o: "\<forall>m. (i, d, m) \<in> set (timers w) \<longrightarrow> m = n"
    using assms by (simp_all add: only_def)
  have e: "exec_op H P w (TimerTurn (i, d, n)) = ?w1" using True by simp
  have gone: "\<forall>m. (i, d, m) \<notin> set (remove1 (i, d, n) (timers w))"
    using o d(2) by (simp add: set_remove1_eq)
  have c: "d \<le> clock ?w1" using d(1) by (simp add: clock_of_timer_turn)
  consider (ended) "timers ?w1 = remove1 (i, d, n) (timers w)"
    | (again) "Suc n < ATTEMPTS" "timers ?w1 = (i, d, Suc n) # remove1 (i, d, n) (timers w)"
    using timer_turn_steps[OF d(1) refl, where H = H and i = i and n = n] by blast
  then show ?thesis
  proof cases
    case ended
    then show ?thesis unfolding e using c gone d(2) by (auto simp: only_def distinct_remove1)
  next
    case again
    have "\<forall>m. (i, d, m) \<in> set (timers ?w1) \<longrightarrow> m = Suc n"
      unfolding again(2) set_simps using gone by blast
    moreover have "distinct (timers ?w1)" unfolding again(2) distinct.simps
      using gone distinct_remove1[OF d(2), of "(i, d, n)"] by blast
    moreover have "\<not> ATTEMPTS \<le> Suc n" using again(1) by simp
    ultimately show ?thesis unfolding e only_def using c by blast
  qed
qed

lemma only_turns:
  assumes "only i d n w" "n < ATTEMPTS"
  shows "(i, d, m) \<notin> set (timers (run_ops (exec_op H P) w (map (\<lambda>j. TimerTurn (i, d, j)) [n..<ATTEMPTS])))"
  using assms
proof (induction "ATTEMPTS - n" arbitrary: n w)
  case (Suc k)
  let ?w1 = "exec_op H P w (TimerTurn (i, d, n))"
  have o: "only i d (Suc n) ?w1" using only_turn[OF Suc.prems(1)] by blast
  have upt: "[n..<ATTEMPTS] = n # [Suc n..<ATTEMPTS]" using Suc.prems(2) by (simp add: upt_conv_Cons)
  show ?case
  proof (cases "Suc n < ATTEMPTS")
    case True
    with Suc.hyps o show ?thesis unfolding upt by (auto simp del: exec_op.simps)
  next
    case False
    then have "[n..<ATTEMPTS] = [n]" using Suc.prems(2) by (simp add: upt_conv_Cons)
    moreover have "\<forall>m. (i, d, m) \<notin> set (timers ?w1)" using only_turn[OF Suc.prems(1), of H P] False by auto
    ultimately show ?thesis by (simp del: exec_op.simps)
  qed
qed simp

text \<open>From a recoverable world, an undo that reports success restores the table.\<close>

lemma home_at_rest: "home H v w \<Longrightarrow> \<forall>p. pending_doc w \<noteq> Doc p \<Longrightarrow> nft_list_table H (kernel w) = Inr v"
  by (simp add: home_def split: doc.splits)

lemma frames_kernel_overview: "kernel (snd (overview_locked H f w)) = kernel w"
proof -
  have "frames kernel (overview_locked H f)"
    unfolding overview_locked_def load_state_def load_pending_def
    by (intro frame_rules; auto intro!: frame_rules frames_effect split: doc.split)
  then show ?thesis by (rule framesD)
qed

lemma rollback_restores:
  assumes "home H v w" "fst (rollback H f w) = Inr ov"
  shows "nft_list_table H (kernel (snd (rollback H f w))) = Inr v"
proof (cases "\<exists>p. pending_doc w = Doc p")
  case False
  then show ?thesis using assms(2)
    by (simp add: rollback_def bind_def load_pending_run throw_def split: doc.splits)
next
  case True
  then obtain p where p: "pending_doc w = Doc p" by blast
  then have r: "restores H (prollback p) v" using assms(1) by (simp add: home_def)
  let ?why = "''was rolled back by request''"
  have e: "rollback H f w = seq (rollback_locked H p ?why) (overview_locked H f) w"
    using p by (simp add: rollback_def bind_def load_pending_run)
  obtain u where ok: "fst (rollback_locked H p ?why w) = Inr u"
    using assms(2) unfolding e by (cases "rollback_locked H p ?why w") (auto simp: seq_def bind_def split: sum.splits)
  then have "snd (rollback H f w) = snd (overview_locked H f (snd (rollback_locked H p ?why w)))"
    unfolding e by (cases "rollback_locked H p ?why w") (simp add: seq_def bind_def)
  with rollback_locked_restores[OF r ok] show ?thesis by (simp add: frames_kernel_overview)
qed

lemma expire_restores:
  assumes "home H v w" "fst (expire H i now w) = Inr True"
  shows "nft_list_table H (kernel (snd (expire H i now w))) = Inr v"
proof -
  obtain p where p: "pending_doc w = Doc p" "pid p = i" "deadline_unix p \<le> now"
    using assms(2) by (auto simp: expire_def bind_def load_pending_run ret_def split: doc.splits if_splits)
  then have r: "restores H (prollback p) v" using assms(1) by (simp add: home_def)
  let ?why = "''was not confirmed in time''"
  have e: "expire H i now w = seq (rollback_locked H p ?why) (ret True) w"
    using p by (simp add: expire_def bind_def load_pending_run)
  obtain u where ok: "fst (rollback_locked H p ?why w) = Inr u"
    using assms(2) unfolding e by (cases "rollback_locked H p ?why w") (auto simp: seq_def bind_def split: sum.splits)
  then have "snd (expire H i now w) = snd (rollback_locked H p ?why w)"
    unfolding e by (cases "rollback_locked H p ?why w") (simp add: seq_def bind_def ret_def)
  with rollback_locked_restores[OF r ok] show ?thesis by simp
qed

section \<open>Refusals\<close>

lemma refused_while_pending:
  assumes "pending_doc w = Doc p"
  shows "\<exists>e. apply_managed H P f timeout force w = (Inl e, w)"
    and "\<exists>e. apply_raw H P f text ack timeout w = (Inl e, w)"
    and "disable H P f w = (Inl (Precondition ChangePending), w)"
proof -
  have np: "require_no_pending w = (Inl (Precondition ChangePending), w)"
    using assms by (simp add: require_no_pending_def bind_def load_pending_run fail_if_def throw_def)
  have nft: "require_nft H w \<in> {(Inr (), w), (Inl (Precondition NftMissing), w)}"
    by (simp add: require_nft_def io_simps)
  show "\<exists>e. apply_managed H P f timeout force w = (Inl e, w)"
    using np nft by (cases "check_timeout timeout") (auto simp: apply_managed_def seq_def bind_def lift_result_def)
  show "\<exists>e. apply_raw H P f text ack timeout w = (Inl e, w)"
    using np nft
    by (cases "check_timeout timeout") (auto simp: apply_raw_def seq_def bind_def lift_result_def fail_if_def throw_def ret_def)
  show "disable H P f w = (Inl (Precondition ChangePending), w)"
    using np by (simp add: disable_def seq_def bind_def)
qed


section \<open>Edits\<close>

text \<open>A failed edit leaves the configured state as it was.\<close>

abbreviation reads :: "state \<Rightarrow> 'k world \<Rightarrow> bool" where
  "reads s w \<equiv> state_of w = s"

lemma triple_load: "triple (reads s) load_state (\<lambda>x w. reads s w \<and> x = s) (reads s)"
  by (auto simp: triple_def load_state_run effect_def Let_def state_of_def split: doc.splits prod.splits)

lemma triple_save:
  "triple (reads s) (save_state s1) (\<lambda>_. reads s1) (reads s)"
  by (auto simp: triple_def save_state_def effect_def Let_def state_of_def split: prod.splits)

lemma triple_new_id: "triple (reads s) (new_id H t) (\<lambda>_. reads s) (reads s)"
  by (simp add: triple_def new_id_def state_of_def)

lemma triple_guard: "triple P (fail_if c e) (\<lambda>_ w. P w \<and> \<not> c) P"
  by (rule triple_pure(3))

lemma triple_lift: "triple P (lift_result r) (\<lambda>x w. P w \<and> r = Inr x) P"
  by (rule triple_pure(4))

lemma triple_given: "(r \<Longrightarrow> triple P m Q E) \<Longrightarrow> triple (\<lambda>w. P w \<and> r) m Q E"
  by (cases r) (simp_all add: triple_def)

lemma triple_seq_ret: "triple P k Q E \<Longrightarrow> triple P (seq (ret ()) k) Q E"
proof -
  assume "triple P k Q E"
  moreover have "seq (ret ()) k = k" by (rule ext) (simp add: io_simps)
  ultimately show ?thesis by simp
qed

lemma triple_lift_unit: "triple P (lift_result r) (\<lambda>_ w. P w \<and> r = Inr ()) P"
  by (auto simp: triple_def io_defs split: sum.split)

definition with_rules :: "state \<Rightarrow> rule list \<Rightarrow> state" where
  "with_rules s rs = s\<lparr>smodel := (smodel s)\<lparr>mrules := rs\<rparr>\<rparr>"

lemma with_rules_simps [simp]:
  "mrules (smodel (with_rules s rs)) = rs" "msets (smodel (with_rules s rs)) = msets (smodel s)"
  "msettings (smodel (with_rules s rs)) = msettings (smodel s)" "smode (with_rules s rs) = smode s"
  by (simp_all add: with_rules_def)

lemma upsert_rule_triple:
  "triple (reads s) (upsert_rule H r)
     (\<lambda>n w. reads (with_rules s (upsert rid (mrules (smodel s)) n)) w \<and> \<not> is_preset r
        \<and> (\<exists>m. rule_normalize r = Inr m \<and> n = m\<lparr>rid := rid n\<rparr> \<and> (rid m \<noteq> [] \<longrightarrow> n = m))
        \<and> (has_key rid (mrules (smodel s)) (rid n) \<or> length (mrules (smodel s)) < MAX_RULES))
     (reads s)"
proof -
  have idtr: "triple (reads s) (if rid m = [] then bind (new_id H ''r'') (\<lambda>i. ret (m\<lparr>rid := i\<rparr>)) else ret m)
      (\<lambda>n w. reads s w \<and> n = m\<lparr>rid := rid n\<rparr> \<and> (rid m \<noteq> [] \<longrightarrow> n = m)) (reads s)" for m
    by (cases "rid m = []") (simp_all add: triple_ret triple_bind[OF triple_new_id])
  show ?thesis
    unfolding upsert_rule_def Let_def
    by (rule triple_seq[OF triple_guard], rule triple_given, rule triple_bind[OF triple_lift],
        rule triple_given, rule triple_bind[OF triple_load], rule triple_given,
        rule triple_bind[OF idtr], rule triple_given, rule triple_seq[OF triple_guard], rule triple_given,
        rule triple_seq[OF triple_save])
      (auto intro!: triple_ret simp: with_rules_def)
qed

lemma remove_rule_triple:
  "triple (reads s) (remove_rule i)
     (\<lambda>b w. reads (with_rules s (remove_key rid (mrules (smodel s)) i)) w
        \<and> b = has_key rid (mrules (smodel s)) i) (reads s)"
proof -
  have same: "\<not> has_key rid xs i \<Longrightarrow> remove_key rid xs i = xs" for xs
    by (auto simp: remove_key_def has_key_def filter_id_conv)
  have "with_rules s (mrules (smodel s)) = s" by (simp add: with_rules_def)
  then show ?thesis
    unfolding remove_rule_def Let_def remove_key_length do_if_def
    by (intro triple_bind[OF triple_load] triple_given)
      (auto intro!: triple_ret triple_seq[OF triple_save] triple_seq_ret simp: with_rules_def same)
qed

lemma set_entries_triple:
  "triple (reads s) (set_entries n es)
     (\<lambda>es1 w. reads (with_set s n es1) w \<and> normalize_entries es = Inr es1) (reads s)"
  unfolding set_entries_def
  by (intro triple_bind[OF triple_lift] triple_given triple_bind[OF triple_load] triple_seq[OF triple_save])
    (auto intro!: triple_ret)

lemma add_entry_triple:
  "triple (reads s) (add_entry n e)
     (\<lambda>es w. reads (with_set s n es) w \<and> (\<exists>e1. entry_normalize e = Inr e1
        \<and> es = upsert evalue (get_set (msets (smodel s)) n) e1) \<and> length es \<le> MAX_SET_ENTRIES) (reads s)"
  unfolding add_entry_def Let_def
  by (intro triple_bind[OF triple_lift] triple_given triple_bind[OF triple_load] triple_seq[OF triple_guard]
      triple_seq[OF triple_save]) (auto intro!: triple_ret)

lemma remove_entry_triple:
  "triple (reads s) (remove_entry n v)
     (\<lambda>b w. \<exists>net. parse_net v = Inr net
        \<and> reads (with_set s n (remove_key evalue (get_set (msets (smodel s)) n) (show_net net))) w
        \<and> b = has_key evalue (get_set (msets (smodel s)) n) (show_net net)) (reads s)"
proof -
  have same: "\<not> has_key evalue xs i \<Longrightarrow> remove_key evalue xs i = xs" for xs i
    by (auto simp: remove_key_def has_key_def filter_id_conv)
  have put: "with_set s n (get_set (msets (smodel s)) n) = s"
    by (cases n) (simp_all add: with_set_def)
  show ?thesis
    unfolding remove_entry_def Let_def remove_key_length do_if_def
    by (intro triple_bind[OF triple_lift] triple_given triple_bind[OF triple_load])
      (auto intro!: triple_ret triple_seq[OF triple_save] triple_seq_ret simp: same put)
qed

lemma update_settings_triple:
  "triple (reads s) (update_settings new force)
     (\<lambda>r w. r = new \<and> reads (s\<lparr>smodel := (smodel s)\<lparr>msettings := new\<rparr>\<rparr>) w
        \<and> settings_validate new = Inr ()
        \<and> (force \<or> (\<forall>p \<in> set CRITICAL_PRESETS. p \<in> set (disabled_presets new) \<longrightarrow>
              p \<in> set (disabled_presets (msettings (smodel s)))))) (reads s)"
  unfolding update_settings_def Let_def
  by (intro triple_seq[OF triple_lift_unit] triple_given triple_bind[OF triple_load] triple_seq[OF triple_guard]
      triple_seq[OF triple_save]) (auto intro!: triple_ret simp: filter_empty_conv)

section \<open>A rollback only notes itself in the state\<close>

lemma triple_reads_frame: "frames state_doc m \<Longrightarrow> triple (reads s) m (\<lambda>_. reads s) (reads s)"
  by (rule triple_frame) (auto simp: state_of_def)

lemma triple_rollback_note:
  "triple (reads s) (rollback_locked H p why) (\<lambda>_ w. reads s w \<or> reads (noted p why s) w) (reads s)"
proof -
  have ig: "triple (reads s) (ignore (save_state (noted p why s))) (\<lambda>_ w. reads s w \<or> reads (noted p why s) w) (reads s)"
    by (rule triple_ignore, rule triple_conseq[OF triple_save]) auto
  show ?thesis
    unfolding rollback_locked_def noted_def[symmetric]
    by (intro triple_seq[OF triple_reads_frame] frames_state_doc triple_bind[OF triple_load] triple_given)
      (simp add: ig)
qed

lemma rollback_note:
  "state_of (snd (rollback_locked H p why w)) \<in> {state_of w, noted p why (state_of w)}"
proof -
  have "triple (reads (state_of w)) (rollback_locked H p why)
      (\<lambda>_ w1. state_of w1 \<in> {state_of w, noted p why (state_of w)})
      (\<lambda>w1. state_of w1 \<in> {state_of w, noted p why (state_of w)})"
    by (rule triple_conseq[OF triple_rollback_note]) auto
  then show ?thesis by (rule triple_world) simp
qed

lemma confirm_refused:
  assumes p: "pending_doc w = Doc p" and late: "i \<noteq> [] \<and> i \<noteq> pid p \<or> deadline_unix p < clock w"
  shows "(\<exists>e. fst (confirm H P i f w) = Inl e) \<and> boot (snd (confirm H P i f w)) = boot w
    \<and> (state_of (snd (confirm H P i f w)))\<lparr>last_error := x\<rparr> = (state_of w)\<lparr>last_error := x\<rparr>"
proof (cases "i \<noteq> [] \<and> i \<noteq> pid p")
  case True
  then show ?thesis using p by (simp add: confirm_def bind_def load_pending_run throw_def)
next
  case False
  let ?why = "''was not confirmed in time''"
  let ?r = "rollback_locked H p ?why w"
  have e: "confirm H P i f w = seq (rollback_locked H p ?why) (throw (Precondition WindowPassed)) w"
    using p False late by (auto simp: confirm_def bind_def load_pending_run asks_def)
  then have s: "snd (confirm H P i f w) = snd ?r" "\<exists>e. fst (confirm H P i f w) = Inl e"
    by (cases ?r; cases "fst ?r"; simp add: seq_def bind_def throw_def)+
  with s rollback_note[of H p ?why w] framesD[OF frames_boot_rollback, of H p ?why w] show ?thesis by (auto simp: noted_def)
qed

section \<open>A confirmation that fails half way\<close>

lemma confirm_half:
  assumes p: "pending_doc w = Doc p" "clock w \<le> deadline_unix p"
    and w: "outcomes w = [Fine, Fail]" "state_doc w \<noteq> Corrupt"
  shows "confirm H P [] f w = (Inl (Other IoFailed),
    w\<lparr>state_doc := Doc (committed p (clock w) (state_of w)), outcomes := []\<rparr>)"
  using p w
  by (simp add: confirm_def bind_def seq_def load_pending_run load_state_fine asks_def commit_parts_def
      save_state_def effect_def committed_def save_ruleset_def)

end
