(* ===== verification/FirewallProps.thy ===== *)
theory FirewallProps
  imports FirewallTxn
begin

text \<open>
  The properties of the firewall manager, each with a concrete instance. The instances
  run on \<open>demo_host\<close>, a host whose kernel state is the text of the managed table.
\<close>

section \<open>A host to run on\<close>

definition demo_host :: "string host_ops" where
  "demo_host = \<lparr>nft_installed = (\<lambda>_. True), nft_path = (\<lambda>_. ''/usr/sbin/nft''),
     nft_version = (\<lambda>_. ''1.0.9''), nft_check = (\<lambda>_ _. Inr ()),
     nft_apply = (\<lambda>k s. case strip_prefix remove_script s of
         Some t \<Rightarrow> (Inr (), t)
       | None \<Rightarrow> (case strip_prefix (''flush ruleset'' @ NL) s of
           Some d \<Rightarrow> (Inr (), butlast d)
         | None \<Rightarrow> (Inl ''syntax error'', k))),
     nft_list_ruleset = (\<lambda>k. Inr k),
     nft_list_table = (\<lambda>k. Inr (if k = [] then None else Some k)),
     nft_counters = (\<lambda>_. []), detect_conflicts = (\<lambda>_. []),
     disable_conflicts = (\<lambda>k _. (Inr (), k)), run_systemctl = (\<lambda>k _. (Inr (), k)),
     id_digest = (\<lambda>n. [word_of_nat n, 1, 2, 3])\<rparr>"

definition demo_paths :: paths where
  "demo_paths = \<lparr>etc_ruleset = ''/etc/asc/firewall/ruleset.nft'', unit_dir = True\<rparr>"

definition demo_facts :: facts where
  "demo_facts = \<lparr>ssh_ports = [22], api_port = Some 8443, web_installed = False\<rparr>"

definition demo_world :: "string world" where
  "demo_world = \<lparr>state_doc = Absent, pending_doc = Absent, ruleset_file = None, unit_file = None,
     kernel = ''table inet asc { }'', clock = 1000, id_counter = 0, timers = [], outcomes = []\<rparr>"

lemma replace_script_remove: "replace_script t = remove_script @ t"
  by (simp add: replace_script_def remove_script_def)

lemma demo_apply:
  "nft_apply demo_host k (remove_script @ t) = (Inr (), t)"
  "nft_apply demo_host k remove_script = (Inr (), [])"
  using strip_prefix_append[of remove_script "[]"]
  by (simp_all add: demo_host_def del: append_Cons)

lemma demo_apply_flush: "nft_apply demo_host k (''flush ruleset'' @ NL @ d @ NL) = (Inr (), d)"
proof -
  have "strip_prefix remove_script (''flush ruleset'' @ NL @ d @ NL) = None"
    by (simp add: remove_script_def)
  moreover have "strip_prefix (''flush ruleset'' @ NL) (''flush ruleset'' @ NL @ d @ NL) = Some (d @ NL)"
    using strip_prefix_append[of "''flush ruleset'' @ NL" "d @ NL"] by simp
  ultimately show ?thesis
    by (simp add: demo_host_def NL_def butlast_append del: append_Cons)
qed

lemma demo_apply_fails:
  "fst (nft_apply demo_host k s) \<noteq> Inr () \<Longrightarrow> snd (nft_apply demo_host k s) = k"
  by (simp add: demo_host_def del: append_Cons split: option.splits)

lemma demo_documented: "nft_documented demo_host"
  unfolding nft_documented_def restores_def replace_script_remove
  by (auto simp: demo_apply demo_apply_flush demo_apply_fails simp del: append_Cons)
    (auto simp: demo_host_def split: if_splits)

text \<open>An apply on the demo host, and undoing it.\<close>

lemma demo_apply_returns:
  "\<exists>ov w1. apply_managed demo_host demo_paths demo_facts 60 False demo_world = (Inr ov, w1)"
  by (rule apply_managed_accepted[where v = "Some ''table inet asc { }''"
        and k = "render_table (smodel (drop_expired 1000 default_state)) demo_facts 1000"])
    (simp_all add: demo_world_def state_of_def replace_script_remove demo_apply MIN_TIMEOUT_def MAX_TIMEOUT_def
      default_state_def, simp_all add: demo_host_def)

lemma demo_applied:
  "\<exists>p t. pending_doc (snd (apply_managed demo_host demo_paths demo_facts 60 False demo_world)) = Doc p
     \<and> prollback p = replace_script ''table inet asc { }'' \<and> deadline_unix p = 1060
     \<and> outcomes (snd (apply_managed demo_host demo_paths demo_facts 60 False demo_world)) = []
     \<and> clock (snd (apply_managed demo_host demo_paths demo_facts 60 False demo_world)) = 1000
     \<and> state_doc (snd (apply_managed demo_host demo_paths demo_facts 60 False demo_world))
       = Doc (drop_expired 1000 default_state)"
proof -
  obtain ov w1 where ok: "apply_managed demo_host demo_paths demo_facts 60 False demo_world = (Inr ov, w1)"
    using demo_apply_returns by blast
  have rb: "fst (rollback_for demo_host (drop_expired 1000 default_state) Managed demo_world)
      = Inr (replace_script ''table inet asc { }'')"
    by (simp add: rollback_for_def io_simps default_state_def demo_host_def demo_world_def)
  have "outcomes demo_world = []" "state_doc demo_world \<noteq> Corrupt" "clock demo_world = 1000"
    "state_of demo_world = default_state" by (simp_all add: demo_world_def state_of_def)
  with apply_managed_ok[OF ok] rb show ?thesis unfolding ok by (auto simp: pending_for_def)
qed

lemma demo_rollback:
  assumes "pending_doc w = Doc p" "prollback p = replace_script t" "outcomes w = []" "state_doc w \<noteq> Corrupt"
  shows "\<exists>ov. fst (rollback demo_host f w) = Inr ov"
proof -
  have a: "nft_apply demo_host (kernel w) (prollback p) = (Inr (), t)"
    using assms(2) by (simp add: replace_script_remove demo_apply)
  let ?w = "w\<lparr>kernel := t, pending_doc := Absent,
      state_doc := Doc (noted p ''was rolled back by request'' (state_of w)), outcomes := []\<rparr>"
  obtain ov where "overview_locked demo_host f ?w = (Inr ov, ?w)" using overview_run[of ?w demo_host f] by auto
  with rollback_locked_fine[OF assms(3,4) a, of "''was rolled back by request''"] assms(1) show ?thesis
    by (simp add: rollback_def bind_def seq_def load_pending_run)
qed

section \<open>The way back\<close>

text \<open>
  C1. Nobody confirms. From a host at rest with the managed table \<open>v\<close>, run any operations that
  do not confirm, disable or apply without a window: edits, windowed applies, rollbacks,
  timer turns, failing effects, a kill of the daemon at any effect and restarts. Whatever
  happened, when no change is pending the table is \<open>v\<close>, and when one is pending a rollback
  or an expiry that reports success puts \<open>v\<close> back. \<open>nft\<close> behaves as documented.
\<close>

theorem unconfirmed_change_undone:
  assumes "nft_documented H" and "at_rest H v w" and "steady v w" and "list_all unconfirmed ops"
    and "w1 = run_ops (exec_op H P) w ops"
  shows "((\<forall>p. pending_doc w1 \<noteq> Doc p) \<longrightarrow> nft_list_table H (kernel w1) = Inr v)
    \<and> (\<forall>f ov. fst (rollback H f w1) = Inr ov \<longrightarrow> nft_list_table H (kernel (snd (rollback H f w1))) = Inr v)
    \<and> (\<forall>i now. fst (expire H i now w1) = Inr True \<longrightarrow> nft_list_table H (kernel (snd (expire H i now w1))) = Inr v)"
proof -
  have "recoverable H v w1"
    unfolding assms(5) by (rule fw_back.guarded_run[OF assms(4)])
      (simp add: recoverable_def assms(1,3) at_rest_home[OF assms(2)])
  then have home: "home H v w1" by (simp add: recoverable_def)
  show ?thesis
    using home_at_rest[OF home] rollback_restores[OF home] expire_restores[OF home] by blast
qed

theorem unconfirmed_change_undone_witness:
  "\<exists>ov. fst (rollback demo_host demo_facts
        (run_ops (exec_op demo_host demo_paths) demo_world [Apply demo_facts 60 False, Wait 5])) = Inr ov
   \<and> nft_list_table demo_host (kernel (snd (rollback demo_host demo_facts
        (run_ops (exec_op demo_host demo_paths) demo_world [Apply demo_facts 60 False, Wait 5]))))
     = Inr (Some ''table inet asc { }'')"
proof -
  let ?w1 = "run_ops (exec_op demo_host demo_paths) demo_world [Apply demo_facts 60 False, Wait 5]"
  have rest: "at_rest demo_host (Some ''table inet asc { }'') demo_world"
    by (simp add: at_rest_def demo_host_def demo_world_def)
  have "steady (Some ''table inet asc { }'') demo_world" by (simp add: steady_def)
  moreover have "list_all unconfirmed [Apply demo_facts 60 False, Wait 5]" by simp
  ultimately have undo: "\<forall>f ov. fst (rollback demo_host f ?w1) = Inr ov \<longrightarrow>
      nft_list_table demo_host (kernel (snd (rollback demo_host f ?w1))) = Inr (Some ''table inet asc { }'')"
    using unconfirmed_change_undone[OF demo_documented rest _ _ refl, of "[Apply demo_facts 60 False, Wait 5]" demo_paths]
    by blast
  have "\<exists>ov. fst (rollback demo_host demo_facts ?w1) = Inr ov"
    using demo_applied by (auto intro!: demo_rollback)
  with undo show ?thesis by blast
qed

text \<open>
  C4. What is loaded at boot is only changed by a commit or by disabling: after any such run the
  boot ruleset and its unit are those of the beginning, so a change nobody confirmed does
  not come back after a reboot.
\<close>

theorem boot_files_untouched:
  assumes "list_all unconfirmed ops" and "w1 = run_ops (exec_op H P) w ops"
  shows "ruleset_file w1 = ruleset_file w \<and> unit_file w1 = unit_file w"
  using fw_boot.guarded_run[OF assms(1), where s = w and b = "boot w" and H = H and P = P] assms(2)
  by (simp add: boot_def)

theorem boot_files_untouched_witness:
  "ruleset_file (run_ops (exec_op demo_host demo_paths) demo_world
     [Apply demo_facts 60 False, ApplyRaw demo_facts ''flush ruleset'' True 30, Wait 90]) = None"
proof -
  have "list_all unconfirmed [Apply demo_facts 60 False, ApplyRaw demo_facts ''flush ruleset'' True 30, Wait 90]"
    by simp
  from boot_files_untouched[OF this refl, of demo_host demo_paths demo_world] show ?thesis
    by (simp add: demo_world_def)
qed

text \<open>
  C5. The stored model stays well formed on every run of operations, time, faults, restarts and
  host changes: at most \<open>MAX_RULES\<close> rules with distinct ids, each a fixed point of
  \<open>normalize\<close> that claims no preset, and sets of at most \<open>MAX_SET_ENTRIES\<close> entries with
  distinct canonical addresses.
\<close>

theorem stored_model_well_formed:
  assumes "wf_state_doc (state_doc w)"
  shows "wf_state_doc (state_doc (run_ops (exec_op H P) w ops))"
  by (rule fw.run_inv[OF assms])

theorem stored_model_well_formed_witness:
  "wf_state_doc (state_doc (run_ops (exec_op demo_host demo_paths) demo_world
     [UpsertRule default_rule, Apply demo_facts 60 False, Faults [Fail], Restart []]))"
proof -
  have "wf_state_doc (state_doc demo_world)" by (simp add: demo_world_def wf_state_doc_def)
  then show ?thesis by (rule stored_model_well_formed)
qed

section \<open>Apply, then confirm or wait\<close>

text \<open>
  C3. A windowed apply of the managed model that is confirmed in time commits exactly what it
  applied: the mode is managed, the boot ruleset is the script that is in the kernel, nothing
  is pending, the stored table and fingerprint are those of the model at the apply, and the
  overview reports no unapplied change. The confirmation itself loads nothing.
\<close>

theorem apply_then_confirm:
  assumes "apply_managed H P f timeout force w = (Inr ov, w1)" and "timeout \<noteq> 0"
    and "outcomes w = []" and "state_doc w \<noteq> Corrupt" and "systemctl_works H" and "n \<le> timeout"
  shows "\<exists>ov2 w2 k. confirm H P [] f (exec_op H P w1 (Wait n)) = (Inr ov2, w2)
    \<and> omode ov2 = Managed \<and> \<not> changed ov2 \<and> opending ov2 = None \<and> pending_doc w2 = Absent
    \<and> applied_table (state_of w2) = render_table (smodel (drop_expired (clock w) (state_of w))) f (clock w)
    \<and> ruleset_file w2 = Some (replace_script (applied_table (state_of w2)))
    \<and> nft_apply H k (replace_script (applied_table (state_of w2))) = (Inr (), kernel w1)
    \<and> (\<not> unit_dir P \<longrightarrow> kernel w2 = kernel w1)"
proof -
  let ?s = "drop_expired (clock w) (state_of w)"
  obtain p k where p: "pending_doc w1 = Doc p" "pending_for ?s f (clock w) timeout p"
      "nft_apply H k (pscript p) = (Inr (), kernel w1)"
      "outcomes w1 = []" "clock w1 = clock w" "state_doc w1 = Doc ?s"
    using apply_managed_ok[OF assms(1-4)] by blast
  let ?w = "exec_op H P w1 (Wait n)"
  have w: "outcomes ?w = []" "state_doc ?w \<noteq> Corrupt" "pending_doc ?w = Doc p" "clock ?w \<le> deadline_unix p"
      "state_of ?w = ?s" "kernel ?w = kernel w1"
    using p assms(6) by (auto simp: pending_for_def state_of_def)
  obtain ov2 w2 where c: "confirm H P [] f ?w = (Inr ov2, w2)"
      "state_doc w2 = Doc (committed p (clock ?w) ?s)" "pending_doc w2 = Absent"
      "ruleset_file w2 = Some (pscript p)" "\<not> unit_dir P \<longrightarrow> kernel w2 = kernel w1"
      "omode ov2 = target_mode p" "opending ov2 = None"
      "changed ov2 = state_changed f (committed p (clock ?w) ?s)"
    using confirm_fine[OF assms(5) w(1,2,3), of "[]" P f] w by auto
  have "state_of w2 = committed p (clock ?w) ?s" using c(2) by (simp add: state_of_def)
  with c p(2,3) show ?thesis by (auto simp: committed_def pending_for_def state_changed_def)
qed

theorem apply_then_confirm_witness:
  "\<exists>ov w1 ov2 w2. apply_managed demo_host demo_paths demo_facts 60 False demo_world = (Inr ov, w1)
    \<and> confirm demo_host demo_paths [] demo_facts (exec_op demo_host demo_paths w1 (Wait 60)) = (Inr ov2, w2)
    \<and> omode ov2 = Managed \<and> \<not> changed ov2"
proof -
  obtain ov w1 where ok: "apply_managed demo_host demo_paths demo_facts 60 False demo_world = (Inr ov, w1)"
    using demo_apply_returns by blast
  have "outcomes demo_world = []" "state_doc demo_world \<noteq> Corrupt" by (simp_all add: demo_world_def)
  moreover have "systemctl_works demo_host" by (simp add: systemctl_works_def demo_host_def)
  ultimately show ?thesis using apply_then_confirm[OF ok, of 60] ok by fastforce
qed

text \<open>
  C2. A windowed apply that nobody confirms goes away by itself: once the window is over, one
  turn of its timer restores the table \<open>v\<close> of before, provided \<open>nft\<close> still loads it. The
  change is no longer pending, the timer has ended, the mode and the boot files never
  changed, and the overview says why.
\<close>

theorem apply_then_timeout:
  assumes "nft_documented H" and "nft_list_table H (kernel w) = Inr v"
    and "\<And>p. pending_doc w1 = Doc p \<Longrightarrow> fst (nft_apply H (kernel w1) (prollback p)) = Inr ()"
    and "apply_managed H P f timeout force w = (Inr ov, w1)" and "timeout \<noteq> 0"
    and "outcomes w = []" and "state_doc w \<noteq> Corrupt" and "timeout \<le> n"
  shows "\<exists>p w2. pending_doc w1 = Doc p
    \<and> w2 = run_ops (exec_op H P) w1 [Wait n, TimerTurn (pid p, deadline_unix p, 0)]
    \<and> nft_list_table H (kernel w2) = Inr v \<and> pending_doc w2 = Absent \<and> timers w2 = timers w
    \<and> smode (state_of w2) = smode (state_of w) \<and> boot w2 = boot w
    \<and> last_error (state_of w2) = change_message (pid p) ''was not confirmed in time''"
proof -
  let ?s = "drop_expired (clock w) (state_of w)"
  obtain p where p: "pending_doc w1 = Doc p" "pending_for ?s f (clock w) timeout p"
      "fst (rollback_for H ?s Managed w) = Inr (prollback p)"
      "timers w1 = (pid p, deadline_unix p, 0) # timers w"
      "outcomes w1 = []" "clock w1 = clock w" "state_doc w1 = Doc ?s" "boot w1 = boot w"
    using apply_managed_ok[OF assms(4-7)] by blast
  have r: "restores H (prollback p) v"
    using rollback_for_restores[OF assms(1,2), of ?s Managed "prollback p" "snd (rollback_for H ?s Managed w)"] p(3)
    by (metis prod.collapse)
  let ?w = "exec_op H P w1 (Wait n)"
  obtain k where k: "nft_apply H (kernel ?w) (prollback p) = (Inr (), k)"
    using assms(3)[OF p(1)] by (cases "nft_apply H (kernel w1) (prollback p)") auto
  have w: "outcomes ?w = []" "state_doc ?w \<noteq> Corrupt" "pending_doc ?w = Doc p" "deadline_unix p \<le> clock ?w"
      "state_of ?w = ?s"
    using p assms(8) by (auto simp: pending_for_def state_of_def)
  have "nft_list_table H k = Inr v" using r k by (simp add: restores_def)
  with timer_turn_fine[OF w(1-4) k, of 0] p w(5) show ?thesis
    by (auto simp: state_of_def noted_def boot_def)
qed

theorem apply_then_timeout_witness:
  "\<exists>ov w1 p. apply_managed demo_host demo_paths demo_facts 60 False demo_world = (Inr ov, w1)
    \<and> pending_doc w1 = Doc p
    \<and> nft_list_table demo_host (kernel (run_ops (exec_op demo_host demo_paths) w1
        [Wait 61, TimerTurn (pid p, deadline_unix p, 0)])) = Inr (Some ''table inet asc { }'')"
proof -
  obtain ov w1 where ok: "apply_managed demo_host demo_paths demo_facts 60 False demo_world = (Inr ov, w1)"
    using demo_apply_returns by blast
  have "nft_list_table demo_host (kernel demo_world) = Inr (Some ''table inet asc { }'')"
    by (simp add: demo_host_def demo_world_def)
  moreover have "fst (nft_apply demo_host (kernel w1) (prollback p)) = Inr ()" if "pending_doc w1 = Doc p" for p
    using demo_applied that by (auto simp: ok replace_script_remove demo_apply)
  moreover have "outcomes demo_world = []" "state_doc demo_world \<noteq> Corrupt" by (simp_all add: demo_world_def)
  ultimately show ?thesis
    using apply_then_timeout[OF demo_documented _ _ ok, of "Some ''table inet asc { }''" 61] ok by auto
qed

text \<open>
  A confirmation with a stale id, or after the deadline, never commits: it is an error, the
  boot files are as before, and of the stored state at most the error text changes.
\<close>

theorem late_confirm_never_commits:
  assumes "pending_doc w = Doc p" and "i \<noteq> [] \<and> i \<noteq> pid p \<or> deadline_unix p < clock w"
  shows "(\<exists>e. fst (confirm H P i f w) = Inl e)
    \<and> ruleset_file (snd (confirm H P i f w)) = ruleset_file w
    \<and> (state_of (snd (confirm H P i f w)))\<lparr>last_error := []\<rparr> = (state_of w)\<lparr>last_error := []\<rparr>"
  using confirm_refused[OF assms, of H P f "[]"] by (simp add: boot_def)

definition demo_pending :: pending where
  "demo_pending = \<lparr>pid = ''c-1'', started_unix = 900, deadline_unix = 960, target_mode = Managed,
     pscript = ''new'', ptable = ''new'', pfingerprint = ''new'',
     prollback = replace_script ''table inet asc { }''\<rparr>"

theorem late_confirm_never_commits_witness:
  "ruleset_file (snd (confirm demo_host demo_paths ''c-1'' demo_facts
     (demo_world\<lparr>pending_doc := Doc demo_pending\<rparr>))) = None"
proof -
  have "pending_doc (demo_world\<lparr>pending_doc := Doc demo_pending\<rparr>) = Doc demo_pending" by simp
  moreover have "deadline_unix demo_pending < clock (demo_world\<lparr>pending_doc := Doc demo_pending\<rparr>)"
    by (simp add: demo_pending_def demo_world_def)
  ultimately show ?thesis
    using late_confirm_never_commits[of "demo_world\<lparr>pending_doc := Doc demo_pending\<rparr>" demo_pending "''c-1''"
        demo_host demo_paths demo_facts]
    by (simp add: demo_world_def)
qed

text \<open>
  While a change waits for confirmation, no second one starts: applying the model or a raw
  text and disabling are errors that leave the whole world as it is, so the stored way
  back is never overwritten.
\<close>

theorem one_change_at_a_time:
  assumes "pending_doc w = Doc p"
  shows "(\<exists>e. apply_managed H P f timeout force w = (Inl e, w))
    \<and> (\<exists>e. apply_raw H P f text ack timeout w = (Inl e, w))
    \<and> disable H P f w = (Inl (Precondition ChangePending), w)"
  using refused_while_pending[OF assms] by blast

theorem one_change_at_a_time_witness:
  "disable demo_host demo_paths demo_facts (demo_world\<lparr>pending_doc := Doc demo_pending\<rparr>)
     = (Inl (Precondition ChangePending), demo_world\<lparr>pending_doc := Doc demo_pending\<rparr>)"
proof -
  have "pending_doc (demo_world\<lparr>pending_doc := Doc demo_pending\<rparr>) = Doc demo_pending" by simp
  from one_change_at_a_time[OF this] show ?thesis by blast
qed

section \<open>Edits\<close>

text \<open>
  An edit of the rules is all or nothing and touches nothing else: whatever effect fails,
  the kernel, the pending change, the boot files and the timers are the same. An upsert
  that returns \<open>n\<close> has stored it under its id, which the stored rules then find, and has
  left every other rule as it was; an error leaves the stored state as it read before.
\<close>

theorem upsert_rule_stores:
  "outside (snd (upsert_rule H r w)) = outside w
   \<and> (case fst (upsert_rule H r w) of
        Inl e \<Rightarrow> state_of (snd (upsert_rule H r w)) = state_of w
      | Inr n \<Rightarrow> \<not> is_preset r
          \<and> (\<exists>m. rule_normalize r = Inr m \<and> n = m\<lparr>rid := rid n\<rparr> \<and> (rid m \<noteq> [] \<longrightarrow> n = m))
          \<and> lookup_key rid (mrules (smodel (state_of (snd (upsert_rule H r w))))) (rid n) = Some n
          \<and> (\<forall>i. i \<noteq> rid n \<longrightarrow>
              lookup_key rid (mrules (smodel (state_of (snd (upsert_rule H r w))))) i
              = lookup_key rid (mrules (smodel (state_of w))) i)
          \<and> msettings (smodel (state_of (snd (upsert_rule H r w)))) = msettings (smodel (state_of w))
          \<and> msets (smodel (state_of (snd (upsert_rule H r w)))) = msets (smodel (state_of w)))"
  using upsert_rule_triple[of "state_of w" H r] frames_outside_edit(2)[THEN framesD, of H r w]
  by (auto simp: triple_def split: sum.split)

theorem upsert_rule_stores_witness:
  "\<exists>n. fst (upsert_rule demo_host (default_rule\<lparr>rid := ''r-1''\<rparr>) demo_world) = Inr n
     \<and> lookup_key rid (mrules (smodel (state_of (snd (upsert_rule demo_host (default_rule\<lparr>rid := ''r-1''\<rparr>) demo_world)))))
         ''r-1'' = Some n"
proof -
  let ?r = "default_rule\<lparr>rid := ''r-1''\<rparr>"
  have "wf_rule ?r"
    using default_rule_wf by (auto simp: wf_rule_def rid_ok_def MAX_ID_def byte_len_def rule_char_def
        is_alnum_def is_digit_def is_lower_def is_upper_def default_rule_def split: sum.splits)
  then have n: "rule_normalize ?r = Inr ?r" by (rule wf_rule_normalize)
  have "fst (upsert_rule demo_host ?r demo_world) = Inr ?r"
    using n by (simp add: upsert_rule_def is_preset_def starts_with_def default_rule_def demo_world_def io_simps
        load_state_fine bind_def seq_def state_of_def default_state_def default_model_def save_state_def
        effect_fine MAX_RULES_def Let_def lift_result_def)
  with upsert_rule_stores[of demo_host ?r demo_world] show ?thesis by (simp add: default_rule_def)
qed

text \<open>
  The lock-out guard: without force, no settings are stored that switch the SSH or API preset
  off while the stored ones have it on. Stored settings always pass their validation.
\<close>

theorem lockout_guard:
  assumes "fst (update_settings new force w) = Inr r"
    and "p \<in> set CRITICAL_PRESETS" and "preset_enabled (msettings (smodel (state_of w))) p" and "\<not> force"
  shows "settings_validate new = Inr ()
    \<and> msettings (smodel (state_of (snd (update_settings new force w)))) = new
    \<and> preset_enabled new p"
  using update_settings_triple[of "state_of w" new force] assms
  by (auto simp: triple_def preset_enabled_def list_ex_iff)


theorem lockout_guard_witness:
  "preset_enabled default_settings PRESET_SSH
   \<and> fst (update_settings default_settings False demo_world) = Inr default_settings"
proof -
  have ok: "fst (update_settings default_settings False demo_world) = Inr default_settings"
    by (simp add: update_settings_def demo_world_def load_state_fine settings_validate_def default_settings_def
        state_of_def default_state_def default_model_def io_simps bind_def seq_def save_state_def effect_fine Let_def)
  moreover have "preset_enabled (msettings (smodel (state_of demo_world))) PRESET_SSH"
    by (simp add: preset_enabled_def demo_world_def state_of_def default_state_def default_model_def default_settings_def)
  ultimately show ?thesis using lockout_guard[OF ok, of PRESET_SSH] by (simp add: CRITICAL_PRESETS_def)
qed

section \<open>The timer and the atomicity of a commit\<close>

text \<open>
  C30. The rollback timer ends: past its deadline its turns are at most \<open>ATTEMPTS\<close>, whatever the
  effects do, and after them no timer of this change is left.
\<close>

theorem timer_ends:
  assumes "d \<le> clock w" and "distinct (timers w)" and "\<forall>m. (i, d, m) \<in> set (timers w) \<longrightarrow> m = 0"
  shows "(i, d, m) \<notin> set (timers (run_ops (exec_op H P) w (map (\<lambda>j. TimerTurn (i, d, j)) [0..<ATTEMPTS])))"
  by (rule only_turns) (use assms in \<open>simp_all add: only_def ATTEMPTS_def\<close>)

theorem timer_ends_witness:
  "(''c-1'', 960, 0) \<notin> set (timers (run_ops (exec_op demo_host demo_paths)
     (demo_world\<lparr>timers := [(''c-1'', 960, 0)]\<rparr>) (map (\<lambda>j. TimerTurn (''c-1'', 960, j)) [0..<ATTEMPTS])))"
proof -
  let ?w = "demo_world\<lparr>timers := [(''c-1'', 960, 0)]\<rparr>"
  have "960 \<le> clock ?w" "distinct (timers ?w)" "\<forall>m. (''c-1'', 960, m) \<in> set (timers ?w) \<longrightarrow> m = 0"
    by (simp_all add: demo_world_def)
  then show ?thesis by (rule timer_ends)
qed

text \<open>
  A commit is not atomic. When the state is written but the boot ruleset is not, the
  confirmation reports an error and leaves the change pending, with the state already saying
  that it is in force; the timer then takes the change out of the kernel, and the state
  still names its mode and its table while the boot ruleset is the old one.
\<close>

theorem half_confirmed_change_is_undone:
  assumes "pending_doc w = Doc p" and "clock w \<le> deadline_unix p" and "outcomes w = [Fine, Fail]"
    and "state_doc w \<noteq> Corrupt" and "nft_apply H (kernel w) (prollback p) = (Inr (), k)"
    and "w2 = snd (timer_turn H (pid p, deadline_unix p, 0) ((snd (confirm H P [] f w))\<lparr>clock := deadline_unix p\<rparr>))"
  shows "fst (confirm H P [] f w) = Inl (Other IoFailed)
    \<and> kernel w2 = k \<and> pending_doc w2 = Absent \<and> smode (state_of w2) = target_mode p
    \<and> applied_table (state_of w2) = ptable p \<and> ruleset_file w2 = ruleset_file w"
proof -
  let ?w1 = "(snd (confirm H P [] f w))\<lparr>clock := deadline_unix p\<rparr>"
  have w1: "?w1 = w\<lparr>state_doc := Doc (committed p (clock w) (state_of w)), outcomes := [], clock := deadline_unix p\<rparr>"
    using confirm_half[OF assms(1-4), of H P f] by simp
  have "timer_turn H (pid p, deadline_unix p, 0) ?w1 = (Inr (), ?w1\<lparr>kernel := k, pending_doc := Absent,
     state_doc := Doc (noted p ''was not confirmed in time'' (state_of ?w1)), outcomes := [],
     timers := remove1 (pid p, deadline_unix p, 0) (timers ?w1)\<rparr>)"
    unfolding w1 by (rule timer_turn_fine) (use assms in simp_all)
  then show ?thesis
    using confirm_half[OF assms(1-4), of H P f] assms(6) unfolding w1
    by (simp add: state_of_def noted_def committed_def)
qed

theorem half_confirmed_change_is_undone_witness:
  "fst (confirm demo_host demo_paths [] demo_facts
     (demo_world\<lparr>pending_doc := Doc demo_pending, clock := 950, outcomes := [Fine, Fail], kernel := ''new''\<rparr>))
     = Inl (Other IoFailed)"
proof -
  let ?w = "demo_world\<lparr>pending_doc := Doc demo_pending, clock := 950, outcomes := [Fine, Fail], kernel := ''new''\<rparr>"
  have "pending_doc ?w = Doc demo_pending" "clock ?w \<le> deadline_unix demo_pending"
    "outcomes ?w = [Fine, Fail]" "state_doc ?w \<noteq> Corrupt"
    "nft_apply demo_host (kernel ?w) (prollback demo_pending) = (Inr (), ''table inet asc { }'')"
    by (simp_all add: demo_pending_def demo_world_def replace_script_remove demo_apply)
  from half_confirmed_change_is_undone[OF this refl] show ?thesis by blast
qed

end
