(* ===== verification/Glob.thy ===== *)
theory Glob
  imports Prelude
begin

text \<open>
  \<open>backup/glob.rs\<close>: the matcher of backup patterns. \<open>match_bytes\<close> is the recursive
  matcher of the code, on the UTF-8 bytes of pattern and path; \<open>glob_lang\<close> is what the
  pattern language means, as a set of texts. \<open>match_bytes_lang\<close> says that the matcher decides it
  on bytes, and \<open>glob_matches_chars\<close> on characters, as documented, for patterns without a
  question mark or paths in ASCII. \<open>matches_any\<close> adds the rule that a matched directory covers
  everything under it.
\<close>

section \<open>UTF-8\<close>

text \<open>The bytes of a character U+0000 to U+00FF.\<close>

definition utf8_char :: "char \<Rightarrow> string" where
  "utf8_char c = (if code c < 128 then [c]
     else [char_of (192 + code c div 64), char_of (128 + code c mod 64 :: nat)])"

definition as_bytes :: "string \<Rightarrow> string" where
  "as_bytes s = concat (map utf8_char s)"

lemma as_bytes_simps [simp]:
  "as_bytes [] = []" "as_bytes (c # s) = utf8_char c @ as_bytes s"
  "as_bytes (s @ t) = as_bytes s @ as_bytes t"
  by (simp_all add: as_bytes_def)

lemma length_as_bytes: "length (as_bytes s) = byte_len s"
  by (induction s) (auto simp: utf8_char_def)

lemma as_bytes_ascii: "(\<And>c. c \<in> set s \<Longrightarrow> code c < 128) \<Longrightarrow> as_bytes s = s"
  by (induction s) (auto simp: utf8_char_def)

section \<open>The matcher\<close>

text \<open>\<open>rest.strip_prefix(b"/").unwrap_or(rest)\<close>.\<close>

definition skip_slash :: "string \<Rightarrow> string" where
  "skip_slash s = (case s of c # r \<Rightarrow> if c = CHR ''/'' then r else s | [] \<Rightarrow> [])"

lemma skip_slash_length: "length (skip_slash s) \<le> length s"
  by (cases s) (auto simp: skip_slash_def)

text \<open>The places a \<open>*\<close> may end at: up to the first slash.\<close>

definition star_ends :: "string \<Rightarrow> nat list" where
  "star_ends path = takeWhile (\<lambda>i. i = 0 \<or> path ! (i - 1) \<noteq> CHR ''/'') [0..<Suc (length path)]"

function match_bytes :: "string \<Rightarrow> string \<Rightarrow> bool" where
  "match_bytes [] path = (path = [])"
| "match_bytes (c # ps) path =
     (if c = CHR ''*'' then
        (if ps \<noteq> [] \<and> hd ps = CHR ''*''
         then list_ex (\<lambda>i. match_bytes (skip_slash (tl ps)) (drop i path)) [0..<Suc (length path)]
         else list_ex (\<lambda>i. match_bytes ps (drop i path)) (star_ends path))
      else if c = CHR ''?'' then path \<noteq> [] \<and> hd path \<noteq> CHR ''/'' \<and> match_bytes ps (tl path)
      else path \<noteq> [] \<and> hd path = c \<and> match_bytes ps (tl path))"
  by pat_completeness auto
termination
proof (relation "measure (length \<circ> fst)")
  fix c :: char and ps path :: string and i
  show "((skip_slash (tl ps), drop i path), c # ps, path) \<in> measure (length \<circ> fst)"
    using skip_slash_length[of "tl ps"] by simp
qed simp_all

text \<open>\<open>matches\<close>, and \<open>matches_any\<close> with the ancestors of the path, longest first.\<close>

definition glob_matches :: "string \<Rightarrow> string \<Rightarrow> bool" where
  "glob_matches pattern path = match_bytes (as_bytes pattern) (as_bytes path)"

definition slash_ends :: "string \<Rightarrow> nat list" where
  "slash_ends path = rev (filter (\<lambda>i. path ! i = CHR ''/'') [0..<length path])"

definition matches_any :: "string list \<Rightarrow> string \<Rightarrow> bool" where
  "matches_any patterns path = list_ex (\<lambda>p. glob_matches p path \<or>
     list_ex (\<lambda>i. glob_matches p (take i path)) (slash_ends path)) patterns"

section \<open>What a pattern means\<close>

datatype glob_token = Lit char | AnyOne | Run | RunSlash

fun glob_tokens :: "string \<Rightarrow> glob_token list" where
  "glob_tokens [] = []"
| "glob_tokens [c] =
     [if c = CHR ''*'' then Run else if c = CHR ''?'' then AnyOne else Lit c]"
| "glob_tokens [c, d] =
     (if c = CHR ''*'' then (if d = CHR ''*'' then [RunSlash] else Run # glob_tokens [d])
      else if c = CHR ''?'' then AnyOne # glob_tokens [d]
      else Lit c # glob_tokens [d])"
| "glob_tokens (c # d # e # ps) =
     (if c = CHR ''*'' then
        (if d = CHR ''*'' then RunSlash # (if e = CHR ''/'' then glob_tokens ps else glob_tokens (e # ps))
         else Run # glob_tokens (d # e # ps))
      else if c = CHR ''?'' then AnyOne # glob_tokens (d # e # ps)
      else Lit c # glob_tokens (d # e # ps))"

fun token_lang :: "glob_token \<Rightarrow> string set" where
  "token_lang (Lit c) = {[c]}"
| "token_lang AnyOne = {[c] | c. c \<noteq> CHR ''/''}"
| "token_lang Run = {u. CHR ''/'' \<notin> set u}"
| "token_lang RunSlash = UNIV"

fun glob_lang :: "glob_token list \<Rightarrow> string set" where
  "glob_lang [] = {[]}"
| "glob_lang (t # ts) = {u @ v | u v. u \<in> token_lang t \<and> v \<in> glob_lang ts}"

lemma lang_Lit: "s \<in> glob_lang (Lit c # ts) \<longleftrightarrow> s \<noteq> [] \<and> hd s = c \<and> tl s \<in> glob_lang ts"
  by (cases s) auto

lemma lang_AnyOne:
  "s \<in> glob_lang (AnyOne # ts) \<longleftrightarrow> s \<noteq> [] \<and> hd s \<noteq> CHR ''/'' \<and> tl s \<in> glob_lang ts"
  by (cases s) (auto, metis append_Cons append_Nil)

lemma lang_Run:
  "s \<in> glob_lang (Run # ts) \<longleftrightarrow>
     (\<exists>i \<le> length s. CHR ''/'' \<notin> set (take i s) \<and> drop i s \<in> glob_lang ts)"
proof
  assume "s \<in> glob_lang (Run # ts)"
  then obtain u v where "s = u @ v" "CHR ''/'' \<notin> set u" "v \<in> glob_lang ts" by auto
  then show "\<exists>i \<le> length s. CHR ''/'' \<notin> set (take i s) \<and> drop i s \<in> glob_lang ts"
    by (intro exI[of _ "length u"]) simp
next
  assume "\<exists>i \<le> length s. CHR ''/'' \<notin> set (take i s) \<and> drop i s \<in> glob_lang ts"
  then obtain i where "CHR ''/'' \<notin> set (take i s)" "drop i s \<in> glob_lang ts" by blast
  then have "s = take i s @ drop i s \<and> take i s \<in> token_lang Run \<and> drop i s \<in> glob_lang ts"
    by simp
  then show "s \<in> glob_lang (Run # ts)" unfolding glob_lang.simps by blast
qed

lemma lang_RunSlash:
  "s \<in> glob_lang (RunSlash # ts) \<longleftrightarrow> (\<exists>i \<le> length s. drop i s \<in> glob_lang ts)"
proof
  assume "s \<in> glob_lang (RunSlash # ts)"
  then obtain u v where "s = u @ v" "v \<in> glob_lang ts" by auto
  then show "\<exists>i \<le> length s. drop i s \<in> glob_lang ts"
    by (intro exI[of _ "length u"]) simp
next
  assume "\<exists>i \<le> length s. drop i s \<in> glob_lang ts"
  then obtain i where "drop i s \<in> glob_lang ts" by blast
  then have "s = take i s @ drop i s \<and> take i s \<in> token_lang RunSlash \<and> drop i s \<in> glob_lang ts"
    by simp
  then show "s \<in> glob_lang (RunSlash # ts)" unfolding glob_lang.simps by blast
qed

lemmas lang_simps = lang_Lit lang_AnyOne lang_Run lang_RunSlash

lemma mem_takeWhile_upto:
  "i \<in> set (takeWhile P [0..<n]) \<longleftrightarrow> i < n \<and> (\<forall>j \<le> i. P j)"
proof (induction n)
  case (Suc n)
  show ?case
  proof (cases "\<forall>j < n. P j")
    case True
    then have "takeWhile P ([0..<n] @ [n]) = [0..<n] @ takeWhile P [n]"
      by (intro takeWhile_append2) auto
    moreover have "(\<forall>j \<le> i. P j) \<longleftrightarrow> (i = n \<longrightarrow> P n)" if "i \<le> n"
      using True that by (cases "i = n") (auto simp: le_less)
    ultimately show ?thesis by (auto simp: less_Suc_eq_le)
  next
    case False
    then obtain j where j: "j < n" "\<not> P j" by auto
    then have "takeWhile P ([0..<n] @ [n]) = takeWhile P [0..<n]"
      by (intro takeWhile_append1) auto
    moreover have "\<not> (\<forall>k \<le> n. P k)" using j by (metis less_imp_le)
    ultimately show ?thesis using Suc by (auto simp: less_Suc_eq)
  qed
qed simp

lemma mem_star_ends:
  "i \<in> set (star_ends s) \<longleftrightarrow> i \<le> length s \<and> CHR ''/'' \<notin> set (take i s)"
proof -
  have "(\<forall>j \<le> i. j = 0 \<or> s ! (j - 1) \<noteq> CHR ''/'') \<longleftrightarrow> CHR ''/'' \<notin> set (take i s)" if "i \<le> length s"
  proof -
    have "(\<forall>j \<le> i. j = 0 \<or> s ! (j - 1) \<noteq> CHR ''/'') \<longleftrightarrow> (\<forall>k < i. s ! k \<noteq> CHR ''/'')"
      by (metis Suc_le_eq Suc_pred' diff_Suc_1 nat.simps(3) not_gr_zero)
    then show ?thesis using that by (auto simp: in_set_conv_nth)
  qed
  then show ?thesis unfolding star_ends_def mem_takeWhile_upto by auto
qed

lemma list_ex_upto: "list_ex P [0..<Suc n] \<longleftrightarrow> (\<exists>i \<le> n. P i)"
  unfolding list_ex_iff Bex_def set_upt by (simp add: less_Suc_eq_le)

lemma list_ex_star: "list_ex P (star_ends s) \<longleftrightarrow>
    (\<exists>i \<le> length s. CHR ''/'' \<notin> set (take i s) \<and> P i)"
  by (simp add: list_ex_iff Bex_def mem_star_ends conj_assoc)

lemma match_bytes_lang: "match_bytes p s \<longleftrightarrow> s \<in> glob_lang (glob_tokens p)"
proof (induction p arbitrary: s rule: glob_tokens.induct)
  case (2 c)
  then show ?case
    by (simp add: list_ex_upto list_ex_star lang_simps del: glob_lang.simps(2) upt_Suc)
next
  case (3 c d)
  then show ?case
    by (simp add: list_ex_upto list_ex_star lang_simps skip_slash_def del: glob_lang.simps(2) upt_Suc)
next
  case (4 c d e ps)
  then show ?case
    by (simp add: list_ex_upto list_ex_star lang_simps skip_slash_def del: glob_lang.simps(2) upt_Suc)
qed simp

section \<open>Paths and their ancestors\<close>

lemma glob_matches_lang:
  "glob_matches p s \<longleftrightarrow> as_bytes s \<in> glob_lang (glob_tokens (as_bytes p))"
  by (simp add: glob_matches_def match_bytes_lang)

lemma mem_slash_ends: "i \<in> set (slash_ends s) \<longleftrightarrow> i < length s \<and> s ! i = CHR ''/''"
  by (auto simp: slash_ends_def)

lemma slash_split:
  "(\<exists>i < length s. s ! i = d \<and> P (take i s)) \<longleftrightarrow> (\<exists>a r. s = a @ d # r \<and> P a)"
proof
  assume "\<exists>i < length s. s ! i = d \<and> P (take i s)"
  then obtain i where "i < length s" "s ! i = d" "P (take i s)" by blast
  moreover from this have "s = take i s @ d # drop (Suc i) s" using id_take_nth_drop by blast
  ultimately show "\<exists>a r. s = a @ d # r \<and> P a" by blast
next
  assume "\<exists>a r. s = a @ d # r \<and> P a"
  then obtain a r where "s = a @ d # r" "P a" by blast
  then show "\<exists>i < length s. s ! i = d \<and> P (take i s)"
    by (intro exI[of _ "length a"]) simp
qed

lemma matches_any_iff:
  "matches_any ps s \<longleftrightarrow>
     (\<exists>p \<in> set ps. glob_matches p s \<or> (\<exists>a r. s = a @ CHR ''/'' # r \<and> glob_matches p a))"
proof -
  have "list_ex (\<lambda>i. glob_matches p (take i s)) (slash_ends s) \<longleftrightarrow>
      (\<exists>a r. s = a @ CHR ''/'' # r \<and> glob_matches p a)" for p
    unfolding list_ex_iff Bex_def mem_slash_ends slash_split[symmetric] by blast
  then show ?thesis by (simp add: matches_any_def list_ex_iff Bex_def)
qed

text \<open>A covered directory covers everything under it.\<close>

lemma matches_any_under: "matches_any ps d \<Longrightarrow> matches_any ps (d @ CHR ''/'' # r)"
  unfolding matches_any_iff by (metis append.assoc append_Cons)

lemma matches_any_under_left: "\<not> matches_any ps (d @ CHR ''/'' # r) \<Longrightarrow> \<not> matches_any ps d"
  using matches_any_under by blast

lemma matches_any_append: "matches_any (ps @ qs) s \<longleftrightarrow> matches_any ps s \<or> matches_any qs s"
  by (auto simp: matches_any_iff)

lemma matches_any_Nil [simp]: "\<not> matches_any [] s"
  by (simp add: matches_any_iff)

text \<open>A pattern without wildcards covers the path it names and what lies under it.\<close>

definition plain_pattern :: "string \<Rightarrow> bool" where
  "plain_pattern p = (CHR ''*'' \<notin> set p \<and> CHR ''?'' \<notin> set p)"

lemma plain_tokens: "plain_pattern p \<Longrightarrow> glob_tokens p = map Lit p"
  by (induction p rule: glob_tokens.induct) (auto simp: plain_pattern_def)

lemma lang_plain: "glob_lang (map Lit p) = {p}"
  by (induction p) auto

lemma utf8_char_plain: "c \<in> set (utf8_char d) \<Longrightarrow> code c < 128 \<Longrightarrow> c = d"
proof -
  have "code d < 256" by simp
  then have "code d div 64 < 4" by (simp add: less_mult_imp_div_less)
  then have "(192 + code d div 64) mod 256 = 192 + code d div 64"
    "(128 + code d mod 64) mod 256 = 128 + code d mod 64" by (auto intro!: mod_less)
  then show "c \<in> set (utf8_char d) \<Longrightarrow> code c < 128 \<Longrightarrow> c = d"
    by (auto simp: utf8_char_def split: if_splits)
qed

lemma as_bytes_plain: "plain_pattern p \<Longrightarrow> plain_pattern (as_bytes p)"
proof (induction p)
  case (Cons d p)
  have "c \<noteq> d \<Longrightarrow> code c < 128 \<Longrightarrow> c \<notin> set (utf8_char d)" for c
    using utf8_char_plain by blast
  from this[of "CHR ''*''"] this[of "CHR ''?''"] Cons show ?case
    by (auto simp: plain_pattern_def)
qed (simp add: plain_pattern_def)

lemma double_star_any_prefix:
  assumes "plain_pattern x" shows "glob_matches (''**/'' @ x) (y @ x)"
proof -
  have "glob_tokens (as_bytes (''**/'' @ x)) = RunSlash # map Lit (as_bytes x)"
    using plain_tokens[OF as_bytes_plain[OF assms]] by (cases "as_bytes x") (simp_all add: utf8_char_def)
  then show ?thesis
    by (auto simp: glob_matches_lang lang_plain simp del: glob_tokens.simps)
qed

lemma question_mark_ascii_only: "glob_matches ''?'' [c] \<longleftrightarrow> code c < 128 \<and> c \<noteq> CHR ''/''"
  by (auto simp: glob_matches_lang utf8_char_def)

section \<open>Bytes and characters\<close>

lemma utf8_specials [simp]:
  "utf8_char (CHR ''*'') = ''*''" "utf8_char (CHR ''?'') = ''?''" "utf8_char (CHR ''/'') = ''/''"
  by (simp_all add: utf8_char_def)

lemma glob_tokens_cons:
  "c \<noteq> CHR ''*'' \<Longrightarrow> c \<noteq> CHR ''?'' \<Longrightarrow> glob_tokens (c # x) = Lit c # glob_tokens x"
  "glob_tokens (CHR ''?'' # x) = AnyOne # glob_tokens x"
  "x = [] \<or> hd x \<noteq> CHR ''*'' \<Longrightarrow> glob_tokens (CHR ''*'' # x) = Run # glob_tokens x"
  "glob_tokens (CHR ''*'' # CHR ''*'' # x) = RunSlash # glob_tokens (skip_slash x)"
  by (cases x; cases "tl x"; force simp: skip_slash_def)+

lemma glob_tokens_lits: "CHR ''*'' \<notin> set u \<Longrightarrow> CHR ''?'' \<notin> set u \<Longrightarrow> glob_tokens (u @ x) = map Lit u @ glob_tokens x"
  by (induction u) (auto simp: glob_tokens_cons(1) simp del: glob_tokens.simps)

fun byte_tokens :: "glob_token \<Rightarrow> glob_token list" where
  "byte_tokens (Lit c) = map Lit (utf8_char c)"
| "byte_tokens t = [t]"

lemma utf8_char_special: "c \<in> {CHR ''*'', CHR ''?'', CHR ''/''} \<Longrightarrow> c \<in> set (utf8_char d) \<longleftrightarrow> c = d"
  using utf8_char_plain[of c d] by auto

lemma as_bytes_hd: "hd (as_bytes s) = CHR ''*'' \<Longrightarrow> s \<noteq> [] \<Longrightarrow> hd s = CHR ''*''"
proof (cases s)
  case (Cons d r)
  assume "hd (as_bytes s) = CHR ''*''"
  moreover have "utf8_char d \<noteq> []" by (simp add: utf8_char_def)
  ultimately have "CHR ''*'' \<in> set (utf8_char d)" using Cons by (metis as_bytes_simps(2) hd_append2 hd_in_set)
  with utf8_char_special[of "CHR ''*''" d] Cons show ?thesis by simp
qed simp

lemma skip_slash_bytes: "skip_slash (as_bytes s) = as_bytes (skip_slash s)"
proof (cases s)
  case (Cons d r)
  have "utf8_char d \<noteq> []" by (simp add: utf8_char_def)
  then obtain b bs where b: "utf8_char d = b # bs" by (cases "utf8_char d") auto
  with utf8_char_special[of "CHR ''/''" d] have "b = CHR ''/'' \<Longrightarrow> d = CHR ''/''" by auto
  with b Cons show ?thesis by (auto simp: skip_slash_def)
qed (simp add: skip_slash_def)

lemma glob_tokens_bytes: "glob_tokens (as_bytes p) = concat (map byte_tokens (glob_tokens p))"
proof (induction "length p" arbitrary: p rule: less_induct)
  case less
  show ?case
  proof (cases p)
    case (Cons c x)
    consider (star2) y where "c = CHR ''*''" "x = CHR ''*'' # y" | (star) "c = CHR ''*''" "x = [] \<or> hd x \<noteq> CHR ''*''"
      | (one) "c = CHR ''?''" | (lit) "c \<noteq> CHR ''*''" "c \<noteq> CHR ''?''"
      by (cases x) auto
    then show ?thesis
    proof cases
      case (star2 y)
      have "glob_tokens (as_bytes (skip_slash y)) = concat (map byte_tokens (glob_tokens (skip_slash y)))"
        by (rule less) (use skip_slash_length[of y] star2 Cons in simp)
      with star2 Cons show ?thesis by (simp add: glob_tokens_cons skip_slash_bytes del: glob_tokens.simps)
    next
      case star
      then have "as_bytes x = [] \<or> hd (as_bytes x) \<noteq> CHR ''*''" using as_bytes_hd[of x] by (cases x) auto
      with star Cons less show ?thesis by (simp add: glob_tokens_cons del: glob_tokens.simps)
    next
      case one
      with Cons less show ?thesis by (simp add: glob_tokens_cons del: glob_tokens.simps)
    next
      case lit
      with Cons less utf8_char_special[of "CHR ''*''" c] utf8_char_special[of "CHR ''?''" c] show ?thesis
        by (simp add: glob_tokens_cons glob_tokens_lits del: glob_tokens.simps)
    qed
  qed simp
qed

text \<open>
  A suffix of the bytes of a text is the bytes of a suffix, or begins inside of a character; what
  comes before it has a slash exactly if the characters have one.
\<close>

definition inner_byte :: "char \<Rightarrow> bool" where
  "inner_byte b = (128 \<le> code b \<and> code b < 192)"

lemma utf8_two: "128 \<le> code c \<Longrightarrow> \<exists>a b. utf8_char c = [a, b] \<and> \<not> inner_byte a \<and> 128 \<le> code a \<and> inner_byte b"
proof -
  assume c: "128 \<le> code c"
  have "code c < 256" by simp
  then have "(192 + code c div 64) mod 256 = 192 + code c div 64" "(128 + code c mod 64) mod 256 = 128 + code c mod 64"
    using less_mult_imp_div_less[of "code c" 4 64] by (auto intro!: mod_less)
  with c show ?thesis by (simp add: utf8_char_def inner_byte_def)
qed

lemma utf8_hd: "\<exists>a r. utf8_char c = a # r \<and> \<not> inner_byte a"
  using utf8_two[of c] by (cases "code c < 128") (auto simp: utf8_char_def inner_byte_def)

lemma drop_bytes:
  assumes "i \<le> length (as_bytes s)"
  obtains (edge) u v where "s = u @ v" "drop i (as_bytes s) = as_bytes v" "take i (as_bytes s) = as_bytes u"
    | (inner) u c v b where "s = u @ c # v" "128 \<le> code c" "inner_byte b" "drop i (as_bytes s) = b # as_bytes v"
        "\<exists>a. take i (as_bytes s) = as_bytes u @ [a] \<and> utf8_char c = [a, b]"
  using assms
proof (induction s arbitrary: i thesis)
  case (Cons d s)
  show ?case
  proof (cases "i < length (utf8_char d)")
    case True
    show ?thesis
    proof (cases "i = 0")
      case True
      show ?thesis by (rule Cons.prems(1)[of "[]" "d # s"]) (simp_all add: True)
    next
      case False
      with True have d: "128 \<le> code d" "i = 1" by (auto simp: utf8_char_def split: if_splits)
      with utf8_two[OF d(1)] obtain a b where ab: "utf8_char d = [a, b]" "inner_byte b" by blast
      show ?thesis by (rule Cons.prems(2)[of "[]" d s b]) (simp_all add: d ab)
    qed
  next
    case False
    let ?n = "length (utf8_char d)"
    have i: "i - ?n \<le> length (as_bytes s)" "drop i (utf8_char d) = []" "take i (utf8_char d) = utf8_char d"
      using Cons.prems(3) False by auto
    show ?thesis
    proof (rule Cons.IH[OF _ _ i(1)])
      fix u v assume "s = u @ v" "drop (i - ?n) (as_bytes s) = as_bytes v" "take (i - ?n) (as_bytes s) = as_bytes u"
      then show thesis using i by (intro Cons.prems(1)[of "d # u" v]) simp_all
    next
      fix u c v b assume "s = u @ c # v" "128 \<le> code c" "inner_byte b" "drop (i - ?n) (as_bytes s) = b # as_bytes v"
        "\<exists>a. take (i - ?n) (as_bytes s) = as_bytes u @ [a] \<and> utf8_char c = [a, b]"
      then show thesis using i by (intro Cons.prems(2)[of "d # u" c v b]) auto
    qed
  qed
qed simp

text \<open>The bytes of a character determine it.\<close>

lemma utf8_char_first: "utf8_char c @ x = utf8_char d @ y \<Longrightarrow> c = d"
proof -
  assume e: "utf8_char c @ x = utf8_char d @ y"
  have m: "(192 + code k div 64) mod 256 = 192 + code k div 64" "(128 + code k mod 64) mod 256 = 128 + code k mod 64" for k
    using less_mult_imp_div_less[of "code k" 4 64] by (auto intro!: mod_less)
  have "code c = code d"
  proof (cases "code c < 128"; cases "code d < 128")
    assume "\<not> code c < 128" "\<not> code d < 128"
    with e have "code (char_of (192 + code c div 64)) = code (char_of (192 + code d div 64))"
      "code (char_of (128 + code c mod 64)) = code (char_of (128 + code d mod 64))" by (simp_all add: utf8_char_def)
    with m have "code c div 64 = code d div 64" "code c mod 64 = code d mod 64" by simp_all
    then show ?thesis by (metis div_mult_mod_eq)
  next
    assume c: "code c < 128" "\<not> code d < 128"
    with e have "code c = code (char_of (192 + code d div 64))" by (simp add: utf8_char_def)
    with m c show ?thesis by simp
  next
    assume c: "\<not> code c < 128" "code d < 128"
    with e have "code d = code (char_of (192 + code c div 64))" by (auto simp: utf8_char_def)
    with m c show ?thesis by simp
  qed (use e in \<open>simp add: utf8_char_def\<close>)
  then show ?thesis by simp
qed

lemma lang_lits: "s \<in> glob_lang (map Lit u @ ts) \<longleftrightarrow> (\<exists>v. s = u @ v \<and> v \<in> glob_lang ts)"
proof (induction u arbitrary: s)
  case (Cons a u)
  then show ?case by (cases s) (auto simp: lang_Lit simp del: glob_lang.simps(2))
qed simp

lemma slash_bytes: "CHR ''/'' \<in> set (as_bytes s) \<longleftrightarrow> CHR ''/'' \<in> set s"
  by (induction s) (auto simp: utf8_char_special)

lemma lang_step:
  "b # x \<in> glob_lang (Run # ts) \<Longrightarrow> b # x \<in> glob_lang ts \<or> x \<in> glob_lang (Run # ts)"
  "b # x \<in> glob_lang (RunSlash # ts) \<Longrightarrow> b # x \<in> glob_lang ts \<or> x \<in> glob_lang (RunSlash # ts)"
proof -
  show "b # x \<in> glob_lang ts \<or> x \<in> glob_lang (Run # ts)" if run: "b # x \<in> glob_lang (Run # ts)"
  proof -
    from run obtain i where i: "i \<le> Suc (length x)" "CHR ''/'' \<notin> set (take i (b # x))" "drop i (b # x) \<in> glob_lang ts"
      by (auto simp: lang_Run simp del: glob_lang.simps(2))
    then show ?thesis by (cases i) (auto simp: lang_Run simp del: glob_lang.simps(2))
  qed
  show "b # x \<in> glob_lang ts \<or> x \<in> glob_lang (RunSlash # ts)" if run: "b # x \<in> glob_lang (RunSlash # ts)"
  proof -
    from run obtain i where i: "i \<le> Suc (length x)" "drop i (b # x) \<in> glob_lang ts"
      by (auto simp: lang_RunSlash simp del: glob_lang.simps(2))
    then show ?thesis by (cases i) (auto simp: lang_RunSlash simp del: glob_lang.simps(2))
  qed
qed

definition ascii :: "string \<Rightarrow> bool" where
  "ascii s = list_all (\<lambda>c. code c < 128) s"

lemma ascii_bytes: "ascii s \<Longrightarrow> as_bytes s = s"
  by (simp add: ascii_def list_all_iff as_bytes_ascii)

lemma run_bytes:
  assumes run: "i \<le> length (as_bytes s)" "drop i (as_bytes s) \<in> glob_lang (concat (map byte_tokens ts))"
    and ask: "AnyOne \<notin> set ts \<or> ascii s"
    and edge: "\<And>v. AnyOne \<notin> set ts \<or> ascii v \<Longrightarrow> as_bytes v \<in> glob_lang (concat (map byte_tokens ts)) \<Longrightarrow> v \<in> glob_lang ts"
    and inner: "\<And>b v. AnyOne \<notin> set ts \<Longrightarrow> inner_byte b \<Longrightarrow> b # as_bytes v \<in> glob_lang (concat (map byte_tokens ts)) \<Longrightarrow> v \<in> glob_lang ts"
  shows "\<exists>k \<le> length s. drop k s \<in> glob_lang ts \<and> (CHR ''/'' \<notin> set (take i (as_bytes s)) \<longrightarrow> CHR ''/'' \<notin> set (take k s))"
  using run(1)
proof (cases rule: drop_bytes)
  case (edge u v)
  have "ascii s \<Longrightarrow> ascii v" using edge(1) by (simp add: ascii_def)
  with ask edge run(2) assms(4)[of v] have "v \<in> glob_lang ts" by auto
  with edge show ?thesis by (intro exI[of _ "length u"]) (simp add: slash_bytes)
next
  case (inner u c v b)
  have "AnyOne \<notin> set ts" using ask inner(1,2) by (auto simp: ascii_def)
  with inner run(2) assms(5)[of b v] have "v \<in> glob_lang ts" by auto
  moreover have "c \<noteq> CHR ''/''" using inner(2) by auto
  moreover have "CHR ''/'' \<notin> set (take i (as_bytes s)) \<longrightarrow> CHR ''/'' \<notin> set u"
    using inner(5) slash_bytes[of u] by (metis Un_iff set_append)
  ultimately show ?thesis using inner(1) by (intro exI[of _ "Suc (length u)"]) auto
qed

lemma as_bytes_Nil: "as_bytes s = [] \<longleftrightarrow> s = []"
  by (cases s) (auto simp: utf8_char_def)

lemma bytes_match:
  "AnyOne \<notin> set ts \<or> ascii s \<Longrightarrow> as_bytes s \<in> glob_lang (concat (map byte_tokens ts)) \<longleftrightarrow> s \<in> glob_lang ts"
  "AnyOne \<notin> set ts \<Longrightarrow> inner_byte b \<Longrightarrow> b # as_bytes s \<in> glob_lang (concat (map byte_tokens ts)) \<Longrightarrow> s \<in> glob_lang ts"
proof (induction ts arbitrary: s b)
  case (Cons t ts)
  note IH = Cons.IH
  let ?B = "concat (map byte_tokens ts)"
  have fwd: "\<exists>k \<le> length s. drop k s \<in> glob_lang ts \<and> (CHR ''/'' \<notin> set (take i (as_bytes s)) \<longrightarrow> CHR ''/'' \<notin> set (take k s))"
    if "i \<le> length (as_bytes s)" "drop i (as_bytes s) \<in> glob_lang ?B" "AnyOne \<notin> set ts \<or> ascii s" for i s
    by (rule run_bytes[OF that]) (use IH in auto)
  have bwd: "\<exists>i \<le> length (as_bytes s). drop i (as_bytes s) \<in> glob_lang ?B \<and> (CHR ''/'' \<notin> set (take k s) \<longrightarrow> CHR ''/'' \<notin> set (take i (as_bytes s)))"
    if "k \<le> length s" "drop k s \<in> glob_lang ts" "AnyOne \<notin> set ts \<or> ascii s" for k s
  proof -
    have s: "as_bytes s = as_bytes (take k s) @ as_bytes (drop k s)" by (metis append_take_drop_id as_bytes_simps(3))
    have "AnyOne \<notin> set ts \<or> ascii (drop k s)" using that(3) by (auto simp: ascii_def list_all_iff dest: in_set_dropD)
    with that(2) IH(1) have "as_bytes (drop k s) \<in> glob_lang ?B" by blast
    then show ?thesis using s by (intro exI[of _ "length (as_bytes (take k s))"]) (simp add: slash_bytes)
  qed
  have part1: "as_bytes s \<in> glob_lang (concat (map byte_tokens (t # ts))) \<longleftrightarrow> s \<in> glob_lang (t # ts)"
    if ask: "AnyOne \<notin> set (t # ts) \<or> ascii s" for s
  proof (cases t)
    case (Lit c)
    have "as_bytes s = utf8_char c @ v \<and> v \<in> glob_lang ?B \<longleftrightarrow> s \<noteq> [] \<and> hd s = c \<and> as_bytes (tl s) = v \<and> v \<in> glob_lang ?B" for v
    proof (cases s)
      case Nil
      then show ?thesis using utf8_hd[of c] by auto
    next
      case (Cons d r)
      then show ?thesis using utf8_char_first[of d "as_bytes r" c v] by auto
    qed
    moreover have "AnyOne \<notin> set ts \<or> ascii (tl s)" using ask by (cases s) (auto simp: ascii_def)
    ultimately show ?thesis using IH(1)[of "tl s"] Lit by (auto simp: lang_lits lang_Lit simp del: glob_lang.simps(2))
  next
    case AnyOne
    with ask have a: "ascii s" by simp
    then have "ascii (tl s)" by (cases s) (simp_all add: ascii_def)
    with a IH(1)[of "tl s"] AnyOne show ?thesis by (simp add: ascii_bytes lang_AnyOne del: glob_lang.simps(2))
  next
    case Run
    with ask have "AnyOne \<notin> set ts \<or> ascii s" by simp
    with Run fwd[of _ s] bwd[of _ s] show ?thesis by (auto simp: lang_Run simp del: glob_lang.simps(2))
  next
    case RunSlash
    with ask have "AnyOne \<notin> set ts \<or> ascii s" by simp
    with RunSlash fwd[of _ s] bwd[of _ s] show ?thesis by (auto simp: lang_RunSlash simp del: glob_lang.simps(2))
  qed
  {
    case 1
    then show ?case by (rule part1)
  next
    case 2
    have part2: "s \<in> glob_lang (t # ts)" if "t = Run \<or> t = RunSlash"
    proof -
      have "b # as_bytes s \<in> glob_lang ?B \<or> as_bytes s \<in> glob_lang (concat (map byte_tokens (t # ts)))"
        using that 2(3) lang_step[of b "as_bytes s" ?B] by (auto simp del: glob_lang.simps(2))
      then show ?thesis
      proof
        assume "b # as_bytes s \<in> glob_lang ?B"
        with 2 IH(2) have "s \<in> glob_lang ts" by simp
        with that show ?thesis by (auto simp: lang_Run lang_RunSlash simp del: glob_lang.simps(2) intro!: exI[of _ 0])
      next
        assume "as_bytes s \<in> glob_lang (concat (map byte_tokens (t # ts)))"
        with part1[of s] 2(1) show ?thesis by blast
      qed
    qed
    show ?case
    proof (cases t)
      case (Lit c)
      with 2 utf8_hd[of c] show ?thesis by (auto simp: lang_lits simp del: glob_lang.simps(2))
    qed (use 2 part2 in auto)
  }
qed (simp_all add: as_bytes_Nil)

lemma AnyOne_tokens: "AnyOne \<in> set (glob_tokens p) \<Longrightarrow> CHR ''?'' \<in> set p"
  by (induction p rule: glob_tokens.induct) (auto split: if_splits)

lemma glob_matches_chars:
  assumes "CHR ''?'' \<notin> set p \<or> ascii s" shows "glob_matches p s \<longleftrightarrow> s \<in> glob_lang (glob_tokens p)"
  using assms AnyOne_tokens[of p] bytes_match(1)[of "glob_tokens p" s]
  by (auto simp: glob_matches_lang glob_tokens_bytes)

end
