(* ===== verification/FileTree.thy ===== *)
theory FileTree
  imports HostIO
begin

text \<open>
  Directories as the daemon sees them, for the components that walk, fill or clear an
  app's directory: a tree with regular files, directories, files and directories that
  cannot be read, and symbolic links, which the modelled code skips in the trees it walks. A link
  at a place the code names would be followed by \<open>exists\<close>, \<open>is_file\<close> and \<open>is_dir\<close>; here they see
  nothing there, so that the model is faithful for apps without links at such places only, which
  the claims about backups say (\<open>places_real\<close> in \<open>BackupProps\<close>). The
  operations of \<open>std::fs\<close> are total functions that return an error for the states in
  which the call fails, and effects (\<open>fs_step\<close>) that may fail or crash on their own.
\<close>

named_theorems tree_simps

datatype fs_node =
    File string | BadFile | Dir "(string \<times> fs_node) list" | BadDir | Symlink

datatype fs_error = NotFoundErr | ExistsErr | OtherErr

fun node_at :: "fs_node \<Rightarrow> string list \<Rightarrow> fs_node option" where
  "node_at nd [] = Some nd"
| "node_at (Dir es) (n # ns) = (case map_of es n of None \<Rightarrow> None | Some x \<Rightarrow> node_at x ns)"
| "node_at nd (n # ns) = None"

definition file_at :: "fs_node \<Rightarrow> string list \<Rightarrow> string option" where
  "file_at nd ns = (case node_at nd ns of Some (File c) \<Rightarrow> Some c | _ \<Rightarrow> None)"

definition is_file :: "fs_node \<Rightarrow> string list \<Rightarrow> bool" where
  "is_file nd ns = (case node_at nd ns of Some (File c) \<Rightarrow> True | Some BadFile \<Rightarrow> True | _ \<Rightarrow> False)"

definition is_dir :: "fs_node \<Rightarrow> string list \<Rightarrow> bool" where
  "is_dir nd ns = (case node_at nd ns of Some (Dir es) \<Rightarrow> True | Some BadDir \<Rightarrow> True | _ \<Rightarrow> False)"

definition path_exists :: "fs_node \<Rightarrow> string list \<Rightarrow> bool" where
  "path_exists nd ns = (is_file nd ns \<or> is_dir nd ns)"

text \<open>
  \<open>put_node x ns y\<close> puts \<open>y\<close> at \<open>ns\<close> below \<open>x\<close>, creating missing directories; it fails
  where a directory of the path is something else or the target is a directory.
\<close>

fun put_node :: "fs_node option \<Rightarrow> string list \<Rightarrow> fs_node \<Rightarrow> fs_node option" where
  "put_node x [] y = (case x of Some (Dir es) \<Rightarrow> None | Some BadDir \<Rightarrow> None | _ \<Rightarrow> Some y)"
| "put_node x (n # ns) y = (case x of
     None \<Rightarrow> map_option (\<lambda>z. Dir [(n, z)]) (put_node None ns y)
   | Some (Dir es) \<Rightarrow> map_option (\<lambda>z. Dir (upsert fst es (n, z))) (put_node (map_of es n) ns y)
   | _ \<Rightarrow> None)"

text \<open>\<open>remove_at x ns\<close> removes what is at \<open>ns\<close>, with everything below.\<close>

fun remove_at :: "fs_node \<Rightarrow> string list \<Rightarrow> fs_node" where
  "remove_at (Dir es) [n] = Dir (filter (\<lambda>e. fst e \<noteq> n) es)"
| "remove_at (Dir es) (n # m # ns) = (case map_of es n of
     None \<Rightarrow> Dir es | Some x \<Rightarrow> Dir (upsert fst es (n, remove_at x (m # ns))))"
| "remove_at nd ns = nd"

text \<open>\<open>fs::remove_file\<close>, \<open>remove_dir\<close>, \<open>remove_dir_all\<close>, \<open>create_dir\<close>, \<open>rename\<close> of a file.\<close>

definition blocked :: "fs_node \<Rightarrow> string list \<Rightarrow> bool" where
  "blocked t ns = list_ex (\<lambda>k. is_file t (take k ns)) [1..<length ns]"

definition remove_file :: "string list \<Rightarrow> fs_node \<Rightarrow> fs_error + fs_node" where
  "remove_file ns t = (case node_at t ns of
       None \<Rightarrow> Inl (if blocked t ns then OtherErr else NotFoundErr)
     | Some (Dir es) \<Rightarrow> Inl OtherErr | Some BadDir \<Rightarrow> Inl OtherErr
     | Some x \<Rightarrow> Inr (remove_at t ns))"

definition remove_dir :: "string list \<Rightarrow> fs_node \<Rightarrow> fs_error + fs_node" where
  "remove_dir ns t = (case node_at t ns of
       None \<Rightarrow> Inl NotFoundErr
     | Some (Dir []) \<Rightarrow> Inr (remove_at t ns)
     | Some x \<Rightarrow> Inl OtherErr)"

definition remove_dir_all :: "string list \<Rightarrow> fs_node \<Rightarrow> fs_error + fs_node" where
  "remove_dir_all ns t = (case node_at t ns of
       None \<Rightarrow> Inl NotFoundErr
     | Some (Dir es) \<Rightarrow> Inr (remove_at t ns)
     | Some x \<Rightarrow> Inl OtherErr)"

definition create_dir :: "string list \<Rightarrow> fs_node \<Rightarrow> fs_error + fs_node" where
  "create_dir ns t = (case node_at t ns of
       Some x \<Rightarrow> Inl ExistsErr
     | None \<Rightarrow> (case node_at t (butlast ns) of
         Some (Dir es) \<Rightarrow> ok_or OtherErr (put_node (Some t) ns (Dir []))
       | Some x \<Rightarrow> Inl OtherErr | None \<Rightarrow> Inl NotFoundErr))"

definition rename_file :: "string list \<Rightarrow> string list \<Rightarrow> fs_node \<Rightarrow> fs_error + fs_node" where
  "rename_file src dst t = (case node_at t src of
       None \<Rightarrow> Inl NotFoundErr
     | Some x \<Rightarrow> (case node_at t (butlast dst) of
         Some (Dir es) \<Rightarrow> ok_or OtherErr (put_node (Some (remove_at t src)) dst x)
       | Some z \<Rightarrow> Inl OtherErr | None \<Rightarrow> Inl NotFoundErr))"

definition write_file :: "string list \<Rightarrow> string \<Rightarrow> fs_node \<Rightarrow> fs_error + fs_node" where
  "write_file ns c t = ok_or OtherErr (put_node (Some t) ns (File c))"

section \<open>Reading back\<close>

lemma map_of_upsert: "map_of (upsert fst es (n, z)) k = (if k = n then Some z else map_of es k)"
  by (induction es) auto

lemma map_of_filter_out:
  "map_of (filter (\<lambda>e. fst e \<noteq> n) es) k = (if k = n then None else map_of es k)"
  by (induction es) auto

lemma node_at_other [simp]:
  "ns \<noteq> [] \<Longrightarrow> node_at (File c) ns = None" "ns \<noteq> [] \<Longrightarrow> node_at BadFile ns = None"
  "ns \<noteq> [] \<Longrightarrow> node_at BadDir ns = None" "ns \<noteq> [] \<Longrightarrow> node_at Symlink ns = None"
  by (cases ns; simp)+

lemma node_at_append:
  "node_at x (ns @ ms) = (case node_at x ns of None \<Rightarrow> None | Some y \<Rightarrow> node_at y ms)"
  by (induction x ns rule: node_at.induct) (auto split: option.split)

definition comparable :: "string list \<Rightarrow> string list \<Rightarrow> bool" where
  "comparable ms ns = ((\<exists>r. ms = ns @ r) \<or> (\<exists>r. ns = ms @ r))"

lemma comparable_Cons [simp]:
  "comparable (m # ms) (n # ns) \<longleftrightarrow> m = n \<and> comparable ms ns" "comparable [] ns" "comparable ms []"
  by (auto simp: comparable_def)

definition opt_node_at :: "fs_node option \<Rightarrow> string list \<Rightarrow> fs_node option" where
  "opt_node_at x ns = (case x of None \<Rightarrow> None | Some y \<Rightarrow> node_at y ns)"

lemma opt_node_at_simps [simp]:
  "opt_node_at None ns = None" "opt_node_at (Some y) ns = node_at y ns"
  by (simp_all add: opt_node_at_def)

lemma put_node_same: "put_node x ns y = Some z \<Longrightarrow> node_at z (ns @ ms) = node_at y ms"
proof (induction x ns y arbitrary: z rule: put_node.induct)
  case (2 x n ns y)
  then show ?case
    by (cases x) (auto simp: map_of_upsert split: option.splits fs_node.splits)
qed (auto split: option.splits fs_node.splits)

lemma put_node_other:
  "put_node x ns y = Some z \<Longrightarrow> \<not> comparable ms ns \<Longrightarrow> node_at z ms = opt_node_at x ms"
proof (induction x ns y arbitrary: z ms rule: put_node.induct)
  case (2 x n ns y)
  from 2(4) obtain m ms' where ms: "ms = m # ms'" by (cases ms) auto
  show ?case
  proof (cases x)
    case None
    with 2 ms show ?thesis by auto
  next
    case (Some d)
    with 2(3) obtain es w where d: "d = Dir es" and w: "put_node (map_of es n) ns y = Some w"
      and z: "z = Dir (upsert fst es (n, w))" by (auto split: fs_node.splits)
    show ?thesis
    proof (cases "m = n")
      case True
      with 2(4) ms have "\<not> comparable ms' ns" by simp
      from 2(2)[OF Some d w this] show ?thesis
        using True ms Some d z by (simp add: map_of_upsert split: option.split)
    qed (use ms Some d z in \<open>simp add: map_of_upsert split: option.split\<close>)
  qed
qed simp

text \<open>What is above a path stays a directory.\<close>

lemma put_node_above:
  "put_node x (ms @ n # ns) y = Some z \<Longrightarrow> \<exists>es. node_at z ms = Some (Dir es)"
proof (induction ms arbitrary: x z)
  case Nil
  then show ?case by (auto split: option.splits fs_node.splits)
next
  case (Cons m ms)
  then show ?case by (auto simp: map_of_upsert split: option.splits fs_node.splits)
qed

lemma put_node_on:
  "put_node (Some x) (ms @ n # ns) y = Some z \<Longrightarrow> node_at x ms = None \<or> (\<exists>es. node_at x ms = Some (Dir es))"
proof (induction ms arbitrary: x z)
  case (Cons m ms)
  then obtain es where x: "x = Dir es" by (auto split: fs_node.splits)
  with Cons show ?case by (cases "map_of es m") auto
qed (auto split: fs_node.splits)

text \<open>Nothing is below a path that can be filled.\<close>

lemma put_node_below: "put_node (Some x) ns y = Some z \<Longrightarrow> r \<noteq> [] \<Longrightarrow> node_at x (ns @ r) = None"
proof (induction ns arbitrary: x z)
  case (Cons n ns)
  then obtain es where x: "x = Dir es" by (auto split: fs_node.splits)
  with Cons show ?case by (cases "map_of es n") auto
qed (auto split: fs_node.splits)

lemma put_node_file:
  assumes "put_node (Some x) ns (File c) = Some z"
  shows "file_at z ms = (if ms = ns then Some c else file_at x ms)"
proof (cases "comparable ms ns")
  case False
  then have "ms \<noteq> ns" by (auto simp: comparable_def)
  with put_node_other[OF assms False] show ?thesis by (simp add: file_at_def)
next
  case True
  from True consider "ms = ns" | r where "r \<noteq> []" "ms = ns @ r" | r where "r \<noteq> []" "ns = ms @ r"
    unfolding comparable_def by force
  then show ?thesis
  proof cases
    case 1
    with put_node_same[OF assms, of "[]"] show ?thesis by (simp add: file_at_def)
  next
    case 2
    have "node_at z ms = None" using put_node_same[OF assms, of r] 2 by simp
    moreover have "node_at x ms = None" using put_node_below[OF assms] 2 by simp
    ultimately show ?thesis using 2 by (auto simp: file_at_def)
  next
    case 3
    then obtain k ks where r: "r = k # ks" by (cases r) auto
    from put_node_above[of "Some x" ms k ks "File c" z] assms 3 r
    obtain es where "node_at z ms = Some (Dir es)" by auto
    moreover have "file_at x ms = None"
      using put_node_on[of x ms k ks "File c" z] assms 3 r by (auto simp: file_at_def)
    ultimately show ?thesis using 3 by (auto simp: file_at_def)
  qed
qed

section \<open>When a file can be put\<close>

fun fits :: "fs_node option \<Rightarrow> string list \<Rightarrow> bool" where
  "fits None ns = True"
| "fits (Some (Dir es)) [] = False"
| "fits (Some BadDir) [] = False"
| "fits (Some x) [] = True"
| "fits (Some (Dir es)) (n # ns) = fits (map_of es n) ns"
| "fits (Some x) (n # ns) = False"

lemma fits_put: "fits x ns \<longleftrightarrow> (\<exists>z. put_node x ns y = Some z)"
proof (induction x ns y rule: put_node.induct)
  case (1 x y)
  then show ?case by (auto split: option.splits fs_node.splits)
next
  case (2 x n ns y)
  then show ?case by (auto split: option.splits fs_node.splits)
qed

lemma fits_after_put:
  "put_node x ms y = Some z \<Longrightarrow> \<not> comparable ns ms \<Longrightarrow> fits x ns \<Longrightarrow> fits (Some z) ns"
proof (induction x ms y arbitrary: z ns rule: put_node.induct)
  case (2 x m ms y)
  from 2(4) obtain n ns' where ns: "ns = n # ns'" by (cases ns) auto
  show ?case
  proof (cases x)
    case None
    with 2(3) obtain w where w: "put_node None ms y = Some w" "z = Dir [(m, w)]" by auto
    show ?thesis using 2(1)[OF None w(1)] 2(4) ns w(2) by auto
  next
    case (Some d)
    with 2(3) obtain es w where d: "d = Dir es" and w: "put_node (map_of es m) ms y = Some w"
      and z: "z = Dir (upsert fst es (m, w))" by (auto split: fs_node.splits)
    show ?thesis using 2(2)[OF Some d w, of ns'] 2(4,5) ns z Some d
      by (auto simp: map_of_upsert)
  qed
qed simp

section \<open>Removing\<close>

lemma remove_at_other [simp]:
  "remove_at (File c) ns = File c" "remove_at BadFile ns = BadFile"
  "remove_at BadDir ns = BadDir" "remove_at Symlink ns = Symlink"
  by (cases ns; simp)+

lemma node_at_remove:
  "ns \<noteq> [] \<Longrightarrow> \<not> comparable ms ns \<Longrightarrow> node_at (remove_at x ns) ms = node_at x ms"
proof (induction x ns arbitrary: ms rule: remove_at.induct)
  case (1 es n)
  then obtain m ms' where "ms = m # ms'" by (cases ms) auto
  with 1 show ?case by (auto simp: map_of_filter_out split: option.split)
next
  case (2 es n n' ns)
  from 2(3) obtain m ms' where ms: "ms = m # ms'" by (cases ms) auto
  show ?case
  proof (cases "map_of es n")
    case (Some d)
    with 2(1)[OF Some, of ms'] 2(3) ms show ?thesis
      by (auto simp: map_of_upsert split: option.split)
  qed simp
qed auto

lemma node_at_removed: "ns \<noteq> [] \<Longrightarrow> node_at (remove_at x ns) (ns @ r) = None"
proof (induction x ns rule: remove_at.induct)
  case (2 es n m ns)
  then show ?case by (auto simp: map_of_upsert split: option.split)
qed (auto simp: map_of_filter_out)

text \<open>A removal leaves the directories above as directories and everything else alone.\<close>

lemma node_at_remove_above:
  "ns \<noteq> [] \<Longrightarrow> r \<noteq> [] \<Longrightarrow> ns = ms @ r \<Longrightarrow>
   (case node_at x ms of
      None \<Rightarrow> node_at (remove_at x ns) ms = None
    | Some (Dir es) \<Rightarrow> (\<exists>ds. node_at (remove_at x ns) ms = Some (Dir ds))
    | Some y \<Rightarrow> node_at (remove_at x ns) ms = Some y)"
proof (induction x ns arbitrary: ms rule: remove_at.induct)
  case (1 es n)
  then show ?case by (cases ms) auto
next
  case (2 es n n' ns)
  show ?case
  proof (cases ms)
    case Nil
    then show ?thesis by (simp split: option.split)
  next
    case (Cons m ms')
    with 2(4) have m: "m = n" and ms': "n' # ns = ms' @ r" by auto
    show ?thesis
    proof (cases "map_of es n")
      case (Some d)
      from 2(1)[OF Some _ 2(3) ms'] show ?thesis using Some m Cons
        by (auto simp: map_of_upsert split: option.splits fs_node.splits)
    qed (use m Cons in simp)
  qed
qed (auto split: option.split fs_node.split)

lemma file_at_remove:
  assumes "ns \<noteq> []"
  shows "file_at (remove_at x ns) ms = (if \<exists>r. ms = ns @ r then None else file_at x ms)"
proof (cases "comparable ms ns")
  case False
  then show ?thesis using node_at_remove[OF assms False, of x]
    by (auto simp: file_at_def comparable_def)
next
  case True
  then consider r where "ms = ns @ r" | r where "r \<noteq> []" "ns = ms @ r"
    unfolding comparable_def by force
  then show ?thesis
  proof cases
    case 1
    then show ?thesis using node_at_removed[OF assms, of x r] by (simp add: file_at_def)
  next
    case 2
    have "file_at (remove_at x ns) ms = file_at x ms"
      using node_at_remove_above[OF assms 2, of x]
      by (auto simp: file_at_def split: option.splits fs_node.splits)
    with 2 show ?thesis by auto
  qed
qed

text \<open>Removing a path that is not there changes nothing.\<close>

lemma file_at_Dir_Cons: "file_at (Dir es) (n # ns) = (case map_of es n of None \<Rightarrow> None | Some x \<Rightarrow> file_at x ns)"
  by (simp add: file_at_def split: option.split)

section \<open>What the operations do at a path\<close>

definition below :: "string list \<Rightarrow> string list \<Rightarrow> bool" where
  "below ms ns = (\<exists>r. ms = ns @ r)"

definition strictly_above :: "string list \<Rightarrow> string list \<Rightarrow> bool" where
  "strictly_above ms ns = (\<exists>r. r \<noteq> [] \<and> ns = ms @ r)"

lemma below_simps [simp]:
  "below ms []" "below (m # ms) (n # ns) \<longleftrightarrow> m = n \<and> below ms ns" "below [] (n # ns) \<longleftrightarrow> False"
  by (auto simp: below_def)

lemma strictly_above_simps [simp]:
  "strictly_above [] (n # ns)" "strictly_above (m # ms) (n # ns) \<longleftrightarrow> m = n \<and> strictly_above ms ns"
  "strictly_above ms [] \<longleftrightarrow> False"
  by (auto simp: strictly_above_def)

lemma not_comparable: "\<not> strictly_above ms ns \<Longrightarrow> comparable ms ns \<longleftrightarrow> below ms ns"
  by (force simp: strictly_above_def below_def comparable_def)

lemma node_at_remove_at:
  assumes "ns \<noteq> []" "\<not> strictly_above ms ns"
  shows "node_at (remove_at t ns) ms = (if below ms ns then None else node_at t ms)"
proof (cases "below ms ns")
  case True
  then show ?thesis using node_at_removed[OF assms(1)] by (auto simp: below_def)
next
  case False
  with not_comparable[OF assms(2)] node_at_remove[OF assms(1)] show ?thesis by simp
qed

lemma node_at_put_node:
  assumes "put_node (Some t) ns y = Some z" "\<not> strictly_above ms ns"
  shows "node_at z ms = (if below ms ns then node_at y (drop (length ns) ms) else node_at t ms)"
proof (cases "below ms ns")
  case True
  then obtain r where "ms = ns @ r" by (auto simp: below_def)
  with put_node_same[OF assms(1)] True show ?thesis by simp
next
  case False
  with not_comparable[OF assms(2)] put_node_other[OF assms(1)] show ?thesis by simp
qed

lemma node_at_None_below: "node_at t ns = None \<Longrightarrow> below ms ns \<Longrightarrow> node_at t ms = None"
  by (auto simp: below_def node_at_append)

lemma create_dir_at:
  assumes "create_dir ns t = Inr t1" "\<not> strictly_above ms ns"
  shows "node_at t1 ms = (if ms = ns then Some (Dir []) else node_at t ms)"
proof -
  from assms(1) have none: "node_at t ns = None" and put: "put_node (Some t) ns (Dir []) = Some t1"
    by (auto simp: create_dir_def ok_or_def split: option.splits fs_node.splits)
  show ?thesis
  proof (cases "below ms ns")
    case True
    then obtain r where r: "ms = ns @ r" by (auto simp: below_def)
    with put_node_same[OF put, of r] node_at_None_below[OF none True] show ?thesis
      by (cases r) simp_all
  next
    case False
    then have "ms \<noteq> ns" by (auto simp: below_def)
    with node_at_put_node[OF put assms(2)] False show ?thesis by simp
  qed
qed

lemma remove_file_at: "remove_file ns t = Inr t1 \<Longrightarrow> t1 = remove_at t ns"
  by (auto simp: remove_file_def split: option.splits fs_node.splits)

lemma remove_dir_at: "remove_dir ns t = Inr t1 \<Longrightarrow> t1 = remove_at t ns \<and> node_at t ns = Some (Dir [])"
  by (auto simp: remove_dir_def split: option.splits fs_node.splits list.splits)

lemma remove_dir_all_at: "remove_dir_all ns t = Inr t1 \<Longrightarrow> t1 = remove_at t ns"
  by (auto simp: remove_dir_all_def split: option.splits fs_node.splits)

lemma rename_file_at:
  assumes "rename_file src dst t = Inr t1" "src \<noteq> []"
    "\<not> strictly_above ms src" "\<not> strictly_above ms dst"
  shows "node_at t1 ms =
     (if below ms dst then node_at (the (node_at t src)) (drop (length dst) ms)
      else if below ms src then None else node_at t ms)"
proof -
  from assms(1) obtain x where x: "node_at t src = Some x"
    and put: "put_node (Some (remove_at t src)) dst x = Some t1"
    by (auto simp: rename_file_def ok_or_def split: option.splits fs_node.splits)
  from node_at_put_node[OF put assms(4)] node_at_remove_at[OF assms(2,3)] x show ?thesis by simp
qed

lemma write_file_at:
  assumes "write_file ns c t = Inr t1"
  shows "file_at t1 ms = (if ms = ns then Some c else file_at t ms)"
  using assms put_node_file by (auto simp: write_file_def ok_or_def split: option.splits)

text \<open>A directory of the host: names are distinct, not empty and have no slash.\<close>

definition wf_tree :: "fs_node \<Rightarrow> bool" where
  "wf_tree t = (\<forall>ns es. node_at t ns = Some (Dir es) \<longrightarrow>
     distinct (map fst es) \<and> (\<forall>n \<in> fst ` set es. n \<noteq> [] \<and> CHR ''/'' \<notin> set n))"

lemma wf_tree_names:
  "wf_tree (Dir es) \<Longrightarrow> distinct (map fst es)"
  "wf_tree (Dir es) \<Longrightarrow> n \<in> fst ` set es \<Longrightarrow> n \<noteq> [] \<and> CHR ''/'' \<notin> set n"
  unfolding wf_tree_def by (metis node_at.simps(1))+

lemma wf_tree_at:
  assumes "wf_tree t" "node_at t ns = Some x" shows "wf_tree x"
  unfolding wf_tree_def
proof (intro allI impI)
  fix ms es assume "node_at x ms = Some (Dir es)"
  with assms(2) have "node_at t (ns @ ms) = Some (Dir es)" by (simp add: node_at_append)
  with assms(1) show "distinct (map fst es) \<and> (\<forall>n \<in> fst ` set es. n \<noteq> [] \<and> CHR ''/'' \<notin> set n)"
    unfolding wf_tree_def by blast
qed

lemma wf_tree_child: "wf_tree (Dir es) \<Longrightarrow> map_of es n = Some x \<Longrightarrow> wf_tree x"
  by (rule wf_tree_at[of "Dir es" "[n]"]) simp_all

lemma wf_tree_tail: "wf_tree (Dir (e # es)) \<Longrightarrow> wf_tree (Dir es)"
  unfolding wf_tree_def
proof (intro allI impI)
  fix ns ds
  assume wf: "\<forall>ns ds. node_at (Dir (e # es)) ns = Some (Dir ds) \<longrightarrow>
      distinct (map fst ds) \<and> (\<forall>n \<in> fst ` set ds. n \<noteq> [] \<and> CHR ''/'' \<notin> set n)"
    and at: "node_at (Dir es) ns = Some (Dir ds)"
  have top: "distinct (map fst (e # es)) \<and> (\<forall>n \<in> fst ` set (e # es). n \<noteq> [] \<and> CHR ''/'' \<notin> set n)"
    using wf[rule_format, of "[]"] by simp
  show "distinct (map fst ds) \<and> (\<forall>n \<in> fst ` set ds. n \<noteq> [] \<and> CHR ''/'' \<notin> set n)"
  proof (cases ns)
    case Nil
    with at top show ?thesis by auto
  next
    case (Cons n ms)
    with at have "map_of es n \<noteq> None" by (auto split: option.splits)
    then have "n \<in> set (map fst es)" by (simp add: map_of_eq_None_iff)
    with top have "n \<noteq> fst e" by (metis distinct.simps(2) list.simps(9))
    with at Cons have "node_at (Dir (e # es)) ns = Some (Dir ds)" by (cases e) simp
    with wf show ?thesis by blast
  qed
qed

lemma wf_tree_leaf [simp]: "wf_tree (File c)" "wf_tree BadFile" "wf_tree BadDir" "wf_tree Symlink"
  unfolding wf_tree_def by (auto, (case_tac ns; simp)+)

lemma wf_tree_Dir:
  assumes "distinct (map fst es)" "\<And>n x. (n, x) \<in> set es \<Longrightarrow> n \<noteq> [] \<and> CHR ''/'' \<notin> set n \<and> wf_tree x"
  shows "wf_tree (Dir es)"
  unfolding wf_tree_def
proof (intro allI impI)
  fix ns ds assume at: "node_at (Dir es) ns = Some (Dir ds)"
  show "distinct (map fst ds) \<and> (\<forall>n \<in> fst ` set ds. n \<noteq> [] \<and> CHR ''/'' \<notin> set n)"
  proof (cases ns)
    case Nil
    with at assms show ?thesis by auto
  next
    case (Cons n ms)
    with at obtain x where x: "map_of es n = Some x" "node_at x ms = Some (Dir ds)"
      by (auto split: option.splits)
    from map_of_SomeD[OF x(1)] assms(2) have "wf_tree x" by blast
    with x(2) show ?thesis unfolding wf_tree_def by blast
  qed
qed

section \<open>Filling a directory\<close>

fun put_files :: "fs_node \<Rightarrow> (string list \<times> string) list \<Rightarrow> fs_node option" where
  "put_files x [] = Some x"
| "put_files x ((ns, c) # es) = (case put_node (Some x) ns (File c) of
     None \<Rightarrow> None | Some z \<Rightarrow> put_files z es)"

definition apart :: "(string list \<times> 'c) list \<Rightarrow> bool" where
  "apart es = sorted_wrt (\<lambda>a b. \<not> comparable (fst a) (fst b)) es"

lemma apart_simps [simp]:
  "apart []" "apart (e # es) \<longleftrightarrow> (\<forall>e' \<in> set es. \<not> comparable (fst e) (fst e')) \<and> apart es"
  by (simp_all add: apart_def)

lemma apart_append:
  "apart (xs @ ys) \<longleftrightarrow> apart xs \<and> apart ys \<and> (\<forall>x \<in> set xs. \<forall>y \<in> set ys. \<not> comparable (fst x) (fst y))"
  by (auto simp: apart_def sorted_wrt_append)

lemma comparable_sym: "comparable a b = comparable b a"
  by (auto simp: comparable_def)

lemma put_files_total:
  "apart es \<Longrightarrow> (\<And>e. e \<in> set es \<Longrightarrow> fits (Some x) (fst e)) \<Longrightarrow> \<exists>z. put_files x es = Some z"
proof (induction x es rule: put_files.induct)
  case (2 x ns c es)
  from 2(3)[of "(ns, c)"] have "fits (Some x) ns" by simp
  then obtain z where z: "put_node (Some x) ns (File c) = Some z" using fits_put by blast
  have "fits (Some z) (fst e)" if "e \<in> set es" for e
    using fits_after_put[OF z, of "fst e"] 2(2,3) that by (auto simp: comparable_sym)
  with 2(1)[OF z] 2(2) z show ?case by auto
qed simp

lemma put_files_file:
  "put_files x es = Some z \<Longrightarrow> distinct (map fst es) \<Longrightarrow>
   file_at z ms = (case map_of es ms of Some c \<Rightarrow> Some c | None \<Rightarrow> file_at x ms)"
proof (induction x es rule: put_files.induct)
  case (2 x ns c es)
  then obtain u where u: "put_node (Some x) ns (File c) = Some u" "put_files u es = Some z"
    by (auto split: option.splits)
  have "map_of es ns = None" using 2(3) by (auto simp: map_of_eq_None_iff)
  with 2(1)[OF u] 2(3) put_node_file[OF u(1), of ms] show ?case by (auto split: option.splits)
qed simp

lemma apart_distinct: "apart es \<Longrightarrow> distinct (map fst es)"
  by (induction es) (auto simp: comparable_def)

section \<open>Effects on a directory\<close>

record disk =
  tree :: fs_node
  disk_outs :: "outcome list"

definition fs_step ::
  "(fs_error \<Rightarrow> 'e) \<Rightarrow> (fs_node \<Rightarrow> fs_error + fs_node) \<Rightarrow> ('z disk_scheme, 'e, unit) io" where
  "fs_step err f = (\<lambda>w. let (ok, os) = next_outcome (disk_outs w) in
     if ok then (case f (tree w) of
         Inl e \<Rightarrow> (Inl (err e), w\<lparr>disk_outs := os\<rparr>)
       | Inr t \<Rightarrow> (Inr (), w\<lparr>tree := t, disk_outs := os\<rparr>))
     else (Inl (err OtherErr), w\<lparr>disk_outs := os\<rparr>))"

text \<open>A read that may fail.\<close>

definition fs_read :: "(fs_error \<Rightarrow> 'e) \<Rightarrow> ('z disk_scheme \<Rightarrow> fs_error + 'a) \<Rightarrow> ('z disk_scheme, 'e, 'a) io" where
  "fs_read err g = (\<lambda>w. let (ok, os) = next_outcome (disk_outs w) in
     (if ok then map_err err (g w) else Inl (err OtherErr), w\<lparr>disk_outs := os\<rparr>))"

text \<open>\<open>match\<close> on the result of a file operation.\<close>

definition attempt :: "('w, 'e, 'a) io \<Rightarrow> ('e + 'a \<Rightarrow> ('w, 'f, 'b) io) \<Rightarrow> ('w, 'f, 'b) io" where
  "attempt m f = (\<lambda>w. case m w of (r, w1) \<Rightarrow> f r w1)"

lemma frames_attempt [frame_rules]:
  assumes "frames g m" "\<And>r. frames g (f r)" shows "frames g (attempt m f)"
  unfolding frames_def attempt_def
proof
  fix w
  obtain r w1 where "m w = (r, w1)" by (cases "m w")
  with framesD[OF assms(1), of w] framesD[OF assms(2)[of r], of w1]
  show "g (snd (case m w of (r, w1) \<Rightarrow> f r w1)) = g w" by simp
qed

lemma fs_step_fine:
  "disk_outs w = [] \<Longrightarrow> fs_step err f w =
     (case f (tree w) of Inl e \<Rightarrow> (Inl (err e), w) | Inr t \<Rightarrow> (Inr (), w\<lparr>tree := t\<rparr>))"
  by (cases w) (auto simp: fs_step_def split: sum.split)

lemma fs_read_fine: "disk_outs w = [] \<Longrightarrow> fs_read err g w = (map_err err (g w), w)"
  by (cases w) (auto simp: fs_read_def)

lemma frames_fs_read [frame_rules]:
  "(\<And>w os. g (w\<lparr>disk_outs := os\<rparr>) = g w) \<Longrightarrow> frames g (fs_read err h)"
  by (simp add: frames_def fs_read_def split: prod.split)

lemma frames_fs_step [frame_rules]:
  "(\<And>w t os. g (w\<lparr>tree := t, disk_outs := os\<rparr>) = g w) \<Longrightarrow> (\<And>w os. g (w\<lparr>disk_outs := os\<rparr>) = g w) \<Longrightarrow>
   frames g (fs_step err f)"
  by (simp add: frames_def fs_step_def split: prod.split sum.split)

lemma triple_fs_step:
  assumes "\<And>t u. P t \<Longrightarrow> f t = Inr u \<Longrightarrow> Q u" "\<And>t. P t \<Longrightarrow> E t"
  shows "triple (\<lambda>w. P (tree w)) (fs_step err f) (\<lambda>_ w. Q (tree w)) (\<lambda>w. E (tree w))"
  unfolding triple_def
proof (intro allI impI)
  fix w :: "'a disk_scheme" assume P: "P (tree w)"
  obtain ok os where n: "next_outcome (disk_outs w) = (ok, os)" by (cases "next_outcome (disk_outs w)")
  show "case fst (fs_step err f w) of Inl _ \<Rightarrow> E (tree (snd (fs_step err f w)))
      | Inr x \<Rightarrow> Q (tree (snd (fs_step err f w)))"
    using P n assms by (cases "f (tree w)") (auto simp: fs_step_def)
qed

lemma tripleD:
  "triple P m Q E \<Longrightarrow> P w \<Longrightarrow> case fst (m w) of Inl _ \<Rightarrow> E (snd (m w)) | Inr x \<Rightarrow> Q x (snd (m w))"
  by (simp add: triple_def)

lemma triple_attempt:
  assumes m: "triple P m Q E" and err: "\<And>e. triple E (f (Inl e)) R E2"
    and ok: "\<And>x. triple (Q x) (f (Inr x)) R E2"
  shows "triple P (attempt m f) R E2"
  unfolding triple_def
proof (intro allI impI)
  fix w assume P: "P w"
  obtain r w1 where r: "m w = (r, w1)" by (cases "m w")
  have "attempt m f w = f r w1" by (simp add: attempt_def r)
  moreover have "case fst (f r w1) of Inl _ \<Rightarrow> E2 (snd (f r w1)) | Inr y \<Rightarrow> R y (snd (f r w1))"
  proof (cases r)
    case (Inl e)
    with m P r have "E w1" by (auto simp: triple_def)
    with err[of e] Inl show ?thesis by (auto simp: triple_def)
  next
    case (Inr x)
    with m P r have "Q x w1" by (auto simp: triple_def)
    with ok[of x] Inr show ?thesis by (auto simp: triple_def)
  qed
  ultimately show "case fst (attempt m f w) of Inl _ \<Rightarrow> E2 (snd (attempt m f w))
      | Inr y \<Rightarrow> R y (snd (attempt m f w))" by (cases "fst (f r w1)") simp_all
qed

end
