(* ===== verification/Storage.thy ===== *)
theory Storage
  imports FileTree Numerals
begin

text \<open>
  \<open>backup/storage.rs\<close>: archive names, the storages an archive is kept on (a record of
  the four operations of \<open>trait BackupStorage\<close>, with the local directory, the kinds that
  are not implemented, and S3 as a parameter), and the list of configured storages.
  The world is the app's directory of \<open>FileTree\<close> with the directories of the storages.
\<close>

section \<open>Archive names\<close>

definition LOCAL_NAME :: string where "LOCAL_NAME = ''local''"
definition ARCHIVE_SUFFIX :: string where "ARCHIVE_SUFFIX = ''.tar.gz''"

record backup_object =
  bo_name :: string
  bo_size :: nat

text \<open>\<open>i64::from_str\<close>; the part after the last dash has no minus sign.\<close>

definition created_unix :: "string \<Rightarrow> nat option" where
  "created_unix name = (case strip_suffix ARCHIVE_SUFFIX name of
       None \<Rightarrow> None
     | Some stem \<Rightarrow> (case rsplit_once (CHR ''-'') stem of
         None \<Rightarrow> None
       | Some (a, ts) \<Rightarrow> parse_radix 10 (2 ^ 63 - 1) ts))"

definition belongs_to :: "string \<Rightarrow> string \<Rightarrow> bool" where
  "belongs_to name app_id = (case strip_prefix app_id name of
       None \<Rightarrow> False
     | Some rest \<Rightarrow> (case strip_prefix ''-'' rest of
         None \<Rightarrow> False
       | Some rest2 \<Rightarrow> (case strip_suffix ARCHIVE_SUFFIX rest2 of
           None \<Rightarrow> False
         | Some ts \<Rightarrow> ts \<noteq> [] \<and> list_all is_digit ts)))"

section \<open>Storages\<close>

text \<open>The secrets of the entries are strings; \<open>serde\<close> and TOML are not modelled.\<close>

datatype storage_kind =
    LocalDir string
  | S3 (bucket: string) (region: string) (endpoint: "string option")
      (access_key: string) (secret_key: string) (prefix: "string option")
  | Ftp (ftp_host: string) (ftp_port: nat) (ftp_user: string) (ftp_password: string) (ftp_dir: "string option")
  | Sftp (sftp_host: string) (sftp_port: nat) (sftp_user: string) (sftp_password: "string option")
      (sftp_key: "string option") (sftp_dir: "string option")

definition default_ftp_port :: nat where "default_ftp_port = 21"
definition default_sftp_port :: nat where "default_sftp_port = 22"

fun kind_label :: "storage_kind \<Rightarrow> string" where
  "kind_label (LocalDir d) = ''local''"
| "kind_label (S3 b r e a s p) = ''s3''"
| "kind_label (Ftp h p u w d) = ''ftp''"
| "kind_label (Sftp h p u w k d) = ''sftp''"

record storage_entry =
  se_name :: string
  managed_by :: "string option"
  se_kind :: storage_kind

datatype backup_error =
    ReservedName | StorageExists string | ManagedBy string "string option" | SystemStorage string
  | StorageNotFound string | NotImplemented string | CannotPush string | CannotPull string
  | CannotList string | CannotRemove string | UploadFailed string | DownloadFailed string
  | NotABackup string string | BadAppDir | BadManifest | CannotReadFile string | CannotStage
  | CannotClearDir string | CannotExtract | TooManyPatterns string
  | PatternTooLong string string | PatternOutside string string | S3Error string

text \<open>
  The world of a backup: the app's directory, and the directories of the storages with
  their files, by the directory's path.
\<close>

record 'b backup_world = disk +
  folders :: "string \<Rightarrow> (string \<times> 'b) list option"

type_synonym ('b, 'a) backup_io = "('b backup_world, backup_error, 'a) io"

record 'b storage_ops =
  push :: "'b \<Rightarrow> string \<Rightarrow> ('b, unit) backup_io"
  pull :: "string \<Rightarrow> ('b, 'b) backup_io"
  list_objects :: "string \<Rightarrow> ('b, backup_object list) backup_io"
  remove_object :: "string \<Rightarrow> ('b, unit) backup_io"

section \<open>The local directory\<close>

text \<open>An effect on the storages, which may fail or crash; \<open>err\<close> is the error it then is.\<close>

definition store_step ::
  "backup_error \<Rightarrow> ('b backup_world \<Rightarrow> 'b backup_world) \<Rightarrow> ('b, unit) backup_io" where
  "store_step err f = (\<lambda>w. let (ok, os) = next_outcome (disk_outs w) in
     if ok then (Inr (), (f w)\<lparr>disk_outs := os\<rparr>) else (Inl err, w\<lparr>disk_outs := os\<rparr>))"

definition entries_of :: "'b backup_world \<Rightarrow> string \<Rightarrow> (string \<times> 'b) list" where
  "entries_of w d = (case folders w d of None \<Rightarrow> [] | Some es \<Rightarrow> es)"

definition set_folder :: "string \<Rightarrow> (string \<times> 'b) list \<Rightarrow> 'b backup_world \<Rightarrow> 'b backup_world" where
  "set_folder d es w = w\<lparr>folders := (folders w)(d \<mapsto> es)\<rparr>"

definition local_push :: "string \<Rightarrow> 'b \<Rightarrow> string \<Rightarrow> ('b, unit) backup_io" where
  "local_push d blob name =
     seq (store_step (CannotPush name) (\<lambda>w. set_folder d (entries_of w d) w))
       (store_step (CannotPush name) (\<lambda>w. set_folder d (upsert fst (entries_of w d) (name, blob)) w))"

definition local_pull :: "string \<Rightarrow> string \<Rightarrow> ('b, 'b) backup_io" where
  "local_pull d name = fs_read (\<lambda>_. CannotPull name)
     (\<lambda>w. ok_or NotFoundErr (map_of (entries_of w d) name))"

definition local_list :: "('b \<Rightarrow> nat) \<Rightarrow> string \<Rightarrow> string \<Rightarrow> ('b, backup_object list) backup_io" where
  "local_list blob_len d app_id = fs_read (\<lambda>_. CannotList d)
     (\<lambda>w. Inr (sort_key bo_name (map (\<lambda>(n, b). \<lparr>bo_name = n, bo_size = blob_len b\<rparr>)
        (filter (\<lambda>e. belongs_to (fst e) app_id) (entries_of w d)))))"

definition local_remove :: "string \<Rightarrow> string \<Rightarrow> ('b, unit) backup_io" where
  "local_remove d name = bind (asks (\<lambda>w. map_of (entries_of w d) name)) (\<lambda>r. case r of
       None \<Rightarrow> throw (CannotRemove name)
     | Some b \<Rightarrow> store_step (CannotRemove name) (\<lambda>w. set_folder d (remove_key fst (entries_of w d) name) w))"

definition local_storage :: "('b \<Rightarrow> nat) \<Rightarrow> string \<Rightarrow> 'b storage_ops" where
  "local_storage blob_len d = \<lparr>push = local_push d, pull = local_pull d,
     list_objects = local_list blob_len d, remove_object = local_remove d\<rparr>"

definition not_implemented :: "string \<Rightarrow> 'b storage_ops" where
  "not_implemented k = \<lparr>push = (\<lambda>_ _. throw (NotImplemented k)), pull = (\<lambda>_. throw (NotImplemented k)),
     list_objects = (\<lambda>_. throw (NotImplemented k)), remove_object = (\<lambda>_. throw (NotImplemented k))\<rparr>"

text \<open>\<open>open\<close>; \<open>S3::new\<close> is the parameter \<open>s3\<close>.\<close>

fun open_storage ::
  "('b \<Rightarrow> nat) \<Rightarrow> (storage_kind \<Rightarrow> backup_error + 'b storage_ops) \<Rightarrow> storage_kind \<Rightarrow>
   backup_error + 'b storage_ops" where
  "open_storage blob_len s3 (LocalDir d) = Inr (local_storage blob_len d)"
| "open_storage blob_len s3 (Ftp h p u w d) = Inr (not_implemented ''FTP'')"
| "open_storage blob_len s3 (Sftp h p u w k d) = Inr (not_implemented ''SFTP'')"
| "open_storage blob_len s3 (S3 b r e a s p) = s3 (S3 b r e a s p)"

section \<open>The configured storages\<close>

datatype storage_scope = System | User

record storage_list =
  system :: "storage_entry list"
  user :: "storage_entry list"
  sl_scope :: storage_scope

definition user_visible :: "storage_list \<Rightarrow> storage_entry list" where
  "user_visible l = filter (\<lambda>e. \<not> has_key se_name (system l) (se_name e)) (user l)"

definition names :: "storage_list \<Rightarrow> string list" where
  "names l = LOCAL_NAME # map se_name (system l) @ map se_name (user_visible l)"

definition entries :: "storage_list \<Rightarrow> storage_entry list" where
  "entries l = system l @ user_visible l"

definition get_entry :: "storage_list \<Rightarrow> string \<Rightarrow> storage_entry option" where
  "get_entry l name = (case lookup_key se_name (user l) name of
     Some e \<Rightarrow> Some e | None \<Rightarrow> lookup_key se_name (system l) name)"

definition target :: "storage_list \<Rightarrow> storage_entry list" where
  "target l = (case sl_scope l of System \<Rightarrow> system l | User \<Rightarrow> user l)"

definition set_target :: "storage_list \<Rightarrow> storage_entry list \<Rightarrow> storage_list" where
  "set_target l es = (case sl_scope l of System \<Rightarrow> l\<lparr>system := es\<rparr> | User \<Rightarrow> l\<lparr>user := es\<rparr>)"

definition add_storage :: "string \<Rightarrow> storage_kind \<Rightarrow> storage_list \<Rightarrow> backup_error + storage_list" where
  "add_storage name k l =
     (if name = LOCAL_NAME then Inl ReservedName
      else if name \<in> set (names l) then Inl (StorageExists name)
      else Inr (set_target l (target l @ [\<lparr>se_name = name, managed_by = None, se_kind = k\<rparr>])))"

definition upsert_storage :: "storage_entry \<Rightarrow> storage_list \<Rightarrow> backup_error + storage_list" where
  "upsert_storage e l =
     (if se_name e = LOCAL_NAME then Inl ReservedName
      else (case lookup_key se_name (target l) (se_name e) of
        Some old \<Rightarrow> if managed_by old \<noteq> managed_by e then Inl (ManagedBy (se_name e) (managed_by old))
                    else Inr (set_target l (upsert se_name (target l) e))
      | None \<Rightarrow> Inr (set_target l (upsert se_name (target l) e))))"

definition remove_storage :: "string \<Rightarrow> storage_list \<Rightarrow> backup_error + storage_list" where
  "remove_storage name l =
     (if name = LOCAL_NAME then Inl ReservedName
      else let es = remove_key se_name (target l) name in
        if length es = length (target l)
        then (if sl_scope l = User \<and> has_key se_name (system l) name then Inl (SystemStorage name)
              else Inl (StorageNotFound name))
        else Inr (set_target l es))"

end
