(* ===== verification/AppLayout.thy ===== *)
theory AppLayout
  imports FileTree
begin

text \<open>
  \<open>apps/layout.rs\<close>, with the identifiers and the \<open>meta.json\<close> files of \<open>apps/meta.rs\<close>: the
  names an app may have, where it keeps its state and its setting values, and the
  migration of an app that still keeps them at the places of older versions. The JSON
  of \<open>meta.json\<close> is its text here. \<open>fs::write\<close> is two effects, truncation and content.
\<close>

section \<open>Identifiers\<close>

datatype app_error = InvalidId string | CannotRead | CannotCreate | CannotWrite
  | CannotReplace | CannotMove

definition id_char :: "char \<Rightarrow> bool" where
  "id_char c = (is_lower c \<or> is_digit c \<or> c = CHR ''-'' \<or> c = CHR ''_'')"

definition validate_id :: "string \<Rightarrow> app_error + unit" where
  "validate_id i = guard (1 \<le> byte_len i \<and> byte_len i \<le> 64
       \<and> (is_lower (hd i) \<or> is_digit (hd i)) \<and> list_all id_char i) (InvalidId i)"

text \<open>The loop of \<open>canonical_id\<close>; its accumulator is the identifier built so far.\<close>

definition fold_char :: "string \<Rightarrow> char \<Rightarrow> string" where
  "fold_char i c = (let d = lower_char c in
     if id_char d then i @ [d] else if i \<noteq> [] \<and> last i = CHR ''-'' then i else i @ ''-'')"

definition trim_dashes :: "string \<Rightarrow> string" where
  "trim_dashes s = rev (dropWhile (\<lambda>c. c = CHR ''-'') (rev s))"

definition canonical_id :: "string \<Rightarrow> app_error + string" where
  "canonical_id raw = (let i = foldl fold_char [] (trim raw);
       j = trim_dashes (dropWhile (\<lambda>c. \<not> is_alnum c) i);
       k = trim_dashes (take 64 j)
     in and_then (validate_id k) (\<lambda>_. Inr k))"

section \<open>The places of an app's files\<close>

definition STATE_DIR :: string where "STATE_DIR = ''.asc''"
definition LEGACY_CONFIG_DIR :: string where "LEGACY_CONFIG_DIR = ''config''"
definition META_FILE :: string where "META_FILE = ''meta.json''"
definition SETTINGS_FILE :: string where "SETTINGS_FILE = ''settings.json''"

type_synonym path = "string list"

definition state_dir :: path where "state_dir = [STATE_DIR]"
definition legacy_meta_path :: path where "legacy_meta_path = [META_FILE]"
definition meta_path :: path where "meta_path = state_dir @ [META_FILE]"

definition settings_dir :: "fs_node \<Rightarrow> path" where
  "settings_dir t =
     (if \<not> path_exists t (state_dir @ [SETTINGS_FILE]) \<and> path_exists t [LEGACY_CONFIG_DIR, SETTINGS_FILE]
      then [LEGACY_CONFIG_DIR] else state_dir)"

definition ensure_state_dir :: "('z disk_scheme, app_error, path) io" where
  "ensure_state_dir = attempt (fs_step id (create_dir state_dir)) (\<lambda>r. case r of
       Inr u \<Rightarrow> ret state_dir
     | Inl e \<Rightarrow> if e = ExistsErr then ret state_dir else throw CannotCreate)"

text \<open>\<open>AppMeta::load\<close> reads the current place or, where that is missing, the legacy one.\<close>

definition meta_place :: "fs_node \<Rightarrow> path" where
  "meta_place t = (if \<not> path_exists t meta_path \<and> path_exists t legacy_meta_path
     then legacy_meta_path else meta_path)"

definition load_meta :: "fs_node \<Rightarrow> app_error + string" where
  "load_meta t = ok_or CannotRead (file_at t (meta_place t))"

definition fs_write :: "path \<Rightarrow> string \<Rightarrow> ('z disk_scheme, app_error, unit) io" where
  "fs_write p c = seq (fs_step (\<lambda>_. CannotWrite) (write_file p []))
     (fs_step (\<lambda>_. CannotWrite) (write_file p c))"

definition save_meta :: "string \<Rightarrow> ('z disk_scheme, app_error, unit) io" where
  "save_meta raw = bind (asks tree) (\<lambda>t.
     bind (if \<not> path_exists t meta_path \<and> path_exists t legacy_meta_path
           then ret (legacy_meta_path, [''meta.json.tmp''])
           else bind ensure_state_dir (\<lambda>s. ret (s @ [META_FILE], s @ [''meta.json.tmp''])))
     (\<lambda>(p, tmp). seq (fs_write tmp raw) (fs_step (\<lambda>_. CannotReplace) (rename_file tmp p))))"

definition migrate :: "('z disk_scheme, app_error, bool) io" where
  "migrate = bind (asks tree) (\<lambda>t.
     if \<not> path_exists t legacy_meta_path \<or> path_exists t meta_path then ret False
     else bind ensure_state_dir (\<lambda>_.
       bind (asks tree) (\<lambda>t1.
       let legacy_settings = [LEGACY_CONFIG_DIR, SETTINGS_FILE];
           settings = state_dir @ [SETTINGS_FILE]
       in seq (do_if (path_exists t1 legacy_settings \<and> \<not> path_exists t1 settings)
                (fs_step (\<lambda>_. CannotMove) (rename_file legacy_settings settings)))
         (seq (ignore (fs_step (\<lambda>_. CannotMove) (remove_file [LEGACY_CONFIG_DIR, ''settings.json.tmp''])))
         (seq (ignore (fs_step (\<lambda>_. CannotMove) (remove_dir [LEGACY_CONFIG_DIR])))
         (seq (ignore (fs_step (\<lambda>_. CannotMove) (remove_file [''meta.json.tmp''])))
         (seq (fs_step (\<lambda>_. CannotMove) (rename_file legacy_meta_path meta_path))
           (ret True))))))))"

section \<open>What the readers see\<close>

definition settings_text :: "fs_node \<Rightarrow> string option" where
  "settings_text t = file_at t (settings_dir t @ [SETTINGS_FILE])"

definition app_view :: "fs_node \<Rightarrow> string option \<times> (app_error + string)" where
  "app_view t = (settings_text t, load_meta t)"

lemmas place_defs = state_dir_def legacy_meta_path_def meta_path_def STATE_DIR_def
  LEGACY_CONFIG_DIR_def META_FILE_def SETTINGS_FILE_def

definition app_places :: "path list" where
  "app_places = [[''.asc'', ''settings.json''], [''config'', ''settings.json''],
     [''.asc'', ''meta.json''], [''meta.json'']]"

definition same_places :: "fs_node \<Rightarrow> fs_node \<Rightarrow> bool" where
  "same_places t u = (map (node_at u) app_places = map (node_at t) app_places)"

lemma same_places_facts:
  assumes "same_places t u"
  shows "app_view u = app_view t" "path_exists u meta_path = path_exists t meta_path"
    "path_exists u legacy_meta_path = path_exists t legacy_meta_path"
    "path_exists u (state_dir @ [SETTINGS_FILE]) = path_exists t (state_dir @ [SETTINGS_FILE])"
  using assms
  by (auto simp: same_places_def app_places_def app_view_def settings_text_def load_meta_def
      settings_dir_def meta_place_def path_exists_def is_file_def is_dir_def file_at_def place_defs)

lemma same_create:
  assumes "create_dir state_dir t = Inr u" shows "same_places t u"
proof -
  have "node_at u p = node_at t p" if "p \<in> set app_places" for p
    using create_dir_at[OF assms, of p] that by (auto simp: app_places_def place_defs)
  then show ?thesis by (auto simp: same_places_def)
qed

lemma same_remove_tmp:
  assumes "remove_file p t = Inr u"
    "p = [LEGACY_CONFIG_DIR, ''settings.json.tmp''] \<or> p = [''meta.json.tmp'']"
  shows "same_places t u"
proof -
  have "node_at u q = node_at t q" if "q \<in> set app_places" for q
    using node_at_remove_at[of p q t] remove_file_at[OF assms(1)] that assms(2)
    by (auto simp: app_places_def place_defs)
  then show ?thesis by (auto simp: same_places_def)
qed

lemma same_remove_config:
  assumes "remove_dir [LEGACY_CONFIG_DIR] t = Inr u" shows "same_places t u"
proof -
  from remove_dir_at[OF assms] have u: "u = remove_at t [LEGACY_CONFIG_DIR]"
    and d: "node_at t [LEGACY_CONFIG_DIR] = Some (Dir [])" by auto
  have "node_at t [LEGACY_CONFIG_DIR, n] = None" for n
    using node_at_append[of t "[LEGACY_CONFIG_DIR]" "[n]"] d by simp
  then have "node_at u q = node_at t q" if "q \<in> set app_places" for q
    using node_at_remove_at[of "[LEGACY_CONFIG_DIR]" q t] u that
    by (auto simp: app_places_def place_defs)
  then show ?thesis by (auto simp: same_places_def)
qed

lemma move_settings:
  assumes "rename_file [LEGACY_CONFIG_DIR, SETTINGS_FILE] (state_dir @ [SETTINGS_FILE]) t = Inr u"
    and "path_exists t [LEGACY_CONFIG_DIR, SETTINGS_FILE]" "\<not> path_exists t (state_dir @ [SETTINGS_FILE])"
  shows "app_view u = app_view t" "path_exists u meta_path = path_exists t meta_path"
    "path_exists u legacy_meta_path = path_exists t legacy_meta_path"
proof -
  note at = rename_file_at[OF assms(1), unfolded place_defs, simplified]
  have "node_at u [''.asc'', ''settings.json''] = Some (the (node_at t [''config'', ''settings.json'']))"
    "node_at u [''config'', ''settings.json''] = None"
    "node_at u [''.asc'', ''meta.json''] = node_at t [''.asc'', ''meta.json'']"
    "node_at u [''meta.json''] = node_at t [''meta.json'']"
    using at[of "[''.asc'', ''settings.json'']"] at[of "[''config'', ''settings.json'']"]
      at[of "[''.asc'', ''meta.json'']"] at[of "[''meta.json'']"] by simp_all
  then show "app_view u = app_view t" "path_exists u meta_path = path_exists t meta_path"
    "path_exists u legacy_meta_path = path_exists t legacy_meta_path"
    using assms(2,3)
    by (auto simp: app_view_def settings_text_def load_meta_def
      settings_dir_def meta_place_def path_exists_def is_file_def is_dir_def file_at_def place_defs
      split: option.splits)
qed

lemma move_meta:
  assumes "rename_file legacy_meta_path meta_path t = Inr u"
    and "path_exists t legacy_meta_path" "\<not> path_exists t meta_path"
  shows "app_view u = app_view t" "path_exists u meta_path"
proof -
  note at = rename_file_at[OF assms(1), unfolded place_defs, simplified]
  have "node_at u [''.asc'', ''settings.json''] = node_at t [''.asc'', ''settings.json'']"
    "node_at u [''config'', ''settings.json''] = node_at t [''config'', ''settings.json'']"
    "node_at u [''.asc'', ''meta.json''] = Some (the (node_at t [''meta.json'']))"
    "node_at u [''meta.json''] = None"
    using at[of "[''.asc'', ''settings.json'']"] at[of "[''config'', ''settings.json'']"]
      at[of "[''.asc'', ''meta.json'']"] at[of "[''meta.json'']"] by simp_all
  then show "app_view u = app_view t" "path_exists u meta_path"
    using assms(2,3)
    by (auto simp: app_view_def settings_text_def load_meta_def
      settings_dir_def meta_place_def path_exists_def is_file_def is_dir_def file_at_def place_defs
      split: option.splits)
qed

section \<open>Migration and saving keep what the readers see\<close>

definition to_migrate :: "string option \<times> (app_error + string) \<Rightarrow> fs_node \<Rightarrow> bool" where
  "to_migrate v t = (app_view t = v \<and> path_exists t legacy_meta_path \<and> \<not> path_exists t meta_path)"

lemma to_migrate_same: "to_migrate v t \<Longrightarrow> same_places t u \<Longrightarrow> to_migrate v u"
  by (simp add: to_migrate_def same_places_facts)

lemma ensure_state_dir_same:
  assumes "\<And>t u. P t \<Longrightarrow> same_places t u \<Longrightarrow> P u"
  shows "triple (\<lambda>w. P (tree w)) ensure_state_dir (\<lambda>_ w. P (tree w)) (\<lambda>w. P (tree w))"
  unfolding ensure_state_dir_def
  by (rule triple_attempt[OF triple_fs_step[where Q = P and E = P]])
    (auto simp: triple_def io_defs intro: assms same_create)

lemma ignored_step:
  assumes "\<And>t u. P t \<Longrightarrow> f t = Inr u \<Longrightarrow> P u"
  shows "triple (\<lambda>w. P (tree w)) (ignore (fs_step err f)) (\<lambda>_ w. P (tree w)) E"
  by (rule triple_ignore[OF triple_fs_step]) (auto intro: assms)

lemma settings_move_triple:
  "triple (\<lambda>w. to_migrate v (tree w) \<and> t1 = tree w)
     (do_if (path_exists t1 [LEGACY_CONFIG_DIR, SETTINGS_FILE] \<and> \<not> path_exists t1 (state_dir @ [SETTINGS_FILE]))
        (fs_step (\<lambda>_. CannotMove) (rename_file [LEGACY_CONFIG_DIR, SETTINGS_FILE] (state_dir @ [SETTINGS_FILE]))))
     (\<lambda>_ w. to_migrate v (tree w)) (\<lambda>w. app_view (tree w) = v)"
proof (rule triple_do_if)
  assume c: "path_exists t1 [LEGACY_CONFIG_DIR, SETTINGS_FILE] \<and> \<not> path_exists t1 (state_dir @ [SETTINGS_FILE])"
  show "triple (\<lambda>w. to_migrate v (tree w) \<and> t1 = tree w)
      (fs_step (\<lambda>_. CannotMove) (rename_file [LEGACY_CONFIG_DIR, SETTINGS_FILE] (state_dir @ [SETTINGS_FILE])))
      (\<lambda>_ w. to_migrate v (tree w)) (\<lambda>w. app_view (tree w) = v)"
    by (rule triple_fs_step) (use c move_settings in \<open>auto simp: to_migrate_def\<close>)
qed simp

lemma meta_move_triple:
  "triple (\<lambda>w. to_migrate v (tree w)) (fs_step (\<lambda>_. CannotMove) (rename_file legacy_meta_path meta_path))
     (\<lambda>_ w. app_view (tree w) = v \<and> meta_place (tree w) = meta_path) (\<lambda>w. app_view (tree w) = v)"
  by (rule triple_fs_step[where Q = "\<lambda>t. app_view t = v \<and> meta_place t = meta_path"])
    (auto simp: to_migrate_def meta_place_def move_meta)

lemma migrate_triple:
  "triple (\<lambda>w. app_view (tree w) = v) migrate
     (\<lambda>_ w. app_view (tree w) = v \<and> meta_place (tree w) = meta_path) (\<lambda>w. app_view (tree w) = v)"
proof -
  let ?E = "\<lambda>w. app_view (tree w) = v"
  let ?Q = "\<lambda>w. app_view (tree w) = v \<and> meta_place (tree w) = meta_path"
  let ?M = "\<lambda>w. to_migrate v (tree w)"
  have tail: "triple ?M (seq (fs_step (\<lambda>_. CannotMove) (rename_file legacy_meta_path meta_path)) (ret True))
      (\<lambda>_. ?Q) ?E"
    by (rule triple_seq[OF meta_move_triple]) (rule triple_pure(1))
  have config: "triple ?M (ignore (fs_step (\<lambda>_. CannotMove) (remove_dir [LEGACY_CONFIG_DIR]))) (\<lambda>_. ?M) ?E"
    by (rule ignored_step) (blast intro: to_migrate_same same_remove_config)
  have tmp: "triple ?M (ignore (fs_step (\<lambda>_. CannotMove) (remove_file p))) (\<lambda>_. ?M) ?E"
    if "p = [LEGACY_CONFIG_DIR, ''settings.json.tmp''] \<or> p = [''meta.json.tmp'']" for p
    by (rule ignored_step) (erule to_migrate_same, rule same_remove_tmp[OF _ that])
  have ensure: "triple ?M ensure_state_dir (\<lambda>_. ?M) ?E"
  proof (rule triple_conseq[OF ensure_state_dir_same[where P = "to_migrate v"]])
    fix t u assume "to_migrate v t" "same_places t u"
    then show "to_migrate v u" by (rule to_migrate_same)
  qed (simp_all add: to_migrate_def)
  have moves: "triple (\<lambda>w. ?M w \<and> t1 = tree w)
      (seq (do_if (path_exists t1 [LEGACY_CONFIG_DIR, SETTINGS_FILE] \<and> \<not> path_exists t1 (state_dir @ [SETTINGS_FILE]))
              (fs_step (\<lambda>_. CannotMove) (rename_file [LEGACY_CONFIG_DIR, SETTINGS_FILE] (state_dir @ [SETTINGS_FILE]))))
        (seq (ignore (fs_step (\<lambda>_. CannotMove) (remove_file [LEGACY_CONFIG_DIR, ''settings.json.tmp''])))
        (seq (ignore (fs_step (\<lambda>_. CannotMove) (remove_dir [LEGACY_CONFIG_DIR])))
        (seq (ignore (fs_step (\<lambda>_. CannotMove) (remove_file [''meta.json.tmp''])))
        (seq (fs_step (\<lambda>_. CannotMove) (rename_file legacy_meta_path meta_path)) (ret True))))))
      (\<lambda>_. ?Q) ?E" for t1
    by (intro triple_seq[OF settings_move_triple] triple_seq[OF tmp] triple_seq[OF config] tail) simp_all
  show ?thesis
    unfolding migrate_def Let_def
  proof (rule triple_bind[OF triple_pure(5)])
    fix t
    show "triple (\<lambda>w. ?E w \<and> t = tree w)
      (if \<not> path_exists t legacy_meta_path \<or> path_exists t meta_path then ret False
       else bind ensure_state_dir (\<lambda>_. bind (asks tree) (\<lambda>t1.
       (seq (do_if (path_exists t1 [LEGACY_CONFIG_DIR, SETTINGS_FILE] \<and> \<not> path_exists t1 (state_dir @ [SETTINGS_FILE]))
              (fs_step (\<lambda>_. CannotMove) (rename_file [LEGACY_CONFIG_DIR, SETTINGS_FILE] (state_dir @ [SETTINGS_FILE]))))
        (seq (ignore (fs_step (\<lambda>_. CannotMove) (remove_file [LEGACY_CONFIG_DIR, ''settings.json.tmp''])))
        (seq (ignore (fs_step (\<lambda>_. CannotMove) (remove_dir [LEGACY_CONFIG_DIR])))
        (seq (ignore (fs_step (\<lambda>_. CannotMove) (remove_file [''meta.json.tmp''])))
        (seq (fs_step (\<lambda>_. CannotMove) (rename_file legacy_meta_path meta_path)) (ret True)))))))))
      (\<lambda>_. ?Q) ?E" (is "triple _ (if ?C then _ else ?rest) _ _")
    proof (cases ?C)
      case True
      then show ?thesis
        by (simp only: if_True) (rule triple_conseq[OF triple_pure(1)], auto simp: meta_place_def)
    next
      case False
      have rest: "triple ?M ?rest (\<lambda>_. ?Q) ?E"
        by (rule triple_bind[OF ensure triple_bind[OF triple_pure(5) moves]])
      show ?thesis unfolding if_not_P[OF False]
        by (rule triple_conseq[OF rest]) (use False in \<open>auto simp: to_migrate_def\<close>)
    qed
  qed
qed

text \<open>Saving: the temporary file, then one rename.\<close>

definition at_legacy :: "fs_node \<Rightarrow> bool" where
  "at_legacy t = (\<not> path_exists t meta_path \<and> path_exists t legacy_meta_path)"

definition meta_target :: "bool \<Rightarrow> path" where
  "meta_target lg = (if lg then legacy_meta_path else meta_path)"

definition meta_tmp :: "bool \<Rightarrow> path" where
  "meta_tmp lg = (if lg then [''meta.json.tmp''] else state_dir @ [''meta.json.tmp''])"

definition saving :: "string option \<times> (app_error + string) \<Rightarrow> bool \<Rightarrow> fs_node \<Rightarrow> bool" where
  "saving v lg t = (app_view t = v \<and> at_legacy t = lg)"

lemma saving_same: "saving v lg t \<Longrightarrow> same_places t u \<Longrightarrow> saving v lg u"
  by (simp add: saving_def at_legacy_def same_places_facts)

lemma same_write_tmp:
  assumes "write_file (meta_tmp lg) c t = Inr u" shows "same_places t u"
proof -
  from assms have put: "put_node (Some t) (meta_tmp lg) (File c) = Some u"
    by (auto simp: write_file_def ok_or_def split: option.splits)
  have "node_at u q = node_at t q" if "q \<in> set app_places" for q
    using node_at_put_node[OF put, of q] that by (auto simp: app_places_def meta_tmp_def place_defs)
  then show ?thesis by (auto simp: same_places_def)
qed

lemma move_tmp:
  assumes mv: "rename_file (meta_tmp lg) (meta_target lg) t = Inr u"
    and "saving v lg t" "file_at t (meta_tmp lg) = Some raw"
  shows "app_view u = (fst v, Inr raw)"
proof -
  from assms(3) have tmp: "node_at t (meta_tmp lg) = Some (File raw)"
    by (auto simp: file_at_def split: option.splits fs_node.splits)
  have same: "settings_text u = settings_text t \<and> load_meta u = Inr raw"
  proof (cases lg)
    case True
    note at = rename_file_at[OF mv, unfolded True meta_tmp_def meta_target_def place_defs, simplified]
    have "node_at u [''meta.json''] = Some (File raw)"
      "node_at u [''.asc'', ''settings.json''] = node_at t [''.asc'', ''settings.json'']"
      "node_at u [''config'', ''settings.json''] = node_at t [''config'', ''settings.json'']"
      "node_at u [''.asc'', ''meta.json''] = node_at t [''.asc'', ''meta.json'']"
      using at[of "[''meta.json'']"] at[of "[''.asc'', ''settings.json'']"]
        at[of "[''config'', ''settings.json'']"] at[of "[''.asc'', ''meta.json'']"] tmp
      by (simp_all add: True meta_tmp_def)
    with assms(2) True show ?thesis
      by (simp add: saving_def at_legacy_def settings_text_def load_meta_def settings_dir_def
        meta_place_def path_exists_def is_file_def is_dir_def file_at_def ok_or_def place_defs)
  next
    case False
    note at = rename_file_at[OF mv, unfolded if_not_P[OF False] meta_tmp_def meta_target_def place_defs, simplified]
    have "node_at u [''meta.json''] = node_at t [''meta.json'']"
      "node_at u [''.asc'', ''settings.json''] = node_at t [''.asc'', ''settings.json'']"
      "node_at u [''config'', ''settings.json''] = node_at t [''config'', ''settings.json'']"
      "node_at u [''.asc'', ''meta.json''] = Some (File raw)"
      using at[of "[''meta.json'']"] at[of "[''.asc'', ''settings.json'']"]
        at[of "[''config'', ''settings.json'']"] at[of "[''.asc'', ''meta.json'']"] tmp
      by (simp_all add: False meta_tmp_def place_defs)
    with assms(2) False show ?thesis
      by (simp add: saving_def at_legacy_def settings_text_def load_meta_def settings_dir_def
        meta_place_def path_exists_def is_file_def is_dir_def file_at_def ok_or_def place_defs)
  qed
  with assms(2) show ?thesis by (auto simp: app_view_def saving_def)
qed

lemma write_tmp_triple:
  "triple (\<lambda>w. saving v lg (tree w)) (fs_write (meta_tmp lg) raw)
     (\<lambda>_ w. saving v lg (tree w) \<and> file_at (tree w) (meta_tmp lg) = Some raw) (\<lambda>w. app_view (tree w) = v)"
  unfolding fs_write_def
proof (rule triple_seq[where Q = "\<lambda>w. saving v lg (tree w)"])
  show "triple (\<lambda>w. saving v lg (tree w)) (fs_step (\<lambda>_. CannotWrite) (write_file (meta_tmp lg) []))
      (\<lambda>_ w. saving v lg (tree w)) (\<lambda>w. app_view (tree w) = v)"
    by (rule triple_fs_step) (erule saving_same, erule same_write_tmp, simp add: saving_def)
next
  show "triple (\<lambda>w. saving v lg (tree w)) (fs_step (\<lambda>_. CannotWrite) (write_file (meta_tmp lg) raw))
      (\<lambda>_ w. saving v lg (tree w) \<and> file_at (tree w) (meta_tmp lg) = Some raw) (\<lambda>w. app_view (tree w) = v)"
  proof (rule triple_fs_step[where Q = "\<lambda>t. saving v lg t \<and> file_at t (meta_tmp lg) = Some raw"])
    fix t u assume "saving v lg t" "write_file (meta_tmp lg) raw t = Inr u"
    with saving_same[OF _ same_write_tmp] write_file_at
    show "saving v lg u \<and> file_at u (meta_tmp lg) = Some raw" by auto
  qed (simp add: saving_def)
qed

lemma save_tail_triple:
  "triple (\<lambda>w. saving v lg (tree w))
     (seq (fs_write (meta_tmp lg) raw) (fs_step (\<lambda>_. CannotReplace) (rename_file (meta_tmp lg) (meta_target lg))))
     (\<lambda>_ w. app_view (tree w) = (fst v, Inr raw)) (\<lambda>w. app_view (tree w) = v)"
  by (rule triple_seq[OF write_tmp_triple],
      rule triple_fs_step[where P = "\<lambda>t. saving v lg t \<and> file_at t (meta_tmp lg) = Some raw"
        and Q = "\<lambda>t. app_view t = (fst v, Inr raw)"])
    (auto intro: move_tmp simp: saving_def)

lemma save_meta_cases:
  "save_meta raw w =
     (if at_legacy (tree w)
      then seq (fs_write (meta_tmp True) raw) (fs_step (\<lambda>_. CannotReplace) (rename_file (meta_tmp True) (meta_target True))) w
      else bind ensure_state_dir (\<lambda>s. seq (fs_write (s @ [''meta.json.tmp'']) raw)
        (fs_step (\<lambda>_. CannotReplace) (rename_file (s @ [''meta.json.tmp'']) (s @ [META_FILE])))) w)"
  by (simp add: save_meta_def io_simps at_legacy_def meta_tmp_def meta_target_def)
    (auto simp: bind_def ret_def split: prod.splits sum.splits)

lemma ensure_state_dir_value: "ensure_state_dir w = (Inr s, w1) \<Longrightarrow> s = state_dir"
  by (auto simp: ensure_state_dir_def attempt_def io_defs split: prod.splits sum.splits if_splits)

lemma save_meta_view:
  "app_view (tree (snd (save_meta raw w))) = (case fst (save_meta raw w) of
     Inl _ \<Rightarrow> app_view (tree w) | Inr _ \<Rightarrow> (settings_text (tree w), Inr raw))"
proof -
  let ?v = "app_view (tree w)"
  let ?tail = "\<lambda>lg. seq (fs_write (meta_tmp lg) raw) (fs_step (\<lambda>_. CannotReplace) (rename_file (meta_tmp lg) (meta_target lg)))"
  have v: "fst ?v = settings_text (tree w)" by (simp add: app_view_def)
  have tail: "case fst (?tail lg u) of Inl _ \<Rightarrow> app_view (tree (snd (?tail lg u))) = ?v
      | Inr _ \<Rightarrow> app_view (tree (snd (?tail lg u))) = (fst ?v, Inr raw)" if "saving ?v lg (tree u)" for lg u
    using tripleD[OF save_tail_triple[of ?v lg raw], of u] that by simp
  show ?thesis
  proof (cases "at_legacy (tree w)")
    case True
    with tail[of True w] show ?thesis unfolding save_meta_cases
      by (simp add: saving_def v split: sum.splits)
  next
    case False
    obtain r u where r: "ensure_state_dir w = (r, u)" by (cases "ensure_state_dir w")
    have "saving ?v False (tree u)"
    proof -
      have "triple (\<lambda>x. saving ?v False (tree x)) ensure_state_dir (\<lambda>_ x. saving ?v False (tree x)) (\<lambda>x. saving ?v False (tree x))"
        by (rule ensure_state_dir_same) (rule saving_same)
      from triple_world[OF this, of w] r False show ?thesis by (simp add: saving_def)
    qed
    with tail[of False u] r False ensure_state_dir_value[of w _ u] show ?thesis
      unfolding save_meta_cases
      by (cases r) (auto simp: bind_def saving_def v meta_tmp_def meta_target_def meta_path_def split: sum.splits)
  qed
qed

lemma migrate_view:
  "app_view (tree (snd (migrate w))) = app_view (tree w)"
  "case fst (migrate w) of Inl _ \<Rightarrow> True | Inr _ \<Rightarrow> meta_place (tree (snd (migrate w))) = meta_path"
  using tripleD[OF migrate_triple[of "app_view (tree w)"], of w] by (auto split: sum.splits)

section \<open>Canonical identifiers\<close>

lemma id_char_ascii: "id_char c \<Longrightarrow> code c < 128"
  by (auto simp: id_char_def is_lower_def is_digit_def)

lemma id_char_not_white: "id_char c \<Longrightarrow> \<not> is_white c"
  by (auto simp: id_char_def is_lower_def is_digit_def is_white_def)

lemma id_char_lower: "id_char c \<Longrightarrow> lower_char c = c"
  by (auto simp: id_char_def is_lower_def is_digit_def lower_char_def is_upper_def)

lemma validate_id_iff:
  "validate_id i = Inr u \<longleftrightarrow> i \<noteq> [] \<and> length i \<le> 64 \<and> (is_lower (hd i) \<or> is_digit (hd i)) \<and> list_all id_char i"
proof -
  have "byte_len i = length i" if "list_all id_char i"
    using that by (intro byte_len_ascii) (auto simp: list_all_iff id_char_ascii)
  then show ?thesis by (cases i) (auto simp: validate_id_def)
qed

lemma fold_char_id_chars: "list_all id_char i \<Longrightarrow> list_all id_char (foldl fold_char i s)"
  by (induction s arbitrary: i) (auto simp: fold_char_def Let_def id_char_def)

lemma fold_char_id: "list_all id_char s \<Longrightarrow> foldl fold_char i s = i @ s"
  by (induction s arbitrary: i) (auto simp: fold_char_def Let_def id_char_lower)

lemma set_trim_dashes: "set (trim_dashes s) \<subseteq> set s"
  by (auto simp: trim_dashes_def dest: set_dropWhileD)

lemma trim_dashes_last: "trim_dashes s = [] \<or> last (trim_dashes s) \<noteq> CHR ''-''"
proof (cases "dropWhile (\<lambda>c. c = CHR ''-'') (rev s)")
  case (Cons c cs)
  then have "c \<noteq> CHR ''-''" by (metis (mono_tags, lifting) hd_dropWhile list.distinct(1) list.sel(1))
  with Cons show ?thesis by (simp add: trim_dashes_def)
qed (simp add: trim_dashes_def)

lemma trim_dashes_id: "s = [] \<or> last s \<noteq> CHR ''-'' \<Longrightarrow> trim_dashes s = s"
  by (cases s rule: rev_cases) (auto simp: trim_dashes_def)

lemma canonical_id_fixed:
  assumes "validate_id i = Inr u" "last i \<noteq> CHR ''-''"
  shows "canonical_id i = Inr i"
proof -
  from assms(1) have i: "i \<noteq> []" "length i \<le> 64" "is_lower (hd i) \<or> is_digit (hd i)" "list_all id_char i"
    by (auto simp: validate_id_iff)
  have "trimmed i" using i(4) by (intro no_white_trimmed) (auto simp: list_all_iff id_char_not_white)
  moreover have "dropWhile (\<lambda>c. \<not> is_alnum c) i = i"
    using i(1,3) by (cases i) (auto simp: is_alnum_def)
  ultimately show ?thesis
    using i assms by (simp add: canonical_id_def trim_trimmed fold_char_id trim_dashes_id)
qed

lemma canonical_id_valid:
  assumes "canonical_id raw = Inr i"
  shows "validate_id i = Inr () \<and> last i \<noteq> CHR ''-''"
proof -
  from assms obtain j where i: "i = trim_dashes (take 64 j)" and v: "validate_id i = Inr ()"
    by (auto simp: canonical_id_def Let_def)
  from v have "i \<noteq> []" by (auto simp: validate_id_iff)
  with i v trim_dashes_last[of "take 64 j"] show ?thesis by simp
qed

end
