(* ===== verification/Backup.thy ===== *)
theory Backup
  imports Glob Storage AppLayout
begin

text \<open>
  \<open>backup/mod.rs\<close>: the filters, the selection of files, creating an archive and pushing it
  to storages, restoring, listing, deleting and rotating. An archive is its list of
  entries (path below the app directory, content); \<open>tar\<close> and \<open>flate2\<close> are the parameters
  \<open>pack\<close> and \<open>unpack\<close> between entries and the blob that is stored, and \<open>serde_yaml\<close> is
  the parameter \<open>parse_manifest\<close>.
\<close>

section \<open>Filters\<close>

definition MAX_PATTERNS :: nat where "MAX_PATTERNS = 64"
definition MAX_PATTERN_LEN :: nat where "MAX_PATTERN_LEN = 512"

definition trim_slashes :: "string \<Rightarrow> string" where
  "trim_slashes s = rev (dropWhile (\<lambda>c. c = CHR ''/'') (rev s))"

definition pattern_outside :: "string \<Rightarrow> bool" where
  "pattern_outside p = (starts_with ''/'' p \<or> char_of (92 :: nat) \<in> set p
     \<or> ''..'' \<in> set (split_char (CHR ''/'') p))"

definition check_pattern :: "string \<Rightarrow> string \<Rightarrow> backup_error + string" where
  "check_pattern kind p =
     (if MAX_PATTERN_LEN < byte_len p then Inl (PatternTooLong kind p)
      else if pattern_outside p then Inl (PatternOutside kind p) else Inr p)"

definition normalize_patterns :: "string \<Rightarrow> string list \<Rightarrow> backup_error + string list" where
  "normalize_patterns kind raw =
     (let ps = filter (\<lambda>p. p \<noteq> []) (map (\<lambda>p. trim_slashes (trim p)) raw) in
      if MAX_PATTERNS < length ps then Inl (TooManyPatterns kind) else traverse (check_pattern kind) ps)"

record backup_filter =
  include_pats :: "string list"
  exclude_pats :: "string list"

definition new_filter :: "string list \<Rightarrow> string list \<Rightarrow> backup_error + backup_filter" where
  "new_filter inc exc = and_then (normalize_patterns ''include'' inc) (\<lambda>i.
     map_ok (\<lambda>e. \<lparr>include_pats = i, exclude_pats = e\<rparr>) (normalize_patterns ''exclude'' exc))"

section \<open>The files of an archive\<close>

type_synonym archive = "(string \<times> string) list"

definition append_file ::
  "string list \<Rightarrow> string list \<Rightarrow> string \<Rightarrow> fs_node \<Rightarrow> backup_error + archive" where
  "append_file inc exc rel f =
     (if matches_any exc rel \<or> \<not> (inc = [] \<or> matches_any inc rel) then Inr []
      else (case f of File c \<Rightarrow> Inr [(rel, c)] | _ \<Rightarrow> Inl (CannotReadFile rel)))"

definition child_path :: "string \<Rightarrow> string \<Rightarrow> string" where
  "child_path rel n = rel @ ''/'' @ n"

function append_tree ::
  "string list \<Rightarrow> string list \<Rightarrow> string \<Rightarrow> (string \<times> fs_node) list \<Rightarrow> backup_error + archive" where
  "append_tree inc exc rel [] = Inr []"
| "append_tree inc exc rel ((n, x) # es) =
     and_then
       (if matches_any exc (child_path rel n) then Inr []
        else (case x of
            Symlink \<Rightarrow> Inr []
          | Dir ds \<Rightarrow> append_tree inc exc (child_path rel n) ds
          | BadDir \<Rightarrow> Inl (CannotReadFile (child_path rel n))
          | f \<Rightarrow> append_file inc [] (child_path rel n) f))
       (\<lambda>a. map_ok (\<lambda>b. a @ b) (append_tree inc exc rel es))"
  by pat_completeness auto
termination
  by (relation "measure (\<lambda>(inc, exc, rel, es). size_list (size_prod (\<lambda>_. 0) size) es)") auto

definition BACKED_UP_DIRS :: "string list" where "BACKED_UP_DIRS = [''repository'', ''data'']"
definition SETTINGS_ENTRY :: string where "SETTINGS_ENTRY = ''.asc/settings.json''"
definition LEGACY_SETTINGS_ENTRY :: string where "LEGACY_SETTINGS_ENTRY = ''config/settings.json''"
definition COMPOSE_OVERRIDE_ENTRY :: string where "COMPOSE_OVERRIDE_ENTRY = ''.asc/compose.override.yaml''"
definition override_path :: path where "override_path = state_dir @ [''compose.override.yaml'']"

definition archive_dir :: "string list \<Rightarrow> string list \<Rightarrow> fs_node \<Rightarrow> string \<Rightarrow> backup_error + archive" where
  "archive_dir inc exc t sub = (case node_at t [sub] of
       Some (Dir es) \<Rightarrow> append_tree inc exc sub es
     | Some BadDir \<Rightarrow> Inl (CannotReadFile sub)
     | _ \<Rightarrow> Inr [])"

definition archive_file ::
  "string list \<Rightarrow> string list \<Rightarrow> fs_node \<Rightarrow> path \<Rightarrow> string \<Rightarrow> backup_error + archive" where
  "archive_file inc exc t p entry =
     (if is_file t p then append_file inc exc entry (the (node_at t p)) else Inr [])"

definition build_archive :: "string list \<Rightarrow> string list \<Rightarrow> fs_node \<Rightarrow> backup_error + archive" where
  "build_archive inc exc t =
     and_then (map_ok concat (traverse (archive_dir inc exc t) BACKED_UP_DIRS)) (\<lambda>a.
     and_then (archive_file inc exc t (settings_dir t @ [SETTINGS_FILE]) SETTINGS_ENTRY) (\<lambda>b.
     map_ok (\<lambda>c. a @ b @ c) (archive_file inc exc t override_path COMPOSE_OVERRIDE_ENTRY)))"

text \<open>\<open>asc.backup.yaml\<close>.\<close>

definition load_manifest :: "(string \<Rightarrow> string list option) \<Rightarrow> fs_node \<Rightarrow> backup_error + string list" where
  "load_manifest parse_manifest t = (case node_at t [''repository'', ''asc.backup.yaml''] of
       None \<Rightarrow> (if is_file t [''repository''] then Inl BadManifest else Inr [])
     | Some (File c) \<Rightarrow> ok_or BadManifest (parse_manifest c)
     | Some _ \<Rightarrow> Inl BadManifest)"

text \<open>The components of an archived path.\<close>

definition entry_path :: "string \<Rightarrow> path" where
  "entry_path r = split_char (CHR ''/'') r"

section \<open>Operations\<close>

text \<open>
  What a backup uses besides the files: the configured data directory, the storage that
  \<open>S3::new\<close> opens, the archive format, the manifest parser and the length of a blob. A
  blob that ends early unpacks to the entries before the end and \<open>False\<close>.
\<close>

record 'b backup_env =
  backups_dir :: string
  open_s3 :: "storage_kind \<Rightarrow> backup_error + 'b storage_ops"
  pack :: "archive \<Rightarrow> 'b"
  unpack :: "'b \<Rightarrow> archive \<times> bool"
  parse_manifest :: "string \<Rightarrow> string list option"
  blob_len :: "'b \<Rightarrow> nat"

record backup_info =
  bi_name :: string
  bi_storage :: string
  bi_bytes :: nat

definition resolve_storage :: "'b backup_env \<Rightarrow> storage_list \<Rightarrow> string \<Rightarrow> backup_error + 'b storage_ops" where
  "resolve_storage E l name =
     (if name = LOCAL_NAME then Inr (local_storage (blob_len E) (backups_dir E))
      else and_then (ok_or (StorageNotFound name) (get_entry l name))
        (\<lambda>e. open_storage (blob_len E) (open_s3 E) (se_kind e)))"

definition validate_backup_name :: "string \<Rightarrow> string \<Rightarrow> backup_error + unit" where
  "validate_backup_name app_id name = guard
     (\<not> (CHR ''/'' \<in> set name \<or> char_of (92 :: nat) \<in> set name \<or> \<not> belongs_to name app_id))
     (NotABackup app_id name)"

fun remove_each :: "'b storage_ops \<Rightarrow> string list \<Rightarrow> ('b, string list) backup_io" where
  "remove_each st [] = ret []"
| "remove_each st (n # ns) = bind (catch (remove_object st n)) (\<lambda>r.
     bind (remove_each st ns) (\<lambda>rs. ret (case r of Inl _ \<Rightarrow> rs | Inr _ \<Rightarrow> n # rs)))"

definition prune :: "'b storage_ops \<Rightarrow> string \<Rightarrow> nat \<Rightarrow> ('b, string list) backup_io" where
  "prune st app_id keep = bind (list_objects st app_id) (\<lambda>objects.
     if keep < length objects
     then remove_each st (map bo_name (take (length objects - keep) objects))
     else ret [])"

definition remote_name :: "string \<Rightarrow> nat \<Rightarrow> string" where
  "remote_name app_id now = app_id @ ''-'' @ show_nat now @ ARCHIVE_SUFFIX"

definition stage_archive :: "'b backup_env \<Rightarrow> string \<Rightarrow> backup_filter \<Rightarrow> ('b, 'b) backup_io" where
  "stage_archive E app_id f =
     seq (lift_result (map_err (\<lambda>_. BadAppDir) (validate_id app_id)))
     (bind (asks tree) (\<lambda>t.
      bind (lift_result (load_manifest (parse_manifest E) t)) (\<lambda>manifest.
      seq (store_step CannotStage (\<lambda>w. w))
      (bind (lift_result (build_archive (include_pats f) (manifest @ exclude_pats f) t)) (\<lambda>ar.
       ret (pack E ar))))))"

definition push_one ::
  "'b backup_env \<Rightarrow> storage_list \<Rightarrow> string \<Rightarrow> string \<Rightarrow> 'b \<Rightarrow> nat option \<Rightarrow> string \<Rightarrow>
   ('b, backup_info) backup_io" where
  "push_one E l app_id remote blob keep name =
     bind (lift_result (resolve_storage E l name)) (\<lambda>st.
     seq (push st blob remote)
     (seq (case keep of None \<Rightarrow> ret () | Some k \<Rightarrow> ignore (prune st app_id k))
     (ret \<lparr>bi_name = remote, bi_storage = name, bi_bytes = blob_len E blob\<rparr>)))"

fun push_each ::
  "'b backup_env \<Rightarrow> storage_list \<Rightarrow> string \<Rightarrow> string \<Rightarrow> 'b \<Rightarrow> nat option \<Rightarrow> string list \<Rightarrow>
   ('b, (string \<times> (backup_error + backup_info)) list) backup_io" where
  "push_each E l app_id remote blob keep [] = ret []"
| "push_each E l app_id remote blob keep (n # ns) =
     bind (catch (push_one E l app_id remote blob keep n)) (\<lambda>r.
     bind (push_each E l app_id remote blob keep ns) (\<lambda>rs. ret ((n, r) # rs)))"

definition create_backup_multi ::
  "'b backup_env \<Rightarrow> nat \<Rightarrow> string \<Rightarrow> storage_list \<Rightarrow> string list \<Rightarrow> nat option \<Rightarrow> backup_filter \<Rightarrow>
   ('b, (string \<times> (backup_error + backup_info)) list) backup_io" where
  "create_backup_multi E now app_id l ns keep f =
     bind (catch (stage_archive E app_id f)) (\<lambda>r. case r of
         Inl e \<Rightarrow> ret (map (\<lambda>n. (n, Inl e)) ns)
       | Inr blob \<Rightarrow> push_each E l app_id (remote_name app_id now) blob keep ns)"

definition create_backup ::
  "'b backup_env \<Rightarrow> nat \<Rightarrow> string \<Rightarrow> storage_list \<Rightarrow> string \<Rightarrow> nat option \<Rightarrow> ('b, backup_info) backup_io" where
  "create_backup E now app_id l name keep =
     bind (create_backup_multi E now app_id l [name] keep \<lparr>include_pats = [], exclude_pats = []\<rparr>)
       (\<lambda>rs. lift_result (snd (last rs)))"

definition clear_dir :: "string \<Rightarrow> ('b, unit) backup_io" where
  "clear_dir sub = bind (asks tree) (\<lambda>t.
     do_if (path_exists t [sub]) (fs_step (\<lambda>_. CannotClearDir sub) (remove_dir_all [sub])))"

definition clear_file :: "path \<Rightarrow> ('b, unit) backup_io" where
  "clear_file p = attempt (fs_step id (remove_file p)) (\<lambda>r. case r of
       Inr u \<Rightarrow> ret ()
     | Inl e \<Rightarrow> if e = NotFoundErr then ret () else throw (CannotClearDir (join ''/'' p)))"

fun extract_all :: "archive \<Rightarrow> ('b, unit) backup_io" where
  "extract_all [] = ret ()"
| "extract_all ((r, c) # es) = seq (fs_step (\<lambda>_. CannotExtract) (write_file (entry_path r) c)) (extract_all es)"

definition move_legacy :: "path \<Rightarrow> ('b, unit) backup_io" where
  "move_legacy settings = bind (asks tree) (\<lambda>t.
     let legacy = entry_path LEGACY_SETTINGS_ENTRY in
     do_if (is_file t legacy)
       (seq (fs_step (\<lambda>_. CannotExtract) (rename_file legacy settings))
         (ignore (fs_step (\<lambda>_. CannotExtract) (remove_dir (butlast legacy))))))"

definition replace_files :: "'b backup_env \<Rightarrow> 'b \<Rightarrow> ('b, unit) backup_io" where
  "replace_files E blob =
     seq (clear_dir ''repository'') (seq (clear_dir ''data'')
     (bind (attempt ensure_state_dir (\<lambda>r. lift_result (map_err (\<lambda>_. CannotExtract) r))) (\<lambda>s.
      let settings = s @ [SETTINGS_FILE] in
      seq (clear_file settings) (seq (clear_file override_path)
      (seq (store_step CannotExtract (\<lambda>w. w))
      (case unpack E blob of (es, complete) \<Rightarrow>
        seq (extract_all es) (seq (fail_if (\<not> complete) CannotExtract) (move_legacy settings))))))))"

definition restore_backup ::
  "'b backup_env \<Rightarrow> string \<Rightarrow> storage_list \<Rightarrow> string \<Rightarrow> string \<Rightarrow> ('b, unit) backup_io" where
  "restore_backup E app_id l name backup_name =
     seq (lift_result (validate_backup_name app_id backup_name))
     (seq (lift_result (map_err (\<lambda>_. BadAppDir) (validate_id app_id)))
     (bind (lift_result (resolve_storage E l name)) (\<lambda>st.
      bind (pull st backup_name) (replace_files E))))"

definition list_backups ::
  "'b backup_env \<Rightarrow> storage_list \<Rightarrow> string \<Rightarrow> string \<Rightarrow> ('b, backup_object list) backup_io" where
  "list_backups E l name app_id =
     bind (lift_result (resolve_storage E l name)) (\<lambda>st. list_objects st app_id)"

definition delete_backup ::
  "'b backup_env \<Rightarrow> storage_list \<Rightarrow> string \<Rightarrow> string \<Rightarrow> string \<Rightarrow> ('b, unit) backup_io" where
  "delete_backup E l name app_id backup_name =
     seq (lift_result (validate_backup_name app_id backup_name))
     (bind (lift_result (resolve_storage E l name)) (\<lambda>st. remove_object st backup_name))"

section \<open>What is selected\<close>

fun rel_path :: "string \<Rightarrow> path \<Rightarrow> string" where
  "rel_path rel [] = rel"
| "rel_path rel (n # ns) = rel_path (child_path rel n) ns"

lemma rel_path_snd: "\<exists>r. rel_path rel ns = rel @ r \<and> (r = [] \<or> hd r = CHR ''/'')"
proof (induction ns arbitrary: rel)
  case (Cons n ns)
  from Cons[of "child_path rel n"] show ?case by (auto simp: child_path_def)
qed simp

lemma excluded_below: "matches_any ps rel \<Longrightarrow> matches_any ps (rel_path rel ns)"
proof (induction ns arbitrary: rel)
  case (Cons n ns)
  then show ?case using matches_any_under[of ps rel n] by (simp add: child_path_def)
qed simp

definition selected :: "string list \<Rightarrow> string list \<Rightarrow> string \<Rightarrow> bool" where
  "selected inc exc r = (\<not> matches_any exc r \<and> (inc = [] \<or> matches_any inc r))"

lemma append_tree_mem:
  assumes "append_tree inc exc rel es = Inr ar" "wf_tree (Dir es)"
  shows "(r, c) \<in> set ar \<longleftrightarrow>
    (\<exists>ns. ns \<noteq> [] \<and> r = rel_path rel ns \<and> file_at (Dir es) ns = Some c \<and> selected inc exc r)"
  using assms
proof (induction inc exc rel es arbitrary: ar r c rule: append_tree.induct)
  case (1 inc exc rel)
  have "file_at (Dir []) ns = None" for ns by (cases ns) (simp_all add: file_at_def)
  with 1 show ?case by simp
next
  case (2 inc exc rel n x es)
  let ?rel = "child_path rel n"
  let ?part = "if matches_any exc ?rel then Inr []
      else (case x of Symlink \<Rightarrow> Inr [] | Dir ds \<Rightarrow> append_tree inc exc ?rel ds
          | BadDir \<Rightarrow> Inl (CannotReadFile ?rel) | f \<Rightarrow> append_file inc [] ?rel f)"
  from 2(3) obtain a b where a: "?part = Inr a" and b: "append_tree inc exc rel es = Inr b" and ar: "ar = a @ b"
    by auto
  have wx: "wf_tree x" using wf_tree_child[OF 2(4), of n x] by simp
  have new: "map_of es n = None" using wf_tree_names(1)[OF 2(4)] by (auto simp: map_of_eq_None_iff)
  have head: "(r, c) \<in> set a \<longleftrightarrow> (\<exists>ns. r = rel_path ?rel ns \<and> file_at x ns = Some c \<and> selected inc exc r)"
  proof (cases "matches_any exc ?rel")
    case True
    with a show ?thesis using excluded_below[OF True] by (auto simp: selected_def)
  next
    case False
    show ?thesis
    proof (cases x)
      case (File d)
      have at: "file_at (File d) ns = Some c \<longleftrightarrow> ns = [] \<and> c = d" for ns
        by (cases ns) (auto simp: file_at_def)
      from a False File have "a = (if inc = [] \<or> matches_any inc ?rel then [(?rel, d)] else [])"
        by (auto simp: append_file_def split: if_splits)
      then have "(r, c) \<in> set a \<longleftrightarrow> r = ?rel \<and> c = d \<and> selected inc exc ?rel"
        using False by (simp add: selected_def)
      then show ?thesis unfolding File at by (metis rel_path.simps(1))
    next
      case BadFile
      have "file_at BadFile ns = None" for ns by (cases ns) (simp_all add: file_at_def)
      moreover have "a = []" using a False BadFile by (simp add: append_file_def split: if_splits)
      ultimately show ?thesis by (simp add: BadFile)
    next
      case (Dir ds)
      with a False have "append_tree inc exc ?rel ds = Inr a" by simp
      from wx Dir have "wf_tree (Dir ds)" by simp
      note IH = 2(1)[OF False Dir \<open>append_tree inc exc ?rel ds = Inr a\<close> this, of r c]
      have "file_at (Dir ds) [] = None" by (simp add: file_at_def)
      then have "file_at (Dir ds) ns = Some c \<Longrightarrow> ns \<noteq> []" for ns by (cases ns) auto
      then show ?thesis unfolding IH Dir by (intro ex_cong1) blast
    next
      case BadDir
      with a False show ?thesis by simp
    next
      case Symlink
      have "file_at Symlink ns = None" for ns by (cases ns) (simp_all add: file_at_def)
      with a False Symlink show ?thesis by simp
    qed
  qed
  have split: "(\<exists>ns. ns \<noteq> [] \<and> P ns) \<longleftrightarrow> (\<exists>ms. P (n # ms)) \<or> (\<exists>m ms. m \<noteq> n \<and> P (m # ms))" for P
    by (metis list.exhaust list.simps(3))
  have first: "file_at (Dir ((n, x) # es)) (n # ms) = file_at x ms" for ms
    by (simp add: file_at_Dir_Cons)
  have other: "file_at (Dir ((n, x) # es)) (m # ms) = file_at (Dir es) (m # ms)" if "m \<noteq> n" for m ms
    using that by (simp add: file_at_Dir_Cons)
  have gone: "file_at (Dir es) (n # ms) = None" for ms
    using new by (simp add: file_at_Dir_Cons)
  have tail: "(r, c) \<in> set b \<longleftrightarrow> (\<exists>m ms. m \<noteq> n \<and> r = rel_path rel (m # ms)
      \<and> file_at (Dir es) (m # ms) = Some c \<and> selected inc exc r)"
    unfolding 2(2)[OF b wf_tree_tail[OF 2(4)]] split by (simp add: gone)
  show ?case unfolding ar split set_append Un_iff head tail
    by (simp add: first other cong: conj_cong)
qed

text \<open>No archived path is above another, so the entries can be put back in any order.\<close>

lemma apart_map_Cons: "apart qs \<Longrightarrow> apart (map (\<lambda>(ns, c). (n # ns, c)) qs)"
  by (induction qs) auto

lemma append_tree_apart:
  assumes "append_tree inc exc rel es = Inr ar" "wf_tree (Dir es)"
  shows "\<exists>qs. apart qs \<and> ar = map (\<lambda>(ns, c). (rel_path rel ns, c)) qs \<and>
    (\<forall>(ns, c) \<in> set qs. ns \<noteq> [] \<and> file_at (Dir es) ns = Some c)"
  using assms
proof (induction inc exc rel es arbitrary: ar rule: append_tree.induct)
  case (2 inc exc rel n x es)
  let ?rel = "child_path rel n"
  let ?part = "if matches_any exc ?rel then Inr []
      else (case x of Symlink \<Rightarrow> Inr [] | Dir ds \<Rightarrow> append_tree inc exc ?rel ds
          | BadDir \<Rightarrow> Inl (CannotReadFile ?rel) | f \<Rightarrow> append_file inc [] ?rel f)"
  from 2(3) obtain a b where a: "?part = Inr a" and b: "append_tree inc exc rel es = Inr b" and ar: "ar = a @ b"
    by auto
  have wx: "wf_tree x" using wf_tree_child[OF 2(4), of n x] by simp
  have new: "map_of es n = None" using wf_tree_names(1)[OF 2(4)] by (auto simp: map_of_eq_None_iff)
  have "\<exists>qs. apart qs \<and> a = map (\<lambda>(ns, c). (rel_path ?rel ns, c)) qs \<and>
      (\<forall>(ns, c) \<in> set qs. file_at x ns = Some c)"
  proof (cases "\<not> matches_any exc ?rel \<and> (\<exists>ds. x = Dir ds)")
    case True
    then obtain ds where ds: "x = Dir ds" and ex: "\<not> matches_any exc ?rel" by blast
    with a have "append_tree inc exc ?rel ds = Inr a" by simp
    from 2(1)[OF ex ds this] wx ds show ?thesis by fast
  next
    case False
    with a have "a = [] \<or> (\<exists>d. x = File d \<and> a = [(?rel, d)])"
      by (auto simp: append_file_def split: if_splits fs_node.splits)
    then show ?thesis
    proof
      assume "a = []"
      then show ?thesis by (intro exI[of _ "[]"]) simp
    next
      assume "\<exists>d. x = File d \<and> a = [(?rel, d)]"
      then obtain d where "x = File d" "a = [(?rel, d)]" by blast
      then show ?thesis by (intro exI[of _ "[([], d)]"]) (simp add: file_at_def)
    qed
  qed
  then obtain qa where qa: "apart qa" "a = map (\<lambda>(ns, c). (rel_path ?rel ns, c)) qa"
    "\<forall>(ns, c) \<in> set qa. file_at x ns = Some c" by blast
  from 2(2)[OF b wf_tree_tail[OF 2(4)]] obtain qb where qb: "apart qb"
    "b = map (\<lambda>(ns, c). (rel_path rel ns, c)) qb"
    "\<forall>(ns, c) \<in> set qb. ns \<noteq> [] \<and> file_at (Dir es) ns = Some c" by blast
  have heads: "ns \<noteq> [] \<and> hd ns \<noteq> n \<and> file_at (Dir es) ns = Some c" if "(ns, c) \<in> set qb" for ns c
    using qb(3) that new by (cases ns) (auto simp: file_at_Dir_Cons)
  let ?qs = "map (\<lambda>(ns, c). (n # ns, c)) qa @ qb"
  have "\<not> comparable (n # ms) ns" if "(ns, c) \<in> set qb" for ms ns c
    using heads[OF that] by (cases ns) auto
  then have "apart ?qs" using qa(1) qb(1) by (auto simp: apart_append apart_map_Cons)
  moreover have "ar = map (\<lambda>(ns, c). (rel_path rel ns, c)) ?qs"
    using ar qa(2) qb(2) by (simp add: case_prod_unfold comp_def)
  moreover have "\<forall>(ns, c) \<in> set ?qs. ns \<noteq> [] \<and> file_at (Dir ((n, x) # es)) ns = Some c"
  proof -
    have "file_at (Dir ((n, x) # es)) ns = Some c" if "(ns, c) \<in> set qb" for ns c
      using heads[OF that] by (cases ns) (auto simp: file_at_Dir_Cons)
    with qa(3) heads show ?thesis by (auto simp: file_at_Dir_Cons)
  qed
  ultimately show ?case by blast
qed simp

lemma split_char_append_any: "split_char d (a @ d # b) = split_char d a @ split_char d b"
proof (induction a)
  case (Cons c a)
  then show ?case
    by (cases "split_char d a") (auto split: list.split)
qed simp

lemma entry_path_child:
  "CHR ''/'' \<notin> set n \<Longrightarrow> entry_path (child_path rel n) = entry_path rel @ [n]"
  by (simp add: entry_path_def child_path_def split_char_append_any split_char_none)

lemma entry_path_rel:
  "(\<And>n. n \<in> set ns \<Longrightarrow> CHR ''/'' \<notin> set n) \<Longrightarrow> entry_path (rel_path rel ns) = entry_path rel @ ns"
  by (induction ns arbitrary: rel) (auto simp: entry_path_child)

lemma node_names:
  "wf_tree t \<Longrightarrow> node_at t ns = Some x \<Longrightarrow> n \<in> set ns \<Longrightarrow> n \<noteq> [] \<and> CHR ''/'' \<notin> set n"
proof (induction t ns rule: node_at.induct)
  case (2 es m ns)
  then obtain y where y: "map_of es m = Some y" "node_at y ns = Some x" by (auto split: option.splits)
  then have "m \<in> fst ` set es" by (metis map_of_SomeD fst_conv image_eqI)
  with 2 y wf_tree_names(2)[OF 2(2)] wf_tree_child[OF 2(2) y(1)] show ?case by auto
qed auto

lemma file_names: "wf_tree t \<Longrightarrow> file_at t ns = Some c \<Longrightarrow> n \<in> set ns \<Longrightarrow> n \<noteq> [] \<and> CHR ''/'' \<notin> set n"
  using node_names by (auto simp: file_at_def split: option.splits fs_node.splits)

end
