(* ===== verification/BackupRuns.thy ===== *)
theory BackupRuns
  imports Backup
begin

text \<open>
  What the backup operations do, over whole runs of them: the archive that is built, what
  a restore leaves in the app's directory, the rotation of any storage that keeps the
  contract of \<open>trait BackupStorage\<close> (a locale, interpreted by the local directory), and
  the operations on the list of storages.
\<close>

section \<open>The archive\<close>

definition backed_up :: "path \<Rightarrow> bool" where
  "backed_up ns = (ns \<noteq> [] \<and> (hd ns \<in> set BACKED_UP_DIRS \<and> length ns > 1
     \<or> ns = entry_path SETTINGS_ENTRY \<or> ns = override_path))"

text \<open>The file a backup of \<open>t\<close> has for the place \<open>ns\<close>.\<close>

definition source_file :: "fs_node \<Rightarrow> path \<Rightarrow> string option" where
  "source_file t ns =
     (if \<not> backed_up ns then None
      else if ns = entry_path SETTINGS_ENTRY then settings_text t else file_at t ns)"

definition full_path :: "path \<Rightarrow> string" where
  "full_path ns = join ''/'' ns"

lemma entry_paths [simp]:
  "entry_path SETTINGS_ENTRY = [''.asc'', ''settings.json'']"
  "entry_path COMPOSE_OVERRIDE_ENTRY = [''.asc'', ''compose.override.yaml'']"
  "entry_path LEGACY_SETTINGS_ENTRY = [''config'', ''settings.json'']"
  by (simp_all add: entry_path_def SETTINGS_ENTRY_def COMPOSE_OVERRIDE_ENTRY_def LEGACY_SETTINGS_ENTRY_def)

lemma rel_path_full: "rel_path rel ns = join ''/'' (rel # ns)"
proof -
  have "rel_path rel ns = rel @ (if ns = [] then [] else CHR ''/'' # join ''/'' ns)"
  proof (induction ns arbitrary: rel)
    case (Cons n ns)
    show ?case unfolding rel_path.simps Cons by (cases ns) (simp_all add: child_path_def)
  qed simp
  then show ?thesis by (cases ns) simp_all
qed

lemma entry_path_full:
  "ns \<noteq> [] \<Longrightarrow> (\<And>n. n \<in> set ns \<Longrightarrow> CHR ''/'' \<notin> set n) \<Longrightarrow> entry_path (full_path ns) = ns"
  unfolding entry_path_def full_path_def by (rule split_join)

lemma archive_dir_mem:
  assumes "archive_dir inc exc t sub = Inr ar" "wf_tree t" "CHR ''/'' \<notin> set sub"
  shows "(r, c) \<in> set ar \<longleftrightarrow> (\<exists>ns. ns \<noteq> [] \<and> r = full_path (sub # ns) \<and> file_at t (sub # ns) = Some c
    \<and> selected inc exc r)"
proof -
  have at: "file_at t (sub # ns) = (case node_at t [sub] of None \<Rightarrow> None | Some x \<Rightarrow> file_at x ns)" for ns
    using node_at_append[of t "[sub]" ns] by (simp add: file_at_def split: option.split)
  show ?thesis
  proof (cases "\<exists>es. node_at t [sub] = Some (Dir es)")
    case True
    then obtain es where es: "node_at t [sub] = Some (Dir es)" by blast
    with assms(1) have "append_tree inc exc sub es = Inr ar" by (simp add: archive_dir_def)
    from append_tree_mem[OF this wf_tree_at[OF assms(2) es], of r c] show ?thesis
      by (simp add: at es rel_path_full full_path_def)
  next
    case False
    with assms(1) have "ar = []" by (auto simp: archive_dir_def split: option.splits fs_node.splits)
    moreover have "file_at t (sub # ns) = None" if "ns \<noteq> []" for ns
      using False that at[of ns] by (auto simp: file_at_def split: option.splits) (metis fs_node.exhaust node_at_other option.distinct(1))
    ultimately show ?thesis by auto
  qed
qed

lemma archive_file_mem:
  assumes "archive_file inc exc t p entry = Inr ar"
  shows "(r, c) \<in> set ar \<longleftrightarrow> r = entry \<and> file_at t p = Some c \<and> selected inc exc r"
proof (cases "is_file t p")
  case True
  then obtain x where x: "node_at t p = Some x" "x = BadFile \<or> (\<exists>d. x = File d)"
    by (auto simp: is_file_def split: option.splits fs_node.splits)
  with assms True show ?thesis
    by (auto simp: archive_file_def append_file_def selected_def file_at_def split: if_splits)
next
  case False
  with assms have "ar = []" by (simp add: archive_file_def)
  moreover have "file_at t p = None" using False
    by (auto simp: file_at_def is_file_def split: option.splits fs_node.splits)
  ultimately show ?thesis by simp
qed

lemma build_archive_parts:
  assumes "build_archive inc exc t = Inr ar"
  obtains a1 a2 b c where "archive_dir inc exc t ''repository'' = Inr a1" "archive_dir inc exc t ''data'' = Inr a2"
    "archive_file inc exc t (settings_dir t @ [SETTINGS_FILE]) SETTINGS_ENTRY = Inr b"
    "archive_file inc exc t override_path COMPOSE_OVERRIDE_ENTRY = Inr c" "ar = a1 @ a2 @ b @ c"
  using assms by (auto simp: build_archive_def BACKED_UP_DIRS_def)

lemma full_path_entries:
  "SETTINGS_ENTRY = full_path [''.asc'', ''settings.json'']"
  "COMPOSE_OVERRIDE_ENTRY = full_path [''.asc'', ''compose.override.yaml'']"
  by (simp_all add: full_path_def SETTINGS_ENTRY_def COMPOSE_OVERRIDE_ENTRY_def)

lemma build_archive_mem:
  assumes "build_archive inc exc t = Inr ar" "wf_tree t"
  shows "(r, c) \<in> set ar \<longleftrightarrow> (\<exists>ns. r = full_path ns \<and> source_file t ns = Some c \<and> selected inc exc r)"
proof -
  obtain a1 a2 b d where parts: "archive_dir inc exc t ''repository'' = Inr a1"
    "archive_dir inc exc t ''data'' = Inr a2"
    "archive_file inc exc t (settings_dir t @ [SETTINGS_FILE]) SETTINGS_ENTRY = Inr b"
    "archive_file inc exc t override_path COMPOSE_OVERRIDE_ENTRY = Inr d" "ar = a1 @ a2 @ b @ d"
    by (rule build_archive_parts[OF assms(1)])
  have src: "source_file t ns = Some c \<longleftrightarrow>
      (\<exists>ms. ms \<noteq> [] \<and> ns = ''repository'' # ms \<and> file_at t ns = Some c)
      \<or> (\<exists>ms. ms \<noteq> [] \<and> ns = ''data'' # ms \<and> file_at t ns = Some c)
      \<or> ns = [''.asc'', ''settings.json''] \<and> settings_text t = Some c
      \<or> ns = [''.asc'', ''compose.override.yaml''] \<and> file_at t ns = Some c" for ns
    by (cases ns) (auto simp: source_file_def backed_up_def BACKED_UP_DIRS_def override_path_def place_defs)
  have "(r, c) \<in> set ar \<longleftrightarrow> (r, c) \<in> set a1 \<or> (r, c) \<in> set a2 \<or> (r, c) \<in> set b \<or> (r, c) \<in> set d"
    by (auto simp: parts(5))
  also have "\<dots> \<longleftrightarrow> (\<exists>ns. r = full_path ns \<and> source_file t ns = Some c \<and> selected inc exc r)"
    unfolding src archive_dir_mem[OF parts(1) assms(2), simplified] archive_dir_mem[OF parts(2) assms(2), simplified]
      archive_file_mem[OF parts(3)] archive_file_mem[OF parts(4)] full_path_entries settings_text_def[symmetric]
    by (auto simp: override_path_def place_defs)
  finally show ?thesis .
qed

section \<open>Restoring\<close>

definition at_paths :: "archive \<Rightarrow> (path \<times> string) list" where
  "at_paths ar = map (\<lambda>(r, c). (entry_path r, c)) ar"

lemma at_paths_append [simp]: "at_paths (a @ b) = at_paths a @ at_paths b"
  by (simp add: at_paths_def)

lemma archive_dir_apart:
  assumes "archive_dir inc exc t sub = Inr ar" "wf_tree t" "CHR ''/'' \<notin> set sub"
  shows "\<exists>qs. at_paths ar = map (\<lambda>(ns, c). (sub # ns, c)) qs \<and> apart qs \<and> (\<forall>q \<in> set qs. fst q \<noteq> [])"
proof (cases "\<exists>es. node_at t [sub] = Some (Dir es)")
  case True
  then obtain es where es: "node_at t [sub] = Some (Dir es)" by blast
  with assms(1) have "append_tree inc exc sub es = Inr ar" by (simp add: archive_dir_def)
  from append_tree_apart[OF this wf_tree_at[OF assms(2) es]] obtain qs where qs: "apart qs"
    "ar = map (\<lambda>(ns, c). (rel_path sub ns, c)) qs"
    "\<forall>(ns, c) \<in> set qs. ns \<noteq> [] \<and> file_at (Dir es) ns = Some c" by blast
  have "entry_path (rel_path sub ns) = sub # ns" if "(ns, c) \<in> set qs" for ns c
  proof -
    from that qs(3) have "file_at (Dir es) ns = Some c" by auto
    then have "CHR ''/'' \<notin> set n" if "n \<in> set ns" for n
      using file_names[OF wf_tree_at[OF assms(2) es]] that by blast
    then have "entry_path (rel_path sub ns) = entry_path sub @ ns" by (rule entry_path_rel)
    then show ?thesis using assms(3) by (simp add: entry_path_def split_char_none)
  qed
  then have "at_paths ar = map (\<lambda>(ns, c). (sub # ns, c)) qs"
    by (auto simp: at_paths_def qs(2))
  moreover have "\<forall>q \<in> set qs. fst q \<noteq> []" using qs(3) by auto
  ultimately show ?thesis using qs(1) by blast
next
  case False
  with assms(1) have "ar = []" by (auto simp: archive_dir_def split: option.splits fs_node.splits)
  then show ?thesis by (intro exI[of _ "[]"]) (simp add: at_paths_def)
qed

lemma archive_file_paths:
  assumes "archive_file inc exc t p entry = Inr ar"
  shows "at_paths ar = [] \<or> (\<exists>c. at_paths ar = [(entry_path entry, c)])"
  using assms by (auto simp: archive_file_def append_file_def at_paths_def split: if_splits fs_node.splits)

lemma build_archive_apart:
  assumes "build_archive inc exc t = Inr ar" "wf_tree t"
  shows "apart (at_paths ar)"
proof -
  obtain a1 a2 b d where parts: "archive_dir inc exc t ''repository'' = Inr a1"
    "archive_dir inc exc t ''data'' = Inr a2"
    "archive_file inc exc t (settings_dir t @ [SETTINGS_FILE]) SETTINGS_ENTRY = Inr b"
    "archive_file inc exc t override_path COMPOSE_OVERRIDE_ENTRY = Inr d" "ar = a1 @ a2 @ b @ d"
    by (rule build_archive_parts[OF assms(1)])
  obtain q1 where q1: "at_paths a1 = map (\<lambda>(ns, c). (''repository'' # ns, c)) q1" "apart q1"
    using archive_dir_apart[OF parts(1) assms(2)] by auto
  obtain q2 where q2: "at_paths a2 = map (\<lambda>(ns, c). (''data'' # ns, c)) q2" "apart q2"
    using archive_dir_apart[OF parts(2) assms(2)] by auto
  have "\<forall>e \<in> set (at_paths b). fst e = [''.asc'', ''settings.json'']" "apart (at_paths b)"
    using archive_file_paths[OF parts(3)] by auto
  moreover have "\<forall>e \<in> set (at_paths d). fst e = [''.asc'', ''compose.override.yaml'']" "apart (at_paths d)"
    using archive_file_paths[OF parts(4)] by auto
  ultimately show ?thesis
    unfolding parts(5) at_paths_append q1(1) q2(1)
    by (auto simp: apart_append apart_map_Cons[OF q1(2)] apart_map_Cons[OF q2(2)])
qed

lemma source_names:
  assumes "wf_tree t" "source_file t ns = Some c" "n \<in> set ns"
  shows "CHR ''/'' \<notin> set n"
  using assms file_names[OF assms(1), of ns c n]
  by (auto simp: source_file_def split: if_splits)

lemma source_path: "source_file t ns = Some c \<Longrightarrow> ns \<noteq> []"
  by (auto simp: source_file_def backed_up_def split: if_splits)

lemma archive_lookup:
  assumes "build_archive inc exc t = Inr ar" "wf_tree t"
  shows "map_of (at_paths ar) ns = (if selected inc exc (full_path ns) then source_file t ns else None)"
proof -
  have dist: "distinct (map fst (at_paths ar))"
    by (rule apart_distinct[OF build_archive_apart[OF assms]])
  have mem: "(ns, c) \<in> set (at_paths ar) \<longleftrightarrow> source_file t ns = Some c \<and> selected inc exc (full_path ns)" for c
  proof
    assume "(ns, c) \<in> set (at_paths ar)"
    then obtain r where r: "(r, c) \<in> set ar" "entry_path r = ns" by (auto simp: at_paths_def)
    with build_archive_mem[OF assms] obtain ms where
      ms: "r = full_path ms" "source_file t ms = Some c" "selected inc exc r" by blast
    note source_path[OF ms(2)]
    from entry_path_full[OF this source_names[OF assms(2) ms(2)]] have "entry_path r = ms"
      unfolding ms(1) by blast
    with r ms show "source_file t ns = Some c \<and> selected inc exc (full_path ns)" by simp
  next
    assume s: "source_file t ns = Some c \<and> selected inc exc (full_path ns)"
    then have "(full_path ns, c) \<in> set ar" using build_archive_mem[OF assms] by blast
    moreover have "entry_path (full_path ns) = ns"
      by (rule entry_path_full[OF source_path source_names[OF assms(2)]]) (use s in blast)+
    ultimately show "(ns, c) \<in> set (at_paths ar)" by (force simp: at_paths_def)
  qed
  show ?thesis
  proof (cases "map_of (at_paths ar) ns")
    case None
    then have "(ns, c) \<notin> set (at_paths ar)" for c using dist by (metis map_of_eq_Some_iff option.distinct(1))
    with mem None show ?thesis by (cases "source_file t ns") auto
  next
    case (Some c)
    then have "(ns, c) \<in> set (at_paths ar)" by (rule map_of_SomeD)
    with mem Some show ?thesis by simp
  qed
qed

lemma extract_fine:
  "disk_outs w = [] \<Longrightarrow> put_files (tree w) (at_paths ar) = Some t \<Longrightarrow>
   extract_all ar w = (Inr (), w\<lparr>tree := t\<rparr>)"
proof (induction ar arbitrary: w)
  case (Cons e ar)
  obtain r c where e: "e = (r, c)" by (cases e)
  from Cons.prems(2) obtain u where u: "put_node (Some (tree w)) (entry_path r) (File c) = Some u"
    "put_files u (at_paths ar) = Some t"
    by (auto simp: e at_paths_def split: option.splits)
  have "fs_step (\<lambda>_. CannotExtract) (write_file (entry_path r) c) w = (Inr (), w\<lparr>tree := u\<rparr>)"
    using Cons.prems(1) u(1) by (simp add: fs_step_fine write_file_def ok_or_def)
  then have "extract_all (e # ar) w = extract_all ar (w\<lparr>tree := u\<rparr>)"
    by (simp add: e seq_def bind_def)
  also have "\<dots> = (Inr (), w\<lparr>tree := t\<rparr>)" using Cons.IH[of "w\<lparr>tree := u\<rparr>"] Cons.prems(1) u(2) by simp
  finally show ?case .
qed (simp add: ret_def at_paths_def)

text \<open>Clearing, on a directory whose entries have the expected kinds.\<close>

definition no_dir :: "fs_node option \<Rightarrow> bool" where
  "no_dir x = (x \<noteq> Some BadDir \<and> (\<forall>es. x \<noteq> Some (Dir es)))"

lemma clear_dir_fine:
  assumes "disk_outs w = []" "tree w = Dir es" "map_of es d = None \<or> (\<exists>ds. map_of es d = Some (Dir ds))"
  shows "\<exists>es1. clear_dir d w = (Inr (), w\<lparr>tree := Dir es1\<rparr>) \<and> map_of es1 = (map_of es)(d := None)"
proof (cases "map_of es d")
  case None
  then have "clear_dir d w = (Inr (), w\<lparr>tree := Dir es\<rparr>)"
    using assms by (simp add: clear_dir_def io_simps path_exists_def is_file_def is_dir_def)
  moreover have "map_of es = (map_of es)(d := None)" using None by auto
  ultimately show ?thesis by blast
next
  case (Some x)
  with assms(3) obtain ds where "map_of es d = Some (Dir ds)" by auto
  then have "clear_dir d w = (Inr (), w\<lparr>tree := Dir (filter (\<lambda>e. fst e \<noteq> d) es)\<rparr>)"
    using assms by (simp add: clear_dir_def io_simps path_exists_def is_file_def is_dir_def fs_step_fine
        remove_dir_all_def)
  moreover have "map_of (filter (\<lambda>e. fst e \<noteq> d) es) = (map_of es)(d := None)"
    by (rule ext) (simp add: map_of_filter_out)
  ultimately show ?thesis by blast
qed

lemma clear_file_fine:
  assumes "disk_outs w = []" "tree w = Dir es" "map_of es s = Some (Dir ds)" "no_dir (map_of ds f)"
  shows "\<exists>es1 ds1. clear_file [s, f] w = (Inr (), w\<lparr>tree := Dir es1\<rparr>) \<and>
    map_of es1 = (map_of es)(s := Some (Dir ds1)) \<and> map_of ds1 = (map_of ds)(f := None)"
proof (cases "map_of ds f")
  case None
  then have "clear_file [s, f] w = (Inr (), w\<lparr>tree := Dir es\<rparr>)"
    using assms by (simp add: clear_file_def attempt_def fs_step_fine remove_file_def blocked_def
        is_file_def ret_def)
  moreover have "map_of es = (map_of es)(s := Some (Dir ds))" "map_of ds = (map_of ds)(f := None)"
    using None assms(3) by auto
  ultimately show ?thesis by blast
next
  case (Some x)
  let ?ds = "filter (\<lambda>e. fst e \<noteq> f) ds"
  have "clear_file [s, f] w = (Inr (), w\<lparr>tree := Dir (upsert fst es (s, Dir ?ds))\<rparr>)"
    using assms Some
    by (cases x) (simp_all add: clear_file_def attempt_def fs_step_fine remove_file_def ret_def no_dir_def)
  then show ?thesis by (intro exI conjI) (auto simp: map_of_upsert map_of_filter_out)
qed

lemma ensure_state_dir_fine:
  assumes "disk_outs w = []" "tree w = Dir es" "map_of es STATE_DIR = None \<or> (\<exists>ds. map_of es STATE_DIR = Some (Dir ds))"
  shows "\<exists>es1 ds. ensure_state_dir w = (Inr state_dir, w\<lparr>tree := Dir es1\<rparr>) \<and>
    map_of es1 = (map_of es)(STATE_DIR := Some (Dir ds)) \<and>
    (map_of es STATE_DIR = Some (Dir ds) \<or> map_of es STATE_DIR = None \<and> ds = [])"
proof (cases "map_of es STATE_DIR")
  case None
  have "ensure_state_dir w = (Inr state_dir, w\<lparr>tree := Dir (upsert fst es (STATE_DIR, Dir []))\<rparr>)"
    using assms None by (simp add: ensure_state_dir_def attempt_def fs_step_fine create_dir_def ret_def
        state_dir_def ok_or_def)
  then show ?thesis using None by (intro exI conjI) (auto simp: map_of_upsert)
next
  case (Some x)
  with assms(3) obtain ds where ds: "map_of es STATE_DIR = Some (Dir ds)" by auto
  then have "ensure_state_dir w = (Inr state_dir, w\<lparr>tree := Dir es\<rparr>)"
    using assms by (simp add: ensure_state_dir_def attempt_def fs_step_fine create_dir_def ret_def
        state_dir_def)
  then show ?thesis using ds by (intro exI conjI) auto
qed

text \<open>An app directory a restore can work on: where it expects directories there are no files.\<close>

definition restorable :: "fs_node \<Rightarrow> bool" where
  "restorable t = (\<exists>es. t = Dir es
     \<and> (\<forall>d \<in> set BACKED_UP_DIRS. map_of es d = None \<or> (\<exists>ds. map_of es d = Some (Dir ds)))
     \<and> (map_of es STATE_DIR = None \<or> (\<exists>ds. map_of es STATE_DIR = Some (Dir ds)
          \<and> no_dir (map_of ds SETTINGS_FILE) \<and> no_dir (map_of ds ''compose.override.yaml''))))"

text \<open>The directory after the clearing steps of a restore.\<close>

definition dir_or_none :: "fs_node option \<Rightarrow> bool" where
  "dir_or_none x = (x = None \<or> (\<exists>ds. x = Some (Dir ds)))"

definition cleared :: "fs_node \<Rightarrow> (string \<times> fs_node) list \<Rightarrow> bool" where
  "cleared t es = (\<exists>os ds ds0. t = Dir os
     \<and> map_of es = (map_of os)(''repository'' := None, ''data'' := None, STATE_DIR := Some (Dir ds))
     \<and> (map_of os STATE_DIR = Some (Dir ds0) \<or> map_of os STATE_DIR = None \<and> ds0 = [])
     \<and> map_of ds = (map_of ds0)(SETTINGS_FILE := None, ''compose.override.yaml'' := None)
     \<and> no_dir (map_of ds0 SETTINGS_FILE) \<and> no_dir (map_of ds0 ''compose.override.yaml'')
     \<and> dir_or_none (map_of os ''repository'') \<and> dir_or_none (map_of os ''data''))"

definition clearing :: "('b, path) backup_io" where
  "clearing = seq (clear_dir ''repository'') (seq (clear_dir ''data'')
     (bind (attempt ensure_state_dir (\<lambda>r. lift_result (map_err (\<lambda>_. CannotExtract) r))) (\<lambda>s.
      seq (clear_file (s @ [SETTINGS_FILE])) (seq (clear_file override_path) (ret s)))))"

lemma clearing_fine:
  assumes w: "disk_outs w = []" and r: "restorable (tree w)"
  shows "\<exists>es. clearing w = (Inr state_dir, w\<lparr>tree := Dir es\<rparr>) \<and> cleared (tree w) es"
proof -
  from r obtain os where os: "tree w = Dir os"
    and dirs: "\<And>d. d \<in> {''repository'', ''data''} \<Longrightarrow> map_of os d = None \<or> (\<exists>ds. map_of os d = Some (Dir ds))"
    and st: "map_of os STATE_DIR = None \<or> (\<exists>ds. map_of os STATE_DIR = Some (Dir ds)
          \<and> no_dir (map_of ds SETTINGS_FILE) \<and> no_dir (map_of ds ''compose.override.yaml''))"
    by (auto simp: restorable_def BACKED_UP_DIRS_def)
  obtain e1 where e1: "clear_dir ''repository'' w = (Inr (), w\<lparr>tree := Dir e1\<rparr>)"
    "map_of e1 = (map_of os)(''repository'' := None)"
    using clear_dir_fine[OF w os dirs[of "''repository''"]] by auto
  obtain e2 where e2: "clear_dir ''data'' (w\<lparr>tree := Dir e1\<rparr>) = (Inr (), w\<lparr>tree := Dir e2\<rparr>)"
    "map_of e2 = (map_of os)(''repository'' := None, ''data'' := None)"
    using clear_dir_fine[of "w\<lparr>tree := Dir e1\<rparr>" e1 "''data''"] w dirs[of "''data''"] e1(2) by auto
  have st2: "map_of e2 STATE_DIR = map_of os STATE_DIR" by (simp add: e2(2) STATE_DIR_def)
  with st have "map_of e2 STATE_DIR = None \<or> (\<exists>ds. map_of e2 STATE_DIR = Some (Dir ds))" by auto
  from ensure_state_dir_fine[of "w\<lparr>tree := Dir e2\<rparr>" e2, OF _ _ this] w
  obtain e3 ds0 where e3: "ensure_state_dir (w\<lparr>tree := Dir e2\<rparr>) = (Inr state_dir, w\<lparr>tree := Dir e3\<rparr>)"
    "map_of e3 = (map_of e2)(STATE_DIR := Some (Dir ds0))"
    "map_of e2 STATE_DIR = Some (Dir ds0) \<or> map_of e2 STATE_DIR = None \<and> ds0 = []" by auto
  have nd: "no_dir (map_of ds0 SETTINGS_FILE)" "no_dir (map_of ds0 ''compose.override.yaml'')"
    using e3(3) st st2 by (auto simp: no_dir_def)
  obtain e4 ds1 where e4: "clear_file [STATE_DIR, SETTINGS_FILE] (w\<lparr>tree := Dir e3\<rparr>) = (Inr (), w\<lparr>tree := Dir e4\<rparr>)"
    "map_of e4 = (map_of e3)(STATE_DIR := Some (Dir ds1))" "map_of ds1 = (map_of ds0)(SETTINGS_FILE := None)"
    using clear_file_fine[of "w\<lparr>tree := Dir e3\<rparr>" e3 STATE_DIR ds0 SETTINGS_FILE] w e3(2) nd by auto
  have "no_dir (map_of ds1 ''compose.override.yaml'')" using nd by (simp add: e4(3) no_dir_def)
  then obtain e5 ds2 where e5: "clear_file [STATE_DIR, ''compose.override.yaml''] (w\<lparr>tree := Dir e4\<rparr>) = (Inr (), w\<lparr>tree := Dir e5\<rparr>)"
    "map_of e5 = (map_of e4)(STATE_DIR := Some (Dir ds2))"
    "map_of ds2 = (map_of ds1)(''compose.override.yaml'' := None)"
    using clear_file_fine[of "w\<lparr>tree := Dir e4\<rparr>" e4 STATE_DIR ds1 "''compose.override.yaml''"] w e4(2) by auto
  have "clearing w = (Inr state_dir, w\<lparr>tree := Dir e5\<rparr>)"
    using e1(1) e2(1) e3(1) e4(1) e5(1)
    by (simp add: clearing_def seq_def bind_def attempt_def lift_result_def ret_def override_path_def state_dir_def)
  moreover have "cleared (tree w) e5"
  proof -
    have "map_of e5 = (map_of os)(''repository'' := None, ''data'' := None, STATE_DIR := Some (Dir ds2))"
      by (simp add: e5(2) e4(2) e3(2) e2(2))
    moreover have "map_of ds2 = (map_of ds0)(SETTINGS_FILE := None, ''compose.override.yaml'' := None)"
      by (simp add: e5(3) e4(3))
    moreover have "map_of os STATE_DIR = Some (Dir ds0) \<or> map_of os STATE_DIR = None \<and> ds0 = []"
      using e3(3) unfolding st2 .
    moreover have "dir_or_none (map_of os ''repository'')" "dir_or_none (map_of os ''data'')"
      using dirs by (simp_all add: dir_or_none_def)
    ultimately show ?thesis unfolding cleared_def using os nd
      by (intro exI[of _ os] exI[of _ ds2] exI[of _ ds0]) (intro conjI)
  qed
  ultimately show ?thesis by blast
qed

lemma file_at_Dir_Nil [simp]: "file_at (Dir es) [] = None"
  by (simp add: file_at_def)

lemma file_at_no_dir: "no_dir (Some x) \<Longrightarrow> ns \<noteq> [] \<Longrightarrow> file_at x ns = None"
  by (cases x) (auto simp: no_dir_def file_at_def)

text \<open>What clearing removes: the two directories, and the two files in \<open>.asc\<close>.\<close>

lemma cleared_file:
  assumes "cleared t es"
  shows "file_at (Dir es) ns = (if backed_up ns then None else file_at t ns)"
proof -
  from assms obtain os ds ds0 where t: "t = Dir os"
    and es: "map_of es = (map_of os)(''repository'' := None, ''data'' := None, STATE_DIR := Some (Dir ds))"
    and ds0: "map_of os STATE_DIR = Some (Dir ds0) \<or> map_of os STATE_DIR = None \<and> ds0 = []"
    and ds: "map_of ds = (map_of ds0)(SETTINGS_FILE := None, ''compose.override.yaml'' := None)"
    and nd: "no_dir (map_of ds0 SETTINGS_FILE)" "no_dir (map_of ds0 ''compose.override.yaml'')"
    and dirs: "dir_or_none (map_of os ''repository'')" "dir_or_none (map_of os ''data'')"
    unfolding cleared_def by (elim exE conjE) (rule that)
  show ?thesis
  proof (cases ns)
    case Nil
    then show ?thesis by (simp add: t)
  next
    case (Cons n ms)
    consider "n = ''repository'' \<or> n = ''data''" | "n = STATE_DIR" | "n \<noteq> ''repository''" "n \<noteq> ''data''" "n \<noteq> STATE_DIR"
      by blast
    then show ?thesis
    proof cases
      case 1
      have "file_at t [n] = None" using dirs 1 by (auto simp: t file_at_Dir_Cons dir_or_none_def)
      moreover have "file_at (Dir es) ns = None" using 1 Cons es by (auto simp: file_at_Dir_Cons STATE_DIR_def)
      ultimately show ?thesis using 1 Cons by (cases ms) (auto simp: backed_up_def BACKED_UP_DIRS_def)
    next
      case 2
      have state: "file_at t (n # ms) = file_at (Dir ds0) ms"
        using ds0 2 by (cases ms) (auto simp: t file_at_Dir_Cons)
      have new: "file_at (Dir es) (n # ms) = file_at (Dir ds) ms"
        using es 2 by (simp add: file_at_Dir_Cons)
      show ?thesis
      proof (cases ms)
        case Nil
        then show ?thesis using Cons state new by simp
      next
        case (Cons f ks)
        have gone: "file_at (Dir ds0) (f # ks) = None" if "f = SETTINGS_FILE \<or> f = ''compose.override.yaml''" "ks \<noteq> []"
          using that nd file_at_no_dir by (auto simp: file_at_Dir_Cons split: option.split)
        have up: "backed_up ns \<longleftrightarrow> ks = [] \<and> (f = SETTINGS_FILE \<or> f = ''compose.override.yaml'')"
          using 2 Cons \<open>ns = n # ms\<close>
          by (auto simp: backed_up_def BACKED_UP_DIRS_def override_path_def place_defs)
        show ?thesis
        proof (cases "f = SETTINGS_FILE \<or> f = ''compose.override.yaml''")
          case True
          then have "file_at (Dir ds) (f # ks) = None" by (auto simp: file_at_Dir_Cons ds)
          with True gone up show ?thesis
            using \<open>ns = n # ms\<close> Cons state new by auto
        next
          case False
          then have "file_at (Dir ds) (f # ks) = file_at (Dir ds0) (f # ks)"
            by (simp add: file_at_Dir_Cons ds)
          with False up show ?thesis using \<open>ns = n # ms\<close> Cons state new by simp
        qed
      qed
    next
      case 3
      then have "\<not> backed_up ns" using Cons
        by (auto simp: backed_up_def BACKED_UP_DIRS_def override_path_def place_defs)
      with 3 Cons es show ?thesis by (simp add: t file_at_Dir_Cons)
    qed
  qed
qed

lemma cleared_fits:
  assumes "cleared t es" "backed_up ns" shows "fits (Some (Dir es)) ns"
proof -
  from assms(1) obtain os ds ds0 where
    es: "map_of es = (map_of os)(''repository'' := None, ''data'' := None, STATE_DIR := Some (Dir ds))"
    and ds: "map_of ds = (map_of ds0)(SETTINGS_FILE := None, ''compose.override.yaml'' := None)"
    unfolding cleared_def by (elim exE conjE) (rule that)
  from assms(2) consider n ms where "ns = n # ms" "n = ''repository'' \<or> n = ''data''"
    | f where "ns = [STATE_DIR, f]" "f = SETTINGS_FILE \<or> f = ''compose.override.yaml''"
    by (cases ns) (auto simp: backed_up_def BACKED_UP_DIRS_def override_path_def place_defs)
  then show ?thesis
  proof cases
    case 1
    then show ?thesis by (auto simp: es STATE_DIR_def)
  next
    case 2
    then show ?thesis by (auto simp: es ds)
  qed
qed

lemma put_files_other:
  "put_files x es = Some z \<Longrightarrow> (\<And>e. e \<in> set es \<Longrightarrow> \<not> comparable ms (fst e)) \<Longrightarrow> node_at z ms = node_at x ms"
proof (induction x es rule: put_files.induct)
  case (2 x ns c es)
  then obtain u where u: "put_node (Some x) ns (File c) = Some u" "put_files u es = Some z"
    by (auto split: option.splits)
  from 2(1)[OF u] put_node_other[OF u(1), of ms] 2(3) show ?case by force
qed simp

lemma put_node_keeps_dir:
  assumes put: "put_node (Some x) ns (File c) = Some z" and dir: "node_at x ms = Some (Dir es)"
  shows "\<exists>ds. node_at z ms = Some (Dir ds)"
proof (cases "comparable ms ns")
  case False
  with put_node_other[OF put] dir show ?thesis by auto
next
  case True
  then consider r where "ms = ns @ r" | n r where "ns = ms @ n # r"
    unfolding comparable_def by (metis append.right_neutral neq_Nil_conv)
  then show ?thesis
  proof cases
    case 1
    have "r = []" using put_node_below[OF put, of r] dir 1 by auto
    with 1 dir have "node_at x ns = Some (Dir es)" by simp
    with put have False
    proof (induction ns arbitrary: x z)
      case (Cons n ns)
      then show ?case by (auto split: fs_node.splits option.splits)
    qed auto
    then show ?thesis ..
  next
    case 2
    with put_node_above[of "Some x" ms n r] put show ?thesis by blast
  qed
qed

lemma put_files_keeps_dir:
  "put_files x es = Some z \<Longrightarrow> \<exists>ds. node_at x ms = Some (Dir ds) \<Longrightarrow> \<exists>ds. node_at z ms = Some (Dir ds)"
proof (induction x es rule: put_files.induct)
  case (2 x ns c es)
  then obtain u where u: "put_node (Some x) ns (File c) = Some u" "put_files u es = Some z"
    by (auto split: option.splits)
  from 2(3) put_node_keeps_dir[OF u(1)] have "\<exists>ds. node_at u ms = Some (Dir ds)" by blast
  with 2(1)[OF u] show ?case by blast
qed simp

definition legacy_path :: path where "legacy_path = [LEGACY_CONFIG_DIR, SETTINGS_FILE]"

lemma replace_files_split:
  "replace_files E blob w = bind clearing (\<lambda>s.
     seq (store_step CannotExtract (\<lambda>w. w))
      (case unpack E blob of (es, complete) \<Rightarrow>
        seq (extract_all es) (seq (fail_if (\<not> complete) CannotExtract) (move_legacy (s @ [SETTINGS_FILE]))))) w"
  by (simp add: replace_files_def clearing_def Let_def io_simps)
    (auto simp: seq_def bind_def ret_def split: prod.splits sum.splits)

lemma replace_files_run:
  assumes w: "disk_outs w = []" "restorable (tree w)"
    and ar: "build_archive inc exc t = Inr ar" "wf_tree t" "unpack E blob = (ar, True)"
  shows "\<exists>u. replace_files E blob w = move_legacy (state_dir @ [SETTINGS_FILE]) (w\<lparr>tree := u\<rparr>)
    \<and> (\<forall>ns. file_at u ns = (if backed_up ns
          then if selected inc exc (full_path ns) then source_file t ns else None
          else file_at (tree w) ns))
    \<and> node_at u legacy_path = node_at (tree w) legacy_path
    \<and> (\<exists>ds. node_at u state_dir = Some (Dir ds))"
proof -
  obtain es where es: "clearing w = (Inr state_dir, w\<lparr>tree := Dir es\<rparr>)" "cleared (tree w) es"
    using clearing_fine[OF w] by blast
  have src: "source_file t (fst e) \<noteq> None" if "e \<in> set (at_paths ar)" for e
  proof -
    have "map_of (at_paths ar) (fst e) \<noteq> None" using that by (auto simp: map_of_eq_None_iff)
    then show ?thesis by (auto simp: archive_lookup[OF ar(1,2)] split: if_splits)
  qed
  then have up: "backed_up (fst e)" if "e \<in> set (at_paths ar)" for e
    using src[OF that] by (simp add: source_file_def split: if_splits)
  obtain u where u: "put_files (Dir es) (at_paths ar) = Some u"
    using put_files_total[OF build_archive_apart[OF ar(1,2)]] cleared_fits[OF es(2) up] by blast
  have idle: "w\<lparr>tree := Dir es, disk_outs := []\<rparr> = w\<lparr>tree := Dir es\<rparr>" using w(1) by (cases w) simp
  have "extract_all ar (w\<lparr>tree := Dir es\<rparr>) = (Inr (), w\<lparr>tree := u\<rparr>)"
    using extract_fine[of "w\<lparr>tree := Dir es\<rparr>" ar u] u w(1) by simp
  then have run: "replace_files E blob w = move_legacy (state_dir @ [SETTINGS_FILE]) (w\<lparr>tree := u\<rparr>)"
    using w(1) es(1) ar(3)
    by (simp add: replace_files_split bind_def seq_def store_step_def fail_if_def ret_def idle)
  have filed: "file_at u ns = (if backed_up ns
      then if selected inc exc (full_path ns) then source_file t ns else None else file_at (tree w) ns)" for ns
  proof -
    have "file_at u ns = (case map_of (at_paths ar) ns of Some c \<Rightarrow> Some c | None \<Rightarrow> file_at (Dir es) ns)"
      by (rule put_files_file[OF u apart_distinct[OF build_archive_apart[OF ar(1,2)]]])
    then show ?thesis
      by (auto simp: archive_lookup[OF ar(1,2)] cleared_file[OF es(2)] source_file_def[of t ns] split: option.splits)
  qed
  have far: "\<not> comparable legacy_path (fst e)" if "e \<in> set (at_paths ar)" for e
    using up[OF that] by (cases "fst e") (auto simp: backed_up_def BACKED_UP_DIRS_def override_path_def
        legacy_path_def place_defs)
  have "node_at u legacy_path = node_at (Dir es) legacy_path"
    by (rule put_files_other[OF u far])
  also have "\<dots> = node_at (tree w) legacy_path"
    using es(2) by (auto simp: cleared_def legacy_path_def place_defs)
  finally have legacy: "node_at u legacy_path = node_at (tree w) legacy_path" .
  have "\<exists>ds. node_at (Dir es) state_dir = Some (Dir ds)"
    using es(2) by (auto simp: cleared_def state_dir_def)
  then have "\<exists>ds. node_at u state_dir = Some (Dir ds)"
    using put_files_keeps_dir[OF u] by blast
  with run filed legacy show ?thesis by blast
qed

lemma move_legacy_none:
  "\<not> is_file (tree w) legacy_path \<Longrightarrow> move_legacy p w = (Inr (), w)"
  by (simp add: move_legacy_def io_simps legacy_path_def place_defs)

text \<open>A file that is still at the legacy place ends up as the settings.\<close>

lemma move_legacy_some:
  assumes w: "disk_outs w = []" and c: "node_at (tree w) legacy_path = Some (File c)"
    and r: "move_legacy (state_dir @ [SETTINGS_FILE]) w = (Inr u, w1)"
  shows "file_at (tree w1) (state_dir @ [SETTINGS_FILE]) = Some c"
proof -
  let ?s = "state_dir @ [SETTINGS_FILE]"
  have p: "[''config'', ''settings.json''] = legacy_path" "butlast legacy_path = [''config'']"
    by (simp_all add: legacy_path_def place_defs)
  have f: "is_file (tree w) legacy_path" using c by (simp add: is_file_def)
  from r f obtain t1 where t1: "rename_file legacy_path ?s (tree w) = Inr t1"
    and w1: "w1 = snd (fs_step (\<lambda>_. CannotExtract) (remove_dir [''config'']) (w\<lparr>tree := t1\<rparr>))"
    using w by (auto simp: move_legacy_def io_simps p seq_def bind_def ignore_def fs_step_fine
        split: sum.splits prod.splits)
  have s1: "file_at t1 ?s = Some c"
    using rename_file_at[OF t1, of ?s] c by (simp add: legacy_path_def place_defs file_at_def)
  show ?thesis
  proof (cases "remove_dir [''config''] t1")
    case (Inl e)
    with w w1 s1 show ?thesis by (simp add: fs_step_fine)
  next
    case (Inr t2)
    have "file_at t2 ?s = file_at t1 ?s"
      using remove_dir_at[OF Inr] file_at_remove[of "[''config'']" t1 ?s] by (simp add: place_defs)
    with w w1 s1 Inr show ?thesis by (simp add: fs_step_fine)
  qed
qed

end
