(* ===== verification/Rotation.thy ===== *)
theory Rotation
  imports Backup
begin

text \<open>
  Rotation of archives. \<open>archive_store\<close> is the contract \<open>prune\<close> relies on, the one of
  \<open>trait BackupStorage\<close>: a listing has the names of the app in order, and a removal
  removes just that name or nothing. The local directory provides it. The order of the
  names is the order of the times in them when these have the same number of digits.
\<close>

locale archive_store =
  fixes st :: "'b storage_ops"
    and held :: "'b backup_world \<Rightarrow> string set"
    and ok :: "'b backup_world \<Rightarrow> bool"
  assumes list_names: "ok w \<Longrightarrow> list_objects st app w = (Inr os, w1) \<Longrightarrow>
      map bo_name os = sorted_list_of_set {n \<in> held w. belongs_to n app} \<and> held w1 = held w \<and> ok w1"
    and list_fails: "ok w \<Longrightarrow> list_objects st app w = (Inl e, w1) \<Longrightarrow> held w1 = held w \<and> ok w1"
    and remove_done: "ok w \<Longrightarrow> remove_object st n w = (Inr u, w1) \<Longrightarrow>
      n \<in> held w \<and> held w1 = held w - {n} \<and> ok w1"
    and remove_fails: "ok w \<Longrightarrow> remove_object st n w = (Inl e, w1) \<Longrightarrow> held w1 = held w \<and> ok w1"
begin

lemma remove_each_result:
  "ok w \<Longrightarrow> remove_each st ns w = (r, w1) \<Longrightarrow>
   \<exists>rs. r = Inr rs \<and> set rs \<subseteq> set ns \<and> held w1 = held w - set rs \<and> ok w1"
proof (induction ns arbitrary: w r w1)
  case (Cons n ns)
  obtain r0 v where v: "remove_object st n w = (r0, v)" by (cases "remove_object st n w")
  obtain r2 u where u: "remove_each st ns v = (r2, u)" by (cases "remove_each st ns v")
  have okv: "ok v" using v remove_done[OF Cons.prems(1)] remove_fails[OF Cons.prems(1)] by (cases r0) auto
  from Cons.IH[OF this u] obtain rs where rs: "r2 = Inr rs" "set rs \<subseteq> set ns" "held u = held v - set rs" "ok u"
    by blast
  have "r = Inr (case r0 of Inl _ \<Rightarrow> rs | Inr _ \<Rightarrow> n # rs) \<and> w1 = u"
    using Cons.prems(2) by (auto simp: catch_def bind_def ret_def v u rs(1) split: sum.splits)
  with rs v remove_done[OF Cons.prems(1), of n] remove_fails[OF Cons.prems(1), of n]
  show ?case by (cases r0) (auto 4 3)
qed (auto simp: ret_def)

text \<open>The names \<open>prune\<close> may remove: all but the last \<open>keep\<close>.\<close>

lemma prune_result:
  assumes "ok w" "prune st app keep w = (r, w1)"
  defines "ns \<equiv> sorted_list_of_set {n \<in> held w. belongs_to n app}"
  shows "\<exists>removed. set removed \<subseteq> set (take (length ns - keep) ns) \<and> held w1 = held w - set removed
    \<and> (case r of Inl _ \<Rightarrow> removed = [] | Inr rs \<Rightarrow> removed = rs) \<and> ok w1"
proof -
  obtain r0 v where v: "list_objects st app w = (r0, v)" by (cases "list_objects st app w")
  show ?thesis
  proof (cases r0)
    case (Inl e)
    with assms(2) v have "r = Inl e" "w1 = v" by (simp_all add: prune_def bind_def)
    with list_fails[OF assms(1)] v Inl show ?thesis by (intro exI[of _ "[]"]) simp
  next
    case (Inr os)
    with list_names[OF assms(1)] v have os: "map bo_name os = ns" "held v = held w" "ok v"
      by (auto simp: ns_def)
    have len: "length os = length ns" using os(1) by (metis length_map)
    show ?thesis
    proof (cases "keep < length os")
      case True
      then have "remove_each st (map bo_name (take (length os - keep) os)) v = (r, w1)"
        using assms(2) v Inr by (simp add: prune_def bind_def)
      then have "remove_each st (take (length ns - keep) ns) v = (r, w1)"
        by (simp add: take_map[symmetric] os(1) len)
      from remove_each_result[OF os(3) this] os(2) show ?thesis by auto
    next
      case False
      then have "r = Inr []" "w1 = v" using assms(2) v Inr by (auto simp: prune_def bind_def ret_def)
      with os show ?thesis by (intro exI[of _ "[]"]) simp
    qed
  qed
qed

text \<open>So the newest ones stay, and so do the archives of the other apps.\<close>

lemma prune_keeps:
  assumes "ok w" "prune st app keep w = (r, w1)"
  defines "ns \<equiv> sorted_list_of_set {n \<in> held w. belongs_to n app}"
  shows "set (drop (length ns - keep) ns) \<subseteq> held w1"
    and "{n \<in> held w. \<not> belongs_to n app} \<subseteq> held w1" and "held w1 \<subseteq> held w"
proof -
  from prune_result[OF assms(1,2)] obtain removed where
    rem: "set removed \<subseteq> set (take (length ns - keep) ns)" "held w1 = held w - set removed"
    unfolding ns_def by blast
  have ns: "set ns \<subseteq> {n \<in> held w. belongs_to n app}"
    by (cases "finite {n \<in> held w. belongs_to n app}") (auto simp: ns_def)
  have "distinct ns" by (simp add: ns_def)
  then have disj: "set (take k ns) \<inter> set (drop k ns) = {}" for k by (rule set_take_disj_set_drop_if_distinct) simp
  show "set (drop (length ns - keep) ns) \<subseteq> held w1"
    using rem ns disj[of "length ns - keep"] by (auto dest: in_set_dropD)
  show "{n \<in> held w. \<not> belongs_to n app} \<subseteq> held w1" "held w1 \<subseteq> held w"
    using rem ns by (auto dest: in_set_takeD)
qed

end

section \<open>The local directory keeps the contract\<close>

definition local_held :: "string \<Rightarrow> 'b backup_world \<Rightarrow> string set" where
  "local_held d w = fst ` set (entries_of w d)"

definition local_ok :: "string \<Rightarrow> 'b backup_world \<Rightarrow> bool" where
  "local_ok d w = distinct_keys fst (entries_of w d)"

lemma sorted_names:
  fixes f :: "'a \<Rightarrow> 'k::linorder"
  assumes "distinct (map f xs)" shows "map f (sort_key f xs) = sorted_list_of_set (f ` set xs)"
proof -
  have "sorted (map f (sort_key f xs))" by simp
  moreover have "distinct (map f (sort_key f xs))"
    using assms by (metis distinct_map distinct_sort set_sort)
  moreover have "set (map f (sort_key f xs)) = f ` set xs" by simp
  ultimately show ?thesis by (metis sorted_list_of_set.idem_if_sorted_distinct)
qed

lemma entries_of_outs [simp]: "entries_of (w\<lparr>disk_outs := os\<rparr>) d = entries_of w d"
  by (simp add: entries_of_def)

lemma entries_of_set_folder [simp]: "entries_of (set_folder d es w) d = es"
  by (simp add: entries_of_def set_folder_def)

lemma local_list_names:
  assumes "local_ok d w" "local_list bl d app w = (Inr os, w1)"
  shows "map bo_name os = sorted_list_of_set {n \<in> local_held d w. belongs_to n app}
    \<and> local_held d w1 = local_held d w \<and> local_ok d w1"
proof -
  let ?xs = "filter (\<lambda>e. belongs_to (fst e) app) (entries_of w d)"
  let ?obj = "\<lambda>(n, b). \<lparr>bo_name = n, bo_size = bl b\<rparr>"
  have os: "os = sort_key bo_name (map ?obj ?xs)"
    and w1: "entries_of w1 d = entries_of w d"
    using assms(2) by (auto simp: local_list_def fs_read_def split: prod.splits if_splits)
  have m: "map bo_name (map ?obj ?xs) = map fst ?xs" by auto
  have "distinct (map fst ?xs)" using assms(1) by (simp add: local_ok_def distinct_keys_def distinct_map_filter)
  then have "map bo_name os = sorted_list_of_set (bo_name ` set (map ?obj ?xs))"
    unfolding os by (intro sorted_names) (simp only: m)
  also have "bo_name ` set (map ?obj ?xs) = {n \<in> local_held d w. belongs_to n app}"
    unfolding set_map[symmetric] m by (auto simp: local_held_def)
  finally show ?thesis using w1 assms(1) by (simp add: local_held_def local_ok_def)
qed

interpretation local_dir: archive_store "local_storage bl d" "local_held d" "local_ok d"
  for bl :: "'b \<Rightarrow> nat" and d
proof
  fix w :: "'b backup_world" and app os w1
  assume "local_ok d w" "list_objects (local_storage bl d) app w = (Inr os, w1)"
  then show "map bo_name os = sorted_list_of_set {n \<in> local_held d w. belongs_to n app}
      \<and> local_held d w1 = local_held d w \<and> local_ok d w1"
    using local_list_names by (simp add: local_storage_def)
next
  fix w :: "'b backup_world" and app e w1
  assume "local_ok d w" "list_objects (local_storage bl d) app w = (Inl e, w1)"
  then show "local_held d w1 = local_held d w \<and> local_ok d w1"
    by (auto simp: local_storage_def local_list_def fs_read_def local_held_def local_ok_def
        split: prod.splits if_splits)
next
  fix w :: "'b backup_world" and n u w1
  assume ok: "local_ok d w" and r: "remove_object (local_storage bl d) n w = (Inr u, w1)"
  then obtain b where b: "map_of (entries_of w d) n = Some b"
    and w1: "entries_of w1 d = remove_key fst (entries_of w d) n"
    by (auto simp: local_storage_def local_remove_def bind_def asks_def store_step_def throw_def split: option.splits prod.splits if_splits)
  from b have "n \<in> local_held d w" by (metis local_held_def map_of_SomeD fst_conv image_eqI)
  moreover have "local_held d w1 = local_held d w - {n}" by (auto simp: local_held_def w1 remove_key_def)
  moreover have "local_ok d w1" using ok by (simp add: local_ok_def w1 distinct_remove)
  ultimately show "n \<in> local_held d w \<and> local_held d w1 = local_held d w - {n} \<and> local_ok d w1" by blast
next
  fix w :: "'b backup_world" and n e w1
  assume "local_ok d w" "remove_object (local_storage bl d) n w = (Inl e, w1)"
  then show "local_held d w1 = local_held d w \<and> local_ok d w1"
    by (auto simp: local_storage_def local_remove_def bind_def asks_def store_step_def throw_def
        local_held_def local_ok_def split: option.splits prod.splits if_splits)
qed

section \<open>Names and times\<close>

lemma from_base_Cons: "from_base B (d # ds) = d * B ^ length ds + from_base B ds"
proof (induction ds rule: rev_induct)
  case (snoc e ds)
  have "from_base B (d # ds @ [e]) = from_base B ((d # ds) @ [e])" by simp
  also have "\<dots> = from_base B (d # ds) * B + e" by (rule from_base_snoc)
  finally show ?case using snoc by (simp add: algebra_simps)
next
  case Nil
  show ?case using from_base_snoc[of B "[]" d] by simp
qed

lemma digit_values:
  "list_all is_digit ts \<Longrightarrow> digits_of 10 ts = Some (map (\<lambda>c. code c - 48) ts)"
  by (induction ts) (auto simp: to_digit_def is_digit_def)

lemma digits_mono:
  "list_all is_digit a \<Longrightarrow> list_all is_digit b \<Longrightarrow> length a = length b \<Longrightarrow> a \<le> b \<Longrightarrow>
   from_base 10 (map (\<lambda>c. code c - 48) a) \<le> from_base 10 (map (\<lambda>c. code c - 48) b)"
proof (induction a arbitrary: b)
  case (Cons c a)
  from Cons.prems(3) obtain d b' where b: "b = d # b'" "length a = length b'" by (cases b) auto
  let ?v = "\<lambda>c. code c - 48"
  have dig: "is_digit c" "is_digit d" using Cons.prems b by auto
  have bound: "from_base 10 (map ?v a) < 10 ^ length a"
  proof -
    have "d < 10" if "d \<in> set (map ?v a)" for d
      using that Cons.prems(1) by (auto simp: list_all_iff is_digit_def)
    from from_base_bound[of "map ?v a", OF this] show ?thesis by simp
  qed
  from Cons.prems(4) b consider "c < d" | "c = d" "a \<le> b'" by auto
  then show ?case
  proof cases
    case 1
    then have "?v c < ?v d" using dig by (auto simp: less_char_def is_digit_def)
    then have "(?v c + 1) * 10 ^ length a \<le> ?v d * 10 ^ length a" by (intro mult_right_mono) auto
    with bound b show ?thesis by (simp add: from_base_Cons algebra_simps)
  next
    case 2
    with Cons b show ?thesis by (simp add: from_base_Cons)
  qed
qed simp

lemma belongs_shape:
  assumes "belongs_to n app"
  obtains ts where "n = app @ ''-'' @ ts @ ARCHIVE_SUFFIX" "ts \<noteq> []" "list_all is_digit ts"
proof -
  from assms obtain r1 r2 ts where "strip_prefix app n = Some r1" "strip_prefix ''-'' r1 = Some r2"
    "strip_suffix ARCHIVE_SUFFIX r2 = Some ts" and ts: "ts \<noteq> []" "list_all is_digit ts"
    by (auto simp: belongs_to_def split: option.splits)
  moreover from this(3) have "r2 = ts @ ARCHIVE_SUFFIX"
    unfolding strip_suffix_def strip_prefix_Some by (auto simp: strip_prefix_Some rev_swap)
  ultimately have "n = app @ ''-'' @ ts @ ARCHIVE_SUFFIX" by (simp add: strip_prefix_Some)
  from that[OF this ts] show thesis .
qed

lemma created_unix_shape:
  assumes "list_all is_digit ts" "ts \<noteq> []"
  shows "created_unix (app @ ''-'' @ ts @ ARCHIVE_SUFFIX) =
    (let v = from_base 10 (map (\<lambda>c. code c - 48) ts) in if v \<le> 2 ^ 63 - 1 then Some v else None)"
proof -
  have "CHR ''-'' \<notin> set ts" using assms(1) by (auto simp: list_all_iff is_digit_def)
  then have "rsplit_once (CHR ''-'') (app @ CHR ''-'' # ts) = Some (app, ts)" by (rule rsplit_once_append)
  moreover have "strip_suffix ARCHIVE_SUFFIX (app @ ''-'' @ ts @ ARCHIVE_SUFFIX) = Some (app @ CHR ''-'' # ts)"
    using strip_prefix_append[of "rev ARCHIVE_SUFFIX" "rev (app @ CHR ''-'' # ts)"]
    by (simp add: strip_suffix_def)
  moreover have "hd ts \<noteq> CHR ''+''" using assms by (cases ts) (auto simp: is_digit_def)
  ultimately show ?thesis using assms
    by (cases ts) (simp_all add: created_unix_def parse_radix_def digit_values Let_def del: digits_of.simps)
qed

lemma names_in_time_order:
  assumes "belongs_to a app" "belongs_to b app" "length a = length b" "a \<le> b"
    and "created_unix a = Some x" "created_unix b = Some y"
  shows "x \<le> y"
proof -
  obtain ta where ta: "a = app @ ''-'' @ ta @ ARCHIVE_SUFFIX" "ta \<noteq> []" "list_all is_digit ta"
    by (rule belongs_shape[OF assms(1)])
  obtain tb where tb: "b = app @ ''-'' @ tb @ ARCHIVE_SUFFIX" "tb \<noteq> []" "list_all is_digit tb"
    by (rule belongs_shape[OF assms(2)])
  have len: "length ta = length tb" using assms(3) ta(1) tb(1) by simp
  have "p @ u \<le> p @ v \<longleftrightarrow> u \<le> v" for p u v :: string by (induction p) auto
  then have "ta @ ARCHIVE_SUFFIX \<le> tb @ ARCHIVE_SUFFIX" using assms(4) ta(1) tb(1) by simp
  moreover have "length u = length v \<Longrightarrow> u @ s \<le> v @ s \<Longrightarrow> u \<le> v" for u v s :: string
    by (induction u v rule: list_induct2) auto
  ultimately have "ta \<le> tb" using len by blast
  from digits_mono[OF ta(3) tb(3) len this] show ?thesis
    using assms(5,6) created_unix_shape[OF ta(3,2)] created_unix_shape[OF tb(3,2)]
    by (simp add: ta(1) tb(1) Let_def split: if_splits)
qed

end
