(* ===== verification/BackupProps.thy ===== *)
theory BackupProps
  imports BackupRuns Rotation
begin

text \<open>
  The properties of the app directory layout and of backups, with their witnesses on a
  small app: identifiers, migration and saving of the metadata, the meaning of the
  patterns, the round trip of a backup, rotation, and the storage list.
\<close>

section \<open>Creating a backup on the local storage\<close>

lemma store_step_Inr:
  "store_step e f w = (Inr u, w1) \<longleftrightarrow> fst (next_outcome (disk_outs w)) \<and> w1 = (f w)\<lparr>disk_outs := snd (next_outcome (disk_outs w))\<rparr>"
  by (auto simp: store_step_def split: prod.splits)

lemma created_archive:
  assumes "create_backup E now app_id l LOCAL_NAME None w = (Inr info, w1)"
  shows "\<exists>exc ar. validate_id app_id = Inr () \<and> load_manifest (parse_manifest E) (tree w) = Inr exc
    \<and> build_archive [] exc (tree w) = Inr ar \<and> bi_name info = remote_name app_id now
    \<and> map_of (entries_of w1 (backups_dir E)) (bi_name info) = Some (pack E ar)"
proof -
  let ?f = "\<lparr>include_pats = [], exclude_pats = []\<rparr>"
  obtain r v where r: "stage_archive E app_id ?f w = (r, v)" by (cases "stage_archive E app_id ?f w")
  show ?thesis
  proof (cases r)
    case (Inl e)
    with assms r show ?thesis
      by (simp add: create_backup_def create_backup_multi_def bind_def catch_def ret_def lift_result_def)
  next
    case (Inr blob)
    with r obtain exc ar where st: "validate_id app_id = Inr ()" "load_manifest (parse_manifest E) (tree w) = Inr exc"
      "build_archive [] exc (tree w) = Inr ar" "blob = pack E ar"
      by (auto simp: stage_archive_def run_Inr)
    from assms r Inr have "push_one E l app_id (remote_name app_id now) blob None LOCAL_NAME v = (Inr info, w1)"
      by (auto simp: create_backup_def create_backup_multi_def bind_def catch_def ret_def lift_result_def
          split: prod.splits)
    then have "bi_name info = remote_name app_id now"
      "\<exists>es. entries_of w1 (backups_dir E) = upsert fst es (remote_name app_id now, blob)"
      by (auto simp: push_one_def resolve_storage_def run_Inr local_storage_def local_push_def store_step_Inr)
    with st show ?thesis by (auto simp: map_of_upsert)
  qed
qed

lemma remote_name_valid:
  assumes "validate_id app_id = Inr u"
  shows "validate_backup_name app_id (remote_name app_id now) = Inr ()"
proof -
  have ids: "list_all id_char app_id" using assms by (simp add: validate_id_iff)
  have digits: "list_all is_digit (show_nat now)" using show_nat_digit by (auto simp: list_all_iff)
  have "strip_suffix ARCHIVE_SUFFIX (ts @ ARCHIVE_SUFFIX) = Some ts" for ts
    using strip_prefix_append[of "rev ARCHIVE_SUFFIX" "rev ts"] by (simp add: strip_suffix_def)
  then have "belongs_to (remote_name app_id now) app_id"
    using digits by (simp add: belongs_to_def remote_name_def)
  moreover have "c \<noteq> CHR ''/'' \<and> c \<noteq> char_of (92 :: nat)" if "c \<in> set (remote_name app_id now)" for c
  proof -
    from that have "id_char c \<or> is_digit c \<or> c \<in> set (''-'' @ ARCHIVE_SUFFIX)"
      using ids digits by (auto simp: remote_name_def list_all_iff)
    then have "code c \<noteq> 47 \<and> code c \<noteq> 92"
      by (auto simp: id_char_def is_lower_def is_digit_def ARCHIVE_SUFFIX_def)
    then show ?thesis by auto
  qed
  ultimately show ?thesis by (auto simp: validate_backup_name_def)
qed

section \<open>A small app\<close>

definition demo_env :: "archive backup_env" where
  "demo_env = \<lparr>backups_dir = ''b'', open_s3 = (\<lambda>k. Inl (S3Error [])), pack = (\<lambda>a. a), unpack = (\<lambda>a. (a, True)),
     parse_manifest = (\<lambda>c. None), blob_len = length\<rparr>"

definition demo_list :: storage_list where
  "demo_list = \<lparr>system = [], user = [], sl_scope = User\<rparr>"

definition demo_tree :: fs_node where
  "demo_tree = Dir [(''repository'', Dir [(''asc.yaml'', File ''name'')]),
     (''data'', Dir [(''save.txt'', File ''one''), (''link'', Symlink)]),
     (''.asc'', Dir [(''meta.json'', File ''m''), (''settings.json'', File ''s'')])]"

definition demo_lost :: fs_node where
  "demo_lost = Dir [(''data'', Dir [(''junk'', File ''x'')]),
     (''.asc'', Dir [(''meta.json'', File ''m'')])]"

definition demo_world :: "archive backup_world" where
  "demo_world = \<lparr>tree = demo_tree, disk_outs = [], folders = (\<lambda>_. None)\<rparr>"

definition demo_archive :: archive where
  "demo_archive = [(''repository/asc.yaml'', ''name''), (''data/save.txt'', ''one''),
     (''.asc/settings.json'', ''s'')]"

definition demo_later :: "archive backup_world" where
  "demo_later = \<lparr>tree = demo_lost, disk_outs = [], folders = [''b'' \<mapsto> [(remote_name ''demo'' 7, demo_archive)]]\<rparr>"

lemma demo_build: "build_archive [] [] demo_tree = Inr demo_archive"
  by (simp add: build_archive_def demo_tree_def BACKED_UP_DIRS_def archive_dir_def append_file_def child_path_def
      archive_file_def settings_dir_def path_exists_def is_file_def is_dir_def place_defs override_path_def
      SETTINGS_ENTRY_def demo_archive_def)

lemma demo_id: "validate_id ''demo'' = Inr ()"
  by (simp add: validate_id_iff id_char_def is_lower_def)

lemma demo_created:
  "create_backup demo_env 7 ''demo'' demo_list LOCAL_NAME None demo_world =
    (Inr \<lparr>bi_name = remote_name ''demo'' 7, bi_storage = LOCAL_NAME, bi_bytes = 3\<rparr>,
     demo_later\<lparr>tree := demo_tree\<rparr>)"
proof -
  have "load_manifest (parse_manifest demo_env) demo_tree = Inr []"
    by (simp add: load_manifest_def demo_tree_def is_file_def)
  with demo_build demo_id show ?thesis
    by (simp add: create_backup_def create_backup_multi_def stage_archive_def io_simps demo_world_def bind_def seq_def
      catch_def store_step_def ret_def push_one_def resolve_storage_def local_storage_def local_push_def lift_result_def
      demo_env_def entries_of_def set_folder_def demo_later_def demo_archive_def)
qed

lemma demo_wf: "wf_tree demo_tree"
  unfolding demo_tree_def by (rule wf_tree_Dir, simp, auto intro!: wf_tree_Dir)

lemma demo_restorable: "restorable demo_lost" "\<not> is_file demo_lost legacy_path"
  by (simp_all add: restorable_def demo_lost_def BACKED_UP_DIRS_def place_defs no_dir_def legacy_path_def is_file_def)

lemma file_at_File: "file_at (File c) [] = Some c"
  by (simp add: file_at_def)

section \<open>Properties\<close>

text \<open>
  C32. A pattern matches a path if and only if the path is a word of the pattern's language, as
  documented: \<open>*\<close> is any run without a slash, \<open>**\<close> any run (with the slash that follows it, if
  any), \<open>?\<close> one character other than a slash, everything else itself. A list of patterns covers
  a path if one matches it or a directory above it. This is so for every path when no pattern has a
  question mark, and for every pattern when the path is in ASCII; a question mark stands for one
  byte in the code, so that it matches no other character (\<open>question_mark_ascii_only\<close>).
\<close>

theorem glob_decides_language:
  assumes "(\<forall>q \<in> set ps. CHR ''?'' \<notin> set q) \<or> ascii s"
  shows "(\<forall>p \<in> set ps. glob_matches p s \<longleftrightarrow> s \<in> glob_lang (glob_tokens p))
   \<and> (matches_any ps s \<longleftrightarrow> (\<exists>q \<in> set ps. s \<in> glob_lang (glob_tokens q)
        \<or> (\<exists>a r. s = a @ CHR ''/'' # r \<and> a \<in> glob_lang (glob_tokens q))))"
proof -
  have m: "glob_matches q s \<longleftrightarrow> s \<in> glob_lang (glob_tokens q)" if "q \<in> set ps" for q
    using assms that glob_matches_chars by blast
  have "glob_matches q a \<longleftrightarrow> a \<in> glob_lang (glob_tokens q)" if "q \<in> set ps" "s = a @ CHR ''/'' # r" for q a r
    using assms that glob_matches_chars[of q a] by (auto simp: ascii_def)
  with m show ?thesis unfolding matches_any_iff by blast
qed

theorem glob_decides_language_witness:
  "glob_matches ''a?c'' ''abc'' \<longleftrightarrow> ''abc'' \<in> glob_lang (glob_tokens ''a?c'')"
  using glob_decides_language[of "[''a?c'']" "''abc''"] by (simp add: ascii_def)

text \<open>
  The places of an app's directory that a backup and a restore name. The code would follow a
  symbolic link there, while the trees of the model take one for nothing: what is proved of
  backups is about apps without links at these places.
\<close>

definition FIXED_PLACES :: "path list" where
  "FIXED_PLACES = [[''repository''], [''data''], [''repository'', ''asc.backup.yaml''], state_dir, state_dir @ [SETTINGS_FILE],
     override_path, [LEGACY_CONFIG_DIR], legacy_path]"

definition places_real :: "fs_node \<Rightarrow> bool" where
  "places_real t = list_all (\<lambda>p. node_at t p \<noteq> Some Symlink) FIXED_PLACES"

lemma demo_real: "places_real demo_tree" "places_real demo_lost"
  by (simp_all add: places_real_def FIXED_PLACES_def demo_tree_def demo_lost_def place_defs override_path_def legacy_path_def)

text \<open>
  C31. Restoring an archive that \<open>create_backup\<close> put on the local storage brings back every
  file of the repository and data directories, the setting values and the compose
  override as they were, except those the manifest of the time excludes; nothing else is
  at these places, and every other file of the app is as before the restore. It holds
  whatever happened to the app in between, as long as the archive is still there, no effect of the
  restore fails, and the app has by then no files where the restore expects directories (nor the
  other way round), no setting values at the legacy place \<open>config/settings.json\<close>, which would be moved
  over the restored ones (\<open>legacy_settings_survive_restore\<close>), and neither then nor at the time of the backup a
  symbolic link at the places that a backup and a restore name.
\<close>

theorem backup_restores:
  assumes created: "create_backup E now app_id l LOCAL_NAME None w = (Inr info, w1)"
    and tree: "wf_tree (tree w)" and manifest: "load_manifest (parse_manifest E) (tree w) = Inr exc"
    and format: "\<And>a. unpack E (pack E a) = (a, True)"
    and kept: "map_of (entries_of w2 (backups_dir E)) (bi_name info)
        = map_of (entries_of w1 (backups_dir E)) (bi_name info)"
    and later: "disk_outs w2 = []" "restorable (tree w2)" "\<not> is_file (tree w2) legacy_path"
    and real: "places_real (tree w)" "places_real (tree w2)"
  shows "\<exists>u. restore_backup E app_id l LOCAL_NAME (bi_name info) w2 = (Inr (), w2\<lparr>tree := u\<rparr>)
    \<and> (\<forall>ns. file_at u ns = (if backed_up ns
          then if matches_any exc (full_path ns) then None else source_file (tree w) ns
          else file_at (tree w2) ns))"
proof -
  from created_archive[OF created] manifest obtain ar where ar: "validate_id app_id = Inr ()"
    "build_archive [] exc (tree w) = Inr ar" "bi_name info = remote_name app_id now"
    "map_of (entries_of w1 (backups_dir E)) (bi_name info) = Some (pack E ar)" by auto
  from replace_files_run[OF later(1,2) ar(2) tree format] obtain u where
    run: "replace_files E (pack E ar) w2 = move_legacy (state_dir @ [SETTINGS_FILE]) (w2\<lparr>tree := u\<rparr>)"
    and filed: "\<And>ns. file_at u ns = (if backed_up ns
          then if selected [] exc (full_path ns) then source_file (tree w) ns else None
          else file_at (tree w2) ns)"
    and legacy: "node_at u legacy_path = node_at (tree w2) legacy_path" by blast
  have "\<not> is_file u legacy_path" using later(3) legacy by (simp add: is_file_def)
  then have "replace_files E (pack E ar) w2 = (Inr (), w2\<lparr>tree := u\<rparr>)"
    using run move_legacy_none[of "w2\<lparr>tree := u\<rparr>"] by simp
  then have "restore_backup E app_id l LOCAL_NAME (bi_name info) w2 = (Inr (), w2\<lparr>tree := u\<rparr>)"
    using ar(1,3,4) kept later(1) remote_name_valid[OF ar(1)]
    by (simp add: restore_backup_def io_simps resolve_storage_def local_storage_def local_pull_def
        bind_def fs_read_fine ok_or_def)
  with filed show ?thesis by (auto simp: selected_def intro!: exI[of _ u])
qed

theorem backup_restores_witness:
  "\<exists>u. restore_backup demo_env ''demo'' demo_list LOCAL_NAME (remote_name ''demo'' 7) demo_later
      = (Inr (), demo_later\<lparr>tree := u\<rparr>)
    \<and> file_at u [''data'', ''save.txt''] = Some ''one'' \<and> file_at u [''data'', ''junk''] = None
    \<and> file_at u [''.asc'', ''meta.json''] = Some ''m''"
proof -
  have "load_manifest (parse_manifest demo_env) (tree demo_world) = Inr []"
    by (simp add: load_manifest_def demo_world_def demo_tree_def is_file_def)
  from backup_restores[OF demo_created _ this, of demo_later] demo_wf demo_restorable demo_real
  obtain u where u: "restore_backup demo_env ''demo'' demo_list LOCAL_NAME (remote_name ''demo'' 7) demo_later
      = (Inr (), demo_later\<lparr>tree := u\<rparr>)"
    "\<And>ns. file_at u ns = (if backed_up ns then source_file demo_tree ns else file_at demo_lost ns)"
    by (auto simp: demo_world_def demo_later_def demo_env_def entries_of_def)
  have "file_at u [''data'', ''save.txt''] = Some ''one''" "file_at u [''data'', ''junk''] = None"
    "file_at u [''.asc'', ''meta.json''] = Some ''m''"
    by (simp_all add: u(2) source_file_def backed_up_def BACKED_UP_DIRS_def override_path_def place_defs
        demo_tree_def demo_lost_def file_at_Dir_Cons file_at_File)
  with u(1) show ?thesis by blast
qed

text \<open>
  A restore onto an app that still has its setting values at the legacy place does
  not bring back the values of the archive: the current ones are moved over them.
\<close>

theorem legacy_settings_survive_restore:
  assumes "disk_outs w = []" "restorable (tree w)" "node_at (tree w) legacy_path = Some (File c)"
    and "build_archive inc exc t = Inr ar" "wf_tree t" "unpack E blob = (ar, True)"
    and "replace_files E blob w = (Inr (), w1)"
  shows "file_at (tree w1) (state_dir @ [SETTINGS_FILE]) = Some c"
proof -
  from replace_files_run[OF assms(1,2,4,5,6)] obtain u where
    u: "replace_files E blob w = move_legacy (state_dir @ [SETTINGS_FILE]) (w\<lparr>tree := u\<rparr>)"
      "node_at u legacy_path = node_at (tree w) legacy_path" by blast
  with assms(1,3,7) show ?thesis
    by (intro move_legacy_some[of "w\<lparr>tree := u\<rparr>" c]) simp_all
qed

definition demo_unmigrated :: "archive backup_world" where
  "demo_unmigrated = demo_later\<lparr>tree := Dir [(''config'', Dir [(''settings.json'', File ''now'')])]\<rparr>"

lemma demo_unmigrated_run: "\<exists>w1. replace_files demo_env demo_archive demo_unmigrated = (Inr (), w1)"
  by (simp add: replace_files_def clear_dir_def clear_file_def demo_unmigrated_def demo_later_def io_simps
    seq_def bind_def attempt_def fs_step_fine ensure_state_dir_def place_defs override_path_def remove_file_def
    create_dir_def path_exists_def is_file_def is_dir_def store_step_def demo_env_def demo_archive_def
    write_file_def ok_or_def blocked_def move_legacy_def rename_file_def remove_dir_def ret_def entry_path_def
    ignore_def LEGACY_SETTINGS_ENTRY_def fail_if_def lift_result_def do_if_def asks_def Let_def)

theorem legacy_settings_survive_restore_witness:
  "\<exists>w1. replace_files demo_env demo_archive demo_unmigrated = (Inr (), w1)
     \<and> file_at (tree w1) (state_dir @ [SETTINGS_FILE]) = Some ''now''"
proof -
  have "restorable (tree demo_unmigrated)" "node_at (tree demo_unmigrated) legacy_path = Some (File ''now'')"
    "disk_outs demo_unmigrated = []"
    by (simp_all add: demo_unmigrated_def demo_later_def restorable_def BACKED_UP_DIRS_def place_defs legacy_path_def)
  moreover have "unpack demo_env demo_archive = (demo_archive, True)" by (simp add: demo_env_def)
  moreover obtain w1 where "replace_files demo_env demo_archive demo_unmigrated = (Inr (), w1)"
    using demo_unmigrated_run by blast
  ultimately show ?thesis
    using legacy_settings_survive_restore[OF _ _ _ demo_build demo_wf, of demo_unmigrated "''now''" demo_env demo_archive w1]
    by blast
qed

text \<open>
  C33. Whatever fails during a rotation of the local storage, the \<open>keep\<close> archives of the
  app that are last by name stay, the archives of other apps stay, and nothing is added.
  An archive that is removed is not younger than one that has to stay, when their names
  are equally long.
\<close>

theorem prune_keeps_newest:
  assumes "local_ok d w" "prune (local_storage bl d) app keep w = (r, w1)"
  defines "ns \<equiv> sorted_list_of_set {n \<in> local_held d w. belongs_to n app}"
  shows "set (drop (length ns - keep) ns) \<subseteq> local_held d w1
    \<and> {n \<in> local_held d w. \<not> belongs_to n app} \<subseteq> local_held d w1
    \<and> local_held d w1 \<subseteq> local_held d w
    \<and> (\<forall>a \<in> local_held d w - local_held d w1. \<forall>b \<in> set (drop (length ns - keep) ns). \<forall>x y.
         length a = length b \<longrightarrow> created_unix a = Some x \<longrightarrow> created_unix b = Some y \<longrightarrow> x \<le> y)"
proof -
  note keeps = local_dir.prune_keeps[OF assms(1,2), folded ns_def]
  from local_dir.prune_result[OF assms(1,2), folded ns_def] obtain removed where
    rem: "set removed \<subseteq> set (take (length ns - keep) ns)" "local_held d w1 = local_held d w - set removed"
    by blast
  have "finite (local_held d w)" by (simp add: local_held_def)
  then have set_ns: "set ns = {n \<in> local_held d w. belongs_to n app}" by (simp add: ns_def)
  have order: "x \<le> y" if "a \<in> local_held d w - local_held d w1" "b \<in> set (drop (length ns - keep) ns)"
    "length a = length b" "created_unix a = Some x" "created_unix b = Some y" for a b x y
  proof -
    have a: "a \<in> set (take (length ns - keep) ns)" using that(1) rem by auto
    have "sorted (take (length ns - keep) ns @ drop (length ns - keep) ns)" by (simp add: ns_def)
    with a that(2) have "a \<le> b" unfolding sorted_append by blast
    moreover have "belongs_to a app" "belongs_to b app"
      using a that(2) set_ns by (auto dest: in_set_takeD in_set_dropD)
    ultimately show ?thesis using names_in_time_order that(3-5) by blast
  qed
  with keeps show ?thesis by blast
qed

definition demo_three :: "archive backup_world" where
  "demo_three = demo_world\<lparr>folders := [''b'' \<mapsto>
     [(''demo-12.tar.gz'', []), (''demo-2-11.tar.gz'', []), (''demo-11.tar.gz'', [])]]\<rparr>"

theorem prune_keeps_newest_witness:
  "''demo-2-11.tar.gz'' \<in> local_held ''b'' (snd (prune (local_storage length ''b'') ''demo'' 1 demo_three))"
proof -
  have ok: "local_ok ''b'' demo_three"
    by (simp add: local_ok_def distinct_keys_def demo_three_def entries_of_def)
  have "''demo-2-11.tar.gz'' \<in> {n \<in> local_held ''b'' demo_three. \<not> belongs_to n ''demo''}"
    by (simp add: local_held_def demo_three_def entries_of_def belongs_to_def ARCHIVE_SUFFIX_def strip_suffix_def is_digit_def)
  then show ?thesis
    using prune_keeps_newest[OF ok surjective_pairing, where bl = length and app = "''demo''" and keep = 1] by blast
qed

text \<open>
  Migrating an app to the current layout never changes what the readers of its
  metadata and setting values see, wherever it fails or is killed; when it reports
  success the metadata is at the current place.
\<close>

theorem migration_invisible:
  "app_view (tree (snd (migrate w))) = app_view (tree w)
   \<and> (case fst (migrate w) of Inl _ \<Rightarrow> True | Inr _ \<Rightarrow> meta_place (tree (snd (migrate w))) = meta_path)"
  using migrate_view by blast

text \<open>
  Saving the metadata is all or nothing: if it fails or is killed at any point the
  readers see the metadata of before, else the new one, and the setting values are
  those of before.
\<close>

theorem save_meta_atomic:
  "app_view (tree (snd (save_meta raw w))) = (case fst (save_meta raw w) of
     Inl _ \<Rightarrow> app_view (tree w) | Inr _ \<Rightarrow> (settings_text (tree w), Inr raw))"
  by (rule save_meta_view)

text \<open>
  An identifier made from a free-form name is valid, does not end in a dash and is
  its own canonical form.
\<close>

theorem canonical_id_is_id:
  assumes "canonical_id raw = Inr i"
  shows "validate_id i = Inr () \<and> last i \<noteq> CHR ''-'' \<and> canonical_id i = Inr i"
  using canonical_id_valid[OF assms] canonical_id_fixed by blast

theorem canonical_id_is_id_witness:
  "canonical_id '' Asc.Daemon '' = Inr ''asc-daemon'' \<and> validate_id ''asc-daemon'' = Inr ()"
proof -
  have t: "trim '' Asc.Daemon '' = ''Asc.Daemon''"
    by (simp add: trim_def trim_start_def trim_end_def is_white_def)
  have l: "char_of (97 :: nat) = CHR ''a''" "char_of (100 :: nat) = CHR ''d''" by (simp_all add: char_of_def bit_0 bit_Suc)
  have c: "canonical_id '' Asc.Daemon '' = Inr ''asc-daemon''"
    by (simp add: canonical_id_def t fold_char_def lower_char_def is_upper_def id_char_def is_lower_def is_digit_def
      is_alnum_def trim_dashes_def validate_id_iff[of _ "()"] Let_def l)
  with canonical_id_is_id[OF c] show ?thesis by simp
qed

text \<open>
  Storing an entry in the list of storages never changes who manages an entry, leaves
  all other entries, and for a user puts an entry that has the name of a system storage
  in front of it: lookups then give the user's entry, while the list still shows the
  system's.
\<close>

theorem storage_upsert_owner:
  assumes "upsert_storage e l = Inr l1"
  shows "(\<forall>n. lookup_key se_name (target l1) n =
            (if n = se_name e then Some e else lookup_key se_name (target l) n))
    \<and> (\<forall>old. lookup_key se_name (target l) (se_name e) = Some old \<longrightarrow> managed_by old = managed_by e)
    \<and> se_name e \<noteq> LOCAL_NAME
    \<and> (sl_scope l = User \<longrightarrow> get_entry l1 (se_name e) = Some e \<and> entries l1 = system l @ user_visible l1
        \<and> (has_key se_name (system l) (se_name e) \<longrightarrow> (\<forall>v \<in> set (user_visible l1). se_name v \<noteq> se_name e)))"
proof -
  from assms have l1: "l1 = set_target l (upsert se_name (target l) e)" and own: "se_name e \<noteq> LOCAL_NAME"
    "\<And>old. lookup_key se_name (target l) (se_name e) = Some old \<Longrightarrow> managed_by old = managed_by e"
    by (auto simp: upsert_storage_def split: if_splits option.splits)
  have t: "target l1 = upsert se_name (target l) e"
    by (cases "sl_scope l") (simp_all add: l1 target_def set_target_def)
  have "get_entry l1 (se_name e) = Some e \<and> system l1 = system l" if "sl_scope l = User"
    using that by (simp add: l1 get_entry_def set_target_def target_def)
  with own t show ?thesis
    by (auto simp: entries_def user_visible_def)
qed

definition demo_shadow :: storage_list where
  "demo_shadow = \<lparr>system = [\<lparr>se_name = ''s3'', managed_by = None, se_kind = LocalDir ''a''\<rparr>], user = [], sl_scope = User\<rparr>"

theorem storage_upsert_owner_witness:
  "\<exists>l1. upsert_storage \<lparr>se_name = ''s3'', managed_by = Some ''platform'', se_kind = LocalDir ''b''\<rparr> demo_shadow = Inr l1
     \<and> map_option se_kind (get_entry l1 ''s3'') = Some (LocalDir ''b'')
     \<and> map se_kind (entries l1) = [LocalDir ''a'']"
proof -
  let ?e = "\<lparr>se_name = ''s3'', managed_by = Some ''platform'', se_kind = LocalDir ''b''\<rparr>"
  have up: "upsert_storage ?e demo_shadow = Inr (demo_shadow\<lparr>user := [?e]\<rparr>)"
    by (simp add: upsert_storage_def demo_shadow_def LOCAL_NAME_def target_def set_target_def)
  from storage_upsert_owner[OF up]
  have "get_entry (demo_shadow\<lparr>user := [?e]\<rparr>) ''s3'' = Some ?e" by (simp add: demo_shadow_def)
  moreover have "map se_kind (entries (demo_shadow\<lparr>user := [?e]\<rparr>)) = [LocalDir ''a'']"
    by (simp add: entries_def user_visible_def demo_shadow_def has_key_def)
  ultimately show ?thesis using up by auto
qed

end
