(* ===== verification/Schedule.thy ===== *)
theory Schedule
  imports Numerals
begin

text \<open>
  \<open>scheduler/mod.rs\<close>: schedules as bit masks, their parser, and the search for the next
  minute that fires. The broken-down times come from the C library: \<open>localtime_r\<close> is the
  parameter \<open>local_time\<close>; of \<open>gmtime_r\<close> the time of day is written out (POSIX has no leap
  seconds) and the date of a day is the parameter \<open>date_of\<close>.
\<close>

unbundle bit_operations_syntax

section \<open>Moments and schedules\<close>

record moment =
  minute :: nat
  hour :: nat
  day :: nat
  month :: nat
  weekday :: nat

definition moment_utc :: "(int \<Rightarrow> nat \<times> nat \<times> nat) \<Rightarrow> int \<Rightarrow> moment" where
  "moment_utc date_of t = (case date_of (t div 86400) of (d, mo, wd) \<Rightarrow>
     \<lparr>minute = nat (t div 60 mod 60), hour = nat (t div 3600 mod 24), day = d, month = mo, weekday = wd\<rparr>)"

record calendar =
  date_of :: "int \<Rightarrow> nat \<times> nat \<times> nat"
  local_time :: "int \<Rightarrow> moment"

definition moment_at :: "calendar \<Rightarrow> int \<Rightarrow> bool \<Rightarrow> moment" where
  "moment_at C t utc = (if utc then moment_utc (date_of C) t else local_time C t)"

record schedule =
  s_minute :: "64 word"
  s_hour :: "64 word"
  s_day :: "64 word"
  s_month :: "64 word"
  s_weekday :: "64 word"
  day_restricted :: bool
  weekday_restricted :: bool

definition one_bit :: "nat \<Rightarrow> 64 word" where
  "one_bit v = push_bit v 1"

definition has_bit :: "64 word \<Rightarrow> nat \<Rightarrow> bool" where
  "has_bit m v = (m AND one_bit v \<noteq> 0)"

definition bits_of :: "nat list \<Rightarrow> 64 word" where
  "bits_of vs = foldl (\<lambda>m v. m OR one_bit v) 0 vs"

definition mask_all :: "nat \<Rightarrow> nat \<Rightarrow> 64 word" where
  "mask_all lo hi = bits_of [lo..<Suc hi]"

section \<open>Parsing\<close>

datatype schedule_error = BadSchedule string | BadStep | BadNumber | OutOfRange | EmptyField

definition number :: "string \<Rightarrow> schedule_error + nat" where
  "number s = ok_or BadNumber (parse_u32 s)"

text \<open>\<open>(lo..=hi).step_by(step)\<close>.\<close>

definition stepped :: "nat \<Rightarrow> nat \<Rightarrow> nat \<Rightarrow> nat list" where
  "stepped lo hi step = filter (\<lambda>v. (v - lo) mod step = 0) [lo..<Suc hi]"

definition parse_part :: "nat \<Rightarrow> nat \<Rightarrow> string \<Rightarrow> schedule_error + 64 word" where
  "parse_part lo hi part =
     and_then (case split_once (CHR ''/'') part of
         Some (rg, s) \<Rightarrow> and_then (ok_or BadStep (parse_u32 s))
             (\<lambda>n. if n = 0 then Inl BadStep else Inr (rg, n))
       | None \<Rightarrow> Inr (part, 1))
     (\<lambda>(rg, step).
     and_then (if rg = ''*'' then Inr (lo, hi)
       else (case split_once (CHR ''-'') rg of
           Some (a, b) \<Rightarrow> and_then (number a) (\<lambda>x. map_ok (\<lambda>y. (x, y)) (number b))
         | None \<Rightarrow> map_ok (\<lambda>v. if CHR ''/'' \<in> set part then (v, hi) else (v, v)) (number rg)))
     (\<lambda>(a, b). if a < lo \<or> hi < b \<or> b < a then Inl OutOfRange else Inr (bits_of (stepped a b step))))"

definition parse_field :: "string \<Rightarrow> nat \<Rightarrow> nat \<Rightarrow> schedule_error + 64 word" where
  "parse_field field lo hi =
     and_then (traverse (parse_part lo hi) (split_char (CHR '','') field))
       (\<lambda>ms. let m = foldl (OR) 0 ms in if m = 0 then Inl EmptyField else Inr m)"

definition every_day :: "64 word \<Rightarrow> 64 word \<Rightarrow> schedule" where
  "every_day m h = \<lparr>s_minute = m, s_hour = h, s_day = mask_all 1 31, s_month = mask_all 1 12,
     s_weekday = mask_all 0 6, day_restricted = False, weekday_restricted = False\<rparr>"

definition fold_sunday :: "64 word \<Rightarrow> 64 word" where
  "fold_sunday w = (if has_bit w 7 then (w AND NOT (one_bit 7)) OR 1 else w)"

definition parse_time :: "string \<Rightarrow> string \<Rightarrow> schedule_error + schedule" where
  "parse_time raw time = (case split_once (CHR '':'') time of
       None \<Rightarrow> Inl (BadSchedule raw)
     | Some (hh, mm) \<Rightarrow>
         and_then (ok_or (BadSchedule raw) (parse_u32 hh)) (\<lambda>h.
         and_then (ok_or (BadSchedule raw) (parse_u32 mm)) (\<lambda>m.
           if byte_len hh \<noteq> 2 \<or> byte_len mm \<noteq> 2 \<or> 23 < h \<or> 59 < m then Inl (BadSchedule raw)
           else Inr (every_day (one_bit m) (one_bit h)))))"

definition parse_cron :: "string \<Rightarrow> string \<Rightarrow> schedule_error + schedule" where
  "parse_cron raw s = (case split_whitespace s of
       [mi, h, d, mo, wd] \<Rightarrow>
         map_err (\<lambda>_. BadSchedule raw)
         (and_then (parse_field wd 0 7) (\<lambda>wm.
          and_then (parse_field mi 0 59) (\<lambda>mim.
          and_then (parse_field h 0 23) (\<lambda>hm.
          and_then (parse_field d 1 31) (\<lambda>dm.
          map_ok (\<lambda>mom. \<lparr>s_minute = mim, s_hour = hm, s_day = dm, s_month = mom,
              s_weekday = fold_sunday wm, day_restricted = (d \<noteq> ''*''), weekday_restricted = (wd \<noteq> ''*'')\<rparr>)
            (parse_field mo 1 12))))))
     | _ \<Rightarrow> Inl (BadSchedule raw))"

definition parse_schedule :: "string \<Rightarrow> schedule_error + schedule" where
  "parse_schedule raw = (let s = trim raw in
     if s = [] then Inl (BadSchedule raw)
     else if eq_nocase s ''hourly'' then Inr (every_day 1 (mask_all 0 23))
     else (case split_once (CHR ''@'') s of
         Some (p, time) \<Rightarrow> if eq_nocase p ''daily'' then parse_time raw time else Inl (BadSchedule raw)
       | None \<Rightarrow> if CHR '':'' \<in> set s then parse_time raw s else parse_cron raw s))"

section \<open>Matching and the next run\<close>

definition date_matches :: "schedule \<Rightarrow> moment \<Rightarrow> bool" where
  "date_matches s at = (let day_ok = has_bit (s_day s) (day at); weekday_ok = has_bit (s_weekday s) (weekday at) in
     if day_restricted s \<and> weekday_restricted s then day_ok \<or> weekday_ok else day_ok \<and> weekday_ok)"

definition matches :: "schedule \<Rightarrow> moment \<Rightarrow> bool" where
  "matches s at =
     (if \<not> has_bit (s_minute s) (minute at) \<or> \<not> has_bit (s_hour s) (hour at) \<or> \<not> has_bit (s_month s) (month at)
      then False else date_matches s at)"

text \<open>The loop of \<open>next_after\<close>; the outer \<open>option\<close> is \<open>None\<close> where it does not end.\<close>

partial_function (option) next_loop ::
  "schedule \<Rightarrow> (int \<Rightarrow> moment) \<Rightarrow> int \<Rightarrow> int \<Rightarrow> int option option" where
  "next_loop s cal limit t =
     (if limit < t then Some None
      else let m = cal t in
        if \<not> (has_bit (s_month s) (month m) \<and> date_matches s m)
        then next_loop s cal limit (t + ((23 - int (hour m)) * 60 + (60 - int (minute m))) * 60)
        else if \<not> has_bit (s_hour s) (hour m)
        then next_loop s cal limit (t + (60 - int (minute m)) * 60)
        else if has_bit (s_minute s) (minute m) then Some (Some t)
        else next_loop s cal limit (t + 60))"

definition YEAR :: int where "YEAR = 366 * 24 * 3600"

definition next_after :: "calendar \<Rightarrow> schedule \<Rightarrow> int \<Rightarrow> bool \<Rightarrow> int option option" where
  "next_after C s epoch utc =
     next_loop s (\<lambda>t. moment_at C t utc) (epoch + YEAR) ((epoch div 60 + 1) * 60)"

text \<open>
  The reference: every minute after \<open>epoch\<close> up to a year later, tried one by one.
\<close>

definition next_minutes :: "int \<Rightarrow> int list" where
  "next_minutes epoch = filter (\<lambda>t. t \<le> epoch + YEAR)
     (map (\<lambda>k. (epoch div 60 + 1 + int k) * 60) [0..<366 * 24 * 60])"

definition first_match :: "calendar \<Rightarrow> schedule \<Rightarrow> int \<Rightarrow> bool \<Rightarrow> int option" where
  "first_match C s epoch utc = find (\<lambda>t. matches s (moment_at C t utc)) (next_minutes epoch)"

section \<open>Masks\<close>

lemma bit_one_bit: "bit (one_bit v) n \<longleftrightarrow> n = v \<and> v < 64"
  by (auto simp: one_bit_def bit_exp_iff)

lemma has_bit_iff: "has_bit m v \<longleftrightarrow> bit m v"
proof
  assume "has_bit m v"
  then obtain n where "bit (m AND one_bit v) n" by (metis has_bit_def bit_eq_iff bit_0_eq bot_apply bot_bool_def)
  then show "bit m v" by (auto simp: bit_and_iff bit_one_bit)
next
  assume b: "bit m v"
  then have "v < 64" using bit_imp_le_length[OF b] by simp
  with b have "bit (m AND one_bit v) v" by (simp add: bit_and_iff bit_one_bit)
  then show "has_bit m v" by (auto simp: has_bit_def)
qed

lemma has_bit_small: "has_bit m v \<Longrightarrow> v < 64"
  unfolding has_bit_iff using bit_imp_le_length by fastforce

lemma has_bit_or [simp]: "has_bit (a OR b) v \<longleftrightarrow> has_bit a v \<or> has_bit b v"
  by (simp add: has_bit_iff bit_or_iff)

lemma has_bit_one: "has_bit (one_bit v) n \<longleftrightarrow> n = v \<and> v < 64"
  by (simp add: has_bit_iff bit_one_bit)

lemma has_bit_0 [simp]: "\<not> has_bit 0 v" and has_bit_1: "has_bit 1 v \<longleftrightarrow> v = 0"
  by (simp_all add: has_bit_iff bit_1_iff)

lemma has_bit_bits_of: "has_bit (bits_of vs) v \<longleftrightarrow> v \<in> set vs \<and> v < 64"
  unfolding bits_of_def
  by (induction vs rule: rev_induct) (auto simp: has_bit_one)

lemma has_bit_mask_all: "hi < 64 \<Longrightarrow> has_bit (mask_all lo hi) v \<longleftrightarrow> lo \<le> v \<and> v \<le> hi"
  by (auto simp: mask_all_def has_bit_bits_of)

lemma has_bit_foldl: "has_bit (foldl (OR) a ms) v \<longleftrightarrow> has_bit a v \<or> (\<exists>m \<in> set ms. has_bit m v)"
  by (induction ms arbitrary: a) auto

lemma mask_nonzero: "m \<noteq> 0 \<longleftrightarrow> (\<exists>v. has_bit m v)"
  unfolding has_bit_iff by (metis bit_eq_iff bit_0_eq bot_apply bot_bool_def)

lemma has_bit_fold_sunday:
  "v \<le> 6 \<Longrightarrow> has_bit (fold_sunday w) v \<longleftrightarrow> has_bit w v \<or> v = 0 \<and> has_bit w 7"
proof -
  assume v: "v \<le> 6"
  have "bit (NOT (one_bit 7)) v" using v by (simp add: bit_not_iff bit_one_bit)
  then show ?thesis
    by (cases "bit w 7") (auto simp: fold_sunday_def has_bit_iff bit_or_iff bit_and_iff bit_1_iff)
qed

section \<open>The search for the next run\<close>

lemma utc_same_day:
  "u div 86400 = t div 86400 \<Longrightarrow>
   day (moment_utc D u) = day (moment_utc D t) \<and> month (moment_utc D u) = month (moment_utc D t)
   \<and> weekday (moment_utc D u) = weekday (moment_utc D t)"
proof -
  assume same: "u div 86400 = t div 86400"
  obtain d mo wd where "D (t div 86400) = (d, mo, wd)" by (cases "D (t div 86400)")
  with same show ?thesis unfolding moment_utc_def by (simp only: prod.case moment.simps)
qed

lemma utc_time:
  "int (minute (moment_utc D t)) = t div 60 mod 60" "int (hour (moment_utc D t)) = t div 3600 mod 24"
  by (simp_all add: moment_utc_def split: prod.splits)

lemma utc_bounds: "hour (moment_utc D t) \<le> 23 \<and> minute (moment_utc D t) \<le> 59"
proof -
  have "t div 3600 mod 24 < 24" "t div 60 mod 60 < 60" by (rule pos_mod_bound, simp)+
  then have "int (hour (moment_utc D t)) < 24" "int (minute (moment_utc D t)) < 60" unfolding utc_time .
  then show ?thesis by simp
qed

definition earliest :: "(int \<Rightarrow> bool) \<Rightarrow> int \<Rightarrow> int \<Rightarrow> int option \<Rightarrow> bool" where
  "earliest P from limit r = (case r of
       None \<Rightarrow> \<forall>v. from \<le> v \<and> v \<le> limit \<and> v mod 60 = 0 \<longrightarrow> \<not> P v
     | Some u \<Rightarrow> from \<le> u \<and> u \<le> limit \<and> u mod 60 = 0 \<and> P u
         \<and> (\<forall>v. from \<le> v \<and> v < u \<and> v mod 60 = 0 \<longrightarrow> \<not> P v))"

lemma earliest_skip:
  assumes "earliest P u limit r" "t \<le> u" "\<And>v. t \<le> v \<Longrightarrow> v < u \<Longrightarrow> v mod 60 = 0 \<Longrightarrow> \<not> P v"
  shows "earliest P t limit r"
  using assms by (force simp: earliest_def split: option.splits)

lemma earliest_unique:
  assumes "earliest P t limit r" "earliest P t limit r'" shows "r = r'"
proof (cases r)
  case None
  with assms show ?thesis by (cases r') (auto simp: earliest_def)
next
  case (Some u)
  then obtain u' where u': "r' = Some u'" using assms by (cases r') (auto simp: earliest_def)
  have "\<not> u < u'" "\<not> u' < u" using assms Some u' by (auto simp: earliest_def)
  with Some u' show ?thesis by simp
qed

lemma same_block:
  fixes t v k :: int
  assumes "0 < k" "t \<le> v" "v < (t div k + 1) * k" shows "v div k = t div k"
proof (rule int_div_pos_eq)
  show "v = k * (t div k) + (v - k * (t div k))" by simp
  have "k * (t div k) \<le> t" using assms(1) by (metis mult.commute div_mod_decomp_int le_add_same_cancel1 pos_mod_sign)
  with assms(2) show "0 \<le> v - k * (t div k)" by simp
  from assms(3) show "v - k * (t div k) < k" by (simp add: algebra_simps)
qed

lemma block_end:
  fixes t k :: int
  assumes "0 < k" shows "t < (t div k + 1) * k"
proof -
  have "t - t div k * k = t mod k" by (rule minus_div_mult_eq_mod)
  also have "\<dots> < k" using assms by simp
  finally show ?thesis by (simp add: algebra_simps)
qed

lemma time_parts:
  fixes t :: int
  assumes "t mod 60 = 0"
  shows "t = t div 3600 * 3600 + t div 60 mod 60 * 60" "t div 3600 = t div 86400 * 24 + t div 3600 mod 24"
proof -
  have "t div 3600 = t div 60 div 60" using zdiv_zmult2_eq[of 60 t 60] by simp
  then have "t div 60 = t div 3600 * 60 + t div 60 mod 60" by simp
  moreover have "t = t div 60 * 60" using assms by (metis add.right_neutral div_mult_mod_eq)
  ultimately show "t = t div 3600 * 3600 + t div 60 mod 60 * 60" by linarith
  have "t div 86400 = t div 3600 div 24" using zdiv_zmult2_eq[of 24 t 3600] by simp
  then show "t div 3600 = t div 86400 * 24 + t div 3600 mod 24" by simp
qed

lemma date_skip:
  assumes "t mod 60 = 0"
  shows "t + ((23 - int (hour (moment_utc D t))) * 60 + (60 - int (minute (moment_utc D t)))) * 60
    = (t div 86400 + 1) * 86400"
proof -
  have "u = h * 3600 + x * 60 \<Longrightarrow> h = d * 24 + y \<Longrightarrow> u + ((23 - y) * 60 + (60 - x)) * 60 = (d + 1) * 86400"
    for u h x d y :: int by simp
  from this[OF time_parts[OF assms]] show ?thesis unfolding utc_time .
qed

lemma hour_skip:
  assumes "t mod 60 = 0"
  shows "t + (60 - int (minute (moment_utc D t))) * 60 = (t div 3600 + 1) * 3600"
proof -
  have "u = h * 3600 + x * 60 \<Longrightarrow> u + (60 - x) * 60 = (h + 1) * 3600" for u h x :: int by simp
  from this[OF time_parts(1)[OF assms]] show ?thesis unfolding utc_time .
qed

lemma next_loop_earliest:
  assumes "t mod 60 = 0"
  shows "\<exists>r. next_loop s (moment_utc D) limit t = Some r
    \<and> earliest (\<lambda>u. matches s (moment_utc D u)) t limit r"
  using assms
proof (induction "nat (limit - t + 1)" arbitrary: t rule: less_induct)
  case less
  let ?m = "moment_utc D t" and ?P = "\<lambda>u. matches s (moment_utc D u)"
  note step = next_loop.simps[of s "moment_utc D" limit t]
  have rec: "\<exists>r. next_loop s (moment_utc D) limit u = Some r \<and> earliest ?P t limit r"
    if "t < u" "t \<le> limit" "u mod 60 = 0" "\<And>v. t \<le> v \<Longrightarrow> v < u \<Longrightarrow> v mod 60 = 0 \<Longrightarrow> \<not> ?P v" for u
  proof -
    have "nat (limit - u + 1) < nat (limit - t + 1)" using that(1,2) by simp
    from less.hyps[OF this that(3)] obtain r where
      "next_loop s (moment_utc D) limit u = Some r" "earliest ?P u limit r" by blast
    with earliest_skip that(1,4) show ?thesis by (metis less_imp_le)
  qed
  consider "limit < t" | "t \<le> limit" "\<not> (has_bit (s_month s) (month ?m) \<and> date_matches s ?m)"
    | "t \<le> limit" "has_bit (s_month s) (month ?m) \<and> date_matches s ?m" "\<not> has_bit (s_hour s) (hour ?m)"
    | "t \<le> limit" "has_bit (s_month s) (month ?m) \<and> date_matches s ?m" "has_bit (s_hour s) (hour ?m)"
        "\<not> has_bit (s_minute s) (minute ?m)"
    | "t \<le> limit" "matches s ?m"
    by (fastforce simp: matches_def)
  then show ?case
  proof cases
    case 1
    then show ?thesis using step by (auto simp: earliest_def)
  next
    case 2
    let ?u = "(t div 86400 + 1) * 86400"
    have no: "\<not> ?P v" if "t \<le> v" "v < ?u" for v
    proof -
      have "v div 86400 = t div 86400" using that by (intro same_block) simp_all
      from utc_same_day[OF this, of D] 2(2) show ?thesis
        by (auto simp: matches_def date_matches_def Let_def)
    qed
    have after: "t < ?u" by (rule block_end) simp
    have whole: "?u mod 60 = 0" by (simp add: mod_eq_0_iff_dvd)
    have "\<exists>r. next_loop s (moment_utc D) limit ?u = Some r \<and> earliest ?P t limit r"
      using rec[OF after 2(1) whole no] by blast
    moreover have "next_loop s (moment_utc D) limit t = next_loop s (moment_utc D) limit
        (t + ((23 - int (hour ?m)) * 60 + (60 - int (minute ?m))) * 60)"
      using step 2 by (simp add: Let_def not_less)
    ultimately show ?thesis by (simp only: date_skip[OF less.prems])
  next
    case 3
    let ?u = "(t div 3600 + 1) * 3600"
    have no: "\<not> ?P v" if "t \<le> v" "v < ?u" for v
    proof -
      have "v div 3600 = t div 3600" using that by (intro same_block) simp_all
      then have "hour (moment_utc D v) = hour ?m" by (simp add: moment_utc_def split: prod.splits)
      with 3(3) show ?thesis by (simp add: matches_def)
    qed
    have after: "t < ?u" by (rule block_end) simp
    have whole: "?u mod 60 = 0" by (simp add: mod_eq_0_iff_dvd)
    have "\<exists>r. next_loop s (moment_utc D) limit ?u = Some r \<and> earliest ?P t limit r"
      using rec[OF after 3(1) whole no] by blast
    moreover have "next_loop s (moment_utc D) limit t
        = next_loop s (moment_utc D) limit (t + (60 - int (minute ?m)) * 60)"
      using step 3 by (simp add: Let_def not_less)
    ultimately show ?thesis by (simp only: hour_skip[OF less.prems])
  next
    case 4
    have "\<not> ?P v" if "t \<le> v" "v < t + 60" "v mod 60 = 0" for v
    proof -
      from that(3) less.prems obtain a b where "v = 60 * a" "t = 60 * b"
        by (metis mod_eq_0_iff_dvd dvdE)
      with that(1,2) have "v = t" by simp
      with 4(4) show ?thesis by (simp add: matches_def)
    qed
    moreover have "(t + 60) mod 60 = 0" using less.prems by simp
    ultimately have "\<exists>r. next_loop s (moment_utc D) limit (t + 60) = Some r \<and> earliest ?P t limit r"
      using rec[of "t + 60"] 4(1) by auto
    then show ?thesis using step 4 by (simp add: Let_def not_less)
  next
    case 5
    then have "next_loop s (moment_utc D) limit t = Some (Some t)"
      using step by (simp add: Let_def matches_def split: if_splits)
    moreover have "earliest ?P t limit (Some t)" using 5 less.prems by (auto simp: earliest_def)
    ultimately show ?thesis by blast
  qed
qed

lemma earliest_find:
  assumes "sorted xs" "set xs = {v. from \<le> v \<and> v \<le> limit \<and> v mod 60 = 0}"
  shows "earliest P from limit (find P xs)"
proof (cases "find P xs")
  case None
  then have "\<forall>v \<in> set xs. \<not> P v" by (auto simp: find_None_iff)
  with None assms(2) show ?thesis by (auto simp: earliest_def)
next
  case (Some u)
  then obtain i where i: "i < length xs" "P (xs ! i)" "u = xs ! i" "\<forall>j < i. \<not> P (xs ! j)"
    by (auto simp: find_Some_iff)
  have "u \<in> set xs" using i by simp
  moreover have "\<not> P v" if "v \<in> set xs" "v < u" for v
  proof -
    from that(1) obtain j where j: "j < length xs" "v = xs ! j" by (auto simp: in_set_conv_nth)
    have "j < i" using sorted_nth_mono[OF assms(1), of i j] that(2) i j by (meson leI not_le)
    with i(4) j show ?thesis by simp
  qed
  ultimately show ?thesis using Some i(2,3) assms(2) by (auto simp: earliest_def)
qed

lemma set_next_minutes:
  "set (next_minutes e) = {v. (e div 60 + 1) * 60 \<le> v \<and> v \<le> e + YEAR \<and> v mod 60 = 0}"
proof (intro set_eqI iffI)
  fix v assume "v \<in> set (next_minutes e)"
  then show "v \<in> {v. (e div 60 + 1) * 60 \<le> v \<and> v \<le> e + YEAR \<and> v mod 60 = 0}"
    by (auto simp: next_minutes_def)
next
  fix v assume v: "v \<in> {v. (e div 60 + 1) * 60 \<le> v \<and> v \<le> e + YEAR \<and> v mod 60 = 0}"
  then have "60 dvd v" by (simp add: mod_eq_0_iff_dvd)
  then obtain q where q: "v = 60 * q" by (rule dvdE)
  define k where "k = nat (q - (e div 60 + 1))"
  have k: "int k = q - (e div 60 + 1)" using v q by (simp add: k_def)
  have "e < (e div 60 + 1) * 60" by (rule block_end) simp
  with v q have "60 * q < (e div 60 + 1) * 60 + YEAR" by simp
  then have "k < 366 * 24 * 60" using k by (simp add: YEAR_def)
  moreover have "v = (e div 60 + 1 + int k) * 60" by (simp add: k q)
  ultimately show "v \<in> set (next_minutes e)" using v by (auto simp: next_minutes_def)
qed

lemma sorted_map_upt:
  fixes f :: "nat \<Rightarrow> int"
  assumes "\<And>i j. i \<le> j \<Longrightarrow> f i \<le> f j" shows "sorted (map f [0..<n])"
  by (simp add: sorted_iff_nth_mono assms)

lemma sorted_next_minutes: "sorted (next_minutes e)"
  unfolding next_minutes_def by (rule sorted_wrt_filter, rule sorted_map_upt) simp

lemma next_after_utc: "next_after C s e True = Some (first_match C s e True)"
proof -
  let ?P = "\<lambda>u. matches s (moment_utc (date_of C) u)" and ?t = "(e div 60 + 1) * 60"
  have cal: "(\<lambda>t. moment_at C t True) = moment_utc (date_of C)" by (simp add: moment_at_def fun_eq_iff)
  from next_loop_earliest[of ?t s "date_of C" "e + YEAR"] obtain r where
    r: "next_after C s e True = Some r" "earliest ?P ?t (e + YEAR) r"
    by (auto simp: next_after_def cal)
  have "earliest ?P ?t (e + YEAR) (first_match C s e True)"
    unfolding first_match_def moment_at_def if_True
    by (rule earliest_find[OF sorted_next_minutes set_next_minutes])
  with r earliest_unique show ?thesis by metis
qed

text \<open>Whatever the calendar, the loop does not go back.\<close>

lemma next_loop_forward:
  assumes "next_loop s cal limit t = Some r" "\<And>t. hour (cal t) \<le> 23 \<and> minute (cal t) \<le> 59"
  shows "case r of None \<Rightarrow> True | Some u \<Rightarrow> t \<le> u"
proof -
  have "(\<forall>t. hour (cal t) \<le> 23 \<and> minute (cal t) \<le> 59) \<longrightarrow> (case r of None \<Rightarrow> True | Some u \<Rightarrow> t \<le> u)"
    using assms(1)
  proof (induction rule: next_loop.raw_induct[rotated 1, consumes 1, case_names step])
    case (step loop s cal limit t r)
    show ?case
    proof
      assume bounds: "\<forall>t. hour (cal t) \<le> 23 \<and> minute (cal t) \<le> 59"
      have later: "case r of None \<Rightarrow> True | Some u \<Rightarrow> t \<le> u" if "loop s cal limit v = Some r" "t \<le> v" for v
        using step(1)[OF that(1)] bounds that(2) by (cases r) auto
      have "t \<le> t + ((23 - int (hour (cal t))) * 60 + (60 - int (minute (cal t)))) * 60"
        "t \<le> t + (60 - int (minute (cal t))) * 60" "t \<le> t + 60"
        using bounds[rule_format, of t] by auto
      note steps = later[OF _ this(1)] later[OF _ this(2)] later[OF _ this(3)]
      show "case r of None \<Rightarrow> True | Some u \<Rightarrow> t \<le> u"
      proof (cases "limit < t")
        case True
        with step(2) show ?thesis by simp
      next
        case False
        with step(2) steps show ?thesis
          by (auto simp: Let_def split: if_splits)
      qed
    qed
  qed
  with assms(2) show ?thesis by blast
qed

end
