(* ===== verification/ScheduleProps.thy ===== *)
theory ScheduleProps
  imports Schedule
begin

text \<open>
  Properties of the schedules: what a cron text means (its syntax as a datatype, printed
  and parsed back), the next run in UTC against the minute-by-minute reference, and a
  local calendar in which the search misses a run.
\<close>

section \<open>The cron syntax\<close>

datatype cron_item =
    Every | EveryStep nat | At nat | From nat nat | Span nat nat | SpanStep nat nat nat

fun show_item :: "cron_item \<Rightarrow> string" where
  "show_item Every = ''*''"
| "show_item (EveryStep n) = ''*/'' @ show_nat n"
| "show_item (At v) = show_nat v"
| "show_item (From v n) = show_nat v @ ''/'' @ show_nat n"
| "show_item (Span a b) = show_nat a @ ''-'' @ show_nat b"
| "show_item (SpanStep a b n) = show_nat a @ ''-'' @ show_nat b @ ''/'' @ show_nat n"

fun ok_item :: "nat \<Rightarrow> nat \<Rightarrow> cron_item \<Rightarrow> bool" where
  "ok_item lo hi Every = True"
| "ok_item lo hi (EveryStep n) = (0 < n \<and> n \<le> 4294967295)"
| "ok_item lo hi (At v) = (lo \<le> v \<and> v \<le> hi)"
| "ok_item lo hi (From v n) = (lo \<le> v \<and> v \<le> hi \<and> 0 < n \<and> n \<le> 4294967295)"
| "ok_item lo hi (Span a b) = (lo \<le> a \<and> a \<le> b \<and> b \<le> hi)"
| "ok_item lo hi (SpanStep a b n) = (lo \<le> a \<and> a \<le> b \<and> b \<le> hi \<and> 0 < n \<and> n \<le> 4294967295)"

text \<open>\<open>v\<close> is one of the values an item stands for in a field with bounds \<open>lo\<close> and \<open>hi\<close>.\<close>

fun item_has :: "nat \<Rightarrow> nat \<Rightarrow> cron_item \<Rightarrow> nat \<Rightarrow> bool" where
  "item_has lo hi Every v = (lo \<le> v \<and> v \<le> hi)"
| "item_has lo hi (EveryStep n) v = (lo \<le> v \<and> v \<le> hi \<and> n dvd (v - lo))"
| "item_has lo hi (At u) v = (v = u)"
| "item_has lo hi (From u n) v = (u \<le> v \<and> v \<le> hi \<and> n dvd (v - u))"
| "item_has lo hi (Span a b) v = (a \<le> v \<and> v \<le> b)"
| "item_has lo hi (SpanStep a b n) v = (a \<le> v \<and> v \<le> b \<and> n dvd (v - a))"

definition show_field :: "cron_item list \<Rightarrow> string" where
  "show_field is = join '','' (map show_item is)"

definition field_has :: "nat \<Rightarrow> nat \<Rightarrow> cron_item list \<Rightarrow> nat \<Rightarrow> bool" where
  "field_has lo hi is v = (\<exists>i \<in> set is. item_has lo hi i v)"

definition field_ok :: "nat \<Rightarrow> nat \<Rightarrow> cron_item list \<Rightarrow> bool" where
  "field_ok lo hi is = (is \<noteq> [] \<and> list_all (ok_item lo hi) is)"

record cron =
  minutes :: "cron_item list"
  hours :: "cron_item list"
  days :: "cron_item list"
  months :: "cron_item list"
  weekdays :: "cron_item list"

definition cron_ok :: "cron \<Rightarrow> bool" where
  "cron_ok c = (field_ok 0 59 (minutes c) \<and> field_ok 0 23 (hours c) \<and> field_ok 1 31 (days c)
     \<and> field_ok 1 12 (months c) \<and> field_ok 0 7 (weekdays c))"

definition show_cron :: "cron \<Rightarrow> string" where
  "show_cron c = join '' '' (map show_field [minutes c, hours c, days c, months c, weekdays c])"

text \<open>When it fires: Sunday is 0 and 7, and two restricted day fields are alternatives.\<close>

definition cron_fires :: "cron \<Rightarrow> moment \<Rightarrow> bool" where
  "cron_fires c m =
     (let on_day = field_has 1 31 (days c) (day m);
          on_weekday = field_has 0 7 (weekdays c) (weekday m) \<or> weekday m = 0 \<and> field_has 0 7 (weekdays c) 7
      in field_has 0 59 (minutes c) (minute m) \<and> field_has 0 23 (hours c) (hour m)
         \<and> field_has 1 12 (months c) (month m)
         \<and> (if show_field (days c) \<noteq> ''*'' \<and> show_field (weekdays c) \<noteq> ''*''
             then on_day \<or> on_weekday else on_day \<and> on_weekday))"

lemma show_nat_clean: "\<not> is_alnum c \<Longrightarrow> c \<notin> set (show_nat n)"
  by (rule show_base_no_sep) simp_all

lemma not_alnum [simp]:
  "\<not> is_alnum CHR ''/''" "\<not> is_alnum CHR ''-''" "\<not> is_alnum CHR '',''" "\<not> is_alnum CHR ''*''"
  by (simp_all add: is_alnum_def is_digit_def is_upper_def is_lower_def)

lemmas clean = show_nat_clean[of "CHR ''/''", simplified] show_nat_clean[of "CHR ''-''", simplified]
  show_nat_clean[of "CHR '',''", simplified] show_nat_clean[of "CHR ''*''", simplified]

lemma number_show [simp]: "n \<le> 4294967295 \<Longrightarrow> number (show_nat n) = Inr n"
  by (simp add: number_def parse_radix_show ok_or_def)

lemma parse_u32_show [simp]: "n \<le> 4294967295 \<Longrightarrow> parse_u32 (show_nat n) = Some n"
  by (rule parse_radix_show) simp_all

lemma show_nat_not_star: "show_nat n \<noteq> ''*''" "show_nat a @ CHR ''-'' # t \<noteq> ''*''"
  using clean(4)[of n] clean(4)[of a] by (auto simp: append_eq_Cons_conv)

lemma mem_stepped: "v \<in> set (stepped a b n) \<longleftrightarrow> a \<le> v \<and> v \<le> b \<and> n dvd (v - a)"
  by (auto simp: stepped_def dvd_eq_mod_eq_0)

lemma parse_item:
  assumes "ok_item lo hi i" "hi < 64" "lo \<le> hi"
  shows "\<exists>m. parse_part lo hi (show_item i) = Inr m \<and> (\<forall>v. has_bit m v \<longleftrightarrow> item_has lo hi i v)"
proof -
  have bits: "has_bit (bits_of (stepped a b n)) v \<longleftrightarrow> a \<le> v \<and> v \<le> b \<and> n dvd (v - a)" if "b \<le> hi" for a b n v
    using that assms(2) by (auto simp: has_bit_bits_of mem_stepped)
  have once: "split_once (CHR ''/'') (x @ CHR ''/'' # y) = Some (x, y)" if "CHR ''/'' \<notin> set x" for x y
    using that by (rule split_once_append)
  have dash: "split_once (CHR ''-'') (show_nat a @ CHR ''-'' # y) = Some (show_nat a, y)" for a y
    using clean(2) by (rule split_once_append)
  have none: "split_once d x = None" if "d \<notin> set x" for d x using that by simp
  show ?thesis
  proof (cases i)
    case Every
    then show ?thesis using assms by (simp add: parse_part_def bits)
  next
    case (EveryStep n)
    have "split_once (CHR ''/'') (CHR ''*'' # CHR ''/'' # show_nat n) = Some (''*'', show_nat n)"
      using once[of "''*''" "show_nat n"] by simp
    with EveryStep assms show ?thesis by (simp add: parse_part_def ok_or_def bits)
  next
    case (At v)
    have v: "lo \<le> v" "v \<le> hi" using At assms by simp_all
    then have "parse_part lo hi (show_nat v) = Inr (bits_of (stepped v v 1))"
      using assms(2) by (simp add: parse_part_def show_nat_not_star clean none)
    with At bits[OF v(2)] show ?thesis by auto
  next
    case (From v n)
    have "split_once (CHR ''/'') (show_nat v @ CHR ''/'' # show_nat n) = Some (show_nat v, show_nat n)"
      by (rule once) (rule clean)
    moreover have v: "lo \<le> v" "v \<le> hi" "0 < n" "n \<le> 4294967295" using From assms by simp_all
    ultimately have "parse_part lo hi (show_item i) = Inr (bits_of (stepped v hi n))"
      using assms(2) From by (simp add: parse_part_def ok_or_def show_nat_not_star clean none)
    with From bits[of hi] show ?thesis by auto
  next
    case (Span a b)
    have v: "lo \<le> a" "a \<le> b" "b \<le> hi" using Span assms by simp_all
    then have "parse_part lo hi (show_item i) = Inr (bits_of (stepped a b 1))"
      using assms(2) Span dash by (simp add: parse_part_def show_nat_not_star clean none)
    with Span bits[OF v(3)] show ?thesis by auto
  next
    case (SpanStep a b n)
    have "split_once (CHR ''/'') (show_nat a @ CHR ''-'' # show_nat b @ CHR ''/'' # show_nat n)
        = Some (show_nat a @ CHR ''-'' # show_nat b, show_nat n)"
      using once[of "show_nat a @ CHR ''-'' # show_nat b" "show_nat n"] by (simp add: clean)
    moreover have v: "lo \<le> a" "a \<le> b" "b \<le> hi" "0 < n" "n \<le> 4294967295" using SpanStep assms by simp_all
    ultimately have "parse_part lo hi (show_item i) = Inr (bits_of (stepped a b n))"
      using assms(2) SpanStep dash by (simp add: parse_part_def ok_or_def show_nat_not_star)
    with SpanStep bits[OF v(3)] show ?thesis by auto
  qed
qed

lemma item_chars:
  "c \<in> set (show_item i) \<Longrightarrow> is_digit c \<or> c = CHR ''*'' \<or> c = CHR ''/'' \<or> c = CHR ''-''"
  by (cases i) (auto dest: show_nat_digit)

lemma parse_items:
  assumes "list_all (ok_item lo hi) is" "hi < 64" "lo \<le> hi"
  shows "\<exists>ms. traverse (parse_part lo hi) (map show_item is) = Inr ms
    \<and> (\<forall>v. (\<exists>m \<in> set ms. has_bit m v) \<longleftrightarrow> field_has lo hi is v)"
  using assms(1)
proof (induction "is")
  case (Cons i js)
  then obtain ms where ms: "traverse (parse_part lo hi) (map show_item js) = Inr ms"
    "\<forall>v. (\<exists>m \<in> set ms. has_bit m v) \<longleftrightarrow> field_has lo hi js v" by auto
  from parse_item[OF _ assms(2,3), of i] Cons.prems obtain m where
    "parse_part lo hi (show_item i) = Inr m" "\<forall>v. has_bit m v \<longleftrightarrow> item_has lo hi i v" by auto
  with ms show ?case by (intro exI[of _ "m # ms"]) (simp add: field_has_def)
qed (simp add: field_has_def)

lemma item_nonempty: "ok_item lo hi i \<Longrightarrow> lo \<le> hi \<Longrightarrow> \<exists>v. item_has lo hi i v"
  by (cases i) (auto intro: exI[of _ lo])

lemma parse_field_show:
  assumes "field_ok lo hi is" "hi < 64" "lo \<le> hi"
  shows "\<exists>m. parse_field (show_field is) lo hi = Inr m \<and> (\<forall>v. has_bit m v \<longleftrightarrow> field_has lo hi is v)"
proof -
  from assms(1) have "list_all (ok_item lo hi) is" by (simp add: field_ok_def)
  from parse_items[OF this assms(2,3)] obtain ms where
    ms: "traverse (parse_part lo hi) (map show_item is) = Inr ms"
      "\<forall>v. (\<exists>m \<in> set ms. has_bit m v) \<longleftrightarrow> field_has lo hi is v" by blast
  have comma: "CHR '','' \<notin> set (show_item i)" for i
    using item_chars[of "CHR '',''" i] by (auto simp: is_digit_def)
  have "split_char (CHR '','') (show_field is) = map show_item is"
    unfolding show_field_def by (rule split_join) (use assms(1) comma in \<open>auto simp: field_ok_def\<close>)
  moreover have bits: "has_bit (foldl (OR) 0 ms) v \<longleftrightarrow> field_has lo hi is v" for v
    using ms(2) by (simp add: has_bit_foldl)
  moreover have "foldl (OR) 0 ms \<noteq> 0"
  proof -
    from assms(1) obtain i where "i \<in> set is" "ok_item lo hi i" by (cases "is") (auto simp: field_ok_def)
    with item_nonempty[OF _ assms(3), of i] have "\<exists>v. field_has lo hi is v"
      unfolding field_has_def by blast
    then show ?thesis unfolding mask_nonzero bits .
  qed
  ultimately show ?thesis using ms(1) by (simp add: parse_field_def)
qed

text \<open>Words separated by single spaces.\<close>

lemma words_acc_word:
  "(\<And>c. c \<in> set w \<Longrightarrow> \<not> is_white c) \<Longrightarrow> words_acc acc (w @ s) = words_acc (rev w @ acc) s"
  by (induction w arbitrary: acc) auto

lemma split_whitespace_join:
  assumes "\<And>w. w \<in> set ws \<Longrightarrow> w \<noteq> [] \<and> (\<forall>c \<in> set w. \<not> is_white c)"
  shows "split_whitespace (join '' '' ws) = ws"
  using assms
proof (induction ws)
  case (Cons w ws)
  have w: "w \<noteq> []" "\<And>c. c \<in> set w \<Longrightarrow> \<not> is_white c" using Cons.prems by auto
  show ?case
  proof (cases ws)
    case Nil
    with words_acc_word[OF w(2), of w "[]" "[]"] w(1) show ?thesis by (simp add: split_whitespace_def)
  next
    case (Cons v vs)
    have "is_white CHR '' ''" by (simp add: is_white_def)
    moreover have "split_whitespace (join '' '' ws) = ws" by (rule Cons.IH, rule Cons.prems, simp)
    ultimately show ?thesis
      using words_acc_word[OF w(2), of w "[]" "CHR '' '' # join '' '' (v # vs)"] w(1) Cons
      by (simp add: split_whitespace_def)
  qed
qed (simp add: split_whitespace_def)

lemma cron_char:
  assumes "c \<in> set (show_cron x)"
  shows "is_digit c \<or> c \<in> set ''*/-, ''"
proof -
  have field: "is_digit c \<or> c \<in> set ''*/-, ''" if "c \<in> set (show_field is)" for "is" c
    using that set_join[of "'',''" "map show_item is"] item_chars[of c] by (auto simp: show_field_def)
  then show ?thesis using assms set_join[of "'' ''" "map show_field [minutes x, hours x, days x, months x, weekdays x]"]
    by (auto simp: show_cron_def)
qed

lemma item_not_empty: "show_item i \<noteq> []"
  by (cases i) auto

lemma field_word:
  assumes "field_ok lo hi is" shows "show_field is \<noteq> [] \<and> (\<forall>c \<in> set (show_field is). \<not> is_white c)"
proof
  from assms obtain i js where "is": "is = i # js" by (cases "is") (auto simp: field_ok_def)
  then show "show_field is \<noteq> []"
    using item_not_empty[of i] by (cases js) (simp_all add: show_field_def)
  have "is_digit c \<or> c \<in> set ''*/-,''" if "c \<in> set (show_field is)" for c
    using that set_join[of "'',''" "map show_item is"] item_chars[of c] by (auto simp: show_field_def)
  then show "\<forall>c \<in> set (show_field is). \<not> is_white c" by (fastforce simp: is_white_def is_digit_def)
qed

lemma lower_letter: "c \<in> set (to_lower s) \<Longrightarrow> is_lower c \<Longrightarrow> \<exists>d \<in> set s. is_lower d \<or> is_upper d"
  by (fastforce simp: to_lower_def lower_char_def)

lemma cron_text:
  assumes "cron_ok c"
  shows "trim (show_cron c) = show_cron c" "show_cron c \<noteq> []" "\<not> eq_nocase (show_cron c) ''hourly''"
    "CHR ''@'' \<notin> set (show_cron c)" "CHR '':'' \<notin> set (show_cron c)"
    "split_whitespace (show_cron c)
       = [show_field (minutes c), show_field (hours c), show_field (days c), show_field (months c), show_field (weekdays c)]"
proof -
  let ?fs = "[minutes c, hours c, days c, months c, weekdays c]"
  have words: "w \<noteq> [] \<and> (\<forall>c \<in> set w. \<not> is_white c)" if "w \<in> set (map show_field ?fs)" for w
    using that assms field_word by (auto simp: cron_ok_def)
  show "split_whitespace (show_cron c)
       = [show_field (minutes c), show_field (hours c), show_field (days c), show_field (months c), show_field (weekdays c)]"
    using split_whitespace_join[of "map show_field ?fs", OF words] by (simp add: show_cron_def)
  let ?m = "show_field (minutes c)" and ?w = "show_field (weekdays c)"
  have ends: "?m \<noteq> []" "?w \<noteq> []" "\<not> is_white (hd ?m)" "\<not> is_white (last ?w)"
    using words[of ?m] words[of ?w] by auto
  have shape: "\<exists>x y. show_cron c = ?m @ x \<and> show_cron c = y @ ?w" by (simp add: show_cron_def)
  then obtain x y where xy: "show_cron c = ?m @ x" "show_cron c = y @ ?w" by blast
  show ne: "show_cron c \<noteq> []" using xy ends by simp
  have "hd (show_cron c) = hd ?m" "last (show_cron c) = last ?w"
    using xy ends by (metis hd_append2, metis last_appendR)
  with ends ne show "trim (show_cron c) = show_cron c" by (intro trim_trimmed) (simp add: trimmed_def)
  show "CHR ''@'' \<notin> set (show_cron c)" "CHR '':'' \<notin> set (show_cron c)"
    using cron_char[of "CHR ''@''" c] cron_char[of "CHR '':''" c] by (auto simp: is_digit_def)
  show "\<not> eq_nocase (show_cron c) ''hourly''"
  proof
    assume "eq_nocase (show_cron c) ''hourly''"
    then have "CHR ''h'' \<in> set (to_lower (show_cron c))"
      by (simp add: eq_nocase_def to_lower_def lower_char_def is_upper_def)
    from lower_letter[OF this] obtain d where "d \<in> set (show_cron c)" "is_lower d \<or> is_upper d"
      by (auto simp: is_lower_def)
    with cron_char[of d c] show False by (auto simp: is_lower_def is_upper_def is_digit_def)
  qed
qed

section \<open>A calendar with a change of the clock\<close>

text \<open>
  Day 0 is a Sunday, and at 01:00 on that day local clocks go forward one hour.
\<close>

definition spring_date :: "int \<Rightarrow> nat \<times> nat \<times> nat" where
  "spring_date D = (nat (D mod 28) + 1, 3, nat (D mod 7))"

definition spring_calendar :: calendar where
  "spring_calendar = \<lparr>date_of = spring_date,
     local_time = (\<lambda>t. moment_utc spring_date (if t < 3600 then t else t + 3600))\<rparr>"

text \<open>\<open>30 0 * * 1\<close>: Mondays at half past midnight.\<close>

definition monday_0030 :: schedule where
  "monday_0030 = \<lparr>s_minute = one_bit 30, s_hour = one_bit 0, s_day = mask_all 1 31, s_month = mask_all 1 12,
     s_weekday = one_bit 1, day_restricted = False, weekday_restricted = True\<rparr>"

text \<open>
  Across a change of the local clock the search can miss a run: from midnight of the
  Sunday on which clocks go forward it skips the following Monday 00:30, at which the
  schedule fires, and any answer it gives is later.
\<close>

theorem next_after_misses_run:
  "matches monday_0030 (moment_at spring_calendar 84600 False)
   \<and> \<not> (\<exists>u \<le> 84600. next_after spring_calendar monday_0030 0 False = Some (Some u))"
proof
  have "moment_at spring_calendar 84600 False = \<lparr>minute = 30, hour = 0, day = 2, month = 3, weekday = 1\<rparr>"
    by (simp add: moment_at_def spring_calendar_def moment_utc_def spring_date_def)
  then show "matches monday_0030 (moment_at spring_calendar 84600 False)"
    by (simp add: matches_def monday_0030_def has_bit_one has_bit_mask_all date_matches_def)
  let ?cal = "\<lambda>t. moment_at spring_calendar t False"
  have cal: "?cal t = moment_utc spring_date (if t < 3600 then t else t + 3600)" for t
    by (simp add: moment_at_def spring_calendar_def)
  have bounds: "hour (?cal t) \<le> 23 \<and> minute (?cal t) \<le> 59" for t
    unfolding cal by (rule utc_bounds)
  have "next_after spring_calendar monday_0030 0 False = next_loop monday_0030 ?cal YEAR 86400"
  proof -
    have "?cal 60 = \<lparr>minute = 1, hour = 0, day = 1, month = 3, weekday = 0\<rparr>"
      by (simp add: cal moment_utc_def spring_date_def)
    moreover have "\<not> date_matches monday_0030 \<lparr>minute = 1, hour = 0, day = 1, month = 3, weekday = 0\<rparr>"
      by (simp add: date_matches_def monday_0030_def has_bit_one)
    ultimately have "next_loop monday_0030 ?cal YEAR 60 = next_loop monday_0030 ?cal YEAR 86400"
      by (subst next_loop.simps) (simp add: YEAR_def)
    then show ?thesis by (simp add: next_after_def)
  qed
  then have "84600 < u" if "next_after spring_calendar monday_0030 0 False = Some (Some u)" for u
    using next_loop_forward[of monday_0030 ?cal YEAR 86400 "Some u", OF _ bounds] that by simp
  then show "\<not> (\<exists>u \<le> 84600. next_after spring_calendar monday_0030 0 False = Some (Some u))"
    by (meson not_le)
qed

text \<open>
  C35. A cron text parses, and the schedule it parses to fires at exactly the moments its
  items stand for: stars, values, ranges, lists and steps in each field, Sunday as 0 or
  7, and either of day and weekday enough when both are restricted.
\<close>

theorem cron_means_what_it_says:
  assumes "cron_ok c"
  shows "\<exists>s. parse_schedule (show_cron c) = Inr s
    \<and> (\<forall>m. weekday m \<le> 6 \<longrightarrow> matches s m = cron_fires c m)"
proof -
  from assms obtain mi h d mo wd where
    f: "parse_field (show_field (minutes c)) 0 59 = Inr mi" "\<And>v. has_bit mi v \<longleftrightarrow> field_has 0 59 (minutes c) v"
      "parse_field (show_field (hours c)) 0 23 = Inr h" "\<And>v. has_bit h v \<longleftrightarrow> field_has 0 23 (hours c) v"
      "parse_field (show_field (days c)) 1 31 = Inr d" "\<And>v. has_bit d v \<longleftrightarrow> field_has 1 31 (days c) v"
      "parse_field (show_field (months c)) 1 12 = Inr mo" "\<And>v. has_bit mo v \<longleftrightarrow> field_has 1 12 (months c) v"
      "parse_field (show_field (weekdays c)) 0 7 = Inr wd" "\<And>v. has_bit wd v \<longleftrightarrow> field_has 0 7 (weekdays c) v"
    using parse_field_show[of 0 59 "minutes c"] parse_field_show[of 0 23 "hours c"]
      parse_field_show[of 1 31 "days c"] parse_field_show[of 1 12 "months c"] parse_field_show[of 0 7 "weekdays c"]
    by (auto simp: cron_ok_def)
  let ?s = "\<lparr>s_minute = mi, s_hour = h, s_day = d, s_month = mo, s_weekday = fold_sunday wd,
    day_restricted = show_field (days c) \<noteq> ''*'', weekday_restricted = show_field (weekdays c) \<noteq> ''*''\<rparr>"
  have "split_once (CHR ''@'') (show_cron c) = None" using cron_text(4)[OF assms] by simp
  with cron_text(1,2,3,5)[OF assms] have "parse_schedule (show_cron c) = parse_cron (show_cron c) (show_cron c)"
    by (simp add: parse_schedule_def Let_def del: split_once_none)
  then have parse: "parse_schedule (show_cron c) = Inr ?s"
    unfolding parse_cron_def cron_text(6)[OF assms] by (simp add: f(1,3,5,7,9)[simplified])
  have "matches ?s m = cron_fires c m" if "weekday m \<le> 6" for m
    using that by (simp add: matches_def date_matches_def cron_fires_def f(2,4,6,8,10) has_bit_fold_sunday Let_def) blast
  with parse show ?thesis by blast
qed

definition workdays :: cron where
  "workdays = \<lparr>minutes = [EveryStep 15], hours = [Span 9 18], days = [Every], months = [Every], weekdays = [Span 1 5]\<rparr>"

theorem cron_means_what_it_says_witness:
  "\<exists>s. parse_schedule (show_cron workdays) = Inr s
    \<and> matches s \<lparr>minute = 45, hour = 18, day = 10, month = 6, weekday = 5\<rparr>
    \<and> \<not> matches s \<lparr>minute = 10, hour = 9, day = 10, month = 6, weekday = 1\<rparr>"
proof -
  have "cron_ok workdays" by (simp add: cron_ok_def workdays_def field_ok_def)
  from cron_means_what_it_says[OF this] obtain s where s: "parse_schedule (show_cron workdays) = Inr s"
    "\<forall>m. weekday m \<le> 6 \<longrightarrow> matches s m = cron_fires workdays m" by blast
  have "cron_fires workdays \<lparr>minute = 45, hour = 18, day = 10, month = 6, weekday = 5\<rparr>"
    "\<not> cron_fires workdays \<lparr>minute = 10, hour = 9, day = 10, month = 6, weekday = 1\<rparr>"
    by (simp_all add: cron_fires_def workdays_def field_has_def show_field_def)
  with s show ?thesis by simp
qed

text \<open>
  C34. In UTC the search for the next run always ends, and gives the first of the minutes
  of the following year at which the schedule fires, the one that trying them one by one
  finds, or nothing if there is none.
\<close>

theorem next_after_is_first_match:
  "next_after C s epoch True = Some (first_match C s epoch True)"
  by (rule next_after_utc)

end
