(* ===== verification/Jobs.thy ===== *)
theory Jobs
  imports Schedule Backup
begin

text \<open>
  \<open>scheduler/jobs.rs\<close>: scheduled jobs, their validation, and the store of jobs and run
  histories. The store is two JSON documents that are rewritten whole under an exclusive
  lock, which makes each method atomic towards the others; every lock, read, write and
  rename takes an outcome, so a method may fail or be killed between any two of them.
  The clock and the random bytes of \<open>new_id\<close> are fields of the world.
\<close>

definition MAX_RUNS_PER_JOB :: nat where "MAX_RUNS_PER_JOB = 50"
definition MAX_OUTPUT :: nat where "MAX_OUTPUT = 64 * 1024"
definition DEFAULT_TIMEOUT_SECS :: nat where "DEFAULT_TIMEOUT_SECS = 600"
definition MAX_TIMEOUT_SECS :: nat where "MAX_TIMEOUT_SECS = 3600"

section \<open>Jobs and runs\<close>

datatype job_action =
    NodeReboot
  | AppStart string
  | AppStop string
  | AppRestart string
  | AppUpdate string
  | BackupApp string "string list" "nat option" "string list" "string list"
  | Shell string "string option" "nat option"
  | Http string string "(string \<times> string) list" string "nat option"

record job =
  jid :: string
  jtrigger :: string
  jutc :: bool
  jenabled :: bool
  jcomment :: string
  jmanager :: "string option"
  jaction :: job_action
  created_at :: int
  updated_at :: int

fun action_label :: "job_action \<Rightarrow> string" where
  "action_label NodeReboot = ''node_reboot''"
| "action_label (AppStart a) = ''app_start''"
| "action_label (AppStop a) = ''app_stop''"
| "action_label (AppRestart a) = ''app_restart''"
| "action_label (AppUpdate a) = ''app_update''"
| "action_label (BackupApp a ss k i e) = ''backup''"
| "action_label (Shell c a t) = ''shell''"
| "action_label (Http m u hs b t) = ''http''"

fun action_app :: "job_action \<Rightarrow> string option" where
  "action_app (AppStart a) = Some a"
| "action_app (AppStop a) = Some a"
| "action_app (AppRestart a) = Some a"
| "action_app (AppUpdate a) = Some a"
| "action_app (BackupApp a ss k i e) = Some a"
| "action_app (Shell c a t) = a"
| "action_app NodeReboot = None"
| "action_app (Http m u hs b t) = None"

datatype run_status = Running | Succeeded | Failed
datatype run_trigger = OnSchedule | Manual

record run_record =
  run_id :: string
  run_why :: run_trigger
  run_state :: run_status
  started_at :: int
  finished_at :: "int option"
  run_error :: string
  run_output :: string
  http_status :: "nat option"

record job_outcome =
  out_ok :: bool
  out_error :: string
  out_text :: string
  out_http :: "nat option"

definition outcome_failed :: "string \<Rightarrow> job_outcome" where
  "outcome_failed e = \<lparr>out_ok = False, out_error = e, out_text = [], out_http = None\<rparr>"

definition ok_output :: "string \<Rightarrow> job_outcome" where
  "ok_output t = \<lparr>out_ok = True, out_error = [], out_text = t, out_http = None\<rparr>"

section \<open>Validation\<close>

datatype job_error =
    BadJobId string | BadTrigger schedule_error | AppRequired string string | JobTimeout string
  | EmptyCommand string | BadMethod string string | BadUrl string | ZeroKeep string
  | BadFilter string backup_error | NoManager | StoreLock | StoreRead string | StoreInvalid string
  | StoreWrite string | ManagedElsewhere string string | IdInUse string | DuplicateId string
  | JobNotFound string | RunNotFound string string

definition job_id_char :: "char \<Rightarrow> bool" where
  "job_id_char b = (is_alnum b \<or> b \<in> set ''._-'')"

definition check_job_timeout :: "string \<Rightarrow> nat option \<Rightarrow> job_error + unit" where
  "check_job_timeout i t = (case t of None \<Rightarrow> Inr ()
     | Some t \<Rightarrow> guard (\<not> (t = 0 \<or> MAX_TIMEOUT_SECS < t)) (JobTimeout i))"

definition HTTP_METHODS :: "string list" where
  "HTTP_METHODS = [''GET'', ''POST'', ''PUT'', ''PATCH'', ''DELETE'', ''HEAD'']"

fun validate_action :: "string \<Rightarrow> job_action \<Rightarrow> job_error + unit" where
  "validate_action i (Shell command a t) =
     (if trim command = [] then Inl (EmptyCommand i) else check_job_timeout i t)"
| "validate_action i (Http meth url hs b t) =
     (if \<not> list_ex (eq_nocase meth) HTTP_METHODS then Inl (BadMethod i meth)
      else if \<not> (starts_with ''http://'' url \<or> starts_with ''https://'' url) then Inl (BadUrl i)
      else check_job_timeout i t)"
| "validate_action i (BackupApp a ss keep inc exc) =
     (if keep = Some 0 then Inl (ZeroKeep i)
      else map_err (BadFilter i) (map_ok (\<lambda>_. ()) (new_filter inc exc)))"
| "validate_action i _ = Inr ()"

definition validate_job :: "job \<Rightarrow> job_error + unit" where
  "validate_job j =
     and_then (guard (jid j \<noteq> [] \<and> length (as_bytes (jid j)) \<le> 64
         \<and> list_all job_id_char (as_bytes (jid j))) (BadJobId (jid j))) (\<lambda>_.
     and_then (map_err BadTrigger (parse_schedule (jtrigger j))) (\<lambda>_.
     and_then (guard (case action_app (jaction j) of Some a \<Rightarrow> trim a \<noteq> [] | None \<Rightarrow> True)
         (AppRequired (jid j) (action_label (jaction j)))) (\<lambda>_.
     validate_action (jid j) (jaction j))))"

definition next_run :: "calendar \<Rightarrow> job \<Rightarrow> int \<Rightarrow> int option option" where
  "next_run C j now =
     (if \<not> jenabled j then Some None
      else case parse_schedule (jtrigger j) of Inl e \<Rightarrow> Some None
        | Inr s \<Rightarrow> next_after C s now (jutc j))"

section \<open>Cutting a text at a byte limit\<close>

definition is_char_boundary :: "string \<Rightarrow> nat \<Rightarrow> bool" where
  "is_char_boundary s n = list_ex (\<lambda>k. byte_len (take k s) = n) [0..<Suc (length s)]"

fun boundary_from :: "string \<Rightarrow> nat \<Rightarrow> nat" where
  "boundary_from s 0 = 0"
| "boundary_from s (Suc n) = (if is_char_boundary s (Suc n) then Suc n else boundary_from s n)"

text \<open>\<open>&s[..end]\<close> of a boundary.\<close>

fun take_bytes :: "nat \<Rightarrow> string \<Rightarrow> string" where
  "take_bytes n [] = []"
| "take_bytes n (c # s) = (if n < byte_len [c] then [] else c # take_bytes (n - byte_len [c]) s)"

definition truncate_text :: "string \<Rightarrow> nat \<Rightarrow> string" where
  "truncate_text s m = (if byte_len s \<le> m then s else take_bytes (boundary_from s m) s)"

section \<open>The store\<close>

record job_world =
  jobs_doc :: "job list doc"
  runs_doc :: "(string \<Rightarrow> run_record list option) doc"
  jclock :: int
  entropy :: "nat \<Rightarrow> 8 word list"
  ids_made :: nat
  jouts :: "outcome list"

type_synonym ('z, 'a) job_io = "('z job_world_scheme, job_error, 'a) io"

definition jstep :: "job_error \<Rightarrow> ('z job_world_scheme \<Rightarrow> 'z job_world_scheme) \<Rightarrow> ('z, unit) job_io" where
  "jstep = step_io jouts (\<lambda>os w. w\<lparr>jouts := os\<rparr>)"

definition lock_store :: "('z, unit) job_io" where
  "lock_store = jstep StoreLock (\<lambda>w. w)"

definition JOBS_FILE :: string where "JOBS_FILE = ''schedules.json''"
definition RUNS_FILE :: string where "RUNS_FILE = ''schedule-runs.json''"

definition read_doc :: "string \<Rightarrow> 'a \<Rightarrow> ('z job_world_scheme \<Rightarrow> 'a doc) \<Rightarrow> ('z, 'a) job_io" where
  "read_doc name dflt g =
     seq (jstep (StoreRead name) (\<lambda>w. w))
     (bind (asks g) (\<lambda>d. case d of Absent \<Rightarrow> ret dflt | Doc x \<Rightarrow> ret x | Corrupt \<Rightarrow> throw (StoreInvalid name)))"

text \<open>The temporary file is written first; only the rename shows.\<close>

definition write_doc ::
  "string \<Rightarrow> ('z job_world_scheme \<Rightarrow> 'z job_world_scheme) \<Rightarrow> ('z, unit) job_io" where
  "write_doc name put = seq (jstep (StoreWrite name) (\<lambda>w. w)) (jstep (StoreWrite name) put)"

definition load_jobs :: "('z, job list) job_io" where
  "load_jobs = read_doc JOBS_FILE [] jobs_doc"

definition save_jobs :: "job list \<Rightarrow> ('z, unit) job_io" where
  "save_jobs js = write_doc JOBS_FILE (\<lambda>w. w\<lparr>jobs_doc := Doc js\<rparr>)"

definition load_runs :: "('z, string \<Rightarrow> run_record list option) job_io" where
  "load_runs = read_doc RUNS_FILE (\<lambda>_. None) runs_doc"

definition save_runs :: "(string \<Rightarrow> run_record list option) \<Rightarrow> ('z, unit) job_io" where
  "save_runs rs = write_doc RUNS_FILE (\<lambda>w. w\<lparr>runs_doc := Doc rs\<rparr>)"

definition list_jobs :: "('z, job list) job_io" where
  "list_jobs = seq lock_store load_jobs"

definition get_job :: "string \<Rightarrow> ('z, job option) job_io" where
  "get_job i = bind list_jobs (\<lambda>js. ret (lookup_key jid js i))"

definition upsert_job :: "job \<Rightarrow> ('z, job) job_io" where
  "upsert_job j0 =
     seq (lift_result (validate_job j0))
     (seq lock_store
     (bind load_jobs (\<lambda>jobs.
      bind (asks jclock) (\<lambda>now.
      let j = j0\<lparr>updated_at := now\<rparr> in
      case lookup_key jid jobs (jid j) of
        Some old \<Rightarrow>
          if jmanager old \<noteq> jmanager j
          then throw (ManagedElsewhere (jid j) (case jmanager old of Some m \<Rightarrow> m | None \<Rightarrow> ''the operator''))
          else let j = j\<lparr>created_at := created_at old\<rparr> in seq (save_jobs (upsert jid jobs j)) (ret j)
      | None \<Rightarrow> let j = j\<lparr>created_at := now\<rparr> in seq (save_jobs (jobs @ [j])) (ret j)))))"

definition remove_job :: "string \<Rightarrow> ('z, bool) job_io" where
  "remove_job i =
     seq lock_store
     (bind load_jobs (\<lambda>jobs.
      let rest = remove_key jid jobs i in
      if length rest = length jobs then ret False
      else seq (save_jobs rest)
        (bind load_runs (\<lambda>runs.
         seq (do_if (runs i \<noteq> None) (save_runs (runs(i := None)))) (ret True)))))"

definition set_enabled :: "string \<Rightarrow> bool \<Rightarrow> ('z, job) job_io" where
  "set_enabled i on =
     seq lock_store
     (bind load_jobs (\<lambda>jobs.
      bind (lift_result (ok_or (JobNotFound i) (lookup_key jid jobs i))) (\<lambda>j.
      bind (asks jclock) (\<lambda>now.
      let j = j\<lparr>jenabled := on, updated_at := now\<rparr>
      in seq (save_jobs (upsert jid jobs j)) (ret j)))))"

text \<open>\<open>replace_managed\<close>: one turn of the loop over the incoming jobs.\<close>

definition stamp_incoming :: "job list \<Rightarrow> job list \<Rightarrow> int \<Rightarrow> job \<Rightarrow> job_error + job" where
  "stamp_incoming managed kept now j =
     (if has_key jid kept (jid j) then Inl (IdInUse (jid j))
      else Inr (case lookup_key jid managed (jid j) of
          Some prev \<Rightarrow> let j = j\<lparr>created_at := created_at prev\<rparr>
            in j\<lparr>updated_at := (if prev = j then updated_at prev else now)\<rparr>
        | None \<Rightarrow> j\<lparr>created_at := now, updated_at := now\<rparr>))"

fun first_dup :: "string set \<Rightarrow> job list \<Rightarrow> job option" where
  "first_dup seen [] = None"
| "first_dup seen (j # js) = (if jid j \<in> seen then Some j else first_dup (insert (jid j) seen) js)"

definition managed_by_is :: "string \<Rightarrow> job \<Rightarrow> bool" where
  "managed_by_is m j = (jmanager j = Some m)"

definition dropped_ids :: "job list \<Rightarrow> job list \<Rightarrow> string list" where
  "dropped_ids managed incoming = map jid (filter (\<lambda>m. \<not> has_key jid incoming (jid m)) managed)"

definition forget_runs ::
  "string list \<Rightarrow> (string \<Rightarrow> run_record list option) \<Rightarrow> (string \<Rightarrow> run_record list option)" where
  "forget_runs ids runs = foldl (\<lambda>rs i. rs(i := None)) runs ids"

definition replace_managed :: "string \<Rightarrow> job list \<Rightarrow> ('z, job list) job_io" where
  "replace_managed m incoming =
     seq (fail_if (trim m = []) NoManager)
     (bind (lift_result (traverse (\<lambda>j. let j = j\<lparr>jmanager := Some m\<rparr> in map_ok (\<lambda>_. j) (validate_job j)) incoming)) (\<lambda>inc.
      seq lock_store
      (bind load_jobs (\<lambda>jobs.
       bind (asks jclock) (\<lambda>now.
       let managed = filter (managed_by_is m) jobs; kept = filter (\<lambda>j. \<not> managed_by_is m j) jobs in
       bind (lift_result (traverse (stamp_incoming managed kept now) inc)) (\<lambda>inc.
       seq (case first_dup {} inc of Some d \<Rightarrow> throw (DuplicateId (jid d)) | None \<Rightarrow> ret ())
       (seq (save_jobs (kept @ inc))
       (seq (do_if (dropped_ids managed inc \<noteq> [])
          (bind load_runs (\<lambda>runs. save_runs (forget_runs (dropped_ids managed inc) runs))))
       (ret inc)))))))))"

section \<open>Run histories\<close>

definition runs_of :: "string \<Rightarrow> nat \<Rightarrow> ('z, run_record list) job_io" where
  "runs_of i limit = seq lock_store (bind load_runs (\<lambda>runs.
     ret (take (max 1 (min limit MAX_RUNS_PER_JOB)) (rev (case runs i of Some l \<Rightarrow> l | None \<Rightarrow> [])))))"

definition last_runs :: "('z, string \<Rightarrow> run_record option) job_io" where
  "last_runs = seq lock_store (bind load_runs (\<lambda>runs.
     ret (\<lambda>i. case runs i of None \<Rightarrow> None | Some l \<Rightarrow> if l = [] then None else Some (last l))))"

definition new_run_id :: "('z, string) job_io" where
  "new_run_id = (\<lambda>w. (Inr (concat (map hex2 (take 8 (entropy w (ids_made w))))), w\<lparr>ids_made := Suc (ids_made w)\<rparr>))"

definition push_run :: "run_record list \<Rightarrow> run_record \<Rightarrow> run_record list" where
  "push_run l r = (let l = l @ [r] in
     if MAX_RUNS_PER_JOB < length l then drop (length l - MAX_RUNS_PER_JOB) l else l)"

definition begin_run :: "string \<Rightarrow> run_trigger \<Rightarrow> ('z, run_record) job_io" where
  "begin_run i why =
     bind new_run_id (\<lambda>rid. bind (asks jclock) (\<lambda>now.
     let r = \<lparr>run_id = rid, run_why = why, run_state = Running, started_at = now, finished_at = None,
              run_error = [], run_output = [], http_status = None\<rparr> in
     seq lock_store (bind load_runs (\<lambda>runs.
     seq (save_runs (runs(i \<mapsto> push_run (case runs i of Some l \<Rightarrow> l | None \<Rightarrow> []) r))) (ret r)))))"

definition close_run :: "int \<Rightarrow> job_outcome \<Rightarrow> run_record \<Rightarrow> run_record" where
  "close_run now out r = r\<lparr>run_state := (if out_ok out then Succeeded else Failed), finished_at := Some now,
     run_error := truncate_text (out_error out) MAX_OUTPUT, run_output := truncate_text (out_text out) MAX_OUTPUT,
     http_status := out_http out\<rparr>"

definition finish_run :: "string \<Rightarrow> string \<Rightarrow> job_outcome \<Rightarrow> ('z, run_record) job_io" where
  "finish_run i rid out =
     seq lock_store (bind load_runs (\<lambda>runs.
     let l = (case runs i of Some l \<Rightarrow> l | None \<Rightarrow> []) in
     bind (lift_result (ok_or (RunNotFound rid i) (lookup_key run_id l rid))) (\<lambda>r.
     bind (asks jclock) (\<lambda>now.
     let r = close_run now out r in
     seq (save_runs (runs(i \<mapsto> upsert run_id l r))) (ret r)))))"

end
