(* ===== verification/JobRuns.thy ===== *)
theory JobRuns
  imports Jobs
begin

text \<open>
  Running the jobs: \<open>spawn_job\<close> with the set of running jobs, the pass over the due jobs of
  a minute and the minute loop of \<open>scheduler/mod.rs\<close>; and the machine of all store and
  scheduler operations with failures, crashes and restarts. What a job's action does
  (\<open>execute\<close>) is the outcome that the operation \<open>Finish\<close> carries: any outcome, at any time.
\<close>

section \<open>Spawning\<close>

record sched_world = job_world +
  running :: "string list"
  tasks :: "(job \<times> string) list"
  cli_tasks :: "(job \<times> string) list"

type_synonym 'a sched_io = "(sched_world, job_error, 'a) io"

definition spawn_job :: "job \<Rightarrow> run_trigger \<Rightarrow> run_record option sched_io" where
  "spawn_job j why = bind (asks running) (\<lambda>rs.
     if jid j \<in> set rs then ret None
     else seq (modify (\<lambda>w. w\<lparr>running := jid j # rs\<rparr>))
       (bind (catch (begin_run (jid j) why)) (\<lambda>r. case r of
          Inl e \<Rightarrow> seq (modify (\<lambda>w. w\<lparr>running := removeAll (jid j) (running w)\<rparr>)) (throw e)
        | Inr run \<Rightarrow> seq (modify (\<lambda>w. w\<lparr>tasks := tasks w @ [(j, run_id run)]\<rparr>)) (ret (Some run)))))"

text \<open>The end of the blocking task of a job: its outcome is recorded, and the job may run again.\<close>

definition end_task :: "job \<times> string \<Rightarrow> job_outcome \<Rightarrow> unit sched_io" where
  "end_task t out = (case t of (j, rid) \<Rightarrow>
     seq (ignore (finish_run (jid j) rid out))
       (modify (\<lambda>w. w\<lparr>running := removeAll (jid j) (running w), tasks := remove1 t (tasks w)\<rparr>)))"

text \<open>
  \<open>asc schedule run\<close> (\<open>cli/main.rs\<close>) executes a job in its own process: it opens and closes the run in the
  store, and does not look at the daemon's set of running jobs.
\<close>

definition cli_run :: "string \<Rightarrow> unit sched_io" where
  "cli_run i = bind (get_job i) (\<lambda>found. bind (lift_result (ok_or (JobNotFound i) found)) (\<lambda>j.
     bind (begin_run (jid j) Manual) (\<lambda>run. modify (\<lambda>w. w\<lparr>cli_tasks := cli_tasks w @ [(j, run_id run)]\<rparr>))))"

definition cli_done :: "job \<times> string \<Rightarrow> job_outcome \<Rightarrow> unit sched_io" where
  "cli_done t out = (case t of (j, rid) \<Rightarrow>
     seq (modify (\<lambda>w. w\<lparr>cli_tasks := remove1 t (cli_tasks w)\<rparr>)) (bind (finish_run (jid j) rid out) (\<lambda>_. ret ())))"

definition due :: "calendar \<Rightarrow> int \<Rightarrow> job \<Rightarrow> bool" where
  "due C now j = (jenabled j \<and> (case parse_schedule (jtrigger j) of
     Inl e \<Rightarrow> False | Inr s \<Rightarrow> matches s (moment_at C now (jutc j))))"

fun spawn_each :: "job list \<Rightarrow> unit sched_io" where
  "spawn_each [] = ret ()"
| "spawn_each (j # js) = seq (ignore (spawn_job j OnSchedule)) (spawn_each js)"

definition run_due_jobs :: "calendar \<Rightarrow> int \<Rightarrow> unit sched_io" where
  "run_due_jobs C now = bind (catch list_jobs) (\<lambda>r. case r of
     Inl e \<Rightarrow> ret () | Inr js \<Rightarrow> spawn_each (filter (due C now) js))"

section \<open>The minute loop\<close>

text \<open>
  \<open>run\<close>: sleep to the next minute, then the backup policies of the minute, which are
  awaited, then its jobs. A turn is given by how far the clock is off when the sleep ends
  (negative when it was set back) and how long the backups take; the result lists, for
  each turn that did work, the minute and the time its jobs start at.
\<close>

definition sleep_secs :: "int \<Rightarrow> int" where
  "sleep_secs now = 60 - now mod 60"

fun minute_loop :: "int option \<Rightarrow> int \<Rightarrow> (int \<times> int) list \<Rightarrow> (int \<times> int) list" where
  "minute_loop prev t [] = []"
| "minute_loop prev t ((off, secs) # turns) =
     (let wake = t + sleep_secs t + off; stamp = wake div 60 in
      if prev = Some stamp then minute_loop prev wake turns
      else (stamp * 60, wake + secs) # minute_loop (Some stamp) (wake + secs) turns)"

section \<open>The machine\<close>

datatype job_op =
    Upsert job
  | Remove string
  | SetEnabled string bool
  | ReplaceManaged string "job list"
  | Start job run_trigger
  | Pass calendar int
  | Finish "job \<times> string" job_outcome
  | CliRun string
  | CliDone "job \<times> string" job_outcome
  | CliKilled "job \<times> string"
  | JobClock int
  | JobFaults "outcome list"
  | JobRestart "outcome list"

text \<open>
  \<open>Start\<close> is a manual run, or one job of a pass when the ends of other jobs fall into the
  pass. A restart is a new process: its set of running jobs is empty and the tasks are gone;
  the processes of the command line live on. Outcomes are those of the process that acts next.
\<close>

fun exec_job :: "sched_world \<Rightarrow> job_op \<Rightarrow> sched_world" where
  "exec_job w (Upsert j) = snd (upsert_job j w)"
| "exec_job w (Remove i) = snd (remove_job i w)"
| "exec_job w (SetEnabled i on) = snd (set_enabled i on w)"
| "exec_job w (ReplaceManaged m js) = snd (replace_managed m js w)"
| "exec_job w (Start j why) = snd (spawn_job j why w)"
| "exec_job w (Pass C now) = snd (run_due_jobs C now w)"
| "exec_job w (Finish t out) = (if t \<in> set (tasks w) then snd (end_task t out w) else w)"
| "exec_job w (CliRun i) = snd (cli_run i w)"
| "exec_job w (CliDone t out) = (if t \<in> set (cli_tasks w) then snd (cli_done t out w) else w)"
| "exec_job w (CliKilled t) = w\<lparr>cli_tasks := remove1 t (cli_tasks w)\<rparr>"
| "exec_job w (JobClock t) = w\<lparr>jclock := t\<rparr>"
| "exec_job w (JobFaults os) = w\<lparr>jouts := os\<rparr>"
| "exec_job w (JobRestart os) = w\<lparr>jouts := os, running := [], tasks := []\<rparr>"

definition new_world :: "(nat \<Rightarrow> 8 word list) \<Rightarrow> int \<Rightarrow> sched_world" where
  "new_world rnd t = \<lparr>jobs_doc = Absent, runs_doc = Absent, jclock = t, entropy = rnd, ids_made = 0,
     jouts = [], running = [], tasks = [], cli_tasks = []\<rparr>"

section \<open>The store stays well formed\<close>

definition wf_jobs :: "job list \<Rightarrow> bool" where
  "wf_jobs js = (distinct_keys jid js \<and> list_all (\<lambda>j. validate_job j = Inr ()) js)"

definition wf_run :: "run_record \<Rightarrow> bool" where
  "wf_run r = (byte_len (run_error r) \<le> MAX_OUTPUT \<and> byte_len (run_output r) \<le> MAX_OUTPUT)"

definition wf_runs :: "(string \<Rightarrow> run_record list option) \<Rightarrow> bool" where
  "wf_runs rs = (\<forall>i l. rs i = Some l \<longrightarrow> length l \<le> MAX_RUNS_PER_JOB \<and> list_all wf_run l)"

definition wf_store :: "'z job_world_scheme \<Rightarrow> bool" where
  "wf_store w = ((case jobs_doc w of Doc js \<Rightarrow> wf_jobs js | _ \<Rightarrow> True)
     \<and> (case runs_doc w of Doc rs \<Rightarrow> wf_runs rs | _ \<Rightarrow> True))"

lemma wf_store_simps [simp]:
  "wf_store (w\<lparr>jouts := os\<rparr>) = wf_store w" "wf_store (w\<lparr>ids_made := n\<rparr>) = wf_store w"
  "wf_store (w\<lparr>jclock := t\<rparr>) = wf_store w"
  "wf_store (s\<lparr>running := r\<rparr>) = wf_store s" "wf_store (s\<lparr>tasks := ts\<rparr>) = wf_store s"
  "wf_store (s\<lparr>cli_tasks := ts\<rparr>) = wf_store s"
  by (simp_all add: wf_store_def)

text \<open>Validation looks at the identifier, the trigger and the action only.\<close>

lemma validate_job_meta [simp]:
  "validate_job (j\<lparr>updated_at := t\<rparr>) = validate_job j" "validate_job (j\<lparr>created_at := t\<rparr>) = validate_job j"
  "validate_job (j\<lparr>jenabled := b\<rparr>) = validate_job j" "validate_job (j\<lparr>jmanager := m\<rparr>) = validate_job j"
  by (simp_all add: validate_job_def)

lemma keeps_jstep:
  "(\<And>w. P w \<Longrightarrow> P (f w)) \<Longrightarrow> (\<And>w os. P (w\<lparr>jouts := os\<rparr>) = P w) \<Longrightarrow> keeps P (jstep e f) (\<lambda>_. True)"
  by (rule keepsI) (auto simp: jstep_def step_io_def split: prod.splits if_splits)

lemma keeps_write: 
  "(\<And>w. P w \<Longrightarrow> P (f w)) \<Longrightarrow> (\<And>w os. P (w\<lparr>jouts := os\<rparr>) = P w) \<Longrightarrow> keeps P (write_doc n f) (\<lambda>_. True)"
  unfolding write_doc_def by (rule keeps_seq, rule keeps_jstep; simp) (rule keeps_jstep)

lemma keeps_read:
  assumes "\<And>w x. P w \<Longrightarrow> g w = Doc x \<Longrightarrow> Q x" "Q d" "\<And>w os. P (w\<lparr>jouts := os\<rparr>) = P w"
  shows "keeps P (read_doc n d g) Q"
proof -
  have "keeps P (bind (asks g) (\<lambda>dc. case dc of Absent \<Rightarrow> ret d | Doc x \<Rightarrow> ret x | Corrupt \<Rightarrow> throw (StoreInvalid n))) Q"
    using assms(1,2) by (auto simp: keeps_def io_simps split: doc.splits sum.splits)
  then show ?thesis unfolding read_doc_def
    by (intro keeps_seq[OF keeps_jstep]) (simp_all add: assms(3))
qed

lemma wf_jobs_Nil: "wf_jobs []" and wf_runs_empty: "wf_runs (\<lambda>_. None)"
  by (simp_all add: wf_jobs_def distinct_keys_def wf_runs_def)

lemma keeps_store [keep_rules]:
  "keeps wf_store lock_store (\<lambda>_. True)"
  "keeps wf_store load_jobs wf_jobs"
  "keeps wf_store load_runs wf_runs"
  "wf_jobs js \<Longrightarrow> keeps wf_store (save_jobs js) (\<lambda>_. True)"
  "wf_runs rs \<Longrightarrow> keeps wf_store (save_runs rs) (\<lambda>_. True)"
  "keeps wf_store new_run_id (\<lambda>_. True)"
  "keeps wf_store (asks g) (\<lambda>_. True)"
proof -
  show "keeps wf_store lock_store (\<lambda>_. True)" unfolding lock_store_def by (rule keeps_jstep) simp_all
  show "keeps wf_store load_jobs wf_jobs" unfolding load_jobs_def
    by (rule keeps_read) (simp_all add: wf_jobs_Nil wf_store_def)
  show "keeps wf_store load_runs wf_runs" unfolding load_runs_def
    by (rule keeps_read) (simp_all add: wf_runs_empty wf_store_def)
  show "wf_jobs js \<Longrightarrow> keeps wf_store (save_jobs js) (\<lambda>_. True)" unfolding save_jobs_def
    by (rule keeps_write) (simp_all add: wf_store_def)
  show "wf_runs rs \<Longrightarrow> keeps wf_store (save_runs rs) (\<lambda>_. True)" unfolding save_runs_def
    by (rule keeps_write) (simp_all add: wf_store_def)
  show "keeps wf_store new_run_id (\<lambda>_. True)" by (simp add: keeps_def new_run_id_def)
  show "keeps wf_store (asks g) (\<lambda>_. True)" by (simp add: keeps_def asks_def)
qed

lemma wf_jobs_upsert: "wf_jobs js \<Longrightarrow> validate_job j = Inr () \<Longrightarrow> wf_jobs (upsert jid js j)"
  using set_upsert[of jid js j] by (auto simp: wf_jobs_def distinct_upsert list_all_iff)

lemma wf_jobs_remove: "wf_jobs js \<Longrightarrow> wf_jobs (remove_key jid js i)"
  using distinct_remove[of jid js i] by (auto simp: wf_jobs_def list_all_iff remove_key_def)

lemma wf_jobs_lookup: "wf_jobs js \<Longrightarrow> lookup_key jid js i = Some j \<Longrightarrow> validate_job j = Inr ()"
  by (auto simp: wf_jobs_def list_all_iff dest!: lookup_key_Some)

lemma wf_jobs_push:
  "wf_jobs js \<Longrightarrow> validate_job j = Inr () \<Longrightarrow> lookup_key jid js (jid j) = None \<Longrightarrow> wf_jobs (js @ [j])"
  by (auto simp: wf_jobs_def distinct_keys_def lookup_key_None)

lemma wf_runs_remove: "wf_runs rs \<Longrightarrow> wf_runs (rs(i := None))"
  by (auto simp: wf_runs_def)

lemma forget_runs_iff: "forget_runs ids rs i = (if i \<in> set ids then None else rs i)"
  unfolding forget_runs_def by (induction ids arbitrary: rs) auto

lemma wf_runs_forget: "wf_runs rs \<Longrightarrow> wf_runs (forget_runs ids rs)"
  by (auto simp: wf_runs_def forget_runs_iff)

lemmas keeps_seq_lock = keeps_seq[OF keeps_store(1)] and keeps_bind_jobs = keeps_bind[OF keeps_store(2)]
  and keeps_bind_runs = keeps_bind[OF keeps_store(3)] and keeps_bind_asks = keeps_bind[OF keeps_store(7)]
  and keeps_seq_lift = keeps_seq[OF keeps_pure(4)] and keeps_bind_lift = keeps_bind[OF keeps_pure(4)]
  and keeps_seq_jobs = keeps_seq[OF keeps_store(4)] and keeps_seq_runs = keeps_seq[OF keeps_store(5)]

lemmas keeps_steps = keeps_seq_lock keeps_bind_jobs keeps_bind_runs keeps_bind_asks keeps_seq_lift
  keeps_bind_lift keeps_seq_jobs keeps_seq_runs keeps_branch keeps_seq[OF keeps_do_if] keeps_seq[OF keeps_pure(3)]

lemma keeps_upsert: "keeps wf_store (upsert_job j) (\<lambda>_. True)"
  unfolding upsert_job_def Let_def
  by (intro keeps_steps) (simp_all add: keeps_pure wf_jobs_upsert wf_jobs_push)

lemma keeps_remove: "keeps wf_store (remove_job i) (\<lambda>_. True)"
  unfolding remove_job_def Let_def
  by (intro keeps_steps) (simp_all add: keeps_pure keeps_store wf_jobs_remove wf_runs_remove)

lemma keeps_set_enabled: "keeps wf_store (set_enabled i on) (\<lambda>_. True)"
  unfolding set_enabled_def Let_def
  by (intro keeps_steps) (auto simp: keeps_pure intro!: wf_jobs_upsert dest: wf_jobs_lookup)

section \<open>Cut texts\<close>

lemma is_char_boundary_iff: "is_char_boundary s n \<longleftrightarrow> (\<exists>k \<le> length s. byte_len (take k s) = n)"
  by (auto simp: is_char_boundary_def list_ex_iff less_Suc_eq_le simp del: upt_Suc)

lemma boundary_from_le: "boundary_from s n \<le> n"
  by (induction n) (simp_all add: le_SucI)

lemma boundary_from_boundary: "is_char_boundary s (boundary_from s n)"
proof (induction n)
  case 0
  have "byte_len (take 0 s) = 0" by simp
  then show ?case unfolding is_char_boundary_iff by fastforce
qed simp

lemma boundary_from_greatest: "is_char_boundary s b \<Longrightarrow> b \<le> n \<Longrightarrow> b \<le> boundary_from s n"
  by (induction n) (auto simp: le_Suc_eq)

lemma byte_len_Cons: "byte_len (c # s) = byte_len [c] + byte_len s"
  by (simp add: byte_len_def)

lemma take_bytes_take: "take_bytes (byte_len (take k s)) s = take k s"
proof (induction s arbitrary: k)
  case (Cons c s)
  have "0 < byte_len [c]" by simp
  with Cons show ?case
    by (cases k) (simp_all add: byte_len_Cons[of c "take _ s"] byte_len_def[of "[]"] del: byte_len_simps)
qed simp

lemma truncate_spec:
  obtains k where "k \<le> length s" "truncate_text s m = take k s" "byte_len (take k s) \<le> m"
    "k < length s \<Longrightarrow> m < byte_len (take (Suc k) s)"
proof (cases "byte_len s \<le> m")
  case True
  then show ?thesis by (intro that[of "length s"]) (simp_all add: truncate_text_def)
next
  case False
  obtain k where k: "k \<le> length s" "byte_len (take k s) = boundary_from s m"
    using boundary_from_boundary[of s m] by (auto simp: is_char_boundary_iff)
  have "m < byte_len (take (Suc k) s)" if "k < length s"
  proof (rule ccontr)
    assume "\<not> m < byte_len (take (Suc k) s)"
    then have "byte_len (take (Suc k) s) \<le> byte_len (take k s)"
      using that boundary_from_greatest[of s "byte_len (take (Suc k) s)" m] k(2)
      unfolding is_char_boundary_iff by (metis Suc_leI not_less)
    then show False using that by (simp add: take_Suc_conv_app_nth byte_len_def split: if_splits)
  qed
  moreover have "truncate_text s m = take k s" using False k(2) take_bytes_take[of k s] by (simp add: truncate_text_def)
  ultimately show ?thesis using k boundary_from_le[of s m] by (intro that[of k]) simp_all
qed

lemma truncate_len: "byte_len (truncate_text s m) \<le> m"
  by (rule truncate_spec[of s m]) simp

section \<open>Every operation keeps the store well formed\<close>

lemma first_dup_None: "first_dup seen js = None \<longleftrightarrow> distinct_keys jid js \<and> jid ` set js \<inter> seen = {}"
  by (induction js arbitrary: seen) (auto simp: distinct_keys_def)

lemma stamp_incoming_Inr:
  "stamp_incoming managed kept now j = Inr x \<Longrightarrow> jid x = jid j \<and> jmanager x = jmanager j
   \<and> jtrigger x = jtrigger j \<and> jaction x = jaction j \<and> jutc x = jutc j \<and> jenabled x = jenabled j
   \<and> jcomment x = jcomment j \<and> validate_job x = validate_job j \<and> \<not> has_key jid kept (jid x)"
proof -
  assume s: "stamp_incoming managed kept now j = Inr x"
  then have "\<exists>a b. x = j\<lparr>created_at := a, updated_at := b\<rparr>"
    by (cases "has_key jid kept (jid j)"; cases "lookup_key jid managed (jid j)")
      (simp add: stamp_incoming_def Let_def; blast)+
  moreover have "\<not> has_key jid kept (jid j)" using s by (auto simp: stamp_incoming_def)
  ultimately show ?thesis by auto
qed

lemma wf_jobs_replace:
  assumes js: "wf_jobs js"
    and v: "traverse (\<lambda>j. let j = j\<lparr>jmanager := Some m\<rparr> in map_ok (\<lambda>_. j) (validate_job j)) inc0 = Inr inc1"
    and s: "traverse (stamp_incoming managed (filter P js) now) inc1 = Inr inc"
    and d: "first_dup {} inc = None"
  shows "wf_jobs (filter P js @ inc)"
proof -
  have inc: "\<not> has_key jid (filter P js) (jid x) \<and> validate_job x = Inr ()" if x: "x \<in> set inc" for x
  proof -
    obtain y where y: "y \<in> set inc1" "stamp_incoming managed (filter P js) now y = Inr x"
      using traverse_set[OF s x] by blast
    obtain z where "z \<in> set inc0" "(let j = z\<lparr>jmanager := Some m\<rparr> in map_ok (\<lambda>_. j) (validate_job j)) = Inr y"
      using traverse_set[OF v y(1)] by blast
    then have "validate_job y = Inr ()" by (auto simp: Let_def)
    with stamp_incoming_Inr[OF y(2)] show ?thesis by metis
  qed
  have "distinct_keys jid (filter P js)" using js
    by (auto simp: wf_jobs_def distinct_keys_def distinct_map_filter)
  then have "distinct_keys jid (filter P js @ inc)"
    using d inc by (auto simp: first_dup_None distinct_keys_def has_key_def)
  then show ?thesis using js inc by (auto simp: wf_jobs_def list_all_iff)
qed

lemma keeps_first_dup:
  "keeps P (case first_dup {} inc of Some d \<Rightarrow> throw (f d) | None \<Rightarrow> ret ()) (\<lambda>_. first_dup {} inc = None)"
  by (cases "first_dup {} inc") (auto intro: keep_rules)

lemma keeps_replace: "keeps wf_store (replace_managed m js) (\<lambda>_. True)"
  unfolding replace_managed_def Let_def[of "filter _ _"]
  by (intro keeps_steps keeps_seq[OF keeps_first_dup])
    (auto intro!: wf_jobs_replace[unfolded Let_def] wf_runs_forget keeps_pure keeps_store simp: Let_def)

lemma wf_run_close: "wf_run (close_run now out r)"
  by (simp add: wf_run_def close_run_def truncate_len)

lemma push_run_len: "length l \<le> MAX_RUNS_PER_JOB \<Longrightarrow> length (push_run l r) \<le> MAX_RUNS_PER_JOB"
  and push_run_set: "set (push_run l r) \<subseteq> insert r (set l)"
  by (auto simp: push_run_def Let_def dest: in_set_dropD)

lemma wf_runs_push:
  assumes "wf_runs rs" "wf_run r"
  shows "wf_runs (rs(i \<mapsto> push_run (case rs i of Some l \<Rightarrow> l | None \<Rightarrow> []) r))"
proof -
  define l where "l = (case rs i of Some l \<Rightarrow> l | None \<Rightarrow> [])"
  have "length l \<le> MAX_RUNS_PER_JOB \<and> list_all wf_run l"
    using assms(1) by (auto simp: wf_runs_def l_def split: option.split)
  then have "length (push_run l r) \<le> MAX_RUNS_PER_JOB" "list_all wf_run (push_run l r)"
    using push_run_len push_run_set[of l r] assms(2) by (auto simp: list_all_iff)
  then show ?thesis using assms(1) by (auto simp: wf_runs_def l_def[symmetric])
qed

lemma keeps_begin: "keeps wf_store (begin_run i why) (\<lambda>_. True)"
  unfolding begin_run_def Let_def
  by (intro keeps_steps keeps_bind[OF keeps_store(6)])
    (auto intro!: wf_runs_push keeps_pure simp: wf_run_def)

lemma wf_runs_close:
  assumes "wf_runs rs" "lookup_key run_id (case rs i of Some l \<Rightarrow> l | None \<Rightarrow> []) rid = Some r"
  shows "wf_runs (rs(i \<mapsto> upsert run_id (case rs i of Some l \<Rightarrow> l | None \<Rightarrow> []) (close_run now out r)))"
proof -
  define l where "l = (case rs i of Some l \<Rightarrow> l | None \<Rightarrow> [])"
  have "length l \<le> MAX_RUNS_PER_JOB \<and> list_all wf_run l"
    using assms(1) by (auto simp: wf_runs_def l_def split: option.split)
  moreover have "has_key run_id l (run_id (close_run now out r))"
    using lookup_key_Some[OF assms(2)] by (auto simp: has_key_def l_def close_run_def)
  ultimately have "length (upsert run_id l (close_run now out r)) \<le> MAX_RUNS_PER_JOB"
    "list_all wf_run (upsert run_id l (close_run now out r))"
    using set_upsert[of run_id l "close_run now out r"] wf_run_close[of now out r]
    by (auto simp: length_upsert list_all_iff)
  then show ?thesis using assms(1) by (auto simp: wf_runs_def l_def[symmetric])
qed

lemma keeps_finish: "keeps wf_store (finish_run i rid out) (\<lambda>_. True)"
  unfolding finish_run_def Let_def
  by (intro keeps_steps) (auto intro!: wf_runs_close keeps_pure)

lemma keeps_modify: "(\<And>w. P w \<Longrightarrow> P (f w)) \<Longrightarrow> keeps P (modify f) (\<lambda>_. True)"
  by (simp add: keeps_def modify_def)

lemma keeps_spawn: "keeps wf_store (spawn_job j why) (\<lambda>_. True)"
  unfolding spawn_job_def
  by (intro keeps_steps keeps_bind[OF keeps_catch[OF keeps_begin]] keeps_seq[OF keeps_modify])
    (simp_all add: keeps_pure)

lemma keeps_spawn_each: "keeps wf_store (spawn_each js) (\<lambda>_. True)"
  by (induction js) (auto intro!: keeps_pure keeps_seq[OF keeps_ignore[OF keeps_spawn]])

lemma keeps_pass: "keeps wf_store (run_due_jobs C now) (\<lambda>_. True)"
  unfolding run_due_jobs_def list_jobs_def
  by (intro keeps_bind[OF keeps_catch[OF keeps_seq_lock[OF keeps_store(2)]]] keeps_branch)
    (simp_all add: keeps_pure keeps_spawn_each)

lemma keeps_end_task: "keeps wf_store (end_task t out) (\<lambda>_. True)"
  unfolding end_task_def
  by (cases t) (simp, intro keeps_seq[OF keeps_ignore[OF keeps_finish]] keeps_modify, simp)

lemma keeps_cli: "keeps wf_store (cli_run i) (\<lambda>_. True)" "keeps wf_store (cli_done t out) (\<lambda>_. True)"
proof -
  show "keeps wf_store (cli_run i) (\<lambda>_. True)"
    unfolding cli_run_def get_job_def list_jobs_def
    by (intro keeps_bind[OF keeps_begin] keeps_bind[OF keeps_bind[OF keeps_seq_lock[OF keeps_store(2)]]] keeps_bind_lift
        keeps_modify keeps_pure) simp_all
  show "keeps wf_store (cli_done t out) (\<lambda>_. True)"
    unfolding cli_done_def
    by (cases t) (simp, intro keeps_seq[OF keeps_modify] keeps_bind[OF keeps_finish] keeps_pure, simp_all)
qed

lemma exec_job_wf: "wf_store w \<Longrightarrow> wf_store (exec_job w e)"
proof (cases e)
  case (JobRestart os)
  assume "wf_store w"
  with JobRestart show ?thesis by (simp add: wf_store_def)
qed (simp_all add: keeps_world[OF keeps_upsert] keeps_world[OF keeps_remove] keeps_world[OF keeps_set_enabled]
    keeps_world[OF keeps_replace] keeps_world[OF keeps_spawn] keeps_world[OF keeps_pass]
    keeps_world[OF keeps_end_task] keeps_world[OF keeps_cli(1)] keeps_world[OF keeps_cli(2)])

interpretation job_store: invariant_steps exec_job wf_store
  by unfold_locales (rule exec_job_wf)

section \<open>At most one run of a job at a time\<close>

lemma frames_jstep [frame_rules]:
  "(\<And>w. g (f w) = g w) \<Longrightarrow> (\<And>w os. g (w\<lparr>jouts := os\<rparr>) = g w) \<Longrightarrow> frames g (jstep e f)"
  by (auto simp: frames_def jstep_def step_io_def Let_def split: prod.splits)

abbreviation tail_of :: "'z job_world_scheme \<Rightarrow> 'z" where
  "tail_of \<equiv> job_world.more"

lemma frames_doc: 
  "frames tail_of lock_store" "frames tail_of load_jobs" "frames tail_of load_runs"
  "frames tail_of (save_jobs js)" "frames tail_of (save_runs rs)" "frames tail_of new_run_id"
  unfolding lock_store_def load_jobs_def load_runs_def save_jobs_def save_runs_def read_doc_def write_doc_def
  by (auto intro!: frame_rules split: doc.split) (simp add: frames_def new_run_id_def)

lemma frames_store:
  "frames tail_of (upsert_job j)" "frames tail_of (remove_job i)" "frames tail_of (set_enabled i on)"
  "frames tail_of (replace_managed m js)" "frames tail_of (begin_run i why)"
  "frames tail_of (finish_run i r out)" "frames tail_of list_jobs"
  unfolding upsert_job_def remove_job_def set_enabled_def replace_managed_def begin_run_def finish_run_def
    list_jobs_def Let_def
  by (intro frame_rules frames_doc)+

lemma tail_of_same:
  "tail_of (w :: sched_world) = tail_of w1 \<Longrightarrow> running w = running w1 \<and> tasks w = tasks w1"
  by (cases w; cases w1) simp

lemma store_frames_tasks:
  "frames tail_of m \<Longrightarrow> running (snd (m w)) = running w \<and> tasks (snd (m w)) = tasks w" for w :: sched_world
  by (rule tail_of_same) (rule framesD)

definition one_task_each :: "sched_world \<Rightarrow> bool" where
  "one_task_each w = (distinct (map (jid \<circ> fst) (tasks w)) \<and> set (running w) = (jid \<circ> fst) ` set (tasks w))"

lemma one_task_same: "frames tail_of m \<Longrightarrow> one_task_each (snd (m w)) = one_task_each w" for w :: sched_world
  using store_frames_tasks[of m w] by (simp add: one_task_each_def)

lemma spawn_run: "spawn_job j why w = (if jid j \<in> set (running w) then (Inr None, w) else
   (case begin_run (jid j) why (w\<lparr>running := jid j # running w\<rparr>) of
      (Inl e, w1) \<Rightarrow> (Inl e, w1\<lparr>running := removeAll (jid j) (running w1)\<rparr>)
    | (Inr r, w1) \<Rightarrow> (Inr (Some r), w1\<lparr>tasks := tasks w1 @ [(j, run_id r)]\<rparr>)))"
  by (simp add: spawn_job_def io_defs modify_def split: prod.split sum.split)

lemma spawn_effect:
  "running (snd (spawn_job j why w)) = running w \<and> tasks (snd (spawn_job j why w)) = tasks w
   \<or> jid j \<notin> set (running w) \<and> running (snd (spawn_job j why w)) = jid j # running w
      \<and> (\<exists>r. tasks (snd (spawn_job j why w)) = tasks w @ [(j, r)])"
proof -
  obtain r w1 where b: "begin_run (jid j) why (w\<lparr>running := jid j # running w\<rparr>) = (r, w1)" by fastforce
  with store_frames_tasks[OF frames_store(5), of "jid j" why "w\<lparr>running := jid j # running w\<rparr>"]
  have "running w1 = jid j # running w" "tasks w1 = tasks w" by simp_all
  with b show ?thesis
    by (cases r; cases "jid j \<in> set (running w)") (auto simp: spawn_run removeAll_id)
qed

lemma spawn_one_task: "one_task_each w \<Longrightarrow> one_task_each (snd (spawn_job j why w))"
  using spawn_effect[of j why w] unfolding one_task_each_def
  by (elim disjE conjE exE) (simp_all add: insert_commute)

lemma spawn_each_one_task: "one_task_each w \<Longrightarrow> one_task_each (snd (spawn_each js w))"
proof (induction js arbitrary: w)
  case (Cons j js)
  have "spawn_each (j # js) w = spawn_each js (snd (spawn_job j OnSchedule w))" by (simp add: io_simps)
  with Cons show ?case using spawn_one_task by metis
qed (simp add: io_simps)

lemma pass_run: "run_due_jobs C now w = (case list_jobs w of
    (Inl e, w1) \<Rightarrow> (Inr (), w1) | (Inr js, w1) \<Rightarrow> spawn_each (filter (due C now) js) w1)"
  by (simp add: run_due_jobs_def io_defs split: prod.split sum.split)

lemma pass_one_task:
  assumes "one_task_each w" shows "one_task_each (snd (run_due_jobs C now w))"
proof -
  obtain r w1 where l: "list_jobs w = (r, w1)" by fastforce
  with one_task_same[OF frames_store(7), of w] assms have "one_task_each w1" by simp
  with l show ?thesis by (cases r) (simp_all add: pass_run spawn_each_one_task)
qed

lemma end_task_run: "end_task (j, rid) out w = (let w1 = snd (finish_run (jid j) rid out w) in
   (Inr (), w1\<lparr>running := removeAll (jid j) (running w1), tasks := remove1 (j, rid) (tasks w1)\<rparr>))"
  by (simp add: end_task_def io_defs modify_def Let_def)

lemma end_one_task:
  assumes "one_task_each w" "t \<in> set (tasks w)" shows "one_task_each (snd (end_task t out w))"
proof -
  obtain j rid where t: "t = (j, rid)" by (cases t)
  define w1 where "w1 = snd (finish_run (jid j) rid out w)"
  have same: "running w1 = running w" "tasks w1 = tasks w"
    using store_frames_tasks[OF frames_store(6), of "jid j" rid out w] by (simp_all add: w1_def)
  have d: "distinct (map (jid \<circ> fst) (tasks w))" using assms(1) by (simp add: one_task_each_def)
  then have "set (remove1 t (tasks w)) = set (tasks w) - {t}" by (simp add: distinct_map set_remove1_eq)
  moreover have "jid (fst u) \<noteq> jid j" if "u \<in> set (tasks w)" "u \<noteq> t" for u
    using d that assms(2) t by (fastforce simp: distinct_map inj_on_def)
  moreover have "distinct (map (jid \<circ> fst) (remove1 t (tasks w)))"
    using d by (simp add: distinct_map inj_on_def)
  ultimately show ?thesis using assms same t
    by (auto simp: one_task_each_def end_task_run Let_def w1_def[symmetric] image_iff)
qed

text \<open>The command line leaves the daemon's tasks alone.\<close>

definition daemon_part :: "sched_world \<Rightarrow> string list \<times> (job \<times> string) list" where
  "daemon_part w = (running w, tasks w)"

lemma frames_daemon: "frames tail_of m \<Longrightarrow> frames daemon_part m"
  using store_frames_tasks by (force simp: frames_def daemon_part_def)

lemma frames_cli: "frames daemon_part (cli_run i)" "frames daemon_part (cli_done t out)"
proof -
  have m: "(\<And>w. daemon_part (f w) = daemon_part w) \<Longrightarrow> frames daemon_part (modify f)" for f
    by (simp add: frames_def modify_def)
  have g: "frames tail_of (get_job i :: job option sched_io)"
    unfolding get_job_def by (intro frame_rules frames_store)
  show "frames daemon_part (cli_run i)"
    unfolding cli_run_def
    by (intro frames_bind frames_daemon[OF g] frames_daemon[OF frames_store(5)] frame_rules m) (simp add: daemon_part_def)
  show "frames daemon_part (cli_done t out)"
    unfolding cli_done_def
    by (cases t) (simp, intro frames_seq frames_bind frames_daemon[OF frames_store(6)] frame_rules m, simp add: daemon_part_def)
qed

lemma one_task_cli: "frames daemon_part m \<Longrightarrow> one_task_each (snd (m w)) = one_task_each w"
  using framesD[of daemon_part m w] by (simp add: one_task_each_def daemon_part_def)

lemma exec_one_task:
  assumes "one_task_each w" shows "one_task_each (exec_job w e)"
proof (cases e)
  case (JobClock n)
  with assms show ?thesis by (simp add: one_task_each_def)
next
  case (CliKilled t)
  with assms show ?thesis by (simp add: one_task_each_def)
next
  case (JobFaults os)
  with assms show ?thesis by (simp add: one_task_each_def)
next
  case (JobRestart os)
  with assms show ?thesis by (simp add: one_task_each_def)
qed (use assms in \<open>simp_all add: one_task_same[OF frames_store(1)] one_task_same[OF frames_store(2)]
    one_task_same[OF frames_store(3)] one_task_same[OF frames_store(4)] spawn_one_task pass_one_task
    end_one_task one_task_cli[OF frames_cli(1)] one_task_cli[OF frames_cli(2)]\<close>)

interpretation job_tasks: invariant_steps exec_job one_task_each
  by unfold_locales (rule exec_one_task)

end
