(* ===== verification/JobSpec.thy ===== *)
theory JobSpec
  imports JobRuns
begin

text \<open>
  What the job store promises, as a pair of maps: the job and the run history of each
  identifier. \<open>spec_call\<close> is the effect of a call that succeeds; the results here say that
  the two documents implement it, and what a call that fails may leave behind.
\<close>

section \<open>The abstract store\<close>

type_synonym job_spec = "(string \<Rightarrow> job option) \<times> (string \<Rightarrow> run_record list)"

definition abs_jobs :: "'z job_world_scheme \<Rightarrow> string \<Rightarrow> job option" where
  "abs_jobs w i = (case jobs_doc w of Doc js \<Rightarrow> lookup_key jid js i | _ \<Rightarrow> None)"

definition abs_runs :: "'z job_world_scheme \<Rightarrow> string \<Rightarrow> run_record list" where
  "abs_runs w i = (case runs_doc w of Doc rs \<Rightarrow> (case rs i of Some l \<Rightarrow> l | None \<Rightarrow> []) | _ \<Rightarrow> [])"

definition abs_store :: "'z job_world_scheme \<Rightarrow> job_spec" where
  "abs_store w = (abs_jobs w, abs_runs w)"

datatype store_call =
    CUpsert job
  | CRemove string
  | CEnable string bool
  | CReplace string "job list"
  | CBegin string run_trigger
  | CFinish string string job_outcome

definition void :: "('w, 'e, 'a) io \<Rightarrow> ('w, 'e, unit) io" where
  "void m = bind m (\<lambda>_. ret ())"

fun run_call :: "store_call \<Rightarrow> ('z, unit) job_io" where
  "run_call (CUpsert j) = void (upsert_job j)"
| "run_call (CRemove i) = void (remove_job i)"
| "run_call (CEnable i on) = void (set_enabled i on)"
| "run_call (CReplace m js) = void (replace_managed m js)"
| "run_call (CBegin i why) = void (begin_run i why)"
| "run_call (CFinish i rid out) = void (finish_run i rid out)"

definition spec_stamp :: "string \<Rightarrow> int \<Rightarrow> job option \<Rightarrow> job \<Rightarrow> job" where
  "spec_stamp m now old j = (case old of
     None \<Rightarrow> j\<lparr>jmanager := Some m, created_at := now, updated_at := now\<rparr>
   | Some p \<Rightarrow> let j = j\<lparr>jmanager := Some m, created_at := created_at p\<rparr>
       in j\<lparr>updated_at := (if p = j then updated_at p else now)\<rparr>)"

definition owned :: "string \<Rightarrow> job option \<Rightarrow> bool" where
  "owned m old = (case old of Some p \<Rightarrow> jmanager p = Some m | None \<Rightarrow> False)"

fun spec_call :: "int \<Rightarrow> string \<Rightarrow> store_call \<Rightarrow> job_spec \<Rightarrow> job_spec" where
  "spec_call now rid (CUpsert j) (J, R) =
     (J(jid j \<mapsto> j\<lparr>updated_at := now, created_at := (case J (jid j) of Some p \<Rightarrow> created_at p | None \<Rightarrow> now)\<rparr>), R)"
| "spec_call now rid (CRemove i) (J, R) = (if J i = None then (J, R) else (J(i := None), R(i := [])))"
| "spec_call now rid (CEnable i on) (J, R) =
     (J(i := map_option (\<lambda>j. j\<lparr>jenabled := on, updated_at := now\<rparr>) (J i)), R)"
| "spec_call now rid (CReplace m js) (J, R) =
     ((\<lambda>i. case lookup_key jid js i of
         Some j \<Rightarrow> Some (spec_stamp m now (J i) j)
       | None \<Rightarrow> if owned m (J i) then None else J i),
      (\<lambda>i. if owned m (J i) \<and> lookup_key jid js i = None then [] else R i))"
| "spec_call now rid (CBegin i why) (J, R) =
     (J, R(i := push_run (R i) \<lparr>run_id = rid, run_why = why, run_state = Running, started_at = now,
        finished_at = None, run_error = [], run_output = [], http_status = None\<rparr>))"
| "spec_call now rid (CFinish i r out) (J, R) =
     (J, R(i := (case lookup_key run_id (R i) r of None \<Rightarrow> R i
        | Some x \<Rightarrow> upsert run_id (R i) (close_run now out x))))"

definition fresh_run_id :: "'z job_world_scheme \<Rightarrow> string" where
  "fresh_run_id w = concat (map hex2 (take 8 (entropy w (ids_made w))))"

section \<open>Symbolic execution\<close>

lemma abs_simps [simp]:
  "abs_jobs (w\<lparr>jouts := os\<rparr>) = abs_jobs w" "abs_runs (w\<lparr>jouts := os\<rparr>) = abs_runs w"
  "abs_jobs (w\<lparr>runs_doc := d\<rparr>) = abs_jobs w" "abs_runs (w\<lparr>jobs_doc := d2\<rparr>) = abs_runs w"
  "abs_jobs (w\<lparr>ids_made := n\<rparr>) = abs_jobs w" "abs_runs (w\<lparr>ids_made := n\<rparr>) = abs_runs w"
  "abs_jobs (w\<lparr>jobs_doc := Doc js\<rparr>) = lookup_key jid js"
  "abs_runs (w\<lparr>runs_doc := Doc rs\<rparr>) = (\<lambda>i. case rs i of Some l \<Rightarrow> l | None \<Rightarrow> [])"
  by (auto simp: abs_jobs_def abs_runs_def fun_eq_iff)

text \<open>The abstract state and the clock of a well-formed store.\<close>

definition at_store :: "job_spec \<Rightarrow> int \<Rightarrow> 'z job_world_scheme \<Rightarrow> bool" where
  "at_store A n w = (abs_store w = A \<and> jclock w = n \<and> wf_store w)"

lemma run_eqs:
  "bind (lift_result (Inr x)) k = k x" "bind (lift_result (Inl e)) k = throw e"
  "seq (lift_result (Inr ())) m = m" "seq (lift_result (Inl e)) m = throw e"
  "seq (do_if True m1) m = seq m1 m" "seq (do_if False m1) m = m"
  "seq (fail_if True e) m = throw e" "seq (fail_if False e) m = m"
  by (rule ext, simp add: io_simps)+

lemma t_step:
  assumes "triple P1 k Q E" "\<And>w. P w \<Longrightarrow> E w" "\<And>w. P w \<Longrightarrow> P1 (f w)"
    and "\<And>w os. P1 (w\<lparr>jouts := os\<rparr>) = P1 w" "\<And>w os. E (w\<lparr>jouts := os\<rparr>) = E w"
  shows "triple P (seq (jstep e f) k) Q E"
proof (rule triple_seq[OF _ assms(1)])
  show "triple P (jstep e f) (\<lambda>_. P1) E"
    using assms(2-5) by (auto simp: triple_def jstep_def step_io_def Let_def split: prod.splits sum.splits)
qed

lemma at_store_simps [simp]: "at_store A n (w\<lparr>jouts := os\<rparr>) = at_store A n w"
  by (simp add: at_store_def abs_store_def)

lemma t_write:
  assumes "triple P1 k Q E" "\<And>w. P w \<Longrightarrow> E w" "\<And>w. P w \<Longrightarrow> P1 (f w)"
    and "\<And>w os. P1 (w\<lparr>jouts := os\<rparr>) = P1 w" "\<And>w os. P (w\<lparr>jouts := os\<rparr>) = P w"
    and "\<And>w os. E (w\<lparr>jouts := os\<rparr>) = E w"
  shows "triple P (seq (write_doc n f) k) Q E"
proof -
  have "seq (write_doc n f) k = seq (jstep (StoreWrite n) (\<lambda>w. w)) (seq (jstep (StoreWrite n) f) k)"
    by (rule ext) (simp add: write_doc_def io_simps)
  moreover have "triple P (seq (jstep (StoreWrite n) (\<lambda>w. w)) (seq (jstep (StoreWrite n) f) k)) Q E"
    by (intro t_step[of P] t_step[of P1] assms)
  ultimately show ?thesis by simp
qed

lemma t_read:
  assumes "\<And>x. c x \<Longrightarrow> triple P (k x) Q E" "\<And>w. P w \<Longrightarrow> E w"
    and "\<And>w x. P w \<Longrightarrow> g w = Doc x \<Longrightarrow> c x" "\<And>w. P w \<Longrightarrow> g w = Absent \<Longrightarrow> c d"
    and "\<And>w os. P (w\<lparr>jouts := os\<rparr>) = P w" "\<And>w os. E (w\<lparr>jouts := os\<rparr>) = E w"
  shows "triple P (bind (read_doc n d g) k) Q E"
proof -
  let ?f = "\<lambda>dc. case dc of Absent \<Rightarrow> ret d | Doc x \<Rightarrow> ret x | Corrupt \<Rightarrow> throw (StoreInvalid n)"
  have "bind (read_doc n d g) k = seq (jstep (StoreRead n) (\<lambda>w. w)) (bind (asks g) (\<lambda>dc. bind (?f dc) k))"
    by (rule ext) (simp add: read_doc_def io_simps bind_def seq_def asks_def split: prod.split sum.split)
  moreover have "triple P (bind (asks g) (\<lambda>dc. bind (?f dc) k)) Q E"
    unfolding triple_def
  proof (intro allI impI)
    fix w assume w: "P w"
    let ?m = "bind (asks g) (\<lambda>dc. bind (?f dc) k)"
    consider x where "c x" "?m w = k x w" | e where "?m w = (Inl e, w)"
      using assms(3,4)[OF w] by (cases "g w") (auto simp: io_simps)
    then show "case fst (?m w) of Inl _ \<Rightarrow> E (snd (?m w)) | Inr x \<Rightarrow> Q x (snd (?m w))"
    proof cases
      case 1
      from assms(1)[OF 1(1)] w show ?thesis unfolding 1(2) by (simp add: triple_def)
    next
      case 2
      with assms(2)[OF w] show ?thesis by simp
    qed
  qed
  ultimately show ?thesis by (simp add: t_step[of P] assms)
qed

lemma t_lock:
  "triple (at_store A n) k Q E \<Longrightarrow> (\<And>w. at_store A n w \<Longrightarrow> E w) \<Longrightarrow> (\<And>w os. E (w\<lparr>jouts := os\<rparr>) = E w) \<Longrightarrow>
   triple (at_store A n) (seq lock_store k) Q E"
  unfolding lock_store_def by (rule t_step[of "at_store A n"]) auto

lemma t_load_jobs:
  assumes "\<And>js. lookup_key jid js = fst A \<Longrightarrow> wf_jobs js \<Longrightarrow> triple (at_store A n) (k js) Q E"
    and "\<And>w. at_store A n w \<Longrightarrow> E w" "\<And>w os. E (w\<lparr>jouts := os\<rparr>) = E w"
  shows "triple (at_store A n) (bind load_jobs k) Q E"
  unfolding load_jobs_def
  by (rule t_read[where c = "\<lambda>js. lookup_key jid js = fst A \<and> wf_jobs js"])
    (auto simp: assms at_store_def abs_store_def abs_jobs_def wf_store_def fun_eq_iff wf_jobs_Nil)

lemma t_load_runs:
  assumes "\<And>rs. (\<lambda>i. case rs i of Some l \<Rightarrow> l | None \<Rightarrow> []) = snd A \<Longrightarrow> wf_runs rs \<Longrightarrow>
      triple (at_store A n) (k rs) Q E"
    and "\<And>w. at_store A n w \<Longrightarrow> E w" "\<And>w os. E (w\<lparr>jouts := os\<rparr>) = E w"
  shows "triple (at_store A n) (bind load_runs k) Q E"
  unfolding load_runs_def
  by (rule t_read[where c = "\<lambda>rs. (\<lambda>i. case rs i of Some l \<Rightarrow> l | None \<Rightarrow> []) = snd A \<and> wf_runs rs"])
    (auto simp: assms at_store_def abs_store_def abs_runs_def wf_store_def fun_eq_iff wf_runs_empty)

lemma t_save_jobs:
  assumes "wf_jobs js" "triple (at_store (lookup_key jid js, snd A) n) k Q E"
    and "\<And>w. at_store A n w \<Longrightarrow> E w" "\<And>w os. E (w\<lparr>jouts := os\<rparr>) = E w"
  shows "triple (at_store A n) (seq (save_jobs js) k) Q E"
  unfolding save_jobs_def
  by (rule t_write[of "at_store (lookup_key jid js, snd A) n"])
    (use assms in \<open>auto simp: at_store_def abs_store_def wf_store_def\<close>)

lemma t_save_runs:
  assumes "wf_runs rs" "triple (at_store (fst A, \<lambda>i. case rs i of Some l \<Rightarrow> l | None \<Rightarrow> []) n) k Q E"
    and "\<And>w. at_store A n w \<Longrightarrow> E w" "\<And>w os. E (w\<lparr>jouts := os\<rparr>) = E w"
  shows "triple (at_store A n) (seq (save_runs rs) k) Q E"
  unfolding save_runs_def
  by (rule t_write[of "at_store (fst A, \<lambda>i. case rs i of Some l \<Rightarrow> l | None \<Rightarrow> []) n"])
    (use assms in \<open>auto simp: at_store_def abs_store_def wf_store_def\<close>)

lemma t_lift:
  assumes "\<And>x. r = Inr x \<Longrightarrow> triple P (k x) Q E" "\<And>w. P w \<Longrightarrow> E w"
  shows "triple P (bind (lift_result r) k) Q E"
  using assms by (cases r) (simp_all add: run_eqs triple_pure triple_def throw_def)

lemma t_lift_seq:
  assumes "r = Inr () \<Longrightarrow> triple P k Q E" "\<And>w. P w \<Longrightarrow> E w"
  shows "triple P (seq (lift_result r) k) Q E"
  using assms by (cases r) (simp_all add: run_eqs triple_pure triple_def throw_def)

lemma t_clock:
  assumes "triple (at_store A n) (k n) Q E"
  shows "triple (at_store A n) (bind (asks jclock) k) Q E"
  using assms by (auto simp: triple_def bind_def asks_def at_store_def)

lemma t_ret: "(\<And>w. P w \<Longrightarrow> Q x w) \<Longrightarrow> triple P (ret x) Q E"
  and t_throw: "(\<And>w. P w \<Longrightarrow> E w) \<Longrightarrow> triple P (throw e) Q E"
  by (simp_all add: triple_def io_simps)

lemma t_if: "(c \<Longrightarrow> triple P m Q E) \<Longrightarrow> (\<not> c \<Longrightarrow> triple P m1 Q E) \<Longrightarrow> triple P (if c then m else m1) Q E"
  by simp

lemma t_do_if:
  "(c \<Longrightarrow> triple P (seq m k) Q E) \<Longrightarrow> (\<not> c \<Longrightarrow> triple P k Q E) \<Longrightarrow> triple P (seq (do_if c m) k) Q E"
  by (cases c) (simp_all add: run_eqs)

lemma t_fail_if:
  "(\<not> c \<Longrightarrow> triple P k Q E) \<Longrightarrow> (\<And>w. P w \<Longrightarrow> E w) \<Longrightarrow> triple P (seq (fail_if c e) k) Q E"
  by (cases c) (simp_all add: run_eqs triple_def throw_def)

section \<open>Each call\<close>

text \<open>
  A call that succeeds has the effect of the specification; one that fails has changed no
  run history, and has left the jobs alone or already has all of the new ones.
\<close>

definition refines :: "store_call \<Rightarrow> ('z, 'a) job_io \<Rightarrow> bool" where
  "refines c m = (\<forall>A n rid. triple (\<lambda>w. at_store A n w \<and> fresh_run_id w = rid) m
     (\<lambda>_ w. abs_store w = spec_call n rid c A)
     (\<lambda>w. abs_runs w = snd A \<and> (abs_jobs w = fst A \<or> abs_jobs w = fst (spec_call n rid c A))))"

lemma refinesI:
  assumes "\<And>J R n rid. triple (at_store (J, R) n) m
     (\<lambda>_ w. abs_store w = spec_call n rid c (J, R))
     (\<lambda>w. abs_runs w = R \<and> (abs_jobs w = J \<or> abs_jobs w = fst (spec_call n rid c (J, R))))"
  shows "refines c m"
  unfolding refines_def
proof (intro allI)
  fix A :: job_spec and n rid
  obtain J R where "A = (J, R)" by (cases A)
  with assms[of J R n rid] show "triple (\<lambda>w. at_store A n w \<and> fresh_run_id w = rid) m
     (\<lambda>_ w. abs_store w = spec_call n rid c A)
     (\<lambda>w. abs_runs w = snd A \<and> (abs_jobs w = fst A \<or> abs_jobs w = fst (spec_call n rid c A)))"
    by (auto simp: triple_def)
qed

lemma t_option: "(z = None \<Longrightarrow> triple P m Q E) \<Longrightarrow> (\<And>x. z = Some x \<Longrightarrow> triple P (f x) Q E) \<Longrightarrow>
   triple P (case z of None \<Rightarrow> m | Some x \<Rightarrow> f x) Q E"
  by (cases z) auto

lemmas t_steps = t_option t_save_jobs t_save_runs t_ret t_throw t_do_if t_lock t_load_jobs t_load_runs t_clock t_lift t_lift_seq t_if t_fail_if

lemma fst_at: "at_store A n w \<Longrightarrow> abs_jobs w = fst A \<and> abs_runs w = snd A \<and> abs_store w = A"
  by (auto simp: at_store_def abs_store_def)

lemma refinesI2:
  assumes "\<And>J R n rid. triple (\<lambda>w. at_store (J, R) n w \<and> fresh_run_id w = rid) m
     (\<lambda>_ w. abs_store w = spec_call n rid c (J, R))
     (\<lambda>w. abs_runs w = R \<and> (abs_jobs w = J \<or> abs_jobs w = fst (spec_call n rid c (J, R))))"
  shows "refines c m"
  unfolding refines_def using assms by simp

lemma t_new_id:
  fixes k :: "string \<Rightarrow> ('z, 'a) job_io"
  assumes "triple (at_store A n) (k rid) Q E"
  shows "triple (\<lambda>w. at_store A n w \<and> fresh_run_id w = rid) (bind new_run_id k) Q E"
  unfolding triple_def
proof (intro allI impI)
  fix w :: "'z job_world_scheme" assume "at_store A n w \<and> fresh_run_id w = rid"
  then have "at_store A n (w\<lparr>ids_made := Suc (ids_made w)\<rparr>)"
    and "bind new_run_id k w = k rid (w\<lparr>ids_made := Suc (ids_made w)\<rparr>)"
    by (auto simp: at_store_def abs_store_def bind_def new_run_id_def fresh_run_id_def)
  with assms[unfolded triple_def, rule_format, of "w\<lparr>ids_made := Suc (ids_made w)\<rparr>"]
  show "case fst (bind new_run_id k w) of Inl _ \<Rightarrow> E (snd (bind new_run_id k w))
      | Inr x \<Rightarrow> Q x (snd (bind new_run_id k w))"
    by (simp only:)
qed

lemma lookup_key_key: "lookup_key key xs k = Some v \<Longrightarrow> key v = k"
  by (drule lookup_key_Some) simp

lemma lookup_upsert_self:
  "lookup_key jid js i = Some x \<Longrightarrow> jid y = jid x \<Longrightarrow> lookup_key jid (upsert jid js y) = (lookup_key jid js)(i \<mapsto> y)"
  using lookup_key_key[of jid js i x] by (auto simp: fun_eq_iff)

lemma lookup_append: "lookup_key key (xs @ ys) k = (case lookup_key key xs k of Some x \<Rightarrow> Some x | None \<Rightarrow> lookup_key key ys k)"
  by (induction xs) auto

lemma lookup_filter: "distinct_keys key xs \<Longrightarrow> lookup_key key (filter P xs) k =
    (case lookup_key key xs k of Some x \<Rightarrow> if P x then Some x else None | None \<Rightarrow> None)"
proof (induction xs)
  case (Cons x xs)
  have "lookup_key key xs (key x) = None" using Cons.prems by (simp add: distinct_keys_def lookup_key_None)
  with Cons show ?case by (auto simp: distinct_keys_def split: option.split)
qed simp

lemma lookup_traverse:
  assumes "traverse f xs = Inr ys" "\<And>x y. f x = Inr y \<Longrightarrow> key y = key x"
  shows "(lookup_key key xs k = None \<longrightarrow> lookup_key key ys k = None)
    \<and> (\<forall>x. lookup_key key xs k = Some x \<longrightarrow> (\<exists>y. f x = Inr y \<and> lookup_key key ys k = Some y))"
  using assms(1)
proof (induction xs arbitrary: ys)
  case (Cons x xs)
  then obtain y ys1 where "f x = Inr y" "traverse f xs = Inr ys1" "ys = y # ys1" by auto
  with Cons.IH[of ys1] assms(2)[of x y] show ?case by auto
qed simp

lemma upsert_refines: "refines (CUpsert j) (upsert_job j)"
  unfolding upsert_job_def Let_def
  by (rule refinesI, intro t_steps)
    (auto simp: fun_eq_iff wf_jobs_upsert wf_jobs_push lookup_append split: option.split dest!: fst_at)

lemma remove_len: "length (remove_key jid js i) = length js \<longleftrightarrow> lookup_key jid js i = None"
  using remove_key_length[of jid js i] by (auto simp: has_key_def lookup_key_None)

lemma remove_refines: "refines (CRemove i) (remove_job i)"
  unfolding remove_job_def Let_def
  by (rule refinesI, intro t_steps)
    (auto simp: wf_jobs_remove wf_runs_remove remove_len
      split: option.split intro!: ext dest!: fst_at)

lemma set_enabled_refines: "refines (CEnable i on) (set_enabled i on)"
  unfolding set_enabled_def Let_def
  by (rule refinesI, intro t_steps)
    (auto intro!: wf_jobs_upsert dest: wf_jobs_lookup dest!: fst_at simp: lookup_upsert_self)

lemma begin_refines: "refines (CBegin i why) (begin_run i why)"
  unfolding begin_run_def Let_def
  by (rule refinesI2, rule t_new_id, intro t_steps)
    (auto simp: wf_run_def intro!: ext wf_runs_push dest!: fst_at)

lemma finish_refines: "refines (CFinish i rid out) (finish_run i rid out)"
  unfolding finish_run_def Let_def
  by (rule refinesI, intro t_steps)
    (auto intro!: ext wf_runs_close dest!: fst_at)

lemma stamp_spec:
  assumes s: "stamp_incoming managed kept n j = Inr x" and q: "j = j0\<lparr>jmanager := Some m\<rparr>"
    and k: "lookup_key jid managed (jid j) = old"
  shows "x = spec_stamp m n old j0"
proof -
  have "\<not> has_key jid kept (jid j)" using s by (auto simp: stamp_incoming_def)
  then show ?thesis using s unfolding q k[symmetric]
    by (simp add: stamp_incoming_def spec_stamp_def Let_def split: option.split)
qed

lemma replace_maps:
  assumes js: "wf_jobs js"
    and v: "traverse (\<lambda>j. let j = j\<lparr>jmanager := Some m\<rparr> in map_ok (\<lambda>_. j) (validate_job j)) inc0 = Inr inc1"
    and s: "traverse (stamp_incoming (filter (managed_by_is m) js) (filter (\<lambda>j. \<not> managed_by_is m j) js) n) inc1 = Inr inc"
  shows "lookup_key jid (filter (\<lambda>j. \<not> managed_by_is m j) js @ inc) i =
      (case lookup_key jid inc0 i of
         Some j \<Rightarrow> Some (spec_stamp m n (lookup_key jid js i) j)
       | None \<Rightarrow> if owned m (lookup_key jid js i) then None else lookup_key jid js i)"
    and "i \<in> set (dropped_ids (filter (managed_by_is m) js) inc)
      \<longleftrightarrow> owned m (lookup_key jid js i) \<and> lookup_key jid inc0 i = None"
proof -
  let ?man = "filter (managed_by_is m) js" and ?kept = "filter (\<lambda>j. \<not> managed_by_is m j) js"
  have d: "distinct_keys jid js" using js by (simp add: wf_jobs_def)
  have own: "owned m (lookup_key jid js i) \<longleftrightarrow> lookup_key jid ?man i \<noteq> None"
    by (simp add: lookup_filter[OF d] owned_def managed_by_is_def split: option.split)
  have one: "(lookup_key jid inc0 i = None \<longrightarrow> lookup_key jid inc1 i = None) \<and>
      (\<forall>j. lookup_key jid inc0 i = Some j \<longrightarrow> lookup_key jid inc1 i = Some (j\<lparr>jmanager := Some m\<rparr>))"
    using lookup_traverse[OF v, of jid i] by (auto simp: Let_def)
  have two: "(lookup_key jid inc1 i = None \<longrightarrow> lookup_key jid inc i = None) \<and>
      (\<forall>x. lookup_key jid inc1 i = Some x \<longrightarrow> (\<exists>y. stamp_incoming ?man ?kept n x = Inr y \<and> lookup_key jid inc i = Some y))"
    using lookup_traverse[OF s, of jid i] stamp_incoming_Inr by blast
  show "lookup_key jid (?kept @ inc) i =
      (case lookup_key jid inc0 i of
         Some j \<Rightarrow> Some (spec_stamp m n (lookup_key jid js i) j)
       | None \<Rightarrow> if owned m (lookup_key jid js i) then None else lookup_key jid js i)"
  proof (cases "lookup_key jid inc0 i")
    case None
    with one two show ?thesis
      by (auto simp: lookup_append lookup_filter[OF d] owned_def managed_by_is_def split: option.split)
  next
    case (Some j)
    with one two obtain y where y: "stamp_incoming ?man ?kept n (j\<lparr>jmanager := Some m\<rparr>) = Inr y"
      "lookup_key jid inc i = Some y" by blast
    have i: "jid j = i" using Some by (rule lookup_key_key)
    have "\<not> has_key jid ?kept i" using y(1) i by (auto simp: stamp_incoming_def)
    then have n: "lookup_key jid ?kept i = None" by (auto simp: has_key_def lookup_key_None)
    then have "lookup_key jid ?man (jid (j\<lparr>jmanager := Some m\<rparr>)) = lookup_key jid js i"
      using i by (auto simp: lookup_filter[OF d] split: option.splits if_splits)
    from stamp_spec[OF y(1) refl this] n y(2) Some show ?thesis by (simp add: lookup_append)
  qed
  have "i \<in> set (dropped_ids ?man inc) \<longleftrightarrow> i \<in> jid ` set ?man \<and> i \<notin> jid ` set inc"
  proof -
    have "set (dropped_ids ?man inc) = {i \<in> jid ` set ?man. i \<notin> jid ` set inc}"
    proof -
      have "has_key jid inc k \<longleftrightarrow> k \<in> jid ` set inc" for k by (auto simp: has_key_def)
      then have "filter (\<lambda>x. \<not> has_key jid inc (jid x)) ?man = filter (\<lambda>x. jid x \<notin> jid ` set inc) ?man"
        by simp
      then show ?thesis unfolding dropped_ids_def by auto
    qed
    then show ?thesis by blast
  qed
  then have "i \<in> set (dropped_ids ?man inc) \<longleftrightarrow> lookup_key jid ?man i \<noteq> None \<and> lookup_key jid inc i = None"
    by (simp add: lookup_key_None)
  also have "\<dots> \<longleftrightarrow> lookup_key jid ?man i \<noteq> None \<and> lookup_key jid inc0 i = None"
    using one two by (metis option.exhaust option.distinct(1))
  finally show "i \<in> set (dropped_ids ?man inc) \<longleftrightarrow> owned m (lookup_key jid js i) \<and> lookup_key jid inc0 i = None"
    unfolding own .
qed

lemma t_first_dup:
  assumes "first_dup {} inc = None \<Longrightarrow> triple P k Q E" "\<And>w. P w \<Longrightarrow> E w"
  shows "triple P (seq (case first_dup {} inc of Some d \<Rightarrow> throw (f d) | None \<Rightarrow> ret ()) k) Q E"
  using assms by (cases "first_dup {} inc") (auto simp: triple_def seq_def bind_def ret_def throw_def)

lemma replace_tail:
  assumes js: "lookup_key jid js = J" "wf_jobs js"
    and v: "traverse (\<lambda>j. let j = j\<lparr>jmanager := Some m\<rparr> in map_ok (\<lambda>_. j) (validate_job j)) inc0 = Inr inc1"
    and s: "traverse (stamp_incoming (filter (managed_by_is m) js) (filter (\<lambda>j. \<not> managed_by_is m j) js) n) inc1 = Inr inc"
    and d: "first_dup {} inc = None"
  shows "triple (at_store (J, R) n)
     (seq (save_jobs (filter (\<lambda>j. \<not> managed_by_is m j) js @ inc))
       (seq (do_if (dropped_ids (filter (managed_by_is m) js) inc \<noteq> [])
          (bind load_runs (\<lambda>runs. save_runs (forget_runs (dropped_ids (filter (managed_by_is m) js) inc) runs))))
       (ret inc)))
     (\<lambda>_ w. abs_store w = spec_call n rid (CReplace m inc0) (J, R))
     (\<lambda>w. abs_runs w = R \<and> (abs_jobs w = J \<or> abs_jobs w = fst (spec_call n rid (CReplace m inc0) (J, R))))"
proof -
  let ?js = "filter (\<lambda>j. \<not> managed_by_is m j) js @ inc" and ?ids = "dropped_ids (filter (managed_by_is m) js) inc"
  note maps = replace_maps[OF js(2) v s]
  have J: "lookup_key jid ?js = fst (spec_call n rid (CReplace m inc0) (J, R))"
    by (rule ext) (simp only: maps(1) js(1) spec_call.simps fst_conv)
  have none: "snd (spec_call n rid (CReplace m inc0) (J, R)) = R" if "?ids = []"
    using maps(2) that js(1) by (fastforce simp: fun_eq_iff)
  have some: "(\<lambda>i. case forget_runs ?ids rs i of Some l \<Rightarrow> l | None \<Rightarrow> [])
      = snd (spec_call n rid (CReplace m inc0) (J, R))"
    if "(\<lambda>i. case rs i of Some l \<Rightarrow> l | None \<Rightarrow> []) = R" for rs
    unfolding that[symmetric] by (rule ext) (simp add: forget_runs_iff maps(2) js(1))
  have eq: "seq (bind load_runs (\<lambda>runs. save_runs (forget_runs ?ids runs))) (ret inc) =
      bind load_runs (\<lambda>runs. seq (save_runs (forget_runs ?ids runs)) (ret inc))"
    by (rule ext) (simp add: io_simps)
  have wf: "wf_jobs ?js" using js(2) v s d by (rule wf_jobs_replace)
  show ?thesis
    by (rule t_save_jobs[OF wf], rule t_do_if, unfold eq, intro t_load_runs t_save_runs t_ret)
      (auto simp: J none some wf_runs_forget prod_eq_iff intro!: t_ret simp del: spec_call.simps dest!: fst_at)
qed

lemma replace_refines: "refines (CReplace m js) (replace_managed m js)"
  unfolding replace_managed_def Let_def[of "filter _ _"]
  by (rule refinesI, intro t_fail_if t_lift t_lock t_load_jobs t_clock t_first_dup replace_tail)
    (auto dest!: fst_at)

lemma refinesD:
  assumes "refines c m" "wf_store w"
  shows "case fst (m w) of
      Inr u \<Rightarrow> abs_store (snd (m w)) = spec_call (jclock w) (fresh_run_id w) c (abs_store w)
    | Inl e \<Rightarrow> abs_runs (snd (m w)) = abs_runs w \<and>
        (abs_jobs (snd (m w)) = abs_jobs w
         \<or> abs_jobs (snd (m w)) = fst (spec_call (jclock w) (fresh_run_id w) c (abs_store w)))"
proof -
  have "at_store (abs_store w) (jclock w) w \<and> fresh_run_id w = fresh_run_id w"
    using assms(2) by (simp add: at_store_def)
  moreover have "triple (\<lambda>v. at_store (abs_store w) (jclock w) v \<and> fresh_run_id v = fresh_run_id w) m
     (\<lambda>_ v. abs_store v = spec_call (jclock w) (fresh_run_id w) c (abs_store w))
     (\<lambda>v. abs_runs v = snd (abs_store w) \<and> (abs_jobs v = fst (abs_store w)
        \<or> abs_jobs v = fst (spec_call (jclock w) (fresh_run_id w) c (abs_store w))))"
    using assms(1) unfolding refines_def by blast
  ultimately show ?thesis unfolding triple_def by (auto simp: abs_store_def split: sum.splits)
qed

lemma void_refines: "refines c m \<Longrightarrow> refines c (void m)"
  unfolding refines_def void_def by (intro allI triple_bind[OF _ t_ret]) blast+

lemma run_call_refines: "refines c (run_call c)"
  by (cases c) (simp_all add: void_refines upsert_refines remove_refines set_enabled_refines
      replace_refines begin_refines finish_refines)

end
