(* ===== verification/JobProps.thy ===== *)
theory JobProps
  imports JobSpec
begin

text \<open>
  Properties of the scheduled jobs: the store implements its specification and stays well
  formed under failures and crashes, a push of managed jobs leaves the other jobs alone, a
  job never runs twice at a time, a pass starts what is due, and which minutes the loop
  visits.
\<close>

text \<open>
  C36. The job store implements its specification. A call that succeeds changes the maps of
  jobs and histories as \<open>spec_call\<close> says, times and identifiers included; a call that
  fails, at any lock, read, write or rename, has changed no history, and has left the jobs
  as they were or stored all of the new ones.
\<close>

theorem job_store_refines_spec:
  assumes "wf_store w" and "run_call c w = (r, w1)"
  shows "case r of
      Inr u \<Rightarrow> abs_store w1 = spec_call (jclock w) (fresh_run_id w) c (abs_store w)
    | Inl e \<Rightarrow> abs_runs w1 = abs_runs w \<and>
        (abs_jobs w1 = abs_jobs w
         \<or> abs_jobs w1 = fst (spec_call (jclock w) (fresh_run_id w) c (abs_store w)))"
  using refinesD[OF run_call_refines assms(1), of c] unfolding assms(2) fst_conv snd_conv .

definition nightly :: job where
  "nightly = \<lparr>jid = ''n'', jtrigger = ''hourly'', jutc = True, jenabled = True, jcomment = [],
     jmanager = Some ''p'', jaction = AppRestart ''web'', created_at = 0, updated_at = 0\<rparr>"

lemma nightly_valid: "validate_job nightly = Inr ()"
  by (simp add: validate_job_def nightly_def job_id_char_def is_alnum_def is_lower_def is_digit_def utf8_char_def
      parse_schedule_def trim_def trim_start_def trim_end_def is_white_def eq_nocase_def to_lower_def lower_char_def
      is_upper_def)

theorem job_store_refines_spec_witness:
  "abs_store (snd (run_call (CUpsert nightly) (new_world (\<lambda>_. []) 9))) =
     (\<lambda>i. if i = ''n'' then Some (nightly\<lparr>created_at := 9, updated_at := 9\<rparr>) else None, \<lambda>_. [])"
proof -
  have "wf_store (new_world (\<lambda>_. []) 9)" by (simp add: wf_store_def new_world_def)
  moreover have "\<exists>w1. run_call (CUpsert nightly) (new_world (\<lambda>_. []) 9) = (Inr (), w1)"
    by (simp add: void_def upsert_job_def nightly_valid io_simps lock_store_def load_jobs_def read_doc_def
        save_jobs_def write_doc_def jstep_def step_io_def new_world_def bind_def seq_def ret_def asks_def Let_def)
  then obtain w1 where w1: "run_call (CUpsert nightly) (new_world (\<lambda>_. []) 9) = (Inr (), w1)" ..
  ultimately have "abs_store w1 = spec_call 9 (fresh_run_id (new_world (\<lambda>_. []) 9)) (CUpsert nightly)
      (abs_store (new_world (\<lambda>_. []) 9))"
    using job_store_refines_spec[of "new_world (\<lambda>_. []) 9" "CUpsert nightly" "Inr ()" w1]
    by (simp add: new_world_def)
  with w1 show ?thesis
    by (auto simp: fun_eq_iff abs_store_def abs_jobs_def abs_runs_def new_world_def nightly_def)
qed

text \<open>
  On every run of calls, scheduler passes, ends of jobs, failures and restarts, from an
  empty store on, the stored jobs are valid and have distinct identifiers, a history has at
  most fifty runs, and no stored output or error is longer than 64 KiB.
\<close>

theorem job_store_invariant: "wf_store (run_ops exec_job (new_world rnd now) es)"
  by (rule job_store.run_inv) (simp add: wf_store_def new_world_def)

lemma t_replace_other:
  assumes "fst A i = Some j" "jmanager j \<noteq> Some m"
  shows "triple (at_store A n) (replace_managed m js) (\<lambda>_ w. abs_jobs w i = Some j) (\<lambda>w. abs_jobs w i = Some j)"
proof -
  have kept: "lookup_key jid (filter (\<lambda>j. \<not> managed_by_is m j) jobs @ inc) i = Some j"
    if "lookup_key jid jobs = fst A" "wf_jobs jobs" for jobs inc
    using that assms by (simp add: lookup_append lookup_filter wf_jobs_def managed_by_is_def)
  have eq: "seq (bind load_runs (\<lambda>runs. save_runs (f runs))) (ret inc) =
      bind load_runs (\<lambda>runs. seq (save_runs (f runs)) (ret inc))" for f and inc :: "job list"
    by (rule ext) (simp add: io_simps)
  have tail: "triple (at_store A n)
      (seq (save_jobs (filter (\<lambda>j. \<not> managed_by_is m j) jobs @ inc))
        (seq (do_if (ids \<noteq> []) (bind load_runs (\<lambda>runs. save_runs (forget_runs ids runs)))) (ret inc)))
      (\<lambda>_ w. abs_jobs w i = Some j) (\<lambda>w. abs_jobs w i = Some j)"
    if "wf_jobs (filter (\<lambda>j. \<not> managed_by_is m j) jobs @ inc)" "lookup_key jid jobs = fst A" "wf_jobs jobs"
    for jobs inc ids
    by (rule t_save_jobs[OF that(1)], rule t_do_if, unfold eq, intro t_load_runs t_save_runs t_ret)
      (use assms(1) in \<open>auto simp: kept[OF that(2,3)] wf_runs_forget intro!: t_ret dest!: fst_at\<close>)
  show ?thesis
    unfolding replace_managed_def Let_def[of "filter _ _"]
    by (intro t_fail_if t_lift t_lock t_load_jobs t_clock t_first_dup tail)
      (use assms(1) in \<open>auto intro: wf_jobs_replace dest!: fst_at\<close>)
qed

text \<open>
  A push of managed jobs never changes or removes a job that has another manager or
  none, whatever the pushed jobs are and wherever the push fails.
\<close>

theorem replace_managed_keeps_others:
  assumes "wf_store w" and "abs_jobs w i = Some j" and "jmanager j \<noteq> Some m"
  shows "abs_jobs (snd (replace_managed m js w)) i = Some j"
proof -
  have "at_store (abs_store w) (jclock w) w" using assms(1) by (simp add: at_store_def)
  with t_replace_other[of "abs_store w" i j m "jclock w" js] assms(2,3) show ?thesis
    by (auto simp: triple_def abs_store_def split: sum.splits)
qed

theorem replace_managed_keeps_others_witness:
  "abs_jobs (snd (replace_managed ''q'' [nightly] (new_world (\<lambda>_. []) 9\<lparr>jobs_doc := Doc [nightly]\<rparr>))) ''n'' = Some nightly"
proof -
  have "wf_store (new_world (\<lambda>_. []) 9\<lparr>jobs_doc := Doc [nightly]\<rparr>)"
    by (simp add: wf_store_def new_world_def wf_jobs_def distinct_keys_def nightly_valid)
  then show ?thesis by (rule replace_managed_keeps_others) (simp_all add: nightly_def)
qed

text \<open>
  C37. The daemon never runs a job twice at a time: on every run of the scheduler, with runs that the
  API asks for, runs of the command line, failures and restarts, at most one task of the daemon
  belongs to a job, and its set of running jobs is exactly that of its tasks. A run of the command
  line is a process of its own and can overlap a task of the daemon (\<open>cli_run_overlaps\<close>).
\<close>

theorem one_run_per_job:
  "let w = run_ops exec_job (new_world rnd now) es in
   distinct (map (jid \<circ> fst) (tasks w)) \<and> set (running w) = (jid \<circ> fst) ` set (tasks w)"
proof -
  have "one_task_each (run_ops exec_job (new_world rnd now) es)"
    by (rule job_tasks.run_inv) (simp add: one_task_each_def new_world_def)
  then show ?thesis by (simp add: one_task_each_def Let_def)
qed

text \<open>\<open>asc schedule run\<close> starts a job that the daemon is running.\<close>

theorem cli_run_overlaps:
  "let w = run_ops exec_job (new_world (\<lambda>_. []) 0) [Upsert nightly, Start nightly OnSchedule, CliRun ''n''] in
   map (jid \<circ> fst) (tasks w) = [''n''] \<and> map (jid \<circ> fst) (cli_tasks w) = [''n'']"
proof -
  have i: "jid nightly = ''n''" by (simp add: nightly_def)
  show ?thesis
    by (simp add: upsert_job_def nightly_valid spawn_job_def begin_run_def cli_run_def get_job_def list_jobs_def i ok_or_def
      lookup_key_def new_run_id_def modify_def io_defs lock_store_def load_jobs_def load_runs_def read_doc_def
      save_jobs_def save_runs_def write_doc_def jstep_def step_io_def new_world_def Let_def)
qed

section \<open>A pass over the due jobs\<close>

lemma begin_works:
  assumes "jouts w = []" "runs_doc w \<noteq> Corrupt"
  obtains r w1 where "begin_run i why w = (Inr r, w1)" "jouts w1 = []" "runs_doc w1 \<noteq> Corrupt"
    "tail_of w1 = tail_of w" "abs_runs w1 = (abs_runs w)(i := push_run (abs_runs w i) r)"
    "jclock w1 = jclock w" "run_state r = Running" "run_why r = why" "started_at r = jclock w"
  using assms
  by (cases "runs_doc w")
    (auto simp: begin_run_def new_run_id_def lock_store_def load_runs_def read_doc_def save_runs_def write_doc_def
      jstep_def step_io_def bind_def seq_def ret_def asks_def Let_def abs_runs_def fun_eq_iff)

lemma abs_runs_frame: "abs_runs (s\<lparr>running := r\<rparr>) = abs_runs s" "abs_runs (s\<lparr>tasks := ts\<rparr>) = abs_runs s"
  by (simp_all add: abs_runs_def fun_eq_iff)

definition opened :: "run_trigger \<Rightarrow> int \<Rightarrow> run_record list \<Rightarrow> bool" where
  "opened why t l = (l \<noteq> [] \<and> run_state (last l) = Running \<and> run_why (last l) = why \<and> started_at (last l) = t)"

lemma last_push_run: "push_run l r \<noteq> [] \<and> last (push_run l r) = r"
  by (simp add: push_run_def Let_def MAX_RUNS_PER_JOB_def)

lemma spawn_each_works:
  assumes "distinct_keys jid js" "jouts w = []" "runs_doc w \<noteq> Corrupt"
  shows "map fst (tasks (snd (spawn_each js w))) =
      map fst (tasks w) @ filter (\<lambda>j. jid j \<notin> set (running w)) js
    \<and> (\<forall>i. i \<notin> jid ` set js \<or> i \<in> set (running w) \<longrightarrow> abs_runs (snd (spawn_each js w)) i = abs_runs w i)
    \<and> (\<forall>j \<in> set js. jid j \<in> set (running w) \<or>
         opened OnSchedule (jclock w) (abs_runs (snd (spawn_each js w)) (jid j)))"
  using assms
proof (induction js arbitrary: w)
  case Nil
  then show ?case by (simp add: io_simps)
next
  case (Cons j js)
  have step: "spawn_each (j # js) w = spawn_each js (snd (spawn_job j OnSchedule w))" by (simp add: io_simps)
  have js: "distinct_keys jid js" "jid j \<notin> jid ` set js" "\<And>x. x \<in> set js \<Longrightarrow> jid x \<noteq> jid j"
    using Cons.prems(1) by (auto simp: distinct_keys_def) (metis imageI)
  show ?case
  proof (cases "jid j \<in> set (running w)")
    case True
    then have "snd (spawn_job j OnSchedule w) = w" by (simp add: spawn_run)
    with Cons.IH[OF js(1) Cons.prems(2,3)] True js(2) step show ?thesis by auto
  next
    case False
    let ?w = "w\<lparr>running := jid j # running w\<rparr>"
    obtain r w1 where b: "begin_run (jid j) OnSchedule ?w = (Inr r, w1)" "jouts w1 = []" "runs_doc w1 \<noteq> Corrupt"
      "tail_of w1 = tail_of ?w" "abs_runs w1 = (abs_runs ?w)(jid j := push_run (abs_runs ?w (jid j)) r)"
      "jclock w1 = jclock ?w" "run_state r = Running" "run_why r = OnSchedule" "started_at r = jclock ?w"
      using begin_works[of ?w "jid j" OnSchedule] Cons.prems(2,3) by auto
    define w2 where "w2 = w1\<lparr>tasks := tasks w1 @ [(j, run_id r)]\<rparr>"
    have "running w1 = jid j # running w" "tasks w1 = tasks w" using tail_of_same[OF b(4)] by simp_all
    then have w2: "running w2 = jid j # running w" "map fst (tasks w2) = map fst (tasks w) @ [j]" "jouts w2 = []"
      "runs_doc w2 \<noteq> Corrupt" "jclock w2 = jclock w"
      "abs_runs w2 = (abs_runs w)(jid j := push_run (abs_runs w (jid j)) r)"
      using b by (simp_all add: w2_def abs_runs_frame)
    have "snd (spawn_job j OnSchedule w) = w2" using b(1) False by (simp add: spawn_run w2_def)
    then have run: "spawn_each (j # js) w = spawn_each js w2" unfolding step by simp
    have op: "opened OnSchedule (jclock w) (push_run (abs_runs w (jid j)) r)"
      using b(7-9) last_push_run[of "abs_runs w (jid j)" r] by (simp add: opened_def)
    have "filter (\<lambda>x. jid x \<notin> set (running w2)) js = filter (\<lambda>x. jid x \<notin> set (running w)) js"
      by (intro filter_cong) (auto simp: w2(1) dest: js(3))
    with Cons.IH[OF js(1) w2(3,4)] w2 op js(2) False show ?thesis unfolding run by (auto dest: js(3))
  qed
qed

text \<open>
  A pass that can read and write the store starts exactly the enabled jobs whose
  trigger matches the minute, except those that still run: each gets a task, in the order
  of the list, and a new history entry that is running since now; other histories stay.
\<close>

theorem pass_starts_due_jobs:
  assumes "wf_store w" and "jouts w = []" and "jobs_doc w = Doc js" and "runs_doc w \<noteq> Corrupt"
  shows "map fst (tasks (snd (run_due_jobs C now w))) =
      map fst (tasks w) @ filter (\<lambda>j. due C now j \<and> jid j \<notin> set (running w)) js
    \<and> (\<forall>j \<in> set js. due C now j \<longrightarrow> jid j \<notin> set (running w) \<longrightarrow>
      opened OnSchedule (jclock w) (abs_runs (snd (run_due_jobs C now w)) (jid j)))"
proof -
  have d: "distinct_keys jid (filter (due C now) js)"
    using assms(1,3) by (simp add: wf_store_def wf_jobs_def distinct_keys_def distinct_map_filter)
  have l: "list_jobs w = (Inr js, w)" using assms(2,3)
    by (simp add: list_jobs_def lock_store_def load_jobs_def read_doc_def jstep_def step_io_def seq_def bind_def
        ret_def asks_def)
  have run: "run_due_jobs C now w = spawn_each (filter (due C now) js) w" by (simp add: pass_run l)
  show ?thesis
    using spawn_each_works[OF d assms(2,4)] unfolding run by (auto simp: conj_commute)
qed

definition busy_world :: sched_world where
  "busy_world = new_world (\<lambda>_. []) 7260\<lparr>jobs_doc := Doc [nightly, nightly\<lparr>jid := ''m''\<rparr>],
     running := [''m''], tasks := [(nightly\<lparr>jid := ''m''\<rparr>, ''r'')]\<rparr>"

definition noon :: calendar where
  "noon = \<lparr>date_of = (\<lambda>_. (1, 1, 1)), local_time = (\<lambda>_. \<lparr>minute = 0, hour = 12, day = 1, month = 1, weekday = 1\<rparr>)\<rparr>"

lemma hourly_due: "jtrigger j = ''hourly'' \<Longrightarrow> jenabled j \<Longrightarrow> due noon 7200 j"
  by (simp add: due_def parse_schedule_def trim_def trim_start_def trim_end_def is_white_def eq_nocase_def to_lower_def
      lower_char_def is_upper_def matches_def every_day_def has_bit_1 has_bit_mask_all date_matches_def Let_def
      moment_at_def moment_utc_def noon_def)

theorem pass_starts_due_jobs_witness:
  "map fst (tasks (snd (run_due_jobs noon 7200 busy_world))) = [nightly\<lparr>jid := ''m''\<rparr>, nightly]
   \<and> opened OnSchedule 7260 (abs_runs (snd (run_due_jobs noon 7200 busy_world)) ''n'')"
proof -
  have v: "validate_job (nightly\<lparr>jid := ''m''\<rparr>) = Inr ()" using nightly_valid
    by (simp add: validate_job_def nightly_def job_id_char_def is_alnum_def is_lower_def utf8_char_def)
  have "wf_store busy_world" using v
    by (simp add: busy_world_def wf_store_def new_world_def wf_jobs_def distinct_keys_def nightly_valid)
      (simp add: nightly_def)
  moreover have "jouts busy_world = []" "jobs_doc busy_world = Doc [nightly, nightly\<lparr>jid := ''m''\<rparr>]"
    "runs_doc busy_world \<noteq> Corrupt"
    by (simp_all add: busy_world_def new_world_def)
  ultimately have p: "map fst (tasks (snd (run_due_jobs noon 7200 busy_world))) = map fst (tasks busy_world)
       @ filter (\<lambda>j. due noon 7200 j \<and> jid j \<notin> set (running busy_world)) [nightly, nightly\<lparr>jid := ''m''\<rparr>]"
     "due noon 7200 nightly \<Longrightarrow> jid nightly \<notin> set (running busy_world) \<Longrightarrow>
      opened OnSchedule (jclock busy_world) (abs_runs (snd (run_due_jobs noon 7200 busy_world)) (jid nightly))"
    using pass_starts_due_jobs[of busy_world "[nightly, nightly\<lparr>jid := ''m''\<rparr>]" noon 7200] by simp_all
  have "due noon 7200 nightly" by (rule hourly_due) (simp_all add: nightly_def)
  moreover have "jid nightly = ''n''" "running busy_world = [''m'']" "jclock busy_world = 7260"
    "map fst (tasks busy_world) = [nightly\<lparr>jid := ''m''\<rparr>]"
    by (simp_all add: nightly_def busy_world_def new_world_def)
  ultimately show ?thesis using p by simp
qed

section \<open>The minute loop\<close>

lemma sleep_end: "t + sleep_secs t = (t div 60 + 1) * 60"
  unfolding sleep_secs_def by presburger

lemma minute_div: "0 \<le> b \<Longrightarrow> b < 60 \<Longrightarrow> (a * 60 + b) div 60 = (a :: int)"
  by simp

text \<open>
  C38. While every turn, from the end of its sleep to the start of its jobs, takes less than
  a minute and the clock is not set back, the loop works on every minute exactly once, in
  order.
\<close>

theorem every_minute_once:
  assumes "\<forall>(off, secs) \<in> set turns. 0 \<le> off \<and> 0 \<le> secs \<and> off + secs < 60"
    and "case prev of None \<Rightarrow> True | Some s \<Rightarrow> s \<le> t div 60"
  shows "map fst (minute_loop prev t turns) = map (\<lambda>k. (t div 60 + 1 + int k) * 60) [0..<length turns]"
  using assms
proof (induction turns arbitrary: prev t)
  case (Cons d turns)
  obtain off secs where d: "d = (off, secs)" by (cases d)
  let ?wake = "t + sleep_secs t + off"
  have b: "0 \<le> off" "0 \<le> secs" "off + secs < 60" using Cons.prems(1) d by auto
  have wake: "?wake = (t div 60 + 1) * 60 + off" "?wake + secs = (t div 60 + 1) * 60 + (off + secs)"
    using sleep_end[of t] by linarith+
  have s: "?wake div 60 = t div 60 + 1" "(?wake + secs) div 60 = t div 60 + 1"
    using minute_div[of off "t div 60 + 1"] minute_div[of "off + secs" "t div 60 + 1"] b unfolding wake by linarith+
  have p: "prev \<noteq> Some (t div 60 + 1)" using Cons.prems(2) by (auto split: option.splits)
  have "map fst (minute_loop (Some (t div 60 + 1)) (?wake + secs) turns) =
      map (\<lambda>k. (t div 60 + 1 + 1 + int k) * 60) [0..<length turns]"
    using Cons.IH[where prev = "Some (t div 60 + 1)" and t = "?wake + secs"] Cons.prems(1) by (simp add: s)
  moreover have "[0..<length (d # turns)] = 0 # map Suc [0..<length turns]"
    by (simp add: map_Suc_upt upt_conv_Cons del: upt_Suc)
  ultimately show ?case using p by (simp add: d Let_def s del: upt_Suc)
qed simp

theorem every_minute_once_witness:
  "map fst (minute_loop None 30 [(0, 2), (1, 50)]) = [60, 120]"
  using every_minute_once[where turns = "[(0, 2), (1, 50)]" and prev = None and t = 30] by (simp add: upt_rec)

text \<open>
  The backup policies are awaited before the jobs of their minute and before the next turn.
  A backup of an hour therefore starts the jobs of its minute an hour late, and the jobs
  that were due while it ran are not started at all.
\<close>

lemma slow_backups_skip_minutes:
  "minute_loop None t [(0, 3600), (0, 0)] =
     (let m = (t div 60 + 1) * 60 in [(m, m + 3600), (m + 3660, m + 3660)])"
proof -
  define a where "a = t div 60 + 1"
  have "t + sleep_secs t = a * 60" "sleep_secs (a * 60 + 3600) = 60" "(a * 60) div 60 = a"
    "(a * 60 + 3660) div 60 = a + 61"
    using sleep_end[of t] by (simp_all add: a_def sleep_secs_def)
  then show ?thesis by (simp only: Let_def minute_loop.simps a_def[symmetric]) simp
qed

text \<open>A clock that is set back by more than a minute makes the loop do a minute twice.\<close>

lemma clock_step_repeats_minute: "minute_loop None 0 [(0, 0), (-70, 0), (0, 0)] = [(60, 60), (0, 50), (60, 60)]"
  by (simp add: sleep_secs_def)

text \<open>A push of an unchanged job whose \<open>updated_at\<close> is not filled in counts as a change.\<close>

lemma unchanged_push_is_a_change:
  "jmanager p = Some m \<Longrightarrow> updated_at p \<noteq> 0 \<Longrightarrow>
   spec_stamp m now (Some p) (p\<lparr>created_at := 0, updated_at := 0\<rparr>) = p\<lparr>updated_at := now\<rparr>"
  by (cases p) (auto simp: spec_stamp_def)

end
