(* ===== verification/WgModel.thy ===== *)
theory WgModel
  imports NetAddr Interfaces
begin

text \<open>
  \<open>wireguard/model.rs\<close>: an interface and its peers, what makes them valid, the arithmetic
  on networks, and handing out addresses. Networks are parsed and printed by \<open>parse_net\<close>
  and \<open>show_net\<close> of the firewall model, and addresses are 128 bit words as in the code.
\<close>

unbundle bit_operations_syntax

definition MARKER :: string where "MARKER = ''# Managed by ASC''"
definition MAX_NAME :: nat where "MAX_NAME = 15"
definition MAX_PEERS :: nat where "MAX_PEERS = 1000"
definition DEFAULT_PORT :: nat where "DEFAULT_PORT = 51820"

section \<open>Interfaces and peers\<close>

record hooks =
  pre_up :: "string list"
  post_up :: "string list"
  pre_down :: "string list"
  post_down :: "string list"

definition no_hooks :: hooks where
  "no_hooks = \<lparr>pre_up = [], post_up = [], pre_down = [], post_down = []\<rparr>"

definition hooks_empty :: "hooks \<Rightarrow> bool" where
  "hooks_empty h = (pre_up h = [] \<and> post_up h = [] \<and> pre_down h = [] \<and> post_down h = [])"

definition hook_lines :: "hooks \<Rightarrow> string list" where
  "hook_lines h = concat (map (\<lambda>(key, cmds). map (\<lambda>cmd. key @ '': '' @ cmd) cmds)
     [(''PreUp'', pre_up h), (''PostUp'', post_up h), (''PreDown'', pre_down h), (''PostDown'', post_down h)])"

record peer =
  public_key :: string
  pname :: string
  penabled :: bool
  preshared_key :: string
  allowed_ips :: "string list"
  pendpoint :: string
  keepalive :: nat

definition new_peer :: "string \<Rightarrow> peer" where
  "new_peer k = \<lparr>public_key = k, pname = [], penabled = True, preshared_key = [], allowed_ips = [],
     pendpoint = [], keepalive = 0\<rparr>"

record iface =
  iname :: string
  private_key :: string
  listen_port :: "nat option"
  addresses :: "string list"
  dns :: "string list"
  client_dns :: "string list"
  mtu :: "nat option"
  table :: string
  fwmark :: string
  iendpoint :: string
  masquerade :: bool
  ihooks :: hooks
  peers :: "peer list"

definition new_iface :: "string \<Rightarrow> string \<Rightarrow> iface" where
  "new_iface n k = \<lparr>iname = n, private_key = k, listen_port = None, addresses = [], dns = [], client_dns = [],
     mtu = None, table = [], fwmark = [], iendpoint = [], masquerade = False, ihooks = no_hooks, peers = []\<rparr>"

datatype wg_error =
    BadPublicKey | BadPresharedKey | BadPeerName | BadNet net_error | BadIfaceName string | BadPrivateKey
  | ZeroPort | NoAddress | BadDns string | BadMtu | BadTable string | BadFwmark string | BadPublicHost
  | BadHook | NatNeedsV4 | TooManyPeers | SameKey string | SameRoute string string string
  | NoPeer string string | AmbiguousPeer nat string | NotAnEndpoint string | BadEndpointPort string
  | BadEndpointV6 string | AmbiguousEndpoint string | BadEndpointHost string | NoRoom string | NoFreeAddress string

section \<open>Syntax checks\<close>

definition name_char :: "char \<Rightarrow> bool" where
  "name_char c = (is_alnum c \<or> c \<in> set ''_=+.-'')"

definition valid_name :: "string \<Rightarrow> bool" where
  "valid_name n = (case n of [] \<Rightarrow> False | c # cs \<Rightarrow> is_alnum c \<and> byte_len n \<le> MAX_NAME \<and> list_all name_char cs)"

definition key_char :: "char \<Rightarrow> bool" where
  "key_char c = (is_alnum c \<or> c = CHR ''+'' \<or> c = CHR ''/'')"

definition valid_key :: "string \<Rightarrow> bool" where
  "valid_key k = (byte_len k = 44 \<and> ends_with ''='' k \<and> list_all key_char (butlast k))"

definition host_char :: "char \<Rightarrow> bool" where
  "host_char c = (is_alnum c \<or> c = CHR ''.'' \<or> c = CHR ''-'')"

definition valid_host :: "string \<Rightarrow> bool" where
  "valid_host h = (h \<noteq> [] \<and> byte_len h \<le> 253 \<and> (parse_ip h \<noteq> None \<or> list_all host_char h))"

definition valid_dns :: "string \<Rightarrow> bool" where
  "valid_dns v = (parse_ip v \<noteq> None \<or> byte_len v \<le> 253 \<and> list_all host_char v)"

definition valid_fwmark :: "string \<Rightarrow> bool" where
  "valid_fwmark v = (v = ''off'' \<or> parse_u32 v \<noteq> None
     \<or> (case strip_prefix ''0x'' v of None \<Rightarrow> False
        | Some h \<Rightarrow> h \<noteq> [] \<and> parse_radix 16 4294967295 h \<noteq> None))"

definition normalize_endpoint :: "string \<Rightarrow> wg_error + string" where
  "normalize_endpoint v0 = (let v = trim v0 in
     case rsplit_once (CHR '':'') v of
       None \<Rightarrow> Inl (NotAnEndpoint v)
     | Some (host, port_text) \<Rightarrow>
         (case parse_u16 port_text of
            None \<Rightarrow> Inl (BadEndpointPort v)
          | Some port \<Rightarrow>
              if port = 0 then Inl (BadEndpointPort v)
              else (case Option.bind (strip_prefix ''['' host) (strip_suffix '']'') of
                  Some v6 \<Rightarrow> if parse_v6 v6 \<noteq> None then Inr (''['' @ v6 @ '']:'' @ show_nat port)
                    else Inl (BadEndpointV6 v)
                | None \<Rightarrow> if parse_v6 host \<noteq> None then Inl (AmbiguousEndpoint v)
                    else if valid_host host then Inr (host @ '':'' @ show_nat port)
                    else Inl (BadEndpointHost v))))"

definition host_bits :: "net \<Rightarrow> nat" where
  "host_bits n = (if is_v6 n then 128 else 32)"

definition net_text :: "net \<Rightarrow> string" where
  "net_text n = (case prefix n of Some p \<Rightarrow> show_net n
     | None \<Rightarrow> show_ip (addr n) @ ''/'' @ show_nat (host_bits n))"

fun add_nets :: "string list \<Rightarrow> string list \<Rightarrow> wg_error + string list" where
  "add_nets out [] = Inr out"
| "add_nets out (item # rest) = (let item = trim item in
     if item = [] then add_nets out rest
     else and_then (map_err BadNet (parse_net item)) (\<lambda>n.
       add_nets (if net_text n \<in> set out then out else out @ [net_text n]) rest))"

definition normalize_nets :: "string list \<Rightarrow> wg_error + string list" where
  "normalize_nets l = add_nets [] l"

definition is_host_route :: "string \<Rightarrow> bool" where
  "is_host_route v = (case parse_net v of Inl e \<Rightarrow> False
     | Inr n \<Rightarrow> (case prefix n of None \<Rightarrow> False | Some p \<Rightarrow> unat p = host_bits n))"

section \<open>Arithmetic on networks\<close>

fun to_bits :: "ip_addr \<Rightarrow> 128 word" where
  "to_bits (V4 a) = ucast a"
| "to_bits (V6 a) = a"

definition from_bits :: "bool \<Rightarrow> 128 word \<Rightarrow> ip_addr" where
  "from_bits v6 b = (if v6 then V6 b else V4 (ucast b))"

definition net_mask :: "bool \<Rightarrow> nat \<Rightarrow> 128 word" where
  "net_mask v6 p0 = (let width = (if v6 then 128 else 32); p = min p0 width in
     if p = 0 then 0
     else let all_ones = (if v6 then - 1 else 4294967295) in push_bit (width - p) all_ones AND all_ones)"

definition prefix_len :: "net \<Rightarrow> nat" where
  "prefix_len n = (case prefix n of Some p \<Rightarrow> unat p | None \<Rightarrow> host_bits n)"

definition network_of :: "net \<Rightarrow> string" where
  "network_of n = (let base = to_bits (addr n) AND net_mask (is_v6 n) (prefix_len n) in
     show_ip (from_bits (is_v6 n) base) @ ''/'' @ show_nat (prefix_len n))"

definition contains_net :: "net \<Rightarrow> net \<Rightarrow> bool" where
  "contains_net outer inner =
     (if is_v6 outer \<noteq> is_v6 inner then False
      else let m = net_mask (is_v6 outer) (prefix_len outer) in
        prefix_len outer \<le> prefix_len inner \<and> to_bits (addr outer) AND m = to_bits (addr inner) AND m)"

text \<open>The scan of at most \<open>n\<close> host numbers from \<open>h\<close> on.\<close>

fun scan_hosts :: "bool \<Rightarrow> 128 word \<Rightarrow> ip_addr list \<Rightarrow> nat \<Rightarrow> nat \<Rightarrow> ip_addr option" where
  "scan_hosts v6 base used h 0 = None"
| "scan_hosts v6 base used h (Suc n) = (let ip = from_bits v6 (base + of_nat h) in
     if ip \<notin> set used then Some ip else scan_hosts v6 base used (Suc h) n)"

definition last_host :: "bool \<Rightarrow> nat \<Rightarrow> nat" where
  "last_host v6 shift = (let size = (if 127 \<le> shift then 2 ^ 128 - 1 else 2 ^ shift) in
     if v6 then size - 1 else size - 2)"

definition allocate :: "net \<Rightarrow> ip_addr list \<Rightarrow> wg_error + string" where
  "allocate n used = (let v6 = is_v6 n; width = host_bits n; p = prefix_len n in
     if width - 1 \<le> p then Inl (NoRoom (show_net n))
     else let base = to_bits (addr n) AND net_mask v6 p in
       (case scan_hosts v6 base used 1 (min (last_host v6 (width - p)) (2 ^ 20)) of
          Some ip \<Rightarrow> Inr (show_ip ip @ ''/'' @ show_nat width)
        | None \<Rightarrow> Inl (NoFreeAddress (network_of n))))"

section \<open>Normalisation\<close>

definition check :: "bool \<Rightarrow> wg_error \<Rightarrow> wg_error + unit" where
  "check c e = guard (\<not> c) e"

definition peer_normalize :: "peer \<Rightarrow> wg_error + peer" where
  "peer_normalize p =
     and_then (check (\<not> valid_key (public_key p)) BadPublicKey) (\<lambda>_.
     and_then (check (preshared_key p \<noteq> [] \<and> \<not> valid_key (preshared_key p)) BadPresharedKey) (\<lambda>_.
     let name = trim (pname p) in
     and_then (check (64 < length name \<or> list_ex is_control name) BadPeerName) (\<lambda>_.
     and_then (normalize_nets (allowed_ips p)) (\<lambda>ips.
     let e = trim (pendpoint p) in
     map_ok (\<lambda>e. p\<lparr>pname := name, allowed_ips := ips, pendpoint := e\<rparr>)
       (if e = [] then Inr [] else normalize_endpoint e)))))"

definition trimmed_items :: "string list \<Rightarrow> string list" where
  "trimmed_items l = filter (\<lambda>d. d \<noteq> []) (map trim l)"

definition normalize_dns :: "string list \<Rightarrow> wg_error + string list" where
  "normalize_dns l = (let ds = trimmed_items l in
     case find (\<lambda>d. \<not> valid_dns d) ds of Some bad \<Rightarrow> Inl (BadDns bad) | None \<Rightarrow> Inr ds)"

definition table_char :: "char \<Rightarrow> bool" where
  "table_char c = (is_alnum c \<or> c = CHR ''_'' \<or> c = CHR ''-'')"

definition all_hooks :: "hooks \<Rightarrow> string list" where
  "all_hooks h = pre_up h @ post_up h @ pre_down h @ post_down h"

definition bad_hook :: "string \<Rightarrow> bool" where
  "bad_hook h = (trim h = [] \<or> CHR 0x0A \<in> set h \<or> CHR 0x0D \<in> set h)"

definition ipv4_subnet :: "iface \<Rightarrow> string option" where
  "ipv4_subnet i = List.find (\<lambda>_. True) (List.map_filter (\<lambda>a. case parse_net a of Inl e \<Rightarrow> None
     | Inr n \<Rightarrow> if is_v6 n then None else Some (network_of n)) (addresses i))"

text \<open>The routes of one peer against those of the peers before it.\<close>

fun check_routes :: "string \<Rightarrow> (string \<times> string) list \<Rightarrow> string list \<Rightarrow> wg_error + (string \<times> string) list" where
  "check_routes name hosts [] = Inr hosts"
| "check_routes name hosts (ip # ips) =
     (if is_host_route ip then
        (case map_of hosts ip of
           Some other \<Rightarrow> Inl (SameRoute ip other name)
         | None \<Rightarrow> check_routes name (hosts @ [(ip, name)]) ips)
      else check_routes name hosts ips)"

fun check_peers :: "string list \<Rightarrow> (string \<times> string) list \<Rightarrow> peer list \<Rightarrow> wg_error + peer list" where
  "check_peers keys hosts [] = Inr []"
| "check_peers keys hosts (p # ps) =
     and_then (peer_normalize p) (\<lambda>q.
     and_then (check (public_key q \<in> set keys) (SameKey (public_key q))) (\<lambda>_.
     and_then (check_routes (pname q) hosts (allowed_ips q)) (\<lambda>hosts.
     map_ok ((#) q) (check_peers (public_key q # keys) hosts ps))))"

definition normalize :: "iface \<Rightarrow> wg_error + iface" where
  "normalize i =
     and_then (check (\<not> valid_name (iname i)) (BadIfaceName (iname i))) (\<lambda>_.
     and_then (check (\<not> valid_key (private_key i)) BadPrivateKey) (\<lambda>_.
     and_then (check (listen_port i = Some 0) ZeroPort) (\<lambda>_.
     and_then (normalize_nets (addresses i)) (\<lambda>addrs.
     and_then (check (addrs = []) NoAddress) (\<lambda>_.
     and_then (normalize_dns (dns i)) (\<lambda>ds.
     and_then (normalize_dns (client_dns i)) (\<lambda>cds.
     and_then (check (case mtu i of Some m \<Rightarrow> \<not> (576 \<le> m \<and> m \<le> 9000) | None \<Rightarrow> False) BadMtu) (\<lambda>_.
     let tab = trim (table i); mark = trim (fwmark i); ep = trim (iendpoint i);
         j = i\<lparr>addresses := addrs, dns := ds, client_dns := cds, table := tab, fwmark := mark, iendpoint := ep\<rparr> in
     and_then (check (\<not> list_all table_char tab) (BadTable tab)) (\<lambda>_.
     and_then (check (mark \<noteq> [] \<and> \<not> valid_fwmark mark) (BadFwmark mark)) (\<lambda>_.
     and_then (check (ep \<noteq> [] \<and> \<not> valid_host ep) BadPublicHost) (\<lambda>_.
     and_then (check (list_ex bad_hook (all_hooks (ihooks i))) BadHook) (\<lambda>_.
     and_then (check (masquerade i \<and> ipv4_subnet j = None) NatNeedsV4) (\<lambda>_.
     and_then (check (MAX_PEERS < length (peers i)) TooManyPeers) (\<lambda>_.
     map_ok (\<lambda>ps. j\<lparr>peers := ps\<rparr>) (check_peers [] [] (peers i))))))))))))))))"

section \<open>Queries\<close>

fun add_subnets :: "string list \<Rightarrow> string list \<Rightarrow> string list" where
  "add_subnets out [] = out"
| "add_subnets out (a # as) = (case parse_net a of
     Inl e \<Rightarrow> add_subnets out as
   | Inr n \<Rightarrow> add_subnets (if network_of n \<in> set out then out else out @ [network_of n]) as)"

definition subnets :: "iface \<Rightarrow> string list" where
  "subnets i = add_subnets [] (addresses i)"

definition position :: "('a \<Rightarrow> bool) \<Rightarrow> 'a list \<Rightarrow> nat list" where
  "position P xs = filter (\<lambda>k. P (xs ! k)) [0..<length xs]"

definition peer_index :: "iface \<Rightarrow> string \<Rightarrow> wg_error module_error + nat" where
  "peer_index i raw = (let pid = trim raw in
     case position (\<lambda>p. public_key p = pid) (peers i) of
       k # _ \<Rightarrow> Inr k
     | [] \<Rightarrow> (let by_name = position (\<lambda>p. pid \<noteq> [] \<and> pname p = pid) (peers i) in
         case by_name of
           [k] \<Rightarrow> Inr k
         | [] \<Rightarrow> Inl (NotFound (NoPeer pid (iname i)))
         | _ \<Rightarrow> Inl (Invalid (AmbiguousPeer (length by_name) pid))))"

definition extra_routes :: "iface \<Rightarrow> string set" where
  "extra_routes i = (let own = List.map_filter (\<lambda>s. ok_of (parse_net s)) (subnets i) in
     set (filter (\<lambda>ip. case parse_net ip of Inl e \<Rightarrow> False | Inr n \<Rightarrow> \<not> list_ex (\<lambda>s. contains_net s n) own)
       (concat (map allowed_ips (filter penabled (peers i))))))"

definition used_addresses :: "iface \<Rightarrow> ip_addr list" where
  "used_addresses i =
     List.map_filter (\<lambda>a. map_option addr (ok_of (parse_net a))) (addresses i)
     @ List.map_filter (\<lambda>ip. case parse_net ip of Inl e \<Rightarrow> None
          | Inr n \<Rightarrow> if prefix_len n = host_bits n then Some (addr n) else None)
        (concat (map allowed_ips (peers i)))"

fun free_each :: "ip_addr list \<Rightarrow> bool \<Rightarrow> bool \<Rightarrow> string list \<Rightarrow> wg_error + string list" where
  "free_each used v4 v6 [] = Inr []"
| "free_each used v4 v6 (a # as) =
     and_then (map_err BadNet (parse_net a)) (\<lambda>n.
       if (if is_v6 n then v6 else v4) then free_each used v4 v6 as
       else and_then (allocate n used) (\<lambda>t.
         map_ok ((#) t) (free_each used (v4 \<or> \<not> is_v6 n) (v6 \<or> is_v6 n) as)))"

definition free_addresses :: "iface \<Rightarrow> wg_error + string list" where
  "free_addresses i = free_each (used_addresses i) False False (addresses i)"

definition port_or_default :: "iface \<Rightarrow> nat" where
  "port_or_default i = (case listen_port i of Some p \<Rightarrow> p | None \<Rightarrow> DEFAULT_PORT)"

end
