(* ===== verification/WgConf.thy ===== *)
theory WgConf
  imports WgModel Texts
begin

text \<open>
  \<open>wireguard/conf.rs\<close>: reading and writing the configuration file of an interface, the view
  of a file with its secrets hidden, and the configuration of a client. Warnings and errors
  are constructors with what their text mentions.
\<close>

definition NAT_TAG :: string where "NAT_TAG = ''# asc:nat''"
definition OFF_PREFIX :: string where "OFF_PREFIX = ''#asc:off ''"

section \<open>Reading\<close>

datatype conf_error =
    SecondInterface nat | UnknownSection nat string | NotKeyValue nat string | OutsideSection nat string
  | NotAPort nat string | NotAnMtu nat string | NotAKeepalive nat string | NoInterface | NoPrivateKey

datatype conf_warning = PeerWithoutKey | SaveConfigDropped | UnknownKey string | UnknownPeerKey string

datatype conf_section = NoSection | InInterface | InPeer

record parse_state =
  st_iface :: iface
  st_section :: conf_section
  st_seen :: bool
  st_peer :: "peer option"
  st_warnings :: "conf_warning list"

record parsed =
  p_iface :: iface
  managed :: bool
  warnings :: "conf_warning list"

definition asc_comment :: "string \<Rightarrow> (string \<times> string) option" where
  "asc_comment line = (case strip_prefix ''#'' (trim line) of
     None \<Rightarrow> None
   | Some r \<Rightarrow> (case strip_prefix ''asc:'' (trim_start r) of
       None \<Rightarrow> None
     | Some body \<Rightarrow> Some (case split_once (CHR ''='') body of
         Some (k, v) \<Rightarrow> (trim k, trim v) | None \<Rightarrow> (trim body, []))))"

definition comma_items :: "string \<Rightarrow> string list" where
  "comma_items v = trimmed_items (split_char (CHR '','') v)"

definition finish_peer :: "parse_state \<Rightarrow> parse_state" where
  "finish_peer s = (case st_peer s of
     None \<Rightarrow> s
   | Some p \<Rightarrow>
       if public_key p = [] then s\<lparr>st_peer := None, st_warnings := st_warnings s @ [PeerWithoutKey]\<rparr>
       else s\<lparr>st_peer := None, st_iface := (st_iface s)\<lparr>peers := peers (st_iface s) @ [p]\<rparr>\<rparr>)"

definition apply_asc :: "parse_state \<Rightarrow> string \<Rightarrow> string \<Rightarrow> parse_state" where
  "apply_asc s k v = (case st_section s of
     InInterface \<Rightarrow>
       if k = ''endpoint'' then s\<lparr>st_iface := (st_iface s)\<lparr>iendpoint := v\<rparr>\<rparr>
       else if k = ''masquerade'' then s\<lparr>st_iface := (st_iface s)\<lparr>masquerade := True\<rparr>\<rparr>
       else if k = ''client-dns'' then s\<lparr>st_iface := (st_iface s)\<lparr>client_dns := comma_items v\<rparr>\<rparr>
       else s
   | InPeer \<Rightarrow> if k = ''name'' then s\<lparr>st_peer := map_option (\<lambda>p. p\<lparr>pname := v\<rparr>) (st_peer s)\<rparr> else s
   | NoSection \<Rightarrow> s)"

definition add_hook :: "((string list \<Rightarrow> string list) \<Rightarrow> hooks \<Rightarrow> hooks) \<Rightarrow> string \<Rightarrow> iface \<Rightarrow> iface" where
  "add_hook upd v i = i\<lparr>ihooks := upd (\<lambda>l. l @ [v]) (ihooks i)\<rparr>"

definition warn :: "conf_warning \<Rightarrow> parse_state \<Rightarrow> parse_state" where
  "warn w s = s\<lparr>st_warnings := st_warnings s @ [w]\<rparr>"

definition with_iface :: "parse_state \<Rightarrow> iface \<Rightarrow> parse_state" where
  "with_iface s i = s\<lparr>st_iface := i\<rparr>"

definition iface_key :: "nat \<Rightarrow> string \<Rightarrow> string \<Rightarrow> parse_state \<Rightarrow> conf_error + parse_state" where
  "iface_key n k v s = (let i = st_iface s in
     if k = ''privatekey'' then Inr (with_iface s (i\<lparr>private_key := v\<rparr>))
     else if k = ''address'' then Inr (with_iface s (i\<lparr>addresses := addresses i @ comma_items v\<rparr>))
     else if k = ''listenport'' then
       map_ok (\<lambda>p. with_iface s (i\<lparr>listen_port := Some p\<rparr>)) (ok_or (NotAPort n v) (parse_u16 v))
     else if k = ''dns'' then Inr (with_iface s (i\<lparr>dns := dns i @ comma_items v\<rparr>))
     else if k = ''mtu'' then
       map_ok (\<lambda>m. with_iface s (i\<lparr>mtu := Some m\<rparr>)) (ok_or (NotAnMtu n v) (parse_u16 v))
     else if k = ''table'' then Inr (with_iface s (i\<lparr>table := v\<rparr>))
     else if k = ''fwmark'' then Inr (with_iface s (i\<lparr>fwmark := v\<rparr>))
     else if k = ''preup'' then Inr (with_iface s (add_hook pre_up_update v i))
     else if k = ''postup'' then Inr (with_iface s (add_hook post_up_update v i))
     else if k = ''predown'' then Inr (with_iface s (add_hook pre_down_update v i))
     else if k = ''postdown'' then Inr (with_iface s (add_hook post_down_update v i))
     else if k = ''saveconfig'' then Inr (if eq_nocase v ''true'' then warn SaveConfigDropped s else s)
     else Inr (warn (UnknownKey k) s))"

definition peer_key :: "nat \<Rightarrow> string \<Rightarrow> string \<Rightarrow> parse_state \<Rightarrow> conf_error + parse_state" where
  "peer_key n k v s = (case st_peer s of
     None \<Rightarrow> Inr s
   | Some p \<Rightarrow>
       if k = ''publickey'' then Inr (s\<lparr>st_peer := Some (p\<lparr>public_key := v\<rparr>)\<rparr>)
       else if k = ''presharedkey'' then Inr (s\<lparr>st_peer := Some (p\<lparr>preshared_key := v\<rparr>)\<rparr>)
       else if k = ''allowedips'' then Inr (s\<lparr>st_peer := Some (p\<lparr>allowed_ips := allowed_ips p @ comma_items v\<rparr>)\<rparr>)
       else if k = ''endpoint'' then Inr (s\<lparr>st_peer := Some (p\<lparr>pendpoint := v\<rparr>)\<rparr>)
       else if k = ''persistentkeepalive'' then
         map_ok (\<lambda>t. s\<lparr>st_peer := Some (p\<lparr>keepalive := t\<rparr>)\<rparr>)
           (if eq_nocase v ''off'' then Inr 0 else ok_or (NotAKeepalive n v) (parse_u16 v))
       else Inr (warn (UnknownPeerKey k) s))"

definition header_line :: "nat \<Rightarrow> string \<Rightarrow> bool \<Rightarrow> parse_state \<Rightarrow> conf_error + parse_state" where
  "header_line n content off s =
     (if to_lower content = ''[interface]'' then
        (if st_seen s then Inl (SecondInterface n)
         else Inr ((finish_peer s)\<lparr>st_seen := True, st_section := InInterface\<rparr>))
      else if to_lower content = ''[peer]'' then
        Inr ((finish_peer s)\<lparr>st_peer := Some ((new_peer [])\<lparr>penabled := \<not> off\<rparr>), st_section := InPeer\<rparr>)
      else Inl (UnknownSection n content))"

definition key_line :: "nat \<Rightarrow> string \<Rightarrow> parse_state \<Rightarrow> conf_error + parse_state" where
  "key_line n content s = (case split_once (CHR ''='') content of
     None \<Rightarrow> Inl (NotKeyValue n content)
   | Some (k0, v0) \<Rightarrow> (let k = to_lower (trim k0); v = trim v0 in
       case st_section s of
         NoSection \<Rightarrow> Inl (OutsideSection n content)
       | InInterface \<Rightarrow> iface_key n k v s
       | InPeer \<Rightarrow> peer_key n k v s))"

definition plain_line :: "nat \<Rightarrow> string \<Rightarrow> bool \<Rightarrow> parse_state \<Rightarrow> conf_error + parse_state" where
  "plain_line n line off s = (let content = trim (hd (split_char (CHR ''#'') line)) in
     if content = [] then Inr s
     else if starts_with ''['' content then header_line n content off s
     else key_line n content s)"

definition parse_line :: "nat \<Rightarrow> string \<Rightarrow> parse_state \<Rightarrow> conf_error + parse_state" where
  "parse_line n raw s =
     (let (line, off) = (case strip_prefix (trim_end OFF_PREFIX) (trim raw) of
          Some rest \<Rightarrow> (trim_start rest, True) | None \<Rightarrow> (trim raw, False)) in
      if line = [] then Inr s
      else if starts_with ''#'' line then
        Inr (case asc_comment line of Some (k, v) \<Rightarrow> apply_asc s k v | None \<Rightarrow> s)
      else if has_infix NAT_TAG line then Inr s
      else plain_line n line off s)"

fun parse_lines :: "nat \<Rightarrow> string list \<Rightarrow> parse_state \<Rightarrow> conf_error + parse_state" where
  "parse_lines n [] s = Inr s"
| "parse_lines n (l # ls) s = and_then (parse_line n l s) (parse_lines (Suc n) ls)"

definition is_managed :: "string \<Rightarrow> bool" where
  "is_managed text = (case find (\<lambda>l. l \<noteq> []) (map trim (lines text)) of
     None \<Rightarrow> False | Some l \<Rightarrow> starts_with MARKER l)"

definition parse :: "string \<Rightarrow> string \<Rightarrow> conf_error + parsed" where
  "parse name text =
     and_then (parse_lines 1 (lines text)
       \<lparr>st_iface = new_iface name [], st_section = NoSection, st_seen = False, st_peer = None, st_warnings = []\<rparr>)
     (\<lambda>s0. let s = finish_peer s0 in
       if \<not> st_seen s then Inl NoInterface
       else if private_key (st_iface s) = [] then Inl NoPrivateKey
       else Inr \<lparr>p_iface = st_iface s, managed = is_managed text, warnings = st_warnings s\<rparr>)"

section \<open>Writing\<close>

definition nat_table :: "string \<Rightarrow> string" where
  "nat_table name = ''asc_wg_'' @ map (\<lambda>c. if is_alnum c then c else CHR ''_'') name"

definition nat_hooks :: "iface \<Rightarrow> string list \<times> string list" where
  "nat_hooks i = (case (if masquerade i then ipv4_subnet i else None) of
     None \<Rightarrow> ([], [])
   | Some subnet \<Rightarrow> (let t = nat_table (iname i) in
       ([''sysctl -q -w net.ipv4.ip_forward=1'',
         ''nft '' @ SQUOTE @ ''add table ip '' @ t @ ''; add chain ip '' @ t
         @ '' postrouting { type nat hook postrouting priority srcnat; }; add rule ip '' @ t
         @ '' postrouting ip saddr '' @ subnet @ '' oifname != '' @ DQUOTE @ iname i @ DQUOTE @ '' masquerade'' @ SQUOTE],
        [''nft delete table ip '' @ t @ '' || true''])))"

definition key_value :: "string \<Rightarrow> string \<Rightarrow> string" where
  "key_value k v = k @ '' = '' @ v"

definition opt_line :: "bool \<Rightarrow> string \<Rightarrow> string list" where
  "opt_line c l = (if c then [l] else [])"

definition nat_line :: "string \<Rightarrow> string \<Rightarrow> string" where
  "nat_line k cmd = key_value k (cmd @ '' '' @ NAT_TAG)"

definition comment_lines :: "string list" where
  "comment_lines = [MARKER @ ''. Edit with `asc wireguard` or the panel; the `# asc:` comments carry'',
     ''# the daemon'' @ SQUOTE @ ''s own settings and are read back.'', []]"

definition asc_lines :: "iface \<Rightarrow> string list" where
  "asc_lines i = opt_line (iendpoint i \<noteq> []) (key_value ''# asc:endpoint'' (iendpoint i))
     @ opt_line (masquerade i) ''# asc:masquerade''
     @ opt_line (client_dns i \<noteq> []) (key_value ''# asc:client-dns'' (join '', '' (client_dns i)))"

definition field_lines :: "iface \<Rightarrow> string list" where
  "field_lines i = [key_value ''PrivateKey'' (private_key i), key_value ''Address'' (join '', '' (addresses i))]
     @ (case listen_port i of Some p \<Rightarrow> [key_value ''ListenPort'' (show_nat p)] | None \<Rightarrow> [])
     @ opt_line (dns i \<noteq> []) (key_value ''DNS'' (join '', '' (dns i)))
     @ (case mtu i of Some m \<Rightarrow> [key_value ''MTU'' (show_nat m)] | None \<Rightarrow> [])
     @ opt_line (table i \<noteq> []) (key_value ''Table'' (table i))
     @ opt_line (fwmark i \<noteq> []) (key_value ''FwMark'' (fwmark i))"

definition hook_block :: "iface \<Rightarrow> string list" where
  "hook_block i = map (key_value ''PreUp'') (pre_up (ihooks i))
     @ map (key_value ''PostUp'') (post_up (ihooks i)) @ map (nat_line ''PostUp'') (fst (nat_hooks i))
     @ map (key_value ''PreDown'') (pre_down (ihooks i))
     @ map (key_value ''PostDown'') (post_down (ihooks i)) @ map (nat_line ''PostDown'') (snd (nat_hooks i))"

definition peer_block :: "peer \<Rightarrow> string list" where
  "peer_block p = [''[Peer]''] @ opt_line (pname p \<noteq> []) (key_value ''# asc:name'' (pname p))
     @ [key_value ''PublicKey'' (public_key p)]
     @ opt_line (preshared_key p \<noteq> []) (key_value ''PresharedKey'' (preshared_key p))
     @ opt_line (allowed_ips p \<noteq> []) (key_value ''AllowedIPs'' (join '', '' (allowed_ips p)))
     @ opt_line (pendpoint p \<noteq> []) (key_value ''Endpoint'' (pendpoint p))
     @ opt_line (0 < keepalive p) (key_value ''PersistentKeepalive'' (show_nat (keepalive p)))"

definition peer_text :: "peer \<Rightarrow> string" where
  "peer_text p = LF @ (if penabled p then unlines (peer_block p)
     else unlines (map (\<lambda>l. OFF_PREFIX @ l) (lines (unlines (peer_block p)))))"

definition render :: "iface \<Rightarrow> string" where
  "render i = unlines (comment_lines @ [''[Interface]''] @ asc_lines i @ field_lines i @ hook_block i)
     @ concat (map peer_text (peers i))"

section \<open>Hiding the secrets\<close>

definition redact_line :: "string \<Rightarrow> string" where
  "redact_line line =
     (let (pre, body) = (case strip_prefix (trim_end OFF_PREFIX) line of
          Some rest \<Rightarrow> (trim_end OFF_PREFIX, rest) | None \<Rightarrow> ([], line));
        body1 = trim_start body in
      case split_once (CHR ''='') body1 of
        Some (k, v) \<Rightarrow>
          if \<not> starts_with ''#'' body1 \<and> to_lower (trim k) \<in> {''privatekey'', ''presharedkey''}
          then pre @ take (length body - length body1) body @ key_value (trim k) ''(hidden)''
          else line
      | None \<Rightarrow> line)"

definition redact :: "string \<Rightarrow> string" where
  "redact text = unlines (map redact_line (lines text))"

section \<open>The client's configuration\<close>

datatype routes = Full | Subnet | Custom "string list"

datatype client_error = NoRoutes | NoHostAddress | RouteError wg_error

definition routes_parse :: "string \<Rightarrow> client_error + routes" where
  "routes_parse v0 = (let v = trim v0; l = to_lower v in
     if l = [] \<or> l = ''subnet'' then Inr Subnet
     else if l = ''full'' then Inr Full
     else and_then (map_err RouteError (normalize_nets (comma_items v)))
       (\<lambda>nets. if nets = [] then Inl NoRoutes else Inr (Custom nets)))"

record client_options =
  co_routes :: routes
  co_dns :: "string list"
  co_endpoint :: string

definition bracket :: "string \<Rightarrow> string" where
  "bracket host = (if CHR '':'' \<in> set host \<and> \<not> starts_with ''['' host then ''['' @ host @ '']'' else host)"

definition client_host :: "iface \<Rightarrow> client_options \<Rightarrow> string \<Rightarrow> string" where
  "client_host server opts fallback =
     (case find (\<lambda>h. h \<noteq> []) (map trim [co_endpoint opts, iendpoint server, fallback]) of
        Some h \<Rightarrow> h | None \<Rightarrow> ''<SERVER_ADDRESS>'')"

definition client_routes :: "iface \<Rightarrow> client_options \<Rightarrow> string list" where
  "client_routes server opts = (case co_routes opts of
     Full \<Rightarrow> [''0.0.0.0/0'', ''::/0''] | Subnet \<Rightarrow> subnets server | Custom l \<Rightarrow> l)"

definition client_lines ::
  "iface \<Rightarrow> string \<Rightarrow> peer \<Rightarrow> string option \<Rightarrow> client_options \<Rightarrow> string \<Rightarrow> string list" where
  "client_lines server server_key p key opts fallback =
     (let cdns = (if co_dns opts = [] then client_dns server else co_dns opts) in
      [''[Interface]'', key_value ''PrivateKey'' (case key of Some k \<Rightarrow> k | None \<Rightarrow> ''<PRIVATE_KEY>''),
       key_value ''Address'' (join '', '' (filter is_host_route (allowed_ips p)))]
      @ opt_line (cdns \<noteq> []) (key_value ''DNS'' (join '', '' cdns))
      @ (case mtu server of Some m \<Rightarrow> [key_value ''MTU'' (show_nat m)] | None \<Rightarrow> [])
      @ [[], ''[Peer]'', key_value ''PublicKey'' server_key]
      @ opt_line (preshared_key p \<noteq> []) (key_value ''PresharedKey'' (preshared_key p))
      @ [key_value ''Endpoint'' (bracket (client_host server opts fallback) @ '':'' @ show_nat (port_or_default server)),
         key_value ''AllowedIPs'' (join '', '' (client_routes server opts))]
      @ opt_line (0 < keepalive p) (key_value ''PersistentKeepalive'' (show_nat (keepalive p))))"

definition client_config ::
  "iface \<Rightarrow> string \<Rightarrow> peer \<Rightarrow> string option \<Rightarrow> client_options \<Rightarrow> string \<Rightarrow> client_error + string" where
  "client_config server server_key p key opts fallback =
     (if filter is_host_route (allowed_ips p) = [] then Inl NoHostAddress
      else and_then (traverse (\<lambda>r. map_err (\<lambda>e. RouteError (BadNet e)) (parse_net r)) (client_routes server opts))
        (\<lambda>_. Inr (unlines (client_lines server server_key p key opts fallback))))"

end
