(* ===== verification/WgTool.thy ===== *)
theory WgTool
  imports WgConf HostIO "HOL-Library.AList"
begin

text \<open>
  \<open>wireguard/tool.rs\<close>: the tools \<open>wg\<close>, \<open>wg-quick\<close> and \<open>systemctl\<close> as the daemon calls them. The
  tools themselves are arguments: each is a function of the interface, the files it may read and the state
  of tunnels and units, which says whether it succeeds and what it leaves behind. One tool writes files:
  \<open>wg-quick down\<close> saves its settings over a file that asks for it with \<open>SaveConfig = true\<close> (\<open>saving\<close>).
  \<open>documented\<close> states what their manuals promise; only what is said about tunnels rests on it.
\<close>

section \<open>The world\<close>

text \<open>A file is a text, or bytes that are no text.\<close>

datatype conf_file = Text string | Raw string

text \<open>A tunnel knows the file \<open>wg-quick\<close> built it from, and what \<open>wg\<close> was told last.\<close>

record tunnel =
  built_from :: string
  loaded :: string

text \<open>The tunnels, and what systemd keeps of the units, as words.\<close>

type_synonym node = "(string \<Rightarrow> tunnel option) \<times> (string \<Rightarrow> string list)"

type_synonym wg_tool = "string \<Rightarrow> (string \<Rightarrow> string option) \<Rightarrow> node \<Rightarrow> bool \<times> node"

record wg_env =
  systemd :: bool
  quick_up :: wg_tool
  quick_down :: wg_tool
  unit_start :: wg_tool
  unit_restart :: wg_tool
  unit_stop :: wg_tool
  unit_enable :: wg_tool
  unit_disable :: wg_tool
  sync_with :: "string \<Rightarrow> wg_tool"
  saved_as :: "string \<Rightarrow> conf_file \<Rightarrow> tunnel \<Rightarrow> string option"
  strip_of :: "string \<Rightarrow> string option"
  pub_of :: "string \<Rightarrow> string option"
  key_at :: "nat \<Rightarrow> string"
  dump_of :: "tunnel \<Rightarrow> string"
  enabled_text :: "string list \<Rightarrow> string"
  version_text :: string
  route_text :: string
  journal_text :: "string \<Rightarrow> string"

text \<open>The files of \<open>/etc/wireguard\<close> and the candidates by their names, and what runs.\<close>

record wg_world =
  conf_dir :: "(string \<times> conf_file) list"
  work_dir :: "(string \<times> string) list"
  tunnels :: "string \<Rightarrow> tunnel option"
  unit_words :: "string \<Rightarrow> string list"
  tools_there :: bool
  keys_made :: nat
  wg_outs :: "outcome list"

datatype wg_fail =
    NoWireguard | UnusableName string | NotOurs string | BadFile string conf_error | CannotRead string
  | NoSuchInterface string | BadModel wg_error | BadImport conf_error | RefusedConf | NotApplied | CannotWrite
  | CommandFails string | UnitFails string string | UnexpectedDump string | PortTaken nat string | DidNotComeUp string
  | HooksUnacknowledged "string list" | NameTaken string | PeerNeedsRoutes | ClientError client_error | PackageFails
  | ToolsMissing | LostPeer

type_synonym 'a wg_io = "(wg_world, wg_fail module_error, 'a) io"

definition wg_effect :: "wg_fail \<Rightarrow> (wg_world \<Rightarrow> wg_world) \<Rightarrow> unit wg_io" where
  "wg_effect e f = step_io wg_outs (\<lambda>os w. w\<lparr>wg_outs := os\<rparr>) (Other e) f"

definition ask_tool :: "string \<Rightarrow> (wg_world \<Rightarrow> 'a) \<Rightarrow> 'a wg_io" where
  "ask_tool c g = seq (wg_effect (CommandFails c) (\<lambda>w. w)) (asks g)"

definition or_else :: "'a \<Rightarrow> 'a wg_io \<Rightarrow> 'a wg_io" where
  "or_else d m = bind (catch m) (\<lambda>r. case r of Inl e \<Rightarrow> ret d | Inr x \<Rightarrow> ret x)"

section \<open>Running a tool\<close>

definition conf_file_name :: "string \<Rightarrow> string" where
  "conf_file_name n = n @ ''.conf''"

definition conf_text :: "wg_world \<Rightarrow> string \<Rightarrow> string option" where
  "conf_text w n = (case map_of (conf_dir w) (conf_file_name n) of Some (Text t) \<Rightarrow> Some t | _ \<Rightarrow> None)"

definition tool_call :: "wg_tool \<Rightarrow> string \<Rightarrow> wg_world \<Rightarrow> bool \<times> wg_world" where
  "tool_call f n w = (case f n (conf_text w) (tunnels w, unit_words w) of
     (ok, ts, us) \<Rightarrow> (ok, w\<lparr>tunnels := ts, unit_words := us\<rparr>))"

text \<open>A tool that cannot be started does nothing; one that fails leaves behind what it likes.\<close>

definition tool_run :: "string \<Rightarrow> wg_tool \<Rightarrow> string \<Rightarrow> unit wg_io" where
  "tool_run c f n = (\<lambda>w. case tool_call f n w of (ok, u) \<Rightarrow> (if ok then Inr () else Inl (Other (CommandFails c)), u))"

definition tool_command :: "string \<Rightarrow> wg_tool \<Rightarrow> string \<Rightarrow> unit wg_io" where
  "tool_command c f n = seq (wg_effect (CommandFails c) (\<lambda>w. w)) (tool_run c f n)"

text \<open>
  \<open>wg-quick down\<close>, which systemd runs when it stops or restarts a unit, first saves the settings of a running
  interface over its file, if that says \<open>SaveConfig = true\<close>. What it writes begins with the header of the
  section and has no comments; \<open>saved_as\<close> is the rest, or \<open>None\<close> when it does not come to it.
\<close>

definition saves_line :: "string \<Rightarrow> bool" where
  "saves_line l = (case split_once (CHR ''='') (hd (split_char (CHR ''#'') l)) of
     Some (k, v) \<Rightarrow> to_lower (trim k) = ''saveconfig'' \<and> to_lower (trim v) = ''true'' | None \<Rightarrow> False)"

definition asks_saving :: "conf_file \<Rightarrow> bool" where
  "asks_saving c = list_ex saves_line (lines (case c of Text t \<Rightarrow> t | Raw b \<Rightarrow> b))"

definition saved_file :: "string \<Rightarrow> conf_file" where
  "saved_file s = Text (''[Interface]'' @ LF @ s)"

definition saving :: "wg_env \<Rightarrow> string \<Rightarrow> wg_world \<Rightarrow> wg_world" where
  "saving env n w = (case (map_of (conf_dir w) (conf_file_name n), tunnels w n) of
     (Some c, Some t) \<Rightarrow> (case (if asks_saving c then saved_as env n c t else None) of
         Some s \<Rightarrow> w\<lparr>conf_dir := AList.update (conf_file_name n) (saved_file s) (conf_dir w)\<rparr> | None \<Rightarrow> w)
   | _ \<Rightarrow> w)"

definition down_command :: "wg_env \<Rightarrow> string \<Rightarrow> wg_tool \<Rightarrow> string \<Rightarrow> unit wg_io" where
  "down_command env c f n = seq (wg_effect (CommandFails c) (\<lambda>w. w)) (seq (modify (saving env n)) (tool_run c f n))"

text \<open>
  What the manuals say. A tool called for an interface leaves the others alone; its own tunnel is as before,
  gone, or built from its file as that is now - built, when \<open>wg-quick up\<close> or a restart of the unit says that it
  worked. \<open>wg syncconf\<close> loads the text it is given and builds nothing.
\<close>

definition fresh :: "wg_env \<Rightarrow> (string \<Rightarrow> string option) \<Rightarrow> string \<Rightarrow> tunnel option \<Rightarrow> bool" where
  "fresh env fs n x \<longleftrightarrow> (\<exists>c s. fs n = Some c \<and> strip_of env c = Some s \<and> x = Some \<lparr>built_from = c, loaded = s\<rparr>)"

definition settles :: "wg_env \<Rightarrow> wg_tool \<Rightarrow> bool" where
  "settles env f \<longleftrightarrow> (\<forall>n fs ts us. case f n fs (ts, us) of (ok, ts', us') \<Rightarrow>
     (\<forall>m. m \<noteq> n \<longrightarrow> ts' m = ts m) \<and> (ts' n = None \<or> ts' n = ts n \<or> fresh env fs n (ts' n)))"

definition builds :: "wg_env \<Rightarrow> wg_tool \<Rightarrow> bool" where
  "builds env f \<longleftrightarrow> (\<forall>n fs k. case f n fs k of (ok, ts', us') \<Rightarrow> ok \<longrightarrow> fresh env fs n (ts' n))"

definition loads :: "wg_tool \<Rightarrow> string \<Rightarrow> bool" where
  "loads f s \<longleftrightarrow> (\<forall>n fs ts us. case f n fs (ts, us) of (ok, ts', us') \<Rightarrow>
     (\<forall>m. m \<noteq> n \<longrightarrow> ts' m = ts m) \<and> (ok \<longrightarrow> (\<exists>t. ts n = Some t \<and> ts' n = Some (t\<lparr>loaded := s\<rparr>))))"

definition builders :: "wg_env \<Rightarrow> wg_tool list" where
  "builders env = [quick_up env, quick_down env, unit_start env, unit_restart env, unit_stop env, unit_enable env, unit_disable env]"

definition documented :: "wg_env \<Rightarrow> bool" where
  "documented env \<longleftrightarrow> list_all (settles env) (builders env) \<and> builds env (quick_up env) \<and> builds env (unit_restart env)
     \<and> (\<forall>s. loads (sync_with env s) s)"

section \<open>The calls of the daemon\<close>

definition genkey :: "wg_env \<Rightarrow> string wg_io" where
  "genkey env = seq (wg_effect (CommandFails ''wg genkey'') (\<lambda>w. w\<lparr>keys_made := Suc (keys_made w)\<rparr>))
     (asks (\<lambda>w. trim (key_at env (keys_made w))))"

definition genpsk :: "wg_env \<Rightarrow> string wg_io" where
  "genpsk env = seq (wg_effect (CommandFails ''wg genpsk'') (\<lambda>w. w\<lparr>keys_made := Suc (keys_made w)\<rparr>))
     (asks (\<lambda>w. trim (key_at env (keys_made w))))"

definition pubkey :: "wg_env \<Rightarrow> string \<Rightarrow> string wg_io" where
  "pubkey env k = seq (wg_effect (CommandFails ''wg pubkey'') (\<lambda>w. w))
     (case pub_of env (k @ LF) of Some p \<Rightarrow> ret (trim p) | None \<Rightarrow> throw (Other (CommandFails ''wg pubkey'')))"

definition running :: "string set wg_io" where
  "running = ask_tool ''wg show interfaces'' (\<lambda>w. dom (tunnels w))"

definition strip_text :: "wg_env \<Rightarrow> (wg_world \<Rightarrow> string option) \<Rightarrow> string wg_io" where
  "strip_text env f = bind (ask_tool ''wg-quick strip'' f) (\<lambda>t. case Option.bind t (strip_of env) of
     Some s \<Rightarrow> ret s | None \<Rightarrow> throw (Other (CommandFails ''wg-quick strip'')))"

definition syncconf :: "wg_env \<Rightarrow> string \<Rightarrow> string \<Rightarrow> unit wg_io" where
  "syncconf env n s = tool_command ''wg syncconf'' (sync_with env s) n"

definition wg_up :: "wg_env \<Rightarrow> string \<Rightarrow> unit wg_io" where
  "wg_up env n = (if systemd env then
     seq (tool_command ''systemctl enable'' (unit_enable env) n)
    (bind running (\<lambda>r. if n \<in> r then ret () else
     bind (catch (tool_command ''systemctl start'' (unit_start env) n)) (\<lambda>x. case x of
       Inr _ \<Rightarrow> ret ()
     | Inl err \<Rightarrow> seq (ignore (tool_command ''systemctl disable'' (unit_disable env) n))
        (bind (or_else [] (ask_tool ''journalctl'' (\<lambda>_. trim (journal_text env n)))) (\<lambda>why.
          throw (if why = [] then err else Other (UnitFails n why)))))))
   else tool_command ''wg-quick up'' (quick_up env) n)"

definition wg_down :: "wg_env \<Rightarrow> string \<Rightarrow> unit wg_io" where
  "wg_down env n =
     seq (do_if (systemd env) (ignore (down_command env ''systemctl disable --now'' (unit_stop env) n)))
    (bind running (\<lambda>r. do_if (n \<in> r) (down_command env ''wg-quick down'' (quick_down env) n)))"

definition by_hand :: "wg_env \<Rightarrow> string \<Rightarrow> unit wg_io" where
  "by_hand env n = bind running (\<lambda>r. seq (do_if (n \<in> r) (down_command env ''wg-quick down'' (quick_down env) n))
     (tool_command ''wg-quick up'' (quick_up env) n))"

definition wg_restart :: "wg_env \<Rightarrow> string \<Rightarrow> unit wg_io" where
  "wg_restart env n = (if systemd env then
       bind (catch (down_command env ''systemctl restart'' (unit_restart env) n)) (\<lambda>x. case x of
         Inr _ \<Rightarrow> ret () | Inl _ \<Rightarrow> by_hand env n)
     else by_hand env n)"

definition wg_enabled :: "wg_env \<Rightarrow> string \<Rightarrow> bool wg_io" where
  "wg_enabled env n = (if systemd env then
     or_else False (ask_tool ''systemctl is-enabled'' (\<lambda>w. trim (enabled_text env (unit_words w n)) = ''enabled'')) else ret False)"

section \<open>What the tools print\<close>

definition first_version :: "string list \<Rightarrow> string option" where
  "first_version ws = (case List.map_filter (\<lambda>x. case strip_prefix ''v'' x of Some (c # cs) \<Rightarrow>
     if is_digit c then Some (c # cs) else None | _ \<Rightarrow> None) ws of v # _ \<Rightarrow> Some v | [] \<Rightarrow> None)"

definition tool_version :: "string \<Rightarrow> string" where
  "tool_version out = (case first_version (split_whitespace out) of Some v \<Rightarrow> v | None \<Rightarrow> [])"

fun after_src :: "string list \<Rightarrow> string" where
  "after_src [] = []"
| "after_src (x # xs) = (if x = ''src'' then (case xs of y # _ \<Rightarrow> y | [] \<Rightarrow> []) else after_src xs)"

definition parse_route_src :: "string \<Rightarrow> string" where
  "parse_route_src out = after_src (split_whitespace out)"

definition wg_version :: "wg_env \<Rightarrow> string wg_io" where
  "wg_version env = or_else [] (ask_tool ''wg --version'' (\<lambda>_. tool_version (version_text env)))"

definition primary_address :: "wg_env \<Rightarrow> string wg_io" where
  "primary_address env = or_else [] (ask_tool ''ip route get'' (\<lambda>_. parse_route_src (route_text env)))"

record live_peer =
  lp_key :: string
  lp_endpoint :: string
  lp_handshake :: int
  lp_rx :: nat
  lp_tx :: nat

definition dump_number :: "string \<Rightarrow> wg_fail + nat" where
  "dump_number t = ok_or (UnexpectedDump t) (parse_radix 10 18446744073709551615 (trim t))"

definition dump_line :: "string \<Rightarrow> wg_fail + live_peer" where
  "dump_line l = (let fs = split_char (CHR 0x09) l in
     if length fs < 8 then Inl (UnexpectedDump l)
     else and_then (dump_number (fs ! 4)) (\<lambda>h.
          and_then (dump_number (fs ! 5)) (\<lambda>rx.
          and_then (dump_number (fs ! 6)) (\<lambda>tx.
            Inr \<lparr>lp_key = fs ! 0, lp_endpoint = (if fs ! 2 = ''(none)'' then [] else fs ! 2),
              lp_handshake = (if h < 2 ^ 63 then int h else 0), lp_rx = rx, lp_tx = tx\<rparr>))))"

definition parse_dump :: "string \<Rightarrow> wg_fail + live_peer list" where
  "parse_dump out = (case filter (\<lambda>l. trim l \<noteq> []) (lines out) of
     [] \<Rightarrow> Inl (UnexpectedDump []) | _ # ls \<Rightarrow> traverse dump_line ls)"

definition live_peers :: "wg_env \<Rightarrow> string \<Rightarrow> live_peer list wg_io" where
  "live_peers env n = bind (ask_tool ''wg show dump'' (\<lambda>w. tunnels w n)) (\<lambda>t. case t of
     None \<Rightarrow> throw (Other (CommandFails ''wg show dump''))
   | Some t \<Rightarrow> lift_result (map_err Other (parse_dump (dump_of env t))))"

end
