(* ===== verification/WgManager.thy ===== *)
theory WgManager
  imports WgTool
begin

text \<open>
  \<open>wireguard/mod.rs\<close>: the manager. Its state is the files: every operation reads them, changes the
  model and writes the file back. Reading a file takes no outcome, but for the copy of the previous file
  that \<open>write_and_sync\<close> keeps: it works when the bytes are text.
  The 16 bit numbers of the requests are words, as in the code.
\<close>

section \<open>Reading the files\<close>

definition backup_file_name :: "string \<Rightarrow> string" where
  "backup_file_name n = n @ ''.conf.asc-bak''"

definition conf_names :: "(string \<times> conf_file) list \<Rightarrow> string list" where
  "conf_names fs = sort (List.map_filter (\<lambda>(f, _). case strip_suffix ''.conf'' f of
     Some n \<Rightarrow> if valid_name n then Some n else None | None \<Rightarrow> None) fs)"

definition managed_at :: "(string \<Rightarrow> conf_file option) \<Rightarrow> string \<Rightarrow> wg_fail module_error + iface option" where
  "managed_at fm n = (if \<not> valid_name n then Inl (Invalid (UnusableName n))
     else case fm (conf_file_name n) of
       None \<Rightarrow> Inr None
     | Some (Raw _) \<Rightarrow> Inl (Other (CannotRead n))
     | Some (Text t) \<Rightarrow> if \<not> is_managed t then Inl (Precondition (NotOurs n))
         else map_err (\<lambda>e. Precondition (BadFile n e)) (map_ok (\<lambda>p. Some (p_iface p)) (parse n t)))"

definition read_managed_opt :: "string \<Rightarrow> iface option wg_io" where
  "read_managed_opt n = bind (asks (\<lambda>w. managed_at (map_of (conf_dir w)) n)) lift_result"

definition read_managed :: "string \<Rightarrow> iface wg_io" where
  "read_managed n = bind (read_managed_opt n) (\<lambda>i. case i of
     Some i \<Rightarrow> ret i | None \<Rightarrow> throw (NotFound (NoSuchInterface n)))"

definition require_installed :: "unit wg_io" where
  "require_installed = bind (asks tools_there) (\<lambda>b. fail_if (\<not> b) (Precondition NoWireguard))"

section \<open>What the API shows\<close>

record live_view =
  lv_endpoint :: string
  lv_handshake :: int
  lv_rx :: nat
  lv_tx :: nat

record peer_view =
  pv_peer :: peer
  has_preshared_key :: bool
  pv_live :: "live_view option"

record iface_view =
  iv_iface :: iface
  iv_public :: string
  iv_running :: bool
  iv_enabled :: bool
  iv_hooks :: "string list"
  iv_peers :: "peer_view list"

record unmanaged_view =
  uv_name :: string
  uv_running :: bool
  uv_error :: "conf_error option"

record wg_overview_view =
  ov_installed :: bool
  ov_version :: string
  ov_interfaces :: "iface_view list"
  ov_unmanaged :: "unmanaged_view list"
  ov_primary :: string

definition view_peer :: "live_peer list \<Rightarrow> peer \<Rightarrow> peer_view" where
  "view_peer live p = \<lparr>pv_peer = p, has_preshared_key = (preshared_key p \<noteq> []),
     pv_live = map_option (\<lambda>l. \<lparr>lv_endpoint = lp_endpoint l, lv_handshake = lp_handshake l, lv_rx = lp_rx l, lv_tx = lp_tx l\<rparr>)
       (find (\<lambda>l. lp_key l = public_key p) live)\<rparr>"

definition view_iface :: "wg_env \<Rightarrow> iface \<Rightarrow> bool \<Rightarrow> iface_view wg_io" where
  "view_iface env i up = bind (if up then or_else [] (live_peers env (iname i)) else ret []) (\<lambda>live.
     bind (or_else [] (pubkey env (private_key i))) (\<lambda>pk.
     bind (wg_enabled env (iname i)) (\<lambda>en.
       ret \<lparr>iv_iface = i, iv_public = pk, iv_running = up, iv_enabled = en, iv_hooks = hook_lines (ihooks i),
         iv_peers = map (view_peer live) (peers i)\<rparr>)))"

text \<open>The loop over the files, with the two lists of the overview.\<close>

fun view_files :: "wg_env \<Rightarrow> string set \<Rightarrow> string list \<Rightarrow> (iface_view list \<times> unmanaged_view list) wg_io" where
  "view_files env up [] = ret ([], [])"
| "view_files env up (n # ns) = bind (asks (\<lambda>w. case conf_text w n of Some t \<Rightarrow> t | None \<Rightarrow> [])) (\<lambda>t.
     let foreign = (\<lambda>e. bind (view_files env up ns) (\<lambda>(is, us).
       ret (is, \<lparr>uv_name = n, uv_running = n \<in> up, uv_error = e\<rparr> # us))) in
     if \<not> is_managed t then foreign None
     else (case parse n t of
         Inr p \<Rightarrow> bind (view_iface env (p_iface p) (n \<in> up)) (\<lambda>v. bind (view_files env up ns) (\<lambda>(is, us). ret (v # is, us)))
       | Inl e \<Rightarrow> foreign (Some e)))"

definition wg_overview :: "wg_env \<Rightarrow> wg_overview_view wg_io" where
  "wg_overview env = bind (asks tools_there) (\<lambda>ins.
     bind (if ins then or_else {} running else ret {}) (\<lambda>up.
     bind (asks (\<lambda>w. conf_names (conf_dir w))) (\<lambda>ns.
     bind (view_files env up ns) (\<lambda>(is, us).
     bind (if ins then wg_version env else ret []) (\<lambda>v.
     bind (if ins then primary_address env else ret []) (\<lambda>a.
       ret \<lparr>ov_installed = ins, ov_version = v, ov_interfaces = is, ov_unmanaged = us, ov_primary = a\<rparr>))))))"

section \<open>Applying a change\<close>

definition needs_rebuild :: "iface \<Rightarrow> iface \<Rightarrow> bool" where
  "needs_rebuild old new = (addresses old \<noteq> addresses new \<or> mtu old \<noteq> mtu new \<or> dns old \<noteq> dns new
     \<or> table old \<noteq> table new \<or> fwmark old \<noteq> fwmark new \<or> ihooks old \<noteq> ihooks new
     \<or> masquerade old \<noteq> masquerade new \<or> extra_routes old \<noteq> extra_routes new)"

definition put_conf :: "string \<Rightarrow> conf_file \<Rightarrow> unit wg_io" where
  "put_conf f c = wg_effect CannotWrite (\<lambda>w. w\<lparr>conf_dir := AList.update f c (conf_dir w)\<rparr>)"

definition drop_conf :: "string \<Rightarrow> unit wg_io" where
  "drop_conf f = wg_effect CannotWrite (\<lambda>w. w\<lparr>conf_dir := AList.delete f (conf_dir w)\<rparr>)"

text \<open>\<open>wg-quick strip\<close> of a candidate in the work directory, which is there for the check only.\<close>

definition check_candidate :: "wg_env \<Rightarrow> string \<Rightarrow> string \<Rightarrow> unit wg_io" where
  "check_candidate env f t =
     seq (wg_effect CannotWrite (\<lambda>w. w\<lparr>work_dir := AList.update f t (work_dir w)\<rparr>))
    (bind (catch (strip_text env (\<lambda>w. map_of (work_dir w) f))) (\<lambda>checked.
     seq (ignore (wg_effect CannotWrite (\<lambda>w. w\<lparr>work_dir := AList.delete f (work_dir w)\<rparr>)))
         (fail_if (ok_of checked = None) (Invalid RefusedConf))))"

definition bring_in_line :: "wg_env \<Rightarrow> iface option \<Rightarrow> iface \<Rightarrow> unit wg_io" where
  "bring_in_line env old new = (let n = iname new in
     if (case old of None \<Rightarrow> True | Some prev \<Rightarrow> needs_rebuild prev new) then wg_restart env n
     else bind (strip_text env (\<lambda>w. conf_text w n)) (syncconf env n))"

definition put_back :: "wg_env \<Rightarrow> string \<Rightarrow> conf_file option \<Rightarrow> unit wg_io" where
  "put_back env n prev =
     seq (ignore (case prev of Some c \<Rightarrow> put_conf (conf_file_name n) c | None \<Rightarrow> drop_conf (conf_file_name n)))
    (seq (ignore (wg_restart env n)) (throw (Precondition NotApplied)))"

text \<open>\<open>std::fs::read(&path).ok()\<close>: a file that cannot be read counts as none.\<close>

definition previous_file :: "string \<Rightarrow> conf_file option wg_io" where
  "previous_file n = or_else None (seq (wg_effect (CannotRead n) (\<lambda>w. w)) (asks (\<lambda>w. map_of (conf_dir w) (conf_file_name n))))"

definition write_and_sync :: "wg_env \<Rightarrow> iface option \<Rightarrow> iface \<Rightarrow> unit wg_io" where
  "write_and_sync env old new = (let n = iname new; f = conf_file_name n; t = render new in
     seq (check_candidate env f t)
    (bind (previous_file n) (\<lambda>prev.
     seq (put_conf f (Text t))
    (bind running (\<lambda>up. if n \<notin> up then ret () else
     bind (catch (bring_in_line env old new)) (\<lambda>r. case r of
       Inr _ \<Rightarrow> ret () | Inl _ \<Rightarrow> put_back env n prev))))))"

definition port_clash :: "(string \<times> conf_file) list \<Rightarrow> iface \<Rightarrow> (nat \<times> string) option" where
  "port_clash fs i = (case listen_port i of None \<Rightarrow> None
   | Some p \<Rightarrow> map_option (\<lambda>n. (p, n)) (find (\<lambda>n. n \<noteq> iname i \<and>
       (case managed_at (map_of fs) n of Inr (Some j) \<Rightarrow> listen_port j = Some p | _ \<Rightarrow> False)) (conf_names fs)))"

definition check_port :: "iface \<Rightarrow> unit wg_io" where
  "check_port i = bind (asks (\<lambda>w. port_clash (conf_dir w) i)) (\<lambda>c. case c of
     None \<Rightarrow> ret () | Some (p, n) \<Rightarrow> throw (Precondition (PortTaken p n)))"

definition normalized :: "iface \<Rightarrow> iface wg_io" where
  "normalized i = lift_result (map_err (\<lambda>e. Invalid (BadModel e)) (normalize i))"

definition modify_iface :: "wg_env \<Rightarrow> string \<Rightarrow> (iface \<Rightarrow> (iface \<times> 'a) wg_io) \<Rightarrow> (iface \<times> 'a) wg_io" where
  "modify_iface env n edit = seq require_installed
    (bind (read_managed n) (\<lambda>old. bind (edit old) (\<lambda>(new, out). bind (normalized new) (\<lambda>new.
       seq (write_and_sync env (Some old) new) (ret (new, out))))))"

section \<open>Interfaces\<close>

record iface_input =
  in_name :: string
  in_port :: "16 word option"
  in_addresses :: "string list"
  in_dns :: "string list"
  in_client_dns :: "string list"
  in_mtu :: "16 word option"
  in_endpoint :: string
  in_masquerade :: bool
  in_key :: string

definition input_iface :: "iface_input \<Rightarrow> iface \<Rightarrow> iface" where
  "input_iface inp i = i\<lparr>listen_port := map_option unat (in_port inp), addresses := in_addresses inp, dns := in_dns inp,
     client_dns := in_client_dns inp, mtu := map_option unat (in_mtu inp), iendpoint := in_endpoint inp,
     masquerade := in_masquerade inp\<rparr>"

definition base_iface :: "wg_env \<Rightarrow> iface_input \<Rightarrow> iface option \<Rightarrow> iface wg_io" where
  "base_iface env inp existing = (let key = trim (in_key inp) in case existing of
     Some old \<Rightarrow> ret (if key = [] then old else old\<lparr>private_key := key\<rparr>)
   | None \<Rightarrow> bind (if key = [] then genkey env else ret key) (\<lambda>k. ret (new_iface (in_name inp) k)))"

definition upsert_interface :: "wg_env \<Rightarrow> iface_input \<Rightarrow> wg_overview_view wg_io" where
  "upsert_interface env inp = seq require_installed
    (bind (read_managed_opt (in_name inp)) (\<lambda>existing.
     bind (base_iface env inp existing) (\<lambda>i.
     bind (normalized (input_iface inp i)) (\<lambda>new.
     seq (check_port new)
    (seq (write_and_sync env existing new)
    (seq (if existing \<noteq> None then ret () else
       bind (catch (wg_up env (iname new))) (\<lambda>r. case r of
         Inr _ \<Rightarrow> ret ()
       | Inl _ \<Rightarrow> seq (ignore (drop_conf (conf_file_name (iname new)))) (throw (Precondition (DidNotComeUp (iname new))))))
      (wg_overview env)))))))"

definition remove_interface :: "wg_env \<Rightarrow> string \<Rightarrow> wg_overview_view wg_io" where
  "remove_interface env n = bind (read_managed n) (\<lambda>_. seq (wg_down env n)
     (seq (ignore (drop_conf (conf_file_name n))) (wg_overview env)))"

definition require_exists :: "string \<Rightarrow> unit wg_io" where
  "require_exists n = bind (asks (\<lambda>w. conf_names (conf_dir w))) (\<lambda>ns. fail_if (n \<notin> set ns) (NotFound (NoSuchInterface n)))"

definition set_state :: "wg_env \<Rightarrow> string \<Rightarrow> bool \<Rightarrow> wg_overview_view wg_io" where
  "set_state env n up = seq require_installed (seq (require_exists n)
     (seq (if up then wg_up env n else wg_down env n) (wg_overview env)))"

definition interface_config :: "string \<Rightarrow> string wg_io" where
  "interface_config n = seq (fail_if (\<not> valid_name n) (Invalid (UnusableName n))) (seq (require_exists n)
     (bind (asks (\<lambda>w. conf_text w n)) (\<lambda>t. case t of Some t \<Rightarrow> ret (redact t) | None \<Rightarrow> throw (Other (CannotRead n)))))"

record import_input =
  im_name :: string
  im_text :: string
  overwrite :: bool
  accept_hooks :: bool
  im_start :: bool

record imported =
  im_overview :: wg_overview_view
  im_iface :: string
  im_warnings :: "conf_warning list"

definition back_up :: "string \<Rightarrow> conf_file \<Rightarrow> unit wg_io" where
  "back_up n c = ignore (put_conf (backup_file_name n) c)"

definition import_conf :: "wg_env \<Rightarrow> import_input \<Rightarrow> imported wg_io" where
  "import_conf env inp = seq require_installed (let n = trim (im_name inp) in
     seq (fail_if (\<not> valid_name n) (Invalid (UnusableName n)))
    (bind (lift_result (map_err (\<lambda>e. Invalid (BadImport e)) (parse n (im_text inp)))) (\<lambda>p.
     seq (fail_if (\<not> hooks_empty (ihooks (p_iface p)) \<and> \<not> accept_hooks inp)
       (Precondition (HooksUnacknowledged (hook_lines (ihooks (p_iface p))))))
    (bind (normalized (p_iface p)) (\<lambda>i.
     seq (check_port i)
    (bind (asks (\<lambda>w. map_of (conf_dir w) (conf_file_name n))) (\<lambda>prev.
     seq (case prev of None \<Rightarrow> ret ()
       | Some c \<Rightarrow> seq (fail_if (\<not> overwrite inp) (Precondition (NameTaken n))) (back_up n c))
    (seq (write_and_sync env None i)
    (seq (if \<not> im_start inp then ret () else
       bind (catch (wg_up env n)) (\<lambda>r. case r of Inr _ \<Rightarrow> ret () | Inl _ \<Rightarrow> throw (Precondition (DidNotComeUp n))))
    (bind (wg_overview env) (\<lambda>ov. ret \<lparr>im_overview = ov, im_iface = n, im_warnings = warnings p\<rparr>)))))))))))"

section \<open>Peers\<close>

record client_input =
  ci_routes :: string
  ci_dns :: "string list"
  ci_endpoint :: string

definition client_opts :: "client_input \<Rightarrow> client_options wg_io" where
  "client_opts c = bind (lift_result (map_err (\<lambda>e. Invalid (ClientError e)) (routes_parse (ci_routes c)))) (\<lambda>r.
     ret \<lparr>co_routes = r, co_dns = trimmed_items (ci_dns c), co_endpoint = trim (ci_endpoint c)\<rparr>)"

record peer_add =
  pa_interface :: string
  pa_name :: string
  pa_key :: string
  pa_ips :: "string list"
  pa_preshared :: bool
  pa_keepalive :: "16 word"
  pa_endpoint :: string
  pa_client :: client_input

record peer_update =
  pu_interface :: string
  pu_peer :: string
  pu_name :: string
  pu_ips :: "string list"
  pu_endpoint :: string
  pu_keepalive :: "16 word"
  pu_enabled :: bool

record added =
  ad_overview :: wg_overview_view
  ad_key :: string
  ad_client :: string

definition wanted_nets :: "string list \<Rightarrow> string list wg_io" where
  "wanted_nets l = lift_result (map_err (\<lambda>e. Invalid (BadModel e)) (normalize_nets l))"

definition peer_keys :: "wg_env \<Rightarrow> peer_add \<Rightarrow> (string \<times> string option) wg_io" where
  "peer_keys env a = (if trim (pa_key a) = [] then bind (genkey env) (\<lambda>k. bind (pubkey env k) (\<lambda>p. ret (p, Some k)))
     else ret (trim (pa_key a), None))"

definition edit_add :: "wg_env \<Rightarrow> peer_add \<Rightarrow> iface \<Rightarrow> (iface \<times> (string \<times> string option)) wg_io" where
  "edit_add env a i = bind (peer_keys env a) (\<lambda>ks.
     bind (if pa_preshared a then genpsk env else ret []) (\<lambda>psk.
     bind (if pa_ips a = [] then lift_result (map_err (\<lambda>e. Precondition (BadModel e)) (free_addresses i)) else wanted_nets (pa_ips a)) (\<lambda>ips.
       ret (i\<lparr>peers := peers i @ [(new_peer (fst ks))\<lparr>pname := pa_name a, pendpoint := pa_endpoint a,
         keepalive := unat (pa_keepalive a), preshared_key := psk, allowed_ips := ips\<rparr>]\<rparr>, ks))))"

definition add_peer :: "wg_env \<Rightarrow> peer_add \<Rightarrow> added wg_io" where
  "add_peer env a = bind (client_opts (pa_client a)) (\<lambda>opts.
     bind (modify_iface env (pa_interface a) (edit_add env a)) (\<lambda>(new, pub, priv).
     bind (case find (\<lambda>p. public_key p = pub) (peers new) of Some p \<Rightarrow> ret p | None \<Rightarrow> throw (Other LostPeer)) (\<lambda>p.
     bind (pubkey env (private_key new)) (\<lambda>server.
     bind (primary_address env) (\<lambda>addr.
     bind (wg_overview env) (\<lambda>ov.
       ret \<lparr>ad_overview = ov, ad_key = pub,
         ad_client = (case client_config new server p priv opts addr of Inr t \<Rightarrow> t | Inl _ \<Rightarrow> [])\<rparr>))))))"

definition find_peer :: "iface \<Rightarrow> string \<Rightarrow> nat wg_io" where
  "find_peer i p = lift_result (map_err (map_module_error BadModel) (peer_index i p))"

definition edit_update :: "peer_update \<Rightarrow> iface \<Rightarrow> (iface \<times> unit) wg_io" where
  "edit_update u i = bind (find_peer i (pu_peer u)) (\<lambda>k.
     bind (wanted_nets (pu_ips u)) (\<lambda>ips.
     seq (fail_if (ips = []) (Invalid PeerNeedsRoutes))
         (ret (i\<lparr>peers := (peers i)[k := (peers i ! k)\<lparr>pname := pu_name u, allowed_ips := ips, pendpoint := pu_endpoint u,
           keepalive := unat (pu_keepalive u), penabled := pu_enabled u\<rparr>]\<rparr>, ()))))"

definition update_peer :: "wg_env \<Rightarrow> peer_update \<Rightarrow> wg_overview_view wg_io" where
  "update_peer env u = bind (modify_iface env (pu_interface u) (edit_update u)) (\<lambda>_. wg_overview env)"

definition edit_remove :: "string \<Rightarrow> iface \<Rightarrow> (iface \<times> unit) wg_io" where
  "edit_remove p i = bind (find_peer i p) (\<lambda>k. ret (i\<lparr>peers := take k (peers i) @ drop (Suc k) (peers i)\<rparr>, ()))"

definition remove_peer :: "wg_env \<Rightarrow> string \<Rightarrow> string \<Rightarrow> wg_overview_view wg_io" where
  "remove_peer env n p = bind (modify_iface env n (edit_remove p)) (\<lambda>_. wg_overview env)"

definition peer_config :: "wg_env \<Rightarrow> string \<Rightarrow> string \<Rightarrow> client_input \<Rightarrow> string wg_io" where
  "peer_config env n p c = bind (client_opts c) (\<lambda>opts. seq require_installed
    (bind (read_managed n) (\<lambda>i. bind (find_peer i p) (\<lambda>k.
     bind (pubkey env (private_key i)) (\<lambda>server. bind (primary_address env) (\<lambda>addr.
       lift_result (map_err (\<lambda>e. Precondition (ClientError e)) (client_config i server (peers i ! k) None opts addr))))))))"

section \<open>Installing\<close>

text \<open>\<open>brings\<close>: whether the package of the distribution has the tools.\<close>

definition install_wg :: "wg_env \<Rightarrow> bool \<Rightarrow> wg_overview_view wg_io" where
  "install_wg env brings = bind (asks tools_there) (\<lambda>there.
     seq (if there then ret () else
       seq (wg_effect PackageFails (\<lambda>w. w\<lparr>tools_there := brings\<rparr>))
           (bind (asks tools_there) (\<lambda>b. fail_if (\<not> b) (Precondition ToolsMissing))))
    (seq (ignore (wg_effect (CommandFails ''modprobe'') (\<lambda>w. w))) (wg_overview env)))"

fun each_managed :: "(string \<Rightarrow> unit wg_io) \<Rightarrow> string list \<Rightarrow> unit wg_io" where
  "each_managed f [] = ret ()"
| "each_managed f (n # ns) = bind (asks (\<lambda>w. managed_at (map_of (conf_dir w)) n)) (\<lambda>r.
     seq (case r of Inr (Some _) \<Rightarrow> f n | _ \<Rightarrow> ret ()) (each_managed f ns))"

definition uninstall_wg :: "wg_env \<Rightarrow> bool \<Rightarrow> unit wg_io" where
  "uninstall_wg env purge = seq require_installed
    (bind (asks (\<lambda>w. conf_names (conf_dir w))) (\<lambda>ns. seq (each_managed (\<lambda>n. ignore (wg_down env n)) ns)
    (seq (wg_effect PackageFails (\<lambda>w. w\<lparr>tools_there := False\<rparr>))
         (do_if purge (bind (asks (\<lambda>w. conf_names (conf_dir w))) (\<lambda>ns.
            seq (each_managed (\<lambda>n. seq (ignore (drop_conf (conf_file_name n))) (ignore (drop_conf (backup_file_name n)))) ns)
                (ignore (wg_effect CannotWrite (\<lambda>w. w\<lparr>work_dir := []\<rparr>)))))))))"

section \<open>The operations\<close>

datatype wg_op =
    Overview | Install bool | Uninstall bool | Upsert iface_input | RemoveInterface string | SetState string bool
  | ShowConfig string | Import import_input | AddPeer peer_add | UpdatePeer peer_update | RemovePeer string string
  | PeerConfig string string client_input

fun wg_run :: "wg_env \<Rightarrow> wg_op \<Rightarrow> wg_world \<Rightarrow> wg_world" where
  "wg_run env Overview w = snd (wg_overview env w)"
| "wg_run env (Install b) w = snd (install_wg env b w)"
| "wg_run env (Uninstall purge) w = snd (uninstall_wg env purge w)"
| "wg_run env (Upsert inp) w = snd (upsert_interface env inp w)"
| "wg_run env (RemoveInterface n) w = snd (remove_interface env n w)"
| "wg_run env (SetState n up) w = snd (set_state env n up w)"
| "wg_run env (ShowConfig n) w = snd (interface_config n w)"
| "wg_run env (Import inp) w = snd (import_conf env inp w)"
| "wg_run env (AddPeer a) w = snd (add_peer env a w)"
| "wg_run env (UpdatePeer u) w = snd (update_peer env u w)"
| "wg_run env (RemovePeer n p) w = snd (remove_peer env n p w)"
| "wg_run env (PeerConfig n p c) w = snd (peer_config env n p c w)"

end
