(* ===== verification/WgNets.thy ===== *)
theory WgNets
  imports WgModel
begin

text \<open>
  Networks as ranges of numbers: the masks of the code against division by powers of two,
  containment against inclusion of the address sets, and what \<open>allocate\<close> hands out.
\<close>

section \<open>Masks\<close>

definition width_of :: "bool \<Rightarrow> nat" where
  "width_of v6 = (if v6 then 128 else 32)"

definition host_part :: "net \<Rightarrow> nat" where
  "host_part n = host_bits n - prefix_len n"

lemma host_bits_width: "host_bits n = width_of (is_v6 n)"
  by (simp add: host_bits_def width_of_def)

lemma prefix_len_le: "wf_net n \<Longrightarrow> prefix_len n \<le> host_bits n"
  by (auto simp: wf_net_def prefix_len_def host_bits_def split: option.splits if_splits)

lemma bit_ones32: "bit (4294967295 :: 128 word) k \<longleftrightarrow> k < 32"
proof -
  have "(4294967295 :: 128 word) = mask 32" by (simp add: mask_eq_exp_minus_1)
  then show ?thesis by (simp only: bit_mask_iff) auto
qed

lemma bit_net_mask:
  "p \<le> width_of v6 \<Longrightarrow> bit (net_mask v6 p) k \<longleftrightarrow> k < width_of v6 \<and> width_of v6 - p \<le> k"
proof -
  assume p: "p \<le> width_of v6"
  show ?thesis
  proof (cases "p = 0 \<or> v6")
    case True
    then show ?thesis using p
      by (auto simp: net_mask_def Let_def width_of_def bit_push_bit_iff bit_and_iff min_def)
  next
    case False
    then have "net_mask v6 p = push_bit (32 - p) 4294967295 AND 4294967295"
      using p by (simp add: net_mask_def Let_def width_of_def min_def)
    moreover have "bit (push_bit (32 - p) (4294967295 :: 128 word)) k \<longleftrightarrow> 32 - p \<le> k \<and> k < 128 \<and> k - (32 - p) < 32"
      by (simp only: bit_push_bit_iff bit_ones32) (auto simp: possible_bit_def)
    ultimately show ?thesis using False p
      by (simp only: bit_and_iff bit_ones32) (auto simp: width_of_def)
  qed
qed

lemma bit_to_bits: "bit (to_bits a) k \<Longrightarrow> k < width_of (is_ipv6 a)"
  by (cases a) (auto simp: width_of_def bit_ucast_iff dest: bit_imp_le_length)

lemma masked_is_div:
  assumes p: "p \<le> width_of v6" and w: "\<And>k. bit w k \<Longrightarrow> k < width_of v6"
  shows "w AND net_mask v6 p = push_bit (width_of v6 - p) (drop_bit (width_of v6 - p) w)"
  by (rule bit_eqI) (auto simp: bit_and_iff bit_push_bit_iff bit_drop_bit_eq bit_net_mask[OF p] dest: w)

lemma unat_masked:
  assumes p: "p \<le> width_of v6" and w: "\<And>k. bit w k \<Longrightarrow> k < width_of v6"
  shows "unat (w AND net_mask v6 p) = unat w div 2 ^ (width_of v6 - p) * 2 ^ (width_of v6 - p)"
proof -
  let ?s = "width_of v6 - p"
  have "unat w div 2 ^ ?s * 2 ^ ?s \<le> unat w" by simp
  then have small: "unat w div 2 ^ ?s * 2 ^ ?s < 2 ^ LENGTH(128)" using unat_bound[of w] by linarith
  have "unat (w AND net_mask v6 p) = unat (push_bit ?s (drop_bit ?s w))"
    by (simp only: masked_is_div[OF p w])
  also have "\<dots> = take_bit LENGTH(128) (push_bit ?s (drop_bit ?s (unat w)))"
    by (simp only: unsigned_push_bit_eq unat_drop_bit_eq)
  also have "\<dots> = unat w div 2 ^ ?s * 2 ^ ?s"
    using small by (simp only: push_bit_eq_mult drop_bit_eq_div take_bit_nat_eq_self)
  finally show ?thesis .
qed

section \<open>Networks as ranges of numbers\<close>

text \<open>
  The number of an address, the first number of a network and the addresses in it: those
  of the same family that agree with it in all but the last \<open>host_part\<close> bits.
\<close>

definition num :: "ip_addr \<Rightarrow> nat" where
  "num a = unat (to_bits a)"

definition net_first :: "net \<Rightarrow> nat" where
  "net_first n = num (addr n) div 2 ^ host_part n * 2 ^ host_part n"

definition in_net :: "net \<Rightarrow> ip_addr \<Rightarrow> bool" where
  "in_net n a = (is_ipv6 a = is_v6 n \<and> net_first n \<le> num a \<and> num a < net_first n + 2 ^ host_part n)"

lemma unat_ucast32: "unat (ucast (w :: 32 word) :: 128 word) = unat w"
proof -
  have "unat w < 2 ^ LENGTH(128)" using unat_bound[of w] by simp
  then show ?thesis by (simp only: unsigned_ucast_eq take_bit_nat_eq_self)
qed

lemma num_bound: "num a < 2 ^ width_of (is_ipv6 a)"
proof (cases a)
  case (V4 w)
  then show ?thesis using unat_bound[of w] by (simp add: num_def width_of_def unat_ucast32)
next
  case (V6 w)
  then show ?thesis using unat_bound[of w] by (simp add: num_def width_of_def)
qed

lemma block_div: "(a :: nat) div m * m \<le> b \<and> b < a div m * m + m \<longleftrightarrow> b div m = a div m" if "0 < m"
proof
  assume "a div m * m \<le> b \<and> b < a div m * m + m"
  then show "b div m = a div m" using that by (intro div_nat_eqI) (auto simp: algebra_simps)
next
  assume "b div m = a div m"
  then have "a div m * m = b div m * m" by simp
  then show "a div m * m \<le> b \<and> b < a div m * m + m"
    using that mod_less_divisor[of m b] div_mult_mod_eq[of b m] by linarith
qed

lemma in_net_div:
  "in_net n a \<longleftrightarrow> is_ipv6 a = is_v6 n \<and> num a div 2 ^ host_part n = num (addr n) div 2 ^ host_part n"
  using block_div[of "2 ^ host_part n" "num (addr n)" "num a"] by (auto simp: in_net_def net_first_def)

lemma masked_num:
  "p \<le> width_of (is_ipv6 a) \<Longrightarrow> unat (to_bits a AND net_mask (is_ipv6 a) p) =
     num a div 2 ^ (width_of (is_ipv6 a) - p) * 2 ^ (width_of (is_ipv6 a) - p)"
  unfolding num_def by (rule unat_masked) (auto dest: bit_to_bits)

lemma masked_eq:
  assumes "is_ipv6 a = v6" "is_ipv6 b = v6" "p \<le> width_of v6"
  shows "to_bits a AND net_mask v6 p = to_bits b AND net_mask v6 p
    \<longleftrightarrow> num a div 2 ^ (width_of v6 - p) = num b div 2 ^ (width_of v6 - p)"
proof -
  have "to_bits a AND net_mask v6 p = to_bits b AND net_mask v6 p
      \<longleftrightarrow> unat (to_bits a AND net_mask v6 p) = unat (to_bits b AND net_mask v6 p)"
    by (rule word_unat_eq_iff)
  also have "\<dots> \<longleftrightarrow> num a div 2 ^ (width_of v6 - p) = num b div 2 ^ (width_of v6 - p)"
    using masked_num[of p a] masked_num[of p b] assms by simp
  finally show ?thesis .
qed

lemma contains_net_iff:
  assumes "wf_net o1" "wf_net i"
  shows "contains_net o1 i \<longleftrightarrow> prefix_len o1 \<le> prefix_len i \<and> in_net o1 (addr i)"
proof (cases "is_v6 o1 = is_v6 i")
  case True
  have p: "prefix_len o1 \<le> width_of (is_v6 o1)" using prefix_len_le[OF assms(1)] by (simp add: host_bits_width)
  from masked_eq[OF _ _ p, of "addr o1" "addr i"] True show ?thesis
    by (auto simp: contains_net_def in_net_div is_v6_def host_part_def host_bits_width)
qed (auto simp: contains_net_def in_net_div is_v6_def)

text \<open>The address of a number.\<close>

lemma addr_of_num:
  assumes "k < 2 ^ width_of v6"
  obtains a where "is_ipv6 a = v6" "num a = k"
proof (cases v6)
  case True
  with assms show ?thesis
    by (intro that[of "V6 (of_nat k)"]) (auto simp: num_def width_of_def unat_of_nat)
next
  case False
  with assms show ?thesis
    by (intro that[of "V4 (of_nat k)"]) (auto simp: num_def width_of_def unat_of_nat unat_ucast32)
qed

lemma addr_in_own: "in_net n (addr n)"
  by (simp add: in_net_div is_v6_def)

lemma contains_is_subset:
  assumes w: "wf_net o1" "wf_net i"
  shows "contains_net o1 i \<longleftrightarrow> (\<forall>a. in_net i a \<longrightarrow> in_net o1 a)"
proof
  assume "contains_net o1 i"
  then have c: "prefix_len o1 \<le> prefix_len i" "in_net o1 (addr i)" using contains_net_iff[OF w] by auto
  then have fam: "is_v6 i = is_v6 o1" by (simp add: in_net_def is_v6_def)
  have le: "host_part i \<le> host_part o1" using c(1) fam by (simp add: host_part_def host_bits_width)
  show "\<forall>a. in_net i a \<longrightarrow> in_net o1 a"
  proof (intro allI impI)
    fix a assume "in_net i a"
    then have a: "is_ipv6 a = is_v6 i" "num a div 2 ^ host_part i = num (addr i) div 2 ^ host_part i"
      by (auto simp: in_net_div)
    have pow: "(2 :: nat) ^ host_part o1 = 2 ^ host_part i * 2 ^ (host_part o1 - host_part i)"
      using le by (simp add: power_add[symmetric])
    have "num a div 2 ^ host_part o1 = num (addr i) div 2 ^ host_part o1"
      unfolding pow div_mult2_eq a(2) ..
    then show "in_net o1 a" using c(2) a(1) fam by (simp add: in_net_div)
  qed
next
  assume sub: "\<forall>a. in_net i a \<longrightarrow> in_net o1 a"
  then have own: "in_net o1 (addr i)" using addr_in_own by blast
  then have fam: "is_v6 i = is_v6 o1" by (simp add: in_net_def is_v6_def)
  have "prefix_len o1 \<le> prefix_len i"
  proof (rule ccontr)
    assume "\<not> prefix_len o1 \<le> prefix_len i"
    then have lt: "host_part o1 < host_part i"
      using fam prefix_len_le[OF w(1)] by (simp add: host_part_def host_bits_width)
    let ?M = "2 ^ host_part i :: nat"
    have fst_le: "net_first i \<le> num (addr i)" by (simp add: net_first_def)
    have top: "net_first i + ?M \<le> 2 ^ width_of (is_v6 i)"
    proof -
      let ?W = "2 ^ width_of (is_v6 i) :: nat"
      have "num (addr i) < ?W" using num_bound[of "addr i"] by (simp add: is_v6_def)
      moreover have "?W = 2 ^ (width_of (is_v6 i) - host_part i) * ?M"
        by (simp add: power_add[symmetric] host_part_def host_bits_width)
      ultimately have "num (addr i) div ?M < 2 ^ (width_of (is_v6 i) - host_part i)"
        by (simp add: div_less_iff_less_mult)
      then have "Suc (num (addr i) div ?M) * ?M \<le> 2 ^ (width_of (is_v6 i) - host_part i) * ?M"
        by (intro mult_right_mono) auto
      with \<open>?W = _\<close> show ?thesis by (simp add: net_first_def)
    qed
    have "net_first i < 2 ^ width_of (is_v6 i)" "net_first i + (?M - 1) < 2 ^ width_of (is_v6 i)"
    proof -
      have "0 < ?M" by simp
      with top show "net_first i < 2 ^ width_of (is_v6 i)" "net_first i + (?M - 1) < 2 ^ width_of (is_v6 i)"
        by linarith+
    qed
    then obtain a b where "is_ipv6 a = is_v6 i" "num a = net_first i" "is_ipv6 b = is_v6 i" "num b = net_first i + (?M - 1)"
      using addr_of_num[of "net_first i" "is_v6 i"] addr_of_num[of "net_first i + (?M - 1)" "is_v6 i"] by metis
    have "0 < ?M" by simp
    then have "in_net i a" "in_net i b"
      using \<open>is_ipv6 a = _\<close> \<open>is_ipv6 b = _\<close> \<open>num a = _\<close> \<open>num b = _\<close> unfolding in_net_def by linarith+
    with sub have "in_net o1 a" "in_net o1 b" by auto
    then have "net_first o1 \<le> net_first i" "net_first i + (?M - 1) < net_first o1 + 2 ^ host_part o1"
      using \<open>num a = _\<close> \<open>num b = _\<close> by (auto simp: in_net_def)
    moreover have "2 ^ host_part o1 < ?M" using lt by simp
    ultimately show False by linarith
  qed
  with own show "contains_net o1 i" using contains_net_iff[OF w] by simp
qed

section \<open>Handing out addresses\<close>

lemma scan_hosts_Some: "scan_hosts v6 base used h n = Some ip \<Longrightarrow>
    \<exists>k < n. ip = from_bits v6 (base + of_nat (h + k)) \<and> ip \<notin> set used
      \<and> (\<forall>j < k. from_bits v6 (base + of_nat (h + j)) \<in> set used)"
proof (induction n arbitrary: h)
  case (Suc n)
  show ?case
  proof (cases "from_bits v6 (base + of_nat h) \<in> set used")
    case True
    with Suc.prems have "scan_hosts v6 base used (Suc h) n = Some ip" by simp
    from Suc.IH[OF this] obtain k where k: "k < n" "ip = from_bits v6 (base + of_nat (Suc h + k))" "ip \<notin> set used"
      "\<forall>j < k. from_bits v6 (base + of_nat (Suc h + j)) \<in> set used" by blast
    have "from_bits v6 (base + of_nat (h + j)) \<in> set used" if "j < Suc k" for j
      using that True k(4) by (cases j) (auto simp: add.commute)
    with k show ?thesis by (intro exI[of _ "Suc k"]) (simp add: add.commute add.left_commute)
  next
    case False
    with Suc.prems show ?thesis by (intro exI[of _ 0]) auto
  qed
qed simp

lemma scan_hosts_None: "scan_hosts v6 base used h n = None \<Longrightarrow>
    k < n \<Longrightarrow> from_bits v6 (base + of_nat (h + k)) \<in> set used"
proof (induction n arbitrary: h k)
  case (Suc n)
  from Suc.prems(1) have h: "from_bits v6 (base + of_nat h) \<in> set used" "scan_hosts v6 base used (Suc h) n = None"
    by (auto simp: Let_def split: if_splits)
  show ?case
  proof (cases k)
    case (Suc j)
    with Suc.IH[OF h(2), of j] Suc.prems(2) show ?thesis by simp
  qed (use h in simp)
qed simp

lemma num_from_bits:
  assumes "unat base + k < 2 ^ width_of v6"
  shows "num (from_bits v6 (base + of_nat k)) = unat base + k \<and> is_ipv6 (from_bits v6 (base + of_nat k)) = v6"
proof -
  have w: "unat base + k < 2 ^ 128" using assms by (auto simp: width_of_def split: if_splits)
  then have u: "unat (base + of_nat k) = unat base + k"
    by (simp add: unat_word_ariths unat_of_nat)
  show ?thesis
  proof (cases v6)
    case False
    then have s: "unat base + k < 2 ^ 32" using assms by (simp add: width_of_def)
    have "unat (ucast (base + of_nat k) :: 32 word) = unat base + k"
      using s u by (simp add: unsigned_ucast_eq take_bit_nat_eq_self)
    with False show ?thesis by (simp add: from_bits_def num_def unat_ucast32)
  qed (simp add: from_bits_def num_def u)
qed

text \<open>
  The addresses a network has for its peers: all but the first, and in IPv4 all but the
  broadcast address, of the numbers after the network's own.
\<close>

definition host_numbers :: "net \<Rightarrow> nat" where
  "host_numbers n = (if is_v6 n then 2 ^ host_part n - 1 else 2 ^ host_part n - 2)"

definition scanned :: "net \<Rightarrow> nat" where
  "scanned n = min (host_numbers n) (2 ^ 20)"

lemma last_host_numbers:
  "2 \<le> host_part n \<Longrightarrow> host_part n \<le> width_of (is_v6 n) \<Longrightarrow>
   min (last_host (is_v6 n) (host_part n)) (2 ^ 20) = scanned n"
proof -
  assume a: "2 \<le> host_part n" "host_part n \<le> width_of (is_v6 n)"
  show ?thesis
  proof (cases "127 \<le> host_part n")
    case True
    then have v6: "is_v6 n" using a(2) by (auto simp: width_of_def split: if_splits)
    have "(2 :: nat) ^ 127 \<le> 2 ^ host_part n" using True by (rule power_increasing) simp
    then have "(2 :: nat) ^ 20 \<le> 2 ^ host_part n - 1" by simp
    with True v6 show ?thesis by (simp add: last_host_def scanned_def host_numbers_def min_def)
  qed (simp add: last_host_def scanned_def host_numbers_def)
qed

lemma net_first_word:
  assumes "wf_net n"
  shows "unat (to_bits (addr n) AND net_mask (is_v6 n) (prefix_len n)) = net_first n"
  using masked_num[of "prefix_len n" "addr n"] prefix_len_le[OF assms]
  by (simp add: net_first_def host_part_def host_bits_width is_v6_def)

lemma net_first_top:
  assumes "wf_net n" shows "net_first n + 2 ^ host_part n \<le> 2 ^ width_of (is_v6 n)"
proof -
  let ?W = "2 ^ width_of (is_v6 n) :: nat" and ?M = "2 ^ host_part n :: nat"
  have "num (addr n) < ?W" using num_bound[of "addr n"] by (simp add: is_v6_def)
  moreover have W: "?W = 2 ^ (width_of (is_v6 n) - host_part n) * ?M"
    by (simp add: power_add[symmetric] host_part_def host_bits_width)
  ultimately have "num (addr n) div ?M < 2 ^ (width_of (is_v6 n) - host_part n)"
    by (simp add: div_less_iff_less_mult)
  then have "Suc (num (addr n) div ?M) * ?M \<le> 2 ^ (width_of (is_v6 n) - host_part n) * ?M"
    by (intro mult_right_mono) auto
  with W show ?thesis by (simp add: net_first_def)
qed

text \<open>The address with number \<open>h\<close> in a network.\<close>

definition host_addr :: "net \<Rightarrow> nat \<Rightarrow> ip_addr" where
  "host_addr n h = from_bits (is_v6 n) ((to_bits (addr n) AND net_mask (is_v6 n) (prefix_len n)) + of_nat h)"

lemma host_addr_num:
  assumes "wf_net n" "h < 2 ^ host_part n"
  shows "num (host_addr n h) = net_first n + h \<and> is_ipv6 (host_addr n h) = is_v6 n"
proof -
  let ?base = "to_bits (addr n) AND net_mask (is_v6 n) (prefix_len n)"
  have "unat ?base + h < 2 ^ width_of (is_v6 n)"
    using net_first_top[OF assms(1)] net_first_word[OF assms(1)] assms(2) by linarith
  from num_from_bits[OF this] net_first_word[OF assms(1)] show ?thesis by (simp add: host_addr_def)
qed

lemma allocate_cases:
  assumes "wf_net n"
  shows "(prefix_len n + 2 > host_bits n \<and> allocate n used = Inl (NoRoom (show_net n)))
    \<or> (prefix_len n + 2 \<le> host_bits n \<and> (\<forall>h. 1 \<le> h \<and> h \<le> scanned n \<longrightarrow> host_addr n h \<in> set used)
        \<and> allocate n used = Inl (NoFreeAddress (network_of n)))
    \<or> (prefix_len n + 2 \<le> host_bits n \<and> (\<exists>h. 1 \<le> h \<and> h \<le> scanned n \<and> host_addr n h \<notin> set used
        \<and> (\<forall>k. 1 \<le> k \<and> k < h \<longrightarrow> host_addr n k \<in> set used)
        \<and> allocate n used = Inr (show_ip (host_addr n h) @ ''/'' @ show_nat (host_bits n))))"
proof (cases "host_bits n - 1 \<le> prefix_len n")
  case True
  then show ?thesis by (auto simp: allocate_def Let_def host_bits_def split: if_splits)
next
  case False
  let ?scan = "scan_hosts (is_v6 n) (to_bits (addr n) AND net_mask (is_v6 n) (prefix_len n)) used 1 (scanned n)"
  have sc: "min (last_host (is_v6 n) (host_bits n - prefix_len n)) (2 ^ 20) = scanned n"
    using last_host_numbers[of n] False by (simp add: host_part_def host_bits_width)
  have room: "prefix_len n + 2 \<le> host_bits n" using False by simp
  have alloc: "allocate n used = (case ?scan of Some ip \<Rightarrow> Inr (show_ip ip @ ''/'' @ show_nat (host_bits n))
      | None \<Rightarrow> Inl (NoFreeAddress (network_of n)))"
    using False unfolding allocate_def Let_def sc by (simp only: if_False)
  show ?thesis
  proof (cases ?scan)
    case None
    have "host_addr n h \<in> set used" if "1 \<le> h" "h \<le> scanned n" for h
    proof -
      have "h - 1 < scanned n" "1 + (h - 1) = h" using that by linarith+
      with scan_hosts_None[OF None, of "h - 1"] show ?thesis by (simp only: host_addr_def)
    qed
    moreover have "allocate n used = Inl (NoFreeAddress (network_of n))"
      unfolding alloc None by simp
    ultimately show ?thesis using room by blast
  next
    case (Some ip)
    from scan_hosts_Some[OF Some] obtain k where k: "k < scanned n" "ip = host_addr n (1 + k)" "ip \<notin> set used"
      "\<And>j. j < k \<Longrightarrow> host_addr n (1 + j) \<in> set used" by (auto simp: host_addr_def)
    have "host_addr n j \<in> set used" if "1 \<le> j" "j < 1 + k" for j using k(4)[of "j - 1"] that by simp
    moreover have "allocate n used = Inr (show_ip ip @ ''/'' @ show_nat (host_bits n))"
      unfolding alloc Some by simp
    ultimately show ?thesis using room k(1-3)
      by (intro disjI2 conjI exI[of _ "1 + k"]) auto
  qed
qed

end
