(* ===== verification/WgNorm.thy ===== *)
theory WgNorm
  imports WgNets
begin

text \<open>
  What normalisation makes of an interface: the characters that remain in each field, and
  that a normalised interface is a fixed point.
\<close>

section \<open>The characters of an address text\<close>

text \<open>\<open>ate s r\<close>: \<open>r\<close> is what is left of \<open>s\<close> after address characters were read.\<close>

definition ate :: "string \<Rightarrow> string \<Rightarrow> bool" where
  "ate s r = (\<exists>p. s = p @ r \<and> list_all ip_char p)"

lemma ate_refl: "ate s s"
  by (simp add: ate_def)

lemma ate_trans: "ate s r \<Longrightarrow> ate r q \<Longrightarrow> ate s q"
  by (auto simp: ate_def)

lemma ate_all: "ate s [] \<Longrightarrow> list_all ip_char s"
  by (simp add: ate_def)

lemma take_digits_ate: "take_digits r s = (ds, rest) \<Longrightarrow> ate s rest"
proof (induction s arbitrary: ds)
  case (Cons c cs)
  show ?case
  proof (cases "to_digit r c")
    case (Some d)
    with Cons.prems obtain ds1 where "take_digits r cs = (ds1, rest)" by (auto split: prod.splits)
    from Cons.IH[OF this] to_digit_alnum[OF Some] show ?thesis
      by (force simp: ate_def ip_char_def)
  qed (use Cons.prems ate_refl in auto)
qed (simp add: ate_refl)

lemma read_number_ate: "read_number r m z v s = Some (n, rest) \<Longrightarrow> ate s rest"
  by (auto simp: read_number_def Let_def split: prod.splits if_splits dest: take_digits_ate)

lemma read_sep_ate: "read_sep d first s = Some r \<Longrightarrow> ip_char d \<Longrightarrow> ate s r"
  by (cases s) (auto simp: read_sep_def ate_def split: if_splits)

lemma read_octets_ate: "read_octets k first s = Some (gs, r) \<Longrightarrow> ate s r"
proof (induction k arbitrary: first s gs)
  case (Suc k)
  then obtain s1 g s2 gs1 where r: "read_sep CHR ''.'' first s = Some s1" "read_number 10 3 False 255 s1 = Some (g, s2)"
    "read_octets k False s2 = Some (gs1, r)"
    by (auto split: option.splits)
  have "ip_char CHR ''.''" by (simp add: ip_char_def)
  from read_sep_ate[OF r(1) this] read_number_ate[OF r(2)] Suc.IH[OF r(3)] show ?case
    by (blast intro: ate_trans)
qed (simp add: ate_refl)

lemma read_v4_ate: "read_v4 s = Some (os, r) \<Longrightarrow> ate s r"
  unfolding read_v4_def by (rule read_octets_ate)

lemma read_groups_ate: "read_groups k first s = (gs, b, r) \<Longrightarrow> ate s r"
proof (induction k first s arbitrary: gs b r rule: read_groups.induct)
  case (2 k first s)
  have colon: "ip_char CHR '':''" by (simp add: ip_char_def)
  show ?case
  proof (cases "if 0 < k then Option.bind (read_sep CHR '':'' first s) read_v4 else None")
    case (Some x)
    obtain os r1 where x: "x = (os, r1)" by (cases x)
    from Some x obtain s1 where "read_sep CHR '':'' first s = Some s1" "read_v4 s1 = Some (os, r1)"
      by (auto split: if_splits simp: bind_eq_Some_conv)
    with read_sep_ate[OF _ colon] read_v4_ate have "ate s r1" by (blast intro: ate_trans)
    with Some x 2(2) show ?thesis by simp
  next
    case None
    show ?thesis
    proof (cases "Option.bind (read_sep CHR '':'' first s) (read_number 16 4 True 65535)")
      case (Some x)
      obtain g s2 where x: "x = (g, s2)" by (cases x)
      from Some x obtain s1 where "read_sep CHR '':'' first s = Some s1" "read_number 16 4 True 65535 s1 = Some (g, s2)"
        by (auto simp: bind_eq_Some_conv)
      with read_sep_ate[OF _ colon] read_number_ate have a: "ate s s2" by (blast intro: ate_trans)
      obtain gs1 b1 r1 where g: "read_groups k False s2 = (gs1, b1, r1)" by (cases "read_groups k False s2")
      with 2(2) None Some x have "r1 = r" by simp
      with 2(1)[OF None Some x[symmetric] g] a show ?thesis by (blast intro: ate_trans)
    qed (use 2(2) None ate_refl in simp)
  qed
qed (simp add: ate_refl)

lemma read_v6_ate: "read_v6 s = Some (gs, r) \<Longrightarrow> ate s r"
proof -
  assume r: "read_v6 s = Some (gs, r)"
  obtain head b r0 where h: "read_groups 8 True s = (head, b, r0)" by (cases "read_groups 8 True s")
  show ?thesis
  proof (cases "length head = 8")
    case True
    with r h read_groups_ate[OF h] show ?thesis by (simp add: read_v6_def)
  next
    case False
    with r h obtain r1 where r1: "strip_prefix ''::'' r0 = Some r1"
      by (auto simp: read_v6_def split: if_splits option.splits)
    obtain tail c r2 where t: "read_groups (8 - (length head + 1)) True r1 = (tail, c, r2)"
      by (cases "read_groups (8 - (length head + 1)) True r1")
    with r h False r1 have "r2 = r" by (auto simp: read_v6_def split: if_splits)
    moreover have "ate r0 r1" using r1 by (auto simp: strip_prefix_Some ate_def ip_char_def intro: exI[of _ "''::''"])
    ultimately show ?thesis using read_groups_ate[OF h] read_groups_ate[OF t] by (blast intro: ate_trans)
  qed
qed

lemma parse_v6_chars: "parse_v6 s \<noteq> None \<Longrightarrow> list_all ip_char s"
  by (auto simp: parse_v6_def split: option.splits list.splits intro: ate_all[OF read_v6_ate])

lemma parse_ip_chars: "parse_ip s \<noteq> None \<Longrightarrow> list_all ip_char s"
  by (auto simp: parse_ip_def split: option.splits if_splits intro: parse_v6_chars ate_all[OF read_v4_ate])

text \<open>The characters the fields of a configuration file are made of: no blanks, no comment signs.\<close>

definition word_char :: "char \<Rightarrow> bool" where
  "word_char c = (is_alnum c \<or> c \<in> set ''.:/+=-_[]'')"

lemma word_char_plain:
  "word_char c \<Longrightarrow> \<not> is_white c \<and> \<not> is_control c \<and> code c < 128 \<and> c \<noteq> CHR ''#'' \<and> c \<noteq> CHR '','' \<and> c \<noteq> CHR 0x0A
    \<and> c \<noteq> CHR 0x0D"
  by (auto simp: word_char_def is_white_def is_control_def is_alnum_def is_digit_def is_upper_def is_lower_def)

definition word :: "string \<Rightarrow> bool" where
  "word s = list_all word_char s"

lemma word_trimmed: "word s \<Longrightarrow> trimmed s"
  by (rule no_white_trimmed) (auto simp: word_def list_all_iff dest: word_char_plain)

lemma word_trim [simp]: "word s \<Longrightarrow> trim s = s"
  by (rule trim_trimmed[OF word_trimmed])

lemma word_append: "word (s @ t) \<longleftrightarrow> word s \<and> word t" and word_Cons: "word (c # s) \<longleftrightarrow> word_char c \<and> word s"
  and word_Nil [simp]: "word []"
  by (auto simp: word_def)

lemma ip_char_word: "ip_char c \<Longrightarrow> word_char c" and host_char_word: "host_char c \<Longrightarrow> word_char c"
  and key_char_word: "key_char c \<Longrightarrow> word_char c" and net_char_word: "net_char c \<Longrightarrow> word_char c"
  and table_char_word: "table_char c \<Longrightarrow> word_char c" and alnum_word: "is_alnum c \<Longrightarrow> word_char c"
  by (auto simp: word_char_def ip_char_def host_char_def key_char_def net_char_def table_char_def)

lemma word_show_nat: "word (show_nat n)"
  by (auto simp: word_def list_all_iff is_alnum_def dest!: show_nat_digit intro!: alnum_word)

lemma word_show_net: "word (show_net n)"
  by (auto simp: word_def list_all_iff dest!: show_net_chars intro!: net_char_word)

lemma word_host: "valid_host h \<Longrightarrow> word h"
  by (auto simp: valid_host_def word_def list_all_iff dest!: parse_ip_chars[simplified]
      intro: ip_char_word host_char_word)

lemma word_dns: "valid_dns h \<Longrightarrow> word h"
  by (auto simp: valid_dns_def word_def list_all_iff dest!: parse_ip_chars[simplified]
      intro: ip_char_word host_char_word)

lemma valid_key_shape: "valid_key k \<Longrightarrow> k \<noteq> [] \<and> list_all key_char (butlast k) \<and> last k = CHR ''=''"
  by (auto simp: valid_key_def ends_with_def strip_suffix_def last_rev[symmetric] hd_rev strip_prefix_Some
      split: if_splits)

lemma word_key: "valid_key k \<Longrightarrow> word k"
proof -
  assume v: "valid_key k"
  note s = valid_key_shape[OF v]
  then have k: "k = butlast k @ [CHR ''='']" by (metis append_butlast_last_id)
  have "word (butlast k @ [CHR ''=''])" using s
    by (auto simp: word_append word_def list_all_iff intro: key_char_word) (simp add: word_char_def)
  with k show ?thesis by simp
qed

section \<open>Normal forms\<close>

definition canon_net :: "string \<Rightarrow> bool" where
  "canon_net s = (\<exists>n. wf_net n \<and> prefix n \<noteq> None \<and> s = show_net n)"

definition full_net :: "net \<Rightarrow> net" where
  "full_net n = n\<lparr>prefix := Some (of_nat (prefix_len n))\<rparr>"

lemma full_net_wf: "wf_net n \<Longrightarrow> wf_net (full_net n) \<and> net_text n = show_net (full_net n) \<and> prefix (full_net n) \<noteq> None"
  by (cases "prefix n")
    (auto simp: full_net_def wf_net_def is_v6_def net_text_def show_net_def prefix_len_def host_bits_def)

lemma net_text_canon: "parse_net s = Inr n \<Longrightarrow> canon_net (net_text n)"
  using full_net_wf[OF parse_net_wf, of s n] unfolding canon_net_def by blast

lemma canon_net_text: "canon_net s \<Longrightarrow> \<exists>n. parse_net s = Inr n \<and> net_text n = s"
  by (force simp: canon_net_def parse_net_show_net net_text_def split: option.split)

lemma canon_net_word: "canon_net s \<Longrightarrow> word s \<and> s \<noteq> []"
proof -
  assume "canon_net s"
  then obtain n where n: "prefix n \<noteq> None" "s = show_net n" by (auto simp: canon_net_def)
  then have "s \<noteq> []" by (auto simp: show_net_def)
  with n(2) word_show_net show ?thesis by simp
qed

lemma add_nets_canon:
  "list_all canon_net l \<Longrightarrow> distinct (out @ l) \<Longrightarrow> add_nets out l = Inr (out @ l)"
proof (induction l arbitrary: out)
  case (Cons s l)
  then obtain n where n: "parse_net s = Inr n" "net_text n = s" using canon_net_text by auto
  have "trim s = s" "s \<noteq> []" using Cons.prems(1) canon_net_word[of s] by auto
  with n Cons show ?case by simp
qed simp

lemma add_nets_result:
  "add_nets out l = Inr r \<Longrightarrow> list_all canon_net out \<Longrightarrow> distinct out \<Longrightarrow> list_all canon_net r \<and> distinct r"
proof (induction l arbitrary: out)
  case (Cons s l)
  show ?case
  proof (cases "trim s = []")
    case True
    with Cons show ?thesis by (simp add: Let_def)
  next
    case False
    then obtain n where n: "parse_net (trim s) = Inr n"
      "add_nets (if net_text n \<in> set out then out else out @ [net_text n]) l = Inr r"
      using Cons.prems(1) by (auto simp: Let_def)
    show ?thesis using Cons.IH[OF n(2)] Cons.prems(2,3) net_text_canon[OF n(1)] by auto
  qed
qed simp

lemma normalize_nets_result: "normalize_nets l = Inr r \<Longrightarrow> list_all canon_net r \<and> distinct r"
  unfolding normalize_nets_def by (erule add_nets_result) simp_all

lemma normalize_nets_fixed: "list_all canon_net r \<Longrightarrow> distinct r \<Longrightarrow> normalize_nets r = Inr r"
  unfolding normalize_nets_def using add_nets_canon[of r "[]"] by simp

lemma parse_u16_show: "parse_u16 s = Some p \<Longrightarrow> parse_u16 (show_nat p) = Some p"
  by (rule parse_radix_show) (auto dest: parse_radix_bound)

lemma colon_not_digit: "CHR '':'' \<notin> set (show_nat p)"
  by (auto dest!: show_nat_digit simp: is_digit_def)

text \<open>An endpoint in the form \<open>normalize_endpoint\<close> prints.\<close>

definition canon_endpoint :: "string \<Rightarrow> bool" where
  "canon_endpoint e = (normalize_endpoint e = Inr e \<and> word e \<and> e \<noteq> [])"

lemma endpoint_cases:
  assumes "normalize_endpoint v = Inr e"
  obtains host p where "p \<noteq> 0" "parse_u16 (show_nat p) = Some p" "e = host @ CHR '':'' # show_nat p"
    "(\<exists>v6. parse_v6 v6 \<noteq> None \<and> host = ''['' @ v6 @ '']'')
     \<or> Option.bind (strip_prefix ''['' host) (strip_suffix '']'') = None \<and> parse_v6 host = None \<and> valid_host host"
proof -
  from assms obtain host pt p where r: "rsplit_once (CHR '':'') (trim v) = Some (host, pt)" "parse_u16 pt = Some p" "p \<noteq> 0"
    by (auto simp: normalize_endpoint_def Let_def split: option.splits prod.splits if_splits)
  show ?thesis
  proof (cases "Option.bind (strip_prefix ''['' host) (strip_suffix '']'')")
    case (Some v6)
    with assms r have "parse_v6 v6 \<noteq> None" "e = ''['' @ v6 @ '']:'' @ show_nat p"
      by (auto simp: normalize_endpoint_def Let_def split: option.splits if_splits)
    then show ?thesis using r(3) parse_u16_show[OF r(2)] by (intro that[of p "''['' @ v6 @ '']''"]) auto
  next
    case None
    with assms r have "parse_v6 host = None" "valid_host host" "e = host @ '':'' @ show_nat p"
      by (auto simp: normalize_endpoint_def Let_def split: option.splits if_splits)
    then show ?thesis using r(3) parse_u16_show[OF r(2)] None by (intro that[of p host]) auto
  qed
qed

lemma strip_suffix_append: "strip_suffix p (s @ p) = Some s"
  by (simp add: strip_suffix_def)

lemma normalize_endpoint_canon:
  assumes "normalize_endpoint v = Inr e" shows "canon_endpoint e"
proof -
  obtain host p where e: "p \<noteq> 0" "parse_u16 (show_nat p) = Some p" "e = host @ CHR '':'' # show_nat p"
    "(\<exists>v6. parse_v6 v6 \<noteq> None \<and> host = ''['' @ v6 @ '']'')
     \<or> Option.bind (strip_prefix ''['' host) (strip_suffix '']'') = None \<and> parse_v6 host = None \<and> valid_host host"
    by (rule endpoint_cases[OF assms])
  have "word host"
  proof (cases "\<exists>v6. parse_v6 v6 \<noteq> None \<and> host = ''['' @ v6 @ '']''")
    case True
    then obtain v6 where "parse_v6 v6 \<noteq> None" "host = ''['' @ v6 @ '']''" by blast
    with parse_v6_chars[of v6] show ?thesis
      by (auto simp: word_append word_Cons word_def list_all_iff word_char_def[of "CHR ''[''"] word_char_def[of "CHR '']''"]
          intro: ip_char_word)
  qed (use e(4) word_host in blast)
  then have w: "word e" by (simp add: e(3) word_append word_Cons word_show_nat) (simp add: word_char_def)
  have r: "rsplit_once (CHR '':'') e = Some (host, show_nat p)"
    unfolding e(3) by (rule rsplit_once_append) (rule colon_not_digit)
  have "normalize_endpoint e = Inr e"
  proof (cases "\<exists>v6. parse_v6 v6 \<noteq> None \<and> host = ''['' @ v6 @ '']''")
    case True
    then obtain v6 where v6: "parse_v6 v6 \<noteq> None" "host = ''['' @ v6 @ '']''" by blast
    then have "Option.bind (strip_prefix ''['' host) (strip_suffix '']'') = Some v6"
      using strip_suffix_append[of "'']''" v6] by simp
    then show ?thesis using r e(1,2) v6 w by (auto simp: normalize_endpoint_def Let_def e(3))
  next
    case False
    with e(4) have "Option.bind (strip_prefix ''['' host) (strip_suffix '']'') = None" "parse_v6 host = None" "valid_host host"
      by blast+
    then show ?thesis using r e(1,2) w by (simp add: normalize_endpoint_def Let_def e(3))
  qed
  with w show ?thesis by (simp add: canon_endpoint_def e(3))
qed

lemma check_Inr [simp]: "check c e = Inr u \<longleftrightarrow> \<not> c"
  by (simp add: check_def)

lemma check_ok: "\<not> c \<Longrightarrow> check c e = Inr ()"
  by simp

definition canon_peer :: "peer \<Rightarrow> bool" where
  "canon_peer p = (valid_key (public_key p) \<and> (preshared_key p = [] \<or> valid_key (preshared_key p))
     \<and> trimmed (pname p) \<and> length (pname p) \<le> 64 \<and> \<not> list_ex is_control (pname p)
     \<and> list_all canon_net (allowed_ips p) \<and> distinct (allowed_ips p)
     \<and> (pendpoint p = [] \<or> canon_endpoint (pendpoint p)))"

lemma peer_normalize_canon: "peer_normalize p = Inr q \<Longrightarrow> canon_peer q"
  by (auto simp: peer_normalize_def canon_peer_def Let_def dest: normalize_nets_result normalize_endpoint_canon
      split: if_splits)

lemma peer_normalize_keeps: "peer_normalize p = Inr q \<Longrightarrow>
    public_key q = public_key p \<and> preshared_key q = preshared_key p \<and> penabled q = penabled p \<and> keepalive q = keepalive p
    \<and> pname q = trim (pname p)"
  by (auto simp: peer_normalize_def Let_def split: if_splits)

lemma canon_endpoint_trim: "canon_endpoint e \<Longrightarrow> trim e = e \<and> normalize_endpoint e = Inr e"
  by (simp add: canon_endpoint_def)

lemma peer_normalize_fixed: "canon_peer q \<Longrightarrow> peer_normalize q = Inr q"
  by (auto simp: peer_normalize_def canon_peer_def Let_def normalize_nets_fixed trim_trimmed canon_endpoint_trim check_ok
      simp del: check_Inr)

definition host_routes :: "peer \<Rightarrow> string list" where
  "host_routes p = filter is_host_route (allowed_ips p)"

lemma check_routes_Inr:
  "check_routes name hosts ips = Inr hs \<Longrightarrow>
     hs = hosts @ map (\<lambda>ip. (ip, name)) (filter is_host_route ips)
     \<and> distinct (filter is_host_route ips) \<and> set (filter is_host_route ips) \<inter> fst ` set hosts = {}"
proof (induction ips arbitrary: hosts)
  case (Cons ip ips)
  show ?case
  proof (cases "is_host_route ip")
    case True
    with Cons.prems have n: "map_of hosts ip = None" "check_routes name (hosts @ [(ip, name)]) ips = Inr hs"
      by (auto split: option.splits)
    from Cons.IH[OF n(2)] True n(1) show ?thesis by (auto simp: map_of_eq_None_iff)
  qed (use Cons in auto)
qed simp

lemma check_peers_Inr:
  "check_peers keys hosts ps = Inr qs \<Longrightarrow>
     list_all canon_peer qs \<and> length qs = length ps \<and> check_peers keys hosts qs = Inr qs
     \<and> distinct (map public_key qs) \<and> public_key ` set qs \<inter> set keys = {}
     \<and> distinct (concat (map host_routes qs)) \<and> set (concat (map host_routes qs)) \<inter> fst ` set hosts = {}"
proof (induction ps arbitrary: keys hosts qs)
  case (Cons p ps)
  then obtain q hs qs1 where q: "peer_normalize p = Inr q" "public_key q \<notin> set keys"
    "check_routes (pname q) hosts (allowed_ips q) = Inr hs" "check_peers (public_key q # keys) hs ps = Inr qs1" "qs = q # qs1"
    by auto
  have c: "canon_peer q" using q(1) by (rule peer_normalize_canon)
  note ih = Cons.IH[OF q(4)]
  have r: "distinct (host_routes q)" "set (host_routes q) \<inter> fst ` set hosts = {}"
    "fst ` set hs = fst ` set hosts \<union> set (host_routes q)"
    using check_routes_Inr[OF q(3)] by (force simp: host_routes_def)+
  have "check_peers keys hosts qs = Inr qs"
    using q ih peer_normalize_fixed[OF c] by simp
  moreover have "distinct (concat (map host_routes qs))" "set (concat (map host_routes qs)) \<inter> fst ` set hosts = {}"
    using ih r q(5) by auto
  ultimately show ?case using ih c q(2,5) by auto
qed simp

definition canon_dns :: "string list \<Rightarrow> bool" where
  "canon_dns l = list_all (\<lambda>d. d \<noteq> [] \<and> valid_dns d) l"

lemma trimmed_items_words: "list_all (\<lambda>d. d \<noteq> [] \<and> word d) l \<Longrightarrow> trimmed_items l = l"
  by (induction l) (simp_all add: trimmed_items_def)

lemma normalize_dns_canon: "normalize_dns l = Inr r \<Longrightarrow> canon_dns r"
  by (auto simp: normalize_dns_def canon_dns_def trimmed_items_def list_all_iff find_None_iff Let_def split: option.splits)

lemma normalize_dns_fixed: "canon_dns r \<Longrightarrow> normalize_dns r = Inr r"
proof -
  assume c: "canon_dns r"
  then have "trimmed_items r = r" by (intro trimmed_items_words) (auto simp: canon_dns_def list_all_iff word_dns)
  moreover have "find (\<lambda>d. \<not> valid_dns d) r = None" using c by (auto simp: canon_dns_def find_None_iff list_all_iff)
  ultimately show ?thesis by (simp add: normalize_dns_def)
qed

text \<open>What normalisation establishes for an interface, field by field.\<close>

definition canon_iface :: "iface \<Rightarrow> bool" where
  "canon_iface j = (valid_name (iname j) \<and> valid_key (private_key j) \<and> listen_port j \<noteq> Some 0
     \<and> list_all canon_net (addresses j) \<and> distinct (addresses j) \<and> addresses j \<noteq> []
     \<and> canon_dns (dns j) \<and> canon_dns (client_dns j)
     \<and> (case mtu j of Some m \<Rightarrow> 576 \<le> m \<and> m \<le> 9000 | None \<Rightarrow> True)
     \<and> list_all table_char (table j) \<and> (fwmark j = [] \<or> valid_fwmark (fwmark j)) \<and> trimmed (fwmark j)
     \<and> (iendpoint j = [] \<or> valid_host (iendpoint j))
     \<and> \<not> list_ex bad_hook (all_hooks (ihooks j)) \<and> (masquerade j \<longrightarrow> ipv4_subnet j \<noteq> None)
     \<and> length (peers j) \<le> MAX_PEERS \<and> list_all canon_peer (peers j)
     \<and> distinct (map public_key (peers j)) \<and> distinct (concat (map host_routes (peers j))))"

lemma normalize_Inr:
  assumes "normalize i = Inr j"
  obtains addrs ds cds ps where
    "j = i\<lparr>addresses := addrs, dns := ds, client_dns := cds, table := trim (table i), fwmark := trim (fwmark i),
       iendpoint := trim (iendpoint i), peers := ps\<rparr>"
    "normalize_nets (addresses i) = Inr addrs" "normalize_dns (dns i) = Inr ds" "normalize_dns (client_dns i) = Inr cds"
    "check_peers [] [] (peers i) = Inr ps" "length ps = length (peers i)"
    "canon_iface j"
proof -
  from assms obtain addrs ds cds ps where n: "normalize_nets (addresses i) = Inr addrs" "normalize_dns (dns i) = Inr ds"
    "normalize_dns (client_dns i) = Inr cds" "check_peers [] [] (peers i) = Inr ps"
    and j: "j = i\<lparr>addresses := addrs, dns := ds, client_dns := cds, table := trim (table i), fwmark := trim (fwmark i),
       iendpoint := trim (iendpoint i), peers := ps\<rparr>"
    by (auto simp: normalize_def Let_def)
  have sub: "ipv4_subnet (k\<lparr>peers := ps\<rparr>) = ipv4_subnet k" for k by (simp add: ipv4_subnet_def)
  have checks: "valid_name (iname j) \<and> valid_key (private_key j) \<and> listen_port j \<noteq> Some 0 \<and> addresses j \<noteq> []
    \<and> \<not> (case mtu j of Some m \<Rightarrow> \<not> (576 \<le> m \<and> m \<le> 9000) | None \<Rightarrow> False) \<and> list_all table_char (table j)
    \<and> \<not> (fwmark j \<noteq> [] \<and> \<not> valid_fwmark (fwmark j)) \<and> \<not> (iendpoint j \<noteq> [] \<and> \<not> valid_host (iendpoint j))
    \<and> \<not> list_ex bad_hook (all_hooks (ihooks j)) \<and> \<not> (masquerade j \<and> ipv4_subnet j = None)
    \<and> \<not> MAX_PEERS < length (peers i)"
    using assms n by (simp add: normalize_def Let_def j sub)
  have "canon_iface j"
    unfolding canon_iface_def
    using checks normalize_nets_result[OF n(1)] normalize_dns_canon[OF n(2)] normalize_dns_canon[OF n(3)]
      check_peers_Inr[OF n(4)]
    by (simp add: j sub split: option.splits)
  moreover have "length ps = length (peers i)" using check_peers_Inr[OF n(4)] by simp
  ultimately show ?thesis using j n by (intro that)
qed

lemma normalize_fixed:
  assumes "normalize i = Inr j" shows "normalize j = Inr j"
proof -
  obtain addrs ds cds ps where j: "j = i\<lparr>addresses := addrs, dns := ds, client_dns := cds, table := trim (table i),
       fwmark := trim (fwmark i), iendpoint := trim (iendpoint i), peers := ps\<rparr>"
    "check_peers [] [] (peers i) = Inr ps" "canon_iface j"
    by (rule normalize_Inr[OF assms])
  have "check_peers [] [] (peers j) = Inr (peers j)" using check_peers_Inr[OF j(2)] j(1) by simp
  moreover have "trim (table j) = table j" "trim (fwmark j) = fwmark j" "trim (iendpoint j) = iendpoint j"
    by (simp_all add: j(1))
  moreover have "normalize_nets (addresses j) = Inr (addresses j)" "normalize_dns (dns j) = Inr (dns j)"
    "normalize_dns (client_dns j) = Inr (client_dns j)"
    using j(3) by (auto simp: canon_iface_def intro: normalize_nets_fixed normalize_dns_fixed)
  moreover have "j\<lparr>addresses := addresses j, dns := dns j, client_dns := client_dns j, table := table j,
      fwmark := fwmark j, iendpoint := iendpoint j\<rparr> = j" "j\<lparr>peers := peers j\<rparr> = j" by simp_all
  moreover have "\<not> (case mtu j of Some m \<Rightarrow> \<not> (576 \<le> m \<and> m \<le> 9000) | None \<Rightarrow> False)"
    using j(3) by (simp add: canon_iface_def split: option.splits)
  ultimately show ?thesis using j(3)
    by (simp add: normalize_def Let_def canon_iface_def check_ok del: check_Inr)
qed

end
