(* ===== verification/WgRound.thy ===== *)
theory WgRound
  imports WgNorm WgConf
begin

text \<open>
  Reading back what was written: the lines of a text made of lines, what one line does to the
  reader's state, and the chain of these steps over the file of a normalised interface.
\<close>

section \<open>The lines of a text\<close>

definition one_line :: "string \<Rightarrow> bool" where
  "one_line l = (CHR 0x0A \<notin> set l \<and> CHR 0x0D \<notin> set l)"

lemma one_line_append [simp]: "one_line (a @ b) \<longleftrightarrow> one_line a \<and> one_line b"
  and one_line_Cons [simp]: "one_line (c # a) \<longleftrightarrow> c \<noteq> CHR 0x0A \<and> c \<noteq> CHR 0x0D \<and> one_line a"
  and one_line_Nil [simp]: "one_line []"
  by (auto simp: one_line_def)

lemma strip_cr_one_line: "one_line l \<Longrightarrow> strip_cr l = l"
proof (cases "rev l")
  case (Cons c cs)
  assume "one_line l"
  moreover have "c \<in> set l" using Cons by (metis list.set_intros(1) set_rev)
  ultimately have "c \<noteq> CHR 0x0D" by (auto simp: one_line_def)
  moreover have "char_of (13 :: nat) = CHR 0x0D" by (simp add: char_of_def bit_0 bit_Suc)
  ultimately have "code c \<noteq> 13" using char_of_char[of c] by metis
  with Cons show ?thesis by (simp add: strip_cr_def)
qed (simp add: strip_cr_def)

lemma unlines_Nil [simp]: "unlines [] = []" and unlines_Cons: "unlines (l # ls) = l @ LF @ unlines ls"
  and unlines_append: "unlines (ls @ ms) = unlines ls @ unlines ms"
  by (simp_all add: unlines_def)

lemma split_unlines: "list_all one_line ls \<Longrightarrow> split_char (CHR 0x0A) (unlines ls) = ls @ [[]]"
  by (induction ls) (simp_all add: unlines_Cons LF_def split_char_append one_line_def)

lemma lines_unlines: "list_all one_line ls \<Longrightarrow> lines (unlines ls) = ls"
  by (simp add: lines_def split_unlines list_all_iff strip_cr_one_line map_idI)

lemma word_one_line: "word s \<Longrightarrow> one_line s"
  by (auto simp: one_line_def word_def list_all_iff dest: word_char_plain)

lemma word_no_hash: "word s \<Longrightarrow> CHR ''#'' \<notin> set s"
  by (auto simp: word_def list_all_iff dest: word_char_plain)

lemma one_line_join: "one_line sep \<Longrightarrow> list_all one_line xs \<Longrightarrow> one_line (join sep xs)"
  by (induction sep xs rule: join.induct) auto

section \<open>Comma separated values\<close>

lemma trimmed_items_simps [simp]:
  "trimmed_items [] = []"
  "trimmed_items (x # xs) = (if trim x = [] then trimmed_items xs else trim x # trimmed_items xs)"
  by (simp_all add: trimmed_items_def)

lemma trim_blank: "trim (CHR '' '' # s) = trim s"
  by (simp add: trim_def trim_start_def is_white_def)

lemma comma_items_blank: "comma_items (CHR '' '' # s) = comma_items s"
proof (cases "split_char (CHR '','') s")
  case (Cons x xs)
  then have "split_char (CHR '','') (CHR '' '' # s) = (CHR '' '' # x) # xs" by simp
  with Cons show ?thesis by (simp add: comma_items_def trim_blank)
qed simp

lemma comma_items_word: "word x \<Longrightarrow> x \<noteq> [] \<Longrightarrow> comma_items x = [x]"
  by (subst comma_items_def, subst split_char_none) (auto simp: word_def list_all_iff dest: word_char_plain)

lemma comma_items_join: "list_all (\<lambda>x. word x \<and> x \<noteq> []) xs \<Longrightarrow> comma_items (join '', '' xs) = xs"
proof (induction xs)
  case (Cons x xs)
  show ?case
  proof (cases "xs = []")
    case False
    have "CHR '','' \<notin> set x" using Cons.prems by (auto simp: word_def list_all_iff dest: word_char_plain)
    then have "comma_items (x @ CHR '','' # CHR '' '' # join '', '' xs)
        = x # comma_items (CHR '' '' # join '', '' xs)"
      using Cons.prems by (simp add: comma_items_def split_char_append del: split_char.simps)
    with False Cons show ?thesis by (simp add: join_Cons comma_items_blank)
  qed (use Cons comma_items_word in simp)
qed (simp add: comma_items_def trim_def trim_start_def trim_end_def)

lemma join_words: "list_all (\<lambda>x. word x \<and> x \<noteq> []) xs \<Longrightarrow> xs \<noteq> [] \<Longrightarrow>
    trimmed (join '', '' xs) \<and> join '', '' xs \<noteq> [] \<and> CHR ''#'' \<notin> set (join '', '' xs) \<and> one_line (join '', '' xs)"
proof (induction xs)
  case (Cons x xs)
  have x: "word x" "x \<noteq> []" "trimmed x" "CHR ''#'' \<notin> set x" "one_line x"
    using Cons.prems word_trimmed word_no_hash word_one_line by auto
  show ?case
  proof (cases "xs = []")
    case False
    with Cons x show ?thesis by (auto simp: join_Cons trimmed_def)
  qed (use x in simp)
qed simp

section \<open>What one line does\<close>

lemma trim_Nil [simp]: "trim [] = []"
  by (simp add: trim_def trim_start_def trim_end_def)

text \<open>The reader after blanks, the prefix of a disabled peer and empty lines are dealt with.\<close>

definition read_content :: "nat \<Rightarrow> string \<Rightarrow> bool \<Rightarrow> parse_state \<Rightarrow> conf_error + parse_state" where
  "read_content n line off s =
     (if starts_with ''#'' line then
        Inr (case asc_comment line of Some (k, v) \<Rightarrow> apply_asc s k v | None \<Rightarrow> s)
      else if has_infix NAT_TAG line then Inr s
      else plain_line n line off s)"

lemma trim_off_prefix: "trim_end OFF_PREFIX = ''#asc:off''"
  by (simp add: OFF_PREFIX_def trim_end_def is_white_def)

lemma parse_line_on:
  "trimmed l \<Longrightarrow> l \<noteq> [] \<Longrightarrow> strip_prefix ''#asc:off'' l = None \<Longrightarrow> parse_line n l s = read_content n l False s"
  by (simp add: parse_line_def trim_off_prefix trim_trimmed read_content_def)

lemma trim_start_trimmed: "trimmed l \<Longrightarrow> trim_start l = l"
  by (cases l) (auto simp: trimmed_def trim_start_def)

lemma off_line_trim: "trimmed l \<Longrightarrow> l \<noteq> [] \<Longrightarrow> trim (OFF_PREFIX @ l) = OFF_PREFIX @ l"
  by (rule trim_trimmed) (auto simp: trimmed_def OFF_PREFIX_def is_white_def)

lemma parse_line_off: "trimmed l \<Longrightarrow> l \<noteq> [] \<Longrightarrow> parse_line n (OFF_PREFIX @ l) s = read_content n l True s"
proof -
  assume l: "trimmed l" "l \<noteq> []"
  have "strip_prefix ''#asc:off'' (OFF_PREFIX @ l) = Some (CHR '' '' # l)" by (simp add: OFF_PREFIX_def)
  moreover have "trim_start (CHR '' '' # l) = l"
    using trim_start_trimmed[OF l(1)] by (simp add: trim_start_def is_white_def)
  ultimately show ?thesis
    using l by (simp add: parse_line_def trim_off_prefix off_line_trim read_content_def)
qed

lemma has_infix_hash: "CHR ''#'' \<notin> set l \<Longrightarrow> \<not> has_infix NAT_TAG l"
proof
  assume h: "CHR ''#'' \<notin> set l" "has_infix NAT_TAG l"
  then obtain k t where "drop k l = NAT_TAG @ t" by (auto simp: has_infix_def list_ex_iff starts_with_iff)
  then have "CHR ''#'' \<in> set (drop k l)" by (simp add: NAT_TAG_def)
  with h(1) show False by (meson in_set_dropD)
qed

lemma has_infix_end: "has_infix p (a @ p)"
  by (auto simp: has_infix_def list_ex_iff starts_with_iff intro!: bexI[of _ "length a"])

text \<open>A line \<open>key = value\<close>: the key a plain word, the value without blanks at its ends and without comment.\<close>

definition plain_key :: "string \<Rightarrow> bool" where
  "plain_key k = (k \<noteq> [] \<and> list_all is_alnum k)"

definition plain_value :: "string \<Rightarrow> bool" where
  "plain_value v = (v \<noteq> [] \<and> trimmed v \<and> CHR ''#'' \<notin> set v \<and> one_line v)"

definition read_key :: "nat \<Rightarrow> string \<Rightarrow> string \<Rightarrow> parse_state \<Rightarrow> conf_error + parse_state" where
  "read_key n k v s = (case st_section s of
     NoSection \<Rightarrow> Inl (OutsideSection n (key_value k v))
   | InInterface \<Rightarrow> iface_key n (to_lower k) v s
   | InPeer \<Rightarrow> peer_key n (to_lower k) v s)"

lemma alnum_not: "is_alnum c \<Longrightarrow> c \<noteq> CHR ''#'' \<and> c \<noteq> CHR ''='' \<and> c \<noteq> CHR ''['' \<and> \<not> is_white c \<and> c \<noteq> CHR 0x0A \<and> c \<noteq> CHR 0x0D"
  by (auto simp: is_alnum_def is_digit_def is_upper_def is_lower_def is_white_def)

lemma plain_key_chars:
  assumes "plain_key k"
  shows "trimmed k" "CHR ''#'' \<notin> set k" "CHR ''='' \<notin> set k" "one_line k"
    "hd k \<noteq> CHR ''[''" "hd k \<noteq> CHR ''#''" "\<not> is_white (hd k)"
proof -
  have c: "\<And>c. c \<in> set k \<Longrightarrow> c \<noteq> CHR ''#'' \<and> c \<noteq> CHR ''='' \<and> c \<noteq> CHR ''['' \<and> \<not> is_white c \<and> c \<noteq> CHR 0x0A \<and> c \<noteq> CHR 0x0D"
    using assms alnum_not by (auto simp only: plain_key_def list_all_iff)
  show "trimmed k" by (rule no_white_trimmed) (use c in blast)
  show "CHR ''#'' \<notin> set k" "CHR ''='' \<notin> set k" "one_line k" using c unfolding one_line_def by blast+
  have "hd k \<in> set k" using assms by (simp add: plain_key_def)
  then show "hd k \<noteq> CHR ''[''" "hd k \<noteq> CHR ''#''" "\<not> is_white (hd k)" using c by blast+
qed

lemma trim_start_snoc: "trim_start (s @ [c]) = (if list_all is_white s then trim_start [c] else trim_start s @ [c])"
  by (induction s) (auto simp: trim_start_def)

lemma trim_start_all: "list_all is_white s \<Longrightarrow> trim_start s = []"
  by (simp add: trim_start_def list_all_iff)

lemma trim_end_blank: "trim (s @ '' '') = trim s"
proof -
  have w: "is_white CHR '' ''" by (simp add: is_white_def)
  then have "trim_end (x @ [CHR '' '']) = trim_end x" for x by (simp add: trim_end_def)
  moreover have "trim_start [CHR '' ''] = []" using w by (simp add: trim_start_def)
  ultimately show ?thesis by (simp add: trim_def trim_start_snoc trim_start_all)
qed

lemma key_value_shape: "plain_key k \<Longrightarrow> plain_value v \<Longrightarrow>
    trimmed (key_value k v) \<and> key_value k v \<noteq> [] \<and> CHR ''#'' \<notin> set (key_value k v) \<and> one_line (key_value k v)"
  using plain_key_chars[of k] by (auto simp: key_value_def plain_value_def trimmed_def plain_key_def)

lemma read_content_key:
  assumes k: "plain_key k" and v: "plain_value v"
  shows "read_content n (key_value k v) off s = read_key n k v s"
proof -
  note sh = key_value_shape[OF k v] and kc = plain_key_chars[OF k]
  obtain c cs where kk: "k = c # cs" using k by (cases k) (auto simp: plain_key_def)
  have st: "\<not> starts_with ''#'' (key_value k v)" "\<not> starts_with ''['' (key_value k v)"
    using kc kk by (auto simp: key_value_def starts_with_iff)
  have "split_once (CHR ''='') (key_value k v) = Some (k @ '' '', CHR '' '' # v)"
    using split_once_append[of "CHR ''=''" "k @ '' ''" "CHR '' '' # v"] kc by (simp add: key_value_def)
  moreover have "trim (k @ '' '') = k" "trim (CHR '' '' # v) = v"
    using kc v by (simp_all add: trim_end_blank trim_blank trim_trimmed plain_value_def)
  ultimately show ?thesis
    using sh st by (simp add: read_content_def has_infix_hash plain_line_def split_char_none trim_trimmed key_line_def
        read_key_def Let_def split: conf_section.split)
qed

text \<open>A comment of the daemon's own.\<close>

lemma asc_comment_value: "trimmed k \<Longrightarrow> CHR ''='' \<notin> set k \<Longrightarrow> trimmed v \<Longrightarrow> v \<noteq> [] \<Longrightarrow>
    asc_comment (''# asc:'' @ k @ '' = '' @ v) = Some (k, v)"
proof -
  assume a: "trimmed k" "CHR ''='' \<notin> set k" "trimmed v" "v \<noteq> []"
  have "trim (''# asc:'' @ k @ '' = '' @ v) = ''# asc:'' @ k @ '' = '' @ v"
    using a by (intro trim_trimmed) (auto simp: trimmed_def is_white_def)
  moreover have "split_once (CHR ''='') (k @ '' = '' @ v) = Some (k @ '' '', CHR '' '' # v)"
    using split_once_append[of "CHR ''=''" "k @ '' ''" "CHR '' '' # v"] a by simp
  ultimately show ?thesis using a
    by (simp add: asc_comment_def trim_start_def is_white_def trim_end_blank trim_blank trim_trimmed)
qed

lemma asc_comment_flag: "trimmed k \<Longrightarrow> CHR ''='' \<notin> set k \<Longrightarrow> k \<noteq> [] \<Longrightarrow> asc_comment (''# asc:'' @ k) = Some (k, [])"
proof -
  assume a: "trimmed k" "CHR ''='' \<notin> set k" "k \<noteq> []"
  have "trim (''# asc:'' @ k) = ''# asc:'' @ k" using a by (intro trim_trimmed) (auto simp: trimmed_def is_white_def)
  then show ?thesis using a
    by (simp add: asc_comment_def trim_start_def is_white_def trim_trimmed iffD2[OF split_once_none])
qed

section \<open>Runs of lines\<close>

text \<open>\<open>takes ls s t\<close>: from \<open>s\<close>, wherever they stand in the file, the lines \<open>ls\<close> lead to \<open>t\<close>.\<close>

definition takes :: "string list \<Rightarrow> parse_state \<Rightarrow> parse_state \<Rightarrow> bool" where
  "takes ls s t = (\<forall>n. parse_lines n ls s = Inr t)"

lemma takes_Nil [simp]: "takes [] s t \<longleftrightarrow> s = t"
  by (auto simp: takes_def)

lemma takes_Cons: "(\<And>n. parse_line n l s = Inr t) \<Longrightarrow> takes ls t u \<Longrightarrow> takes (l # ls) s u"
  by (simp add: takes_def)

lemma takes_one: "(\<And>n. parse_line n l s = Inr t) \<Longrightarrow> takes [l] s t"
  by (rule takes_Cons) simp_all

lemma parse_lines_append: "parse_lines n ls s = Inr t \<Longrightarrow> parse_lines n (ls @ ms) s = parse_lines (n + length ls) ms t"
  by (induction ls arbitrary: n s) auto

lemma takes_append: "takes ls s t \<Longrightarrow> takes ms t u \<Longrightarrow> takes (ls @ ms) s u"
  by (simp add: takes_def parse_lines_append)

lemma takes_opt: "(c \<Longrightarrow> takes [l] s t) \<Longrightarrow> (\<not> c \<Longrightarrow> s = t) \<Longrightarrow> takes (opt_line c l) s t"
  by (simp add: opt_line_def)

lemma word_plain: "word v \<Longrightarrow> v \<noteq> [] \<Longrightarrow> plain_value v"
  by (simp add: plain_value_def word_trimmed word_no_hash word_one_line)

lemma words_plain: "list_all (\<lambda>x. word x \<and> x \<noteq> []) xs \<Longrightarrow> xs \<noteq> [] \<Longrightarrow> plain_value (join '', '' xs)"
  using join_words by (simp add: plain_value_def)

lemma key_names:
  "plain_key ''PrivateKey''" "plain_key ''Address''" "plain_key ''ListenPort''" "plain_key ''DNS''" "plain_key ''MTU''"
  "plain_key ''Table''" "plain_key ''FwMark''" "plain_key ''PreUp''" "plain_key ''PostUp''" "plain_key ''PreDown''"
  "plain_key ''PostDown''" "plain_key ''PublicKey''" "plain_key ''PresharedKey''" "plain_key ''AllowedIPs''"
  "plain_key ''Endpoint''" "plain_key ''PersistentKeepalive''"
  by (simp_all add: plain_key_def is_alnum_def is_digit_def is_upper_def is_lower_def)

lemma lower_names:
  "to_lower ''PrivateKey'' = ''privatekey''" "to_lower ''Address'' = ''address''"
  "to_lower ''ListenPort'' = ''listenport''" "to_lower ''DNS'' = ''dns''" "to_lower ''MTU'' = ''mtu''"
  "to_lower ''Table'' = ''table''" "to_lower ''FwMark'' = ''fwmark''" "to_lower ''PreUp'' = ''preup''"
  "to_lower ''PostUp'' = ''postup''" "to_lower ''PreDown'' = ''predown''" "to_lower ''PostDown'' = ''postdown''"
  "to_lower ''PublicKey'' = ''publickey''" "to_lower ''PresharedKey'' = ''presharedkey''"
  "to_lower ''AllowedIPs'' = ''allowedips''" "to_lower ''Endpoint'' = ''endpoint''"
  "to_lower ''PersistentKeepalive'' = ''persistentkeepalive''"
  by (simp_all add: to_lower_def lower_char_def is_upper_def char_of_def bit_0 bit_Suc)

lemma no_off_prefix: "plain_key k \<Longrightarrow> strip_prefix ''#asc:off'' (key_value k v) = None"
  using plain_key_chars(6)[of k] by (cases k) (auto simp: key_value_def plain_key_def)

lemma parse_line_key: "plain_key k \<Longrightarrow> plain_value v \<Longrightarrow> parse_line n (key_value k v) s = read_key n k v s"
  using key_value_shape[of k v] by (simp add: parse_line_on no_off_prefix read_content_key)

lemma parse_line_empty: "parse_line n [] s = Inr s"
  by (simp add: parse_line_def trim_off_prefix)

section \<open>The interface section\<close>

definition at_iface :: "iface \<Rightarrow> parse_state" where
  "at_iface j = \<lparr>st_iface = j, st_section = InInterface, st_seen = True, st_peer = None, st_warnings = []\<rparr>"

lemma iface_line:
  "plain_key k \<Longrightarrow> plain_value v \<Longrightarrow> (\<And>n. iface_key n (to_lower k) v (at_iface j) = Inr (at_iface j1)) \<Longrightarrow>
   takes [key_value k v] (at_iface j) (at_iface j1)"
  by (rule takes_one) (simp add: parse_line_key read_key_def at_iface_def)

lemma iface_keys:
  "iface_key n ''privatekey'' v (at_iface j) = Inr (at_iface (j\<lparr>private_key := v\<rparr>))"
  "iface_key n ''address'' v (at_iface j) = Inr (at_iface (j\<lparr>addresses := addresses j @ comma_items v\<rparr>))"
  "iface_key n ''dns'' v (at_iface j) = Inr (at_iface (j\<lparr>dns := dns j @ comma_items v\<rparr>))"
  "iface_key n ''table'' v (at_iface j) = Inr (at_iface (j\<lparr>table := v\<rparr>))"
  "iface_key n ''fwmark'' v (at_iface j) = Inr (at_iface (j\<lparr>fwmark := v\<rparr>))"
  "iface_key n ''preup'' v (at_iface j) = Inr (at_iface (add_hook pre_up_update v j))"
  "iface_key n ''postup'' v (at_iface j) = Inr (at_iface (add_hook post_up_update v j))"
  "iface_key n ''predown'' v (at_iface j) = Inr (at_iface (add_hook pre_down_update v j))"
  "iface_key n ''postdown'' v (at_iface j) = Inr (at_iface (add_hook post_down_update v j))"
  "parse_u16 v = Some p \<Longrightarrow> iface_key n ''listenport'' v (at_iface j) = Inr (at_iface (j\<lparr>listen_port := Some p\<rparr>))"
  "parse_u16 v = Some p \<Longrightarrow> iface_key n ''mtu'' v (at_iface j) = Inr (at_iface (j\<lparr>mtu := Some p\<rparr>))"
  by (simp_all add: iface_key_def at_iface_def with_iface_def Let_def ok_or_def)

lemma asc_line_char: "parse_line n (''# asc:'' @ k) s = Inr (case asc_comment (''# asc:'' @ k) of
    Some (a, v) \<Rightarrow> apply_asc s a v | None \<Rightarrow> s)" if "trimmed k" "k \<noteq> []"
proof -
  have "trimmed (''# asc:'' @ k)" using that by (auto simp: trimmed_def is_white_def)
  then show ?thesis by (simp add: parse_line_on read_content_def starts_with_def)
qed

lemma asc_value_line:
  "trimmed k \<Longrightarrow> CHR ''='' \<notin> set k \<Longrightarrow> k \<noteq> [] \<Longrightarrow> trimmed v \<Longrightarrow> v \<noteq> [] \<Longrightarrow>
   takes [key_value (''# asc:'' @ k) v] s (apply_asc s k v)"
proof (rule takes_one)
  fix n assume a: "trimmed k" "CHR ''='' \<notin> set k" "k \<noteq> []" "trimmed v" "v \<noteq> []"
  have "trimmed (k @ '' = '' @ v)" using a by (auto simp: trimmed_def)
  with asc_line_char[of "k @ '' = '' @ v" n s] asc_comment_value[OF a(1,2,4,5)] a(3)
  show "parse_line n (key_value (''# asc:'' @ k) v) s = Inr (apply_asc s k v)" by (simp add: key_value_def)
qed

lemma hook_lines_taken:
  assumes k: "plain_key k" and cs: "list_all plain_value cs"
    and eff: "\<And>n v j. iface_key n (to_lower k) v (at_iface j) = Inr (at_iface (add_hook upd v j))"
    and upd: "\<And>f g h. upd f (upd g h) = upd (\<lambda>l. f (g l)) h" "\<And>h. upd (\<lambda>l. l) h = h"
  shows "takes (map (key_value k) cs) (at_iface j) (at_iface (j\<lparr>ihooks := upd (\<lambda>l. l @ cs) (ihooks j)\<rparr>))"
  using cs
proof (induction cs arbitrary: j)
  case (Cons c cs)
  have "takes [key_value k c] (at_iface j) (at_iface (add_hook upd c j))"
    using Cons.prems eff by (intro iface_line[OF k]) auto
  from takes_append[OF this Cons.IH] Cons.prems show ?case by (simp add: add_hook_def upd)
qed (simp add: upd)

lemma nat_lines_taken: "plain_key k \<Longrightarrow> list_all (\<lambda>c. c \<noteq> []) cs \<Longrightarrow> takes (map (nat_line k) cs) s s"
proof (induction cs)
  case (Cons c cs)
  have kc: "hd k \<noteq> CHR ''#''" "\<not> is_white (hd k)" "k \<noteq> []" using Cons.prems plain_key_chars[of k] by (auto simp: plain_key_def)
  have "nat_line k c = (k @ '' = '' @ c @ '' '') @ NAT_TAG" by (simp add: nat_line_def key_value_def)
  then have "has_infix NAT_TAG (nat_line k c)" using has_infix_end by metis
  moreover have "trimmed (nat_line k c)" using kc
    by (auto simp: nat_line_def key_value_def trimmed_def NAT_TAG_def is_white_def)
  moreover have "strip_prefix ''#asc:off'' (nat_line k c) = None" "\<not> starts_with ''#'' (nat_line k c)"
    using kc no_off_prefix[of k] Cons.prems by (auto simp: nat_line_def starts_with_iff key_value_def append_eq_Cons_conv)
  moreover have "nat_line k c \<noteq> []" using kc by (simp add: nat_line_def key_value_def)
  ultimately have "parse_line n (nat_line k c) s = Inr s" for n
    by (simp add: parse_line_on read_content_def)
  with Cons show ?case by (auto intro: takes_Cons)
qed simp

text \<open>The fields of a normalised interface, as they have to be to survive the file.\<close>

lemma canon_words:
  assumes "canon_iface i"
  shows "word (iendpoint i)" "list_all (\<lambda>x. word x \<and> x \<noteq> []) (client_dns i)" "list_all (\<lambda>x. word x \<and> x \<noteq> []) (dns i)"
    "word (private_key i)" "private_key i \<noteq> []" "list_all (\<lambda>x. word x \<and> x \<noteq> []) (addresses i)" "addresses i \<noteq> []"
    "word (table i)" "word (fwmark i)"
proof -
  note c = assms[unfolded canon_iface_def]
  show "word (iendpoint i)" "word (private_key i)" "private_key i \<noteq> []" "addresses i \<noteq> []"
    using c word_host word_key valid_key_shape by (auto simp: word_def)
  show "list_all (\<lambda>x. word x \<and> x \<noteq> []) (client_dns i)" "list_all (\<lambda>x. word x \<and> x \<noteq> []) (dns i)"
    "list_all (\<lambda>x. word x \<and> x \<noteq> []) (addresses i)"
    using c by (auto simp: list_all_iff canon_dns_def dest: word_dns canon_net_word)
  show "word (table i)" using c by (auto simp: word_def list_all_iff intro: table_char_word)
  show "word (fwmark i)"
  proof -
    have "word v" if v: "parse_radix r m v = Some x" for r m v x
      using parse_radix_chars[OF v] alnum_word by (auto simp: word_def list_all_iff word_char_def)
    then have num: "parse_radix r m v \<noteq> None \<Longrightarrow> word v" for r m v by auto
    have "word ''0x''" "word ''off''"
      by (simp_all add: word_Cons word_char_def is_alnum_def is_digit_def is_lower_def is_upper_def)
    then have "word (fwmark i)" if "valid_fwmark (fwmark i)"
    proof -
      from that consider "fwmark i = ''off''" | "parse_u32 (fwmark i) \<noteq> None"
        | h where "fwmark i = ''0x'' @ h" "parse_radix 16 4294967295 h \<noteq> None"
        by (fastforce simp: valid_fwmark_def strip_prefix_Some split: option.splits)
      then show ?thesis using num \<open>word ''0x''\<close> \<open>word ''off''\<close> word_append by cases metis+
    qed
    with c show ?thesis by auto
  qed
qed

lemma asc_lines_taken:
  assumes c: "canon_iface i" and j: "iendpoint j = []" "\<not> masquerade j" "client_dns j = []"
  shows "takes (asc_lines i) (at_iface j)
    (at_iface (j\<lparr>iendpoint := iendpoint i, masquerade := masquerade i, client_dns := client_dns i\<rparr>))"
proof -
  note w = canon_words[OF c]
  let ?j1 = "j\<lparr>iendpoint := iendpoint i\<rparr>" and ?j2 = "j\<lparr>iendpoint := iendpoint i, masquerade := masquerade i\<rparr>"
  have "takes (opt_line (iendpoint i \<noteq> []) (key_value ''# asc:endpoint'' (iendpoint i))) (at_iface j) (at_iface ?j1)"
    using asc_value_line[of "''endpoint''" "iendpoint i" "at_iface j"] word_trimmed[OF w(1)] j
    by (intro takes_opt) (auto simp: apply_asc_def at_iface_def trimmed_def is_white_def)
  moreover have "takes (opt_line (masquerade i) ''# asc:masquerade'') (at_iface ?j1) (at_iface ?j2)"
    using asc_line_char[of "''masquerade''"] asc_comment_flag[of "''masquerade''"] j
    by (intro takes_opt takes_one) (auto simp: apply_asc_def at_iface_def trimmed_def is_white_def)
  moreover have "takes (opt_line (client_dns i \<noteq> []) (key_value ''# asc:client-dns'' (join '', '' (client_dns i))))
      (at_iface ?j2) (at_iface (?j2\<lparr>client_dns := client_dns i\<rparr>))"
    using asc_value_line[of "''client-dns''" "join '', '' (client_dns i)" "at_iface ?j2"] join_words[OF w(2)]
      comma_items_join[OF w(2)] j
    by (intro takes_opt) (auto simp: apply_asc_def at_iface_def trimmed_def is_white_def)
  ultimately show ?thesis unfolding asc_lines_def by (blast intro: takes_append)
qed

lemma parse_u16_fits: "p \<le> 65535 \<Longrightarrow> parse_u16 (show_nat p) = Some p"
  by (rule parse_radix_show) simp_all

lemma show_nat_plain: "plain_value (show_nat p)"
  using word_plain[OF word_show_nat] show_base_nonempty by blast

text \<open>A field that takes a plain value and one that takes a comma separated list.\<close>

lemma value_line_taken:
  assumes "plain_key k" "word v" "\<And>n. iface_key n (to_lower k) v (at_iface j) = Inr (at_iface j1)" "v = [] \<Longrightarrow> j1 = j"
  shows "takes (opt_line (v \<noteq> []) (key_value k v)) (at_iface j) (at_iface j1)"
  using assms by (intro takes_opt iface_line word_plain) auto

lemma number_line_taken:
  assumes "plain_key k" "\<And>p. v = Some p \<Longrightarrow> p \<le> 65535"
    "\<And>n p. v = Some p \<Longrightarrow> p \<le> 65535 \<Longrightarrow> iface_key n (to_lower k) (show_nat p) (at_iface j) = Inr (at_iface j1)" "v = None \<Longrightarrow> j1 = j"
  shows "takes (case v of Some p \<Rightarrow> [key_value k (show_nat p)] | None \<Rightarrow> []) (at_iface j) (at_iface j1)"
  using assms show_nat_plain by (cases v) (auto intro: iface_line)

lemma field_lines_taken:
  assumes c: "canon_iface i" and p: "\<And>p. listen_port i = Some p \<Longrightarrow> p \<le> 65535"
    and j: "addresses j = []" "listen_port j = None" "dns j = []" "mtu j = None" "table j = []" "fwmark j = []"
  shows "takes (field_lines i) (at_iface j) (at_iface (j\<lparr>private_key := private_key i, addresses := addresses i,
    listen_port := listen_port i, dns := dns i, mtu := mtu i, table := table i, fwmark := fwmark i\<rparr>))"
proof -
  note w = canon_words[OF c]
  let ?j1 = "j\<lparr>private_key := private_key i\<rparr>"
  let ?j2 = "?j1\<lparr>addresses := addresses i\<rparr>"
  let ?j3 = "?j2\<lparr>listen_port := listen_port i\<rparr>"
  let ?j4 = "?j3\<lparr>dns := dns i\<rparr>"
  let ?j5 = "?j4\<lparr>mtu := mtu i\<rparr>"
  let ?j6 = "?j5\<lparr>table := table i\<rparr>"
  have m: "\<And>q. mtu i = Some q \<Longrightarrow> q \<le> 65535" using c by (auto simp: canon_iface_def)
  have "takes [key_value ''PrivateKey'' (private_key i)] (at_iface j) (at_iface ?j1)"
    using w by (intro iface_line key_names word_plain) (simp_all add: lower_names iface_keys)
  moreover have "takes [key_value ''Address'' (join '', '' (addresses i))] (at_iface ?j1) (at_iface ?j2)"
    using w comma_items_join[OF w(6)] words_plain[OF w(6)] j(1)
    by (intro iface_line key_names) (simp_all add: lower_names iface_keys)
  moreover have "takes (case listen_port i of Some p \<Rightarrow> [key_value ''ListenPort'' (show_nat p)] | None \<Rightarrow> [])
      (at_iface ?j2) (at_iface ?j3)"
    using p j by (intro number_line_taken key_names) (simp_all add: lower_names iface_keys parse_u16_fits)
  moreover have "takes (opt_line (dns i \<noteq> []) (key_value ''DNS'' (join '', '' (dns i)))) (at_iface ?j3) (at_iface ?j4)"
    using w comma_items_join[OF w(3)] words_plain[OF w(3)] j(3)
    by (intro takes_opt iface_line key_names) (cases j; simp add: lower_names iface_keys)+
  moreover have "takes (case mtu i of Some m \<Rightarrow> [key_value ''MTU'' (show_nat m)] | None \<Rightarrow> []) (at_iface ?j4) (at_iface ?j5)"
    using m j by (intro number_line_taken key_names) (simp_all add: lower_names iface_keys parse_u16_fits)
  moreover have "takes (opt_line (table i \<noteq> []) (key_value ''Table'' (table i))) (at_iface ?j5) (at_iface ?j6)"
    using w j by (intro value_line_taken key_names) (simp_all add: lower_names iface_keys)
  moreover have "takes (opt_line (fwmark i \<noteq> []) (key_value ''FwMark'' (fwmark i))) (at_iface ?j6)
      (at_iface (?j6\<lparr>fwmark := fwmark i\<rparr>))"
    using w j by (intro value_line_taken key_names) (simp_all add: lower_names iface_keys)
  ultimately show ?thesis unfolding field_lines_def
    by (intro takes_append[where ls = "[a, b]" for a b] takes_append) (auto intro: takes_append[where ls = "[a]" for a, simplified])
qed

definition plain_hooks :: "iface \<Rightarrow> bool" where
  "plain_hooks i = list_all plain_value (all_hooks (ihooks i))"

lemma hook_block_taken:
  assumes h: "plain_hooks i" and j: "ihooks j = no_hooks"
  shows "takes (hook_block i) (at_iface j) (at_iface (j\<lparr>ihooks := ihooks i\<rparr>))"
proof -
  have pl: "list_all plain_value (pre_up (ihooks i))" "list_all plain_value (post_up (ihooks i))"
    "list_all plain_value (pre_down (ihooks i))" "list_all plain_value (post_down (ihooks i))"
    using h by (simp_all add: plain_hooks_def all_hooks_def)
  let ?h1 = "no_hooks\<lparr>pre_up := pre_up (ihooks i)\<rparr>"
  let ?h2 = "?h1\<lparr>post_up := post_up (ihooks i)\<rparr>"
  let ?h3 = "?h2\<lparr>pre_down := pre_down (ihooks i)\<rparr>"
  have nat: "list_all (\<lambda>c. c \<noteq> []) (fst (nat_hooks i))" "list_all (\<lambda>c. c \<noteq> []) (snd (nat_hooks i))"
    by (auto simp: nat_hooks_def Let_def split: option.split)
  have "takes (map (key_value ''PreUp'') (pre_up (ihooks i))) (at_iface j) (at_iface (j\<lparr>ihooks := ?h1\<rparr>))"
    using hook_lines_taken[OF key_names(8) pl(1), of pre_up_update j] j
    by (simp add: lower_names iface_keys no_hooks_def)
  moreover have "takes (map (key_value ''PostUp'') (post_up (ihooks i))) (at_iface (j\<lparr>ihooks := ?h1\<rparr>))
      (at_iface (j\<lparr>ihooks := ?h2\<rparr>))"
    using hook_lines_taken[OF key_names(9) pl(2), of post_up_update "j\<lparr>ihooks := ?h1\<rparr>"]
    by (simp add: lower_names iface_keys no_hooks_def)
  moreover note nat_lines_taken[OF key_names(9) nat(1), of "at_iface (j\<lparr>ihooks := ?h2\<rparr>)"]
  moreover have "takes (map (key_value ''PreDown'') (pre_down (ihooks i))) (at_iface (j\<lparr>ihooks := ?h2\<rparr>))
      (at_iface (j\<lparr>ihooks := ?h3\<rparr>))"
    using hook_lines_taken[OF key_names(10) pl(3), of pre_down_update "j\<lparr>ihooks := ?h2\<rparr>"]
    by (simp add: lower_names iface_keys no_hooks_def)
  moreover have "takes (map (key_value ''PostDown'') (post_down (ihooks i))) (at_iface (j\<lparr>ihooks := ?h3\<rparr>))
      (at_iface (j\<lparr>ihooks := ?h3\<lparr>post_down := post_down (ihooks i)\<rparr>\<rparr>))"
    using hook_lines_taken[OF key_names(11) pl(4), of post_down_update "j\<lparr>ihooks := ?h3\<rparr>"]
    by (simp add: lower_names iface_keys no_hooks_def)
  moreover have "?h3\<lparr>post_down := post_down (ihooks i)\<rparr> = ihooks i" by (cases "ihooks i") (simp add: no_hooks_def)
  moreover note nat_lines_taken[OF key_names(11) nat(2), of "at_iface (j\<lparr>ihooks := ihooks i\<rparr>)"]
  ultimately show ?thesis unfolding hook_block_def by (auto intro!: takes_append)
qed

lemma iface_section_taken:
  assumes c: "canon_iface i" and p: "\<And>p. listen_port i = Some p \<Longrightarrow> p \<le> 65535" and h: "plain_hooks i"
  shows "takes (asc_lines i @ field_lines i @ hook_block i) (at_iface (new_iface (iname i) [])) (at_iface (i\<lparr>peers := []\<rparr>))"
proof -
  let ?n = "new_iface (iname i) []"
  let ?j1 = "?n\<lparr>iendpoint := iendpoint i, masquerade := masquerade i, client_dns := client_dns i\<rparr>"
  let ?j2 = "?j1\<lparr>private_key := private_key i, addresses := addresses i, listen_port := listen_port i, dns := dns i,
    mtu := mtu i, table := table i, fwmark := fwmark i\<rparr>"
  have "takes (asc_lines i) (at_iface ?n) (at_iface ?j1)" by (rule asc_lines_taken[OF c]) (simp_all add: new_iface_def)
  moreover have "takes (field_lines i) (at_iface ?j1) (at_iface ?j2)"
    by (rule field_lines_taken[OF c p]) (simp_all add: new_iface_def)
  moreover have "takes (hook_block i) (at_iface ?j2) (at_iface (?j2\<lparr>ihooks := ihooks i\<rparr>))"
    by (rule hook_block_taken[OF h]) (simp add: new_iface_def)
  moreover have "?j2\<lparr>ihooks := ihooks i\<rparr> = i\<lparr>peers := []\<rparr>" by (cases i) (simp add: new_iface_def)
  ultimately show ?thesis by (simp only: takes_append)
qed

section \<open>The peers\<close>

definition off_line :: "bool \<Rightarrow> string \<Rightarrow> string" where
  "off_line off l = (if off then OFF_PREFIX @ l else l)"

definition at_peer :: "iface \<Rightarrow> peer \<Rightarrow> parse_state" where
  "at_peer j q = \<lparr>st_iface = j, st_section = InPeer, st_seen = True, st_peer = Some q, st_warnings = []\<rparr>"

text \<open>The reader has read \<open>j\<close>, the last peer included.\<close>

definition has_read :: "parse_state \<Rightarrow> iface \<Rightarrow> bool" where
  "has_read s j = (finish_peer s = \<lparr>st_iface = j, st_section = st_section s, st_seen = True, st_peer = None, st_warnings = []\<rparr>)"

lemma parse_line_either:
  "trimmed l \<Longrightarrow> l \<noteq> [] \<Longrightarrow> strip_prefix ''#asc:off'' l = None \<Longrightarrow> parse_line n (off_line off l) s = read_content n l off s"
  by (simp add: off_line_def parse_line_on parse_line_off)

lemma map_opt_line: "map f (opt_line c l) = opt_line c (f l)"
  by (simp add: opt_line_def)

lemma peer_line:
  assumes "plain_key k" "plain_value v" "\<And>n. peer_key n (to_lower k) v (at_peer j q) = Inr (at_peer j q1)"
  shows "takes [off_line off (key_value k v)] (at_peer j q) (at_peer j q1)"
  using assms key_value_shape[OF assms(1,2)]
  by (intro takes_one) (simp add: parse_line_either no_off_prefix read_content_key read_key_def at_peer_def)

lemma peer_keys:
  "peer_key n ''publickey'' v (at_peer j q) = Inr (at_peer j (q\<lparr>public_key := v\<rparr>))"
  "peer_key n ''presharedkey'' v (at_peer j q) = Inr (at_peer j (q\<lparr>preshared_key := v\<rparr>))"
  "peer_key n ''allowedips'' v (at_peer j q) = Inr (at_peer j (q\<lparr>allowed_ips := allowed_ips q @ comma_items v\<rparr>))"
  "peer_key n ''endpoint'' v (at_peer j q) = Inr (at_peer j (q\<lparr>pendpoint := v\<rparr>))"
  "parse_u16 v = Some t \<Longrightarrow> \<not> eq_nocase v ''off'' \<Longrightarrow>
     peer_key n ''persistentkeepalive'' v (at_peer j q) = Inr (at_peer j (q\<lparr>keepalive := t\<rparr>))"
  by (simp_all add: peer_key_def at_peer_def ok_or_def)

lemma show_nat_not_off: "\<not> eq_nocase (show_nat n) ''off''"
proof
  assume "eq_nocase (show_nat n) ''off''"
  then have "map lower_char (show_nat n) = map lower_char ''off''" by (simp add: eq_nocase_def to_lower_def)
  then obtain c where "c \<in> set (show_nat n)" "lower_char c = lower_char (CHR ''o'')" by (cases "show_nat n") auto
  moreover from this(1) have "is_digit c" by (rule show_nat_digit)
  ultimately show False by (auto simp: lower_char_def is_digit_def is_upper_def split: if_splits)
qed

lemma peer_header: "takes [off_line off ''[Peer]''] s
    ((finish_peer s)\<lparr>st_peer := Some ((new_peer [])\<lparr>penabled := \<not> off\<rparr>), st_section := InPeer\<rparr>)"
proof (rule takes_one)
  fix n
  have t: "trimmed ''[Peer]''" by (simp add: trimmed_def is_white_def)
  have l: "to_lower ''[Peer]'' = ''[peer]''" by (simp add: to_lower_def lower_char_def is_upper_def char_of_def bit_0 bit_Suc)
  have "read_content n ''[Peer]'' off s = header_line n ''[Peer]'' off s"
    using trim_trimmed[OF t] by (simp add: read_content_def plain_line_def has_infix_hash starts_with_def)
  with t l show "parse_line n (off_line off ''[Peer]'') s
      = Inr ((finish_peer s)\<lparr>st_peer := Some ((new_peer [])\<lparr>penabled := \<not> off\<rparr>), st_section := InPeer\<rparr>)"
    by (simp add: parse_line_either header_line_def)
qed

lemma name_line_taken:
  assumes "trimmed v" "v \<noteq> []"
  shows "takes [off_line off (key_value ''# asc:name'' v)] (at_peer j q) (at_peer j (q\<lparr>pname := v\<rparr>))"
proof (rule takes_one)
  fix n
  have t: "trimmed (key_value ''# asc:name'' v)" using assms by (auto simp: trimmed_def key_value_def is_white_def)
  have a: "asc_comment (key_value ''# asc:name'' v) = Some (''name'', v)"
    using asc_comment_value[of "''name''" v] assms by (simp add: key_value_def trimmed_def is_white_def)
  have "read_content n (key_value ''# asc:name'' v) off (at_peer j q) = Inr (at_peer j (q\<lparr>pname := v\<rparr>))"
    using a by (simp add: read_content_def) (simp add: key_value_def starts_with_def apply_asc_def at_peer_def)
  moreover have "strip_prefix ''#asc:off'' (key_value ''# asc:name'' v) = None" "key_value ''# asc:name'' v \<noteq> []"
    by (simp_all add: key_value_def)
  ultimately show "parse_line n (off_line off (key_value ''# asc:name'' v)) (at_peer j q) = Inr (at_peer j (q\<lparr>pname := v\<rparr>))"
    using t by (simp add: parse_line_either)
qed

lemma peer_block_taken:
  assumes c: "canon_peer p" and k: "keepalive p \<le> 65535" and d: "has_read s j"
  shows "takes (map (off_line (\<not> penabled p)) (peer_block p)) s (at_peer j p)"
proof -
  note cp = c[unfolded canon_peer_def]
  let ?off = "\<not> penabled p"
  let ?q0 = "(new_peer [])\<lparr>penabled := penabled p\<rparr>"
  let ?q1 = "?q0\<lparr>pname := pname p\<rparr>"
  let ?q2 = "?q1\<lparr>public_key := public_key p\<rparr>"
  let ?q3 = "?q2\<lparr>preshared_key := preshared_key p\<rparr>"
  let ?q4 = "?q3\<lparr>allowed_ips := allowed_ips p\<rparr>"
  let ?q5 = "?q4\<lparr>pendpoint := pendpoint p\<rparr>"
  have ips: "list_all (\<lambda>x. word x \<and> x \<noteq> []) (allowed_ips p)" using cp by (auto simp: list_all_iff dest: canon_net_word)
  have ep: "pendpoint p = [] \<or> word (pendpoint p)" using cp by (auto simp: canon_endpoint_def)
  have "takes [off_line ?off ''[Peer]''] s (at_peer j ?q0)"
    using peer_header[of ?off s] d by (simp add: has_read_def at_peer_def)
  moreover have "takes (opt_line (pname p \<noteq> []) (off_line ?off (key_value ''# asc:name'' (pname p)))) (at_peer j ?q0) (at_peer j ?q1)"
    using cp by (intro takes_opt name_line_taken) (simp_all add: new_peer_def)
  moreover have "takes [off_line ?off (key_value ''PublicKey'' (public_key p))] (at_peer j ?q1) (at_peer j ?q2)"
    using cp valid_key_shape[of "public_key p"] by (intro peer_line key_names word_plain word_key) (simp_all add: lower_names peer_keys)
  moreover have "takes (opt_line (preshared_key p \<noteq> []) (off_line ?off (key_value ''PresharedKey'' (preshared_key p))))
      (at_peer j ?q2) (at_peer j ?q3)"
    using cp by (intro takes_opt peer_line key_names word_plain word_key) (auto simp: lower_names peer_keys new_peer_def)
  moreover have "takes (opt_line (allowed_ips p \<noteq> []) (off_line ?off (key_value ''AllowedIPs'' (join '', '' (allowed_ips p)))))
      (at_peer j ?q3) (at_peer j ?q4)"
    using words_plain[OF ips] comma_items_join[OF ips]
    by (intro takes_opt peer_line key_names) (simp_all add: lower_names peer_keys new_peer_def)
  moreover have "takes (opt_line (pendpoint p \<noteq> []) (off_line ?off (key_value ''Endpoint'' (pendpoint p))))
      (at_peer j ?q4) (at_peer j ?q5)"
    using ep by (intro takes_opt peer_line key_names word_plain) (auto simp: lower_names peer_keys new_peer_def)
  moreover have "takes (opt_line (0 < keepalive p) (off_line ?off (key_value ''PersistentKeepalive'' (show_nat (keepalive p)))))
      (at_peer j ?q5) (at_peer j (?q5\<lparr>keepalive := keepalive p\<rparr>))"
    using parse_u16_fits[OF k] show_nat_not_off
    by (intro takes_opt peer_line key_names show_nat_plain) (simp_all add: lower_names peer_keys new_peer_def)
  moreover have "?q5\<lparr>keepalive := keepalive p\<rparr> = p" by (cases p) (simp add: new_peer_def)
  ultimately show ?thesis
    unfolding peer_block_def map_append map_opt_line list.map by (simp only: takes_append)
qed

definition peer_lines :: "peer \<Rightarrow> string list" where
  "peer_lines p = [] # map (off_line (\<not> penabled p)) (peer_block p)"

lemma at_peer_read: "public_key p \<noteq> [] \<Longrightarrow> has_read (at_peer j p) (j\<lparr>peers := peers j @ [p]\<rparr>)"
  by (simp add: has_read_def at_peer_def finish_peer_def)

lemma peers_taken:
  assumes "list_all (\<lambda>p. canon_peer p \<and> keepalive p \<le> 65535) ps" "has_read s j"
  shows "\<exists>t. takes (concat (map peer_lines ps)) s t \<and> has_read t (j\<lparr>peers := peers j @ ps\<rparr>)"
  using assms
proof (induction ps arbitrary: s j)
  case (Cons p ps)
  then have p: "canon_peer p" "keepalive p \<le> 65535" "public_key p \<noteq> []"
    using valid_key_shape by (auto simp: canon_peer_def)
  let ?j = "j\<lparr>peers := peers j @ [p]\<rparr>"
  from Cons.IH[of "at_peer j p" ?j] at_peer_read[OF p(3)] Cons.prems(1) obtain t where
    t: "takes (concat (map peer_lines ps)) (at_peer j p) t" "has_read t (j\<lparr>peers := peers j @ p # ps\<rparr>)" by auto
  have "takes (peer_lines p) s (at_peer j p)"
    unfolding peer_lines_def using peer_block_taken[OF p(1,2) Cons.prems(2)] parse_line_empty by (rule takes_Cons[rotated])
  with t show ?case by (auto intro: takes_append)
qed (auto intro: exI[of _ s])

section \<open>The whole file\<close>

definition file_lines :: "iface \<Rightarrow> string list" where
  "file_lines i = comment_lines @ [''[Interface]''] @ (asc_lines i @ field_lines i @ hook_block i)
     @ concat (map peer_lines (peers i))"

lemma one_line_key_value: "one_line k \<Longrightarrow> one_line v \<Longrightarrow> one_line (key_value k v)"
  by (simp add: key_value_def)

lemma one_line_opt: "(c \<Longrightarrow> one_line l) \<Longrightarrow> list_all one_line (opt_line c l)"
  by (simp add: opt_line_def)

lemma one_line_words: "list_all (\<lambda>x. word x \<and> x \<noteq> []) xs \<Longrightarrow> one_line (join '', '' xs)"
  using join_words[of xs] by (cases "xs = []") auto

lemma control_one_line: "\<not> list_ex is_control s \<Longrightarrow> one_line s"
  by (auto simp: one_line_def list_ex_iff is_control_def)

lemma peer_block_lines: "canon_peer p \<Longrightarrow> list_all one_line (peer_block p)"
proof -
  assume "canon_peer p"
  note cp = this[unfolded canon_peer_def]
  have ips: "list_all (\<lambda>x. word x \<and> x \<noteq> []) (allowed_ips p)" using cp by (auto simp: list_all_iff dest: canon_net_word)
  have "one_line (public_key p)" "preshared_key p \<noteq> [] \<Longrightarrow> one_line (preshared_key p)"
    "pendpoint p \<noteq> [] \<Longrightarrow> one_line (pendpoint p)" "one_line (pname p)" "one_line (show_nat (keepalive p))"
    using cp by (auto intro: word_one_line word_key word_show_nat control_one_line simp: canon_endpoint_def)
  then show ?thesis
    unfolding peer_block_def by (auto intro!: one_line_opt one_line_key_value one_line_words ips)
qed

lemma peer_text_unlines: "canon_peer p \<Longrightarrow> peer_text p = unlines (peer_lines p)"
  by (simp add: peer_text_def peer_lines_def lines_unlines peer_block_lines unlines_Cons off_line_def
      map_idI cong: map_cong)

lemma render_file_lines: "list_all canon_peer (peers i) \<Longrightarrow> render i = unlines (file_lines i)"
proof -
  have "list_all canon_peer ps \<Longrightarrow> concat (map peer_text ps) = unlines (concat (map peer_lines ps))" for ps
    by (induction ps) (simp_all add: peer_text_unlines unlines_append)
  then show "list_all canon_peer (peers i) \<Longrightarrow> render i = unlines (file_lines i)"
    by (simp add: render_def file_lines_def unlines_append unlines_Cons)
qed

lemma subnet_one_line: "ipv4_subnet i = Some t \<Longrightarrow> one_line t"
proof -
  assume "ipv4_subnet i = Some t"
  then have "t \<in> set (List.map_filter (\<lambda>a. case parse_net a of Inl e \<Rightarrow> None
     | Inr n \<Rightarrow> if is_v6 n then None else Some (network_of n)) (addresses i))"
    by (auto simp: ipv4_subnet_def find_Some_iff)
  then obtain n where "t = network_of n"
    by (auto simp: map_filter_def split: sum.splits if_splits)
  moreover have "one_line (show_ip a)" for a
    by (rule word_one_line) (auto simp: word_def list_all_iff dest!: show_ip_chars intro: ip_char_word)
  ultimately show ?thesis by (simp add: network_of_def Let_def word_one_line word_show_nat)
qed

lemma nat_table_line: "one_line (nat_table n)"
  by (auto simp: nat_table_def one_line_def is_alnum_def is_digit_def is_upper_def is_lower_def)

lemma nat_hooks_lines:
  assumes n: "one_line (iname i)"
  shows "list_all one_line (fst (nat_hooks i)) \<and> list_all one_line (snd (nat_hooks i))"
proof (cases "if masquerade i then ipv4_subnet i else None")
  case (Some t)
  then have "one_line t" using subnet_one_line by (simp split: if_splits)
  with Some n nat_table_line show ?thesis by (simp add: nat_hooks_def SQUOTE_def DQUOTE_def Let_def)
qed (simp add: nat_hooks_def)

lemma name_char_word: "name_char c \<Longrightarrow> word_char c"
  by (auto simp: name_char_def word_char_def)

lemma name_word: "valid_name n \<Longrightarrow> word n"
  by (cases n) (simp_all add: valid_name_def word_def list_all_iff alnum_word name_char_word)

lemma list_all_case: "(\<And>x. v = Some x \<Longrightarrow> list_all P (f x)) \<Longrightarrow> list_all P (case v of Some x \<Rightarrow> f x | None \<Rightarrow> [])"
  by (cases v) auto

lemma key_value_lines: "one_line k \<Longrightarrow> list_all one_line vs \<Longrightarrow> list_all one_line (map (key_value k) vs)"
  by (auto simp: list_all_iff intro: one_line_key_value)

lemma nat_value_lines: "one_line k \<Longrightarrow> list_all one_line vs \<Longrightarrow> list_all one_line (map (nat_line k) vs)"
  by (auto simp: list_all_iff nat_line_def NAT_TAG_def intro!: one_line_key_value)

lemma file_lines_one_line:
  assumes c: "canon_iface i"
  shows "list_all one_line (file_lines i)"
proof -
  note w = canon_words[OF c]
  have hooks: "list_all one_line (pre_up (ihooks i))" "list_all one_line (post_up (ihooks i))"
    "list_all one_line (pre_down (ihooks i))" "list_all one_line (post_down (ihooks i))"
    using c by (auto simp: canon_iface_def all_hooks_def list_all_iff list_ex_iff bad_hook_def one_line_def)
  have "one_line (iname i)" using c name_word word_one_line by (auto simp: canon_iface_def)
  note n = nat_hooks_lines[OF this]
  have "list_all one_line comment_lines" by (simp add: comment_lines_def MARKER_def SQUOTE_def)
  moreover have "list_all one_line (asc_lines i)" unfolding asc_lines_def
    using w by (auto intro!: one_line_opt one_line_key_value one_line_words intro: word_one_line)
  moreover have "list_all one_line (field_lines i)" unfolding field_lines_def
    using w by (auto intro!: one_line_opt one_line_key_value one_line_words list_all_case intro: word_one_line
        word_show_nat[THEN word_one_line])
  moreover have "list_all one_line (hook_block i)" unfolding hook_block_def list_all_append
    using hooks n by (intro conjI key_value_lines nat_value_lines) simp_all
  moreover have "list_all one_line (peer_lines p)" if "canon_peer p" for p
    using peer_block_lines[OF that] by (auto simp: peer_lines_def off_line_def list_all_iff OFF_PREFIX_def)
  then have "list_all one_line (concat (map peer_lines (peers i)))"
    using c by (auto simp: canon_iface_def list_all_iff)
  ultimately show ?thesis by (simp add: file_lines_def)
qed

lemma comment_lines_taken: "takes comment_lines s s" if "st_section s = NoSection"
proof -
  let ?l1 = "MARKER @ ''. Edit with `asc wireguard` or the panel; the `# asc:` comments carry''"
  let ?l2 = "''# the daemon'' @ SQUOTE @ ''s own settings and are read back.''"
  have a: "apply_asc s k v = s" for k v using that by (simp add: apply_asc_def)
  have c: "parse_line n l s = Inr s" if "trimmed l" "strip_prefix ''#asc:off'' l = None" "starts_with ''#'' l" for n l
    using that a by (cases l) (auto simp: parse_line_on read_content_def starts_with_iff split: option.split)
  have l1: "parse_line n ?l1 s = Inr s" for n
    by (rule c) (simp_all add: trimmed_def is_white_def MARKER_def starts_with_def)
  have l2: "parse_line n ?l2 s = Inr s" for n
    by (rule c) (simp_all add: trimmed_def is_white_def SQUOTE_def starts_with_def)
  show ?thesis unfolding comment_lines_def by (rule takes_Cons[OF l1 takes_Cons[OF l2 takes_one[OF parse_line_empty]]])
qed

lemma iface_header_taken:
  assumes "\<not> st_seen s" "st_peer s = None"
  shows "takes [''[Interface]''] s (s\<lparr>st_seen := True, st_section := InInterface\<rparr>)"
proof (rule takes_one)
  fix n
  have t: "trimmed ''[Interface]''" by (simp add: trimmed_def is_white_def)
  have l: "to_lower ''[Interface]'' = ''[interface]''"
    by (simp add: to_lower_def lower_char_def is_upper_def char_of_def bit_0 bit_Suc)
  have "read_content n ''[Interface]'' False s = header_line n ''[Interface]'' False s"
    using trim_trimmed[OF t] by (simp add: read_content_def plain_line_def has_infix_hash starts_with_def)
  with t l assms show "parse_line n ''[Interface]'' s = Inr (s\<lparr>st_seen := True, st_section := InInterface\<rparr>)"
    by (simp add: parse_line_on header_line_def finish_peer_def)
qed

lemma is_managed_render: "list_all one_line (file_lines i) \<Longrightarrow> is_managed (unlines (file_lines i))"
proof -
  assume o: "list_all one_line (file_lines i)"
  let ?l1 = "MARKER @ ''. Edit with `asc wireguard` or the panel; the `# asc:` comments carry''"
  have t: "trimmed ?l1" "?l1 \<noteq> []" by (simp_all add: trimmed_def is_white_def MARKER_def)
  have "starts_with MARKER ?l1" by (simp add: starts_with_def)
  with o t show ?thesis
    by (simp add: is_managed_def lines_unlines file_lines_def comment_lines_def trim_trimmed)
qed

definition fits_u16 :: "iface \<Rightarrow> bool" where
  "fits_u16 i = ((case listen_port i of Some p \<Rightarrow> p < 2 ^ 16 | None \<Rightarrow> True) \<and> list_all (\<lambda>p. keepalive p < 2 ^ 16) (peers i))"

lemma parse_render:
  assumes c: "canon_iface i" and f: "fits_u16 i" and h: "plain_hooks i"
  shows "parse (iname i) (render i) = Inr \<lparr>p_iface = i, managed = True, warnings = []\<rparr>"
proof -
  let ?s0 = "\<lparr>st_iface = new_iface (iname i) [], st_section = NoSection, st_seen = False, st_peer = None, st_warnings = []\<rparr>"
  have ps: "list_all (\<lambda>p. canon_peer p \<and> keepalive p \<le> 65535) (peers i)" and port: "\<And>p. listen_port i = Some p \<Longrightarrow> p \<le> 65535"
    using c f by (auto simp: canon_iface_def fits_u16_def list_all_iff)
  note o = file_lines_one_line[OF c]
  have r: "render i = unlines (file_lines i)" using ps by (intro render_file_lines) (auto simp: list_all_iff)
  have hd: "takes [''[Interface]''] ?s0 (at_iface (new_iface (iname i) []))"
    using iface_header_taken[of ?s0] by (simp add: at_iface_def)
  have "has_read (at_iface (i\<lparr>peers := []\<rparr>)) (i\<lparr>peers := []\<rparr>)"
    by (simp add: has_read_def at_iface_def finish_peer_def)
  from peers_taken[OF ps this] obtain t where
    t: "takes (concat (map peer_lines (peers i))) (at_iface (i\<lparr>peers := []\<rparr>)) t" "has_read t i" by auto
  have "takes comment_lines ?s0 ?s0" by (rule comment_lines_taken) simp
  from takes_append[OF this takes_append[OF hd takes_append[OF iface_section_taken[OF c port h] t(1)]]]
  have "takes (file_lines i) ?s0 t" unfolding file_lines_def .
  then have "parse_lines 1 (lines (render i)) ?s0 = Inr t" by (simp add: takes_def r lines_unlines[OF o])
  moreover have "private_key i \<noteq> []" using canon_words[OF c] by simp
  ultimately show ?thesis
    using \<open>has_read t i\<close> is_managed_render[OF o] by (simp add: parse_def has_read_def r Let_def)
qed

end
