(* ===== verification/WgFiles.thy ===== *)
theory WgFiles
  imports WgManager WgRound
begin

text \<open>
  What the manager does to the files of \<open>/etc/wireguard\<close>. What it reads it can write and read back
  again; a change of an interface writes its own file or leaves all files as they were.
\<close>

section \<open>What reading a file guarantees\<close>

text \<open>Numbers fit their 16 bits and hook commands have no comment sign, so that \<open>parse_render\<close> applies.\<close>

definition clean_hooks :: "iface \<Rightarrow> bool" where
  "clean_hooks i = list_all (\<lambda>h. trimmed h \<and> CHR ''#'' \<notin> set h) (all_hooks (ihooks i))"

definition readable :: "string \<Rightarrow> iface \<Rightarrow> bool" where
  "readable n i = (iname i = n \<and> fits_u16 i \<and> clean_hooks i)"

definition readable_state :: "string \<Rightarrow> parse_state \<Rightarrow> bool" where
  "readable_state n s = (readable n (st_iface s) \<and> (case st_peer s of None \<Rightarrow> True | Some p \<Rightarrow> keepalive p < 2 ^ 16))"

lemma parse_u16_less: "parse_u16 v = Some p \<Longrightarrow> p < 65536"
  by (drule parse_radix_bound) simp

lemma readable_parts:
  "readable n (i\<lparr>private_key := x\<rparr>) = readable n i" "readable n (i\<lparr>addresses := xs\<rparr>) = readable n i"
  "readable n (i\<lparr>dns := xs\<rparr>) = readable n i" "readable n (i\<lparr>client_dns := xs\<rparr>) = readable n i"
  "readable n (i\<lparr>mtu := m\<rparr>) = readable n i" "readable n (i\<lparr>table := x\<rparr>) = readable n i"
  "readable n (i\<lparr>fwmark := x\<rparr>) = readable n i" "readable n (i\<lparr>iendpoint := x\<rparr>) = readable n i"
  "readable n (i\<lparr>masquerade := b\<rparr>) = readable n i"
  "readable n (i\<lparr>listen_port := Some p\<rparr>) \<Longrightarrow> p < 65536"
  by (simp_all add: readable_def fits_u16_def clean_hooks_def)

lemma finish_peer_readable: "readable_state n s \<Longrightarrow> readable_state n (finish_peer s)"
  by (auto simp: readable_state_def finish_peer_def readable_def fits_u16_def clean_hooks_def split: option.splits)

lemma apply_asc_readable: "readable_state n s \<Longrightarrow> readable_state n (apply_asc s k v)"
  by (auto simp: readable_state_def apply_asc_def readable_parts split: conf_section.splits option.splits)

lemma add_hook_readable:
  assumes "readable n i" "trimmed v" "CHR ''#'' \<notin> set v"
  shows "readable n (add_hook pre_up_update v i)" "readable n (add_hook post_up_update v i)"
    "readable n (add_hook pre_down_update v i)" "readable n (add_hook post_down_update v i)"
  using assms by (simp_all add: readable_def add_hook_def fits_u16_def clean_hooks_def all_hooks_def)

lemma iface_key_readable:
  assumes "readable_state n s" "trimmed v" "CHR ''#'' \<notin> set v" "iface_key l k v s = Inr t"
  shows "readable_state n t"
proof -
  have r: "readable n (st_iface s)" using assms(1) by (simp add: readable_state_def)
  have p: "readable n ((st_iface s)\<lparr>listen_port := Some p\<rparr>)" if "parse_u16 v = Some p" for p
    using r parse_u16_less[OF that] by (simp add: readable_def fits_u16_def clean_hooks_def)
  show ?thesis
    using assms add_hook_readable[OF r assms(2,3)] p
    by (auto simp: iface_key_def Let_def with_iface_def warn_def readable_state_def readable_parts split: if_splits)
qed

lemma peer_key_readable: "readable_state n s \<Longrightarrow> peer_key l k v s = Inr t \<Longrightarrow> readable_state n t"
  by (auto simp: peer_key_def warn_def readable_state_def dest!: parse_u16_less split: if_splits option.splits)

lemma hd_split_char: "d \<notin> set (hd (split_char d s))" and hd_split_sub: "set (hd (split_char d s)) \<subseteq> set s"
proof -
  have "d \<notin> set (hd (split_char d s)) \<and> set (hd (split_char d s)) \<subseteq> set s"
  proof (induction s)
    case (Cons c s)
    then show ?case by (cases "split_char d s") auto
  qed simp
  then show "d \<notin> set (hd (split_char d s))" "set (hd (split_char d s)) \<subseteq> set s" by simp_all
qed

lemma split_once_sub: "split_once d s = Some (a, b) \<Longrightarrow> set b \<subseteq> set s"
  by (induction s arbitrary: a) (auto split: if_splits)

lemma plain_line_readable:
  assumes "readable_state n s" "plain_line l line off s = Inr t" shows "readable_state n t"
proof -
  define c where "c = trim (hd (split_char (CHR ''#'') line))"
  have c: "CHR ''#'' \<notin> set c" using hd_split_char[of "CHR ''#''" line] set_trim by (auto simp: c_def)
  consider "c = []" | "starts_with ''['' c" "header_line l c off s = Inr t" | "key_line l c s = Inr t"
    using assms(2) by (auto simp: plain_line_def Let_def c_def split: if_splits)
  then show ?thesis
  proof cases
    case 1
    with assms show ?thesis by (simp add: plain_line_def Let_def c_def)
  next
    case 2
    then show ?thesis using finish_peer_readable[OF assms(1)]
      by (auto simp: header_line_def readable_state_def new_peer_def split: if_splits)
  next
    case 3
    then obtain k v where kv: "split_once (CHR ''='') c = Some (k, v)" by (auto simp: key_line_def split: option.splits)
    have "CHR ''#'' \<notin> set (trim v)" using c split_once_sub[OF kv] set_trim[of v] by auto
    with 3 kv show ?thesis
      by (auto simp: key_line_def Let_def split: conf_section.splits intro: iface_key_readable[OF assms(1) trimmed_trim] peer_key_readable[OF assms(1)])
  qed
qed

lemma parse_line_readable: "readable_state n s \<Longrightarrow> parse_line l raw s = Inr t \<Longrightarrow> readable_state n t"
  unfolding parse_line_def
  by (auto simp: Let_def apply_asc_readable plain_line_readable split: option.splits if_splits prod.splits)

lemma parse_lines_readable: "readable_state n s \<Longrightarrow> parse_lines l ls s = Inr t \<Longrightarrow> readable_state n t"
proof (induction ls arbitrary: l s)
  case (Cons x ls)
  then show ?case using parse_line_readable by fastforce
qed simp

lemma parse_readable: "parse n t = Inr p \<Longrightarrow> readable n (p_iface p)"
proof -
  assume p: "parse n t = Inr p"
  let ?s = "\<lparr>st_iface = new_iface n [], st_section = NoSection, st_seen = False, st_peer = None, st_warnings = []\<rparr>"
  have "readable_state n ?s"
    by (simp add: readable_state_def readable_def fits_u16_def clean_hooks_def new_iface_def no_hooks_def all_hooks_def)
  moreover from p obtain s where "parse_lines 1 (lines t) ?s = Inr s" "p_iface p = st_iface (finish_peer s)"
    by (auto simp: parse_def Let_def split: if_splits)
  ultimately have "readable_state n (finish_peer s)" using finish_peer_readable parse_lines_readable by blast
  with \<open>p_iface p = st_iface (finish_peer s)\<close> show ?thesis by (simp add: readable_state_def)
qed

text \<open>So a normalised interface that was read, or made from 16 bit requests, is read back from its file.\<close>

lemma check_peers_each: "check_peers keys hosts ps = Inr qs \<Longrightarrow> list_all2 (\<lambda>p q. peer_normalize p = Inr q) ps qs"
  by (induction keys hosts ps arbitrary: qs rule: check_peers.induct) auto

lemma read_back:
  assumes "normalize i = Inr j" "readable n i" shows "parse n (render j) = Inr \<lparr>p_iface = j, managed = True, warnings = []\<rparr>" "readable n j"
proof -
  obtain addrs ds cds ps where j: "j = i\<lparr>addresses := addrs, dns := ds, client_dns := cds, table := trim (table i),
       fwmark := trim (fwmark i), iendpoint := trim (iendpoint i), peers := ps\<rparr>"
    "check_peers [] [] (peers i) = Inr ps" "canon_iface j"
    by (rule normalize_Inr[OF assms(1)])
  have "list_all (\<lambda>p. keepalive p < 2 ^ 16) ps"
    using check_peers_each[OF j(2)] assms(2) peer_normalize_keeps
    by (fastforce simp: readable_def fits_u16_def list_all_iff list_all2_conv_all_nth all_set_conv_all_nth)
  then show r: "readable n j" using assms(2) by (simp add: j(1) readable_def fits_u16_def clean_hooks_def)
  have "plain_hooks j"
    using j(3) r by (auto simp: plain_hooks_def plain_value_def canon_iface_def readable_def clean_hooks_def list_all_iff list_ex_iff
      bad_hook_def one_line_def trim_trimmed)
  then show "parse n (render j) = Inr \<lparr>p_iface = j, managed = True, warnings = []\<rparr>"
    using parse_render[OF j(3)] r by (simp add: readable_def)
qed

section \<open>Names and files\<close>

lemma conf_name_simps [simp]:
  "conf_file_name n = conf_file_name m \<longleftrightarrow> n = m" "backup_file_name n = backup_file_name m \<longleftrightarrow> n = m"
  "conf_file_name n \<noteq> backup_file_name m" "backup_file_name m \<noteq> conf_file_name n"
proof -
  have "last (conf_file_name n) \<noteq> last (backup_file_name m)" by (simp add: conf_file_name_def backup_file_name_def)
  then show "conf_file_name n \<noteq> backup_file_name m" "backup_file_name m \<noteq> conf_file_name n" by auto
qed (simp_all add: conf_file_name_def backup_file_name_def)

lemma suffix_split: "strip_suffix p s = Some t \<longleftrightarrow> s = t @ p"
  by (auto simp: strip_suffix_def strip_prefix_Some) (metis rev_append rev_rev_ident)

lemma conf_names_set: "n \<in> set (conf_names fs) \<longleftrightarrow> valid_name n \<and> map_of fs (conf_file_name n) \<noteq> None"
proof -
  have s: "(case strip_suffix ''.conf'' f of Some m \<Rightarrow> if valid_name m then Some m else None | None \<Rightarrow> None) = Some n
      \<longleftrightarrow> valid_name n \<and> f = conf_file_name n" for f
    by (auto simp: conf_file_name_def suffix_split split: option.splits) (simp add: strip_suffix_append)
  have m: "n \<in> set (List.map_filter f xs) \<longleftrightarrow> (\<exists>x\<in>set xs. f x = Some n)" for f :: "string \<times> conf_file \<Rightarrow> string option" and xs
    by (induction xs) (auto simp: List.map_filter_simps split: option.splits)
  have "n \<in> set (conf_names fs) \<longleftrightarrow> valid_name n \<and> (\<exists>c. (conf_file_name n, c) \<in> set fs)"
    unfolding conf_names_def set_sort m by (auto simp: s Bex_def)
  moreover have "(\<exists>c. (k, c) \<in> set fs) \<longleftrightarrow> map_of fs k \<noteq> None" for k
    using map_of_SomeD[of fs k] weak_map_of_SomeI[of k _ fs] by auto
  ultimately show ?thesis by simp
qed

lemma managed_at_Some: "managed_at fm n = Inr (Some i) \<longleftrightarrow>
    valid_name n \<and> (\<exists>t p. fm (conf_file_name n) = Some (Text t) \<and> is_managed t \<and> parse n t = Inr p \<and> p_iface p = i)"
  by (auto simp: managed_at_def split: option.splits conf_file.splits if_splits)

lemma managed_readable: "managed_at fm n = Inr (Some i) \<Longrightarrow> readable n i"
  by (auto simp: managed_at_Some dest: parse_readable)

lemma managed_at_rendered:
  assumes "normalize i = Inr j" "readable n i" "fm (conf_file_name n) = Some (Text (render j))"
  shows "managed_at fm n = Inr (Some j)"
proof -
  have "canon_iface j" using normalize_Inr[OF assms(1)] by blast
  then have "is_managed (render j)" "valid_name n"
    using is_managed_render[OF file_lines_one_line[of j]] render_file_lines[of j] read_back(2)[OF assms(1,2)]
    by (auto simp: canon_iface_def readable_def)
  then show ?thesis using assms(3) read_back(1)[OF assms(1,2)] by (simp add: managed_at_Some)
qed

section \<open>Files that ask to be saved\<close>

lemma hd_split_append: "d \<notin> set a \<Longrightarrow> hd (split_char d (a @ b)) = a @ hd (split_char d b)"
proof (induction a)
  case (Cons c a)
  then show ?case by (cases "split_char d (a @ b)") auto
qed simp

lemma saves_hash: "\<not> saves_line (CHR ''#'' # s)"
  by (cases "split_char (CHR ''#'') s") (simp_all add: saves_line_def)

lemma saves_key:
  assumes "CHR ''#'' \<notin> set k" "CHR ''='' \<notin> set k" "to_lower (trim (k @ '' '')) \<noteq> ''saveconfig''"
  shows "\<not> saves_line (key_value k v)"
proof -
  have "hd (split_char (CHR ''#'') (key_value k v)) = (k @ '' '') @ CHR ''='' # CHR '' '' # hd (split_char (CHR ''#'') v)"
    using hd_split_append[of "CHR ''#''" "k @ '' = ''" v] assms(1) by (simp add: key_value_def)
  moreover have "split_once (CHR ''='') ((k @ '' '') @ CHR ''='' # x) = Some (k @ '' '', x)" for x
    by (rule split_once_append) (use assms(2) in simp)
  ultimately show ?thesis using assms(3) by (simp add: saves_line_def)
qed

text \<open>The keys the daemon writes.\<close>

definition own_keys :: "string list" where
  "own_keys = [''PrivateKey'', ''Address'', ''ListenPort'', ''DNS'', ''MTU'', ''Table'', ''FwMark'', ''PreUp'', ''PostUp'', ''PreDown'', ''PostDown'',
     ''PublicKey'', ''PresharedKey'', ''AllowedIPs'', ''Endpoint'', ''PersistentKeepalive'']"

lemma own_keys_save_not: "list_all (\<lambda>k. CHR ''#'' \<notin> set k \<and> CHR ''='' \<notin> set k \<and> to_lower (trim (k @ '' '')) \<noteq> ''saveconfig'') own_keys"
  by code_simp

lemma saves_own: "k \<in> set own_keys \<Longrightarrow> \<not> saves_line (key_value k v)"
  using own_keys_save_not saves_key by (auto simp: list_all_iff)

lemma saves_opt: "(c \<Longrightarrow> \<not> saves_line l) \<Longrightarrow> list_all (\<lambda>l. \<not> saves_line l) (opt_line c l)"
  by (simp add: opt_line_def)

lemma saves_plain: "CHR ''='' \<notin> set l \<Longrightarrow> \<not> saves_line l"
proof -
  assume "CHR ''='' \<notin> set l"
  then have "CHR ''='' \<notin> set (hd (split_char (CHR ''#'') l))" using hd_split_sub by blast
  then have "split_once (CHR ''='') (hd (split_char (CHR ''#'') l)) = None" by simp
  then show ?thesis by (simp add: saves_line_def del: split_once_none)
qed

lemma file_lines_save_not: "list_all (\<lambda>l. \<not> saves_line l) (file_lines i)"
proof -
  note k = saves_own[unfolded own_keys_def, simplified]
  have c: "list_all (\<lambda>l. \<not> saves_line l) comment_lines"
    by (simp add: comment_lines_def MARKER_def saves_hash saves_plain)
  have a: "list_all (\<lambda>l. \<not> saves_line l) (asc_lines i)"
    by (auto simp: asc_lines_def key_value_def saves_hash intro!: saves_opt)
  have f: "list_all (\<lambda>l. \<not> saves_line l) (field_lines i)"
    by (auto simp: field_lines_def k intro!: saves_opt split: option.split)
  have h: "list_all (\<lambda>l. \<not> saves_line l) (hook_block i)"
    by (auto simp: hook_block_def list_all_iff nat_line_def k)
  have p: "list_all (\<lambda>l. \<not> saves_line l) (peer_lines q)" for q
  proof -
    have b: "list_all (\<lambda>l. \<not> saves_line l) (peer_block q)"
      by (auto simp: peer_block_def k saves_plain key_value_def[of "''# asc:name''"] saves_hash intro!: saves_opt)
    have o: "\<not> saves_line (OFF_PREFIX @ l)" for l by (simp add: OFF_PREFIX_def saves_hash)
    from b o show ?thesis by (auto simp: peer_lines_def off_line_def list_all_iff saves_plain)
  qed
  from c a f h p show ?thesis by (auto simp: file_lines_def saves_plain list_all_iff)
qed

lemma rendered_save_not: "normalize i = Inr j \<Longrightarrow> \<not> asks_saving (Text (render j))"
proof -
  assume "normalize i = Inr j"
  then have c: "canon_iface j" using normalize_Inr by blast
  then have "render j = unlines (file_lines j)" by (intro render_file_lines) (simp add: canon_iface_def)
  with file_lines_one_line[OF c] file_lines_save_not[of j] show ?thesis
    by (auto simp: asks_saving_def lines_unlines list_all_iff list_ex_iff)
qed

lemma saved_not_managed: "managed_at (fm(conf_file_name n \<mapsto> saved_file s)) n \<noteq> Inr (Some i)" "managed_at (fm(conf_file_name n \<mapsto> saved_file s)) n \<noteq> Inr None"
proof -
  have "\<not> is_managed (''[Interface]'' @ LF @ s)"
  proof -
    have "split_char (CHR 0x0A) (''[Interface]'' @ CHR 0x0A # s) = ''[Interface]'' # split_char (CHR 0x0A) s"
      by (rule split_char_append) code_simp
    then have l: "lines (''[Interface]'' @ LF @ s) = ''[Interface]'' # lines s"
      by (simp add: lines_def strip_cr_def Let_def LF_def)
    have "trim ''[Interface]'' = ''[Interface]''" "\<not> starts_with MARKER ''[Interface]''" by code_simp+
    with l show ?thesis by (simp add: is_managed_def)
  qed
  then show "managed_at (fm(conf_file_name n \<mapsto> saved_file s)) n \<noteq> Inr (Some i)" "managed_at (fm(conf_file_name n \<mapsto> saved_file s)) n \<noteq> Inr None"
    by (auto simp: managed_at_def saved_file_def)
qed

text \<open>What becomes of the files when an interface goes down: nothing, or its own file is saved over.\<close>

definition saved_over :: "string \<Rightarrow> (string \<Rightarrow> conf_file option) \<Rightarrow> (string \<Rightarrow> conf_file option) \<Rightarrow> bool" where
  "saved_over n fm gm \<longleftrightarrow> gm = fm \<or>
     (\<exists>c s. fm (conf_file_name n) = Some c \<and> asks_saving c \<and> gm = fm(conf_file_name n \<mapsto> saved_file s))"

lemma saved_over_refl [simp, intro]: "saved_over n fm fm"
  by (simp add: saved_over_def)

lemma saved_over_trans: "saved_over n fm gm \<Longrightarrow> saved_over n gm hm \<Longrightarrow> saved_over n fm hm"
  by (fastforce simp: saved_over_def)

lemma saved_over_same: "saved_over n fm gm \<Longrightarrow> (\<And>c. fm (conf_file_name n) = Some c \<Longrightarrow> \<not> asks_saving c) \<Longrightarrow> gm = fm"
  by (auto simp: saved_over_def)

lemma saved_over_other: "saved_over n fm gm \<Longrightarrow> f \<noteq> conf_file_name n \<Longrightarrow> gm f = fm f"
  by (auto simp: saved_over_def)

lemma saving_files: "saved_over n (map_of (conf_dir w)) (map_of (conf_dir (saving env n w)))"
  by (auto simp: saving_def saved_over_def update_conv' split: option.split)

lemma saving_rest [simp]:
  "tunnels (saving env n w) = tunnels w" "wg_outs (saving env n w) = wg_outs w" "unit_words (saving env n w) = unit_words w"
  by (auto simp: saving_def split: option.split)

lemma unasked_same: "(\<And>c. map_of (conf_dir w) (conf_file_name n) = Some c \<Longrightarrow> \<not> asks_saving c) \<Longrightarrow> saving env n w = w"
  by (auto simp: saving_def split: option.split)

section \<open>What the tools leave alone\<close>

text \<open>A part of the world that the calls of the tools for the interface \<open>n\<close> do not touch.\<close>

definition called :: "wg_env \<Rightarrow> wg_tool set" where
  "called env = set (builders env) \<union> range (sync_with env)"

definition blind :: "wg_env \<Rightarrow> string \<Rightarrow> (wg_world \<Rightarrow> 'x) \<Rightarrow> bool" where
  "blind env n g \<longleftrightarrow> (\<forall>w x. g (w\<lparr>wg_outs := x\<rparr>) = g w) \<and> (\<forall>w x. g (w\<lparr>keys_made := x\<rparr>) = g w)
     \<and> (\<forall>f\<in>called env. \<forall>w. g (snd (tool_call f n w)) = g w)"

definition quiet :: "(wg_world \<Rightarrow> 'x) \<Rightarrow> bool" where
  "quiet g = (\<forall>w x. g (w\<lparr>wg_outs := x\<rparr>) = g w)"

lemma blind_quiet: "blind env n g \<Longrightarrow> quiet g"
  by (simp add: blind_def quiet_def)

lemma tools_called:
  "quick_up env \<in> called env" "quick_down env \<in> called env" "unit_start env \<in> called env" "unit_restart env \<in> called env"
  "unit_stop env \<in> called env" "unit_enable env \<in> called env" "unit_disable env \<in> called env" "sync_with env s \<in> called env"
  by (simp_all add: called_def builders_def)

lemma frames_wg_effect: "quiet g \<Longrightarrow> (\<And>w. g (f w) = g w) \<Longrightarrow> frames g (wg_effect e f)"
  by (auto simp: frames_def wg_effect_def step_io_def quiet_def Let_def split: prod.splits)

lemma frames_tool_command: "blind env n g \<Longrightarrow> f \<in> called env \<Longrightarrow> frames g (tool_command c f n)"
  unfolding tool_command_def
  by (rule frames_seq[OF frames_wg_effect[OF blind_quiet]]) (auto simp: frames_def blind_def tool_run_def split_beta)

text \<open>An effect that changes nothing but the outcomes.\<close>

lemma frames_ask: "quiet g \<Longrightarrow> frames g (ask_tool c h)"
  unfolding ask_tool_def by (intro frame_rules frames_wg_effect) simp_all

lemma frames_or_else: "frames g m \<Longrightarrow> frames g (or_else d m)"
  unfolding or_else_def by (intro frame_rules)

lemma frames_previous: "quiet g \<Longrightarrow> frames g (previous_file n)"
  unfolding previous_file_def by (intro frames_or_else frame_rules frames_wg_effect) simp_all

lemma frames_keys:
  assumes "blind env n g" shows "frames g (genkey env)" "frames g (genpsk env)"
  unfolding genkey_def genpsk_def
  by (intro frame_rules frames_wg_effect[OF blind_quiet[OF assms]]; use assms in \<open>simp add: blind_def\<close>)+

lemma frames_pubkey: "quiet g \<Longrightarrow> frames g (pubkey env k)"
  unfolding pubkey_def by (intro frame_rules frames_wg_effect) (auto intro: frame_rules split: option.split)

lemma frames_running: "quiet g \<Longrightarrow> frames g running"
  unfolding running_def by (rule frames_ask)

lemma frames_strip: "quiet g \<Longrightarrow> frames g (strip_text env f)"
  unfolding strip_text_def by (intro frame_rules frames_ask)

lemma frames_down_command: "blind env n g \<Longrightarrow> (\<And>w. g (saving env n w) = g w) \<Longrightarrow> f \<in> called env \<Longrightarrow> frames g (down_command env c f n)"
  unfolding down_command_def
  by (rule frames_seq[OF frames_wg_effect[OF blind_quiet]], assumption, simp, rule frames_seq)
    (auto simp: frames_def blind_def tool_run_def modify_def split_beta)

lemma frames_tools:
  assumes b: "blind env n g"
  shows "frames g (syncconf env n s)" "frames g (wg_up env n)"
proof -
  note q = blind_quiet[OF b] and c = frames_tool_command[OF b tools_called(1)] frames_tool_command[OF b tools_called(2)]
    frames_tool_command[OF b tools_called(3)] frames_tool_command[OF b tools_called(4)] frames_tool_command[OF b tools_called(5)]
    frames_tool_command[OF b tools_called(6)] frames_tool_command[OF b tools_called(7)] frames_tool_command[OF b tools_called(8)]
  show "frames g (syncconf env n s)" unfolding syncconf_def by (rule c)
  show "frames g (wg_up env n)"
    unfolding wg_up_def by (intro frame_rules c frames_running[OF q] frames_or_else frames_ask[OF q])
qed

lemma frames_downs:
  assumes b: "blind env n g" and g: "\<And>w. g (saving env n w) = g w"
  shows "frames g (wg_down env n)" "frames g (wg_restart env n)"
proof -
  note q = blind_quiet[OF b] and c = frames_tool_command[OF b tools_called(1)] frames_down_command[OF b g tools_called(2)]
    frames_down_command[OF b g tools_called(4)] frames_down_command[OF b g tools_called(5)]
  show "frames g (wg_down env n)"
    unfolding wg_down_def by (intro frame_rules c frames_running[OF q])
  show "frames g (wg_restart env n)"
    unfolding wg_restart_def by_hand_def by (intro frame_rules c frames_running[OF q])
qed

lemma frames_views:
  assumes q: "quiet g"
  shows "frames g (wg_enabled env m)" "frames g (wg_version env)" "frames g (primary_address env)" "frames g (live_peers env m)"
    "frames g (view_iface env i up)" "frames g (view_files env ups ns)" "frames g (wg_overview env)"
proof -
  show e: "frames g (wg_enabled env m)" for m
    unfolding wg_enabled_def by (intro frame_rules frames_or_else frames_ask[OF q])
  show v: "frames g (wg_version env)" "frames g (primary_address env)"
    unfolding wg_version_def primary_address_def by (intro frames_or_else frames_ask[OF q])+
  show l: "frames g (live_peers env m)" for m
    unfolding live_peers_def by (intro frame_rules frames_ask[OF q])
  show i: "frames g (view_iface env i up)" for i up
    unfolding view_iface_def by (intro frame_rules frames_or_else l frames_pubkey[OF q] e)
  show f: "frames g (view_files env ups ns)" for ups ns
  proof (induction ns)
    case (Cons n ns)
    have "frames g (case x of (is, us) \<Rightarrow> ret (h is us))" for x :: "'y \<times> 'z" and h :: "'y \<Rightarrow> 'z \<Rightarrow> 'q"
      by (cases x) (simp add: frame_rules)
    then show ?case unfolding view_files.simps Let_def by (intro frame_rules Cons i)
  qed (simp add: frame_rules)
  show "frames g (wg_overview env)"
    unfolding wg_overview_def split_beta by (intro frame_rules frames_or_else frames_running[OF q] f v)
qed

lemma frames_reading:
  "frames g (read_managed_opt m)" "frames g (read_managed m)" "frames g require_installed" "frames g (check_port i)"
  "frames g (normalized i)" "frames g (require_exists m)" "frames g (wanted_nets l)" "frames g (find_peer i q)" "frames g (client_opts c)"
  unfolding read_managed_opt_def read_managed_def require_installed_def check_port_def normalized_def require_exists_def
    wanted_nets_def find_peer_def client_opts_def
  by (auto intro!: frame_rules split: prod.splits)

lemma tool_call_files: "conf_dir (snd (tool_call f n w)) = conf_dir w"
  by (simp add: tool_call_def split: prod.split)

lemma blind_files: "blind env n conf_dir" "blind env n (\<lambda>w. map_of (conf_dir w) f)" "quiet conf_dir" "quiet tunnels"
  by (simp_all add: blind_def quiet_def tool_call_files)

end
