(* ===== verification/WgKeep.thy ===== *)
theory WgKeep
  imports WgFiles
begin

text \<open>
  What writing and applying a change does to the files, whatever fails on the way.
\<close>

section \<open>Writing and applying\<close>

lemma conf_run:
  "put_conf f c w = (let (ok, os) = next_outcome (wg_outs w) in
     if ok then (Inr (), w\<lparr>wg_outs := os, conf_dir := AList.update f c (conf_dir w)\<rparr>) else (Inl (Other CannotWrite), w\<lparr>wg_outs := os\<rparr>))"
  "drop_conf f w = (let (ok, os) = next_outcome (wg_outs w) in
     if ok then (Inr (), w\<lparr>wg_outs := os, conf_dir := AList.delete f (conf_dir w)\<rparr>) else (Inl (Other CannotWrite), w\<lparr>wg_outs := os\<rparr>))"
  by (simp_all add: put_conf_def drop_conf_def wg_effect_def step_io_def split: prod.split)

lemma frames_candidate:
  assumes "quiet g" "\<And>w x. g (w\<lparr>work_dir := x\<rparr>) = g w" shows "frames g (check_candidate env f t)"
  unfolding check_candidate_def
  by (intro frame_rules frames_wg_effect[OF assms(1)] frames_strip[OF assms(1)] assms(2))

text \<open>The errors a computation can end with.\<close>

definition errs_in :: "'e set \<Rightarrow> ('w, 'e, 'a) io \<Rightarrow> bool" where
  "errs_in E m = (\<forall>w e. fst (m w) = Inl e \<longrightarrow> e \<in> E)"

lemma errs_pure: "errs_in E (ret x)" "e \<in> E \<Longrightarrow> errs_in E (throw e)" "errs_in E (asks g)" "errs_in E (ignore m)" "errs_in E (catch m2)"
  "(c \<Longrightarrow> e \<in> E) \<Longrightarrow> errs_in E (fail_if c e)"
  by (auto simp: errs_in_def io_defs split: prod.splits)

lemma errs_bind: "errs_in E m \<Longrightarrow> (\<And>x. errs_in E (f x)) \<Longrightarrow> errs_in E (bind m f)"
  by (auto simp: errs_in_def bind_def split: prod.splits sum.splits) (metis fst_conv)+

lemma errs_seq: "errs_in E m \<Longrightarrow> errs_in E k \<Longrightarrow> errs_in E (seq m k)"
  unfolding seq_def by (rule errs_bind)

lemma errs_effect: "Other e \<in> E \<Longrightarrow> errs_in E (wg_effect e f)"
  by (auto simp: errs_in_def wg_effect_def step_io_def Let_def split: prod.splits)

lemma candidate_errs: "errs_in {Invalid RefusedConf, Other CannotWrite} (check_candidate env f t)"
  unfolding check_candidate_def by (intro errs_bind errs_seq errs_pure errs_effect) simp_all

lemma running_errs: "errs_in {Other (CommandFails ''wg show interfaces'')} running"
  unfolding running_def ask_tool_def by (intro errs_seq errs_pure errs_effect) simp

lemma keeps_any: "keeps P m Q \<Longrightarrow> keeps P m (\<lambda>_. True)"
  by (erule keeps_weaken) (rule TrueI)

lemma keeps_any_bind: "keeps P m (\<lambda>_. True) \<Longrightarrow> (\<And>x. keeps P (f x) (\<lambda>_. True)) \<Longrightarrow> keeps P (bind m f) (\<lambda>_. True)"
  by (rule keeps_bind)

lemma keeps_any_seq: "keeps P m (\<lambda>_. True) \<Longrightarrow> keeps P k (\<lambda>_. True) \<Longrightarrow> keeps P (seq m k) (\<lambda>_. True)"
  by (rule keeps_seq)

lemma keeps_any_pure: "keeps P (ret x) (\<lambda>_. True)" "keeps P (throw e) (\<lambda>_. True)" "keeps P (asks g) (\<lambda>_. True)"
  by (simp_all add: keeps_def io_defs)

lemma keeps_any_catch: "keeps P m (\<lambda>_. True) \<Longrightarrow> keeps P (catch m) (\<lambda>_. True)"
  by (rule keeps_any[OF keeps_catch])

lemma keeps_any_ignore: "keeps P m (\<lambda>_. True) \<Longrightarrow> keeps P (ignore m) (\<lambda>_. True)"
  by (rule keeps_ignore)

lemma keeps_effect: "(\<And>w. P w \<Longrightarrow> P (f w)) \<Longrightarrow> (\<And>w x. P (w\<lparr>wg_outs := x\<rparr>) = P w) \<Longrightarrow> keeps P (wg_effect e f) (\<lambda>_. True)"
  by (rule keepsI) (auto simp: wg_effect_def step_io_def Let_def split: prod.splits if_splits)

lemmas keeps_any_rules = keeps_any_bind keeps_any_seq keeps_any_pure keeps_any_catch keeps_any_ignore keeps_do_if

text \<open>Outcomes are consumed: where all effects work they go on working. A tool may still fail.\<close>

abbreviation all_work :: "wg_world \<Rightarrow> bool" where
  "all_work w \<equiv> set (wg_outs w) \<subseteq> {Fine}"

lemma next_outcome_works: "set os \<subseteq> {Fine} \<Longrightarrow> fst (next_outcome os)" "set os \<subseteq> {Fine} \<Longrightarrow> set (snd (next_outcome os)) \<subseteq> {Fine}"
  by (cases os; auto)+

lemma works_effect:
  assumes "\<And>w. wg_outs (f w) = wg_outs w" shows "keeps all_work (wg_effect e f) (\<lambda>_. True)"
proof (rule keepsI)
  fix w r w1 assume w: "all_work w"
  have o: "wg_outs (snd (wg_effect e f w)) = snd (next_outcome (wg_outs w))" using assms
    by (simp add: wg_effect_def step_io_def Let_def split_beta)
  show "wg_effect e f w = (Inl r, w1) \<Longrightarrow> all_work w1" "wg_effect e f w = (Inr x, w1) \<Longrightarrow> all_work w1 \<and> True" for x
    using o next_outcome_works(2)[OF w] by simp_all
qed

lemma works_tool:
  "keeps all_work (tool_command c f n) (\<lambda>_. True)" "keeps all_work (down_command env c f n) (\<lambda>_. True)"
proof -
  have r: "keeps all_work (tool_run c f n) (\<lambda>_. True)" by (auto simp: tool_run_def keeps_def tool_call_def split: prod.splits)
  show "keeps all_work (tool_command c f n) (\<lambda>_. True)"
    unfolding tool_command_def by (rule keeps_seq[OF works_effect r]) simp
  show "keeps all_work (down_command env c f n) (\<lambda>_. True)"
    unfolding down_command_def by (intro keeps_any_seq works_effect r) (auto simp: keeps_def modify_def)
qed

text \<open>The files while interfaces go down and up: all as they were, but for a file that asks to be saved.\<close>

lemma keeps_over_files: "frames conf_dir m \<Longrightarrow> keeps (\<lambda>w. saved_over n fm (map_of (conf_dir w))) m (\<lambda>_. True)"
  using keeps_frame[of conf_dir m "\<lambda>d. saved_over n fm (map_of d)"] by simp

lemma down_saves: "keeps (\<lambda>w. saved_over n fm (map_of (conf_dir w))) (down_command env c f n) (\<lambda>_. True)"
  unfolding down_command_def
proof (intro keeps_any_seq keeps_effect)
  show "keeps (\<lambda>w. saved_over n fm (map_of (conf_dir w))) (modify (saving env n)) (\<lambda>_. True)"
    using saved_over_trans[OF _ saving_files] by (auto simp: keeps_def modify_def)
  show "keeps (\<lambda>w. saved_over n fm (map_of (conf_dir w))) (tool_run c f n) (\<lambda>_. True)"
    by (rule keeps_over_files) (auto simp: frames_def tool_run_def tool_call_def split_beta)
qed simp_all

lemma downs_save:
  "keeps (\<lambda>w. saved_over n fm (map_of (conf_dir w))) (wg_down env n) (\<lambda>_. True)"
  "keeps (\<lambda>w. saved_over n fm (map_of (conf_dir w))) (wg_restart env n) (\<lambda>_. True)"
  "iname new = n \<Longrightarrow> keeps (\<lambda>w. saved_over n fm (map_of (conf_dir w))) (bring_in_line env old new) (\<lambda>_. True)"
proof -
  let ?P = "\<lambda>w. saved_over n fm (map_of (conf_dir w))"
  have r: "keeps ?P running (\<lambda>_. True)" by (rule keeps_over_files[OF frames_running[OF blind_files(3)]])
  have u: "keeps ?P (tool_command c (quick_up env) n) (\<lambda>_. True)" for c
    by (rule keeps_over_files[OF frames_tool_command[OF blind_files(1) tools_called(1)]])
  show "keeps ?P (wg_down env n) (\<lambda>_. True)"
    unfolding wg_down_def by (intro keeps_any_rules r down_saves)
  show s: "keeps ?P (wg_restart env n) (\<lambda>_. True)"
    unfolding wg_restart_def by_hand_def by (intro keeps_if keeps_sum keeps_any_rules r u down_saves)
  assume n: "iname new = n"
  show "keeps ?P (bring_in_line env old new) (\<lambda>_. True)"
    unfolding bring_in_line_def Let_def n
    by (rule keeps_if, rule s, rule keeps_any_bind)
      (rule keeps_over_files, intro frame_rules frames_tools[OF blind_files(1)] frames_strip[OF blind_files(3)])+
qed

lemma downs_saved: "keeps (\<lambda>w. saved_over n (map_of (conf_dir u)) (map_of (conf_dir w))) m (\<lambda>_. True) \<Longrightarrow>
    saved_over n (map_of (conf_dir u)) (map_of (conf_dir (snd (m u))))"
  by (erule keeps_world) simp

lemma works_steps:
  "keeps all_work (check_candidate env f t) (\<lambda>_. True)" "keeps all_work (put_conf f c) (\<lambda>_. True)" "keeps all_work running (\<lambda>_. True)"
  "keeps all_work (bring_in_line env old new) (\<lambda>_. True)"
proof -
  have f: "keeps all_work (fail_if c e) (\<lambda>_. True)" for c e by (rule keeps_any, rule keeps_pure)
  have s: "keeps all_work (strip_text env g) (\<lambda>_. True)" for g
    unfolding strip_text_def ask_tool_def by (intro keeps_any_rules keeps_option works_effect) simp
  show r: "keeps all_work running (\<lambda>_. True)" unfolding running_def ask_tool_def by (intro keeps_any_rules works_effect) simp
  show "keeps all_work (check_candidate env f t) (\<lambda>_. True)"
    unfolding check_candidate_def by (intro keeps_any_rules works_effect s f) simp_all
  show "keeps all_work (put_conf f c) (\<lambda>_. True)" unfolding put_conf_def by (rule works_effect) simp
  show "keeps all_work (bring_in_line env old new) (\<lambda>_. True)"
    unfolding bring_in_line_def wg_restart_def by_hand_def syncconf_def Let_def
    by (intro keeps_if keeps_sum keeps_any_rules r s works_tool)
qed

lemma running_works: "all_work w \<Longrightarrow> running w \<noteq> (Inl e, w')"
  using next_outcome_works(1)[of "wg_outs w"]
  by (simp add: running_def ask_tool_def wg_effect_def step_io_def seq_def bind_def asks_def Let_def split_beta)

definition with_conf :: "wg_world \<Rightarrow> iface \<Rightarrow> string \<Rightarrow> conf_file option" where
  "with_conf w i = (map_of (conf_dir w))(conf_file_name (iname i) \<mapsto> Text (render i))"

lemma previous_run:
  assumes "previous_file n w = (r, w1)"
  obtains p where "r = Inr p" "p = map_of (conf_dir w) (conf_file_name n) \<or> p = None \<and> \<not> all_work w"
    "conf_dir w1 = conf_dir w" "tunnels w1 = tunnels w" "all_work w \<Longrightarrow> all_work w1"
proof -
  have o: "wg_outs w1 = snd (next_outcome (wg_outs w))" "conf_dir w1 = conf_dir w" "tunnels w1 = tunnels w"
    and p: "r = Inr (if fst (next_outcome (wg_outs w)) then map_of (conf_dir w) (conf_file_name n) else None)"
    using assms by (auto simp: previous_file_def or_else_def wg_effect_def step_io_def seq_def bind_def catch_def asks_def ret_def Let_def split: prod.splits if_splits)
  show thesis by (rule that[OF p]) (use o next_outcome_works[of "wg_outs w"] in auto)
qed

text \<open>Putting the previous file back does it unless that write fails, too, or the file asks to be saved over.\<close>

lemma put_back_run:
  assumes "put_back env n prev u = (r, w')"
  shows "r = Inl (Precondition NotApplied) \<and>
    saved_over n (if fst (next_outcome (wg_outs u)) then (map_of (conf_dir u))(conf_file_name n := prev) else map_of (conf_dir u)) (map_of (conf_dir w'))"
proof -
  let ?m = "case prev of Some c \<Rightarrow> put_conf (conf_file_name n) c | None \<Rightarrow> drop_conf (conf_file_name n)"
  have "map_of (conf_dir (snd (?m u))) = (if fst (next_outcome (wg_outs u)) then (map_of (conf_dir u))(conf_file_name n := prev) else map_of (conf_dir u))"
    by (cases prev) (auto simp: conf_run delete_conv' update_conv' split: prod.split)
  moreover have "r = Inl (Precondition NotApplied)" "w' = snd (ignore (wg_restart env n) (snd (?m u)))"
    using assms by (auto simp: put_back_def io_simps)
  ultimately show ?thesis using downs_saved[OF keeps_any_ignore[OF downs_save(2)], of n "snd (?m u)" env] by simp
qed

text \<open>The four ways a change can end.\<close>

lemma write_and_sync_cases:
  assumes "write_and_sync env old new w = (r, w')"
  obtains (unchanged) e where "r = Inl e" "e \<in> {Invalid RefusedConf, Other CannotWrite}" "map_of (conf_dir w') = map_of (conf_dir w)"
      "tunnels w' = tunnels w"
    | (applied) "r = Inr ()" "saved_over (iname new) (with_conf w new) (map_of (conf_dir w'))"
        "tunnels w' (iname new) = None \<or> (\<exists>u. map_of (conf_dir u) = with_conf w new \<and> tunnels u = tunnels w \<and> bring_in_line env old new u = (Inr (), w'))"
    | (unknown) "r = Inl (Other (CommandFails ''wg show interfaces''))" "map_of (conf_dir w') = with_conf w new" "tunnels w' = tunnels w" "\<not> all_work w"
    | (put_back) u prev where "put_back env (iname new) prev u = (r, w')" "saved_over (iname new) (with_conf w new) (map_of (conf_dir u))"
        "prev = map_of (conf_dir w) (conf_file_name (iname new)) \<or> prev = None \<and> \<not> all_work w" "all_work w \<Longrightarrow> all_work u"
proof -
  let ?n = "iname new" and ?t = "render new"
  let ?f = "conf_file_name ?n"
  obtain c w1 where c: "check_candidate env ?f ?t w = (c, w1)" by (cases "check_candidate env ?f ?t w")
  have w1: "conf_dir w1 = conf_dir w" "tunnels w1 = tunnels w"
    using framesD[OF frames_candidate[OF blind_files(3)], of env ?f ?t w] c
      framesD[OF frames_candidate[OF blind_files(4)], of env ?f ?t w] by auto
  have a1: "all_work w \<Longrightarrow> all_work w1" using keeps_world[OF works_steps(1), of w env ?f ?t] c by simp
  show thesis
  proof (cases c)
    case (Inl e)
    then have "(r, w') = (Inl e, w1)" using assms c by (simp add: write_and_sync_def Let_def seq_def bind_def)
    moreover have "e \<in> {Invalid RefusedConf, Other CannotWrite}"
      using c Inl candidate_errs[of env ?f ?t] unfolding errs_in_def by (metis fst_conv)
    ultimately show ?thesis using w1 by (intro unchanged) auto
  next
    case (Inr u)
    obtain v w2 where v: "previous_file ?n w1 = (v, w2)" by (cases "previous_file ?n w1")
    obtain prev where pv: "v = Inr prev" "prev = map_of (conf_dir w) ?f \<or> prev = None \<and> \<not> all_work w"
      and w2: "conf_dir w2 = conf_dir w" "tunnels w2 = tunnels w" and a2: "all_work w \<Longrightarrow> all_work w2"
      by (rule previous_run[OF v]) (use w1 a1 in auto)
    define m where "m = seq (put_conf ?f (Text ?t)) (bind running (\<lambda>up. if ?n \<notin> up then ret () else
       bind (catch (bring_in_line env old new)) (\<lambda>r. case r of Inr _ \<Rightarrow> ret () | Inl _ \<Rightarrow> put_back env ?n prev)))"
    have m: "m w2 = (r, w')" using assms c Inr v pv(1) by (simp add: write_and_sync_def Let_def seq_def bind_def m_def)
    obtain p w3 where p: "put_conf ?f (Text ?t) w2 = (p, w3)" by (cases "put_conf ?f (Text ?t) w2")
    show ?thesis
    proof (cases p)
      case (Inl e)
      then show ?thesis using m p w2 by (intro unchanged[of e]) (auto simp: m_def seq_def bind_def conf_run split: prod.splits if_splits)
    next
      case p1: (Inr _)
      then have w3: "map_of (conf_dir w3) = with_conf w new" "tunnels w3 = tunnels w"
        using p w2 by (auto simp: conf_run update_conv' with_conf_def split: prod.splits if_splits)
      have a3: "all_work w \<Longrightarrow> all_work w3" using a2 keeps_world[OF works_steps(2), of w2 ?f "Text ?t"] p by simp
      obtain q w4 where q: "running w3 = (q, w4)" by (cases "running w3")
      have w4: "conf_dir w4 = conf_dir w3" "tunnels w4 = tunnels w3"
        using framesD[OF frames_running[OF blind_files(3)], of w3] framesD[OF frames_running[OF blind_files(4)], of w3] q by simp_all
      show ?thesis
      proof (cases q)
        case (Inl e)
        then have "(r, w') = (Inl e, w4)" using m p p1 q by (simp add: m_def seq_def bind_def)
        moreover have "e = Other (CommandFails ''wg show interfaces'')"
          using q Inl running_errs unfolding errs_in_def by (metis fst_conv singletonD)
        ultimately show ?thesis using w3 w4 a3 running_works[of w3] q Inl by (intro unknown) auto
      next
        case q1: (Inr up)
        show ?thesis
        proof (cases "?n \<in> up")
          case False
          then have "(r, w') = (Inr (), w4)" using m p p1 q q1 by (simp add: m_def seq_def bind_def ret_def)
          moreover have "?n \<notin> dom (tunnels w3)"
            using q q1 False by (auto simp: running_def ask_tool_def run_Inr wg_effect_def step_io_def io_simps Let_def split: prod.splits if_splits)
          ultimately show ?thesis using w3 w4 by (intro applied) auto
        next
          case True
          obtain b w5 where b: "bring_in_line env old new w4 = (b, w5)" by (cases "bring_in_line env old new w4")
          have w5: "saved_over ?n (with_conf w new) (map_of (conf_dir w5))"
            using downs_saved[OF downs_save(3)[of new ?n], of w4 env old] b w3 w4 by simp
          show ?thesis
          proof (cases b)
            case (Inl e)
            then have "put_back env ?n prev w5 = (r, w')"
              using m p p1 q q1 True b w2 by (simp add: m_def seq_def bind_def catch_def)
            moreover have "all_work w \<Longrightarrow> all_work w5"
              using a3 keeps_world[OF works_steps(3), of w3] keeps_world[OF works_steps(4), of w4 env old new] q b by simp
            ultimately show ?thesis using w3 w4 w5 by (intro put_back[OF _ w5 pv(2)]) simp_all
          next
            case (Inr x)
            then have "(r, w') = (Inr (), w5)" using m p p1 q q1 True b by (simp add: m_def seq_def bind_def catch_def ret_def)
            then show ?thesis using w3 w4 w5 b \<open>b = Inr x\<close> by (intro applied) auto
          qed
        qed
      qed
    qed
  qed
qed

end
