(* ===== verification/WgMoves.thy ===== *)
theory WgMoves
  imports WgKeep
begin

text \<open>
  The abstract file store of the manager: the moves its operations make on the files, and that every
  operation, with all its failures, is a sequence of moves.
\<close>

section \<open>The moves\<close>

abbreviation files_of :: "wg_world \<Rightarrow> string \<Rightarrow> conf_file option" where
  "files_of w \<equiv> map_of (conf_dir w)"

definition port_of :: "(string \<Rightarrow> conf_file option) \<Rightarrow> string \<Rightarrow> nat option" where
  "port_of fm n = (case managed_at fm n of Inr (Some i) \<Rightarrow> listen_port i | _ \<Rightarrow> None)"

definition port_free :: "(string \<Rightarrow> conf_file option) \<Rightarrow> iface \<Rightarrow> bool" where
  "port_free fm i \<longleftrightarrow> listen_port i = None \<or> (\<forall>n. n \<noteq> iname i \<longrightarrow> port_of fm n \<noteq> listen_port i)"

text \<open>
  An interface is written over its own file or none, over any file for the names in \<open>A\<close> (an import that
  may overwrite); a file of the daemon may go; backups come and go; a file that asks for it is saved over. A port
  that changes is a free one.
\<close>

inductive conf_move :: "string set \<Rightarrow> (string \<Rightarrow> conf_file option) \<Rightarrow> (string \<Rightarrow> conf_file option) \<Rightarrow> bool" for A where
  store: "managed_at fm n = Inr old \<Longrightarrow> normalize i = Inr i \<Longrightarrow> readable n i \<Longrightarrow>
    port_free fm i \<or> (\<exists>j. old = Some j \<and> listen_port j = listen_port i) \<Longrightarrow> conf_move A fm (fm(conf_file_name n \<mapsto> Text (render i)))"
| take_over: "n \<in> A \<Longrightarrow> normalize i = Inr i \<Longrightarrow> readable n i \<Longrightarrow> port_free fm i \<Longrightarrow>
    conf_move A fm (fm(conf_file_name n \<mapsto> Text (render i)))"
| discard: "managed_at fm n = Inr (Some i) \<Longrightarrow> conf_move A fm (fm(conf_file_name n := None))"
| backup: "conf_move A fm (fm(backup_file_name n := x))"
| saved: "fm (conf_file_name n) = Some c \<Longrightarrow> asks_saving c \<Longrightarrow> conf_move A fm (fm(conf_file_name n \<mapsto> saved_file s))"

abbreviation moves :: "string set \<Rightarrow> (string \<Rightarrow> conf_file option) \<Rightarrow> (string \<Rightarrow> conf_file option) \<Rightarrow> bool" where
  "moves A \<equiv> (conf_move A)\<^sup>*\<^sup>*"

text \<open>\<open>at fm m Q\<close>: from the files \<open>fm\<close>, \<open>m\<close> makes moves, and satisfies \<open>Q\<close> where it succeeds.\<close>

definition from_files ::
  "string set \<Rightarrow> (string \<Rightarrow> conf_file option) \<Rightarrow> 'a wg_io \<Rightarrow> ('a \<Rightarrow> (string \<Rightarrow> conf_file option) \<Rightarrow> bool) \<Rightarrow> bool" where
  "from_files A fm m Q = triple (\<lambda>w. files_of w = fm) m (\<lambda>x w. moves A fm (files_of w) \<and> Q x (files_of w)) (\<lambda>w. moves A fm (files_of w))"

lemma from_files_bind:
  assumes "from_files A fm m Q" "\<And>x gm. moves A fm gm \<Longrightarrow> Q x gm \<Longrightarrow> from_files A gm (f x) R"
  shows "from_files A fm (bind m f) R"
  unfolding from_files_def
proof (rule triple_bind)
  show "triple (\<lambda>w. files_of w = fm) m (\<lambda>x w. moves A fm (files_of w) \<and> Q x (files_of w)) (\<lambda>w. moves A fm (files_of w))"
    using assms(1) by (simp add: from_files_def)
  fix x
  show "triple (\<lambda>w. moves A fm (files_of w) \<and> Q x (files_of w)) (f x) (\<lambda>y w. moves A fm (files_of w) \<and> R y (files_of w))
     (\<lambda>w. moves A fm (files_of w))"
    unfolding triple_def
  proof (intro allI impI)
    fix w assume w: "moves A fm (files_of w) \<and> Q x (files_of w)"
    with assms(2)[of "files_of w" x] have "from_files A (files_of w) (f x) R" by blast
    then have "case fst (f x w) of Inl e \<Rightarrow> moves A (files_of w) (files_of (snd (f x w)))
      | Inr y \<Rightarrow> moves A (files_of w) (files_of (snd (f x w))) \<and> R y (files_of (snd (f x w)))"
      by (simp add: from_files_def triple_def)
    with w show "case fst (f x w) of Inl _ \<Rightarrow> moves A fm (files_of (snd (f x w)))
      | Inr y \<Rightarrow> moves A fm (files_of (snd (f x w))) \<and> R y (files_of (snd (f x w)))"
      by (auto split: sum.splits intro: rtranclp_trans)
  qed
qed

lemma from_files_seq:
  "from_files A fm m (\<lambda>_. Q) \<Longrightarrow> (\<And>gm. moves A fm gm \<Longrightarrow> Q gm \<Longrightarrow> from_files A gm k R) \<Longrightarrow> from_files A fm (seq m k) R"
  unfolding seq_def by (rule from_files_bind[where Q = "\<lambda>_. Q"]) simp_all

text \<open>Steps that read: the files are the same, and the result has a property \<open>P\<close>.\<close>

lemma from_files_bind_same:
  "from_files A fm m (\<lambda>x gm. gm = fm \<and> P x) \<Longrightarrow> (\<And>x. P x \<Longrightarrow> from_files A fm (f x) R) \<Longrightarrow> from_files A fm (bind m f) R"
  by (rule from_files_bind[where Q = "\<lambda>x gm. gm = fm \<and> P x"]) auto

lemma from_files_seq_same:
  "from_files A fm m (\<lambda>_ gm. gm = fm \<and> P) \<Longrightarrow> (P \<Longrightarrow> from_files A fm k R) \<Longrightarrow> from_files A fm (seq m k) R"
  by (rule from_files_seq[where Q = "\<lambda>gm. gm = fm \<and> P"]) auto

lemma from_files_weaken: "from_files A fm m Q \<Longrightarrow> (\<And>x gm. moves A fm gm \<Longrightarrow> Q x gm \<Longrightarrow> R x gm) \<Longrightarrow> from_files A fm m R"
  unfolding from_files_def by (erule triple_conseq) auto

lemma from_files_moves: "from_files A fm m Q \<Longrightarrow> files_of w = fm \<Longrightarrow> moves A fm (files_of (snd (m w)))"
  unfolding from_files_def triple_def by (cases "fst (m w)") (auto split: sum.splits)

lemma from_files_reads: "frames conf_dir m \<Longrightarrow> from_files A fm m (\<lambda>_ gm. gm = fm)"
  unfolding from_files_def triple_def by (auto simp: frames_def split: sum.split)

lemma from_files_read_bind: "frames conf_dir m \<Longrightarrow> (\<And>x. from_files A fm (f x) R) \<Longrightarrow> from_files A fm (bind m f) R"
  by (rule from_files_bind[OF from_files_reads]) auto

lemma from_files_read_seq: "frames conf_dir m \<Longrightarrow> from_files A fm k R \<Longrightarrow> from_files A fm (seq m k) R"
  unfolding seq_def by (rule from_files_read_bind)

lemma from_files_pure:
  "Q x fm \<Longrightarrow> from_files A fm (ret x) Q" "from_files A fm (throw e) Q" "from_files A fm (asks h) (\<lambda>_ gm. gm = fm)"
  "from_files A fm (fail_if c e) (\<lambda>_ gm. gm = fm \<and> \<not> c)" "from_files A fm (lift_result r) (\<lambda>x gm. gm = fm \<and> r = Inr x)"
  by (auto simp: from_files_def triple_def io_defs split: sum.split)

lemma from_files_ask: "from_files A fm (asks (\<lambda>w. h (files_of w))) (\<lambda>x gm. gm = fm \<and> x = h fm)"
  by (simp add: from_files_def triple_def io_defs)

lemma from_files_catch: "from_files A fm m Q \<Longrightarrow> from_files A fm (catch m) (\<lambda>_ _. True)"
  using from_files_moves[of A fm m Q] by (simp add: from_files_def[of A fm "catch m"] triple_def catch_run)

lemma from_files_ignore: "from_files A fm m Q \<Longrightarrow> from_files A fm (ignore m) (\<lambda>_ _. True)"
  using from_files_moves[of A fm m Q] by (simp add: from_files_def[of A fm "ignore m"] triple_def pure_run)

lemma from_files_do_if: "(c \<Longrightarrow> from_files A fm m (\<lambda>_ _. True)) \<Longrightarrow> from_files A fm (do_if c m) (\<lambda>_ _. True)"
  by (simp add: do_if_def from_files_pure)

section \<open>The parts of the operations\<close>

lemma step_move: "conf_move A fm gm \<Longrightarrow> moves A fm gm"
  by (rule r_into_rtranclp)

lemma from_files_read_opt: "from_files A fm (read_managed_opt n) (\<lambda>r gm. gm = fm \<and> managed_at fm n = Inr r)"
  unfolding read_managed_opt_def
  by (rule from_files_bind[OF from_files_ask[of A fm "\<lambda>fm. managed_at fm n"]])
    (use from_files_pure(5) in \<open>auto elim: from_files_weaken\<close>)

lemma from_files_read: "from_files A fm (read_managed n) (\<lambda>i gm. gm = fm \<and> managed_at fm n = Inr (Some i))"
  unfolding read_managed_def
  by (rule from_files_bind[OF from_files_read_opt]) (auto intro: from_files_pure split: option.split)

lemma from_files_normal: "from_files A fm (normalized i) (\<lambda>j gm. gm = fm \<and> normalize i = Inr j)"
  unfolding normalized_def by (rule from_files_weaken[OF from_files_pure(5)]) simp

lemma port_of_Some: "port_of fm n = Some p \<longleftrightarrow> (\<exists>i. managed_at fm n = Inr (Some i) \<and> listen_port i = Some p)"
  by (auto simp: port_of_def split: sum.splits option.splits)

lemma port_clash_free: "port_clash fs i = None \<Longrightarrow> port_free (map_of fs) i"
  unfolding port_free_def
proof (cases "listen_port i")
  case (Some p)
  assume c: "port_clash fs i = None"
  have "port_of (map_of fs) n \<noteq> Some p" if n: "n \<noteq> iname i" for n
  proof
    assume "port_of (map_of fs) n = Some p"
    then obtain j where p: "managed_at (map_of fs) n = Inr (Some j)" "listen_port j = Some p" by (auto simp: port_of_Some)
    then have "n \<in> set (conf_names fs)" by (auto simp: conf_names_set managed_at_Some)
    with c p Some n show False by (auto simp: port_clash_def find_None_iff)
  qed
  with Some show "listen_port i = None \<or> (\<forall>n. n \<noteq> iname i \<longrightarrow> port_of (map_of fs) n \<noteq> listen_port i)" by simp
qed simp

lemma from_files_port: "from_files A fm (check_port i) (\<lambda>_ gm. gm = fm \<and> port_free fm i)"
  unfolding from_files_def triple_def
  by (auto simp: check_port_def io_simps port_clash_free split: option.split)

lemma from_files_put: "conf_move A fm (fm(f \<mapsto> c)) \<Longrightarrow> from_files A fm (put_conf f c) (\<lambda>_ gm. gm = fm(f \<mapsto> c))"
  by (auto simp: from_files_def triple_def conf_run update_conv' split: prod.split)

lemma from_files_drop: "conf_move A fm (fm(f := None)) \<Longrightarrow> from_files A fm (drop_conf f) (\<lambda>_ gm. gm = fm(f := None))"
  by (auto simp: from_files_def triple_def conf_run delete_conv' split: prod.split)

lemma saved_moves: "saved_over n fm gm \<Longrightarrow> moves A fm gm"
  by (auto simp: saved_over_def intro: step_move conf_move.saved)

lemma from_files_down: "from_files A fm (wg_down env n) (\<lambda>_ gm. saved_over n fm gm)"
  unfolding from_files_def triple_def
  using downs_saved[OF downs_save(1), of n] by (auto split: sum.split intro: saved_moves)

lemma saved_gone: "saved_over n fm gm \<Longrightarrow> gm(conf_file_name n := x) = fm(conf_file_name n := x)"
  by (auto simp: saved_over_def)

lemma from_files_down_drop:
  assumes "managed_at fm n = Inr (Some i)" "\<And>gm. from_files A gm k (\<lambda>_ _. True)"
  shows "from_files A fm (seq (wg_down env n) (seq (ignore (drop_conf (conf_file_name n))) k)) (\<lambda>_ _. True)"
proof -
  have d: "from_files A fm (seq (wg_down env n) (ignore (drop_conf (conf_file_name n)))) (\<lambda>_ _. True)"
    unfolding from_files_def seq_def
  proof (rule triple_bind)
    show "triple (\<lambda>w. files_of w = fm) (wg_down env n) (\<lambda>x w. saved_over n fm (files_of w)) (\<lambda>w. moves A fm (files_of w))"
      using from_files_down[of A fm env n] unfolding from_files_def by (rule triple_conseq) simp_all
    show "triple (\<lambda>w. saved_over n fm (files_of w)) (ignore (drop_conf (conf_file_name n))) (\<lambda>x w. moves A fm (files_of w) \<and> True)
        (\<lambda>w. moves A fm (files_of w))" for x :: unit
      unfolding triple_def
    proof (intro allI impI)
      fix w assume w: "saved_over n fm (files_of w)"
      let ?w = "snd (ignore (drop_conf (conf_file_name n)) w)"
      have "files_of ?w = files_of w \<or> files_of ?w = fm(conf_file_name n := None)"
        using saved_gone[OF w, of None] by (simp add: pure_run conf_run Let_def split_beta delete_conv')
      with saved_moves[OF w] step_move[OF conf_move.discard[OF assms(1)]] have "moves A fm (files_of ?w)" by metis
      then show "case fst (ignore (drop_conf (conf_file_name n)) w) of Inl _ \<Rightarrow> moves A fm (files_of ?w) | Inr x \<Rightarrow> moves A fm (files_of ?w) \<and> True"
        by (simp add: pure_run)
    qed
  qed
  have "seq (wg_down env n) (seq (ignore (drop_conf (conf_file_name n))) k) = seq (seq (wg_down env n) (ignore (drop_conf (conf_file_name n)))) k"
    by (auto simp: seq_def bind_def fun_eq_iff split: prod.split sum.split)
  with from_files_seq[OF d assms(2)] show ?thesis by simp
qed

text \<open>A change that could be applied is in the file, which does not ask to be saved over.\<close>

lemma sync_applied:
  assumes "write_and_sync env old new w = (Inr x, w')" "\<not> asks_saving (Text (render new))"
  shows "files_of w' = (files_of w)(conf_file_name (iname new) \<mapsto> Text (render new))"
proof (rule write_and_sync_cases[OF assms(1)])
  assume "saved_over (iname new) (with_conf w new) (files_of w')"
  with saved_over_same[OF this] assms(2) show ?thesis by (auto simp: with_conf_def)
next
  fix u prev assume "put_back env (iname new) prev u = (Inr x, w')"
  from put_back_run[OF this] show ?thesis by simp
qed (simp_all add: with_conf_def)

lemma from_files_sync:
  assumes "conf_move A fm (fm(conf_file_name (iname new) \<mapsto> Text (render new)))"
    and own: "managed_at (fm(conf_file_name (iname new) \<mapsto> Text (render new))) (iname new) = Inr (Some new)"
    and plain: "\<not> asks_saving (Text (render new))"
  shows "from_files A fm (write_and_sync env old new) (\<lambda>_ gm. gm = fm(conf_file_name (iname new) \<mapsto> Text (render new)))"
  unfolding from_files_def triple_def
proof (intro allI impI)
  fix w assume w: "files_of w = fm"
  let ?f = "conf_file_name (iname new)"
  let ?gm = "fm(?f \<mapsto> Text (render new))"
  have g: "with_conf w new = ?gm" by (simp add: with_conf_def w)
  obtain r w' where r: "write_and_sync env old new w = (r, w')" by (cases "write_and_sync env old new w")
  note gm = step_move[OF assms(1)]
  have same: "hm = ?gm" if "saved_over (iname new) ?gm hm" for hm
    using saved_over_same[OF that] plain by auto
  have gone: "moves A fm (fm(?f := None))"
    using rtranclp_trans[OF gm step_move[OF conf_move.discard[OF own]]] by simp
  have "moves A fm (files_of w')"
  proof (rule write_and_sync_cases[OF r])
    fix u prev
    assume p: "put_back env (iname new) prev u = (r, w')" "saved_over (iname new) (with_conf w new) (files_of u)"
      and prev: "prev = files_of w ?f \<or> prev = None \<and> \<not> all_work w"
    have u: "files_of u = ?gm" using p(2) same by (simp add: g)
    consider "saved_over (iname new) ?gm (files_of w')" | "saved_over (iname new) (fm(?f := prev)) (files_of w')"
      using put_back_run[OF p(1)] u by (auto split: if_splits)
    then show ?thesis
    proof cases
      case 1
      show ?thesis unfolding same[OF 1] by (rule gm)
    next
      case 2
      have "moves A fm (fm(?f := prev))" using prev gone by (auto simp: w)
      from rtranclp_trans[OF this saved_moves[OF 2]] show ?thesis .
    qed
  next
    assume "saved_over (iname new) (with_conf w new) (files_of w')"
    then have "files_of w' = ?gm" using same by (simp only: g)
    with gm show ?thesis by simp
  qed (use gm in \<open>simp_all add: g w\<close>)
  moreover have "files_of w' = ?gm" if "r = Inr x" for x
    using sync_applied[of env old new w x w'] r that plain w by simp
  ultimately show "case fst (write_and_sync env old new w) of Inl _ \<Rightarrow> moves A fm (files_of (snd (write_and_sync env old new w)))
    | Inr x \<Rightarrow> moves A fm (files_of (snd (write_and_sync env old new w))) \<and> files_of (snd (write_and_sync env old new w)) = ?gm"
    by (auto simp: r split: sum.split)
qed

section \<open>The operations make moves\<close>

lemma normalize_keeps: "normalize i = Inr j \<Longrightarrow> iname j = iname i \<and> listen_port j = listen_port i \<and> normalize j = Inr j"
  using normalize_fixed by (auto elim!: normalize_Inr)

lemma stored: "normalize i = Inr j \<Longrightarrow> readable n i \<Longrightarrow> managed_at (fm(conf_file_name n \<mapsto> Text (render j))) n = Inr (Some j)"
  by (rule managed_at_rendered[of i]) simp_all

lemma readable_peers: "readable n i \<Longrightarrow> list_all (\<lambda>p. keepalive p < 2 ^ 16) ps \<Longrightarrow> readable n (i\<lparr>peers := ps\<rparr>)"
  by (simp add: readable_def fits_u16_def clean_hooks_def)

lemma readable_keepalive: "readable n i \<Longrightarrow> list_all (\<lambda>p. keepalive p < 2 ^ 16) (peers i)"
  by (simp add: readable_def fits_u16_def)

lemma unat16: "unat (x :: 16 word) < 65536"
  using unsigned_less[of x] by simp

lemma from_files_modified:
  assumes "\<And>old. readable n old \<Longrightarrow> from_files A fm (edit old)
      (\<lambda>x gm. gm = fm \<and> readable n (fst x) \<and> listen_port (fst x) = listen_port old \<and> P old (fst x) (snd x))"
  shows "from_files A fm (modify_iface env n edit) (\<lambda>x gm. managed_at gm n = Inr (Some (fst x)) \<and>
     gm = fm(conf_file_name n \<mapsto> Text (render (fst x))) \<and>
     (\<exists>old new. managed_at fm n = Inr (Some old) \<and> P old new (snd x) \<and> normalize new = Inr (fst x)))"
  unfolding modify_iface_def
proof (rule from_files_read_seq[OF frames_reading(3)], rule from_files_bind_same[OF from_files_read])
  fix old assume old: "managed_at fm n = Inr (Some old)"
  show "from_files A fm (bind (edit old) (\<lambda>(new, out). bind (normalized new) (\<lambda>new. seq (write_and_sync env (Some old) new) (ret (new, out)))))
     (\<lambda>x gm. managed_at gm n = Inr (Some (fst x)) \<and> gm = fm(conf_file_name n \<mapsto> Text (render (fst x))) \<and>
       (\<exists>old new. managed_at fm n = Inr (Some old) \<and> P old new (snd x) \<and> normalize new = Inr (fst x)))"
  proof (rule from_files_bind_same[OF assms[OF managed_readable[OF old]]], case_tac x, simp only: prod.case, rule from_files_bind_same[OF from_files_normal])
    fix x new0 out new
    assume "readable n (fst (new0, out)) \<and> listen_port (fst (new0, out)) = listen_port old \<and> P old (fst (new0, out)) (snd (new0, out))"
      and new: "normalize new0 = Inr new"
    then have n: "readable n new0" "listen_port new0 = listen_port old" "normalize new0 = Inr new" and P: "P old new0 out" by simp_all
    note k = normalize_keeps[OF n(3)] read_back(2)[OF n(3,1)]
    have nm: "iname new = n" using k(2) by (simp add: readable_def)
    have "conf_move A fm (fm(conf_file_name n \<mapsto> Text (render new)))"
      using k n(2) by (intro conf_move.store[OF old]) auto
    from from_files_sync[of A fm new env "Some old"] this nm stored[OF n(3,1), of fm] rendered_save_not[OF n(3)]
    have sy: "from_files A fm (write_and_sync env (Some old) new) (\<lambda>_ gm. gm = fm(conf_file_name n \<mapsto> Text (render new)))" by simp
    show "from_files A fm (seq (write_and_sync env (Some old) new) (ret (new, out)))
      (\<lambda>x gm. managed_at gm n = Inr (Some (fst x)) \<and> gm = fm(conf_file_name n \<mapsto> Text (render (fst x))) \<and>
       (\<exists>old new. managed_at fm n = Inr (Some old) \<and> P old new (snd x) \<and> normalize new = Inr (fst x)))"
    proof (rule from_files_seq[OF sy], rule from_files_pure(1))
      fix gm assume "gm = fm(conf_file_name n \<mapsto> Text (render new))"
      with stored[OF n(3,1), of fm] old P n(3) show "managed_at gm n = Inr (Some (fst (new, out))) \<and>
        gm = fm(conf_file_name n \<mapsto> Text (render (fst (new, out)))) \<and>
        (\<exists>old new'. managed_at fm n = Inr (Some old) \<and> P old new' (snd (new, out)) \<and> normalize new' = Inr (fst (new, out)))"
        by (simp only: fst_conv snd_conv) blast
    qed
  qed
qed

lemma from_files_modify:
  assumes "\<And>old. readable n old \<Longrightarrow> from_files A fm (edit old)
      (\<lambda>x gm. gm = fm \<and> readable n (fst x) \<and> listen_port (fst x) = listen_port old)"
  shows "from_files A fm (modify_iface env n edit) (\<lambda>x gm. managed_at gm n = Inr (Some (fst x)))"
  by (rule from_files_weaken[OF from_files_modified[where P = "\<lambda>_ _ _. True"]]) (simp_all add: assms)

lemma frames_edit_add: "frames conf_dir (edit_add env a i)"
  unfolding edit_add_def peer_keys_def wanted_nets_def
  by (intro frame_rules frames_keys[OF blind_files(1)] frames_pubkey[OF blind_files(3)])

lemma from_files_edits:
  assumes "readable n old"
  shows "from_files A fm (edit_add env a old) (\<lambda>x gm. gm = fm \<and> readable n (fst x) \<and> listen_port (fst x) = listen_port old)"
    "from_files A fm (edit_update u old) (\<lambda>x gm. gm = fm \<and> readable n (fst x) \<and> listen_port (fst x) = listen_port old)"
    "from_files A fm (edit_remove p old) (\<lambda>x gm. gm = fm \<and> readable n (fst x) \<and> listen_port (fst x) = listen_port old)"
proof -
  note k = readable_keepalive[OF assms]
  show "from_files A fm (edit_add env a old) (\<lambda>x gm. gm = fm \<and> readable n (fst x) \<and> listen_port (fst x) = listen_port old)"
    unfolding edit_add_def
    by (intro from_files_read_bind from_files_pure frame_rules frames_keys[OF blind_files(1)] frames_reading)
      (use k in \<open>auto simp: peer_keys_def new_peer_def unat16 intro!: readable_peers assms frame_rules frames_keys[OF blind_files(1)]
         frames_pubkey[OF blind_files(3)]\<close>)
  show "from_files A fm (edit_update u old) (\<lambda>x gm. gm = fm \<and> readable n (fst x) \<and> listen_port (fst x) = listen_port old)"
    unfolding edit_update_def seq_def
    by (intro from_files_read_bind from_files_pure frame_rules frames_reading)
      (use k in \<open>auto simp: unat16 list_all_iff intro!: readable_peers assms dest!: subsetD[OF set_update_subset_insert]\<close>)
  show "from_files A fm (edit_remove p old) (\<lambda>x gm. gm = fm \<and> readable n (fst x) \<and> listen_port (fst x) = listen_port old)"
    unfolding edit_remove_def
    by (intro from_files_read_bind from_files_pure frame_rules frames_reading)
      (use k in \<open>auto simp: list_all_iff intro!: readable_peers assms dest!: in_set_takeD in_set_dropD\<close>)
qed

lemma from_files_then: "from_files A fm m (\<lambda>_ _. True) \<Longrightarrow> (\<And>gm. frames conf_dir k) \<Longrightarrow> from_files A fm (seq m k) (\<lambda>_ _. True)"
  by (rule from_files_seq[where Q = "\<lambda>_. True"]) (auto intro: from_files_weaken[OF from_files_reads])

lemma from_files_bind_view: "from_files A fm m Q \<Longrightarrow> (\<And>x. frames conf_dir (f x)) \<Longrightarrow> from_files A fm (bind m f) (\<lambda>_ _. True)"
  by (rule from_files_bind[where Q = Q]) (auto intro: from_files_weaken[OF from_files_reads])

lemma from_files_view: "frames conf_dir m \<Longrightarrow> from_files A fm m (\<lambda>_ _. True)"
  by (rule from_files_weaken[OF from_files_reads]) simp_all

lemmas file_views = frames_views[OF blind_files(3)]

lemma moves_peers:
  "from_files A fm (add_peer env a) (\<lambda>_ _. True)" "from_files A fm (update_peer env u) (\<lambda>_ _. True)"
  "from_files A fm (remove_peer env n p) (\<lambda>_ _. True)"
proof -
  show "from_files A fm (add_peer env a) (\<lambda>_ _. True)"
    unfolding add_peer_def split_beta
    by (rule from_files_read_bind[OF frames_reading(9)], rule from_files_bind_view[OF from_files_modify[OF from_files_edits(1)]], assumption)
      (intro frame_rules frames_pubkey[OF blind_files(3)] file_views)
  show "from_files A fm (update_peer env u) (\<lambda>_ _. True)"
    unfolding update_peer_def by (rule from_files_bind_view[OF from_files_modify[OF from_files_edits(2)]], assumption) (rule file_views)
  show "from_files A fm (remove_peer env n p) (\<lambda>_ _. True)"
    unfolding remove_peer_def by (rule from_files_bind_view[OF from_files_modify[OF from_files_edits(3)]], assumption) (rule file_views)
qed

lemma readable_input: "readable n i \<Longrightarrow> readable n (input_iface inp i)"
  using unat16 by (auto simp: input_iface_def readable_def fits_u16_def clean_hooks_def split: option.splits)

lemma from_files_base:
  "managed_at fm (in_name inp) = Inr existing \<Longrightarrow> from_files A fm (base_iface env inp existing) (\<lambda>i gm. gm = fm \<and> readable (in_name inp) i)"
  unfolding base_iface_def Let_def
  by (cases existing) (auto intro!: from_files_pure from_files_read_bind frame_rules frames_keys[OF blind_files(1)]
    dest!: managed_readable simp: readable_def fits_u16_def clean_hooks_def new_iface_def no_hooks_def all_hooks_def)

lemma moves_upsert: "from_files A fm (upsert_interface env inp) (\<lambda>_ _. True)"
  unfolding upsert_interface_def
proof (rule from_files_read_seq[OF frames_reading(3)], rule from_files_bind_same[OF from_files_read_opt],
    rule from_files_bind_same[OF from_files_base], assumption, rule from_files_bind_same[OF from_files_normal],
    rule from_files_seq_same[OF from_files_port])
  fix ex i new
  let ?n = "in_name inp"
  assume ex: "managed_at fm ?n = Inr ex" and i: "readable ?n i" and new: "normalize (input_iface inp i) = Inr new" and port: "port_free fm new"
  note r = readable_input[OF i, of inp]
  have nm: "iname new = ?n" using read_back(2)[OF new r] by (simp add: readable_def)
  let ?gm = "fm(conf_file_name ?n \<mapsto> Text (render new))"
  have "conf_move A fm ?gm"
    using normalize_keeps[OF new] read_back(2)[OF new r] port by (intro conf_move.store[OF ex]) auto
  then have sy: "from_files A fm (write_and_sync env ex new) (\<lambda>_ gm. gm = ?gm)"
    using from_files_sync[of A fm new env ex] stored[OF new r, of fm] rendered_save_not[OF new] by (simp add: nm)
  have dr: "conf_move A ?gm (?gm(conf_file_name ?n := None))" by (rule conf_move.discard[OF stored[OF new r]])
  show "from_files A fm (seq (write_and_sync env ex new) (seq (if ex \<noteq> None then ret () else
       bind (catch (wg_up env (iname new))) (\<lambda>r. case r of Inr _ \<Rightarrow> ret ()
       | Inl _ \<Rightarrow> seq (ignore (drop_conf (conf_file_name (iname new)))) (throw (Precondition (DidNotComeUp (iname new))))))
      (wg_overview env))) (\<lambda>_ _. True)"
  proof (rule from_files_seq[OF sy], simp only: nm, rule from_files_then)
    fix gm
    show "from_files A ?gm (if ex \<noteq> None then ret () else bind (catch (wg_up env ?n)) (\<lambda>r. case r of Inr _ \<Rightarrow> ret ()
       | Inl _ \<Rightarrow> seq (ignore (drop_conf (conf_file_name ?n))) (throw (Precondition (DidNotComeUp ?n))))) (\<lambda>_ _. True)"
    proof (cases "ex = None")
      case True
      have "from_files A ?gm (bind (catch (wg_up env ?n)) (\<lambda>r. case r of Inr _ \<Rightarrow> ret ()
         | Inl _ \<Rightarrow> seq (ignore (drop_conf (conf_file_name ?n))) (throw (Precondition (DidNotComeUp ?n))))) (\<lambda>_ _. True)"
      proof (rule from_files_read_bind[OF frames_catch[OF frames_tools(2)[OF blind_files(1)]]])
        fix r :: "wg_fail module_error + unit"
        show "from_files A ?gm (case r of Inr _ \<Rightarrow> ret ()
           | Inl _ \<Rightarrow> seq (ignore (drop_conf (conf_file_name ?n))) (throw (Precondition (DidNotComeUp ?n)))) (\<lambda>_ _. True)"
        proof (cases r)
          case (Inl e)
          show ?thesis unfolding Inl sum.case
            by (rule from_files_seq[OF from_files_ignore[OF from_files_drop[OF dr]]], rule from_files_pure(2))
        next
          case (Inr u)
          show ?thesis unfolding Inr sum.case by (rule from_files_pure(1)) (rule TrueI)
        qed
      qed
      with True show ?thesis by (simp only: simp_thms if_False)
    qed (simp add: from_files_pure)
  qed (rule file_views)
qed

lemma port_of_conf: "gm (conf_file_name n) = fm (conf_file_name n) \<Longrightarrow> port_of gm n = port_of fm n"
  by (simp add: port_of_def managed_at_def)

lemma port_free_backup: "port_free (fm(backup_file_name n := x)) i = port_free fm i"
proof -
  have "port_of (fm(backup_file_name n := x)) = port_of fm" by (rule ext, rule port_of_conf) simp
  then show ?thesis by (simp add: port_free_def)
qed

lemma from_files_back_up: "from_files A fm (back_up n c) (\<lambda>_ gm. gm = fm \<or> gm = fm(backup_file_name n \<mapsto> c))"
  by (auto simp: from_files_def triple_def back_up_def conf_run pure_run update_conv' split: prod.split intro: step_move conf_move.backup)

definition taken :: "wg_op \<Rightarrow> string set" where
  "taken op = (case op of Import inp \<Rightarrow> if overwrite inp then {trim (im_name inp)} else {} | _ \<Rightarrow> {})"

lemma moves_import: "from_files (taken (Import inp)) fm (import_conf env inp) (\<lambda>_ _. True)"
  unfolding import_conf_def Let_def
proof (rule from_files_read_seq[OF frames_reading(3)], rule from_files_seq_same[OF from_files_pure(4)], rule from_files_bind_same[OF from_files_pure(5)],
    rule from_files_seq_same[OF from_files_pure(4)], rule from_files_bind_same[OF from_files_normal], rule from_files_seq_same[OF from_files_port],
    rule from_files_bind_same[OF from_files_ask])
  let ?n = "trim (im_name inp)" and ?A = "taken (Import inp)"
  fix p new prev
  assume v: "\<not> \<not> valid_name ?n" and p: "map_err (\<lambda>e. Invalid (BadImport e)) (parse ?n (im_text inp)) = Inr p"
    and new: "normalize (p_iface p) = Inr new" and port: "port_free fm new" and prev: "prev = fm (conf_file_name ?n)"
  have r: "readable ?n (p_iface p)" using p by (simp add: parse_readable)
  note k = normalize_keeps[OF new] read_back(2)[OF new r]
  have nm: "iname new = ?n" using k(2) by (simp add: readable_def)
  show "from_files ?A fm (seq (case prev of None \<Rightarrow> ret ()
       | Some c \<Rightarrow> seq (fail_if (\<not> overwrite inp) (Precondition (NameTaken ?n))) (back_up ?n c))
    (seq (write_and_sync env None new) (seq (if \<not> im_start inp then ret () else
       bind (catch (wg_up env ?n)) (\<lambda>r. case r of Inr _ \<Rightarrow> ret () | Inl _ \<Rightarrow> throw (Precondition (DidNotComeUp ?n))))
    (bind (wg_overview env) (\<lambda>ov. ret \<lparr>im_overview = ov, im_iface = ?n, im_warnings = warnings p\<rparr>))))) (\<lambda>_ _. True)"
  proof (rule from_files_seq[where Q = "\<lambda>gm. conf_move ?A gm (gm(conf_file_name ?n \<mapsto> Text (render new)))"])
    show "from_files ?A fm (case prev of None \<Rightarrow> ret ()
       | Some c \<Rightarrow> seq (fail_if (\<not> overwrite inp) (Precondition (NameTaken ?n))) (back_up ?n c))
      (\<lambda>_ gm. conf_move ?A gm (gm(conf_file_name ?n \<mapsto> Text (render new))))"
    proof (cases prev)
      case None
      then have "managed_at fm ?n = Inr None" using v prev by (simp add: managed_at_def)
      then have "conf_move ?A fm (fm(conf_file_name ?n \<mapsto> Text (render new)))" using k port by (intro conf_move.store) auto
      then show ?thesis by (simp add: None from_files_pure)
    next
      case (Some c)
      show ?thesis unfolding Some option.case
      proof (rule from_files_seq_same[OF from_files_pure(4)], rule from_files_weaken[OF from_files_back_up])
        fix gm assume o: "\<not> \<not> overwrite inp" and gm: "gm = fm \<or> gm = fm(backup_file_name ?n \<mapsto> c)"
        have "port_free gm new" using gm port port_free_backup by auto
        then show "conf_move ?A gm (gm(conf_file_name ?n \<mapsto> Text (render new)))" using k o by (intro conf_move.take_over) (auto simp: taken_def)
      qed
    qed
  next
    fix gm assume "conf_move ?A gm (gm(conf_file_name ?n \<mapsto> Text (render new)))"
    then have "from_files ?A gm (write_and_sync env None new) (\<lambda>_ _. True)"
      using from_files_sync[of ?A gm new env None] stored[OF new r, of gm] rendered_save_not[OF new] by (auto simp: nm elim: from_files_weaken)
    then show "from_files ?A gm (seq (write_and_sync env None new) (seq (if \<not> im_start inp then ret () else
       bind (catch (wg_up env ?n)) (\<lambda>r. case r of Inr _ \<Rightarrow> ret () | Inl _ \<Rightarrow> throw (Precondition (DidNotComeUp ?n))))
      (bind (wg_overview env) (\<lambda>ov. ret \<lparr>im_overview = ov, im_iface = ?n, im_warnings = warnings p\<rparr>)))) (\<lambda>_ _. True)"
      by (rule from_files_then) (intro frame_rules frames_tools[OF blind_files(1)] file_views)
  qed
qed

lemma moves_remove: "from_files A fm (remove_interface env n) (\<lambda>_ _. True)"
  unfolding remove_interface_def
proof (rule from_files_bind_same[OF from_files_read], rule from_files_down_drop)
  show "from_files A gm (wg_overview env) (\<lambda>_ _. True)" for gm by (rule from_files_view[OF file_views(7)])
qed

lemma from_files_managed:
  assumes "\<And>fm n i. managed_at fm n = Inr (Some i) \<Longrightarrow> from_files A fm (f n) (\<lambda>_ _. True)"
  shows "from_files A fm (each_managed f ns) (\<lambda>_ _. True)"
proof (induction ns arbitrary: fm)
  case (Cons n ns)
  show ?case unfolding each_managed.simps
  proof (rule from_files_bind_same[OF from_files_ask[of A fm "\<lambda>fm. managed_at fm n"]], rule from_files_seq[where Q = "\<lambda>_. True"])
    fix r assume "r = managed_at fm n"
    then show "from_files A fm (case r of Inr (Some _) \<Rightarrow> f n | _ \<Rightarrow> ret ()) (\<lambda>_ _. True)"
      by (auto intro!: from_files_pure assms split: sum.split option.split)
  qed (rule Cons)
qed (simp add: from_files_pure)

lemma moves_install: "from_files A fm (install_wg env b) (\<lambda>_ _. True)" "from_files A fm (uninstall_wg env purge) (\<lambda>_ _. True)"
proof -
  show "from_files A fm (install_wg env b) (\<lambda>_ _. True)"
    unfolding install_wg_def by (rule from_files_view) (intro frame_rules frames_wg_effect[OF blind_files(3)] file_views; simp)
  have d: "from_files A fm (seq (ignore (drop_conf (conf_file_name n))) (ignore (drop_conf (backup_file_name n)))) (\<lambda>_ _. True)"
    if "managed_at fm n = Inr (Some i)" for fm n i
    by (rule from_files_seq[OF from_files_ignore[OF from_files_drop[OF conf_move.discard[OF that]]]], rule from_files_ignore[OF from_files_drop],
        rule conf_move.backup)
  have t: "from_files A fm (ignore (wg_down env n)) (\<lambda>_ _. True)" for fm n
    by (rule from_files_ignore[OF from_files_down])
  have e: "frames conf_dir (wg_effect c f)" if "\<And>w. conf_dir (f w) = conf_dir w" for c f
    using that by (rule frames_wg_effect[OF blind_files(3)])
  show "from_files A fm (uninstall_wg env purge) (\<lambda>_ _. True)"
    unfolding uninstall_wg_def
    by (rule from_files_read_seq[OF frames_reading(3)], rule from_files_read_bind, rule frames_pure, rule from_files_seq[where Q = "\<lambda>_. True"],
        rule from_files_managed, rule t, rule from_files_read_seq, rule e, simp, rule from_files_do_if, rule from_files_read_bind, rule frames_pure,
        rule from_files_then, rule from_files_managed, rule d, assumption) (intro frame_rules e, simp)
qed

lemma moves_run: "from_files A (files_of w) m (\<lambda>_ _. True) \<Longrightarrow> moves A (files_of w) (files_of (snd (m w)))"
  by (rule from_files_moves) simp_all

theorem operations_are_moves: "moves (taken op) (files_of w) (files_of (wg_run env op w))"
proof -
  have v: "from_files A fm (wg_overview env) (\<lambda>_ _. True)" "from_files A fm (interface_config n) (\<lambda>_ _. True)"
    "from_files A fm (peer_config env n p c) (\<lambda>_ _. True)" for A fm n p c
    unfolding interface_config_def peer_config_def
    by (rule from_files_view, intro frame_rules file_views frames_reading frames_pubkey[OF blind_files(3)])+
  have u: "from_files A fm (set_state env n up) (\<lambda>_ _. True)" for A fm n up
    unfolding set_state_def
    by (rule from_files_read_seq[OF frames_reading(3)], rule from_files_read_seq[OF frames_reading(6)], rule from_files_then)
      (auto intro!: file_views(7) from_files_view[OF frames_tools(2)[OF blind_files(1)]] from_files_weaken[OF from_files_down])
  show ?thesis
    by (cases op) (simp_all only: wg_run.simps moves_run v u moves_install moves_upsert moves_remove moves_import moves_peers)
qed

end
