(* ===== verification/WgTunnels.thy ===== *)
theory WgTunnels
  imports WgMoves
begin

text \<open>
  Running tunnels and their files: what is in line before an operation is in line after it, unless
  the operation says that it could not find out, or that it had to put a file back.
\<close>

section \<open>A tunnel that is in line with its file\<close>

text \<open>What \<open>wg-quick\<close> sets up by itself, and \<open>wg syncconf\<close> does not touch.\<close>

definition quick_part :: "iface \<Rightarrow> string list \<times> nat option \<times> string list \<times> string \<times> string \<times> hooks \<times> bool \<times> string set" where
  "quick_part i = (addresses i, mtu i, dns i, table i, fwmark i, ihooks i, masquerade i, extra_routes i)"

lemma needs_rebuild_iff: "needs_rebuild i j \<longleftrightarrow> quick_part i \<noteq> quick_part j"
  by (auto simp: needs_rebuild_def quick_part_def)

text \<open>
  \<open>wg\<close> was last told what the file says now, and \<open>wg-quick\<close> would set up what it set up then.
\<close>

definition line_of :: "wg_env \<Rightarrow> (string \<Rightarrow> conf_file option) \<Rightarrow> string \<Rightarrow> tunnel \<Rightarrow> bool" where
  "line_of env fm n t = (case managed_at fm n of
     Inr (Some i) \<Rightarrow> (case parse n (built_from t) of Inr b \<Rightarrow> quick_part (p_iface b) = quick_part i | Inl _ \<Rightarrow> False)
       \<and> (case fm (conf_file_name n) of Some (Text c) \<Rightarrow> strip_of env c = Some (loaded t) | _ \<Rightarrow> False)
   | _ \<Rightarrow> True)"

definition in_line :: "wg_env \<Rightarrow> wg_world \<Rightarrow> string \<Rightarrow> bool" where
  "in_line env w n = (case tunnels w n of None \<Rightarrow> True | Some t \<Rightarrow> line_of env (files_of w) n t)"

definition aligned :: "wg_env \<Rightarrow> string \<Rightarrow> (string \<Rightarrow> conf_file option) \<Rightarrow> wg_world \<Rightarrow> bool" where
  "aligned env n fm w \<longleftrightarrow> files_of w = fm \<and> in_line env w n"

lemma line_cong: "fm (conf_file_name n) = gm (conf_file_name n) \<Longrightarrow> line_of env fm n t = line_of env gm n t"
  unfolding line_of_def managed_at_def by (simp only:)

lemma line_fresh:
  "fm (conf_file_name n) = Some (Text c) \<Longrightarrow> strip_of env c = Some s \<Longrightarrow> line_of env fm n \<lparr>built_from = c, loaded = s\<rparr>"
  by (auto simp: line_of_def managed_at_Some split: sum.split option.split)

section \<open>Building tunnels keeps them in line\<close>

lemma fresh_line: "fresh env (conf_text w) n (Some t) \<Longrightarrow> line_of env (files_of w) n t"
  by (auto simp: fresh_def conf_text_def intro!: line_fresh split: option.splits conf_file.splits)

lemma documented_parts:
  assumes "documented env"
  shows "f \<in> set (builders env) \<Longrightarrow> settles env f" "builds env (quick_up env)" "builds env (unit_restart env)" "loads (sync_with env s) s"
  using assms by (auto simp: documented_def list_all_iff)

lemma aligned_outs: "aligned env n fm (w\<lparr>wg_outs := x\<rparr>) = aligned env n fm w"
  by (auto simp: aligned_def in_line_def split: option.splits)

lemma call_settles:
  assumes "settles env f" "tool_call f m w = (ok, u)"
  shows "n \<noteq> m \<Longrightarrow> tunnels u n = tunnels w n" "tunnels u m = None \<or> tunnels u m = tunnels w m \<or> fresh env (conf_text w) m (tunnels u m)"
  using assms(1)[unfolded settles_def, THEN spec[where x = m], THEN spec[where x = "conf_text w"], THEN spec[where x = "tunnels w"],
      THEN spec[where x = "unit_words w"]] assms(2)
  by (auto simp: tool_call_def split: prod.splits)

lemma call_aligned:
  assumes "settles env f" "aligned env n fm w" shows "aligned env n fm (snd (tool_call f m w))"
proof -
  obtain ok u where c: "tool_call f m w = (ok, u)" by (cases "tool_call f m w")
  then have d: "conf_dir u = conf_dir w" using tool_call_files[of f m w] by simp
  have "in_line env u n"
  proof (cases "n = m")
    case True
    have "line_of env (files_of w) m t" if "tunnels u m = Some t" for t
      using call_settles(2)[OF assms(1) c] that assms(2) fresh_line True
      by (auto simp: aligned_def in_line_def split: option.splits)
    with d True show ?thesis by (auto simp: in_line_def split: option.split)
  next
    case False
    from call_settles(1)[OF assms(1) c False] assms(2) d show ?thesis by (auto simp: aligned_def in_line_def split: option.splits)
  qed
  with assms(2) c d show ?thesis by (simp add: aligned_def)
qed

lemma keeps_command: "settles env f \<Longrightarrow> keeps (aligned env n fm) (tool_command c f m) (\<lambda>_. True)"
  unfolding tool_command_def
  by (rule keeps_seq[OF keeps_effect]) (auto simp: aligned_outs keeps_def tool_run_def split_beta dest: call_aligned)

text \<open>A file that was saved over is no longer the daemon's: nothing is said about its tunnel.\<close>

lemma line_saved: "saved_over m fm gm \<Longrightarrow> line_of env fm n t \<Longrightarrow> line_of env gm n t"
proof (cases "n = m")
  case True
  assume "saved_over m fm gm" "line_of env fm n t"
  with True show ?thesis using saved_not_managed[of fm n] by (auto simp: saved_over_def line_of_def split: sum.split option.split)
next
  case False
  assume s: "saved_over m fm gm" and l: "line_of env fm n t"
  from line_cong[of gm n fm] saved_over_other[OF s, of "conf_file_name n"] False have "line_of env gm n = line_of env fm n" by auto
  with l show ?thesis by simp
qed

lemma saving_line: "in_line env w n \<Longrightarrow> in_line env (saving env m w) n"
  using line_saved[OF saving_files[of m w env]] by (auto simp: in_line_def split: option.split)

lemma keeps_line: "(\<And>fm. keeps (aligned env n fm) m (\<lambda>_. True)) \<Longrightarrow> keeps (\<lambda>w. in_line env w n) m (\<lambda>_. True)"
proof -
  assume k: "\<And>fm. keeps (aligned env n fm) m (\<lambda>_. True)"
  have "in_line env (snd (m w)) n" if "in_line env w n" for w
    using keeps_world[OF k[of "files_of w"], of w] that by (simp add: aligned_def)
  then show ?thesis by (intro keepsI) (metis snd_conv)+
qed

lemma keeps_line_down: "settles env f \<Longrightarrow> keeps (\<lambda>w. in_line env w n) (down_command env c f m) (\<lambda>_. True)"
  unfolding down_command_def
proof (intro keeps_any_seq keeps_effect)
  show "keeps (\<lambda>w. in_line env w n) (modify (saving env m)) (\<lambda>_. True)"
    using saving_line by (auto simp: keeps_def modify_def)
  assume "settles env f"
  then show "keeps (\<lambda>w. in_line env w n) (tool_run c f m) (\<lambda>_. True)"
    by (intro keeps_line) (auto simp: keeps_def tool_run_def split_beta dest: call_aligned)
qed (auto simp: in_line_def split: option.split)

lemma keeps_quiet: "frames (\<lambda>w. (conf_dir w, tunnels w)) m \<Longrightarrow> keeps (aligned env n fm) m (\<lambda>_. True)"
  using keeps_frame[of "\<lambda>w. (conf_dir w, tunnels w)" m
      "\<lambda>(d, ts). map_of d = fm \<and> (case ts n of None \<Rightarrow> True | Some t \<Rightarrow> line_of env (map_of d) n t)"]
  by (simp add: aligned_def[abs_def] in_line_def)

lemma quiet_both: "quiet (\<lambda>w. (conf_dir w, tunnels w))"
  by (simp add: quiet_def)

lemma running_aligned: "keeps (aligned env n fm) running (\<lambda>_. True)"
  by (rule keeps_quiet[OF frames_running[OF quiet_both]])

lemma tools_aligned:
  assumes d: "documented env" shows "keeps (aligned env n fm) (wg_up env m) (\<lambda>_. True)"
proof -
  let ?P = "aligned env n fm"
  have c: "f \<in> set (builders env) \<Longrightarrow> keeps ?P (tool_command c f m) (\<lambda>_. True)" for c f
    by (rule keeps_command[OF documented_parts(1)[OF d]])
  have o: "keeps ?P (or_else d (ask_tool c h)) (\<lambda>_. True)" for d c and h :: "wg_world \<Rightarrow> string"
    by (rule keeps_quiet[OF frames_or_else[OF frames_ask[OF quiet_both]]])
  show ?thesis
    unfolding wg_up_def by (intro keeps_if keeps_sum keeps_any_rules c running_aligned o) (simp_all add: builders_def)
qed

lemma downs_in_line:
  assumes d: "documented env"
  shows "keeps (\<lambda>w. in_line env w n) (wg_down env m) (\<lambda>_. True)" "keeps (\<lambda>w. in_line env w n) (wg_restart env m) (\<lambda>_. True)"
proof -
  let ?P = "\<lambda>w. in_line env w n"
  have u: "keeps ?P (tool_command c (quick_up env) m) (\<lambda>_. True)" for c
    by (rule keeps_line[OF keeps_command[OF documented_parts(1)[OF d]]]) (simp add: builders_def)
  have c: "f \<in> set (builders env) \<Longrightarrow> keeps ?P (down_command env c f m) (\<lambda>_. True)" for c f
    by (rule keeps_line_down[OF documented_parts(1)[OF d]])
  have r: "keeps ?P running (\<lambda>_. True)" by (rule keeps_line[OF running_aligned])
  show "keeps ?P (wg_down env m) (\<lambda>_. True)"
    unfolding wg_down_def by (intro keeps_any_rules c r) (simp_all add: builders_def)
  show "keeps ?P (wg_restart env m) (\<lambda>_. True)"
    unfolding wg_restart_def by_hand_def by (intro keeps_if keeps_sum keeps_any_rules c r u) (simp_all add: builders_def)
qed

section \<open>Applying a change\<close>

lemma tool_run_Inr: "tool_run c f n w = (Inr u, w') \<longleftrightarrow> tool_call f n w = (True, w')"
  by (auto simp: tool_run_def split: prod.splits if_splits)

lemma tool_command_Inr: "tool_command c f n w = (Inr u, w') \<longleftrightarrow>
    fst (next_outcome (wg_outs w)) \<and> tool_call f n (w\<lparr>wg_outs := snd (next_outcome (wg_outs w))\<rparr>) = (True, w')"
  by (auto simp: tool_command_def tool_run_Inr seq_def bind_def wg_effect_def step_io_def Let_def split: prod.splits if_splits)

lemma catch_bind: "bind (catch m) f w = f (fst (m w)) (snd (m w))"
  by (simp add: bind_def catch_def split: prod.split)

lemma call_builds:
  assumes "tool_call f n v = (True, w')" "builds env f" shows "in_line env w' n"
proof -
  from assms have "fresh env (conf_text v) n (tunnels w' n)" by (fastforce simp: builds_def tool_call_def split: prod.splits)
  then have "fresh env (conf_text w') n (tunnels w' n)"
    using tool_call_files[of f n v] assms(1) by (simp add: conf_text_def[abs_def])
  with fresh_line[of env w' n] show ?thesis by (auto simp: in_line_def split: option.split)
qed

lemma command_builds: "tool_command c f n w = (Inr u, w') \<Longrightarrow> builds env f \<Longrightarrow> in_line env w' n"
  by (auto simp: tool_command_Inr intro: call_builds)

lemma down_builds: "down_command env c f n w = (Inr u, w') \<Longrightarrow> builds env f \<Longrightarrow> in_line env w' n"
  by (auto simp: down_command_def seq_Inr tool_run_Inr intro: call_builds)

text \<open>A rebuilt tunnel is in line, whatever was there before.\<close>

lemma by_hand_aligned: "by_hand env n v = (Inr u, w') \<Longrightarrow> documented env \<Longrightarrow> in_line env w' n"
  by (auto simp: by_hand_def bind_Inr seq_Inr intro: command_builds documented_parts(2))

lemma restart_aligned:
  assumes "wg_restart env n w = (Inr u, w')" "documented env" shows "in_line env w' n"
proof (cases "systemd env")
  case True
  obtain x v where c: "down_command env ''systemctl restart'' (unit_restart env) n w = (x, v)"
    by (cases "down_command env ''systemctl restart'' (unit_restart env) n w")
  show ?thesis
  proof (cases x)
    case (Inl e)
    then have "by_hand env n v = (Inr u, w')" using assms(1) True c by (simp add: wg_restart_def catch_bind)
    with assms(2) show ?thesis by (rule by_hand_aligned[rotated])
  next
    case (Inr y)
    then have "w' = v" using assms(1) True c by (simp add: wg_restart_def catch_bind ret_def)
    with down_builds[OF _ documented_parts(3)[OF assms(2)]] c Inr show ?thesis by simp
  qed
next
  case False
  with assms show ?thesis by (auto simp: wg_restart_def intro: by_hand_aligned)
qed

lemma strip_text_Inr: "strip_text env f w = (Inr s, w') \<Longrightarrow> conf_dir w' = conf_dir w \<and> tunnels w' = tunnels w
    \<and> (\<exists>c. f (w\<lparr>wg_outs := wg_outs w'\<rparr>) = Some c \<and> strip_of env c = Some s)"
  by (auto simp: strip_text_def ask_tool_def run_Inr wg_effect_def step_io_def Let_def bind_eq_Some_conv split: prod.splits if_splits option.splits)

lemma call_loads:
  assumes "loads f s" "tool_call f n w = (ok, u)"
  shows "m \<noteq> n \<Longrightarrow> tunnels u m = tunnels w m" "ok \<Longrightarrow> \<exists>t. tunnels w n = Some t \<and> tunnels u n = Some (t\<lparr>loaded := s\<rparr>)" "conf_dir u = conf_dir w"
  using assms(1)[unfolded loads_def, THEN spec[where x = n], THEN spec[where x = "conf_text w"], THEN spec[where x = "tunnels w"],
      THEN spec[where x = "unit_words w"]] assms(2)
  by (auto simp: tool_call_def split: prod.splits)

text \<open>After a successful change of \<open>n\<close> the tunnel is in line when it was before, or is rebuilt.\<close>

lemma bring_in_line_aligned:
  assumes r: "bring_in_line env old new u = (Inr x, w')" and d: "documented env" and g: "files_of u = gm" "gm (conf_file_name (iname new)) = Some (Text (render new))"
    and m: "managed_at gm (iname new) = Inr (Some new)"
    and old: "\<And>p. old = Some p \<Longrightarrow> managed_at fm (iname new) = Inr (Some p)"
    and line: "\<And>t. tunnels u (iname new) = Some t \<Longrightarrow> line_of env fm (iname new) t"
  shows "in_line env w' (iname new)"
proof (cases "case old of None \<Rightarrow> True | Some p \<Rightarrow> needs_rebuild p new")
  case True
  then have "wg_restart env (iname new) u = (Inr x, w')" using r by (simp add: bring_in_line_def Let_def)
  from restart_aligned[OF this d] show ?thesis .
next
  case False
  then obtain p where p: "old = Some p" "quick_part p = quick_part new" by (auto simp: needs_rebuild_iff split: option.splits)
  from r False obtain s v where s: "strip_text env (\<lambda>w. conf_text w (iname new)) u = (Inr s, v)" "syncconf env (iname new) s v = (Inr x, w')"
    by (auto simp: bring_in_line_def Let_def bind_Inr)
  from strip_text_Inr[OF s(1)] g obtain v1: "conf_dir v = conf_dir u" "tunnels v = tunnels u" "strip_of env (render new) = Some s"
    by (auto simp: conf_text_def)
  from s(2) have k: "tool_call (sync_with env s) (iname new) (v\<lparr>wg_outs := snd (next_outcome (wg_outs v))\<rparr>) = (True, w')"
    by (simp add: syncconf_def tool_command_Inr)
  note l = call_loads[OF documented_parts(4)[OF d] k]
  from l(2,3) v1 g obtain t where t: "tunnels u (iname new) = Some t" "tunnels w' (iname new) = Some (t\<lparr>loaded := s\<rparr>)" "files_of w' = gm"
    by auto
  from line[OF t(1)] old[OF p(1)] p(2) have "\<exists>b. parse (iname new) (built_from t) = Inr b \<and> quick_part (p_iface b) = quick_part new"
    by (auto simp: line_of_def split: sum.splits)
  then show ?thesis using t g m v1(3) by (auto simp: in_line_def line_of_def)
qed

section \<open>The operations\<close>

text \<open>Errors after which nothing is said about the tunnel.\<close>

definition unsure :: "wg_fail module_error set" where
  "unsure = {Other (CommandFails ''wg show interfaces''), Precondition NotApplied}"

definition lines_up ::
  "wg_env \<Rightarrow> string \<Rightarrow> (string \<Rightarrow> conf_file option) \<Rightarrow> 'a wg_io \<Rightarrow> ('a \<Rightarrow> (string \<Rightarrow> conf_file option) \<Rightarrow> bool) \<Rightarrow> bool" where
  "lines_up env n fm m Q \<longleftrightarrow> (\<forall>w. aligned env n fm w \<longrightarrow> (case m w of
     (Inl e, w1) \<Rightarrow> e \<in> unsure \<or> in_line env w1 n | (Inr x, w1) \<Rightarrow> in_line env w1 n \<and> Q x (files_of w1)))"

lemma lines_bind:
  assumes "lines_up env n fm m Q" "\<And>x gm. Q x gm \<Longrightarrow> lines_up env n gm (f x) R" shows "lines_up env n fm (bind m f) R"
  unfolding lines_up_def
proof (intro allI impI)
  fix w assume w: "aligned env n fm w"
  obtain r v where r: "m w = (r, v)" by (cases "m w")
  show "case bind m f w of (Inl e, w1) \<Rightarrow> e \<in> unsure \<or> in_line env w1 n | (Inr x, w1) \<Rightarrow> in_line env w1 n \<and> R x (files_of w1)"
  proof (cases r)
    case (Inl e)
    with assms(1) w r show ?thesis by (auto simp: lines_up_def bind_def split: prod.splits)
  next
    case (Inr x)
    with assms(1) w r have "in_line env v n" "Q x (files_of v)" by (auto simp: lines_up_def split: prod.splits)
    with assms(2)[of x "files_of v"] have "case f x v of (Inl e, w1) \<Rightarrow> e \<in> unsure \<or> in_line env w1 n
      | (Inr y, w1) \<Rightarrow> in_line env w1 n \<and> R y (files_of w1)" by (simp add: lines_up_def aligned_def)
    with r Inr show ?thesis by (simp add: bind_def)
  qed
qed

lemma lines_seq: "lines_up env n fm m (\<lambda>_. Q) \<Longrightarrow> (\<And>gm. Q gm \<Longrightarrow> lines_up env n gm k R) \<Longrightarrow> lines_up env n fm (seq m k) R"
  unfolding seq_def by (rule lines_bind[where Q = "\<lambda>_. Q"])

lemma lines_keep:
  assumes "keeps (aligned env n fm) m (\<lambda>_. True)" "from_files A fm m (\<lambda>x gm. gm = fm \<and> P x)"
  shows "lines_up env n fm m (\<lambda>x gm. gm = fm \<and> P x)"
  unfolding lines_up_def
proof (intro allI impI)
  fix w assume w: "aligned env n fm w"
  from assms(2) w have t: "case fst (m w) of Inl _ \<Rightarrow> True | Inr x \<Rightarrow> files_of (snd (m w)) = fm \<and> P x"
    by (auto simp: from_files_def triple_def aligned_def split: sum.split)
  from keeps_world[OF assms(1) w] have "in_line env (snd (m w)) n" by (simp add: aligned_def)
  with t show "case m w of (Inl e, w1) \<Rightarrow> e \<in> unsure \<or> in_line env w1 n | (Inr x, w1) \<Rightarrow> in_line env w1 n \<and> (files_of w1 = fm \<and> P x)"
    by (cases "m w") (auto split: sum.splits)
qed

lemma lines_keep_bind: "keeps (aligned env n fm) m (\<lambda>_. True) \<Longrightarrow> from_files A fm m (\<lambda>x gm. gm = fm \<and> P x) \<Longrightarrow>
    (\<And>x. P x \<Longrightarrow> lines_up env n fm (f x) R) \<Longrightarrow> lines_up env n fm (bind m f) R"
  by (rule lines_bind[where Q = "\<lambda>x gm. gm = fm \<and> P x"]) (auto intro: lines_keep)

lemma lines_keep_seq: "keeps (aligned env n fm) m (\<lambda>_. True) \<Longrightarrow> from_files A fm m (\<lambda>_ gm. gm = fm \<and> P) \<Longrightarrow>
    (P \<Longrightarrow> lines_up env n fm k R) \<Longrightarrow> lines_up env n fm (seq m k) R"
  unfolding seq_def by (rule lines_keep_bind)

lemma lines_line: "keeps (\<lambda>w. in_line env w n) m (\<lambda>_. True) \<Longrightarrow> lines_up env n fm m (\<lambda>_ _. True)"
  by (auto simp: lines_up_def aligned_def dest!: keeps_world split: prod.splits sum.splits)

lemma lines_end: "keeps (aligned env n fm) m (\<lambda>_. True) \<Longrightarrow> lines_up env n fm m (\<lambda>_ _. True)"
  by (auto simp: lines_up_def aligned_def dest!: keeps_world split: prod.splits sum.splits)

end
