(* ===== verification/WgFollow.thy ===== *)
theory WgFollow
  imports WgTunnels
begin

text \<open>Every operation of the manager keeps the tunnels in line, or says that it is not sure.\<close>

lemma lines_effect:
  assumes "\<And>w. in_line env w n \<Longrightarrow> in_line env (f w) n" "\<And>w. in_line env w n \<Longrightarrow> files_of w = fm \<Longrightarrow> Q (files_of (f w)) \<and> Q fm"
  shows "lines_up env n fm (ignore (wg_effect e f)) (\<lambda>_. Q)"
proof -
  have i: "in_line env (w\<lparr>wg_outs := x\<rparr>) n = in_line env w n" for w x by (auto simp: in_line_def split: option.split)
  show ?thesis
    unfolding lines_up_def aligned_def
    using assms i by (auto simp: ignore_def wg_effect_def step_io_def Let_def split: prod.splits)
qed

lemma in_line_files:
  "(\<And>t. tunnels w n = Some t \<Longrightarrow> line_of env (files_of w) n t) \<Longrightarrow> in_line env w n"
  "in_line env w n \<Longrightarrow> tunnels w n = Some t \<Longrightarrow> line_of env (files_of w) n t"
  by (auto simp: in_line_def split: option.split)

lemma line_dropped: "line_of env fm n t \<Longrightarrow> line_of env (fm(f := None)) n t"
proof (cases "f = conf_file_name n")
  case True
  then show ?thesis by (auto simp: line_of_def managed_at_def)
next
  case False
  assume "line_of env fm n t"
  then show ?thesis using line_cong[of "fm(f := None)" n fm] False by auto
qed

lemma lines_drop: "lines_up env n fm (ignore (drop_conf f)) (\<lambda>_ _. True)"
  unfolding drop_conf_def
proof (rule lines_effect)
  fix w assume "in_line env w n"
  then show "in_line env (w\<lparr>conf_dir := AList.delete f (conf_dir w)\<rparr>) n"
    using line_dropped by (auto simp: in_line_def delete_conv' split: option.splits)
qed simp

lemma lines_back_up: "lines_up env n fm (back_up m c) (\<lambda>_ gm. gm = fm \<or> gm = fm(backup_file_name m \<mapsto> c))"
  unfolding back_up_def put_conf_def
proof (rule lines_effect)
  fix w assume "in_line env w n"
  then show "in_line env (w\<lparr>conf_dir := AList.update (backup_file_name m) c (conf_dir w)\<rparr>) n"
    using line_cong[of "(files_of w)(backup_file_name m \<mapsto> c)" n "files_of w"] by (auto simp: in_line_def update_conv' split: option.splits)
qed (simp add: update_conv')

lemma frames_tunnel_sync:
  assumes d: "documented env" and n: "n \<noteq> iname new" shows "frames (\<lambda>w. tunnels w n) (write_and_sync env old new)"
proof -
  have s: "tunnels (snd (tool_call f (iname new) w)) n = tunnels w n" if "f \<in> called env" for f w
  proof -
    obtain ok u where c: "tool_call f (iname new) w = (ok, u)" by (cases "tool_call f (iname new) w")
    from that consider "f \<in> set (builders env)" | s where "f = sync_with env s" by (auto simp: called_def)
    then have "tunnels u n = tunnels w n"
      by cases (use call_settles(1)[OF documented_parts(1)[OF d] c n] call_loads(1)[OF documented_parts(4)[OF d]] c n in auto)
    with c show ?thesis by simp
  qed
  have b: "blind env (iname new) (\<lambda>w. tunnels w n)" using s by (simp add: blind_def)
  note q = blind_quiet[OF b]
  have c: "frames (\<lambda>w. tunnels w n) (put_conf f c)" "frames (\<lambda>w. tunnels w n) (drop_conf f)" for f c
    unfolding put_conf_def drop_conf_def by (rule frames_wg_effect[OF q]; simp)+
  show ?thesis
    unfolding write_and_sync_def Let_def bring_in_line_def put_back_def
    by (intro frame_rules frames_candidate[OF q] c frames_previous[OF q] frames_running[OF q] frames_tools[OF b] frames_downs[OF b] frames_strip[OF q]) simp_all
qed

lemma put_back_fails: "put_back env n prev u \<noteq> (Inr x, w')"
  by (simp add: put_back_def io_simps)

lemma lines_sync:
  assumes d: "documented env" and old: "\<And>p. old = Some p \<Longrightarrow> managed_at fm (iname new) = Inr (Some p)"
    and new: "managed_at (fm(conf_file_name (iname new) \<mapsto> Text (render new))) (iname new) = Inr (Some new)"
    and plain: "\<not> asks_saving (Text (render new))"
  shows "lines_up env n fm (write_and_sync env old new) (\<lambda>_ gm. gm = fm(conf_file_name (iname new) \<mapsto> Text (render new)))"
  unfolding lines_up_def
proof (intro allI impI)
  fix w assume w: "aligned env n fm w"
  then have fm: "files_of w = fm" by (simp add: aligned_def)
  let ?m = "iname new"
  let ?gm = "fm(conf_file_name ?m \<mapsto> Text (render new))"
  have g: "with_conf w new = ?gm" by (simp add: with_conf_def fm)
  obtain r w' where r: "write_and_sync env old new w = (r, w')" by (cases "write_and_sync env old new w")
  have ok: "files_of w' = ?gm" if "r = Inr x" for x
    using sync_applied[of env old new w x w'] r that plain fm by simp
  have line: "(\<exists>e. r = Inl e \<and> e \<in> unsure) \<or> in_line env w' n"
  proof (cases "n = ?m")
    case False
    have t: "tunnels w' n = tunnels w n" using framesD[OF frames_tunnel_sync[OF d False], of old w] r by simp
    have "files_of w' (conf_file_name n) = fm (conf_file_name n)"
    proof (rule write_and_sync_cases[OF r])
      assume "saved_over ?m (with_conf w new) (files_of w')"
      from saved_over_other[OF this, of "conf_file_name n"] False show ?thesis by (simp add: with_conf_def fm)
    next
      fix u prev assume p: "put_back env ?m prev u = (r, w')" "saved_over ?m (with_conf w new) (files_of u)"
      from saved_over_other[OF p(2), of "conf_file_name n"] False have "files_of u (conf_file_name n) = fm (conf_file_name n)"
        by (simp add: with_conf_def fm)
      with saved_over_other[OF conjunct2[OF put_back_run[OF p(1)]], of "conf_file_name n"] False show ?thesis by (simp split: if_splits)
    qed (use False in \<open>simp_all add: with_conf_def fm\<close>)
    then have "line_of env (files_of w') n = line_of env fm n" using line_cong by (intro ext) blast
    with w t have "in_line env w' n" by (auto simp: aligned_def in_line_def fm split: option.splits)
    then show ?thesis ..
  next
    case True
    show ?thesis
    proof (rule write_and_sync_cases[OF r])
      fix e assume "files_of w' = files_of w" "tunnels w' = tunnels w"
      with w show ?thesis by (auto simp: aligned_def in_line_def split: option.splits)
    next
      assume "r = Inr ()" and t: "tunnels w' ?m = None \<or> (\<exists>u. files_of u = with_conf w new \<and> tunnels u = tunnels w \<and> bring_in_line env old new u = (Inr (), w'))"
      from t have "in_line env w' ?m"
      proof
        assume "\<exists>u. files_of u = with_conf w new \<and> tunnels u = tunnels w \<and> bring_in_line env old new u = (Inr (), w')"
        then obtain u where u: "files_of u = ?gm" "tunnels u = tunnels w" "bring_in_line env old new u = (Inr (), w')" by (auto simp: g)
        show ?thesis
        proof (rule bring_in_line_aligned[OF u(3) d u(1) _ new old])
          fix t assume "tunnels u ?m = Some t"
          with w u(2) True show "line_of env fm ?m t" by (auto simp: aligned_def in_line_def split: option.splits)
        qed simp_all
      qed (simp add: in_line_def)
      with True show ?thesis by simp
    next
      fix u prev assume "put_back env ?m prev u = (r, w')"
      from put_back_run[OF this] show ?thesis by (auto simp: unsure_def)
    qed (auto simp: unsure_def)
  qed
  with ok show "case write_and_sync env old new w of (Inl e, w1) \<Rightarrow> e \<in> unsure \<or> in_line env w1 n
    | (Inr x, w1) \<Rightarrow> in_line env w1 n \<and> files_of w1 = ?gm"
    by (auto simp: r split: sum.split)
qed

section \<open>The operations\<close>

lemma keeps_reads:
  "keeps (aligned env n fm) (read_managed_opt m) (\<lambda>_. True)" "keeps (aligned env n fm) (read_managed m) (\<lambda>_. True)"
  "keeps (aligned env n fm) require_installed (\<lambda>_. True)" "keeps (aligned env n fm) (check_port i) (\<lambda>_. True)"
  "keeps (aligned env n fm) (normalized i) (\<lambda>_. True)" "keeps (aligned env n fm) (require_exists m) (\<lambda>_. True)"
  "keeps (aligned env n fm) (client_opts c) (\<lambda>_. True)" "keeps (aligned env n fm) (find_peer i q) (\<lambda>_. True)"
  "keeps (aligned env n fm) (wg_overview env) (\<lambda>_. True)" "keeps (aligned env n fm) (pubkey env k) (\<lambda>_. True)"
  "keeps (aligned env n fm) (primary_address env) (\<lambda>_. True)" "keeps (aligned env n fm) (genkey env) (\<lambda>_. True)"
  "keeps (aligned env n fm) (genpsk env) (\<lambda>_. True)"
proof -
  have "frames (\<lambda>w. (conf_dir w, tunnels w)) (genkey env)" "frames (\<lambda>w. (conf_dir w, tunnels w)) (genpsk env)"
    unfolding genkey_def genpsk_def by (intro frame_rules frames_wg_effect[OF quiet_both]; simp)+
  then show "keeps (aligned env n fm) (genkey env) (\<lambda>_. True)" "keeps (aligned env n fm) (genpsk env) (\<lambda>_. True)"
    by (simp_all add: keeps_quiet)
qed (rule keeps_quiet, rule frames_reading frames_views[OF quiet_both] frames_pubkey[OF quiet_both])+

lemma keeps_lifted: "keeps P (lift_result r) (\<lambda>_. True)" "keeps P (fail_if c e) (\<lambda>_. True)"
  by (rule keeps_any, rule keeps_pure)+

lemma keeps_edits:
  "keeps (aligned env n fm) (edit_add env a i) (\<lambda>_. True)" "keeps (aligned env n fm) (edit_update u i) (\<lambda>_. True)"
  "keeps (aligned env n fm) (edit_remove p i) (\<lambda>_. True)"
  unfolding edit_add_def edit_update_def edit_remove_def peer_keys_def wanted_nets_def
  by (intro keeps_if keeps_any_rules keeps_lifted keeps_reads)+

lemma lines_read_bind: "keeps (aligned env n fm) m (\<lambda>_. True) \<Longrightarrow> frames conf_dir m \<Longrightarrow> (\<And>x. lines_up env n fm (f x) R) \<Longrightarrow>
    lines_up env n fm (bind m f) R"
  by (rule lines_keep_bind[where P = "\<lambda>_. True" and A = "{}"]) (auto intro: from_files_weaken[OF from_files_reads])

lemma lines_read_seq: "keeps (aligned env n fm) m (\<lambda>_. True) \<Longrightarrow> frames conf_dir m \<Longrightarrow> lines_up env n fm k R \<Longrightarrow>
    lines_up env n fm (seq m k) R"
  unfolding seq_def by (rule lines_read_bind)

lemma lines_then: "lines_up env n fm m Q \<Longrightarrow> (\<And>gm x. keeps (aligned env n gm) (f x) (\<lambda>_. True)) \<Longrightarrow> lines_up env n fm (bind m f) (\<lambda>_ _. True)"
  by (rule lines_bind[where Q = Q]) (auto intro: lines_end)

lemma lines_seq_end: "lines_up env n fm m Q \<Longrightarrow> (\<And>gm. keeps (aligned env n gm) k (\<lambda>_. True)) \<Longrightarrow> lines_up env n fm (seq m k) (\<lambda>_ _. True)"
  unfolding seq_def by (rule lines_then)

lemma lines_modify:
  assumes d: "documented env" and e: "\<And>old. readable m old \<Longrightarrow> from_files {} fm (edit old)
      (\<lambda>x gm. gm = fm \<and> readable m (fst x) \<and> listen_port (fst x) = listen_port old)"
    and k: "\<And>old. keeps (aligned env n fm) (edit old) (\<lambda>_. True)"
  shows "lines_up env n fm (modify_iface env m edit) (\<lambda>_ _. True)"
  unfolding modify_iface_def
proof (rule lines_read_seq[OF keeps_reads(3) frames_reading(3)], rule lines_keep_bind[OF keeps_reads(2) from_files_read])
  fix old assume old: "managed_at fm m = Inr (Some old)"
  show "lines_up env n fm (bind (edit old) (\<lambda>(new, out). bind (normalized new) (\<lambda>new. seq (write_and_sync env (Some old) new) (ret (new, out)))))
     (\<lambda>_ _. True)"
  proof (rule lines_keep_bind[OF k e[OF managed_readable[OF old]]], clarsimp, rule lines_keep_bind[OF keeps_reads(5) from_files_normal])
    fix new0 out new assume i: "readable m new0" "normalize new0 = Inr new"
    have nm: "iname new = m" using read_back(2)[OF i(2,1)] by (simp add: readable_def)
    show "lines_up env n fm (seq (write_and_sync env (Some old) new) (ret (new, out))) (\<lambda>_ _. True)"
    proof (rule lines_seq[OF lines_sync[OF d]])
      show "managed_at (fm(conf_file_name (iname new) \<mapsto> Text (render new))) (iname new) = Inr (Some new)"
        unfolding nm by (rule stored[OF i(2,1)])
    qed (use old nm rendered_save_not[OF i(2)] in \<open>auto intro: lines_end keeps_any_pure\<close>)
  qed
qed

lemma lines_peers:
  assumes d: "documented env"
  shows "lines_up env n fm (add_peer env a) (\<lambda>_ _. True)" "lines_up env n fm (update_peer env u) (\<lambda>_ _. True)"
  "lines_up env n fm (remove_peer env m p) (\<lambda>_ _. True)"
proof -
  show "lines_up env n fm (add_peer env a) (\<lambda>_ _. True)"
    unfolding add_peer_def split_beta
    by (rule lines_read_bind[OF keeps_reads(7) frames_reading(9)], rule lines_then[OF lines_modify[OF d from_files_edits(1) keeps_edits(1)]], assumption)
      (intro keeps_option keeps_any_rules keeps_reads)
  show "lines_up env n fm (update_peer env u) (\<lambda>_ _. True)"
    unfolding update_peer_def by (rule lines_then[OF lines_modify[OF d from_files_edits(2) keeps_edits(2)]], assumption) (rule keeps_reads)
  show "lines_up env n fm (remove_peer env m p) (\<lambda>_ _. True)"
    unfolding remove_peer_def by (rule lines_then[OF lines_modify[OF d from_files_edits(3) keeps_edits(3)]], assumption) (rule keeps_reads)
qed

lemma keeps_base: "keeps (aligned env n fm) (base_iface env inp ex) (\<lambda>_. True)"
  unfolding base_iface_def Let_def by (intro keeps_option keeps_if keeps_any_rules keeps_reads)

lemma lines_upsert:
  assumes d: "documented env" shows "lines_up env n fm (upsert_interface env inp) (\<lambda>_ _. True)"
  unfolding upsert_interface_def
proof (rule lines_read_seq[OF keeps_reads(3) frames_reading(3)], rule lines_keep_bind[OF keeps_reads(1) from_files_read_opt],
    rule lines_keep_bind[OF keeps_base from_files_base], assumption, rule lines_keep_bind[OF keeps_reads(5) from_files_normal],
    rule lines_read_seq[OF keeps_reads(4) frames_reading(4)])
  fix ex i new
  let ?n = "in_name inp"
  assume ex: "managed_at fm ?n = Inr ex" and i: "readable ?n i" and new: "normalize (input_iface inp i) = Inr new"
  note r = readable_input[OF i, of inp]
  have nm: "iname new = ?n" using read_back(2)[OF new r] by (simp add: readable_def)
  show "lines_up env n fm (seq (write_and_sync env ex new) (seq (if ex \<noteq> None then ret () else
       bind (catch (wg_up env (iname new))) (\<lambda>r. case r of Inr _ \<Rightarrow> ret ()
       | Inl _ \<Rightarrow> seq (ignore (drop_conf (conf_file_name (iname new)))) (throw (Precondition (DidNotComeUp (iname new))))))
      (wg_overview env))) (\<lambda>_ _. True)"
  proof (rule lines_seq[OF lines_sync[OF d]])
    show "managed_at (fm(conf_file_name (iname new) \<mapsto> Text (render new))) (iname new) = Inr (Some new)"
      unfolding nm by (rule stored[OF new r])
    fix gm
    have "lines_up env n gm (if ex \<noteq> None then ret () else bind (catch (wg_up env (iname new))) (\<lambda>r. case r of Inr _ \<Rightarrow> ret ()
       | Inl _ \<Rightarrow> seq (ignore (drop_conf (conf_file_name (iname new)))) (throw (Precondition (DidNotComeUp (iname new)))))) (\<lambda>_ _. True)"
    proof (cases "ex = None")
      case True
      have "lines_up env n gm (bind (catch (wg_up env (iname new))) (\<lambda>r. case r of Inr _ \<Rightarrow> ret ()
         | Inl _ \<Rightarrow> seq (ignore (drop_conf (conf_file_name (iname new)))) (throw (Precondition (DidNotComeUp (iname new)))))) (\<lambda>_ _. True)"
      proof (rule lines_read_bind[OF keeps_any_catch[OF tools_aligned[OF d]] frames_catch[OF frames_tools(2)[OF blind_files(1)]]])
        fix r :: "wg_fail module_error + unit"
        show "lines_up env n gm (case r of Inr _ \<Rightarrow> ret ()
           | Inl _ \<Rightarrow> seq (ignore (drop_conf (conf_file_name (iname new)))) (throw (Precondition (DidNotComeUp (iname new))))) (\<lambda>_ _. True)"
        proof (cases r)
          case (Inl e)
          show ?thesis unfolding Inl sum.case by (rule lines_seq_end[OF lines_drop keeps_any_pure(2)])
        next
          case (Inr u)
          show ?thesis unfolding Inr sum.case by (rule lines_end[OF keeps_any_pure(1)])
        qed
      qed
      with True show ?thesis by (simp only: simp_thms if_False)
    qed (simp add: lines_end keeps_any_pure)
    then show "lines_up env n gm (seq (if ex \<noteq> None then ret () else bind (catch (wg_up env (iname new))) (\<lambda>r. case r of Inr _ \<Rightarrow> ret ()
       | Inl _ \<Rightarrow> seq (ignore (drop_conf (conf_file_name (iname new)))) (throw (Precondition (DidNotComeUp (iname new))))))
      (wg_overview env)) (\<lambda>_ _. True)"
      by (rule lines_seq_end) (rule keeps_reads)
  qed (use ex nm rendered_save_not[OF new] in simp_all)
qed

lemma lines_import:
  assumes d: "documented env" shows "lines_up env n fm (import_conf env inp) (\<lambda>_ _. True)"
  unfolding import_conf_def Let_def
proof (rule lines_read_seq[OF keeps_reads(3) frames_reading(3)], rule lines_read_seq[OF keeps_lifted(2) frames_pure(5)],
    rule lines_keep_bind[OF keeps_lifted(1) from_files_pure(5)], rule lines_read_seq[OF keeps_lifted(2) frames_pure(5)],
    rule lines_keep_bind[OF keeps_reads(5) from_files_normal], rule lines_read_seq[OF keeps_reads(4) frames_reading(4)],
    rule lines_read_bind[OF keeps_any_pure(3) frames_pure(3)])
  let ?n = "trim (im_name inp)"
  fix p new prev
  assume p: "map_err (\<lambda>e. Invalid (BadImport e)) (parse ?n (im_text inp)) = Inr p" and new: "normalize (p_iface p) = Inr new"
  have r: "readable ?n (p_iface p)" using p by (simp add: parse_readable)
  have nm: "iname new = ?n" using read_back(2)[OF new r] by (simp add: readable_def)
  have up: "keeps (aligned env n gm) (seq (if \<not> im_start inp then ret () else
       bind (catch (wg_up env ?n)) (\<lambda>r. case r of Inr _ \<Rightarrow> ret () | Inl _ \<Rightarrow> throw (Precondition (DidNotComeUp ?n))))
      (bind (wg_overview env) (\<lambda>ov. ret \<lparr>im_overview = ov, im_iface = ?n, im_warnings = warnings p\<rparr>))) (\<lambda>_. True)" for gm
    by (intro keeps_if keeps_sum keeps_any_rules tools_aligned[OF d] keeps_reads)
  show "lines_up env n fm (seq (case prev of None \<Rightarrow> ret ()
       | Some c \<Rightarrow> seq (fail_if (\<not> overwrite inp) (Precondition (NameTaken ?n))) (back_up ?n c))
    (seq (write_and_sync env None new) (seq (if \<not> im_start inp then ret () else
       bind (catch (wg_up env ?n)) (\<lambda>r. case r of Inr _ \<Rightarrow> ret () | Inl _ \<Rightarrow> throw (Precondition (DidNotComeUp ?n))))
    (bind (wg_overview env) (\<lambda>ov. ret \<lparr>im_overview = ov, im_iface = ?n, im_warnings = warnings p\<rparr>))))) (\<lambda>_ _. True)"
  proof (rule lines_seq[where Q = "\<lambda>_. True"])
    have b: "lines_up env n fm (seq (fail_if c e) (back_up ?n d)) (\<lambda>_ _. True)" for c e d
      by (rule lines_read_seq[OF keeps_lifted(2) frames_pure(5)]) (use lines_back_up[of env n fm ?n d] in \<open>auto simp: lines_up_def split: prod.splits sum.splits\<close>)
    show "lines_up env n fm (case prev of None \<Rightarrow> ret ()
       | Some c \<Rightarrow> seq (fail_if (\<not> overwrite inp) (Precondition (NameTaken ?n))) (back_up ?n c)) (\<lambda>_ _. True)"
      by (cases prev) (simp_all add: b lines_end keeps_any_pure)
    fix gm
    show "lines_up env n gm (seq (write_and_sync env None new) (seq (if \<not> im_start inp then ret () else
       bind (catch (wg_up env ?n)) (\<lambda>r. case r of Inr _ \<Rightarrow> ret () | Inl _ \<Rightarrow> throw (Precondition (DidNotComeUp ?n))))
      (bind (wg_overview env) (\<lambda>ov. ret \<lparr>im_overview = ov, im_iface = ?n, im_warnings = warnings p\<rparr>)))) (\<lambda>_ _. True)"
    proof (rule lines_seq_end[OF lines_sync[OF d] up])
      show "managed_at (gm(conf_file_name (iname new) \<mapsto> Text (render new))) (iname new) = Inr (Some new)"
        unfolding nm by (rule stored[OF new r])
    qed (use rendered_save_not[OF new] in simp_all)
  qed
qed

lemma lines_remove:
  assumes d: "documented env" shows "lines_up env n fm (remove_interface env m) (\<lambda>_ _. True)"
  unfolding remove_interface_def
  by (rule lines_read_bind[OF keeps_reads(2) frames_reading(2)], rule lines_seq[OF lines_line[OF downs_in_line(1)[OF d]]],
      rule lines_seq_end[OF lines_drop keeps_reads(9)])

lemma lines_each:
  assumes "\<And>fm m. lines_up env n fm (f m) (\<lambda>_ _. True)" shows "lines_up env n fm (each_managed f ns) (\<lambda>_ _. True)"
proof (induction ns arbitrary: fm)
  case (Cons m ns)
  show ?case unfolding each_managed.simps
  proof (rule lines_read_bind[OF keeps_any_pure(3) frames_pure(3)], rule lines_seq[where Q = "\<lambda>_. True"])
    fix r :: "wg_fail module_error + iface option"
    show "lines_up env n fm (case r of Inr (Some _) \<Rightarrow> f m | _ \<Rightarrow> ret ()) (\<lambda>_ _. True)"
      by (auto intro: assms lines_end keeps_any_pure split: sum.split option.split)
  qed (rule Cons)
qed (simp add: lines_end keeps_any_pure)

lemma lines_install:
  assumes d: "documented env" shows "lines_up env n fm (install_wg env b) (\<lambda>_ _. True)" "lines_up env n fm (uninstall_wg env purge) (\<lambda>_ _. True)"
proof -
  have e: "keeps (aligned env n fm) (wg_effect c (\<lambda>w. w\<lparr>tools_there := x\<rparr>)) (\<lambda>_. True)" "keeps (aligned env n fm) (wg_effect c (\<lambda>w. w)) (\<lambda>_. True)"
    "keeps (aligned env n fm) (wg_effect c (\<lambda>w. w\<lparr>work_dir := y\<rparr>)) (\<lambda>_. True)" for c x y fm
    by (rule keeps_quiet[OF frames_wg_effect[OF quiet_both]]; simp)+
  show "lines_up env n fm (install_wg env b) (\<lambda>_ _. True)"
    unfolding install_wg_def by (rule lines_end) (intro keeps_if keeps_any_rules keeps_lifted keeps_reads e)
  have dr: "lines_up env n fm (seq (ignore (drop_conf (conf_file_name m))) (ignore (drop_conf (backup_file_name m)))) (\<lambda>_ _. True)" for fm m
    by (rule lines_seq[OF lines_drop lines_drop])
  have t: "lines_up env n fm (ignore (wg_down env m)) (\<lambda>_ _. True)" for fm m
    by (rule lines_line) (intro keeps_any_rules downs_in_line[OF d])
  have p: "lines_up env n gm (do_if purge (bind (asks (\<lambda>w. conf_names (conf_dir w))) (\<lambda>ns.
      seq (each_managed (\<lambda>n. seq (ignore (drop_conf (conf_file_name n))) (ignore (drop_conf (backup_file_name n)))) ns)
        (ignore (wg_effect CannotWrite (\<lambda>w. w\<lparr>work_dir := []\<rparr>)))))) (\<lambda>_ _. True)" for gm
    unfolding do_if_def
    by (cases purge) (auto intro!: lines_end keeps_any_pure lines_read_bind[OF keeps_any_pure(3) frames_pure(3)] lines_seq_end[OF lines_each[OF dr]]
        keeps_any_ignore e)
  show "lines_up env n fm (uninstall_wg env purge) (\<lambda>_ _. True)"
    unfolding uninstall_wg_def
    by (rule lines_read_seq[OF keeps_reads(3) frames_reading(3)], rule lines_read_bind[OF keeps_any_pure(3) frames_pure(3)],
        rule lines_seq[OF lines_each[OF t]], rule lines_seq[OF lines_end[OF e(1)]], rule p)
qed

text \<open>The error an operation ends with.\<close>

definition err_of :: "('w, 'e, 'a) io \<Rightarrow> 'w \<Rightarrow> 'e option" where
  "err_of m w = (case fst (m w) of Inl e \<Rightarrow> Some e | Inr _ \<Rightarrow> None)"

fun op_error :: "wg_env \<Rightarrow> wg_op \<Rightarrow> wg_world \<Rightarrow> wg_fail module_error option" where
  "op_error env Overview w = err_of (wg_overview env) w"
| "op_error env (Install b) w = err_of (install_wg env b) w"
| "op_error env (Uninstall purge) w = err_of (uninstall_wg env purge) w"
| "op_error env (Upsert inp) w = err_of (upsert_interface env inp) w"
| "op_error env (RemoveInterface n) w = err_of (remove_interface env n) w"
| "op_error env (SetState n up) w = err_of (set_state env n up) w"
| "op_error env (ShowConfig n) w = err_of (interface_config n) w"
| "op_error env (Import inp) w = err_of (import_conf env inp) w"
| "op_error env (AddPeer a) w = err_of (add_peer env a) w"
| "op_error env (UpdatePeer u) w = err_of (update_peer env u) w"
| "op_error env (RemovePeer n p) w = err_of (remove_peer env n p) w"
| "op_error env (PeerConfig n p c) w = err_of (peer_config env n p c) w"

lemma lines_run:
  assumes "lines_up env n (files_of w) m (\<lambda>_ _. True)" "in_line env w n" "\<And>e. err_of m w = Some e \<Longrightarrow> e \<notin> unsure"
  shows "in_line env (snd (m w)) n"
proof -
  have c: "case m w of (Inl e, w1) \<Rightarrow> e \<in> unsure \<or> in_line env w1 n | (Inr x, w1) \<Rightarrow> in_line env w1 n \<and> True"
    using assms(1,2) by (simp add: lines_up_def aligned_def)
  show ?thesis
  proof (cases "fst (m w)")
    case (Inl e)
    then have "e \<notin> unsure" by (intro assms(3)) (simp add: err_of_def)
    with c Inl show ?thesis by (simp add: split_beta)
  next
    case (Inr x)
    with c show ?thesis by (simp add: split_beta)
  qed
qed

lemma operations_keep_line:
  assumes d: "documented env" and "in_line env w n" "\<And>e. op_error env op w = Some e \<Longrightarrow> e \<notin> unsure" shows "in_line env (wg_run env op w) n"
proof -
  have v: "lines_up env n fm (wg_overview env) (\<lambda>_ _. True)" "lines_up env n fm (interface_config m) (\<lambda>_ _. True)"
    "lines_up env n fm (peer_config env m p c) (\<lambda>_ _. True)" for fm m p c
    unfolding interface_config_def peer_config_def
    by (rule lines_end, intro keeps_option keeps_any_rules keeps_lifted keeps_reads)+
  have u: "lines_up env n fm (set_state env m up) (\<lambda>_ _. True)" for fm m up
    unfolding set_state_def
    by (rule lines_line) (intro keeps_if keeps_any_rules downs_in_line[OF d] keeps_line[OF tools_aligned[OF d]] keeps_line[OF keeps_reads(3)]
        keeps_line[OF keeps_reads(6)] keeps_line[OF keeps_reads(9)])
  show ?thesis
    using assms(2,3) by (cases op) (auto simp only: wg_run.simps op_error.simps
        intro!: lines_run v u lines_peers[OF d] lines_upsert[OF d] lines_import[OF d] lines_remove[OF d] lines_install[OF d])
qed

end
