(* ===== verification/WgProps.thy ===== *)
theory WgProps
  imports WgRound
begin

text \<open>
  The properties of the WireGuard model: containment of networks, the addresses handed out,
  what normalisation establishes, the round trip of a configuration file, and the view of a
  file with its secrets hidden.
\<close>

section \<open>Networks and addresses\<close>

text \<open>
  The mask test of \<open>contains\<close> decides inclusion: a network contains another exactly when
  every address of the second is an address of the first.
\<close>

theorem contains_net_is_inclusion:
  "wf_net a \<Longrightarrow> wf_net b \<Longrightarrow> contains_net a b \<longleftrightarrow> {x. in_net b x} \<subseteq> {x. in_net a x}"
  using contains_is_subset[of a b] by auto

definition net_10_8 :: net where
  "net_10_8 = \<lparr>addr = V4 (word_of_nat 168296705), prefix = Some 24\<rparr>"

lemma wf_net_10_8 [simp]: "wf_net net_10_8"
  by (simp add: net_10_8_def wf_net_def is_v6_def)

theorem contains_net_is_inclusion_witness:
  "contains_net net_10_8 (net_10_8\<lparr>prefix := Some 32\<rparr>)
   \<longleftrightarrow> {x. in_net (net_10_8\<lparr>prefix := Some 32\<rparr>) x} \<subseteq> {x. in_net net_10_8 x}"
proof (rule contains_net_is_inclusion)
  show "wf_net (net_10_8\<lparr>prefix := Some 32\<rparr>)" by (simp add: net_10_8_def wf_net_def is_v6_def)
qed simp

text \<open>The outcome of \<open>allocate\<close> in terms of the addresses of the network.\<close>

lemma host_addr_in:
  assumes "wf_net n" "1 \<le> h" "h \<le> scanned n" "prefix_len n + 2 \<le> host_bits n"
  shows "in_net n (host_addr n h) \<and> num (host_addr n h) = net_first n + h
    \<and> (\<not> is_v6 n \<longrightarrow> h < 2 ^ host_part n - 1)"
proof -
  have "(2 :: nat) ^ 2 \<le> 2 ^ host_part n" using assms(4) by (intro power_increasing) (auto simp: host_part_def)
  then have b: "h < 2 ^ host_part n" "\<not> is_v6 n \<longrightarrow> h < 2 ^ host_part n - 1"
    using assms(3) by (auto simp: scanned_def host_numbers_def split: if_splits)
  with host_addr_num[OF assms(1) b(1)] show ?thesis by (simp add: in_net_def is_v6_def)
qed

lemma scanned_bound: "scanned n < 2 ^ host_part n"
proof -
  have "0 < (2 :: nat) ^ host_part n" by simp
  then show ?thesis unfolding scanned_def host_numbers_def by (simp add: min_def) linarith
qed

lemma host_addr_of_num:
  assumes "wf_net n" "is_ipv6 a = is_v6 n" "num a = net_first n + h" "h < 2 ^ host_part n"
  shows "a = host_addr n h"
proof -
  have "num a = num (host_addr n h)" "is_ipv6 a = is_ipv6 (host_addr n h)"
    using host_addr_num[OF assms(1,4)] assms by simp_all
  then show ?thesis by (cases a; cases "host_addr n h") (auto simp: num_def word_unat_eq_iff unat_ucast32)
qed

lemma allocate_outcome:
  assumes "wf_net n"
  shows "case allocate n used of
     Inr t \<Rightarrow> (\<exists>a. t = show_ip a @ ''/'' @ show_nat (host_bits n) \<and> in_net n a \<and> a \<notin> set used
        \<and> net_first n < num a \<and> (\<not> is_v6 n \<longrightarrow> num a < net_first n + 2 ^ host_part n - 1)
        \<and> (\<forall>b. is_ipv6 b = is_v6 n \<and> net_first n < num b \<and> num b < num a \<longrightarrow> b \<in> set used))
   | Inl e \<Rightarrow> e = NoRoom (show_net n) \<and> host_bits n < prefix_len n + 2
        \<or> e = NoFreeAddress (network_of n) \<and> prefix_len n + 2 \<le> host_bits n
          \<and> (\<forall>b. is_ipv6 b = is_v6 n \<and> net_first n < num b \<and> num b \<le> net_first n + scanned n \<longrightarrow> b \<in> set used)"
  using allocate_cases[OF assms, of used]
proof (elim disjE conjE exE)
  assume none: "prefix_len n + 2 \<le> host_bits n" "\<forall>h. 1 \<le> h \<and> h \<le> scanned n \<longrightarrow> host_addr n h \<in> set used"
    "allocate n used = Inl (NoFreeAddress (network_of n))"
  have "b \<in> set used" if b: "is_ipv6 b = is_v6 n" "net_first n < num b" "num b \<le> net_first n + scanned n" for b
  proof -
    have "1 \<le> num b - net_first n" "num b - net_first n \<le> scanned n" using b by linarith+
    moreover have "num b - net_first n < 2 ^ host_part n" using b scanned_bound[of n] by linarith
    then have "b = host_addr n (num b - net_first n)" using b by (intro host_addr_of_num[OF assms]) simp_all
    ultimately show ?thesis using none(2) by metis
  qed
  with none show ?thesis by simp
next
  fix h assume h: "prefix_len n + 2 \<le> host_bits n" "1 \<le> h" "h \<le> scanned n" "host_addr n h \<notin> set used"
    "\<forall>k. 1 \<le> k \<and> k < h \<longrightarrow> host_addr n k \<in> set used"
    "allocate n used = Inr (show_ip (host_addr n h) @ ''/'' @ show_nat (host_bits n))"
  note a = host_addr_in[OF assms h(2,3,1)]
  have "b \<in> set used" if b: "is_ipv6 b = is_v6 n" "net_first n < num b" "num b < num (host_addr n h)" for b
  proof -
    have "1 \<le> num b - net_first n" "num b - net_first n < h" using a b by linarith+
    moreover have "num b - net_first n < 2 ^ host_part n" using a b h(3) scanned_bound[of n] by linarith
    then have "b = host_addr n (num b - net_first n)" using b by (intro host_addr_of_num[OF assms]) simp_all
    ultimately show ?thesis using h(5) by metis
  qed
  with a h show ?thesis by (auto intro!: exI[of _ "host_addr n h"])
qed simp

text \<open>
  \<open>allocate\<close> hands out the lowest free address of a network: when it answers, the address
  lies in the network, is neither its own address nor, in IPv4, the broadcast address, is not
  in use, and every lower address after the network's own is in use; the text is the address
  as a host route. It refuses only when the network has no room for hosts, or when all the
  addresses it looks at (every host address, at most 2^20) are in use.
\<close>

theorem allocate_lowest_free:
  assumes "wf_net n"
  shows "case allocate n used of
     Inr t \<Rightarrow> (\<exists>a. t = show_ip a @ ''/'' @ show_nat (host_bits n) \<and> in_net n a \<and> a \<notin> set used
        \<and> net_first n < num a \<and> (\<not> is_v6 n \<longrightarrow> num a < net_first n + 2 ^ host_part n - 1)
        \<and> (\<forall>b. is_ipv6 b = is_v6 n \<and> net_first n < num b \<and> num b < num a \<longrightarrow> b \<in> set used))
   | Inl e \<Rightarrow> e = NoRoom (show_net n) \<and> host_bits n < prefix_len n + 2
        \<or> e = NoFreeAddress (network_of n) \<and> prefix_len n + 2 \<le> host_bits n
          \<and> (\<forall>b. is_ipv6 b = is_v6 n \<and> net_first n < num b \<and> num b \<le> net_first n + scanned n \<longrightarrow> b \<in> set used)"
  by (rule allocate_outcome[OF assms])

definition net_30 :: net where
  "net_30 = \<lparr>addr = V4 168296704, prefix = Some 30\<rparr>"

lemma net_30_shape: "wf_net net_30" "is_v6 net_30 = False" "host_bits net_30 = 32" "prefix_len net_30 = 30"
  by (simp_all add: net_30_def is_v6_def host_bits_def prefix_len_def wf_net_def)

lemma allocate_net_30:
  "allocate net_30 [V4 168296705] = Inr (show_ip (V4 168296706) @ ''/'' @ show_nat 32)"
  "allocate net_30 [V4 168296704] = Inr (show_ip (V4 168296705) @ ''/'' @ show_nat 32)"
proof -
  have "to_bits (addr net_30) AND net_mask False 30 = 168296704"
    by (simp add: net_30_def net_mask_def Let_def)
  moreover have "min (last_host False 2) (2 ^ 20) = Suc (Suc 0)" by (simp add: last_host_def)
  moreover have "scan_hosts False 168296704 [V4 168296705] 1 (Suc (Suc 0)) = Some (V4 168296706)"
    "scan_hosts False 168296704 [V4 168296704] 1 (Suc (Suc 0)) = Some (V4 168296705)"
    by (simp_all add: from_bits_def Let_def)
  ultimately show "allocate net_30 [V4 168296705] = Inr (show_ip (V4 168296706) @ ''/'' @ show_nat 32)"
    "allocate net_30 [V4 168296704] = Inr (show_ip (V4 168296705) @ ''/'' @ show_nat 32)"
    by (simp_all add: allocate_def net_30_shape Let_def del: show_ip.simps scan_hosts.simps)
qed

theorem allocate_lowest_free_witness:
  "allocate net_30 [V4 168296705] = Inr (show_ip (V4 168296706) @ ''/'' @ show_nat 32)
   \<and> (\<exists>a. show_ip (V4 168296706) @ ''/'' @ show_nat 32 = show_ip a @ ''/'' @ show_nat (host_bits net_30)
      \<and> in_net net_30 a \<and> a \<notin> set [V4 168296705])"
  using allocate_lowest_free[OF net_30_shape(1), of "[V4 168296705]"]
  unfolding allocate_net_30 sum.case by blast

text \<open>The texts \<open>allocate\<close> returns are networks of one address.\<close>

definition host_net :: "ip_addr \<Rightarrow> net" where
  "host_net a = \<lparr>addr = a, prefix = Some (of_nat (width_of (is_ipv6 a)))\<rparr>"

lemma wf_host_net: "wf_net (host_net a)"
  by (cases a) (simp_all add: host_net_def wf_net_def is_v6_def width_of_def)

lemma show_host_net: "is_v6 n = is_ipv6 a \<Longrightarrow> show_ip a @ ''/'' @ show_nat (host_bits n) = show_net (host_net a)"
  by (simp add: show_net_def host_net_def host_bits_width width_of_def)

lemma free_each_fresh:
  "free_each used v4 v6 as = Inr ts \<Longrightarrow> t \<in> set ts \<Longrightarrow>
     \<exists>a. parse_net t = Inr (host_net a) \<and> a \<notin> set used
       \<and> (\<exists>x \<in> set as. \<exists>n. parse_net x = Inr n \<and> in_net n a) \<and> \<not> (if is_ipv6 a then v6 else v4)"
proof (induction as arbitrary: v4 v6 ts)
  case (Cons x xs)
  from Cons.prems(1) obtain n where n: "parse_net x = Inr n" by auto
  show ?case
  proof (cases "if is_v6 n then v6 else v4")
    case True
    with Cons.prems(1) n have "free_each used v4 v6 xs = Inr ts" by (cases "is_v6 n") auto
    from Cons.IH[OF this Cons.prems(2)] show ?thesis by (meson list.set_intros(2))
  next
    case False
    with Cons.prems(1) n obtain t1 ts1 where t1: "allocate n used = Inr t1"
      "free_each used (v4 \<or> \<not> is_v6 n) (v6 \<or> is_v6 n) xs = Inr ts1" "ts = t1 # ts1" by auto
    show ?thesis
    proof (cases "t = t1")
      case True
      from t1(1) allocate_outcome[OF parse_net_wf[OF n], of used] obtain a where
        a: "t1 = show_ip a @ ''/'' @ show_nat (host_bits n)" "in_net n a" "a \<notin> set used" by auto
      have fam: "is_v6 n = is_ipv6 a" using a(2) by (simp add: in_net_def)
      have "parse_net t = Inr (host_net a)"
        unfolding True a(1) show_host_net[OF fam] by (rule parse_net_show_net[OF wf_host_net])
      moreover have "\<not> (if is_ipv6 a then v6 else v4)" using \<open>\<not> (if is_v6 n then v6 else v4)\<close> fam by simp
      ultimately show ?thesis using a(2,3) n by (meson list.set_intros(1))
    next
      case False
      with Cons.prems(2) t1(3) have "t \<in> set ts1" by simp
      from Cons.IH[OF t1(2) this] show ?thesis by (auto split: if_splits)
    qed
  qed
qed simp

lemma ipv4_or_ipv6: "free_each used v4 v6 as = Inr ts \<Longrightarrow>
    length ts \<le> (if v4 then 0 else 1) + (if v6 then 0 else 1)"
proof (induction as arbitrary: v4 v6 ts)
  case (Cons x xs)
  from Cons.prems obtain n where n: "parse_net x = Inr n" by auto
  show ?case
  proof (cases "if is_v6 n then v6 else v4")
    case True
    with Cons.prems n have "free_each used v4 v6 xs = Inr ts" by (cases "is_v6 n") auto
    then show ?thesis by (rule Cons.IH)
  next
    case False
    with Cons.prems n obtain t1 ts1 where t1: "free_each used (v4 \<or> \<not> is_v6 n) (v6 \<or> is_v6 n) xs = Inr ts1" "ts = t1 # ts1"
      by auto
    from Cons.IH[OF t1(1)] t1(2) False show ?thesis by (cases "is_v6 n") (auto split: if_splits)
  qed
qed simp

text \<open>
  The addresses a new peer is offered are its own: each is a network of exactly one
  address, inside a network of the interface, and neither an address of the interface nor a
  host route of another peer; there is at most one per address family.
\<close>

theorem free_addresses_are_fresh:
  assumes "free_addresses i = Inr ts"
  shows "length ts \<le> 2 \<and> (\<forall>t \<in> set ts. \<exists>a. parse_net t = Inr (host_net a)
    \<and> (\<exists>x \<in> set (addresses i). \<exists>n. parse_net x = Inr n \<and> in_net n a)
    \<and> (\<forall>x \<in> set (addresses i). \<forall>n. parse_net x = Inr n \<longrightarrow> addr n \<noteq> a)
    \<and> (\<forall>p \<in> set (peers i). \<forall>x \<in> set (allowed_ips p). \<forall>n. parse_net x = Inr n \<and> prefix_len n = host_bits n \<longrightarrow> addr n \<noteq> a))"
proof (intro conjI ballI)
  show "length ts \<le> 2" using ipv4_or_ipv6[of "used_addresses i" False False] assms
    by (fastforce simp: free_addresses_def)
  fix t assume "t \<in> set ts"
  with assms free_each_fresh obtain a where a: "parse_net t = Inr (host_net a)" "a \<notin> set (used_addresses i)"
    "\<exists>x \<in> set (addresses i). \<exists>n. parse_net x = Inr n \<and> in_net n a" unfolding free_addresses_def by blast
  have "addr n \<noteq> a" if "x \<in> set (addresses i)" "parse_net x = Inr n" for x n
    using a(2) that by (force simp: used_addresses_def map_filter_def)
  moreover have "addr n \<noteq> a" if "p \<in> set (peers i)" "x \<in> set (allowed_ips p)" "parse_net x = Inr n"
    "prefix_len n = host_bits n" for p x n
    using a(2) that by (force simp: used_addresses_def map_filter_def)
  ultimately show "\<exists>a. parse_net t = Inr (host_net a)
    \<and> (\<exists>x \<in> set (addresses i). \<exists>n. parse_net x = Inr n \<and> in_net n a)
    \<and> (\<forall>x \<in> set (addresses i). \<forall>n. parse_net x = Inr n \<longrightarrow> addr n \<noteq> a)
    \<and> (\<forall>p \<in> set (peers i). \<forall>x \<in> set (allowed_ips p). \<forall>n. parse_net x = Inr n \<and> prefix_len n = host_bits n \<longrightarrow> addr n \<noteq> a)"
    using a by blast
qed

definition wg_30 :: iface where
  "wg_30 = (new_iface ''wg0'' [])\<lparr>addresses := [show_net net_30]\<rparr>"

theorem free_addresses_are_fresh_witness:
  "free_addresses wg_30 = Inr [show_ip (V4 168296705) @ ''/'' @ show_nat 32]
   \<and> (\<exists>a. parse_net (show_ip (V4 168296705) @ ''/'' @ show_nat 32) = Inr (host_net a))"
proof -
  have p: "parse_net (show_net net_30) = Inr net_30" by (rule parse_net_show_net[OF net_30_shape(1)])
  have "used_addresses wg_30 = [V4 168296704]"
    by (simp add: used_addresses_def wg_30_def new_iface_def map_filter_def p) (simp add: net_30_def)
  then have f: "free_addresses wg_30 = Inr [show_ip (V4 168296705) @ ''/'' @ show_nat 32]"
    using allocate_net_30(2)
    by (simp add: free_addresses_def wg_30_def new_iface_def p net_30_shape del: show_ip.simps)
  from free_addresses_are_fresh[OF f] f show ?thesis by (simp del: show_ip.simps) blast
qed

section \<open>Normalisation\<close>

lemma normalize_canon: "normalize i = Inr j \<Longrightarrow> canon_iface j \<and> length (peers j) = length (peers i)"
  by (erule normalize_Inr) simp

text \<open>
  What \<open>normalize\<close> accepts it leaves in a normal form: normalising again changes nothing,
  every network of the addresses and the allowed addresses is in the printed form of its value
  and occurs once in its list, at most 1000 peers remain, no two have the same public key, and
  no host route belongs to two of them.
\<close>

theorem normalize_normal_form:
  "normalize i = Inr j \<Longrightarrow> normalize j = Inr j \<and> list_all canon_net (addresses j) \<and> distinct (addresses j)
     \<and> list_all (\<lambda>p. list_all canon_net (allowed_ips p) \<and> distinct (allowed_ips p)) (peers j)
     \<and> length (peers j) = length (peers i) \<and> length (peers j) \<le> 1000
     \<and> distinct (map public_key (peers j)) \<and> distinct (concat (map host_routes (peers j)))"
  using normalize_fixed[of i j] normalize_canon[of i j]
  by (auto simp: canon_iface_def list_all_iff canon_peer_def MAX_PEERS_def)

definition key_a :: string where "key_a = replicate 43 (CHR ''A'') @ ''=''"
definition key_b :: string where "key_b = replicate 43 (CHR ''B'') @ ''=''"

lemma valid_key_ab: "valid_key key_a" "valid_key key_b"
  by code_simp+

definition wg_peer :: peer where
  "wg_peer = (new_peer key_b)\<lparr>pname := ''laptop'', penabled := False, preshared_key := key_a, keepalive := 25\<rparr>"

definition wg_iface :: iface where
  "wg_iface = (new_iface ''wg0'' key_a)\<lparr>addresses := [show_net net_30], listen_port := Some 51820, peers := [wg_peer]\<rparr>"

text \<open>A normal form is what \<open>normalize\<close> returns.\<close>

lemma wg_iface_normal: "normalize wg_iface = Inr wg_iface"
proof -
  have n: "canon_net (show_net net_30)" unfolding canon_net_def
    by (rule exI[of _ net_30]) (simp add: net_30_shape, simp add: net_30_def)
  have nets: "normalize_nets [show_net net_30] = Inr [show_net net_30]" "normalize_nets [] = Inr []"
    using n by (auto intro: normalize_nets_fixed)
  have p: "canon_peer wg_peer" using valid_key_ab
    by (simp add: canon_peer_def wg_peer_def new_peer_def trimmed_def is_white_def is_control_def)
  have nm: "valid_name ''wg0''" by code_simp
  have peers: "check_peers [] [] [wg_peer] = Inr [wg_peer]"
    using peer_normalize_fixed[OF p] by (simp add: check_def guard_def wg_peer_def new_peer_def)
  show ?thesis using nm nets peers valid_key_ab
    by (simp add: normalize_def wg_iface_def new_iface_def check_def guard_def Let_def normalize_dns_def trimmed_items_def
        all_hooks_def no_hooks_def MAX_PEERS_def)
qed

theorem normalize_normal_form_witness:
  "normalize wg_iface = Inr wg_iface \<and> distinct (map public_key (peers wg_iface)) \<and> length (peers wg_iface) \<le> 1000"
  using normalize_normal_form[OF wg_iface_normal] by blast

section \<open>Configuration files\<close>

text \<open>
  C23. What the daemon writes it reads back: parsing the file of a normalised interface, its
  disabled peers and its own settings in comments included, gives the interface again, marks
  the file as managed and warns of nothing, when the operator's hook commands have no blanks
  at their ends and no comment sign, and port and keepalive are 16 bit numbers as in the code.
\<close>

theorem conf_roundtrip:
  "normalize i = Inr j \<Longrightarrow> fits_u16 j \<Longrightarrow> plain_hooks j \<Longrightarrow>
     parse (iname j) (render j) = Inr \<lparr>p_iface = j, managed = True, warnings = []\<rparr>"
  using normalize_canon parse_render by blast

theorem conf_roundtrip_witness:
  "parse (iname wg_iface) (render wg_iface) = Inr \<lparr>p_iface = wg_iface, managed = True, warnings = []\<rparr>"
  by (rule conf_roundtrip[OF wg_iface_normal])
    (simp_all add: fits_u16_def plain_hooks_def wg_iface_def wg_peer_def new_iface_def new_peer_def all_hooks_def no_hooks_def)

text \<open>The lines that carry a secret, live or in a disabled peer.\<close>

definition hidden :: string where "hidden = ''(hidden)''"

lemma redact_key_line:
  assumes "plain_key k" "to_lower k = ''privatekey'' \<or> to_lower k = ''presharedkey''"
  shows "redact_line (off_line off (key_value k v)) = off_line off (key_value k hidden)"
proof -
  note kc = plain_key_chars[OF assms(1)]
  have ts: "trim_start (key_value k v) = key_value k v"
    using kc assms(1) by (cases k) (simp_all add: key_value_def trim_start_def plain_key_def)
  have so: "split_once (CHR ''='') (key_value k v) = Some (k @ '' '', CHR '' '' # v)"
    using split_once_append[of "CHR ''=''" "k @ '' ''" "CHR '' '' # v"] kc by (simp add: key_value_def)
  have nh: "\<not> starts_with ''#'' (key_value k v)"
    using kc assms(1) by (cases k) (auto simp: key_value_def starts_with_iff plain_key_def)
  have tk: "trim (k @ '' '') = k" using kc by (simp add: trim_end_blank trim_trimmed)
  show ?thesis
  proof (cases off)
    case False
    with ts so nh tk assms show ?thesis
      by (auto simp: redact_line_def off_line_def trim_off_prefix no_off_prefix hidden_def)
  next
    case True
    have sp: "strip_prefix ''#asc:off'' (OFF_PREFIX @ key_value k v) = Some (CHR '' '' # key_value k v)"
      by (simp add: OFF_PREFIX_def)
    have "trim_start (CHR '' '' # key_value k v) = key_value k v" using ts by (simp add: trim_start_def is_white_def)
    with True sp so nh tk assms show ?thesis
      by (elim disjE; simp add: redact_line_def off_line_def trim_off_prefix hidden_def; simp add: OFF_PREFIX_def)
  qed
qed

text \<open>Two peers, two interfaces that differ at most in their secret keys.\<close>

definition same_but_key :: "peer \<Rightarrow> peer \<Rightarrow> bool" where
  "same_but_key p q = (q = p\<lparr>preshared_key := preshared_key q\<rparr> \<and> (preshared_key p = [] \<longleftrightarrow> preshared_key q = []))"

definition same_but_keys :: "iface \<Rightarrow> iface \<Rightarrow> bool" where
  "same_but_keys i j = (j = i\<lparr>private_key := private_key j, peers := peers j\<rparr> \<and> list_all2 same_but_key (peers i) (peers j))"

lemma redact_peer_lines: "same_but_key p q \<Longrightarrow> map redact_line (peer_lines p) = map redact_line (peer_lines q)"
proof -
  assume "same_but_key p q"
  then have q: "public_key q = public_key p" "pname q = pname p" "penabled q = penabled p" "allowed_ips q = allowed_ips p"
    "pendpoint q = pendpoint p" "keepalive q = keepalive p" "preshared_key p = [] \<longleftrightarrow> preshared_key q = []"
    by (metis same_but_key_def peer.select_convs peer.surjective peer.update_convs(4))+
  have r: "redact_line (off_line off (key_value ''PresharedKey'' v)) = off_line off (key_value ''PresharedKey'' hidden)" for off v
    by (rule redact_key_line[OF key_names(13)]) (simp add: lower_names)
  show ?thesis by (simp add: peer_lines_def peer_block_def opt_line_def q r)
qed

lemma redact_file_lines: "same_but_keys i j \<Longrightarrow> map redact_line (file_lines i) = map redact_line (file_lines j)"
proof -
  assume s: "same_but_keys i j"
  then obtain k ps where j: "j = i\<lparr>private_key := k, peers := ps\<rparr>" and ps: "list_all2 same_but_key (peers i) ps"
    by (metis same_but_keys_def)
  have r: "redact_line (key_value ''PrivateKey'' v) = key_value ''PrivateKey'' hidden" for v
    using redact_key_line[OF key_names(1), of False v] by (simp add: lower_names off_line_def)
  have "map redact_line (concat (map peer_lines (peers i))) = map redact_line (concat (map peer_lines ps))"
    using ps by (induction rule: list_all2_induct) (simp_all add: redact_peer_lines)
  moreover have "ipv4_subnet (i\<lparr>private_key := k, peers := ps\<rparr>) = ipv4_subnet i" by (simp add: ipv4_subnet_def)
  then have "nat_hooks (i\<lparr>private_key := k, peers := ps\<rparr>) = nat_hooks i" by (simp add: nat_hooks_def Let_def split: option.split)
  ultimately show ?thesis
    by (simp add: file_lines_def asc_lines_def field_lines_def hook_block_def j r)
qed

text \<open>
  C24. The view of a file hides its secrets: the redacted files of two interfaces that differ
  only in the private key and in the pre-shared keys of their peers, the disabled ones
  included, are the same text.
\<close>

theorem redact_hides_keys:
  assumes "normalize i0 = Inr i" "normalize j0 = Inr j" "same_but_keys i j"
  shows "redact (render i) = redact (render j)"
proof -
  have f: "lines (render k) = file_lines k" if "normalize k0 = Inr k" for k k0
  proof -
    have c: "canon_iface k" using normalize_canon[OF that] ..
    then have "list_all canon_peer (peers k)" by (simp add: canon_iface_def)
    with file_lines_one_line[OF c] show ?thesis by (simp add: render_file_lines lines_unlines)
  qed
  show ?thesis using redact_file_lines[OF assms(3)] f[OF assms(1)] f[OF assms(2)] by (simp add: redact_def)
qed

definition wg_other :: iface where
  "wg_other = wg_iface\<lparr>private_key := key_b, peers := [wg_peer\<lparr>preshared_key := key_b\<rparr>]\<rparr>"

lemma wg_other_normal: "normalize wg_other = Inr wg_other"
proof -
  note w = normalize_canon[OF wg_iface_normal, THEN conjunct1]
  have p: "canon_peer wg_peer" using w by (simp add: canon_iface_def wg_iface_def)
  then have p2: "canon_peer (wg_peer\<lparr>preshared_key := key_b\<rparr>)" using valid_key_ab by (simp add: canon_peer_def)
  show ?thesis
    using w valid_key_ab peer_normalize_fixed[OF p2] normalize_nets_fixed[of "addresses wg_iface"]
    by (simp add: normalize_def wg_other_def wg_iface_def new_iface_def canon_iface_def check_def guard_def Let_def
        normalize_dns_def trimmed_items_def wg_peer_def new_peer_def all_hooks_def no_hooks_def MAX_PEERS_def)
qed

theorem redact_hides_keys_witness:
  "redact (render wg_iface) = redact (render wg_other) \<and> private_key wg_iface \<noteq> private_key wg_other"
proof -
  have "same_but_keys wg_iface wg_other"
    by (simp add: same_but_keys_def same_but_key_def wg_other_def wg_iface_def new_iface_def wg_peer_def new_peer_def
        key_a_def key_b_def)
  moreover have "key_a \<noteq> key_b" by code_simp
  then have "private_key wg_iface \<noteq> private_key wg_other" by (simp add: wg_other_def wg_iface_def new_iface_def)
  ultimately show ?thesis using redact_hides_keys[OF wg_iface_normal wg_other_normal] by blast
qed

text \<open>
  Two limits of the format. A hook command with a comment sign is cut when the file is read
  back, although \<open>normalize\<close> accepts it; a redacted line must start the line, so the key of a
  disabled peer behind blanks, which \<open>parse\<close> accepts, is shown.
\<close>

lemma hook_comment_is_cut:
  "\<not> bad_hook ''echo a # b''
   \<and> map_ok (\<lambda>s. post_up (ihooks (st_iface s)))
       (parse_line 1 (key_value ''PostUp'' ''echo a # b'') (at_iface (new_iface ''wg0'' []))) = Inr [''echo a'']"
  by code_simp

lemma indented_key_is_shown:
  "redact_line ''  #asc:off PresharedKey = k'' = ''  #asc:off PresharedKey = k''
   \<and> map_ok (\<lambda>s. map_option preshared_key (st_peer s))
       (parse_line 1 ''  #asc:off PresharedKey = k'' (at_peer (new_iface ''wg0'' []) (new_peer ''p''))) = Inr (Some ''k'')"
  by code_simp

end
