(* ===== verification/WgCare.thy ===== *)
theory WgCare
  imports WgFollow WgProps
begin

text \<open>The properties of the WireGuard manager, each with an application to a concrete node.\<close>

section \<open>Files\<close>

text \<open>One operation of a run, with what happens to its effects: each may be the one that a kill interrupts.\<close>

definition wg_step :: "wg_env \<Rightarrow> wg_world \<Rightarrow> wg_op \<times> outcome list \<Rightarrow> wg_world" where
  "wg_step env w e = (case e of (op, os) \<Rightarrow> wg_run env op (w\<lparr>wg_outs := os\<rparr>))"

lemma step_moves: "moves (taken (fst e)) (files_of w) (files_of (wg_step env w e))"
  using operations_are_moves[of "fst e" "w\<lparr>wg_outs := snd e\<rparr>" env] by (simp add: wg_step_def split_beta)

text \<open>No two interfaces of the daemon listen on one port.\<close>

definition ports_apart :: "(string \<times> conf_file) list \<Rightarrow> bool" where
  "ports_apart fs = (\<forall>n\<in>set (conf_names fs). \<forall>m\<in>set (conf_names fs).
     n \<noteq> m \<longrightarrow> port_of (map_of fs) n = None \<or> port_of (map_of fs) n \<noteq> port_of (map_of fs) m)"

definition all_apart :: "(string \<Rightarrow> conf_file option) \<Rightarrow> bool" where
  "all_apart fm = (\<forall>n m p. n \<noteq> m \<longrightarrow> port_of fm n = Some p \<longrightarrow> port_of fm m \<noteq> Some p)"

lemma ports_apart_all: "ports_apart fs \<longleftrightarrow> all_apart (map_of fs)"
proof -
  have "n \<in> set (conf_names fs)" if "port_of (map_of fs) n = Some p" for n p
    using that by (auto simp: port_of_Some conf_names_set managed_at_Some)
  then show ?thesis unfolding ports_apart_def all_apart_def by (metis option.exhaust option.distinct(1))
qed

lemma port_of_stored: "normalize i = Inr i \<Longrightarrow> readable n i \<Longrightarrow> port_of (fm(conf_file_name n \<mapsto> Text (render i))) n = listen_port i"
  using stored[of i i n fm] by (simp add: port_of_def)

lemma port_of_other: "n \<noteq> m \<Longrightarrow> port_of (fm(conf_file_name n := x)) m = port_of fm m" "port_of (fm(backup_file_name n := x)) m = port_of fm m"
  by (rule port_of_conf; simp)+

lemma store_apart:
  assumes "all_apart fm" "normalize i = Inr i" "readable n i"
    and "port_free fm i \<or> port_of fm n = listen_port i"
  shows "all_apart (fm(conf_file_name n \<mapsto> Text (render i)))"
  unfolding all_apart_def
proof (intro allI impI notI)
  fix a b p assume ab: "a \<noteq> b" "port_of (fm(conf_file_name n \<mapsto> Text (render i))) a = Some p" "port_of (fm(conf_file_name n \<mapsto> Text (render i))) b = Some p"
  have nm: "iname i = n" using assms(3) by (simp add: readable_def)
  have free: "port_of fm c \<noteq> Some p" if "c \<noteq> n" "listen_port i = Some p" for c
    using assms(1,4) that nm by (auto simp: all_apart_def port_free_def)
  show False
    using ab free[of a] free[of b] port_of_stored[OF assms(2,3), of fm] assms(1)
    by (cases "a = n"; cases "b = n") (auto simp: port_of_other all_apart_def)
qed

lemma move_apart: "conf_move A fm gm \<Longrightarrow> all_apart fm \<Longrightarrow> all_apart gm"
proof (induction rule: conf_move.induct)
  case (store fm n old i)
  then show ?case by (intro store_apart) (auto simp: port_of_def)
next
  case (take_over n i fm)
  then show ?case by (intro store_apart) auto
next
  case (discard fm n i)
  have "port_of (fm(conf_file_name n := None)) m = (if m = n then None else port_of fm m)" for m
    by (auto simp: port_of_other port_of_def managed_at_def)
  with discard show ?case unfolding all_apart_def by (auto simp del: fun_upd_apply split: if_splits)
next
  case (saved fm n c s)
  have "port_of (fm(conf_file_name n \<mapsto> saved_file s)) n = None"
    using saved_not_managed[of fm n s] by (auto simp: port_of_def split: sum.split option.split)
  then have "port_of (fm(conf_file_name n \<mapsto> saved_file s)) m = (if m = n then None else port_of fm m)" for m
    by (simp add: port_of_other)
  with saved show ?case unfolding all_apart_def by (auto simp del: fun_upd_apply split: if_splits)
next
  case (backup fm n x)
  then show ?case unfolding all_apart_def by (auto simp del: fun_upd_apply simp: port_of_other)
qed

lemma moves_apart: "moves A fm gm \<Longrightarrow> all_apart fm \<Longrightarrow> all_apart gm"
  by (induction rule: rtranclp_induct) (auto intro: move_apart)

interpretation wg_ports: invariant_steps "wg_step env" "\<lambda>w. ports_apart (conf_dir w)" for env
  by unfold_locales (simp add: ports_apart_all moves_apart[OF step_moves])

text \<open>
  C28. Two interfaces of the daemon never come to listen on one port: whatever operations run one after the
  other, with whatever failures and wherever the daemon is killed and started again, ports that are apart
  stay apart, with foreign files and interrupted changes about.
\<close>

theorem listen_ports_stay_apart:
  "ports_apart (conf_dir w) \<Longrightarrow> ports_apart (conf_dir (run_ops (wg_step env) w ops))"
  by (rule wg_ports.run_inv)

text \<open>A file the daemon did not write: it has no marker, or is no text.\<close>

definition foreign :: "conf_file \<Rightarrow> bool" where
  "foreign c = (case c of Text t \<Rightarrow> \<not> is_managed t | Raw b \<Rightarrow> True)"

lemma move_foreign:
  "conf_move A fm gm \<Longrightarrow> n \<notin> A \<Longrightarrow> fm (conf_file_name n) = Some c \<Longrightarrow> foreign c \<and> \<not> asks_saving c \<Longrightarrow> gm (conf_file_name n) = Some c"
proof (induction rule: conf_move.induct)
  case (store fm m old i)
  then have "m \<noteq> n" by (auto simp: managed_at_def foreign_def split: conf_file.splits if_splits)
  with store show ?case by simp
next
  case (discard fm m i)
  then have "m \<noteq> n" by (auto simp: managed_at_def foreign_def split: conf_file.splits if_splits)
  with discard show ?case by simp
next
  case (saved fm m c1 s)
  then have "m \<noteq> n" by auto
  with saved show ?case by simp
qed auto

lemma moves_foreign:
  "moves A fm gm \<Longrightarrow> n \<notin> A \<Longrightarrow> fm (conf_file_name n) = Some c \<Longrightarrow> foreign c \<and> \<not> asks_saving c \<Longrightarrow> gm (conf_file_name n) = Some c"
  by (induction rule: rtranclp_induct) (auto intro: move_foreign)

interpretation wg_foreign: guarded_steps "wg_step env" "\<lambda>e. n \<notin> taken (fst e)" "\<lambda>w. (foreign c \<and> \<not> asks_saving c) \<and> files_of w (conf_file_name n) = Some c"
  for env n c
  by unfold_locales (auto intro: moves_foreign[OF step_moves])

text \<open>
  C27. Files the daemon did not write, and that do not ask \<open>wg-quick\<close> to save over them (\<open>SaveConfig = true\<close>),
  are left alone: only an import of that name that may overwrite touches one. Every other operation,
  uninstalling with purge included, leaves its bytes as they were.
\<close>

theorem foreign_files_untouched:
  "map_of (conf_dir w) (conf_file_name n) = Some c \<Longrightarrow> foreign c \<Longrightarrow> \<not> asks_saving c \<Longrightarrow> list_all (\<lambda>e. n \<notin> taken (fst e)) ops \<Longrightarrow>
     map_of (conf_dir (run_ops (wg_step env) w ops)) (conf_file_name n) = Some c"
  using wg_foreign.guarded_run by blast

text \<open>A file that does ask for it is written by the daemon's call of \<open>wg-quick down\<close>, whoever made it.\<close>

lemma set_state_saves:
  assumes "systemd env = False" "tools_there w" "wg_outs w = []" "n \<in> set (conf_names (conf_dir w))" "tunnels w n = Some t"
    "map_of (conf_dir w) (conf_file_name n) = Some c" "asks_saving c" "saved_as env n c t = Some s"
  shows "map_of (conf_dir (wg_run env (SetState n False) w)) = (map_of (conf_dir w))(conf_file_name n \<mapsto> saved_file s)"
proof -
  have v: "frames conf_dir (wg_overview env)" by (rule file_views(7))
  define u where "u = snd (wg_down env n w)"
  have "map_of (conf_dir u) = (map_of (conf_dir w))(conf_file_name n \<mapsto> saved_file s)"
    using assms
    by (simp add: u_def wg_down_def do_if_def running_def ask_tool_def wg_effect_def step_io_def seq_def bind_def asks_def ret_def domIff
        down_command_def modify_def saving_def tool_run_def split_beta tool_call_files update_conv')
  moreover have "conf_dir (wg_run env (SetState n False) w) = conf_dir u"
    using assms(2,4) framesD[OF v]
    by (auto simp: set_state_def require_installed_def require_exists_def seq_def bind_def asks_def fail_if_def ret_def u_def
        split: prod.split sum.split)
  ultimately show ?thesis by simp
qed

section \<open>Changes that fail\<close>

text \<open>
  C25. A change that cannot be applied does not stay half done: when the check refuses it or a file
  cannot be written, files and tunnels are as before; when WireGuard refuses it, the previous file is
  put back, which \<open>wg-quick\<close> then saves over if it asks for that. The new file stays, or the file goes, only when
  an effect of the daemon fails: the previous file could not be read, the list of the running interfaces cannot
  be read after the file is in place, or the previous file cannot be written back. As long as its effects work,
  whatever the tools refuse, the files after an error are those of before.
\<close>

theorem refused_change_put_back:
  assumes "write_and_sync env old new w = (Inl e, w')"
  shows "(saved_over (iname new) (map_of (conf_dir w)) (map_of (conf_dir w'))
      \<or> (map_of (conf_dir w') = (map_of (conf_dir w))(conf_file_name (iname new) := None)
          \<or> saved_over (iname new) ((map_of (conf_dir w))(conf_file_name (iname new) \<mapsto> Text (render new))) (map_of (conf_dir w')))
        \<and> e \<in> {Precondition NotApplied, Other (CommandFails ''wg show interfaces'')} \<and> \<not> set (wg_outs w) \<subseteq> {Fine})
    \<and> (set (wg_outs w) \<subseteq> {Fine} \<longrightarrow> (\<forall>c. map_of (conf_dir w) (conf_file_name (iname new)) = Some c \<longrightarrow> \<not> asks_saving c) \<longrightarrow>
        map_of (conf_dir w') = map_of (conf_dir w))
    \<and> (e \<notin> {Precondition NotApplied, Other (CommandFails ''wg show interfaces'')} \<longrightarrow> map_of (conf_dir w') = map_of (conf_dir w))
    \<and> (e \<noteq> Precondition NotApplied \<longrightarrow> tunnels w' = tunnels w)
    \<and> e \<in> {Invalid RefusedConf, Other CannotWrite, Precondition NotApplied, Other (CommandFails ''wg show interfaces'')}"
proof (rule write_and_sync_cases[OF assms])
  let ?n = "iname new" and ?f = "conf_file_name (iname new)"
  fix u prev
  assume p: "put_back env ?n prev u = (Inl e, w')" "saved_over ?n (with_conf w new) (files_of u)"
    and prev: "prev = files_of w ?f \<or> prev = None \<and> \<not> all_work w" and works: "all_work w \<Longrightarrow> all_work u"
  have e: "e = Precondition NotApplied" using put_back_run[OF p(1)] by simp
  have prior: "(files_of u)(?f := prev) = (files_of w)(?f := prev)" using saved_gone[OF p(2), of prev] by (simp add: with_conf_def)
  have "saved_over ?n (files_of w) (files_of w') \<or> (files_of w' = (files_of w)(?f := None) \<or> saved_over ?n (with_conf w new) (files_of w')) \<and> \<not> all_work w"
  proof (cases "fst (next_outcome (wg_outs u))")
    case True
    then have s: "saved_over ?n ((files_of w)(?f := prev)) (files_of w')" using put_back_run[OF p(1)] prior by simp
    from prev show ?thesis
    proof
      assume "prev = files_of w ?f"
      with s show ?thesis by (simp add: fun_upd_idem)
    next
      assume "prev = None \<and> \<not> all_work w"
      with saved_over_same[OF s] show ?thesis by auto
    qed
  next
    case False
    then have "saved_over ?n (files_of u) (files_of w')" using put_back_run[OF p(1)] by simp
    moreover have "\<not> all_work w" using False next_outcome_works(1)[OF works] by blast
    ultimately show ?thesis using saved_over_trans[OF p(2)] by blast
  qed
  with e saved_over_same[of ?n "files_of w" "files_of w'"] show ?thesis by (auto simp: with_conf_def)
qed (auto simp: with_conf_def)

text \<open>The third way, from any world: the change fails and is in the file.\<close>

lemma unknown_state_keeps_change:
  assumes "wg_outs w = [Fine, Fine, Fine, Fine, Fine, Fail]" "strip_of env (render new) = Some s"
  shows "\<exists>w'. write_and_sync env old new w = (Inl (Other (CommandFails ''wg show interfaces'')), w') \<and> map_of (conf_dir w') = with_conf w new"
  using assms
  by (simp add: write_and_sync_def Let_def check_candidate_def strip_text_def running_def ask_tool_def wg_effect_def step_io_def
      previous_file_def or_else_def seq_def bind_def catch_def ignore_def asks_def fail_if_def put_conf_def ret_def update_conv' with_conf_def)

section \<open>Tunnels\<close>

text \<open>
  C26. Tunnels follow their files: when the tunnel of an interface is in line with its file - \<open>wg\<close> was last
  told what the file says now, and \<open>wg-quick\<close> set up what it would set up now - it is in line after
  every operation on any interface, whatever fails, with tools that do what their manuals say, but for those that end with one of two errors: that a change
  could not be applied, or that the running interfaces could not be listed.
\<close>

theorem tunnels_follow_files:
  assumes "documented env" "in_line env w n" "op_error env op w \<notin> {Some (Precondition NotApplied), Some (Other (CommandFails ''wg show interfaces''))}"
  shows "in_line env (wg_run env op w) n"
  using assms by (intro operations_keep_line) (auto simp: unsure_def)

section \<open>Importing over a file\<close>

lemma overview_ok: "\<exists>ov u. wg_overview env w = (Inr ov, u) \<and> conf_dir u = conf_dir w"
proof -
  have o: "errs_in {} (or_else d m)" for d :: 'x and m
    unfolding or_else_def by (intro errs_bind errs_pure) (auto intro: errs_pure split: sum.split)
  have e: "errs_in {} (wg_enabled env n)" for n unfolding wg_enabled_def by (auto intro: o errs_pure)
  have v: "errs_in {} (view_iface env i up)" for i up
    unfolding view_iface_def by (intro errs_bind errs_pure o e) (auto intro: o errs_pure)
  have f: "errs_in {} (view_files env up ns)" for up ns
  proof (induction ns)
    case (Cons n ns)
    then show ?case by (auto simp: Let_def split_beta intro!: errs_bind errs_pure v split: sum.split)
  qed (simp add: errs_pure)
  have "errs_in {} (wg_overview env)"
    unfolding wg_overview_def wg_version_def primary_address_def by (auto simp: split_beta intro!: errs_bind errs_pure o f)
  then have "\<exists>ov. fst (wg_overview env w) = Inr ov" by (cases "fst (wg_overview env w)") (auto simp: errs_in_def)
  then show ?thesis using framesD[OF frames_views(7)[OF blind_files(3)], of env w] by (cases "wg_overview env w") auto
qed

lemma candidate_ok:
  assumes "wg_outs w = []" "strip_of env t = Some s"
  shows "check_candidate env f t w = (Inr (), w\<lparr>work_dir := AList.delete f (AList.update f t (work_dir w))\<rparr>)"
  using assms
  by (simp add: check_candidate_def strip_text_def ask_tool_def wg_effect_def step_io_def seq_def bind_def catch_def ignore_def asks_def
      fail_if_def ret_def update_conv')

lemma write_when_down:
  assumes "wg_outs w = []" "strip_of env (render i) = Some s" "tunnels w (iname i) = None"
  shows "write_and_sync env old i w = (Inr (), w\<lparr>work_dir := AList.delete (conf_file_name (iname i)) (AList.update (conf_file_name (iname i)) (render i) (work_dir w)),
    conf_dir := AList.update (conf_file_name (iname i)) (Text (render i)) (conf_dir w)\<rparr>)"
  using assms
  by (simp add: write_and_sync_def Let_def seq_def bind_def candidate_ok previous_file_def or_else_def catch_def asks_def put_conf_def running_def ask_tool_def wg_effect_def step_io_def
      ret_def domIff)

text \<open>The copy of the old file may fail; the import goes on, and the old file is gone.\<close>

lemma overwrite_without_backup:
  assumes "tools_there w" "valid_name n" "trim n = n" "parse n t = Inr p" "hooks_empty (ihooks (p_iface p))" "normalize (p_iface p) = Inr i"
    "port_clash (conf_dir w) i = None" "map_of (conf_dir w) (conf_file_name n) = Some c" "wg_outs w = [Fail]"
    "strip_of env (render i) = Some s" "tunnels w n = None"
  shows "\<exists>r w'. import_conf env \<lparr>im_name = n, im_text = t, overwrite = True, accept_hooks = False, im_start = False\<rparr> w = (Inr r, w')
    \<and> map_of (conf_dir w') (conf_file_name n) = Some (Text (render i)) \<and> map_of (conf_dir w') (backup_file_name n) = map_of (conf_dir w) (backup_file_name n)"
proof -
  have nm: "iname i = n" using read_back(2)[OF assms(6) parse_readable[OF assms(4)]] by (simp add: readable_def)
  let ?u = "w\<lparr>wg_outs := [], work_dir := AList.delete (conf_file_name n) (AList.update (conf_file_name n) (render i) (work_dir w)),
     conf_dir := AList.update (conf_file_name n) (Text (render i)) (conf_dir w)\<rparr>"
  have ws: "write_and_sync env None i (w\<lparr>wg_outs := []\<rparr>) = (Inr (), ?u)"
    using write_when_down[of "w\<lparr>wg_outs := []\<rparr>" env i s None] assms(10,11) nm by simp
  obtain ov v where ov: "wg_overview env ?u = (Inr ov, v)" "conf_dir v = conf_dir ?u" using overview_ok by blast
  have "import_conf env \<lparr>im_name = n, im_text = t, overwrite = True, accept_hooks = False, im_start = False\<rparr> w
      = (Inr \<lparr>im_overview = ov, im_iface = n, im_warnings = warnings p\<rparr>, v)"
    using assms(1-9) ws ov(1)
    by (simp add: import_conf_def Let_def require_installed_def normalized_def check_port_def back_up_def put_conf_def wg_effect_def step_io_def
      seq_def bind_def ignore_def asks_def fail_if_def lift_result_def ret_def)
  with ov(2) show ?thesis by (simp add: update_conv')
qed

section \<open>Adding a peer\<close>

definition added_peer :: "peer_add \<Rightarrow> string \<Rightarrow> string \<Rightarrow> string list \<Rightarrow> peer" where
  "added_peer a k psk ips = (new_peer k)\<lparr>pname := pa_name a, pendpoint := pa_endpoint a, keepalive := unat (pa_keepalive a),
     preshared_key := psk, allowed_ips := ips\<rparr>"

text \<open>The networks of a new peer: those asked for, or the free addresses of the interface.\<close>

definition peer_nets :: "peer_add \<Rightarrow> iface \<Rightarrow> wg_error + string list" where
  "peer_nets a i = (if pa_ips a = [] then free_addresses i else normalize_nets (pa_ips a))"

lemma from_files_added:
  assumes "readable n old"
  shows "from_files A fm (edit_add env a old) (\<lambda>x gm. gm = fm \<and> readable n (fst x) \<and> listen_port (fst x) = listen_port old
     \<and> (\<exists>psk ips. peer_nets a old = Inr ips \<and> fst x = old\<lparr>peers := peers old @ [added_peer a (fst (snd x)) psk ips]\<rparr>))"
proof -
  note k = readable_keepalive[OF assms]
  have nets: "from_files A fm (if pa_ips a = [] then lift_result (map_err (\<lambda>e. Precondition (BadModel e)) (free_addresses old)) else wanted_nets (pa_ips a))
      (\<lambda>ips gm. gm = fm \<and> peer_nets a old = Inr ips)"
    unfolding wanted_nets_def peer_nets_def by (auto intro: from_files_weaken[OF from_files_pure(5)])
  show ?thesis
    unfolding edit_add_def
  proof (rule from_files_read_bind, unfold peer_keys_def, intro frame_rules frames_keys[OF blind_files(1)] frames_pubkey[OF blind_files(3)],
      rule from_files_read_bind, intro frame_rules frames_keys[OF blind_files(1)], rule from_files_bind_same[OF nets], rule from_files_pure(1))
    fix ks psk ips assume i: "peer_nets a old = Inr ips"
    let ?i = "old\<lparr>peers := peers old @ [(new_peer (fst ks))\<lparr>pname := pa_name a, pendpoint := pa_endpoint a,
         keepalive := unat (pa_keepalive a), preshared_key := psk, allowed_ips := ips\<rparr>]\<rparr>"
    have "readable n ?i" using k by (auto intro!: readable_peers assms simp: unat16)
    with i show "fm = fm \<and> readable n (fst (?i, ks)) \<and> listen_port (fst (?i, ks)) = listen_port old
      \<and> (\<exists>psk ips. peer_nets a old = Inr ips \<and> fst (?i, ks) = old\<lparr>peers := peers old @ [added_peer a (fst (snd (?i, ks))) psk ips]\<rparr>)"
      by (auto simp: added_peer_def)
  qed
qed

lemma normalize_append:
  assumes "normalize i = Inr i" "normalize (i\<lparr>peers := peers i @ [p]\<rparr>) = Inr j"
  shows "\<exists>q. j = i\<lparr>peers := peers i @ [q]\<rparr> \<and> peer_normalize p = Inr q \<and> public_key q \<notin> public_key ` set (peers i)"
proof -
  obtain as ds cds ps where i: "i = i\<lparr>addresses := as, dns := ds, client_dns := cds, table := trim (table i),
       fwmark := trim (fwmark i), iendpoint := trim (iendpoint i), peers := ps\<rparr>"
    "normalize_nets (addresses i) = Inr as" "normalize_dns (dns i) = Inr ds" "normalize_dns (client_dns i) = Inr cds" "canon_iface i"
    by (rule normalize_Inr[OF assms(1)])
  obtain as2 ds2 cds2 qs where j: "j = (i\<lparr>peers := peers i @ [p]\<rparr>)\<lparr>addresses := as2, dns := ds2, client_dns := cds2, table := trim (table i),
       fwmark := trim (fwmark i), iendpoint := trim (iendpoint i), peers := qs\<rparr>"
    "normalize_nets (addresses i) = Inr as2" "normalize_dns (dns i) = Inr ds2" "normalize_dns (client_dns i) = Inr cds2"
    "check_peers [] [] (peers i @ [p]) = Inr qs" "canon_iface j"
    by (rule normalize_Inr[OF assms(2)]) simp
  have e: "addresses i = as" "dns i = ds" "client_dns i = cds" "table i = trim (table i)" "fwmark i = trim (fwmark i)" "iendpoint i = trim (iendpoint i)"
    using arg_cong[OF i(1), of addresses] arg_cong[OF i(1), of dns] arg_cong[OF i(1), of client_dns] arg_cong[OF i(1), of table]
      arg_cong[OF i(1), of fwmark] arg_cong[OF i(1), of iendpoint] by simp_all
  have same: "as2 = addresses i" "ds2 = dns i" "cds2 = client_dns i" using i(2-4) j(2-4) e(1-3) by auto
  have jq: "j = i\<lparr>peers := qs\<rparr>"
    by (subst j(1), unfold same, simp only: e(4-6)[symmetric]) (cases i; simp)
  from check_peers_each[OF j(5)] obtain rs q where q: "qs = rs @ [q]" "list_all2 (\<lambda>p q. peer_normalize p = Inr q) (peers i) rs" "peer_normalize p = Inr q"
    by (auto simp: list_all2_append1 list_all2_Cons1)
  have "peer_normalize p = Inr p" if "p \<in> set (peers i)" for p
    using that i(5) peer_normalize_fixed by (auto simp: canon_iface_def list_all_iff)
  with q(2) have "rs = peers i" by (auto simp: list_all2_conv_all_nth intro!: nth_equalityI)
  moreover have "distinct (map public_key qs)" using j(6) by (simp add: canon_iface_def jq)
  ultimately show ?thesis using jq q by auto
qed

lemma from_files_add_peer:
  "from_files {} fm (add_peer env a) (\<lambda>r gm. \<exists>old new psk ips. managed_at fm (pa_interface a) = Inr (Some old) \<and> peer_nets a old = Inr ips
     \<and> normalize (old\<lparr>peers := peers old @ [added_peer a (ad_key r) psk ips]\<rparr>) = Inr new
     \<and> managed_at gm (pa_interface a) = Inr (Some new) \<and> gm = fm(conf_file_name (pa_interface a) \<mapsto> Text (render new)))"
  unfolding add_peer_def
proof (rule from_files_read_bind[OF frames_reading(9)], rule from_files_bind[OF from_files_modified[OF from_files_added]], assumption)
  fix opts and x :: "iface \<times> string \<times> string option" and gm
  let ?n = "pa_interface a"
  let ?P = "\<lambda>old new y. \<exists>psk ips. peer_nets a old = Inr ips \<and> new = old\<lparr>peers := peers old @ [added_peer a (fst y) psk ips]\<rparr>"
  assume g: "managed_at gm ?n = Inr (Some (fst x)) \<and> gm = fm(conf_file_name ?n \<mapsto> Text (render (fst x))) \<and>
     (\<exists>old new. managed_at fm ?n = Inr (Some old) \<and> ?P old new (snd x) \<and> normalize new = Inr (fst x))"
  obtain new pub priv where x: "x = (new, pub, priv)" by (cases x)
  show "from_files {} gm (case x of (new, pub, priv) \<Rightarrow>
     bind (case find (\<lambda>p. public_key p = pub) (peers new) of Some p \<Rightarrow> ret p | None \<Rightarrow> throw (Other LostPeer)) (\<lambda>p.
     bind (pubkey env (private_key new)) (\<lambda>server. bind (primary_address env) (\<lambda>addr. bind (wg_overview env) (\<lambda>ov.
       ret \<lparr>ad_overview = ov, ad_key = pub, ad_client = (case client_config new server p priv opts addr of Inr t \<Rightarrow> t | Inl _ \<Rightarrow> [])\<rparr>)))))
    (\<lambda>r gm. \<exists>old new psk ips. managed_at fm ?n = Inr (Some old) \<and> peer_nets a old = Inr ips
     \<and> normalize (old\<lparr>peers := peers old @ [added_peer a (ad_key r) psk ips]\<rparr>) = Inr new
     \<and> managed_at gm ?n = Inr (Some new) \<and> gm = fm(conf_file_name ?n \<mapsto> Text (render new)))"
    unfolding x prod.case
    by (rule from_files_read_bind, intro frame_rules, rule from_files_read_bind, rule frames_pubkey[OF blind_files(3)],
        rule from_files_read_bind, rule file_views, rule from_files_read_bind, rule file_views, rule from_files_pure(1))
      (use g x in auto)
qed

text \<open>
  C29. Adding a peer adds that peer and nothing else: its interface was normalised before, it is read
  back as the same interface with one more peer at the end, whose key is the one returned and no other
  peer has, whose networks are those asked for or the free addresses of the interface; no other file changes.
\<close>

theorem add_peer_adds_one:
  assumes "add_peer env a w = (Inr r, w')"
  shows "\<exists>old. managed_at (map_of (conf_dir w)) (pa_interface a) = Inr (Some old) \<and> (normalize old = Inr old \<longrightarrow>
    (\<exists>q ips. managed_at (map_of (conf_dir w')) (pa_interface a) = Inr (Some (old\<lparr>peers := peers old @ [q]\<rparr>))
      \<and> public_key q = ad_key r \<and> ad_key r \<notin> public_key ` set (peers old) \<and> pname q = trim (pa_name a) \<and> penabled q
      \<and> (if pa_ips a = [] then free_addresses old else normalize_nets (pa_ips a)) = Inr ips \<and> normalize_nets ips = Inr (allowed_ips q)))
    \<and> (\<forall>f. f \<noteq> conf_file_name (pa_interface a) \<longrightarrow> map_of (conf_dir w') f = map_of (conf_dir w) f)"
proof -
  from from_files_add_peer[of "files_of w" env a] assms obtain old new psk ips where
    n: "managed_at (files_of w) (pa_interface a) = Inr (Some old)" "peer_nets a old = Inr ips"
      "normalize (old\<lparr>peers := peers old @ [added_peer a (ad_key r) psk ips]\<rparr>) = Inr new"
      "managed_at (files_of w') (pa_interface a) = Inr (Some new)" "files_of w' = (files_of w)(conf_file_name (pa_interface a) \<mapsto> Text (render new))"
    unfolding from_files_def triple_def by (auto simp del: fun_upd_apply dest!: spec[of _ w])
  have "\<exists>q. new = old\<lparr>peers := peers old @ [q]\<rparr> \<and> public_key q = ad_key r \<and> ad_key r \<notin> public_key ` set (peers old)
      \<and> pname q = trim (pa_name a) \<and> penabled q \<and> normalize_nets ips = Inr (allowed_ips q)" if "normalize old = Inr old"
  proof -
    from normalize_append[OF that n(3)] obtain q where q: "new = old\<lparr>peers := peers old @ [q]\<rparr>" "peer_normalize (added_peer a (ad_key r) psk ips) = Inr q"
      "public_key q \<notin> public_key ` set (peers old)" by blast
    from q(2) have "normalize_nets ips = Inr (allowed_ips q)"
      by (auto simp: peer_normalize_def Let_def added_peer_def split: if_splits)
    with q peer_normalize_keeps[OF q(2)] show ?thesis by (auto simp: added_peer_def new_peer_def)
  qed
  with n show ?thesis by (fastforce simp: peer_nets_def)
qed

section \<open>A node with one interface of its own and a file written by hand\<close>

text \<open>No systemd; a file is stripped to itself, and \<open>wg-quick\<close> always works.\<close>

definition demo_set :: "(string \<Rightarrow> string option \<Rightarrow> tunnel option \<Rightarrow> bool \<times> tunnel option) \<Rightarrow> wg_tool" where
  "demo_set f n fs k = (case k of (ts, us) \<Rightarrow> case f n (fs n) (ts n) of (ok, t) \<Rightarrow> (ok, ts(n := t), us))"

definition wg_demo_env :: wg_env where
  "wg_demo_env = \<lparr>systemd = False,
     quick_up = demo_set (\<lambda>n c t. case (c, t) of (Some c, None) \<Rightarrow> (True, Some \<lparr>built_from = c, loaded = c\<rparr>) | _ \<Rightarrow> (False, t)),
     quick_down = demo_set (\<lambda>n c t. (c \<noteq> None, if c = None then t else None)),
     unit_start = demo_set (\<lambda>n c t. (False, t)), unit_restart = demo_set (\<lambda>n c t. (False, t)), unit_stop = demo_set (\<lambda>n c t. (False, t)),
     unit_enable = demo_set (\<lambda>n c t. (False, t)), unit_disable = demo_set (\<lambda>n c t. (False, t)),
     sync_with = (\<lambda>s. demo_set (\<lambda>n c t. (t \<noteq> None, map_option (\<lambda>t. t\<lparr>loaded := s\<rparr>) t))),
     saved_as = (\<lambda>n c t. Some (loaded t)), strip_of = Some, pub_of = Some, key_at = (\<lambda>_. key_a), dump_of = (\<lambda>_. []), enabled_text = (\<lambda>_. []), version_text = [], route_text = [],
     journal_text = (\<lambda>_. [])\<rparr>"

lemma wg_demo_documented: "documented wg_demo_env"
  unfolding documented_def builders_def settles_def builds_def loads_def fresh_def
  by (auto simp: wg_demo_env_def demo_set_def split: option.splits)

definition wg_demo :: wg_world where
  "wg_demo = \<lparr>conf_dir = [(''wg0.conf'', Text (render wg_iface)), (''old.conf'', Text ''# by hand'')], work_dir = [], tunnels = (\<lambda>_. None),
     unit_words = (\<lambda>_. []), tools_there = True, keys_made = 0, wg_outs = []\<rparr>"

text \<open>The same node with the tunnel up.\<close>

definition wg_demo_up :: wg_world where
  "wg_demo_up = wg_demo\<lparr>tunnels := [''wg0'' \<mapsto> \<lparr>built_from = render wg_iface, loaded = render wg_iface\<rparr>]\<rparr>"

lemma demo_iface: "iname wg_iface = ''wg0''" "listen_port wg_iface = Some 51820" "peers wg_iface = [wg_peer]"
  by (simp_all add: wg_iface_def new_iface_def)

lemma demo_env: "systemd wg_demo_env = False" "strip_of wg_demo_env = Some"
  by (simp_all add: wg_demo_env_def)

lemma demo_quick: "quick_down wg_demo_env = demo_set (\<lambda>n c t. (c \<noteq> None, if c = None then t else None))"
  by (simp add: wg_demo_env_def)

lemma demo_readable: "readable ''wg0'' wg_iface"
  by (simp add: readable_def clean_hooks_def fits_u16_def plain_hooks_def wg_iface_def wg_peer_def new_iface_def new_peer_def all_hooks_def no_hooks_def)

lemma demo_names: "conf_names (conf_dir wg_demo) = [''old'', ''wg0'']" for t u
proof -
  have "conf_names [(''wg0.conf'', Text t), (''old.conf'', Text u)] = [''old'', ''wg0'']" for t u by code_simp
  then show ?thesis by (simp add: wg_demo_def)
qed

lemma demo_managed: "managed_at (map_of (conf_dir wg_demo)) ''wg0'' = Inr (Some wg_iface)"
  using stored[OF wg_iface_normal demo_readable]
  by (simp add: wg_demo_def conf_file_name_def managed_at_def)

lemma demo_foreign: "managed_at (map_of (conf_dir wg_demo)) ''old'' = Inl (Precondition (NotOurs ''old''))"
proof -
  have "valid_name ''old''" "\<not> is_managed ''# by hand''" by code_simp+
  then show ?thesis by (simp add: wg_demo_def conf_file_name_def managed_at_def)
qed

theorem listen_ports_stay_apart_witness:
  "ports_apart (conf_dir (run_ops (wg_step wg_demo_env) wg_demo
     [(SetState ''wg0'' True, []), (RemovePeer ''wg0'' ''laptop'', [Fine, Fail]), (Uninstall True, [Fine, Fine, Crash])]))"
  by (rule listen_ports_stay_apart) (simp add: ports_apart_def demo_names port_of_def demo_managed demo_foreign demo_iface)

theorem foreign_files_untouched_witness:
  "map_of (conf_dir (run_ops (wg_step wg_demo_env) wg_demo
     [(RemoveInterface ''old'', []), (SetState ''old'' True, [Fail]), (Uninstall True, [])])) (conf_file_name ''old'')
    = Some (Text ''# by hand'')"
proof (rule foreign_files_untouched)
  have "\<not> is_managed ''# by hand''" by code_simp
  then show "foreign (Text ''# by hand'')" by (simp add: foreign_def)
  show "\<not> asks_saving (Text ''# by hand'')" by code_simp
qed (simp_all add: wg_demo_def conf_file_name_def taken_def)

text \<open>The same file, asking to be saved and up: the daemon takes it down, and the comment is gone.\<close>

definition wg_demo_asks :: string where
  "wg_demo_asks = ''# by hand'' @ LF @ ''[Interface]'' @ LF @ ''SaveConfig = true''"

lemma foreign_file_saved_over:
  "foreign (Text wg_demo_asks) \<and> map_of (conf_dir (wg_run wg_demo_env (SetState ''old'' False)
     (wg_demo\<lparr>conf_dir := [(''old.conf'', Text wg_demo_asks)], tunnels := [''old'' \<mapsto> \<lparr>built_from = wg_demo_asks, loaded = []\<rparr>]\<rparr>))) ''old.conf''
   = Some (saved_file [])"
proof -
  have f: "\<not> is_managed wg_demo_asks" "asks_saving (Text wg_demo_asks)" by code_simp+
  have n: "conf_names [(''old.conf'', Text wg_demo_asks)] = [''old'']" by code_simp
  show ?thesis
    by (subst set_state_saves[where t = "\<lparr>built_from = wg_demo_asks, loaded = []\<rparr>" and c = "Text wg_demo_asks" and s = "[]"])
      (use f n in \<open>simp_all add: foreign_def demo_env wg_demo_def wg_demo_env_def conf_file_name_def\<close>)
qed

text \<open>A node where \<open>wg-quick down\<close> always fails: the rebuild of the tunnel is refused.\<close>

definition wg_demo_bad :: wg_env where
  "wg_demo_bad = wg_demo_env\<lparr>quick_down := demo_set (\<lambda>n c t. (False, t))\<rparr>"

lemma demo_refused: "\<exists>w'. write_and_sync wg_demo_bad None wg_iface wg_demo_up = (Inl (Precondition NotApplied), w')"
proof -
  have r: "\<exists>w'. put_back env n prev u = (Inl (Precondition NotApplied), w')" for env n prev u
    by (simp add: put_back_def seq_def bind_def ignore_def throw_def split: prod.split)
  have t: "tunnels wg_demo_up ''wg0'' \<noteq> None" "wg_outs wg_demo_up = []" by (simp_all add: wg_demo_up_def wg_demo_def)
  have e: "systemd wg_demo_bad = False" "strip_of wg_demo_bad = Some" "quick_down wg_demo_bad = demo_set (\<lambda>n c t. (False, t))"
    by (simp_all add: wg_demo_bad_def wg_demo_env_def)
  show ?thesis using r
    by (simp add: write_and_sync_def Let_def check_candidate_def strip_text_def running_def ask_tool_def wg_effect_def step_io_def
      seq_def bind_def catch_def ignore_def asks_def fail_if_def put_conf_def ret_def e demo_iface t domIff
      previous_file_def or_else_def
      bring_in_line_def wg_restart_def by_hand_def do_if_def down_command_def modify_def tool_run_def tool_call_def demo_set_def update_conv' split: prod.split)
qed

theorem refused_change_put_back_witness:
  "\<exists>w'. write_and_sync wg_demo_bad None wg_iface wg_demo_up = (Inl (Precondition NotApplied), w')
     \<and> map_of (conf_dir w') = map_of (conf_dir wg_demo_up)"
proof -
  obtain w' where w: "write_and_sync wg_demo_bad None wg_iface wg_demo_up = (Inl (Precondition NotApplied), w')" using demo_refused by blast
  have "wg_outs wg_demo_up = []" "map_of (conf_dir wg_demo_up) (conf_file_name (iname wg_iface)) = Some (Text (render wg_iface))"
    by (simp_all add: wg_demo_up_def wg_demo_def conf_file_name_def demo_iface)
  with refused_change_put_back[OF w] w rendered_save_not[OF wg_iface_normal] show ?thesis by simp
qed

text \<open>A previous file that could not be read counts as none: putting it back removes the file.\<close>

lemma unread_file_removed:
  "\<exists>w'. write_and_sync wg_demo_bad None wg_iface (wg_demo_up\<lparr>wg_outs := [Fine, Fine, Fine, Fail]\<rparr>) = (Inl (Precondition NotApplied), w')
     \<and> map_of (conf_dir w') ''wg0.conf'' = None"
proof -
  have r: "\<exists>w'. put_back env ''wg0'' None u = (Inl (Precondition NotApplied), w') \<and> map_of (conf_dir w') ''wg0.conf'' = None" if "wg_outs u = []" for env u
  proof -
    obtain x w' where p: "put_back env ''wg0'' None u = (x, w')" by (cases "put_back env ''wg0'' None u")
    from put_back_run[OF p] that have x: "x = Inl (Precondition NotApplied)" "saved_over ''wg0'' ((map_of (conf_dir u))(''wg0.conf'' := None)) (map_of (conf_dir w'))"
      by (simp_all add: conf_file_name_def)
    have "map_of (conf_dir w') = (map_of (conf_dir u))(''wg0.conf'' := None)"
      by (rule saved_over_same[OF x(2)]) (simp add: conf_file_name_def)
    with p x(1) show ?thesis by simp
  qed
  have t: "tunnels wg_demo_up ''wg0'' \<noteq> None" by (simp add: wg_demo_up_def wg_demo_def)
  have e: "systemd wg_demo_bad = False" "strip_of wg_demo_bad = Some" "quick_down wg_demo_bad = demo_set (\<lambda>n c t. (False, t))"
    by (simp_all add: wg_demo_bad_def wg_demo_env_def)
  show ?thesis using r
    by (simp add: write_and_sync_def Let_def check_candidate_def strip_text_def running_def ask_tool_def wg_effect_def step_io_def
      seq_def bind_def catch_def ignore_def asks_def fail_if_def put_conf_def ret_def e demo_iface t domIff previous_file_def or_else_def
      bring_in_line_def wg_restart_def by_hand_def do_if_def down_command_def modify_def tool_run_def tool_call_def demo_set_def update_conv' split: prod.split)
qed

text \<open>Taking the tunnel down.\<close>

lemma demo_in_line: "in_line wg_demo_env wg_demo_up ''wg0''"
  using line_fresh[of "files_of wg_demo" "''wg0''" "render wg_iface" wg_demo_env "render wg_iface"]
  by (simp add: in_line_def wg_demo_up_def wg_demo_def demo_env conf_file_name_def)

lemma demo_down: "op_error wg_demo_env (SetState ''wg0'' False) wg_demo_up = None"
proof -
  have o: "fst (wg_overview env w) \<noteq> Inl e" for env w e using overview_ok[of env w] by force
  have c: "conf_text wg_demo_up ''wg0'' = Some (render wg_iface)" by (simp add: conf_text_def wg_demo_up_def wg_demo_def conf_file_name_def)
  have d: "tunnels wg_demo_up ''wg0'' \<noteq> None" "tools_there wg_demo_up" "conf_dir wg_demo_up = conf_dir wg_demo" "wg_outs wg_demo_up = []"
    by (simp_all add: wg_demo_up_def wg_demo_def)
  have v: "saving wg_demo_env ''wg0'' (wg_demo_up\<lparr>wg_outs := []\<rparr>) = wg_demo_up\<lparr>wg_outs := []\<rparr>"
    by (rule unasked_same) (use rendered_save_not[OF wg_iface_normal] in \<open>simp add: wg_demo_up_def wg_demo_def conf_file_name_def\<close>)
  show ?thesis using o d c
    by (auto simp: err_of_def set_state_def require_installed_def require_exists_def demo_names wg_down_def demo_env running_def ask_tool_def
      wg_effect_def step_io_def seq_def bind_def asks_def fail_if_def do_if_def down_command_def modify_def tool_run_def tool_call_def v demo_quick demo_set_def conf_text_def ret_def domIff
      split: sum.split option.splits conf_file.splits)
qed

theorem tunnels_follow_files_witness:
  "in_line wg_demo_env (wg_run wg_demo_env (SetState ''wg0'' False) wg_demo_up) ''wg0''"
proof (rule tunnels_follow_files[OF wg_demo_documented demo_in_line])
qed (unfold demo_down, simp)

text \<open>A second peer, with a key of its own.\<close>

definition key_c :: string where "key_c = replicate 43 (CHR ''C'') @ ''=''"

definition demo_peer :: peer_add where
  "demo_peer = \<lparr>pa_interface = ''wg0'', pa_name = ''phone'', pa_key = key_c, pa_ips = [show_net net_30], pa_preshared = False,
     pa_keepalive = 25, pa_endpoint = [], pa_client = \<lparr>ci_routes = [], ci_dns = [], ci_endpoint = []\<rparr>\<rparr>"

definition demo_added :: peer where
  "demo_added = (new_peer key_c)\<lparr>pname := ''phone'', keepalive := 25, allowed_ips := [show_net net_30]\<rparr>"

definition demo_more :: iface where
  "demo_more = wg_iface\<lparr>peers := [wg_peer, demo_added]\<rparr>"

lemma demo_added_normal: "canon_peer demo_added" "normalize_nets [show_net net_30] = Inr [show_net net_30]"
proof -
  have n: "canon_net (show_net net_30)" unfolding canon_net_def
    by (rule exI[of _ net_30]) (simp add: net_30_shape, simp add: net_30_def)
  then show "normalize_nets [show_net net_30] = Inr [show_net net_30]" by (auto intro: normalize_nets_fixed)
  have "valid_key key_c" by code_simp
  with n show "canon_peer demo_added"
    by (simp add: canon_peer_def demo_added_def new_peer_def trimmed_def is_white_def is_control_def)
qed

lemma demo_more_normal: "normalize demo_more = Inr demo_more"
proof -
  have c: "canon_iface wg_iface" using normalize_canon[OF wg_iface_normal] by simp
  then have p: "canon_peer wg_peer" by (simp add: canon_iface_def wg_iface_def)
  have k: "key_b \<noteq> key_c" by code_simp
  have nm: "valid_name ''wg0''" by code_simp
  have "check_peers [] [] [wg_peer, demo_added] = Inr [wg_peer, demo_added]"
    using peer_normalize_fixed[OF p] peer_normalize_fixed[OF demo_added_normal(1)] k
    by (simp add: check_def guard_def wg_peer_def demo_added_def new_peer_def)
  then show ?thesis using nm valid_key_ab demo_added_normal(2) normalize_nets_fixed[of "[]"]
    by (simp add: demo_more_def normalize_def wg_iface_def new_iface_def check_def guard_def Let_def normalize_dns_def trimmed_items_def
        all_hooks_def no_hooks_def MAX_PEERS_def)
qed

lemma demo_adds: "\<exists>r w'. add_peer wg_demo_env demo_peer wg_demo = (Inr r, w') \<and> ad_key r = key_c"
proof -
  have t: "trim key_c = key_c" "key_c \<noteq> []" by code_simp+
  have o: "client_opts (pa_client demo_peer) w = (Inr \<lparr>co_routes = Subnet, co_dns = [], co_endpoint = []\<rparr>, w)" for w
    by (simp add: client_opts_def demo_peer_def routes_parse_def Let_def to_lower_def trimmed_items_def lift_result_def bind_def ret_def)
  have e: "edit_add wg_demo_env demo_peer wg_iface w = (Inr (demo_more, key_c, None), w)" for w
    using t demo_added_normal(2)
    by (simp add: edit_add_def peer_keys_def demo_peer_def wanted_nets_def lift_result_def bind_def ret_def demo_more_def demo_added_def demo_iface new_peer_def)
  have m: "\<exists>w'. modify_iface wg_demo_env ''wg0'' (edit_add wg_demo_env demo_peer) wg_demo = (Inr (demo_more, key_c, None), w') \<and> wg_outs w' = []"
    using write_when_down[of wg_demo wg_demo_env demo_more "render demo_more" "Some wg_iface"] demo_managed demo_more_normal
    by (simp add: modify_iface_def require_installed_def read_managed_def read_managed_opt_def seq_def bind_def asks_def fail_if_def
      lift_result_def ret_def e normalized_def wg_demo_def demo_env demo_more_def demo_iface)
  have f: "find (\<lambda>p. public_key p = key_c) (peers demo_more) \<noteq> None"
    by (simp add: demo_more_def demo_added_def new_peer_def find_None_iff)
  obtain w1 where w1: "modify_iface wg_demo_env ''wg0'' (edit_add wg_demo_env demo_peer) wg_demo = (Inr (demo_more, key_c, None), w1)" "wg_outs w1 = []"
    using m by blast
  have n: "pa_interface demo_peer = ''wg0''" by (simp add: demo_peer_def)
  have k: "pubkey wg_demo_env k w1 = (Inr (trim (k @ LF)), w1)" "primary_address wg_demo_env w1 = (Inr [], w1)" for k
    using w1(2)
    by (simp_all add: pubkey_def primary_address_def or_else_def ask_tool_def wg_effect_def step_io_def seq_def bind_def catch_def asks_def
      ret_def wg_demo_env_def parse_route_src_def split_whitespace_def)
  show ?thesis using overview_ok[of wg_demo_env w1] w1(1) f
    by (auto simp: add_peer_def n bind_def o k ret_def split: option.split)
qed

theorem add_peer_adds_one_witness:
  "\<exists>r w' q. add_peer wg_demo_env demo_peer wg_demo = (Inr r, w')
     \<and> managed_at (map_of (conf_dir w')) ''wg0'' = Inr (Some (wg_iface\<lparr>peers := [wg_peer, q]\<rparr>)) \<and> public_key q = key_c \<and> pname q = trim ''phone''"
proof -
  obtain r w' where r: "add_peer wg_demo_env demo_peer wg_demo = (Inr r, w')" "ad_key r = key_c" using demo_adds by blast
  with add_peer_adds_one[OF r(1)] demo_managed wg_iface_normal show ?thesis by (auto simp: demo_peer_def demo_iface)
qed

end
