(* ===== verification/PathNames.thy ===== *)
theory PathNames
  imports HostIO
begin

text \<open>
  \<open>files/path.rs\<close>: the paths the file service accepts. A path is the list of its components,
  so \<open>/\<close> is the empty list; texts of errors are constructors.
\<close>

definition MAX_PATH_BYTES :: nat where "MAX_PATH_BYTES = 4096"
definition MAX_COMPONENT_BYTES :: nat where "MAX_COMPONENT_BYTES = 255"

datatype path_problem =
    NotAbsolute string | PathTooLong | PathHasNul | ComponentTooLong string | HasParentDir string
  | BadFileName string | HasSeparator string | NameTooLong | NoFileName | EmptyLinkTarget | OnlyTarGz

definition NUL :: char where "NUL = CHR 0x00"

text \<open>\<open>Path::components\<close> without the root: empty pieces and single dots go.\<close>

definition components :: "string \<Rightarrow> string list" where
  "components s = filter (\<lambda>c. c \<noteq> [] \<and> c \<noteq> ''.'') (split_char (CHR ''/'') s)"

definition check_component :: "string \<Rightarrow> string \<Rightarrow> path_problem + string" where
  "check_component raw c =
     (if c = ''..'' then Inl (HasParentDir raw)
      else if MAX_COMPONENT_BYTES < byte_len c then Inl (ComponentTooLong c)
      else Inr c)"

definition safe_path :: "string \<Rightarrow> path_problem + string list" where
  "safe_path raw =
     (if \<not> starts_with ''/'' raw then Inl (NotAbsolute raw)
      else if MAX_PATH_BYTES < byte_len raw then Inl PathTooLong
      else if NUL \<in> set raw then Inl PathHasNul
      else traverse (check_component raw) (components raw))"

definition child :: "string list \<Rightarrow> string \<Rightarrow> path_problem + string list" where
  "child p name =
     (if name = [] \<or> name = ''.'' \<or> name = ''..'' then Inl (BadFileName name)
      else if CHR ''/'' \<in> set name \<or> NUL \<in> set name then Inl (HasSeparator name)
      else if MAX_COMPONENT_BYTES < byte_len name then Inl NameTooLong
      else Inr (p @ [name]))"

definition parent :: "string list \<Rightarrow> string list option" where
  "parent p = (if p = [] then None else Some (butlast p))"

text \<open>\<open>Display\<close>.\<close>

definition show_path :: "string list \<Rightarrow> string" where
  "show_path p = ''/'' @ join ''/'' p"

text \<open>\<open>Path::starts_with\<close>: whole components.\<close>

fun within :: "string list \<Rightarrow> string list \<Rightarrow> bool" where
  "within [] p = True"
| "within (r # rs) [] = False"
| "within (r # rs) (c # cs) = (r = c \<and> within rs cs)"

lemma within_iff: "within r p \<longleftrightarrow> (\<exists>t. p = r @ t)"
  by (induction r p rule: within.induct) auto

lemma within_refl [simp]: "within p p"
  by (simp add: within_iff)

lemma within_append [simp]: "within r (r @ t)"
  by (auto simp: within_iff)

lemma within_trans: "within a b \<Longrightarrow> within b c \<Longrightarrow> within a c"
  by (auto simp: within_iff)

lemma within_length: "within a b \<Longrightarrow> length a \<le> length b"
  by (auto simp: within_iff)

lemma within_antisym: "within a b \<Longrightarrow> within b a \<Longrightarrow> a = b"
  by (auto simp: within_iff)

section \<open>The components of an accepted path\<close>

definition plain_name :: "string \<Rightarrow> bool" where
  "plain_name c = (c \<noteq> [] \<and> c \<noteq> ''.'' \<and> c \<noteq> ''..'' \<and> CHR ''/'' \<notin> set c \<and> NUL \<notin> set c
     \<and> byte_len c \<le> MAX_COMPONENT_BYTES)"

lemma split_char_pieces: "x \<in> set (split_char d s) \<Longrightarrow> d \<notin> set x \<and> set x \<subseteq> set s"
  by (induction d s arbitrary: x rule: split_char.induct) (fastforce split: if_splits list.splits)+

lemma traverse_check: "traverse (check_component raw) cs = Inr ps \<longleftrightarrow>
    ps = cs \<and> list_all (\<lambda>c. c \<noteq> ''..'' \<and> byte_len c \<le> MAX_COMPONENT_BYTES) cs"
  by (induction cs arbitrary: ps) (auto simp: check_component_def split: if_splits)

lemma safe_path_Inr: "safe_path raw = Inr p \<longleftrightarrow> starts_with ''/'' raw \<and> byte_len raw \<le> MAX_PATH_BYTES \<and> NUL \<notin> set raw
    \<and> p = components raw \<and> list_all (\<lambda>c. c \<noteq> ''..'' \<and> byte_len c \<le> MAX_COMPONENT_BYTES) (components raw)"
  by (auto simp: safe_path_def traverse_check)

lemma safe_path_plain: "safe_path raw = Inr p \<Longrightarrow> list_all plain_name p"
proof -
  assume "safe_path raw = Inr p"
  then have p: "p = components raw" "NUL \<notin> set raw" "list_all (\<lambda>c. c \<noteq> ''..'' \<and> byte_len c \<le> MAX_COMPONENT_BYTES) (components raw)"
    by (simp_all add: safe_path_Inr)
  have "plain_name c" if "c \<in> set p" for c
    using that p split_char_pieces[of c "CHR ''/''" raw] by (auto simp: components_def plain_name_def list_all_iff)
  then show ?thesis by (simp add: list_all_iff)
qed

lemma components_show: "list_all plain_name p \<Longrightarrow> components (show_path p) = p"
proof (cases "p = []")
  case False
  assume pl: "list_all plain_name p"
  then have "split_char (CHR ''/'') (join ''/'' p) = p"
    using False split_join[of p "CHR ''/''"] by (auto simp: list_all_iff plain_name_def)
  moreover have "filter (\<lambda>c. c \<noteq> [] \<and> c \<noteq> ''.'') p = p" using pl by (auto simp: filter_id_conv list_all_iff plain_name_def)
  ultimately show ?thesis by (simp add: components_def show_path_def)
qed (simp add: components_def show_path_def)

lemma safe_path_show:
  "list_all plain_name p \<Longrightarrow> byte_len (show_path p) \<le> MAX_PATH_BYTES \<Longrightarrow> safe_path (show_path p) = Inr p"
proof -
  assume p: "list_all plain_name p" "byte_len (show_path p) \<le> MAX_PATH_BYTES"
  have "NUL \<notin> set (show_path p)"
    using p(1) set_join[of "''/''" p] by (auto simp: show_path_def list_all_iff plain_name_def NUL_def)
  then show ?thesis using p components_show[OF p(1)]
    by (auto simp: safe_path_Inr starts_with_def show_path_def list_all_iff plain_name_def)
qed

lemma child_Inr: "child p n = Inr q \<longleftrightarrow> plain_name n \<and> q = p @ [n]"
  by (auto simp: child_def plain_name_def)

end
