(* ===== verification/LinkFs.thy ===== *)
theory LinkFs
  imports PathNames
begin

text \<open>
  A file system with symbolic and hard links, for the file service: names are paths from the
  root, each with the number of an inode; inodes hold the kind, the content and the
  attributes. \<open>walk\<close> is the kernel's path lookup, with its limit of 40 links; the system calls
  the service makes are functions that return the error of the states in which they fail.
\<close>

datatype ikind = Reg string | Folder | Link string | Special

record vinode =
  ikind :: ikind
  imode :: nat
  iuid :: nat
  igid :: nat
  imtime :: int

record vfs =
  names :: "(string list \<times> nat) list"
  inodes :: "nat \<Rightarrow> vinode"
  fresh :: nat
  vouts :: "outcome list"

datatype os_error = ENOENT | EEXIST | EACCES | ENOTEMPTY | ENOTDIR | EISDIR | ELOOP | EINVAL | EBUSY | EIO

definition ino :: "'z vfs_scheme \<Rightarrow> string list \<Rightarrow> nat option" where
  "ino w p = map_of (names w) p"

definition kind_at :: "'z vfs_scheme \<Rightarrow> string list \<Rightarrow> ikind option" where
  "kind_at w p = map_option (\<lambda>n. ikind (inodes w n)) (ino w p)"

text \<open>The entries of a directory, in the order the directory lists them.\<close>

definition entries_of :: "'z vfs_scheme \<Rightarrow> string list \<Rightarrow> string list" where
  "entries_of w p = map last (filter (\<lambda>q. q \<noteq> [] \<and> butlast q = p) (map fst (names w)))"

section \<open>Path lookup\<close>

definition MAX_LINKS :: nat where "MAX_LINKS = 40"

text \<open>
  From the directory \<open>cur\<close> along \<open>cs\<close>, following every link; with \<open>create\<close> the last name may
  be missing (\<open>open\<close> with \<open>O_CREAT\<close>).
\<close>

function walk :: "'z vfs_scheme \<Rightarrow> bool \<Rightarrow> nat \<Rightarrow> string list \<Rightarrow> string list \<Rightarrow> os_error + string list" where
  "walk w create b cur [] = Inr cur"
| "walk w create b cur (c # cs) =
     (if c = ''..'' then walk w create b (butlast cur) cs
      else (case kind_at w (cur @ [c]) of
          None \<Rightarrow> if create \<and> cs = [] then Inr (cur @ [c]) else Inl ENOENT
        | Some (Link t) \<Rightarrow> if b = 0 then Inl ELOOP
            else walk w create (b - 1) (if starts_with ''/'' t then [] else cur) (components t @ cs)
        | Some Folder \<Rightarrow> walk w create b (cur @ [c]) cs
        | Some k \<Rightarrow> if cs = [] then Inr (cur @ [c]) else Inl ENOTDIR))"
  by pat_completeness auto

termination
  by (relation "(\<lambda>(w, create, b, cur, cs). b) <*mlex*> measure (\<lambda>(w, create, b, cur, cs). length cs)")
    (auto simp: mlex_iff wf_mlex)

text \<open>\<open>realpath\<close>; the place of a name whose own link is not followed; the place \<open>open\<close> creates.\<close>

definition follow :: "'z vfs_scheme \<Rightarrow> string list \<Rightarrow> os_error + string list" where
  "follow w p = walk w False MAX_LINKS [] p"

definition place :: "'z vfs_scheme \<Rightarrow> string list \<Rightarrow> os_error + string list" where
  "place w p = (if p = [] then Inr []
     else and_then (follow w (butlast p)) (\<lambda>d. if kind_at w d = Some Folder then Inr (d @ [last p]) else Inl ENOTDIR))"

definition open_place :: "'z vfs_scheme \<Rightarrow> string list \<Rightarrow> os_error + string list" where
  "open_place w p = walk w True MAX_LINKS [] p"

text \<open>\<open>lstat\<close>, \<open>stat\<close>, \<open>exists\<close>, \<open>is_dir\<close>: the inode number found.\<close>

definition lstat :: "'z vfs_scheme \<Rightarrow> string list \<Rightarrow> os_error + nat" where
  "lstat w p = and_then (place w p) (\<lambda>q. ok_or ENOENT (ino w q))"

definition stat_follow :: "'z vfs_scheme \<Rightarrow> string list \<Rightarrow> os_error + nat" where
  "stat_follow w p = and_then (follow w p) (\<lambda>q. ok_or ENOENT (ino w q))"

definition exists_follow :: "'z vfs_scheme \<Rightarrow> string list \<Rightarrow> bool" where
  "exists_follow w p = (case stat_follow w p of Inl e \<Rightarrow> False | Inr n \<Rightarrow> True)"

definition is_dir_follow :: "'z vfs_scheme \<Rightarrow> string list \<Rightarrow> bool" where
  "is_dir_follow w p = (case stat_follow w p of Inl e \<Rightarrow> False | Inr n \<Rightarrow> ikind (inodes w n) = Folder)"

section \<open>System calls\<close>

definition new_inode :: "ikind \<Rightarrow> nat \<Rightarrow> vinode" where
  "new_inode k m = \<lparr>ikind = k, imode = m, iuid = 0, igid = 0, imtime = 0\<rparr>"

definition add_name :: "string list \<Rightarrow> ikind \<Rightarrow> nat \<Rightarrow> 'z vfs_scheme \<Rightarrow> 'z vfs_scheme" where
  "add_name q k m w = w\<lparr>names := (q, fresh w) # names w, inodes := (inodes w)(fresh w := new_inode k m),
     fresh := Suc (fresh w)\<rparr>"

definition drop_names :: "(string list \<Rightarrow> bool) \<Rightarrow> 'z vfs_scheme \<Rightarrow> 'z vfs_scheme" where
  "drop_names P w = w\<lparr>names := filter (\<lambda>(p, n). \<not> P p) (names w)\<rparr>"

definition add_at :: "string list \<Rightarrow> ikind \<Rightarrow> nat \<Rightarrow> 'z vfs_scheme \<Rightarrow> os_error + 'z vfs_scheme" where
  "add_at p k m w = and_then (place w p) (\<lambda>q.
     if kind_at w q \<noteq> None then Inl EEXIST else Inr (add_name q k m w))"

definition sys_mkdir :: "string list \<Rightarrow> 'z vfs_scheme \<Rightarrow> os_error + 'z vfs_scheme" where
  "sys_mkdir p w = add_at p Folder 493 w"

definition sys_symlink :: "string \<Rightarrow> string list \<Rightarrow> 'z vfs_scheme \<Rightarrow> os_error + 'z vfs_scheme" where
  "sys_symlink t p w = add_at p (Link t) 511 w"

definition sys_link :: "string list \<Rightarrow> string list \<Rightarrow> 'z vfs_scheme \<Rightarrow> os_error + 'z vfs_scheme" where
  "sys_link old new w = and_then (lstat w old) (\<lambda>n.
     if ikind (inodes w n) = Folder then Inl EACCES
     else and_then (place w new) (\<lambda>q. if kind_at w q \<noteq> None then Inl EEXIST
       else Inr (w\<lparr>names := (q, n) # names w\<rparr>)))"

definition sys_unlink :: "string list \<Rightarrow> 'z vfs_scheme \<Rightarrow> os_error + 'z vfs_scheme" where
  "sys_unlink p w = and_then (place w p) (\<lambda>q. case kind_at w q of
     None \<Rightarrow> Inl ENOENT | Some Folder \<Rightarrow> Inl EISDIR | Some k \<Rightarrow> Inr (drop_names (\<lambda>x. x = q) w))"

definition sys_rmdir :: "string list \<Rightarrow> 'z vfs_scheme \<Rightarrow> os_error + 'z vfs_scheme" where
  "sys_rmdir p w = and_then (place w p) (\<lambda>q. case kind_at w q of
     None \<Rightarrow> Inl ENOENT
   | Some Folder \<Rightarrow> if q = [] then Inl EBUSY else if entries_of w q \<noteq> [] then Inl ENOTEMPTY
       else Inr (drop_names (\<lambda>x. x = q) w)
   | Some k \<Rightarrow> Inl ENOTDIR)"

text \<open>\<open>rename\<close>: a directory moves with all that is below it.\<close>

definition rebase :: "string list \<Rightarrow> string list \<Rightarrow> string list \<Rightarrow> string list" where
  "rebase a b p = (if within a p then b @ drop (length a) p else p)"

definition move_names :: "string list \<Rightarrow> string list \<Rightarrow> 'z vfs_scheme \<Rightarrow> 'z vfs_scheme" where
  "move_names a b w = w\<lparr>names := map (\<lambda>(p, n). (rebase a b p, n)) (filter (\<lambda>(p, n). p \<noteq> b) (names w))\<rparr>"

definition sys_rename :: "string list \<Rightarrow> string list \<Rightarrow> 'z vfs_scheme \<Rightarrow> os_error + 'z vfs_scheme" where
  "sys_rename src dst w = and_then (place w src) (\<lambda>a. and_then (place w dst) (\<lambda>b.
     case ino w a of
       None \<Rightarrow> Inl ENOENT
     | Some n \<Rightarrow>
         if a = [] \<or> b = [] then Inl EBUSY
         else if ino w b = Some n then Inr w
         else if within a b then Inl EINVAL
         else if within b a then Inl ENOTEMPTY
         else (let dir = (ikind (inodes w n) = Folder) in
           case kind_at w b of
             None \<Rightarrow> Inr (move_names a b w)
           | Some Folder \<Rightarrow> if \<not> dir then Inl EISDIR
               else if entries_of w b \<noteq> [] then Inl ENOTEMPTY else Inr (move_names a b w)
           | Some k \<Rightarrow> if dir then Inl ENOTDIR else Inr (move_names a b w))))"

text \<open>\<open>open\<close> for writing with \<open>O_CREAT\<close> and \<open>O_TRUNC\<close>, or \<open>O_EXCL\<close>; the inode number is the handle.\<close>

definition set_kind :: "nat \<Rightarrow> ikind \<Rightarrow> 'z vfs_scheme \<Rightarrow> 'z vfs_scheme" where
  "set_kind n k w = w\<lparr>inodes := (inodes w)(n := (inodes w n)\<lparr>ikind := k\<rparr>)\<rparr>"

definition open_trunc :: "nat \<Rightarrow> string list \<Rightarrow> 'z vfs_scheme \<Rightarrow> os_error + nat \<times> 'z vfs_scheme" where
  "open_trunc m p w = and_then (open_place w p) (\<lambda>q. case ino w q of
     None \<Rightarrow> Inr (fresh w, add_name q (Reg []) m w)
   | Some n \<Rightarrow> (case ikind (inodes w n) of
         Folder \<Rightarrow> Inl EISDIR
       | Reg s \<Rightarrow> Inr (n, set_kind n (Reg []) w)
       | k \<Rightarrow> Inr (n, w)))"

definition open_new :: "nat \<Rightarrow> string list \<Rightarrow> 'z vfs_scheme \<Rightarrow> os_error + nat \<times> 'z vfs_scheme" where
  "open_new m p w = map_ok (\<lambda>w1. (fresh w, w1)) (add_at p (Reg []) m w)"

text \<open>Writing through a handle appends what was written; devices take it away.\<close>

definition write_handle :: "nat \<Rightarrow> string \<Rightarrow> 'z vfs_scheme \<Rightarrow> 'z vfs_scheme" where
  "write_handle n d w = (case ikind (inodes w n) of Reg s \<Rightarrow> set_kind n (Reg (s @ d)) w | _ \<Rightarrow> w)"

definition sys_chown :: "string list \<Rightarrow> nat option \<Rightarrow> nat option \<Rightarrow> 'z vfs_scheme \<Rightarrow> os_error + 'z vfs_scheme" where
  "sys_chown p u g w = map_ok (\<lambda>n. w\<lparr>inodes := (inodes w)(n := (inodes w n)
     \<lparr>iuid := (case u of Some x \<Rightarrow> x | None \<Rightarrow> iuid (inodes w n)),
      igid := (case g of Some x \<Rightarrow> x | None \<Rightarrow> igid (inodes w n))\<rparr>)\<rparr>) (stat_follow w p)"

definition sys_chmod :: "string list \<Rightarrow> nat \<Rightarrow> 'z vfs_scheme \<Rightarrow> os_error + 'z vfs_scheme" where
  "sys_chmod p m w = map_ok (\<lambda>n. w\<lparr>inodes := (inodes w)(n := (inodes w n)\<lparr>imode := m\<rparr>)\<rparr>) (stat_follow w p)"

section \<open>System calls as effects\<close>

definition sys :: "('z vfs_scheme \<Rightarrow> os_error + 'z vfs_scheme) \<Rightarrow> ('z vfs_scheme, os_error, unit) io" where
  "sys f = (\<lambda>w. let (ok, os) = next_outcome (vouts w); w1 = w\<lparr>vouts := os\<rparr> in
     if ok then (case f w1 of Inl e \<Rightarrow> (Inl e, w1) | Inr w2 \<Rightarrow> (Inr (), w2)) else (Inl EIO, w1))"

definition sys_open :: "('z vfs_scheme \<Rightarrow> os_error + nat \<times> 'z vfs_scheme) \<Rightarrow> ('z vfs_scheme, os_error, nat) io" where
  "sys_open f = (\<lambda>w. let (ok, os) = next_outcome (vouts w); w1 = w\<lparr>vouts := os\<rparr> in
     if ok then (case f w1 of Inl e \<Rightarrow> (Inl e, w1) | Inr (n, w2) \<Rightarrow> (Inr n, w2)) else (Inl EIO, w1))"

definition sys_get :: "('z vfs_scheme \<Rightarrow> os_error + 'a) \<Rightarrow> ('z vfs_scheme, os_error, 'a) io" where
  "sys_get g = (\<lambda>w. let (ok, os) = next_outcome (vouts w); w1 = w\<lparr>vouts := os\<rparr> in
     if ok then (g w1, w1) else (Inl EIO, w1))"

text \<open>\<open>map_err\<close> of a call.\<close>

definition or_err :: "('e \<Rightarrow> 'f) \<Rightarrow> ('w, 'e, 'a) io \<Rightarrow> ('w, 'f, 'a) io" where
  "or_err h m = (\<lambda>w. case m w of (r, w1) \<Rightarrow> (map_err h r, w1))"

section \<open>Well-formed file systems\<close>

text \<open>
  The root is a directory, every other name lies in a directory, names are distinct and
  plain, inode numbers are used before \<open>fresh\<close>, and a directory has one name.
\<close>

definition wf_vfs :: "'z vfs_scheme \<Rightarrow> bool" where
  "wf_vfs w = (kind_at w [] = Some Folder \<and> distinct (map fst (names w))
     \<and> (\<forall>p n. ino w p = Some n \<longrightarrow> n < fresh w \<and> list_all plain_name p)
     \<and> (\<forall>p. p \<noteq> [] \<and> kind_at w p \<noteq> None \<longrightarrow> kind_at w (butlast p) = Some Folder))"

lemma kind_at_None: "kind_at w p = None \<longleftrightarrow> ino w p = None"
  by (simp add: kind_at_def)

lemma wf_parent: "wf_vfs w \<Longrightarrow> p \<noteq> [] \<Longrightarrow> kind_at w p \<noteq> None \<Longrightarrow> kind_at w (butlast p) = Some Folder"
  by (simp add: wf_vfs_def)

lemma wf_prefix: "wf_vfs w \<Longrightarrow> kind_at w (q @ t) \<noteq> None \<Longrightarrow> t \<noteq> [] \<Longrightarrow> kind_at w q = Some Folder"
proof (induction t rule: rev_induct)
  case (snoc x t)
  then have f: "kind_at w (q @ t) = Some Folder" using wf_parent[of w "q @ t @ [x]"] by (simp add: butlast_append)
  with snoc show ?case by (cases "t = []") auto
qed simp

lemma wf_root: "wf_vfs w \<Longrightarrow> kind_at w [] = Some Folder"
  by (simp add: wf_vfs_def)

lemma wf_plain: "wf_vfs w \<Longrightarrow> kind_at w p \<noteq> None \<Longrightarrow> list_all plain_name p"
  by (auto simp: wf_vfs_def kind_at_None)

lemma wf_fresh: "wf_vfs w \<Longrightarrow> ino w p = Some n \<Longrightarrow> n < fresh w"
  by (simp add: wf_vfs_def)

lemma ino_names: "ino w p \<noteq> None \<longleftrightarrow> p \<in> fst ` set (names w)"
  by (auto simp: ino_def map_of_eq_None_iff)

section \<open>Where a lookup ends\<close>

definition no_link :: "ikind option \<Rightarrow> bool" where
  "no_link k = (case k of None \<Rightarrow> False | Some (Link t) \<Rightarrow> False | Some x \<Rightarrow> True)"

lemma no_link_simps [simp]:
  "no_link (Some Folder)" "no_link (Some (Reg s))" "no_link (Some Special)" "\<not> no_link (Some (Link t))" "\<not> no_link None"
  by (simp_all add: no_link_def)

lemma walk_result:
  "walk w create b cur cs = Inr r \<Longrightarrow> wf_vfs w \<Longrightarrow> kind_at w cur = Some Folder \<Longrightarrow>
     no_link (kind_at w r) \<or> create \<and> r \<noteq> [] \<and> kind_at w r = None \<and> kind_at w (butlast r) = Some Folder"
proof (induction w create b cur cs rule: walk.induct)
  case (2 w create b cur c cs)
  show ?case
  proof (cases "c = ''..''")
    case True
    have "kind_at w (butlast cur) = Some Folder"
      using wf_parent[OF 2(5), of cur] 2(6) wf_root[OF 2(5)] by (cases "cur = []") (auto simp: kind_at_def)
    with 2(1)[OF True] 2(4-) True show ?thesis by simp
  next
    case False
    with 2(2)[OF False] 2(3)[OF False] 2(4-) wf_root show ?thesis
      by (auto split: option.splits ikind.splits if_splits)
  qed
qed simp

lemma walk_real:
  "wf_vfs w \<Longrightarrow> no_link (kind_at w (cur @ cs)) \<Longrightarrow> walk w create b cur cs = Inr (cur @ cs)"
proof (induction cs arbitrary: cur)
  case (Cons c cs)
  have p: "kind_at w ((cur @ [c]) @ cs) \<noteq> None"
  proof
    assume "kind_at w ((cur @ [c]) @ cs) = None"
    with Cons.prems(2) show False by (simp only: append.assoc append_Cons append_Nil no_link_simps)
  qed
  then have "list_all plain_name (cur @ [c] @ cs)" using wf_plain[OF Cons.prems(1), of "cur @ [c] @ cs"] by simp
  then have c: "c \<noteq> ''..''" by (auto simp: plain_name_def)
  show ?case
  proof (cases "cs = []")
    case True
    with Cons c show ?thesis by (auto simp: no_link_def split: option.splits ikind.splits)
  next
    case False
    then have "kind_at w (cur @ [c]) = Some Folder" using wf_prefix[OF Cons.prems(1) p] by simp
    with Cons c show ?thesis by simp
  qed
qed simp

text \<open>Looking up a path is looking up a beginning of it, and the rest from where that ends.\<close>

lemma walk_append:
  "walk w False b cur xs = Inr r \<Longrightarrow> kind_at w r = Some Folder \<Longrightarrow>
     \<exists>b1 \<le> b. walk w create b cur (xs @ ys) = walk w create b1 r ys"
proof (induction w "False" b cur xs rule: walk.induct)
  case (2 w b cur c xs)
  show ?case
  proof (cases "c = ''..''")
    case True
    with 2(1)[OF True] 2(4-) show ?thesis by simp
  next
    case False
    show ?thesis
    proof (cases "kind_at w (cur @ [c])")
      case (Some k)
      show ?thesis
      proof (cases k)
        case Folder
        with 2(2)[OF False _ Folder] Some 2(4-) False show ?thesis by simp
      next
        case (Link t)
        with Some 2(4) False have "b \<noteq> 0" by (auto split: if_splits)
        with 2(3)[OF False _ Link] Some Link 2(4-) False obtain b1 where
          "b1 \<le> b - 1" "walk w create b cur ((c # xs) @ ys) = walk w create b1 r ys" by auto
        then show ?thesis by (meson diff_le_self le_trans)
      qed (use Some 2(4-) False in \<open>auto split: if_splits\<close>)
    qed (use 2(4-) False in auto)
  qed
qed auto

end
