(* ===== verification/FileScope.thy ===== *)
theory FileScope
  imports LinkFs
begin

text \<open>
  \<open>files/scope.rs\<close>: the confinement of an app's file manager to its roots, with what the
  resolution of a path guarantees about the system calls made on the result.
\<close>

text \<open>The errors of the file service (\<open>files/mod.rs\<close>).\<close>

datatype file_error =
    FNotFound "string list" | FExists "string list" | FPermissionDenied "string list" | FInvalidPath path_problem
  | FNotADirectory "string list" | FIsADirectory "string list" | FDirectoryNotEmpty "string list"
  | FDestinationInsideSource "string list" "string list" | FProtected "string list" | FOutsideScope "string list"
  | FUnknownUser string | FUnknownGroup string | FIo "string list" os_error

definition io_error :: "string list \<Rightarrow> os_error \<Rightarrow> file_error" where
  "io_error p e = (case e of ENOENT \<Rightarrow> FNotFound p | EACCES \<Rightarrow> FPermissionDenied p | EEXIST \<Rightarrow> FExists p
     | ENOTEMPTY \<Rightarrow> FDirectoryNotEmpty p | _ \<Rightarrow> FIo p e)"

definition contains_path :: "string list list \<Rightarrow> string list \<Rightarrow> bool" where
  "contains_path roots p = list_ex (\<lambda>r. within r p) roots"

text \<open>The roots of a scope: canonical, without repetitions.\<close>

fun scope_new :: "'z vfs_scheme \<Rightarrow> string list list \<Rightarrow> string list list \<Rightarrow> file_error + string list list" where
  "scope_new w reals [] = Inr reals"
| "scope_new w reals (r # rs) = and_then (map_err (FIo r) (follow w r)) (\<lambda>real.
     scope_new w (if real \<in> set reals then reals else reals @ [real]) rs)"

function canon_prefix :: "'z vfs_scheme \<Rightarrow> string list \<Rightarrow> file_error + string list" where
  "canon_prefix w p = (case follow w p of
     Inr real \<Rightarrow> Inr real
   | Inl e \<Rightarrow> if e = ENOENT then (if p = [] then Inl (FIo p e)
         else map_ok (\<lambda>r. r @ [last p]) (canon_prefix w (butlast p)))
       else Inl (FIo p e))"
  by pat_completeness auto

termination
  by (relation "measure (\<lambda>(w, p). length p)") auto

declare canon_prefix.simps [simp del]

definition resolve :: "string list list \<Rightarrow> string list \<Rightarrow> 'z vfs_scheme \<Rightarrow> file_error + string list" where
  "resolve roots p w = and_then (canon_prefix w p) (\<lambda>real.
     if contains_path roots real then Inr real else Inl (FOutsideScope p))"

section \<open>More on lookups\<close>

text \<open>An error before the end of a path is the error of the path.\<close>

lemma walk_error:
  "walk w False b cur xs = Inl e \<Longrightarrow> ys \<noteq> [] \<or> \<not> create \<Longrightarrow> walk w create b cur (xs @ ys) = Inl e"
proof (induction w "False" b cur xs rule: walk.induct)
  case (2 w b cur c xs)
  show ?case
  proof (cases "c = ''..''")
    case True
    with 2(1)[OF True] 2(4-) show ?thesis by simp
  next
    case False
    show ?thesis
    proof (cases "kind_at w (cur @ [c])")
      case (Some k)
      show ?thesis
      proof (cases k)
        case Folder
        with 2(2)[OF False _ Folder] Some 2(4-) False show ?thesis by simp
      next
        case (Link t)
        with 2(3)[OF False _ Link] Some 2(4-) False show ?thesis by (cases "b = 0") auto
      qed (use Some 2(4-) False in \<open>auto split: if_splits\<close>)
    qed (use 2(4-) False in auto)
  qed
qed simp

text \<open>A path through a file.\<close>

lemma walk_file:
  "walk w False b cur xs = Inr r \<Longrightarrow> kind_at w cur = Some Folder \<Longrightarrow> kind_at w r \<noteq> Some Folder \<Longrightarrow> wf_vfs w \<Longrightarrow>
     ys \<noteq> [] \<Longrightarrow> walk w False b cur (xs @ ys) = Inl ENOTDIR"
proof (induction w "False" b cur xs rule: walk.induct)
  case (2 w b cur c xs)
  show ?case
  proof (cases "c = ''..''")
    case True
    have "kind_at w (butlast cur) = Some Folder"
      using wf_parent[OF 2(7), of cur] 2(5) by (cases "cur = []") auto
    with 2(1)[OF True] 2(4-) True show ?thesis by simp
  next
    case False
    show ?thesis
    proof (cases "kind_at w (cur @ [c])")
      case (Some k)
      show ?thesis
      proof (cases k)
        case Folder
        with 2(2)[OF False _ Folder] Some 2(4-) False show ?thesis by simp
      next
        case (Link t)
        with Some 2(4) False have "b \<noteq> 0" by (auto split: if_splits)
        with 2(3)[OF False _ Link] Some Link 2(4-) False wf_root[OF 2(7)] show ?thesis by simp
      qed (use Some 2(4-) False in \<open>auto split: if_splits\<close>)
    qed (use 2(4-) False in auto)
  qed
qed simp

text \<open>More links allowed do not find a missing name.\<close>

lemma walk_missing: "walk w False b cur xs = Inl ENOENT \<Longrightarrow> b \<le> b1 \<Longrightarrow> walk w False b1 cur xs = Inl ENOENT"
proof (induction w "False" b cur xs arbitrary: b1 rule: walk.induct)
  case (2 w b cur c xs)
  show ?case
  proof (cases "c = ''..''")
    case True
    with 2(1)[OF True] 2(4-) show ?thesis by simp
  next
    case False
    show ?thesis
    proof (cases "kind_at w (cur @ [c])")
      case (Some k)
      show ?thesis
      proof (cases k)
        case Folder
        with 2(2)[OF False _ Folder] Some 2(4-) False show ?thesis by simp
      next
        case (Link t)
        with Some 2(4) False have "b \<noteq> 0" by (auto split: if_splits)
        with 2(3)[OF False _ Link, where ?b1.0 = "b1 - 1"] Some Link 2(4-) False show ?thesis by simp
      qed (use Some 2(4-) False in \<open>auto split: if_splits\<close>)
    qed (use 2(4-) False in auto)
  qed
qed simp


section \<open>What a resolved path is\<close>

text \<open>
  A settled path either names something that is not a link, or goes on from a directory with
  a name whose lookup finds nothing: a missing name, or a link to nothing.
\<close>

definition settled :: "'z vfs_scheme \<Rightarrow> string list \<Rightarrow> bool" where
  "settled w r = (no_link (kind_at w r)
     \<or> (\<exists>q t. r = q @ t \<and> t \<noteq> [] \<and> kind_at w q = Some Folder \<and> follow w (q @ [hd t]) = Inl ENOENT))"

lemma no_link_parent: "wf_vfs w \<Longrightarrow> no_link (kind_at w p) \<Longrightarrow> p \<noteq> [] \<Longrightarrow> kind_at w (butlast p) = Some Folder"
  using wf_parent[of w p] by (cases "kind_at w p") auto

lemma follow_real: "wf_vfs w \<Longrightarrow> no_link (kind_at w p) \<Longrightarrow> follow w p = Inr p"
  using walk_real[of w "[]" p] by (simp add: follow_def)

lemma follow_no_link: "wf_vfs w \<Longrightarrow> follow w p = Inr r \<Longrightarrow> no_link (kind_at w r)"
  using walk_result[of w False MAX_LINKS "[]" p r] wf_root by (auto simp: follow_def)

lemma walk_through:
  "wf_vfs w \<Longrightarrow> kind_at w (cur @ cs) = Some Folder \<Longrightarrow> walk w create b cur (cs @ ys) = walk w create b (cur @ cs) ys"
proof (induction cs arbitrary: cur)
  case (Cons c cs)
  have k: "kind_at w ((cur @ [c]) @ cs) \<noteq> None" using Cons.prems(2) by simp
  have "kind_at w (cur @ [c]) = Some Folder" using wf_prefix[OF Cons.prems(1) k] Cons.prems(2) by (cases "cs = []") auto
  moreover have "c \<noteq> ''..''" using wf_plain[OF Cons.prems(1) k] by (auto simp: plain_name_def)
  ultimately show ?case using Cons by simp
qed simp

lemma follow_child:
  assumes w: "wf_vfs w" and p: "follow w p = Inr q" "kind_at w q = Some Folder"
    and miss: "follow w (p @ [c]) = Inl ENOENT"
  shows "follow w (q @ [c]) = Inl ENOENT"
proof -
  obtain b1 where b1: "b1 \<le> MAX_LINKS" "walk w False MAX_LINKS [] (p @ [c]) = walk w False b1 q [c]"
    using walk_append[of w MAX_LINKS "[]" p q False "[c]"] p by (auto simp: follow_def)
  have "walk w False MAX_LINKS q [c] = Inl ENOENT"
    using walk_missing[of w b1 q "[c]" MAX_LINKS] b1 miss by (simp add: follow_def del: walk.simps)
  then show ?thesis using walk_through[OF w, of "[]" q False MAX_LINKS "[c]"] p(2) by (simp add: follow_def del: walk.simps)
qed

lemma canon_prefix_cases:
  "canon_prefix w p = Inr r \<Longrightarrow> wf_vfs w \<Longrightarrow> follow w p = Inr r
     \<or> follow w p = Inl ENOENT \<and> (\<exists>q t. r = q @ t \<and> t \<noteq> [] \<and> kind_at w q = Some Folder \<and> follow w (q @ [hd t]) = Inl ENOENT)"
proof (induction w p arbitrary: r rule: canon_prefix.induct)
  case (1 w p)
  show ?case
  proof (cases "follow w p")
    case (Inr real)
    with 1(2) show ?thesis by (simp add: canon_prefix.simps)
  next
    case (Inl e)
    with 1(2) obtain r0 where e: "e = ENOENT" "p \<noteq> []" "canon_prefix w (butlast p) = Inr r0" "r = r0 @ [last p]"
      by (subst (asm) canon_prefix.simps) (auto split: if_splits)
    have p: "butlast p @ [last p] = p" using e(2) by simp
    from 1(1)[OF Inl e(1,2,3) 1(3)] show ?thesis
    proof
      assume f: "follow w (butlast p) = Inr r0"
      have dir: "kind_at w r0 = Some Folder"
      proof (rule ccontr)
        assume "kind_at w r0 \<noteq> Some Folder"
        then have "follow w p = Inl ENOTDIR"
          using walk_file[of w MAX_LINKS "[]" "butlast p" r0 "[last p]"] f wf_root[OF 1(3)] 1(3) p by (simp add: follow_def)
        with Inl e(1) show False by simp
      qed
      have "follow w (r0 @ [last p]) = Inl ENOENT"
        using follow_child[OF 1(3) f dir, of "last p"] Inl e(1) p by simp
      with Inl e dir show ?thesis by (intro disjI2 conjI exI[of _ r0] exI[of _ "[last p]"]) auto
    next
      assume "follow w (butlast p) = Inl ENOENT \<and> (\<exists>q t. r0 = q @ t \<and> t \<noteq> [] \<and> kind_at w q = Some Folder
        \<and> follow w (q @ [hd t]) = Inl ENOENT)"
      then obtain q t where "r0 = q @ t" "t \<noteq> []" "kind_at w q = Some Folder" "follow w (q @ [hd t]) = Inl ENOENT" by blast
      with Inl e show ?thesis by (intro disjI2 conjI exI[of _ q] exI[of _ "t @ [last p]"]) auto
    qed
  qed
qed

lemma canon_prefix_settled: "canon_prefix w p = Inr r \<Longrightarrow> wf_vfs w \<Longrightarrow> settled w r"
  using canon_prefix_cases[of w p r] follow_no_link[of w p r] by (auto simp: settled_def)

lemma resolve_Inr: "resolve roots p w = Inr r \<longleftrightarrow> canon_prefix w p = Inr r \<and> contains_path roots r"
  by (auto simp: resolve_def split: if_splits)

text \<open>The system calls on a settled path act on that path, or on a link it ends in.\<close>

lemma follow_settled: "wf_vfs w \<Longrightarrow> settled w r \<Longrightarrow> follow w r = Inr x \<Longrightarrow> x = r"
proof -
  assume a: "wf_vfs w" "settled w r" "follow w r = Inr x"
  show "x = r"
  proof (cases "no_link (kind_at w r)")
    case True
    with a follow_real[OF a(1), of r] show ?thesis by simp
  next
    case False
    with a(2) obtain q t where q: "r = q @ t" "t \<noteq> []" "follow w (q @ [hd t]) = Inl ENOENT" by (auto simp: settled_def)
    then have "follow w ((q @ [hd t]) @ tl t) = Inl ENOENT"
      using walk_error[of w MAX_LINKS "[]" "q @ [hd t]" ENOENT "tl t" False] by (simp add: follow_def del: walk.simps)
    with q a(3) show ?thesis by simp
  qed
qed

lemma place_settled: "wf_vfs w \<Longrightarrow> settled w r \<Longrightarrow> place w r = Inr x \<Longrightarrow>
    x = r \<and> (r \<noteq> [] \<longrightarrow> kind_at w (butlast r) = Some Folder)"
proof -
  assume a: "wf_vfs w" "settled w r" "place w r = Inr x"
  show "x = r \<and> (r \<noteq> [] \<longrightarrow> kind_at w (butlast r) = Some Folder)"
  proof (cases "r = []")
    case False
    then obtain d where d: "follow w (butlast r) = Inr d" "kind_at w d = Some Folder" "x = d @ [last r]"
      using a(3) by (auto simp: place_def split: if_splits)
    show ?thesis
    proof (cases "no_link (kind_at w r)")
      case True
      then have "kind_at w (butlast r) = Some Folder" using no_link_parent[OF a(1) _ False] by blast
      with follow_real[OF a(1), of "butlast r"] d False show ?thesis by simp
    next
      case no: False
      with a(2) obtain q t where q: "r = q @ t" "t \<noteq> []" "kind_at w q = Some Folder" "follow w (q @ [hd t]) = Inl ENOENT"
        by (auto simp: settled_def)
      show ?thesis
      proof (cases "tl t = []")
        case True
        then obtain c where t: "t = [c]" using q(2) by (cases t) auto
        with q(1) have "butlast r = q" "last r = c" by simp_all
        with follow_real[OF a(1), of q] q t d show ?thesis by simp
      next
        case more: False
        then have "butlast r = (q @ [hd t]) @ butlast (tl t)" using q(1,2) by (cases t) (auto simp: butlast_append)
        then have "follow w (butlast r) = Inl ENOENT"
          using walk_error[of w MAX_LINKS "[]" "q @ [hd t]" ENOENT "butlast (tl t)" False] q(4)
          by (simp add: follow_def del: walk.simps)
        with d(1) show ?thesis by simp
      qed
    qed
  qed (use a in \<open>simp add: place_def\<close>)
qed

lemma open_place_settled:
  "wf_vfs w \<Longrightarrow> settled w r \<Longrightarrow> open_place w r = Inr x \<Longrightarrow> \<not> (\<exists>l. kind_at w r = Some (Link l)) \<Longrightarrow>
     x = r \<and> (r \<noteq> [] \<longrightarrow> kind_at w (butlast r) = Some Folder)"
proof -
  assume a: "wf_vfs w" "settled w r" "open_place w r = Inr x" "\<not> (\<exists>l. kind_at w r = Some (Link l))"
  show "x = r \<and> (r \<noteq> [] \<longrightarrow> kind_at w (butlast r) = Some Folder)"
  proof (cases "no_link (kind_at w r)")
    case True
    with a walk_real[OF a(1), of "[]" r True MAX_LINKS] no_link_parent[OF a(1), of r] show ?thesis by (auto simp: open_place_def)
  next
    case no: False
    with a(2) obtain q t where q: "r = q @ t" "t \<noteq> []" "kind_at w q = Some Folder" "follow w (q @ [hd t]) = Inl ENOENT"
      by (auto simp: settled_def)
    show ?thesis
    proof (cases "tl t = []")
      case True
      then obtain c where t: "t = [c]" using q(2) by (cases t) auto
      have "kind_at w r = None"
      proof (cases "kind_at w r")
        case (Some k)
        with no a(4) show ?thesis by (cases k) auto
      qed
      then have none: "kind_at w (q @ [c]) = None" using q(1) t by simp
      have "c \<noteq> ''..''"
      proof
        assume dots: "c = ''..''"
        have "follow w (q @ [c]) = walk w False MAX_LINKS q [c]"
          using walk_through[OF a(1), of "[]" q False MAX_LINKS "[c]"] q(3) by (simp add: follow_def del: walk.simps)
        with q(4) t dots show False by simp
      qed
      moreover have "open_place w r = walk w True MAX_LINKS q [c]"
        using walk_through[OF a(1), of "[]" q True MAX_LINKS "[c]"] q(1,3) t by (simp add: open_place_def del: walk.simps)
      ultimately have "x = q @ [c]" using a(3) none by simp
      with q(1,3) t show ?thesis by simp
    next
      case more: False
      then have "r = (q @ [hd t]) @ tl t" using q(1,2) by simp
      then have "open_place w r = Inl ENOENT"
        using walk_error[of w MAX_LINKS "[]" "q @ [hd t]" ENOENT "tl t" True] q(4) more
        by (simp add: follow_def open_place_def del: walk.simps)
      with a(3) show ?thesis by simp
    qed
  qed
qed

end
