(* ===== verification/FileOps.thy ===== *)
theory FileOps
  imports FileScope Numerals "HOL-Library.Product_Lexorder"
begin

text \<open>
  \<open>files/mod.rs\<close> and \<open>files/walk.rs\<close>: the operations of the file service. A scope is the list
  of its roots; without one a path is used as it is. Names of user and group ids come from
  \<open>getpwuid_r\<close> and \<open>getgrgid_r\<close> and are arguments, as are the random part of an upload's
  temporary name and the archive format (\<open>pack\<close>, the tar and gzip crates).
\<close>

definition MAX_LISTING_ENTRIES :: nat where "MAX_LISTING_ENTRIES = 10000"

definition PSEUDO_ROOTS :: "string list list" where
  "PSEUDO_ROOTS = [[''proc''], [''sys''], [''dev''], [''run'']]"

definition PROTECTED_PATHS :: "string list list" where
  "PROTECTED_PATHS = [[], [''boot''], [''etc''], [''usr''], [''var''], [''asc'']]"

definition is_protected :: "string list \<Rightarrow> bool" where
  "is_protected p = (p \<in> set PROTECTED_PATHS)"

definition in_pseudo_root :: "string list \<Rightarrow> bool" where
  "in_pseudo_root p = list_ex (\<lambda>r. within r p) PSEUDO_ROOTS"

definition require_root :: "bool \<Rightarrow> file_error + unit" where
  "require_root is_root = guard is_root (FProtected [])"

type_synonym ('z, 'a) fio = "('z vfs_scheme, file_error, 'a) io"

definition with_path :: "string \<Rightarrow> ('z, string list) fio" where
  "with_path raw = lift_result (map_err FInvalidPath (safe_path raw))"

text \<open>\<open>scoped\<close>: the resolution reads the disk, so it may fail.\<close>

definition scoped :: "string list list option \<Rightarrow> string list \<Rightarrow> ('z, string list) fio" where
  "scoped scope p = (case scope of None \<Rightarrow> ret p
     | Some roots \<Rightarrow> bind (or_err (FIo p) (sys_get Inr)) (\<lambda>w. lift_result (resolve roots p w)))"

abbreviation fsys :: "string list \<Rightarrow> ('z vfs_scheme \<Rightarrow> os_error + 'z vfs_scheme) \<Rightarrow> ('z, unit) fio" where
  "fsys p f \<equiv> or_err (io_error p) (sys f)"

abbreviation fget :: "string list \<Rightarrow> ('z vfs_scheme \<Rightarrow> os_error + 'a) \<Rightarrow> ('z, 'a) fio" where
  "fget p g \<equiv> or_err (io_error p) (sys_get g)"

section \<open>Describing and listing\<close>

datatype file_kind = KFile | KDirectory | KSymlink | KOther

record file_entry =
  fe_name :: string
  fe_kind :: file_kind
  fe_size :: nat
  fe_modified :: int
  fe_mode :: nat
  fe_uid :: nat
  fe_gid :: nat
  fe_owner :: string
  fe_group :: string
  fe_symlink :: bool
  fe_target :: "string option"
  fe_target_kind :: "file_kind option"

record name_lookup =
  user_of :: "nat \<Rightarrow> string option"
  group_of :: "nat \<Rightarrow> string option"

definition name_or_id :: "(nat \<Rightarrow> string option) \<Rightarrow> nat \<Rightarrow> string" where
  "name_or_id f n = (case f n of Some s \<Rightarrow> s | None \<Rightarrow> show_nat n)"

fun kind_of :: "ikind \<Rightarrow> file_kind" where
  "kind_of Folder = KDirectory"
| "kind_of (Reg s) = KFile"
| "kind_of k = KOther"

fun size_of :: "ikind \<Rightarrow> nat" where
  "size_of (Reg s) = length s"
| "size_of k = 0"

definition describe :: "name_lookup \<Rightarrow> string list \<Rightarrow> 'z vfs_scheme \<Rightarrow> os_error + file_entry" where
  "describe nl p w = map_ok (\<lambda>n. let v = inodes w n in
     \<lparr>fe_name = (if p = [] then ''/'' else last p),
      fe_kind = (case ikind v of Link t \<Rightarrow> KSymlink | k \<Rightarrow> kind_of k),
      fe_size = size_of (ikind v), fe_modified = imtime v, fe_mode = imode v mod 4096, fe_uid = iuid v, fe_gid = igid v,
      fe_owner = name_or_id (user_of nl) (iuid v), fe_group = name_or_id (group_of nl) (igid v),
      fe_symlink = (case ikind v of Link t \<Rightarrow> True | _ \<Rightarrow> False),
      fe_target = (case ikind v of Link t \<Rightarrow> Some t | _ \<Rightarrow> None),
      fe_target_kind = (case ikind v of Link t \<Rightarrow> map_option (\<lambda>m. kind_of (ikind (inodes w m))) (ok_of (stat_follow w p))
        | _ \<Rightarrow> None)\<rparr>) (lstat w p)"

text \<open>\<open>to_lowercase\<close> on U+0000..U+00FF.\<close>

definition lower_latin :: "char \<Rightarrow> char" where
  "lower_latin c = (if is_upper c \<or> 192 \<le> code c \<and> code c \<le> 222 \<and> code c \<noteq> 215 then char_of (code c + 32) else c)"

record listing =
  li_path :: string
  li_entries :: "file_entry list"
  li_truncated :: bool
  li_total :: nat

definition sort_entries :: "file_entry list \<Rightarrow> file_entry list" where
  "sort_entries es = sort_key (\<lambda>e. (fe_kind e \<noteq> KDirectory, map lower_latin (fe_name e))) es"

definition list_directory :: "name_lookup \<Rightarrow> string \<Rightarrow> bool \<Rightarrow> string list list option \<Rightarrow> ('z, listing) fio" where
  "list_directory nl raw hidden scope =
     bind (with_path raw) (\<lambda>safe. bind (scoped scope safe) (\<lambda>target.
     bind (fget target (\<lambda>w. map_ok (\<lambda>n. ikind (inodes w n)) (lstat w target))) (\<lambda>k.
     seq (fail_if (k \<noteq> Folder) (FNotADirectory target))
     (bind (fget target (\<lambda>w. map_ok (\<lambda>q. (w, entries_of w q)) (follow w target))) (\<lambda>(w, es).
       let shown = filter (\<lambda>c. hidden \<or> \<not> starts_with ''.'' c) es;
           found = List.map_filter (\<lambda>c. ok_of (describe nl (target @ [c]) w)) shown in
       ret \<lparr>li_path = show_path safe, li_entries = take MAX_LISTING_ENTRIES (sort_entries found),
            li_truncated = (MAX_LISTING_ENTRIES < length found), li_total = length found\<rparr>)))))"

definition stat_path :: "name_lookup \<Rightarrow> string \<Rightarrow> string list list option \<Rightarrow> ('z, file_entry \<times> string) fio" where
  "stat_path nl raw scope =
     bind (with_path raw) (\<lambda>safe. bind (scoped scope safe) (\<lambda>target.
     bind (fget target (describe nl target)) (\<lambda>e.
       ret (e, show_path (case parent safe of Some q \<Rightarrow> q | None \<Rightarrow> [])))))"

section \<open>Creating, moving and linking\<close>

text \<open>\<open>fs::create_dir_all\<close>.\<close>

function create_dir_all :: "string list \<Rightarrow> ('z vfs_scheme, os_error, unit) io" where
  "create_dir_all p = bind (catch (sys (sys_mkdir p))) (\<lambda>r. case r of
     Inr u \<Rightarrow> ret ()
   | Inl e \<Rightarrow> bind (asks (\<lambda>w. is_dir_follow w p)) (\<lambda>d.
       if e = ENOENT then
         (if p = [] then throw EIO
          else seq (create_dir_all (butlast p)) (bind (catch (sys (sys_mkdir p))) (\<lambda>r2. case r2 of
             Inr u \<Rightarrow> ret ()
           | Inl e2 \<Rightarrow> bind (asks (\<lambda>w. is_dir_follow w p)) (\<lambda>d2. if d2 then ret () else throw e2))))
       else if d then ret () else throw e))"
  by pat_completeness auto

termination
  by (relation "measure length") auto

declare create_dir_all.simps [simp del]

definition create_directory :: "name_lookup \<Rightarrow> string \<Rightarrow> bool \<Rightarrow> string list list option \<Rightarrow> ('z, file_entry) fio" where
  "create_directory nl raw parents scope =
     bind (with_path raw) (\<lambda>safe. bind (scoped scope safe) (\<lambda>target.
     seq (fail_if (is_protected target) (FProtected target))
     (seq (or_err (io_error target) (if parents then create_dir_all target else sys (sys_mkdir target)))
     (fget target (describe nl target)))))"

definition move_path :: "name_lookup \<Rightarrow> string \<Rightarrow> string \<Rightarrow> bool \<Rightarrow> string list list option \<Rightarrow> ('z, file_entry) fio" where
  "move_path nl raw_src raw_dst overwrite scope =
     bind (with_path raw_src) (\<lambda>s. bind (with_path raw_dst) (\<lambda>d.
     bind (scoped scope s) (\<lambda>src. bind (scoped scope d) (\<lambda>dst.
     seq (fail_if (is_protected src \<or> is_protected dst \<or> in_pseudo_root src \<or> in_pseudo_root dst) (FProtected dst))
     (seq (fail_if (within src dst) (FDestinationInsideSource src dst))
     (bind (asks (\<lambda>w. exists_follow w dst)) (\<lambda>there.
     seq (fail_if (\<not> overwrite \<and> there) (FExists dst))
     (seq (fsys dst (sys_rename src dst))
     (fget dst (describe nl dst))))))))))"

datatype link_kind = Symbolic | Hard

definition resolve_link_target :: "string list \<Rightarrow> string \<Rightarrow> string" where
  "resolve_link_target dir target =
     show_path (foldl (\<lambda>acc c. if c = ''..'' then butlast acc else acc @ [c]) []
       (if starts_with ''/'' target then components target else dir @ components target))"

definition create_link ::
  "name_lookup \<Rightarrow> string \<Rightarrow> string \<Rightarrow> link_kind \<Rightarrow> string list list option \<Rightarrow> ('z, file_entry) fio" where
  "create_link nl raw raw_target k scope =
     bind (with_path raw) (\<lambda>safe.
     bind (asks (\<lambda>w. lstat w safe)) (\<lambda>there.
     seq (fail_if (case there of Inl e \<Rightarrow> False | Inr n \<Rightarrow> True) (FExists safe))
     (bind (scoped scope safe) (\<lambda>link.
     seq (fail_if (is_protected link \<or> in_pseudo_root link) (FProtected link))
     (seq (fail_if (raw_target = [] \<or> NUL \<in> set raw_target) (FInvalidPath EmptyLinkTarget))
     (bind (with_path (resolve_link_target (case parent safe of Some q \<Rightarrow> q | None \<Rightarrow> safe) raw_target)) (\<lambda>resolved.
     bind (scoped scope resolved) (\<lambda>target.
     seq (case k of
            Symbolic \<Rightarrow> fsys link (sys_symlink raw_target link)
          | Hard \<Rightarrow> bind (fget target (\<lambda>w. map_ok (\<lambda>n. ikind (inodes w n)) (lstat w target))) (\<lambda>x.
              seq (fail_if (x = Folder) (FIsADirectory target)) (fsys link (sys_link target link))))
     (fget link (describe nl link))))))))))"

section \<open>Copying and archiving\<close>

text \<open>The depth of the tree bounds the recursion of the walkers.\<close>

definition tree_depth :: "'z vfs_scheme \<Rightarrow> nat" where
  "tree_depth w = Suc (foldr (\<lambda>(p, n) m. max (length p) m) (names w) 0)"

text \<open>\<open>fs::copy\<close>: the source is opened first, the destination is emptied, then the bytes move.\<close>

definition copy_bytes :: "nat \<Rightarrow> nat \<Rightarrow> 'z vfs_scheme \<Rightarrow> os_error + 'z vfs_scheme" where
  "copy_bytes n m w = (case ikind (inodes w n) of Reg s \<Rightarrow> Inr (write_handle m s w) | _ \<Rightarrow> Inr w)"

definition copy_file :: "string list \<Rightarrow> string list \<Rightarrow> ('z vfs_scheme, os_error, unit) io" where
  "copy_file src dst =
     bind (sys_get (\<lambda>w. map_ok (\<lambda>n. (n, inodes w n)) (stat_follow w src))) (\<lambda>(n, v).
     seq (fail_if (case ikind v of Reg s \<Rightarrow> False | _ \<Rightarrow> True) EINVAL)
     (bind (sys_open (open_trunc (imode v) dst)) (\<lambda>m.
     seq (sys (\<lambda>w. Inr (w\<lparr>inodes := (inodes w)(m := (inodes w m)\<lparr>imode := imode v\<rparr>)\<rparr>)))
     (sys (copy_bytes n m)))))"

fun sum_all :: "('a \<Rightarrow> ('w, 'e, nat \<times> nat) io) \<Rightarrow> 'a list \<Rightarrow> ('w, 'e, nat \<times> nat) io" where
  "sum_all f [] = ret (0, 0)"
| "sum_all f (x # xs) = bind (f x) (\<lambda>(a, b). bind (sum_all f xs) (\<lambda>(c, d). ret (a + c, b + d)))"

fun copy_recursive :: "nat \<Rightarrow> string list \<Rightarrow> string list \<Rightarrow> ('z, nat \<times> nat) fio" where
  "copy_recursive fuel src dst =
     bind (fget src (\<lambda>w. map_ok (\<lambda>n. ikind (inodes w n)) (lstat w src))) (\<lambda>k. case k of
       Link t \<Rightarrow> seq (fsys dst (sys_symlink t dst)) (ret (1, 0))
     | Folder \<Rightarrow> seq (or_err (io_error dst) (create_dir_all dst))
         (bind (fget src (\<lambda>w. map_ok (entries_of w) (follow w src))) (\<lambda>es.
           (case fuel of 0 \<Rightarrow> throw (FIo src EIO)
            | Suc n \<Rightarrow> sum_all (\<lambda>c. copy_recursive n (src @ [c]) (dst @ [c])) es)))
     | _ \<Rightarrow> seq (or_err (io_error src) (copy_file src dst)) (ret (1, size_of k)))"

definition copy_path ::
  "name_lookup \<Rightarrow> string \<Rightarrow> string \<Rightarrow> bool \<Rightarrow> string list list option \<Rightarrow> ('z, file_entry \<times> nat \<times> nat) fio" where
  "copy_path nl raw_src raw_dst overwrite scope =
     bind (with_path raw_src) (\<lambda>s. bind (with_path raw_dst) (\<lambda>d.
     bind (scoped scope s) (\<lambda>src. bind (scoped scope d) (\<lambda>dst.
     seq (fail_if (is_protected dst \<or> in_pseudo_root src) (FProtected dst))
     (seq (fail_if (within src dst) (FDestinationInsideSource src dst))
     (bind (asks (\<lambda>w. exists_follow w dst)) (\<lambda>there.
     seq (fail_if (\<not> overwrite \<and> there) (FExists dst))
     (bind (asks tree_depth) (\<lambda>n. bind (copy_recursive n src dst) (\<lambda>(files, bytes).
     bind (fget dst (describe nl dst)) (\<lambda>e. ret (e, bytes, files))))))))))))"

text \<open>The members of an archive: relative names with contents; links are left out.\<close>

fun collect :: "('a \<Rightarrow> ('w, 'e, 'b list) io) \<Rightarrow> 'a list \<Rightarrow> ('w, 'e, 'b list) io" where
  "collect f [] = ret []"
| "collect f (x # xs) = bind (f x) (\<lambda>a. bind (collect f xs) (\<lambda>b. ret (a @ b)))"

definition content_of :: "ikind \<Rightarrow> string" where
  "content_of k = (case k of Reg s \<Rightarrow> s | _ \<Rightarrow> [])"

definition read_whole :: "string list \<Rightarrow> 'z vfs_scheme \<Rightarrow> os_error + string" where
  "read_whole p w = map_ok (\<lambda>n. content_of (ikind (inodes w n))) (stat_follow w p)"

fun append_named :: "nat \<Rightarrow> string list \<Rightarrow> string \<Rightarrow> ('z, (string \<times> string) list) fio" where
  "append_named fuel p rel =
     bind (fget p (\<lambda>w. map_ok (\<lambda>n. ikind (inodes w n)) (lstat w p))) (\<lambda>k. case k of
       Link t \<Rightarrow> ret []
     | Folder \<Rightarrow> bind (fget p (\<lambda>w. map_ok (entries_of w) (follow w p))) (\<lambda>es.
         (case fuel of 0 \<Rightarrow> throw (FIo p EIO)
          | Suc n \<Rightarrow> collect (\<lambda>c. append_named n (p @ [c]) (rel @ ''/'' @ c)) es))
     | _ \<Rightarrow> bind (fget p (read_whole p)) (\<lambda>s. ret [(rel, s)]))"

datatype archive_format = TarGz | Zip

definition create_archive ::
  "name_lookup \<Rightarrow> ((string \<times> string) list \<Rightarrow> string) \<Rightarrow> string \<Rightarrow> string list \<Rightarrow> string \<Rightarrow> archive_format \<Rightarrow>
   string list list option \<Rightarrow> ('z, file_entry \<times> nat \<times> nat) fio" where
  "create_archive nl pack raw_dir members raw_archive format scope =
     seq (fail_if (format \<noteq> TarGz) (FInvalidPath OnlyTarGz))
     (bind (with_path raw_dir) (\<lambda>dir. bind (scoped scope dir) (\<lambda>dir_target.
     seq (fail_if (in_pseudo_root dir_target) (FProtected dir_target))
     (bind (with_path raw_archive) (\<lambda>arch. bind (scoped scope arch) (\<lambda>target.
     seq (fail_if (is_protected target) (FProtected target))
     (bind (with_path (show_path dir_target)) (\<lambda>base.
     bind (or_err (io_error target) (sys_open (open_trunc 420 target))) (\<lambda>m.
     bind (asks tree_depth) (\<lambda>n.
     bind (collect (\<lambda>name. bind (lift_result (map_err FInvalidPath (child base name))) (\<lambda>c. append_named n c name)) members)
       (\<lambda>found.
     seq (fsys target (\<lambda>w. Inr (write_handle m (pack found) w)))
     (bind (asks (\<lambda>w. case stat_follow w target of Inl e \<Rightarrow> 0 | Inr x \<Rightarrow> size_of (ikind (inodes w x)))) (\<lambda>bytes.
     bind (fget target (describe nl target)) (\<lambda>e. ret (e, bytes, length found)))))))))))))))"

section \<open>Deleting\<close>

fun remove_tree :: "nat \<Rightarrow> string list \<Rightarrow> ('z vfs_scheme, os_error, unit) io" and
    remove_entries :: "nat \<Rightarrow> string list \<Rightarrow> string list \<Rightarrow> ('z vfs_scheme, os_error, unit) io" where
  "remove_tree 0 p = throw EIO"
| "remove_tree (Suc n) p =
     bind (sys_get (\<lambda>w. map_ok (entries_of w) (follow w p))) (\<lambda>es.
     seq (remove_entries n p es) (sys (sys_rmdir p)))"
| "remove_entries n p [] = ret ()"
| "remove_entries n p (c # cs) =
     bind (asks (\<lambda>w. kind_at w (p @ [c]))) (\<lambda>k.
     seq (if k = Some Folder then remove_tree n (p @ [c]) else sys (sys_unlink (p @ [c])))
     (remove_entries n p cs))"

definition delete_one :: "string \<Rightarrow> bool \<Rightarrow> string list list option \<Rightarrow> ('z, unit) fio" where
  "delete_one raw recursive scope =
     bind (with_path raw) (\<lambda>safe. bind (scoped scope safe) (\<lambda>p.
     seq (fail_if (is_protected p) (FProtected p))
     (bind (fget p (\<lambda>w. map_ok (\<lambda>n. ikind (inodes w n)) (lstat w p))) (\<lambda>k.
       if k = Folder then
         seq (fail_if (recursive \<and> in_pseudo_root p) (FProtected p))
         (if recursive then bind (asks tree_depth) (\<lambda>n. or_err (io_error p) (remove_tree n p))
          else fsys p (sys_rmdir p))
       else fsys p (sys_unlink p)))))"

fun delete_paths :: "string list \<Rightarrow> bool \<Rightarrow> string list list option \<Rightarrow>
    'z vfs_scheme \<Rightarrow> (nat \<times> (string \<times> file_error) list) \<times> 'z vfs_scheme" where
  "delete_paths [] recursive scope w = ((0, []), w)"
| "delete_paths (raw # rest) recursive scope w =
     (let (r, w1) = delete_one raw recursive scope w;
          ((n, fs), w2) = delete_paths rest recursive scope w1 in
      ((case r of Inr u \<Rightarrow> (Suc n, fs) | Inl e \<Rightarrow> (n, (raw, e) # fs)), w2))"

section \<open>Owners and modes\<close>

record system_user =
  su_name :: string
  su_uid :: nat
  su_home :: string

record system_group =
  sg_name :: string
  sg_gid :: nat

definition passwd_user :: "string \<Rightarrow> system_user option" where
  "passwd_user line = (if line = [] \<or> starts_with ''#'' line then None
     else (case split_char (CHR '':'') line of
         name # pw # u # g # gecos # rest \<Rightarrow> map_option (\<lambda>n. \<lparr>su_name = name, su_uid = n,
           su_home = (case rest of h # t \<Rightarrow> h | [] \<Rightarrow> [])\<rparr>) (parse_u32 u)
       | _ \<Rightarrow> None))"

definition parse_passwd :: "string \<Rightarrow> system_user list" where
  "parse_passwd text = sort_key su_uid (List.map_filter passwd_user (lines text))"

definition group_line :: "string \<Rightarrow> system_group option" where
  "group_line line = (if line = [] \<or> starts_with ''#'' line then None
     else (case split_char (CHR '':'') line of
         name # pw # g # rest \<Rightarrow> map_option (\<lambda>n. \<lparr>sg_name = name, sg_gid = n\<rparr>) (parse_u32 g)
       | _ \<Rightarrow> None))"

definition parse_group :: "string \<Rightarrow> system_group list" where
  "parse_group text = sort_key sg_gid (List.map_filter group_line (lines text))"

definition PASSWD :: "string list" where "PASSWD = [''etc'', ''passwd'']"
definition GROUP :: "string list" where "GROUP = [''etc'', ''group'']"

definition list_system_identities :: "('z, system_user list \<times> system_group list) fio" where
  "list_system_identities = bind (fget PASSWD (read_whole PASSWD)) (\<lambda>p.
     bind (fget GROUP (read_whole GROUP)) (\<lambda>g. ret (parse_passwd p, parse_group g)))"

definition uid_for_name :: "string \<Rightarrow> ('z, nat) fio" where
  "uid_for_name name = bind (fget PASSWD (read_whole PASSWD)) (\<lambda>t.
     lift_result (ok_or (FUnknownUser name) (map_option su_uid (find (\<lambda>u. su_name u = name) (parse_passwd t)))))"

definition gid_for_name :: "string \<Rightarrow> ('z, nat) fio" where
  "gid_for_name name = bind (fget GROUP (read_whole GROUP)) (\<lambda>t.
     lift_result (ok_or (FUnknownGroup name) (map_option sg_gid (find (\<lambda>u. sg_name u = name) (parse_group t)))))"

definition transpose_io :: "('a \<Rightarrow> ('w, 'e, 'b) io) \<Rightarrow> 'a option \<Rightarrow> ('w, 'e, 'b option) io" where
  "transpose_io f x = (case x of None \<Rightarrow> ret None | Some a \<Rightarrow> bind (f a) (\<lambda>b. ret (Some b)))"

definition set_attributes ::
  "name_lookup \<Rightarrow> string \<Rightarrow> nat option \<Rightarrow> string option \<Rightarrow> string option \<Rightarrow> string list list option \<Rightarrow>
   ('z, file_entry) fio" where
  "set_attributes nl raw m owner grp scope =
     bind (with_path raw) (\<lambda>safe. bind (scoped scope safe) (\<lambda>p.
     seq (fail_if (is_protected p) (FProtected p))
     (seq (if owner = None \<and> grp = None then ret ()
           else bind (transpose_io uid_for_name owner) (\<lambda>u. bind (transpose_io gid_for_name grp) (\<lambda>g.
             fsys p (sys_chown p u g))))
     (seq (case m of None \<Rightarrow> ret () | Some x \<Rightarrow> fsys p (sys_chmod p (x mod 4096)))
     (fget p (describe nl p))))))"

section \<open>Reading and uploading\<close>

text \<open>An open file to read: its size, and the bytes from the offset on.\<close>

definition read_open :: "string \<Rightarrow> nat \<Rightarrow> string list list option \<Rightarrow> ('z, nat \<times> string) fio" where
  "read_open raw offset scope =
     bind (with_path raw) (\<lambda>safe. bind (scoped scope safe) (\<lambda>target.
     bind (fget target (\<lambda>w. map_ok (\<lambda>n. ikind (inodes w n)) (lstat w target))) (\<lambda>k.
     seq (fail_if (k = Folder) (FIsADirectory target))
     (bind (fget target (read_whole target)) (\<lambda>s. ret (size_of k, drop offset s))))))"

record write_header =
  wh_directory :: string
  wh_name :: string
  wh_overwrite :: bool
  wh_mode :: "nat option"

record write_handle_state =
  ws_temp :: "string list"
  ws_final :: "string list"
  ws_mode :: "nat option"
  ws_file :: "nat option"

definition temp_name :: "string \<Rightarrow> string" where
  "temp_name hex = ''.asc-upload-'' @ hex @ ''.part''"

definition upload_open :: "string \<Rightarrow> write_header \<Rightarrow> string list list option \<Rightarrow> ('z, write_handle_state) fio" where
  "upload_open hex h scope =
     bind (with_path (wh_directory h)) (\<lambda>dir. bind (scoped scope dir) (\<lambda>dir_target.
     bind (fget dir_target (\<lambda>w. map_ok (\<lambda>n. ikind (inodes w n)) (lstat w dir_target))) (\<lambda>k.
     seq (fail_if (k \<noteq> Folder) (FNotADirectory dir_target))
     (bind (with_path (show_path dir_target)) (\<lambda>base.
     bind (lift_result (map_err FInvalidPath (child base (wh_name h)))) (\<lambda>target.
     seq (fail_if (is_protected target) (FProtected target))
     (bind (asks (\<lambda>w. exists_follow w target)) (\<lambda>there.
     seq (fail_if (\<not> wh_overwrite h \<and> there) (FExists target))
     (let temp = dir_target @ [temp_name hex] in
      bind (or_err (io_error temp) (sys_open (open_new 384 temp))) (\<lambda>n.
      ret \<lparr>ws_temp = temp, ws_final = target, ws_mode = wh_mode h, ws_file = Some n\<rparr>))))))))))"

definition upload_write :: "string \<Rightarrow> write_handle_state \<Rightarrow> ('z, unit) fio" where
  "upload_write d s = (case ws_file s of None \<Rightarrow> ret ()
     | Some n \<Rightarrow> fsys (ws_temp s) (\<lambda>w. Inr (write_handle n d w)))"

text \<open>\<open>commit\<close> takes the file out of the handle first; dropping a handle without a file does nothing.\<close>

definition upload_commit :: "name_lookup \<Rightarrow> write_handle_state \<Rightarrow> ('z, file_entry) fio" where
  "upload_commit nl s =
     seq (fsys (ws_temp s) Inr)
     (seq (fsys (ws_temp s) (sys_chmod (ws_temp s) ((case ws_mode s of Some m \<Rightarrow> m | None \<Rightarrow> 420) mod 4096)))
     (seq (fsys (ws_final s) (sys_rename (ws_temp s) (ws_final s)))
     (fget (ws_final s) (describe nl (ws_final s)))))"

definition upload_drop :: "write_handle_state \<Rightarrow> ('z, unit) fio" where
  "upload_drop s = do_if (ws_file s \<noteq> None) (ignore (fsys (ws_temp s) (sys_unlink (ws_temp s))))"

text \<open>An upload: its chunks are written; a failed write or an aborted stream drops the handle.\<close>

fun upload_chunks :: "string list \<Rightarrow> write_handle_state \<Rightarrow> ('z, unit) fio" where
  "upload_chunks [] s = ret ()"
| "upload_chunks (d # ds) s = seq (upload_write d s) (upload_chunks ds s)"

definition upload ::
  "name_lookup \<Rightarrow> string \<Rightarrow> write_header \<Rightarrow> string list \<Rightarrow> bool \<Rightarrow> string list list option \<Rightarrow> ('z, file_entry option) fio" where
  "upload nl hex h chunks finished scope =
     bind (upload_open hex h scope) (\<lambda>s.
     bind (catch (upload_chunks chunks s)) (\<lambda>r. case r of
       Inl e \<Rightarrow> seq (upload_drop s) (throw e)
     | Inr u \<Rightarrow> if finished then bind (upload_commit nl (s\<lparr>ws_file := None\<rparr>)) (\<lambda>e. ret (Some e))
         else seq (upload_drop s) (ret None)))"

end
