(* ===== verification/FileConfine.thy ===== *)
theory FileConfine
  imports FileOps
begin

text \<open>
  What the system calls of the file service keep: the file system well formed, and everything
  outside the roots of a scope as it was.
\<close>

section \<open>The outcomes do not matter to a lookup\<close>

lemma vouts_simps [simp]:
  "ino (w\<lparr>vouts := os\<rparr>) = ino w" "kind_at (w\<lparr>vouts := os\<rparr>) = kind_at w" "entries_of (w\<lparr>vouts := os\<rparr>) = entries_of w"
  by (auto simp: ino_def kind_at_def entries_of_def fun_eq_iff)

lemma walk_vouts [simp]: "walk (w\<lparr>vouts := os\<rparr>) = walk w"
proof (intro ext)
  fix create b cur cs
  show "walk (w\<lparr>vouts := os\<rparr>) create b cur cs = walk w create b cur cs"
    by (induction w create b cur cs rule: walk.induct) (auto split: option.splits ikind.splits)
qed

lemma follow_vouts [simp]: "follow (w\<lparr>vouts := os\<rparr>) = follow w" "place (w\<lparr>vouts := os\<rparr>) = place w"
  by (auto simp: follow_def place_def fun_eq_iff)

lemma canon_prefix_vouts [simp]: "canon_prefix (w\<lparr>vouts := os\<rparr>) p = canon_prefix w p"
proof (induction w p rule: canon_prefix.induct)
  case (1 w p)
  then show ?case by (subst (1 2) canon_prefix.simps) (auto split: sum.split)
qed

lemma resolve_vouts [simp]: "resolve roots p (w\<lparr>vouts := os\<rparr>) = resolve roots p w"
  by (simp add: resolve_def)

lemma wf_vouts [simp]: "wf_vfs (w\<lparr>vouts := os\<rparr>) = wf_vfs w"
  by (simp add: wf_vfs_def)

lemma settled_vouts [simp]: "settled (w\<lparr>vouts := os\<rparr>) = settled w"
  by (auto simp: settled_def fun_eq_iff)

section \<open>Changing one thing\<close>

lemma ino_add_name [simp]: "ino (add_name q k m w) p = (if p = q then Some (fresh w) else ino w p)"
  by (simp add: ino_def add_name_def)

lemma kind_add_name: "wf_vfs w \<Longrightarrow> kind_at (add_name q k m w) p = (if p = q then Some k else kind_at w p)"
  using wf_fresh[of w p] by (cases "ino w p") (auto simp: kind_at_def add_name_def new_inode_def ino_def)

lemma names_add_name [simp]: "fresh (add_name q k m w) = Suc (fresh w)"
  "names (add_name q k m w) = (q, fresh w) # names w"
  by (simp_all add: add_name_def)

lemma wf_add_name:
  assumes w: "wf_vfs w" and q: "q \<noteq> []" "ino w q = None" "kind_at w (butlast q) = Some Folder" "list_all plain_name q"
  shows "wf_vfs (add_name q k m w)"
  unfolding wf_vfs_def
proof (intro conjI allI impI)
  show "kind_at (add_name q k m w) [] = Some Folder" using wf_root[OF w] q(1) by (simp add: kind_add_name[OF w])
  show "distinct (map fst (names (add_name q k m w)))" using w q(2) ino_names[of w q] by (auto simp: wf_vfs_def)
next
  fix p n assume "ino (add_name q k m w) p = Some n"
  then show "n < fresh (add_name q k m w)" "list_all plain_name p" using w q(4) by (auto simp: wf_vfs_def split: if_splits)
      (meson less_Suc_eq)
next
  fix p assume p: "p \<noteq> [] \<and> kind_at (add_name q k m w) p \<noteq> None"
  have "kind_at w (butlast p) = Some Folder"
    using p q(3) wf_parent[OF w, of p] by (auto simp: kind_add_name[OF w] split: if_splits)
  moreover from this have "butlast p \<noteq> q" using q(2) kind_at_None[of w q] by auto
  ultimately show "kind_at (add_name q k m w) (butlast p) = Some Folder" by (simp add: kind_add_name[OF w])
qed

lemma ino_drop [simp]: "ino (drop_names P w) p = (if P p then None else ino w p)"
proof -
  have "map_of (filter (\<lambda>(p, n). \<not> P p) xs) p = (if P p then None else map_of xs p)" for xs :: "(string list \<times> nat) list"
    by (induction xs) auto
  then show ?thesis by (simp add: ino_def drop_names_def)
qed

lemma kind_drop: "kind_at (drop_names P w) p = (if P p then None else kind_at w p)"
  by (simp add: kind_at_def) (simp add: drop_names_def)

lemma fresh_drop [simp]: "fresh (drop_names P w) = fresh w"
  by (simp add: drop_names_def)

lemma entries_none: "entries_of w q = [] \<Longrightarrow> p \<noteq> [] \<Longrightarrow> butlast p = q \<Longrightarrow> ino w p = None"
  using ino_names[of w p] by (force simp: entries_of_def filter_empty_conv)

lemma wf_drop:
  assumes w: "wf_vfs w" and q: "q \<noteq> []" "kind_at w q \<noteq> Some Folder \<or> entries_of w q = []"
  shows "wf_vfs (drop_names (\<lambda>x. x = q) w)"
  unfolding wf_vfs_def
proof (intro conjI allI impI)
  show "kind_at (drop_names (\<lambda>x. x = q) w) [] = Some Folder" using wf_root[OF w] q(1) by (simp add: kind_drop)
  show "distinct (map fst (names (drop_names (\<lambda>x. x = q) w)))"
    using w by (auto simp: wf_vfs_def drop_names_def distinct_map_filter)
next
  fix p n assume "ino (drop_names (\<lambda>x. x = q) w) p = Some n"
  then show "n < fresh (drop_names (\<lambda>x. x = q) w)" "list_all plain_name p"
    using w by (auto simp: wf_vfs_def split: if_splits)
next
  fix p assume p: "p \<noteq> [] \<and> kind_at (drop_names (\<lambda>x. x = q) w) p \<noteq> None"
  then have k: "kind_at w p \<noteq> None" by (auto simp: kind_drop split: if_splits)
  then have "kind_at w (butlast p) = Some Folder" using wf_parent[OF w] p by auto
  moreover from this have "butlast p \<noteq> q" using q(2) entries_none[of w q p] p k kind_at_None[of w p] by auto
  ultimately show "kind_at (drop_names (\<lambda>x. x = q) w) (butlast p) = Some Folder" by (simp add: kind_drop)
qed

lemma ino_hard [simp]: "ino (w\<lparr>names := (q, n) # names w\<rparr>) p = (if p = q then Some n else ino w p)"
  by (simp add: ino_def)

lemma kind_hard: "kind_at (w\<lparr>names := (q, n) # names w\<rparr>) p = (if p = q then Some (ikind (inodes w n)) else kind_at w p)"
  by (simp add: kind_at_def)

lemma wf_hard:
  assumes w: "wf_vfs w" and q: "q \<noteq> []" "ino w q = None" "kind_at w (butlast q) = Some Folder" "list_all plain_name q"
    and n: "n < fresh w"
  shows "wf_vfs (w\<lparr>names := (q, n) # names w\<rparr>)"
  unfolding wf_vfs_def
proof (intro conjI allI impI)
  show "kind_at (w\<lparr>names := (q, n) # names w\<rparr>) [] = Some Folder" using wf_root[OF w] q(1) by (simp add: kind_hard)
  show "distinct (map fst (names (w\<lparr>names := (q, n) # names w\<rparr>)))" using w q(2) ino_names[of w q] by (auto simp: wf_vfs_def)
next
  fix p k assume "ino (w\<lparr>names := (q, n) # names w\<rparr>) p = Some k"
  then show "k < fresh (w\<lparr>names := (q, n) # names w\<rparr>)" "list_all plain_name p" using w q(4) n
    by (auto simp: wf_vfs_def split: if_splits)
next
  fix p assume p: "p \<noteq> [] \<and> kind_at (w\<lparr>names := (q, n) # names w\<rparr>) p \<noteq> None"
  have "kind_at w (butlast p) = Some Folder"
    using p q(3) wf_parent[OF w, of p] by (auto simp: kind_hard split: if_splits)
  moreover from this have "butlast p \<noteq> q" using q(2) kind_at_None[of w q] by auto
  ultimately show "kind_at (w\<lparr>names := (q, n) # names w\<rparr>) (butlast p) = Some Folder" by (simp add: kind_hard)
qed

text \<open>An inode changes its content or attributes, never whether it is a directory or a link.\<close>

definition same_sort :: "ikind \<Rightarrow> ikind \<Rightarrow> bool" where
  "same_sort a b = (a = b \<or> (\<exists>s t. a = Reg s \<and> b = Reg t))"

lemma ino_inode [simp]: "ino (w\<lparr>inodes := f\<rparr>) = ino w"
  by (simp add: ino_def fun_eq_iff)

lemma kind_inode: "same_sort (ikind v) (ikind (inodes w n)) \<Longrightarrow>
    kind_at (w\<lparr>inodes := (inodes w)(n := v)\<rparr>) p = Some Folder \<longleftrightarrow> kind_at w p = Some Folder"
  "(kind_at (w\<lparr>inodes := (inodes w)(n := v)\<rparr>) p = None) = (kind_at w p = None)"
  by (auto simp: kind_at_def same_sort_def)

lemma wf_inode: "wf_vfs w \<Longrightarrow> same_sort (ikind v) (ikind (inodes w n)) \<Longrightarrow> wf_vfs (w\<lparr>inodes := (inodes w)(n := v)\<rparr>)"
  by (simp add: wf_vfs_def kind_inode)

section \<open>Moving a subtree\<close>

text \<open>What a rename needs of its two places.\<close>

definition movable :: "'z vfs_scheme \<Rightarrow> string list \<Rightarrow> string list \<Rightarrow> bool" where
  "movable w a b = (a \<noteq> [] \<and> b \<noteq> [] \<and> \<not> within a b \<and> \<not> within b a \<and> ino w a \<noteq> None
     \<and> (\<forall>x. x \<noteq> [] \<longrightarrow> ino w (b @ x) = None) \<and> kind_at w (butlast b) = Some Folder \<and> list_all plain_name b)"

lemma no_children:
  "wf_vfs w \<Longrightarrow> kind_at w b \<noteq> Some Folder \<or> entries_of w b = [] \<Longrightarrow> x \<noteq> [] \<Longrightarrow> ino w (b @ x) = None"
proof (rule ccontr)
  assume w: "wf_vfs w" "kind_at w b \<noteq> Some Folder \<or> entries_of w b = []" "x \<noteq> []" and "ino w (b @ x) \<noteq> None"
  then have k: "kind_at w (b @ x) \<noteq> None" by (simp add: kind_at_None)
  then have "kind_at w b = Some Folder" using wf_prefix[OF w(1)] w(3) by blast
  moreover obtain c cs where x: "x = c # cs" using w(3) by (cases x) auto
  have "kind_at w ((b @ [c]) @ cs) \<noteq> None" using k x by simp
  then have "kind_at w (b @ [c]) \<noteq> None" using wf_prefix[OF w(1), of "b @ [c]" cs] by (cases "cs = []") auto
  then have "entries_of w b \<noteq> []" using entries_none[of w b "b @ [c]"] by (auto simp: kind_at_None)
  ultimately show False using w(2) by simp
qed

lemma within_butlast: "within a (butlast p) \<Longrightarrow> within a p"
  by (cases p rule: rev_cases) (auto simp: within_iff)

lemma rebase_within: "within a p \<Longrightarrow> rebase a b p = b @ drop (length a) p"
  and rebase_other: "\<not> within a p \<Longrightarrow> rebase a b p = p"
  by (simp_all add: rebase_def)

lemma rebase_inj:
  assumes "movable w a b"
  shows "inj_on (rebase a b) {p. ino w p \<noteq> None \<and> p \<noteq> b}"
proof (rule inj_onI)
  have below: False if "within a p" "ino w q \<noteq> None" "q \<noteq> b" "b @ drop (length a) p = q" for p q
    using that assms by (cases "drop (length a) p = []") (auto simp: movable_def)
  fix p q assume pq: "p \<in> {p. ino w p \<noteq> None \<and> p \<noteq> b}" "q \<in> {p. ino w p \<noteq> None \<and> p \<noteq> b}"
    "rebase a b p = rebase a b q"
  show "p = q"
  proof (cases "within a p"; cases "within a q")
    assume "within a p" "within a q"
    then obtain x y where "p = a @ x" "q = a @ y" by (auto simp: within_iff)
    with pq(3) show ?thesis by (simp add: rebase_def)
  next
    assume c: "within a p" "\<not> within a q"
    then have "b @ drop (length a) p = q" using pq(3) by (simp add: rebase_def)
    with below c(1) pq(2) show ?thesis by blast
  next
    assume c: "\<not> within a p" "within a q"
    then have "b @ drop (length a) q = p" using pq(3) by (simp add: rebase_def)
    with below c(2) pq(1) show ?thesis by blast
  qed (use pq in \<open>simp add: rebase_def\<close>)
qed

lemma ino_iff: "wf_vfs w \<Longrightarrow> ino w p = Some n \<longleftrightarrow> (p, n) \<in> set (names w)"
  by (auto simp: wf_vfs_def ino_def intro: map_of_SomeD)

lemma move_distinct:
  assumes w: "wf_vfs w" and m: "movable w a b"
  shows "distinct (map fst (names (move_names a b w)))"
proof -
  let ?L = "filter (\<lambda>(p, n). p \<noteq> b) (names w)"
  have "map fst (names (move_names a b w)) = map (rebase a b) (map fst ?L)"
    by (simp add: move_names_def split_beta comp_def)
  moreover have "distinct (map fst ?L)" using w by (auto simp: wf_vfs_def distinct_map_filter)
  moreover have "set (map fst ?L) \<subseteq> {p. ino w p \<noteq> None \<and> p \<noteq> b}"
    using ino_names[of w] by force
  then have "inj_on (rebase a b) (set (map fst ?L))" using rebase_inj[OF m] inj_on_subset by blast
  ultimately show ?thesis by (simp only: distinct_map)
qed

lemma ino_move:
  assumes w: "wf_vfs w" and m: "movable w a b"
  shows "ino (move_names a b w) p = Some n \<longleftrightarrow> (\<exists>q. ino w q = Some n \<and> q \<noteq> b \<and> rebase a b q = p)"
proof -
  have "ino (move_names a b w) p = Some n \<longleftrightarrow> (p, n) \<in> set (names (move_names a b w))"
    using move_distinct[OF w m] by (auto simp: ino_def intro: map_of_SomeD)
  also have "\<dots> \<longleftrightarrow> (\<exists>q. (q, n) \<in> set (names w) \<and> q \<noteq> b \<and> rebase a b q = p)"
    by (force simp: move_names_def)
  finally show ?thesis by (simp add: ino_iff[OF w])
qed

lemma kind_move:
  assumes w: "wf_vfs w" and m: "movable w a b"
  shows "kind_at (move_names a b w) p = Some k \<longleftrightarrow> (\<exists>q. kind_at w q = Some k \<and> q \<noteq> b \<and> rebase a b q = p)"
proof -
  have i: "inodes (move_names a b w) = inodes w" by (simp add: move_names_def)
  show ?thesis using ino_move[OF w m, of p] by (auto simp: kind_at_def i)
qed

lemma wf_move:
  assumes w: "wf_vfs w" and m: "movable w a b"
  shows "wf_vfs (move_names a b w)"
  unfolding wf_vfs_def
proof (intro conjI allI impI)
  note mm = m[unfolded movable_def]
  have root: "rebase a b [] = []" using mm by (cases a) (simp_all add: rebase_def)
  show "kind_at (move_names a b w) [] = Some Folder" using wf_root[OF w] root mm by (auto simp: kind_move[OF w m])
  show "distinct (map fst (names (move_names a b w)))" by (rule move_distinct[OF w m])
  fix p n assume "ino (move_names a b w) p = Some n"
  then obtain q where q: "ino w q = Some n" "rebase a b q = p" by (auto simp: ino_move[OF w m])
  have f: "fresh (move_names a b w) = fresh w" by (simp add: move_names_def)
  show "n < fresh (move_names a b w)" using wf_fresh[OF w q(1)] f by simp
  have "list_all plain_name q" using wf_plain[OF w, of q] q(1) kind_at_None[of w q] by auto
  then show "list_all plain_name p" using q(2) mm by (auto simp: rebase_def within_iff split: if_splits)
next
  note mm = m[unfolded movable_def]
  fix p assume "p \<noteq> [] \<and> kind_at (move_names a b w) p \<noteq> None"
  then obtain q k where p: "p \<noteq> []" and q: "kind_at w q = Some k" "q \<noteq> b" "rebase a b q = p"
    by (auto simp: kind_move[OF w m])
  have parents: "kind_at w x = Some Folder \<and> x \<noteq> b" if xq: "x = butlast q" "q \<noteq> []" for x
  proof -
    have "kind_at w x = Some Folder" using wf_parent[OF w xq(2)] q(1) xq(1) by simp
    moreover have "x \<noteq> b"
    proof
      assume "x = b"
      then obtain c where "q = b @ [c]" using xq append_butlast_last_id[of q] by metis
      with mm have "ino w q = None" by simp
      with q(1) kind_at_None[of w q] show False by simp
    qed
    ultimately show ?thesis ..
  qed
  show "kind_at (move_names a b w) (butlast p) = Some Folder"
  proof (cases "within a q")
    case False
    then have "p = q" using q(3) by (simp add: rebase_def)
    moreover have "\<not> within a (butlast q)" using False within_butlast by blast
    ultimately show ?thesis using parents[of "butlast q"] p by (auto simp: kind_move[OF w m] rebase_def)
  next
    case True
    then obtain x where x: "q = a @ x" by (auto simp: within_iff)
    then have px: "p = b @ x" using q(3) by (simp add: rebase_def)
    show ?thesis
    proof (cases "x = []")
      case True
      have "\<not> within a (butlast b)" using mm within_butlast by blast
      moreover have "butlast b \<noteq> b" using mm by (cases b rule: rev_cases) auto
      ultimately show ?thesis using mm px True by (auto simp: kind_move[OF w m] rebase_def intro!: exI[of _ "butlast b"])
    next
      case False
      then have "butlast q = a @ butlast x" "butlast p = b @ butlast x" using x px by (simp_all add: butlast_append)
      then have "rebase a b (butlast q) = butlast p" by (simp add: rebase_def)
      moreover have "q \<noteq> []" using x False by simp
      ultimately show ?thesis using parents[of "butlast q"] by (auto simp: kind_move[OF w m])
    qed
  qed
qed

end
