(* ===== verification/FileJail.thy ===== *)
theory FileJail
  imports FileConfine
begin

text \<open>
  Confinement: what a scope's roots hold, what may change outside of them, and the system
  calls on settled paths below the roots.
\<close>

section \<open>Confined changes\<close>

text \<open>An inode is held by the roots when it has a name below them.\<close>

definition held_by :: "string list list \<Rightarrow> 'z vfs_scheme \<Rightarrow> nat \<Rightarrow> bool" where
  "held_by R w n = (\<exists>p. contains_path R p \<and> ino w p = Some n)"

text \<open>
  From \<open>w\<close> to \<open>w1\<close> no name outside the roots changed, only inodes the roots held changed, and
  the roots hold no inode but those they held and new ones.
\<close>

definition confined :: "string list list \<Rightarrow> 'z vfs_scheme \<Rightarrow> 'z vfs_scheme \<Rightarrow> bool" where
  "confined R w w1 = (fresh w \<le> fresh w1 \<and> (\<forall>p. \<not> contains_path R p \<longrightarrow> ino w1 p = ino w p)
     \<and> (\<forall>n < fresh w. inodes w1 n \<noteq> inodes w n \<longrightarrow> held_by R w n)
     \<and> (\<forall>p n. contains_path R p \<and> ino w1 p = Some n \<longrightarrow> fresh w \<le> n \<or> held_by R w n))"

definition jail :: "string list list \<Rightarrow> 'z vfs_scheme \<Rightarrow> 'z vfs_scheme \<Rightarrow> bool" where
  "jail R w0 w = (wf_vfs w \<and> confined R w0 w \<and> (\<forall>r \<in> set R. kind_at w r = Some Folder))"

lemma confined_refl [simp]: "confined R w w"
  by (auto simp: confined_def held_by_def)

lemma jail_vouts [simp]: "jail R w0 (w\<lparr>vouts := os\<rparr>) = jail R w0 w"
  by (simp add: jail_def confined_def)

lemma jail_wf: "jail R w0 w \<Longrightarrow> wf_vfs w"
  by (simp add: jail_def)

lemma jail_held: "jail R w0 w \<Longrightarrow> contains_path R p \<Longrightarrow> ino w p = Some n \<Longrightarrow> fresh w0 \<le> n \<or> held_by R w0 n"
  by (auto simp: jail_def confined_def)

lemma contains_trans: "contains_path R p \<Longrightarrow> within p q \<Longrightarrow> contains_path R q"
  by (auto simp: contains_path_def list_ex_iff intro: within_trans)

lemma root_contained: "r \<in> set R \<Longrightarrow> contains_path R r"
  by (auto simp: contains_path_def list_ex_iff intro!: bexI[of _ r] simp: within_iff)

text \<open>A missing prefix of a contained path is contained.\<close>

lemma contained_prefix:
  assumes j: "jail R w0 w" and y: "contains_path R y" "within x y" "kind_at w x = None"
  shows "contains_path R x"
proof -
  obtain r where r: "r \<in> set R" "within r y" using y(1) by (auto simp: contains_path_def list_ex_iff)
  then have rk: "kind_at w r = Some Folder" using j by (simp add: jail_def)
  have "within r x \<or> within x r"
    using r(2) y(2) by (auto simp: within_iff append_eq_append_conv2)
  moreover have "\<not> within x r"
  proof
    assume "within x r"
    then obtain t where t: "r = x @ t" by (auto simp: within_iff)
    have "kind_at w (x @ t) \<noteq> None" using rk t by simp
    then have "kind_at w x \<noteq> None" using wf_prefix[OF jail_wf[OF j], of x t] by (cases "t = []") auto
    with y(3) show False by simp
  qed
  ultimately have "within r x" by blast
  with r(1) show ?thesis by (auto simp: contains_path_def list_ex_iff)
qed

section \<open>Single changes below the roots\<close>

lemma jail_add:
  assumes j: "jail R w0 w" and q: "contains_path R q" "q \<noteq> []" "ino w q = None" "kind_at w (butlast q) = Some Folder"
    "list_all plain_name q"
  shows "jail R w0 (add_name q k m w)"
proof -
  have w: "wf_vfs w" and c: "confined R w0 w" using j by (simp_all add: jail_def)
  have i: "inodes (add_name q k m w) n = inodes w n" if "n < fresh w0" for n
    using that c by (auto simp: add_name_def confined_def)
  have "confined R w0 (add_name q k m w)"
    using c q(1) i by (auto simp: confined_def)
  moreover have "\<forall>r \<in> set R. kind_at (add_name q k m w) r = Some Folder"
  proof
    fix r assume "r \<in> set R"
    then have "kind_at w r = Some Folder" using j by (simp add: jail_def)
    moreover from this have "r \<noteq> q" using q(3) kind_at_None[of w q] by auto
    ultimately show "kind_at (add_name q k m w) r = Some Folder" by (simp add: kind_add_name[OF w])
  qed
  ultimately show ?thesis using wf_add_name[OF w q(2-5)] by (simp add: jail_def)
qed

lemma jail_hard:
  assumes j: "jail R w0 w" and q: "contains_path R q" "q \<noteq> []" "ino w q = None" "kind_at w (butlast q) = Some Folder"
    "list_all plain_name q" and n: "contains_path R p" "ino w p = Some n"
  shows "jail R w0 (w\<lparr>names := (q, n) # names w\<rparr>)"
proof -
  have w: "wf_vfs w" and c: "confined R w0 w" using j by (simp_all add: jail_def)
  have "confined R w0 (w\<lparr>names := (q, n) # names w\<rparr>)"
    using c q(1) jail_held[OF j n] by (auto simp: confined_def)
  moreover have "\<forall>r \<in> set R. kind_at (w\<lparr>names := (q, n) # names w\<rparr>) r = Some Folder"
    using j q(3) kind_at_None[of w q] by (auto simp: jail_def kind_hard)
  ultimately show ?thesis using wf_hard[OF w q(2-5) wf_fresh[OF w n(2)]] by (simp add: jail_def)
qed

text \<open>For operations that may remove a root: confined, without the roots.\<close>

definition caged :: "string list list \<Rightarrow> 'z vfs_scheme \<Rightarrow> 'z vfs_scheme \<Rightarrow> bool" where
  "caged R w0 w = (wf_vfs w \<and> confined R w0 w)"

lemma jail_caged: "jail R w0 w \<Longrightarrow> caged R w0 w"
  by (simp add: jail_def caged_def)

lemma caged_vouts [simp]: "caged R w0 (w\<lparr>vouts := os\<rparr>) = caged R w0 w"
  by (simp add: caged_def confined_def)

lemma caged_drop:
  assumes j: "caged R w0 w" and q: "contains_path R q" "q \<noteq> []" "kind_at w q \<noteq> Some Folder \<or> entries_of w q = []"
  shows "caged R w0 (drop_names (\<lambda>x. x = q) w)"
proof -
  have w: "wf_vfs w" and c: "confined R w0 w" using j by (simp_all add: caged_def)
  have i: "inodes (drop_names (\<lambda>x. x = q) w) = inodes w" by (simp add: drop_names_def)
  have "confined R w0 (drop_names (\<lambda>x. x = q) w)" using c q(1) by (auto simp: confined_def i)
  with wf_drop[OF w q(2,3)] show ?thesis by (simp add: caged_def)
qed

lemma caged_move:
  assumes j: "caged R w0 w" and q: "contains_path R a" "contains_path R b" "movable w a b"
  shows "caged R w0 (move_names a b w)"
proof -
  have w: "wf_vfs w" and c: "confined R w0 w" using j by (simp_all add: caged_def)
  have f: "fresh (move_names a b w) = fresh w" "inodes (move_names a b w) = inodes w" by (simp_all add: move_names_def)
  have out: "ino (move_names a b w) p = ino w p" if p: "\<not> contains_path R p" for p
  proof -
    have na: "\<not> within a p" "p \<noteq> b" "\<not> within b p" using p q contains_trans by blast+
    have r: "rebase a b x = p \<longleftrightarrow> x = p" if "x \<noteq> b" for x using na by (auto simp: rebase_def)
    then have "ino (move_names a b w) p = Some n \<longleftrightarrow> (\<exists>x. ino w x = Some n \<and> x \<noteq> b \<and> x = p)" for n
      unfolding ino_move[OF w q(3)] using r by blast
    then have "ino (move_names a b w) p = Some n \<longleftrightarrow> ino w p = Some n" for n using na(2) by blast
    then show ?thesis by (metis not_Some_eq)
  qed
  have inside: "fresh w0 \<le> n \<or> held_by R w0 n" if p: "contains_path R p" "ino (move_names a b w) p = Some n" for p n
  proof -
    obtain x where x: "ino w x = Some n" "rebase a b x = p" using p(2) by (auto simp: ino_move[OF w q(3)])
    have "contains_path R x"
      using x(2) p(1) q(1) contains_trans[OF q(1), of x] by (auto simp: rebase_def split: if_splits)
    with c x(1) show ?thesis by (auto simp: confined_def)
  qed
  have "confined R w0 (move_names a b w)" using c out inside by (auto simp: confined_def f)
  with wf_move[OF w q(3)] show ?thesis by (simp add: caged_def)
qed

lemma jail_inode:
  assumes j: "jail R w0 w" and n: "fresh w0 \<le> n \<or> held_by R w0 n" and v: "same_sort (ikind v) (ikind (inodes w n))"
  shows "jail R w0 (w\<lparr>inodes := (inodes w)(n := v)\<rparr>)"
proof -
  have "confined R w0 (w\<lparr>inodes := (inodes w)(n := v)\<rparr>)" using j n by (auto simp: jail_def confined_def)
  then show ?thesis using j wf_inode[OF _ v] kind_inode(1)[OF v] by (simp add: jail_def)
qed

section \<open>System calls below the roots\<close>

text \<open>A path the calls may be made on.\<close>

definition inside :: "string list list \<Rightarrow> 'z vfs_scheme \<Rightarrow> string list \<Rightarrow> bool" where
  "inside R w p = (settled w p \<and> contains_path R p \<and> list_all plain_name p)"

lemma inside_vouts [simp]: "inside R (w\<lparr>vouts := os\<rparr>) p = inside R w p"
  by (simp add: inside_def)

text \<open>A path whose own name the calls may add, remove or rename.\<close>

definition spot :: "string list list \<Rightarrow> 'z vfs_scheme \<Rightarrow> string list \<Rightarrow> bool" where
  "spot R w p = (contains_path R p \<and> list_all plain_name p
     \<and> (\<forall>x. place w p = Inr x \<longrightarrow> x = p \<and> (p \<noteq> [] \<longrightarrow> kind_at w (butlast p) = Some Folder)))"

lemma spot_vouts [simp]: "spot R (w\<lparr>vouts := os\<rparr>) p = spot R w p"
  by (simp add: spot_def)

lemma inside_spot: "wf_vfs w \<Longrightarrow> inside R w p \<Longrightarrow> spot R w p"
  using place_settled[of w p] by (auto simp: inside_def spot_def)

lemma place_child: "wf_vfs w \<Longrightarrow> kind_at w d = Some Folder \<Longrightarrow> place w (d @ [c]) = Inr (d @ [c])"
  using follow_real[of w d] by (simp add: place_def)

lemma child_spot:
  "wf_vfs w \<Longrightarrow> kind_at w d = Some Folder \<Longrightarrow> contains_path R (d @ [c]) \<Longrightarrow> plain_name c \<Longrightarrow> spot R w (d @ [c])"
  using wf_plain[of w d] place_child[of w d c] by (auto simp: spot_def)

lemma jail_add_at:
  "jail R w0 w \<Longrightarrow> spot R w p \<Longrightarrow> add_at p k m w = Inr w1 \<Longrightarrow>
     jail R w0 w1 \<and> w1 = add_name p k m w \<and> p \<noteq> [] \<and> ino w p = None \<and> kind_at w (butlast p) = Some Folder"
proof -
  assume a: "jail R w0 w" "spot R w p" "add_at p k m w = Inr w1"
  then obtain q where q: "place w p = Inr q" "kind_at w q = None" "w1 = add_name q k m w"
    by (auto simp: add_at_def split: if_splits)
  have s: "q = p" "p \<noteq> [] \<Longrightarrow> kind_at w (butlast p) = Some Folder" using q(1) a(2) by (auto simp: spot_def)
  have "p \<noteq> []" using q(2) s(1) wf_root[OF jail_wf[OF a(1)]] by auto
  then show ?thesis using jail_add[OF a(1), of p k m] a(2) q s kind_at_None[of w p] by (auto simp: spot_def)
qed

lemma jail_link:
  assumes "jail R w0 w" "spot R w a" "spot R w b" "sys_link a b w = Inr w1"
  shows "jail R w0 w1"
proof -
  note w = jail_wf[OF assms(1)]
  from assms(4) obtain pa n q where p: "place w a = Inr pa" "ino w pa = Some n" "place w b = Inr q" "kind_at w q = None"
    "w1 = w\<lparr>names := (q, n) # names w\<rparr>"
    by (auto simp: sys_link_def lstat_def split: if_splits)
  have s: "pa = a" "q = b" "b \<noteq> [] \<Longrightarrow> kind_at w (butlast b) = Some Folder"
    using p(1,3) assms(2,3) by (auto simp: spot_def)
  have "b \<noteq> []" using p(4) s(2) wf_root[OF w] by auto
  then show ?thesis using jail_hard[OF assms(1), of b a n] assms(2,3) p s kind_at_None[of w b] by (auto simp: spot_def)
qed

lemma caged_unlink:
  assumes "caged R w0 w" "spot R w p" "sys_unlink p w = Inr w1"
  shows "caged R w0 w1 \<and> w1 = drop_names (\<lambda>x. x = p) w"
proof -
  have w: "wf_vfs w" using assms(1) by (simp add: caged_def)
  from assms(3) obtain q k where q: "place w p = Inr q" "kind_at w q = Some k" "k \<noteq> Folder" "w1 = drop_names (\<lambda>x. x = q) w"
  proof -
    obtain q where q: "place w p = Inr q" using assms(3) by (auto simp: sys_unlink_def)
    show thesis
    proof (cases "kind_at w q")
      case (Some k)
      then show thesis using assms(3) q that[of q k] by (cases k) (auto simp: sys_unlink_def)
    qed (use assms(3) q in \<open>simp add: sys_unlink_def\<close>)
  qed
  have "q = p" using q(1) assms(2) by (simp add: spot_def)
  moreover have "q \<noteq> []" using q(2,3) wf_root[OF w] by auto
  ultimately show ?thesis using caged_drop[OF assms(1), of p] assms(2) q by (auto simp: spot_def)
qed

lemma caged_rmdir:
  assumes "caged R w0 w" "spot R w p" "sys_rmdir p w = Inr w1"
  shows "caged R w0 w1"
proof -
  have w: "wf_vfs w" using assms(1) by (simp add: caged_def)
  from assms(3) obtain q where q: "place w p = Inr q" "q \<noteq> []" "entries_of w q = []" "w1 = drop_names (\<lambda>x. x = q) w"
  proof -
    obtain q where q: "place w p = Inr q" using assms(3) by (auto simp: sys_rmdir_def)
    show thesis
    proof (cases "kind_at w q")
      case (Some k)
      then show thesis using assms(3) q that[of q] by (cases k) (auto simp: sys_rmdir_def split: if_splits)
    qed (use assms(3) q in \<open>simp add: sys_rmdir_def\<close>)
  qed
  have "q = p" using q(1) assms(2) by (simp add: spot_def)
  then show ?thesis using caged_drop[OF assms(1), of p] assms(2) q by (auto simp: spot_def)
qed

lemma caged_rename:
  assumes "caged R w0 w" "spot R w a" "spot R w b" "sys_rename a b w = Inr w1"
  shows "caged R w0 w1"
proof -
  have w: "wf_vfs w" using assms(1) by (simp add: caged_def)
  from assms(4) obtain pa pb n where p: "place w a = Inr pa" "place w b = Inr pb" "ino w pa = Some n"
    by (auto simp: sys_rename_def split: option.splits)
  have s: "pa = a" "pb = b" "b \<noteq> [] \<Longrightarrow> kind_at w (butlast b) = Some Folder"
    using p(1,2) assms(2,3) by (auto simp: spot_def)
  show ?thesis
  proof (cases "w1 = w")
    case False
    with assms(4) p s have m: "w1 = move_names a b w" "a \<noteq> []" "b \<noteq> []" "\<not> within a b" "\<not> within b a"
      "kind_at w b \<noteq> Some Folder \<or> entries_of w b = []"
      by (auto simp: sys_rename_def Let_def split: if_splits option.splits ikind.splits)
    have "movable w a b"
      using m s p no_children[OF w m(6)] assms(3) by (auto simp: movable_def spot_def)
    then show ?thesis using caged_move[OF assms(1), of a b] assms(2,3) m(1) by (simp add: spot_def)
  qed (use assms in simp)
qed

lemma jail_open_trunc:
  assumes j: "jail R w0 w" and p: "inside R w p" "\<not> (\<exists>t. kind_at w p = Some (Link t))" and o: "open_trunc m p w = Inr (n, w1)"
  shows "jail R w0 w1 \<and> (fresh w0 \<le> n \<or> held_by R w0 n) \<and> ino w1 p = Some n
    \<and> (w1 = add_name p (Reg []) m w \<and> ino w p = None \<or> w1 = w \<and> ino w p \<noteq> None
       \<or> (\<exists>s. w1 = set_kind n (Reg []) w \<and> ino w p = Some n \<and> ikind (inodes w n) = Reg s))"
proof -
  note w = jail_wf[OF j]
  from o obtain q where q: "open_place w p = Inr q" by (auto simp: open_trunc_def)
  have s: "q = p" "p \<noteq> [] \<Longrightarrow> kind_at w (butlast p) = Some Folder"
    using open_place_settled[OF w _ q p(2)] p(1) by (auto simp: inside_def)
  show ?thesis
  proof (cases "ino w p")
    case None
    then have "p \<noteq> []" using wf_root[OF w] kind_at_None[of w p] by auto
    moreover have "w1 = add_name p (Reg []) m w" "n = fresh w" using o q s(1) None by (auto simp: open_trunc_def)
    moreover have "fresh w0 \<le> fresh w" using j by (simp add: jail_def confined_def)
    ultimately show ?thesis using jail_add[OF j, of p "Reg []" m] None s p(1) by (auto simp: inside_def)
  next
    case (Some i)
    have h: "fresh w0 \<le> i \<or> held_by R w0 i" using jail_held[OF j _ Some] p(1) by (simp add: inside_def)
    show ?thesis
    proof (cases "ikind (inodes w i)")
      case (Reg t)
      then have "n = i" "w1 = set_kind i (Reg []) w" using o q s(1) Some by (auto simp: open_trunc_def)
      moreover have "jail R w0 (set_kind i (Reg []) w)"
        unfolding set_kind_def by (rule jail_inode[OF j h]) (simp add: same_sort_def Reg)
      ultimately show ?thesis using h Reg Some by (auto simp: set_kind_def)
    qed (use o q s(1) Some h j in \<open>auto simp: open_trunc_def\<close>)
  qed
qed

lemma jail_write: "jail R w0 w \<Longrightarrow> fresh w0 \<le> n \<or> held_by R w0 n \<Longrightarrow> jail R w0 (write_handle n d w)"
  by (auto simp: write_handle_def set_kind_def same_sort_def intro!: jail_inode split: ikind.split)

lemma jail_chmod: "jail R w0 w \<Longrightarrow> inside R w p \<Longrightarrow> sys_chmod p m w = Inr w1 \<Longrightarrow> jail R w0 w1"
proof -
  assume a: "jail R w0 w" "inside R w p" "sys_chmod p m w = Inr w1"
  then obtain q n where q: "follow w p = Inr q" "ino w q = Some n" "w1 = w\<lparr>inodes := (inodes w)(n := (inodes w n)\<lparr>imode := m\<rparr>)\<rparr>"
    by (auto simp: sys_chmod_def stat_follow_def)
  then have "fresh w0 \<le> n \<or> held_by R w0 n"
    using follow_settled[OF jail_wf[OF a(1)] _ q(1)] a(2) jail_held[OF a(1), of p n] by (auto simp: inside_def)
  then show ?thesis unfolding q(3) by (intro jail_inode[OF a(1)]) (simp_all add: same_sort_def)
qed

lemma jail_chown: "jail R w0 w \<Longrightarrow> inside R w p \<Longrightarrow> sys_chown p u g w = Inr w1 \<Longrightarrow> jail R w0 w1"
proof -
  assume a: "jail R w0 w" "inside R w p" "sys_chown p u g w = Inr w1"
  then obtain q n v where q: "follow w p = Inr q" "ino w q = Some n" "w1 = w\<lparr>inodes := (inodes w)(n := v)\<rparr>"
    "ikind v = ikind (inodes w n)"
    by (auto simp: sys_chown_def stat_follow_def)
  then have "fresh w0 \<le> n \<or> held_by R w0 n"
    using follow_settled[OF jail_wf[OF a(1)] _ q(1)] a(2) jail_held[OF a(1), of p n] by (auto simp: inside_def)
  then show ?thesis unfolding q(3) by (intro jail_inode[OF a(1)]) (simp_all add: same_sort_def q(4))
qed

end
