(* ===== verification/FileSteps.thy ===== *)
theory FileSteps
  imports FileJail
begin

text \<open>
  The file service's computations step by step: what the effects of \<open>LinkFs\<close> establish, and
  that resolution, directory creation and removal stay below the roots.
\<close>

section \<open>Rules for the effects\<close>

text \<open>Predicates that do not look at the outcomes still to come.\<close>

definition stable :: "('z vfs_scheme \<Rightarrow> bool) \<Rightarrow> bool" where
  "stable P = (\<forall>w os. P (w\<lparr>vouts := os\<rparr>) = P w)"

lemma stableI: "(\<And>w os. P (w\<lparr>vouts := os\<rparr>) = P w) \<Longrightarrow> stable P"
  by (simp add: stable_def)

lemma or_err_run: "fst (or_err h m w) = map_err h (fst (m w))" "snd (or_err h m w) = snd (m w)"
  by (simp_all add: or_err_def split: prod.split)

lemma triple_or_err: "triple P m Q E \<Longrightarrow> triple P (or_err h m) Q E"
  unfolding triple_def
proof (intro allI impI)
  fix w assume t: "\<forall>w. P w \<longrightarrow> (case fst (m w) of Inl e \<Rightarrow> E (snd (m w)) | Inr x \<Rightarrow> Q x (snd (m w)))" and "P w"
  then have "case fst (m w) of Inl e \<Rightarrow> E (snd (m w)) | Inr x \<Rightarrow> Q x (snd (m w))" by blast
  then show "case fst (or_err h m w) of Inl e \<Rightarrow> E (snd (or_err h m w)) | Inr x \<Rightarrow> Q x (snd (or_err h m w))"
    by (cases "fst (m w)") (simp_all add: or_err_run)
qed

lemma triple_sys:
  assumes s: "stable P" and e: "\<And>w. P w \<Longrightarrow> E w" and q: "\<And>w w1. P w \<Longrightarrow> f w = Inr w1 \<Longrightarrow> Q w1"
  shows "triple P (sys f) (\<lambda>_. Q) E"
  unfolding triple_def
proof (intro allI impI)
  fix w assume "P w"
  then have P: "P (w\<lparr>vouts := os\<rparr>)" for os using s by (simp add: stable_def)
  show "case fst (sys f w) of Inl e \<Rightarrow> E (snd (sys f w)) | Inr x \<Rightarrow> (\<lambda>_. Q) x (snd (sys f w))"
    using e[OF P] q[OF P] by (auto simp: sys_def Let_def split: prod.splits sum.splits)
qed

lemma triple_open:
  assumes s: "stable P" and e: "\<And>w. P w \<Longrightarrow> E w" and q: "\<And>w n w1. P w \<Longrightarrow> f w = Inr (n, w1) \<Longrightarrow> Q n w1"
  shows "triple P (sys_open f) Q E"
  unfolding triple_def
proof (intro allI impI)
  fix w assume "P w"
  then have P: "P (w\<lparr>vouts := os\<rparr>)" for os using s by (simp add: stable_def)
  show "case fst (sys_open f w) of Inl e \<Rightarrow> E (snd (sys_open f w)) | Inr x \<Rightarrow> Q x (snd (sys_open f w))"
    using e[OF P] q[OF P] by (auto simp: sys_open_def Let_def split: prod.splits sum.splits)
qed

lemma triple_get:
  assumes s: "stable P" and e: "\<And>w. P w \<Longrightarrow> E w" and q: "\<And>w x. P w \<Longrightarrow> g w = Inr x \<Longrightarrow> Q x w"
  shows "triple P (sys_get g) Q E"
  unfolding triple_def
proof (intro allI impI)
  fix w assume "P w"
  then have P: "P (w\<lparr>vouts := os\<rparr>)" for os using s by (simp add: stable_def)
  show "case fst (sys_get g w) of Inl e \<Rightarrow> E (snd (sys_get g w)) | Inr x \<Rightarrow> Q x (snd (sys_get g w))"
    using e[OF P] q[OF P] by (auto simp: sys_get_def Let_def split: prod.splits sum.splits)
qed

lemma triple_fsys:
  "stable P \<Longrightarrow> (\<And>w. P w \<Longrightarrow> E w) \<Longrightarrow> (\<And>w w1. P w \<Longrightarrow> f w = Inr w1 \<Longrightarrow> Q w1) \<Longrightarrow> triple P (fsys p f) (\<lambda>_. Q) E"
  by (intro triple_or_err triple_sys)

lemma triple_fget:
  "stable P \<Longrightarrow> (\<And>w. P w \<Longrightarrow> E w) \<Longrightarrow> (\<And>w x. P w \<Longrightarrow> g w = Inr x \<Longrightarrow> Q x w) \<Longrightarrow> triple P (fget p g) Q E"
  by (intro triple_or_err triple_get)

lemma triple_weaken: "triple P m Q E \<Longrightarrow> (\<And>x w. Q x w \<Longrightarrow> Q1 x w) \<Longrightarrow> triple P m Q1 E"
  by (rule triple_conseq)

lemma triple_fact: "(\<And>w. P w \<Longrightarrow> C) \<Longrightarrow> (C \<Longrightarrow> triple P m Q E) \<Longrightarrow> triple P m Q E"
  by (auto simp: triple_def)

lemma triple_with_path:
  "(\<And>w. P w \<Longrightarrow> E w) \<Longrightarrow> triple P (with_path raw) (\<lambda>p w. P w \<and> list_all plain_name p) E"
  by (auto simp: with_path_def triple_def lift_result_def dest: safe_path_plain split: sum.splits)

section \<open>Resolution\<close>

lemma canon_prefix_plain: "canon_prefix w p = Inr r \<Longrightarrow> wf_vfs w \<Longrightarrow> list_all plain_name p \<Longrightarrow> list_all plain_name r"
proof (induction w p arbitrary: r rule: canon_prefix.induct)
  case (1 w p)
  show ?case
  proof (cases "follow w p")
    case (Inr real)
    have "no_link (kind_at w real)" using follow_no_link[OF 1(3) Inr] .
    then have "kind_at w real \<noteq> None" by (cases "kind_at w real") auto
    with wf_plain[OF 1(3)] 1(2) Inr show ?thesis by (subst (asm) canon_prefix.simps) auto
  next
    case (Inl e)
    with 1(2) obtain r0 where e: "e = ENOENT" "p \<noteq> []" "canon_prefix w (butlast p) = Inr r0" "r = r0 @ [last p]"
      by (subst (asm) canon_prefix.simps) (auto split: if_splits)
    have "list_all plain_name (butlast p @ [last p])" using 1(4) e(2) by simp
    then have "list_all plain_name (butlast p)" "plain_name (last p)" unfolding list_all_append by simp_all
    with 1(1)[OF Inl e(1,2,3) 1(3)] e(4) show ?thesis by simp
  qed
qed

lemma resolve_inside:
  "resolve R p w = Inr t \<Longrightarrow> wf_vfs w \<Longrightarrow> list_all plain_name p \<Longrightarrow> inside R w t"
  by (auto simp: resolve_Inr inside_def intro: canon_prefix_settled canon_prefix_plain)

lemma triple_resolved:
  assumes s: "stable P" and e: "\<And>w. P w \<Longrightarrow> E w"
  shows "triple P (scoped (Some R) p) (\<lambda>t w. P w \<and> resolve R p w = Inr t) E"
proof -
  have "triple P (sys_get Inr) (\<lambda>v w. P w \<and> v = w) E" by (rule triple_get[OF s e]) auto
  then show ?thesis
    unfolding scoped_def option.case
  proof (rule triple_bind[OF triple_or_err])
    fix v show "triple (\<lambda>w. P w \<and> v = w) (lift_result (resolve R p v)) (\<lambda>t w. P w \<and> resolve R p w = Inr t) E"
      by (auto simp: triple_def lift_result_def intro: e split: sum.splits)
  qed
qed

lemma triple_any_scope: "stable P \<Longrightarrow> (\<And>w. P w \<Longrightarrow> E w) \<Longrightarrow> triple P (scoped scope p) (\<lambda>_. P) E"
proof (cases scope)
  case None
  then show ?thesis by (simp add: scoped_def triple_def io_simps)
next
  case (Some R)
  show "stable P \<Longrightarrow> (\<And>w. P w \<Longrightarrow> E w) \<Longrightarrow> ?thesis"
    unfolding Some by (rule triple_weaken[OF triple_resolved]) auto
qed

lemma triple_scoped:
  assumes "stable P" "\<And>w. P w \<Longrightarrow> E w" and wf: "\<And>w. P w \<Longrightarrow> wf_vfs w" and p: "list_all plain_name p"
  shows "triple P (scoped (Some R) p) (\<lambda>t w. P w \<and> inside R w t) E"
  by (rule triple_weaken[OF triple_resolved[OF assms(1,2)]]) (use resolve_inside[OF _ wf p] in auto)

section \<open>Steps in sequence\<close>

text \<open>Steps that change nothing keep what is known.\<close>

lemma triple_target:
  assumes "stable P" "\<And>w. P w \<Longrightarrow> E w" "\<And>w. P w \<Longrightarrow> wf_vfs w"
    and "\<And>s t. list_all plain_name s \<Longrightarrow> triple (\<lambda>w. P w \<and> inside R w t) (f s t) Q E"
  shows "triple P (bind (with_path raw) (\<lambda>s. bind (scoped (Some R) s) (f s))) Q E"
proof (rule triple_bind[OF triple_with_path[OF assms(2)]])
  fix s
  show "triple (\<lambda>w. P w \<and> list_all plain_name s) (bind (scoped (Some R) s) (f s)) Q E"
  proof (rule triple_fact[where C = "list_all plain_name s"], blast)
    assume s: "list_all plain_name s"
    show "triple (\<lambda>w. P w \<and> list_all plain_name s) (bind (scoped (Some R) s) (f s)) Q E"
      by (rule triple_bind[OF triple_conseq[OF triple_scoped[OF assms(1,2,3) s]] assms(4)[OF s]]) auto
  qed
qed auto

lemma triple_path:
  assumes "\<And>w. P w \<Longrightarrow> E w" "\<And>s. list_all plain_name s \<Longrightarrow> triple P (f s) Q E"
  shows "triple P (bind (with_path raw) f) Q E"
proof (rule triple_bind[OF triple_with_path[OF assms(1)]])
  fix s show "triple (\<lambda>w. P w \<and> list_all plain_name s) (f s) Q E"
    by (rule triple_fact[where C = "list_all plain_name s"], blast) (rule triple_conseq[OF assms(2)], auto)
qed auto

lemma triple_fail_if: "(\<And>w. P w \<Longrightarrow> E w) \<Longrightarrow> (\<not> c \<Longrightarrow> triple P k Q E) \<Longrightarrow> triple P (seq (fail_if c e) k) Q E"
  unfolding triple_def seq_run by (cases c) auto

lemma triple_look:
  "stable P \<Longrightarrow> (\<And>w. P w \<Longrightarrow> E w) \<Longrightarrow> (\<And>x. triple P (k x) Q E) \<Longrightarrow> triple P (bind (fget p g) k) Q E"
  by (rule triple_bind[where Q = "\<lambda>_. P"]) (auto intro: triple_fget)

lemma triple_ask: "(\<And>x. triple P (k x) Q E) \<Longrightarrow> triple P (bind (asks g) k) Q E"
  unfolding triple_def bind_run by blast

lemma triple_call: "triple P m (\<lambda>_. Q1) E \<Longrightarrow> triple Q1 k Q E \<Longrightarrow> triple P (seq m k) Q E"
  by (rule triple_seq)

lemma triple_last: "stable P \<Longrightarrow> (\<And>w. P w \<Longrightarrow> E w) \<Longrightarrow> (\<And>w. P w \<Longrightarrow> Q w) \<Longrightarrow> triple P (fget p g) (\<lambda>_. Q) E"
  by (rule triple_fget)

section \<open>Directories created on the way\<close>

lemma settled_butlast: "wf_vfs w \<Longrightarrow> settled w p \<Longrightarrow> p \<noteq> [] \<Longrightarrow> settled w (butlast p)"
proof -
  assume a: "wf_vfs w" "settled w p" "p \<noteq> []"
  show "settled w (butlast p)"
  proof (cases "no_link (kind_at w p)")
    case True
    then have "kind_at w (butlast p) = Some Folder" using no_link_parent[OF a(1) _ a(3)] by blast
    then show ?thesis by (simp add: settled_def)
  next
    case False
    with a(2) obtain q t where q: "p = q @ t" "t \<noteq> []" "kind_at w q = Some Folder" "follow w (q @ [hd t]) = Inl ENOENT"
      by (auto simp: settled_def)
    show ?thesis
    proof (cases "butlast t")
      case Nil
      then have "butlast p = q" using q(1,2) by (cases t rule: rev_cases) auto
      with q(3) show ?thesis by (simp add: settled_def)
    next
      case (Cons c cs)
      then have "hd t = c" by (cases t) (auto split: if_splits)
      moreover have "butlast p = q @ butlast t" using q(1,2) by (simp add: butlast_append)
      ultimately show ?thesis using q Cons unfolding settled_def by (intro disjI2 exI[of _ q] exI[of _ "butlast t"]) simp
    qed
  qed
qed

lemma settled_child:
  assumes w: "wf_vfs w" "kind_at w d = Some Folder" and c: "plain_name c" "\<And>t. kind_at w (d @ [c]) \<noteq> Some (Link t)"
  shows "settled w (d @ [c])"
proof (cases "kind_at w (d @ [c])")
  case None
  have "follow w (d @ [c]) = Inl ENOENT"
    using walk_through[OF w(1), of "[]" d False MAX_LINKS "[c]"] w(2) None c(1) by (simp add: follow_def plain_name_def)
  then show ?thesis using w(2) unfolding settled_def by (intro disjI2 exI[of _ d] exI[of _ "[c]"]) simp
next
  case (Some k)
  then have "no_link (kind_at w (d @ [c]))" using c(2) by (cases k) auto
  then show ?thesis by (simp add: settled_def)
qed

text \<open>From \<open>v\<close> to \<open>w\<close> only missing prefixes of \<open>p\<close> were added.\<close>

definition grown :: "string list \<Rightarrow> 'z vfs_scheme \<Rightarrow> 'z vfs_scheme \<Rightarrow> bool" where
  "grown p v w = (\<forall>x. kind_at w x = kind_at v x \<or> ino v x = None \<and> within x p \<and> kind_at w x = Some Folder)"

lemma grown_refl [simp]: "grown p v v"
  by (simp add: grown_def)

lemma grown_add:
  assumes g: "grown p v w" and w: "wf_vfs w" and q: "ino w q = None" "within q p"
  shows "grown p v (add_name q Folder m w)"
  unfolding grown_def
proof
  fix x
  have "ino v q = None" using g q(1) kind_at_None[of w q] kind_at_None[of v q] by (auto simp: grown_def dest: spec[of _ q])
  then show "kind_at (add_name q Folder m w) x = kind_at v x
      \<or> ino v x = None \<and> within x p \<and> kind_at (add_name q Folder m w) x = Some Folder"
    using g q(2) unfolding kind_add_name[OF w] grown_def by (cases "x = q") simp_all
qed

lemma grown_longer: "grown p v w \<Longrightarrow> within p q \<Longrightarrow> grown q v w"
  by (auto simp: grown_def intro: within_trans)

lemma grown_vouts [simp]: "grown p v (w\<lparr>vouts := os\<rparr>) = grown p v w"
  by (simp add: grown_def)

lemma add_at_missing:
  assumes j: "jail R w0 w" and p: "place w p = Inr p" "p \<noteq> []" "kind_at w (butlast p) = Some Folder" "list_all plain_name p"
    and y: "contains_path R y" "within p y" and a: "add_at p k m w = Inr w1"
  shows "jail R w0 w1 \<and> w1 = add_name p k m w \<and> ino w p = None"
proof -
  have n: "kind_at w p = None" "w1 = add_name p k m w" using a p(1) by (auto simp: add_at_def split: if_splits)
  have "contains_path R p" by (rule contained_prefix[OF j y n(1)])
  moreover have "ino w p = None" using n(1) kind_at_None[of w p] by simp
  ultimately show ?thesis using jail_add[OF j _ p(2) _ p(3,4)] n(2) by simp
qed

lemma add_at_settled:
  assumes j: "jail R w0 w" and p: "settled w p" "list_all plain_name p"
    and y: "contains_path R y" "within p y" and a: "add_at p k m w = Inr w1"
  shows "jail R w0 w1 \<and> w1 = add_name p k m w \<and> ino w p = None"
proof -
  obtain q where q: "place w p = Inr q" "kind_at w q = None" using a by (auto simp: add_at_def split: if_splits)
  have s: "q = p" "p \<noteq> [] \<Longrightarrow> kind_at w (butlast p) = Some Folder" using place_settled[OF jail_wf[OF j] p(1) q(1)] by auto
  have "p \<noteq> []" using q(2) s(1) wf_root[OF jail_wf[OF j]] by auto
  with q(1) s show ?thesis using add_at_missing[OF j _ _ _ p(2) y a] by blast
qed

lemma is_dir_settled: "wf_vfs w \<Longrightarrow> settled w p \<Longrightarrow> is_dir_follow w p \<Longrightarrow> kind_at w p = Some Folder"
  by (auto simp: is_dir_follow_def stat_follow_def kind_at_def dest: follow_settled split: sum.splits)

lemma mkdir_enoent: "wf_vfs w \<Longrightarrow> sys_mkdir p w = Inl ENOENT \<Longrightarrow> ino w p = None"
proof -
  assume w: "wf_vfs w" and e: "sys_mkdir p w = Inl ENOENT"
  show "ino w p = None"
  proof (rule ccontr)
    assume "ino w p \<noteq> None"
    then have k: "kind_at w p \<noteq> None" by (simp add: kind_at_None)
    show False
    proof (cases "p = []")
      case False
      then have "place w p = Inr p" using place_child[OF w wf_parent[OF w False k], of "last p"] by simp
      with e k show False by (simp add: sys_mkdir_def add_at_def)
    qed (use e k in \<open>simp add: sys_mkdir_def add_at_def place_def\<close>)
  qed
qed

definition on_way :: "string list list \<Rightarrow> 'z vfs_scheme \<Rightarrow> string list \<Rightarrow> string list \<Rightarrow> 'z vfs_scheme \<Rightarrow> 'z vfs_scheme \<Rightarrow> bool" where
  "on_way R w0 y p v w = (jail R w0 w \<and> grown p v w \<and> contains_path R y \<and> within p y \<and> list_all plain_name p)"

lemma on_way_vouts [simp]: "on_way R w0 y p v (w\<lparr>vouts := os\<rparr>) = on_way R w0 y p v w"
  by (simp add: on_way_def)

lemma on_way_jail: "on_way R w0 y p v w \<Longrightarrow> jail R w0 w"
  by (simp add: on_way_def)

lemma on_way_parent:
  "on_way R w0 y (butlast p) v w \<Longrightarrow> within p y \<Longrightarrow> list_all plain_name p \<Longrightarrow> on_way R w0 y p v w"
  using within_butlast[of "butlast p" p] by (auto simp: on_way_def intro: grown_longer)

text \<open>Making a directory whose parent was just made.\<close>

lemma mkdir_last:
  assumes "p \<noteq> []" "within p y" "list_all plain_name p" "ino v p = None"
  shows "triple (\<lambda>w. on_way R w0 y (butlast p) v w \<and> kind_at w (butlast p) = Some Folder)
     (bind (catch (sys (sys_mkdir p))) (\<lambda>r2. case r2 of Inr u \<Rightarrow> ret ()
        | Inl e2 \<Rightarrow> bind (asks (\<lambda>w. is_dir_follow w p)) (\<lambda>d2. if d2 then ret () else throw e2)))
     (\<lambda>_ w. on_way R w0 y p v w \<and> kind_at w p = Some Folder) (jail R w0)"
    (is "triple ?P _ ?Q ?E")
proof (rule triple_bind[OF triple_catch])
  show "triple ?P (sys (sys_mkdir p)) (\<lambda>_. \<lambda>w. on_way R w0 y p v w \<and> kind_at w p = Some Folder) ?P"
  proof (rule triple_sys)
    fix w w1 assume a: "?P w" "sys_mkdir p w = Inr w1"
    then have j: "jail R w0 w" and g: "grown (butlast p) v w" and y: "contains_path R y" by (simp_all add: on_way_def)
    have "place w p = Inr p" using place_child[OF jail_wf[OF j], of "butlast p" "last p"] a(1) assms(1) by simp
    from add_at_missing[OF j this assms(1) _ assms(3) y assms(2) a(2)[unfolded sys_mkdir_def]] a(1)
    have r: "jail R w0 w1" "w1 = add_name p Folder 493 w" "ino w p = None" by auto
    have "within (butlast p) p" using within_butlast[of "butlast p" p] by simp
    then have "grown p v w1" using grown_add[OF grown_longer[OF g] jail_wf[OF j] r(3)] r(2) by simp
    with r y assms(2,3) show "on_way R w0 y p v w1 \<and> kind_at w1 p = Some Folder"
      by (simp add: on_way_def kind_add_name[OF jail_wf[OF j]])
  qed (auto intro: stableI)
next
  fix r :: "os_error + unit"
  have d: "kind_at w p = Some Folder" if "?P w" "is_dir_follow w p" for w
  proof -
    have j: "jail R w0 w" and g: "grown (butlast p) v w" using that(1) by (simp_all add: on_way_def)
    have "\<not> within p (butlast p)" using assms(1) within_length[of p "butlast p"] by (cases p) auto
    then have "kind_at w p = None" using g assms(4) kind_at_None[of v p] unfolding grown_def by metis
    then have "settled w p"
      using settled_child[OF jail_wf[OF j], of "butlast p" "last p"] that(1) assms(1,3) append_butlast_last_id[OF assms(1)]
      by (metis last_in_set list_all_iff no_link_simps(5) option.distinct(1))
    then show ?thesis using is_dir_settled[OF jail_wf[OF j]] that(2) by blast
  qed
  show "triple (\<lambda>w. case r of Inl _ \<Rightarrow> ?P w | Inr x \<Rightarrow> on_way R w0 y p v w \<and> kind_at w p = Some Folder)
     (case r of Inr u \<Rightarrow> ret ()
        | Inl e2 \<Rightarrow> bind (asks (\<lambda>w. is_dir_follow w p)) (\<lambda>d2. if d2 then ret () else throw e2)) ?Q ?E"
    using d on_way_parent[OF _ assms(2,3)] on_way_jail by (auto simp: triple_def io_simps split: sum.split)
qed

text \<open>A resolved directory that is created, with its missing parents.\<close>

lemma create_dir_all_jail:
  "contains_path R y \<Longrightarrow> within p y \<Longrightarrow> list_all plain_name p \<Longrightarrow> settled v p \<Longrightarrow> jail R w0 v \<Longrightarrow>
   triple (\<lambda>w. \<exists>os. w = v\<lparr>vouts := os\<rparr>) (create_dir_all p)
     (\<lambda>_ w. on_way R w0 y p v w \<and> kind_at w p = Some Folder) (jail R w0)"
proof (induction p rule: create_dir_all.induct)
  case (1 p)
  let ?P = "\<lambda>w. \<exists>os. w = v\<lparr>vouts := os\<rparr>" and ?Q = "\<lambda>_ w. on_way R w0 y p v w \<and> kind_at w p = Some Folder"
  have wf: "wf_vfs v" using 1(6) by (rule jail_wf)
  have way: "on_way R w0 y p v v" using 1(2-6) by (simp add: on_way_def)
  let ?S = "\<lambda>r w. case r of Inl e \<Rightarrow> ?P w \<and> (e = ENOENT \<longrightarrow> ino v p = None) | Inr u \<Rightarrow> ?Q u w"
  have first: "triple ?P (catch (sys (sys_mkdir p))) ?S (jail R w0)"
    unfolding triple_def
  proof (intro allI impI)
    fix w assume "?P w"
    then obtain os where w: "w = v\<lparr>vouts := os\<rparr>" by blast
    obtain ok os1 where o: "next_outcome os = (ok, os1)" by (cases "next_outcome os")
    let ?w1 = "v\<lparr>vouts := os1\<rparr>"
    show "case fst (catch (sys (sys_mkdir p)) w) of Inl e \<Rightarrow> jail R w0 (snd (catch (sys (sys_mkdir p)) w))
       | Inr x \<Rightarrow> ?S x (snd (catch (sys (sys_mkdir p)) w))"
    proof (cases "ok \<and> (\<exists>w2. sys_mkdir p ?w1 = Inr w2)")
      case True
      then obtain w2 where m: "sys_mkdir p ?w1 = Inr w2" by blast
      have r: "jail R w0 w2 \<and> w2 = add_name p Folder 493 ?w1 \<and> ino ?w1 p = None"
        by (rule add_at_settled[OF _ _ 1(4,2,3) m[unfolded sys_mkdir_def]]) (use 1(5,6) in simp_all)
      then have "grown p v w2" using grown_add[of p v ?w1 p] wf by simp
      with r 1(2-4) have "?Q () w2" by (auto simp: on_way_def kind_add_name wf)
      with True o w m show ?thesis by (simp add: catch_def sys_def)
    next
      case False
      have "ino v p = None" if "sys_mkdir p ?w1 = Inl ENOENT" using mkdir_enoent[OF _ that] wf by (simp add: ino_def)
      moreover have "\<exists>e. sys_mkdir p ?w1 = Inl e" if ok using False that by (cases "sys_mkdir p ?w1") auto
      ultimately show ?thesis using o w by (cases ok) (auto simp: catch_def sys_def)
    qed
  qed
  show ?case
    unfolding create_dir_all.simps[of p]
  proof (rule triple_bind[OF first])
    fix r :: "os_error + unit"
    show "triple (?S r) (case r of Inr u \<Rightarrow> ret ()
       | Inl e \<Rightarrow> bind (asks (\<lambda>w. is_dir_follow w p)) (\<lambda>d.
           if e = ENOENT then
             (if p = [] then throw EIO
              else seq (create_dir_all (butlast p)) (bind (catch (sys (sys_mkdir p))) (\<lambda>r2. case r2 of
                 Inr u \<Rightarrow> ret ()
               | Inl e2 \<Rightarrow> bind (asks (\<lambda>w. is_dir_follow w p)) (\<lambda>d2. if d2 then ret () else throw e2))))
           else if d then ret () else throw e)) ?Q (jail R w0)"
    proof (cases r)
      case (Inr u)
      then show ?thesis by (simp add: triple_def io_simps)
    next
      case (Inl e)
      show ?thesis
      proof (cases "e = ENOENT \<and> p \<noteq> []")
        case True
        then have missing: "triple (?S r) (asks (\<lambda>w. is_dir_follow w p)) (\<lambda>d w. ?P w \<and> ino v p = None) (jail R w0)"
          using Inl by (simp add: triple_def io_simps)
        show ?thesis
          unfolding Inl sum.case
        proof (rule triple_bind[OF missing[unfolded Inl sum.case]], rule triple_fact)
          fix d w assume "?P w \<and> ino v p = None" then show "ino v p = None" by blast
        next
          fix d assume n: "ino v p = None"
          have par: "within (butlast p) y" "list_all plain_name (butlast p)" "settled v (butlast p)"
            using within_butlast[of "butlast p" p] 1(3) within_trans settled_butlast[OF wf 1(5)] True 1(4)
            by (auto simp: list_all_iff dest: in_set_butlastD)
          have "triple (\<lambda>w. ?P w \<and> ino v p = None) (create_dir_all (butlast p))
              (\<lambda>_ w. on_way R w0 y (butlast p) v w \<and> kind_at w (butlast p) = Some Folder) (jail R w0)"
            by (rule triple_conseq[OF 1(1)[OF _ _ 1(2) par 1(6)]]) (use True in auto)
          from triple_seq[OF this mkdir_last[OF _ 1(3,4) n]] True
          show "triple (\<lambda>w. ?P w \<and> ino v p = None) (if e = ENOENT then
             (if p = [] then throw EIO
              else seq (create_dir_all (butlast p)) (bind (catch (sys (sys_mkdir p))) (\<lambda>r2. case r2 of
                 Inr u \<Rightarrow> ret ()
               | Inl e2 \<Rightarrow> bind (asks (\<lambda>w. is_dir_follow w p)) (\<lambda>d2. if d2 then ret () else throw e2))))
           else if d then ret () else throw e) ?Q (jail R w0)" by simp
        qed
      next
        case False
        have "kind_at v p = Some Folder" if "is_dir_follow v p" using is_dir_settled[OF wf 1(5) that] .
        moreover have "is_dir_follow (v\<lparr>vouts := os\<rparr>) p = is_dir_follow v p" "kind_at (v\<lparr>vouts := os\<rparr>) = kind_at v" for os
          by (auto simp: is_dir_follow_def stat_follow_def ok_or_def split: sum.split)
        ultimately show ?thesis using False Inl way 1(6) by (auto simp: triple_def io_simps)
      qed
    qed
  qed
qed

end
