(* ===== verification/FileGuard.thy ===== *)
theory FileGuard
  imports FileSteps
begin

text \<open>
  The scoped operations of the file service, each with what it may change: removal and copying
  of trees by induction on the walk, the others call by call.
\<close>

section \<open>Removing a tree\<close>

lemma entries_there: "c \<in> set (entries_of w p) \<Longrightarrow> kind_at w (p @ [c]) \<noteq> None"
proof -
  assume "c \<in> set (entries_of w p)"
  then obtain q where q: "q \<in> fst ` set (names w)" "q \<noteq> []" "butlast q = p" "c = last q" by (auto simp: entries_of_def)
  then have "q = p @ [c]" by auto
  with q(1) ino_names[of w q] show ?thesis by (simp add: kind_at_None)
qed

lemma entries_plain: "wf_vfs w \<Longrightarrow> c \<in> set (entries_of w p) \<Longrightarrow> plain_name c"
  using wf_plain[OF _ entries_there, of w c p] by simp

lemma entries_distinct: "wf_vfs w \<Longrightarrow> distinct (entries_of w p)"
proof -
  assume "wf_vfs w"
  then have d: "distinct (filter (\<lambda>q. q \<noteq> [] \<and> butlast q = p) (map fst (names w)))" by (simp add: wf_vfs_def)
  have "inj_on last {q. q \<noteq> [] \<and> butlast q = p}"
    by (rule inj_onI) (metis (mono_tags, lifting) append_butlast_last_id mem_Collect_eq)
  then have "inj_on last (set (filter (\<lambda>q. q \<noteq> [] \<and> butlast q = p) (map fst (names w))))" by (rule inj_on_subset) auto
  with d show ?thesis unfolding entries_of_def distinct_map by blast
qed

definition folders :: "string list set \<Rightarrow> 'z vfs_scheme \<Rightarrow> bool" where
  "folders Y w = (\<forall>y \<in> Y. kind_at w y = Some Folder)"

lemma folders_vouts [simp]: "folders Y (w\<lparr>vouts := os\<rparr>) = folders Y w"
  by (simp add: folders_def)

lemma folders_insert [simp]: "folders (insert p Y) w \<longleftrightarrow> kind_at w p = Some Folder \<and> folders Y w"
  by (simp add: folders_def)

lemma folders_drop: "folders Y w \<Longrightarrow> p \<notin> Y \<Longrightarrow> folders Y (drop_names (\<lambda>x. x = p) w)"
  by (auto simp: folders_def kind_drop)

lemma caged_wf: "caged R w0 w \<Longrightarrow> wf_vfs w"
  by (simp add: caged_def)

lemma remove_caged:
  shows "contains_path R p \<Longrightarrow> (\<forall>y \<in> Y. \<not> within p y) \<Longrightarrow>
     triple (\<lambda>w. caged R w0 w \<and> kind_at w p = Some Folder \<and> folders Y w) (remove_tree n p)
       (\<lambda>_ w. caged R w0 w \<and> folders Y w) (caged R w0)"
    and "contains_path R p \<Longrightarrow> (\<forall>y \<in> Y. \<not> within p y) \<Longrightarrow> list_all plain_name cs \<Longrightarrow>
     triple (\<lambda>w. caged R w0 w \<and> kind_at w p = Some Folder \<and> folders Y w) (remove_entries n p cs)
       (\<lambda>_ w. caged R w0 w \<and> kind_at w p = Some Folder \<and> folders Y w) (caged R w0)"
proof (induction n p and n p cs arbitrary: Y and Y rule: remove_tree_remove_entries.induct)
  case (1 p)
  show ?case by (auto simp: triple_def io_simps)
next
  case (2 n p)
  let ?P = "\<lambda>w. caged R w0 w \<and> kind_at w p = Some Folder \<and> folders Y w"
  show ?case
    unfolding remove_tree.simps
  proof (rule triple_bind[OF triple_get])
    fix w es assume a: "?P w" "map_ok (entries_of w) (follow w p) = Inr es"
    then have "follow w p = Inr p" using follow_real[OF caged_wf, of R w0 w p] by simp
    with a show "?P w \<and> list_all plain_name es" using entries_plain[OF caged_wf] by (auto simp: list_all_iff)
  next
    fix es
    show "triple (\<lambda>w. ?P w \<and> list_all plain_name es) (seq (remove_entries n p es) (sys (sys_rmdir p)))
       (\<lambda>_ w. caged R w0 w \<and> folders Y w) (caged R w0)"
    proof (rule triple_fact[where C = "list_all plain_name es"], blast)
      assume es: "list_all plain_name es"
      have r: "triple ?P (sys (sys_rmdir p)) (\<lambda>_ w. caged R w0 w \<and> folders Y w) (caged R w0)"
      proof (rule triple_sys)
        fix w w1 assume a: "?P w" "sys_rmdir p w = Inr w1"
        have "list_all plain_name p" using wf_plain[OF caged_wf, of R w0 w p] a(1) by simp
        moreover have "place w p = Inr p"
          using a(1) place_child[OF caged_wf, of R w0 w "butlast p" "last p"] wf_parent[OF caged_wf, of R w0 w p]
          by (cases "p = []") (auto simp: place_def)
        ultimately have s: "spot R w p" using 2(2) a(1) wf_parent[OF caged_wf, of R w0 w p] by (auto simp: spot_def)
        have "caged R w0 w1" using caged_rmdir[OF _ s a(2)] a(1) by blast
        moreover have "w1 = drop_names (\<lambda>x. x = p) w"
          using a \<open>place w p = Inr p\<close> by (auto simp: sys_rmdir_def split: if_splits)
        moreover have "p \<notin> Y" using 2(3) within_refl by blast
        ultimately show "caged R w0 w1 \<and> folders Y w1" using a(1) folders_drop[of Y w p] by auto
      qed (auto intro: stableI)
      show ?thesis
        by (rule triple_conseq[OF triple_seq[OF 2(1)[OF 2(2,3) es] r]]) simp_all
    qed
  qed (auto intro: stableI)
next
  case (3 n p)
  show ?case by (auto simp: triple_def io_simps)
next
  case (4 n p c cs)
  let ?P = "\<lambda>w. caged R w0 w \<and> kind_at w p = Some Folder \<and> folders Y w"
  have c: "contains_path R (p @ [c])" "\<forall>y \<in> insert p Y. \<not> within (p @ [c]) y" "plain_name c" "list_all plain_name cs"
    using contains_trans[OF 4(3)] 4(4,5) within_length[of "p @ [c]" p] within_trans[of p "p @ [c]"] by auto
  show ?case
    unfolding remove_entries.simps
  proof (rule triple_bind[where Q = "\<lambda>k w. ?P w \<and> k = kind_at w (p @ [c])"])
    show "triple ?P (asks (\<lambda>w. kind_at w (p @ [c]))) (\<lambda>k w. ?P w \<and> k = kind_at w (p @ [c])) (caged R w0)"
      by (simp add: triple_def io_simps)
    fix k
    show "triple (\<lambda>w. ?P w \<and> k = kind_at w (p @ [c]))
       (seq (if k = Some Folder then remove_tree n (p @ [c]) else sys (sys_unlink (p @ [c]))) (remove_entries n p cs))
       (\<lambda>_. ?P) (caged R w0)"
    proof (rule triple_seq[OF _ 4(2)[OF 4(3,4) c(4)]])
      show "triple (\<lambda>w. ?P w \<and> k = kind_at w (p @ [c]))
         (if k = Some Folder then remove_tree n (p @ [c]) else sys (sys_unlink (p @ [c]))) (\<lambda>_. ?P) (caged R w0)"
      proof (cases "k = Some Folder")
        case True
        then show ?thesis
          unfolding if_P[OF True] by (intro triple_conseq[OF 4(1)[OF True c(1,2)]]) auto
      next
        case False
        have "triple (\<lambda>w. ?P w) (sys (sys_unlink (p @ [c]))) (\<lambda>_. ?P) (caged R w0)"
        proof (rule triple_sys)
          fix w w1 assume a: "?P w" "sys_unlink (p @ [c]) w = Inr w1"
          have s: "spot R w (p @ [c])" using child_spot[OF caged_wf _ c(1,3)] a(1) by blast
          have "p @ [c] \<notin> insert p Y" using c(2) within_refl by blast
          with caged_unlink[OF _ s a(2)] a(1) folders_drop[of "insert p Y" w "p @ [c]"] show "?P w1" by auto
        qed (auto intro: stableI)
        then show ?thesis unfolding if_not_P[OF False] by (rule triple_conseq) auto
      qed
    qed
  qed
qed

end
