(* ===== verification/FileCopy.thy ===== *)
theory FileCopy
  imports FileGuard
begin

text \<open>
  Copying below the roots: a copy changes nothing outside of them when its destination is not
  a link and holds none.
\<close>

text \<open>
  The names of \<open>X\<close> are no links, those of \<open>Y\<close> are directories.
\<close>

definition copying :: "string list list \<Rightarrow> 'z vfs_scheme \<Rightarrow> string list set \<Rightarrow> string list set \<Rightarrow> 'z vfs_scheme \<Rightarrow> bool" where
  "copying R w0 X Y w = (jail R w0 w \<and> (\<forall>x \<in> X. \<forall>t. kind_at w x \<noteq> Some (Link t)) \<and> folders Y w)"

lemma copying_vouts [simp]: "copying R w0 X Y (w\<lparr>vouts := os\<rparr>) = copying R w0 X Y w"
  by (simp add: copying_def)

lemma copying_jail: "copying R w0 X Y w \<Longrightarrow> jail R w0 w"
  by (simp add: copying_def)

lemma copying_mono: "copying R w0 X Y w \<Longrightarrow> X1 \<subseteq> X \<Longrightarrow> Y1 \<subseteq> Y \<Longrightarrow> copying R w0 X1 Y1 w"
  by (auto simp: copying_def folders_def)

text \<open>No directory is lost and no link appears.\<close>

definition plainer :: "'z vfs_scheme \<Rightarrow> 'z vfs_scheme \<Rightarrow> bool" where
  "plainer w w1 = (\<forall>x. (kind_at w x = Some Folder \<longrightarrow> kind_at w1 x = Some Folder)
     \<and> (\<forall>t. kind_at w1 x = Some (Link t) \<longrightarrow> kind_at w x = Some (Link t)))"

lemma plainer_copying: "plainer w w1 \<Longrightarrow> jail R w0 w1 \<Longrightarrow> copying R w0 X Y w \<Longrightarrow> copying R w0 X Y w1"
  by (auto simp: copying_def folders_def plainer_def)

lemma plainer_add: "wf_vfs w \<Longrightarrow> ino w p = None \<Longrightarrow> \<not> (\<exists>t. k = Link t) \<Longrightarrow> plainer w (add_name p k m w)"
  using kind_at_None[of w p] by (auto simp: plainer_def kind_add_name split: if_splits)

lemma plainer_inode: "same_sort (ikind v) (ikind (inodes w n)) \<Longrightarrow> plainer w (w\<lparr>inodes := (inodes w)(n := v)\<rparr>)"
  by (auto simp: plainer_def kind_at_def same_sort_def)

lemma plainer_refl [simp]: "plainer w w"
  by (simp add: plainer_def)

section \<open>Copying a file\<close>

definition held_new :: "string list list \<Rightarrow> 'z vfs_scheme \<Rightarrow> nat \<Rightarrow> bool" where
  "held_new R w0 n = (fresh w0 \<le> n \<or> held_by R w0 n)"

lemma open_trunc_jail:
  assumes j: "jail R w0 w" and p: "inside R w p" "\<not> (\<exists>t. kind_at w p = Some (Link t))" and o: "open_trunc m p w = Inr (n, w1)"
  shows "jail R w0 w1 \<and> held_new R w0 n \<and> plainer w w1"
proof -
  from jail_open_trunc[OF assms] have r: "jail R w0 w1" "held_new R w0 n"
    "w1 = add_name p (Reg []) m w \<and> ino w p = None \<or> w1 = w
       \<or> (\<exists>s. w1 = set_kind n (Reg []) w \<and> ikind (inodes w n) = Reg s)" by (auto simp: held_new_def)
  then have "plainer w w1"
    using plainer_add[OF jail_wf[OF j], of p "Reg []" m] plainer_inode[of "(inodes w n)\<lparr>ikind := Reg []\<rparr>" w n]
    by (auto simp: set_kind_def same_sort_def)
  with r show ?thesis by simp
qed

lemma write_plainer: "plainer w (write_handle n d w)"
  using plainer_inode[of "(inodes w n)\<lparr>ikind := k\<rparr>" w n for k]
  by (auto simp: write_handle_def set_kind_def same_sort_def split: ikind.split)

lemma mode_kept:
  assumes "jail R w0 w" "held_new R w0 n"
  shows "jail R w0 (w\<lparr>inodes := (inodes w)(n := (inodes w n)\<lparr>imode := m\<rparr>)\<rparr>)
     \<and> plainer w (w\<lparr>inodes := (inodes w)(n := (inodes w n)\<lparr>imode := m\<rparr>)\<rparr>)"
  using jail_inode[OF assms(1), of n "(inodes w n)\<lparr>imode := m\<rparr>"] plainer_inode[of "(inodes w n)\<lparr>imode := m\<rparr>" w n] assms(2)
  by (simp add: held_new_def same_sort_def)

lemma copy_file_jail:
  assumes d: "d \<in> X"
  shows "triple (\<lambda>w. copying R w0 X Y w \<and> inside R w d) (copy_file src d) (\<lambda>_. copying R w0 X Y) (jail R w0)"
    (is "triple ?P _ _ _")
  unfolding copy_file_def
proof (rule triple_bind[where Q = "\<lambda>_. ?P"])
  show "triple ?P (sys_get (\<lambda>w. map_ok (\<lambda>n. (n, inodes w n)) (stat_follow w src))) (\<lambda>_. ?P) (jail R w0)"
    by (rule triple_get) (auto intro: stableI copying_jail)
  fix nv :: "nat \<times> vinode"
  let ?H = "\<lambda>m w. copying R w0 X Y w \<and> held_new R w0 m"
  have op: "triple ?P (sys_open (open_trunc k d)) ?H (jail R w0)" for k
  proof (rule triple_open)
    fix w m w1 assume a: "?P w" "open_trunc k d w = Inr (m, w1)"
    then have "\<not> (\<exists>t. kind_at w d = Some (Link t))" using d by (auto simp: copying_def)
    from open_trunc_jail[OF copying_jail _ this a(2)] a(1) plainer_copying[of w w1 R w0 X Y] show "?H m w1" by auto
  qed (auto intro: stableI copying_jail)
  have mode: "triple (?H m) (sys (\<lambda>w. Inr (w\<lparr>inodes := (inodes w)(m := (inodes w m)\<lparr>imode := k\<rparr>)\<rparr>))) (\<lambda>_. ?H m) (jail R w0)"
    for m k
  proof (rule triple_sys)
    fix w w1 assume a: "?H m w" "Inr (w\<lparr>inodes := (inodes w)(m := (inodes w m)\<lparr>imode := k\<rparr>)\<rparr>) = Inr w1"
    with mode_kept[OF copying_jail, of R w0 X Y w m k] plainer_copying[of w w1 R w0 X Y] show "?H m w1" by auto
  qed (auto intro: stableI copying_jail)
  have bytes: "triple (?H m) (sys (copy_bytes n m)) (\<lambda>_. copying R w0 X Y) (jail R w0)" for n m
  proof (rule triple_sys)
    fix w w1 assume a: "?H m w" "copy_bytes n m w = Inr w1"
    then have "w1 = w \<or> (\<exists>s. w1 = write_handle m s w)" by (auto simp: copy_bytes_def split: ikind.splits)
    then show "copying R w0 X Y w1"
      using a(1) jail_write[of R w0 w m] write_plainer[of w m] plainer_copying[of w w1 R w0 X Y]
      by (auto simp: held_new_def copying_jail)
  qed (auto intro: stableI copying_jail)
  show "triple ?P (case nv of (n, v) \<Rightarrow> seq (fail_if (case ikind v of Reg s \<Rightarrow> False | _ \<Rightarrow> True) EINVAL)
     (bind (sys_open (open_trunc (imode v) d)) (\<lambda>m.
     seq (sys (\<lambda>w. Inr (w\<lparr>inodes := (inodes w)(m := (inodes w m)\<lparr>imode := imode v\<rparr>)\<rparr>)))
     (sys (copy_bytes n m))))) (\<lambda>_. copying R w0 X Y) (jail R w0)"
    unfolding split_beta
  proof (rule triple_seq[where Q = ?P])
    show "triple ?P (fail_if (case ikind (snd nv) of Reg s \<Rightarrow> False | _ \<Rightarrow> True) EINVAL) (\<lambda>_. ?P) (jail R w0)"
      by (auto simp: triple_def io_simps copying_jail)
  qed (rule triple_bind[OF op], rule triple_seq[OF mode bytes])
qed

section \<open>Copying a tree\<close>

lemma symlink_jail:
  assumes d: "d \<notin> X"
  shows "triple (\<lambda>w. copying R w0 (X \<union> Z) Y w \<and> inside R w d) (fsys p (sys_symlink t d)) (\<lambda>_. copying R w0 X Y) (jail R w0)"
proof (rule triple_fsys)
  fix w w1 assume a: "copying R w0 (X \<union> Z) Y w \<and> inside R w d" "sys_symlink t d w = Inr w1"
  then have j: "jail R w0 w" by (auto simp: copying_jail)
  then have s: "spot R w d" using inside_spot[OF jail_wf[OF j]] a(1) by blast
  from jail_add_at[OF j s a(2)[unfolded sys_symlink_def]]
  have r: "jail R w0 w1" "w1 = add_name d (Link t) 511 w" "ino w d = None" by auto
  then show "copying R w0 X Y w1"
    using a(1) d kind_at_None[of w d] by (auto simp: copying_def folders_def kind_add_name[OF jail_wf[OF j]])
qed (auto intro: stableI copying_jail)

lemma mkdirs_jail:
  "triple (\<lambda>w. copying R w0 X Y w \<and> inside R w d) (or_err h (create_dir_all d))
     (\<lambda>_ w. copying R w0 X (insert d Y) w \<and> inside R w d) (jail R w0)"
proof (rule triple_or_err)
  show "triple (\<lambda>w. copying R w0 X Y w \<and> inside R w d) (create_dir_all d)
     (\<lambda>_ w. copying R w0 X (insert d Y) w \<and> inside R w d) (jail R w0)"
    unfolding triple_def
  proof (intro allI impI)
    fix v assume a: "copying R w0 X Y v \<and> inside R v d"
    then have d: "contains_path R d" "list_all plain_name d" "settled v d" "jail R w0 v" by (auto simp: inside_def copying_jail)
    from create_dir_all_jail[OF d(1) within_refl d(2,3,4)]
    have "case fst (create_dir_all d v) of Inl e \<Rightarrow> jail R w0 (snd (create_dir_all d v))
      | Inr u \<Rightarrow> on_way R w0 d d v (snd (create_dir_all d v)) \<and> kind_at (snd (create_dir_all d v)) d = Some Folder"
      unfolding triple_def by (rule spec[of _ v, THEN mp]) (rule exI[of _ "vouts v"], simp)
    moreover have "copying R w0 X (insert d Y) w1 \<and> inside R w1 d" if w: "on_way R w0 d d v w1" "kind_at w1 d = Some Folder" for w1
    proof -
      have g: "kind_at w1 x = kind_at v x \<or> ino v x = None \<and> kind_at w1 x = Some Folder" for x
        using w(1) by (auto simp: on_way_def grown_def)
      have "kind_at w1 y = Some Folder" if "y \<in> Y" for y
        using g[of y] a that kind_at_None[of v y] by (auto simp: copying_def folders_def)
      moreover have "kind_at w1 x \<noteq> Some (Link t)" if "x \<in> X" for x t
        using g[of x] a that by (auto simp: copying_def)
      ultimately show ?thesis
        using w a by (auto simp: copying_def on_way_def folders_def inside_def settled_def)
    qed
    ultimately show "case fst (create_dir_all d v) of Inl e \<Rightarrow> jail R w0 (snd (create_dir_all d v))
      | Inr u \<Rightarrow> copying R w0 X (insert d Y) (snd (create_dir_all d v)) \<and> inside R (snd (create_dir_all d v)) d"
      by (cases "fst (create_dir_all d v)") auto
  qed
qed

lemma within_sibling: "within (d @ [c]) x \<Longrightarrow> within (d @ [c1]) x \<Longrightarrow> c = c1"
  by (auto simp: within_iff)

text \<open>What lies below the entries \<open>cs\<close> of \<open>d\<close>.\<close>

definition below :: "string list \<Rightarrow> string list \<Rightarrow> string list set" where
  "below d cs = {x. \<exists>c \<in> set cs. within (d @ [c]) x}"

lemma sum_all_jail:
  assumes f: "\<And>c X. plain_name c \<Longrightarrow> \<forall>x \<in> X. \<not> within (d @ [c]) x \<Longrightarrow>
      triple (\<lambda>w. copying R w0 (X \<union> {x. within (d @ [c]) x}) (insert d Y) w \<and> inside R w (d @ [c])) (f c)
        (\<lambda>_. copying R w0 X (insert d Y)) (jail R w0)"
    and d: "contains_path R d" "\<forall>x \<in> X. \<not> within d x"
  shows "distinct cs \<Longrightarrow> list_all plain_name cs \<Longrightarrow>
    triple (copying R w0 (X \<union> below d cs) (insert d Y)) (sum_all f cs) (\<lambda>_. copying R w0 X (insert d Y)) (jail R w0)"
proof (induction cs)
  case Nil
  show ?case by (simp add: triple_def io_simps below_def)
next
  case (Cons c cs)
  let ?X = "X \<union> below d cs"
  have c: "plain_name c" "c \<notin> set cs" "distinct cs" "list_all plain_name cs" using Cons.prems by auto
  have x: "\<forall>x \<in> ?X. \<not> within (d @ [c]) x"
  proof
    fix x assume "x \<in> ?X"
    then show "\<not> within (d @ [c]) x"
      using d(2) within_trans[OF within_append, of d "[c]" x] within_sibling[of d c x] c(2) by (auto simp: below_def)
  qed
  have s: "?X \<union> {x. within (d @ [c]) x} = X \<union> below d (c # cs)" by (auto simp: below_def)
  have "triple (copying R w0 (X \<union> below d (c # cs)) (insert d Y)) (f c) (\<lambda>_. copying R w0 ?X (insert d Y)) (jail R w0)"
  proof (rule triple_conseq[OF f[OF c(1) x]])
    fix w assume a: "copying R w0 (X \<union> below d (c # cs)) (insert d Y) w"
    then have k: "kind_at w d = Some Folder" "jail R w0 w" "\<And>t. kind_at w (d @ [c]) \<noteq> Some (Link t)"
      by (auto simp: copying_def below_def)
    have "inside R w (d @ [c])"
      using settled_child[OF jail_wf k(1) c(1) k(3)] k(2) contains_trans[OF d(1)] wf_plain[OF jail_wf[OF k(2)], of d] k(1) c(1)
      by (auto simp: inside_def)
    with a show "copying R w0 (?X \<union> {x. within (d @ [c]) x}) (insert d Y) w \<and> inside R w (d @ [c])" unfolding s by simp
  qed simp_all
  then show ?case
    unfolding sum_all.simps
  proof (rule triple_bind)
    fix ab :: "nat \<times> nat"
    have "triple (copying R w0 ?X (insert d Y)) (bind (sum_all f cs) (\<lambda>(p, q). ret (fst ab + p, snd ab + q)))
        (\<lambda>_. copying R w0 X (insert d Y)) (jail R w0)"
      by (rule triple_bind[OF Cons.IH[OF c(3,4)]]) (auto simp: triple_def io_simps)
    then show "triple (copying R w0 ?X (insert d Y)) (case ab of (a, b) \<Rightarrow> bind (sum_all f cs) (\<lambda>(c, d). ret (a + c, b + d)))
        (\<lambda>_. copying R w0 X (insert d Y)) (jail R w0)" by (simp add: split_beta)
  qed
qed

lemma copy_body_jail:
  assumes d: "contains_path R d" "\<forall>x \<in> X. \<not> within d x"
    and g: "\<And>es. distinct es \<Longrightarrow> list_all plain_name es \<Longrightarrow>
      triple (copying R w0 (X \<union> {x. within d x}) (insert d Y)) (g es) (\<lambda>_. copying R w0 X Y) (jail R w0)"
  shows "triple (\<lambda>w. copying R w0 (X \<union> {x. within d x}) Y w \<and> inside R w d)
     (bind (fget src (\<lambda>w. map_ok (\<lambda>n. ikind (inodes w n)) (lstat w src))) (\<lambda>k. case k of
       Link t \<Rightarrow> seq (fsys d (sys_symlink t d)) (ret (1::nat, 0))
     | Folder \<Rightarrow> seq (or_err (io_error d) (create_dir_all d))
         (bind (fget src (\<lambda>w. map_ok (entries_of w) (follow w src))) g)
     | _ \<Rightarrow> seq (or_err (io_error src) (copy_file src d)) (ret (1::nat, size_of k))))
     (\<lambda>_. copying R w0 X Y) (jail R w0)"
    (is "triple ?P _ ?Q ?E")
proof (rule triple_bind[where Q = "\<lambda>_. ?P"])
  show "triple ?P (fget src (\<lambda>w. map_ok (\<lambda>n. ikind (inodes w n)) (lstat w src))) (\<lambda>_. ?P) ?E"
    by (rule triple_fget) (auto intro: stableI copying_jail)
  fix k
  have fin: "triple (copying R w0 X Y) (ret x) ?Q ?E" for x :: "nat \<times> nat" by (simp add: triple_def io_simps)
  have reg: "triple ?P (seq (or_err (io_error src) (copy_file src d)) (ret (1::nat, size_of k))) ?Q ?E"
  proof (rule triple_seq[OF triple_or_err fin])
    show "triple ?P (copy_file src d) (\<lambda>_. copying R w0 X Y) ?E"
      by (rule triple_weaken[OF copy_file_jail]) (auto intro: copying_mono)
  qed
  have "d \<notin> X" using d(2) within_refl by blast
  then have link: "triple ?P (seq (fsys d (sys_symlink t d)) (ret (1::nat, 0))) ?Q ?E" for t
    by (rule triple_seq[OF symlink_jail fin])
  have dir: "triple ?P (seq (or_err (io_error d) (create_dir_all d))
      (bind (fget src (\<lambda>w. map_ok (entries_of w) (follow w src))) g)) ?Q ?E"
  proof (rule triple_seq[where Q = "copying R w0 (X \<union> {x. within d x}) (insert d Y)"])
    show "triple ?P (or_err (io_error d) (create_dir_all d)) (\<lambda>_. copying R w0 (X \<union> {x. within d x}) (insert d Y)) ?E"
      by (rule triple_weaken[OF mkdirs_jail]) simp
    show "triple (copying R w0 (X \<union> {x. within d x}) (insert d Y))
      (bind (fget src (\<lambda>w. map_ok (entries_of w) (follow w src))) g) ?Q ?E"
    proof (rule triple_bind[OF triple_fget])
      fix w es assume a: "copying R w0 (X \<union> {x. within d x}) (insert d Y) w" "map_ok (entries_of w) (follow w src) = Inr es"
      have "wf_vfs w" using jail_wf[OF copying_jail[OF a(1)]] .
      with a entries_plain entries_distinct
      show "copying R w0 (X \<union> {x. within d x}) (insert d Y) w \<and> distinct es \<and> list_all plain_name es"
        by (auto simp: list_all_iff)
    next
      fix es
      show "triple (\<lambda>w. copying R w0 (X \<union> {x. within d x}) (insert d Y) w \<and> distinct es \<and> list_all plain_name es)
        (g es) ?Q ?E"
        by (rule triple_fact[where C = "distinct es \<and> list_all plain_name es"], blast)
          (rule triple_conseq[OF g], auto)
    qed (auto intro: stableI copying_jail)
  qed
  show "triple ?P (case k of
       Link t \<Rightarrow> seq (fsys d (sys_symlink t d)) (ret (1::nat, 0))
     | Folder \<Rightarrow> seq (or_err (io_error d) (create_dir_all d))
         (bind (fget src (\<lambda>w. map_ok (entries_of w) (follow w src))) g)
     | _ \<Rightarrow> seq (or_err (io_error src) (copy_file src d)) (ret (1::nat, size_of k))) ?Q ?E"
    using reg link dir by (cases k) simp_all
qed

lemma copy_recursive_jail:
  "contains_path R d \<Longrightarrow> \<forall>x \<in> X. \<not> within d x \<Longrightarrow>
   triple (\<lambda>w. copying R w0 (X \<union> {x. within d x}) Y w \<and> inside R w d) (copy_recursive n src d)
     (\<lambda>_. copying R w0 X Y) (jail R w0)"
proof (induction n arbitrary: src d X Y)
  case (0 src d X Y)
  show ?case
    unfolding copy_recursive.simps[of 0]
    by (rule copy_body_jail[OF 0]) (auto simp: triple_def io_simps intro: copying_jail)
next
  case (Suc n src d X Y)
  show ?case
    unfolding copy_recursive.simps[of "Suc n"]
  proof (rule copy_body_jail[OF Suc.prems])
    fix es assume es: "distinct es" "list_all plain_name es"
    have sub: "below d es \<subseteq> {x. within d x}" using within_trans[OF within_append, of d] by (auto simp: below_def)
    have "triple (copying R w0 (X \<union> below d es) (insert d Y)) (sum_all (\<lambda>c. copy_recursive n (src @ [c]) (d @ [c])) es)
        (\<lambda>_. copying R w0 X (insert d Y)) (jail R w0)"
    proof (rule sum_all_jail[OF _ Suc.prems es])
      fix c Z assume "plain_name c" "\<forall>x \<in> Z. \<not> within (d @ [c]) x"
      then show "triple (\<lambda>w. copying R w0 (Z \<union> {x. within (d @ [c]) x}) (insert d Y) w \<and> inside R w (d @ [c]))
          (copy_recursive n (src @ [c]) (d @ [c])) (\<lambda>_. copying R w0 Z (insert d Y)) (jail R w0)"
        using Suc.IH[of "d @ [c]" Z "insert d Y" "src @ [c]"] contains_trans[OF Suc.prems(1)] by simp
    qed
    then show "triple (copying R w0 (X \<union> {x. within d x}) (insert d Y))
        (case Suc n of 0 \<Rightarrow> throw (FIo src EIO) | Suc n \<Rightarrow> sum_all (\<lambda>c. copy_recursive n (src @ [c]) (d @ [c])) es)
        (\<lambda>_. copying R w0 X Y) (jail R w0)"
      unfolding nat.case by (rule triple_conseq) (use sub in \<open>auto intro: copying_mono\<close>)
  qed
qed

end
