(* ===== verification/FileSafe.thy ===== *)
theory FileSafe
  imports FileCopy
begin

text \<open>
  Each scoped operation of the file service stays below its roots.
\<close>

definition only_vouts :: "'z vfs_scheme \<Rightarrow> 'z vfs_scheme \<Rightarrow> bool" where
  "only_vouts v w = (\<exists>os. w = v\<lparr>vouts := os\<rparr>)"

lemma only_vouts_stable [simp]: "only_vouts v (w\<lparr>vouts := os\<rparr>) = only_vouts v w"
  by (auto simp: only_vouts_def) (metis vfs.surjective vfs.update_convs(4))

lemma only_vouts_refl [simp]: "only_vouts v v"
  by (auto simp: only_vouts_def intro!: exI[of _ "vouts v"])

abbreviation at :: "string list list \<Rightarrow> 'z vfs_scheme \<Rightarrow> string list \<Rightarrow> 'z vfs_scheme \<Rightarrow> bool" where
  "at R w0 t w \<equiv> jail R w0 w \<and> inside R w t"

section \<open>Operations that read\<close>

lemma stable_only: "stable (only_vouts v)"
  by (rule stableI) simp

lemmas reading = triple_path triple_look[OF stable_only] triple_last[OF stable_only] triple_fail_if triple_ask
  triple_bind[OF triple_any_scope[OF stable_only]]

lemma reads_list: "triple (only_vouts v) (list_directory nl raw hidden scope) (\<lambda>_. only_vouts v) (only_vouts v)"
  unfolding list_directory_def split_beta by (intro reading) (auto simp: Let_def intro: triple_ret)

lemma reads_stat: "triple (only_vouts v) (stat_path nl raw scope) (\<lambda>_. only_vouts v) (only_vouts v)"
  unfolding stat_path_def by (intro reading) (auto intro: triple_ret)

lemma reads_open: "triple (only_vouts v) (read_open raw offset scope) (\<lambda>_. only_vouts v) (only_vouts v)"
  unfolding read_open_def by (intro reading) (auto intro: triple_ret)

lemma reads_identities: "triple (only_vouts v) list_system_identities (\<lambda>_. only_vouts v) (only_vouts v)"
  unfolding list_system_identities_def by (intro reading) (auto intro: triple_ret)

section \<open>Operations that change names\<close>

lemma stable_at [simp]: "stable (at R w0 t)" "stable (\<lambda>w. at R w0 s w \<and> inside R w t)"
  "stable (\<lambda>w. jail R w0 w \<and> inside R w s \<and> inside R w t)" "stable (caged R w0)" "stable (jail R w0)"
  by (auto intro: stableI)

lemma describe_last [intro]: "(\<And>w. P w \<Longrightarrow> caged R w0 w) \<Longrightarrow> stable P \<Longrightarrow> triple P (fget p g) (\<lambda>_. caged R w0) (caged R w0)"
  by (rule triple_last)

lemma mkdir_at: "triple (at R w0 t) (fsys p (sys_mkdir t)) (\<lambda>_. jail R w0) (caged R w0)"
proof (rule triple_fsys)
  fix w w1 assume a: "at R w0 t w" "sys_mkdir t w = Inr w1"
  then have "spot R w t" using inside_spot[OF jail_wf] by blast
  with jail_add_at a show "jail R w0 w1" unfolding sys_mkdir_def by blast
qed (auto intro: jail_caged)

lemma create_directory_caged:
  "triple (jail R w0) (create_directory nl raw parents (Some R)) (\<lambda>_. caged R w0) (caged R w0)"
  unfolding create_directory_def
proof (rule triple_target)
  fix s t
  have "triple (at R w0 t) (or_err (io_error t) (if parents then create_dir_all t else sys (sys_mkdir t)))
      (\<lambda>_. jail R w0) (caged R w0)"
  proof (cases parents)
    case True
    show ?thesis unfolding if_P[OF True]
      by (rule triple_conseq[OF mkdirs_jail[where X = "{}" and Y = "{}"]]) (auto simp: copying_def folders_def intro: jail_caged)
  next
    case False
    show ?thesis unfolding if_not_P[OF False] by (rule mkdir_at)
  qed
  then show "triple (at R w0 t) (seq (fail_if (is_protected t) (FProtected t))
     (seq (or_err (io_error t) (if parents then create_dir_all t else sys (sys_mkdir t))) (fget t (describe nl t))))
     (\<lambda>_. caged R w0) (caged R w0)"
    by (intro triple_fail_if triple_call[where ?Q1.0 = "jail R w0"]) (auto intro: jail_caged)
qed (auto intro: jail_caged jail_wf)

lemma move_path_caged:
  "triple (jail R w0) (move_path nl src dst ov (Some R)) (\<lambda>_. caged R w0) (caged R w0)"
proof -
  have step: "triple (\<lambda>w. at R w0 s w \<and> inside R w t) (fsys t (sys_rename s t)) (\<lambda>_. caged R w0) (caged R w0)" for s t
  proof (rule triple_fsys)
    fix w w1 assume a: "at R w0 s w \<and> inside R w t" "sys_rename s t w = Inr w1"
    then have "spot R w s" "spot R w t" using inside_spot[OF jail_wf] by blast+
    with caged_rename[OF jail_caged] a show "caged R w0 w1" by blast
  qed (auto intro: jail_caged)
  have both: "triple (at R w0 s) (bind (scoped (Some R) d) (\<lambda>dst.
     seq (fail_if (is_protected s \<or> is_protected dst \<or> in_pseudo_root s \<or> in_pseudo_root dst) (FProtected dst))
     (seq (fail_if (within s dst) (FDestinationInsideSource s dst))
     (bind (asks (\<lambda>w. exists_follow w dst)) (\<lambda>there.
     seq (fail_if (\<not> ov \<and> there) (FExists dst))
     (seq (fsys dst (sys_rename s dst))
     (fget dst (describe nl dst)))))))) (\<lambda>_. caged R w0) (caged R w0)" if "list_all plain_name d" for s d
    by (rule triple_bind[OF triple_scoped[OF _ _ _ that]])
      (auto intro!: triple_fail_if triple_ask triple_call[OF step[unfolded conj_assoc]] intro: jail_caged jail_wf)
  show ?thesis
    unfolding move_path_def
    by (intro triple_path) (auto intro: jail_caged jail_wf triple_bind[OF triple_scoped both])
qed

lemma create_link_caged:
  "triple (jail R w0) (create_link nl raw raw_target k (Some R)) (\<lambda>_. caged R w0) (caged R w0)"
proof -
  let ?E = "caged R w0"
  have sym: "triple (\<lambda>w. at R w0 l w \<and> inside R w t) (fsys l (sys_symlink raw_target l)) (\<lambda>_. ?E) ?E" for l t
  proof (rule triple_fsys)
    fix w w1 assume a: "at R w0 l w \<and> inside R w t" "sys_symlink raw_target l w = Inr w1"
    then have "spot R w l" using inside_spot[OF jail_wf] by blast
    with jail_add_at a show "?E w1" unfolding sys_symlink_def by (blast intro: jail_caged)
  qed (auto intro: jail_caged)
  have hard: "triple (\<lambda>w. at R w0 l w \<and> inside R w t) (fsys l (sys_link t l)) (\<lambda>_. ?E) ?E" for l t
  proof (rule triple_fsys)
    fix w w1 assume a: "at R w0 l w \<and> inside R w t" "sys_link t l w = Inr w1"
    then have "spot R w t" "spot R w l" using inside_spot[OF jail_wf] by blast+
    with jail_link a show "?E w1" by (blast intro: jail_caged)
  qed (auto intro: jail_caged)
  have made: "triple (\<lambda>w. at R w0 l w \<and> inside R w t) (seq (case k of
            Symbolic \<Rightarrow> fsys l (sys_symlink raw_target l)
          | Hard \<Rightarrow> bind (fget t (\<lambda>w. map_ok (\<lambda>n. ikind (inodes w n)) (lstat w t))) (\<lambda>x.
              seq (fail_if (x = Folder) (FIsADirectory t)) (fsys l (sys_link t l))))
       (fget l (describe nl l))) (\<lambda>_. ?E) ?E" for l t
  proof (rule triple_call[where ?Q1.0 = ?E])
    show "triple (\<lambda>w. at R w0 l w \<and> inside R w t) (case k of
            Symbolic \<Rightarrow> fsys l (sys_symlink raw_target l)
          | Hard \<Rightarrow> bind (fget t (\<lambda>w. map_ok (\<lambda>n. ikind (inodes w n)) (lstat w t))) (\<lambda>x.
              seq (fail_if (x = Folder) (FIsADirectory t)) (fsys l (sys_link t l)))) (\<lambda>_. ?E) ?E"
      by (cases k) (auto intro!: sym[unfolded conj_assoc] hard[unfolded conj_assoc] triple_look triple_fail_if intro: jail_caged)
  qed auto
  show ?thesis
    unfolding create_link_def
    by (intro triple_path triple_ask triple_fail_if triple_bind[OF triple_scoped])
      (auto intro!: made[unfolded conj_assoc] intro: jail_caged jail_wf)
qed

lemma delete_one_caged: "triple (caged R w0) (delete_one raw recursive (Some R)) (\<lambda>_. caged R w0) (caged R w0)"
proof -
  let ?E = "caged R w0" and ?P = "\<lambda>p w. caged R w0 w \<and> inside R w p"
  have st: "stable (?P p)" for p by (auto intro: stableI)
  have un: "triple (?P p) (fsys p (sys_unlink p)) (\<lambda>_. ?E) ?E" for p
  proof (rule triple_fsys[OF st])
    fix w w1 assume a: "?P p w" "sys_unlink p w = Inr w1"
    then have "spot R w p" using inside_spot[OF caged_wf] by blast
    with caged_unlink a show "?E w1" by blast
  qed auto
  have rd: "triple (?P p) (fsys p (sys_rmdir p)) (\<lambda>_. ?E) ?E" for p
  proof (rule triple_fsys[OF st])
    fix w w1 assume a: "?P p w" "sys_rmdir p w = Inr w1"
    then have "spot R w p" using inside_spot[OF caged_wf] by blast
    with caged_rmdir a show "?E w1" by blast
  qed auto
  let ?F = "\<lambda>p k w. ?P p w \<and> (k = Folder \<longrightarrow> kind_at w p = Some Folder)"
  have kind: "triple (?P p) (fget p (\<lambda>w. map_ok (\<lambda>n. ikind (inodes w n)) (lstat w p))) (?F p) ?E" for p
  proof (rule triple_fget[OF st])
    fix w k assume a: "?P p w" "map_ok (\<lambda>n. ikind (inodes w n)) (lstat w p) = Inr k"
    have "spot R w p" using a(1) inside_spot[OF caged_wf] by blast
    with a show "?F p k w" by (auto simp: lstat_def spot_def kind_at_def)
  qed auto
  have tree: "triple (?F p Folder) (or_err h (remove_tree n p)) (\<lambda>_. ?E) ?E" for p n h
  proof (rule triple_or_err, rule triple_fact[where C = "contains_path R p"])
    assume "contains_path R p"
    from remove_caged(1)[OF this, of "{}" w0 n]
    show "triple (?F p Folder) (remove_tree n p) (\<lambda>_. ?E) ?E" by (rule triple_conseq) (auto simp: folders_def)
  qed (auto simp: inside_def)
  show ?thesis
    unfolding delete_one_def
  proof (rule triple_target)
    fix s p
    show "triple (?P p) (seq (fail_if (is_protected p) (FProtected p))
     (bind (fget p (\<lambda>w. map_ok (\<lambda>n. ikind (inodes w n)) (lstat w p))) (\<lambda>k.
       if k = Folder then
         seq (fail_if (recursive \<and> in_pseudo_root p) (FProtected p))
         (if recursive then bind (asks tree_depth) (\<lambda>n. or_err (io_error p) (remove_tree n p))
          else fsys p (sys_rmdir p))
       else fsys p (sys_unlink p)))) (\<lambda>_. ?E) ?E"
    proof (intro triple_fail_if triple_bind[OF kind])
      fix k
      show "triple (?F p k) (if k = Folder then
         seq (fail_if (recursive \<and> in_pseudo_root p) (FProtected p))
         (if recursive then bind (asks tree_depth) (\<lambda>n. or_err (io_error p) (remove_tree n p))
          else fsys p (sys_rmdir p))
       else fsys p (sys_unlink p)) (\<lambda>_. ?E) ?E"
      proof (cases "k = Folder")
        case True
        have r: "triple (?F p Folder) (fsys p (sys_rmdir p)) (\<lambda>_. ?E) ?E" by (rule triple_conseq[OF rd]) auto
        show ?thesis unfolding if_P[OF True] unfolding True
          by (cases recursive) (auto intro!: triple_fail_if triple_ask tree[unfolded conj_assoc simp_thms] r[unfolded conj_assoc simp_thms])
      next
        case False
        show ?thesis unfolding if_not_P[OF False] by (rule triple_conseq[OF un]) auto
      qed
    qed auto
  qed (auto intro: caged_wf)
qed

lemma delete_paths_caged: "caged R w0 w \<Longrightarrow> caged R w0 (snd (delete_paths raws recursive (Some R) w))"
proof (induction raws arbitrary: w)
  case (Cons raw raws)
  have "caged R w0 (snd (delete_one raw recursive (Some R) w))" by (rule triple_world[OF delete_one_caged Cons.prems])
  with Cons.IH show ?case by (simp add: split_beta Let_def)
qed simp

section \<open>Attributes\<close>

lemma walk_kinds: "kind_at w1 = kind_at w \<Longrightarrow> walk w1 create b cur cs = walk w create b cur cs"
proof (induction w create b cur cs rule: walk.induct)
  case (2 w create b cur c cs)
  show ?case
  proof (cases "c = ''..''")
    case False
    show ?thesis
    proof (cases "kind_at w (cur @ [c])")
      case (Some k)
      show ?thesis
      proof (cases k)
        case Folder
        with 2(2)[OF False Some Folder 2(4)] Some False 2(4) show ?thesis by simp
      next
        case (Link t)
        with 2(3)[OF False Some Link _ 2(4)] Some False 2(4) show ?thesis by simp
      qed (use Some False 2(4) in simp_all)
    qed (use False 2(4) in simp)
  qed (use 2 in simp)
qed simp

lemma settled_kinds: "kind_at w1 = kind_at w \<Longrightarrow> settled w1 p = settled w p"
  by (simp only: settled_def follow_def walk_kinds[of w1 w])

lemma kinds_attr: "ikind v = ikind (inodes w n) \<Longrightarrow> kind_at (w\<lparr>inodes := (inodes w)(n := v)\<rparr>) p = kind_at w p"
  by (cases "ino w p") (simp_all add: kind_at_def)

lemma chmod_at: "at R w0 p w \<Longrightarrow> sys_chmod p m w = Inr w1 \<Longrightarrow> at R w0 p w1 \<and> kind_at w1 = kind_at w"
proof -
  assume a: "at R w0 p w" "sys_chmod p m w = Inr w1"
  then have k: "kind_at w1 = kind_at w" by (auto simp: sys_chmod_def kinds_attr fun_eq_iff)
  with a(1) have "inside R w1 p" by (simp add: inside_def settled_kinds[OF k])
  with a jail_chmod[of R w0 w p m w1] k show ?thesis by simp
qed

lemma chown_at: "at R w0 p w \<Longrightarrow> sys_chown p u g w = Inr w1 \<Longrightarrow> at R w0 p w1"
proof -
  assume a: "at R w0 p w" "sys_chown p u g w = Inr w1"
  then have k: "kind_at w1 = kind_at w" by (auto simp: sys_chown_def kinds_attr fun_eq_iff)
  with a(1) have "inside R w1 p" by (simp add: inside_def settled_kinds[OF k])
  with a jail_chown[of R w0 w p u g w1] show ?thesis by simp
qed

lemma id_read:
  assumes "stable P" "\<And>w. P w \<Longrightarrow> E w"
  shows "triple P (bind (fget p g) (\<lambda>t. lift_result (h t))) (\<lambda>_. P) E"
proof (rule triple_look)
  fix t show "triple P (lift_result (h t)) (\<lambda>_. P) E" using assms(2) by (auto simp: triple_def io_simps split: sum.split)
qed (use assms in auto)

lemma transpose_keeps: "(\<And>a. triple P (f a) (\<lambda>_. P) E) \<Longrightarrow> triple P (transpose_io f x) (\<lambda>_. P) E"
  by (cases x) (auto simp: transpose_io_def intro: triple_ret triple_bind)

lemma id_reads: "stable P \<Longrightarrow> (\<And>w. P w \<Longrightarrow> E w) \<Longrightarrow> triple P (transpose_io uid_for_name x) (\<lambda>_. P) E"
  "stable P \<Longrightarrow> (\<And>w. P w \<Longrightarrow> E w) \<Longrightarrow> triple P (transpose_io gid_for_name x) (\<lambda>_. P) E"
  unfolding uid_for_name_def[abs_def] gid_for_name_def[abs_def] by (intro transpose_keeps id_read, assumption, blast)+

lemma set_attributes_caged:
  "triple (jail R w0) (set_attributes nl raw m owner grp (Some R)) (\<lambda>_. caged R w0) (caged R w0)"
  unfolding set_attributes_def
proof (rule triple_target)
  fix s p
  have own: "triple (at R w0 p) (fsys p (sys_chown p u g)) (\<lambda>_. at R w0 p) (caged R w0)" for u g
  proof (rule triple_fsys)
    fix w w1 assume "at R w0 p w" "sys_chown p u g w = Inr w1" then show "at R w0 p w1" by (rule chown_at)
  qed (auto intro: jail_caged)
  have mode: "triple (at R w0 p) (fsys p (sys_chmod p x)) (\<lambda>_. at R w0 p) (caged R w0)" for x
  proof (rule triple_fsys)
    fix w w1 assume "at R w0 p w" "sys_chmod p x w = Inr w1"
    from chmod_at[OF this] show "at R w0 p w1" by blast
  qed (auto intro: jail_caged)
  have a: "triple (at R w0 p) (if owner = None \<and> grp = None then ret ()
      else bind (transpose_io uid_for_name owner) (\<lambda>u. bind (transpose_io gid_for_name grp) (\<lambda>g.
        fsys p (sys_chown p u g)))) (\<lambda>_. at R w0 p) (caged R w0)"
    by (auto intro!: triple_ret triple_bind[OF id_reads(1)] triple_bind[OF id_reads(2)] own intro: jail_caged)
  have b: "triple (at R w0 p) (case m of None \<Rightarrow> ret () | Some x \<Rightarrow> fsys p (sys_chmod p (x mod 4096))) (\<lambda>_. at R w0 p) (caged R w0)"
    by (cases m) (auto intro!: triple_ret mode)
  show "triple (at R w0 p) (seq (fail_if (is_protected p) (FProtected p))
     (seq (if owner = None \<and> grp = None then ret ()
           else bind (transpose_io uid_for_name owner) (\<lambda>u. bind (transpose_io gid_for_name grp) (\<lambda>g.
             fsys p (sys_chown p u g))))
     (seq (case m of None \<Rightarrow> ret () | Some x \<Rightarrow> fsys p (sys_chmod p (x mod 4096)))
     (fget p (describe nl p))))) (\<lambda>_. caged R w0) (caged R w0)"
    by (intro triple_fail_if triple_call[OF a] triple_call[OF b]) (auto intro: jail_caged)
qed (auto intro: jail_caged jail_wf)

section \<open>Copies and archives to a place without links\<close>

definition is_link :: "ikind \<Rightarrow> bool" where
  "is_link k = (case k of Link t \<Rightarrow> True | _ \<Rightarrow> False)"

text \<open>A link at the path or below it.\<close>

definition link_below :: "'z vfs_scheme \<Rightarrow> string list \<Rightarrow> bool" where
  "link_below w p = list_ex (\<lambda>(x, n). within p x \<and> is_link (ikind (inodes w n))) (names w)"

definition target_has_link :: "string list list \<Rightarrow> string \<Rightarrow> 'z vfs_scheme \<Rightarrow> bool" where
  "target_has_link R raw w = (case and_then (map_err FInvalidPath (safe_path raw)) (\<lambda>p. resolve R p w) of
     Inl e \<Rightarrow> False | Inr t \<Rightarrow> link_below w t)"

lemma link_below_kind: "\<not> link_below w p \<Longrightarrow> within p x \<Longrightarrow> kind_at w x \<noteq> Some (Link t)"
  using map_of_SomeD[of "names w" x] by (fastforce simp: link_below_def list_ex_iff kind_at_def ino_def is_link_def)

lemma target_link: "safe_path raw = Inr p \<Longrightarrow> resolve R p w = Inr t \<Longrightarrow> target_has_link R raw w = link_below w t"
  by (simp add: target_has_link_def)

lemma only_vouts_kind: "only_vouts v w \<Longrightarrow> kind_at w = kind_at v \<and> resolve R p w = resolve R p v \<and> inside R w t = inside R v t"
  by (auto simp: only_vouts_def)

text \<open>The first steps of an operation do not change the file system: what they find is true of the start.\<close>

lemma first_path:
  assumes e: "\<And>w. P w \<Longrightarrow> E w" and f: "\<And>s. safe_path raw = Inr s \<Longrightarrow> triple P (f s) Q E"
  shows "triple P (bind (with_path raw) f) Q E"
proof (cases "safe_path raw")
  case (Inl x)
  then show ?thesis using e by (simp add: triple_def with_path_def io_simps)
next
  case (Inr s)
  have "bind (with_path raw) f = f s" by (simp add: fun_eq_iff with_path_def io_simps Inr)
  with f[OF Inr] show ?thesis by simp
qed

lemma first_scoped:
  assumes e: "\<And>w. only_vouts v w \<Longrightarrow> E w" and f: "\<And>t. resolve R s v = Inr t \<Longrightarrow> triple (only_vouts v) (f t) Q E"
  shows "triple (only_vouts v) (bind (scoped (Some R) s) f) Q E"
proof (rule triple_bind[OF triple_resolved[OF stable_only e]])
  fix t
  show "triple (\<lambda>w. only_vouts v w \<and> resolve R s w = Inr t) (f t) Q E"
  proof (rule triple_fact[where C = "resolve R s v = Inr t"])
    fix w assume "only_vouts v w \<and> resolve R s w = Inr t" then show "resolve R s v = Inr t" using only_vouts_kind[of v w R s] by auto
  next
    assume "resolve R s v = Inr t" then show "triple (\<lambda>w. only_vouts v w \<and> resolve R s w = Inr t) (f t) Q E"
      by (rule triple_conseq[OF f]) auto
  qed
qed

lemma only_vouts_caged: "jail R v v \<Longrightarrow> only_vouts v w \<Longrightarrow> caged R v w"
  using jail_caged[of R v v] by (auto simp: only_vouts_def)

lemma copying_start:
  assumes j: "jail R v v" and l: "\<not> link_below v d" and d: "inside R v d"
  shows "only_vouts v w \<Longrightarrow> copying R v ({} \<union> {x. within d x}) {} w \<and> inside R w d"
  using link_below_kind[OF l] j d by (auto simp: copying_def folders_def only_vouts_def)

lemma copy_tail:
  assumes j: "jail R v v" and d: "\<not> link_below v d" "inside R v d"
  shows "triple (only_vouts v) (bind (copy_recursive n src d) (\<lambda>(files, bytes). bind (fget p g) (\<lambda>e. ret (e, bytes, files))))
    (\<lambda>_. caged R v) (caged R v)"
proof (rule triple_bind[where Q = "\<lambda>_. caged R v"])
  have c: "contains_path R d" using d(2) by (simp add: inside_def)
  show "triple (only_vouts v) (copy_recursive n src d) (\<lambda>_. caged R v) (caged R v)"
    by (rule triple_conseq[OF copy_recursive_jail[OF c, of "{}"]])
      (use copying_start[OF j d] in \<open>auto intro: jail_caged copying_jail\<close>)
  fix fb :: "nat \<times> nat"
  show "triple (caged R v) (case fb of (files, bytes) \<Rightarrow> bind (fget p g) (\<lambda>e. ret (e, bytes, files))) (\<lambda>_. caged R v) (caged R v)"
    unfolding split_beta by (rule triple_look) (auto intro: triple_ret)
qed

lemma resolved_inside: "jail R v v \<Longrightarrow> safe_path raw = Inr s \<Longrightarrow> resolve R s v = Inr t \<Longrightarrow> inside R v t"
  by (blast intro: resolve_inside jail_wf safe_path_plain)

lemma copy_path_caged:
  assumes j: "jail R v v" and l: "\<not> target_has_link R raw_dst v"
  shows "triple (only_vouts v) (copy_path nl raw_src raw_dst ov (Some R)) (\<lambda>_. caged R v) (caged R v)"
  unfolding copy_path_def
proof (intro first_path first_scoped only_vouts_caged[OF j])
  fix s d src dst assume d: "safe_path raw_dst = Inr d" "resolve R d v = Inr dst"
  then have "\<not> link_below v dst" "inside R v dst" using l target_link[OF d] resolved_inside[OF j d] by auto
  then show "triple (only_vouts v) (seq (fail_if (is_protected dst \<or> in_pseudo_root src) (FProtected dst))
     (seq (fail_if (within src dst) (FDestinationInsideSource src dst))
     (bind (asks (\<lambda>w. exists_follow w dst)) (\<lambda>there.
     seq (fail_if (\<not> ov \<and> there) (FExists dst))
     (bind (asks tree_depth) (\<lambda>n. bind (copy_recursive n src dst) (\<lambda>(files, bytes).
     bind (fget dst (describe nl dst)) (\<lambda>e. ret (e, bytes, files)))))))))
     (\<lambda>_. caged R v) (caged R v)"
    by (intro triple_fail_if triple_ask copy_tail[OF j] only_vouts_caged[OF j])
qed

lemma append_step:
  assumes p: "stable P" "\<And>w. P w \<Longrightarrow> E w" and g: "\<And>es. triple P (g es) (\<lambda>_. P) E"
  shows "triple P (bind (fget p (\<lambda>w. map_ok (\<lambda>n. ikind (inodes w n)) (lstat w p))) (\<lambda>k. case k of
       Link t \<Rightarrow> ret []
     | Folder \<Rightarrow> bind (fget p (\<lambda>w. map_ok (entries_of w) (follow w p))) g
     | _ \<Rightarrow> bind (fget p (read_whole p)) (\<lambda>s. ret [(rel, s)]))) (\<lambda>_. P) E"
proof (rule triple_look[OF p])
  fix k
  have whole: "triple P (bind (fget p (read_whole p)) (\<lambda>s. ret [(rel, s)])) (\<lambda>_. P) E"
    by (rule triple_look[OF p]) (simp_all add: triple_ret)
  have dir: "triple P (bind (fget p (\<lambda>w. map_ok (entries_of w) (follow w p))) g) (\<lambda>_. P) E"
    by (rule triple_look[OF p]) (simp_all add: g)
  show "triple P (case k of
       Link t \<Rightarrow> ret []
     | Folder \<Rightarrow> bind (fget p (\<lambda>w. map_ok (entries_of w) (follow w p))) g
     | _ \<Rightarrow> bind (fget p (read_whole p)) (\<lambda>s. ret [(rel, s)])) (\<lambda>_. P) E"
    using whole dir by (cases k) (simp_all add: triple_ret)
qed

lemma collect_keeps: "(\<And>x. triple P (f x) (\<lambda>_. P) E) \<Longrightarrow> triple P (collect f xs) (\<lambda>_. P) E"
proof (induction xs)
  case (Cons x xs)
  show ?case
    unfolding collect.simps by (rule triple_bind[OF Cons.prems], rule triple_bind[OF Cons.IH[OF Cons.prems]]) (simp add: triple_ret)
qed (simp add: triple_ret)

lemma append_reads: "stable P \<Longrightarrow> (\<And>w. P w \<Longrightarrow> E w) \<Longrightarrow> triple P (append_named n p rel) (\<lambda>_. P) E"
proof (induction n arbitrary: p rel)
  case (0 p rel)
  show ?case
    unfolding append_named.simps[of 0]
    by (rule append_step[OF 0]) (auto simp: triple_def io_simps 0)
next
  case (Suc n p rel)
  show ?case
    unfolding append_named.simps[of "Suc n"] nat.case
  proof (rule append_step[OF Suc.prems])
    fix es show "triple P (collect (\<lambda>c. append_named n (p @ [c]) (rel @ ''/'' @ c)) es) (\<lambda>_. P) E"
      by (rule collect_keeps) (rule Suc.IH[OF Suc.prems])
  qed
qed

text \<open>An archive is written to the file that was opened.\<close>

definition writing :: "string list list \<Rightarrow> 'z vfs_scheme \<Rightarrow> nat \<Rightarrow> 'z vfs_scheme \<Rightarrow> bool" where
  "writing R w0 n w = (jail R w0 w \<and> held_new R w0 n)"

lemma writing_stable: "stable (writing R w0 n)"
  by (auto intro: stableI simp: writing_def)

lemma writing_caged: "writing R w0 n w \<Longrightarrow> caged R w0 w"
  by (simp add: writing_def jail_caged)

lemma create_archive_caged:
  assumes j: "jail R v v" and l: "\<not> target_has_link R raw_arch v"
  shows "triple (only_vouts v) (create_archive nl pack raw_dir members raw_arch format (Some R)) (\<lambda>_. caged R v) (caged R v)"
  unfolding create_archive_def
proof (intro triple_fail_if first_path first_scoped only_vouts_caged[OF j])
  fix dir dt a t base assume a: "safe_path raw_arch = Inr a" "resolve R a v = Inr t"
  then have t: "\<not> link_below v t" "inside R v t" using l target_link[OF a] resolved_inside[OF j a] by auto
  have op: "triple (only_vouts v) (or_err (io_error t) (sys_open (open_trunc 420 t))) (writing R v) (caged R v)"
  proof (rule triple_or_err, rule triple_open[OF stable_only only_vouts_caged[OF j]])
    fix w n w1 assume o: "only_vouts v w" "open_trunc 420 t w = Inr (n, w1)"
    have "jail R v w" "inside R w t" "\<not> (\<exists>l. kind_at w t = Some (Link l))"
      using o(1) j t link_below_kind[OF t(1) within_refl] by (auto simp: only_vouts_def)
    from open_trunc_jail[OF this o(2)] show "writing R v n w1" by (simp add: writing_def)
  qed
  have wr: "triple (writing R v n) (fsys t (\<lambda>w. Inr (write_handle n d w))) (\<lambda>_. caged R v) (caged R v)" for n d
    by (rule triple_fsys[OF writing_stable writing_caged]) (auto simp: writing_def held_new_def intro: jail_write jail_caged)
  have mem: "triple (writing R v n) (collect (\<lambda>name. bind (lift_result (map_err FInvalidPath (child base name)))
      (\<lambda>c. append_named k c name)) ms) (\<lambda>_. writing R v n) (caged R v)" for n k base ms
    by (intro collect_keeps triple_bind[where Q = "\<lambda>_. writing R v n"] append_reads writing_stable writing_caged)
      (auto simp: triple_def io_simps writing_caged split: sum.split)
  show "triple (only_vouts v) (bind (or_err (io_error t) (sys_open (open_trunc 420 t))) (\<lambda>m.
     bind (asks tree_depth) (\<lambda>n.
     bind (collect (\<lambda>name. bind (lift_result (map_err FInvalidPath (child base name))) (\<lambda>c. append_named n c name)) members)
       (\<lambda>found.
     seq (fsys t (\<lambda>w. Inr (write_handle m (pack found) w)))
     (bind (asks (\<lambda>w. case stat_follow w t of Inl e \<Rightarrow> 0 | Inr x \<Rightarrow> size_of (ikind (inodes w x)))) (\<lambda>bytes.
     bind (fget t (describe nl t)) (\<lambda>e. ret (e, bytes, length found)))))))) (\<lambda>_. caged R v) (caged R v)"
    by (intro triple_bind[OF op] triple_ask triple_bind[OF mem] triple_call[OF wr] triple_look stable_at triple_ret)
qed

end
