(* ===== verification/FileUpload.thy ===== *)
theory FileUpload
  imports FileSafe
begin

text \<open>
  An upload: its bytes go to a temporary file beside the target, which changes only by the
  rename that puts the whole upload in its place.
\<close>

section \<open>While an upload runs\<close>

text \<open>Since \<open>v\<close> the temporary file \<open>t\<close> was added, with the content \<open>c\<close>.\<close>

definition uploading :: "string list list \<Rightarrow> 'z vfs_scheme \<Rightarrow> string list \<Rightarrow> string \<Rightarrow> 'z vfs_scheme \<Rightarrow> bool" where
  "uploading R v t c w = (jail R v w \<and> names w = (t, fresh v) # names v \<and> fresh w = Suc (fresh v)
     \<and> (\<forall>n < fresh v. inodes w n = inodes v n) \<and> ikind (inodes w (fresh v)) = Reg c)"

text \<open>Nothing but the temporary name is new; the upload took the place of the target.\<close>

definition untouched_but :: "string list \<Rightarrow> 'z vfs_scheme \<Rightarrow> 'z vfs_scheme \<Rightarrow> bool" where
  "untouched_but t v w = ((\<forall>n < fresh v. inodes w n = inodes v n) \<and> (\<forall>x. x \<noteq> t \<longrightarrow> ino w x = ino v x))"

definition uploaded :: "string list \<Rightarrow> string list \<Rightarrow> string \<Rightarrow> 'z vfs_scheme \<Rightarrow> 'z vfs_scheme \<Rightarrow> bool" where
  "uploaded t final c v w = ((\<forall>n < fresh v. inodes w n = inodes v n)
     \<and> (\<forall>x. x \<noteq> t \<and> x \<noteq> final \<longrightarrow> ino w x = ino v x) \<and> ino w t = None
     \<and> ino w final = Some (fresh v) \<and> ikind (inodes w (fresh v)) = Reg c)"

lemma uploading_stable: "stable (uploading R v t c)"
  by (auto intro: stableI simp: uploading_def)

lemma upload_stable [simp]: "untouched_but t v (w\<lparr>vouts := os\<rparr>) = untouched_but t v w"
  "uploaded t final c v (w\<lparr>vouts := os\<rparr>) = uploaded t final c v w"
  by (auto simp: untouched_but_def uploaded_def)

lemma uploading_ino: "uploading R v t c w \<Longrightarrow> ino w x = (if x = t then Some (fresh v) else ino v x)"
  by (simp add: uploading_def ino_def)

lemma uploading_untouched: "uploading R v t c w \<Longrightarrow> untouched_but t v w"
  by (simp add: untouched_but_def uploading_ino) (simp add: uploading_def)

lemma uploading_caged: "uploading R v t c w \<Longrightarrow> caged R v w"
  by (simp add: uploading_def jail_caged)

lemma uploading_kind: "uploading R v t c w \<Longrightarrow> wf_vfs v \<Longrightarrow> x \<noteq> t \<Longrightarrow> kind_at w x = kind_at v x"
  using wf_fresh[of v x] by (cases "ino v x") (auto simp: kind_at_def uploading_ino uploading_def)

lemma uploading_temp: "uploading R v t c w \<Longrightarrow> kind_at w t = Some (Reg c)"
  by (simp add: kind_at_def uploading_ino) (simp add: uploading_def)

definition aborted :: "string list list \<Rightarrow> 'z vfs_scheme \<Rightarrow> string list \<Rightarrow> 'z vfs_scheme \<Rightarrow> bool" where
  "aborted R v t w = (caged R v w \<and> untouched_but t v w)"

definition landed :: "string list list \<Rightarrow> 'z vfs_scheme \<Rightarrow> string list \<Rightarrow> string list \<Rightarrow> string \<Rightarrow> 'z vfs_scheme \<Rightarrow> bool" where
  "landed R v t final c w = (caged R v w \<and> uploaded t final c v w)"

lemma uploading_aborted: "uploading R v t c w \<Longrightarrow> aborted R v t w"
  by (simp add: aborted_def uploading_caged uploading_untouched)

lemma landed_stable: "stable (landed R v t final c)" "stable (aborted R v t)"
  by (auto intro: stableI simp: landed_def aborted_def)

lemma upload_write_step:
  "ws_file s = Some (fresh v) \<Longrightarrow> triple (uploading R v t c) (upload_write d s) (\<lambda>_. uploading R v t (c @ d)) (uploading R v t c)"
proof -
  assume f: "ws_file s = Some (fresh v)"
  have "triple (uploading R v t c) (fsys (ws_temp s) (\<lambda>w. Inr (write_handle (fresh v) d w)))
      (\<lambda>_. uploading R v t (c @ d)) (uploading R v t c)"
  proof (rule triple_fsys[OF uploading_stable])
    fix w w1 assume a: "uploading R v t c w" "Inr (write_handle (fresh v) d w) = (Inr w1 :: os_error + 'a vfs_scheme)"
    then have w1: "w1 = set_kind (fresh v) (Reg (c @ d)) w" by (simp add: write_handle_def uploading_def)
    have "jail R v w1" using a jail_write[of R v w "fresh v" d] by (simp add: uploading_def)
    with a(1) w1 show "uploading R v t (c @ d) w1" by (simp add: uploading_def set_kind_def)
  qed simp
  then show ?thesis by (simp add: upload_write_def f)
qed

lemma upload_chunks_step:
  "ws_file s = Some (fresh v) \<Longrightarrow>
   triple (uploading R v t c) (upload_chunks ds s) (\<lambda>_. uploading R v t (c @ concat ds)) (\<lambda>w. \<exists>c1. uploading R v t c1 w)"
proof (induction ds arbitrary: c)
  case (Cons d ds)
  show ?case
    unfolding upload_chunks.simps
  proof (rule triple_call)
    show "triple (uploading R v t c) (upload_write d s) (\<lambda>_. uploading R v t (c @ d)) (\<lambda>w. \<exists>c1. uploading R v t c1 w)"
      by (rule triple_conseq[OF upload_write_step[OF Cons.prems]]) auto
    show "triple (uploading R v t (c @ d)) (upload_chunks ds s) (\<lambda>_. uploading R v t (c @ concat (d # ds)))
        (\<lambda>w. \<exists>c1. uploading R v t c1 w)"
      using Cons.IH[OF Cons.prems, of "c @ d"] by simp
  qed
qed (auto intro: triple_ret)

section \<open>The ends of an upload\<close>

text \<open>The directory of an upload, and its two names in it.\<close>

definition upload_places :: "string list list \<Rightarrow> 'z vfs_scheme \<Rightarrow> string list \<Rightarrow> string \<Rightarrow> string \<Rightarrow> bool" where
  "upload_places R v d a b = (jail R v v \<and> kind_at v d = Some Folder \<and> contains_path R d \<and> plain_name a \<and> plain_name b \<and> a \<noteq> b)"

lemma place_spot:
  assumes p: "upload_places R v d a b" and u: "uploading R v (d @ [a]) c w"
  shows "spot R w (d @ [a])" "spot R w (d @ [b])" "at R v (d @ [a]) w" "kind_at w d = Some Folder"
proof -
  have wf: "wf_vfs w" "wf_vfs v" "jail R v w" using u p jail_wf by (auto simp: uploading_def upload_places_def)
  have "d \<noteq> d @ [a]" by simp
  then show k: "kind_at w d = Some Folder" using uploading_kind[OF u wf(2)] p by (simp add: upload_places_def)
  have c: "contains_path R (d @ [x])" for x using p contains_trans[of R d "d @ [x]"] by (simp add: upload_places_def)
  show s: "spot R w (d @ [a])" "spot R w (d @ [b])" using child_spot[OF wf(1) k c] p by (simp_all add: upload_places_def)
  have "no_link (kind_at w (d @ [a]))" using uploading_temp[OF u] by simp
  then show "at R v (d @ [a]) w" using s(1) wf(3) by (simp add: inside_def settled_def spot_def)
qed

lemma upload_chmod_step:
  assumes p: "upload_places R v d a b"
  shows "triple (uploading R v (d @ [a]) c) (fsys x (sys_chmod (d @ [a]) m)) (\<lambda>_. uploading R v (d @ [a]) c) (aborted R v (d @ [a]))"
proof (rule triple_fsys[OF uploading_stable uploading_aborted])
  fix w w1 assume a: "uploading R v (d @ [a]) c w" "sys_chmod (d @ [a]) m w = Inr w1"
  note at = place_spot(3)[OF p a(1)]
  from a(2) obtain q n where q: "follow w (d @ [a]) = Inr q" "ino w q = Some n"
    "w1 = w\<lparr>inodes := (inodes w)(n := (inodes w n)\<lparr>imode := m\<rparr>)\<rparr>" by (auto simp: sys_chmod_def stat_follow_def)
  have "q = d @ [a]" using follow_settled[OF jail_wf _ q(1)] at by (auto simp: inside_def)
  then have "n = fresh v" using q(2) uploading_ino[OF a(1)] by simp
  moreover have "jail R v w1" using chmod_at[OF at a(2)] by blast
  ultimately show "uploading R v (d @ [a]) c w1" using a(1) q(3) by (simp add: uploading_def)
qed

lemma upload_rename_step:
  assumes p: "upload_places R v d a b"
  shows "triple (uploading R v (d @ [a]) c) (fsys x (sys_rename (d @ [a]) (d @ [b])))
     (\<lambda>_. landed R v (d @ [a]) (d @ [b]) c) (aborted R v (d @ [a]))"
proof (rule triple_fsys[OF uploading_stable uploading_aborted])
  let ?t = "d @ [a]" and ?b = "d @ [b]"
  fix w w1 assume u: "uploading R v ?t c w" and r: "sys_rename ?t ?b w = Inr w1"
  note s = place_spot[OF p u]
  have wf: "wf_vfs w" "wf_vfs v" using u p jail_wf by (auto simp: uploading_def upload_places_def)
  have cg: "caged R v w1" using caged_rename[OF uploading_caged[OF u] s(1,2) r] .
  have pl: "place w ?t = Inr ?t" "place w ?b = Inr ?b" using place_child[OF wf(1) s(4)] by auto
  have n: "ino w ?t = Some (fresh v)" "ino w ?b \<noteq> Some (fresh v)" "a \<noteq> b"
    using p wf_fresh[OF wf(2), of ?b] by (auto simp: uploading_ino[OF u] upload_places_def)
  have nw: "\<not> within ?t ?b" "\<not> within ?b ?t" using n(3) by (auto simp: within_iff)
  have reg: "ikind (inodes w (fresh v)) \<noteq> Folder" using u by (simp add: uploading_def)
  have m: "w1 = move_names ?t ?b w \<and> kind_at w ?b \<noteq> Some Folder"
  proof (cases "kind_at w ?b")
    case None
    then show ?thesis using r n nw reg by (simp add: sys_rename_def pl)
  next
    case (Some k)
    then show ?thesis using r n nw reg by (cases k) (simp_all add: sys_rename_def pl)
  qed
  have t: "kind_at w ?t \<noteq> Some Folder" using uploading_temp[OF u] by simp
  have mv: "movable w ?t ?b"
    using no_children[OF wf(1), of ?b] m nw n(1) s(2,4) by (auto simp: movable_def spot_def)
  have i: "ino w1 x = Some k \<longleftrightarrow> (x = ?b \<and> k = fresh v \<or> x \<noteq> ?b \<and> x \<noteq> ?t \<and> ino w x = Some k)" for x k
  proof -
    have "ino w1 x = Some k \<longleftrightarrow> (\<exists>q. ino w q = Some k \<and> q \<noteq> ?b \<and> rebase ?t ?b q = x)" using ino_move[OF wf(1) mv] m by simp
    also have "\<dots> \<longleftrightarrow> (\<exists>q. ino w q = Some k \<and> q \<noteq> ?b \<and> (if q = ?t then ?b else q) = x)"
    proof -
      have "rebase ?t ?b q = (if q = ?t then ?b else q)" if "ino w q = Some k" for q k
        using that no_children[OF wf(1), of ?t] t by (cases "within ?t q") (auto simp: rebase_def within_iff)
      then show ?thesis by metis
    qed
    also have "\<dots> \<longleftrightarrow> (x = ?b \<and> k = fresh v \<or> x \<noteq> ?b \<and> x \<noteq> ?t \<and> ino w x = Some k)" using n by auto
    finally show ?thesis .
  qed
  have "inodes w1 = inodes w" using m by (simp add: move_names_def)
  moreover have "ino w1 ?b = Some (fresh v)" using i[of ?b] by simp
  moreover have "ino w1 ?t = None" using i[of ?t] n(3) by (cases "ino w1 ?t") auto
  moreover have "ino w1 x = ino v x" if "x \<noteq> ?t" "x \<noteq> ?b" for x
    using i[of x] uploading_ino[OF u, of x] that by (metis not_Some_eq)
  ultimately show "landed R v ?t ?b c w1" using cg u by (auto simp: landed_def uploaded_def uploading_def)
qed

lemma upload_drop_step:
  assumes p: "upload_places R v d a b" and s: "ws_temp s = d @ [a]"
  shows "triple (\<lambda>w. \<exists>c. uploading R v (d @ [a]) c w) (upload_drop s) (\<lambda>_. aborted R v (d @ [a])) (aborted R v (d @ [a]))"
proof -
  let ?U = "\<lambda>w. \<exists>c. uploading R v (d @ [a]) c w" and ?A = "aborted R v (d @ [a])"
  have st: "stable ?U" using uploading_stable[of R v "d @ [a]"] by (auto simp: stable_def)
  have "triple ?U (fsys (ws_temp s) (sys_unlink (ws_temp s))) (\<lambda>_. ?A) ?A"
  proof (rule triple_fsys[OF st])
    fix w w1 assume "?U w" and r: "sys_unlink (ws_temp s) w = Inr w1"
    then obtain c where u: "uploading R v (d @ [a]) c w" by blast
    from caged_unlink[OF uploading_caged[OF u] place_spot(1)[OF p u] r[unfolded s]]
    show "?A w1" using u by (auto simp: aborted_def untouched_but_def uploading_ino) (auto simp: uploading_def drop_names_def)
  qed (auto intro: uploading_aborted)
  then show ?thesis
    unfolding upload_drop_def by (intro triple_do_if triple_ignore) (auto intro: uploading_aborted)
qed

section \<open>A whole upload\<close>

definition opened :: "string list list \<Rightarrow> 'z vfs_scheme \<Rightarrow> string list \<Rightarrow> string \<Rightarrow> write_header \<Rightarrow> write_handle_state \<Rightarrow> bool" where
  "opened R v d a h s = (upload_places R v d a (wh_name h) \<and> ws_temp s = d @ [a] \<and> ws_final s = d @ [wh_name h]
     \<and> ws_file s = Some (fresh v))"

lemma upload_open_step:
  assumes j: "jail R v v" and d: "safe_path (wh_directory h) = Inr p" "resolve R p v = Inr d"
    and a: "plain_name (temp_name hex)" "temp_name hex \<noteq> wh_name h"
  shows "triple (only_vouts v) (upload_open hex h (Some R))
    (\<lambda>s w. opened R v d (temp_name hex) h s \<and> uploading R v (d @ [temp_name hex]) [] w) (only_vouts v)"
  unfolding upload_open_def
proof (rule first_path[OF _ first_scoped])
  let ?K = "\<lambda>t k w. only_vouts v w \<and> (k = Folder \<longrightarrow> kind_at v t = Some Folder)"
  fix s t assume st: "safe_path (wh_directory h) = Inr s" "resolve R s v = Inr t"
  then have t: "t = d" using d by simp
  have ins: "inside R v d" by (rule resolved_inside[OF j d])
  have look: "triple (only_vouts v) (fget t (\<lambda>w. map_ok (\<lambda>n. ikind (inodes w n)) (lstat w t))) (?K t) (only_vouts v)"
  proof (rule triple_fget[OF stable_only])
    fix w k assume a: "only_vouts v w" "map_ok (\<lambda>n. ikind (inodes w n)) (lstat w t) = Inr k"
    then obtain n where n: "lstat w t = Inr n" "k = ikind (inodes w n)" by auto
    from a(1) obtain os where w: "w = v\<lparr>vouts := os\<rparr>" by (auto simp: only_vouts_def)
    obtain q where q: "place v d = Inr q" "ino v q = Some n" using n(1) t w by (auto simp: lstat_def)
    then have "ino v d = Some n" using place_settled[OF jail_wf[OF j] _ q(1)] ins by (auto simp: inside_def)
    then show "?K t k w" using a(1) n(2) w t by (auto simp: kind_at_def)
  qed
  show "triple (only_vouts v) (bind (fget t (\<lambda>w. map_ok (\<lambda>n. ikind (inodes w n)) (lstat w t))) (\<lambda>k.
     seq (fail_if (k \<noteq> Folder) (FNotADirectory t))
     (bind (with_path (show_path t)) (\<lambda>base.
     bind (lift_result (map_err FInvalidPath (child base (wh_name h)))) (\<lambda>target.
     seq (fail_if (is_protected target) (FProtected target))
     (bind (asks (\<lambda>w. exists_follow w target)) (\<lambda>there.
     seq (fail_if (\<not> wh_overwrite h \<and> there) (FExists target))
     (let temp = t @ [temp_name hex] in
      bind (or_err (io_error temp) (sys_open (open_new 384 temp))) (\<lambda>n.
      ret \<lparr>ws_temp = temp, ws_final = target, ws_mode = wh_mode h, ws_file = Some n\<rparr>)))))))))
    (\<lambda>s w. opened R v d (temp_name hex) h s \<and> uploading R v (d @ [temp_name hex]) [] w) (only_vouts v)"
  proof (intro triple_bind[OF look] triple_fail_if first_path)
    fix k base assume k: "\<not> k \<noteq> Folder" and b: "safe_path (show_path t) = Inr base"
    have "list_all plain_name d" using ins by (simp add: inside_def)
    then have base: "base = d" using b t components_show[of d] by (auto simp: safe_path_Inr)
    show "triple (?K t k) (bind (lift_result (map_err FInvalidPath (child base (wh_name h)))) (\<lambda>target.
     seq (fail_if (is_protected target) (FProtected target))
     (bind (asks (\<lambda>w. exists_follow w target)) (\<lambda>there.
     seq (fail_if (\<not> wh_overwrite h \<and> there) (FExists target))
     (let temp = t @ [temp_name hex] in
      bind (or_err (io_error temp) (sys_open (open_new 384 temp))) (\<lambda>n.
      ret \<lparr>ws_temp = temp, ws_final = target, ws_mode = wh_mode h, ws_file = Some n\<rparr>))))))
    (\<lambda>s w. opened R v d (temp_name hex) h s \<and> uploading R v (d @ [temp_name hex]) [] w) (only_vouts v)"
    proof (rule triple_bind[OF triple_pure(4)])
      fix target
      let ?P = "\<lambda>w. ?K t k w \<and> map_err FInvalidPath (child base (wh_name h)) = Inr target"
      let ?F = "target = d @ [wh_name h] \<and> upload_places R v d (temp_name hex) (wh_name h)"
      show "triple ?P (seq (fail_if (is_protected target) (FProtected target))
     (bind (asks (\<lambda>w. exists_follow w target)) (\<lambda>there.
     seq (fail_if (\<not> wh_overwrite h \<and> there) (FExists target))
     (let temp = t @ [temp_name hex] in
      bind (or_err (io_error temp) (sys_open (open_new 384 temp))) (\<lambda>n.
      ret \<lparr>ws_temp = temp, ws_final = target, ws_mode = wh_mode h, ws_file = Some n\<rparr>)))))
    (\<lambda>s w. opened R v d (temp_name hex) h s \<and> uploading R v (d @ [temp_name hex]) [] w) (only_vouts v)"
      proof (rule triple_fact[where C = ?F])
        fix w assume "?P w"
        then have "child base (wh_name h) = Inr target" "kind_at v d = Some Folder" using k t by (auto simp: map_err_def split: sum.splits)
        then show ?F using base a ins j by (auto simp: child_Inr upload_places_def inside_def)
      next
        assume F: ?F
        let ?t = "d @ [temp_name hex]"
        have op: "triple ?P (or_err e (sys_open (open_new 384 ?t))) (\<lambda>n w. n = fresh v \<and> uploading R v ?t [] w) (only_vouts v)" for e
        proof (rule triple_or_err, rule triple_open)
          fix w n w1 assume o: "?P w" "open_new 384 ?t w = Inr (n, w1)"
          then obtain os where w: "w = v\<lparr>vouts := os\<rparr>" by (auto simp: only_vouts_def)
          have p: "upload_places R v d (temp_name hex) (wh_name h)" using F by blast
          then have "spot R v ?t"
            using child_spot[OF jail_wf[OF j], of d R] contains_trans[of R d ?t] by (simp add: upload_places_def)
          then have s: "spot R w ?t" "jail R v w" using w j by simp_all
          from o(2) have m: "n = fresh w" "add_at ?t (Reg []) 384 w = Inr w1" by (auto simp: open_new_def)
          from jail_add_at[OF s(2,1) m(2)] have r: "jail R v w1" "w1 = add_name ?t (Reg []) 384 w" by auto
          then show "n = fresh v \<and> uploading R v ?t [] w1" using m(1) w
            by (simp add: uploading_def) (simp add: add_name_def new_inode_def)
        qed (auto intro: stableI)
        show "triple ?P (seq (fail_if (is_protected target) (FProtected target))
     (bind (asks (\<lambda>w. exists_follow w target)) (\<lambda>there.
     seq (fail_if (\<not> wh_overwrite h \<and> there) (FExists target))
     (let temp = t @ [temp_name hex] in
      bind (or_err (io_error temp) (sys_open (open_new 384 temp))) (\<lambda>n.
      ret \<lparr>ws_temp = temp, ws_final = target, ws_mode = wh_mode h, ws_file = Some n\<rparr>)))))
    (\<lambda>s w. opened R v d (temp_name hex) h s \<and> uploading R v (d @ [temp_name hex]) [] w) (only_vouts v)"
          unfolding Let_def t
          by (intro triple_fail_if triple_ask triple_bind[OF op[unfolded t]] triple_ret) (use F in \<open>auto simp: opened_def\<close>)
      qed
    qed simp
  qed simp_all
qed simp_all

text \<open>What an upload leaves, by its result.\<close>

definition upload_outcome :: "string list list \<Rightarrow> 'z vfs_scheme \<Rightarrow> string list \<Rightarrow> string list \<Rightarrow> string \<Rightarrow> bool \<Rightarrow> 'z vfs_scheme \<Rightarrow> bool" where
  "upload_outcome R v t final c finished w = (aborted R v t w \<or> finished \<and> landed R v t final c w)"

lemma upload_step:
  assumes j: "jail R v v" and d: "safe_path (wh_directory h) = Inr p" "resolve R p v = Inr d"
    and a: "plain_name (temp_name hex)" "temp_name hex \<noteq> wh_name h"
  shows "triple (only_vouts v) (upload nl hex h chunks finished (Some R))
    (\<lambda>r w. if r = None then aborted R v (d @ [temp_name hex]) w
       else finished \<and> landed R v (d @ [temp_name hex]) (d @ [wh_name h]) (concat chunks) w)
    (upload_outcome R v (d @ [temp_name hex]) (d @ [wh_name h]) (concat chunks) finished)"
    (is "triple _ _ ?Q ?E")
  unfolding upload_def
proof (rule triple_bind)
  let ?t = "d @ [temp_name hex]" and ?b = "d @ [wh_name h]"
  have start: "aborted R v ?t w" if "only_vouts v w" for w
    using that only_vouts_caged[OF j] by (auto simp: aborted_def only_vouts_def untouched_but_def)
  show "triple (only_vouts v) (upload_open hex h (Some R))
      (\<lambda>s w. opened R v d (temp_name hex) h s \<and> uploading R v ?t [] w) ?E"
    by (rule triple_conseq[OF upload_open_step[OF assms]]) (auto simp: upload_outcome_def start)
  fix s
  let ?U = "\<lambda>w. \<exists>c. uploading R v ?t c w"
  have e: "aborted R v ?t w \<Longrightarrow> ?E w" for w by (simp add: upload_outcome_def)
  show "triple (\<lambda>w. opened R v d (temp_name hex) h s \<and> uploading R v ?t [] w)
     (bind (catch (upload_chunks chunks s)) (\<lambda>r. case r of
       Inl e \<Rightarrow> seq (upload_drop s) (throw e)
     | Inr u \<Rightarrow> if finished then bind (upload_commit nl (s\<lparr>ws_file := None\<rparr>)) (\<lambda>e. ret (Some e))
         else seq (upload_drop s) (ret None))) ?Q ?E"
  proof (rule triple_fact[where C = "opened R v d (temp_name hex) h s"], blast)
    assume o: "opened R v d (temp_name hex) h s"
    then have p: "upload_places R v d (temp_name hex) (wh_name h)" and s: "ws_temp s = ?t" "ws_final s = ?b" "ws_file s = Some (fresh v)"
      by (simp_all add: opened_def)
    have chunks: "triple (\<lambda>w. opened R v d (temp_name hex) h s \<and> uploading R v ?t [] w) (catch (upload_chunks chunks s))
       (\<lambda>r w. case r of Inl e \<Rightarrow> ?U w | Inr u \<Rightarrow> uploading R v ?t (concat chunks) w) ?E"
      by (rule triple_conseq[OF triple_catch[OF upload_chunks_step[OF s(3)]]]) (auto split: sum.splits)
    have drop: "triple ?U (seq (upload_drop s) k) Q ?E" if "triple (aborted R v ?t) k Q ?E" for k and Q :: "'x \<Rightarrow> _"
      by (rule triple_call[OF triple_conseq[OF upload_drop_step[OF p s(1)]] that]) (auto intro: e)
    have chmod: "triple (uploading R v ?t c) (fsys x (sys_chmod ?t m)) (\<lambda>_. uploading R v ?t c) ?E" for c x m
      by (rule triple_conseq[OF upload_chmod_step[OF p]]) (auto intro: e)
    have sync: "triple (uploading R v ?t c) (fsys x Inr) (\<lambda>_. uploading R v ?t c) ?E" for c x
      by (rule triple_fsys[OF uploading_stable]) (auto intro: e uploading_aborted)
    have commit: "triple (uploading R v ?t (concat chunks)) (bind (upload_commit nl (s\<lparr>ws_file := None\<rparr>)) (\<lambda>e. ret (Some e))) ?Q ?E"
      if f: finished
    proof (rule triple_bind[where Q = "\<lambda>_. landed R v ?t ?b (concat chunks)"])
      have l: "landed R v ?t ?b (concat chunks) w \<Longrightarrow> ?E w" for w using f by (simp add: upload_outcome_def)
      have rn: "triple (uploading R v ?t (concat chunks)) (fsys x (sys_rename ?t ?b)) (\<lambda>_. landed R v ?t ?b (concat chunks)) ?E" for x
        by (rule triple_conseq[OF upload_rename_step[OF p]]) (auto intro: e)
      show "triple (uploading R v ?t (concat chunks)) (upload_commit nl (s\<lparr>ws_file := None\<rparr>))
          (\<lambda>_. landed R v ?t ?b (concat chunks)) ?E"
        unfolding upload_commit_def
        by (simp add: s) (intro triple_call[OF sync] triple_call[OF chmod] triple_call[OF rn] triple_last landed_stable l)
    qed (use f in \<open>auto intro: triple_ret\<close>)
    show ?thesis
    proof (rule triple_bind[OF chunks])
      fix r
      show "triple (\<lambda>w. case r of Inl e \<Rightarrow> ?U w | Inr u \<Rightarrow> uploading R v ?t (concat chunks) w) (case r of
           Inl e \<Rightarrow> seq (upload_drop s) (throw e)
         | Inr u \<Rightarrow> if finished then bind (upload_commit nl (s\<lparr>ws_file := None\<rparr>)) (\<lambda>e. ret (Some e))
             else seq (upload_drop s) (ret None)) ?Q ?E"
      proof (cases r)
        case (Inl x)
        then show ?thesis using drop[of "throw x" ?Q] e by (simp add: triple_def[of _ "throw x"] io_simps)
      next
        case (Inr u)
        have no: "triple (uploading R v ?t (concat chunks)) (seq (upload_drop s) (ret None)) ?Q ?E"
          by (rule triple_conseq[OF drop[of "ret None" ?Q]]) (auto intro: triple_ret)
        show ?thesis
        proof (cases finished)
          case True
          show ?thesis unfolding Inr sum.case if_P[OF True] by (rule commit[OF True])
        next
          case False
          show ?thesis unfolding Inr sum.case if_not_P[OF False] by (rule no)
        qed
      qed
    qed
  qed
qed

end
