(* ===== verification/FileTrees.thy ===== *)
theory FileTrees
  imports FileUpload
begin

text \<open>
  What removal and copying of a tree do when no call fails: the walk's depth bound is enough,
  and the tree is gone, or is there twice.
\<close>

section \<open>Calls that do not fail\<close>

lemma calm [simp]: "vouts w = [] \<Longrightarrow> w\<lparr>vouts := []\<rparr> = w"
  by simp

lemma sys_calm: "vouts w = [] \<Longrightarrow> sys f w = (case f w of Inl e \<Rightarrow> (Inl e, w) | Inr w1 \<Rightarrow> (Inr (), w1))"
  by (simp add: sys_def)

lemma get_calm: "vouts w = [] \<Longrightarrow> sys_get g w = (g w, w)"
  by (simp add: sys_get_def)

lemma open_calm: "vouts w = [] \<Longrightarrow> sys_open f w = (case f w of Inl e \<Rightarrow> (Inl e, w) | Inr (n, w1) \<Rightarrow> (Inr n, w1))"
  by (simp add: sys_open_def)

lemma bind_ok: "m w = (Inr x, w1) \<Longrightarrow> bind m f w = f x w1"
  by (simp add: bind_def)

lemma get_bind: "vouts w = [] \<Longrightarrow> g w = Inr x \<Longrightarrow> bind (sys_get g) k w = k x w"
  by (simp add: bind_def get_calm)

lemma fget_bind: "vouts w = [] \<Longrightarrow> g w = Inr x \<Longrightarrow> bind (fget p g) k w = k x w"
  by (simp add: bind_def get_calm or_err_def)

lemma seq_ok: "m w = (Inr (), w1) \<Longrightarrow> seq m k w = k w1"
  by (simp add: seq_def bind_def)

lemma or_err_ok: "m w = (Inr x, w1) \<Longrightarrow> or_err h m w = (Inr x, w1)"
  by (simp add: or_err_def)

section \<open>Removing\<close>

lemma drop_drop: "drop_names P (drop_names Q w) = drop_names (\<lambda>x. Q x \<or> P x) w"
  by (simp add: drop_names_def case_prod_unfold)

lemma drop_same: "(\<And>x. ino w x \<noteq> None \<Longrightarrow> P x = Q x) \<Longrightarrow> drop_names P w = drop_names Q w"
proof -
  assume a: "\<And>x. ino w x \<noteq> None \<Longrightarrow> P x = Q x"
  have "filter (\<lambda>(x, n). \<not> P x) (names w) = filter (\<lambda>(x, n). \<not> Q x) (names w)"
  proof (rule filter_cong[OF refl])
    fix e assume "e \<in> set (names w)"
    then have "ino w (fst e) \<noteq> None" using ino_names[of w "fst e"] by blast
    then show "(case e of (x, n) \<Rightarrow> \<not> P x) = (case e of (x, n) \<Rightarrow> \<not> Q x)" using a[of "fst e"] by (simp add: case_prod_unfold)
  qed
  then show ?thesis by (simp add: drop_names_def)
qed

lemma vouts_drop [simp]: "vouts (drop_names P w) = vouts w" "inodes (drop_names P w) = inodes w"
  by (simp_all add: drop_names_def)

lemma wf_drop_within: "wf_vfs w \<Longrightarrow> \<forall>p \<in> A. p \<noteq> [] \<Longrightarrow> wf_vfs (drop_names (\<lambda>x. \<exists>p \<in> A. within p x) w)"
proof -
  assume w: "wf_vfs w" and a: "\<forall>p \<in> A. p \<noteq> []"
  let ?P = "\<lambda>x. \<exists>p \<in> A. within p x"
  have up: "?P x" if "?P (butlast x)" for x using that within_butlast by blast
  have r: "\<not> ?P []" using a by (auto simp: within_iff)
  have d: "distinct (map fst (names (drop_names ?P w)))"
    using w by (auto simp: wf_vfs_def drop_names_def distinct_map_filter)
  show ?thesis
    using w r d up unfolding wf_vfs_def by (auto simp: kind_drop split: if_splits)
qed

definition below_depth :: "'z vfs_scheme \<Rightarrow> nat \<Rightarrow> string list \<Rightarrow> bool" where
  "below_depth w n p = (\<forall>x. ino w (p @ x) \<noteq> None \<longrightarrow> length x < n)"

lemma depth_names: "(p, k) \<in> set ns \<Longrightarrow> length p \<le> foldr (\<lambda>(p, n) m. max (length p) m) ns 0"
  by (induction ns) auto

lemma tree_depth_enough: "below_depth w (tree_depth w) p"
  unfolding below_depth_def
proof (intro allI impI)
  fix x assume "ino w (p @ x) \<noteq> None"
  then obtain k where "(p @ x, k) \<in> set (names w)" by (auto simp: ino_def dest: map_of_SomeD)
  from depth_names[OF this] show "length x < tree_depth w" by (simp add: tree_depth_def)
qed

lemma entries_complete: "ino w (p @ [c]) \<noteq> None \<Longrightarrow> c \<in> set (entries_of w p)"
proof -
  assume "ino w (p @ [c]) \<noteq> None"
  then have "p @ [c] \<in> set (filter (\<lambda>q. q \<noteq> [] \<and> butlast q = p) (map fst (names w)))" using ino_names[of w "p @ [c]"] by simp
  then have "last (p @ [c]) \<in> set (entries_of w p)" unfolding entries_of_def set_map by (rule imageI)
  then show ?thesis by simp
qed

lemma remove_all:
  shows "wf_vfs w \<Longrightarrow> vouts w = [] \<Longrightarrow> kind_at w p = Some Folder \<Longrightarrow> p \<noteq> [] \<Longrightarrow> below_depth w n p \<Longrightarrow>
      remove_tree n p w = (Inr (), drop_names (within p) w)"
    and "wf_vfs w \<Longrightarrow> vouts w = [] \<Longrightarrow> kind_at w p = Some Folder \<Longrightarrow> \<forall>c \<in> set cs. below_depth w n (p @ [c]) \<and> kind_at w (p @ [c]) \<noteq> None \<Longrightarrow>
      distinct cs \<Longrightarrow>
      remove_entries n p cs w = (Inr (), drop_names (\<lambda>x. \<exists>q \<in> (\<lambda>c. p @ [c]) ` set cs. within q x) w)"
proof (induction n p and n p cs arbitrary: w and w rule: remove_tree_remove_entries.induct)
  case (1 p w)
  then have "ino w (p @ []) \<noteq> None" using kind_at_None[of w p] by auto
  with 1(5) have "length ([] :: string list) < 0" unfolding below_depth_def by blast
  then show ?case by simp
next
  case (2 n p w)
  note wf = 2(2)
  have f: "follow w p = Inr p" using follow_real[OF wf, of p] 2(4) by simp
  let ?cs = "entries_of w p"
  have kids: "\<forall>c \<in> set ?cs. below_depth w n (p @ [c]) \<and> kind_at w (p @ [c]) \<noteq> None"
    using 2(6) entries_there[of _ w p] unfolding below_depth_def by (fastforce dest: spec[of _ "_ # _"])
  let ?w1 = "drop_names (\<lambda>x. \<exists>q \<in> (\<lambda>c. p @ [c]) ` set ?cs. within q x) w"
  have e: "remove_entries n p ?cs w = (Inr (), ?w1)" by (rule 2(1)[OF wf 2(3,4) kids entries_distinct[OF wf]])
  have wf1: "wf_vfs ?w1" by (rule wf_drop_within[OF wf]) auto
  have np: "\<not> (\<exists>q \<in> (\<lambda>c. p @ [c]) ` set ?cs. within q p)" using within_length by fastforce
  then have k1: "kind_at ?w1 p = Some Folder" using 2(4) by (simp add: kind_drop)
  have pl: "place ?w1 p = Inr p"
    using place_child[OF wf1 wf_parent[OF wf1 2(5)], of "last p"] k1 2(5) by simp
  have gone: "ino ?w1 (p @ x) = None" if nx: "x \<noteq> []" for x
  proof (rule ccontr)
    assume "ino ?w1 (p @ x) \<noteq> None"
    then have i: "ino w (p @ x) \<noteq> None" "\<forall>c \<in> set ?cs. \<not> within (p @ [c]) (p @ x)" by (auto split: if_splits)
    obtain c y where x: "x = c # y" using nx by (cases x) auto
    have "kind_at w ((p @ [c]) @ y) \<noteq> None" using i(1) x by (simp add: kind_at_None)
    then have "kind_at w (p @ [c]) \<noteq> None" using wf_prefix[OF wf, of "p @ [c]" y] by (cases "y = []") auto
    then have "c \<in> set ?cs" using entries_complete[of w p c] by (simp add: kind_at_None)
    with i(2) x show False by (auto simp: within_iff)
  qed
  have "entries_of ?w1 p = []"
  proof (rule ccontr)
    assume "entries_of ?w1 p \<noteq> []"
    then obtain c where "c \<in> set (entries_of ?w1 p)" by (cases "entries_of ?w1 p") auto
    from entries_there[OF this] gone[of "[c]"] show False by (simp add: kind_at_None)
  qed
  then have "sys_rmdir p ?w1 = Inr (drop_names (\<lambda>x. x = p) ?w1)" using pl k1 2(5) by (simp add: sys_rmdir_def)
  moreover have "drop_names (\<lambda>x. x = p) ?w1 = drop_names (within p) w"
    unfolding drop_drop
  proof (rule drop_same)
    fix x assume "ino w x \<noteq> None"
    show "((\<exists>q \<in> (\<lambda>c. p @ [c]) ` set ?cs. within q x) \<or> x = p) = within p x"
    proof
      assume "within p x"
      then obtain y where y: "x = p @ y" by (auto simp: within_iff)
      show "(\<exists>q \<in> (\<lambda>c. p @ [c]) ` set ?cs. within q x) \<or> x = p"
        using gone[of y] y \<open>ino w x \<noteq> None\<close> by (cases "y = []") (auto split: if_splits)
    qed (use within_trans[OF within_append, of p] in auto)
  qed
  ultimately show ?case
    using 2(3) by (simp add: get_bind f seq_ok[where m = "remove_entries n p ?cs" and w = w, OF e] sys_calm)
next
  case (3 n p w)
  then show ?case by (simp add: io_simps drop_names_def)
next
  case (4 n p c cs w)
  note wf = 4(3)
  let ?q = "p @ [c]" and ?D = "drop_names (within (p @ [c])) w"
  have k: "kind_at w ?q \<noteq> None" "below_depth w n ?q" using 4(6) by auto
  have first: "(if kind_at w ?q = Some Folder then remove_tree n ?q else sys (sys_unlink ?q)) w = (Inr (), ?D)"
  proof (cases "kind_at w ?q = Some Folder")
    case True
    with 4(1)[of "kind_at w ?q" w] wf 4(4) k(2) show ?thesis by simp
  next
    case False
    have "sys_unlink ?q w = Inr (drop_names (\<lambda>x. x = ?q) w)"
      using place_child[OF wf 4(5)] k(1) False by (cases "kind_at w ?q"; cases "the (kind_at w ?q)") (auto simp: sys_unlink_def)
    moreover have "drop_names (\<lambda>x. x = ?q) w = ?D"
    proof (rule drop_same)
      fix x assume x: "ino w x \<noteq> None"
      show "(x = ?q) = within ?q x"
      proof
        assume "within ?q x"
        then obtain t where t: "x = ?q @ t" by (auto simp: within_iff)
        have "t = []"
        proof (rule ccontr)
          assume "t \<noteq> []"
          with no_children[OF wf, of ?q t] False t x show False by simp
        qed
        with t show "x = ?q" by simp
      qed simp
    qed
    ultimately show ?thesis using False 4(4) by (simp add: sys_calm)
  qed
  have wf1: "wf_vfs ?D" using wf_drop_within[OF wf, of "{?q}"] by simp
  have sib: "\<not> within ?q (p @ [c1] @ x)" if "c1 \<in> set cs" for c1 x
    using that 4(7) by (auto simp: within_iff)
  have "\<not> within ?q p" using within_length[of ?q p] by auto
  then have kp: "kind_at ?D p = Some Folder" using 4(5) by (simp add: kind_drop)
  have rest: "\<forall>c1 \<in> set cs. below_depth ?D n (p @ [c1]) \<and> kind_at ?D (p @ [c1]) \<noteq> None"
    using 4(6) sib[of _ "[]"] by (auto simp: below_depth_def kind_drop)
  have "remove_entries n p cs ?D = (Inr (), drop_names (\<lambda>x. \<exists>q \<in> (\<lambda>c. p @ [c]) ` set cs. within q x) ?D)"
    using 4(2)[of ?D] wf1 4(4) kp rest 4(7) by simp
  then show ?case
    by (simp add: io_simps seq_ok[where m = "if kind_at w ?q = Some Folder then remove_tree n ?q else sys (sys_unlink ?q)" and w = w, OF first] drop_drop)
qed

section \<open>Copying\<close>

text \<open>Only names at or below \<open>d\<close> and new inodes differ.\<close>

definition grown_by :: "string list \<Rightarrow> 'z vfs_scheme \<Rightarrow> 'z vfs_scheme \<Rightarrow> bool" where
  "grown_by d w w1 = (wf_vfs w1 \<and> vouts w1 = [] \<and> (\<forall>x. \<not> within d x \<longrightarrow> ino w1 x = ino w x)
     \<and> (\<forall>m < fresh w. inodes w1 m = inodes w m) \<and> fresh w \<le> fresh w1)"

lemma grown_by_kind: "grown_by d w w1 \<Longrightarrow> wf_vfs w \<Longrightarrow> \<not> within d x \<Longrightarrow> kind_at w1 x = kind_at w x"
  using wf_fresh[of w x] by (cases "ino w x") (auto simp: grown_by_def kind_at_def)

lemma grown_by_trans: "grown_by d w w1 \<Longrightarrow> grown_by d w1 w2 \<Longrightarrow> grown_by d w w2"
  by (auto simp: grown_by_def)

lemma grown_by_up: "grown_by (d @ [c]) w w1 \<Longrightarrow> grown_by d w w1"
  using within_trans[of d "d @ [c]"] by (auto simp: grown_by_def)

definition can_copy :: "nat \<Rightarrow> string list \<Rightarrow> string list \<Rightarrow> 'z vfs_scheme \<Rightarrow> bool" where
  "can_copy n src dst w = (wf_vfs w \<and> vouts w = [] \<and> kind_at w src \<noteq> None \<and> (\<forall>x. kind_at w (src @ x) \<noteq> Some Special)
     \<and> below_depth w n src \<and> dst \<noteq> [] \<and> kind_at w (butlast dst) = Some Folder \<and> kind_at w dst = None
     \<and> list_all plain_name dst \<and> \<not> within src dst)"

definition copy_ok :: "nat \<Rightarrow> string list \<Rightarrow> string list \<Rightarrow> 'z vfs_scheme \<Rightarrow> bool" where
  "copy_ok n src dst w = (\<exists>fb w1. copy_recursive n src dst w = (Inr fb, w1) \<and> grown_by dst w w1
     \<and> (\<forall>x. kind_at w1 (dst @ x) = kind_at w (src @ x)))"

lemma within_linear: "within a c \<Longrightarrow> within b c \<Longrightarrow> within a b \<or> within b a"
  by (auto simp: within_iff append_eq_append_conv2)

lemma apart: "wf_vfs w \<Longrightarrow> kind_at w d = None \<Longrightarrow> kind_at w s \<noteq> None \<Longrightarrow> \<not> within s d \<Longrightarrow> \<not> within d (s @ y)"
proof
  assume a: "wf_vfs w" "kind_at w d = None" "kind_at w s \<noteq> None" "\<not> within s d" "within d (s @ y)"
  then have "within d s" using within_linear[of d "s @ y" s] by auto
  then obtain t where t: "s = d @ t" by (auto simp: within_iff)
  with a(2,3) wf_prefix[OF a(1), of d t] show False by (cases "t = []") auto
qed

lemma missing_below: "wf_vfs w \<Longrightarrow> kind_at w d \<noteq> Some Folder \<Longrightarrow> x \<noteq> [] \<Longrightarrow> kind_at w (d @ x) = None"
  using no_children[of w d x] by (simp add: kind_at_None)

lemma added_leaf:
  assumes w: "wf_vfs w" "vouts w = []" and d: "dst \<noteq> []" "kind_at w (butlast dst) = Some Folder" "kind_at w dst = None" "list_all plain_name dst"
  shows "grown_by dst w (add_name dst k m w)" "place w dst = Inr dst" "ino w dst = None"
proof -
  show n: "ino w dst = None" using d(3) kind_at_None[of w dst] by simp
  show "place w dst = Inr dst" using place_child[OF w(1) d(2), of "last dst"] d(1) by simp
  show "grown_by dst w (add_name dst k m w)"
    using wf_add_name[OF w(1) d(1) n d(2,4)] w(2) by (auto simp: grown_by_def) (simp_all add: add_name_def)
qed

lemma same_leaf:
  assumes w: "wf_vfs w" and s: "kind_at w src = Some k" "k \<noteq> Folder" and d: "kind_at w dst = None"
    and w1: "kind_at w1 dst = Some k" "\<And>x. x \<noteq> [] \<Longrightarrow> kind_at w1 (dst @ x) = kind_at w (dst @ x)"
  shows "kind_at w1 (dst @ x) = kind_at w (src @ x)"
  using missing_below[OF w, of src x] missing_below[OF w, of dst x] assms by (cases "x = []") auto

lemma open_missing:
  assumes w: "wf_vfs w" and d: "dst \<noteq> []" "kind_at w (butlast dst) = Some Folder" "kind_at w dst = None" "list_all plain_name dst"
  shows "open_trunc m dst w = Inr (fresh w, add_name dst (Reg []) m w)"
proof -
  have dst: "dst = butlast dst @ [last dst]" using d(1) by simp
  have "plain_name (last dst)" using d(1,4) by (simp add: list_all_iff)
  then have "last dst \<noteq> ''..''" by (auto simp: plain_name_def)
  then have "walk w True MAX_LINKS (butlast dst) [last dst] = Inr dst" using d(3) dst by simp
  then have "open_place w dst = Inr dst"
    using walk_through[OF w, of "[]" "butlast dst" True MAX_LINKS "[last dst]"] d(2) dst by (simp add: open_place_def del: walk.simps)
  then show ?thesis using d(3) kind_at_None[of w dst] by (simp add: open_trunc_def)
qed

lemma copy_file_calm:
  assumes w: "wf_vfs w" "vouts w = []" and s: "kind_at w src = Some (Reg c)"
    and d: "dst \<noteq> []" "kind_at w (butlast dst) = Some Folder" "kind_at w dst = None" "list_all plain_name dst"
  shows "\<exists>w1. copy_file src dst w = (Inr (), w1) \<and> grown_by dst w w1 \<and> kind_at w1 dst = Some (Reg c)
    \<and> (\<forall>x. x \<noteq> dst \<longrightarrow> kind_at w1 x = kind_at w x)"
proof -
  obtain n where n: "ino w src = Some n" "ikind (inodes w n) = Reg c" using s by (auto simp: kind_at_def)
  have nf: "n < fresh w" using wf_fresh[OF w(1) n(1)] .
  have f: "stat_follow w src = Inr n" using follow_real[OF w(1), of src] s n(1) by (simp add: stat_follow_def)
  let ?m = "fresh w" and ?k = "imode (inodes w n)"
  let ?w1 = "add_name dst (Reg []) ?k w"
  let ?v = "\<lparr>ikind = Reg c, imode = ?k, iuid = 0, igid = 0, imtime = 0\<rparr>"
  let ?w2 = "w\<lparr>names := (dst, ?m) # names w, inodes := (inodes w)(?m := ?v), fresh := Suc ?m\<rparr>"
  have "copy_file src dst w = (Inr (), ?w2)"
    using f n nf w(2) open_missing[OF w(1) d, of ?k]
    by (simp add: copy_file_def bind_def seq_def io_defs sys_get_def sys_open_def sys_def copy_bytes_def write_handle_def
        set_kind_def add_name_def new_inode_def)
  moreover have wf: "wf_vfs (add_name dst (Reg c) ?k w)"
    using wf_add_name[OF w(1) d(1) _ d(2,4)] d(3) kind_at_None[of w dst] by simp
  moreover have e: "?w2 = add_name dst (Reg c) ?k w" by (simp add: add_name_def new_inode_def)
  ultimately show ?thesis
    using added_leaf(1)[OF w d] kind_add_name[OF w(1), of dst "Reg c" ?k] by auto
qed

text \<open>The entries of a directory, one after the other.\<close>

definition ready :: "nat \<Rightarrow> string list \<Rightarrow> string list \<Rightarrow> string list \<Rightarrow> 'z vfs_scheme \<Rightarrow> bool" where
  "ready n src dst cs w = (wf_vfs w \<and> vouts w = [] \<and> kind_at w src = Some Folder \<and> kind_at w dst = Some Folder
     \<and> list_all plain_name dst \<and> \<not> within src dst \<and> distinct cs \<and> (\<forall>x. kind_at w (src @ x) \<noteq> Some Special)
     \<and> (\<forall>c \<in> set cs. plain_name c \<and> kind_at w (src @ [c]) \<noteq> None \<and> below_depth w n (src @ [c]) \<and> kind_at w (dst @ [c]) = None))"

lemma ready_child:
  assumes r: "ready n src dst (c # cs) w"
  shows "can_copy n (src @ [c]) (dst @ [c]) w" "\<not> within (dst @ [c]) (src @ y)"
proof -
  have d: "kind_at w (dst @ [c]) = None" "kind_at w src \<noteq> None" "wf_vfs w" "kind_at w (src @ [c]) \<noteq> None" using r by (auto simp: ready_def)
  have n: "\<not> within src (dst @ [c])"
  proof
    assume "within src (dst @ [c])"
    then have "within src dst \<or> src = dst @ [c]" by (auto simp: within_iff append_eq_append_conv2 Cons_eq_append_conv)
    with r d show False by (auto simp: ready_def)
  qed
  then show "\<not> within (dst @ [c]) (src @ y)" using apart[OF d(3,1,2)] by blast
  have "\<not> within (src @ [c]) (dst @ [c])" using n within_trans[OF within_append, of src "[c]"] by blast
  then show "can_copy n (src @ [c]) (dst @ [c]) w" using r by (auto simp: can_copy_def ready_def)
qed

lemma copy_children:
  assumes one: "\<And>s d w :: 'z vfs_scheme. can_copy n s d w \<Longrightarrow> copy_ok n s d w"
  shows "ready n src dst cs (w :: 'z vfs_scheme) \<Longrightarrow>
    \<exists>fb w1. sum_all (\<lambda>c. copy_recursive n (src @ [c]) (dst @ [c])) cs w = (Inr fb, w1) \<and> grown_by dst w w1
      \<and> kind_at w1 dst = Some Folder \<and> (\<forall>c \<in> set cs. \<forall>x. kind_at w1 (dst @ c # x) = kind_at w (src @ c # x))
      \<and> (\<forall>c x. c \<notin> set cs \<longrightarrow> kind_at w1 (dst @ c # x) = kind_at w (dst @ c # x))"
proof (induction cs arbitrary: w)
  case Nil
  then show ?case by (auto simp: io_simps grown_by_def ready_def)
next
  case (Cons c cs)
  note child = ready_child[OF Cons.prems]
  have wf: "wf_vfs w" using Cons.prems by (simp add: ready_def)
  from one[OF child(1)] obtain a b w1 where c1: "copy_recursive n (src @ [c]) (dst @ [c]) w = (Inr (a, b), w1)"
    "grown_by (dst @ [c]) w w1" "\<And>x. kind_at w1 (dst @ c # x) = kind_at w (src @ c # x)"
    by (auto simp: copy_ok_def)
  have out: "kind_at w1 x = kind_at w x" if "\<not> within (dst @ [c]) x" for x using grown_by_kind[OF c1(2) wf that] .
  have srcs: "kind_at w1 (src @ x) = kind_at w (src @ x)" for x by (rule out[OF child(2)])
  have i: "ino w1 (src @ x) \<noteq> None \<longleftrightarrow> ino w (src @ x) \<noteq> None" for x using srcs[of x] by (simp add: kind_at_None[symmetric])
  have sib: "\<not> within (dst @ [c]) (dst @ c1 # x)" if "c1 \<noteq> c" for c1 x using that by (auto simp: within_iff)
  have up: "\<not> within (dst @ [c]) dst" using within_length[of "dst @ [c]" dst] by auto
  have r: "ready n src dst cs w1"
    unfolding ready_def
  proof (intro conjI ballI allI)
    show "wf_vfs w1" "vouts w1 = []" using c1(2) by (simp_all add: grown_by_def)
    show "kind_at w1 src = Some Folder" using srcs[of "[]"] Cons.prems by (simp add: ready_def)
    show "kind_at w1 dst = Some Folder" using out[OF up] Cons.prems by (simp add: ready_def)
    show "list_all plain_name dst" "\<not> within src dst" "distinct cs" using Cons.prems by (simp_all add: ready_def)
    show "kind_at w1 (src @ x) \<noteq> Some Special" for x using srcs[of x] Cons.prems by (simp add: ready_def)
    fix c1 assume m: "c1 \<in> set cs"
    then show "plain_name c1" "kind_at w1 (src @ [c1]) \<noteq> None" using srcs[of "[c1]"] Cons.prems by (auto simp: ready_def)
    show "below_depth w1 n (src @ [c1])" using m i[of "c1 # x" for x] Cons.prems by (auto simp: ready_def below_depth_def)
    have "c1 \<noteq> c" using m Cons.prems by (auto simp: ready_def)
    then show "kind_at w1 (dst @ [c1]) = None" using out[OF sib[of c1 "[]"]] m Cons.prems by (simp add: ready_def)
  qed
  from Cons.IH[OF r] obtain fb w2 where c2: "sum_all (\<lambda>c. copy_recursive n (src @ [c]) (dst @ [c])) cs w1 = (Inr fb, w2)"
    "grown_by dst w1 w2" "kind_at w2 dst = Some Folder" "\<forall>c \<in> set cs. \<forall>x. kind_at w2 (dst @ c # x) = kind_at w1 (src @ c # x)"
    "\<forall>c x. c \<notin> set cs \<longrightarrow> kind_at w2 (dst @ c # x) = kind_at w1 (dst @ c # x)" by blast
  have new: "c \<notin> set cs" using Cons.prems by (simp add: ready_def)
  have "sum_all (\<lambda>c. copy_recursive n (src @ [c]) (dst @ [c])) (c # cs) w = (Inr (a + fst fb, b + snd fb), w2)"
    using c1(1) c2(1) by (cases fb) (simp add: bind_def ret_def del: copy_recursive.simps)
  moreover have "grown_by dst w w2" using grown_by_trans[OF grown_by_up[OF c1(2)] c2(2)] .
  moreover have "kind_at w2 (dst @ c2 # x) = kind_at w (src @ c2 # x)" if "c2 \<in> set (c # cs)" for c2 x
    using that c2(4,5) new c1(3) srcs[of "c2 # x"] by (cases "c2 = c") auto
  moreover have "kind_at w2 (dst @ c2 # x) = kind_at w (dst @ c2 # x)" if "c2 \<notin> set (c # cs)" for c2 x
    using that c2(5) out[OF sib[of c2 x]] by auto
  ultimately show ?case using c2(3) by blast
qed

lemma entries_add: "entries_of (add_name q k m w) p = (if q \<noteq> [] \<and> butlast q = p then last q # entries_of w p else entries_of w p)"
  by (simp add: entries_of_def)

lemma copy_all: "can_copy n src dst w \<Longrightarrow> copy_ok n src dst w"
proof (induction n arbitrary: src dst w)
  case (0 src dst w)
  then have "ino w (src @ []) \<noteq> None" by (simp add: can_copy_def kind_at_None)
  with 0 have "length ([] :: string list) < 0" unfolding can_copy_def below_depth_def by blast
  then show ?case by simp
next
  case (Suc n src dst w)
  have w: "wf_vfs w" "vouts w = []" using Suc.prems by (simp_all add: can_copy_def)
  have d: "dst \<noteq> []" "kind_at w (butlast dst) = Some Folder" "kind_at w dst = None" "list_all plain_name dst"
    using Suc.prems by (simp_all add: can_copy_def)
  note leaf = added_leaf[OF w d]
  obtain k where k: "kind_at w src = Some k" "k \<noteq> Special" using Suc.prems by (auto simp: can_copy_def dest: spec[of _ "[]"])
  obtain i where i: "ino w src = Some i" "ikind (inodes w i) = k" using k(1) by (auto simp: kind_at_def)
  have ls: "lstat w src = Inr i"
  proof (cases "src = []")
    case False
    then have "place w src = Inr src" using place_child[OF w(1) wf_parent[OF w(1) False], of "last src"] k(1) by simp
    then show ?thesis using i(1) by (simp add: lstat_def)
  qed (use i(1) in \<open>simp add: lstat_def place_def\<close>)
  let ?body = "\<lambda>k. case k of
       Link t \<Rightarrow> seq (fsys dst (sys_symlink t dst)) (ret (1, 0))
     | Folder \<Rightarrow> seq (or_err (io_error dst) (create_dir_all dst))
         (bind (fget src (\<lambda>w. map_ok (entries_of w) (follow w src))) (\<lambda>es.
           sum_all (\<lambda>c. copy_recursive n (src @ [c]) (dst @ [c])) es))
     | _ \<Rightarrow> seq (or_err (io_error src) (copy_file src dst)) (ret (1, size_of k))"
  have run: "copy_recursive (Suc n) src dst w = ?body k w"
    unfolding copy_recursive.simps[of "Suc n"] nat.case by (rule fget_bind[OF w(2)]) (simp add: ls i(2))
  show ?case
  proof (cases k)
    case (Link t)
    let ?w1 = "add_name dst (Link t) 511 w"
    have "sys_symlink t dst w = Inr ?w1" using leaf(2) d(3) by (simp add: sys_symlink_def add_at_def)
    then have "?body k w = (Inr (1, 0), ?w1)" using Link w(2) by (simp add: seq_def bind_def or_err_def sys_calm ret_def)
    moreover have "kind_at ?w1 (dst @ x) = kind_at w (src @ x)" for x
      by (rule same_leaf[OF w(1) k(1) _ d(3)]) (auto simp: Link kind_add_name[OF w(1)])
    ultimately show ?thesis using leaf(1) run unfolding copy_ok_def by auto
  next
    case (Reg c)
    from copy_file_calm[OF w _ d, of src c] k(1) Reg obtain w1 where w1: "copy_file src dst w = (Inr (), w1)" "grown_by dst w w1"
      "kind_at w1 dst = Some (Reg c)" "\<forall>x. x \<noteq> dst \<longrightarrow> kind_at w1 x = kind_at w x" by auto
    have "?body k w = (Inr (1, length c), w1)" using Reg w1(1) by (simp add: seq_def bind_def or_err_def ret_def)
    moreover have "kind_at w1 (dst @ x) = kind_at w (src @ x)" for x
      by (rule same_leaf[OF w(1) k(1) _ d(3)]) (use w1 Reg in auto)
    ultimately show ?thesis using w1(2) run unfolding copy_ok_def by auto
  next
    case Folder
    let ?w1 = "add_name dst Folder 493 w"
    have mk: "create_dir_all dst w = (Inr (), ?w1)"
      using leaf(2) d(3) w(2) by (subst create_dir_all.simps) (simp add: bind_def catch_def sys_calm sys_mkdir_def add_at_def ret_def)
    have nd: "\<not> within dst (src @ x)" for x
      using apart[OF w(1) d(3), of src x] Suc.prems by (simp add: can_copy_def)
    have srcs: "kind_at ?w1 (src @ x) = kind_at w (src @ x)" for x using grown_by_kind[OF leaf(1) w(1) nd] .
    have w1: "wf_vfs ?w1" "vouts ?w1 = []" using leaf(1) by (simp_all add: grown_by_def)
    have f: "follow ?w1 src = Inr src" using follow_real[OF w1(1), of src] srcs[of "[]"] k(1) Folder by simp
    have "within (butlast dst) dst" using within_butlast[of "butlast dst" dst] by simp
    then have "butlast dst \<noteq> src" using Suc.prems by (auto simp: can_copy_def)
    then have es: "entries_of ?w1 src = entries_of w src" by (simp add: entries_add)
    let ?cs = "entries_of w src"
    have run2: "?body k w = sum_all (\<lambda>c. copy_recursive n (src @ [c]) (dst @ [c])) ?cs ?w1"
      using mk f w1(2) es by (simp add: Folder seq_def bind_def or_err_def get_calm)
    have r: "ready n src dst ?cs ?w1"
      unfolding ready_def
    proof (intro conjI ballI allI)
      show "wf_vfs ?w1" "vouts ?w1 = []" by (fact w1)+
      show "kind_at ?w1 src = Some Folder" using srcs[of "[]"] k(1) Folder by simp
      show "kind_at ?w1 dst = Some Folder" by (simp add: kind_add_name[OF w(1)])
      show "list_all plain_name dst" "\<not> within src dst" using Suc.prems by (simp_all add: can_copy_def)
      show "distinct ?cs" by (rule entries_distinct[OF w(1)])
      show "kind_at ?w1 (src @ x) \<noteq> Some Special" for x using srcs[of x] Suc.prems by (simp add: can_copy_def)
      fix c assume c: "c \<in> set ?cs"
      show "plain_name c" by (rule entries_plain[OF w(1) c])
      show "kind_at ?w1 (src @ [c]) \<noteq> None" using srcs[of "[c]"] entries_there[OF c] by simp
      show "kind_at ?w1 (dst @ [c]) = None" using missing_below[OF w(1), of dst "[c]"] d(3) by (simp add: kind_add_name[OF w(1)])
      show "below_depth ?w1 n (src @ [c])"
        unfolding below_depth_def
      proof (intro allI impI)
        fix x assume "ino ?w1 ((src @ [c]) @ x) \<noteq> None"
        then have "kind_at ?w1 (src @ c # x) \<noteq> None" unfolding kind_at_None by simp
        then have "ino w (src @ c # x) \<noteq> None" unfolding srcs kind_at_None .
        then have "length (c # x) < Suc n" using Suc.prems unfolding can_copy_def below_depth_def by blast
        then show "length x < n" by simp
      qed
    qed
    from copy_children[OF Suc.IH r] obtain fb w2 where c2:
      "sum_all (\<lambda>c. copy_recursive n (src @ [c]) (dst @ [c])) ?cs ?w1 = (Inr fb, w2)" "grown_by dst ?w1 w2"
      "kind_at w2 dst = Some Folder" "\<forall>c \<in> set ?cs. \<forall>x. kind_at w2 (dst @ c # x) = kind_at ?w1 (src @ c # x)"
      "\<forall>c x. c \<notin> set ?cs \<longrightarrow> kind_at w2 (dst @ c # x) = kind_at ?w1 (dst @ c # x)" by blast
    have "kind_at w2 (dst @ x) = kind_at w (src @ x)" for x
    proof (cases x)
      case Nil
      then show ?thesis using c2(3) k(1) Folder by simp
    next
      case (Cons c y)
      show ?thesis
      proof (cases "c \<in> set ?cs")
        case True
        with c2(4) srcs[of x] Cons show ?thesis by simp
      next
        case False
        then have "kind_at w (src @ [c]) = None" using entries_complete[of w src c] kind_at_None[of w "src @ [c]"] by blast
        then have "kind_at w (src @ x) = None" using Cons missing_below[OF w(1), of "src @ [c]" y] by (cases "y = []") auto
        moreover have "kind_at ?w1 (dst @ x) = None"
          using missing_below[OF w(1), of dst x] d(3) Cons by (simp add: kind_add_name[OF w(1)])
        ultimately show ?thesis using c2(5) False Cons by simp
      qed
    qed
    moreover have "grown_by dst w w2" by (rule grown_by_trans[OF leaf(1) c2(2)])
    ultimately show ?thesis using run run2 c2(1) unfolding copy_ok_def by auto
  qed (use k in simp)
qed

end
