(* ===== verification/FileProps.thy ===== *)
theory FileProps
  imports FileTrees
begin

text \<open>
  The file service: what an app's scope confines and what it does not, uploads, removal and
  copies, with example file systems on which the theorems are applied.
\<close>

section \<open>An example file system\<close>

definition wf_check :: "'z vfs_scheme \<Rightarrow> bool" where
  "wf_check w = (kind_at w [] = Some Folder \<and> distinct (map fst (names w))
     \<and> list_all (\<lambda>(p, n). n < fresh w \<and> list_all plain_name p \<and> (p \<noteq> [] \<longrightarrow> kind_at w (butlast p) = Some Folder)) (names w))"

lemma wf_check_sound: "wf_check w \<Longrightarrow> wf_vfs w"
proof -
  assume a: "wf_check w"
  have "n < fresh w \<and> list_all plain_name p \<and> (p \<noteq> [] \<longrightarrow> kind_at w (butlast p) = Some Folder)" if "ino w p = Some n" for p n
    using that a map_of_SomeD[of "names w" p n] by (auto simp: wf_check_def ino_def list_all_iff)
  with a show ?thesis by (auto simp: wf_check_def wf_vfs_def kind_at_def)
qed

definition plain_inode :: "ikind \<Rightarrow> vinode" where
  "plain_inode k = \<lparr>ikind = k, imode = 420, iuid = 0, igid = 0, imtime = 0\<rparr>"

fun make_vfs :: "nat \<Rightarrow> (string list \<times> ikind) list \<Rightarrow> vfs" where
  "make_vfs n [] = \<lparr>names = [([], 0)], inodes = (\<lambda>i. plain_inode Folder), fresh = n, vouts = []\<rparr>"
| "make_vfs n ((p, k) # rest) = (let w = make_vfs n rest; i = length rest + 1 in
     w\<lparr>names := (p, i) # names w, inodes := (inodes w)(i := plain_inode k)\<rparr>)"

text \<open>
  An app directory with a file, a directory, a link to the file and a link to a missing file
  outside.
\<close>

definition app_disk :: vfs where
  "app_disk = make_vfs 20 [([''app'', ''out''], Link ''/etc/evil''), ([''app'', ''in''], Link ''a''),
     ([''app'', ''d'', ''f''], Reg ''ff''), ([''app'', ''d''], Folder), ([''app'', ''a''], Reg ''payload''),
     ([''app''], Folder), ([''etc''], Folder)]"

definition app_roots :: "string list list" where
  "app_roots = [[''app'']]"

definition no_names :: name_lookup where
  "no_names = \<lparr>user_of = (\<lambda>i. None), group_of = (\<lambda>i. None)\<rparr>"

lemma app_disk_wf: "wf_vfs app_disk"
  by (rule wf_check_sound) code_simp

lemma app_root_dir: "kind_at app_disk [''app''] = Some Folder"
  by code_simp

lemma app_calm: "vouts app_disk = []"
  by code_simp

lemma app_jail: "wf_vfs app_disk \<and> (\<forall>r \<in> set app_roots. kind_at app_disk r = Some Folder)"
  using app_disk_wf app_root_dir by (simp add: app_roots_def)

section \<open>Paths\<close>

lemma split_len: "code d < 128 \<Longrightarrow>
    sum_list (map byte_len (split_char d s)) + length (split_char d s) = Suc (byte_len s)"
  by (induction d s rule: split_char.induct) (auto split: list.split)

lemma join_len: "ps \<noteq> [] \<Longrightarrow> Suc (byte_len (join ''/'' ps)) = sum_list (map byte_len ps) + length ps"
  by (induction "''/''" ps rule: join.induct) auto

lemma filter_len: "sum_list (map byte_len (filter P ps)) + length (filter P ps) \<le> sum_list (map byte_len ps) + length ps"
  by (induction ps) auto

lemma shown_shorter: "starts_with ''/'' raw \<Longrightarrow> byte_len (show_path (components raw)) \<le> byte_len raw"
proof -
  assume "starts_with ''/'' raw"
  then obtain s where raw: "raw = CHR ''/'' # s" by (cases raw) (auto simp: starts_with_def split: if_splits)
  let ?ps = "split_char (CHR ''/'') s"
  have c: "components raw = filter (\<lambda>c. c \<noteq> [] \<and> c \<noteq> ''.'') ?ps" by (simp add: components_def raw)
  have l: "sum_list (map byte_len ?ps) + length ?ps = byte_len raw" using split_len[of "CHR ''/''" s] by (simp add: raw)
  show ?thesis
  proof (cases "components raw = []")
    case True
    then show ?thesis by (simp add: show_path_def raw)
  next
    case False
    from join_len[OF this] filter_len[of "\<lambda>c. c \<noteq> [] \<and> c \<noteq> ''.''" ?ps] l show ?thesis by (simp add: show_path_def c)
  qed
qed

text \<open>
  A path the service accepts has only plain components - none empty, a dot, two dots, with a
  separator or too long - and printing it and parsing the text again gives the same path, so the
  path that checks and log lines show is the path the operations use.
\<close>

theorem accepted_path_roundtrip:
  assumes "safe_path raw = Inr p"
  shows "list_all plain_name p \<and> safe_path (show_path p) = Inr p"
proof -
  have p: "list_all plain_name p" by (rule safe_path_plain[OF assms])
  have "p = components raw" "starts_with ''/'' raw" "byte_len raw \<le> MAX_PATH_BYTES" using assms by (simp_all add: safe_path_Inr)
  then have "byte_len (show_path p) \<le> MAX_PATH_BYTES" using shown_shorter[of raw] by simp
  with safe_path_show[OF p] p show ?thesis by simp
qed

theorem accepted_path_roundtrip_witness:
  "list_all plain_name [''app'', ''d''] \<and> safe_path (show_path [''app'', ''d'']) = Inr [''app'', ''d'']"
proof -
  have "safe_path ''//app/./d/'' = Inr [''app'', ''d'']" by code_simp
  from accepted_path_roundtrip[OF this] show ?thesis .
qed

section \<open>Confinement\<close>

lemma settled_link_dangles:
  assumes "settled w r" "kind_at w r = Some (Link l)" shows "follow w r = Inl ENOENT"
proof -
  from assms obtain q t where q: "r = q @ t" "t \<noteq> []" "follow w (q @ [hd t]) = Inl ENOENT" by (auto simp: settled_def)
  then have "follow w ((q @ [hd t]) @ tl t) = Inl ENOENT"
    using walk_error[of w MAX_LINKS "[]" "q @ [hd t]" ENOENT "tl t" False] by (simp add: follow_def del: walk.simps)
  with q show ?thesis by simp
qed

text \<open>
  C11. A path resolved in a scope lies below one of its roots and is real: following it reaches that
  very name; renaming or removing it, or creating a directory, a link or an exclusive file there,
  acts on that name in the directory that really holds it; and so does an open that may create a
  file, except through a link at that name which leads nowhere: such an open follows the link, and
  resolving lets the name pass (\<open>copy_escapes_through_link\<close>).
\<close>

theorem resolved_path_is_real:
  assumes "wf_vfs w" "resolve R p w = Inr t"
  shows "contains_path R t \<and> (\<forall>x. follow w t = Inr x \<longrightarrow> x = t)
    \<and> (\<forall>x. place w t = Inr x \<longrightarrow> x = t \<and> (t \<noteq> [] \<longrightarrow> kind_at w (butlast t) = Some Folder))
    \<and> (\<forall>x. open_place w t = Inr x \<longrightarrow> x = t \<and> (t \<noteq> [] \<longrightarrow> kind_at w (butlast t) = Some Folder)
        \<or> (\<exists>l. kind_at w t = Some (Link l)) \<and> follow w t = Inl ENOENT)"
proof -
  have c: "canon_prefix w p = Inr t" "contains_path R t" using assms(2) by (simp_all add: resolve_Inr)
  have "settled w t" by (rule canon_prefix_settled[OF c(1) assms(1)])
  then show ?thesis
    using c(2) follow_settled[OF assms(1)] place_settled[OF assms(1)] open_place_settled[OF assms(1)] settled_link_dangles
    by blast
qed

theorem resolved_path_is_real_witness:
  "contains_path app_roots [''app'', ''a''] \<and> kind_at app_disk (butlast [''app'', ''a'']) = Some Folder"
proof -
  have "resolve app_roots [''app'', ''in''] app_disk = Inr [''app'', ''a'']" "place app_disk [''app'', ''a''] = Inr [''app'', ''a'']"
    by code_simp+
  with resolved_path_is_real[OF app_disk_wf this(1)] show ?thesis by blast
qed

text \<open>
  C8. Creating a directory (with its parents or without), moving, linking, deleting any list of
  paths, and changing owner or mode in an app's scope leave every name outside the roots as it
  was and change only inodes that had a name below the roots - whatever links the app planted,
  whatever the request and whichever of the calls fail. (An inode that also has a name outside
  is one the roots held.)
\<close>

theorem scoped_changes_confined:
  assumes "wf_vfs w" "\<forall>r \<in> set R. kind_at w r = Some Folder"
  shows "confined R w (snd (create_directory nl raw parents (Some R) w))
    \<and> confined R w (snd (move_path nl raw dst ov (Some R) w))
    \<and> confined R w (snd (create_link nl raw target k (Some R) w))
    \<and> confined R w (snd (delete_paths raws recursive (Some R) w))
    \<and> confined R w (snd (set_attributes nl raw m owner grp (Some R) w))"
proof -
  have j: "jail R w w" using assms by (simp add: jail_def)
  have c: "caged R w w1 \<Longrightarrow> confined R w w1" for w1 by (simp add: caged_def)
  show ?thesis
    using triple_world[OF create_directory_caged j] triple_world[OF move_path_caged j] triple_world[OF create_link_caged j]
      delete_paths_caged[OF jail_caged[OF j]] triple_world[OF set_attributes_caged j] c by blast
qed

theorem scoped_changes_confined_witness:
  "confined app_roots app_disk (snd (delete_paths [''/app/out'', ''/app/d''] True (Some app_roots) app_disk))"
  using scoped_changes_confined[of app_disk app_roots] app_jail by blast

text \<open>
  C10. Copying and archiving in a scope are confined in the same way when the destination is not a
  link and there is none below it; listing, describing and reading change nothing at all.
\<close>

theorem scoped_copies_confined:
  assumes "wf_vfs w" "\<forall>r \<in> set R. kind_at w r = Some Folder" "\<not> target_has_link R dst w"
  shows "confined R w (snd (copy_path nl src dst ov (Some R) w))
    \<and> confined R w (snd (create_archive nl pack src members dst format (Some R) w))
    \<and> (\<exists>os. snd (list_directory nl src hidden (Some R) w) = w\<lparr>vouts := os\<rparr>)
    \<and> (\<exists>os. snd (stat_path nl src (Some R) w) = w\<lparr>vouts := os\<rparr>)
    \<and> (\<exists>os. snd (read_open src off (Some R) w) = w\<lparr>vouts := os\<rparr>)"
proof -
  have j: "jail R w w" using assms(1,2) by (simp add: jail_def)
  have c: "caged R w w1 \<Longrightarrow> confined R w w1" for w1 by (simp add: caged_def)
  show ?thesis
    using triple_world[OF copy_path_caged[OF j assms(3)] only_vouts_refl]
      triple_world[OF create_archive_caged[OF j assms(3)] only_vouts_refl]
      triple_world[OF reads_list only_vouts_refl[of w]] triple_world[OF reads_stat only_vouts_refl[of w]]
      triple_world[OF reads_open only_vouts_refl[of w]] c
    unfolding only_vouts_def by blast
qed

theorem scoped_copies_confined_witness:
  "confined app_roots app_disk (snd (copy_path no_names ''/app/a'' ''/app/d'' True (Some app_roots) app_disk))"
proof -
  have "\<not> target_has_link app_roots ''/app/d'' app_disk" by code_simp
  with scoped_copies_confined[of app_disk app_roots "''/app/d''"] app_jail show ?thesis by blast
qed

text \<open>
  Without that condition a copy leaves the scope: the destination \<open>/app/out\<close> is a link to a
  missing file, resolution takes it for a name still to be created, and the copy creates the
  file the link names.
\<close>

theorem copy_escapes_through_link:
  "fst (copy_path no_names ''/app/a'' ''/app/out'' False (Some app_roots) app_disk) \<noteq> Inl (FOutsideScope [''app'', ''out''])
   \<and> kind_at app_disk [''etc'', ''evil''] = None
   \<and> kind_at (snd (copy_path no_names ''/app/a'' ''/app/out'' False (Some app_roots) app_disk)) [''etc'', ''evil''] = Some (Reg ''payload'')"
  by code_simp

text \<open>
  A request sequence of the service on a disk without any link.
\<close>

definition clean_disk :: vfs where
  "clean_disk = make_vfs 20 [([''app'', ''a''], Reg ''payload''), ([''app''], Folder), ([''etc''], Folder)]"

definition escape_steps :: "vfs \<Rightarrow> vfs" where
  "escape_steps w =
     (let w1 = snd (create_directory no_names ''/app/x/y'' True (Some app_roots) w);
          w2 = snd (create_link no_names ''/app/x/y/s'' ''../..'' Symbolic (Some app_roots) w1);
          w3 = snd (create_link no_names ''/app/x/y/s/l'' ''../etc/evil'' Symbolic (Some app_roots) w2) in
      snd (copy_path no_names ''/app/a'' ''/app/l'' False (Some app_roots) w3))"

text \<open>
  The operations of the service alone lead out of a scope: with a directory, a link to the root
  of the scope and a link made through it - the target is checked against the path of the request,
  the link is made where that path leads - a copy creates a file outside the scope.
\<close>

theorem scope_can_be_left:
  "kind_at clean_disk [''etc'', ''evil''] = None \<and> kind_at (escape_steps clean_disk) [''etc'', ''evil''] = Some (Reg ''payload'')"
  by code_simp

section \<open>Removal\<close>

lemma scoped_run: "vouts w = [] \<Longrightarrow> resolve R p w = Inr t \<Longrightarrow> bind (scoped (Some R) p) k w = k t w"
  by (simp add: io_simps scoped_def bind_def or_err_def get_calm lift_result_def)

lemma scoped_calm:
  "vouts w = [] \<Longrightarrow> safe_path raw = Inr p \<Longrightarrow> resolve R p w = Inr t \<Longrightarrow>
   bind (with_path raw) (\<lambda>s. bind (scoped (Some R) s) (k s)) w = k p t w"
  by (simp add: with_path_def io_simps scoped_def bind_def or_err_def get_calm lift_result_def)

lemma lstat_real: "wf_vfs w \<Longrightarrow> kind_at w t = Some k \<Longrightarrow> \<exists>n. lstat w t = Inr n \<and> ikind (inodes w n) = k \<and> ino w t = Some n"
proof -
  assume w: "wf_vfs w" and k: "kind_at w t = Some k"
  obtain n where n: "ino w t = Some n" "ikind (inodes w n) = k" using k by (auto simp: kind_at_def)
  have "place w t = Inr t"
  proof (cases "t = []")
    case False
    then show ?thesis using place_child[OF w wf_parent[OF w False], of "last t"] k by simp
  qed (simp add: place_def)
  with n show ?thesis by (simp add: lstat_def)
qed

text \<open>
  C13. Deleting a directory recursively in a scope, when no call fails, succeeds and removes exactly
  the names at and below it: all of them, and nothing else, links being unlinked and not followed.
  The bound of the walk, the depth of the file system, is enough for every tree.
\<close>

theorem recursive_delete_removes_tree:
  assumes "wf_vfs w" "vouts w = []" "safe_path raw = Inr p" "resolve R p w = Inr t"
    and "kind_at w t = Some Folder" "\<not> is_protected t" "\<not> in_pseudo_root t"
  shows "\<exists>w1. delete_one raw True (Some R) w = (Inr (), w1) \<and> inodes w1 = inodes w
    \<and> (\<forall>x. ino w1 x = (if within t x then None else ino w x))"
proof -
  obtain n where n: "lstat w t = Inr n" "ikind (inodes w n) = Folder" using lstat_real[OF assms(1,5)] by auto
  have "t \<noteq> []" using assms(6) by (auto simp: is_protected_def PROTECTED_PATHS_def)
  then have r: "remove_tree (tree_depth w) t w = (Inr (), drop_names (within t) w)"
    using remove_all(1)[OF assms(1,2,5) _ tree_depth_enough] by blast
  have "delete_one raw True (Some R) w = (Inr (), drop_names (within t) w)"
    unfolding delete_one_def scoped_calm[OF assms(2-4)]
    by (simp add: io_simps assms(6,7) fget_bind[OF assms(2)] n or_err_ok[where m = "remove_tree (tree_depth w) t", OF r])
  then show ?thesis by simp
qed

theorem recursive_delete_removes_tree_witness:
  "\<exists>w1. delete_one ''/app/d'' True (Some app_roots) app_disk = (Inr (), w1) \<and> inodes w1 = inodes app_disk
    \<and> (\<forall>x. ino w1 x = (if within [''app'', ''d''] x then None else ino app_disk x))"
proof -
  have "safe_path ''/app/d'' = Inr [''app'', ''d'']" "resolve app_roots [''app'', ''d''] app_disk = Inr [''app'', ''d'']"
    "kind_at app_disk [''app'', ''d''] = Some Folder" "\<not> is_protected [''app'', ''d'']" "\<not> in_pseudo_root [''app'', ''d'']"
    by code_simp+
  from recursive_delete_removes_tree[OF app_disk_wf app_calm this] show ?thesis .
qed

text \<open>
  Deleting a link in a scope, when it leads to a file of the scope, removes that file and leaves
  the link: the path was resolved, so what is unlinked is where the link leads.
\<close>

theorem scoped_delete_removes_target:
  assumes "wf_vfs w" "vouts w = []" "safe_path raw = Inr p" "kind_at w p = Some (Link l)" "follow w p = Inr t"
    and "contains_path R t" "kind_at w t = Some (Reg c)" "\<not> is_protected t"
  shows "\<exists>w1. delete_one raw recursive (Some R) w = (Inr (), w1) \<and> kind_at w1 t = None \<and> kind_at w1 p = Some (Link l)"
proof -
  have r: "resolve R p w = Inr t" using assms(5,6) by (simp add: resolve_Inr canon_prefix.simps[of w p])
  obtain n where n: "lstat w t = Inr n" "ikind (inodes w n) = Reg c" using lstat_real[OF assms(1,7)] by auto
  have "t \<noteq> []" using assms(8) by (auto simp: is_protected_def PROTECTED_PATHS_def)
  then have "place w t = Inr t" using place_child[OF assms(1) wf_parent[OF assms(1)], of t "last t"] assms(7) by simp
  then have u: "sys_unlink t w = Inr (drop_names (\<lambda>x. x = t) w)" using assms(7) by (simp add: sys_unlink_def)
  have f: "fsys t (sys_unlink t) w = (Inr (), drop_names (\<lambda>x. x = t) w)" by (simp add: or_err_def sys_calm[OF assms(2)] u)
  have "delete_one raw recursive (Some R) w = (Inr (), drop_names (\<lambda>x. x = t) w)"
    unfolding delete_one_def scoped_calm[OF assms(2,3) r]
    by (simp add: io_simps assms(8) fget_bind[OF assms(2)] n f)
  moreover have "p \<noteq> t" using assms(4,7) by auto
  ultimately show ?thesis using assms(4) by (simp add: kind_drop)
qed

theorem scoped_delete_removes_target_witness:
  "\<exists>w1. delete_one ''/app/in'' False (Some app_roots) app_disk = (Inr (), w1) \<and> kind_at w1 [''app'', ''a''] = None
    \<and> kind_at w1 [''app'', ''in''] = Some (Link ''a'')"
proof -
  have "safe_path ''/app/in'' = Inr [''app'', ''in'']" "kind_at app_disk [''app'', ''in''] = Some (Link ''a'')"
    "follow app_disk [''app'', ''in''] = Inr [''app'', ''a'']" "contains_path app_roots [''app'', ''a'']"
    "kind_at app_disk [''app'', ''a''] = Some (Reg ''payload'')" "\<not> is_protected [''app'', ''a'']"
    by code_simp+
  from scoped_delete_removes_target[OF app_disk_wf app_calm this] show ?thesis .
qed

section \<open>Copies\<close>

text \<open>
  C12. Copying a tree without special files in a scope to a free name, when no call fails, succeeds:
  what is at the source and below is then at the destination and below with the same kinds and
  contents - links with the same text - and nothing else changed. The bound of the walk is enough.
\<close>

theorem copy_duplicates_tree:
  assumes "wf_vfs w" "vouts w = []" "safe_path a = Inr s" "safe_path b = Inr d" "resolve R s w = Inr src" "resolve R d w = Inr dst"
    and "kind_at w src \<noteq> None" "\<forall>x. kind_at w (src @ x) \<noteq> Some Special" "kind_at w (butlast dst) = Some Folder"
    and "kind_at w dst = None" "\<not> is_protected dst" "\<not> in_pseudo_root src" "\<not> within src dst"
  shows "\<exists>e bytes files w1. copy_path nl a b ov (Some R) w = (Inr (e, bytes, files), w1)
    \<and> (\<forall>x. kind_at w1 (dst @ x) = kind_at w (src @ x)) \<and> (\<forall>x. \<not> within dst x \<longrightarrow> ino w1 x = ino w x)
    \<and> (\<forall>n < fresh w. inodes w1 n = inodes w n)"
proof -
  have set: "settled w dst" and pl: "list_all plain_name dst"
    using resolve_inside[OF assms(6,1) safe_path_plain[OF assms(4)]] by (auto simp: inside_def)
  have "dst \<noteq> []" using assms(10) wf_root[OF assms(1)] by auto
  then have "can_copy (tree_depth w) src dst w" using assms pl tree_depth_enough[of w src] by (simp add: can_copy_def)
  from copy_all[OF this] obtain files bytes w1 where c: "copy_recursive (tree_depth w) src dst w = (Inr (files, bytes), w1)"
    "grown_by dst w w1" "\<forall>x. kind_at w1 (dst @ x) = kind_at w (src @ x)" unfolding copy_ok_def by auto
  have no: "\<not> exists_follow w dst"
    using follow_settled[OF assms(1) set] assms(10) kind_at_None[of w dst]
    by (auto simp: exists_follow_def stat_follow_def ok_or_def split: sum.split)
  have w1: "wf_vfs w1" "vouts w1 = []" using c(2) by (simp_all add: grown_by_def)
  obtain k where "kind_at w1 dst = Some k" using c(3) assms(7) by (auto dest: spec[of _ "[]"])
  from lstat_real[OF w1(1) this] obtain n where n: "lstat w1 dst = Inr n" by blast
  then obtain e where e: "describe nl dst w1 = Inr e" by (auto simp: describe_def)
  have "copy_path nl a b ov (Some R) w = (Inr (e, bytes, files), w1)"
    using no assms(11-13)
    by (simp add: copy_path_def with_path_def io_simps assms(3,4) scoped_run[OF assms(2,5)] scoped_run[OF assms(2,6)]
        fget_bind[where g = "describe nl dst" and w = w1, OF w1(2) e]
        bind_ok[where m = "copy_recursive (tree_depth w) src dst" and w = w, OF c(1)] del: copy_recursive.simps)
  with c(2,3) show ?thesis unfolding grown_by_def by blast
qed

theorem copy_duplicates_tree_witness:
  "\<exists>e bytes files w1. copy_path no_names ''/app/d'' ''/app/e'' False (Some app_roots) app_disk = (Inr (e, bytes, files), w1)
    \<and> (\<forall>x. kind_at w1 ([''app'', ''e''] @ x) = kind_at app_disk ([''app'', ''d''] @ x))
    \<and> (\<forall>x. \<not> within [''app'', ''e''] x \<longrightarrow> ino w1 x = ino app_disk x)
    \<and> (\<forall>n < fresh app_disk. inodes w1 n = inodes app_disk n)"
proof (rule copy_duplicates_tree[OF app_disk_wf app_calm])
  have "list_all (\<lambda>(p, n). ikind (inodes app_disk n) \<noteq> Special) (names app_disk)" by code_simp
  then show "\<forall>x. kind_at app_disk ([''app'', ''d''] @ x) \<noteq> Some Special"
    by (auto simp: kind_at_def ino_def list_all_iff dest!: map_of_SomeD)
qed code_simp+

text \<open>
  Copying a file onto another name of the same file empties it: the destination is emptied before
  the source is read.
\<close>

theorem copy_onto_itself_empties:
  "kind_at (snd (copy_path no_names ''/app/a'' ''/app/b'' True (Some app_roots)
      (snd (create_link no_names ''/app/b'' ''a'' Hard (Some app_roots) clean_disk)))) [''app'', ''a''] = Some (Reg [])"
  by code_simp

section \<open>Uploads\<close>

text \<open>
  C9. An upload into a directory of a scope is all or nothing. Whatever fails and whenever the
  stream is aborted, the target is what it was before or, only when the whole stream arrived, a
  new file with exactly the bytes of the chunks; a reported success means the latter. Nothing
  outside the roots changes, no other name does but that of the temporary file, and no file that
  was there before is written to.
\<close>

theorem upload_all_or_nothing:
  assumes "wf_vfs w" "\<forall>r \<in> set R. kind_at w r = Some Folder" "safe_path (wh_directory h) = Inr p" "resolve R p w = Inr d"
    and "plain_name (temp_name hex)" "temp_name hex \<noteq> wh_name h"
    and "upload nl hex h chunks finished (Some R) w = (r, w1)"
  shows "confined R w w1 \<and> (\<forall>n < fresh w. inodes w1 n = inodes w n)
    \<and> (\<forall>x. x \<noteq> d @ [wh_name h] \<and> x \<noteq> d @ [temp_name hex] \<longrightarrow> ino w1 x = ino w x)
    \<and> (ino w1 (d @ [wh_name h]) = ino w (d @ [wh_name h]) \<or> finished \<and> kind_at w1 (d @ [wh_name h]) = Some (Reg (concat chunks)))
    \<and> ((\<exists>e. r = Inr (Some e)) \<longrightarrow> kind_at w1 (d @ [wh_name h]) = Some (Reg (concat chunks)) \<and> ino w1 (d @ [temp_name hex]) = None)"
proof -
  have j: "jail R w w" using assms(1,2) by (simp add: jail_def)
  have b: "d @ [wh_name h] \<noteq> d @ [temp_name hex]" using assms(6) by auto
  from upload_step[OF j assms(3-6), of nl chunks finished]
  have u: "case r of Inl e \<Rightarrow> upload_outcome R w (d @ [temp_name hex]) (d @ [wh_name h]) (concat chunks) finished w1
    | Inr x \<Rightarrow> (if x = None then aborted R w (d @ [temp_name hex]) w1
        else finished \<and> landed R w (d @ [temp_name hex]) (d @ [wh_name h]) (concat chunks) w1)"
    unfolding triple_def by (elim allE[of _ w] impE[OF _ only_vouts_refl]) (simp only: assms(7) fst_conv snd_conv)
  then have o: "aborted R w (d @ [temp_name hex]) w1
      \<or> finished \<and> landed R w (d @ [temp_name hex]) (d @ [wh_name h]) (concat chunks) w1"
    by (auto simp: upload_outcome_def split: sum.splits if_splits)
  have l: "kind_at w1 (d @ [wh_name h]) = Some (Reg (concat chunks)) \<and> ino w1 (d @ [temp_name hex]) = None"
    if "landed R w (d @ [temp_name hex]) (d @ [wh_name h]) (concat chunks) w1"
    using that by (simp add: landed_def uploaded_def kind_at_def)
  have s: "landed R w (d @ [temp_name hex]) (d @ [wh_name h]) (concat chunks) w1" if "r = Inr (Some e)" for e
    using u that by simp
  show ?thesis
    using o
  proof
    assume a: "aborted R w (d @ [temp_name hex]) w1"
    then show ?thesis using b l s by (auto simp: aborted_def untouched_but_def caged_def)
  next
    assume a: "finished \<and> landed R w (d @ [temp_name hex]) (d @ [wh_name h]) (concat chunks) w1"
    then show ?thesis using l by (auto simp: landed_def uploaded_def caged_def)
  qed
qed

definition up_header :: write_header where
  "up_header = \<lparr>wh_directory = ''/app/d'', wh_name = ''f'', wh_overwrite = True, wh_mode = None\<rparr>"

theorem upload_all_or_nothing_witness:
  "kind_at (snd (upload no_names ''0a'' up_header [''ab'', ''c''] True (Some app_roots) app_disk)) [''app'', ''d'', ''f''] = Some (Reg ''abc'')
   \<and> confined app_roots app_disk (snd (upload no_names ''0a'' up_header [''ab'', ''c''] True (Some app_roots) app_disk))"
proof -
  have p: "safe_path (wh_directory up_header) = Inr [''app'', ''d'']" "resolve app_roots [''app'', ''d''] app_disk = Inr [''app'', ''d'']"
    "plain_name (temp_name ''0a'')" "temp_name ''0a'' \<noteq> wh_name up_header" by code_simp+
  have n: "wh_name up_header = ''f''" by (simp add: up_header_def)
  obtain r w1 where r: "upload no_names ''0a'' up_header [''ab'', ''c''] True (Some app_roots) app_disk = (r, w1)" by fastforce
  have "\<not> (case fst (upload no_names ''0a'' up_header [''ab'', ''c''] True (Some app_roots) app_disk) of
      Inl e \<Rightarrow> True | Inr None \<Rightarrow> True | Inr (Some e) \<Rightarrow> False)" by code_simp
  then have "\<exists>e. r = Inr (Some e)" by (auto simp: r split: sum.splits option.splits)
  with upload_all_or_nothing[OF conjunct1[OF app_jail] conjunct2[OF app_jail] p r] r n show ?thesis by simp
qed

text \<open>
  A commit that fails leaves the temporary file: the handle has given up its file before the
  rename, here onto a directory, and dropping a handle without a file removes nothing.
\<close>

definition dir_header :: write_header where
  "dir_header = \<lparr>wh_directory = ''/app'', wh_name = ''d'', wh_overwrite = True, wh_mode = None\<rparr>"

theorem failed_commit_leaves_part:
  "(case upload no_names ''0a'' dir_header [''ab''] True (Some app_roots) app_disk of
     (Inl e, w1) \<Rightarrow> kind_at w1 [''app'', ''.asc-upload-0a.part''] = Some (Reg ''ab'') | (Inr x, w1) \<Rightarrow> False)"
  by code_simp

end
