(* ===== verification/Spec2Isabelle.thy ===== *)
theory Spec2Isabelle
  imports WebCare TokenRaces FwProps FirewallProps BackupProps ScheduleProps JobProps WgCare FileProps
begin

text \<open>
  A verification library for asc-daemon, the daemon that manages applications (containers,
  systemd services, processes) on a Linux host. Every path below is relative to
  \<^verbatim>\<open>src/src/daemon/\<close>. The library models the parts of the daemon that decide something by
  themselves and whose mistakes cost the operator most: the firewall that may lock him out,
  the backups he restores from, the jobs that run unattended, the WireGuard files that hold
  his keys, the file manager that must stay inside an app, the tokens that let a caller in,
  and the sites of the web server, whose fields end up in a configuration file.

  \<^bold>\<open>How the code is read.\<close> Structs are records, enums datatypes, \<open>Result\<close> is a sum whose left side
  is an error datatype (texts of errors are constructors), machine integers are words or
  numbers with the wrap-around, saturation or bound written out. A function with side effects
  is a computation \<open>('w, 'e, 'a) io\<close> (HostIO): a function of a world record that returns a
  result and the new world. Every effect - a write, a rename, a command, a system call - takes
  one \<^emph>\<open>outcome\<close> from the world: it works, it fails, or the daemon is killed there and nothing
  after it happens. A theorem about a world therefore speaks of all failures and crashes at
  all points; a theorem that needs calls to work says so (an empty list of outcomes).
  Operations are atomic where the code holds a lock over them; where it does not, the parts are steps of
  their own (rotations of the token in TokenRaces, runs of a job in JobRuns).
  Crashes between two effects are what a restart finds, and the machines of FirewallRuns and
  JobRuns have restarts as steps.

  \<^bold>\<open>Theories and code.\<close>
  \<^item> Prelude (results, strings as the code uses them, the \<open>named_theorems\<close>), Numerals (numbers
    as text), HostIO (effects, \<open>keeps\<close>, \<open>frames\<close> and \<open>triple\<close> with their rules), Interfaces
    (the locales \<open>codec\<close>, \<open>keyed_store\<close> and others, interpreted by the components).
  \<^item> Firewall, \<^verbatim>\<open>firewall/\<close>: NetAddr (addresses and networks), FwModel (\<^verbatim>\<open>model.rs\<close>), FwHost
    (\<^verbatim>\<open>host.rs\<close>), FwRender (\<^verbatim>\<open>render.rs\<close>), Firewall (\<^verbatim>\<open>mod.rs\<close>, \<^verbatim>\<open>persist.rs\<close>: state files, edits,
    apply, confirm, roll back, timer, recover), FirewallInv, FirewallTxn, FirewallRuns
    (invariants, what successful operations do, the machine of all operations), FwProps,
    FirewallProps.
  \<^item> Backups, \<^verbatim>\<open>backup/\<close> and \<^verbatim>\<open>apps/\<close>: Glob (\<^verbatim>\<open>glob.rs\<close>), FileTree (directories as trees), AppLayout
    (\<^verbatim>\<open>apps/layout.rs\<close>, \<^verbatim>\<open>apps/meta.rs\<close>), Storage (\<^verbatim>\<open>storage.rs\<close>), Backup (\<^verbatim>\<open>mod.rs\<close>), Rotation,
    BackupRuns, BackupProps.
  \<^item> Scheduler, \<^verbatim>\<open>scheduler/\<close>: Schedule (\<^verbatim>\<open>mod.rs\<close>: cron texts and the next run), Jobs (\<^verbatim>\<open>jobs.rs\<close>),
    JobRuns (\<^verbatim>\<open>mod.rs\<close>: running jobs, passes, the minute loop), JobSpec (the abstract store),
    ScheduleProps, JobProps.
  \<^item> WireGuard, \<^verbatim>\<open>wireguard/\<close>: WgModel (\<^verbatim>\<open>model.rs\<close>), WgConf (\<^verbatim>\<open>conf.rs\<close>), WgNets, WgNorm, WgRound,
    WgProps; WgTool (\<^verbatim>\<open>tool.rs\<close>: the calls of \<open>wg\<close>, \<open>wg-quick\<close> and \<open>systemctl\<close>), WgManager (\<^verbatim>\<open>mod.rs\<close>: the
    operations on \<open>/etc/wireguard\<close>), WgFiles and WgKeep (what an operation does to the files), WgMoves (every
    operation is a sequence of moves of an abstract file store), WgTunnels and WgFollow (running tunnels and
    their files), WgCare.
  \<^item> File service, \<^verbatim>\<open>files/\<close>: PathNames (\<^verbatim>\<open>path.rs\<close>), LinkFs (the file system: names, inodes, hard and
    symbolic links, the kernel's path lookup and the system calls the service makes),
    FileScope (\<^verbatim>\<open>scope.rs\<close>), FileOps (\<^verbatim>\<open>mod.rs\<close>, \<^verbatim>\<open>walk.rs\<close>), then the proofs: FileConfine and
    FileJail (what one call changes), FileSteps, FileGuard, FileCopy and FileSafe (operations
    stay below the roots), FileUpload, FileTrees (what removal and copying achieve), FileProps.
  \<^item> Tokens, \<^verbatim>\<open>api/\<close>: Texts (UTF-8, blanks, lower case), Tokens (\<^verbatim>\<open>tokens.rs\<close>, \<^verbatim>\<open>console.rs\<close>, the token
    handlers of \<^verbatim>\<open>rest.rs\<close> and the token file of \<^verbatim>\<open>mod.rs\<close>), TokenInv (the machine of all moves and its
    invariants), TokenProps; TokenRaces (a rotation in its three parts, with other requests between them).
  \<^item> Web server, \<^verbatim>\<open>webserver/\<close>: WebModel (\<^verbatim>\<open>model.rs\<close>: settings, sites, validation), WebRender
    (\<^verbatim>\<open>render.rs\<close>, \<^verbatim>\<open>cloudflare.rs\<close>: the files of nginx), WebConf (the words and blocks of nginx's syntax, a
    scanner), WebTree (the directives a site asks for, and that its file reads as them), WebNorm
    (what validation guarantees), WebProps; WebHealth (\<^verbatim>\<open>health.rs\<close>), WebApply (\<^verbatim>\<open>apply.rs\<close> and what it
    calls of \<^verbatim>\<open>engine.rs\<close>), WebSites (\<^verbatim>\<open>mod.rs\<close>: stores, operations, certificates, background pass),
    WebSwap (what an apply does to the files), WebStore (what the operations do to the stores),
    WebLive, WebCare.

  \<^bold>\<open>What the lemmas show.\<close>
  \<^item> Firewall: a change that nobody confirms is undone, also across crashes and failed writes;
    a confirmed change is committed as applied; boot files change only by a commit; the stored
    model stays well formed; denials come first, sources never widen, no text of a rule escapes
    its line, SSH stays reachable under its preset.
  \<^item> Backups: a restore brings back what was saved and not excluded; saving metadata is atomic;
    rotation keeps the newest archives and those of others; the matcher decides the language
    that the patterns denote, where a question mark does not meet a character outside ASCII. At the places a
    backup and a restore name - \<^verbatim>\<open>repository\<close>, \<^verbatim>\<open>data\<close>, the settings - there is no symbolic link.
  \<^item> Scheduler: the search for the next run equals the minute by minute reference in UTC; a printed
    cron schedule reads back; the job store refines a pair of maps; the daemon runs no job twice at a time,
    but a run of the command line, a process of its own, may overlap;
    a push of managed jobs leaves the others alone; every minute is visited once.
  \<^item> WireGuard: a normalised interface with plain hooks survives writing and reading its file; hidden keys do not
    show; containment by masks is inclusion of address sets; allocated addresses are free and
    the lowest; normalisation is idempotent. In every run of the manager the listen ports of its interfaces
    stay apart and foreign files are left alone, but for those that ask \<open>wg-quick\<close> to save over them; a refused change is put back; a tunnel that is in line with
    its file stays so, or the operation says that it cannot tell; adding a peer adds that peer only.
  \<^item> File service: resolved paths are real and inside; scoped changes are confined, copies and
    archives when their destination holds no link - and the scope can be left when it does;
    uploads are all or nothing; removing and copying a tree do exactly that.
  \<^item> Tokens: after a rotation and its window the old primary is dead, revoked access tokens stay
    dead, a restart knows the primary as long as rotations do not overlap (two lemmas show what happens when
    they do), an access token manages nothing, lifetimes are clamped, a
    console token is redeemed once - in every run of the moves with failures and crashes.
  \<^item> Web server: the file of a validated site reads, in nginx's syntax, as the directives its
    fields ask for and nothing more, hash keys with a comment sign or a backslash excepted; validation is a normal
    form; three gaps of validation. When nginx judges file by file and names the file it refuses, one bad site
    does not take the others down; a refused apply or settings change leaves the live files and the stores
    alone, and nginx runs on, unless its container lacks a directory and is recreated; the stored sites stay well formed and a push touches one
    owner only; a server is out of rotation exactly by its probes; retries back off. The blame of a
    site can hit the wrong one, and nobody for certificates of ACME.

  \<^bold>\<open>Bounds.\<close> Loops of the code that are structural, or that a measure ends, are total functions. The
  search for the next run has the code's own limit of 366 days; the rollback timer its 12
  attempts; \<open>allocate\<close> the code's scan limit; the loop of an apply ends since a blamed site loses its new
  file, then its old one, so nginx is asked at most twice for every site and once more. The lookup of a path follows at most 40 links, as
  the kernel does. Walks over the file service's trees recurse with the depth of the file system as
  fuel: \<open>recursive_delete_removes_tree\<close> and \<open>copy_duplicates_tree\<close> show that this is enough.

  \<^bold>\<open>Parameters.\<close> Code that is not in the repository is an argument: the calendar (\<open>gmtime_r\<close>) and
  local time, \<open>nft\<close> and \<open>systemctl\<close>, the tar and gzip formats, names of user ids, random texts, the
  verdict of nginx on a tree of files (a container that starts runs nginx on the live files if it accepts them),
  the facts of a certificate, and the tools \<open>wg\<close> and \<open>wg-quick\<close>, of which
  only \<open>tunnels_follow_files\<close> supposes that they do what their manuals say (\<open>documented\<close> in WgTool); one of them writes a file: \<open>wg-quick down\<close> saves over a file that says
  \<open>SaveConfig = true\<close>. What a
  job does when it runs is arbitrary. JSON documents are values that are there, missing or
  damaged. Strings are lists of characters up to U+00FF, with \<open>byte_len\<close> for UTF-8 lengths.

  \<^bold>\<open>Not modelled.\<close> The command line (\<^verbatim>\<open>cli/\<close>; of it, only a run of a job), the API servers (\<^verbatim>\<open>api/\<close>) and the MCP server convert and
  dispatch; the Docker client, compose, process and systemd drivers, the monitor, installing the web
  server and the orders of ACME (\<^verbatim>\<open>webserver/engine.rs\<close>, \<^verbatim>\<open>acme.rs\<close>, \<^verbatim>\<open>cert.rs\<close>), fail2ban and the updater talk to programs and sockets outside the
  repository; \<^verbatim>\<open>backup/s3.rs\<close> is an HTTP client; \<^verbatim>\<open>firewall/nft.rs\<close> and \<^verbatim>\<open>firewall/conflicts.rs\<close>
  run commands. The WireGuard manager reads files without failures but those of their contents, the previous file
  of a change excepted. Of modelled components: running \<open>sshd -T\<close> and installing nftables,
  executing the action of a job, \<open>run_due_backups\<close>, and collecting the roots of an app's scope.
  Left of the plan are the settings of packages (\<^verbatim>\<open>pkg/settings.rs\<close>).
\<close>

end
